(* ===== verification/Store.thy ===== *)
theory Store
  imports Prelude
begin

text \<open>
  The ordered key-value store under the daemon: a sled tree (\<open>balance\<close>, \<open>ledger\<close>,
  \<open>credit_ledger\<close>, \<open>issued_charges\<close> of the treasury) and the \<open>BTreeMap\<close>s of the fleet. Both keep
  their entries in ascending byte order of the key and iterate in that order, so a tree is its
  entry list. \<open>kv_store\<close> states what the clients rely on; the tree operations below are its
  instance, and the clients' counting, summing and filtering facts are proved once from the laws.
\<close>

type_synonym ('k, 'v) tree = "('k \<times> 'v) list"

fun tget :: "('k::linorder, 'v) tree \<Rightarrow> 'k \<Rightarrow> 'v option" where
  "tget [] k = None"
| "tget ((j, v) # t) k = (if j = k then Some v else tget t k)"

fun tinsert :: "'k::linorder \<Rightarrow> 'v \<Rightarrow> ('k, 'v) tree \<Rightarrow> ('k, 'v) tree" where
  "tinsert k v [] = [(k, v)]"
| "tinsert k v ((j, w) # t) =
     (if j < k then (j, w) # tinsert k v t
      else if j = k then (k, v) # t
      else (k, v) # (j, w) # t)"

fun tremove :: "'k::linorder \<Rightarrow> ('k, 'v) tree \<Rightarrow> ('k, 'v) tree" where
  "tremove k [] = []"
| "tremove k ((j, w) # t) = (if j = k then t else (j, w) # tremove k t)"

definition tkeys :: "('k, 'v) tree \<Rightarrow> 'k list" where
  "tkeys t = map fst t"

definition tvals :: "('k, 'v) tree \<Rightarrow> 'v list" where
  "tvals t = map snd t"

definition tree_ok :: "('k::linorder, 'v) tree \<Rightarrow> bool" where
  "tree_ok t \<longleftrightarrow> sorted_wrt (<) (map fst t)"

text \<open>An interface of a finite map with iteration, and what follows from it.\<close>

locale kv_store =
  fixes get :: "'m \<Rightarrow> 'k \<Rightarrow> 'v option"
    and put :: "'k \<Rightarrow> 'v \<Rightarrow> 'm \<Rightarrow> 'm"
    and del :: "'k \<Rightarrow> 'm \<Rightarrow> 'm"
    and entries :: "'m \<Rightarrow> ('k \<times> 'v) list"
    and ok :: "'m \<Rightarrow> bool"
  assumes get_put: "ok m \<Longrightarrow> get (put k v m) j = (if j = k then Some v else get m j)"
    and get_del: "ok m \<Longrightarrow> get (del k m) j = (if j = k then None else get m j)"
    and ok_put: "ok m \<Longrightarrow> ok (put k v m)"
    and ok_del: "ok m \<Longrightarrow> ok (del k m)"
    and distinct_entries: "ok m \<Longrightarrow> distinct (map fst (entries m))"
    and entries_get: "ok m \<Longrightarrow> (k, v) \<in> set (entries m) \<longleftrightarrow> get m k = Some v"
begin

lemma get_put_same: "ok m \<Longrightarrow> get (put k v m) k = Some v"
  by (simp add: get_put)

lemma get_put_other: "ok m \<Longrightarrow> j \<noteq> k \<Longrightarrow> get (put k v m) j = get m j"
  by (simp add: get_put)

lemma key_in_entries: "ok m \<Longrightarrow> k \<in> fst ` set (entries m) \<longleftrightarrow> get m k \<noteq> None"
  using entries_get [of m k] by force

lemma put_stable: "ok m \<Longrightarrow> get m k = None \<Longrightarrow> get m j = Some w \<Longrightarrow> get (put k v m) j = Some w"
  by (auto simp: get_put)

lemma set_entries: "ok m \<Longrightarrow> set (entries m) = {(k, v). get m k = Some v}"
  using entries_get by auto

lemma set_entries_put_fresh:
  assumes "ok m" and "get m k = None"
  shows "set (entries (put k v m)) = insert (k, v) (set (entries m))"
  using assms by (auto simp: entries_get ok_put get_put split: if_splits)

lemma mset_entries_put_fresh:
  assumes "ok m" and "get m k = None"
  shows "mset (entries (put k v m)) = add_mset (k, v) (mset (entries m))"
proof -
  have "distinct (entries (put k v m))" and "distinct ((k, v) # entries m)"
    using assms distinct_entries [of m] distinct_entries [of "put k v m"]
    by (auto simp: ok_put entries_get distinct_map)
  moreover have "set (entries (put k v m)) = set ((k, v) # entries m)"
    using assms by (simp add: set_entries_put_fresh)
  ultimately have "mset (entries (put k v m)) = mset ((k, v) # entries m)"
    using set_eq_iff_mset_eq_distinct [of "entries (put k v m)" "(k, v) # entries m"] by blast
  then show ?thesis by simp
qed

lemma sum_entries_put_fresh:
  fixes f :: "'k \<times> 'v \<Rightarrow> nat"
  assumes "ok m" and "get m k = None"
  shows "sum_list (map f (entries (put k v m))) = f (k, v) + sum_list (map f (entries m))"
proof -
  have "sum_mset (image_mset f (mset (entries (put k v m)))) =
      f (k, v) + sum_mset (image_mset f (mset (entries m)))"
    using assms by (simp add: mset_entries_put_fresh)
  then show ?thesis by (simp only: sum_mset_sum_list mset_map [symmetric])
qed

lemma count_entries_put_fresh:
  assumes "ok m" and "get m k = None"
  shows "length (filter P (entries (put k v m))) =
    (if P (k, v) then 1 else 0) + length (filter P (entries m))"
proof -
  have "size (filter_mset P (mset (entries (put k v m)))) =
      (if P (k, v) then 1 else 0) + size (filter_mset P (mset (entries m)))"
    using assms by (simp add: mset_entries_put_fresh)
  then show ?thesis by (simp only: size_mset mset_filter [symmetric])
qed

end

section \<open>The tree is such a store\<close>

lemma tget_notin: "tget t k = None \<longleftrightarrow> k \<notin> fst ` set t"
  by (induction t) (auto split: if_splits)

lemma tget_tinsert: "tget (tinsert k v t) j = (if j = k then Some v else tget t j)"
  if "tree_ok t" for t :: "('k::linorder, 'v) tree"
  using that
proof (induction t)
  case (Cons p t)
  obtain i w where p: "p = (i, w)" by (cases p)
  have "tget t k = None" if "k < i"
    using Cons.prems that by (force simp: tree_ok_def p tget_notin)
  with Cons show ?case by (auto simp: p tree_ok_def)
qed auto

lemma keys_tinsert: "fst ` set (tinsert k v t) = insert k (fst ` set t)"
  by (induction k v t rule: tinsert.induct) auto

lemma tree_ok_tinsert: "tree_ok t \<Longrightarrow> tree_ok (tinsert k v t)"
proof (induction k v t rule: tinsert.induct)
  case (2 k v j w t)
  then have "\<forall>x\<in>fst ` set (tinsert k v t). j < k \<longrightarrow> j < x"
    by (auto simp: keys_tinsert tree_ok_def)
  with 2 show ?case by (auto simp: tree_ok_def)
qed (simp add: tree_ok_def)

lemma tget_tremove: "tget (tremove k t) j = (if j = k then None else tget t j)"
  if "tree_ok t" for t :: "('k::linorder, 'v) tree"
  using that
proof (induction t)
  case (Cons p t)
  then show ?case by (cases p) (force simp: tree_ok_def tget_notin)
qed auto

lemma keys_tremove: "set (tremove k t) \<subseteq> set t"
  by (induction k t rule: tremove.induct) auto

lemma tree_ok_tremove: "tree_ok t \<Longrightarrow> tree_ok (tremove k t)"
proof (induction k t rule: tremove.induct)
  case (2 k j w t)
  then have "\<forall>x\<in>fst ` set (tremove k t). j < x"
    using keys_tremove [of k t] by (auto simp: tree_ok_def)
  with 2 show ?case by (auto simp: tree_ok_def)
qed (simp add: tree_ok_def)

lemma tree_ok_Nil [simp]: "tree_ok []"
  by (simp add: tree_ok_def)

lemma tree_ok_distinct: "tree_ok t \<Longrightarrow> distinct (map fst t)"
  by (simp add: tree_ok_def strict_sorted_iff)

lemma tget_in_set: "tree_ok t \<Longrightarrow> (k, v) \<in> set t \<longleftrightarrow> tget t k = Some v"
proof (induction t)
  case (Cons p t)
  then show ?case by (cases p) (force simp: tree_ok_def)
qed auto

interpretation sled: kv_store tget tinsert tremove "\<lambda>t. t" tree_ok
  by unfold_locales
    (simp_all add: tget_tinsert tget_tremove tree_ok_tinsert tree_ok_tremove
      tree_ok_distinct tget_in_set)

lemmas tree_simps [simp] = sled.get_put sled.get_del sled.ok_put sled.ok_del

lemma tget_mem: "tget t k = Some v \<Longrightarrow> (k, v) \<in> set t"
  by (induction t) (auto split: if_splits)

lemma tvals_tget: "tget t k = Some v \<Longrightarrow> v \<in> set (tvals t)"
  by (auto simp: tvals_def dest!: tget_mem intro: rev_image_eqI)

end
