(* ===== verification/Treasury.thy ===== *)
theory Treasury
  imports Store
begin

text \<open>
  The daemon-owned treasury of \<open>crates/kirby-node/src/treasury.rs\<close>: the four sled trees, the
  two in-memory atomics, every operation with all its branches, and the account they implement.

  What sled and serde do is an input of the model: each mutating operation takes a \<open>sled_io\<close>
  saying whether its transaction or its flush fails (a failed transaction applies nothing; a
  failed flush reports an error after the transaction has been applied in memory), and a stored
  ledger row is either what \<open>serde_json\<close> decodes (\<open>Row\<close>) or bytes it refuses (\<open>Garbage\<close>).
\<close>

section \<open>Errors, rows, state\<close>

datatype sled_error = Sled_Io string | Sled_other string

datatype sled_io = Io_ok | Txn_fault sled_error | Flush_fault sled_error

datatype treasury_error = Storage sled_error | Corrupt string

definition is_lock_contention :: "treasury_error \<Rightarrow> bool" where
  "is_lock_contention err =
     (case err of Storage (Sled_Io msg) \<Rightarrow> str_contains ''could not acquire lock'' msg | _ \<Rightarrow> False)"

definition BALANCE_KEY :: bytes where "BALANCE_KEY = ''remaining_sats''"

definition CREDIT_PROOF_MARKER :: bytes where "CREDIT_PROOF_MARKER = ''credit-verified''"

definition CREDIT_TERMINAL_OVERFLOW_MARKER :: bytes where
  "CREDIT_TERMINAL_OVERFLOW_MARKER = ''credit-terminal-overflow''"

definition RUNWAY_HINT_UNKNOWN :: u64 where "RUNWAY_HINT_UNKNOWN = - 1"

record performed_record =
  pr_cost_sats :: u64
  pr_treasury_remaining_after :: u64
  pr_proof :: bytes
  pr_completion :: bytes
  pr_memory :: bytes
  pr_request_hash :: bytes

datatype stored_row = Row performed_record | Garbage string

fun from_slice :: "stored_row \<Rightarrow> string + performed_record" where
  "from_slice (Row r) = Inr r"
| "from_slice (Garbage e) = Inl e"

record treasury =
  balance :: "(bytes, bytes) tree"
  ledger :: "(bytes, stored_row) tree"
  credit_ledger :: "(bytes, stored_row) tree"
  issued_charges :: "(bytes, bytes) tree"
  rent_sats :: u64
  runway_hint :: u64

record economics_snapshot =
  es_remaining_sats :: u64
  es_income_sats :: u64
  es_spent_sats :: u64
  es_jobs_settled :: u64

datatype charge_method_tag = Tag_Lightning | Tag_Cashu

fun as_byte :: "charge_method_tag \<Rightarrow> char" where
  "as_byte Tag_Lightning = char_of (1::nat)"
| "as_byte Tag_Cashu = char_of (2::nat)"

definition from_byte :: "char \<Rightarrow> charge_method_tag option" where
  "from_byte b = (if b = char_of (1::nat) then Some Tag_Lightning
                  else if b = char_of (2::nat) then Some Tag_Cashu else None)"

datatype debit_outcome =
    Debited u64 u64 \<comment> \<open>cost, remaining\<close>
  | Debit_Duplicate performed_record
  | Insufficient u64

datatype credit_outcome =
    Credited u64 u64 \<comment> \<open>amount, remaining\<close>
  | Credit_Duplicate performed_record
  | Overflow u64
  | Terminal performed_record

datatype reconcile_outcome = Raised u64 u64 | Lowered u64 u64 | Unchanged u64

text \<open>The ratio of two counters as an \<open>f64\<close> is a parameter: floating point is not modelled.\<close>

definition margin_ratio :: "(u64 \<Rightarrow> u64 \<Rightarrow> 'f) \<Rightarrow> u64 \<Rightarrow> u64 \<Rightarrow> u64 \<Rightarrow> 'f option" where
  "margin_ratio f64_div income spent rent =
     (let cost = saturating_add spent rent
      in if cost = 0 then None else Some (f64_div income cost))"

section \<open>Opening and reading\<close>

definition decode_u64_tx :: "bytes \<Rightarrow> string + u64" where
  "decode_u64_tx raw = (if length raw = 8 then Inr (from_be_bytes raw)
                        else Inl (''expected 8 bytes, got '' @ show_nat (length raw)))"

definition decode_u64 :: "bytes \<Rightarrow> treasury_error + u64" where
  "decode_u64 raw = (if length raw = 8 then Inr (from_be_bytes raw)
                     else Inl (Corrupt (''expected 8 bytes, got '' @ show_nat (length raw))))"

text \<open>An absent database directory: four empty trees.\<close>

definition fresh_store :: treasury where
  "fresh_store = \<lparr>balance = [], ledger = [], credit_ledger = [], issued_charges = [],
     rent_sats = 0, runway_hint = RUNWAY_HINT_UNKNOWN\<rparr>"

text \<open>\<open>disk\<close> is what the trees held when the database was last closed; its atomics are ignored.\<close>

definition treasury_open :: "sled_io \<Rightarrow> treasury \<Rightarrow> u64 \<Rightarrow> treasury_error + treasury" where
  "treasury_open io disk initial =
     (case io of
        Txn_fault e \<Rightarrow> Inl (Storage e)
      | Flush_fault e \<Rightarrow> Inl (Storage e)
      | Io_ok \<Rightarrow> Inr (disk\<lparr>
          balance := (case tget (balance disk) BALANCE_KEY of
                        None \<Rightarrow> tinsert BALANCE_KEY (to_be_bytes initial) (balance disk)
                      | Some _ \<Rightarrow> balance disk),
          rent_sats := 0, runway_hint := RUNWAY_HINT_UNKNOWN\<rparr>))"

definition open_temporary :: "u64 \<Rightarrow> treasury" where
  "open_temporary initial =
     fresh_store\<lparr>balance := tinsert BALANCE_KEY (to_be_bytes initial) (balance fresh_store)\<rparr>"

definition remaining :: "treasury \<Rightarrow> treasury_error + u64" where
  "remaining t = (case tget (balance t) BALANCE_KEY of
                    None \<Rightarrow> Inl (Corrupt ''balance key missing'')
                  | Some raw \<Rightarrow> decode_u64 raw)"

definition lookup :: "bytes \<Rightarrow> treasury \<Rightarrow> treasury_error + performed_record option" where
  "lookup key t = (case tget (ledger t) key of
      None \<Rightarrow> Inr None
    | Some raw \<Rightarrow> (case from_slice raw of
        Inl e \<Rightarrow> Inl (Corrupt (''ledger record: '' @ e)) | Inr r \<Rightarrow> Inr (Some r)))"

definition credit_lookup :: "bytes \<Rightarrow> treasury \<Rightarrow> treasury_error + performed_record option" where
  "credit_lookup cid t = (case tget (credit_ledger t) cid of
      None \<Rightarrow> Inr None
    | Some raw \<Rightarrow> (case from_slice raw of
        Inl e \<Rightarrow> Inl (Corrupt (''credit record: '' @ e)) | Inr r \<Rightarrow> Inr (Some r)))"

definition classify_prior :: "performed_record \<Rightarrow> credit_outcome" where
  "classify_prior prior =
     (if pr_proof prior = CREDIT_TERMINAL_OVERFLOW_MARKER then Terminal prior
      else Credit_Duplicate prior)"

text \<open>
  The poll source of the settlement poller. The scan stops with the error of the first
  \<open>credit_lookup\<close> that fails; a row with an unknown tag, a Cashu tag or a key that is not UTF-8
  is skipped.
\<close>

fun issued_uncredited_scan :: "treasury \<Rightarrow> (bytes \<times> bytes) list \<Rightarrow> treasury_error + bytes list" where
  "issued_uncredited_scan t [] = Inr []"
| "issued_uncredited_scan t ((key, val) # rows) =
     (case (case val of [] \<Rightarrow> None | b # _ \<Rightarrow> from_byte b) of
        None \<Rightarrow> issued_uncredited_scan t rows
      | Some tag \<Rightarrow>
          if tag \<noteq> Tag_Lightning \<or> \<not> valid_utf8 key then issued_uncredited_scan t rows
          else (case credit_lookup key t of
                  Inl e \<Rightarrow> Inl e
                | Inr (Some _) \<Rightarrow> issued_uncredited_scan t rows
                | Inr None \<Rightarrow> (case issued_uncredited_scan t rows of
                                 Inl e \<Rightarrow> Inl e | Inr ids \<Rightarrow> Inr (key # ids))))"

definition issued_uncredited_charge_ids :: "treasury \<Rightarrow> treasury_error + bytes list" where
  "issued_uncredited_charge_ids t = issued_uncredited_scan t (issued_charges t)"

fun max_seq_scan :: "bytes \<Rightarrow> u64 option \<Rightarrow> bytes list \<Rightarrow> u64 option" where
  "max_seq_scan prefix m [] = m"
| "max_seq_scan prefix m (key # keys) =
     (case Option.bind (strip_prefix prefix key) parse_u64 of
        None \<Rightarrow> max_seq_scan prefix m keys
      | Some n \<Rightarrow> max_seq_scan prefix (Some (case m of None \<Rightarrow> n | Some k \<Rightarrow> max k n)) keys)"

definition max_idempotency_seq :: "bytes \<Rightarrow> treasury \<Rightarrow> u64 option" where
  "max_idempotency_seq prefix t = max_seq_scan prefix None (tkeys (ledger t))"

fun sum_costs :: "u64 \<Rightarrow> (bytes \<times> stored_row) list \<Rightarrow> treasury_error + u64" where
  "sum_costs acc [] = Inr acc"
| "sum_costs acc ((key, raw) # rows) =
     (case from_slice raw of
        Inl e \<Rightarrow> Inl (Corrupt (''ledger record: '' @ e))
      | Inr r \<Rightarrow> sum_costs (saturating_add acc (pr_cost_sats r)) rows)"

definition spent_sats :: "treasury \<Rightarrow> treasury_error + u64" where
  "spent_sats t = sum_costs 0 (ledger t)"

fun count_credits :: "u64 \<Rightarrow> (bytes \<times> stored_row) list \<Rightarrow> treasury_error + u64" where
  "count_credits n [] = Inr n"
| "count_credits n ((key, raw) # rows) =
     (case from_slice raw of
        Inl e \<Rightarrow> Inl (Corrupt (''credit record: '' @ e))
      | Inr r \<Rightarrow> count_credits (if pr_proof r = CREDIT_PROOF_MARKER then saturating_add n 1 else n) rows)"

definition economics_snapshot :: "u64 \<Rightarrow> u64 \<Rightarrow> treasury \<Rightarrow> treasury_error + economics_snapshot" where
  "economics_snapshot initial rent t =
     (case remaining t of Inl e \<Rightarrow> Inl e | Inr rem \<Rightarrow>
      (case spent_sats t of Inl e \<Rightarrow> Inl e | Inr spent \<Rightarrow>
       (case count_credits 0 (credit_ledger t) of Inl e \<Rightarrow> Inl e | Inr jobs \<Rightarrow>
        Inr \<lparr>es_remaining_sats = rem,
             es_income_sats = saturating_sub (saturating_add (saturating_add rem spent) rent) initial,
             es_spent_sats = spent, es_jobs_settled = jobs\<rparr>)))"

definition publish_runway_hint :: "u64 option \<Rightarrow> treasury \<Rightarrow> treasury" where
  "publish_runway_hint secs t =
     t\<lparr>runway_hint := (case secs of None \<Rightarrow> RUNWAY_HINT_UNKNOWN | Some s \<Rightarrow> s)\<rparr>"

definition runway_secs_hint :: "treasury \<Rightarrow> u64 option" where
  "runway_secs_hint t = (if runway_hint t = RUNWAY_HINT_UNKNOWN then None else Some (runway_hint t))"

section \<open>The mutating operations\<close>

text \<open>
  Every mutating operation has the same frame: run the transaction body against the trees, map
  an abort to \<open>Corrupt\<close> and a storage fault to \<open>Storage\<close>, then flush. The body sees the trees as
  they are and returns either the abort message or its outcome with the new trees.
\<close>

definition run_txn ::
  "sled_io \<Rightarrow> treasury \<Rightarrow> string + 'o \<times> treasury \<Rightarrow> (treasury_error + 'o) \<times> treasury" where
  "run_txn io t body =
     (case io of
        Txn_fault e \<Rightarrow> (Inl (Storage e), t)
      | Flush_fault e \<Rightarrow> (case body of Inl msg \<Rightarrow> (Inl (Corrupt msg), t)
                                    | Inr (out, t') \<Rightarrow> (Inl (Storage e), t'))
      | Io_ok \<Rightarrow> (case body of Inl msg \<Rightarrow> (Inl (Corrupt msg), t)
                             | Inr (out, t') \<Rightarrow> (Inr out, t')))"

definition read_balance_tx :: "treasury \<Rightarrow> string + u64" where
  "read_balance_tx t = (case tget (balance t) BALANCE_KEY of
                          None \<Rightarrow> Inl ''balance key missing''
                        | Some raw \<Rightarrow> decode_u64_tx raw)"

definition write_balance :: "u64 \<Rightarrow> treasury \<Rightarrow> treasury" where
  "write_balance n t = t\<lparr>balance := tinsert BALANCE_KEY (to_be_bytes n) (balance t)\<rparr>"

definition debit_metered ::
  "sled_io \<Rightarrow> u64 \<Rightarrow> treasury \<Rightarrow> (treasury_error + debit_outcome) \<times> treasury" where
  "debit_metered io amount t =
     (case run_txn io t
        (case read_balance_tx t of
           Inl e \<Rightarrow> Inl e
         | Inr current \<Rightarrow>
             (case checked_sub current amount of
                None \<Rightarrow> Inr (Insufficient current, t)
              | Some nxt \<Rightarrow> Inr (Debited amount nxt, write_balance nxt t)))
      of (Inr (Debited cost rem), t') \<Rightarrow>
           (Inr (Debited cost rem), t'\<lparr>rent_sats := rent_sats t' + cost\<rparr>)
       | res \<Rightarrow> res)"

definition debit_and_record ::
  "sled_io \<Rightarrow> bytes \<Rightarrow> u64 \<Rightarrow> bytes \<Rightarrow> bytes \<Rightarrow> bytes \<Rightarrow> bytes \<Rightarrow> treasury
     \<Rightarrow> (treasury_error + debit_outcome) \<times> treasury" where
  "debit_and_record io key cost pf completion mem hash t =
     run_txn io t
       (case tget (ledger t) key of
          Some existing \<Rightarrow>
            (case from_slice existing of
               Inl e \<Rightarrow> Inl (''ledger record: '' @ e)
             | Inr rec \<Rightarrow> Inr (Debit_Duplicate rec, t))
        | None \<Rightarrow>
            (case read_balance_tx t of
               Inl e \<Rightarrow> Inl e
             | Inr current \<Rightarrow>
                 (case checked_sub current cost of
                    None \<Rightarrow> Inr (Insufficient current, t)
                  | Some nxt \<Rightarrow>
                      (let rec = \<lparr>pr_cost_sats = cost, pr_treasury_remaining_after = nxt,
                                  pr_proof = pf, pr_completion = completion, pr_memory = mem,
                                  pr_request_hash = hash\<rparr>;
                           t1 = write_balance nxt t
                       in Inr (Debited cost nxt, t1\<lparr>ledger := tinsert key (Row rec) (ledger t1)\<rparr>)))))"

definition record_issued_charge ::
  "sled_io \<Rightarrow> bytes \<Rightarrow> charge_method_tag \<Rightarrow> treasury \<Rightarrow> (treasury_error + unit) \<times> treasury" where
  "record_issued_charge io charge_id tag t =
     run_txn io t
       (Inr ((), t\<lparr>issued_charges := tinsert charge_id [as_byte tag] (issued_charges t)\<rparr>))"

definition record_charge_atomic ::
  "sled_io \<Rightarrow> bytes \<Rightarrow> bytes \<Rightarrow> charge_method_tag \<Rightarrow> bytes \<Rightarrow> bytes \<Rightarrow> treasury
     \<Rightarrow> (treasury_error + debit_outcome) \<times> treasury" where
  "record_charge_atomic io key charge_id tag pf hash t =
     run_txn io t
       (case tget (ledger t) key of
          Some existing \<Rightarrow>
            (case from_slice existing of
               Inl e \<Rightarrow> Inl (''ledger record: '' @ e)
             | Inr rec \<Rightarrow> Inr (Debit_Duplicate rec, t))
        | None \<Rightarrow>
            (case read_balance_tx t of
               Inl e \<Rightarrow> Inl e
             | Inr current \<Rightarrow>
                 (case checked_sub current 0 of
                    None \<Rightarrow> Inr (Insufficient current, t)
                  | Some nxt \<Rightarrow>
                      (let rec = \<lparr>pr_cost_sats = 0, pr_treasury_remaining_after = nxt,
                                  pr_proof = pf, pr_completion = [], pr_memory = [],
                                  pr_request_hash = hash\<rparr>;
                           t1 = write_balance nxt t;
                           t2 = t1\<lparr>ledger := tinsert key (Row rec) (ledger t1)\<rparr>
                       in Inr (Debited 0 nxt,
                               t2\<lparr>issued_charges :=
                                    tinsert charge_id [as_byte tag] (issued_charges t2)\<rparr>)))))"

definition credit_row :: "bytes \<Rightarrow> u64 \<Rightarrow> performed_record" where
  "credit_row marker after =
     \<lparr>pr_cost_sats = 0, pr_treasury_remaining_after = after, pr_proof = marker,
      pr_completion = [], pr_memory = [], pr_request_hash = []\<rparr>"

definition credit_verified ::
  "sled_io \<Rightarrow> bytes \<Rightarrow> u64 \<Rightarrow> treasury \<Rightarrow> (treasury_error + credit_outcome) \<times> treasury" where
  "credit_verified io credit_id amount t =
     run_txn io t
       (case tget (credit_ledger t) credit_id of
          Some existing \<Rightarrow>
            (case from_slice existing of
               Inl e \<Rightarrow> Inl (''credit record: '' @ e)
             | Inr rec \<Rightarrow>
                 Inr (if pr_proof rec = CREDIT_TERMINAL_OVERFLOW_MARKER then Terminal rec
                      else Credit_Duplicate rec, t))
        | None \<Rightarrow>
            (case read_balance_tx t of
               Inl e \<Rightarrow> Inl e
             | Inr current \<Rightarrow>
                 (case checked_add current amount of
                    None \<Rightarrow>
                      Inr (Overflow current,
                           t\<lparr>credit_ledger := tinsert credit_id
                               (Row (credit_row CREDIT_TERMINAL_OVERFLOW_MARKER current))
                               (credit_ledger t)\<rparr>)
                  | Some nxt \<Rightarrow>
                      (let t1 = write_balance nxt t
                       in Inr (Credited amount nxt,
                               t1\<lparr>credit_ledger := tinsert credit_id
                                   (Row (credit_row CREDIT_PROOF_MARKER nxt))
                                   (credit_ledger t1)\<rparr>)))))"

definition reconcile_to_observed ::
  "sled_io \<Rightarrow> u64 \<Rightarrow> treasury \<Rightarrow> (treasury_error + reconcile_outcome) \<times> treasury" where
  "reconcile_to_observed io observed t =
     run_txn io t
       (case read_balance_tx t of
          Inl e \<Rightarrow> Inl e
        | Inr current \<Rightarrow>
            (if observed = current then Inr (Unchanged current, t)
             else Inr (if current < observed then Raised current observed
                       else Lowered current observed, write_balance observed t)))"

end
