(* ===== verification/Treasury_Account.thy ===== *)
theory Treasury_Account
  imports Treasury
begin

text \<open>
  What the treasury operations do, as an account: the representation invariant, one rule per
  operation saying every way it can change the trees, histories of operations, and the theorems
  about balance, exactly-once debits and credits, and the derived income.
\<close>

section \<open>Invariant and abstraction\<close>

definition row_decodes :: "stored_row \<Rightarrow> bool" where
  "row_decodes raw \<longleftrightarrow> (\<exists>r. raw = Row r)"

definition treasury_ok :: "treasury \<Rightarrow> bool" where
  "treasury_ok t \<longleftrightarrow>
     tree_ok (balance t) \<and> tree_ok (ledger t) \<and> tree_ok (credit_ledger t) \<and> tree_ok (issued_charges t)
     \<and> (\<exists>raw. tget (balance t) BALANCE_KEY = Some raw \<and> length raw = 8)
     \<and> (\<forall>raw\<in>set (tvals (ledger t)). row_decodes raw)
     \<and> (\<forall>raw\<in>set (tvals (credit_ledger t)). row_decodes raw)"

definition bal :: "treasury \<Rightarrow> u64" where
  "bal t = from_be_bytes (the (tget (balance t) BALANCE_KEY))"

definition ledger_record :: "treasury \<Rightarrow> bytes \<Rightarrow> performed_record option" where
  "ledger_record t key = (case tget (ledger t) key of Some (Row r) \<Rightarrow> Some r | _ \<Rightarrow> None)"

definition credit_record :: "treasury \<Rightarrow> bytes \<Rightarrow> performed_record option" where
  "credit_record t cid = (case tget (credit_ledger t) cid of Some (Row r) \<Rightarrow> Some r | _ \<Rightarrow> None)"

lemma treasury_okD [dest?]:
  assumes "treasury_ok t"
  shows "tree_ok (balance t)" "tree_ok (ledger t)" "tree_ok (credit_ledger t)"
    "tree_ok (issued_charges t)"
  using assms by (auto simp: treasury_ok_def)

lemma tvals_tinsert: "set (tvals (tinsert k v t)) \<subseteq> insert v (set (tvals t))"
  by (induction k v t rule: tinsert.induct) (auto simp: tvals_def)

lemma ledger_row_cases:
  assumes "treasury_ok t"
  obtains "tget (ledger t) key = None" "ledger_record t key = None"
  | r where "tget (ledger t) key = Some (Row r)" "ledger_record t key = Some r"
  using assms tvals_tget [of "ledger t" key]
  by (cases "tget (ledger t) key") (auto simp: treasury_ok_def row_decodes_def ledger_record_def)

lemma credit_row_cases:
  assumes "treasury_ok t"
  obtains "tget (credit_ledger t) cid = None" "credit_record t cid = None"
  | r where "tget (credit_ledger t) cid = Some (Row r)" "credit_record t cid = Some r"
  using assms tvals_tget [of "credit_ledger t" cid]
  by (cases "tget (credit_ledger t) cid") (auto simp: treasury_ok_def row_decodes_def credit_record_def)

lemma read_balance_tx_ok: "treasury_ok t \<Longrightarrow> read_balance_tx t = Inr (bal t)"
  by (auto simp: treasury_ok_def read_balance_tx_def decode_u64_tx_def bal_def)

lemma remaining_ok: "treasury_ok t \<Longrightarrow> remaining t = Inr (bal t)"
  by (auto simp: treasury_ok_def remaining_def decode_u64_def bal_def)

lemma lookup_ok: "treasury_ok t \<Longrightarrow> lookup key t = Inr (ledger_record t key)"
  by (erule ledger_row_cases [of t key]) (simp_all add: lookup_def)

lemma credit_lookup_ok: "treasury_ok t \<Longrightarrow> credit_lookup cid t = Inr (credit_record t cid)"
  by (erule credit_row_cases [of t cid]) (simp_all add: credit_lookup_def)

lemma write_balance_ok: "treasury_ok t \<Longrightarrow> treasury_ok (write_balance n t)"
  by (auto simp: treasury_ok_def write_balance_def)

lemma bal_write_balance: "treasury_ok t \<Longrightarrow> bal (write_balance n t) = n"
  by (auto simp: treasury_ok_def write_balance_def bal_def)

lemma write_balance_frame [frame, simp]:
  "ledger (write_balance n t) = ledger t"
  "credit_ledger (write_balance n t) = credit_ledger t"
  "issued_charges (write_balance n t) = issued_charges t"
  "rent_sats (write_balance n t) = rent_sats t"
  "runway_hint (write_balance n t) = runway_hint t"
  by (simp_all add: write_balance_def)

lemma bal_frame [simp]:
  "bal (t\<lparr>ledger := l\<rparr>) = bal t" "bal (t\<lparr>credit_ledger := c\<rparr>) = bal t"
  "bal (t\<lparr>issued_charges := i\<rparr>) = bal t" "bal (t\<lparr>rent_sats := r\<rparr>) = bal t"
  "bal (t\<lparr>runway_hint := h\<rparr>) = bal t"
  by (simp_all add: bal_def)

lemma ok_insert_ledger: "treasury_ok t \<Longrightarrow> treasury_ok (t\<lparr>ledger := tinsert k (Row r) (ledger t)\<rparr>)"
  using tvals_tinsert [of k "Row r" "ledger t"] by (auto simp: treasury_ok_def row_decodes_def)

lemma ok_insert_credit:
  "treasury_ok t \<Longrightarrow> treasury_ok (t\<lparr>credit_ledger := tinsert k (Row r) (credit_ledger t)\<rparr>)"
  using tvals_tinsert [of k "Row r" "credit_ledger t"] by (auto simp: treasury_ok_def row_decodes_def)

lemma ok_set_issued: "treasury_ok t \<Longrightarrow> tree_ok i \<Longrightarrow> treasury_ok (t\<lparr>issued_charges := i\<rparr>)"
  by (auto simp: treasury_ok_def)

lemma ok_atomics: "treasury_ok t \<Longrightarrow> treasury_ok (t\<lparr>rent_sats := r\<rparr>)"
  "treasury_ok t \<Longrightarrow> treasury_ok (t\<lparr>runway_hint := h\<rparr>)"
  by (auto simp: treasury_ok_def)

lemmas ok_intros = write_balance_ok ok_insert_ledger ok_insert_credit ok_set_issued ok_atomics

lemma treasury_open_ok: "treasury_open Io_ok fresh_store initial = Inr t \<Longrightarrow>
    treasury_ok t \<and> bal t = initial \<and> ledger t = [] \<and> credit_ledger t = [] \<and> issued_charges t = []
    \<and> rent_sats t = 0"
  by (auto simp: treasury_open_def fresh_store_def treasury_ok_def bal_def tree_ok_def tvals_def)

section \<open>What each operation does\<close>

lemma run_txn_cases:
  "run_txn io t body = (res, t') \<Longrightarrow>
     t' = t \<and> (\<forall>out. res \<noteq> Inr out)
   \<or> (\<exists>out. body = Inr (out, t') \<and> (res = Inr out \<or> (\<exists>e. io = Flush_fault e \<and> res = Inl (Storage e))))"
  by (auto simp: run_txn_def split: sled_io.splits sum.splits prod.splits)

text \<open>The balance after a debit of \<open>cost\<close>, the ledger row it writes.\<close>

definition debited_row :: "u64 \<Rightarrow> bytes \<Rightarrow> bytes \<Rightarrow> bytes \<Rightarrow> bytes \<Rightarrow> treasury \<Rightarrow> performed_record" where
  "debited_row cost pf completion mem hash t =
     \<lparr>pr_cost_sats = cost, pr_treasury_remaining_after = bal t - cost, pr_proof = pf,
      pr_completion = completion, pr_memory = mem, pr_request_hash = hash\<rparr>"

definition debited :: "bytes \<Rightarrow> performed_record \<Rightarrow> u64 \<Rightarrow> treasury \<Rightarrow> treasury" where
  "debited key r cost t =
     (write_balance (bal t - cost) t)\<lparr>ledger := tinsert key (Row r) (ledger t)\<rparr>"

lemma debit_and_record_ok:
  assumes "treasury_ok t"
  shows "debit_and_record io key cost pf completion mem hash t =
    run_txn io t (Inr (case ledger_record t key of
        Some r \<Rightarrow> (Debit_Duplicate r, t)
      | None \<Rightarrow> if bal t < cost then (Insufficient (bal t), t)
                else (Debited cost (bal t - cost),
                      debited key (debited_row cost pf completion mem hash t) cost t)))"
  using assms
  by (cases rule: ledger_row_cases [OF assms, of key])
     (auto simp: debit_and_record_def read_balance_tx_ok checked_sub_def debited_def
       debited_row_def Let_def)

lemma record_charge_atomic_ok:
  assumes "treasury_ok t"
  shows "record_charge_atomic io key cid tag pf hash t =
    run_txn io t (Inr (case ledger_record t key of
        Some r \<Rightarrow> (Debit_Duplicate r, t)
      | None \<Rightarrow> (Debited 0 (bal t),
                 (debited key (debited_row 0 pf [] [] hash t) 0 t)
                   \<lparr>issued_charges := tinsert cid [as_byte tag] (issued_charges t)\<rparr>)))"
  using assms
  by (cases rule: ledger_row_cases [OF assms, of key])
     (auto simp: record_charge_atomic_def read_balance_tx_ok debited_def debited_row_def Let_def)

definition credited :: "bytes \<Rightarrow> bytes \<Rightarrow> u64 \<Rightarrow> treasury \<Rightarrow> treasury" where
  "credited cid marker after t =
     t\<lparr>credit_ledger := tinsert cid (Row (credit_row marker after)) (credit_ledger t)\<rparr>"

lemma credit_verified_ok:
  assumes "treasury_ok t"
  shows "credit_verified io cid amount t =
    run_txn io t (Inr (case credit_record t cid of
        Some r \<Rightarrow> (classify_prior r, t)
      | None \<Rightarrow> (case checked_add (bal t) amount of
          None \<Rightarrow> (Overflow (bal t), credited cid CREDIT_TERMINAL_OVERFLOW_MARKER (bal t) t)
        | Some n \<Rightarrow> (Credited amount n, credited cid CREDIT_PROOF_MARKER n (write_balance n t)))))"
  using assms
  by (cases rule: credit_row_cases [OF assms, of cid])
     (auto simp: credit_verified_def classify_prior_def read_balance_tx_ok credited_def Let_def
       split: option.split)

lemma debit_metered_cases:
  assumes "treasury_ok t" and "debit_metered io amount t = (res, t')"
  shows "t' = t \<and> (\<forall>c n. res \<noteq> Inr (Debited c n))
    \<or> amount \<le> bal t \<and> res = Inr (Debited amount (bal t - amount))
        \<and> t' = (write_balance (bal t - amount) t)\<lparr>rent_sats := rent_sats t + amount\<rparr>
    \<or> amount \<le> bal t \<and> t' = write_balance (bal t - amount) t
        \<and> (\<exists>e. io = Flush_fault e \<and> res = Inl (Storage e))"
  using assms
  by (auto simp: debit_metered_def read_balance_tx_ok checked_sub_def run_txn_def
      split: sled_io.splits if_splits)

section \<open>Histories\<close>

text \<open>The daemon's calls on the treasury, as data, so that histories can be quantified over.\<close>

datatype treasury_op =
    Meter u64
  | Act bytes u64 bytes bytes bytes bytes
  | Charge bytes bytes charge_method_tag bytes bytes
  | Index bytes charge_method_tag
  | Credit bytes u64
  | Reconcile u64
  | Hint "u64 option"

fun apply_op :: "sled_io \<Rightarrow> treasury_op \<Rightarrow> treasury \<Rightarrow> treasury" where
  "apply_op io (Meter amount) t = snd (debit_metered io amount t)"
| "apply_op io (Act key cost pf completion mem hash) t =
     snd (debit_and_record io key cost pf completion mem hash t)"
| "apply_op io (Charge key cid tag pf hash) t = snd (record_charge_atomic io key cid tag pf hash t)"
| "apply_op io (Index cid tag) t = snd (record_issued_charge io cid tag t)"
| "apply_op io (Credit cid amount) t = snd (credit_verified io cid amount t)"
| "apply_op io (Reconcile observed) t = snd (reconcile_to_observed io observed t)"
| "apply_op io (Hint secs) t = publish_runway_hint secs t"

fun apply_ops :: "(sled_io \<times> treasury_op) list \<Rightarrow> treasury \<Rightarrow> treasury" where
  "apply_ops [] t = t"
| "apply_ops ((io, oper) # ops) t = apply_ops ops (apply_op io oper t)"

lemma apply_ops_append: "apply_ops (xs @ ys) t = apply_ops ys (apply_ops xs t)"
  by (induction xs t rule: apply_ops.induct) simp_all

text \<open>The state after a transaction whose body cannot abort: applied, or untouched.\<close>

lemma snd_run_txn: "snd (run_txn io t (Inr (out, t'))) = (case io of Txn_fault _ \<Rightarrow> t | _ \<Rightarrow> t')"
  by (simp add: run_txn_def split: sled_io.split)

lemma ledger_record_insert [simp]:
  "treasury_ok t \<Longrightarrow> ledger_record (t\<lparr>ledger := tinsert k (Row r) (ledger t)\<rparr>) j =
     (if j = k then Some r else ledger_record t j)"
  by (simp add: ledger_record_def treasury_okD)

lemma credit_record_insert [simp]:
  "treasury_ok t \<Longrightarrow> credit_record (t\<lparr>credit_ledger := tinsert k (Row r) (credit_ledger t)\<rparr>) j =
     (if j = k then Some r else credit_record t j)"
  by (simp add: credit_record_def treasury_okD)

lemma record_frame [simp]:
  "ledger_record (write_balance n t) = ledger_record t"
  "credit_record (write_balance n t) = credit_record t"
  "ledger_record (t\<lparr>credit_ledger := c\<rparr>) = ledger_record t"
  "credit_record (t\<lparr>ledger := l\<rparr>) = credit_record t"
  "ledger_record (t\<lparr>issued_charges := i\<rparr>) = ledger_record t"
  "credit_record (t\<lparr>issued_charges := i\<rparr>) = credit_record t"
  "ledger_record (t\<lparr>rent_sats := x\<rparr>) = ledger_record t"
  "credit_record (t\<lparr>rent_sats := x\<rparr>) = credit_record t"
  "ledger_record (t\<lparr>runway_hint := h\<rparr>) = ledger_record t"
  "credit_record (t\<lparr>runway_hint := h\<rparr>) = credit_record t"
  by (simp_all add: fun_eq_iff ledger_record_def credit_record_def)

lemma debited_facts:
  assumes "treasury_ok t"
  shows "treasury_ok (debited key r cost t)"
    and "bal (debited key r cost t) = bal t - cost"
    and "ledger_record (debited key r cost t) j = (if j = key then Some r else ledger_record t j)"
    and "credit_record (debited key r cost t) = credit_record t"
    and "issued_charges (debited key r cost t) = issued_charges t"
    and "rent_sats (debited key r cost t) = rent_sats t"
    and "ledger (debited key r cost t) = tinsert key (Row r) (ledger t)"
    and "credit_ledger (debited key r cost t) = credit_ledger t"
  using assms write_balance_ok [OF assms, of "bal t - cost"]
    ok_insert_ledger [OF write_balance_ok [OF assms], of key r "bal t - cost"]
    ledger_record_insert [OF write_balance_ok [OF assms], of key r "bal t - cost" j]
  by (simp_all add: debited_def bal_write_balance)

lemma credited_facts:
  assumes "treasury_ok t"
  shows "treasury_ok (credited cid m n t)"
    and "bal (credited cid m n t) = bal t"
    and "credit_record (credited cid m n t) j =
      (if j = cid then Some (credit_row m n) else credit_record t j)"
    and "ledger_record (credited cid m n t) = ledger_record t"
    and "ledger (credited cid m n t) = ledger t"
    and "issued_charges (credited cid m n t) = issued_charges t"
    and "rent_sats (credited cid m n t) = rent_sats t"
  using assms by (simp_all add: credited_def ok_insert_credit)

lemmas op_effects = debit_and_record_ok record_charge_atomic_ok credit_verified_ok
  read_balance_tx_ok reconcile_to_observed_def record_issued_charge_def publish_runway_hint_def

lemma apply_op_ok: "treasury_ok t \<Longrightarrow> treasury_ok (apply_op io oper t)"
proof (cases oper)
  case (Meter amount)
  assume ok: "treasury_ok t"
  obtain res t' where "debit_metered io amount t = (res, t')" by (cases "debit_metered io amount t")
  with debit_metered_cases [OF ok this] ok Meter show ?thesis
    by (auto intro: ok_intros)
qed (auto simp: op_effects snd_run_txn debited_facts credited_facts treasury_okD
      intro!: ok_intros credited_facts(1)
      split: sled_io.split option.split if_split)

lemma apply_op_ledger_record:
  "treasury_ok t \<Longrightarrow> ledger_record t key = Some r \<Longrightarrow> ledger_record (apply_op io oper t) key = Some r"
proof (cases oper)
  case (Meter amount)
  assume ok: "treasury_ok t" and r: "ledger_record t key = Some r"
  obtain res t' where "debit_metered io amount t = (res, t')" by (cases "debit_metered io amount t")
  with debit_metered_cases [OF ok this] r Meter show ?thesis by auto
qed (auto simp: op_effects snd_run_txn debited_facts credited_facts write_balance_ok
      split: sled_io.split option.split if_split)

lemma apply_op_credit_record:
  "treasury_ok t \<Longrightarrow> credit_record t cid = Some r \<Longrightarrow> credit_record (apply_op io oper t) cid = Some r"
proof (cases oper)
  case (Meter amount)
  assume ok: "treasury_ok t" and r: "credit_record t cid = Some r"
  obtain res t' where "debit_metered io amount t = (res, t')" by (cases "debit_metered io amount t")
  with debit_metered_cases [OF ok this] r Meter show ?thesis by auto
qed (auto simp: op_effects snd_run_txn debited_facts credited_facts write_balance_ok
      split: sled_io.split option.split if_split)

lemma apply_ops_stable:
  assumes "treasury_ok t"
  shows "treasury_ok (apply_ops ops t)"
    and "ledger_record t key = Some r \<Longrightarrow> ledger_record (apply_ops ops t) key = Some r"
    and "credit_record t cid = Some c \<Longrightarrow> credit_record (apply_ops ops t) cid = Some c"
  using assms
proof (induction ops arbitrary: t)
  case (Cons x ops)
  obtain io oper where x: "x = (io, oper)" by (cases x)
  {
    case 1
    then show ?case by (simp add: x Cons.IH(1) apply_op_ok)
  next
    case 2
    then show ?case by (simp add: x Cons.IH(2) apply_op_ok apply_op_ledger_record)
  next
    case 3
    then show ?case by (simp add: x Cons.IH(3) apply_op_ok apply_op_credit_record)
  }
qed simp_all

section \<open>The life of a treasury\<close>

text \<open>
  A life starts at \<open>treasury_open\<close> on an absent database and applies any of the daemon's calls
  except \<open>reconcile_to_observed\<close> (the prepaid-key model, which sets the balance from outside), with
  transactions that may fail but flushes that do not. Ghosts: the sats credited so far, and the
  number of genuine credits.
\<close>

fun no_flush_fault :: "sled_io \<Rightarrow> bool" where
  "no_flush_fault (Flush_fault e) = False"
| "no_flush_fault io = True"

fun own_op :: "treasury_op \<Rightarrow> bool" where
  "own_op (Reconcile n) = False"
| "own_op oper = True"

definition credited_by :: "sled_io \<Rightarrow> treasury_op \<Rightarrow> treasury \<Rightarrow> nat \<times> nat" where
  "credited_by io oper t =
     (case oper of
        Credit cid amount \<Rightarrow>
          (case fst (credit_verified io cid amount t) of
             Inr (Credited a rem) \<Rightarrow> (unat a, 1) | _ \<Rightarrow> (0, 0))
      | _ \<Rightarrow> (0, 0))"

inductive life :: "u64 \<Rightarrow> treasury \<Rightarrow> nat \<Rightarrow> nat \<Rightarrow> bool" where
  born: "treasury_open Io_ok fresh_store initial = Inr t \<Longrightarrow> life initial t 0 0"
| lives: "life initial t income jobs \<Longrightarrow> no_flush_fault io \<Longrightarrow> own_op oper \<Longrightarrow>
    credited_by io oper t = (a, j) \<Longrightarrow> life initial (apply_op io oper t) (income + a) (jobs + j)"

definition row_cost :: "bytes \<times> stored_row \<Rightarrow> nat" where
  "row_cost kr = (case snd kr of Row r \<Rightarrow> unat (pr_cost_sats r) | Garbage _ \<Rightarrow> 0)"

definition is_credit_row :: "bytes \<times> stored_row \<Rightarrow> bool" where
  "is_credit_row kr = (case snd kr of Row r \<Rightarrow> pr_proof r = CREDIT_PROOF_MARKER | Garbage _ \<Rightarrow> False)"

lemma row_views [simp]:
  "row_cost (k, Row r) = unat (pr_cost_sats r)"
  "is_credit_row (k, Row r) \<longleftrightarrow> pr_proof r = CREDIT_PROOF_MARKER"
  by (simp_all add: row_cost_def is_credit_row_def)

definition spent_total :: "treasury \<Rightarrow> nat" where
  "spent_total t = sum_list (map row_cost (ledger t))"

definition credits_total :: "treasury \<Rightarrow> nat" where
  "credits_total t = length (filter is_credit_row (credit_ledger t))"

lemma spent_total_frame [simp]:
  "spent_total (write_balance n t) = spent_total t"
  "spent_total (t\<lparr>rent_sats := x\<rparr>) = spent_total t"
  "spent_total (t\<lparr>issued_charges := i\<rparr>) = spent_total t"
  "spent_total (t\<lparr>credit_ledger := c\<rparr>) = spent_total t"
  "spent_total (t\<lparr>runway_hint := h\<rparr>) = spent_total t"
  "credits_total (write_balance n t) = credits_total t"
  "credits_total (t\<lparr>rent_sats := x\<rparr>) = credits_total t"
  "credits_total (t\<lparr>issued_charges := i\<rparr>) = credits_total t"
  "credits_total (t\<lparr>ledger := l\<rparr>) = credits_total t"
  "credits_total (t\<lparr>runway_hint := h\<rparr>) = credits_total t"
  by (simp_all add: spent_total_def credits_total_def)

lemma ledger_record_None:
  "treasury_ok t \<Longrightarrow> ledger_record t key = None \<longleftrightarrow> tget (ledger t) key = None"
  by (erule ledger_row_cases [of t key]) simp_all

lemma credit_record_None:
  "treasury_ok t \<Longrightarrow> credit_record t cid = None \<longleftrightarrow> tget (credit_ledger t) cid = None"
  by (erule credit_row_cases [of t cid]) simp_all

lemma spent_total_debited:
  "treasury_ok t \<Longrightarrow> ledger_record t key = None \<Longrightarrow>
     spent_total (debited key r cost t) = unat (pr_cost_sats r) + spent_total t
   \<and> credits_total (debited key r cost t) = credits_total t"
  by (simp add: spent_total_def credits_total_def debited_facts ledger_record_None treasury_okD
      sled.sum_entries_put_fresh row_cost_def)

lemma totals_credited:
  "treasury_ok t \<Longrightarrow> credit_record t cid = None \<Longrightarrow>
     spent_total (credited cid m n t) = spent_total t
   \<and> credits_total (credited cid m n t) = (if m = CREDIT_PROOF_MARKER then 1 else 0) + credits_total t"
  by (simp add: spent_total_def credits_total_def credited_def credit_record_None treasury_okD
      sled.count_entries_put_fresh is_credit_row_def credit_row_def)

lemma markers_differ [simp]: "CREDIT_TERMINAL_OVERFLOW_MARKER \<noteq> CREDIT_PROOF_MARKER"
  by (simp add: CREDIT_TERMINAL_OVERFLOW_MARKER_def CREDIT_PROOF_MARKER_def)

text \<open>The balance identity over one call, on natural numbers.\<close>

definition books :: "treasury \<Rightarrow> nat" where
  "books t = unat (bal t) + spent_total t + unat (rent_sats t)"

lemma books_metered:
  assumes "treasury_ok t" and "no_flush_fault io" and "books t < 2 ^ 64"
  shows "books (snd (debit_metered io amount t)) = books t
    \<and> credits_total (snd (debit_metered io amount t)) = credits_total t"
proof -
  obtain res t' where m: "debit_metered io amount t = (res, t')" by (cases "debit_metered io amount t")
  have exact: "unat (bal t - amount) + unat (rent_sats t + amount) = unat (bal t) + unat (rent_sats t)"
    if "amount \<le> bal t"
  proof -
    have le: "unat amount \<le> unat (bal t)" using that by (simp add: word_le_nat_alt)
    with assms(3) have "unat (rent_sats t) + unat amount < 2 ^ LENGTH(64)" by (simp add: books_def)
    with le that show ?thesis by (simp add: unat_sub_exact unat_add_exact)
  qed
  from debit_metered_cases [OF assms(1) m] assms(2) show ?thesis
    by (auto simp: m books_def bal_write_balance [OF assms(1)] exact)
qed

lemma books_debited:
  assumes "treasury_ok t" and "ledger_record t key = None" and "pr_cost_sats r \<le> bal t"
  shows "books (debited key r (pr_cost_sats r) t) = books t"
  using assms spent_total_debited [OF assms(1,2), of r "pr_cost_sats r"]
  by (simp add: books_def debited_facts unat_sub_exact word_le_nat_alt)

lemma books_credited:
  assumes "treasury_ok t" and "credit_record t cid = None" and "checked_add (bal t) a = Some n"
  shows "books (credited cid m n (write_balance n t)) = books t + unat a"
  using assms totals_credited [of "write_balance n t" cid m n] checked_add_unat [OF assms(3)]
  by (simp add: books_def credited_facts write_balance_ok bal_write_balance)

lemma books_frame [simp]:
  "books (t\<lparr>issued_charges := i\<rparr>) = books t"
  "books (t\<lparr>runway_hint := h\<rparr>) = books t"
  by (simp_all add: books_def)

lemma no_flush_cases: "no_flush_fault io \<Longrightarrow> io = Io_ok \<or> (\<exists>e. io = Txn_fault e)"
  by (cases io) auto

lemma run_txn_Io_ok [simp]: "run_txn Io_ok t (Inr (out, t')) = (Inr out, t')"
  by (simp add: run_txn_def)

lemma run_txn_Txn_fault [simp]: "run_txn (Txn_fault e) t body = (Inl (Storage e), t)"
  by (simp add: run_txn_def)

lemma books_step:
  assumes "treasury_ok t" and io: "no_flush_fault io" and "own_op oper"
    and c: "credited_by io oper t = (a, j)" and "books t + a < 2 ^ 64"
  shows "books (apply_op io oper t) = books t + a \<and> credits_total (apply_op io oper t) = credits_total t + j"
proof (cases oper)
  case (Meter amount)
  with assms books_metered [OF assms(1) io, of amount] show ?thesis by (simp add: credited_by_def)
next
  case (Act key cost pf completion mem hash)
  let ?r = "debited_row cost pf completion mem hash t"
  have "pr_cost_sats ?r = cost" by (simp add: debited_row_def)
  with assms(1) Act c books_debited [OF assms(1), of key ?r]
    spent_total_debited [OF assms(1), of key ?r cost] no_flush_cases [OF io]
  show ?thesis
    by (auto simp: debit_and_record_ok credited_by_def split: option.split)
next
  case (Charge key cid tag pf hash)
  let ?r = "debited_row 0 pf [] [] hash t"
  have "pr_cost_sats ?r = 0" by (simp add: debited_row_def)
  with assms(1) Charge c books_debited [OF assms(1), of key ?r]
    spent_total_debited [OF assms(1), of key ?r 0] no_flush_cases [OF io]
  show ?thesis
    by (auto simp: record_charge_atomic_ok credited_by_def split: option.split)
next
  case (Credit cid amount)
  show ?thesis
  proof (cases "credit_record t cid")
    case (Some r)
    with assms(1) Credit c no_flush_cases [OF io] show ?thesis
      by (auto simp: credit_verified_ok credited_by_def classify_prior_def split: if_splits)
  next
    case None
    show ?thesis
    proof (cases "checked_add (bal t) amount")
      case (Some n)
      with None assms(1) Credit c no_flush_cases [OF io]
        books_credited [OF assms(1) None Some, of CREDIT_PROOF_MARKER]
        totals_credited [of "write_balance n t" cid CREDIT_PROOF_MARKER n]
      show ?thesis
        by (auto simp: credit_verified_ok credited_by_def write_balance_ok)
    next
      case ov: None
      with None assms(1) Credit c no_flush_cases [OF io]
        totals_credited [of t cid CREDIT_TERMINAL_OVERFLOW_MARKER "bal t"]
      show ?thesis
        by (auto simp: credit_verified_ok credited_by_def books_def credited_facts)
    qed
  qed
qed (use assms no_flush_cases [OF io] in
  \<open>auto simp: credited_by_def record_issued_charge_def publish_runway_hint_def\<close>)

lemma life_invariant:
  "life initial t income jobs \<Longrightarrow>
     treasury_ok t
   \<and> (unat initial + income < 2 ^ 64 \<longrightarrow> books t = unat initial + income \<and> credits_total t = jobs)"
proof (induction rule: life.induct)
  case (born initial t)
  from treasury_open_ok [OF born] show ?case
    by (simp add: books_def spent_total_def credits_total_def)
next
  case (lives initial t income jobs io oper a j)
  then show ?case
    using books_step [of t io oper a j] by (auto simp: apply_op_ok)
qed

section \<open>The derived books\<close>

lemma sum_costs_total:
  assumes "\<forall>raw\<in>set (tvals rows). row_decodes raw"
  shows "\<exists>w. sum_costs acc rows = Inr w
    \<and> unat w = min (unat acc + sum_list (map row_cost rows)) (2 ^ 64 - 1)"
  using assms
proof (induction acc rows rule: sum_costs.induct)
  case (1 acc)
  then show ?case using unat_lt_pow [of acc] by (simp add: min_def)
next
  case (2 acc key raw rows)
  then obtain r where "raw = Row r" by (auto simp: row_decodes_def tvals_def)
  with 2 show ?case
    by (auto simp: unat_saturating_add tvals_def min_def split: if_splits)
qed

lemma count_credits_total:
  assumes "\<forall>raw\<in>set (tvals rows). row_decodes raw"
  shows "\<exists>w. count_credits n rows = Inr w
    \<and> unat w = min (unat n + length (filter is_credit_row rows)) (2 ^ 64 - 1)"
  using assms
proof (induction n rows rule: count_credits.induct)
  case (1 n)
  then show ?case using unat_lt_pow [of n] by (simp add: min_def)
next
  case (2 n key raw rows)
  then obtain r where raw: "raw = Row r" by (auto simp: row_decodes_def tvals_def)
  let ?m = "if pr_proof r = CREDIT_PROOF_MARKER then saturating_add n 1 else n"
  have "\<exists>w. count_credits ?m rows = Inr w
    \<and> unat w = min (unat ?m + length (filter is_credit_row rows)) (2 ^ 64 - 1)"
    using 2 raw by (simp add: tvals_def)
  then show ?case
    by (auto simp: raw unat_saturating_add min_def split: if_splits)
qed

lemma snapshot_ok:
  assumes "treasury_ok t"
  shows "\<exists>s. economics_snapshot initial rent t = Inr s
    \<and> es_remaining_sats s = bal t
    \<and> unat (es_spent_sats s) = min (spent_total t) (2 ^ 64 - 1)
    \<and> unat (es_jobs_settled s) = min (credits_total t) (2 ^ 64 - 1)
    \<and> unat (es_income_sats s) =
        min (unat (bal t) + spent_total t + unat rent) (2 ^ 64 - 1) - unat initial"
proof -
  obtain sp where sp: "spent_sats t = Inr sp" "unat sp = min (spent_total t) (2 ^ 64 - 1)"
    using sum_costs_total [of "ledger t" 0] assms
    by (auto simp: spent_sats_def spent_total_def treasury_ok_def)
  obtain jb where jb: "count_credits 0 (credit_ledger t) = Inr jb"
    "unat jb = min (credits_total t) (2 ^ 64 - 1)"
    using count_credits_total [of "credit_ledger t" 0] assms
    by (auto simp: credits_total_def treasury_ok_def)
  show ?thesis
    using sp jb
    by (auto simp: economics_snapshot_def remaining_ok [OF assms] unat_saturating_sub
        unat_saturating_add min_def)
qed

end
