(* ===== verification/Treasury_Props.thy ===== *)
theory Treasury_Props
  imports Treasury_Account
begin

text \<open>
  The treasury's promises, over arbitrary histories of its operations: never-overspend and
  unforgeability, exactly-once debits and credits across faults and restarts, the pairing of a
  charge with its poll-index entry, and the exactness of the derived income.
\<close>

section \<open>Unforgeability and never-overspend\<close>

lemma word_diff_le: "b \<le> a \<Longrightarrow> a - b \<le> a" for a b :: "'a::len word"
  by (simp add: word_le_nat_alt unat_sub_exact)

fun raises_balance :: "treasury_op \<Rightarrow> bool" where
  "raises_balance (Credit cid amount) = True"
| "raises_balance (Reconcile observed) = True"
| "raises_balance oper = False"

lemma op_balance:
  assumes "treasury_ok t" and "\<not> raises_balance oper"
  shows "bal (apply_op io oper t) \<le> bal t
    \<and> (bal (apply_op io oper t) \<noteq> bal t \<longrightarrow>
        (\<exists>cost. (oper = Meter cost \<or> (\<exists>key pf completion mem hash. oper = Act key cost pf completion mem hash))
          \<and> unat (bal (apply_op io oper t)) + unat cost = unat (bal t)))"
proof (cases oper)
  case (Meter cost)
  obtain res t' where m: "debit_metered io cost t = (res, t')" by (cases "debit_metered io cost t")
  have "t' = t \<or> cost \<le> bal t \<and> bal t' = bal t - cost"
    using debit_metered_cases [OF assms(1) m] bal_write_balance [OF assms(1)] by auto
  then show ?thesis
    using Meter m by (auto simp: word_diff_le unat_sub_exact word_le_nat_alt)
next
  case (Act key cost pf completion mem hash)
  then show ?thesis
    using assms(1)
    by (auto simp: debit_and_record_ok snd_run_txn debited_facts not_less word_diff_le unat_sub_exact
        word_le_nat_alt split: sled_io.splits option.splits)
next
  case (Charge key cid tag pf hash)
  then show ?thesis
    using assms(1)
    by (auto simp: record_charge_atomic_ok snd_run_txn debited_facts split: sled_io.splits option.splits)
qed (use assms in \<open>auto simp: record_issued_charge_def snd_run_txn publish_runway_hint_def
      split: sled_io.splits\<close>)

lemma ops_balance:
  "treasury_ok t \<Longrightarrow> \<forall>(io, oper)\<in>set ops. \<not> raises_balance oper \<Longrightarrow> bal (apply_ops ops t) \<le> bal t"
proof (induction ops t rule: apply_ops.induct)
  case (2 io oper ops t)
  then have "bal (apply_ops ops (apply_op io oper t)) \<le> bal (apply_op io oper t)"
    by (intro 2(1)) (auto simp: apply_op_ok)
  also have "\<dots> \<le> bal t" using op_balance [of t oper io] 2 by auto
  finally show ?case by simp
qed simp

text \<open>C6: Whatever sled does, no history of treasury operations without a verified credit or the
  daemon's reconcile ends with a balance above the one it started from; and a balance that moves in
  one of its operations moves down by exactly the cost that was asked for, which the balance
  covered.\<close>

theorem only_credit_raises:
  assumes "treasury_ok t" and "\<forall>(io, oper)\<in>set ops. \<not> raises_balance oper"
  shows "bal (apply_ops ops t) \<le> bal t
    \<and> ((io, oper) \<in> set ops \<longrightarrow> bal (apply_op io oper t) \<noteq> bal t \<longrightarrow>
      ((\<exists>cost. (oper = Meter cost \<or> (\<exists>key pf completion mem hash. oper = Act key cost pf completion mem hash))
        \<and> unat (bal (apply_op io oper t)) + unat cost = unat (bal t))))"
  using ops_balance [OF assms] op_balance [OF assms(1), of oper io] assms(2) by blast

theorem only_credit_raises_witness:
  "treasury_ok (open_temporary 10) \<and>
   bal (apply_ops [(Io_ok, Meter 4), (Io_ok, Hint None)] (open_temporary 10)) \<le> bal (open_temporary 10)"
proof -
  have ok: "treasury_ok (open_temporary 10)"
    by (simp add: treasury_ok_def open_temporary_def fresh_store_def tvals_def tree_ok_def)
  with only_credit_raises [OF ok, of "[(Io_ok, Meter 4), (Io_ok, Hint None)]"] show ?thesis by simp
qed

section \<open>Exactly once\<close>

lemma Debited_shape:
  assumes "treasury_ok t"
    and "debit_and_record io key cost pf completion mem hash t = (Inr (Debited c n), t')"
  shows "c = cost \<and> n = bal t - cost \<and> cost \<le> bal t \<and> ledger_record t key = None
    \<and> t' = debited key (debited_row cost pf completion mem hash t) cost t"
  using assms(2)
  by (auto simp: debit_and_record_ok [OF assms(1)] run_txn_def not_less
      split: sled_io.splits option.splits if_splits)

text \<open>C7: A capability act is debited exactly once: after \<open>debit_and_record\<close> reports \<open>Debited\<close>, the
  balance is lower by exactly the cost, and after any further history of treasury calls, faults
  included, recording the same key again (with any cost and payload) answers with the record of
  the first time and changes nothing.\<close>

theorem debit_exactly_once:
  assumes "treasury_ok t"
    and "debit_and_record io key cost pf completion mem hash t = (Inr (Debited c n), t1)"
    and "t2 = apply_ops ops t1"
  shows "unat (bal t1) + unat cost = unat (bal t)
    \<and> (debit_and_record Io_ok key cost' pf' completion' mem' hash' t2 =
      (Inr (Debit_Duplicate \<lparr>pr_cost_sats = cost, pr_treasury_remaining_after = bal t1, pr_proof = pf,
        pr_completion = completion, pr_memory = mem, pr_request_hash = hash\<rparr>), t2))"
proof (rule conjI; ((rule impI)+)?)
  let ?r = "debited_row cost pf completion mem hash t"
  from Debited_shape [OF assms(1,2)] have t1: "t1 = debited key ?r cost t" and le: "cost \<le> bal t"
    by auto
  have ok1: "treasury_ok t1" and bal1: "bal t1 = bal t - cost" and rec: "ledger_record t1 key = Some ?r"
    by (simp_all add: t1 debited_facts [OF assms(1)])
  show "unat (bal t1) + unat cost = unat (bal t)"
    using le by (simp add: bal1 unat_sub_exact word_le_nat_alt)
  have "treasury_ok t2" and "ledger_record t2 key = Some ?r"
    using apply_ops_stable [OF ok1] rec by (simp_all add: assms(3))
  then show "debit_and_record Io_ok key cost' pf' completion' mem' hash' t2 =
      (Inr (Debit_Duplicate \<lparr>pr_cost_sats = cost, pr_treasury_remaining_after = bal t1, pr_proof = pf,
        pr_completion = completion, pr_memory = mem, pr_request_hash = hash\<rparr>), t2)"
    by (simp add: debit_and_record_ok debited_row_def bal1)
qed

lemma open_temporary_ok: "treasury_ok (open_temporary n)" "bal (open_temporary n) = n"
  "ledger (open_temporary n) = []" "credit_ledger (open_temporary n) = []"
  "issued_charges (open_temporary n) = []" "rent_sats (open_temporary n) = 0"
  "ledger_record (open_temporary n) key = None" "credit_record (open_temporary n) key = None"
  by (simp_all add: treasury_ok_def open_temporary_def fresh_store_def tvals_def tree_ok_def bal_def
      ledger_record_def credit_record_def)

theorem debit_exactly_once_witness:
  "\<exists>t1. debit_and_record Io_ok ''k'' 4 ''p'' [] [] [] (open_temporary 10) = (Inr (Debited 4 6), t1)
    \<and> fst (debit_and_record Io_ok ''k'' 9 ''q'' [] [] [] (apply_ops [(Io_ok, Meter 1)] t1)) =
      Inr (Debit_Duplicate \<lparr>pr_cost_sats = 4, pr_treasury_remaining_after = 6, pr_proof = ''p'',
        pr_completion = [], pr_memory = [], pr_request_hash = []\<rparr>)"
proof -
  let ?t = "open_temporary 10"
  let ?t1 = "debited ''k'' (debited_row 4 ''p'' [] [] [] ?t) 4 ?t"
  have d: "debit_and_record Io_ok ''k'' 4 ''p'' [] [] [] ?t = (Inr (Debited 4 6), ?t1)"
    by (simp add: debit_and_record_ok open_temporary_ok)
  have "bal ?t1 = 6" by (simp add: debited_facts open_temporary_ok)
  with debit_exactly_once [OF open_temporary_ok(1) d refl, where ops = "[(Io_ok, Meter 1)]"
      and cost' = 9 and pf' = "''q''" and completion' = "[]" and mem' = "[]" and hash' = "[]"]
  show ?thesis using d by (intro exI [of _ ?t1] conjI) simp_all
qed

text \<open>A settlement is credited exactly once: once \<open>credit_verified\<close> has resolved a
  \<open>credit_id\<close> (credited it, or overflowed and marked it settled-dead), after any further history
  every attempt on that id, for whatever amount, changes nothing and reports which of the two
  happened: \<open>Credit_Duplicate\<close> after a credit, \<open>Terminal\<close> after an overflow.\<close>

theorem credit_exactly_once:
  assumes "treasury_ok t" and "credit_verified io cid amount t = (Inr res, t1)"
    and "res = Credited a n \<or> res = Overflow n"
    and "t2 = apply_ops ops t1"
  shows "(unat (bal t1) = (if res = Overflow n then unat (bal t) else unat (bal t) + unat amount))
    \<and> (\<exists>r. credit_verified Io_ok cid amount' t2 =
      (Inr (if res = Overflow n then Terminal r else Credit_Duplicate r), t2))"
proof (rule conjI; ((rule impI)+)?)
  obtain marker b where cr: "credit_record t cid = None"
    and t1: "t1 = credited cid marker b (if res = Overflow n then t else write_balance b t)"
    and marker: "marker = (if res = Overflow n then CREDIT_TERMINAL_OVERFLOW_MARKER else CREDIT_PROOF_MARKER)"
    and b: "res = Overflow n \<or> checked_add (bal t) amount = Some b"
    using assms(2,3)
    by (auto simp: credit_verified_ok [OF assms(1)] run_txn_def classify_prior_def
        split: sled_io.splits option.splits if_splits)
  have ok: "treasury_ok (if res = Overflow n then t else write_balance b t)"
    using assms(1) by (simp add: write_balance_ok)
  have ok1: "treasury_ok t1" and r1: "credit_record t1 cid = Some (credit_row marker b)"
    using ok by (simp_all add: t1 credited_facts)
  show "unat (bal t1) = (if res = Overflow n then unat (bal t) else unat (bal t) + unat amount)"
    using b ok by (auto simp: t1 credited_facts bal_write_balance [OF assms(1)] dest: checked_add_unat)
  have "treasury_ok t2" "credit_record t2 cid = Some (credit_row marker b)"
    using apply_ops_stable [OF ok1] r1 by (simp_all add: assms(4))
  then show "\<exists>r. credit_verified Io_ok cid amount' t2 =
      (Inr (if res = Overflow n then Terminal r else Credit_Duplicate r), t2)"
    by (simp add: credit_verified_ok classify_prior_def credit_row_def marker
        markers_differ [symmetric])
qed

theorem credit_exactly_once_witness:
  "\<exists>t1. credit_verified Io_ok ''c'' 5 (open_temporary 10) = (Inr (Credited 5 15), t1)
    \<and> unat (bal t1) = 15
    \<and> (\<exists>r. credit_verified Io_ok ''c'' 7 (apply_ops [(Io_ok, Meter 1)] t1) =
        (Inr (Credit_Duplicate r), apply_ops [(Io_ok, Meter 1)] t1))"
proof -
  let ?t = "open_temporary 10"
  let ?t1 = "credited ''c'' CREDIT_PROOF_MARKER 15 (write_balance 15 ?t)"
  have c: "credit_verified Io_ok ''c'' 5 ?t = (Inr (Credited 5 15), ?t1)"
    by (simp add: credit_verified_ok open_temporary_ok checked_add_def)
  from credit_exactly_once [OF open_temporary_ok(1) c, where a = 5 and n = 15
      and ops = "[(Io_ok, Meter 1)]" and amount' = 7, OF _ refl]
  show ?thesis using c by (auto simp: open_temporary_ok)
qed

section \<open>The derived books\<close>

text \<open>For a treasury opened on an absent database and then driven by any sequence of metered
  debits, capability debits, charge records and credits whose flushes do not fail, the derived
  income is exactly the sum of the amounts credited, the job count is the number of credits, and
  what is left plus what was spent on acts plus the metered rent is the initial balance plus
  that income.\<close>

theorem income_is_credits:
  assumes "life initial t income jobs" and "unat initial + income < 2 ^ 64"
  shows "\<exists>s. economics_snapshot initial (rent_sats t) t = Inr s
    \<and> unat (es_income_sats s) = income
    \<and> unat (es_jobs_settled s) = min jobs (2 ^ 64 - 1)
    \<and> unat (es_remaining_sats s) + unat (es_spent_sats s) + unat (rent_sats t) = unat initial + income"
proof -
  have ok: "treasury_ok t" and b: "books t = unat initial + income" and c: "credits_total t = jobs"
    using life_invariant [OF assms(1)] assms(2) by auto
  from snapshot_ok [OF ok, of initial "rent_sats t"] b c assms(2) show ?thesis
    by (auto simp: books_def)
qed

theorem income_is_credits_witness:
  "\<exists>t s. life 10 t 5 1 \<and> economics_snapshot 10 (rent_sats t) t = Inr s \<and> unat (es_income_sats s) = 5"
proof -
  obtain t0 where b: "treasury_open Io_ok fresh_store 10 = Inr t0"
    by (auto simp: treasury_open_def fresh_store_def)
  have t0: "treasury_ok t0" "bal t0 = 10" "credit_record t0 ''c'' = None"
    using treasury_open_ok [OF b] by (simp_all add: credit_record_def)
  have c: "credited_by Io_ok (Credit ''c'' 5) t0 = (5, 1)"
    by (simp add: credited_by_def credit_verified_ok t0 checked_add_def)
  have l: "life 10 (apply_op Io_ok (Credit ''c'' 5) t0) 5 1"
    using lives [OF born [OF b] _ _ c] by simp
  from income_is_credits [OF l] l show ?thesis by auto
qed

section \<open>Charges and their poll index\<close>

text \<open>
  \<open>charge_of\<close> reads the charge id back out of a ledger record's proof, which is where
  \<open>authorize_issue_charge\<close> stores the encoded charge. A call is coded when the operation agrees
  with it: a charge is recorded under the id its proof carries, and no other act's proof carries one.
\<close>

fun coded :: "(bytes \<Rightarrow> bytes option) \<Rightarrow> treasury_op \<Rightarrow> bool" where
  "coded charge_of (Charge key cid tag pf hash) \<longleftrightarrow> charge_of pf = Some cid"
| "coded charge_of (Act key cost pf completion mem hash) \<longleftrightarrow> charge_of pf = None"
| "coded charge_of oper \<longleftrightarrow> True"

definition charges_indexed :: "(bytes \<Rightarrow> bytes option) \<Rightarrow> treasury \<Rightarrow> bool" where
  "charges_indexed charge_of t \<longleftrightarrow>
     (\<forall>key r cid. ledger_record t key = Some r \<longrightarrow> charge_of (pr_proof r) = Some cid \<longrightarrow>
        tget (issued_charges t) cid \<noteq> None)"

lemma apply_op_issued:
  assumes "treasury_ok t" and "tget (issued_charges t) cid \<noteq> None"
  shows "tget (issued_charges (apply_op io oper t)) cid \<noteq> None"
proof (cases oper)
  case (Meter amount)
  obtain res t' where "debit_metered io amount t = (res, t')" by (cases "debit_metered io amount t")
  with debit_metered_cases [OF assms(1) this] Meter assms(2) show ?thesis by auto
qed (use assms in \<open>auto simp: op_effects snd_run_txn debited_facts credited_facts write_balance_ok treasury_okD
      split: sled_io.split option.split if_split\<close>)

lemma ledger_record_write:
  "treasury_ok t \<Longrightarrow> ledger_record (apply_op io oper t) key = Some r \<Longrightarrow>
     ledger_record t key = Some r
   \<or> (\<exists>cost pf completion mem hash. oper = Act key cost pf completion mem hash \<and> pr_proof r = pf)
   \<or> (\<exists>cid tag pf hash. oper = Charge key cid tag pf hash \<and> pr_proof r = pf
        \<and> tget (issued_charges (apply_op io oper t)) cid \<noteq> None)"
proof (cases oper)
  case (Meter amount)
  assume ok: "treasury_ok t" and r: "ledger_record (apply_op io oper t) key = Some r"
  obtain res t' where "debit_metered io amount t = (res, t')" by (cases "debit_metered io amount t")
  with debit_metered_cases [OF ok this] r Meter show ?thesis by auto
qed (auto simp: op_effects snd_run_txn debited_facts credited_facts write_balance_ok treasury_okD
      debited_row_def split: sled_io.splits option.splits if_splits)

lemma charges_indexed_step:
  assumes "treasury_ok t" and "coded charge_of oper" and "charges_indexed charge_of t"
  shows "charges_indexed charge_of (apply_op io oper t)"
  unfolding charges_indexed_def
proof (intro allI impI)
  fix key r cid
  assume r: "ledger_record (apply_op io oper t) key = Some r" and c: "charge_of (pr_proof r) = Some cid"
  from ledger_record_write [OF assms(1) r]
  show "tget (issued_charges (apply_op io oper t)) cid \<noteq> None"
    using assms c apply_op_issued [OF assms(1), of cid io oper]
    by (auto simp: charges_indexed_def)
qed

text \<open>A charge's ledger record is never without its poll-index entry: over any history of
  treasury calls, with transaction and flush faults anywhere, every recorded charge is in
  \<open>issued_charges\<close>, so a minted invoice the agent could be paid on is always known to the poller.\<close>

theorem index_never_orphaned:
  assumes "treasury_ok t" and "charges_indexed charge_of t" and "\<forall>c\<in>set ops. coded charge_of (snd c)"
  shows "charges_indexed charge_of (apply_ops ops t)"
  using assms
proof (induction ops arbitrary: t)
  case (Cons c ops)
  then show ?case
    by (cases c) (auto intro!: Cons.IH simp: apply_op_ok charges_indexed_step)
qed simp

theorem index_never_orphaned_witness:
  "charges_indexed Some (apply_ops [(Io_ok, Charge ''k'' ''c'' Tag_Lightning ''c'' []),
      (Flush_fault (Sled_other ''x''), Charge ''k2'' ''d'' Tag_Lightning ''d'' [])] (open_temporary 1))"
  by (rule index_never_orphaned [OF open_temporary_ok(1)])
    (simp_all add: charges_indexed_def open_temporary_ok)

definition polled :: "treasury \<Rightarrow> bytes \<times> bytes \<Rightarrow> bool" where
  "polled t row \<longleftrightarrow> (\<exists>bs. snd row = as_byte Tag_Lightning # bs)
     \<and> valid_utf8 (fst row) \<and> credit_record t (fst row) = None"

lemma from_byte_Lightning: "from_byte b = Some Tag_Lightning \<longleftrightarrow> b = as_byte Tag_Lightning"
  by (simp add: from_byte_def)

lemma polled_byte: "polled t (key, b # bs) \<longleftrightarrow>
    from_byte b = Some Tag_Lightning \<and> valid_utf8 key \<and> credit_record t key = None"
  unfolding polled_def from_byte_Lightning by simp

lemma issued_uncredited_scan_ok:
  "treasury_ok t \<Longrightarrow> issued_uncredited_scan t rows = Inr (map fst (filter (polled t) rows))"
proof (induction t rows rule: issued_uncredited_scan.induct [case_names Nil Cons])
  case (Cons t key val rows)
  show ?case
  proof (cases val)
    case Nil
    with Cons show ?thesis by (simp add: polled_def)
  next
    case (Cons b bs)
    with Cons.IH Cons.prems show ?thesis
      by (auto simp: polled_byte credit_lookup_ok split: option.split sum.split)
  qed
qed simp

text \<open>The settlement poller's work list is exact: \<open>issued_uncredited_charge_ids\<close> never fails on
  a well-formed treasury and lists, in key order and without repetition, exactly the Lightning
  charges in the index whose id is UTF-8 and has no credit record (so a credited or settled-dead
  charge is never polled again, and an open one is never missed).\<close>

theorem poll_list_exact:
  assumes "treasury_ok t"
  shows "\<exists>ids. issued_uncredited_charge_ids t = Inr ids \<and> sorted_wrt (<) ids
    \<and> (\<forall>cid. cid \<in> set ids \<longleftrightarrow>
          (\<exists>bs. tget (issued_charges t) cid = Some (as_byte Tag_Lightning # bs))
        \<and> valid_utf8 cid \<and> credit_record t cid = None)"
proof -
  have ok: "tree_ok (issued_charges t)" using assms by (simp add: treasury_okD)
  then have "sorted_wrt (<) (map fst (filter (polled t) (issued_charges t)))"
    by (auto simp: tree_ok_def sorted_wrt_map intro: sorted_wrt_filter)
  moreover have "cid \<in> set (map fst (filter (polled t) (issued_charges t))) \<longleftrightarrow>
      (\<exists>bs. tget (issued_charges t) cid = Some (as_byte Tag_Lightning # bs))
      \<and> valid_utf8 cid \<and> credit_record t cid = None" for cid
    using ok by (force simp: polled_def tget_in_set [symmetric] simp del: as_byte.simps)
  ultimately show ?thesis
    by (simp add: issued_uncredited_charge_ids_def issued_uncredited_scan_ok [OF assms])
qed

theorem poll_list_exact_witness:
  "\<exists>ids. issued_uncredited_charge_ids
       (snd (record_issued_charge Io_ok ''c'' Tag_Lightning (open_temporary 1))) = Inr ids \<and> ''c'' \<in> set ids"
proof -
  let ?t = "snd (record_issued_charge Io_ok ''c'' Tag_Lightning (open_temporary 1))"
  have t: "?t = (open_temporary 1)\<lparr>issued_charges := [(''c'', [as_byte Tag_Lightning])]\<rparr>"
    by (simp add: record_issued_charge_def open_temporary_ok del: as_byte.simps)
  have "treasury_ok ?t" unfolding t by (rule ok_set_issued) (simp_all add: open_temporary_ok tree_ok_def)
  from poll_list_exact [OF this] show ?thesis
    unfolding t by (auto simp: open_temporary_ok in_range_def simp del: as_byte.simps)
qed

section \<open>Resuming the write sequence\<close>

definition seq_of :: "bytes \<Rightarrow> bytes \<Rightarrow> u64 option" where
  "seq_of prefix key = Option.bind (strip_prefix prefix key) parse_u64"

definition seqs :: "bytes \<Rightarrow> bytes list \<Rightarrow> u64 set" where
  "seqs prefix keys = {n. \<exists>key\<in>set keys. seq_of prefix key = Some n}"

lemma seqs_Cons: "seqs prefix (key # keys) = (case seq_of prefix key of
    None \<Rightarrow> seqs prefix keys | Some n \<Rightarrow> insert n (seqs prefix keys))"
  by (auto simp: seqs_def split: option.split)

lemma finite_seqs [simp]: "finite (seqs prefix keys)"
proof (induction keys)
  case Nil
  then show ?case by (simp add: seqs_def)
qed (simp add: seqs_Cons split: option.split)

lemma max_seq_scan_Some: "max_seq_scan prefix (Some m) keys = Some (Max (insert m (seqs prefix keys)))"
proof (induction keys arbitrary: m)
  case (Cons key keys)
  then show ?case
    by (cases "seqs prefix keys = {}")
      (auto simp: seqs_Cons seq_of_def max.assoc max.commute max.left_commute split: option.split)
qed (simp add: seqs_def)

lemma max_seq_scan_None:
  "max_seq_scan prefix None keys = (if seqs prefix keys = {} then None else Some (Max (seqs prefix keys)))"
proof (induction keys)
  case (Cons key keys)
  then show ?case
    by (auto simp: seqs_Cons seq_of_def max_seq_scan_Some split: option.split)
qed (simp add: seqs_def)

text \<open>The sequence floor a restarted gateway resumes from is exact: \<open>max_idempotency_seq\<close>
  returns a sequence number that some ledger key \<open>prefix<n>\<close> carries and that bounds every such
  key's, and returns \<open>None\<close> only when no ledger key has the prefix followed by a \<open>u64\<close>.\<close>

theorem max_seq_exact:
  "case max_idempotency_seq prefix t of
     None \<Rightarrow> \<forall>key\<in>fst ` set (ledger t). \<forall>n. seq_of prefix key \<noteq> Some n
   | Some m \<Rightarrow> (\<exists>key\<in>fst ` set (ledger t). seq_of prefix key = Some m)
       \<and> (\<forall>key\<in>fst ` set (ledger t). \<forall>n. seq_of prefix key = Some n \<longrightarrow> n \<le> m)"
proof (cases "seqs prefix (tkeys (ledger t)) = {}")
  case True
  then have "max_idempotency_seq prefix t = None"
    by (simp add: max_idempotency_seq_def max_seq_scan_None)
  with True show ?thesis
    by (auto simp: seqs_def tkeys_def simp del: not_Some_eq)
next
  case False
  define m where "m = Max (seqs prefix (tkeys (ledger t)))"
  have "m \<in> seqs prefix (tkeys (ledger t))" and "\<forall>n\<in>seqs prefix (tkeys (ledger t)). n \<le> m"
    using False by (auto simp: m_def)
  moreover have "max_idempotency_seq prefix t = Some m"
    using False by (simp add: max_idempotency_seq_def max_seq_scan_None m_def)
  ultimately show ?thesis
    by (auto simp: seqs_def tkeys_def)
qed

theorem max_seq_exact_witness:
  "\<exists>m. max_idempotency_seq ''m:'' (snd (debit_and_record Io_ok ''m:7'' 1 [] [] [] [] (open_temporary 5))) = Some m
     \<and> 7 \<le> m"
proof -
  let ?t = "snd (debit_and_record Io_ok ''m:7'' 1 [] [] [] [] (open_temporary 5))"
  have k: "fst ` set (ledger ?t) = {''m:7''}"
    by (simp add: debit_and_record_ok open_temporary_ok debited_facts)
  have "seq_of ''m:'' ''m:7'' = Some 7"
    by (simp add: seq_of_def parse_u64_def is_digit_def digits_val_def digit_val_def)
  with max_seq_exact [where prefix = "''m:''" and t = ?t] show ?thesis
    unfolding k by (cases "max_idempotency_seq ''m:'' ?t") auto
qed

end
