(* ===== verification/Lease.thy ===== *)
theory Lease
  imports Prelude
begin

text \<open>
  The lease seam of \<open>crates/kirby-node/src/lease.rs\<close>: the value types of the no-split-brain fence
  and its two read-side traits as locales. \<open>lease_authority\<close> is the trait the gateway's money path
  and the supervisor read through; \<open>spawn_fence_view\<close> is the narrower view the spawn consumer
  reads; the blanket \<open>impl SpawnFenceView for Arc<dyn LeaseAuthority>\<close> is the \<open>sublocale\<close>.

  A provider's state is \<open>'s\<close>; the trait methods read the wall clock, so each takes the \<open>now\<close> it reads.
\<close>

type_synonym lease_node_id = u64
type_synonym agent_id = string

definition DEFAULT_AGENT :: agent_id where "DEFAULT_AGENT = ''''"

record active_lease =
  al_node_id :: lease_node_id
  al_term :: u64

record lease_response =
  lr_node_id :: lease_node_id
  lr_term :: u64

datatype fence_verdict =
    Active u64
  | Fenced (committed_term: u64) (committed_holder: lease_node_id) (believed_term: u64)

definition may_act :: "fence_verdict \<Rightarrow> bool" where
  "may_act v = (case v of Active t \<Rightarrow> True | Fenced ct ch bt \<Rightarrow> False)"

lemma may_act_simps [simp]: "may_act (Active t)" "\<not> may_act (Fenced ct ch bt)"
  by (simp_all add: may_act_def)

lemma may_act_Active: "may_act v \<longleftrightarrow> (\<exists>t. v = Active t)"
  by (cases v) auto

section \<open>The spawn fence view\<close>

text \<open>
  What a view promises while nothing new is observed: the lease it reports for an agent does not
  change, and once it has gone stale it stays so.
\<close>

locale spawn_fence_view =
  fixes node_id :: "'s \<Rightarrow> lease_node_id"
    and active_lease_for :: "'s \<Rightarrow> u64 \<Rightarrow> agent_id \<Rightarrow> active_lease option"
  assumes lease_fixed: "active_lease_for s now a = Some l \<Longrightarrow> active_lease_for s now' a = Some l' \<Longrightarrow> l = l'"
    and stale_stays: "active_lease_for s now a = None \<Longrightarrow> now \<le> now' \<Longrightarrow> active_lease_for s now' a = None"
begin

text \<open>Another node holds a fresh lease on the agent.\<close>

definition held_elsewhere :: "'s \<Rightarrow> u64 \<Rightarrow> agent_id \<Rightarrow> bool" where
  "held_elsewhere s now a \<longleftrightarrow> (\<exists>l. active_lease_for s now a = Some l \<and> al_node_id l \<noteq> node_id s)"

lemma held_elsewhere_clears:
  "\<not> held_elsewhere s now a \<Longrightarrow> now \<le> now' \<Longrightarrow> \<not> held_elsewhere s now' a"
  using lease_fixed stale_stays unfolding held_elsewhere_def by (metis not_None_eq)

end

section \<open>The lease authority\<close>

text \<open>
  What the trait's methods promise each other: being active is being named by the active lease,
  and the term-fence opens exactly for a node that is active at a term no older than it believes.
\<close>

locale lease_authority =
  spawn_fence_view node_id active_lease_for
  for node_id :: "'s \<Rightarrow> lease_node_id"
    and active_lease_for :: "'s \<Rightarrow> u64 \<Rightarrow> agent_id \<Rightarrow> active_lease option" +
  fixes active_term_for :: "'s \<Rightarrow> u64 \<Rightarrow> agent_id \<Rightarrow> u64 option"
    and fence_for :: "'s \<Rightarrow> u64 \<Rightarrow> agent_id \<Rightarrow> u64 \<Rightarrow> fence_verdict"
  assumes active_term: "active_term_for s now a = Some t \<longleftrightarrow>
      (\<exists>l. active_lease_for s now a = Some l \<and> al_node_id l = node_id s \<and> al_term l = t)"
    and fence_opens: "fence_for s now a b = Active t \<longleftrightarrow> active_term_for s now a = Some t \<and> b \<le> t"
begin

lemma may_act_iff: "may_act (fence_for s now a b) \<longleftrightarrow>
    (\<exists>l. active_lease_for s now a = Some l \<and> al_node_id l = node_id s \<and> b \<le> al_term l)"
  by (auto simp: may_act_Active fence_opens active_term)

lemma fence_downward: "may_act (fence_for s now a b) \<Longrightarrow> b' \<le> b \<Longrightarrow> may_act (fence_for s now a b')"
  by (auto simp: may_act_iff)

lemma no_lease_fenced: "active_lease_for s now a = None \<Longrightarrow> \<not> may_act (fence_for s now a b)"
  by (simp add: may_act_iff)

text \<open>Two views of one lease cannot both be acted on by different nodes.\<close>

lemma one_actor:
  assumes "active_lease_for s now a = active_lease_for s' now' a"
    and "may_act (fence_for s now a b)" and "may_act (fence_for s' now' a b')"
  shows "node_id s = node_id s'"
  using assms by (auto simp: may_act_iff)

text \<open>A node the fence refuses stays refused as time passes, until it observes something new.\<close>

lemma fenced_stays:
  "\<not> may_act (fence_for s now a b) \<Longrightarrow> now \<le> now' \<Longrightarrow> \<not> may_act (fence_for s now' a b)"
  using lease_fixed stale_stays unfolding may_act_iff by (metis not_None_eq)

text \<open>A node that may act is never held off its own agent by the spawn fence.\<close>

lemma actor_not_elsewhere: "may_act (fence_for s now a b) \<Longrightarrow> \<not> held_elsewhere s now a"
  by (auto simp: may_act_iff held_elsewhere_def)

end

end
