(* ===== verification/Relay_Lease.thy ===== *)
theory Relay_Lease
  imports Lease Store
begin

text \<open>
  The relay-native lease of \<open>crates/kirby-node/src/relay_lease.rs\<close>: the verified
  \<open>RelayLeaseAuthority\<close> (claim, observe, the four trait methods), the launch fence
  (\<open>confirm_takeover_win\<close>, \<open>select_verified_latest_lease\<close>), the claiming grantor, and the
  cooperative \<open>FleetLeaseObserver\<close>. Wall-clock reads are \<open>now\<close> arguments.

  Cryptography, hex and JSON come from crates outside the repository; \<open>lease_env\<close> names what
  the code calls of them. \<open>sign_event\<close> is the \<open>QuorumSigner\<close> a node may hold, or \<open>None\<close>.
\<close>

record nostr_event =
  ev_id :: string
  ev_pubkey :: string
  ev_created_at :: u64
  ev_kind :: u32
  ev_tags :: "string list list"
  ev_content :: string
  ev_sig :: string

record lease_content =
  lc_agent_id :: agent_id
  lc_holder_node_id :: lease_node_id
  lc_term :: u64
  lc_issued_at :: u64

record observed_lease_record =
  olr_holder_node_id :: lease_node_id
  olr_term :: u64
  olr_issued_at :: u64

record lease_env =
  hex_encode :: "bytes \<Rightarrow> string"
  hex_decode :: "string \<Rightarrow> bytes option"
  nip01_event_id_with_tags :: "string \<Rightarrow> u64 \<Rightarrow> u32 \<Rightarrow> string list list \<Rightarrow> string \<Rightarrow> bytes"
  xonly_from_slice :: "bytes \<Rightarrow> bytes option"
  sig_from_slice :: "bytes \<Rightarrow> bytes option"
  verify_schnorr :: "bytes \<Rightarrow> bytes \<Rightarrow> bytes \<Rightarrow> bool"
  lease_to_json :: "lease_content \<Rightarrow> string"
  lease_from_json :: "string \<Rightarrow> lease_content option"

type_synonym quorum_signer = "u32 \<Rightarrow> u64 \<Rightarrow> string list list \<Rightarrow> string \<Rightarrow> string + nostr_event"

definition LEASE_TTL_SECS :: u64 where "LEASE_TTL_SECS = 30"

definition LEASE_EXPIRATION_TTL_MULTIPLE :: u64 where "LEASE_EXPIRATION_TTL_MULTIPLE = 4"

definition KIND_KIRBY_LEASE :: u16 where "KIND_KIRBY_LEASE = 31002"

definition TAG_D :: string where "TAG_D = ''d''"
definition TAG_T :: string where "TAG_T = ''t''"
definition TAG_T_KIRBY :: string where "TAG_T_KIRBY = ''kirby''"
definition TAG_A :: string where "TAG_A = ''a''"
definition TAG_NODE :: string where "TAG_NODE = ''node''"
definition TAG_EXPIRATION :: string where "TAG_EXPIRATION = ''expiration''"

section \<open>Tags, staleness, verification\<close>

definition lease_tags :: "agent_id \<Rightarrow> lease_node_id \<Rightarrow> u64 \<Rightarrow> string list list" where
  "lease_tags a node expiration =
     [[TAG_D, a], [TAG_T, TAG_T_KIRBY], [TAG_A, a], [TAG_NODE, show_word node],
      [TAG_EXPIRATION, show_word expiration]]"

fun d_tag_of :: "string list list \<Rightarrow> string option" where
  "d_tag_of [] = None"
| "d_tag_of (tag # tags) =
     (case tag of
        [] \<Rightarrow> d_tag_of tags
      | name # rest \<Rightarrow>
          if name = TAG_D then (case rest of [] \<Rightarrow> None | v # _ \<Rightarrow> Some v) else d_tag_of tags)"

definition d_tag :: "nostr_event \<Rightarrow> string option" where
  "d_tag event = d_tag_of (ev_tags event)"

text \<open>\<open>sdk_d_tag\<close> reads a live relay event and, unlike \<open>d_tag\<close>, skips a \<open>d\<close> tag without a value.\<close>

fun sdk_d_tag :: "string list list \<Rightarrow> string option" where
  "sdk_d_tag [] = None"
| "sdk_d_tag (tag # tags) =
     (case tag of
        name # v # _ \<Rightarrow> if name = TAG_D then Some v else sdk_d_tag tags
      | _ \<Rightarrow> sdk_d_tag tags)"

definition is_stale :: "u64 \<Rightarrow> u64 \<Rightarrow> bool" where
  "is_stale issued_at now \<longleftrightarrow> saturating_sub now issued_at > LEASE_TTL_SECS"

definition verify_lease_event :: "lease_env \<Rightarrow> nostr_event \<Rightarrow> bytes \<Rightarrow> string + unit" where
  "verify_lease_event env event expected_q =
     (if ev_pubkey event \<noteq> hex_encode env expected_q
      then Inl ''lease event pubkey is not the agent's quorum key Q (forged claim)''
      else
        (let derived = nip01_event_id_with_tags env (ev_pubkey event) (ev_created_at event)
                         (ev_kind event) (ev_tags event) (ev_content event)
         in case hex_decode env (ev_id event) of
              None \<Rightarrow> Inl ''lease event id is not hex''
            | Some claimed \<Rightarrow>
                if claimed \<noteq> derived
                then Inl ''lease event id does not match the NIP-01 id over its signed fields''
                else (case xonly_from_slice env expected_q of
                        None \<Rightarrow> Inl ''agent Q is not a valid x-only key''
                      | Some q \<Rightarrow>
                          (case hex_decode env (ev_sig event) of
                             None \<Rightarrow> Inl ''lease event sig is not hex''
                           | Some sig_bytes \<Rightarrow>
                               (case sig_from_slice env sig_bytes of
                                  None \<Rightarrow> Inl ''lease event sig is not a 64-byte BIP-340 signature''
                                | Some sg \<Rightarrow>
                                    if verify_schnorr env sg derived q then Inr ()
                                    else Inl ''lease event BIP-340 signature does not verify under the agent's Q'')))))"

section \<open>The lease authority\<close>

record relay_lease_authority =
  rla_node_id :: lease_node_id
  rla_signer :: "quorum_signer option"
  rla_signer_q :: bytes
  rla_expected_q :: "agent_id \<rightharpoonup> bytes"
  rla_observed :: "agent_id \<rightharpoonup> lease_content"

definition rla_new ::
  "lease_node_id \<Rightarrow> (quorum_signer \<times> bytes) option \<Rightarrow> (agent_id \<rightharpoonup> bytes) \<Rightarrow> relay_lease_authority" where
  "rla_new node signer expected_q =
     \<lparr>rla_node_id = node, rla_signer = map_option fst signer,
      rla_signer_q = (case signer of Some (_, q) \<Rightarrow> q | None \<Rightarrow> []),
      rla_expected_q = expected_q, rla_observed = Map.empty\<rparr>"

definition single_agent ::
  "lease_node_id \<Rightarrow> agent_id \<Rightarrow> quorum_signer \<times> bytes \<Rightarrow> relay_lease_authority" where
  "single_agent node a signer = rla_new node (Some signer) [a \<mapsto> snd signer]"

definition claim :: "lease_env \<Rightarrow> u64 \<Rightarrow> relay_lease_authority \<Rightarrow> agent_id \<Rightarrow> u64 \<Rightarrow> string + nostr_event" where
  "claim env now auth a term =
     (case rla_signer auth of
        None \<Rightarrow> Inl ''node holds no quorum for agent; it cannot claim a lease (F9-2)''
      | Some sign_event \<Rightarrow>
          (let issued_at = now;
               content = \<lparr>lc_agent_id = a, lc_holder_node_id = rla_node_id auth, lc_term = term,
                          lc_issued_at = issued_at\<rparr>;
               json = lease_to_json env content;
               expiration = issued_at + LEASE_EXPIRATION_TTL_MULTIPLE * LEASE_TTL_SECS;
               tags = lease_tags a (rla_node_id auth) expiration
           in case sign_event (ucast KIND_KIRBY_LEASE) issued_at tags json of
                Inl e \<Rightarrow> Inl e
              | Inr event \<Rightarrow>
                  (case verify_lease_event env event (rla_signer_q auth) of
                     Inl e \<Rightarrow> Inl e
                   | Inr _ \<Rightarrow> Inr event)))"

definition observe_at :: "lease_env \<Rightarrow> nostr_event \<Rightarrow> relay_lease_authority \<Rightarrow> bool \<times> relay_lease_authority" where
  "observe_at env event auth =
     (if ev_kind event \<noteq> ucast KIND_KIRBY_LEASE then (False, auth)
      else case lease_from_json env (ev_content event) of
        None \<Rightarrow> (False, auth)
      | Some content \<Rightarrow>
          if d_tag event \<noteq> Some (lc_agent_id content) then (False, auth)
          else (case rla_expected_q auth (lc_agent_id content) of
            None \<Rightarrow> (False, auth)
          | Some q \<Rightarrow>
              (case verify_lease_event env event q of
                 Inl _ \<Rightarrow> (False, auth)
               | Inr _ \<Rightarrow>
                   (let accept = (True, auth\<lparr>rla_observed :=
                                    (rla_observed auth)(lc_agent_id content \<mapsto> content)\<rparr>)
                    in case rla_observed auth (lc_agent_id content) of
                         Some prev \<Rightarrow> if lc_term content \<le> lc_term prev then (False, auth) else accept
                       | None \<Rightarrow> accept))))"

definition fresh_active_lease :: "relay_lease_authority \<Rightarrow> u64 \<Rightarrow> agent_id \<Rightarrow> active_lease option" where
  "fresh_active_lease auth now a =
     (case rla_observed auth a of
        None \<Rightarrow> None
      | Some c \<Rightarrow> if is_stale (lc_issued_at c) now then None
                  else Some \<lparr>al_node_id = lc_holder_node_id c, al_term = lc_term c\<rparr>)"

definition active_lease_for :: "relay_lease_authority \<Rightarrow> u64 \<Rightarrow> agent_id \<Rightarrow> active_lease option" where
  "active_lease_for auth now a = fresh_active_lease auth now a"

definition active_term_for :: "relay_lease_authority \<Rightarrow> u64 \<Rightarrow> agent_id \<Rightarrow> u64 option" where
  "active_term_for auth now a =
     (case fresh_active_lease auth now a of
        Some l \<Rightarrow> if al_node_id l = rla_node_id auth then Some (al_term l) else None
      | None \<Rightarrow> None)"

definition fence_for :: "relay_lease_authority \<Rightarrow> u64 \<Rightarrow> agent_id \<Rightarrow> u64 \<Rightarrow> fence_verdict" where
  "fence_for auth now a believed =
     (case fresh_active_lease auth now a of
        Some l \<Rightarrow>
          if al_node_id l = rla_node_id auth \<and> believed \<le> al_term l then Active (al_term l)
          else Fenced (al_term l) (al_node_id l) believed
      | None \<Rightarrow>
          (case rla_observed auth a of
             Some c \<Rightarrow> Fenced (lc_term c) (lc_holder_node_id c) believed
           | None \<Rightarrow> Fenced 0 0 believed))"

section \<open>Claiming for a tenant\<close>

text \<open>
  \<open>RelayLeaseGrantor::claim_for\<close>. The keystore (is it distributed, which quorum does it load) and
  the relay publish are arguments; the result carries the event that was published, if any.
\<close>

definition claim_for ::
  "lease_env \<Rightarrow> (nostr_event \<Rightarrow> string + unit) \<Rightarrow> bool \<Rightarrow> string + quorum_signer \<times> bytes \<Rightarrow> u64
     \<Rightarrow> lease_node_id \<Rightarrow> agent_id \<Rightarrow> lease_node_id \<Rightarrow> u64
     \<Rightarrow> (string + lease_response) \<times> nostr_event option" where
  "claim_for env publish distributed loaded now self_id a node term =
     (if node \<noteq> self_id then (Inl ''a node can only claim a lease naming ITSELF as holder'', None)
      else if distributed then (Inl ''FROST keystore is DISTRIBUTED: refusing to sign this lease'', None)
      else case loaded of
        Inl e \<Rightarrow> (Inl e, None)
      | Inr signer \<Rightarrow>
          (case claim env now (single_agent self_id a signer) a term of
             Inl e \<Rightarrow> (Inl e, None)
           | Inr event \<Rightarrow>
               (case publish event of
                  Inl e \<Rightarrow> (Inl e, Some event)
                | Inr _ \<Rightarrow> (Inr \<lparr>lr_node_id = node, lr_term = term\<rparr>, Some event))))"

section \<open>The launch fence\<close>

definition confirm_takeover_win :: "observed_lease_record option \<Rightarrow> u64 \<Rightarrow> lease_node_id \<Rightarrow> bool" where
  "confirm_takeover_win surviving claimed_term this_node =
     (case surviving of
        Some lease \<Rightarrow> olr_term lease = claimed_term \<and> olr_holder_node_id lease = this_node
      | None \<Rightarrow> False)"

definition record_of :: "lease_content \<Rightarrow> observed_lease_record" where
  "record_of c = \<lparr>olr_holder_node_id = lc_holder_node_id c, olr_term = lc_term c,
                  olr_issued_at = lc_issued_at c\<rparr>"

definition fresher :: "observed_lease_record \<Rightarrow> observed_lease_record \<Rightarrow> bool" where
  "fresher r b \<longleftrightarrow> olr_term b < olr_term r \<or> olr_term b = olr_term r \<and> olr_issued_at b < olr_issued_at r"

fun select_scan ::
  "lease_env \<Rightarrow> agent_id \<Rightarrow> bytes \<Rightarrow> observed_lease_record option \<Rightarrow> nostr_event list
     \<Rightarrow> observed_lease_record option" where
  "select_scan env a q best [] = best"
| "select_scan env a q best (event # events) =
     (case lease_from_json env (ev_content event) of
        None \<Rightarrow> select_scan env a q best events
      | Some content \<Rightarrow>
          if d_tag event \<noteq> Some (lc_agent_id content) \<or> lc_agent_id content \<noteq> a
          then select_scan env a q best events
          else (case verify_lease_event env event q of
             Inl _ \<Rightarrow> select_scan env a q best events
           | Inr _ \<Rightarrow>
               (let rec = record_of content;
                    take = (case best of None \<Rightarrow> True | Some b \<Rightarrow> fresher rec b)
                in select_scan env a q (if take then Some rec else best) events)))"

definition select_verified_latest_lease ::
  "lease_env \<Rightarrow> nostr_event list \<Rightarrow> agent_id \<Rightarrow> bytes \<Rightarrow> observed_lease_record option" where
  "select_verified_latest_lease env events a q = select_scan env a q None events"

text \<open>\<open>RelayLeaseReader::latest_lease\<close>: the relay fetch and the local keystore's Q are arguments.\<close>

definition latest_lease ::
  "lease_env \<Rightarrow> (agent_id \<Rightarrow> string + nostr_event list) \<Rightarrow> (agent_id \<rightharpoonup> bytes) \<Rightarrow> agent_id
     \<Rightarrow> string + observed_lease_record option" where
  "latest_lease env fetch local_expected_q a =
     (case fetch a of
        Inl e \<Rightarrow> Inl e
      | Inr events \<Rightarrow>
          (case local_expected_q a of
             None \<Rightarrow> Inr None
           | Some q \<Rightarrow> Inr (select_verified_latest_lease env events a q)))"

section \<open>The occupancy observer\<close>

record fleet_lease_observer =
  flo_node_id :: lease_node_id
  flo_observed :: "(agent_id, lease_content) tree"

definition flo_new :: "lease_node_id \<Rightarrow> fleet_lease_observer" where
  "flo_new node = \<lparr>flo_node_id = node, flo_observed = []\<rparr>"

text \<open>A live relay event: its kind (\<open>nostr_sdk\<close> gives a \<open>u16\<close>), tags and content are all that is read.\<close>

definition observe_occupancy ::
  "lease_env \<Rightarrow> u16 \<Rightarrow> string list list \<Rightarrow> string \<Rightarrow> fleet_lease_observer \<Rightarrow> bool \<times> fleet_lease_observer" where
  "observe_occupancy env kind tags content_json obs =
     (if kind \<noteq> KIND_KIRBY_LEASE then (False, obs)
      else case lease_from_json env content_json of
        None \<Rightarrow> (False, obs)
      | Some content \<Rightarrow>
          if sdk_d_tag tags \<noteq> Some (lc_agent_id content) then (False, obs)
          else
            (let accept =
               (case tget (flo_observed obs) (lc_agent_id content) of
                  None \<Rightarrow> True
                | Some prev \<Rightarrow>
                    if lc_term prev < lc_term content then True
                    else lc_holder_node_id content = lc_holder_node_id prev
                       \<and> lc_issued_at prev < lc_issued_at content)
             in (accept,
                 if accept then obs\<lparr>flo_observed :=
                     tinsert (lc_agent_id content) content (flo_observed obs)\<rparr> else obs)))"

definition flo_fresh_active_lease_at :: "fleet_lease_observer \<Rightarrow> u64 \<Rightarrow> agent_id \<Rightarrow> active_lease option" where
  "flo_fresh_active_lease_at obs now a =
     (case tget (flo_observed obs) a of
        None \<Rightarrow> None
      | Some c \<Rightarrow> if is_stale (lc_issued_at c) now then None
                  else Some \<lparr>al_node_id = lc_holder_node_id c, al_term = lc_term c\<rparr>)"

definition latest_observed_lease :: "fleet_lease_observer \<Rightarrow> agent_id \<Rightarrow> observed_lease_record option" where
  "latest_observed_lease obs a = map_option record_of (tget (flo_observed obs) a)"

definition observed_snapshot :: "fleet_lease_observer \<Rightarrow> (agent_id, observed_lease_record) tree" where
  "observed_snapshot obs = map (\<lambda>(a, c). (a, record_of c)) (flo_observed obs)"

definition has_fresh_lease_within_ttl :: "fleet_lease_observer \<Rightarrow> u64 \<Rightarrow> bool" where
  "has_fresh_lease_within_ttl obs now \<longleftrightarrow>
     list_ex (\<lambda>(a, c). \<not> is_stale (lc_issued_at c) now) (flo_observed obs)"

definition flo_active_lease_for :: "fleet_lease_observer \<Rightarrow> u64 \<Rightarrow> agent_id \<Rightarrow> active_lease option" where
  "flo_active_lease_for obs now a = flo_fresh_active_lease_at obs now a"

end
