(* ===== verification/Relay_Lease_Props.thy ===== *)
theory Relay_Lease_Props
  imports Relay_Lease
begin

text \<open>
  What the relay lease guarantees: the interpretations of the two lease interfaces on the code's
  two providers, the anti-forgery and observe-only-forward invariants of the verified authority,
  the convergence that makes it a single-writer fence, and the launch fence's single winner.
\<close>

section \<open>The interfaces\<close>

lemma is_stale_unat: "is_stale i now \<longleftrightarrow> unat i + 30 < unat now"
  by (auto simp: is_stale_def LEASE_TTL_SECS_def word_less_nat_alt unat_saturating_sub)

lemma is_stale_later: "is_stale i now \<Longrightarrow> now \<le> now' \<Longrightarrow> is_stale i now'"
  by (auto simp: is_stale_unat word_le_nat_alt)

interpretation relay: lease_authority rla_node_id active_lease_for active_term_for fence_for
  by unfold_locales
    (auto simp: active_lease_for_def active_term_for_def fence_for_def fresh_active_lease_def
      dest: is_stale_later split: option.splits if_splits)

interpretation fleet: spawn_fence_view flo_node_id flo_active_lease_for
  by unfold_locales
    (auto simp: flo_active_lease_for_def flo_fresh_active_lease_at_def
      dest: is_stale_later split: option.splits if_splits)

lemma may_act_fresh:
  "may_act (fence_for auth now a believed) \<longleftrightarrow>
     (\<exists>c. rla_observed auth a = Some c \<and> lc_holder_node_id c = rla_node_id auth
        \<and> believed \<le> lc_term c \<and> unat now \<le> unat (lc_issued_at c) + 30)"
  by (auto simp: relay.may_act_iff active_lease_for_def fresh_active_lease_def is_stale_unat not_less
      split: option.splits if_splits)

section \<open>Observing\<close>

text \<open>The lease an event carries for an authority that trusts it: right kind, decodable, addressed
  to its agent, and verified under the quorum key expected for that agent.\<close>

definition valid_lease :: "lease_env \<Rightarrow> (agent_id \<rightharpoonup> bytes) \<Rightarrow> nostr_event \<Rightarrow> lease_content option" where
  "valid_lease env expected event =
     (if ev_kind event \<noteq> ucast KIND_KIRBY_LEASE then None
      else case lease_from_json env (ev_content event) of
        None \<Rightarrow> None
      | Some c \<Rightarrow>
          if d_tag event = Some (lc_agent_id c)
             \<and> (\<exists>q. expected (lc_agent_id c) = Some q \<and> verify_lease_event env event q = Inr ())
          then Some c else None)"

lemma valid_leaseD:
  assumes "valid_lease env expected e = Some c"
  shows "lease_from_json env (ev_content e) = Some c \<and> d_tag e = Some (lc_agent_id c)
    \<and> (\<exists>q. expected (lc_agent_id c) = Some q \<and> verify_lease_event env e q = Inr ())"
  using assms by (auto simp: valid_lease_def split: option.splits if_splits)

lemma observe_at_valid:
  "observe_at env event auth =
     (case valid_lease env (rla_expected_q auth) event of
        None \<Rightarrow> (False, auth)
      | Some c \<Rightarrow>
          if (case rla_observed auth (lc_agent_id c) of Some prev \<Rightarrow> lc_term c \<le> lc_term prev | None \<Rightarrow> False)
          then (False, auth)
          else (True, auth\<lparr>rla_observed := (rla_observed auth)(lc_agent_id c \<mapsto> c)\<rparr>))"
  by (auto simp: observe_at_def valid_lease_def Let_def split: option.splits sum.splits)

fun observe_all :: "lease_env \<Rightarrow> nostr_event list \<Rightarrow> relay_lease_authority \<Rightarrow> relay_lease_authority" where
  "observe_all env [] auth = auth"
| "observe_all env (e # es) auth = observe_all env es (snd (observe_at env e auth))"

lemma observe_frame [simp]:
  "rla_expected_q (snd (observe_at env e auth)) = rla_expected_q auth"
  "rla_node_id (snd (observe_at env e auth)) = rla_node_id auth"
  by (simp_all add: observe_at_valid split: option.split)

lemma observe_all_frame [simp]:
  "rla_expected_q (observe_all env es auth) = rla_expected_q auth"
  "rla_node_id (observe_all env es auth) = rla_node_id auth"
  by (induction es arbitrary: auth) simp_all

lemma observe_all_snoc: "observe_all env (es @ [e]) auth = snd (observe_at env e (observe_all env es auth))"
  by (induction es arbitrary: auth) simp_all

text \<open>The leases for one agent among the events seen.\<close>

definition leases_for :: "lease_env \<Rightarrow> (agent_id \<rightharpoonup> bytes) \<Rightarrow> agent_id \<Rightarrow> nostr_event set \<Rightarrow> lease_content set" where
  "leases_for env expected a es = {c. \<exists>e\<in>es. valid_lease env expected e = Some c \<and> lc_agent_id c = a}"

lemma leases_for_insert: "leases_for env ex a (insert e es) =
    (case valid_lease env ex e of Some c \<Rightarrow> if lc_agent_id c = a then insert c (leases_for env ex a es)
        else leases_for env ex a es | None \<Rightarrow> leases_for env ex a es)"
  by (auto simp: leases_for_def split: option.split)

text \<open>The fold of the observations: a verified lease with the highest term seen.\<close>

lemma observed_highest:
  assumes "rla_observed auth0 = Map.empty" and "ex = rla_expected_q auth0"
  shows "case rla_observed (observe_all env es auth0) a of
      None \<Rightarrow> leases_for env ex a (set es) = {}
    | Some c \<Rightarrow> c \<in> leases_for env ex a (set es)
        \<and> (\<forall>d\<in>leases_for env ex a (set es). lc_term d \<le> lc_term c)"
proof (induction es rule: rev_induct)
  case Nil
  then show ?case by (simp add: assms leases_for_def)
next
  case (snoc e es)
  have L: "leases_for env ex a (set (es @ [e])) =
      (case valid_lease env ex e of
         Some c \<Rightarrow> if lc_agent_id c = a then insert c (leases_for env ex a (set es))
                   else leases_for env ex a (set es)
       | None \<Rightarrow> leases_for env ex a (set es))"
    by (simp add: leases_for_insert)
  show ?case
    using snoc assms(2)
    unfolding L observe_all_snoc observe_at_valid observe_all_frame
    by (cases "valid_lease env ex e"; cases "rla_observed (observe_all env es auth0) a")
      (auto split: option.splits if_splits)
qed

lemma rla_new_observed [simp]: "rla_observed (rla_new n s ex) = Map.empty"
  "rla_expected_q (rla_new n s ex) = ex" "rla_node_id (rla_new n s ex) = n"
  by (simp_all add: rla_new_def)

text \<open>Anti-forgery and observe-only-forward: whatever events a relay delivers, in any order
  and with any repetitions, the lease a node holds for an agent is one that was delivered, is
  addressed to the agent and verifies under the agent's own quorum key, and no delivered lease
  of that kind has a higher term; if it holds none, no such lease was delivered.\<close>

theorem observed_verified_highest:
  assumes "auth = observe_all env es (rla_new node signer expected)"
  shows "case rla_observed auth a of
      None \<Rightarrow> \<forall>e\<in>set es. \<forall>c. valid_lease env expected e = Some c \<longrightarrow> lc_agent_id c \<noteq> a
    | Some c \<Rightarrow> lc_agent_id c = a
        \<and> (\<exists>e\<in>set es. \<exists>q. lease_from_json env (ev_content e) = Some c \<and> d_tag e = Some a
              \<and> expected a = Some q \<and> verify_lease_event env e q = Inr ())
        \<and> (\<forall>e\<in>set es. \<forall>d. valid_lease env expected e = Some d \<longrightarrow> lc_agent_id d = a \<longrightarrow> lc_term d \<le> lc_term c)"
proof (cases "rla_observed auth a")
  case None
  then show ?thesis
    using observed_highest [of "rla_new node signer expected" expected env a es]
    unfolding assms by (auto simp: leases_for_def)
next
  case (Some c)
  then have c: "c \<in> leases_for env expected a (set es)"
    and top: "\<forall>d\<in>leases_for env expected a (set es). lc_term d \<le> lc_term c"
    using observed_highest [of "rla_new node signer expected" expected env a es]
    unfolding assms by auto
  from c obtain e where "e \<in> set es" "valid_lease env expected e = Some c" "lc_agent_id c = a"
    by (auto simp: leases_for_def)
  with valid_leaseD [of env expected e c] have "lc_agent_id c = a
      \<and> (\<exists>e\<in>set es. \<exists>q. lease_from_json env (ev_content e) = Some c \<and> d_tag e = Some a
            \<and> expected a = Some q \<and> verify_lease_event env e q = Inr ())" by blast
  moreover have "\<forall>e\<in>set es. \<forall>d. valid_lease env expected e = Some d \<longrightarrow> lc_agent_id d = a
      \<longrightarrow> lc_term d \<le> lc_term c"
    using top by (auto simp: leases_for_def)
  ultimately show ?thesis by (simp add: Some)
qed

text \<open>Which lease a node holds for an agent: the first one delivered at the highest term. What is
  delivered later at the same term, a heartbeat included, is not folded in.\<close>

lemma observed_first:
  "rla_observed (observe_all env es (rla_new n s ex)) a = Some c \<longleftrightarrow>
     (\<exists>pre e post. es = pre @ e # post \<and> valid_lease env ex e = Some c \<and> lc_agent_id c = a
        \<and> (\<forall>d\<in>leases_for env ex a (set pre). lc_term d < lc_term c)
        \<and> (\<forall>d\<in>leases_for env ex a (set post). lc_term d \<le> lc_term c))"
  (is "?O es c \<longleftrightarrow> ?F es c")
proof (induction es arbitrary: c rule: rev_induct)
  case Nil
  show ?case by simp
next
  case (snoc e es)
  have F: "?F (es @ [e]) c \<longleftrightarrow>
      (?F es c \<and> (\<forall>d\<in>leases_for env ex a {e}. lc_term d \<le> lc_term c))
      \<or> (valid_lease env ex e = Some c \<and> lc_agent_id c = a
         \<and> (\<forall>d\<in>leases_for env ex a (set es). lc_term d < lc_term c))" (is "_ \<longleftrightarrow> ?A \<or> ?B")
  proof
    assume "?F (es @ [e]) c"
    then obtain pre x post where F: "es @ [e] = pre @ x # post" "valid_lease env ex x = Some c"
      "lc_agent_id c = a" "\<forall>d\<in>leases_for env ex a (set pre). lc_term d < lc_term c"
      "\<forall>d\<in>leases_for env ex a (set post). lc_term d \<le> lc_term c" by blast
    show "?A \<or> ?B"
    proof (cases post rule: rev_cases)
      case Nil
      with F show ?thesis by simp
    next
      case (snoc post' y)
      with F(1) have es: "es = pre @ x # post'" and y: "y = e" by simp_all
      have sub: "leases_for env ex a (set post') \<subseteq> leases_for env ex a (set post)"
        and last: "leases_for env ex a {e} \<subseteq> leases_for env ex a (set post)"
        using snoc y by (auto simp: leases_for_def)
      from es F sub have "?F es c" by blast
      with F(5) last show ?thesis by blast
    qed
  next
    assume "?A \<or> ?B"
    then show "?F (es @ [e]) c"
    proof
      assume A: ?A
      then obtain pre x post where F: "es = pre @ x # post" "valid_lease env ex x = Some c"
        "lc_agent_id c = a" "\<forall>d\<in>leases_for env ex a (set pre). lc_term d < lc_term c"
        "\<forall>d\<in>leases_for env ex a (set post). lc_term d \<le> lc_term c" by blast
      have "leases_for env ex a (set (post @ [e])) = leases_for env ex a (set post) \<union> leases_for env ex a {e}"
        by (auto simp: leases_for_def)
      with A F(5) have "\<forall>d\<in>leases_for env ex a (set (post @ [e])). lc_term d \<le> lc_term c" by blast
      moreover from F(1) have "es @ [e] = pre @ x # (post @ [e])" by simp
      ultimately show ?thesis using F(2,3,4) by blast
    next
      assume B: ?B
      have "leases_for env ex a (set []) = {}" by (simp add: leases_for_def)
      with B show ?thesis by blast
    qed
  qed
  have one: "leases_for env ex a {e} = (case valid_lease env ex e of
      Some c \<Rightarrow> if lc_agent_id c = a then {c} else {} | None \<Rightarrow> {})"
    by (auto simp: leases_for_def split: option.split)
  have empty: "rla_observed (observe_all env es (rla_new n s ex)) a = None \<Longrightarrow>
      leases_for env ex a (set es) = {}"
    using observed_highest [of "rla_new n s ex" ex env a es] by simp
  have top: "\<And>p. rla_observed (observe_all env es (rla_new n s ex)) a = Some p \<Longrightarrow>
      p \<in> leases_for env ex a (set es) \<and> (\<forall>d\<in>leases_for env ex a (set es). lc_term d \<le> lc_term p)"
    using observed_highest [of "rla_new n s ex" ex env a es] by simp
  have O: "?O (es @ [e]) c \<longleftrightarrow>
      (?O es c \<and> (\<forall>d\<in>leases_for env ex a {e}. lc_term d \<le> lc_term c))
      \<or> (valid_lease env ex e = Some c \<and> lc_agent_id c = a
         \<and> (\<forall>d\<in>leases_for env ex a (set es). lc_term d < lc_term c))"
  proof (cases "valid_lease env ex e")
    case None
    then show ?thesis by (simp add: observe_all_snoc observe_at_valid one)
  next
    case (Some b)
    show ?thesis
    proof (cases "lc_agent_id b = a")
      case False
      with Some show ?thesis by (auto simp: observe_all_snoc observe_at_valid one)
    next
      case True
      show ?thesis
      proof (cases "rla_observed (observe_all env es (rla_new n s ex)) a")
        case None
        with Some True empty show ?thesis by (auto simp: observe_all_snoc observe_at_valid one)
      next
        case (Some p)
        from top [OF Some] have p: "p \<in> leases_for env ex a (set es)"
          "\<And>d. d \<in> leases_for env ex a (set es) \<Longrightarrow> lc_term d \<le> lc_term p" by auto
        have "(\<forall>d\<in>leases_for env ex a (set es). lc_term d < lc_term b) \<longleftrightarrow> lc_term p < lc_term b"
          using p le_less_trans by blast
        with Some True \<open>valid_lease env ex e = Some b\<close> show ?thesis
          by (auto simp: observe_all_snoc observe_at_valid one)
      qed
    qed
  qed
  show ?case unfolding F O snoc.IH by (rule refl)
qed

text \<open>C36: The term-fence over whatever events the relays delivered, in any order and with any
  repetitions: it lets a node run or debit for an agent at the term it believes in if and only if
  the first verified lease of the highest term delivered for that agent names this node, at that
  term or a later one, and was issued at most 30 seconds ago; and the term the verdict carries is
  that lease's. A later lease of the same term, which is what a heartbeat publishes, neither
  opens the fence nor keeps it open. A lease counts as verified when its event has the lease kind,
  is addressed to the agent it names and verifies under the quorum key expected for that
  agent.\<close>

theorem fence_exact:
  "fence_for (observe_all env es (rla_new node signer expected)) now a believed = Active t \<longleftrightarrow>
     (\<exists>pre e post c. es = pre @ e # post
        \<and> valid_lease env expected e = Some c \<and> lc_agent_id c = a
        \<and> (\<forall>d\<in>leases_for env expected a (set pre). lc_term d < t)
        \<and> (\<forall>d\<in>leases_for env expected a (set post). lc_term d \<le> t)
        \<and> lc_holder_node_id c = node \<and> lc_term c = t \<and> believed \<le> t
        \<and> unat now \<le> unat (lc_issued_at c) + 30)"
proof -
  have "fence_for (observe_all env es (rla_new node signer expected)) now a believed = Active t \<longleftrightarrow>
     (\<exists>c. rla_observed (observe_all env es (rla_new node signer expected)) a = Some c
        \<and> lc_holder_node_id c = node \<and> lc_term c = t \<and> believed \<le> t
        \<and> unat now \<le> unat (lc_issued_at c) + 30)"
    by (auto simp: relay.fence_opens relay.active_term active_lease_for_def fresh_active_lease_def
        is_stale_unat not_less split: option.splits if_splits)
  then show ?thesis unfolding observed_first by blast
qed

text \<open>A concrete instance of the external crates, for the witnesses: every signature is good.\<close>

definition test_env :: "(string \<rightharpoonup> lease_content) \<Rightarrow> lease_env" where
  "test_env decode = \<lparr>hex_encode = id, hex_decode = Some,
     nip01_event_id_with_tags = (\<lambda>pk t k tags c. c), xonly_from_slice = Some, sig_from_slice = Some,
     verify_schnorr = (\<lambda>sg m q. True), lease_to_json = (\<lambda>c. []), lease_from_json = decode\<rparr>"

definition test_event :: "agent_id \<Rightarrow> string \<Rightarrow> nostr_event" where
  "test_event a json = \<lparr>ev_id = json, ev_pubkey = ''Q'', ev_created_at = 0,
     ev_kind = ucast KIND_KIRBY_LEASE, ev_tags = [[TAG_D, a]], ev_content = json, ev_sig = []\<rparr>"

definition test_lease :: "lease_node_id \<Rightarrow> u64 \<Rightarrow> u64 \<Rightarrow> lease_content" where
  "test_lease node term issued = \<lparr>lc_agent_id = ''a'', lc_holder_node_id = node, lc_term = term,
     lc_issued_at = issued\<rparr>"

abbreviation test_decode :: "string \<rightharpoonup> lease_content" where
  "test_decode \<equiv> [''x'' \<mapsto> test_lease 1 2 100, ''y'' \<mapsto> test_lease 2 2 100, ''z'' \<mapsto> test_lease 1 2 120,
     ''w'' \<mapsto> test_lease 2 3 110, ''v'' \<mapsto> test_lease 1 1 120]"

lemma test_valid [simp]:
  "valid_lease (test_env decode) [''a'' \<mapsto> ''Q''] (test_event a json) =
    (case decode json of None \<Rightarrow> None
     | Some c \<Rightarrow> if a = lc_agent_id c \<and> lc_agent_id c = ''a'' then Some c else None)"
  by (auto simp: valid_lease_def test_event_def test_env_def d_tag_def verify_lease_event_def
      split: option.split)

lemma test_lease_simps [simp]:
  "lc_agent_id (test_lease n t i) = ''a''" "lc_holder_node_id (test_lease n t i) = n"
  "lc_term (test_lease n t i) = t" "lc_issued_at (test_lease n t i) = i"
  by (simp_all add: test_lease_def)

abbreviation test_node :: "lease_node_id \<Rightarrow> string list \<Rightarrow> relay_lease_authority" where
  "test_node n jsons \<equiv> observe_all (test_env test_decode) (map (test_event ''a'') jsons)
     (rla_new n None [''a'' \<mapsto> ''Q''])"

text \<open>Node 1 is named at term 2, first by \<open>x\<close> (issued at 100), then by the heartbeat \<open>z\<close> (issued at
  120): at 125 the fence is open by the first one, at 140 the heartbeat does not keep it open.\<close>

theorem fence_exact_witness:
  "fence_for (test_node 1 [''v'', ''x'', ''z'']) 125 ''a'' 2 = Active 2
   \<and> fence_for (test_node 1 [''v'', ''x'', ''z'']) 140 ''a'' 2 \<noteq> Active 2"
proof
  have "\<exists>pre e post c. map (test_event ''a'') [''v'', ''x'', ''z''] = pre @ e # post
        \<and> valid_lease (test_env test_decode) [''a'' \<mapsto> ''Q''] e = Some c \<and> lc_agent_id c = ''a''
        \<and> (\<forall>d\<in>leases_for (test_env test_decode) [''a'' \<mapsto> ''Q''] ''a'' (set pre). lc_term d < 2)
        \<and> (\<forall>d\<in>leases_for (test_env test_decode) [''a'' \<mapsto> ''Q''] ''a'' (set post). lc_term d \<le> 2)
        \<and> lc_holder_node_id c = 1 \<and> lc_term c = 2 \<and> 2 \<le> (2 :: u64)
        \<and> unat (125 :: u64) \<le> unat (lc_issued_at c) + 30"
    by (rule exI [of _ "[test_event ''a'' ''v'']"], rule exI [of _ "test_event ''a'' ''x''"],
        rule exI [of _ "[test_event ''a'' ''z'']"], rule exI [of _ "test_lease 1 2 100"])
      (auto simp: leases_for_def)
  then show "fence_for (test_node 1 [''v'', ''x'', ''z'']) 125 ''a'' 2 = Active 2"
    by (simp only: fence_exact)
  have "rla_observed (test_node 1 [''v'', ''x'', ''z'']) ''a'' = Some (test_lease 1 2 100)"
    by (auto simp: observe_at_valid word_le_nat_alt)
  then show "fence_for (test_node 1 [''v'', ''x'', ''z'']) 140 ''a'' 2 \<noteq> Active 2"
    by (auto simp: fence_for_def fresh_active_lease_def is_stale_unat)
qed

theorem observed_verified_highest_witness:
  "\<exists>c. rla_observed (test_node 1 [''x'', ''w'', ''x'']) ''a'' = Some c \<and> lc_agent_id c = ''a'' \<and> lc_term c = 3"
  using observed_verified_highest [OF refl, where a = "''a''" and env = "test_env test_decode"
      and es = "map (test_event ''a'') [''x'', ''w'', ''x'']" and node = 1 and signer = None
      and expected = "[''a'' \<mapsto> ''Q'']"]
  by (simp add: observe_at_valid)

section \<open>The single-writer fence\<close>

lemma observed_in:
  "rla_observed (observe_all env es (rla_new n s ex)) a = Some c \<Longrightarrow>
     c \<in> leases_for env ex a (set es) \<and> (\<forall>d\<in>leases_for env ex a (set es). lc_term d \<le> lc_term c)"
  using observed_highest [of "rla_new n s ex" ex env a es] by simp

text \<open>No split brain: two nodes that have observed the same lease events for an agent, in any
  two orders, cannot both be let through the fence, whatever terms they believe in and whenever
  they ask, provided no term of that agent was claimed under its quorum key by two holders.\<close>

theorem no_split_brain:
  assumes "set es1 = set es2"
    and "\<forall>c\<in>leases_for env ex a (set es1). \<forall>d\<in>leases_for env ex a (set es1).
      lc_term c = lc_term d \<longrightarrow> lc_holder_node_id c = lc_holder_node_id d"
    and "may_act (fence_for (observe_all env es1 (rla_new n1 s1 ex)) now1 a b1)"
    and "may_act (fence_for (observe_all env es2 (rla_new n2 s2 ex)) now2 a b2)"
  shows "n1 = n2"
proof -
  from assms(3,4) obtain c d where c: "rla_observed (observe_all env es1 (rla_new n1 s1 ex)) a = Some c"
      "lc_holder_node_id c = n1"
    and d: "rla_observed (observe_all env es2 (rla_new n2 s2 ex)) a = Some d" "lc_holder_node_id d = n2"
    by (auto simp: may_act_fresh)
  let ?L = "leases_for env ex a (set es1)"
  have c': "c \<in> ?L" "\<forall>x\<in>?L. lc_term x \<le> lc_term c" using observed_in [OF c(1)] by blast+
  have d': "d \<in> ?L" "\<forall>x\<in>?L. lc_term x \<le> lc_term d" using observed_in [OF d(1)] assms(1) by auto
  from c' d' have "lc_term c = lc_term d" by (simp add: antisym)
  with assms(2) c' d' have "lc_holder_node_id c = lc_holder_node_id d" by blast
  with c(2) d(2) show ?thesis by simp
qed

theorem no_split_brain_witness:
  "may_act (fence_for (test_node 2 [''x'', ''w'']) 120 ''a'' 3)
   \<and> \<not> may_act (fence_for (test_node 1 [''w'', ''x'']) 120 ''a'' 2)"
proof -
  have y: "may_act (fence_for (test_node 2 [''x'', ''w'']) 120 ''a'' 3)"
    by (simp add: may_act_fresh observe_at_valid)
  moreover have "\<not> may_act (fence_for (test_node 1 [''w'', ''x'']) 120 ''a'' 2)"
  proof
    assume x: "may_act (fence_for (test_node 1 [''w'', ''x'']) 120 ''a'' 2)"
    have "(2 :: u64) = 1"
      by (rule no_split_brain [OF _ _ y x]) (auto simp: leases_for_def)
    then show False by simp
  qed
  ultimately show ?thesis by simp
qed

text \<open>A superseded node stands down: once a node has observed a verified lease for the agent
  that names another holder, at a term above every lease it has observed naming itself, its fence
  stays shut for every believed term and at every time, however the events were ordered.\<close>

theorem superseded_stands_down:
  assumes "c \<in> leases_for env ex a (set es)" and "lc_holder_node_id c \<noteq> node"
    and "\<forall>d\<in>leases_for env ex a (set es). lc_holder_node_id d = node \<longrightarrow> lc_term d < lc_term c"
  shows "\<not> may_act (fence_for (observe_all env es (rla_new node signer ex)) now a believed)"
proof
  assume "may_act (fence_for (observe_all env es (rla_new node signer ex)) now a believed)"
  then obtain d where d: "rla_observed (observe_all env es (rla_new node signer ex)) a = Some d"
    "lc_holder_node_id d = node" by (auto simp: may_act_fresh)
  with observed_in [OF d(1)] assms show False by force
qed

theorem superseded_stands_down_witness:
  "\<not> may_act (fence_for (test_node 1 [''w'', ''x'', ''z'']) 120 ''a'' 0)"
  by (rule superseded_stands_down [where c = "test_lease 2 3 110"]) (auto simp: leases_for_def)

text \<open>The provider keeps the interface's promise that a shut fence stays shut while nothing new is
  observed, whatever the reason it is shut.\<close>

lemma fence_stays_shut:
  "\<not> may_act (fence_for auth now a b) \<Longrightarrow> now \<le> now' \<Longrightarrow> \<not> may_act (fence_for auth now' a b)"
  by (rule relay.fenced_stays)

section \<open>The verified authority ignores heartbeats\<close>

text \<open>A heartbeat does not keep the verified authority's fence open: re-publishing a lease at
  its current term with a later \<open>issued_at\<close> is not folded in, so a node whose term never moves is
  fenced out 30 seconds after the first lease of that term was issued, however often it beats.\<close>

theorem heartbeat_ignored:
  assumes "rla_observed auth a = Some c" and "valid_lease env (rla_expected_q auth) event = Some beat"
    and "lc_agent_id beat = a" and "lc_term beat = lc_term c"
    and "unat (lc_issued_at c) + 30 < unat now"
  shows "observe_at env event auth = (False, auth)
    \<and> \<not> may_act (fence_for (snd (observe_at env event auth)) now a believed)"
  using assms by (auto simp: observe_at_valid may_act_fresh)

theorem heartbeat_ignored_witness:
  "\<not> may_act (fence_for (test_node 1 [''x'', ''z'']) 140 ''a'' 2)"
proof -
  have "\<not> may_act (fence_for (snd (observe_at (test_env test_decode) (test_event ''a'' ''z'')
      (test_node 1 [''x'']))) 140 ''a'' 2)"
    using heartbeat_ignored [where auth = "test_node 1 [''x'']" and a = "''a''" and c = "test_lease 1 2 100"
        and env = "test_env test_decode" and event = "test_event ''a'' ''z''" and beat = "test_lease 1 2 120"
        and now = 140 and believed = 2]
    by (simp add: observe_at_valid)
  then show ?thesis by simp
qed

section \<open>Claiming\<close>

lemma d_tag_lease_tags [simp]: "d_tag_of (lease_tags a n x) = Some a"
  by (simp add: lease_tags_def)

text \<open>A claim is what an observer accepts: if the quorum signer returns an event over the kind,
  tags and content it was given, and the lease JSON decodes to what was encoded, then a successful
  claim is folded in by every authority that expects the signer's key for the agent and has seen
  no lease at this term or above, and it opens the claimant's own fence at once, for 30 seconds.\<close>

theorem claim_opens_fence:
  assumes "claim env t claimant a term = Inr event"
    and "rla_signer claimant = Some sign_event"
    and "\<forall>k ca tags json ev. sign_event k ca tags json = Inr ev \<longrightarrow>
      ev_kind ev = k \<and> ev_tags ev = tags \<and> ev_content ev = json"
    and "\<forall>c. lease_from_json env (lease_to_json env c) = Some c"
    and "rla_expected_q auth a = Some (rla_signer_q claimant)"
    and "\<forall>c. rla_observed auth a = Some c \<longrightarrow> lc_term c < term"
    and "rla_node_id auth = rla_node_id claimant" and "unat now \<le> unat t + 30"
  shows "fst (observe_at env event auth)
    \<and> fence_for (snd (observe_at env event auth)) now a term = Active term"
proof -
  let ?c = "\<lparr>lc_agent_id = a, lc_holder_node_id = rla_node_id claimant, lc_term = term, lc_issued_at = t\<rparr>"
  have v: "verify_lease_event env event (rla_signer_q claimant) = Inr ()"
    and f: "ev_kind event = ucast KIND_KIRBY_LEASE" "d_tag event = Some a" "ev_content event = lease_to_json env ?c"
    using assms(1,2,3) by (auto simp: claim_def Let_def d_tag_def split: sum.splits)
  then have "valid_lease env (rla_expected_q auth) event = Some ?c"
    using assms(4,5) by (simp add: valid_lease_def)
  with assms(6,7,8) show ?thesis
    by (auto simp: observe_at_valid fence_for_def fresh_active_lease_def is_stale_unat split: option.splits)
qed

abbreviation test_claimant :: relay_lease_authority where
  "test_claimant \<equiv> single_agent 4 ''a''
     (\<lambda>k t tags json. Inr \<lparr>ev_id = json, ev_pubkey = ''Q'', ev_created_at = t, ev_kind = k,
        ev_tags = tags, ev_content = json, ev_sig = []\<rparr>, ''Q'')"

text \<open>A fixed-width encoding that stands for the JSON codec in the witness.\<close>

definition bin_encode :: "lease_content \<Rightarrow> string" where
  "bin_encode c = to_be_bytes (lc_holder_node_id c) @ to_be_bytes (lc_term c)
     @ to_be_bytes (lc_issued_at c) @ lc_agent_id c"

definition bin_decode :: "string \<Rightarrow> lease_content option" where
  "bin_decode s = Some \<lparr>lc_agent_id = drop 24 s, lc_holder_node_id = from_be_bytes (take 8 s),
     lc_term = from_be_bytes (take 8 (drop 8 s)), lc_issued_at = from_be_bytes (take 8 (drop 16 s))\<rparr>"

lemma bin_roundtrip: "bin_decode (bin_encode c) = Some c"
  by (simp add: bin_decode_def bin_encode_def)

theorem claim_opens_fence_witness:
  "\<exists>ev. claim ((test_env bin_decode)\<lparr>lease_to_json := bin_encode\<rparr>) 50 test_claimant ''a'' 7 = Inr ev
    \<and> fst (observe_at ((test_env bin_decode)\<lparr>lease_to_json := bin_encode\<rparr>) ev test_claimant)"
proof -
  let ?env = "(test_env bin_decode)\<lparr>lease_to_json := bin_encode\<rparr>"
  obtain ev where ev: "claim ?env 50 test_claimant ''a'' 7 = Inr ev"
    by (simp add: claim_def single_agent_def rla_new_def verify_lease_event_def test_env_def Let_def)
  have "fst (observe_at ?env ev test_claimant) \<and>
      fence_for (snd (observe_at ?env ev test_claimant)) 60 ''a'' 7 = Active 7"
    by (rule claim_opens_fence [OF ev, unfolded single_agent_def rla_new_def])
      (auto simp: single_agent_def rla_new_def test_env_def bin_roundtrip)
  with ev show ?thesis by blast
qed

section \<open>The launch fence\<close>

text \<open>The verified lease for an agent in a fetched event, and the scan as a fold over those.\<close>

definition verified_record :: "lease_env \<Rightarrow> agent_id \<Rightarrow> bytes \<Rightarrow> nostr_event \<Rightarrow> observed_lease_record option" where
  "verified_record env a q e =
     (case lease_from_json env (ev_content e) of
        None \<Rightarrow> None
      | Some c \<Rightarrow> if d_tag e = Some a \<and> lc_agent_id c = a \<and> verify_lease_event env e q = Inr ()
                  then Some (record_of c) else None)"

definition take_fresher :: "observed_lease_record option \<Rightarrow> observed_lease_record \<Rightarrow> observed_lease_record option" where
  "take_fresher best r = (case best of None \<Rightarrow> Some r | Some b \<Rightarrow> if fresher r b then Some r else best)"

lemma take_fresher_simps [simp]:
  "take_fresher None r = Some r"
  "take_fresher (Some b) r = Some (if fresher r b then r else b)"
  by (simp_all add: take_fresher_def)

lemma select_scan_Cons: "select_scan env a q best (e # es) =
    select_scan env a q (case verified_record env a q e of None \<Rightarrow> best | Some r \<Rightarrow> take_fresher best r) es"
  by (cases best) (auto simp: verified_record_def take_fresher_def split: option.split sum.split)

lemma select_scan_fold:
  "select_scan env a q best es = foldl take_fresher best (List.map_filter (verified_record env a q) es)"
  by (induction es arbitrary: best)
    (auto simp: select_scan_Cons map_filter_simps simp del: select_scan.simps(2) split: option.split)

lemma foldl_fresher:
  "\<exists>r. foldl take_fresher (Some b) rs = Some r \<and> r \<in> insert b (set rs) \<and> (\<forall>x\<in>insert b (set rs). \<not> fresher x r)"
proof (induction rs arbitrary: b)
  case Nil
  then show ?case by (simp add: fresher_def)
next
  case (Cons x rs)
  show ?case
  proof (cases "fresher x b")
    case True
    obtain r where r: "foldl take_fresher (Some x) rs = Some r" "r \<in> insert x (set rs)"
      "\<forall>y\<in>insert x (set rs). \<not> fresher y r" using Cons by blast
    have "\<not> fresher b r" using True r(3) by (auto simp: fresher_def)
    with r True show ?thesis by auto
  next
    case False
    obtain r where r: "foldl take_fresher (Some b) rs = Some r" "r \<in> insert b (set rs)"
      "\<forall>y\<in>insert b (set rs). \<not> fresher y r" using Cons by blast
    have "\<not> fresher x r" using False r(3) by (auto simp: fresher_def)
    with r False show ?thesis by auto
  qed
qed

lemma set_map_filter: "r \<in> set (List.map_filter f xs) \<longleftrightarrow> (\<exists>x\<in>set xs. f x = Some r)"
  by (force simp: List.map_filter_def)

text \<open>The launch fence re-reads the winner: \<open>select_verified_latest_lease\<close> returns a lease that
  was fetched, is addressed to the agent and verifies under its quorum key, and no such lease has
  a later (term, issued-at); it returns \<open>None\<close> only when no fetched lease verifies. A forged event
  has no influence: the answer is one of the verified records and is bounded by them alone.\<close>

theorem select_verified_exact:
  "case select_verified_latest_lease env events a q of
     None \<Rightarrow> \<forall>e\<in>set events. verified_record env a q e = None
   | Some r \<Rightarrow> (\<exists>e\<in>set events. verified_record env a q e = Some r)
       \<and> (\<forall>e\<in>set events. \<forall>x. verified_record env a q e = Some x \<longrightarrow> \<not> fresher x r)"
proof (cases "List.map_filter (verified_record env a q) events")
  case Nil
  then have "\<forall>e\<in>set events. verified_record env a q e = None"
    by (metis set_map_filter not_Some_eq empty_iff set_empty)
  with Nil show ?thesis by (simp add: select_verified_latest_lease_def select_scan_fold)
next
  case (Cons b rs)
  obtain r where r: "foldl take_fresher (Some b) rs = Some r" "r \<in> set (b # rs)"
    "\<forall>x\<in>set (b # rs). \<not> fresher x r" using foldl_fresher [of b rs] by auto
  have sel: "select_verified_latest_lease env events a q = Some r"
    using Cons r(1) by (simp add: select_verified_latest_lease_def select_scan_fold take_fresher_def)
  have mem: "x \<in> set (b # rs) \<longleftrightarrow> (\<exists>e\<in>set events. verified_record env a q e = Some x)" for x
    unfolding Cons [symmetric] by (rule set_map_filter)
  from r(2,3) show ?thesis unfolding sel option.case using mem by blast
qed

theorem select_verified_exact_witness:
  "\<exists>r. select_verified_latest_lease (test_env test_decode)
       [test_event ''a'' ''w'', test_event ''a'' ''x'', test_event ''b'' ''z''] ''a'' ''Q'' = Some r"
proof -
  let ?es = "[test_event ''a'' ''w'', test_event ''a'' ''x'', test_event ''b'' ''z'']"
  have "verified_record (test_env test_decode) ''a'' ''Q'' (test_event ''a'' ''w'') = Some (record_of (test_lease 2 3 110))"
    by (simp add: verified_record_def test_event_def test_env_def d_tag_def verify_lease_event_def)
  with select_verified_exact [where env = "test_env test_decode" and events = ?es and a = "''a''" and q = "''Q''"]
  show ?thesis by (auto split: option.splits)
qed

text \<open>One winner: if two nodes confirm a takeover of the agent against the same lease that
  survived at the relay, they are the same node and claimed the same term; so the re-read after
  the claim launches at most one of any number of survivors racing for the same term.\<close>

theorem single_takeover_winner:
  assumes "confirm_takeover_win surviving term1 n1" and "confirm_takeover_win surviving term2 n2"
  shows "n1 = n2 \<and> term1 = term2"
  using assms by (auto simp: confirm_takeover_win_def split: option.splits)

theorem single_takeover_winner_witness:
  "confirm_takeover_win (Some (record_of (test_lease 2 3 110))) 3 2
   \<and> \<not> confirm_takeover_win (Some (record_of (test_lease 2 3 110))) 3 1"
proof -
  have w: "confirm_takeover_win (Some (record_of (test_lease 2 3 110))) 3 2"
    by (simp add: confirm_takeover_win_def record_of_def)
  with single_takeover_winner [OF w, of 3 1] show ?thesis by auto
qed

section \<open>The occupancy observer\<close>

text \<open>In the cooperative occupancy view an agent changes hands only at a strictly higher term:
  when an observed event replaces the lease of an agent, either the term rose, or the holder is
  the same and its \<open>issued_at\<close> is strictly later; the lease of every other agent is untouched, and
  a rejected event changes nothing.\<close>

theorem occupancy_change:
  assumes "tree_ok (flo_observed obs)"
    and "observe_occupancy env kind tags json obs = (accepted, obs')"
    and "tget (flo_observed obs) a = Some prev"
  shows "(\<exists>c. tget (flo_observed obs') a = Some c
    \<and> (c = prev \<or> accepted \<and> lease_from_json env json = Some c \<and> lc_agent_id c = a
         \<and> (lc_term prev < lc_term c
            \<or> lc_holder_node_id c = lc_holder_node_id prev \<and> lc_issued_at prev < lc_issued_at c)))
    \<and> (\<not> accepted \<longrightarrow> obs' = obs)"
  using assms by (auto simp: observe_occupancy_def Let_def split: option.splits if_splits)

theorem occupancy_change_witness:
  "\<exists>c. tget (flo_observed (snd (observe_occupancy (test_env test_decode) KIND_KIRBY_LEASE [[TAG_D, ''a'']] ''z''
     \<lparr>flo_node_id = 9, flo_observed = [(''a'', test_lease 1 2 100)]\<rparr>))) ''a'' = Some c"
proof -
  obtain acc obs' where o: "observe_occupancy (test_env test_decode) KIND_KIRBY_LEASE [[TAG_D, ''a'']] ''z''
     \<lparr>flo_node_id = 9, flo_observed = [(''a'', test_lease 1 2 100)]\<rparr> = (acc, obs')" by fastforce
  from occupancy_change [OF _ o, where a = "''a''" and prev = "test_lease 1 2 100"]
  show ?thesis by (auto simp: o tree_ok_def)
qed

text \<open>The occupancy view's term can move backward: an event for an agent at a strictly LOWER
  term than the one held, from the same holder and with a later \<open>issued_at\<close>, is accepted and
  replaces the lease (so a node that restarts and claims term 1 again rewinds its peers' view of
  its fencing token).\<close>

theorem occupancy_term_regresses:
  assumes "tree_ok (flo_observed obs)"
    and "tget (flo_observed obs) a = Some prev" and "lease_from_json env json = Some c"
    and "lc_agent_id c = a" and "sdk_d_tag tags = Some a"
    and "lc_holder_node_id c = lc_holder_node_id prev" and "lc_issued_at prev < lc_issued_at c"
    and "lc_term c < lc_term prev"
  shows "\<exists>obs'. observe_occupancy env KIND_KIRBY_LEASE tags json obs = (True, obs')
    \<and> map_option olr_term (latest_observed_lease obs' a) = Some (lc_term c)"
  using assms by (auto simp: observe_occupancy_def Let_def latest_observed_lease_def record_of_def)

theorem occupancy_term_regresses_witness:
  "\<exists>obs'. observe_occupancy (test_env test_decode) KIND_KIRBY_LEASE [[TAG_D, ''a'']] ''v''
      \<lparr>flo_node_id = 9, flo_observed = [(''a'', test_lease 1 2 100)]\<rparr> = (True, obs')
    \<and> map_option olr_term (latest_observed_lease obs' ''a'') = Some 1"
  using occupancy_term_regresses [where obs = "\<lparr>flo_node_id = 9, flo_observed = [(''a'', test_lease 1 2 100)]\<rparr>"
      and a = "''a''" and prev = "test_lease 1 2 100" and env = "test_env test_decode" and json = "''v''"
      and c = "test_lease 1 1 120" and tags = "[[TAG_D, ''a'']]"]
  by (simp add: tree_ok_def test_env_def)

section \<open>Claiming for a tenant fails closed\<close>

text \<open>\<open>claim_for\<close> fails closed and never publishes what it must not: it returns a lease only for
  this node itself, from a keystore that is not distributed and whose quorum loads, after the relay
  accepted an event that verifies under that quorum's key; on a foreign node id, a distributed
  keystore or an unloadable quorum it publishes nothing.\<close>

theorem claim_for_fails_closed:
  assumes "claim_for env publish distributed loaded now self_id a node term = (res, published)"
  shows "(\<forall>e. published = Some e \<longrightarrow> node = self_id \<and> \<not> distributed
       \<and> (\<exists>sg q. loaded = Inr (sg, q) \<and> verify_lease_event env e q = Inr ()))
    \<and> (\<forall>r. res = Inr r \<longrightarrow> r = \<lparr>lr_node_id = self_id, lr_term = term\<rparr>
         \<and> (\<exists>e. published = Some e \<and> publish e = Inr ()))"
  using assms
  by (auto simp: claim_for_def claim_def single_agent_def rla_new_def Let_def split: if_splits sum.splits)

theorem claim_for_fails_closed_witness:
  "\<exists>e. claim_for ((test_env bin_decode)\<lparr>lease_to_json := bin_encode\<rparr>) (\<lambda>e. Inr ()) False
     (Inr (the (rla_signer test_claimant), ''Q'')) 50 4 ''a'' 4 7 = (Inr \<lparr>lr_node_id = 4, lr_term = 7\<rparr>, Some e)
   \<and> (\<exists>q. verify_lease_event ((test_env bin_decode)\<lparr>lease_to_json := bin_encode\<rparr>) e q = Inr ())"
proof -
  obtain e where e: "claim_for ((test_env bin_decode)\<lparr>lease_to_json := bin_encode\<rparr>) (\<lambda>e. Inr ()) False
     (Inr (the (rla_signer test_claimant), ''Q'')) 50 4 ''a'' 4 7 = (Inr \<lparr>lr_node_id = 4, lr_term = 7\<rparr>, Some e)"
    by (simp add: claim_for_def claim_def single_agent_def rla_new_def verify_lease_event_def test_env_def Let_def)
  from claim_for_fails_closed [OF e] e show ?thesis by blast
qed

end
