(* ===== verification/Failover.thy ===== *)
theory Failover
  imports Relay_Lease_Props
begin

text \<open>
  The failover decision of \<open>crates/kirby-node/src/failover_detect.rs\<close>: which peers' agents a
  surviving node takes over, given what it has observed of the fleet's leases. \<open>BTreeMap\<close>s are trees
  (visited in key order), the in/out \<open>grace_state\<close> is returned updated, and \<open>lease.term + 1\<close> wraps.
\<close>

record takeover_verdict =
  tv_agent_id :: agent_id
  tv_beat_term :: u64

definition DEFAULT_TAKEOVER_GRACE_SECS :: u64 where
  "DEFAULT_TAKEOVER_GRACE_SECS = LEASE_TTL_SECS"

definition DEFAULT_FAILOVER_MAX_LEASE_AGE_SECS :: u64 where
  "DEFAULT_FAILOVER_MAX_LEASE_AGE_SECS = 10 * LEASE_TTL_SECS"

definition DEFAULT_TAKEOVER_FAIL_BACKOFF_SECS :: u64 where
  "DEFAULT_TAKEOVER_FAIL_BACKOFF_SECS = 60"

type_synonym snapshot = "(agent_id, observed_lease_record) tree"
type_synonym grace_map = "(agent_id, u64) tree"

definition lease_is_stale :: "u64 \<Rightarrow> u64 \<Rightarrow> u64 \<Rightarrow> bool" where
  "lease_is_stale issued_at now ttl \<longleftrightarrow> saturating_sub now issued_at > ttl"

text \<open>The body of the loop over the snapshot; \<open>keep\<close> is \<open>keep_stale\<close>.\<close>

fun detect_scan ::
  "agent_id set \<Rightarrow> u64 \<Rightarrow> u64 \<Rightarrow> u64 \<Rightarrow> u64 \<Rightarrow> grace_map \<Rightarrow> grace_map \<Rightarrow> snapshot
     \<Rightarrow> takeover_verdict list \<times> grace_map" where
  "detect_scan hosted now ttl grace max_age grace_state keep [] = ([], keep)"
| "detect_scan hosted now ttl grace max_age grace_state keep ((a, lease) # rest) =
     (if a \<in> hosted then detect_scan hosted now ttl grace max_age grace_state keep rest
      else if \<not> lease_is_stale (olr_issued_at lease) now ttl
      then detect_scan hosted now ttl grace max_age grace_state keep rest
      else if saturating_sub now (olr_issued_at lease) > max_age
      then detect_scan hosted now ttl grace max_age grace_state keep rest
      else
        (let first_seen_stale = (case tget grace_state a of Some t \<Rightarrow> t | None \<Rightarrow> now);
             (verdicts, keep') = detect_scan hosted now ttl grace max_age grace_state
                                   (tinsert a first_seen_stale keep) rest
         in (if saturating_sub now first_seen_stale \<ge> grace
             then \<lparr>tv_agent_id = a, tv_beat_term = olr_term lease + 1\<rparr> # verdicts
             else verdicts, keep')))"

definition detect_takeovers ::
  "snapshot \<Rightarrow> lease_node_id \<Rightarrow> agent_id set \<Rightarrow> u64 \<Rightarrow> u64 \<Rightarrow> u64 \<Rightarrow> u64 \<Rightarrow> grace_map
     \<Rightarrow> takeover_verdict list \<times> grace_map" where
  "detect_takeovers snap node hosted now ttl grace max_age grace_state =
     (if \<not> list_ex (\<lambda>(a, l). \<not> lease_is_stale (olr_issued_at l) now ttl) snap then ([], grace_state)
      else detect_scan hosted now ttl grace max_age grace_state [] snap)"

definition drop_backed_off_verdicts ::
  "takeover_verdict list \<Rightarrow> (agent_id, u64) tree \<Rightarrow> u64 \<Rightarrow> u64 \<Rightarrow> takeover_verdict list" where
  "drop_backed_off_verdicts verdicts backoff now backoff_secs =
     filter (\<lambda>v. case tget backoff (tv_agent_id v) of
        Some last_fail \<Rightarrow> saturating_sub now last_fail \<ge> backoff_secs
      | None \<Rightarrow> True) verdicts"

section \<open>One tick\<close>

lemma lease_is_stale_unat: "lease_is_stale i now ttl \<longleftrightarrow> unat i + unat ttl < unat now"
  by (auto simp: lease_is_stale_def word_less_nat_alt unat_saturating_sub)

definition blind :: "snapshot \<Rightarrow> u64 \<Rightarrow> u64 \<Rightarrow> bool" where
  "blind snap now ttl \<longleftrightarrow> (\<forall>(a, l)\<in>set snap. lease_is_stale (olr_issued_at l) now ttl)"

definition candidate :: "snapshot \<Rightarrow> agent_id set \<Rightarrow> u64 \<Rightarrow> u64 \<Rightarrow> u64 \<Rightarrow> agent_id \<Rightarrow> bool" where
  "candidate snap hosted now ttl max_age a \<longleftrightarrow> a \<notin> hosted \<and>
     (\<exists>l. tget snap a = Some l \<and> unat (olr_issued_at l) + unat ttl < unat now
        \<and> unat now - unat (olr_issued_at l) \<le> unat max_age)"

definition first_seen :: "grace_map \<Rightarrow> u64 \<Rightarrow> agent_id \<Rightarrow> u64" where
  "first_seen g now a = (case tget g a of Some t \<Rightarrow> t | None \<Rightarrow> now)"

definition dwelt :: "grace_map \<Rightarrow> u64 \<Rightarrow> u64 \<Rightarrow> agent_id \<Rightarrow> bool" where
  "dwelt g now grace a \<longleftrightarrow> unat grace \<le> unat now - unat (first_seen g now a)"

text \<open>The scan filters the snapshot: what it keeps and what it emits.\<close>

definition eligible :: "agent_id set \<Rightarrow> u64 \<Rightarrow> u64 \<Rightarrow> u64 \<Rightarrow> agent_id \<times> observed_lease_record \<Rightarrow> bool" where
  "eligible hosted now ttl max_age al \<longleftrightarrow> fst al \<notin> hosted
     \<and> unat (olr_issued_at (snd al)) + unat ttl < unat now
     \<and> unat now - unat (olr_issued_at (snd al)) \<le> unat max_age"

lemma detect_scan_verdicts:
  "fst (detect_scan hosted now ttl grace max_age g keep snap) =
     map (\<lambda>(a, l). \<lparr>tv_agent_id = a, tv_beat_term = olr_term l + 1\<rparr>)
       (filter (\<lambda>al. eligible hosted now ttl max_age al \<and> dwelt g now grace (fst al)) snap)"
  by (induction hosted now ttl grace max_age g keep snap rule: detect_scan.induct)
    (auto simp: eligible_def dwelt_def first_seen_def lease_is_stale_unat word_less_nat_alt
      word_le_nat_alt unat_saturating_sub Let_def not_less not_le split: prod.split)

lemma detect_scan_keep:
  assumes "tree_ok keep"
  shows "tree_ok (snd (detect_scan hosted now ttl grace max_age g keep snap))
    \<and> tget (snd (detect_scan hosted now ttl grace max_age g keep snap)) a =
       (if \<exists>l. (a, l) \<in> set snap \<and> eligible hosted now ttl max_age (a, l)
        then Some (first_seen g now a) else tget keep a)"
  using assms
proof (induction hosted now ttl grace max_age g keep snap rule: detect_scan.induct [case_names Nil Cons])
  case (Cons hosted now ttl grace max_age g keep b lease rest)
  have e: "eligible hosted now ttl max_age (b, lease) \<longleftrightarrow> b \<notin> hosted
      \<and> lease_is_stale (olr_issued_at lease) now ttl \<and> \<not> saturating_sub now (olr_issued_at lease) > max_age"
    by (auto simp: eligible_def lease_is_stale_unat word_less_nat_alt unat_saturating_sub)
  show ?case
  proof (cases "eligible hosted now ttl max_age (b, lease)")
    case False
    with Cons show ?thesis by (auto simp: e)
  next
    case True
    then have c: "b \<notin> hosted" "\<not> \<not> lease_is_stale (olr_issued_at lease) now ttl"
      "\<not> saturating_sub now (olr_issued_at lease) > max_age" by (auto simp: e)
    have "tree_ok (tinsert b (first_seen g now b) keep)" using Cons.prems by simp
    with Cons.IH(4) [OF c refl] Cons.prems True show ?thesis
      using c by (auto simp: first_seen_def Let_def case_prod_beta)
  qed
qed simp

lemma detect_takeovers_blind:
  "blind snap now ttl \<Longrightarrow> detect_takeovers snap node hosted now ttl grace max_age g = ([], g)"
  by (auto simp: detect_takeovers_def blind_def list_ex_iff)

lemma detect_takeovers_seeing:
  "\<not> blind snap now ttl \<Longrightarrow> detect_takeovers snap node hosted now ttl grace max_age g =
     detect_scan hosted now ttl grace max_age g [] snap"
  by (auto simp: detect_takeovers_def blind_def list_ex_iff)

lemma candidate_eligible:
  "tree_ok snap \<Longrightarrow> candidate snap hosted now ttl max_age a \<longleftrightarrow>
     (\<exists>l. (a, l) \<in> set snap \<and> eligible hosted now ttl max_age (a, l))"
  by (auto simp: candidate_def eligible_def tget_in_set)

text \<open>The observer-blind fail-safe: when no observed lease is fresh, the detector takes nothing
  over and leaves the grace timers exactly as they were, so a node that lost its relay link never
  takes over the fleet, however many ticks it stays blind.\<close>

theorem blind_stands_down:
  assumes "\<forall>(a, l)\<in>set snap. unat (olr_issued_at l) + unat ttl < unat now"
  shows "detect_takeovers snap node hosted now ttl grace max_age g = ([], g)"
  using assms by (intro detect_takeovers_blind) (simp add: blind_def lease_is_stale_unat)

theorem blind_stands_down_witness:
  "detect_takeovers [(''a'', \<lparr>olr_holder_node_id = 2, olr_term = 1, olr_issued_at = 5\<rparr>)] 1 {} 100 30 0 300
     [(''a'', 40)] = ([], [(''a'', 40)])"
  by (rule blind_stands_down) simp

lemma takeover_timers:
  assumes "tree_ok snap" and "\<not> blind snap now ttl"
    and "detect_takeovers snap node hosted now ttl grace max_age g = (verdicts, g')"
  shows "tget g' a = (if candidate snap hosted now ttl max_age a then Some (first_seen g now a) else None)"
  using assms(3) detect_scan_keep [of "[]" hosted now ttl grace max_age g snap a]
  by (simp add: detect_takeovers_seeing [OF assms(2)] candidate_eligible [OF assms(1)])

lemma takeover_verdicts:
  assumes "\<not> blind snap now ttl"
    and "detect_takeovers snap node hosted now ttl grace max_age g = (verdicts, g')"
  shows "verdicts = map (\<lambda>(a, l). \<lparr>tv_agent_id = a, tv_beat_term = olr_term l + 1\<rparr>)
    (filter (\<lambda>al. eligible hosted now ttl max_age al \<and> dwelt g now grace (fst al)) snap)"
  using assms(2) detect_scan_verdicts [of hosted now ttl grace max_age g "[]" snap]
  by (simp add: detect_takeovers_seeing [OF assms(1)])

lemma takeover_verdict_iff:
  assumes "tree_ok snap" and "\<not> blind snap now ttl"
    and "detect_takeovers snap node hosted now ttl grace max_age g = (verdicts, g')"
  shows "v \<in> set verdicts \<longleftrightarrow>
    candidate snap hosted now ttl max_age (tv_agent_id v) \<and> dwelt g now grace (tv_agent_id v)
    \<and> (\<exists>l. tget snap (tv_agent_id v) = Some l \<and> tv_beat_term v = olr_term l + 1)"
proof (cases v)
  case (fields a bt)
  have "v \<in> set verdicts \<longleftrightarrow> (\<exists>l. (a, l) \<in> set snap \<and> eligible hosted now ttl max_age (a, l)
      \<and> dwelt g now grace a \<and> bt = olr_term l + 1)"
    unfolding takeover_verdicts [OF assms(2,3)] by (auto simp: fields image_iff)
  then show ?thesis
    using assms(1) by (auto simp: fields candidate_def eligible_def tget_in_set)
qed

text \<open>C37: The takeover decision, exactly: on a tick where some lease is fresh, the agents taken
  over are those observed, not hosted here, stale past the TTL, not older than the ghost bound, and
  continuously stale for the grace window; each at most once, in key order, at the observed term
  plus one; and a grace timer survives the tick only for the stale candidates.\<close>

theorem takeovers_exact:
  assumes "tree_ok snap" and "\<not> blind snap now ttl"
    and "detect_takeovers snap node hosted now ttl grace max_age g = (verdicts, g')"
  shows "sorted_wrt (<) (map tv_agent_id verdicts)
    \<and> (\<forall>v. v \<in> set verdicts \<longleftrightarrow>
          candidate snap hosted now ttl max_age (tv_agent_id v) \<and> dwelt g now grace (tv_agent_id v)
          \<and> (\<exists>l. tget snap (tv_agent_id v) = Some l \<and> tv_beat_term v = olr_term l + 1))
    \<and> (\<forall>a. tget g' a = (if candidate snap hosted now ttl max_age a then Some (first_seen g now a) else None))"
proof -
  have "map tv_agent_id verdicts =
      map fst (filter (\<lambda>al. eligible hosted now ttl max_age al \<and> dwelt g now grace (fst al)) snap)"
    by (simp add: takeover_verdicts [OF assms(2,3)] case_prod_beta)
  then have "sorted_wrt (<) (map tv_agent_id verdicts)"
    using assms(1) by (auto simp: tree_ok_def sorted_wrt_map intro: sorted_wrt_filter)
  with takeover_verdict_iff [OF assms] takeover_timers [OF assms] show ?thesis by blast
qed

abbreviation test_snap :: snapshot where
  "test_snap \<equiv> [(''a'', \<lparr>olr_holder_node_id = 2, olr_term = 4, olr_issued_at = 5\<rparr>),
                (''b'', \<lparr>olr_holder_node_id = 3, olr_term = 1, olr_issued_at = 95\<rparr>)]"

lemma test_snap_facts: "tree_ok test_snap" "\<not> blind test_snap 100 30"
  "detect_takeovers test_snap 1 {} 100 30 30 300 [(''a'', 50)] =
     ([\<lparr>tv_agent_id = ''a'', tv_beat_term = 5\<rparr>], [(''a'', 50)])"
proof -
  show "tree_ok test_snap" by (simp add: tree_ok_def)
  show "\<not> blind test_snap 100 30" by (simp add: blind_def lease_is_stale_unat)
  have "saturating_sub (100 :: u64) 50 = 50" "saturating_sub (100 :: u64) 5 = 95"
    "saturating_sub (100 :: u64) 95 = 5"
    by (simp_all add: saturating_sub_def checked_sub_def)
  then show "detect_takeovers test_snap 1 {} 100 30 30 300 [(''a'', 50)] =
     ([\<lparr>tv_agent_id = ''a'', tv_beat_term = 5\<rparr>], [(''a'', 50)])"
    by (simp add: detect_takeovers_def lease_is_stale_def)
qed

theorem takeovers_exact_witness:
  "candidate test_snap {} 100 30 300 ''a'' \<and> dwelt [(''a'', 50)] 100 30 ''a''"
proof -
  let ?v = "\<lparr>tv_agent_id = ''a'', tv_beat_term = 5\<rparr>"
  have "?v \<in> set [?v]" by simp
  with takeovers_exact [OF test_snap_facts] have "candidate test_snap {} 100 30 300 (tv_agent_id ?v)
      \<and> dwelt [(''a'', 50)] 100 30 (tv_agent_id ?v)" by blast
  then show ?thesis by simp
qed

section \<open>Many ticks\<close>

text \<open>A tick is the snapshot, the hosted set and the clock it ran with; the grace map is carried.\<close>

type_synonym tick = "snapshot \<times> agent_id set \<times> u64"

fun grace_after :: "lease_node_id \<Rightarrow> u64 \<Rightarrow> u64 \<Rightarrow> u64 \<Rightarrow> grace_map \<Rightarrow> tick list \<Rightarrow> grace_map" where
  "grace_after node ttl grace max_age g [] = g"
| "grace_after node ttl grace max_age g ((snap, hosted, now) # ticks) =
     grace_after node ttl grace max_age
       (snd (detect_takeovers snap node hosted now ttl grace max_age g)) ticks"

lemma grace_after_snoc: "grace_after node ttl grace max_age g (ticks @ [(snap, hosted, now)]) =
    snd (detect_takeovers snap node hosted now ttl grace max_age (grace_after node ttl grace max_age g ticks))"
  by (induction node ttl grace max_age g ticks rule: grace_after.induct) simp_all

text \<open>Every tick of the list that could see the fleet saw the agent as a candidate, the first one
  at time \<open>t0\<close>.\<close>

definition stale_since :: "u64 \<Rightarrow> u64 \<Rightarrow> agent_id \<Rightarrow> u64 \<Rightarrow> tick list \<Rightarrow> bool" where
  "stale_since ttl max_age a t0 ticks \<longleftrightarrow>
     (\<exists>snap hosted rest. ticks = (snap, hosted, t0) # rest \<and> \<not> blind snap t0 ttl)
     \<and> (\<forall>(snap, hosted, now)\<in>set ticks. \<not> blind snap now ttl \<longrightarrow> candidate snap hosted now ttl max_age a)"

lemma stale_since_snoc:
  "stale_since ttl max_age a t0 ticks \<Longrightarrow>
     (\<not> blind snap now ttl \<longrightarrow> candidate snap hosted now ttl max_age a) \<Longrightarrow>
     stale_since ttl max_age a t0 (ticks @ [(snap, hosted, now)])"
  by (auto simp: stale_since_def)

lemma grace_since:
  assumes "\<forall>(snap, hosted, now)\<in>set ticks. tree_ok snap"
    and "tget (grace_after node ttl grace max_age [] ticks) a = Some t0"
  shows "\<exists>pre post. ticks = pre @ post \<and> stale_since ttl max_age a t0 post"
  using assms
proof (induction ticks rule: rev_induct)
  case (snoc x ticks)
  obtain snap hosted now where x: "x = (snap, hosted, now)" by (cases x)
  let ?g = "grace_after node ttl grace max_age [] ticks"
  have ok: "tree_ok snap" using snoc.prems by (simp add: x)
  show ?case
  proof (cases "blind snap now ttl")
    case True
    with snoc obtain pre post where "ticks = pre @ post" "stale_since ttl max_age a t0 post"
      by (auto simp: x grace_after_snoc detect_takeovers_blind)
    with stale_since_snoc [of ttl max_age a t0 post snap now hosted] True x show ?thesis by auto
  next
    case False
    obtain vs g' where "detect_takeovers snap node hosted now ttl grace max_age ?g = (vs, g')" by fastforce
    from takeover_timers [OF ok False this] this snoc.prems(2)
    have c: "candidate snap hosted now ttl max_age a" and t0: "first_seen ?g now a = t0"
      by (auto simp: x grace_after_snoc split: if_splits)
    show ?thesis
    proof (cases "tget ?g a")
      case None
      with t0 have "t0 = now" by (simp add: first_seen_def)
      with c False have "stale_since ttl max_age a t0 [x]" by (simp add: stale_since_def x)
      then show ?thesis by blast
    next
      case (Some t)
      with t0 snoc obtain pre post where "ticks = pre @ post" "stale_since ttl max_age a t0 post"
        by (auto simp: first_seen_def)
      with stale_since_snoc [of ttl max_age a t0 post snap now hosted] c x show ?thesis by auto
    qed
  qed
qed simp

text \<open>No takeover without the dwell: starting from an empty grace map, an agent is taken over at
  a tick only if there is an earlier tick (or this one), at least the grace window before by the
  clock, from which on every tick that could see the fleet saw that agent's lease stale, unhosted
  and younger than the ghost bound; one fresh or hosted sighting in between resets the window.\<close>

theorem takeover_needs_dwell:
  assumes "\<forall>(snap, hosted, now)\<in>set (ticks @ [(snap, hosted, now)]). tree_ok snap"
    and "v \<in> set (fst (detect_takeovers snap node hosted now ttl grace max_age
           (grace_after node ttl grace max_age [] ticks)))"
  shows "\<exists>pre post t0. ticks @ [(snap, hosted, now)] = pre @ post
    \<and> stale_since ttl max_age (tv_agent_id v) t0 post \<and> unat grace \<le> unat now - unat t0"
proof -
  let ?g = "grace_after node ttl grace max_age [] ticks" and ?a = "tv_agent_id v"
  have ok: "tree_ok snap" using assms(1) by simp
  have seeing: "\<not> blind snap now ttl" using assms(2) by (auto simp: detect_takeovers_blind)
  obtain vs g' where d: "detect_takeovers snap node hosted now ttl grace max_age ?g = (vs, g')" by fastforce
  from takeover_verdict_iff [OF ok seeing d, of v] takeover_timers [OF ok seeing d, of ?a] assms(2) d
  have c: "candidate snap hosted now ttl max_age ?a" and dw: "dwelt ?g now grace ?a"
    and g': "tget g' ?a = Some (first_seen ?g now ?a)" by auto
  have "tget (grace_after node ttl grace max_age [] (ticks @ [(snap, hosted, now)])) ?a =
      Some (first_seen ?g now ?a)"
    using d g' by (simp add: grace_after_snoc)
  from grace_since [OF _ this] assms(1) dw show ?thesis by (auto simp: dwelt_def)
qed

theorem takeover_needs_dwell_witness:
  "\<exists>pre post t0. [(test_snap, {}, 60), (test_snap, {}, 100)] = pre @ post
    \<and> stale_since 30 300 ''a'' t0 post \<and> unat (30 :: u64) \<le> unat (100 :: u64) - unat t0"
proof -
  have "saturating_sub (100 :: u64) 60 = 40" "saturating_sub (100 :: u64) 5 = 95"
    "saturating_sub (100 :: u64) 95 = 5" "saturating_sub (60 :: u64) 5 = 55"
    "saturating_sub (60 :: u64) 95 = 0"
    by (simp_all add: saturating_sub_def checked_sub_def)
  then have "\<lparr>tv_agent_id = ''a'', tv_beat_term = 5\<rparr> \<in> set (fst (detect_takeovers test_snap 1 {} 100 30 30 300
      (grace_after 1 30 30 300 [] [(test_snap, {}, 60)])))"
    by (simp add: detect_takeovers_def lease_is_stale_def)
  from takeover_needs_dwell [OF _ this] show ?thesis by (simp add: tree_ok_def)
qed

end
