(* ===== verification/Fleet.thy ===== *)
theory Fleet
  imports Store Lease
begin

text \<open>
  The fleet-host allocator of \<open>crates/kirby-node/src/fleet.rs\<close>: distinct guest CIDs and gateway ports
  for the tenants of one node, persisted so that a restart never re-hands a live slot. The state file
  is part of the state (\<open>al_disk\<close>, \<open>None\<close> while absent); the temp-file-and-rename write either replaces
  it or leaves it, so each persisting operation takes a flag saying whether the write succeeds.
\<close>

record tenant_allocation =
  ta_agent_id :: agent_id
  ta_guest_cid :: u32
  ta_instance_id :: string
  ta_gateway_port :: u32

definition instance_id_for :: "agent_id \<Rightarrow> string" where
  "instance_id_for a = ''kirby-'' @ a"

datatype alloc_error =
    Exhausted u32 u32 \<comment> \<open>max_tenants, live\<close>
  | AlreadyAllocated agent_id
  | CidSpaceOverflow

record fleet_config =
  fc_base_cid :: u32
  fc_max_tenants :: u32
  fc_gateway_port_base :: u32

type_synonym live_set = "(agent_id, tenant_allocation) tree"

record allocator =
  al_base_cid :: u32
  al_gateway_port_base :: u32
  al_max_tenants :: u32
  al_persistent :: bool
  al_live :: live_set
  al_disk :: "live_set option"

definition allocator_new :: "fleet_config \<Rightarrow> allocator" where
  "allocator_new fleet = \<lparr>al_base_cid = fc_base_cid fleet, al_gateway_port_base = fc_gateway_port_base fleet,
     al_max_tenants = fc_max_tenants fleet, al_persistent = False, al_live = [], al_disk = None\<rparr>"

text \<open>\<open>file\<close> is what the path holds: absent, unreadable or corrupt (\<open>Inl\<close>), or a live set.\<close>

definition load_or_new :: "fleet_config \<Rightarrow> (string + live_set) option \<Rightarrow> string + allocator" where
  "load_or_new fleet file =
     (case (case file of None \<Rightarrow> Inr [] | Some (Inl e) \<Rightarrow> Inl e | Some (Inr live) \<Rightarrow> Inr live) of
        Inl e \<Rightarrow> Inl e
      | Inr live \<Rightarrow> Inr \<lparr>al_base_cid = fc_base_cid fleet, al_gateway_port_base = fc_gateway_port_base fleet,
          al_max_tenants = fc_max_tenants fleet, al_persistent = True, al_live = live,
          al_disk = (case file of Some (Inr l) \<Rightarrow> Some l | _ \<Rightarrow> None)\<rparr>)"

definition live_count :: "allocator \<Rightarrow> u32" where
  "live_count al = of_nat (length (al_live al))"

definition allocation_for :: "allocator \<Rightarrow> agent_id \<Rightarrow> tenant_allocation option" where
  "allocation_for al a = tget (al_live al) a"

definition persist :: "bool \<Rightarrow> allocator \<Rightarrow> bool \<times> allocator" where
  "persist io_ok al =
     (if \<not> al_persistent al then (True, al)
      else if io_ok then (True, al\<lparr>al_disk := Some (al_live al)\<rparr>)
      else (False, al))"

text \<open>The search loop: the lowest offset whose CID is not occupied.\<close>

function find_free :: "u32 \<Rightarrow> u32 list \<Rightarrow> u32 \<Rightarrow> (u32 \<times> u32) option" where
  "find_free base occupied offset =
     (case checked_add base offset of
        None \<Rightarrow> None
      | Some cid \<Rightarrow>
          if cid \<notin> set occupied then Some (cid, offset)
          else (case checked_add offset 1 of None \<Rightarrow> None | Some n \<Rightarrow> find_free base occupied n))"
  by pat_completeness auto
termination
  by (relation "measure (\<lambda>(base, occupied, offset). 2 ^ 32 - unat offset)")
    (auto simp: checked_add_Some unat_add_exact)

declare find_free.simps [simp del]

definition allocate :: "bool \<Rightarrow> agent_id \<Rightarrow> allocator \<Rightarrow> (alloc_error + tenant_allocation) \<times> allocator" where
  "allocate io_ok a al =
     (if tget (al_live al) a \<noteq> None then (Inl (AlreadyAllocated a), al)
      else if live_count al \<ge> al_max_tenants al
      then (Inl (Exhausted (al_max_tenants al) (live_count al)), al)
      else case find_free (al_base_cid al) (map (ta_guest_cid \<circ> snd) (al_live al)) 0 of
        None \<Rightarrow> (Inl CidSpaceOverflow, al)
      | Some (guest_cid, offset) \<Rightarrow>
          (case checked_add (al_gateway_port_base al) offset of
             None \<Rightarrow> (Inl CidSpaceOverflow, al)
           | Some gateway_port \<Rightarrow>
               (let allocation = \<lparr>ta_agent_id = a, ta_guest_cid = guest_cid,
                      ta_instance_id = instance_id_for a, ta_gateway_port = gateway_port\<rparr>
                in case persist io_ok (al\<lparr>al_live := tinsert a allocation (al_live al)\<rparr>) of
                     (True, al') \<Rightarrow> (Inr allocation, al')
                   | (False, al') \<Rightarrow>
                       (let al'' = al'\<lparr>al_live := tremove a (al_live al')\<rparr>
                        in (Inl (Exhausted (al_max_tenants al) (live_count al'')), al'')))))"

definition release :: "bool \<Rightarrow> agent_id \<Rightarrow> allocator \<Rightarrow> tenant_allocation option \<times> allocator" where
  "release io_ok a al =
     (case tget (al_live al) a of
        None \<Rightarrow> (None, al)
      | Some freed \<Rightarrow> (Some freed, snd (persist io_ok (al\<lparr>al_live := tremove a (al_live al)\<rparr>))))"

section \<open>The search\<close>

text \<open>What the loop returns: an unoccupied CID at its offset, everything below it occupied.\<close>

lemma find_free_Some:
  "find_free base occ off = Some (cid, off') \<Longrightarrow>
     unat off \<le> unat off' \<and> unat cid = unat base + unat off' \<and> cid \<notin> set occ
   \<and> (\<forall>k. unat off \<le> k \<longrightarrow> k < unat off' \<longrightarrow> base + of_nat k \<in> set occ)"
proof (induction base occ off rule: find_free.induct)
  case (1 base occ off)
  show ?case
  proof (cases "base + off \<in> set occ")
    case False
    with "1.prems" have "checked_add base off = Some cid" "off' = off" "cid \<notin> set occ"
      by (auto simp: find_free.simps [of base occ off] checked_add_Some split: option.splits if_splits)
    with checked_add_unat [of base off cid] show ?thesis by simp
  next
    case True
    with "1.prems" obtain c n where c: "checked_add base off = Some c" "c \<in> set occ" "checked_add off 1 = Some n"
      and f: "find_free base occ n = Some (cid, off')"
      by (auto simp: find_free.simps [of base occ off] checked_add_Some split: option.splits if_splits)
    have "unat n = unat off + 1" using checked_add_unat [OF c(3)] by simp
    moreover have "base + of_nat (unat off) \<in> set occ" using True by simp
    ultimately show ?thesis
      using "1.IH" [OF c(1) _ c(3) f] c(2) by (auto simp: nat_less_le Suc_le_eq elim: le_SucE)
  qed
qed

section \<open>The invariant\<close>

text \<open>
  Every live slot sits at one offset from both bases, and no two live tenants share a CID. The
  file, when the allocator persists, still holds every live slot: it is only ever behind by
  releases that failed to write.
\<close>

definition slot_ok :: "allocator \<Rightarrow> agent_id \<Rightarrow> tenant_allocation \<Rightarrow> bool" where
  "slot_ok al a x \<longleftrightarrow> ta_agent_id x = a \<and> ta_instance_id x = instance_id_for a
     \<and> (\<exists>off. unat (ta_guest_cid x) = unat (al_base_cid al) + off
            \<and> unat (ta_gateway_port x) = unat (al_gateway_port_base al) + off)"

definition live_ok :: "allocator \<Rightarrow> live_set \<Rightarrow> bool" where
  "live_ok al l \<longleftrightarrow> tree_ok l \<and> (\<forall>a x. tget l a = Some x \<longrightarrow> slot_ok al a x)
     \<and> (\<forall>a b x y. tget l a = Some x \<longrightarrow> tget l b = Some y \<longrightarrow> ta_guest_cid x = ta_guest_cid y \<longrightarrow> a = b)"

definition allocator_ok :: "allocator \<Rightarrow> bool" where
  "allocator_ok al \<longleftrightarrow> live_ok al (al_live al)
     \<and> (al_persistent al \<longrightarrow> (case al_disk al of
           None \<Rightarrow> al_live al = []
         | Some d \<Rightarrow> live_ok al d \<and> (\<forall>a x. tget (al_live al) a = Some x \<longrightarrow> tget d a = Some x)))"

lemma slot_ok_frame [simp]: "slot_ok (al\<lparr>al_live := l\<rparr>) a x = slot_ok al a x"
  "slot_ok (al\<lparr>al_disk := d\<rparr>) a x = slot_ok al a x"
  by (simp_all add: slot_ok_def)

lemma live_ok_frame [simp]: "live_ok (al\<lparr>al_live := l\<rparr>) m = live_ok al m"
  "live_ok (al\<lparr>al_disk := d\<rparr>) m = live_ok al m"
  by (simp_all add: live_ok_def)

lemma live_ok_remove: "live_ok al l \<Longrightarrow> live_ok al (tremove a l)"
  by (auto simp: live_ok_def split: if_splits)

lemma live_ok_insert:
  assumes "live_ok al l" and "slot_ok al a x" and "\<forall>b y. tget l b = Some y \<longrightarrow> ta_guest_cid y \<noteq> ta_guest_cid x"
  shows "live_ok al (tinsert a x l)"
  using assms unfolding live_ok_def by (simp, metis)

lemma tremove_tinsert: "tree_ok l \<Longrightarrow> tget l a = None \<Longrightarrow> tremove a (tinsert a x l) = l"
proof (induction a x l rule: tinsert.induct)
  case (2 k v j w t)
  then show ?case by (auto simp: tree_ok_def split: if_splits)
qed simp

lemma occupied_iff: "tree_ok l \<Longrightarrow> c \<in> set (map (ta_guest_cid \<circ> snd) l) \<longleftrightarrow>
    (\<exists>a x. tget l a = Some x \<and> ta_guest_cid x = c)"
  by (force simp: tget_in_set [symmetric])

text \<open>A successful allocation is the lowest free slot; a failed one leaves the allocator as it was.\<close>

lemma allocate_cases:
  assumes ok: "allocator_ok al" and al: "allocate io_ok a al = (res, al')"
  obtains e where "res = Inl e" "al' = al"
  | x off where "res = Inr x" "tget (al_live al) a = None" "slot_ok al a x"
      "unat (ta_guest_cid x) = unat (al_base_cid al) + off"
      "\<forall>b y. tget (al_live al) b = Some y \<longrightarrow> ta_guest_cid y \<noteq> ta_guest_cid x"
      "\<forall>k < off. \<exists>b y. tget (al_live al) b = Some y \<and> unat (ta_guest_cid y) = unat (al_base_cid al) + k"
      "al' = al\<lparr>al_live := tinsert a x (al_live al),
                al_disk := (if al_persistent al then Some (tinsert a x (al_live al)) else al_disk al)\<rparr>"
proof (cases "\<exists>e. res = Inl e")
  case True
  have t: "tree_ok (al_live al)" using ok by (simp add: allocator_ok_def live_ok_def)
  from True al have "al' = al"
    by (auto simp: allocate_def persist_def Let_def tremove_tinsert [OF t]
        split: if_splits option.splits)
  with True that(1) show ?thesis by blast
next
  case False
  have t: "tree_ok (al_live al)" using ok by (simp add: allocator_ok_def live_ok_def)
  let ?occ = "map (ta_guest_cid \<circ> snd) (al_live al)"
  from False al have none: "tget (al_live al) a = None" and full: "\<not> al_max_tenants al \<le> live_count al"
    by (auto simp: allocate_def split: if_splits)
  from False al none full obtain cid off where f: "find_free (al_base_cid al) ?occ 0 = Some (cid, off)"
    by (cases "find_free (al_base_cid al) ?occ 0") (auto simp: allocate_def)
  from False al none full f obtain port where p: "checked_add (al_gateway_port_base al) off = Some port"
    by (cases "checked_add (al_gateway_port_base al) off") (auto simp: allocate_def)
  define x where x: "x = \<lparr>ta_agent_id = a, ta_guest_cid = cid, ta_instance_id = instance_id_for a,
                          ta_gateway_port = port\<rparr>"
  have al2: "(case persist io_ok (al\<lparr>al_live := tinsert a x (al_live al)\<rparr>) of
         (True, al') \<Rightarrow> (Inr x, al')
       | (False, al') \<Rightarrow>
           (let al'' = al'\<lparr>al_live := tremove a (al_live al')\<rparr>
            in (Inl (Exhausted (al_max_tenants al) (live_count al'')), al''))) = (res, al')"
    using al none full f p unfolding x by (simp add: allocate_def Let_def)
  with False have res: "res = Inr x"
    and al': "al' = al\<lparr>al_live := tinsert a x (al_live al),
                al_disk := (if al_persistent al then Some (tinsert a x (al_live al)) else al_disk al)\<rparr>"
    by (auto simp: persist_def Let_def split: if_splits)
  from find_free_Some [OF f] have c: "unat cid = unat (al_base_cid al) + unat off" "cid \<notin> set ?occ"
    and below: "\<forall>k < unat off. al_base_cid al + of_nat k \<in> set ?occ" by auto
  have "\<exists>b y. tget (al_live al) b = Some y \<and> unat (ta_guest_cid y) = unat (al_base_cid al) + k"
    if "k < unat off" for k
  proof -
    have "unat (al_base_cid al) + k < 2 ^ 32" using that c(1) unat_lt_pow [of cid] by simp
    then have "unat (al_base_cid al + of_nat k) = unat (al_base_cid al) + k"
      by (simp add: unat_word_ariths unat_of_nat)
    with below that show ?thesis unfolding occupied_iff [OF t] by metis
  qed
  moreover have "slot_ok al a x"
    using c(1) checked_add_unat [OF p] by (auto simp: slot_ok_def x)
  moreover have "\<forall>b y. tget (al_live al) b = Some y \<longrightarrow> ta_guest_cid y \<noteq> ta_guest_cid x"
    using c(2) unfolding occupied_iff [OF t] by (auto simp: x)
  ultimately show ?thesis
    using that(2) [of x "unat off"] res none al' c(1) by (simp add: x)
qed

lemma allocator_ok_live: "allocator_ok al \<Longrightarrow> live_ok al (al_live al)"
  by (simp add: allocator_ok_def)

lemma allocate_ok:
  assumes "allocator_ok al"
  shows "allocator_ok (snd (allocate io_ok a al))"
proof -
  obtain res al' where al: "allocate io_ok a al = (res, al')" by fastforce
  show ?thesis
    using assms live_ok_insert [OF allocator_ok_live [OF assms]]
    by (cases rule: allocate_cases [OF assms al]) (auto simp: al allocator_ok_def)
qed

lemma release_ok:
  assumes "allocator_ok al"
  shows "allocator_ok (snd (release io_ok a al))"
proof -
  have t: "tree_ok (al_live al)" using assms by (simp add: allocator_ok_def live_ok_def)
  then show ?thesis
    using assms live_ok_remove [OF allocator_ok_live [OF assms], of a]
    by (auto simp: release_def persist_def allocator_ok_def split: option.splits if_splits)
qed

section \<open>Histories\<close>

text \<open>What a supervisor does with its allocator: allocate, release, or restart on the file.\<close>

datatype fleet_op = Allocate bool agent_id | Release bool agent_id | Restart

fun fleet_step :: "fleet_config \<Rightarrow> fleet_op \<Rightarrow> allocator \<Rightarrow> allocator" where
  "fleet_step fleet (Allocate io_ok a) al = snd (allocate io_ok a al)"
| "fleet_step fleet (Release io_ok a) al = snd (release io_ok a al)"
| "fleet_step fleet Restart al = (case load_or_new fleet (map_option Inr (al_disk al)) of
     Inl e \<Rightarrow> al | Inr al' \<Rightarrow> al')"

inductive supervised :: "fleet_config \<Rightarrow> allocator \<Rightarrow> bool" where
  started: "load_or_new fleet None = Inr al \<Longrightarrow> supervised fleet al"
| stepped: "supervised fleet al \<Longrightarrow> supervised fleet (fleet_step fleet oper al)"

definition configured :: "fleet_config \<Rightarrow> allocator \<Rightarrow> bool" where
  "configured fleet al \<longleftrightarrow> al_persistent al \<and> al_base_cid al = fc_base_cid fleet
     \<and> al_gateway_port_base al = fc_gateway_port_base fleet \<and> al_max_tenants al = fc_max_tenants fleet"

lemma configured_step:
  assumes "allocator_ok al" "configured fleet al"
  shows "configured fleet (fleet_step fleet oper al)"
proof (cases oper)
  case (Allocate io_ok a)
  obtain res al' where al: "allocate io_ok a al = (res, al')" by fastforce
  show ?thesis
    using assms by (cases rule: allocate_cases [OF assms(1) al]) (auto simp: Allocate al configured_def)
qed (use assms in \<open>auto simp: release_def persist_def configured_def load_or_new_def split: option.splits sum.splits\<close>)

lemma restart_live: "al_live (fleet_step fleet Restart al) = (case al_disk al of None \<Rightarrow> [] | Some d \<Rightarrow> d)"
  by (simp add: load_or_new_def split: option.split)

lemma live_ok_cong: "al_base_cid al = al_base_cid al' \<Longrightarrow> al_gateway_port_base al = al_gateway_port_base al' \<Longrightarrow>
    live_ok al l = live_ok al' l"
  by (simp add: live_ok_def slot_ok_def)

lemma restart_ok:
  assumes "allocator_ok al" and "configured fleet al"
  shows "allocator_ok (fleet_step fleet Restart al)"
proof (cases "al_disk al")
  case None
  then show ?thesis by (simp add: load_or_new_def allocator_ok_def live_ok_def)
next
  case (Some d)
  then have "live_ok al d" using assms by (simp add: allocator_ok_def configured_def)
  with assms(2) Some show ?thesis
    by (simp add: load_or_new_def allocator_ok_def configured_def live_ok_def slot_ok_def)
qed

lemma supervised_ok: "supervised fleet al \<Longrightarrow> allocator_ok al \<and> configured fleet al"
proof (induction rule: supervised.induct)
  case (started fleet al)
  then show ?case by (auto simp: load_or_new_def allocator_ok_def live_ok_def configured_def)
next
  case (stepped fleet al oper)
  then show ?case
    using configured_step [of al fleet oper] restart_ok [of al fleet]
    by (cases oper) (auto simp: allocate_ok release_ok)
qed

section \<open>What the allocator promises\<close>

text \<open>Tenant isolation: under one configuration, over any sequence of allocations, releases and
  restarts, with the state file failing to write at any of them, two live tenants never share a
  guest CID, a gateway port or an instance id.\<close>

theorem tenants_isolated:
  assumes "supervised fleet al" and "allocation_for al a = Some x" and "allocation_for al b = Some y"
    and "a \<noteq> b"
  shows "ta_guest_cid x \<noteq> ta_guest_cid y \<and> ta_gateway_port x \<noteq> ta_gateway_port y
    \<and> ta_instance_id x \<noteq> ta_instance_id y"
proof -
  have ok: "live_ok al (al_live al)" using supervised_ok [OF assms(1)] by (simp add: allocator_ok_def)
  then have x: "slot_ok al a x" and y: "slot_ok al b y" and c: "ta_guest_cid x \<noteq> ta_guest_cid y"
    using assms(2-4) by (auto simp: live_ok_def allocation_for_def)
  then have "ta_gateway_port x \<noteq> ta_gateway_port y"
    by (auto simp: slot_ok_def) (metis add_left_cancel unsigned_word_eqI)
  with x y c assms(4) show ?thesis by (auto simp: slot_ok_def instance_id_for_def)
qed

abbreviation test_fleet :: fleet_config where
  "test_fleet \<equiv> \<lparr>fc_base_cid = 100, fc_max_tenants = 8, fc_gateway_port_base = 9000\<rparr>"

abbreviation test_slots :: live_set where
  "test_slots \<equiv>
    [(''a'', \<lparr>ta_agent_id = ''a'', ta_guest_cid = 100, ta_instance_id = ''kirby-a'', ta_gateway_port = 9000\<rparr>),
     (''b'', \<lparr>ta_agent_id = ''b'', ta_guest_cid = 101, ta_instance_id = ''kirby-b'', ta_gateway_port = 9001\<rparr>)]"

definition test_alloc :: allocator where
  "test_alloc = fleet_step test_fleet Restart (fleet_step test_fleet (Allocate False ''c'')
     (fleet_step test_fleet (Allocate True ''b'') (fleet_step test_fleet (Allocate True ''a'')
       \<lparr>al_base_cid = 100, al_gateway_port_base = 9000, al_max_tenants = 8, al_persistent = True,
        al_live = [], al_disk = None\<rparr>)))"

lemma test_alloc_supervised: "supervised test_fleet test_alloc"
  unfolding test_alloc_def by (intro stepped started) (simp add: load_or_new_def)

lemma test_alloc_live: "test_alloc = \<lparr>al_base_cid = 100, al_gateway_port_base = 9000, al_max_tenants = 8,
    al_persistent = True, al_live = test_slots, al_disk = Some test_slots\<rparr>"
  by (simp add: test_alloc_def allocate_def live_count_def find_free.simps checked_add_def persist_def
      Let_def load_or_new_def instance_id_for_def word_le_nat_alt)

theorem tenants_isolated_witness:
  "\<exists>x y. allocation_for test_alloc ''a'' = Some x \<and> allocation_for test_alloc ''b'' = Some y
     \<and> ta_gateway_port x \<noteq> ta_gateway_port y"
proof -
  obtain x y where xy: "allocation_for test_alloc ''a'' = Some x" "allocation_for test_alloc ''b'' = Some y"
    by (simp add: allocation_for_def test_alloc_live)
  from tenants_isolated [OF test_alloc_supervised xy] xy show ?thesis by simp
qed

text \<open>Allocation is exact: it succeeds only for an agent that holds no slot, gives it a CID no
  live tenant holds, the lowest such CID from the base up, leaves every other tenant's slot alone,
  and on any failure (the write of the state file included) the allocator is exactly as before.\<close>

theorem allocate_exact:
  assumes "supervised fleet al" and "allocate io_ok a al = (res, al')"
  shows "case res of
      Inl e \<Rightarrow> al' = al
    | Inr x \<Rightarrow> allocation_for al a = None \<and> allocation_for al' = (allocation_for al)(a := Some x)
        \<and> (\<forall>b y. allocation_for al b = Some y \<longrightarrow> ta_guest_cid y \<noteq> ta_guest_cid x)
        \<and> unat (al_base_cid al) \<le> unat (ta_guest_cid x)
        \<and> (\<forall>c. unat (al_base_cid al) \<le> c \<longrightarrow> c < unat (ta_guest_cid x) \<longrightarrow>
              (\<exists>b y. allocation_for al b = Some y \<and> unat (ta_guest_cid y) = c))"
proof -
  have ok: "allocator_ok al" using supervised_ok [OF assms(1)] by simp
  then have t: "tree_ok (al_live al)" by (simp add: allocator_ok_def live_ok_def)
  show ?thesis
  proof (cases rule: allocate_cases [OF ok assms(2)])
    case (1 e)
    then show ?thesis by simp
  next
    case (2 x off)
    have "\<exists>b y. allocation_for al b = Some y \<and> unat (ta_guest_cid y) = c"
      if "unat (al_base_cid al) \<le> c" "c < unat (ta_guest_cid x)" for c
    proof -
      have "c - unat (al_base_cid al) < off" and "unat (al_base_cid al) + (c - unat (al_base_cid al)) = c"
        using that 2(4) by simp_all
      with 2(6) show ?thesis unfolding allocation_for_def by metis
    qed
    with 2 t show ?thesis by (simp add: allocation_for_def fun_eq_iff)
  qed
qed

theorem allocate_exact_witness:
  "\<exists>x al'. allocate True ''c'' test_alloc = (Inr x, al') \<and> allocation_for al' ''c'' = Some x"
proof -
  obtain x al' where a: "allocate True ''c'' test_alloc = (Inr x, al')"
    by (simp add: allocate_def test_alloc_live live_count_def find_free.simps checked_add_def persist_def
        Let_def instance_id_for_def word_le_nat_alt)
  from allocate_exact [OF test_alloc_supervised a] a show ?thesis by auto
qed

text \<open>A restart never loses a live tenant: whatever a supervisor allocated and released before it
  died, with the state file failing to write at any of those calls, the allocator it comes back
  with holds every slot that was live, so no CID of a live tenant is handed out again.\<close>

theorem restart_keeps_live:
  assumes "supervised fleet al" and "allocation_for al a = Some x"
  shows "allocation_for (fleet_step fleet Restart al) a = Some x
    \<and> (\<forall>io_ok b y al'. allocate io_ok b (fleet_step fleet Restart al) = (Inr y, al') \<longrightarrow>
         ta_guest_cid y \<noteq> ta_guest_cid x)"
proof -
  have ok: "allocator_ok al" and c: "configured fleet al" using supervised_ok [OF assms(1)] by simp_all
  have r: "allocation_for (fleet_step fleet Restart al) a = Some x"
    using ok c assms(2) unfolding allocation_for_def restart_live
    by (auto simp: allocator_ok_def configured_def split: option.splits)
  have "ta_guest_cid y \<noteq> ta_guest_cid x"
    if "allocate io_ok b (fleet_step fleet Restart al) = (Inr y, al')" for io_ok b y al'
  proof (cases rule: allocate_cases [OF restart_ok [OF ok c] that])
    case (2 z off)
    then have "y = z" by simp
    with 2(5) r show ?thesis unfolding allocation_for_def by metis
  qed simp
  with r show ?thesis by blast
qed

theorem restart_keeps_live_witness:
  "allocation_for (fleet_step test_fleet Restart test_alloc) ''a'' = allocation_for test_alloc ''a''"
proof -
  obtain x where x: "allocation_for test_alloc ''a'' = Some x" by (simp add: allocation_for_def test_alloc_live)
  from restart_keeps_live [OF test_alloc_supervised x] x show ?thesis by simp
qed

text \<open>The isolation does not survive a change of configuration: ports are handed out by offset from
  the CID base, and only the CIDs of live tenants are looked at. After the base CID moves from 100 to
  101 across a restart, the tenant that kept CID 100 and a new tenant share gateway port 9000.\<close>

theorem ports_collide_after_rebase:
  "\<exists>al x y al'. supervised test_fleet al \<and> allocation_for al ''a'' = Some x
     \<and> allocate True ''b'' (fleet_step (test_fleet\<lparr>fc_base_cid := 101\<rparr>) Restart al) = (Inr y, al')
     \<and> allocation_for al' ''a'' = Some x \<and> allocation_for al' ''b'' = Some y
     \<and> ta_gateway_port x = ta_gateway_port y"
proof -
  let ?al = "fleet_step test_fleet (Allocate True ''a'') \<lparr>al_base_cid = 100, al_gateway_port_base = 9000,
    al_max_tenants = 8, al_persistent = True, al_live = [], al_disk = None\<rparr>"
  have "supervised test_fleet ?al" by (intro stepped started) (simp add: load_or_new_def)
  moreover have "\<exists>x y al'. allocation_for ?al ''a'' = Some x
     \<and> allocate True ''b'' (fleet_step (test_fleet\<lparr>fc_base_cid := 101\<rparr>) Restart ?al) = (Inr y, al')
     \<and> allocation_for al' ''a'' = Some x \<and> allocation_for al' ''b'' = Some y
     \<and> ta_gateway_port x = ta_gateway_port y"
    by (simp add: allocate_def live_count_def find_free.simps checked_add_def persist_def Let_def
        load_or_new_def instance_id_for_def allocation_for_def word_le_nat_alt)
  ultimately show ?thesis by blast
qed

end
