(* ===== verification/Fleet_Reconcile.thy ===== *)
theory Fleet_Reconcile
  imports Fleet Relay_Lease_Props
begin

text \<open>
  What a restarted supervisor does with the orphans of its previous life,
  \<open>crates/kirby-node/src/fleet_reconcile.rs\<close>: the launch registry, the PID-reuse-safe probe, the
  supervise-by-PID tenant, and the guarded re-adopt/reap decision. The operating system is an
  argument: whether \<open>kill(pid, 0)\<close> succeeds and what \<open>/proc/<pid>/cmdline\<close> holds.
\<close>

section \<open>The launch registry\<close>

record launch_record =
  la_agent_id :: agent_id
  la_instance_id :: string
  la_pid :: u32

record launch_registry =
  lg_persistent :: bool
  lg_records :: "(string, launch_record) tree"
  lg_disk :: "(string, launch_record) tree option"

definition registry_in_memory :: launch_registry where
  "registry_in_memory = \<lparr>lg_persistent = False, lg_records = [], lg_disk = None\<rparr>"

definition registry_load_or_new :: "(string + (string, launch_record) tree) option \<Rightarrow> string + launch_registry" where
  "registry_load_or_new file =
     (case file of
        None \<Rightarrow> Inr \<lparr>lg_persistent = True, lg_records = [], lg_disk = None\<rparr>
      | Some (Inl e) \<Rightarrow> Inl e
      | Some (Inr r) \<Rightarrow> Inr \<lparr>lg_persistent = True, lg_records = r, lg_disk = Some r\<rparr>)"

definition registry_persist :: "bool \<Rightarrow> launch_registry \<Rightarrow> bool \<times> launch_registry" where
  "registry_persist io_ok reg =
     (if \<not> lg_persistent reg then (True, reg)
      else if io_ok then (True, reg\<lparr>lg_disk := Some (lg_records reg)\<rparr>) else (False, reg))"

definition registry_record :: "bool \<Rightarrow> launch_record \<Rightarrow> launch_registry \<Rightarrow> bool \<times> launch_registry" where
  "registry_record io_ok r reg =
     registry_persist io_ok (reg\<lparr>lg_records := tinsert (la_instance_id r) r (lg_records reg)\<rparr>)"

definition registry_forget :: "bool \<Rightarrow> string \<Rightarrow> launch_registry \<Rightarrow> bool \<times> launch_registry" where
  "registry_forget io_ok i reg = registry_persist io_ok (reg\<lparr>lg_records := tremove i (lg_records reg)\<rparr>)"

definition registry_get :: "launch_registry \<Rightarrow> string \<Rightarrow> launch_record option" where
  "registry_get reg i = tget (lg_records reg) i"

definition registry_all :: "launch_registry \<Rightarrow> launch_record list" where
  "registry_all reg = tvals (lg_records reg)"

section \<open>The probe\<close>

definition cmdline_match_token :: "agent_id \<Rightarrow> string" where
  "cmdline_match_token a = ''tenant-'' @ a @ ''.toml''"

text \<open>\<open>/proc/<pid>/cmdline\<close> as it is read: the raw bytes with each NUL as a space (lossy UTF-8
  replacement of malformed bytes is left out: it cannot make a match of ASCII text).\<close>

definition read_cmdline :: "(u32 \<rightharpoonup> bytes) \<Rightarrow> u32 \<Rightarrow> string option" where
  "read_cmdline proc_cmdline pid =
     map_option (map (\<lambda>c. if of_char c = (0::nat) then CHR '' '' else c)) (proc_cmdline pid)"

definition alive_and_ours :: "(u32 \<Rightarrow> bool) \<Rightarrow> (u32 \<rightharpoonup> bytes) \<Rightarrow> u32 \<Rightarrow> agent_id \<Rightarrow> bool" where
  "alive_and_ours exists proc_cmdline pid a =
     (if \<not> exists pid then False
      else case read_cmdline proc_cmdline pid of
        Some cmdline \<Rightarrow> str_contains (cmdline_match_token a) cmdline
      | None \<Rightarrow> False)"

record pid_tenant =
  pt_pid :: u32
  pt_agent_id :: agent_id

datatype signal = SIGTERM | SIGKILL

type_synonym liveness_probe = "u32 \<Rightarrow> agent_id \<Rightarrow> bool"

definition pid_tenant_is_running :: "liveness_probe \<Rightarrow> pid_tenant \<Rightarrow> bool" where
  "pid_tenant_is_running probe t = probe (pt_pid t) (pt_agent_id t)"

definition pid_tenant_kill :: "liveness_probe \<Rightarrow> pid_tenant \<Rightarrow> (u32 \<times> signal) list" where
  "pid_tenant_kill probe t =
     (if \<not> probe (pt_pid t) (pt_agent_id t) then [] else [(pt_pid t, SIGTERM), (pt_pid t, SIGKILL)])"

section \<open>The decision\<close>

type_synonym lease_snapshot = "(agent_id, active_lease) tree"

definition snapshot_insert :: "agent_id \<Rightarrow> active_lease \<Rightarrow> lease_snapshot \<Rightarrow> lease_snapshot" where
  "snapshot_insert a l snap = tinsert a l snap"

definition fresh_lease_for :: "lease_snapshot \<Rightarrow> agent_id \<Rightarrow> active_lease option" where
  "fresh_lease_for snap a = tget snap a"

datatype reap_reason = NotAlive | LeaseStale | LeaseLostToNode lease_node_id

datatype reconcile_verdict = ReAdopt | Reap reap_reason

record reconcile_item =
  ri_record :: launch_record
  ri_verdict :: reconcile_verdict

datatype lease_observation = Complete | Incomplete

datatype reconcile_plan = Apply "reconcile_item list" | SkipUnconfirmedObservation

definition decide_one ::
  "launch_record \<Rightarrow> liveness_probe \<Rightarrow> (agent_id \<Rightarrow> active_lease option) \<Rightarrow> lease_node_id \<Rightarrow> reconcile_verdict" where
  "decide_one r probe lease_view this_node =
     (if \<not> probe (la_pid r) (la_agent_id r) then Reap NotAlive
      else case lease_view (la_agent_id r) of
        Some lease \<Rightarrow> if al_node_id lease = this_node then ReAdopt else Reap (LeaseLostToNode (al_node_id lease))
      | None \<Rightarrow> Reap LeaseStale)"

definition reconcile ::
  "launch_record list \<Rightarrow> liveness_probe \<Rightarrow> (agent_id \<Rightarrow> active_lease option) \<Rightarrow> lease_node_id
     \<Rightarrow> reconcile_item list" where
  "reconcile records probe lease_view this_node =
     map (\<lambda>r. \<lparr>ri_record = r, ri_verdict = decide_one r probe lease_view this_node\<rparr>) records"

definition reconcile_plan ::
  "lease_observation \<Rightarrow> launch_record list \<Rightarrow> liveness_probe \<Rightarrow> (agent_id \<Rightarrow> active_lease option)
     \<Rightarrow> lease_node_id \<Rightarrow> reconcile_plan" where
  "reconcile_plan obs records probe lease_view this_node =
     (case obs of
        Complete \<Rightarrow> Apply (reconcile records probe lease_view this_node)
      | Incomplete \<Rightarrow> SkipUnconfirmedObservation)"

section \<open>Properties\<close>

text \<open>The view the wiring builds from the occupancy observer at \<open>now\<close>: every agent's fresh lease.\<close>

definition observed_view :: "fleet_lease_observer \<Rightarrow> u64 \<Rightarrow> agent_id \<Rightarrow> active_lease option" where
  "observed_view obs now = flo_active_lease_for obs now"

text \<open>A healthy orphan is never reaped: a plan over the observer's leases reaps a recorded tenant
  only after a complete observation, and then only if its process is gone or no longer names it, or
  no lease for it younger than the TTL was observed, or another node holds that lease; so a live
  tenant whose own fresh lease was observed is re-adopted, and every record gets one verdict.\<close>

theorem healthy_orphan_kept:
  assumes "reconcile_plan obs records probe (observed_view observer now) this_node = Apply items"
  shows "obs = Complete \<and> map ri_record items = records
    \<and> (\<forall>i\<in>set items. ri_verdict i \<noteq> ReAdopt \<longleftrightarrow>
         (\<not> probe (la_pid (ri_record i)) (la_agent_id (ri_record i))
          \<or> (\<forall>c. tget (flo_observed observer) (la_agent_id (ri_record i)) = Some c \<longrightarrow>
                unat (lc_issued_at c) + 30 < unat now \<or> lc_holder_node_id c \<noteq> this_node)))"
proof (cases obs)
  case Complete
  with assms have items: "items = reconcile records probe (observed_view observer now) this_node"
    by (simp add: reconcile_plan_def)
  then have "map ri_record items = records" by (simp add: reconcile_def comp_def)
  moreover have "decide_one r probe (observed_view observer now) this_node \<noteq> ReAdopt \<longleftrightarrow>
      \<not> probe (la_pid r) (la_agent_id r)
      \<or> (\<forall>c. tget (flo_observed observer) (la_agent_id r) = Some c \<longrightarrow>
            unat (lc_issued_at c) + 30 < unat now \<or> lc_holder_node_id c \<noteq> this_node)" for r
    by (auto simp: decide_one_def observed_view_def flo_active_lease_for_def flo_fresh_active_lease_at_def
        is_stale_unat split: option.splits if_splits)
  ultimately show ?thesis using Complete by (auto simp: items reconcile_def)
next
  case Incomplete
  with assms show ?thesis by (simp add: reconcile_plan_def)
qed

theorem healthy_orphan_kept_witness:
  "reconcile_plan Complete [\<lparr>la_agent_id = ''a'', la_instance_id = ''kirby-a'', la_pid = 7\<rparr>] (\<lambda>p a. True)
     (observed_view \<lparr>flo_node_id = 1, flo_observed = [(''a'', test_lease 1 2 100)]\<rparr> 120) 1 =
   Apply [\<lparr>ri_record = \<lparr>la_agent_id = ''a'', la_instance_id = ''kirby-a'', la_pid = 7\<rparr>, ri_verdict = ReAdopt\<rparr>]"
proof -
  let ?r = "\<lparr>la_agent_id = ''a'', la_instance_id = ''kirby-a'', la_pid = 7\<rparr>"
  let ?o = "\<lparr>flo_node_id = 1, flo_observed = [(''a'', test_lease 1 2 100)]\<rparr>"
  obtain v where p: "reconcile_plan Complete [?r] (\<lambda>p a. True) (observed_view ?o 120) 1 =
      Apply [\<lparr>ri_record = ?r, ri_verdict = v\<rparr>]"
    by (simp add: reconcile_plan_def reconcile_def)
  from healthy_orphan_kept [OF p] have "v = ReAdopt" by simp
  with p show ?thesis by simp
qed

text \<open>A launched child always passes its own probe, wherever its config directory is.\<close>

lemma own_child_recognised:
  "exists pid \<Longrightarrow> proc_cmdline pid = Some (pre @ ''tenant-'' @ a @ ''.toml'' @ post) \<Longrightarrow>
     \<forall>c\<in>set a. of_char c \<noteq> (0::nat) \<Longrightarrow> alive_and_ours exists proc_cmdline pid a"
proof -
  assume e: "exists pid" and p: "proc_cmdline pid = Some (pre @ ''tenant-'' @ a @ ''.toml'' @ post)"
    and z: "\<forall>c\<in>set a. of_char c \<noteq> (0::nat)"
  let ?f = "\<lambda>c. if of_char c = (0::nat) then CHR '' '' else c"
  have "map ?f a = a" using z by (induction a) auto
  then have "read_cmdline proc_cmdline pid = Some (map ?f pre @ cmdline_match_token a @ map ?f post)"
    by (simp add: read_cmdline_def p cmdline_match_token_def)
  with e show ?thesis by (auto simp: alive_and_ours_def str_contains_iff)
qed

text \<open>The probe's token is not unique per tenant: the child of the agent \<open>tenant-a\<close>, whose config
  file is \<open>tenant-tenant-a.toml\<close>, is taken for the agent \<open>a\<close>, so a PID recycled by the one is
  supervised, and on a reap killed, as the other.\<close>

theorem probe_token_collides:
  "alive_and_ours (\<lambda>p. p = pid) [pid \<mapsto> dir @ cmdline_match_token (''tenant-'' @ a)] pid a
   \<and> pid_tenant_kill (alive_and_ours (\<lambda>p. p = pid) [pid \<mapsto> dir @ cmdline_match_token (''tenant-'' @ a)])
        \<lparr>pt_pid = pid, pt_agent_id = a\<rparr> = [(pid, SIGTERM), (pid, SIGKILL)]"
  if "\<forall>c\<in>set a. of_char c \<noteq> (0::nat)"
proof -
  have "alive_and_ours (\<lambda>p. p = pid) [pid \<mapsto> dir @ cmdline_match_token (''tenant-'' @ a)] pid a"
    by (rule own_child_recognised [where pre = "dir @ ''tenant-''" and post = "[]"])
      (simp_all add: cmdline_match_token_def that)
  then show ?thesis by (simp add: pid_tenant_kill_def)
qed

theorem probe_token_collides_witness:
  "alive_and_ours (\<lambda>p. p = 9) [9 \<mapsto> ''/c/'' @ cmdline_match_token (''tenant-'' @ ''a'')] 9 ''a''"
  using probe_token_collides [where a = "''a''" and pid = 9 and dir = "''/c/''"] by simp

end
