(* ===== verification/Proto.thy ===== *)
theory Proto
  imports Prelude
begin

text \<open>
  The wire types of \<open>crates/kirby-proto/proto/node_gateway.proto\<close> that the gateway reads and writes:
  the seven acts, the request, the outcome and the receipt. A prost enum field is the \<open>i32\<close> it is on
  the wire; \<open>memory_op_try_from\<close> and \<open>charge_method_i32\<close> convert as the generated code does.
\<close>

definition SCHEMA_VERSION :: u32 where "SCHEMA_VERSION = 1"

record pay_invoice =
  pi_bolt11 :: string
  pi_max_fee_sats :: u64

record settle_ecash =
  se_mint_id :: string
  se_amount :: u64
  se_recipient_or_quote :: string

record paid_http =
  ph_method :: string
  ph_url :: string
  ph_body :: bytes
  ph_max_cost_sats :: u64

record chat_message =
  cm_role :: string
  cm_content :: string

record completion_req =
  cp_model :: string
  cp_messages :: "chat_message list"
  cp_max_cost_sats :: u64

record memory_req =
  mr_op :: "32 word"
  mr_slug :: string
  mr_value :: bytes
  mr_max_cost_sats :: u64

record actuate_req =
  ac_kind :: string
  ac_payload :: bytes
  ac_max_cost_sats :: u64

record issue_charge =
  ic_amount_sats :: u64
  ic_memo :: string
  ic_method :: "32 word"

datatype act =
    PayInvoice pay_invoice
  | SettleEcash settle_ecash
  | PaidHttp paid_http
  | Completion completion_req
  | Memory memory_req
  | Actuate actuate_req
  | IssueCharge issue_charge

record capability_request =
  cr_schema_version :: u32
  cr_idempotency_key :: string
  cr_act :: "act option"
  cr_budget_sats :: u64

datatype outcome =
    Unspecified | AuthorizedAndPerformed | DeniedInsufficientTreasury | DeniedOverBudget
  | DeniedNotAllowlisted | UpstreamFailed | DuplicateIgnored | DeniedNotActiveLease

datatype memory_op = Op_Unspecified | Op_Get | Op_Set | Op_Ls | Op_Rm

definition memory_op_try_from :: "32 word \<Rightarrow> memory_op option" where
  "memory_op_try_from n =
     (if n = 0 then Some Op_Unspecified else if n = 1 then Some Op_Get else if n = 2 then Some Op_Set
      else if n = 3 then Some Op_Ls else if n = 4 then Some Op_Rm else None)"

text \<open>\<open>MemoryOp::try_from(m.op).unwrap_or(MemoryOp::Unspecified)\<close>.\<close>

definition memory_op_of :: "memory_req \<Rightarrow> memory_op" where
  "memory_op_of m = (case memory_op_try_from (mr_op m) of Some oper \<Rightarrow> oper | None \<Rightarrow> Op_Unspecified)"

datatype write_status = Status_Unspecified | Stored | Removed | AlreadyAbsent | AlreadyCommitted

record memory_result =
  mm_found :: bool
  mm_value :: bytes
  mm_slugs :: "string list"
  mm_content_hash :: bytes
  mm_write_status :: write_status

datatype charge_method = Method_Unspecified | Lightning | Cashu

fun charge_method_i32 :: "charge_method \<Rightarrow> 32 word" where
  "charge_method_i32 Method_Unspecified = 0"
| "charge_method_i32 Lightning = 1"
| "charge_method_i32 Cashu = 2"

record charge_issued =
  ci_charge_id :: string
  ci_invoice_or_request :: string
  ci_amount_sats :: u64
  ci_method :: "32 word"

record http_response =
  hr_status :: u32
  hr_headers :: "(string \<times> string) list"
  hr_body :: bytes
  hr_truncated :: bool
  hr_final_url :: string

record capability_receipt =
  rc_schema_version :: u32
  rc_outcome :: outcome
  rc_cost_sats :: u64
  rc_treasury_remaining :: u64
  rc_proof :: bytes
  rc_completion :: bytes
  rc_memory :: "memory_result option"
  rc_charge :: "charge_issued option"
  rc_http_response :: "http_response option"

datatype inbound_kind = Inbound_Unspecified | JobRequest | Mention | DirectMessage | PaymentSettled

definition inbound_kind_try_from :: "32 word \<Rightarrow> inbound_kind option" where
  "inbound_kind_try_from n =
     (if n = 0 then Some Inbound_Unspecified else if n = 1 then Some JobRequest
      else if n = 2 then Some Mention else if n = 3 then Some DirectMessage
      else if n = 4 then Some PaymentSettled else None)"

fun inbound_kind_i32 :: "inbound_kind \<Rightarrow> 32 word" where
  "inbound_kind_i32 Inbound_Unspecified = 0"
| "inbound_kind_i32 JobRequest = 1"
| "inbound_kind_i32 Mention = 2"
| "inbound_kind_i32 DirectMessage = 3"
| "inbound_kind_i32 PaymentSettled = 4"

record inbound_event =
  ie_inbox_seq :: u64
  ie_kind :: "32 word"
  ie_payload :: bytes
  ie_source_pubkey :: string
  ie_created_at :: u64
  ie_correlation_id :: string

record inbound_batch =
  ib_schema_version :: u32
  ib_events :: "inbound_event list"
  ib_high_seq :: u64

definition ACTUATE_KIND_NOSTR_PUBLISH :: string where
  "ACTUATE_KIND_NOSTR_PUBLISH = ''nostr.publish''"

definition ACTUATE_KIND_NOSTR_DM_REPLY :: string where
  "ACTUATE_KIND_NOSTR_DM_REPLY = ''nostr.dm_reply''"

definition ACTUATE_KIND_HTTP_FETCH :: string where
  "ACTUATE_KIND_HTTP_FETCH = ''http.fetch''"

lemma inbound_kind_roundtrip [simp]: "inbound_kind_try_from (inbound_kind_i32 k) = Some k"
  by (cases k) (simp_all add: inbound_kind_try_from_def)

end
