(* ===== verification/Rail.thy ===== *)
theory Rail
  imports Proto
begin

text \<open>
  The performers behind the gateway, \<open>crates/kirby-node/src/rail.rs\<close>: act destinations and
  ceilings, the \<open>Rail\<close>, \<open>BrainBackend\<close> and \<open>Actuator\<close> traits as records of functions over an
  implementation state, the mock, ecash and composite rails, the kind router, and the stub brain.
  The never-overspend law (D-20) of each trait is a locale, interpreted on every rail modelled here.
  A mint melt, a model call and an outward network effect are arguments.
\<close>

section \<open>Destinations and ceilings\<close>

definition BRAIN_COMPLETION_DESTINATION :: string where
  "BRAIN_COMPLETION_DESTINATION = ''brain.completion''"

definition MEMORY_DESTINATION :: string where "MEMORY_DESTINATION = ''memory.store''"

definition ISSUE_CHARGE_DESTINATION :: string where
  "ISSUE_CHARGE_DESTINATION = ''settlement.issue_charge''"

text \<open>\<open>str::split_once\<close> of a pattern and \<open>str::rsplit_once\<close> of a character.\<close>

fun split_once :: "string \<Rightarrow> string \<Rightarrow> (string \<times> string) option" where
  "split_once p [] = (if p = [] then Some ([], []) else None)"
| "split_once p (c # cs) =
     (case strip_prefix p (c # cs) of
        Some rest \<Rightarrow> Some ([], rest)
      | None \<Rightarrow> map_option (\<lambda>(a, b). (c # a, b)) (split_once p cs))"

fun rsplit_once :: "char \<Rightarrow> string \<Rightarrow> (string \<times> string) option" where
  "rsplit_once p [] = None"
| "rsplit_once p (c # cs) =
     (case rsplit_once p cs of
        Some (a, b) \<Rightarrow> Some (c # a, b)
      | None \<Rightarrow> if c = p then Some ([], cs) else None)"

definition host_of :: "string \<Rightarrow> string" where
  "host_of url =
     (let after_scheme = (case split_once ''://'' url of Some (_, rest) \<Rightarrow> rest | None \<Rightarrow> url);
          authority = takeWhile (\<lambda>c. c \<notin> {CHR ''/'', CHR ''?'', CHR ''#''}) after_scheme;
          host_port = (case rsplit_once (CHR ''@'') authority of Some (_, h) \<Rightarrow> h | None \<Rightarrow> authority)
      in case rsplit_once (CHR '':'') host_port of Some (h, _) \<Rightarrow> h | None \<Rightarrow> host_port)"

fun destination :: "act \<Rightarrow> string" where
  "destination (PayInvoice p) = pi_bolt11 p"
| "destination (SettleEcash s) = se_mint_id s"
| "destination (PaidHttp h) = host_of (ph_url h)"
| "destination (Completion c) = BRAIN_COMPLETION_DESTINATION"
| "destination (Memory m) = MEMORY_DESTINATION"
| "destination (Actuate a) = ac_kind a"
| "destination (IssueCharge ic) = ISSUE_CHARGE_DESTINATION"

fun act_max_sats :: "act \<Rightarrow> u64 option" where
  "act_max_sats (PayInvoice p) = Some (pi_max_fee_sats p)"
| "act_max_sats (PaidHttp h) = Some (ph_max_cost_sats h)"
| "act_max_sats (SettleEcash s) = None"
| "act_max_sats (Completion c) = Some (cp_max_cost_sats c)"
| "act_max_sats (Memory m) = Some (mr_max_cost_sats m)"
| "act_max_sats (Actuate a) = None"
| "act_max_sats (IssueCharge ic) = None"

definition clamp_spend :: "u64 \<Rightarrow> u64 \<Rightarrow> u64" where
  "clamp_spend requested cap_sats = min requested cap_sats"

section \<open>The traits\<close>

datatype rail_outcome =
    Performed u64 bytes bytes "http_response option" \<comment> \<open>actual cost, proof, completion, response\<close>
  | Rail_UpstreamFailed

record 'r rail =
  rl_estimate :: "act \<Rightarrow> u64"
  rl_perform :: "act \<Rightarrow> u64 \<Rightarrow> 'r \<Rightarrow> rail_outcome \<times> 'r"
  rl_cost_is_exact :: "act \<Rightarrow> bool"
  rl_validate_outward :: "act \<Rightarrow> string + unit"

record 'b brain_backend =
  bb_complete :: "string \<Rightarrow> chat_message list \<Rightarrow> u64 \<Rightarrow> 'b \<Rightarrow> (string + bytes \<times> u64) \<times> 'b"

record 'a actuator =
  at_cost :: "string \<Rightarrow> u64"
  at_cost_is_exact :: "string \<Rightarrow> bool"
  at_validate :: "string \<Rightarrow> bytes \<Rightarrow> string + unit"
  at_actuate :: "string \<Rightarrow> bytes \<Rightarrow> u64 \<Rightarrow> 'a \<Rightarrow> rail_outcome \<times> 'a"

text \<open>D-20: a rail never reports a spend above the cap it was given.\<close>

locale capped_rail =
  fixes rail :: "'r rail"
  assumes capped: "rl_perform rail act cap s = (Performed cost pf completion resp, s') \<Longrightarrow> cost \<le> cap"
begin

text \<open>What the gateway's gate makes of the law: a spend capped at a gated estimate is within both
  the budget and the balance the estimate was checked against.\<close>

lemma gated_spend:
  assumes "rl_perform rail act estimate s = (Performed cost pf completion resp, s')"
    and "\<not> budget < estimate" and "\<not> balance < estimate"
  shows "cost \<le> estimate" and "cost \<le> budget" and "cost \<le> balance"
  using capped [OF assms(1)] assms(2,3) by auto

lemma capped_le:
  "rl_perform rail act cap s = (Performed cost pf completion resp, s') \<Longrightarrow> cap \<le> b \<Longrightarrow> cost \<le> b"
  using capped order_trans by blast

end

locale capped_actuator =
  fixes actuator :: "'a actuator"
  assumes act_capped: "at_actuate actuator kind payload cap s = (Performed cost pf completion resp, s') \<Longrightarrow> cost \<le> cap"

section \<open>The mock rail\<close>

record mock_state =
  mk_perform_calls :: u64

fun mock_estimate :: "act \<Rightarrow> u64" where
  "mock_estimate (SettleEcash s) = se_amount s"
| "mock_estimate (PayInvoice p) = pi_max_fee_sats p"
| "mock_estimate (PaidHttp h) = ph_max_cost_sats h"
| "mock_estimate (Completion c) = cp_max_cost_sats c"
| "mock_estimate (Memory m) = mr_max_cost_sats m"
| "mock_estimate (Actuate a) = ac_max_cost_sats a"
| "mock_estimate (IssueCharge ic) = 0"

definition mock_perform :: "u64 \<Rightarrow> bool \<Rightarrow> act \<Rightarrow> u64 \<Rightarrow> mock_state \<Rightarrow> rail_outcome \<times> mock_state" where
  "mock_perform overshoot fail_upstream act cap_sats s =
     (let s' = s\<lparr>mk_perform_calls := mk_perform_calls s + 1\<rparr>
      in if fail_upstream then (Rail_UpstreamFailed, s')
         else (let natural = saturating_add (mock_estimate act) overshoot;
                   actual_cost = min natural cap_sats;
                   pf = ''mock-receipt:'' @ destination act @ '':cost='' @ show_word actual_cost
               in (Performed actual_cost pf [] None, s')))"

definition mock_rail :: "u64 \<Rightarrow> bool \<Rightarrow> mock_state rail" where
  "mock_rail overshoot fail_upstream = \<lparr>rl_estimate = mock_estimate,
     rl_perform = mock_perform overshoot fail_upstream,
     rl_cost_is_exact = (\<lambda>a. True), rl_validate_outward = (\<lambda>a. Inr ())\<rparr>"

interpretation mock: capped_rail "mock_rail overshoot fail_upstream" for overshoot fail_upstream
  by unfold_locales (auto simp: mock_rail_def mock_perform_def Let_def split: if_splits)

section \<open>The ecash rail\<close>

text \<open>The wallet's melt is an argument: it returns the spend the mint reports and the preimage.\<close>

record 'w cdk_state =
  ck_wallet :: 'w
  ck_perform_count :: u64

type_synonym 'w settle_fn = "u64 \<Rightarrow> 'w \<Rightarrow> (string + u64 \<times> bytes) \<times> 'w"

definition cdk_perform :: "'w settle_fn \<Rightarrow> string \<Rightarrow> act \<Rightarrow> u64 \<Rightarrow> 'w cdk_state \<Rightarrow> rail_outcome \<times> 'w cdk_state" where
  "cdk_perform settle mint_id act cap_sats s =
     (case act of
        SettleEcash e \<Rightarrow>
          if se_mint_id e \<noteq> mint_id then (Rail_UpstreamFailed, s)
          else (let spend = clamp_spend (se_amount e) cap_sats
                in if spend = 0 then (Rail_UpstreamFailed, s)
                   else (case settle spend (ck_wallet s) of
                      (Inr (spent, preimage), w) \<Rightarrow>
                        (Performed (clamp_spend spent cap_sats) preimage [] None,
                         s\<lparr>ck_wallet := w, ck_perform_count := ck_perform_count s + 1\<rparr>)
                    | (Inl e, w) \<Rightarrow> (Rail_UpstreamFailed, s\<lparr>ck_wallet := w\<rparr>)))
      | _ \<Rightarrow> (Rail_UpstreamFailed, s))"

definition cdk_rail :: "'w settle_fn \<Rightarrow> string \<Rightarrow> 'w cdk_state rail" where
  "cdk_rail settle mint_id = \<lparr>rl_estimate = mock_estimate, rl_perform = cdk_perform settle mint_id,
     rl_cost_is_exact = (\<lambda>a. True), rl_validate_outward = (\<lambda>a. Inr ())\<rparr>"

interpretation cdk: capped_rail "cdk_rail settle mint_id" for settle :: "'w settle_fn" and mint_id
  by unfold_locales
    (auto simp: cdk_rail_def cdk_perform_def clamp_spend_def Let_def
      split: act.splits if_splits prod.splits sum.splits)

section \<open>The stub brain\<close>

definition canned_reply :: "chat_message list \<Rightarrow> string" where
  "canned_reply messages =
     (let last_user = (case find (\<lambda>m. cm_role m = ''user'') (rev messages) of
                         Some m \<Rightarrow> cm_content m | None \<Rightarrow> ''(nothing)'')
      in ''[stub-brain turn '' @ show_nat (length messages) @
         ''] I am a Kirby agent; my runway is draining. You said: '' @ last_user)"

definition simulated_cost :: "u64 \<Rightarrow> chat_message list \<Rightarrow> string \<Rightarrow> u64" where
  "simulated_cost bytes_per_sat messages reply =
     (let msg_bytes = sum_list (map (\<lambda>m. length (cm_role m) + length (cm_content m)) messages);
          all_bytes = (of_nat (msg_bytes + length reply) :: u64)
      in max (div_ceil all_bytes bytes_per_sat) 1)"

text \<open>\<open>StubBrain::new\<close> keeps a zero knob at one.\<close>

definition stub_brain :: "u64 \<Rightarrow> 'b brain_backend" where
  "stub_brain bytes_per_sat = \<lparr>bb_complete = (\<lambda>model messages max_cost_sats b.
     (let reply = canned_reply messages;
          actual_cost = min (simulated_cost (max bytes_per_sat 1) messages reply) max_cost_sats
      in (Inr (reply, actual_cost), b)))\<rparr>"

section \<open>The composite rail\<close>

record ('r, 'b, 'a) composite_state =
  cs_base :: 'r
  cs_brain :: 'b
  cs_actuator :: 'a

definition composite_estimate :: "'r rail \<Rightarrow> 'a actuator option \<Rightarrow> act \<Rightarrow> u64" where
  "composite_estimate base actuator act =
     (case act of
        Completion c \<Rightarrow> cp_max_cost_sats c
      | Actuate a \<Rightarrow> (case actuator of Some at \<Rightarrow> at_cost at (ac_kind a) | None \<Rightarrow> - 1)
      | other \<Rightarrow> rl_estimate base other)"

definition composite_perform ::
  "'b brain_backend \<Rightarrow> 'a actuator option \<Rightarrow> act \<Rightarrow> u64 \<Rightarrow> ('r, 'b, 'a) composite_state
     \<Rightarrow> rail_outcome \<times> ('r, 'b, 'a) composite_state" where
  "composite_perform brain actuator act cap_sats s =
     (case act of
        Completion c \<Rightarrow>
          (case bb_complete brain (cp_model c) (cp_messages c) cap_sats (cs_brain s) of
             (Inr (completion, actual_cost), b) \<Rightarrow>
               (Performed (min actual_cost cap_sats)
                  (''brain-completion:model='' @ cp_model c @ '':reply_len='' @ show_nat (length completion))
                  completion None, s\<lparr>cs_brain := b\<rparr>)
           | (Inl e, b) \<Rightarrow> (Rail_UpstreamFailed, s\<lparr>cs_brain := b\<rparr>))
      | Actuate a \<Rightarrow>
          (case actuator of
             Some at \<Rightarrow>
               (let (out, st) = at_actuate at (ac_kind a) (ac_payload a) cap_sats (cs_actuator s)
                in (out, s\<lparr>cs_actuator := st\<rparr>))
           | None \<Rightarrow> (Rail_UpstreamFailed, s))
      | other \<Rightarrow> (Rail_UpstreamFailed, s))"

definition composite_validate_outward :: "'a actuator option \<Rightarrow> act \<Rightarrow> string + unit" where
  "composite_validate_outward actuator act =
     (case act of
        Actuate a \<Rightarrow>
          (case actuator of
             Some at \<Rightarrow> at_validate at (ac_kind a) (ac_payload a)
           | None \<Rightarrow> Inl ''CompositeRail has no actuator configured for an Actuate'')
      | other \<Rightarrow> Inr ())"

definition composite_cost_is_exact :: "'a actuator option \<Rightarrow> act \<Rightarrow> bool" where
  "composite_cost_is_exact actuator act =
     (case act of
        Actuate a \<Rightarrow> (case actuator of Some at \<Rightarrow> at_cost_is_exact at (ac_kind a) | None \<Rightarrow> True)
      | other \<Rightarrow> True)"

definition composite_rail ::
  "'r rail \<Rightarrow> 'b brain_backend \<Rightarrow> 'a actuator option \<Rightarrow> ('r, 'b, 'a) composite_state rail" where
  "composite_rail base brain actuator = \<lparr>rl_estimate = composite_estimate base actuator,
     rl_perform = composite_perform brain actuator,
     rl_cost_is_exact = composite_cost_is_exact actuator,
     rl_validate_outward = composite_validate_outward actuator\<rparr>"

text \<open>With no actuator, or with one that keeps the law, the composite keeps it too.\<close>

interpretation voiceless: capped_rail "composite_rail base brain None"
  for base :: "'r rail" and brain :: "'b brain_backend"
  by unfold_locales
    (auto simp: composite_rail_def composite_perform_def split: act.splits prod.splits sum.splits)

sublocale capped_actuator \<subseteq> composite: capped_rail "composite_rail base brain (Some actuator)"
  for base :: "'r rail" and brain :: "'b brain_backend"
  by unfold_locales
    (auto simp: composite_rail_def composite_perform_def dest: act_capped
      split: act.splits prod.splits sum.splits)

section \<open>The kind router\<close>

definition route :: "'n option \<Rightarrow> 'n option \<Rightarrow> string \<Rightarrow> 'n option" where
  "route nostr egress kind =
     (if kind = ACTUATE_KIND_NOSTR_PUBLISH \<or> kind = ACTUATE_KIND_NOSTR_DM_REPLY then nostr
      else if kind = ACTUATE_KIND_HTTP_FETCH then egress else None)"

definition composite_actuator :: "'a actuator option \<Rightarrow> 'a actuator option \<Rightarrow> 'a actuator" where
  "composite_actuator nostr egress =
     \<lparr>at_cost = (\<lambda>kind. case route nostr egress kind of Some a \<Rightarrow> at_cost a kind | None \<Rightarrow> - 1),
      at_cost_is_exact = (\<lambda>kind. case route nostr egress kind of Some a \<Rightarrow> at_cost_is_exact a kind | None \<Rightarrow> True),
      at_validate = (\<lambda>kind payload. case route nostr egress kind of
         Some a \<Rightarrow> at_validate a kind payload | None \<Rightarrow> Inl (''no actuator serves the kind '' @ kind)),
      at_actuate = (\<lambda>kind payload cap_sats s. case route nostr egress kind of
         Some a \<Rightarrow> at_actuate a kind payload cap_sats s | None \<Rightarrow> (Rail_UpstreamFailed, s))\<rparr>"

section \<open>The brain's cost reconciliation\<close>

definition reconcile_cost :: "u64 \<Rightarrow> u64 \<Rightarrow> u64" where
  "reconcile_cost cap change_received = saturating_sub cap change_received"

lemma reconcile_cost_le: "reconcile_cost cap change \<le> cap"
  by (simp add: reconcile_cost_def word_le_nat_alt unat_saturating_sub)

end
