(* ===== verification/Memory_Store.thy ===== *)
theory Memory_Store
  imports Proto Store
begin

text \<open>
  The durable-mind-state store behind the Memory act (\<open>crates/kirby-node/src/rail.rs\<close>): the
  request validation with the NIP-AE slug grammar, the \<open>MemoryBackend\<close> trait and the in-memory
  \<open>StubMemory\<close>. The trait's contract is the locale \<open>memory_store\<close>, interpreted on the stub.
  SHA-256 is an argument.
\<close>

definition MAX_MEMORY_VALUE_BYTES :: nat where "MAX_MEMORY_VALUE_BYTES = 65535"

datatype memory_error =
    InvalidSlug string
  | TooLarge nat nat \<comment> \<open>got, max\<close>
  | MalformedOp
  | Unreachable

datatype write_commit = Commit_Stored | AlreadyCommittedSameWseq

record memory_write =
  mw_result :: memory_result
  mw_committed :: write_commit

section \<open>Validation\<close>

definition is_lowercase :: "char \<Rightarrow> bool" where "is_lowercase c = in_range 97 122 c"

definition slug_char :: "char \<Rightarrow> bool" where
  "slug_char c \<longleftrightarrow> is_lowercase c \<or> is_digit c \<or> c = CHR ''_'' \<or> c = CHR ''-''"

fun is_valid_slug_segment :: "string \<Rightarrow> bool" where
  "is_valid_slug_segment [] = False"
| "is_valid_slug_segment (first # chars) =
     (if \<not> is_lowercase first \<and> \<not> is_digit first then False
      else if length (first # chars) > 64 then False
      else list_all slug_char chars)"

text \<open>\<open>str::split\<close> on a character: one more piece than separators, pieces possibly empty.\<close>

fun split_char :: "char \<Rightarrow> string \<Rightarrow> string list" where
  "split_char p [] = [[]]"
| "split_char p (c # cs) =
     (if c = p then [] # split_char p cs
      else (case split_char p cs of [] \<Rightarrow> [[c]] | piece # rest \<Rightarrow> (c # piece) # rest))"

definition is_valid_slug :: "string \<Rightarrow> bool" where
  "is_valid_slug slug =
     (if slug = ''core'' then True
      else (case strip_prefix ''mem/'' slug of
              None \<Rightarrow> False
            | Some rest \<Rightarrow> if rest = [] then False
                           else list_all is_valid_slug_segment (split_char (CHR ''/'') rest)))"

definition validate_memory_request :: "memory_req \<Rightarrow> memory_error + unit" where
  "validate_memory_request m =
     (case memory_op_of m of
        Op_Get \<Rightarrow> if \<not> is_valid_slug (mr_slug m) then Inl (InvalidSlug (mr_slug m))
                  else if mr_value m \<noteq> [] then Inl MalformedOp else Inr ()
      | Op_Ls \<Rightarrow> if mr_slug m \<noteq> [] \<or> mr_value m \<noteq> [] then Inl MalformedOp else Inr ()
      | Op_Set \<Rightarrow> if \<not> is_valid_slug (mr_slug m) then Inl (InvalidSlug (mr_slug m))
                  else if length (mr_value m) > MAX_MEMORY_VALUE_BYTES
                  then Inl (TooLarge (length (mr_value m)) MAX_MEMORY_VALUE_BYTES) else Inr ()
      | Op_Rm \<Rightarrow> if \<not> is_valid_slug (mr_slug m) then Inl (InvalidSlug (mr_slug m))
                 else if mr_value m \<noteq> [] then Inl MalformedOp else Inr ()
      | Op_Unspecified \<Rightarrow> Inl MalformedOp)"

definition is_read_op :: "memory_op \<Rightarrow> bool" where
  "is_read_op oper \<longleftrightarrow> oper = Op_Get \<or> oper = Op_Ls"

section \<open>The backend and its contract\<close>

record 'm memory_backend =
  mb_write_cost :: "memory_req \<Rightarrow> u64"
  mb_read :: "memory_req \<Rightarrow> 'm \<Rightarrow> (memory_error + memory_result) \<times> 'm"
  mb_write :: "memory_req \<Rightarrow> string \<Rightarrow> 'm \<Rightarrow> (memory_error + memory_write) \<times> 'm"

locale retryable_store =
  fixes backend :: "'m memory_backend"
  assumes write_replay: "mb_write backend m token s = (Inr w, s') \<Longrightarrow>
      mb_write backend m token s' =
        (Inr \<lparr>mw_result = mw_result w, mw_committed = AlreadyCommittedSameWseq\<rparr>, s')"
begin

text \<open>Retrying a write any number of times reproduces its first result and changes nothing more.\<close>

fun retried :: "nat \<Rightarrow> memory_req \<Rightarrow> string \<Rightarrow> 'm \<Rightarrow> 'm" where
  "retried 0 m token s = s"
| "retried (Suc n) m token s = retried n m token (snd (mb_write backend m token s))"

lemma retried_write: "mb_write backend m token s = (Inr w, s') \<Longrightarrow> retried n m token s' = s'"
  by (induction n) (simp_all add: write_replay)

lemma retried_result:
  "mb_write backend m token s = (Inr w, s') \<Longrightarrow>
     mb_write backend m token (retried n m token s') =
       (Inr \<lparr>mw_result = mw_result w, mw_committed = AlreadyCommittedSameWseq\<rparr>, s')"
  by (simp add: retried_write write_replay)

end

text \<open>A store in memory promises more: reading changes nothing, and neither does a write that fails.\<close>

locale memory_store = retryable_store backend for backend :: "'m memory_backend" +
  assumes read_pure: "snd (mb_read backend m s) = s"
    and write_charged: "1 \<le> mb_write_cost backend m"
    and failed_write_pure: "mb_write backend m token s = (Inl e, s') \<Longrightarrow> s' = s"

section \<open>The stub store\<close>

record stub_state =
  st_store :: "(string, bytes) tree"
  st_committed :: "(string, memory_result) tree"

definition stub_write_cost :: "u64 \<Rightarrow> memory_req \<Rightarrow> u64" where
  "stub_write_cost bytes_per_sat m =
     (let n = (of_nat (length (mr_slug m) + length (mr_value m)) :: u64)
      in max (div_ceil n bytes_per_sat) 1)"

definition stub_read ::
  "(bytes \<Rightarrow> bytes) \<Rightarrow> bool \<Rightarrow> memory_req \<Rightarrow> stub_state \<Rightarrow> (memory_error + memory_result) \<times> stub_state" where
  "stub_read sha256 fail_unreachable m s =
     (if fail_unreachable then Inl Unreachable
      else (case memory_op_of m of
         Op_Get \<Rightarrow>
           if \<not> is_valid_slug (mr_slug m) then Inl (InvalidSlug (mr_slug m))
           else (case tget (st_store s) (mr_slug m) of
              Some v \<Rightarrow> Inr \<lparr>mm_found = True, mm_value = v, mm_slugs = [], mm_content_hash = sha256 v,
                             mm_write_status = Status_Unspecified\<rparr>
            | None \<Rightarrow> Inr \<lparr>mm_found = False, mm_value = [], mm_slugs = [], mm_content_hash = [],
                            mm_write_status = Status_Unspecified\<rparr>)
       | Op_Ls \<Rightarrow>
           (let slugs = sort (tkeys (st_store s))
            in Inr \<lparr>mm_found = slugs \<noteq> [], mm_value = [], mm_slugs = slugs, mm_content_hash = [],
                    mm_write_status = Status_Unspecified\<rparr>)
       | _ \<Rightarrow> Inl MalformedOp), s)"

definition stub_effect ::
  "(bytes \<Rightarrow> bytes) \<Rightarrow> memory_req \<Rightarrow> (string, bytes) tree \<Rightarrow> memory_error + memory_result \<times> (string, bytes) tree" where
  "stub_effect sha256 m store =
     (case memory_op_of m of
        Op_Set \<Rightarrow>
          if length (mr_value m) > MAX_MEMORY_VALUE_BYTES
          then Inl (TooLarge (length (mr_value m)) MAX_MEMORY_VALUE_BYTES)
          else Inr (\<lparr>mm_found = True, mm_value = [], mm_slugs = [], mm_content_hash = sha256 (mr_value m),
                     mm_write_status = Stored\<rparr>, tinsert (mr_slug m) (mr_value m) store)
      | Op_Rm \<Rightarrow>
          (let existed = tget store (mr_slug m) \<noteq> None
           in Inr (\<lparr>mm_found = existed, mm_value = [], mm_slugs = [], mm_content_hash = [],
                    mm_write_status = (if existed then Removed else AlreadyAbsent)\<rparr>,
                   tremove (mr_slug m) store))
      | _ \<Rightarrow> Inl MalformedOp)"

definition stub_write ::
  "(bytes \<Rightarrow> bytes) \<Rightarrow> bool \<Rightarrow> memory_req \<Rightarrow> string \<Rightarrow> stub_state
     \<Rightarrow> (memory_error + memory_write) \<times> stub_state" where
  "stub_write sha256 fail_unreachable m write_token s =
     (if fail_unreachable then (Inl Unreachable, s)
      else if \<not> is_valid_slug (mr_slug m) then (Inl (InvalidSlug (mr_slug m)), s)
      else (case tget (st_committed s) write_token of
         Some prior \<Rightarrow> (Inr \<lparr>mw_result = prior, mw_committed = AlreadyCommittedSameWseq\<rparr>, s)
       | None \<Rightarrow>
           (case stub_effect sha256 m (st_store s) of
              Inl e \<Rightarrow> (Inl e, s)
            | Inr (result, store) \<Rightarrow>
                (Inr \<lparr>mw_result = result, mw_committed = Commit_Stored\<rparr>,
                 \<lparr>st_store = store, st_committed = tinsert write_token result (st_committed s)\<rparr>))))"

text \<open>\<open>StubMemory::new\<close> keeps a zero knob at one; \<open>StubMemory::unreachable\<close> fails every call.\<close>

definition stub_memory :: "(bytes \<Rightarrow> bytes) \<Rightarrow> u64 \<Rightarrow> bool \<Rightarrow> stub_state memory_backend" where
  "stub_memory sha256 bytes_per_sat fail_unreachable =
     \<lparr>mb_write_cost = stub_write_cost (max bytes_per_sat 1),
      mb_read = stub_read sha256 fail_unreachable,
      mb_write = stub_write sha256 fail_unreachable\<rparr>"

definition stub_fresh :: stub_state where "stub_fresh = \<lparr>st_store = [], st_committed = []\<rparr>"

lemma tget_tinsert_same [simp]: "tget (tinsert k v t) k = Some v" for k :: "'k::linorder"
  by (induction k v t rule: tinsert.induct) auto

interpretation stub: memory_store "stub_memory sha256 bytes_per_sat fail_unreachable"
  for sha256 bytes_per_sat fail_unreachable
  by unfold_locales
    (auto simp: stub_memory_def stub_read_def stub_write_cost_def stub_write_def Let_def
      split: if_splits option.splits sum.splits)

lemma stub_write_get:
  assumes "tree_ok (st_store s)" and "memory_op_of m = Op_Set"
    and "stub_write sha256 False m token s = (Inr w, s')" and "mw_committed w = Commit_Stored"
  shows "tget (st_store s') = (tget (st_store s))(mr_slug m \<mapsto> mr_value m)"
  using assms by (auto simp: stub_write_def stub_effect_def split: if_splits option.splits sum.splits)

section \<open>Histories of writes\<close>

text \<open>A run of writes against a reachable stub store.\<close>

fun stub_writes :: "(bytes \<Rightarrow> bytes) \<Rightarrow> (memory_req \<times> string) list \<Rightarrow> stub_state \<Rightarrow> stub_state" where
  "stub_writes sha256 [] s = s"
| "stub_writes sha256 ((m, token) # ws) s = stub_writes sha256 ws (snd (stub_write sha256 False m token s))"

definition stub_ok :: "stub_state \<Rightarrow> bool" where
  "stub_ok s \<longleftrightarrow> tree_ok (st_store s) \<and> tree_ok (st_committed s)"

lemma stub_write_cases:
  assumes "stub_write sha256 False m token s = (res, s')"
  shows "s' = s \<or> tget (st_committed s) token = None \<and> (\<exists>result store. stub_effect sha256 m (st_store s) = Inr (result, store)
    \<and> s' = \<lparr>st_store = store, st_committed = tinsert token result (st_committed s)\<rparr>)"
  using assms by (auto simp: stub_write_def split: if_splits option.splits sum.splits)

lemma stub_effect_other:
  assumes "stub_effect sha256 m store = Inr (result, store')" and "tree_ok store"
  shows "tree_ok store' \<and> (slug \<noteq> mr_slug m \<longrightarrow> tget store' slug = tget store slug)"
  using assms by (auto simp: stub_effect_def Let_def split: memory_op.splits if_splits)

lemma stub_write_step:
  assumes "stub_ok s"
  shows "stub_ok (snd (stub_write sha256 False m token s))"
    and "tget (st_committed s) t = Some r \<Longrightarrow> tget (st_committed (snd (stub_write sha256 False m token s))) t = Some r"
    and "slug \<noteq> mr_slug m \<Longrightarrow> tget (st_store (snd (stub_write sha256 False m token s))) slug = tget (st_store s) slug"
  using assms stub_write_cases [of sha256 m token s "fst (stub_write sha256 False m token s)"
      "snd (stub_write sha256 False m token s)"]
  by (auto simp: stub_ok_def dest: stub_effect_other)

lemma stub_writes_committed:
  "stub_ok s \<Longrightarrow> tget (st_committed s) t = Some r \<Longrightarrow> tget (st_committed (stub_writes sha256 ws s)) t = Some r"
  by (induction sha256 ws s rule: stub_writes.induct) (simp_all add: stub_write_step)

lemma stub_writes_other:
  "stub_ok s \<Longrightarrow> \<forall>(m, token) \<in> set ws. mr_slug m \<noteq> slug \<Longrightarrow>
     tget (st_store (stub_writes sha256 ws s)) slug = tget (st_store s) slug"
  by (induction sha256 ws s rule: stub_writes.induct) (auto simp: stub_write_step)

lemma stub_write_committed:
  assumes "stub_write sha256 False m token s = (Inr w, s1)"
  shows "tget (st_committed s1) token = Some (mw_result w)"
  using assms by (auto simp: stub_write_def split: if_splits option.splits sum.splits)

text \<open>A write token is good for one write: once a write under a token has committed, then after any
  further writes a request under that token, whatever it asks, returns the first result and changes
  nothing; and what a fresh SET stored is what GET returns, with its hash, as long as no later write
  names the slug.\<close>

theorem write_token_once:
  assumes "stub_ok s" and "stub_write sha256 False m token s = (Inr w, s1)"
  shows "(is_valid_slug (mr_slug m') \<longrightarrow> stub_write sha256 False m' token (stub_writes sha256 ws s1) =
      (Inr \<lparr>mw_result = mw_result w, mw_committed = AlreadyCommittedSameWseq\<rparr>, stub_writes sha256 ws s1))
    \<and> (mw_committed w = Commit_Stored \<longrightarrow> memory_op_of m = Op_Set
      \<longrightarrow> (\<forall>(m', token') \<in> set ws. mr_slug m' \<noteq> mr_slug m)
      \<longrightarrow> memory_op_of g = Op_Get \<longrightarrow> mr_slug g = mr_slug m
      \<longrightarrow> fst (stub_read sha256 False g (stub_writes sha256 ws s1)) =
        Inr \<lparr>mm_found = True, mm_value = mr_value m, mm_slugs = [], mm_content_hash = sha256 (mr_value m),
             mm_write_status = Status_Unspecified\<rparr>)"
proof (rule conjI; ((rule impI)+)?)
  have ok: "stub_ok s1" using stub_write_step(1) [OF assms(1), of sha256 m token] assms(2) by simp
  have c: "tget (st_committed (stub_writes sha256 ws s1)) token = Some (mw_result w)"
    by (rule stub_writes_committed [OF ok stub_write_committed [OF assms(2)]])
  then show "is_valid_slug (mr_slug m') \<Longrightarrow> stub_write sha256 False m' token (stub_writes sha256 ws s1) =
      (Inr \<lparr>mw_result = mw_result w, mw_committed = AlreadyCommittedSameWseq\<rparr>, stub_writes sha256 ws s1)"
    by (simp add: stub_write_def)
  assume h: "mw_committed w = Commit_Stored" "memory_op_of m = Op_Set"
    "\<forall>(m', token') \<in> set ws. mr_slug m' \<noteq> mr_slug m" "memory_op_of g = Op_Get" "mr_slug g = mr_slug m"
  have "tget (st_store s1) (mr_slug m) = Some (mr_value m)"
    using stub_write_get [OF _ h(2) assms(2) h(1)] assms(1) by (simp add: stub_ok_def)
  then have "tget (st_store (stub_writes sha256 ws s1)) (mr_slug m) = Some (mr_value m)"
    using stub_writes_other [OF ok h(3)] by simp
  moreover have "is_valid_slug (mr_slug m)" using assms(2) by (auto simp: stub_write_def split: if_splits)
  ultimately show "fst (stub_read sha256 False g (stub_writes sha256 ws s1)) =
        Inr \<lparr>mm_found = True, mm_value = mr_value m, mm_slugs = [], mm_content_hash = sha256 (mr_value m),
             mm_write_status = Status_Unspecified\<rparr>"
    using h by (simp add: stub_read_def)
qed

theorem write_token_once_witness:
  "\<exists>w s1. stub_write rev False \<lparr>mr_op = 2, mr_slug = ''core'', mr_value = ''v'', mr_max_cost_sats = 9\<rparr> ''mem-write-1'' stub_fresh = (Inr w, s1)
     \<and> fst (stub_write rev False \<lparr>mr_op = 4, mr_slug = ''core'', mr_value = [], mr_max_cost_sats = 9\<rparr> ''mem-write-1''
         (stub_writes rev [] s1)) = Inr \<lparr>mw_result = mw_result w, mw_committed = AlreadyCommittedSameWseq\<rparr>"
proof -
  let ?m = "\<lparr>mr_op = 2, mr_slug = ''core'', mr_value = ''v'', mr_max_cost_sats = 9\<rparr>"
  let ?r = "\<lparr>mm_found = True, mm_value = [], mm_slugs = [], mm_content_hash = ''v'', mm_write_status = Stored\<rparr>"
  let ?s1 = "\<lparr>st_store = [(''core'', ''v'')], st_committed = [(''mem-write-1'', ?r)]\<rparr>"
  have w: "stub_write rev False ?m ''mem-write-1'' stub_fresh = (Inr \<lparr>mw_result = ?r, mw_committed = Commit_Stored\<rparr>, ?s1)"
    by (simp add: stub_write_def stub_effect_def stub_fresh_def is_valid_slug_def memory_op_of_def
        memory_op_try_from_def MAX_MEMORY_VALUE_BYTES_def)
  have "stub_ok stub_fresh" by (simp add: stub_ok_def stub_fresh_def)
  from write_token_once [OF this w, where ws = "[]"
      and m' = "\<lparr>mr_op = 4, mr_slug = ''core'', mr_value = [], mr_max_cost_sats = 9\<rparr>", THEN conjunct1]
  show ?thesis
    by (intro exI [of _ "\<lparr>mw_result = ?r, mw_committed = Commit_Stored\<rparr>"] exI [of _ ?s1] conjI w)
      (simp add: is_valid_slug_def)
qed

end
