(* ===== verification/Settlement.thy ===== *)
theory Settlement
  imports Proto Treasury
begin

text \<open>
  The settlement seam of \<open>crates/kirby-node/src/rail.rs\<close>: the \<open>SettlementProvider\<close> trait with its
  Cashu and Lightning implementations, the paid-quote gate, the held-proofs recovery read, and the
  durable sink for stranded quotes. The CDK wallet and the mint behind it are an argument: a record
  of its calls over a wallet state.
\<close>

record charge_issued_data =
  cd_charge_id :: string
  cd_invoice_or_request :: string
  cd_amount_sats :: u64

text \<open>\<open>Unpaid\<close> is the typed \<open>SettleNotReady\<close>; every other \<open>anyhow\<close> error carries a message.\<close>

datatype settle_error = Unpaid | Settle_fault string

record 'w settlement_provider =
  sp_issue :: "u64 \<Rightarrow> string \<Rightarrow> 'w \<Rightarrow> (settle_error + charge_issued_data) \<times> 'w"
  sp_verify_settlement :: "string \<Rightarrow> string \<Rightarrow> 'w \<Rightarrow> (settle_error + u64) \<times> 'w"
  sp_method :: charge_method

text \<open>What the gateway relies on: a charge is issued for the amount asked, on a wired rail.\<close>

locale settlement =
  fixes provider :: "'w settlement_provider"
  assumes issued_amount: "sp_issue provider amount memo w = (Inr d, w') \<Longrightarrow> cd_amount_sats d = amount"
    and wired_rail: "sp_method provider = Lightning \<or> sp_method provider = Cashu"

section \<open>The wallet\<close>

datatype mint_quote_state = Quote_Unpaid | Quote_Paid | Quote_Issued

record mint_quote =
  mq_id :: string
  mq_request :: string
  mq_state :: mint_quote_state
  mq_amount_issued :: u64

record wallet_tx =
  wt_quote_id :: "string option"
  wt_ys :: "string list"

record proof_info =
  pi_amount :: u64
  pi_unspent :: bool

record 'w cdk_wallet =
  wl_mint_quote :: "u64 \<Rightarrow> string \<Rightarrow> 'w \<Rightarrow> (string + mint_quote) \<times> 'w"
  wl_check_mint_quote_status :: "string \<Rightarrow> 'w \<Rightarrow> (string + mint_quote) \<times> 'w"
  wl_list_incoming :: "'w \<Rightarrow> string + wallet_tx list"
  wl_get_proofs_by_ys :: "string list \<Rightarrow> 'w \<Rightarrow> string + proof_info list"
  wl_mint :: "string \<Rightarrow> 'w \<Rightarrow> (string + u64 list) \<times> 'w"
  wl_receive :: "string \<Rightarrow> 'w \<Rightarrow> (string + u64) \<times> 'w"

section \<open>Cashu\<close>

record 'w cashu_state =
  ca_wallet :: 'w
  ca_dirty :: bool

definition cashu_issue ::
  "('w \<Rightarrow> string) \<Rightarrow> u64 \<Rightarrow> string \<Rightarrow> 'w cashu_state \<Rightarrow> (settle_error + charge_issued_data) \<times> 'w cashu_state" where
  "cashu_issue new_uuid amount_sats memo s =
     (let charge_id = new_uuid (ca_wallet s);
          invoice_or_request = ''cashu:charge:'' @ charge_id @ '':'' @ show_word amount_sats
      in (Inr \<lparr>cd_charge_id = charge_id, cd_invoice_or_request = invoice_or_request,
               cd_amount_sats = amount_sats\<rparr>, s))"

definition cashu_verify_settlement ::
  "'w cdk_wallet \<Rightarrow> bool \<Rightarrow> string \<Rightarrow> string \<Rightarrow> 'w cashu_state \<Rightarrow> (settle_error + u64) \<times> 'w cashu_state" where
  "cashu_verify_settlement wallet notifier charge_id evidence s =
     (case wl_receive wallet evidence (ca_wallet s) of
        (Inl e, w) \<Rightarrow> (Inl (Settle_fault (''cashu settlement receive: '' @ e)), s\<lparr>ca_wallet := w\<rparr>)
      | (Inr amount, w) \<Rightarrow> (Inr amount, s\<lparr>ca_wallet := w, ca_dirty := ca_dirty s \<or> notifier\<rparr>))"

definition cashu_settlement :: "'w cdk_wallet \<Rightarrow> ('w \<Rightarrow> string) \<Rightarrow> bool \<Rightarrow> 'w cashu_state settlement_provider" where
  "cashu_settlement wallet new_uuid notifier = \<lparr>sp_issue = cashu_issue new_uuid,
     sp_verify_settlement = cashu_verify_settlement wallet notifier, sp_method = Cashu\<rparr>"

interpretation cashu: settlement "cashu_settlement wallet new_uuid notifier"
  for wallet :: "'w cdk_wallet" and new_uuid notifier
  by unfold_locales (auto simp: cashu_settlement_def cashu_issue_def Let_def)

section \<open>The stranded-quote sink\<close>

record stranded_record =
  sr_quote_id :: string
  sr_amount_issued :: u64
  sr_reason :: string

type_synonym stranded_sink = "(string, stranded_record) tree"

definition record_stranded ::
  "sled_io \<Rightarrow> string \<Rightarrow> u64 \<Rightarrow> string \<Rightarrow> stranded_sink \<Rightarrow> (string + unit) \<times> stranded_sink" where
  "record_stranded io quote_id amount_issued reason sink =
     (let rec = \<lparr>sr_quote_id = quote_id, sr_amount_issued = amount_issued, sr_reason = reason\<rparr>
      in case io of
           Txn_fault e \<Rightarrow> (Inl (''insert stranded record for '' @ quote_id), sink)
         | Flush_fault e \<Rightarrow> (Inl (''flush stranded record for '' @ quote_id), tinsert quote_id rec sink)
         | Io_ok \<Rightarrow> (Inr (), tinsert quote_id rec sink))"

definition stranded_get :: "string \<Rightarrow> stranded_sink \<Rightarrow> stranded_record option" where
  "stranded_get quote_id sink = tget sink quote_id"

section \<open>Lightning\<close>

record 'w lightning_state =
  ln_wallet :: 'w
  ln_stranded :: stranded_sink
  ln_dirty :: bool

definition lightning_issue ::
  "'w cdk_wallet \<Rightarrow> u64 \<Rightarrow> string \<Rightarrow> 'w lightning_state
     \<Rightarrow> (settle_error + charge_issued_data) \<times> 'w lightning_state" where
  "lightning_issue wallet amount_sats memo s =
     (case wl_mint_quote wallet amount_sats memo (ln_wallet s) of
        (Inl e, w) \<Rightarrow> (Inl (Settle_fault (''bolt11 mint quote: '' @ e)), s\<lparr>ln_wallet := w\<rparr>)
      | (Inr quote, w) \<Rightarrow>
          (Inr \<lparr>cd_charge_id = mq_id quote, cd_invoice_or_request = mq_request quote,
                cd_amount_sats = amount_sats\<rparr>, s\<lparr>ln_wallet := w\<rparr>))"

fun ensure_quote_paid :: "mint_quote_state \<Rightarrow> settle_error + unit" where
  "ensure_quote_paid Quote_Paid = Inr ()"
| "ensure_quote_paid Quote_Unpaid = Inl Unpaid"
| "ensure_quote_paid Quote_Issued = Inl (Settle_fault ''bolt11 mint quote is already ISSUED'')"

definition held_unspent_for_quote ::
  "'w cdk_wallet \<Rightarrow> string \<Rightarrow> 'w \<Rightarrow> settle_error + u64 \<times> bool" where
  "held_unspent_for_quote wallet charge_id w =
     (case wl_list_incoming wallet w of
        Inl e \<Rightarrow> Inl (Settle_fault (''list wallet transactions for quote '' @ charge_id))
      | Inr txs \<Rightarrow>
          (let ys = concat (map wt_ys (filter (\<lambda>t. wt_quote_id t = Some charge_id) txs))
           in if ys = [] then Inr (0, False)
              else (case wl_get_proofs_by_ys wallet ys w of
                 Inl e \<Rightarrow> Inl (Settle_fault (''read proofs for quote '' @ charge_id))
               | Inr proofs \<Rightarrow> Inr (sum_list (map pi_amount (filter pi_unspent proofs)), True))))"

text \<open>\<open>total_amount\<close> of a proof list fails when the sum leaves 64 bits.\<close>

fun total_amount :: "u64 list \<Rightarrow> u64 option" where
  "total_amount [] = Some 0"
| "total_amount (a # as) = (case total_amount as of None \<Rightarrow> None | Some s \<Rightarrow> checked_add a s)"

definition mark_dirty_then_total :: "bool \<Rightarrow> settle_error + u64 \<Rightarrow> bool \<Rightarrow> (settle_error + u64) \<times> bool" where
  "mark_dirty_then_total notifier summed dirty = (summed, dirty \<or> notifier)"

definition stranded_reason :: "bool \<Rightarrow> string" where
  "stranded_reason found_transaction =
     (if found_transaction then ''issued-but-proofs-not-held (a transaction names the quote)''
      else ''issued-but-proofs-not-held (no wallet transaction records this quote)'')"

definition lightning_issued ::
  "'w cdk_wallet \<Rightarrow> bool \<Rightarrow> sled_io \<Rightarrow> string \<Rightarrow> mint_quote \<Rightarrow> 'w lightning_state
     \<Rightarrow> (settle_error + u64) \<times> 'w lightning_state" where
  "lightning_issued wallet notifier io charge_id quote s =
     (case held_unspent_for_quote wallet charge_id (ln_wallet s) of
        Inl e \<Rightarrow> (Inl e, s)
      | Inr (held, found_transaction) \<Rightarrow>
          if 0 < held then (Inr held, s\<lparr>ln_dirty := ln_dirty s \<or> notifier\<rparr>)
          else (case record_stranded io charge_id (mq_amount_issued quote)
                       (stranded_reason found_transaction) (ln_stranded s) of
             (Inl e, sink) \<Rightarrow> (Inl (Settle_fault ''recording the stranded quote DURABLY FAILED''),
                               s\<lparr>ln_stranded := sink\<rparr>)
           | (Inr _, sink) \<Rightarrow> (Inl (Settle_fault ''ISSUED at the mint but the wallet holds NO proofs''),
                               s\<lparr>ln_stranded := sink\<rparr>)))"

definition lightning_verify_settlement ::
  "'w cdk_wallet \<Rightarrow> bool \<Rightarrow> sled_io \<Rightarrow> string \<Rightarrow> string \<Rightarrow> 'w lightning_state
     \<Rightarrow> (settle_error + u64) \<times> 'w lightning_state" where
  "lightning_verify_settlement wallet notifier io charge_id evidence s =
     (case wl_check_mint_quote_status wallet charge_id (ln_wallet s) of
        (Inl e, w) \<Rightarrow> (Inl (Settle_fault (''check bolt11 mint quote '' @ charge_id)), s\<lparr>ln_wallet := w\<rparr>)
      | (Inr quote, w) \<Rightarrow>
          (let s1 = s\<lparr>ln_wallet := w\<rparr>
           in if mq_state quote = Quote_Issued then lightning_issued wallet notifier io charge_id quote s1
              else (case ensure_quote_paid (mq_state quote) of
                 Inl e \<Rightarrow> (Inl e, s1)
               | Inr _ \<Rightarrow>
                   (case wl_mint wallet charge_id w of
                      (Inl e, w1) \<Rightarrow> (Inl (Settle_fault (''mint bolt11-settled ecash for '' @ charge_id)),
                                       s1\<lparr>ln_wallet := w1\<rparr>)
                    | (Inr proofs, w1) \<Rightarrow>
                        (let summed = (case total_amount proofs of
                               None \<Rightarrow> Inl (Settle_fault (''total the minted proofs for '' @ charge_id))
                             | Some n \<Rightarrow> Inr n);
                             (minted, dirty) = mark_dirty_then_total notifier summed (ln_dirty s1)
                         in (minted, s1\<lparr>ln_wallet := w1, ln_dirty := dirty\<rparr>))))))"

definition lightning_settlement :: "'w cdk_wallet \<Rightarrow> bool \<Rightarrow> sled_io \<Rightarrow> 'w lightning_state settlement_provider" where
  "lightning_settlement wallet notifier io = \<lparr>sp_issue = lightning_issue wallet,
     sp_verify_settlement = lightning_verify_settlement wallet notifier io, sp_method = Lightning\<rparr>"

interpretation lightning: settlement "lightning_settlement wallet notifier io"
  for wallet :: "'w cdk_wallet" and notifier io
  by unfold_locales
    (auto simp: lightning_settlement_def lightning_issue_def split: prod.splits sum.splits)

section \<open>What a settlement pays\<close>

lemma total_amount_sum: "total_amount as = Some n \<Longrightarrow> sum_list as = n"
  by (induction as arbitrary: n) (auto simp: checked_add_Some split: option.splits)

text \<open>The wallet's own book of a minted quote: it is ISSUED, a transaction names it, and the proofs of
  that transaction are in the store, all unspent, with the amounts the mint gave.\<close>

definition books_quote :: "'w cdk_wallet \<Rightarrow> string \<Rightarrow> u64 list \<Rightarrow> 'w \<Rightarrow> bool" where
  "books_quote wallet charge_id amounts w \<longleftrightarrow>
     (\<exists>q txs proofs. wl_check_mint_quote_status wallet charge_id w = (Inr q, w) \<and> mq_state q = Quote_Issued
      \<and> wl_list_incoming wallet w = Inr txs
      \<and> concat (map wt_ys (filter (\<lambda>t. wt_quote_id t = Some charge_id) txs)) \<noteq> []
      \<and> wl_get_proofs_by_ys wallet (concat (map wt_ys (filter (\<lambda>t. wt_quote_id t = Some charge_id) txs))) w
          = Inr proofs
      \<and> list_all pi_unspent proofs \<and> map pi_amount proofs = amounts)"

lemma held_of_books:
  assumes "books_quote wallet charge_id amounts w"
  shows "held_unspent_for_quote wallet charge_id w = Inr (sum_list amounts, True)"
  using assms by (auto simp: books_quote_def held_unspent_for_quote_def Let_def filter_id_conv list_all_iff)

lemma verify_of_books:
  assumes "books_quote wallet charge_id amounts (ln_wallet s)" and "0 < sum_list amounts"
  shows "lightning_verify_settlement wallet notifier io charge_id evidence s =
    (Inr (sum_list amounts), s\<lparr>ln_dirty := ln_dirty s \<or> notifier\<rparr>)"
proof -
  obtain q where q: "wl_check_mint_quote_status wallet charge_id (ln_wallet s) = (Inr q, ln_wallet s)"
    "mq_state q = Quote_Issued"
    using assms(1) by (auto simp: books_quote_def)
  show ?thesis
    using held_of_books [OF assms(1)] assms(2)
    by (simp add: lightning_verify_settlement_def q lightning_issued_def)
qed

text \<open>The outcomes of a verification, by the state the mint reports.\<close>

lemma verify_unpaid:
  assumes "wl_check_mint_quote_status wallet charge_id (ln_wallet s) = (Inr q, w)"
    and "mq_state q = Quote_Unpaid"
  shows "lightning_verify_settlement wallet notifier io charge_id evidence s = (Inl Unpaid, s\<lparr>ln_wallet := w\<rparr>)"
  using assms by (simp add: lightning_verify_settlement_def)

lemma verify_paid:
  assumes "wl_check_mint_quote_status wallet charge_id (ln_wallet s) = (Inr q, w)"
    and "mq_state q = Quote_Paid" and "wl_mint wallet charge_id w = (Inr amounts, w1)"
  shows "lightning_verify_settlement wallet notifier io charge_id evidence s =
    (case total_amount amounts of
       None \<Rightarrow> Inl (Settle_fault (''total the minted proofs for '' @ charge_id)) | Some n \<Rightarrow> Inr n,
     s\<lparr>ln_wallet := w1, ln_dirty := ln_dirty s \<or> notifier\<rparr>)"
  using assms by (simp add: lightning_verify_settlement_def mark_dirty_then_total_def)

lemma verify_stranded:
  assumes "wl_check_mint_quote_status wallet charge_id (ln_wallet s) = (Inr q, w)"
    and "mq_state q = Quote_Issued" and "held_unspent_for_quote wallet charge_id w = Inr (0, found)"
    and "tree_ok (ln_stranded s)"
  shows "\<exists>e s'. lightning_verify_settlement wallet notifier Io_ok charge_id evidence s = (Inl (Settle_fault e), s')
     \<and> ln_wallet s' = w \<and> ln_dirty s' = ln_dirty s
     \<and> stranded_get charge_id (ln_stranded s') =
         Some \<lparr>sr_quote_id = charge_id, sr_amount_issued = mq_amount_issued q, sr_reason = stranded_reason found\<rparr>
     \<and> (\<forall>j. j \<noteq> charge_id \<longrightarrow> stranded_get j (ln_stranded s') = stranded_get j (ln_stranded s))"
  using assms
  by (simp add: lightning_verify_settlement_def lightning_issued_def record_stranded_def stranded_get_def)

text \<open>The results of \<open>k\<close> further verifications of one charge.\<close>

fun retries :: "'w cdk_wallet \<Rightarrow> bool \<Rightarrow> sled_io \<Rightarrow> string \<Rightarrow> string \<Rightarrow> nat \<Rightarrow> 'w lightning_state
    \<Rightarrow> (settle_error + u64) list \<times> 'w lightning_state" where
  "retries wallet notifier io charge_id evidence 0 s = ([], s)"
| "retries wallet notifier io charge_id evidence (Suc k) s =
     (let (r, s1) = lightning_verify_settlement wallet notifier io charge_id evidence s;
          (rs, s2) = retries wallet notifier io charge_id evidence k s1
      in (r # rs, s2))"

text \<open>C34: A Lightning settlement interrupted between the mint and the credit is recovered exactly: once
  a PAID quote has been minted and the wallet's book names its proofs, every later verification of the
  charge, however often it is retried, returns the amount minted without minting again, and the backup
  is marked dirty from the mint on.\<close>

theorem settlement_recovered:
  assumes "wl_check_mint_quote_status wallet charge_id (ln_wallet s) = (Inr q, w)" and "mq_state q = Quote_Paid"
    and "wl_mint wallet charge_id w = (Inr amounts, w1)" and "books_quote wallet charge_id amounts w1"
    and "lightning_verify_settlement wallet True io charge_id evidence s = (Inr n, s1)" and "0 < n"
  shows "n = sum_list amounts \<and> ln_dirty s1
    \<and> retries wallet True io' charge_id evidence' k s1 = (replicate k (Inr n), s1)"
proof (rule conjI3; ((rule impI)+)?)
  have s1: "s1 = s\<lparr>ln_wallet := w1, ln_dirty := True\<rparr>" and t: "total_amount amounts = Some n"
    using assms(5) by (auto simp: verify_paid [OF assms(1-3)] split: option.splits)
  show sum: "n = sum_list amounts" using total_amount_sum [OF t] by simp
  show "ln_dirty s1" by (simp add: s1)
  have "lightning_verify_settlement wallet True io' charge_id evidence' s1 = (Inr n, s1)"
    using verify_of_books [of wallet charge_id amounts s1 True io' evidence'] assms(4,6) sum by (simp add: s1)
  then show "retries wallet True io' charge_id evidence' k s1 = (replicate k (Inr n), s1)"
    by (induction k) simp_all
qed

text \<open>A wallet holding one quote: its state at the mint and the amounts it pays out.\<close>

definition one_quote_wallet :: "u64 list \<Rightarrow> u64 \<Rightarrow> mint_quote_state cdk_wallet" where
  "one_quote_wallet amounts claimed = \<lparr>
     wl_mint_quote = (\<lambda>amount memo st. (Inr \<lparr>mq_id = ''q'', mq_request = ''lnbc'', mq_state = st, mq_amount_issued = 0\<rparr>, st)),
     wl_check_mint_quote_status = (\<lambda>c st. (Inr \<lparr>mq_id = c, mq_request = ''lnbc'', mq_state = st, mq_amount_issued = claimed\<rparr>, st)),
     wl_list_incoming = (\<lambda>st. Inr [\<lparr>wt_quote_id = Some ''q'', wt_ys = [''y'']\<rparr>]),
     wl_get_proofs_by_ys = (\<lambda>ys st. Inr (map (\<lambda>a. \<lparr>pi_amount = a, pi_unspent = True\<rparr>) amounts)),
     wl_mint = (\<lambda>c st. (Inr amounts, Quote_Issued)),
     wl_receive = (\<lambda>ev st. (Inr 0, st))\<rparr>"

lemma one_quote_books: "books_quote (one_quote_wallet amounts claimed) ''q'' amounts Quote_Issued"
  by (simp add: books_quote_def one_quote_wallet_def comp_def list_all_iff)

definition paid_state :: "mint_quote_state lightning_state" where
  "paid_state = \<lparr>ln_wallet = Quote_Paid, ln_stranded = [], ln_dirty = False\<rparr>"

theorem settlement_recovered_witness:
  "\<exists>s1. lightning_verify_settlement (one_quote_wallet [4, 16] 99) True Io_ok ''q'' [] paid_state = (Inr 20, s1)
     \<and> ln_dirty s1
     \<and> retries (one_quote_wallet [4, 16] 99) True Io_ok ''q'' [] 3 s1 = (replicate 3 (Inr 20), s1)"
proof -
  let ?w = "one_quote_wallet [4, 16] 99"
  let ?s1 = "\<lparr>ln_wallet = Quote_Issued, ln_stranded = [], ln_dirty = True\<rparr>"
  have c: "wl_check_mint_quote_status ?w ''q'' (ln_wallet paid_state) =
      (Inr \<lparr>mq_id = ''q'', mq_request = ''lnbc'', mq_state = Quote_Paid, mq_amount_issued = 99\<rparr>, Quote_Paid)"
    and m: "wl_mint ?w ''q'' Quote_Paid = (Inr [4, 16], Quote_Issued)"
    by (simp_all add: one_quote_wallet_def paid_state_def)
  have v: "lightning_verify_settlement ?w True Io_ok ''q'' [] paid_state = (Inr 20, ?s1)"
    by (subst verify_paid [OF c _ m]) (simp_all add: paid_state_def checked_add_def word_le_nat_alt)
  from settlement_recovered [OF c _ m one_quote_books v, where k = 3 and io' = Io_ok and evidence' = "[]"] v
  show ?thesis by (intro exI [of _ ?s1]) simp
qed

text \<open>A wallet whose mint claims another issued amount.\<close>

definition claiming :: "u64 \<Rightarrow> 'w cdk_wallet \<Rightarrow> 'w cdk_wallet" where
  "claiming x wallet = wallet\<lparr>wl_check_mint_quote_status := (\<lambda>c w.
     (case wl_check_mint_quote_status wallet c w of
        (Inl e, w') \<Rightarrow> (Inl e, w') | (Inr q, w') \<Rightarrow> (Inr (q\<lparr>mq_amount_issued := x\<rparr>), w')))\<rparr>"

lemma claiming_frame [simp]:
  "wl_mint (claiming x wallet) = wl_mint wallet"
  "wl_list_incoming (claiming x wallet) = wl_list_incoming wallet"
  "wl_get_proofs_by_ys (claiming x wallet) = wl_get_proofs_by_ys wallet"
  by (simp_all add: claiming_def)

lemma held_claiming [simp]: "held_unspent_for_quote (claiming x wallet) c w = held_unspent_for_quote wallet c w"
  unfolding held_unspent_for_quote_def claiming_frame by (rule refl)

lemma issued_claiming: "lightning_issued (claiming x wallet) notifier io c (q\<lparr>mq_amount_issued := x\<rparr>) s = (r, s1) \<Longrightarrow>
  lightning_issued wallet notifier io c q s = (r', s1') \<Longrightarrow>
    r = r' \<and> ln_wallet s1 = ln_wallet s1' \<and> ln_dirty s1 = ln_dirty s1'"
  by (auto simp: lightning_issued_def record_stranded_def Let_def split: sum.splits sled_io.splits if_splits)

text \<open>C35: No phantom sats: what a Lightning verification answers and what it does to the wallet and the
  backup flag do not depend on the amount the mint claims to have issued, for any wallet; and for a quote
  that is ISSUED while the wallet holds nothing of it, nothing is credited and the claim is durably
  recorded as stranded, every other record kept.\<close>

theorem no_phantom_sats:
  assumes "lightning_verify_settlement wallet notifier io c ev s = (r, s1)"
    and "lightning_verify_settlement (claiming x wallet) notifier io c ev s = (r', s1')"
  shows "(r' = r \<and> ln_wallet s1' = ln_wallet s1 \<and> ln_dirty s1' = ln_dirty s1)
    \<and> (wl_check_mint_quote_status wallet c (ln_wallet s) = (Inr q, w) \<longrightarrow> mq_state q = Quote_Issued
      \<longrightarrow> held_unspent_for_quote wallet c w = Inr (0, found) \<longrightarrow> tree_ok (ln_stranded s) \<longrightarrow> io = Io_ok
      \<longrightarrow> ((\<exists>e. r = Inl (Settle_fault e)) \<and> ln_wallet s1 = w
        \<and> map_option sr_amount_issued (stranded_get c (ln_stranded s1)) = Some (mq_amount_issued q)
        \<and> (\<forall>j. j \<noteq> c \<longrightarrow> stranded_get j (ln_stranded s1) = stranded_get j (ln_stranded s))))"
proof (rule conjI; ((rule impI)+)?)
  show "r' = r \<and> ln_wallet s1' = ln_wallet s1 \<and> ln_dirty s1' = ln_dirty s1"
  proof (cases "wl_check_mint_quote_status wallet c (ln_wallet s)")
    case (Pair res w)
    show ?thesis
    proof (cases res)
      case (Inr q)
      have c: "wl_check_mint_quote_status (claiming x wallet) c (ln_wallet s) = (Inr (q\<lparr>mq_amount_issued := x\<rparr>), w)"
        by (simp add: claiming_def Pair Inr)
      show ?thesis
      proof (cases "mq_state q = Quote_Issued")
        case True
        with assms Pair Inr c show ?thesis
          by (auto simp: lightning_verify_settlement_def Let_def dest: issued_claiming)
      next
        case False
        with Pair Inr c have "lightning_verify_settlement (claiming x wallet) notifier io c ev s =
            lightning_verify_settlement wallet notifier io c ev s"
          unfolding lightning_verify_settlement_def claiming_frame Let_def by simp
        with assms show ?thesis by simp
      qed
    qed (use assms Pair in \<open>auto simp: lightning_verify_settlement_def claiming_def\<close>)
  qed
next
  assume h: "wl_check_mint_quote_status wallet c (ln_wallet s) = (Inr q, w)" "mq_state q = Quote_Issued"
    "held_unspent_for_quote wallet c w = Inr (0, found)" "tree_ok (ln_stranded s)" "io = Io_ok"
  from verify_stranded [OF h(1-4), of notifier ev] assms(1) h(5)
  show "(\<exists>e. r = Inl (Settle_fault e)) \<and> ln_wallet s1 = w
        \<and> map_option sr_amount_issued (stranded_get c (ln_stranded s1)) = Some (mq_amount_issued q)
        \<and> (\<forall>j. j \<noteq> c \<longrightarrow> stranded_get j (ln_stranded s1) = stranded_get j (ln_stranded s))"
    by auto
qed

theorem no_phantom_sats_witness:
  "\<exists>r s1. lightning_verify_settlement (one_quote_wallet [] 99) True Io_ok ''q'' []
        (paid_state\<lparr>ln_wallet := Quote_Issued\<rparr>) = (r, s1)
     \<and> (\<exists>e. r = Inl (Settle_fault e))
     \<and> map_option sr_amount_issued (stranded_get ''q'' (ln_stranded s1)) = Some 99"
proof -
  let ?w = "one_quote_wallet [] 99" let ?s = "paid_state\<lparr>ln_wallet := Quote_Issued\<rparr>"
  obtain r s1 where v: "lightning_verify_settlement ?w True Io_ok ''q'' [] ?s = (r, s1)" by fastforce
  obtain r' s1' where v': "lightning_verify_settlement (claiming 7 ?w) True Io_ok ''q'' [] ?s = (r', s1')"
    by fastforce
  have c: "wl_check_mint_quote_status ?w ''q'' (ln_wallet ?s) =
      (Inr \<lparr>mq_id = ''q'', mq_request = ''lnbc'', mq_state = Quote_Issued, mq_amount_issued = 99\<rparr>, Quote_Issued)"
    and h: "held_unspent_for_quote ?w ''q'' Quote_Issued = Inr (0, True)"
    by (simp_all add: one_quote_wallet_def held_unspent_for_quote_def)
  have "tree_ok (ln_stranded ?s)" by (simp add: paid_state_def)
  from no_phantom_sats [OF v v', THEN conjunct2, rule_format, OF c _ h this refl]
  show ?thesis by (intro exI [of _ r] exI [of _ s1]) (simp add: v)
qed

end
