(* ===== verification/Inbox.thy ===== *)
theory Inbox
  imports Proto
begin

text \<open>
  The bounded inbound queue of \<open>crates/kirby-node/src/nerve.rs\<close>: the typed events waiting for the
  genome's \<open>PollInbox\<close>, the monotonic \<open>inbox_seq\<close>, drop-oldest eviction, the correlation-id dedup
  memory, the acknowledged drain and the long poll. \<open>push_typed\<close> is two steps, as in the code: the
  sequence number is taken from an atomic before the queue's lock is.
\<close>

definition INBOUND_QUEUE_CAP :: nat where "INBOUND_QUEUE_CAP = 1024"
definition INBOUND_DEDUP_CAP :: nat where "INBOUND_DEDUP_CAP = 10000"
definition MAX_INBOUND_PAYLOAD_BYTES :: nat where "MAX_INBOUND_PAYLOAD_BYTES = 65535"
definition NIP90_JOB_REQUEST_KIND_MIN :: u16 where "NIP90_JOB_REQUEST_KIND_MIN = 5000"
definition NIP90_JOB_REQUEST_KIND_MAX :: u16 where "NIP90_JOB_REQUEST_KIND_MAX = 5999"

record seen_ids =
  si_set :: "string set"
  si_order :: "string list"
  si_cap :: nat

definition seen_new :: "nat \<Rightarrow> seen_ids" where
  "seen_new cap = \<lparr>si_set = {}, si_order = [], si_cap = max cap 1\<rparr>"

fun seen_evict :: "nat \<Rightarrow> string set \<Rightarrow> string list \<Rightarrow> string set \<times> string list" where
  "seen_evict cap ids [] = (ids, [])"
| "seen_evict cap ids (old # order) =
     (if length (old # order) \<ge> cap then seen_evict cap (ids - {old}) order else (ids, old # order))"

definition seen_insert :: "string \<Rightarrow> seen_ids \<Rightarrow> bool \<times> seen_ids" where
  "seen_insert i s =
     (if i \<in> si_set s then (False, s)
      else (let (ids, order) = seen_evict (si_cap s) (si_set s) (si_order s)
            in (True, s\<lparr>si_set := insert i ids, si_order := order @ [i]\<rparr>)))"

definition classify_inbound_kind :: "u16 \<Rightarrow> inbound_kind option" where
  "classify_inbound_kind relay_kind =
     (if NIP90_JOB_REQUEST_KIND_MIN \<le> relay_kind \<and> relay_kind \<le> NIP90_JOB_REQUEST_KIND_MAX
      then Some JobRequest else None)"

definition extract_payload :: "inbound_kind \<Rightarrow> string \<Rightarrow> bytes option" where
  "extract_payload kind content =
     (case kind of
        JobRequest \<Rightarrow> if length content > MAX_INBOUND_PAYLOAD_BYTES then None else Some content
      | _ \<Rightarrow> None)"

record inbound_queue =
  iq_events :: "inbound_event list"
  iq_next_seq :: u64
  iq_cap :: nat
  iq_seen :: seen_ids

definition with_capacity :: "nat \<Rightarrow> inbound_queue" where
  "with_capacity cap = \<lparr>iq_events = [], iq_next_seq = 1, iq_cap = max cap 1,
     iq_seen = seen_new INBOUND_DEDUP_CAP\<rparr>"

section \<open>Pushing\<close>

text \<open>\<open>next_seq.fetch_add(1)\<close>, before the lock.\<close>

definition push_take_seq :: "inbound_queue \<Rightarrow> u64 \<times> inbound_queue" where
  "push_take_seq q = (iq_next_seq q, q\<lparr>iq_next_seq := iq_next_seq q + 1\<rparr>)"

fun evict_oldest :: "nat \<Rightarrow> inbound_event list \<Rightarrow> inbound_event list" where
  "evict_oldest cap [] = []"
| "evict_oldest cap (e # es) = (if length (e # es) \<ge> cap then evict_oldest cap es else e # es)"

text \<open>The critical section: evict, then append.\<close>

definition push_append :: "inbound_event \<Rightarrow> inbound_queue \<Rightarrow> inbound_queue" where
  "push_append e q = q\<lparr>iq_events := evict_oldest (iq_cap q) (iq_events q) @ [e]\<rparr>"

definition push_typed ::
  "inbound_kind \<Rightarrow> bytes \<Rightarrow> string \<Rightarrow> u64 \<Rightarrow> string \<Rightarrow> inbound_queue \<Rightarrow> u64 \<times> inbound_queue" where
  "push_typed kind payload source created corr q =
     (let (seq, q1) = push_take_seq q
      in (seq, push_append \<lparr>ie_inbox_seq = seq, ie_kind = inbound_kind_i32 kind, ie_payload = payload,
            ie_source_pubkey = source, ie_created_at = created, ie_correlation_id = corr\<rparr> q1))"

definition push_typed_once ::
  "inbound_kind \<Rightarrow> bytes \<Rightarrow> string \<Rightarrow> u64 \<Rightarrow> string \<Rightarrow> inbound_queue \<Rightarrow> u64 option \<times> inbound_queue" where
  "push_typed_once kind payload source created corr q =
     (if corr \<noteq> '''' then
        (let (fresh, seen) = seen_insert corr (iq_seen q); q1 = q\<lparr>iq_seen := seen\<rparr>
         in if \<not> fresh then (None, q1)
            else (let (seq, q2) = push_typed kind payload source created corr q1 in (Some seq, q2)))
      else (let (seq, q2) = push_typed kind payload source created corr q in (Some seq, q2)))"

text \<open>\<open>verify_and_enqueue\<close> for one relay event: whether its signature verifies is an argument, as
  are the fields of it that are read.\<close>

definition verify_and_enqueue ::
  "bool \<Rightarrow> u16 \<Rightarrow> string \<Rightarrow> string \<Rightarrow> u64 \<Rightarrow> string \<Rightarrow> inbound_queue \<Rightarrow> u64 option \<times> inbound_queue" where
  "verify_and_enqueue verifies relay_kind content pubkey created event_id q =
     (if \<not> verifies then (None, q)
      else case classify_inbound_kind relay_kind of
        None \<Rightarrow> (None, q)
      | Some kind \<Rightarrow>
          (case extract_payload kind content of
             None \<Rightarrow> (None, q)
           | Some payload \<Rightarrow>
               (let (seq, q1) = push_typed kind payload pubkey created event_id q in (Some seq, q1))))"

section \<open>Polling\<close>

definition wanted :: "inbound_kind list \<Rightarrow> inbound_event \<Rightarrow> bool" where
  "wanted want e \<longleftrightarrow> want = [] \<or> list_ex (\<lambda>k. inbound_kind_i32 k = ie_kind e) want"

definition drain_after :: "u64 \<Rightarrow> inbound_kind list \<Rightarrow> inbound_queue \<Rightarrow> inbound_event list \<times> inbound_queue" where
  "drain_after ack want q =
     (let kept = filter (\<lambda>e. ack < ie_inbox_seq e) (iq_events q)
      in (filter (wanted want) kept, q\<lparr>iq_events := kept\<rparr>))"

text \<open>
  The long poll. While it is parked, other tasks change the queue; \<open>wakes\<close> are those changes, one
  per notification. It ends with the deadline's sleep, or with the re-check of the clock.
\<close>

datatype deadline = Slept | Rechecked

fun park :: "u64 \<Rightarrow> inbound_kind list \<Rightarrow> (inbound_queue \<Rightarrow> inbound_queue) list \<Rightarrow> deadline \<Rightarrow> inbound_queue
    \<Rightarrow> inbound_event list \<times> inbound_queue" where
  "park ack want [] Slept q = drain_after ack want q"
| "park ack want [] Rechecked q = ([], q)"
| "park ack want (wake # wakes) d q =
     (let (batch, q1) = drain_after ack want (wake q)
      in if batch \<noteq> [] then (batch, q1) else park ack want wakes d q1)"

definition inbox_poll ::
  "u64 \<Rightarrow> inbound_kind list \<Rightarrow> (inbound_queue \<Rightarrow> inbound_queue) list \<Rightarrow> deadline \<Rightarrow> inbound_queue
     \<Rightarrow> inbound_event list \<times> inbound_queue" where
  "inbox_poll ack want wakes d q =
     (let (first, q1) = drain_after ack want q
      in if first \<noteq> [] then (first, q1) else park ack want wakes d q1)"

definition high_seq :: "inbound_event list \<Rightarrow> u64" where
  "high_seq events = foldr (\<lambda>e m. max (ie_inbox_seq e) m) events 0"

section \<open>Delivery\<close>

text \<open>A genome that polls for everything and acknowledges the highest sequence number it was given.\<close>

datatype inbox_op = Push inbound_kind bytes string u64 string | Poll

fun inbox_run :: "inbox_op list \<Rightarrow> inbound_queue \<times> u64 \<times> inbound_event list
    \<Rightarrow> inbound_queue \<times> u64 \<times> inbound_event list" where
  "inbox_run [] s = s"
| "inbox_run (Push kind payload source created corr # ops) (q, cursor, got) =
     inbox_run ops (snd (push_typed kind payload source created corr q), cursor, got)"
| "inbox_run (Poll # ops) (q, cursor, got) =
     (let (batch, q1) = drain_after cursor [] q
      in inbox_run ops (q1, if batch = [] then cursor else high_seq batch, got @ batch))"

fun pushes :: "inbox_op list \<Rightarrow> nat" where
  "pushes [] = 0"
| "pushes (Push kind payload source created corr # ops) = Suc (pushes ops)"
| "pushes (Poll # ops) = pushes ops"

abbreviation seqs_of :: "inbound_event list \<Rightarrow> nat list" where
  "seqs_of es \<equiv> map (\<lambda>e. unat (ie_inbox_seq e)) es"

definition pending :: "u64 \<Rightarrow> inbound_queue \<Rightarrow> inbound_event list" where
  "pending cursor q = filter (\<lambda>e. cursor < ie_inbox_seq e) (iq_events q)"

definition inbox_ok :: "nat \<Rightarrow> inbound_queue \<times> u64 \<times> inbound_event list \<Rightarrow> bool" where
  "inbox_ok n s = (case s of (q, cursor, got) \<Rightarrow>
     seqs_of (got @ pending cursor q) = [1..<Suc n] \<and> unat (iq_next_seq q) = Suc n
     \<and> unat cursor \<le> n \<and> length (iq_events q) \<le> n)"

lemma evict_short: "length es < cap \<Longrightarrow> evict_oldest cap es = es"
  by (cases es) auto

lemma push_typed_state: "snd (push_typed kind payload source created corr q) =
    q\<lparr>iq_next_seq := iq_next_seq q + 1, iq_events := evict_oldest (iq_cap q) (iq_events q) @
      [\<lparr>ie_inbox_seq = iq_next_seq q, ie_kind = inbound_kind_i32 kind, ie_payload = payload,
        ie_source_pubkey = source, ie_created_at = created, ie_correlation_id = corr\<rparr>]\<rparr>"
  by (simp add: push_typed_def push_take_seq_def push_append_def)

lemma inbox_ok_push:
  assumes "inbox_ok n (q, cursor, got)" and "Suc n \<le> iq_cap q" and "Suc (Suc n) < 2 ^ 64"
  shows "inbox_ok (Suc n) (snd (push_typed kind payload source created corr q), cursor, got)"
proof -
  have len: "length (iq_events q) < iq_cap q" using assms by (simp add: inbox_ok_def)
  have nx: "unat (iq_next_seq q) = Suc n" using assms by (simp add: inbox_ok_def)
  then have "unat (iq_next_seq q + 1) = Suc (Suc n)"
    using assms(3) by (simp add: unat_word_ariths)
  moreover have "cursor < iq_next_seq q" using assms(1) nx by (simp add: inbox_ok_def word_less_nat_alt)
  ultimately show ?thesis
    using assms(1) nx by (auto simp: inbox_ok_def push_typed_state pending_def evict_short [OF len])
qed

lemma high_seq_unat: "unat (high_seq es) = foldr max (seqs_of es) 0"
  by (induction es) (simp_all add: high_seq_def unat_max)

lemma foldr_max_upt: "i < j \<Longrightarrow> foldr max [i..<j] 0 = j - (1::nat)"
proof (induction "j - i" arbitrary: i)
  case (Suc d)
  show ?case
  proof (cases "Suc i < j")
    case True
    with Suc have "foldr max [Suc i..<j] 0 = j - 1" by simp
    with True show ?thesis by (simp add: upt_conv_Cons)
  next
    case False
    with Suc.prems have "j = Suc i" by simp
    then show ?thesis by simp
  qed
qed simp

lemma append_eq_upt: "xs @ ys = [1..<Suc n] \<Longrightarrow> ys \<noteq> [] \<Longrightarrow> ys = [Suc (length xs)..<Suc n] \<and> length xs < n"
proof -
  assume e: "xs @ ys = [1..<Suc n]" and ne: "ys \<noteq> []"
  have "ys = drop (length xs) [1..<Suc n]" unfolding e [symmetric] by simp
  moreover have "length xs + length ys = n" using arg_cong [OF e, of length] by simp
  ultimately show ?thesis using ne by (auto simp: drop_upt simp del: upt_Suc)
qed

lemma inbox_ok_poll:
  assumes "inbox_ok n (q, cursor, got)" and "drain_after cursor [] q = (batch, q1)"
  shows "inbox_ok n (q1, if batch = [] then cursor else high_seq batch, got @ batch) \<and> iq_cap q1 = iq_cap q"
proof -
  have b: "batch = pending cursor q" "q1 = q\<lparr>iq_events := batch\<rparr>"
    using assms(2) by (auto simp: drain_after_def wanted_def pending_def Let_def)
  have len: "length batch \<le> n"
    using assms(1) by (auto simp: b(1) inbox_ok_def pending_def intro: order_trans [OF length_filter_le])
  have seqs: "seqs_of got @ seqs_of batch = [1..<Suc n]" using assms(1) b(1) by (simp add: inbox_ok_def)
  show ?thesis
  proof (cases "batch = []")
    case True
    with assms(1) b show ?thesis by (auto simp: inbox_ok_def pending_def)
  next
    case False
    with append_eq_upt [OF seqs] have bs: "seqs_of batch = [Suc (length got)..<Suc n]" "length got < n" by auto
    then have hi: "unat (high_seq batch) = n"
      by (simp add: high_seq_unat foldr_max_upt del: upt_Suc)
    have "unat (ie_inbox_seq e) \<le> n" if "e \<in> set batch" for e
    proof -
      have "unat (ie_inbox_seq e) \<in> set (seqs_of batch)" using that by auto
      then show ?thesis unfolding bs(1) by auto
    qed
    then have "pending (high_seq batch) q1 = []"
      by (auto simp: pending_def b(2) filter_empty_conv word_less_nat_alt hi not_less)
    with False seqs hi len assms(1) show ?thesis by (simp add: inbox_ok_def b(2) del: upt_Suc)
  qed
qed

lemma inbox_run_ok:
  assumes "inbox_ok n (q, cursor, got)" and "n + pushes ops \<le> iq_cap q" and "Suc (n + pushes ops) < 2 ^ 64"
  shows "inbox_ok (n + pushes ops) (inbox_run ops (q, cursor, got))"
  using assms
proof (induction ops arbitrary: n q cursor got)
  case (Cons oper ops)
  show ?case
  proof (cases oper)
    case (Push kind payload source created corr)
    let ?q = "snd (push_typed kind payload source created corr q)"
    have "inbox_ok (Suc n) (?q, cursor, got)"
      using Cons.prems by (intro inbox_ok_push) (simp_all add: Push)
    moreover have "iq_cap ?q = iq_cap q" by (simp add: push_typed_state)
    ultimately show ?thesis
      using Cons.IH [of "Suc n" ?q cursor got] Cons.prems by (simp add: Push)
  next
    case Poll
    obtain batch q1 where d: "drain_after cursor [] q = (batch, q1)" by fastforce
    from inbox_ok_poll [OF Cons.prems(1) d] Cons.prems
      Cons.IH [of n q1 "if batch = [] then cursor else high_seq batch" "got @ batch"]
    show ?thesis by (auto simp: Poll d)
  qed
qed simp

text \<open>Exactly-once inbound delivery: as long as no more events are pushed than the queue holds
  and each push completes before the next queue operation, a genome that acknowledges the highest
  sequence number of each batch is given the events numbered from 1 on, in order, each once; what it
  has received followed by what its next poll returns is everything pushed.\<close>

theorem inbound_exactly_once:
  assumes "pushes ops \<le> cap" and "Suc (pushes ops) < 2 ^ 64"
    and "inbox_run ops (with_capacity cap, 0, []) = (q, cursor, got)"
  shows "map (\<lambda>e. unat (ie_inbox_seq e)) (got @ fst (drain_after cursor [] q)) = [1..<Suc (pushes ops)]"
proof -
  have "inbox_ok 0 (with_capacity cap, 0, [])"
    by (simp add: inbox_ok_def with_capacity_def pending_def)
  from inbox_run_ok [OF this, of ops] assms have "inbox_ok (pushes ops) (q, cursor, got)"
    by (simp add: with_capacity_def)
  then show ?thesis
    by (simp add: inbox_ok_def drain_after_def pending_def wanted_def Let_def del: upt_Suc)
qed

theorem inbound_exactly_once_witness:
  "\<exists>q cursor got. inbox_run [Push JobRequest ''x'' [] 0 [], Poll, Push PaymentSettled ''y'' [] 0 []]
       (with_capacity 4, 0, []) = (q, cursor, got)
     \<and> map (\<lambda>e. unat (ie_inbox_seq e)) (got @ fst (drain_after cursor [] q)) = [1, 2]"
proof -
  let ?ops = "[Push JobRequest ''x'' [] 0 [], Poll, Push PaymentSettled ''y'' [] 0 []]"
  obtain q cursor got where r: "inbox_run ?ops (with_capacity 4, 0, []) = (q, cursor, got)"
    using prod_cases3 by blast
  have "map (\<lambda>e. unat (ie_inbox_seq e)) (got @ fst (drain_after cursor [] q)) = [1..<Suc (pushes ?ops)]"
    by (rule inbound_exactly_once [OF _ _ r]) simp_all
  moreover have "[1..<Suc (pushes ?ops)] = [1, 2]" by (simp add: upt_rec)
  ultimately have "map (\<lambda>e. unat (ie_inbox_seq e)) (got @ fst (drain_after cursor [] q)) = [1, 2]"
    by (rule trans)
  then show ?thesis by (intro exI [of _ q] exI [of _ cursor] exI [of _ got] conjI r)
qed

text \<open>Two producers can lose an event: the sequence number is taken before the queue is locked,
  so the producer with the later number may append first; a poll in between acknowledges that
  number, and the earlier event, appended afterwards, is pruned by the next poll, never delivered.\<close>

theorem push_race_loses_event:
  "\<exists>q0 s1 q1 s2 q2 e1 e2 q3 b1 q4 b2 q5.
     q0 = with_capacity 8 \<and> push_take_seq q0 = (s1, q1) \<and> push_take_seq q1 = (s2, q2)
   \<and> e1 = \<lparr>ie_inbox_seq = s1, ie_kind = 3, ie_payload = ''dm'', ie_source_pubkey = [], ie_created_at = 0,
           ie_correlation_id = []\<rparr>
   \<and> e2 = \<lparr>ie_inbox_seq = s2, ie_kind = 4, ie_payload = ''paid'', ie_source_pubkey = [], ie_created_at = 0,
           ie_correlation_id = []\<rparr>
   \<and> q3 = push_append e2 q2 \<and> drain_after 0 [] q3 = (b1, q4) \<and> b1 = [e2]
   \<and> drain_after (high_seq b1) [] (push_append e1 q4) = (b2, q5) \<and> b2 = [] \<and> iq_events q5 = []"
  by (simp add: with_capacity_def push_take_seq_def push_append_def drain_after_def high_seq_def
      wanted_def Let_def)

text \<open>A narrow poll loses what it did not ask for: the acknowledgement of a wanted event prunes every
  queued event with a lower number, also those of kinds the poll did not match.\<close>

lemma narrow_poll_prunes:
  assumes "e \<in> set (iq_events q)" and "ie_inbox_seq e \<le> ack"
  shows "e \<notin> set (fst (drain_after ack want q)) \<and> e \<notin> set (iq_events (snd (drain_after ack want q)))"
  using assms by (auto simp: drain_after_def Let_def)

theorem narrow_poll_loses_event:
  "\<exists>q e b1 q1 b2 q2. q = snd (push_typed DirectMessage ''dm'' [] 0 [] (snd (push_typed JobRequest ''job'' [] 0 []
        (with_capacity 8))))
     \<and> e = hd (iq_events q) \<and> ie_kind e = inbound_kind_i32 JobRequest
     \<and> drain_after 0 [DirectMessage] q = (b1, q1) \<and> e \<in> set (iq_events q1)
     \<and> drain_after (high_seq b1) [] q1 = (b2, q2) \<and> b2 = [] \<and> iq_events q2 = []"
  by (simp add: with_capacity_def push_typed_def push_take_seq_def push_append_def drain_after_def
      high_seq_def wanted_def Let_def)

end
