(* ===== verification/Gateway.thy ===== *)
theory Gateway
  imports Rail Memory_Store Settlement Lease Inbox Treasury_Account
begin

text \<open>
  The node gateway, \<open>crates/kirby-node/src/gateway.rs\<close>: the one handler through which a genome
  spends. The service is split into what is fixed when it is served (\<open>gateway\<close>) and what its
  handlers change (\<open>gateway_state\<close>).

  A handler runs between other tasks. What the model leaves to the environment is in \<open>call_env\<close>:
  the answer of the lease handle, the fate of the debit's transaction, and, for each \<open>await\<close>, the
  treasury operations other tasks commit while the handler is suspended there. Await 0 is the egress
  lock, await 1 the call to the rail, the store or the settlement provider. The prost codecs and
  SHA-256 are arguments.
\<close>

section \<open>The service\<close>

definition MAX_INBOX_WAIT_MS :: u64 where "MAX_INBOX_WAIT_MS = 30000"

record session =
  ss_task_descriptor :: string
  ss_budget_sats :: u64
  ss_allowlisted_destinations :: "string list"
  ss_allowlisted_inbound_kinds :: "inbound_kind list"

record lease_fence =
  lf_agent_id :: agent_id
  lf_vm_term :: u64

record codec =
  cx_enc_charge :: "charge_issued \<Rightarrow> bytes"
  cx_dec_charge :: "bytes \<Rightarrow> charge_issued option"
  cx_enc_memory :: "memory_result \<Rightarrow> bytes"
  cx_dec_memory :: "bytes \<Rightarrow> memory_result option"
  cx_enc_settled :: "string \<Rightarrow> u64 \<Rightarrow> bytes"
  cx_sha256 :: "bytes \<Rightarrow> bytes"

record ('r, 'm, 'w) gateway =
  gw_rail :: "'r rail"
  gw_allowlist :: "string set"
  gw_session :: session
  gw_restore_checkpoint :: "bytes option"
  gw_lease_fence :: "lease_fence option"
  gw_memory :: "'m memory_backend option"
  gw_allowlisted_inbound_kinds :: "inbound_kind list"
  gw_settlement :: "'w settlement_provider option"
  gw_codec :: codec

record ('r, 'm, 'w) gateway_state =
  gs_treasury :: treasury
  gs_rail :: 'r
  gs_memory :: 'm
  gs_settlement :: 'w
  gs_wseq_floor :: u64
  gs_inbox :: "inbound_queue option"
  gs_vm_generation :: u64

record call_env =
  ce_fence_for :: "agent_id \<Rightarrow> u64 \<Rightarrow> fence_verdict"
  ce_io :: sled_io
  ce_awaits :: "nat \<Rightarrow> (sled_io \<times> treasury_op) list"

definition await_point :: "call_env \<Rightarrow> nat \<Rightarrow> ('r, 'm, 'w) gateway_state \<Rightarrow> ('r, 'm, 'w) gateway_state" where
  "await_point env n s = s\<lparr>gs_treasury := apply_ops (ce_awaits env n) (gs_treasury s)\<rparr>"

definition gateway_new :: "codec \<Rightarrow> 'r rail \<Rightarrow> session \<Rightarrow> ('r, 'm, 'w) gateway" where
  "gateway_new codec rail session = \<lparr>gw_rail = rail,
     gw_allowlist = set (ss_allowlisted_destinations session), gw_session = session,
     gw_restore_checkpoint = None, gw_lease_fence = None, gw_memory = None,
     gw_allowlisted_inbound_kinds = ss_allowlisted_inbound_kinds session, gw_settlement = None,
     gw_codec = codec\<rparr>"

definition gateway_state_new :: "treasury \<Rightarrow> 'r \<Rightarrow> 'm \<Rightarrow> 'w \<Rightarrow> ('r, 'm, 'w) gateway_state" where
  "gateway_state_new treasury r m w = \<lparr>gs_treasury = treasury, gs_rail = r, gs_memory = m, gs_settlement = w,
     gs_wseq_floor = 0, gs_inbox = None, gs_vm_generation = 0\<rparr>"

definition with_settlement_provider ::
  "'w settlement_provider \<Rightarrow> ('r, 'm, 'w) gateway \<Rightarrow> ('r, 'm, 'w) gateway" where
  "with_settlement_provider p g = g\<lparr>gw_settlement := Some p\<rparr>"

definition with_lease_fence_for :: "agent_id \<Rightarrow> u64 \<Rightarrow> ('r, 'm, 'w) gateway \<Rightarrow> ('r, 'm, 'w) gateway" where
  "with_lease_fence_for agent_id vm_term g =
     g\<lparr>gw_lease_fence := Some \<lparr>lf_agent_id = agent_id, lf_vm_term = vm_term\<rparr>\<rparr>"

definition with_inbound_queue :: "inbound_queue \<Rightarrow> ('r, 'm, 'w) gateway_state \<Rightarrow> ('r, 'm, 'w) gateway_state" where
  "with_inbound_queue q s = s\<lparr>gs_inbox := Some q\<rparr>"

definition MEM_WRITE_KEY_PREFIX :: string where "MEM_WRITE_KEY_PREFIX = ''mem-write-''"

definition parse_mem_write_seq :: "string \<Rightarrow> u64 option" where
  "parse_mem_write_seq key = Option.bind (strip_prefix MEM_WRITE_KEY_PREFIX key) parse_u64"

text \<open>\<open>m + 1\<close> wraps, as a release build does. A scan that fails leaves the barrier at 0.\<close>

definition wseq_floor_seed :: "sled_io \<Rightarrow> treasury \<Rightarrow> u64" where
  "wseq_floor_seed scan t =
     (case scan of
        Io_ok \<Rightarrow> (case max_idempotency_seq MEM_WRITE_KEY_PREFIX t of None \<Rightarrow> 1 | Some m \<Rightarrow> m + 1)
      | _ \<Rightarrow> 0)"

definition with_memory_backend ::
  "'m memory_backend \<Rightarrow> sled_io \<Rightarrow> ('r, 'm, 'w) gateway \<times> ('r, 'm, 'w) gateway_state
     \<Rightarrow> ('r, 'm, 'w) gateway \<times> ('r, 'm, 'w) gateway_state" where
  "with_memory_backend backend scan gs =
     ((fst gs)\<lparr>gw_memory := Some backend\<rparr>,
      (snd gs)\<lparr>gs_wseq_floor := wseq_floor_seed scan (gs_treasury (snd gs))\<rparr>)"

definition bump_generation :: "('r, 'm, 'w) gateway_state \<Rightarrow> u64 \<times> ('r, 'm, 'w) gateway_state" where
  "bump_generation s = (gs_vm_generation s + 1, s\<lparr>gs_vm_generation := gs_vm_generation s + 1\<rparr>)"

section \<open>Receipts and stored results\<close>

definition receipt ::
  "outcome \<Rightarrow> u64 \<Rightarrow> u64 \<Rightarrow> bytes \<Rightarrow> bytes \<Rightarrow> memory_result option \<Rightarrow> capability_receipt" where
  "receipt oc cost_sats treasury_remaining pf completion mem =
     \<lparr>rc_schema_version = SCHEMA_VERSION, rc_outcome = oc, rc_cost_sats = cost_sats,
      rc_treasury_remaining = treasury_remaining, rc_proof = pf, rc_completion = completion,
      rc_memory = mem, rc_charge = None, rc_http_response = None\<rparr>"

definition denied :: "outcome \<Rightarrow> u64 \<Rightarrow> capability_receipt" where
  "denied oc treasury_remaining = receipt oc 0 treasury_remaining [] [] None"

text \<open>\<open>Ok(denied(outcome, self.balance()?))\<close>.\<close>

definition denied_now ::
  "outcome \<Rightarrow> ('r, 'm, 'w) gateway_state \<Rightarrow> treasury_error + capability_receipt" where
  "denied_now oc s = (case remaining (gs_treasury s) of Inl e \<Rightarrow> Inl e | Inr r \<Rightarrow> Inr (denied oc r))"

definition decode_issued_charge :: "codec \<Rightarrow> bytes \<Rightarrow> charge_issued option" where
  "decode_issued_charge cx pf =
     (case cx_dec_charge cx pf of
        None \<Rightarrow> None
      | Some charge \<Rightarrow>
          (let method_is_wired_rail = (ci_method charge = charge_method_i32 Lightning
                                     \<or> ci_method charge = charge_method_i32 Cashu)
           in if ci_charge_id charge = [] \<or> ci_invoice_or_request charge = [] \<or> \<not> method_is_wired_rail
              then None else Some charge))"

fun decode_charge :: "codec \<Rightarrow> bytes \<Rightarrow> act \<Rightarrow> charge_issued option" where
  "decode_charge cx pf (IssueCharge ic) = decode_issued_charge cx pf"
| "decode_charge cx pf act = None"

definition decode_memory :: "codec \<Rightarrow> bytes \<Rightarrow> memory_result option" where
  "decode_memory cx raw = (if raw = [] then None else cx_dec_memory cx raw)"

text \<open>\<open>u32::to_be_bytes\<close>; an \<open>i32\<close> enum field is reinterpreted as \<open>u32\<close>.\<close>

definition u32_be_bytes :: "32 word \<Rightarrow> bytes" where "u32_be_bytes w = be_digits 4 (unat w)"

definition memory_request_bytes :: "memory_req \<Rightarrow> bytes" where
  "memory_request_bytes m =
     u32_be_bytes (mr_op m) @ to_be_bytes (of_nat (length (mr_slug m))) @ mr_slug m @ mr_value m"

definition memory_request_hash :: "codec \<Rightarrow> memory_req \<Rightarrow> bytes" where
  "memory_request_hash cx m = cx_sha256 cx (memory_request_bytes m)"

definition issue_charge_request_bytes :: "issue_charge \<Rightarrow> bytes" where
  "issue_charge_request_bytes ic =
     to_be_bytes (ic_amount_sats ic) @ to_be_bytes (of_nat (length (ic_memo ic))) @ ic_memo ic
       @ u32_be_bytes (ic_method ic)"

definition issue_charge_request_hash :: "codec \<Rightarrow> issue_charge \<Rightarrow> bytes" where
  "issue_charge_request_hash cx ic = cx_sha256 cx (issue_charge_request_bytes ic)"

fun request_hash_of :: "codec \<Rightarrow> act \<Rightarrow> bytes" where
  "request_hash_of cx (Memory m) = memory_request_hash cx m"
| "request_hash_of cx (IssueCharge ic) = issue_charge_request_hash cx ic"
| "request_hash_of cx act = []"

text \<open>The debug names the memory proofs carry.\<close>

fun show_memory_op :: "memory_op \<Rightarrow> string" where
  "show_memory_op Op_Unspecified = ''Unspecified''"
| "show_memory_op Op_Get = ''Get''"
| "show_memory_op Op_Set = ''Set''"
| "show_memory_op Op_Ls = ''Ls''"
| "show_memory_op Op_Rm = ''Rm''"

fun show_write_status :: "write_status \<Rightarrow> string" where
  "show_write_status Status_Unspecified = ''Unspecified''"
| "show_write_status Stored = ''Stored''"
| "show_write_status Removed = ''Removed''"
| "show_write_status AlreadyAbsent = ''AlreadyAbsent''"
| "show_write_status AlreadyCommitted = ''AlreadyCommitted''"

definition show_bool :: "bool \<Rightarrow> string" where "show_bool b = (if b then ''true'' else ''false'')"

text \<open>The receipt of a key another request performed first.\<close>

definition prior_receipt :: "codec \<Rightarrow> performed_record \<Rightarrow> memory_result option \<Rightarrow> capability_receipt" where
  "prior_receipt cx prior mem =
     receipt DuplicateIgnored (pr_cost_sats prior) (pr_treasury_remaining_after prior)
       (pr_proof prior) (pr_completion prior) mem"

section \<open>The memory act\<close>

definition memory_read ::
  "'m memory_backend \<Rightarrow> call_env \<Rightarrow> memory_req \<Rightarrow> ('r, 'm, 'w) gateway_state
     \<Rightarrow> (treasury_error + capability_receipt) \<times> ('r, 'm, 'w) gateway_state" where
  "memory_read backend env m s =
     (let (res, st) = mb_read backend m (gs_memory s); s1 = await_point env 1 (s\<lparr>gs_memory := st\<rparr>)
      in (case res of
            Inr result \<Rightarrow>
              (case remaining (gs_treasury s1) of
                 Inl e \<Rightarrow> Inl e
               | Inr rem \<Rightarrow>
                   Inr (receipt AuthorizedAndPerformed 0 rem
                     (''memory-read:op='' @ show_memory_op (memory_op_of m) @ '':found='' @ show_bool (mm_found result))
                     [] (Some result)))
          | Inl e \<Rightarrow> denied_now UpstreamFailed s1, s1))"

definition memory_write ::
  "codec \<Rightarrow> 'm memory_backend \<Rightarrow> call_env \<Rightarrow> capability_request \<Rightarrow> memory_req \<Rightarrow> ('r, 'm, 'w) gateway_state
     \<Rightarrow> (treasury_error + capability_receipt) \<times> ('r, 'm, 'w) gateway_state" where
  "memory_write cx backend env req m s =
     (let cost = mb_write_cost backend m
      in case remaining (gs_treasury s) of
           Inl e \<Rightarrow> (Inl e, s)
         | Inr rem \<Rightarrow>
             if mr_max_cost_sats m < cost \<or> cr_budget_sats req < cost then (Inr (denied DeniedOverBudget rem), s)
             else if rem < cost then (Inr (denied DeniedInsufficientTreasury rem), s)
             else
               (let (res, st) = mb_write backend m (cr_idempotency_key req) (gs_memory s);
                    s1 = await_point env 1 (s\<lparr>gs_memory := st\<rparr>)
                in case res of
                     Inl e \<Rightarrow> (Inr (denied UpstreamFailed rem), s1)
                   | Inr w \<Rightarrow>
                       (let pf = ''memory-write:op='' @ show_memory_op (memory_op_of m) @ '':status=''
                                   @ show_write_status (mm_write_status (mw_result w));
                            (debit, t) = debit_and_record (ce_io env) (cr_idempotency_key req) cost pf []
                                           (cx_enc_memory cx (mw_result w)) (memory_request_hash cx m) (gs_treasury s1);
                            s2 = s1\<lparr>gs_treasury := t\<rparr>
                        in case debit of
                             Inl e \<Rightarrow> (Inl e, s2)
                           | Inr (Debited cost_sats rem') \<Rightarrow>
                               (Inr (receipt AuthorizedAndPerformed cost_sats rem' pf [] (Some (mw_result w))),
                                case parse_mem_write_seq (cr_idempotency_key req) of
                                  Some wseq \<Rightarrow> s2\<lparr>gs_wseq_floor := max (gs_wseq_floor s2) (wseq + 1)\<rparr>
                                | None \<Rightarrow> s2)
                           | Inr (Debit_Duplicate prior) \<Rightarrow>
                               (Inr (prior_receipt cx prior (decode_memory cx (pr_memory prior))), s2)
                           | Inr (Insufficient rem') \<Rightarrow> (Inr (denied DeniedInsufficientTreasury rem'), s2))))"

definition below_floor :: "capability_request \<Rightarrow> ('r, 'm, 'w) gateway_state \<Rightarrow> bool" where
  "below_floor req s \<longleftrightarrow>
     (case parse_mem_write_seq (cr_idempotency_key req) of Some wseq \<Rightarrow> wseq < gs_wseq_floor s | None \<Rightarrow> False)"

definition authorize_memory ::
  "('r, 'm, 'w) gateway \<Rightarrow> call_env \<Rightarrow> capability_request \<Rightarrow> memory_req \<Rightarrow> ('r, 'm, 'w) gateway_state
     \<Rightarrow> (treasury_error + capability_receipt) \<times> ('r, 'm, 'w) gateway_state" where
  "authorize_memory g env req m s =
     (case gw_memory g of
        None \<Rightarrow> (denied_now UpstreamFailed s, s)
      | Some backend \<Rightarrow>
          (case validate_memory_request m of
             Inl e \<Rightarrow> (denied_now UpstreamFailed s, s)
           | Inr _ \<Rightarrow>
               if is_read_op (memory_op_of m) then memory_read backend env m s
               else if below_floor req s then (denied_now Unspecified s, s)
               else memory_write (gw_codec g) backend env req m s))"

section \<open>The outward act\<close>

text \<open>A fixed cost is reserved before the publish; the publish may still fail.\<close>

definition actuate_fixed ::
  "('r, 'm, 'w) gateway \<Rightarrow> call_env \<Rightarrow> capability_request \<Rightarrow> act \<Rightarrow> u64 \<Rightarrow> ('r, 'm, 'w) gateway_state
     \<Rightarrow> (treasury_error + capability_receipt) \<times> ('r, 'm, 'w) gateway_state" where
  "actuate_fixed g env req act estimate s =
     (let (debit, t) = debit_and_record (ce_io env) (cr_idempotency_key req) estimate [] [] [] [] (gs_treasury s);
          s1 = s\<lparr>gs_treasury := t\<rparr>
      in case debit of
           Inl e \<Rightarrow> (Inl e, s1)
         | Inr (Debit_Duplicate prior) \<Rightarrow> (Inr (prior_receipt (gw_codec g) prior None), s1)
         | Inr (Insufficient rem) \<Rightarrow> (Inr (denied DeniedInsufficientTreasury rem), s1)
         | Inr (Debited cost_sats post_remaining) \<Rightarrow>
             (let (performed, r) = rl_perform (gw_rail g) act estimate (gs_rail s1);
                  s2 = await_point env 1 (s1\<lparr>gs_rail := r\<rparr>)
              in (Inr (case performed of
                         Performed actual_cost pf completion resp \<Rightarrow>
                           receipt AuthorizedAndPerformed cost_sats post_remaining pf [] None
                       | Rail_UpstreamFailed \<Rightarrow> receipt UpstreamFailed cost_sats post_remaining [] [] None),
                  s2)))"

text \<open>A variable cost is debited after the fetch, under the egress lock: await 0 is the lock, after
  which the balance is read again.\<close>

definition actuate_variable ::
  "('r, 'm, 'w) gateway \<Rightarrow> call_env \<Rightarrow> capability_request \<Rightarrow> act \<Rightarrow> u64 \<Rightarrow> ('r, 'm, 'w) gateway_state
     \<Rightarrow> (treasury_error + capability_receipt) \<times> ('r, 'm, 'w) gateway_state" where
  "actuate_variable g env req act estimate s =
     (let s0 = await_point env 0 s
      in case remaining (gs_treasury s0) of
           Inl e \<Rightarrow> (Inl e, s0)
         | Inr rem \<Rightarrow>
             if rem < estimate then (Inr (denied DeniedInsufficientTreasury rem), s0)
             else
               (let (performed, r) = rl_perform (gw_rail g) act estimate (gs_rail s0);
                    s1 = await_point env 1 (s0\<lparr>gs_rail := r\<rparr>)
                in case performed of
                     Rail_UpstreamFailed \<Rightarrow> (Inr (denied UpstreamFailed rem), s1)
                   | Performed actual_cost pf completion resp \<Rightarrow>
                       (let (debit, t) = debit_and_record (ce_io env) (cr_idempotency_key req) actual_cost
                                           pf [] [] [] (gs_treasury s1);
                            s2 = s1\<lparr>gs_treasury := t\<rparr>
                        in (case debit of
                              Inl e \<Rightarrow> Inl e
                            | Inr (Debited cost_sats rem') \<Rightarrow>
                                Inr ((receipt AuthorizedAndPerformed cost_sats rem' pf [] None)\<lparr>rc_http_response := resp\<rparr>)
                            | Inr (Debit_Duplicate prior) \<Rightarrow> Inr (prior_receipt (gw_codec g) prior None)
                            | Inr (Insufficient rem') \<Rightarrow> Inr (denied DeniedInsufficientTreasury rem'), s2))))"

definition authorize_actuate ::
  "('r, 'm, 'w) gateway \<Rightarrow> call_env \<Rightarrow> capability_request \<Rightarrow> act \<Rightarrow> actuate_req \<Rightarrow> ('r, 'm, 'w) gateway_state
     \<Rightarrow> (treasury_error + capability_receipt) \<times> ('r, 'm, 'w) gateway_state" where
  "authorize_actuate g env req act a s =
     (case remaining (gs_treasury s) of
        Inl e \<Rightarrow> (Inl e, s)
      | Inr rem \<Rightarrow>
          (case rl_validate_outward (gw_rail g) act of
             Inl reason \<Rightarrow> (Inr (denied UpstreamFailed rem), s)
           | Inr _ \<Rightarrow>
               (let estimate = rl_estimate (gw_rail g) act
                in if ac_max_cost_sats a < estimate \<or> cr_budget_sats req < estimate
                   then (Inr (denied DeniedOverBudget rem), s)
                   else if rem < estimate then (Inr (denied DeniedInsufficientTreasury rem), s)
                   else if rl_cost_is_exact (gw_rail g) act then actuate_fixed g env req act estimate s
                   else actuate_variable g env req act estimate s)))"

section \<open>The charge\<close>

definition method_tag :: "charge_method \<Rightarrow> charge_method_tag" where
  "method_tag m = (if m = Lightning then Tag_Lightning else Tag_Cashu)"

definition authorize_issue_charge ::
  "('r, 'm, 'w) gateway \<Rightarrow> call_env \<Rightarrow> capability_request \<Rightarrow> issue_charge \<Rightarrow> ('r, 'm, 'w) gateway_state
     \<Rightarrow> (treasury_error + capability_receipt) \<times> ('r, 'm, 'w) gateway_state" where
  "authorize_issue_charge g env req ic s =
     (case gw_settlement g of
        None \<Rightarrow> (denied_now UpstreamFailed s, s)
      | Some provider \<Rightarrow>
          if ic_method ic \<noteq> charge_method_i32 (sp_method provider) then (denied_now UpstreamFailed s, s)
          else
            (let (res, w) = sp_issue provider (ic_amount_sats ic) (ic_memo ic) (gs_settlement s);
                 s1 = await_point env 1 (s\<lparr>gs_settlement := w\<rparr>)
             in case res of
                  Inl e \<Rightarrow> (denied_now UpstreamFailed s1, s1)
                | Inr issued \<Rightarrow>
                    (let charge = \<lparr>ci_charge_id = cd_charge_id issued,
                                   ci_invoice_or_request = cd_invoice_or_request issued,
                                   ci_amount_sats = cd_amount_sats issued, ci_method = ic_method ic\<rparr>;
                         pf = cx_enc_charge (gw_codec g) charge;
                         (debit, t) = record_charge_atomic (ce_io env) (cr_idempotency_key req)
                                        (ci_charge_id charge) (method_tag (sp_method provider)) pf
                                        (issue_charge_request_hash (gw_codec g) ic) (gs_treasury s1);
                         s2 = s1\<lparr>gs_treasury := t\<rparr>
                     in (case debit of
                           Inl e \<Rightarrow> Inl e
                         | Inr (Debited cost_sats rem) \<Rightarrow>
                             Inr ((receipt AuthorizedAndPerformed 0 rem pf [] None)\<lparr>rc_charge := Some charge\<rparr>)
                         | Inr (Debit_Duplicate prior) \<Rightarrow>
                             Inr ((receipt DuplicateIgnored 0 (pr_treasury_remaining_after prior) (pr_proof prior) [] None)
                                    \<lparr>rc_charge := decode_issued_charge (gw_codec g) (pr_proof prior)\<rparr>)
                         | Inr (Insufficient rem) \<Rightarrow> Inr (denied DeniedInsufficientTreasury rem), s2))))"

section \<open>The authorize order\<close>

text \<open>Steps 3 to 5 of the uniform path.\<close>

definition authorize_uniform ::
  "('r, 'm, 'w) gateway \<Rightarrow> call_env \<Rightarrow> capability_request \<Rightarrow> act \<Rightarrow> ('r, 'm, 'w) gateway_state
     \<Rightarrow> (treasury_error + capability_receipt) \<times> ('r, 'm, 'w) gateway_state" where
  "authorize_uniform g env req act s =
     (let estimate0 = rl_estimate (gw_rail g) act;
          estimate = (case act_max_sats act of Some act_max \<Rightarrow> min estimate0 act_max | None \<Rightarrow> estimate0)
      in case remaining (gs_treasury s) of
           Inl e \<Rightarrow> (Inl e, s)
         | Inr rem \<Rightarrow>
             if cr_budget_sats req < estimate then (Inr (denied DeniedOverBudget rem), s)
             else if rem < estimate then (Inr (denied DeniedInsufficientTreasury rem), s)
             else
               (let (performed, r) = rl_perform (gw_rail g) act estimate (gs_rail s);
                    s1 = await_point env 1 (s\<lparr>gs_rail := r\<rparr>)
                in case performed of
                     Rail_UpstreamFailed \<Rightarrow> (Inr (denied UpstreamFailed rem), s1)
                   | Performed actual_cost pf completion resp \<Rightarrow>
                       (let (debit, t) = debit_and_record (ce_io env) (cr_idempotency_key req) actual_cost
                                           pf completion [] [] (gs_treasury s1);
                            s2 = s1\<lparr>gs_treasury := t\<rparr>
                        in (case debit of
                              Inl e \<Rightarrow> Inl e
                            | Inr (Debited cost_sats rem') \<Rightarrow>
                                Inr (receipt AuthorizedAndPerformed cost_sats rem' pf completion None)
                            | Inr (Debit_Duplicate prior) \<Rightarrow>
                                Inr (prior_receipt (gw_codec g) prior (decode_memory (gw_codec g) (pr_memory prior)))
                            | Inr (Insufficient rem') \<Rightarrow> Inr (denied DeniedInsufficientTreasury rem'), s2))))"

text \<open>Step 1 for a key already performed: a diverging memory request is refused, anything else is
  given the stored result.\<close>

definition replay ::
  "('r, 'm, 'w) gateway \<Rightarrow> act \<Rightarrow> performed_record \<Rightarrow> ('r, 'm, 'w) gateway_state \<Rightarrow> treasury_error + capability_receipt" where
  "replay g act prior s =
     (let request_hash = request_hash_of (gw_codec g) act;
          diverges = request_hash \<noteq> [] \<and> pr_request_hash prior \<noteq> [] \<and> request_hash \<noteq> pr_request_hash prior
      in if diverges \<and> (case act of Memory m \<Rightarrow> True | _ \<Rightarrow> False) then denied_now Unspecified s
         else Inr ((prior_receipt (gw_codec g) prior (decode_memory (gw_codec g) (pr_memory prior)))
                     \<lparr>rc_charge := decode_charge (gw_codec g) (pr_proof prior) act\<rparr>))"

definition authorize_act ::
  "('r, 'm, 'w) gateway \<Rightarrow> call_env \<Rightarrow> capability_request \<Rightarrow> act \<Rightarrow> ('r, 'm, 'w) gateway_state
     \<Rightarrow> (treasury_error + capability_receipt) \<times> ('r, 'm, 'w) gateway_state" where
  "authorize_act g env req act s =
     (case lookup (cr_idempotency_key req) (gs_treasury s) of
        Inl e \<Rightarrow> (Inl e, s)
      | Inr (Some prior) \<Rightarrow> (replay g act prior s, s)
      | Inr None \<Rightarrow>
          if destination act \<notin> gw_allowlist g then (denied_now DeniedNotAllowlisted s, s)
          else (case act of
                  Memory m \<Rightarrow> authorize_memory g env req m s
                | Actuate a \<Rightarrow> authorize_actuate g env req act a s
                | IssueCharge ic \<Rightarrow> authorize_issue_charge g env req ic s
                | _ \<Rightarrow> authorize_uniform g env req act s))"

definition fenced_out :: "('r, 'm, 'w) gateway \<Rightarrow> call_env \<Rightarrow> bool" where
  "fenced_out g env \<longleftrightarrow>
     (case gw_lease_fence g of
        None \<Rightarrow> False
      | Some fence \<Rightarrow> \<not> may_act (ce_fence_for env (lf_agent_id fence) (lf_vm_term fence)))"

definition authorize_capability ::
  "('r, 'm, 'w) gateway \<Rightarrow> call_env \<Rightarrow> capability_request \<Rightarrow> ('r, 'm, 'w) gateway_state
     \<Rightarrow> (treasury_error + capability_receipt) \<times> ('r, 'm, 'w) gateway_state" where
  "authorize_capability g env req s =
     (if fenced_out g env then (denied_now DeniedNotActiveLease s, s)
      else case cr_act req of
             None \<Rightarrow> (denied_now Unspecified s, s)
           | Some act \<Rightarrow> authorize_act g env req act s)"

section \<open>Settling a charge\<close>

datatype settle_failure = NoProvider | Settle_treasury treasury_error | Settle_provider settle_error

text \<open>The body \<open>settle_charge\<close> runs under the lock of its charge.\<close>

definition settle_inner ::
  "('r, 'm, 'w) gateway \<Rightarrow> 'w settlement_provider \<Rightarrow> call_env \<Rightarrow> string \<Rightarrow> string \<Rightarrow> ('r, 'm, 'w) gateway_state
     \<Rightarrow> (settle_failure + credit_outcome) \<times> ('r, 'm, 'w) gateway_state" where
  "settle_inner g provider env charge_id evidence s =
     (case credit_lookup charge_id (gs_treasury s) of
        Inl e \<Rightarrow> (Inl (Settle_treasury e), s)
      | Inr (Some prior) \<Rightarrow> (Inr (classify_prior prior), s)
      | Inr None \<Rightarrow>
          (let (res, w) = sp_verify_settlement provider charge_id evidence (gs_settlement s);
               s1 = await_point env 1 (s\<lparr>gs_settlement := w\<rparr>)
           in case res of
                Inl e \<Rightarrow> (Inl (Settle_provider e), s1)
              | Inr verified_sats \<Rightarrow>
                  (let (credit, t) = credit_verified (ce_io env) charge_id verified_sats (gs_treasury s1);
                       s2 = s1\<lparr>gs_treasury := t\<rparr>
                   in case credit of
                        Inl e \<Rightarrow> (Inl (Settle_treasury e), s2)
                      | Inr (Credited amount_sats rem) \<Rightarrow>
                          (Inr (Credited amount_sats rem),
                           case gs_inbox s2 of
                             None \<Rightarrow> s2
                           | Some inbox \<Rightarrow>
                               s2\<lparr>gs_inbox := Some (snd (push_typed PaymentSettled
                                    (cx_enc_settled (gw_codec g) charge_id amount_sats) [] 0 charge_id inbox))\<rparr>)
                      | Inr oc \<Rightarrow> (Inr oc, s2))))"

definition settle_charge ::
  "('r, 'm, 'w) gateway \<Rightarrow> call_env \<Rightarrow> string \<Rightarrow> string \<Rightarrow> ('r, 'm, 'w) gateway_state
     \<Rightarrow> (settle_failure + credit_outcome) \<times> ('r, 'm, 'w) gateway_state" where
  "settle_charge g env charge_id evidence s =
     (case gw_settlement g of
        None \<Rightarrow> (Inl NoProvider, s)
      | Some provider \<Rightarrow> settle_inner g provider env charge_id evidence s)"

text \<open>One poller cycle; the results are kept in order, one per charge of the poll list.\<close>

fun settle_all ::
  "('r, 'm, 'w) gateway \<Rightarrow> (string \<Rightarrow> call_env) \<Rightarrow> string list \<Rightarrow> ('r, 'm, 'w) gateway_state
     \<Rightarrow> (settle_failure + credit_outcome) list \<times> ('r, 'm, 'w) gateway_state" where
  "settle_all g env [] s = ([], s)"
| "settle_all g env (cid # ids) s =
     (let (res, s1) = settle_charge g (env cid) cid [] s; (rest, s2) = settle_all g env ids s1
      in (res # rest, s2))"

definition pending_settlement_sweep ::
  "('r, 'm, 'w) gateway \<Rightarrow> (string \<Rightarrow> call_env) \<Rightarrow> ('r, 'm, 'w) gateway_state
     \<Rightarrow> (settle_failure + credit_outcome) list \<times> ('r, 'm, 'w) gateway_state" where
  "pending_settlement_sweep g env s =
     (if Option.is_none (gw_settlement g) then ([], s)
      else case issued_uncredited_charge_ids (gs_treasury s) of
             Inl e \<Rightarrow> ([], s)
           | Inr ids \<Rightarrow> settle_all g env ids s)"

section \<open>What the genome reads\<close>

record 'f economics_percept =
  ep_treasury_sats :: u64
  ep_income_sats :: u64
  ep_spent_sats :: u64
  ep_rent_sats :: u64
  ep_initial_sats :: u64
  ep_runway_secs :: "u64 option"
  ep_margin_ratio :: "'f option"
  ep_jobs_settled :: u64

definition compose_economics_percept ::
  "(u64 \<Rightarrow> u64 \<Rightarrow> 'f) \<Rightarrow> ('r, 'm, 'w) gateway \<Rightarrow> ('r, 'm, 'w) gateway_state \<Rightarrow> 'f economics_percept option" where
  "compose_economics_percept f64_div g s =
     (if gw_restore_checkpoint g \<noteq> None then None
      else (let initial_sats = ss_budget_sats (gw_session g); rent = rent_sats (gs_treasury s)
            in case economics_snapshot initial_sats rent (gs_treasury s) of
                 Inl e \<Rightarrow> None
               | Inr snap \<Rightarrow>
                   Some \<lparr>ep_treasury_sats = es_remaining_sats snap, ep_income_sats = es_income_sats snap,
                         ep_spent_sats = es_spent_sats snap, ep_rent_sats = rent, ep_initial_sats = initial_sats,
                         ep_runway_secs = runway_secs_hint (gs_treasury s),
                         ep_margin_ratio = margin_ratio f64_div (es_income_sats snap) (es_spent_sats snap) rent,
                         ep_jobs_settled = es_jobs_settled snap\<rparr>))"

record inbox_request =
  ir_want_kinds :: "32 word list"
  ir_ack_seq :: u64
  ir_wait_ms :: u64

definition effective_want :: "inbound_kind list \<Rightarrow> 32 word list \<Rightarrow> inbound_kind list" where
  "effective_want allowlisted want_kinds =
     (if want_kinds = [] then allowlisted
      else filter (\<lambda>k. k \<in> set allowlisted)
             (filter (\<lambda>k. k \<noteq> Inbound_Unspecified) (List.map_filter inbound_kind_try_from want_kinds)))"

definition empty_batch :: inbound_batch where
  "empty_batch = \<lparr>ib_schema_version = SCHEMA_VERSION, ib_events = [], ib_high_seq = 0\<rparr>"

definition clamped_wait_ms :: "inbox_request \<Rightarrow> u64" where
  "clamped_wait_ms req = min (ir_wait_ms req) MAX_INBOX_WAIT_MS"

text \<open>\<open>wakes w\<close> and \<open>d w\<close> say what happens to the queue during a park of at most \<open>w\<close> milliseconds.\<close>

definition poll_inbox ::
  "('r, 'm, 'w) gateway \<Rightarrow> (u64 \<Rightarrow> (inbound_queue \<Rightarrow> inbound_queue) list) \<Rightarrow> (u64 \<Rightarrow> deadline) \<Rightarrow> inbox_request
     \<Rightarrow> ('r, 'm, 'w) gateway_state \<Rightarrow> inbound_batch \<times> ('r, 'm, 'w) gateway_state" where
  "poll_inbox g wakes d req s =
     (let want = effective_want (gw_allowlisted_inbound_kinds g) (ir_want_kinds req)
      in case gs_inbox s of
           None \<Rightarrow> (empty_batch, s)
         | Some queue \<Rightarrow>
             if gw_allowlisted_inbound_kinds g = [] then (empty_batch, s)
             else if ir_want_kinds req \<noteq> [] \<and> want = [] then (empty_batch, s)
             else
               (let wait_ms = clamped_wait_ms req;
                    (events, q) = inbox_poll (ir_ack_seq req) want (wakes wait_ms) (d wait_ms) queue
                in (\<lparr>ib_schema_version = SCHEMA_VERSION, ib_events = events, ib_high_seq = high_seq events\<rparr>,
                    s\<lparr>gs_inbox := Some q\<rparr>)))"

definition firecracker_vsock_listen_path :: "string \<Rightarrow> u32 \<Rightarrow> string" where
  "firecracker_vsock_listen_path uds_base port = uds_base @ ''_'' @ show_word port"

end
