(* ===== verification/Gateway_Account.thy ===== *)
theory Gateway_Account
  imports Gateway Treasury_Props
begin

text \<open>
  What a capability request may do to the treasury, whatever else runs: the operations other tasks
  commit while it waits, and at most one operation of its own, an act or a charge under its own key
  and within its budget. One lemma per handler, then the whole authorize order.
\<close>

fun own_request_op :: "capability_request \<Rightarrow> treasury_op \<Rightarrow> bool" where
  "own_request_op req (Act key cost pf completion mem hash) \<longleftrightarrow>
     key = cr_idempotency_key req \<and> cost \<le> cr_budget_sats req"
| "own_request_op req (Charge key cid tag pf hash) \<longleftrightarrow> key = cr_idempotency_key req"
| "own_request_op req oper \<longleftrightarrow> False"

definition by_request ::
  "capability_request \<Rightarrow> (sled_io \<times> treasury_op) set \<Rightarrow> treasury \<Rightarrow> treasury \<Rightarrow> bool" where
  "by_request req others t t' \<longleftrightarrow>
     (\<exists>pre own post. t' = apply_ops (pre @ own @ post) t \<and> set pre \<union> set post \<subseteq> others
        \<and> length own \<le> 1 \<and> (\<forall>(io, oper) \<in> set own. own_request_op req oper))"

definition others_of :: "call_env \<Rightarrow> (sled_io \<times> treasury_op) set" where
  "others_of env = set (ce_awaits env 0) \<union> set (ce_awaits env 1)"

lemma by_request_none: "set ops \<subseteq> others \<Longrightarrow> by_request req others t (apply_ops ops t)"
  unfolding by_request_def by (intro exI [of _ ops] exI [of _ "[]"]) simp

lemma by_request_same: "by_request req others t t"
  using by_request_none [of "[]" others req t] by simp

lemma by_request_after:
  assumes "set ops \<subseteq> others" and "own_request_op req oper"
  shows "by_request req others t (apply_op io oper (apply_ops ops t))"
  unfolding by_request_def
  by (intro exI [of _ ops] exI [of _ "[(io, oper)]"] exI [of _ "[]"]) (simp add: assms apply_ops_append)

lemma by_request_before:
  assumes "set ops \<subseteq> others" and "own_request_op req oper"
  shows "by_request req others t (apply_ops ops (apply_op io oper t))"
  unfolding by_request_def
  by (intro exI [of _ "[]"] exI [of _ "[(io, oper)]"] exI [of _ ops]) (simp add: assms)

lemma by_request_debit:
  assumes "debit_and_record io key cost pf completion mem hash (apply_ops ops t) = (res, t')"
    and "set ops \<subseteq> others" and "key = cr_idempotency_key req" and "cost \<le> cr_budget_sats req"
  shows "by_request req others t t'"
  using by_request_after [OF assms(2), of req "Act key cost pf completion mem hash" t io] assms by simp

lemma by_request_charge:
  assumes "record_charge_atomic io key cid tag pf hash (apply_ops ops t) = (res, t')"
    and "set ops \<subseteq> others" and "key = cr_idempotency_key req"
  shows "by_request req others t t'"
  using by_request_after [OF assms(2), of req "Charge key cid tag pf hash" t io] assms by simp

lemma by_request_awaits [simp]:
  "by_request req (others_of env) t (apply_ops (ce_awaits env 0) t)"
  "by_request req (others_of env) t (apply_ops (ce_awaits env (Suc 0)) t)"
  "by_request req (others_of env) t (apply_ops (ce_awaits env (Suc 0)) (apply_ops (ce_awaits env 0) t))"
  using by_request_none [of "ce_awaits env 0" "others_of env" req t]
    by_request_none [of "ce_awaits env 1" "others_of env" req t]
    by_request_none [of "ce_awaits env 0 @ ce_awaits env 1" "others_of env" req t]
  by (simp_all add: others_of_def apply_ops_append)

lemma by_request_debit1:
  assumes "debit_and_record io (cr_idempotency_key req) cost pf completion mem hash
      (apply_ops (ce_awaits env (Suc 0)) t) = (res, t')"
    and "cost \<le> cr_budget_sats req"
  shows "by_request req (others_of env) t t'"
  using by_request_debit [OF assms(1), of "others_of env" req] assms(2) by (simp add: others_of_def)

lemma by_request_debit01:
  assumes "debit_and_record io (cr_idempotency_key req) cost pf completion mem hash
      (apply_ops (ce_awaits env (Suc 0)) (apply_ops (ce_awaits env 0) t)) = (res, t')"
    and "cost \<le> cr_budget_sats req"
  shows "by_request req (others_of env) t t'"
  using by_request_debit [of io "cr_idempotency_key req" cost pf completion mem hash
      "ce_awaits env 0 @ ce_awaits env (Suc 0)" t res t' "others_of env" req] assms
  by (simp add: others_of_def apply_ops_append)

lemma by_request_charge1:
  assumes "record_charge_atomic io (cr_idempotency_key req) cid tag pf hash
      (apply_ops (ce_awaits env (Suc 0)) t) = (res, t')"
  shows "by_request req (others_of env) t t'"
  using by_request_charge [OF assms, of "others_of env" req] by (simp add: others_of_def)

lemma await_frame [simp]:
  "gs_treasury (await_point env n s) = apply_ops (ce_awaits env n) (gs_treasury s)"
  "gs_rail (await_point env n s) = gs_rail s"
  "gs_memory (await_point env n s) = gs_memory s"
  "gs_settlement (await_point env n s) = gs_settlement s"
  "gs_wseq_floor (await_point env n s) = gs_wseq_floor s"
  "gs_inbox (await_point env n s) = gs_inbox s"
  "gs_vm_generation (await_point env n s) = gs_vm_generation s"
  by (simp_all add: await_point_def)

section \<open>The handlers\<close>

lemma memory_write_by_request:
  assumes "memory_write cx backend env req m s = (r, s')"
  shows "by_request req (others_of env) (gs_treasury s) (gs_treasury s')"
  using assms
  by (auto simp: memory_write_def Let_def by_request_same not_less elim!: by_request_debit1
      split: sum.splits prod.splits if_splits debit_outcome.splits option.splits)

lemma authorize_memory_by_request:
  assumes "authorize_memory g env req m s = (r, s')"
  shows "by_request req (others_of env) (gs_treasury s) (gs_treasury s')"
  using assms
  by (auto simp: authorize_memory_def memory_read_def Let_def by_request_same
      dest: memory_write_by_request split: sum.splits prod.splits if_splits option.splits)

lemma actuate_fixed_by_request:
  assumes "actuate_fixed g env req act estimate s = (r, s')" and "estimate \<le> cr_budget_sats req"
  shows "by_request req (others_of env) (gs_treasury s) (gs_treasury s')"
proof -
  let ?t = "snd (debit_and_record (ce_io env) (cr_idempotency_key req) estimate [] [] [] [] (gs_treasury s))"
  have "by_request req (others_of env) (gs_treasury s) (apply_ops ops ?t)" if "set ops \<subseteq> others_of env" for ops
    using by_request_before [OF that, of req "Act (cr_idempotency_key req) estimate [] [] [] []"
        "gs_treasury s" "ce_io env"] assms(2) by simp
  from this [of "ce_awaits env 1"] this [of "[]"] assms(1) show ?thesis
    by (auto simp: actuate_fixed_def Let_def others_of_def split: sum.splits prod.splits debit_outcome.splits)
qed

lemma actuate_variable_by_request:
  assumes "capped_rail (gw_rail g)"
    and "actuate_variable g env req act estimate s = (r, s')" and "estimate \<le> cr_budget_sats req"
  shows "by_request req (others_of env) (gs_treasury s) (gs_treasury s')"
  using assms(2,3)
  by (auto simp: actuate_variable_def Let_def elim!: by_request_debit01 intro: capped_rail.capped_le [OF assms(1)]
      split: sum.splits prod.splits if_splits debit_outcome.splits rail_outcome.splits)

lemma authorize_actuate_by_request:
  assumes "capped_rail (gw_rail g)" and "authorize_actuate g env req act a s = (r, s')"
  shows "by_request req (others_of env) (gs_treasury s) (gs_treasury s')"
  using assms(2)
  by (auto simp: authorize_actuate_def Let_def by_request_same
      dest: actuate_fixed_by_request actuate_variable_by_request [OF assms(1)]
      split: sum.splits if_splits)

lemma authorize_issue_charge_by_request:
  assumes "authorize_issue_charge g env req ic s = (r, s')"
  shows "by_request req (others_of env) (gs_treasury s) (gs_treasury s')"
  using assms
  by (auto simp: authorize_issue_charge_def Let_def by_request_same elim: by_request_charge1
      split: option.splits sum.splits prod.splits if_splits debit_outcome.splits)

lemma authorize_uniform_by_request:
  assumes "capped_rail (gw_rail g)" and "authorize_uniform g env req act s = (r, s')"
  shows "by_request req (others_of env) (gs_treasury s) (gs_treasury s')"
  using assms(2)
  by (auto simp: authorize_uniform_def Let_def by_request_same not_less elim!: by_request_debit1
      intro: capped_rail.capped_le [OF assms(1)]
      split: sum.splits prod.splits if_splits debit_outcome.splits rail_outcome.splits option.splits)

lemma authorize_by_request:
  assumes "capped_rail (gw_rail g)" and "authorize_capability g env req s = (r, s')"
  shows "by_request req (others_of env) (gs_treasury s) (gs_treasury s')"
  using assms(2)
  by (auto simp: authorize_capability_def authorize_act_def by_request_same
      dest: authorize_memory_by_request authorize_actuate_by_request [OF assms(1)]
        authorize_issue_charge_by_request authorize_uniform_by_request [OF assms(1)]
      split: if_splits option.splits sum.splits act.splits)

end
