(* ===== verification/Gateway_Props.thy ===== *)
theory Gateway_Props
  imports Gateway_Account
begin

text \<open>
  The gateway's promises: what a request may do to the treasury, that a receipt states exactly the
  debit it stands for, that a key is performed once, that a regressed write sequence is refused,
  that a charge is settled once, and what concurrency leaves open.
\<close>

section \<open>The treasury sees one operation per request\<close>

lemma own_op_lowers: "own_request_op req oper \<Longrightarrow> \<not> raises_balance oper"
  by (cases oper) auto

text \<open>C1: A capability request acts on the treasury at most once, whatever runs beside it: the
  balance, ledgers and indexes after the call are those of a history in which the other tasks'
  operations are interleaved with at most one operation of the request, a debit under its own key of
  at most its budget or a charge under its own key. So no request credits anything: if the other
  tasks raise nothing, the balance has not risen.\<close>

theorem request_acts_once:
  assumes "capped_rail (gw_rail g)" and "authorize_capability g env req s = (r, s')"
  shows "(\<exists>pre own post. gs_treasury s' = apply_ops (pre @ own @ post) (gs_treasury s)
      \<and> set pre \<union> set post \<subseteq> set (ce_awaits env 0) \<union> set (ce_awaits env 1)
      \<and> length own \<le> 1 \<and> (\<forall>(io, oper) \<in> set own. own_request_op req oper))
    \<and> (treasury_ok (gs_treasury s) \<longrightarrow>
      (\<forall>(io, oper) \<in> set (ce_awaits env 0) \<union> set (ce_awaits env 1). \<not> raises_balance oper) \<longrightarrow>
      bal (gs_treasury s') \<le> bal (gs_treasury s))"
proof (rule conjI; ((rule impI)+)?)
  from authorize_by_request [OF assms] obtain pre own post where
    h: "gs_treasury s' = apply_ops (pre @ own @ post) (gs_treasury s)"
      "set pre \<union> set post \<subseteq> set (ce_awaits env 0) \<union> set (ce_awaits env 1)"
      "length own \<le> 1" "\<forall>(io, oper) \<in> set own. own_request_op req oper"
    unfolding by_request_def others_of_def by blast
  then show "\<exists>pre own post. gs_treasury s' = apply_ops (pre @ own @ post) (gs_treasury s)
      \<and> set pre \<union> set post \<subseteq> set (ce_awaits env 0) \<union> set (ce_awaits env 1)
      \<and> length own \<le> 1 \<and> (\<forall>(io, oper) \<in> set own. own_request_op req oper)" by blast
  assume ok: "treasury_ok (gs_treasury s)"
    and q: "\<forall>(io, oper) \<in> set (ce_awaits env 0) \<union> set (ce_awaits env 1). \<not> raises_balance oper"
  have "\<not> raises_balance oper" if x: "(io, oper) \<in> set (pre @ own @ post)" for io oper
  proof (cases "(io, oper) \<in> set own")
    case True
    with h(4) show ?thesis by (auto dest: own_op_lowers)
  next
    case False
    with x h(2) have "(io, oper) \<in> set (ce_awaits env 0) \<union> set (ce_awaits env 1)" by auto
    with q show ?thesis by blast
  qed
  then show "bal (gs_treasury s') \<le> bal (gs_treasury s)"
    unfolding h(1) by (intro ops_balance [OF ok]) auto
qed

section \<open>A receipt is its debit\<close>

definition quiet :: "call_env \<Rightarrow> bool" where
  "quiet env \<longleftrightarrow> ce_awaits env 0 = [] \<and> ce_awaits env 1 = []"

lemma quiet_await [simp]: "quiet env \<Longrightarrow> await_point env 0 s = s" "quiet env \<Longrightarrow> await_point env (Suc 0) s = s"
  by (simp_all add: quiet_def await_point_def)

definition accounts :: "capability_request \<Rightarrow> treasury \<Rightarrow> capability_receipt \<Rightarrow> treasury \<Rightarrow> bool" where
  "accounts req t rec t' \<longleftrightarrow>
     (if rc_outcome rec = DuplicateIgnored then t' = t
      else rc_cost_sats rec \<le> cr_budget_sats req
         \<and> unat (bal t') + unat (rc_cost_sats rec) = unat (bal t)
         \<and> rc_treasury_remaining rec = bal t'
         \<and> (rc_outcome rec \<notin> {AuthorizedAndPerformed, UpstreamFailed} \<longrightarrow> t' = t)
         \<and> (t' = t \<or> ledger_record t (cr_idempotency_key req) = None
              \<and> (\<exists>row. ledger_record t' (cr_idempotency_key req) = Some row
                   \<and> pr_cost_sats row = rc_cost_sats rec)))"

lemma debit_Debited:
  assumes "debit_and_record io key cost pf completion mem hash t = (Inr (Debited c n), t')" and "treasury_ok t"
  shows "c = cost \<and> n = bal t' \<and> unat (bal t') + unat cost = unat (bal t)
      \<and> ledger_record t key = None \<and> ledger_record t' key = Some (debited_row cost pf completion mem hash t)"
  using Debited_shape [OF assms(2,1)] by (auto simp: debited_facts [OF assms(2)] unat_sub_exact word_le_nat_alt)

lemma debit_Duplicate:
  assumes "debit_and_record io key cost pf completion mem hash t = (Inr (Debit_Duplicate r), t')" and "treasury_ok t"
  shows "t' = t \<and> ledger_record t key = Some r"
  using assms(1)
  by (cases io) (auto simp: debit_and_record_ok [OF assms(2)] run_txn_def split: option.splits if_splits)

lemma debit_Insufficient:
  assumes "debit_and_record io key cost pf completion mem hash t = (Inr (Insufficient m), t')" and "treasury_ok t"
  shows "m = bal t \<and> t' = t"
  using assms(1)
  by (cases io) (auto simp: debit_and_record_ok [OF assms(2)] run_txn_def split: option.splits if_splits)

lemma charge_Debited:
  assumes "record_charge_atomic io key cid tag pf hash t = (Inr (Debited c n), t')" and "treasury_ok t"
  shows "c = 0 \<and> n = bal t' \<and> bal t' = bal t
      \<and> ledger_record t key = None \<and> ledger_record t' key = Some (debited_row 0 pf [] [] hash t)"
  using assms(1)
  by (cases io) (auto simp: record_charge_atomic_ok [OF assms(2)] run_txn_def debited_facts [OF assms(2)]
      split: option.splits)

lemma charge_Duplicate:
  assumes "record_charge_atomic io key cid tag pf hash t = (Inr (Debit_Duplicate r), t')" and "treasury_ok t"
  shows "t' = t \<and> ledger_record t key = Some r"
  using assms(1)
  by (cases io) (auto simp: record_charge_atomic_ok [OF assms(2)] run_txn_def split: option.splits)

lemma charge_Insufficient:
  assumes "record_charge_atomic io key cid tag pf hash t = (Inr (Insufficient m), t')" and "treasury_ok t"
  shows False
  using assms(1)
  by (cases io) (auto simp: record_charge_atomic_ok [OF assms(2)] run_txn_def split: option.splits)

lemmas debit_outcomes = debit_Debited debit_Duplicate debit_Insufficient
lemmas charge_outcomes = charge_Debited charge_Duplicate charge_Insufficient

lemma receipt_fields [simp]:
  "rc_outcome (receipt oc c n pf cp mem) = oc" "rc_cost_sats (receipt oc c n pf cp mem) = c"
  "rc_treasury_remaining (receipt oc c n pf cp mem) = n"
  "rc_outcome (denied oc n) = oc" "rc_cost_sats (denied oc n) = 0" "rc_treasury_remaining (denied oc n) = n"
  "rc_outcome (prior_receipt cx p mem) = DuplicateIgnored"
  by (simp_all add: receipt_def denied_def prior_receipt_def)

lemma debited_row_cost [simp]: "pr_cost_sats (debited_row cost pf cp mem h t) = cost"
  by (simp add: debited_row_def)

lemma accounts_denied: "oc \<noteq> DuplicateIgnored \<Longrightarrow> treasury_ok (gs_treasury s) \<Longrightarrow>
    denied_now oc s = Inr rec \<Longrightarrow> accounts req (gs_treasury s) rec (gs_treasury s)"
  by (auto simp: denied_now_def remaining_ok accounts_def)

lemma memory_write_accounts:
  assumes "memory_write cx backend env req m s = (Inr rec, s')" and "quiet env" and "treasury_ok (gs_treasury s)"
  shows "accounts req (gs_treasury s) rec (gs_treasury s')"
  using assms
  by (auto simp: memory_write_def Let_def remaining_ok accounts_def not_less dest!: debit_outcomes
      split: sum.splits prod.splits if_splits debit_outcome.splits option.splits)

lemma authorize_memory_accounts:
  assumes "authorize_memory g env req m s = (Inr rec, s')" and "quiet env" and ok: "treasury_ok (gs_treasury s)"
  shows "accounts req (gs_treasury s) rec (gs_treasury s')"
  using assms
  by (auto simp: authorize_memory_def memory_read_def Let_def remaining_ok accounts_def denied_now_def
      dest: memory_write_accounts [unfolded accounts_def]
      split: sum.splits prod.splits if_splits option.splits)

lemma actuate_fixed_accounts:
  assumes "actuate_fixed g env req act estimate s = (Inr rec, s')" and "estimate \<le> cr_budget_sats req"
    and "quiet env" and "treasury_ok (gs_treasury s)"
  shows "accounts req (gs_treasury s) rec (gs_treasury s')"
  using assms
  by (auto simp: actuate_fixed_def Let_def accounts_def dest!: debit_outcomes
      split: sum.splits prod.splits debit_outcome.splits rail_outcome.splits)

lemma actuate_variable_accounts:
  assumes "capped_rail (gw_rail g)" and "actuate_variable g env req act estimate s = (Inr rec, s')"
    and "estimate \<le> cr_budget_sats req" and "quiet env" and "treasury_ok (gs_treasury s)"
  shows "accounts req (gs_treasury s) rec (gs_treasury s')"
  using assms(2-)
  by (auto simp: actuate_variable_def Let_def accounts_def remaining_ok dest!: debit_outcomes
      intro: capped_rail.capped_le [OF assms(1)]
      split: sum.splits prod.splits if_splits debit_outcome.splits rail_outcome.splits)

lemma authorize_actuate_accounts:
  assumes "capped_rail (gw_rail g)" and "authorize_actuate g env req act a s = (Inr rec, s')"
    and "quiet env" and "treasury_ok (gs_treasury s)"
  shows "accounts req (gs_treasury s) rec (gs_treasury s')"
proof -
  have "accounts req (gs_treasury s) (denied oc (bal (gs_treasury s))) (gs_treasury s)"
    if "oc \<noteq> DuplicateIgnored" for oc using that by (simp add: accounts_def)
  with assms(2-) show ?thesis
    by (auto simp: authorize_actuate_def Let_def remaining_ok not_less
        dest: actuate_fixed_accounts actuate_variable_accounts [OF assms(1)]
        split: sum.splits if_splits)
qed

lemma authorize_issue_charge_accounts:
  assumes "authorize_issue_charge g env req ic s = (Inr rec, s')" and "quiet env" and "treasury_ok (gs_treasury s)"
  shows "accounts req (gs_treasury s) rec (gs_treasury s')"
  using assms
  by (auto simp: authorize_issue_charge_def Let_def accounts_def remaining_ok denied_now_def
      dest!: charge_outcomes
      split: option.splits sum.splits prod.splits if_splits debit_outcome.splits)

lemma authorize_uniform_accounts:
  assumes "capped_rail (gw_rail g)" and "authorize_uniform g env req act s = (Inr rec, s')"
    and "quiet env" and "treasury_ok (gs_treasury s)"
  shows "accounts req (gs_treasury s) rec (gs_treasury s')"
proof -
  define estimate where "estimate = (case act_max_sats act of Some m \<Rightarrow> min (rl_estimate (gw_rail g) act) m
      | None \<Rightarrow> rl_estimate (gw_rail g) act)"
  from assms(2-) show ?thesis
    unfolding authorize_uniform_def Let_def estimate_def [symmetric]
    by (auto simp: accounts_def remaining_ok not_less dest!: debit_outcomes
        intro: capped_rail.capped_le [OF assms(1)]
        split: sum.splits prod.splits if_splits debit_outcome.splits rail_outcome.splits)
qed

lemma authorize_act_accounts:
  assumes "capped_rail (gw_rail g)" and "authorize_act g env req act s = (Inr rec, s')"
    and "quiet env" and ok: "treasury_ok (gs_treasury s)"
  shows "accounts req (gs_treasury s) rec (gs_treasury s')"
proof (cases "ledger_record (gs_treasury s) (cr_idempotency_key req)")
  case (Some prior)
  with assms(2) show ?thesis
    by (auto simp: authorize_act_def lookup_ok [OF ok] replay_def Let_def prior_receipt_def accounts_def
        denied_now_def remaining_ok [OF ok] split: if_splits)
next
  case None
  show ?thesis
  proof (cases "destination act \<in> gw_allowlist g")
    case False
    with None assms(2) ok show ?thesis
      by (auto simp: authorize_act_def lookup_ok intro: accounts_denied)
  next
    case True
    with None assms(2-) show ?thesis
      by (auto simp: authorize_act_def lookup_ok
          intro: authorize_memory_accounts authorize_actuate_accounts [OF assms(1)]
            authorize_issue_charge_accounts authorize_uniform_accounts [OF assms(1)]
          split: act.splits)
  qed
qed

text \<open>C2: Every receipt is its debit: when no other task touches the treasury during the call, a
  receipt other than DuplicateIgnored states a cost within the request's budget by exactly which the
  balance went down, and the balance now; a denial changed nothing; a treasury that changed did so by a
  ledger row for this key, which had none, carrying that cost; and DuplicateIgnored changed nothing.\<close>

theorem receipt_is_debit:
  assumes "capped_rail (gw_rail g)" and "authorize_capability g env req s = (Inr rec, s')"
    and "quiet env" and ok: "treasury_ok (gs_treasury s)"
  shows "accounts req (gs_treasury s) rec (gs_treasury s')"
  using assms(2-)
  by (auto simp: authorize_capability_def intro: accounts_denied authorize_act_accounts [OF assms(1)]
      split: if_splits option.splits)

section \<open>A key is performed once\<close>

lemma debit_ok: "debit_and_record io key cost pf completion mem hash t = (res, t') \<Longrightarrow> treasury_ok t \<Longrightarrow> treasury_ok t'"
  using apply_op_ok [of t io "Act key cost pf completion mem hash"] by simp

lemma charge_ok: "record_charge_atomic io key cid tag pf hash t = (res, t') \<Longrightarrow> treasury_ok t \<Longrightarrow> treasury_ok t'"
  using apply_op_ok [of t io "Charge key cid tag pf hash"] by simp

lemma awaits_ok [simp]: "treasury_ok t \<Longrightarrow> treasury_ok (apply_ops ops t)"
  by (rule apply_ops_stable(1))

fun is_actuate :: "act \<Rightarrow> bool" where
  "is_actuate (Actuate a) = True"
| "is_actuate act = False"

fun free_read :: "act \<Rightarrow> bool" where
  "free_read (Memory m) = is_read_op (memory_op_of m)"
| "free_read act = False"

text \<open>The ledger row a performed act leaves. The reservation of a fixed-cost outward act is written
  before its proof is known.\<close>

definition performed_row :: "codec \<Rightarrow> act \<Rightarrow> capability_receipt \<Rightarrow> performed_record \<Rightarrow> bool" where
  "performed_row cx act rec row \<longleftrightarrow> pr_cost_sats row = rc_cost_sats rec
     \<and> (\<not> is_actuate act \<longrightarrow> pr_proof row = rc_proof rec \<and> pr_completion row = rc_completion rec)
     \<and> pr_request_hash row = request_hash_of cx act
     \<and> (\<forall>c. rc_charge rec = Some c \<longrightarrow> pr_proof row = cx_enc_charge cx c)"

lemma memory_write_row:
  assumes "memory_write cx backend env req m s = (Inr rec, s')" and "treasury_ok (gs_treasury s)"
    and "rc_outcome rec = AuthorizedAndPerformed"
  shows "\<exists>row. ledger_record (gs_treasury s') (cr_idempotency_key req) = Some row \<and> performed_row cx (Memory m) rec row"
  using assms
  by (auto simp: memory_write_def Let_def performed_row_def receipt_def debited_row_def denied_def prior_receipt_def
      dest!: debit_Debited
      split: sum.splits prod.splits if_splits debit_outcome.splits option.splits)

lemma authorize_memory_row:
  assumes "authorize_memory g env req m s = (Inr rec, s')" and "treasury_ok (gs_treasury s)"
    and "rc_outcome rec = AuthorizedAndPerformed" and "\<not> is_read_op (memory_op_of m)"
  shows "\<exists>row. ledger_record (gs_treasury s') (cr_idempotency_key req) = Some row
    \<and> performed_row (gw_codec g) (Memory m) rec row"
  using assms
  by (auto simp: authorize_memory_def denied_now_def remaining_ok
      dest: memory_write_row split: sum.splits if_splits option.splits)

lemma reserved_row:
  assumes "debit_and_record io key cost pf completion mem hash t = (Inr (Debited c n), t')" and "treasury_ok t"
  shows "ledger_record (apply_ops ops t') key = Some (debited_row cost pf completion mem hash t) \<and> c = cost"
  using debit_Debited [OF assms] apply_ops_stable(2) [OF debit_ok [OF assms]] by blast

lemma actuate_row:
  assumes "authorize_actuate g env req (Actuate a) a s = (Inr rec, s')" and ok: "treasury_ok (gs_treasury s)"
    and "rc_outcome rec = AuthorizedAndPerformed"
  shows "\<exists>row. ledger_record (gs_treasury s') (cr_idempotency_key req) = Some row
    \<and> performed_row (gw_codec g) (Actuate a) rec row"
proof -
  let ?e = "rl_estimate (gw_rail g) (Actuate a)"
  consider "actuate_fixed g env req (Actuate a) ?e s = (Inr rec, s')"
    | "actuate_variable g env req (Actuate a) ?e s = (Inr rec, s')"
    using assms by (auto simp: authorize_actuate_def Let_def split: sum.splits if_splits)
  then show ?thesis
  proof cases
    case 1
    with assms(3) ok show ?thesis
      by (auto simp: actuate_fixed_def Let_def performed_row_def receipt_def debited_row_def denied_def
          prior_receipt_def dest!: reserved_row [where ops = "ce_awaits env (Suc 0)"]
          split: sum.splits prod.splits debit_outcome.splits rail_outcome.splits)
  next
    case 2
    with assms(3) ok show ?thesis
      by (auto simp: actuate_variable_def Let_def performed_row_def receipt_def debited_row_def denied_def
          prior_receipt_def dest!: debit_Debited
          split: sum.splits prod.splits if_splits debit_outcome.splits rail_outcome.splits)
  qed
qed

lemma issue_charge_row:
  assumes "authorize_issue_charge g env req ic s = (Inr rec, s')" and "treasury_ok (gs_treasury s)"
    and "rc_outcome rec = AuthorizedAndPerformed"
  shows "\<exists>row. ledger_record (gs_treasury s') (cr_idempotency_key req) = Some row
    \<and> performed_row (gw_codec g) (IssueCharge ic) rec row \<and> rc_charge rec \<noteq> None"
  using assms
  by (auto simp: authorize_issue_charge_def Let_def performed_row_def receipt_def debited_row_def denied_def
      denied_now_def dest!: charge_Debited
      split: option.splits sum.splits prod.splits if_splits debit_outcome.splits)

lemma uniform_row:
  assumes "authorize_uniform g env req act s = (Inr rec, s')" and "treasury_ok (gs_treasury s)"
    and "rc_outcome rec = AuthorizedAndPerformed" and "request_hash_of (gw_codec g) act = []"
  shows "\<exists>row. ledger_record (gs_treasury s') (cr_idempotency_key req) = Some row
    \<and> performed_row (gw_codec g) act rec row"
proof -
  define estimate where "estimate = (case act_max_sats act of Some m \<Rightarrow> min (rl_estimate (gw_rail g) act) m
      | None \<Rightarrow> rl_estimate (gw_rail g) act)"
  from assms show ?thesis
    unfolding authorize_uniform_def Let_def estimate_def [symmetric]
    by (auto simp: performed_row_def receipt_def debited_row_def denied_def prior_receipt_def dest!: debit_Debited
        split: sum.splits prod.splits if_splits debit_outcome.splits rail_outcome.splits)
qed

lemma not_fenced_act: "\<not> fenced_out g env \<Longrightarrow> cr_act req = Some act \<Longrightarrow>
    authorize_capability g env req s = authorize_act g env req act s"
  by (simp add: authorize_capability_def)

lemma performed_act:
  assumes "authorize_capability g env req s = (Inr rec, s')" and "rc_outcome rec = AuthorizedAndPerformed"
    and "cr_act req = Some act" and ok: "treasury_ok (gs_treasury s)"
  shows "ledger_record (gs_treasury s) (cr_idempotency_key req) = None \<and> destination act \<in> gw_allowlist g
    \<and> authorize_act g env req act s = (Inr rec, s')"
proof -
  have a: "authorize_act g env req act s = (Inr rec, s')"
    using assms by (auto simp: authorize_capability_def denied_now_def remaining_ok split: if_splits)
  with assms(2) show ?thesis
    by (auto simp: authorize_act_def lookup_ok [OF ok] replay_def Let_def denied_now_def remaining_ok [OF ok]
        prior_receipt_def receipt_def denied_def split: option.splits if_splits)
qed

lemma performed_row_of:
  assumes "authorize_capability g env req s = (Inr rec, s')" and "rc_outcome rec = AuthorizedAndPerformed"
    and "cr_act req = Some act" and ok: "treasury_ok (gs_treasury s)" and "\<not> free_read act"
  shows "\<exists>row. ledger_record (gs_treasury s') (cr_idempotency_key req) = Some row
    \<and> performed_row (gw_codec g) act rec row"
proof -
  from performed_act [OF assms(1-4)] have a: "authorize_act g env req act s = (Inr rec, s')"
    and n: "ledger_record (gs_treasury s) (cr_idempotency_key req) = None"
    and d: "destination act \<in> gw_allowlist g" by auto
  show ?thesis
  proof (cases act)
    case (Memory m)
    with a n d ok assms(2,5) show ?thesis
      by (auto simp: authorize_act_def lookup_ok dest!: authorize_memory_row)
  next
    case (Actuate b)
    with a n d ok assms(2) show ?thesis by (auto simp: authorize_act_def lookup_ok dest!: actuate_row)
  next
    case (IssueCharge ic)
    with a n d ok assms(2) show ?thesis by (auto simp: authorize_act_def lookup_ok dest!: issue_charge_row)
  qed (use a n d ok assms(2) in \<open>auto simp: authorize_act_def lookup_ok dest!: uniform_row\<close>)
qed

lemma replayed:
  assumes "ledger_record (gs_treasury s) (cr_idempotency_key req) = Some row" and "treasury_ok (gs_treasury s)"
    and "\<not> fenced_out g env" and "cr_act req = Some act"
  shows "authorize_capability g env req s = (replay g act row s, s)"
  using assms by (simp add: not_fenced_act authorize_act_def lookup_ok)

lemma authorize_ok:
  assumes "capped_rail (gw_rail g)" and "authorize_capability g env req s = (r, s')" and "treasury_ok (gs_treasury s)"
  shows "treasury_ok (gs_treasury s')"
  using authorize_by_request [OF assms(1,2)] assms(3) unfolding by_request_def by auto

text \<open>C3: A key is performed once: after a request was performed (a free memory read apart), whatever
  the daemon's treasury goes through since, including a restart of the gateway with other seams, a
  request under the same key touches nothing, not the rail, the store, the wallet, the inbox or the
  treasury. It is answered DuplicateIgnored with the first cost, and with the first proof and completion
  unless the act was outward; except that a memory request whose content hash differs from the first
  one's is refused.\<close>

theorem performed_once:
  assumes "authorize_capability g env req s = (Inr rec, s1)" and "rc_outcome rec = AuthorizedAndPerformed"
    and "cr_act req = Some act" and "treasury_ok (gs_treasury s)" and "capped_rail (gw_rail g)"
    and "\<not> free_read act"
    and "gs_treasury s2 = apply_ops ops (gs_treasury s1)" and "gw_codec g' = gw_codec g"
    and "cr_idempotency_key req' = cr_idempotency_key req" and "cr_act req' = Some act'" and "\<not> fenced_out g' env'"
  shows "snd (authorize_capability g' env' req' s2) = s2
    \<and> ((case act' of Memory m' \<Rightarrow> request_hash_of (gw_codec g) act' = request_hash_of (gw_codec g) act | _ \<Rightarrow> True) \<longrightarrow>
      (\<exists>rec'. fst (authorize_capability g' env' req' s2) = Inr rec' \<and> rc_outcome rec' = DuplicateIgnored
        \<and> rc_cost_sats rec' = rc_cost_sats rec
        \<and> (\<not> is_actuate act \<longrightarrow> rc_proof rec' = rc_proof rec \<and> rc_completion rec' = rc_completion rec)))
    \<and> (act' = Memory m' \<longrightarrow> request_hash_of (gw_codec g) act' \<noteq> request_hash_of (gw_codec g) act \<longrightarrow>
      request_hash_of (gw_codec g) act' \<noteq> [] \<longrightarrow> request_hash_of (gw_codec g) act \<noteq> [] \<longrightarrow>
      fst (authorize_capability g' env' req' s2) = Inr (denied Unspecified (bal (gs_treasury s2))))"
proof (rule conjI3; ((rule impI)+)?)
  from performed_row_of [OF assms(1-4,6)] obtain row where
    row: "ledger_record (gs_treasury s1) (cr_idempotency_key req) = Some row" "performed_row (gw_codec g) act rec row"
    by blast
  have ok1: "treasury_ok (gs_treasury s1)" by (rule authorize_ok [OF assms(5,1,4)])
  have r: "authorize_capability g' env' req' s2 = (replay g' act' row s2, s2)"
    using row(1) ok1 assms(7,9) by (intro replayed assms(10,11)) (simp_all add: apply_ops_stable)
  have ok2: "treasury_ok (gs_treasury s2)" using ok1 assms(7) by simp
  show "snd (authorize_capability g' env' req' s2) = s2" by (simp add: r)
  { assume "case act' of Memory m' \<Rightarrow> request_hash_of (gw_codec g) act' = request_hash_of (gw_codec g) act | _ \<Rightarrow> True"
    with row(2) show "\<exists>rec'. fst (authorize_capability g' env' req' s2) = Inr rec' \<and> rc_outcome rec' = DuplicateIgnored
        \<and> rc_cost_sats rec' = rc_cost_sats rec
        \<and> (\<not> is_actuate act \<longrightarrow> rc_proof rec' = rc_proof rec \<and> rc_completion rec' = rc_completion rec)"
      by (auto simp: r replay_def Let_def assms(8) performed_row_def prior_receipt_def receipt_def split: act.splits) }
  { assume "act' = Memory m'" "request_hash_of (gw_codec g) act' \<noteq> request_hash_of (gw_codec g) act"
      "request_hash_of (gw_codec g) act' \<noteq> []" "request_hash_of (gw_codec g) act \<noteq> []"
    with row(2) show "fst (authorize_capability g' env' req' s2) = Inr (denied Unspecified (bal (gs_treasury s2)))"
      by (auto simp: r replay_def Let_def assms(8) performed_row_def denied_now_def remaining_ok [OF ok2]) }
qed

text \<open>The first quote stands: after a charge was issued under a key, a request for a charge under
  that key is answered with that charge, whatever amount, memo and method it now asks for, and issues
  nothing.\<close>

theorem first_quote_stands:
  assumes "authorize_capability g env req s = (Inr rec, s1)" and "rc_outcome rec = AuthorizedAndPerformed"
    and "cr_act req = Some (IssueCharge ic)" and "treasury_ok (gs_treasury s)" and "capped_rail (gw_rail g)"
    and "rc_charge rec = Some c" and "cx_dec_charge (gw_codec g) (cx_enc_charge (gw_codec g) c) = Some c"
    and "ci_charge_id c \<noteq> []" and "ci_invoice_or_request c \<noteq> []"
    and "ci_method c = charge_method_i32 Lightning \<or> ci_method c = charge_method_i32 Cashu"
    and "gs_treasury s2 = apply_ops ops (gs_treasury s1)" and "gw_codec g' = gw_codec g"
    and "cr_idempotency_key req' = cr_idempotency_key req" and "cr_act req' = Some (IssueCharge ic')"
    and "\<not> fenced_out g' env'"
  shows "\<exists>rec'. authorize_capability g' env' req' s2 = (Inr rec', s2) \<and> rc_outcome rec' = DuplicateIgnored
    \<and> rc_charge rec' = Some c \<and> rc_cost_sats rec' = rc_cost_sats rec"
proof -
  from performed_row_of [OF assms(1-4)] obtain row where
    row: "ledger_record (gs_treasury s1) (cr_idempotency_key req) = Some row"
      "performed_row (gw_codec g) (IssueCharge ic) rec row"
    by auto
  have "treasury_ok (gs_treasury s1)" by (rule authorize_ok [OF assms(5,1,4)])
  then have r: "authorize_capability g' env' req' s2 = (replay g' (IssueCharge ic') row s2, s2)"
    using row(1) assms(11,13) by (intro replayed assms(14,15)) (simp_all add: apply_ops_stable)
  have "decode_issued_charge (gw_codec g) (pr_proof row) = Some c"
    using row(2) assms(6-10) by (auto simp: decode_issued_charge_def performed_row_def Let_def)
  with row(2) show ?thesis
    by (auto simp: r replay_def Let_def assms(12) performed_row_def prior_receipt_def receipt_def)
qed

section \<open>The write-sequence barrier\<close>

lemma parse_is_seq_of: "parse_mem_write_seq key = seq_of MEM_WRITE_KEY_PREFIX key"
  by (simp add: parse_mem_write_seq_def seq_of_def)

lemma unat_succ: "w \<noteq> - 1 \<Longrightarrow> unat (w + 1) = unat w + 1" for w :: u64
proof -
  assume "w \<noteq> - 1"
  then have "unat w \<noteq> unat (- 1 :: u64)" using word_unat_eq_iff by blast
  then have "unat w + 1 < 2 ^ LENGTH(64)" using unat_lt_pow [of w] by (simp add: unat_max_word)
  then show ?thesis using unat_add_exact [of w 1] by simp
qed

lemma tkeys_ledger: "treasury_ok t \<Longrightarrow> key \<in> set (tkeys (ledger t)) \<longleftrightarrow> ledger_record t key \<noteq> None"
proof -
  assume ok: "treasury_ok t"
  have "key \<in> set (tkeys (ledger t)) \<longleftrightarrow> tget (ledger t) key \<noteq> None"
    using tget_notin [of "ledger t" key] by (simp add: tkeys_def)
  then show ?thesis by (cases rule: ledger_row_cases [OF ok, of key]) simp_all
qed

text \<open>No key of the ledger carries the last write sequence number, after which the counter wraps.\<close>

definition seqs_bounded :: "treasury \<Rightarrow> bool" where
  "seqs_bounded t \<longleftrightarrow> (\<forall>key n. ledger_record t key \<noteq> None \<longrightarrow> parse_mem_write_seq key = Some n \<longrightarrow> n \<noteq> - 1)"

text \<open>The seeded floor exceeds every write sequence number in the ledger.\<close>

lemma wseq_floor_seed_above:
  assumes "ledger_record t key \<noteq> None" and "parse_mem_write_seq key = Some n"
    and "seqs_bounded t" and "treasury_ok t"
  shows "n < wseq_floor_seed Io_ok t"
proof -
  let ?S = "seqs MEM_WRITE_KEY_PREFIX (tkeys (ledger t))"
  have n: "n \<in> ?S" using assms(1,2) by (auto simp: seqs_def parse_is_seq_of tkeys_ledger [OF assms(4)])
  then have m: "max_idempotency_seq MEM_WRITE_KEY_PREFIX t = Some (Max ?S)"
    by (auto simp: max_idempotency_seq_def max_seq_scan_None)
  have "\<forall>x\<in>?S. x \<noteq> - 1"
    using assms(3) unfolding seqs_def seqs_bounded_def parse_is_seq_of mem_Collect_eq
      bex_simps tkeys_ledger [OF assms(4), symmetric] by blast
  moreover have "Max ?S \<in> ?S" using n by (intro Max_in) auto
  ultimately have "Max ?S \<noteq> - 1" by blast
  from unat_succ [OF this] have "Max ?S < Max ?S + 1" by (simp add: word_less_nat_alt)
  moreover have "n \<le> Max ?S" using n by simp
  ultimately show ?thesis by (auto simp: wseq_floor_seed_def m intro: order_le_less_trans)
qed

text \<open>The calls a gateway serves, one after the other.\<close>

fun serve :: "('r, 'm, 'w) gateway \<Rightarrow> (call_env \<times> capability_request) list \<Rightarrow> ('r, 'm, 'w) gateway_state
    \<Rightarrow> ('r, 'm, 'w) gateway_state" where
  "serve g [] s = s"
| "serve g ((env, req) # calls) s = serve g calls (snd (authorize_capability g env req s))"

lemma actuate_floor: "gs_wseq_floor (snd (authorize_actuate g env req act a s)) = gs_wseq_floor s"
  by (auto simp: authorize_actuate_def actuate_fixed_def actuate_variable_def Let_def case_prod_beta
      split: sum.split debit_outcome.split rail_outcome.split)

lemma issue_charge_floor: "gs_wseq_floor (snd (authorize_issue_charge g env req ic s)) = gs_wseq_floor s"
  by (auto simp: authorize_issue_charge_def Let_def case_prod_beta split: sum.split option.split)

lemma uniform_floor: "gs_wseq_floor (snd (authorize_uniform g env req act s)) = gs_wseq_floor s"
  by (auto simp: authorize_uniform_def Let_def case_prod_beta split: sum.split rail_outcome.split)

lemma memory_floor: "gs_wseq_floor s \<le> gs_wseq_floor (snd (authorize_memory g env req m s))"
  by (auto simp: authorize_memory_def memory_read_def memory_write_def Let_def case_prod_beta
      split: sum.split debit_outcome.split option.split)

lemma authorize_floor: "gs_wseq_floor s \<le> gs_wseq_floor (snd (authorize_capability g env req s))"
  by (auto simp: authorize_capability_def authorize_act_def actuate_floor issue_charge_floor uniform_floor
      memory_floor split: option.split sum.split act.split)

lemma serve_floor: "gs_wseq_floor s \<le> gs_wseq_floor (serve g calls s)"
  by (induction g calls s rule: serve.induct) (auto intro: order_trans [OF authorize_floor])

lemma memory_write_floor:
  assumes "memory_write cx backend env req m s = (Inr rec, s')" and "rc_outcome rec = AuthorizedAndPerformed"
    and "parse_mem_write_seq (cr_idempotency_key req) = Some n" and "n \<noteq> - 1"
  shows "n < gs_wseq_floor s'"
proof -
  have n: "n < n + 1" using unat_succ [OF assms(4)] by (simp add: word_less_nat_alt)
  from assms(1-3) show ?thesis
    by (auto simp: memory_write_def Let_def less_max_iff_disj n
        split: sum.splits prod.splits if_splits debit_outcome.splits)
qed

lemma performed_write_floor:
  assumes "authorize_capability g env req s = (Inr rec, s1)" and "rc_outcome rec = AuthorizedAndPerformed"
    and "cr_act req = Some (Memory m)" and "treasury_ok (gs_treasury s)" and "\<not> is_read_op (memory_op_of m)"
    and "parse_mem_write_seq (cr_idempotency_key req) = Some n" and "n \<noteq> - 1"
  shows "n < gs_wseq_floor s1"
  using performed_act [OF assms(1-4)] assms(2,4-7)
  by (auto simp: authorize_act_def lookup_ok authorize_memory_def denied_now_def remaining_ok
      intro: memory_write_floor split: option.splits sum.splits if_splits)

lemma serve_ok:
  "capped_rail (gw_rail g) \<Longrightarrow> treasury_ok (gs_treasury s) \<Longrightarrow> treasury_ok (gs_treasury (serve g calls s))"
proof (induction g calls s rule: serve.induct)
  case (2 g env req calls s)
  have "treasury_ok (gs_treasury (snd (authorize_capability g env req s)))"
    by (rule authorize_ok [OF 2(2) _ 2(3)]) (rule prod.collapse [symmetric])
  with 2 show ?case by simp
qed simp

lemma by_request_record:
  "by_request req others t t' \<Longrightarrow> treasury_ok t \<Longrightarrow> ledger_record t key = Some row \<Longrightarrow> ledger_record t' key = Some row"
  unfolding by_request_def using apply_ops_stable(2) by blast

lemma serve_record:
  "capped_rail (gw_rail g) \<Longrightarrow> treasury_ok (gs_treasury s) \<Longrightarrow> ledger_record (gs_treasury s) key = Some row \<Longrightarrow>
     ledger_record (gs_treasury (serve g calls s)) key = Some row"
proof (induction g calls s rule: serve.induct)
  case (2 g env req calls s)
  have c: "authorize_capability g env req s = (fst (authorize_capability g env req s), snd (authorize_capability g env req s))"
    by simp
  from 2(1) [OF 2(2) authorize_ok [OF 2(2) c 2(3)] by_request_record [OF authorize_by_request [OF 2(2) c] 2(3,4)]]
  show ?case by simp
qed simp

text \<open>A write below the floor is refused, with no effect.\<close>

lemma below_floor_refused:
  assumes "k < gs_wseq_floor s" and "parse_mem_write_seq (cr_idempotency_key req) = Some k"
    and "ledger_record (gs_treasury s) (cr_idempotency_key req) = None" and ok: "treasury_ok (gs_treasury s)"
    and "cr_act req = Some (Memory m)" and "validate_memory_request m = Inr ()" and "\<not> is_read_op (memory_op_of m)"
    and "MEMORY_DESTINATION \<in> gw_allowlist g" and "gw_memory g \<noteq> None" and "\<not> fenced_out g env"
  shows "authorize_capability g env req s = (Inr (denied Unspecified (bal (gs_treasury s))), s)"
  using assms(1-3,6-9)
  by (auto simp: not_fenced_act [OF assms(10,5)] authorize_act_def lookup_ok [OF ok] authorize_memory_def
      below_floor_def denied_now_def remaining_ok [OF ok])

text \<open>A regressed write sequence is refused: after a write numbered \<open>n\<close> was performed, and
  whatever the gateway has served since, a write under a fresh key numbered \<open>n\<close> or less is refused
  and changes nothing; and so it is by a gateway restarted on that treasury, its floor seeded from the
  ledger.\<close>

theorem regressed_write_refused:
  assumes "authorize_capability g env req s = (Inr rec, s1)" and "rc_outcome rec = AuthorizedAndPerformed"
    and "cr_act req = Some (Memory m)" and "treasury_ok (gs_treasury s)" and "\<not> is_read_op (memory_op_of m)"
    and "parse_mem_write_seq (cr_idempotency_key req) = Some n" and "n \<noteq> - 1" and "capped_rail (gw_rail g)"
    and "s2 = serve g calls s1"
    and "cr_act req' = Some (Memory m')" and "validate_memory_request m' = Inr ()" and "\<not> is_read_op (memory_op_of m')"
    and "parse_mem_write_seq (cr_idempotency_key req') = Some k" and "k \<le> n"
    and "ledger_record (gs_treasury s2) (cr_idempotency_key req') = None"
  shows "(MEMORY_DESTINATION \<in> gw_allowlist g \<longrightarrow> gw_memory g \<noteq> None \<longrightarrow> \<not> fenced_out g env' \<longrightarrow>
      authorize_capability g env' req' s2 = (Inr (denied Unspecified (bal (gs_treasury s2))), s2))
    \<and> (gs_treasury s3 = gs_treasury s2 \<longrightarrow> seqs_bounded (gs_treasury s2) \<longrightarrow>
      with_memory_backend backend Io_ok (g0, s3) = (g', s4) \<longrightarrow>
      MEMORY_DESTINATION \<in> gw_allowlist g' \<longrightarrow> \<not> fenced_out g' env' \<longrightarrow>
      authorize_capability g' env' req' s4 = (Inr (denied Unspecified (bal (gs_treasury s2))), s4))"
proof (rule conjI; ((rule impI)+)?)
  have ok1: "treasury_ok (gs_treasury s1)" by (rule authorize_ok [OF assms(8,1,4)])
  have ok2: "treasury_ok (gs_treasury s2)" using serve_ok [OF assms(8) ok1] assms(9) by simp
  have "n < gs_wseq_floor s2"
    using performed_write_floor [OF assms(1-7)] serve_floor [of s1 g calls] assms(9) by (auto intro: less_le_trans)
  then have k: "k < gs_wseq_floor s2" using assms(14) by (rule le_less_trans [rotated])
  show "MEMORY_DESTINATION \<in> gw_allowlist g \<Longrightarrow> gw_memory g \<noteq> None \<Longrightarrow> \<not> fenced_out g env' \<Longrightarrow>
      authorize_capability g env' req' s2 = (Inr (denied Unspecified (bal (gs_treasury s2))), s2)"
    by (rule below_floor_refused [OF k assms(13,15) ok2 assms(10,11,12)])
  assume h: "gs_treasury s3 = gs_treasury s2" "seqs_bounded (gs_treasury s2)"
    "with_memory_backend backend Io_ok (g0, s3) = (g', s4)" "MEMORY_DESTINATION \<in> gw_allowlist g'" "\<not> fenced_out g' env'"
  from h(3) have s4: "gs_treasury s4 = gs_treasury s2" "gs_wseq_floor s4 = wseq_floor_seed Io_ok (gs_treasury s2)"
    "gw_memory g' \<noteq> None"
    by (auto simp: with_memory_backend_def h(1))
  from performed_row_of [OF assms(1-4)] assms(5) obtain row where
    "ledger_record (gs_treasury s1) (cr_idempotency_key req) = Some row" by auto
  then have "ledger_record (gs_treasury s2) (cr_idempotency_key req) \<noteq> None"
    using serve_record [OF assms(8) ok1] assms(9) by simp
  then have "n < gs_wseq_floor s4" using wseq_floor_seed_above [OF _ assms(6) h(2) ok2] s4(2) by simp
  then have "k < gs_wseq_floor s4" using assms(14) by (rule le_less_trans [rotated])
  then show "authorize_capability g' env' req' s4 = (Inr (denied Unspecified (bal (gs_treasury s2))), s4)"
    using below_floor_refused [of k s4 req' m' g' env'] assms(10-13,15) ok2 s4 h(4,5) by simp
qed

section \<open>Settling once\<close>

lemma settle_prior:
  assumes "credit_record (gs_treasury s) cid = Some r" and "treasury_ok (gs_treasury s)" and "gw_settlement g \<noteq> None"
  shows "settle_charge g env cid ev s = (Inr (classify_prior r), s)"
  using assms by (auto simp: settle_charge_def settle_inner_def credit_lookup_ok)

lemma credit_outcome_row:
  assumes "credit_verified io cid amount t = (Inr oc, t')" and "treasury_ok t"
  shows "credit_record t' cid \<noteq> None
    \<and> (\<forall>a n. oc = Credited a n \<longrightarrow> a = amount \<and> credit_record t cid = None \<and> bal t' = n \<and> unat n = unat (bal t) + unat a)"
  using assms(1)
  by (cases io)
    (auto simp: credit_verified_ok [OF assms(2)] run_txn_def credited_facts [OF assms(2)] write_balance_ok [OF assms(2)]
      credited_facts [OF write_balance_ok [OF assms(2)]] bal_write_balance [OF assms(2)] classify_prior_def
      dest: checked_add_unat split: option.splits if_splits)

lemma settle_cases [consumes 2, case_names prior fresh]:
  assumes "settle_charge g env cid ev s = (Inr oc, s1)" and ok: "treasury_ok (gs_treasury s)"
  obtains (prior) r where "credit_record (gs_treasury s) cid = Some r" "oc = classify_prior r" "s1 = s"
  | (fresh) p amount w io where "gw_settlement g = Some p"
      "credit_record (gs_treasury s) cid = None"
      "sp_verify_settlement p cid ev (gs_settlement s) = (Inr amount, w)"
      "credit_verified io cid amount (apply_ops (ce_awaits env 1) (gs_treasury s)) = (Inr oc, gs_treasury s1)"
      "gs_settlement s1 = w" "gs_rail s1 = gs_rail s" "gs_memory s1 = gs_memory s"
      "gs_inbox s1 = (case oc of Credited a n \<Rightarrow> map_option (\<lambda>q. snd (push_typed PaymentSettled
         (cx_enc_settled (gw_codec g) cid a) [] 0 cid q)) (gs_inbox s) | _ \<Rightarrow> gs_inbox s)"
proof -
  obtain p where p: "gw_settlement g = Some p" using assms(1) by (auto simp: settle_charge_def split: option.splits)
  show thesis
  proof (cases "credit_record (gs_treasury s) cid")
    case (Some r)
    with assms p show thesis
      by (intro prior [of r]) (auto simp: settle_prior)
  next
    case None
    with assms p obtain amount w where v: "sp_verify_settlement p cid ev (gs_settlement s) = (Inr amount, w)"
      by (auto simp: settle_charge_def settle_inner_def credit_lookup_ok Let_def split: prod.splits sum.splits)
    obtain t where c: "credit_verified (ce_io env) cid amount (apply_ops (ce_awaits env 1) (gs_treasury s)) = (Inr oc, t)"
      using assms None p v
      by (auto simp: settle_charge_def settle_inner_def credit_lookup_ok Let_def
          split: prod.splits sum.splits credit_outcome.splits)
    show thesis
    proof (rule fresh [OF p None v, of "ce_io env"])
    qed (use assms None p v c in \<open>auto simp: settle_charge_def settle_inner_def credit_lookup_ok Let_def
          split: credit_outcome.splits option.splits\<close>)
  qed
qed

text \<open>C5: A charge is settled once: when a settle attempt resolved a charge, whatever the treasury goes
  through since and whatever evidence is submitted, no later attempt touches the wallet, the inbox or the
  treasury; it reports the resolution, never a new credit. The one that credited did so with the amount the
  provider verified, raised the balance it found by exactly that, and enqueued exactly one notice with it;
  every other outcome left the inbox alone.\<close>

theorem settled_once:
  assumes "settle_charge g env cid ev s = (Inr oc, s1)" and ok: "treasury_ok (gs_treasury s)"
  shows "(gs_treasury s2 = apply_ops ops (gs_treasury s1) \<longrightarrow> gw_settlement g' \<noteq> None \<longrightarrow>
      (\<exists>r. settle_charge g' env' cid ev' s2 = (Inr (classify_prior r), s2)))
    \<and> (oc = Credited a n \<longrightarrow> ((\<exists>p w. gw_settlement g = Some p
          \<and> sp_verify_settlement p cid ev (gs_settlement s) = (Inr a, w) \<and> gs_settlement s1 = w)
        \<and> unat (bal (gs_treasury s1)) = unat (bal (apply_ops (ce_awaits env 1) (gs_treasury s))) + unat a
        \<and> gs_inbox s1 = map_option (\<lambda>q. snd (push_typed PaymentSettled
            (cx_enc_settled (gw_codec g) cid a) [] 0 cid q)) (gs_inbox s)))
    \<and> ((\<forall>a n. oc \<noteq> Credited a n) \<longrightarrow> gs_inbox s1 = gs_inbox s)"
proof (rule conjI3; ((rule impI)+)?)
  have row: "credit_record (gs_treasury s1) cid \<noteq> None \<and> treasury_ok (gs_treasury s1)"
    using assms
  proof (cases rule: settle_cases)
    case (fresh p amount w io)
    then show ?thesis
      using credit_outcome_row [OF fresh(4)] ok
        apply_op_ok [of "apply_ops (ce_awaits env 1) (gs_treasury s)" io "Credit cid amount"] by simp
  qed (simp add: ok)
  then show "\<exists>r. settle_charge g' env' cid ev' s2 = (Inr (classify_prior r), s2)"
    if "gs_treasury s2 = apply_ops ops (gs_treasury s1)" "gw_settlement g' \<noteq> None"
    using settle_prior [of s2 cid _ g' env' ev'] apply_ops_stable(3) that by fastforce
  show "(\<exists>p w. gw_settlement g = Some p
          \<and> sp_verify_settlement p cid ev (gs_settlement s) = (Inr a, w) \<and> gs_settlement s1 = w)
        \<and> unat (bal (gs_treasury s1)) = unat (bal (apply_ops (ce_awaits env 1) (gs_treasury s))) + unat a
        \<and> gs_inbox s1 = map_option (\<lambda>q. snd (push_typed PaymentSettled
            (cx_enc_settled (gw_codec g) cid a) [] 0 cid q)) (gs_inbox s)" if "oc = Credited a n"
    using assms
  proof (cases rule: settle_cases)
    case (prior r)
    with that show ?thesis by (simp add: classify_prior_def split: if_splits)
  next
    case (fresh p amount w io)
    with that credit_outcome_row [OF fresh(4)] ok show ?thesis by auto
  qed
  show "gs_inbox s1 = gs_inbox s" if "\<forall>a n. oc \<noteq> Credited a n"
    using assms
  proof (cases rule: settle_cases)
    case (fresh p amount w io)
    with that show ?thesis by (cases oc) auto
  qed simp
qed

section \<open>A small gateway\<close>

text \<open>Instances for the witnesses: the mock rail, the stub store, a wallet with one quote, and text
  codecs.\<close>

definition test_codec :: codec where
  "test_codec = \<lparr>cx_enc_charge = (\<lambda>c. ci_charge_id c @ ''|'' @ ci_invoice_or_request c @ ''|'' @ show_word (ci_amount_sats c)),
     cx_dec_charge = (\<lambda>b. case split_char (CHR ''|'') b of
        [i, r, n] \<Rightarrow> map_option (\<lambda>v. \<lparr>ci_charge_id = i, ci_invoice_or_request = r, ci_amount_sats = v, ci_method = 1\<rparr>) (parse_u64 n)
      | _ \<Rightarrow> None),
     cx_enc_memory = mm_content_hash, cx_dec_memory = (\<lambda>b. None),
     cx_enc_settled = (\<lambda>i n. i @ ''='' @ show_word n), cx_sha256 = rev\<rparr>"

definition test_session :: session where
  "test_session = \<lparr>ss_task_descriptor = '''', ss_budget_sats = 50,
     ss_allowlisted_destinations = [''mint'', MEMORY_DESTINATION, ISSUE_CHARGE_DESTINATION],
     ss_allowlisted_inbound_kinds = [DirectMessage, PaymentSettled]\<rparr>"

type_synonym test_gateway = "(mock_state, stub_state, mint_quote_state lightning_state) gateway"
type_synonym test_state = "(mock_state, stub_state, mint_quote_state lightning_state) gateway_state"

definition test_g :: test_gateway where
  "test_g = with_settlement_provider (lightning_settlement (one_quote_wallet [4, 16] 99) True Io_ok)
     ((gateway_new test_codec (mock_rail 0 False) test_session)\<lparr>gw_memory := Some (stub_memory rev 1 False)\<rparr>)"

definition test_s :: test_state where
  "test_s = with_inbound_queue (with_capacity 8)
     ((gateway_state_new (open_temporary 50) \<lparr>mk_perform_calls = 0\<rparr> stub_fresh paid_state)\<lparr>gs_wseq_floor := 1\<rparr>)"

definition calm_env :: call_env where
  "calm_env = \<lparr>ce_fence_for = (\<lambda>a n. Active n), ce_io = Io_ok, ce_awaits = (\<lambda>n. [])\<rparr>"

definition request :: "string \<Rightarrow> act \<Rightarrow> capability_request" where
  "request key act = \<lparr>cr_schema_version = 1, cr_idempotency_key = key, cr_act = Some act, cr_budget_sats = 30\<rparr>"

definition ecash_act :: act where
  "ecash_act = SettleEcash \<lparr>se_mint_id = ''mint'', se_amount = 8, se_recipient_or_quote = ''r''\<rparr>"

definition charge_act :: "u64 \<Rightarrow> act" where
  "charge_act n = IssueCharge \<lparr>ic_amount_sats = n, ic_memo = ''job'', ic_method = 1\<rparr>"

definition write_req :: "string \<Rightarrow> memory_req" where
  "write_req v = \<lparr>mr_op = 2, mr_slug = ''core'', mr_value = v, mr_max_cost_sats = 20\<rparr>"

lemma test_capped: "capped_rail (gw_rail test_g)"
  using mock.capped_rail_axioms by (simp add: test_g_def with_settlement_provider_def gateway_new_def)

lemma test_quiet: "quiet calm_env"
  by (simp add: quiet_def calm_env_def)

lemma test_s_simps [simp]: "gs_treasury test_s = open_temporary 50" "gs_rail test_s = \<lparr>mk_perform_calls = 0\<rparr>"
  "gs_memory test_s = stub_fresh" "gs_settlement test_s = paid_state" "gs_wseq_floor test_s = 1"
  "gs_inbox test_s = Some (with_capacity 8)"
  by (simp_all add: test_s_def with_inbound_queue_def gateway_state_new_def)

lemma test_g_simps [simp]: "gw_rail test_g = mock_rail 0 False" "gw_lease_fence test_g = None"
  "gw_memory test_g = Some (stub_memory rev 1 False)" "gw_codec test_g = test_codec"
  "gw_settlement test_g = Some (lightning_settlement (one_quote_wallet [4, 16] 99) True Io_ok)"
  "gw_allowlist test_g = {''mint'', MEMORY_DESTINATION, ISSUE_CHARGE_DESTINATION}"
  "\<not> fenced_out test_g env" "gw_allowlisted_inbound_kinds test_g = [DirectMessage, PaymentSettled]"
  by (simp_all add: test_g_def with_settlement_provider_def gateway_new_def test_session_def fenced_out_def)

lemma test_req_simps [simp]: "cr_act (request key act) = Some act" "cr_idempotency_key (request key act) = key"
  "cr_budget_sats (request key act) = 30"
  by (simp_all add: request_def)

lemma calm_env_simps [simp]: "ce_io calm_env = Io_ok" "await_point calm_env n s = s" "ce_awaits calm_env n = []"
  by (simp_all add: calm_env_def await_point_def)

lemma open_temporary_empty [simp]: "ledger_record (open_temporary n) key = None" "credit_record (open_temporary n) key = None"
  by (simp_all add: ledger_record_def credit_record_def open_temporary_def fresh_store_def)

lemmas test_run = authorize_capability_def authorize_act_def lookup_ok remaining_ok open_temporary_ok

lemma ecash_paid:
  "\<exists>rec. authorize_capability test_g calm_env (request ''k'' ecash_act) test_s =
      (Inr rec, snd (authorize_capability test_g calm_env (request ''k'' ecash_act) test_s))
    \<and> rc_outcome rec = AuthorizedAndPerformed \<and> rc_cost_sats rec = 8 \<and> rc_treasury_remaining rec = 42"
  by (simp add: test_run ecash_act_def authorize_uniform_def mock_rail_def mock_perform_def Let_def
      saturating_add_def checked_add_def debit_and_record_ok word_le_nat_alt word_less_nat_alt)

lemma write_paid:
  "\<exists>rec. authorize_capability test_g calm_env (request ''mem-write-1'' (Memory (write_req ''v''))) test_s =
      (Inr rec, snd (authorize_capability test_g calm_env (request ''mem-write-1'' (Memory (write_req ''v''))) test_s))
    \<and> rc_outcome rec = AuthorizedAndPerformed"
  by (simp add: test_run write_req_def authorize_memory_def memory_write_def validate_memory_request_def
      is_read_op_def memory_op_of_def memory_op_try_from_def is_valid_slug_def below_floor_def
      MAX_MEMORY_VALUE_BYTES_def stub_memory_def stub_write_cost_def stub_write_def stub_effect_def stub_fresh_def
      div_ceil_def parse_mem_write_seq_def MEM_WRITE_KEY_PREFIX_def parse_u64_def is_digit_def digits_val_def
      digit_val_def Let_def debit_and_record_ok word_le_nat_alt word_less_nat_alt)

lemma charge_paid:
  "\<exists>rec. authorize_capability test_g calm_env (request ''job-1'' (charge_act 20)) test_s =
      (Inr rec, snd (authorize_capability test_g calm_env (request ''job-1'' (charge_act 20)) test_s))
    \<and> rc_outcome rec = AuthorizedAndPerformed
    \<and> rc_charge rec = Some \<lparr>ci_charge_id = ''q'', ci_invoice_or_request = ''lnbc'', ci_amount_sats = 20, ci_method = 1\<rparr>"
  by (simp add: test_run charge_act_def authorize_issue_charge_def lightning_settlement_def lightning_issue_def
      one_quote_wallet_def paid_state_def Let_def record_charge_atomic_ok)

theorem request_acts_once_witness:
  "bal (gs_treasury (snd (authorize_capability test_g calm_env (request ''k'' ecash_act) test_s))) \<le> 50"
proof -
  let ?r = "authorize_capability test_g calm_env (request ''k'' ecash_act) test_s"
  have "?r = (fst ?r, snd ?r)" by simp
  from request_acts_once [OF test_capped this, THEN conjunct2] show ?thesis by (simp add: open_temporary_ok)
qed

theorem receipt_is_debit_witness:
  "\<exists>rec s'. authorize_capability test_g calm_env (request ''k'' ecash_act) test_s = (Inr rec, s')
     \<and> rc_cost_sats rec = 8 \<and> accounts (request ''k'' ecash_act) (open_temporary 50) rec (gs_treasury s')"
proof -
  from ecash_paid obtain rec s' where
    r: "authorize_capability test_g calm_env (request ''k'' ecash_act) test_s = (Inr rec, s')" "rc_cost_sats rec = 8"
    by blast
  from receipt_is_debit [OF test_capped r(1) test_quiet] r show ?thesis by (auto simp: open_temporary_ok)
qed

theorem performed_once_witness:
  "\<exists>s1. snd (authorize_capability test_g calm_env (request ''k'' ecash_act) test_s) = s1
     \<and> snd (authorize_capability test_g calm_env (request ''k'' (charge_act 9)) s1) = s1
     \<and> (\<exists>rec'. fst (authorize_capability test_g calm_env (request ''k'' (charge_act 9)) s1) = Inr rec'
          \<and> rc_outcome rec' = DuplicateIgnored \<and> rc_cost_sats rec' = 8)"
proof -
  let ?r' = "request ''k'' (charge_act 9)"
  from ecash_paid obtain rec s1 where
    r: "authorize_capability test_g calm_env (request ''k'' ecash_act) test_s = (Inr rec, s1)"
      "rc_outcome rec = AuthorizedAndPerformed" "rc_cost_sats rec = 8" by blast
  have a: "cr_act (request ''k'' ecash_act) = Some ecash_act" "treasury_ok (gs_treasury test_s)"
    "\<not> free_read ecash_act" "gs_treasury s1 = apply_ops [] (gs_treasury s1)"
    "cr_idempotency_key ?r' = cr_idempotency_key (request ''k'' ecash_act)" "cr_act ?r' = Some (charge_act 9)"
    "\<not> fenced_out test_g calm_env"
    by (simp_all add: open_temporary_ok ecash_act_def)
  note once = performed_once [OF r(1,2) a(1,2) test_capped a(3,4) refl a(5-7)]
  from once [THEN conjunct1] once [THEN conjunct2, THEN conjunct1] r show ?thesis by (auto simp: charge_act_def)
qed

theorem first_quote_stands_witness:
  "\<exists>s1 rec'. snd (authorize_capability test_g calm_env (request ''job-1'' (charge_act 20)) test_s) = s1
     \<and> authorize_capability test_g calm_env (request ''job-1'' (charge_act 35)) s1 = (Inr rec', s1)
     \<and> map_option ci_amount_sats (rc_charge rec') = Some 20"
proof -
  let ?c = "\<lparr>ci_charge_id = ''q'', ci_invoice_or_request = ''lnbc'', ci_amount_sats = 20, ci_method = 1\<rparr>"
  from charge_paid obtain rec s1 where
    r: "authorize_capability test_g calm_env (request ''job-1'' (charge_act 20)) test_s = (Inr rec, s1)"
      "rc_outcome rec = AuthorizedAndPerformed" "rc_charge rec = Some ?c" by blast
  have codec: "cx_dec_charge (gw_codec test_g) (cx_enc_charge (gw_codec test_g) ?c) = Some ?c"
  proof -
    have "show_word (20 :: u64) = ''20''" by code_simp
    moreover have "parse_u64 ''20'' = Some 20"
      using parse_show_u64 [of 20] calculation by simp
    ultimately show ?thesis by (simp add: test_codec_def)
  qed
  have a: "cr_act (request ''job-1'' (charge_act 20)) = Some (IssueCharge \<lparr>ic_amount_sats = 20, ic_memo = ''job'', ic_method = 1\<rparr>)"
    "cr_act (request ''job-1'' (charge_act 35)) = Some (IssueCharge \<lparr>ic_amount_sats = 35, ic_memo = ''job'', ic_method = 1\<rparr>)"
    "treasury_ok (gs_treasury test_s)" "gs_treasury s1 = apply_ops [] (gs_treasury s1)"
    by (simp_all add: charge_act_def open_temporary_ok)
  from first_quote_stands [OF r(1,2) a(1,3) test_capped r(3) codec _ _ _ a(4) refl _ a(2), of calm_env] r(1)
  show ?thesis by auto
qed

theorem regressed_write_refused_witness:
  "\<exists>s1. snd (authorize_capability test_g calm_env (request ''mem-write-1'' (Memory (write_req ''v''))) test_s) = s1
     \<and> fst (authorize_capability test_g calm_env (request ''mem-write-0'' (Memory (write_req ''w'')))
          (serve test_g [] s1)) = Inr (denied Unspecified (bal (gs_treasury s1)))"
proof -
  let ?r = "request ''mem-write-1'' (Memory (write_req ''v''))" and ?r' = "request ''mem-write-0'' (Memory (write_req ''w''))"
  from write_paid obtain rec s1 where
    r: "authorize_capability test_g calm_env ?r test_s = (Inr rec, s1)" "rc_outcome rec = AuthorizedAndPerformed" by blast
  have w: "\<not> is_read_op (memory_op_of (write_req v))" "validate_memory_request (write_req ''w'') = Inr ()" for v
    by (simp_all add: is_read_op_def write_req_def memory_op_of_def memory_op_try_from_def validate_memory_request_def
        is_valid_slug_def MAX_MEMORY_VALUE_BYTES_def)
  have p: "parse_mem_write_seq (cr_idempotency_key ?r) = Some 1" "parse_mem_write_seq (cr_idempotency_key ?r') = Some 0"
    by (simp_all add: parse_mem_write_seq_def MEM_WRITE_KEY_PREFIX_def parse_u64_def is_digit_def digits_val_def digit_val_def)
  have "ledger_record (gs_treasury (snd (authorize_capability test_g calm_env ?r test_s))) ''mem-write-0'' = None"
    by (simp add: test_run write_req_def authorize_memory_def memory_write_def validate_memory_request_def
        is_read_op_def memory_op_of_def memory_op_try_from_def is_valid_slug_def below_floor_def
        MAX_MEMORY_VALUE_BYTES_def stub_memory_def stub_write_cost_def stub_write_def stub_effect_def stub_fresh_def
        div_ceil_def parse_mem_write_seq_def MEM_WRITE_KEY_PREFIX_def parse_u64_def is_digit_def digits_val_def
        digit_val_def Let_def debit_and_record_ok debited_facts word_le_nat_alt word_less_nat_alt)
  then have n: "ledger_record (gs_treasury (serve test_g [] s1)) (cr_idempotency_key ?r') = None" by (simp add: r(1))
  have a: "cr_act ?r = Some (Memory (write_req ''v''))" "cr_act ?r' = Some (Memory (write_req ''w''))"
    "treasury_ok (gs_treasury test_s)" "(1 :: u64) \<noteq> - 1" "(0 :: u64) \<le> 1"
    by (simp_all add: open_temporary_ok)
  from regressed_write_refused [OF r a(1,3) w(1) p(1) a(4) test_capped refl a(2) w(2,1) p(2) a(5) n, of calm_env,
      THEN conjunct1] r(1)
  show ?thesis by simp
qed

lemma settle_paid:
  "fst (settle_charge test_g calm_env ''q'' [] test_s) = Inr (Credited 20 70)"
proof -
  let ?w = "one_quote_wallet [4, 16] 99"
  have c: "wl_check_mint_quote_status ?w ''q'' (ln_wallet paid_state) =
      (Inr \<lparr>mq_id = ''q'', mq_request = ''lnbc'', mq_state = Quote_Paid, mq_amount_issued = 99\<rparr>, Quote_Paid)"
    and m: "wl_mint ?w ''q'' Quote_Paid = (Inr [4, 16], Quote_Issued)"
    by (simp_all add: one_quote_wallet_def paid_state_def)
  have v: "lightning_verify_settlement ?w True Io_ok ''q'' [] paid_state =
      (Inr 20, \<lparr>ln_wallet = Quote_Issued, ln_stranded = [], ln_dirty = True\<rparr>)"
    by (subst verify_paid [OF c _ m]) (simp_all add: paid_state_def checked_add_def word_le_nat_alt)
  show ?thesis
    by (simp add: settle_charge_def settle_inner_def credit_lookup_ok open_temporary_ok lightning_settlement_def v
        credit_verified_ok checked_add_def word_le_nat_alt Let_def)
qed

theorem settled_once_witness:
  "\<exists>s1 r. settle_charge test_g calm_env ''q'' [] test_s = (Inr (Credited 20 70), s1)
     \<and> settle_charge test_g calm_env ''q'' ''again'' s1 = (Inr (classify_prior r), s1)"
proof -
  obtain s1 where s1: "settle_charge test_g calm_env ''q'' [] test_s = (Inr (Credited 20 70), s1)"
    using settle_paid by (metis prod.collapse)
  have "treasury_ok (gs_treasury test_s)" by (simp add: open_temporary_ok)
  from settled_once [OF s1 this, of s1 "[]" test_g calm_env "''again''", THEN conjunct1] s1 show ?thesis by auto
qed

section \<open>What concurrency and faults leave open\<close>

definition fetch_rail :: "mock_state rail" where
  "fetch_rail = (mock_rail 0 False)\<lparr>rl_cost_is_exact := (\<lambda>a. False)\<rparr>"

definition fetch_act :: act where
  "fetch_act = Actuate \<lparr>ac_kind = ''http.fetch'', ac_payload = [], ac_max_cost_sats = 8\<rparr>"

text \<open>The egress lock does not make the debit of a fetch certain: the rent meter does not take the
  lock, so a tick between the balance check under the lock and the debit leaves a fetch that was
  performed and answered DeniedInsufficientTreasury, paid for by no ledger row.\<close>

theorem fetch_performed_unpaid:
  "\<exists>(g :: test_gateway) env req (s :: test_state) rec s'. capped_rail (gw_rail g)
     \<and> ce_awaits env 0 = [] \<and> ce_awaits env 1 = [(Io_ok, Meter 5)]
     \<and> authorize_capability g env req s = (Inr rec, s') \<and> rc_outcome rec = DeniedInsufficientTreasury
     \<and> mk_perform_calls (gs_rail s') = mk_perform_calls (gs_rail s) + 1
     \<and> ledger_record (gs_treasury s') (cr_idempotency_key req) = None \<and> bal (gs_treasury s') = bal (gs_treasury s) - 5"
proof -
  let ?g = "test_g\<lparr>gw_rail := fetch_rail, gw_allowlist := {''http.fetch''}\<rparr>"
  let ?env = "calm_env\<lparr>ce_awaits := (\<lambda>n. if n = 1 then [(Io_ok, Meter 5)] else [])\<rparr>"
  let ?s = "test_s\<lparr>gs_treasury := open_temporary 10\<rparr>"
  let ?req = "request ''f'' fetch_act"
  let ?t = "write_balance 5 (open_temporary 10)\<lparr>rent_sats := 5\<rparr>"
  have c: "capped_rail fetch_rail"
    using mock.capped_rail_axioms [of 0 False] by (simp add: capped_rail_def fetch_rail_def)
  have m: "snd (debit_metered Io_ok 5 (open_temporary 10)) = ?t"
    by (simp add: debit_metered_def read_balance_tx_ok open_temporary_ok checked_sub_def word_le_nat_alt)
  have ok: "treasury_ok ?t" "bal ?t = 5" "ledger_record ?t key = None" for key
    by (simp_all add: ok_atomics write_balance_ok open_temporary_ok bal_write_balance)
  have nf: "\<not> fenced_out ?g ?env" by (simp add: fenced_out_def)
  have run: "authorize_capability ?g ?env ?req ?s =
      (Inr (denied DeniedInsufficientTreasury 5), ?s\<lparr>gs_rail := \<lparr>mk_perform_calls = 1\<rparr>, gs_treasury := ?t\<rparr>)"
    by (subst not_fenced_act [OF nf, of _ fetch_act])
      (simp_all add: authorize_act_def lookup_ok open_temporary_ok fetch_act_def authorize_actuate_def remaining_ok
        fetch_rail_def mock_rail_def mock_perform_def actuate_variable_def Let_def await_point_def m ok bal_write_balance
        debit_and_record_ok saturating_add_def checked_add_def word_le_nat_alt word_less_nat_alt)
  show ?thesis
    by (rule exI [of _ ?g], rule exI [of _ ?env], rule exI [of _ ?req], rule exI [of _ ?s],
        rule exI [of _ "denied DeniedInsufficientTreasury 5"],
        rule exI [of _ "?s\<lparr>gs_rail := \<lparr>mk_perform_calls = 1\<rparr>, gs_treasury := ?t\<rparr>"], intro conjI run)
      (simp_all add: c ok open_temporary_ok bal_write_balance)
qed

text \<open>A credit whose flush fails loses its notice: the credit is in the treasury, the attempt reports
  the storage error and enqueues nothing, and no later attempt, whatever happens in between, enqueues
  anything either, so the genome never learns that the charge was paid.\<close>

theorem flush_fault_loses_notice:
  assumes "gw_settlement g = Some p" and "treasury_ok (gs_treasury s)" and "credit_record (gs_treasury s) cid = None"
    and "sp_verify_settlement p cid ev (gs_settlement s) = (Inr amount, w)" and "ce_awaits env 1 = []"
    and "ce_io env = Flush_fault e" and "checked_add (bal (gs_treasury s)) amount = Some n"
    and "settle_charge g env cid ev s = (res, s1)" and "gs_treasury s2 = apply_ops ops (gs_treasury s1)"
  shows "res = Inl (Settle_treasury (Storage e))
    \<and> bal (gs_treasury s1) = n
    \<and> gs_inbox s1 = gs_inbox s
    \<and> snd (settle_charge g env' cid ev' s2) = s2"
proof (rule conjI4; ((rule impI)+)?)
  have r: "settle_charge g env cid ev s = (Inl (Settle_treasury (Storage e)),
      s\<lparr>gs_settlement := w, gs_treasury := credited cid CREDIT_PROOF_MARKER n (write_balance n (gs_treasury s))\<rparr>)"
    using assms(1-7)
    by (simp add: settle_charge_def settle_inner_def credit_lookup_ok Let_def await_point_def credit_verified_ok
        run_txn_def)
  with assms(8) show "res = Inl (Settle_treasury (Storage e))" and "gs_inbox s1 = gs_inbox s" by auto
  have t1: "gs_treasury s1 = credited cid CREDIT_PROOF_MARKER n (write_balance n (gs_treasury s))"
    using r assms(8) by auto
  note f = credited_facts [OF write_balance_ok [OF assms(2)]]
  show "bal (gs_treasury s1) = n" using f(2) by (simp add: t1 bal_write_balance assms(2))
  have "credit_record (gs_treasury s2) cid = Some (credit_row CREDIT_PROOF_MARKER n)" "treasury_ok (gs_treasury s2)"
    using apply_ops_stable(1,3) [OF f(1)] f(3) unfolding assms(9) t1 by auto
  then show "snd (settle_charge g env' cid ev' s2) = s2"
    using settle_prior [of s2 cid _ g env' ev'] assms(1) by simp
qed

theorem flush_fault_loses_notice_witness:
  "\<exists>s1. settle_charge test_g (calm_env\<lparr>ce_io := Flush_fault (Sled_Io ''disk'')\<rparr>) ''q'' [] test_s
       = (Inl (Settle_treasury (Storage (Sled_Io ''disk''))), s1)
     \<and> bal (gs_treasury s1) = 70 \<and> gs_inbox s1 = gs_inbox test_s \<and> snd (settle_charge test_g calm_env ''q'' [] s1) = s1"
proof -
  let ?env = "calm_env\<lparr>ce_io := Flush_fault (Sled_Io ''disk'')\<rparr>"
  let ?w = "one_quote_wallet [4, 16] 99"
  have c: "wl_check_mint_quote_status ?w ''q'' (ln_wallet paid_state) =
      (Inr \<lparr>mq_id = ''q'', mq_request = ''lnbc'', mq_state = Quote_Paid, mq_amount_issued = 99\<rparr>, Quote_Paid)"
    and m: "wl_mint ?w ''q'' Quote_Paid = (Inr [4, 16], Quote_Issued)"
    by (simp_all add: one_quote_wallet_def paid_state_def)
  have v: "sp_verify_settlement (lightning_settlement ?w True Io_ok) ''q'' [] (gs_settlement test_s) =
      (Inr 20, \<lparr>ln_wallet = Quote_Issued, ln_stranded = [], ln_dirty = True\<rparr>)"
    unfolding lightning_settlement_def
    by (simp, subst verify_paid [OF c _ m]) (simp_all add: paid_state_def checked_add_def word_le_nat_alt)
  obtain res s1 where s1: "settle_charge test_g ?env ''q'' [] test_s = (res, s1)" by fastforce
  have a: "treasury_ok (gs_treasury test_s)" "credit_record (gs_treasury test_s) ''q'' = None"
    "ce_awaits ?env 1 = []" "ce_io ?env = Flush_fault (Sled_Io ''disk'')"
    "checked_add (bal (gs_treasury test_s)) (20 :: u64) = Some 70" "gs_treasury s1 = apply_ops [] (gs_treasury s1)"
    by (simp_all add: open_temporary_ok checked_add_def word_le_nat_alt)
  from flush_fault_loses_notice [OF test_g_simps(5) a(1,2) v a(3-5) s1 a(6), of calm_env "[]"] s1
  show ?thesis by auto
qed

section \<open>The inbox poll only narrows\<close>

lemma drain_after_wanted: "drain_after ack want q = (batch, q') \<Longrightarrow> e \<in> set batch \<Longrightarrow> ack < ie_inbox_seq e \<and> wanted want e"
  by (auto simp: drain_after_def Let_def)

lemma park_wanted: "park ack want wakes d q = (batch, q') \<Longrightarrow> e \<in> set batch \<Longrightarrow> ack < ie_inbox_seq e \<and> wanted want e"
proof (induction ack want wakes d q rule: park.induct)
  case (3 ack want wake wakes d q)
  obtain b q1 where b: "drain_after ack want (wake q) = (b, q1)" by fastforce
  show ?case
  proof (cases "b = []")
    case True
    with b have "park ack want wakes d q1 = (batch, q')" using "3.prems"(1) by simp
    with "3.IH" [OF b [symmetric] refl] True "3.prems"(2) show ?thesis by simp
  next
    case False
    with b "3.prems" show ?thesis using drain_after_wanted [OF b] by simp
  qed
qed (auto dest: drain_after_wanted)

lemma inbox_poll_wanted:
  "inbox_poll ack want wakes d q = (batch, q') \<Longrightarrow> e \<in> set batch \<Longrightarrow> ack < ie_inbox_seq e \<and> wanted want e"
  by (auto simp: inbox_poll_def Let_def dest: drain_after_wanted park_wanted split: prod.splits if_splits)

lemma try_from_i32: "inbound_kind_try_from n = Some k \<Longrightarrow> inbound_kind_i32 k = n"
  by (auto simp: inbound_kind_try_from_def split: if_splits)

lemma map_filter_mem: "k \<in> set (List.map_filter f xs) \<longleftrightarrow> (\<exists>x\<in>set xs. f x = Some k)"
  by (induction xs) (auto simp: List.map_filter_simps split: option.splits)

text \<open>A poll only narrows: whatever a genome asks for and however the queue changes while the poll is
  parked, each event it is given has a kind the session allows, a kind it asked for when it asked for
  any, and a number above its acknowledgement; the batch's high number is the largest of the batch's,
  and a gateway with no queue or no allowed kind gives nothing. A poll touches only the queue.\<close>

theorem poll_only_narrows:
  assumes "poll_inbox g wakes d req s = (batch, s')"
  shows "(\<forall>e\<in>set (ib_events batch). (\<exists>k\<in>set (gw_allowlisted_inbound_kinds g). ie_kind e = inbound_kind_i32 k)
      \<and> (ir_want_kinds req \<noteq> [] \<longrightarrow> ie_kind e \<in> set (ir_want_kinds req))
      \<and> ir_ack_seq req < ie_inbox_seq e \<and> ie_inbox_seq e \<le> ib_high_seq batch)
    \<and> ((gs_inbox s = None \<or> gw_allowlisted_inbound_kinds g = []) \<longrightarrow> ib_events batch = [])
    \<and> s'\<lparr>gs_inbox := gs_inbox s\<rparr> = s"
proof (rule conjI3; ((rule impI)+)?)
  let ?want = "effective_want (gw_allowlisted_inbound_kinds g) (ir_want_kinds req)"
  have high: "ie_inbox_seq e \<le> high_seq es" if "e \<in> set es" for e es
    using that by (induction es) (auto simp: high_seq_def le_max_iff_disj)
  have want: "(\<exists>k\<in>set (gw_allowlisted_inbound_kinds g). ie_kind e = inbound_kind_i32 k)
      \<and> (ir_want_kinds req \<noteq> [] \<longrightarrow> ie_kind e \<in> set (ir_want_kinds req))"
    if "wanted ?want e" "?want \<noteq> []" for e
    using that
    by (auto simp: wanted_def effective_want_def list_ex_iff map_filter_mem dest: try_from_i32
        intro: sym bexI [rotated] split: if_splits)
  show "\<forall>e\<in>set (ib_events batch). (\<exists>k\<in>set (gw_allowlisted_inbound_kinds g). ie_kind e = inbound_kind_i32 k)
      \<and> (ir_want_kinds req \<noteq> [] \<longrightarrow> ie_kind e \<in> set (ir_want_kinds req))
      \<and> ir_ack_seq req < ie_inbox_seq e \<and> ie_inbox_seq e \<le> ib_high_seq batch"
  proof
    fix e
    assume e: "e \<in> set (ib_events batch)"
    with assms obtain q wait q' where q: "gs_inbox s = Some q" "?want \<noteq> []"
      "inbox_poll (ir_ack_seq req) ?want (wakes wait) (d wait) q = (ib_events batch, q')"
      "ib_high_seq batch = high_seq (ib_events batch)"
      by (auto simp: poll_inbox_def Let_def empty_batch_def effective_want_def
          split: option.splits if_splits prod.splits)
    from inbox_poll_wanted [OF q(3) e] want [OF _ q(2)] high [OF e]
    show "(\<exists>k\<in>set (gw_allowlisted_inbound_kinds g). ie_kind e = inbound_kind_i32 k)
      \<and> (ir_want_kinds req \<noteq> [] \<longrightarrow> ie_kind e \<in> set (ir_want_kinds req))
      \<and> ir_ack_seq req < ie_inbox_seq e \<and> ie_inbox_seq e \<le> ib_high_seq batch"
      by (simp add: q(4))
  qed
  show "gs_inbox s = None \<or> gw_allowlisted_inbound_kinds g = [] \<Longrightarrow> ib_events batch = []"
    using assms by (auto simp: poll_inbox_def empty_batch_def Let_def split: option.splits)
  show "s'\<lparr>gs_inbox := gs_inbox s\<rparr> = s"
    using assms by (auto simp: poll_inbox_def Let_def split: option.splits if_splits prod.splits)
qed

theorem poll_only_narrows_witness:
  "\<exists>batch s'. poll_inbox test_g (\<lambda>w. []) (\<lambda>w. Slept) \<lparr>ir_want_kinds = [1, 4], ir_ack_seq = 0, ir_wait_ms = 99999\<rparr>
       (test_s\<lparr>gs_inbox := Some (snd (push_typed JobRequest ''job'' [] 0 [] (snd (push_typed PaymentSettled ''paid'' [] 0 []
          (with_capacity 8)))))\<rparr>) = (batch, s')
     \<and> map ie_payload (ib_events batch) = [''paid''] \<and> (\<forall>e\<in>set (ib_events batch). ie_kind e \<in> {1, 4})"
proof -
  let ?req = "\<lparr>ir_want_kinds = [1, 4], ir_ack_seq = 0, ir_wait_ms = 99999\<rparr>"
  let ?s = "test_s\<lparr>gs_inbox := Some (snd (push_typed JobRequest ''job'' [] 0 [] (snd (push_typed PaymentSettled ''paid'' [] 0 []
          (with_capacity 8)))))\<rparr>"
  obtain batch s' where r: "poll_inbox test_g (\<lambda>w. []) (\<lambda>w. Slept) ?req ?s = (batch, s')" by fastforce
  have "map ie_payload (ib_events (fst (poll_inbox test_g (\<lambda>w. []) (\<lambda>w. Slept) ?req ?s))) = [''paid'']"
    by (simp add: poll_inbox_def effective_want_def List.map_filter_simps inbound_kind_try_from_def inbox_poll_def
        drain_after_def wanted_def push_typed_def push_take_seq_def push_append_def with_capacity_def Let_def)
  with poll_only_narrows [OF r, THEN conjunct1] show ?thesis by (intro exI [of _ batch] exI [of _ s']) (auto simp: r)
qed

end
