(* ===== verification/Publish.thy ===== *)
theory Publish
  imports Rail
begin

text \<open>
  The outward Nostr actuator (\<open>NostrActuator\<close> of \<open>crates/kirby-node/src/rail.rs\<close>) and the text guard it
  shares with the genome (\<open>crates/kirby-proto/src/lib.rs\<close>). Text is a list of Unicode scalar values, so
  that control characters, white space and byte lengths are what the code sees. Signing and sending are
  arguments, as are the prost decoders and the parse of a public key (a reason names the key as it is, where
  the code prints it quoted).
\<close>

type_synonym utext = "nat list"

text \<open>\<open>char::is_control\<close> (category Cc), \<open>char::is_whitespace\<close> (White_Space) and \<open>char::len_utf8\<close>.\<close>

definition is_control :: "nat \<Rightarrow> bool" where
  "is_control c \<longleftrightarrow> c < 32 \<or> 127 \<le> c \<and> c < 160"

definition is_whitespace :: "nat \<Rightarrow> bool" where
  "is_whitespace c \<longleftrightarrow> 9 \<le> c \<and> c \<le> 13 \<or> 8192 \<le> c \<and> c \<le> 8202
     \<or> c \<in> {32, 133, 160, 5760, 8232, 8233, 8239, 8287, 12288}"

definition len_utf8 :: "nat \<Rightarrow> nat" where
  "len_utf8 c = (if c < 128 then 1 else if c < 2048 then 2 else if c < 65536 then 3 else 4)"

definition byte_len :: "utext \<Rightarrow> nat" where
  "byte_len s = sum_list (map len_utf8 s)"

text \<open>\<open>str::split_whitespace\<close>, with the word read so far, and \<open>join(" ")\<close>.\<close>

fun split_whitespace :: "utext \<Rightarrow> utext \<Rightarrow> utext list" where
  "split_whitespace w [] = (if w = [] then [] else [w])"
| "split_whitespace w (c # cs) =
     (if is_whitespace c then (if w = [] then split_whitespace [] cs else w # split_whitespace [] cs)
      else split_whitespace (w @ [c]) cs)"

fun join_space :: "utext list \<Rightarrow> utext" where
  "join_space [] = []"
| "join_space [w] = w"
| "join_space (w # v # ws) = w @ 32 # join_space (v # ws)"

definition blank :: "nat \<Rightarrow> nat" where
  "blank c = (if is_control c \<or> c = 8232 \<or> c = 8233 then 32 else c)"

definition collapse_control_to_one_line :: "utext \<Rightarrow> utext" where
  "collapse_control_to_one_line raw = join_space (split_whitespace [] (map blank raw))"

definition MAX_NOTE_BYTES :: nat where "MAX_NOTE_BYTES = 512"

definition MAX_DM_BYTES :: nat where "MAX_DM_BYTES = 2048"

definition sanitize_note_for_publish :: "utext \<Rightarrow> string + utext" where
  "sanitize_note_for_publish raw =
     (let clean = collapse_control_to_one_line raw
      in if clean = [] then Inl ''note text is empty after stripping control characters and whitespace''
         else if byte_len clean > MAX_NOTE_BYTES then 
           Inl (''note text exceeds the 512-byte cap ('' @ show_nat (byte_len clean) @ '' bytes after sanitizing)'')
         else Inr clean)"

definition sanitize_dm_for_send :: "utext \<Rightarrow> string + utext" where
  "sanitize_dm_for_send raw =
     (let clean = collapse_control_to_one_line raw
      in if clean = [] then Inl ''DM reply text is empty after stripping control characters and whitespace''
         else if byte_len clean > MAX_DM_BYTES then 
           Inl (''DM reply text exceeds the 2048-byte cap ('' @ show_nat (byte_len clean) @ '' bytes after sanitizing)'')
         else Inr clean)"

section \<open>The payload guards\<close>

definition NOSTR_KIND_TEXT_NOTE :: u16 where "NOSTR_KIND_TEXT_NOTE = 1"

record nostr_publish =
  np_kind :: u32
  np_content :: utext
  np_tags :: "string list list"

record nostr_dm_reply =
  nd_to_pubkey :: string
  nd_text :: utext

record 'k nostr_codec =
  nc_dec_publish :: "bytes \<Rightarrow> string + nostr_publish"
  nc_dec_dm_reply :: "bytes \<Rightarrow> string + nostr_dm_reply"
  nc_parse_pubkey :: "string \<Rightarrow> string + 'k"

definition validate_nostr_publish :: "'k nostr_codec \<Rightarrow> bytes \<Rightarrow> string + utext" where
  "validate_nostr_publish cx payload =
     (case nc_dec_publish cx payload of
        Inl e \<Rightarrow> Inl (''nostr.publish payload failed to decode: '' @ e)
      | Inr np \<Rightarrow>
          if np_kind np \<noteq> ucast NOSTR_KIND_TEXT_NOTE then 
             Inl (''nostr.publish refused: only kind 1 (a public text note) is allowed (MVP), got kind '' @ show_nat (unat (np_kind np)))
          else if np_tags np \<noteq> [] then 
             Inl (''nostr.publish refused: tags are not supported in the MVP (got '' @ show_nat (length (np_tags np))
               @ '' tag(s)); the published event would not match the request'')
          else sanitize_note_for_publish (np_content np))"

definition validate_nostr_dm_reply :: "'k nostr_codec \<Rightarrow> bytes \<Rightarrow> string + 'k \<times> utext" where
  "validate_nostr_dm_reply cx payload =
     (case nc_dec_dm_reply cx payload of
        Inl e \<Rightarrow> Inl (''nostr.dm_reply payload failed to decode: '' @ e)
      | Inr dm \<Rightarrow>
          (case nc_parse_pubkey cx (nd_to_pubkey dm) of
             Inl e \<Rightarrow> Inl (''nostr.dm_reply refused: recipient pubkey '' @ nd_to_pubkey dm @ '' is invalid: '' @ e)
           | Inr to \<Rightarrow>
               (case sanitize_dm_for_send (nd_text dm) of
                  Inl e \<Rightarrow> Inl e
                | Inr text \<Rightarrow> Inr (to, text))))"

section \<open>The actuator\<close>

text \<open>\<open>publish_note\<close> and \<open>publish_dm_reply\<close> sign and send; they answer with the event id.\<close>

record ('k, 'n) nostr_net =
  nn_publish_note :: "utext \<Rightarrow> 'n \<Rightarrow> (string + string) \<times> 'n"
  nn_publish_dm_reply :: "'k \<Rightarrow> utext \<Rightarrow> 'n \<Rightarrow> (string + string) \<times> 'n"

definition nostr_cost :: "u64 \<Rightarrow> string \<Rightarrow> u64" where
  "nostr_cost cost_sats kind =
     (if kind = ACTUATE_KIND_NOSTR_PUBLISH \<or> kind = ACTUATE_KIND_NOSTR_DM_REPLY then cost_sats else - 1)"

definition nostr_validate :: "'k nostr_codec \<Rightarrow> string \<Rightarrow> bytes \<Rightarrow> string + unit" where
  "nostr_validate cx kind payload =
     (if kind = ACTUATE_KIND_NOSTR_PUBLISH
      then (case validate_nostr_publish cx payload of Inl e \<Rightarrow> Inl e | Inr _ \<Rightarrow> Inr ())
      else if kind = ACTUATE_KIND_NOSTR_DM_REPLY
      then (case validate_nostr_dm_reply cx payload of Inl e \<Rightarrow> Inl e | Inr _ \<Rightarrow> Inr ())
      else Inl (''unknown actuator kind '' @ kind))"

definition nostr_actuate ::
  "'k nostr_codec \<Rightarrow> ('k, 'n) nostr_net \<Rightarrow> u64 \<Rightarrow> string \<Rightarrow> bytes \<Rightarrow> u64 \<Rightarrow> 'n \<Rightarrow> rail_outcome \<times> 'n" where
  "nostr_actuate cx net cost_sats kind payload cap_sats s =
     (if kind = ACTUATE_KIND_NOSTR_PUBLISH then
        (case validate_nostr_publish cx payload of
           Inl reason \<Rightarrow> (Rail_UpstreamFailed, s)
         | Inr content \<Rightarrow>
             (case nn_publish_note net content s of
                (Inr event_id, s') \<Rightarrow> (Performed (min cost_sats cap_sats) event_id [] None, s')
              | (Inl e, s') \<Rightarrow> (Rail_UpstreamFailed, s')))
      else if kind = ACTUATE_KIND_NOSTR_DM_REPLY then
        (case validate_nostr_dm_reply cx payload of
           Inl reason \<Rightarrow> (Rail_UpstreamFailed, s)
         | Inr (to, text) \<Rightarrow>
             (case nn_publish_dm_reply net to text s of
                (Inr event_id, s') \<Rightarrow> (Performed (min cost_sats cap_sats) event_id [] None, s')
              | (Inl e, s') \<Rightarrow> (Rail_UpstreamFailed, s')))
      else (Rail_UpstreamFailed, s))"

definition nostr_actuator :: "'k nostr_codec \<Rightarrow> ('k, 'n) nostr_net \<Rightarrow> u64 \<Rightarrow> 'n actuator" where
  "nostr_actuator cx net cost_sats = \<lparr>at_cost = nostr_cost cost_sats, at_cost_is_exact = (\<lambda>kind. True),
     at_validate = nostr_validate cx, at_actuate = nostr_actuate cx net cost_sats\<rparr>"

interpretation nostr: capped_actuator "nostr_actuator cx net cost_sats"
  for cx :: "'k nostr_codec" and net :: "('k, 'n) nostr_net" and cost_sats
  by unfold_locales
    (auto simp: nostr_actuator_def nostr_actuate_def split: if_splits sum.splits prod.splits)

section \<open>One clean line\<close>

text \<open>A line the guard lets through: words without white space or control characters, separated by single
  spaces, with none at the ends.\<close>

definition plain :: "nat \<Rightarrow> bool" where
  "plain c \<longleftrightarrow> \<not> is_whitespace c \<and> \<not> is_control c"

definition is_word :: "utext \<Rightarrow> bool" where
  "is_word w \<longleftrightarrow> w \<noteq> [] \<and> (\<forall>c\<in>set w. plain c)"

definition one_line :: "utext \<Rightarrow> bool" where
  "one_line s \<longleftrightarrow> (\<exists>ws. s = join_space ws \<and> (\<forall>w\<in>set ws. is_word w))"

lemma whitespace_space [simp]: "is_whitespace 32" "\<not> is_control 32"
  by (simp_all add: is_whitespace_def is_control_def)

lemma blank_word: "\<not> is_whitespace (blank c) \<Longrightarrow> \<not> is_control (blank c)"
  by (auto simp: blank_def split: if_splits)

lemma split_words:
  "Ball (set w) plain \<Longrightarrow> \<forall>c\<in>set cs. is_whitespace c \<or> plain c \<Longrightarrow>
   Ball (set (split_whitespace w cs)) is_word"
proof (induction cs arbitrary: w)
  case (Cons c cs)
  have empty: "Ball (set (split_whitespace [] cs)) is_word"
    using Cons.IH [of "[]"] Cons.prems by simp
  show ?case
  proof (cases "is_whitespace c")
    case True
    then show ?thesis using empty Cons.prems by (simp add: is_word_def)
  next
    case False
    then show ?thesis using Cons.IH [of "w @ [c]"] Cons.prems by simp
  qed
qed (simp add: is_word_def)

lemma split_content: "\<forall>c\<in>set w. \<not> is_whitespace c \<Longrightarrow>
    filter (\<lambda>c. \<not> is_whitespace c) (concat (split_whitespace w cs)) = w @ filter (\<lambda>c. \<not> is_whitespace c) cs"
  by (induction cs arbitrary: w) simp_all

lemma join_content: "filter (\<lambda>c. \<not> is_whitespace c) (join_space ws) = filter (\<lambda>c. \<not> is_whitespace c) (concat ws)"
  by (induction ws rule: join_space.induct) auto

lemma split_append_word:
  "\<forall>c\<in>set v. \<not> is_whitespace c \<Longrightarrow> split_whitespace w (v @ cs) = split_whitespace (w @ v) cs"
  by (induction v arbitrary: w) auto

lemma split_join: "\<forall>w\<in>set ws. is_word w \<Longrightarrow> split_whitespace [] (join_space ws) = ws"
proof (induction ws rule: join_space.induct)
  case (2 w)
  then show ?case using split_append_word [of w "[]" "[]"] by (auto simp: is_word_def plain_def)
next
  case (3 w v ws)
  then show ?case using split_append_word [of w "[]" "32 # join_space (v # ws)"] by (auto simp: is_word_def plain_def)
qed simp

lemma blank_line: "one_line s \<Longrightarrow> map blank s = s"
proof -
  have b: "blank c = c" if "\<not> is_whitespace c \<and> \<not> is_control c \<or> c = 32" for c
    using that by (auto simp: blank_def is_whitespace_def)
  have "c = 32 \<or> \<not> is_whitespace c \<and> \<not> is_control c" if "c \<in> set (join_space ws)" "\<forall>w\<in>set ws. is_word w" for c ws
    using that by (induction ws rule: join_space.induct) (auto simp: is_word_def plain_def)
  then show "one_line s \<Longrightarrow> map blank s = s"
    by (auto simp: one_line_def intro!: map_idI b)
qed

lemma collapse_line: "one_line (collapse_control_to_one_line raw)"
proof -
  have "\<forall>w\<in>set (split_whitespace [] (map blank raw)). is_word w"
    by (rule split_words) (auto simp: plain_def dest: blank_word)
  then show ?thesis unfolding one_line_def collapse_control_to_one_line_def by blast
qed

lemma collapse_id: "one_line s \<Longrightarrow> collapse_control_to_one_line s = s"
  by (simp add: collapse_control_to_one_line_def blank_line) (auto simp: one_line_def split_join)

lemma collapse_content:
  "filter (\<lambda>c. \<not> is_whitespace c) (collapse_control_to_one_line raw) =
     filter plain raw"
proof -
  have "filter (\<lambda>c. \<not> is_whitespace c) (map blank raw) = filter plain raw"
    by (induction raw) (auto simp: blank_def is_whitespace_def plain_def)
  then show ?thesis
    by (simp add: collapse_control_to_one_line_def join_content split_content)
qed

lemma sanitized_note:
  assumes "sanitize_note_for_publish raw = Inr clean"
  shows "one_line clean \<and> clean \<noteq> [] \<and> byte_len clean \<le> 512
    \<and> filter (\<lambda>c. \<not> is_whitespace c) clean = filter plain raw \<and> sanitize_note_for_publish clean = Inr clean"
  using assms collapse_line [of raw] collapse_id [OF collapse_line, of raw] collapse_content [of raw]
  by (auto simp: sanitize_note_for_publish_def Let_def MAX_NOTE_BYTES_def split: if_splits)

lemma validated_note:
  assumes "validate_nostr_publish cx payload = Inr text"
  shows "one_line text \<and> text \<noteq> [] \<and> byte_len text \<le> 512"
proof -
  obtain raw where "sanitize_note_for_publish raw = Inr text"
    using assms by (auto simp: validate_nostr_publish_def split: sum.splits if_splits)
  then show ?thesis using sanitized_note by blast
qed

text \<open>What the agent says in public is one clean line: text the publish guard lets through consists of
  words free of white space and control characters with single spaces between them, is not empty and
  fits 512 bytes, keeps every other character of the request in order, and passes the guard again
  unchanged. And the actuator sends nothing else: with a sender that fails on any other text, every
  publish would answer the same.\<close>

theorem published_is_clean:
  shows "(sanitize_note_for_publish raw = Inr clean \<longrightarrow> one_line clean \<and> clean \<noteq> [] \<and> byte_len clean \<le> 512
      \<and> filter (\<lambda>c. \<not> is_whitespace c) clean = filter plain raw \<and> sanitize_note_for_publish clean = Inr clean)
    \<and> (nostr_actuate cx (net\<lparr>nn_publish_note := (\<lambda>text s. if one_line text \<and> text \<noteq> [] \<and> byte_len text \<le> 512
        then nn_publish_note net text s else (Inl ''unclean'', s))\<rparr>) cost_sats kind payload cap s =
      nostr_actuate cx net cost_sats kind payload cap s)"
  using sanitized_note [of raw clean] validated_note [of cx payload]
  by (auto simp: nostr_actuate_def split: sum.splits)

theorem published_is_clean_witness:
  "one_line [104, 105, 32, 33] \<and> sanitize_note_for_publish [104, 105, 32, 33] = Inr [104, 105, 32, 33]"
proof -
  have "sanitize_note_for_publish [10, 104, 105, 9, 8232, 33, 7] = Inr [104, 105, 32, 33]"
    by (simp add: sanitize_note_for_publish_def collapse_control_to_one_line_def blank_def is_control_def
        is_whitespace_def byte_len_def len_utf8_def MAX_NOTE_BYTES_def)
  from published_is_clean [THEN conjunct1, rule_format, OF this] show ?thesis by simp
qed

end
