(* ===== verification/Meter.thy ===== *)
theory Meter
  imports Treasury_Props
begin

text \<open>
  The host-side rent meter (\<open>meter.rs\<close>) and the loop that drives it until the agent is broke
  (\<open>metered_run.rs\<close>). What the host reports at a tick (the text of \<open>cpu.stat\<close>, \<open>memory.current\<close>, the
  clock, the process table, the egress counter) is the record \<open>host_reading\<close>; the treasury, shared with
  the gateway, is passed in and returned.
\<close>

section \<open>Rates\<close>

record burn_rates =
  br_cpu_num :: u64
  br_cpu_den :: u64
  br_mem_sats_per_mib_sec :: u64
  br_egress_num :: u64
  br_egress_den :: u64

definition burn_rates_default :: burn_rates where
  "burn_rates_default = \<lparr>br_cpu_num = 1, br_cpu_den = 1000, br_mem_sats_per_mib_sec = 1,
     br_egress_num = 1, br_egress_den = 1\<rparr>"

definition burn_for_tick :: "burn_rates \<Rightarrow> u64 \<Rightarrow> u64 \<Rightarrow> u64 \<Rightarrow> u64 \<Rightarrow> u64" where
  "burn_for_tick r cpu_delta_usec mem_bytes egress_delta_bytes tick_ms =
     (let cpu_sats = saturating_mul cpu_delta_usec (br_cpu_num r) div max (br_cpu_den r) 1;
          mib = 1024 * 1024;
          mem_sats = saturating_mul (saturating_mul mem_bytes tick_ms) (br_mem_sats_per_mib_sec r)
                       div max (saturating_mul mib 1000) 1;
          egress_sats = saturating_mul egress_delta_bytes (br_egress_num r) div max (br_egress_den r) 1
      in saturating_add (saturating_add cpu_sats mem_sats) egress_sats)"

definition floor_halt_reached :: "u64 \<Rightarrow> u64 \<Rightarrow> bool" where
  "floor_halt_reached rem halt_floor_sats \<longleftrightarrow> 0 < halt_floor_sats \<and> rem < halt_floor_sats"

section \<open>Sample sources\<close>

datatype meter_error =
    CgroupMissing string
  | CpuUnreadable string string
  | MemUnreadable string string
  | HostProcessUnreadable u32 string
  | AllocationInvalid string
  | Meter_treasury treasury_error

record meter_sample =
  ms_cpu_usec :: u64
  ms_mem_bytes :: u64

record cpu_sample_error =
  cse_reason :: string
  cse_no_such_process :: bool

record host_reading =
  hr_cpu_stat :: string
  hr_mem_current :: "string + u64"
  hr_elapsed_usec :: u64
  hr_tree_pids :: "u32 \<Rightarrow> string + u32 list"
  hr_cpu_nsec :: "u32 \<Rightarrow> cpu_sample_error + u64"
  hr_egress_bytes :: "u64 option"

text \<open>\<open>str::lines\<close>, and the words of a line of ASCII text.\<close>

fun split_lines :: "string \<Rightarrow> string \<Rightarrow> string list" where
  "split_lines l [] = (if l = [] then [] else [l])"
| "split_lines l (c # cs) =
     (if c = CHR 0x0A then (if l \<noteq> [] \<and> last l = CHR 0x0D then butlast l else l) # split_lines [] cs
      else split_lines (l @ [c]) cs)"

definition is_ascii_whitespace :: "char \<Rightarrow> bool" where
  "is_ascii_whitespace c \<longleftrightarrow> c \<in> {CHR '' '', CHR 0x09, CHR 0x0A, CHR 0x0B, CHR 0x0C, CHR 0x0D}"

fun line_words :: "string \<Rightarrow> string \<Rightarrow> string list" where
  "line_words w [] = (if w = [] then [] else [w])"
| "line_words w (c # cs) =
     (if is_ascii_whitespace c then (if w = [] then line_words [] cs else w # line_words [] cs)
      else line_words (w @ [c]) cs)"

fun flat_keyed_lines :: "string \<Rightarrow> string list \<Rightarrow> u64 option" where
  "flat_keyed_lines key [] = None"
| "flat_keyed_lines key (line # ls) =
     (case line_words [] line of
        k # vs \<Rightarrow> if k = key then (case vs of [] \<Rightarrow> None | v # _ \<Rightarrow> parse_u64 v)
                   else flat_keyed_lines key ls
      | [] \<Rightarrow> flat_keyed_lines key ls)"

definition parse_flat_keyed :: "string \<Rightarrow> string \<Rightarrow> u64 option" where
  "parse_flat_keyed txt key = flat_keyed_lines key (split_lines [] txt)"

definition read_cpu_usec :: "host_reading \<Rightarrow> string + u64" where
  "read_cpu_usec h =
     (case parse_flat_keyed (hr_cpu_stat h) ''usage_usec'' of
        None \<Rightarrow> Inl ''cpu.stat has no usage_usec line (is this a v2 cpu cgroup?)''
      | Some n \<Rightarrow> Inr n)"

definition cgroup_sample :: "string \<Rightarrow> host_reading \<Rightarrow> meter_error + meter_sample" where
  "cgroup_sample abs_path h =
     (case read_cpu_usec h of
        Inl e \<Rightarrow> Inl (CpuUnreadable abs_path e)
      | Inr cpu \<Rightarrow> (case hr_mem_current h of
           Inl e \<Rightarrow> Inl (MemUnreadable abs_path e)
         | Inr mem \<Rightarrow> Inr \<lparr>ms_cpu_usec = cpu, ms_mem_bytes = mem\<rparr>))"

record allocation_source =
  as_vcpu_count :: u32
  as_mem_bytes :: u64

definition allocation_sample_at :: "allocation_source \<Rightarrow> u64 \<Rightarrow> meter_sample" where
  "allocation_sample_at src elapsed_usec =
     \<lparr>ms_cpu_usec = saturating_mul (ucast (as_vcpu_count src)) elapsed_usec, ms_mem_bytes = as_mem_bytes src\<rparr>"

text \<open>The process-tree source. A pid that has exited since it was listed contributes its last reading.\<close>

record host_source =
  hs_root_pid :: u32
  hs_service_pids :: "u32 list"
  hs_memory_cap_bytes :: u64
  hs_last_cpu_nsec :: "u32 \<rightharpoonup> u64"

definition accumulate_pid ::
  "u32 \<Rightarrow> cpu_sample_error + u64 \<Rightarrow> host_source \<Rightarrow> (meter_error + u64 \<times> bool) \<times> host_source" where
  "accumulate_pid pid sample src =
     (case sample of
        Inr nsec \<Rightarrow> (Inr (nsec, True), src\<lparr>hs_last_cpu_nsec := (hs_last_cpu_nsec src)(pid \<mapsto> nsec)\<rparr>)
      | Inl e \<Rightarrow>
          if pid = hs_root_pid src then (Inl (HostProcessUnreadable (hs_root_pid src) (cse_reason e)), src)
          else if cse_no_such_process e then
            (Inr (case hs_last_cpu_nsec src pid of Some frozen \<Rightarrow> frozen | None \<Rightarrow> 0, False), src)
          else if pid \<in> set (hs_service_pids src) then
            (Inl (HostProcessUnreadable (hs_root_pid src) (cse_reason e)), src)
          else (Inr (0, False), src))"

fun sum_pids ::
  "host_reading \<Rightarrow> u32 list \<Rightarrow> u64 \<Rightarrow> nat \<Rightarrow> host_source \<Rightarrow> (meter_error + u64 \<times> nat) \<times> host_source" where
  "sum_pids h [] nsec sampled src = (Inr (nsec, sampled), src)"
| "sum_pids h (pid # pids) nsec sampled src =
     (case accumulate_pid pid (hr_cpu_nsec h pid) src of
        (Inl e, src') \<Rightarrow> (Inl e, src')
      | (Inr (c, was_live), src') \<Rightarrow>
          sum_pids h pids (saturating_add nsec c) (if was_live then sampled + 1 else sampled) src')"

fun merge_pids :: "u32 list \<Rightarrow> u32 list \<Rightarrow> u32 list" where
  "merge_pids acc [] = acc"
| "merge_pids acc (pid # pids) = merge_pids (if pid \<in> set acc then acc else acc @ [pid]) pids"

fun service_trees :: "host_reading \<Rightarrow> u32 \<Rightarrow> u32 list \<Rightarrow> u32 list \<Rightarrow> meter_error + u32 list" where
  "service_trees h root acc [] = Inr acc"
| "service_trees h root acc (p # ps) =
     (case hr_tree_pids h p of
        Inl e \<Rightarrow> Inl (HostProcessUnreadable root (''VZ service pid '' @ show_nat (unat p) @ '' unreadable: '' @ e))
      | Inr pids \<Rightarrow> service_trees h root (merge_pids acc pids) ps)"

definition host_sample :: "host_reading \<Rightarrow> host_source \<Rightarrow> (meter_error + meter_sample) \<times> host_source" where
  "host_sample h src =
     (case hr_tree_pids h (hs_root_pid src) of
        Inl e \<Rightarrow> (Inl (HostProcessUnreadable (hs_root_pid src) e), src)
      | Inr root_tree \<Rightarrow>
          (case service_trees h (hs_root_pid src) root_tree (hs_service_pids src) of
             Inl e \<Rightarrow> (Inl e, src)
           | Inr pids \<Rightarrow>
               (case sum_pids h pids 0 0 src of
                  (Inl e, src') \<Rightarrow> (Inl e, src')
                | (Inr (nsec, sampled), src') \<Rightarrow>
                    if sampled = 0
                    then (Inl (HostProcessUnreadable (hs_root_pid src)
                            ''no live process in VZ helper/service pid set''), src')
                    else (Inr \<lparr>ms_cpu_usec = nsec div 1000, ms_mem_bytes = hs_memory_cap_bytes src\<rparr>, src'))))"

datatype meter_sample_source =
    Cgroup string
  | HostProcess host_source
  | Allocation allocation_source

definition sample :: "host_reading \<Rightarrow> meter_sample_source \<Rightarrow> (meter_error + meter_sample) \<times> meter_sample_source" where
  "sample h src =
     (case src of
        Cgroup abs_path \<Rightarrow> (cgroup_sample abs_path h, src)
      | HostProcess hs \<Rightarrow> (let (r, hs') = host_sample h hs in (r, HostProcess hs'))
      | Allocation a \<Rightarrow> (Inr (allocation_sample_at a (hr_elapsed_usec h)), src))"

section \<open>The meter\<close>

record meter =
  mt_source :: meter_sample_source
  mt_rates :: burn_rates
  mt_tick_ms :: u64
  mt_halt_floor_sats :: u64
  mt_last_cpu_usec :: u64
  mt_last_egress_bytes :: u64
  mt_burned_sats :: u64
  mt_cpu_usec :: u64
  mt_ticks :: u64

definition new_meter :: "meter_sample_source \<Rightarrow> burn_rates \<Rightarrow> u64 \<Rightarrow> u64 \<Rightarrow> u64 \<Rightarrow> meter" where
  "new_meter src rates tick_ms cpu egress =
     \<lparr>mt_source = src, mt_rates = rates, mt_tick_ms = tick_ms, mt_halt_floor_sats = 0, mt_last_cpu_usec = cpu,
      mt_last_egress_bytes = egress, mt_burned_sats = 0, mt_cpu_usec = 0, mt_ticks = 0\<rparr>"

text \<open>\<open>dir\<close>, \<open>cpu_readable\<close> and \<open>mem_readable\<close> are the probes of the cgroup's files.\<close>

definition attach_with_egress ::
  "string \<Rightarrow> bool \<Rightarrow> bool \<Rightarrow> bool \<Rightarrow> burn_rates \<Rightarrow> u64 \<Rightarrow> host_reading \<Rightarrow> meter_error + meter" where
  "attach_with_egress abs_path dir cpu_readable mem_readable rates tick_ms h =
     (if \<not> dir then Inl (CgroupMissing abs_path)
      else if \<not> cpu_readable then Inl (CpuUnreadable abs_path ''cpu.stat not readable'')
      else if \<not> mem_readable then Inl (MemUnreadable abs_path ''memory.current not readable'')
      else case read_cpu_usec h of
        Inl e \<Rightarrow> Inl (CpuUnreadable abs_path e)
      | Inr cpu \<Rightarrow> Inr (new_meter (Cgroup abs_path) rates tick_ms cpu
                             (case hr_egress_bytes h of Some n \<Rightarrow> n | None \<Rightarrow> 0)))"

definition attach_host_process ::
  "u32 \<Rightarrow> u32 list \<Rightarrow> u64 \<Rightarrow> burn_rates \<Rightarrow> u64 \<Rightarrow> host_reading \<Rightarrow> meter_error + meter" where
  "attach_host_process root_pid service_pids memory_mib rates tick_ms h =
     (if service_pids = [] then Inl (HostProcessUnreadable root_pid
          ''no VZ VirtualMachine service pid discovered; refusing helper-only CPU metering'')
      else if 2 ^ 64 \<le> unat memory_mib * (1024 * 1024) then Inl (HostProcessUnreadable root_pid ''memory cap overflows bytes'')
      else case host_sample h \<lparr>hs_root_pid = root_pid, hs_service_pids = service_pids,
                   hs_memory_cap_bytes = memory_mib * (1024 * 1024), hs_last_cpu_nsec = Map.empty\<rparr> of
        (Inl e, src) \<Rightarrow> Inl e
      | (Inr baseline, src) \<Rightarrow> Inr (new_meter (HostProcess src) rates tick_ms (ms_cpu_usec baseline) 0))"

definition attach_allocation ::
  "u32 \<Rightarrow> u64 \<Rightarrow> burn_rates \<Rightarrow> u64 \<Rightarrow> host_reading \<Rightarrow> meter_error + meter" where
  "attach_allocation vcpu_count mem_mib rates tick_ms h =
     (if 2 ^ 64 \<le> unat mem_mib * (1024 * 1024) then Inl (AllocationInvalid ''memory cap overflows bytes'')
      else let src = \<lparr>as_vcpu_count = vcpu_count, as_mem_bytes = mem_mib * (1024 * 1024)\<rparr>
           in Inr (new_meter (Allocation src) rates tick_ms
                     (ms_cpu_usec (allocation_sample_at src (hr_elapsed_usec h))) 0))"

definition set_halt_floor :: "u64 \<Rightarrow> meter \<Rightarrow> meter" where
  "set_halt_floor sats m = m\<lparr>mt_halt_floor_sats := sats\<rparr>"

definition next_egress_delta :: "host_reading \<Rightarrow> meter \<Rightarrow> u64 \<times> meter" where
  "next_egress_delta h m =
     (let egress_bytes = (case hr_egress_bytes h of Some n \<Rightarrow> n | None \<Rightarrow> 0)
      in (saturating_sub egress_bytes (mt_last_egress_bytes m), m\<lparr>mt_last_egress_bytes := egress_bytes\<rparr>))"

definition tick_once ::
  "sled_io \<Rightarrow> host_reading \<Rightarrow> meter \<Rightarrow> treasury \<Rightarrow> (meter_error + debit_outcome) \<times> meter \<times> treasury" where
  "tick_once io h m t =
     (let m0 = m\<lparr>mt_ticks := mt_ticks m + 1\<rparr>; (read, src) = sample h (mt_source m0);
          m1 = m0\<lparr>mt_source := src\<rparr>
      in case read of
           Inl e \<Rightarrow> (Inl e, m1, t)
         | Inr sm \<Rightarrow>
             (let cpu_delta = saturating_sub (ms_cpu_usec sm) (mt_last_cpu_usec m1);
                  m2 = m1\<lparr>mt_last_cpu_usec := ms_cpu_usec sm, mt_cpu_usec := saturating_add (mt_cpu_usec m1) cpu_delta\<rparr>;
                  (egress_delta, m3) = next_egress_delta h m2;
                  burn = burn_for_tick (mt_rates m3) cpu_delta (ms_mem_bytes sm) egress_delta (mt_tick_ms m3);
                  (outcome, t') = debit_metered io burn t
              in case outcome of
                   Inl e \<Rightarrow> (Inl (Meter_treasury e), m3, t')
                 | Inr (Debited cost rem) \<Rightarrow>
                     (Inr (if floor_halt_reached rem (mt_halt_floor_sats m3) then Insufficient rem
                           else Debited cost rem),
                      m3\<lparr>mt_burned_sats := saturating_add (mt_burned_sats m3) cost\<rparr>, t')
                 | Inr oc \<Rightarrow> (Inr oc, m3, t')))"

definition treasury_remaining_best_effort :: "treasury \<Rightarrow> u64" where
  "treasury_remaining_best_effort t = (case remaining t of Inl _ \<Rightarrow> 0 | Inr n \<Rightarrow> n)"

definition capability_spent_best_effort :: "treasury \<Rightarrow> u64" where
  "capability_spent_best_effort t = (case spent_sats t of Inl _ \<Rightarrow> 0 | Inr n \<Rightarrow> n)"

definition economics :: "u64 \<Rightarrow> treasury \<Rightarrow> (economics_snapshot \<times> u64) option" where
  "economics initial t = (case economics_snapshot initial (rent_sats t) t of
                            Inl _ \<Rightarrow> None | Inr snap \<Rightarrow> Some (snap, rent_sats t))"

section \<open>The metered run\<close>

definition halt_floor_for :: "string option \<Rightarrow> u64 option \<Rightarrow> u64" where
  "halt_floor_for workload brain_max_cost_sats =
     (if workload \<in> {Some ''diarist'', Some ''capable'', Some ''oracle''}
      then (case brain_max_cost_sats of Some n \<Rightarrow> n | None \<Rightarrow> 0) else 0)"

text \<open>\<open>AgentStateEmitter::phase\<close>.\<close>

definition DYING_TREASURY_FRACTION_NUM :: u64 where "DYING_TREASURY_FRACTION_NUM = 15"

definition DYING_TREASURY_FRACTION_DEN :: u64 where "DYING_TREASURY_FRACTION_DEN = 100"

definition DYING_RUNWAY_SECS :: u64 where "DYING_RUNWAY_SECS = 30"

definition phase :: "u64 \<Rightarrow> u64 \<Rightarrow> u64 option \<Rightarrow> string" where
  "phase budget_sats treasury_sats runway_secs =
     (let dying_floor = saturating_mul budget_sats DYING_TREASURY_FRACTION_NUM div max DYING_TREASURY_FRACTION_DEN 1
      in if treasury_sats \<le> dying_floor \<or> (case runway_secs of Some r \<Rightarrow> r \<le> DYING_RUNWAY_SECS | None \<Rightarrow> False)
         then ''dying'' else ''running'')"

datatype meter_outcome =
    BudgetExhausted (mo_burned: u64) (mo_remaining: u64) (mo_ticks: u64)
  | Stopped (mo_burned: u64) (mo_remaining: u64) (mo_ticks: u64)

text \<open>One round of \<open>tick_until_exhausted\<close>: what the rest of the daemon did to the treasury during the
  sleep, whether the VM still lives, the host's readings, sled's answer, the runway hint published when
  the emitter is due, what the rest of the daemon did to the treasury while the emitter was publishing
  (\<open>emitter.emit\<close> is awaited), and whether the deadline has passed at the end of the round.\<close>

record tick_env =
  te_others :: "(sled_io \<times> treasury_op) list"
  te_alive :: bool
  te_reading :: host_reading
  te_io :: sled_io
  te_hint :: "u64 option option"
  te_emitting :: "(sled_io \<times> treasury_op) list"
  te_deadline :: bool

definition publish_hint :: "tick_env \<Rightarrow> treasury \<Rightarrow> treasury" where
  "publish_hint e t =
     (case te_hint e of None \<Rightarrow> t | Some secs \<Rightarrow> apply_ops (te_emitting e) (publish_runway_hint secs t))"

text \<open>The loop over the rounds the run lives through; \<open>None\<close> while it is still running when they end.\<close>

fun tick_until_exhausted ::
  "tick_env list \<Rightarrow> meter \<Rightarrow> treasury \<Rightarrow> (meter_error + meter_outcome option) \<times> meter \<times> treasury" where
  "tick_until_exhausted [] m t = (Inr None, m, t)"
| "tick_until_exhausted (e # es) m t =
     (let t0 = apply_ops (te_others e) t
      in if \<not> te_alive e
         then (Inr (Some (Stopped (mt_burned_sats m) (treasury_remaining_best_effort t0) (mt_ticks m))), m, t0)
         else case tick_once (te_io e) (te_reading e) m t0 of
           (Inl err, m', t') \<Rightarrow> (Inl err, m', t')
         | (Inr oc, m', t') \<Rightarrow>
             (let (rem, exhausted) = (case oc of
                    Debited c r \<Rightarrow> (r, False)
                  | Insufficient r \<Rightarrow> (r, True)
                  | Debit_Duplicate _ \<Rightarrow> (treasury_remaining_best_effort t', False));
                  t2 = publish_hint e t'
              in if exhausted
                 then (Inr (Some (BudgetExhausted (mt_burned_sats m') rem (mt_ticks m'))), m', t2)
                 else if te_deadline e
                 then (Inr (Some (Stopped (mt_burned_sats m') (treasury_remaining_best_effort t2) (mt_ticks m'))), m', t2)
                 else tick_until_exhausted es m' t2))"

end
