(* ===== verification/Meter_Props.thy ===== *)
theory Meter_Props
  imports Meter
begin

text \<open>
  What the rent meter promises: a tick is one metered debit of the treasury, halts exactly when it should,
  the run of ticks accounts for every sat, and an agent that pays rent is halted.
\<close>

section \<open>One tick\<close>

lemma sample_simps [simp]:
  "sample h (Cgroup p) = (cgroup_sample p h, Cgroup p)"
  "sample h (Allocation a) = (Inr (allocation_sample_at a (hr_elapsed_usec h)), Allocation a)"
  by (simp_all add: sample_def)

definition tick_burn :: "host_reading \<Rightarrow> meter \<Rightarrow> meter_sample \<Rightarrow> u64" where
  "tick_burn h m sm = burn_for_tick (mt_rates m) (saturating_sub (ms_cpu_usec sm) (mt_last_cpu_usec m))
     (ms_mem_bytes sm) (fst (next_egress_delta h m)) (mt_tick_ms m)"

text \<open>What a tick leaves of the meter besides the money it burned.\<close>

definition tick_meter :: "host_reading \<Rightarrow> meter \<Rightarrow> meter_sample \<Rightarrow> meter" where
  "tick_meter h m sm = m\<lparr>mt_ticks := mt_ticks m + 1, mt_source := snd (sample h (mt_source m)),
     mt_last_cpu_usec := ms_cpu_usec sm,
     mt_cpu_usec := saturating_add (mt_cpu_usec m) (saturating_sub (ms_cpu_usec sm) (mt_last_cpu_usec m)),
     mt_last_egress_bytes := (case hr_egress_bytes h of Some n \<Rightarrow> n | None \<Rightarrow> 0)\<rparr>"

lemma tick_once_error:
  "fst (sample h (mt_source m)) = Inl e \<Longrightarrow>
     tick_once io h m t = (Inl e, m\<lparr>mt_ticks := mt_ticks m + 1, mt_source := snd (sample h (mt_source m))\<rparr>, t)"
  by (cases "sample h (mt_source m)") (simp add: tick_once_def Let_def)

lemma tick_once_sample:
  assumes "fst (sample h (mt_source m)) = Inr sm"
  shows "tick_once io h m t =
    (case debit_metered io (tick_burn h m sm) t of
       (Inl e, t') \<Rightarrow> (Inl (Meter_treasury e), tick_meter h m sm, t')
     | (Inr (Debited cost rem), t') \<Rightarrow>
         (Inr (if floor_halt_reached rem (mt_halt_floor_sats m) then Insufficient rem else Debited cost rem),
          (tick_meter h m sm)\<lparr>mt_burned_sats := saturating_add (mt_burned_sats m) cost\<rparr>, t')
     | (Inr oc, t') \<Rightarrow> (Inr oc, tick_meter h m sm, t'))"
  using assms
  by (cases "sample h (mt_source m)")
    (auto simp: tick_once_def Let_def next_egress_delta_def tick_burn_def tick_meter_def
      split: prod.splits sum.splits debit_outcome.splits)

lemma debit_metered_Io_ok:
  assumes "treasury_ok t"
  shows "debit_metered Io_ok amount t =
    (if amount \<le> bal t
     then (Inr (Debited amount (bal t - amount)),
           (write_balance (bal t - amount) t)\<lparr>rent_sats := rent_sats t + amount\<rparr>)
     else (Inr (Insufficient (bal t)), t))"
  by (auto simp: debit_metered_def read_balance_tx_ok assms checked_sub_def)

lemma metered_treasury:
  assumes "treasury_ok t"
  shows "treasury_ok ((write_balance n t)\<lparr>rent_sats := r\<rparr>)" "bal ((write_balance n t)\<lparr>rent_sats := r\<rparr>) = n"
  using assms by (simp_all add: write_balance_ok ok_atomics bal_write_balance)

text \<open>What a round does to the treasury is a history of treasury operations.\<close>

lemma tick_once_op:
  assumes "tick_once io h m t = (r, m', t')"
  shows "\<exists>ops. t' = apply_ops ops t \<and> (\<forall>(io', oper) \<in> set ops. \<exists>n. oper = Meter n)"
proof (cases "fst (sample h (mt_source m))")
  case (Inl e)
  then show ?thesis using assms by (intro exI [of _ "[]"]) (simp add: tick_once_error)
next
  case (Inr sm)
  then have "t' = apply_ops [(io, Meter (tick_burn h m sm))] t"
    using assms by (auto simp: tick_once_sample split: prod.splits sum.splits debit_outcome.splits)
  then show ?thesis by (intro exI [of _ "[(io, Meter (tick_burn h m sm))]"]) simp
qed

text \<open>C29: A metered tick halts exactly when it must: with the host readable and the store answering, it
  debits the burn it computed from the host's readings alone and reports the balance left, unless the
  balance does not cover the burn, and then it debits nothing, or what is left is below the halt floor;
  in both cases it reports \<open>Insufficient\<close>, on which the daemon kills the VM. So while the run goes on
  past a tick, the balance covers the floor.\<close>

theorem tick_halts_exactly:
  assumes "treasury_ok t" and "fst (sample h (mt_source m)) = Inr sm"
    and "tick_once Io_ok h m t = (r, m', t')"
  shows "(let burn = tick_burn h m sm; due = burn \<le> bal t; left = bal t - burn in
      unat (bal t') = unat (bal t) - (if due then unat burn else 0)
    \<and> mt_burned_sats m' = (if due then saturating_add (mt_burned_sats m) burn else mt_burned_sats m)
    \<and> r = Inr (if \<not> due then Insufficient (bal t)
               else if 0 < mt_halt_floor_sats m \<and> left < mt_halt_floor_sats m then Insufficient left
               else Debited burn left))"
  using assms(3)
  by (auto simp: tick_once_sample [OF assms(2)] debit_metered_Io_ok [OF assms(1)] bal_write_balance [OF assms(1)]
      floor_halt_reached_def Let_def unat_sub_exact word_le_nat_alt tick_meter_def split: if_splits)

text \<open>A VM with two CPUs, 64 MiB and a tick of 100 ms: 200 sat of CPU and 6 of memory. The first tick is
  paid, the second finds what is left below the floor, and a third the balance cannot cover.\<close>

abbreviation test_reading :: "u64 \<Rightarrow> host_reading" where
  "test_reading usec \<equiv> \<lparr>hr_cpu_stat = [], hr_mem_current = Inl [], hr_elapsed_usec = usec,
     hr_tree_pids = (\<lambda>p. Inr []), hr_cpu_nsec = (\<lambda>p. Inr 0), hr_egress_bytes = None\<rparr>"

abbreviation test_meter :: meter where
  "test_meter \<equiv> set_halt_floor 100
     (new_meter (Allocation \<lparr>as_vcpu_count = 2, as_mem_bytes = 67108864\<rparr>) burn_rates_default 100 0 0)"

lemma test_tick_burn: "tick_burn (test_reading 100000) test_meter \<lparr>ms_cpu_usec = 200000, ms_mem_bytes = 67108864\<rparr> = 206"
  by (simp add: tick_burn_def burn_for_tick_def new_meter_def set_halt_floor_def burn_rates_default_def Let_def
      next_egress_delta_def saturating_sub_def checked_sub_def saturating_mul_def saturating_add_def checked_add_def
      word_le_nat_alt)

theorem tick_halts_exactly_witness:
  "fst (tick_once Io_ok (test_reading 100000) test_meter (open_temporary 300)) = Inr (Insufficient 94)"
proof -
  let ?h = "test_reading 100000" and ?sm = "\<lparr>ms_cpu_usec = 200000, ms_mem_bytes = 67108864\<rparr>"
  have s: "fst (sample ?h (mt_source test_meter)) = Inr ?sm"
    by (simp add: new_meter_def set_halt_floor_def allocation_sample_at_def saturating_mul_def)
  obtain r m' t' where o: "tick_once Io_ok ?h test_meter (open_temporary 300) = (r, m', t')"
    using prod_cases3 by blast
  have "mt_halt_floor_sats test_meter = 100" by (simp add: set_halt_floor_def)
  with tick_halts_exactly [OF open_temporary_ok(1) s o] show ?thesis
    unfolding o test_tick_burn Let_def by (simp add: open_temporary_ok word_le_nat_alt word_less_nat_alt)
qed

section \<open>The run\<close>

definition rent_due :: "meter_sample_source \<Rightarrow> burn_rates \<Rightarrow> u64 \<Rightarrow> host_reading \<Rightarrow> bool" where
  "rent_due src rates tick_ms h \<longleftrightarrow>
     (case fst (sample h src) of
        Inl e \<Rightarrow> False
      | Inr sm \<Rightarrow> 2 ^ 20 * 1000 \<le> unat (ms_mem_bytes sm) * unat tick_ms * unat (br_mem_sats_per_mib_sec rates))"

lemma mem_sats_pos:
  fixes m t r :: nat
  assumes "1048576000 \<le> m * t * r"
  shows "1048576000 \<le> min (min (m * t) 18446744073709551615 * r) 18446744073709551615"
proof (cases "m * t \<le> 18446744073709551615")
  case False
  moreover have "r > 0" using assms by (cases r) auto
  then have "18446744073709551615 * 1 \<le> 18446744073709551615 * r" by (intro mult_le_mono) auto
  ultimately show ?thesis by simp
qed (use assms in \<open>simp add: min_def\<close>)

lemma rent_burns:
  assumes "rent_due (mt_source m) (mt_rates m) (mt_tick_ms m) h" and "fst (sample h (mt_source m)) = Inr sm"
  shows "1 \<le> tick_burn h m sm"
proof -
  let ?s = "saturating_mul (saturating_mul (ms_mem_bytes sm) (mt_tick_ms m)) (br_mem_sats_per_mib_sec (mt_rates m))"
  have "1048576000 \<le> unat ?s"
    using mem_sats_pos assms by (simp add: rent_due_def unat_saturating_mul)
  then have "1 \<le> unat ?s div 1048576000" by (simp add: Suc_le_eq div_greater_zero_iff)
  moreover have "max (saturating_mul (1024 * 1024 :: u64) 1000) 1 = 1048576000"
    by (simp add: saturating_mul_def max_def word_le_nat_alt)
  ultimately have "1 \<le> unat (tick_burn h m sm)"
    by (simp add: tick_burn_def burn_for_tick_def Let_def unat_saturating_add unat_div)
  then show ?thesis by (simp add: word_le_nat_alt)
qed

text \<open>Whether the process-tree source can be read, and the memory it reports, do not depend on the
  readings it keeps of pids that have exited.\<close>

definition same_host :: "host_source \<Rightarrow> host_source \<Rightarrow> bool" where
  "same_host src src' \<longleftrightarrow> hs_root_pid src = hs_root_pid src' \<and> hs_service_pids src = hs_service_pids src'
     \<and> hs_memory_cap_bytes src = hs_memory_cap_bytes src'"

lemma accumulate_pid_host: "same_host (snd (accumulate_pid pid x src)) src"
  by (auto simp: accumulate_pid_def same_host_def split: sum.split)

lemma accumulate_pid_same:
  "same_host src src' \<Longrightarrow>
     (case fst (accumulate_pid pid x src) of
        Inl e \<Rightarrow> fst (accumulate_pid pid x src') = Inl e
      | Inr (c, live) \<Rightarrow> \<exists>c'. fst (accumulate_pid pid x src') = Inr (c', live))"
  by (auto simp: accumulate_pid_def same_host_def split: sum.split)

lemma same_host_trans: "same_host a b \<Longrightarrow> same_host b c \<Longrightarrow> same_host a c"
  and same_host_sym: "same_host a b \<Longrightarrow> same_host b a"
  by (simp_all add: same_host_def)

lemma sum_pids_host: "same_host (snd (sum_pids h pids n k src)) src"
proof (induction h pids n k src rule: sum_pids.induct)
  case (1 h nsec sampled src)
  then show ?case by (simp add: same_host_def)
next
  case (2 h pid pids nsec sampled src)
  obtain r src' where a: "accumulate_pid pid (hr_cpu_nsec h pid) src = (r, src')" by fastforce
  then have "same_host src' src" using accumulate_pid_host [of pid "hr_cpu_nsec h pid" src] by simp
  then show ?case using 2 [OF a [symmetric]]
    by (cases r) (auto simp: a intro: same_host_trans [of _ src' src])
qed

lemma sum_pids_same:
  "same_host src src' \<Longrightarrow> fst (sum_pids h pids n k src) = Inr (c, s) \<Longrightarrow>
     \<exists>c'. fst (sum_pids h pids n' k src') = Inr (c', s)"
proof (induction pids arbitrary: n n' k src src')
  case (Cons pid pids)
  let ?x = "hr_cpu_nsec h pid"
  obtain r q where a: "accumulate_pid pid ?x src = (r, q)" by fastforce
  obtain r' q' where a': "accumulate_pid pid ?x src' = (r', q')" by fastforce
  have q: "same_host q q'"
    using accumulate_pid_host [of pid ?x src] accumulate_pid_host [of pid ?x src'] Cons.prems(1) a a'
    by (simp add: same_host_def)
  show ?case
  proof (cases r)
    case (Inl e)
    with Cons.prems(2) a show ?thesis by simp
  next
    case (Inr cl)
    then obtain c1 live where r: "r = Inr (c1, live)" by (cases cl) auto
    with accumulate_pid_same [OF Cons.prems(1), of pid ?x] obtain c1' where r': "r' = Inr (c1', live)"
      by (auto simp: a a')
    from Cons.prems(2) have "fst (sum_pids h pids (saturating_add n c1) (if live then k + 1 else k) q) = Inr (c, s)"
      by (simp add: a r)
    from Cons.IH [OF q this, of "saturating_add n' c1'"] show ?thesis by (simp add: a' r')
  qed
qed simp

lemma host_sample_host: "same_host (snd (host_sample h src)) src"
proof -
  have "same_host (snd (sum_pids h pids 0 0 src)) src" for pids by (rule sum_pids_host)
  moreover have "same_host src src" by (simp add: same_host_def)
  ultimately show ?thesis
    by (auto simp: host_sample_def split: sum.split prod.split) (metis snd_conv)+
qed

lemma host_sample_same:
  assumes "same_host src src'" and "fst (host_sample h src) = Inr sm"
  shows "\<exists>sm'. fst (host_sample h src') = Inr sm' \<and> ms_mem_bytes sm' = ms_mem_bytes sm"
proof -
  from assms(1) have eq: "hs_root_pid src' = hs_root_pid src" "hs_service_pids src' = hs_service_pids src"
    "hs_memory_cap_bytes src' = hs_memory_cap_bytes src" by (simp_all add: same_host_def)
  obtain tree pids where tree: "hr_tree_pids h (hs_root_pid src) = Inr tree"
      "service_trees h (hs_root_pid src) tree (hs_service_pids src) = Inr pids"
    using assms(2) by (auto simp: host_sample_def split: sum.splits)
  obtain r q where s: "sum_pids h pids 0 0 src = (r, q)" by fastforce
  with assms(2) tree have "\<exists>c n. r = Inr (c, n) \<and> n \<noteq> 0 \<and> ms_mem_bytes sm = hs_memory_cap_bytes src"
    by (auto simp: host_sample_def split: sum.splits prod.splits if_splits)
  then obtain c n where r: "r = Inr (c, n)" "n \<noteq> 0" "ms_mem_bytes sm = hs_memory_cap_bytes src" by blast
  from sum_pids_same [OF assms(1), of h pids 0 0 c n 0] s r(1)
  obtain c' where c': "fst (sum_pids h pids 0 0 src') = Inr (c', n)" by auto
  obtain q' where s': "sum_pids h pids 0 0 src' = (Inr (c', n), q')" using c' by (metis prod.collapse)
  from s' r tree eq show ?thesis by (simp add: host_sample_def)
qed

text \<open>So what a source owes for the memory it holds is the same after it was sampled.\<close>

lemma rent_due_sampled:
  "rent_due src rates tick_ms h \<Longrightarrow> rent_due (snd (sample h' src)) rates tick_ms h"
proof (cases src)
  case (HostProcess hs)
  assume due: "rent_due src rates tick_ms h"
  then obtain sm where sm: "fst (host_sample h hs) = Inr sm"
    and owed: "2 ^ 20 * 1000 \<le> unat (ms_mem_bytes sm) * unat tick_ms * unat (br_mem_sats_per_mib_sec rates)"
    by (auto simp: rent_due_def HostProcess sample_def split: prod.splits sum.splits)
  let ?hs' = "snd (host_sample h' hs)"
  from host_sample_same [OF same_host_sym [OF host_sample_host] sm, of h']
  obtain sm' where sm': "fst (host_sample h ?hs') = Inr sm'" "ms_mem_bytes sm' = ms_mem_bytes sm" by blast
  have "snd (sample h' src) = HostProcess ?hs'" by (simp add: HostProcess sample_def split: prod.split)
  moreover have "fst (sample h (HostProcess ?hs')) = Inr sm'"
    using sm'(1) by (cases "host_sample h ?hs'") (simp add: sample_def)
  ultimately show ?thesis using sm'(2) owed by (simp add: rent_due_def)
qed (simp_all add: rent_due_def)

lemma runway_hint [simp]: "bal (publish_runway_hint s t) = bal t"
  "treasury_ok (publish_runway_hint s t) = treasury_ok t" "rent_sats (publish_runway_hint s t) = rent_sats t"
  by (simp_all add: publish_runway_hint_def bal_def treasury_ok_def)

lemma hint_rent: "treasury_ok t \<Longrightarrow> treasury_ok (publish_hint e t)"
  by (simp add: publish_hint_def apply_ops_stable(1) split: option.split)

lemma hint_balance:
  assumes "treasury_ok t" and "\<forall>(io, oper)\<in>set (te_emitting e). \<not> raises_balance oper"
  shows "bal (publish_hint e t) \<le> bal t"
  using assms ops_balance [of "publish_runway_hint s t" "te_emitting e" for s]
  by (auto simp: publish_hint_def split: option.split)

lemma hint_quiet: "te_emitting e = [] \<Longrightarrow> bal (publish_hint e t) = bal t"
  by (simp add: publish_hint_def split: option.split)

lemma debit_metered_fault: "io \<noteq> Io_ok \<Longrightarrow> \<exists>err. fst (debit_metered io n t) = Inl err"
  by (cases io) (auto simp: debit_metered_def run_txn_def split: sum.split)

text \<open>C28: An agent that pays rent dies when it is broke: if the VM stays up, the deadline does not pass, the
  host stays readable and holds enough memory to owe at least one sat per tick (whichever of the three
  sources is metered), and no other task raises the balance, then within as many ticks as there are sats
  left plus one, whatever else the agent spends, the run ends in \<open>BudgetExhausted\<close>, unless the store
  failed at one of these ticks, and then it ends in that error (both make the daemon halt the VM). The
  balance it reports is what the refused tick left; other tasks can only have lowered it since, while the
  emitter published, and if they did not touch the treasury there it is the balance in the treasury.\<close>

theorem rent_kills:
  assumes "treasury_ok t" and "unat (bal t) < length es"
    and "\<forall>e\<in>set es. te_alive e \<and> \<not> te_deadline e
      \<and> rent_due (mt_source m) (mt_rates m) (mt_tick_ms m) (te_reading e)
      \<and> (\<forall>(io, oper)\<in>set (te_others e) \<union> set (te_emitting e). \<not> raises_balance oper)"
  shows "(\<exists>b n k m' t'. tick_until_exhausted es m t = (Inr (Some (BudgetExhausted b n k)), m', t')
        \<and> bal t' \<le> n \<and> ((\<forall>e\<in>set es. te_emitting e = []) \<longrightarrow> bal t' = n))
    \<or> (\<exists>err m' t'. tick_until_exhausted es m t = (Inl (Meter_treasury err), m', t')
        \<and> (\<exists>e\<in>set es. te_io e \<noteq> Io_ok))"
  using assms
proof (induction es arbitrary: m t)
  case (Cons e es)
  let ?t0 = "apply_ops (te_others e) t" and ?h = "te_reading e"
  have ok: "treasury_ok ?t0" using Cons.prems(1) by (rule apply_ops_stable(1))
  have le: "bal ?t0 \<le> bal t" using Cons.prems(1,3) by (intro ops_balance) auto
  have emits: "\<forall>(io, oper)\<in>set (te_emitting e). \<not> raises_balance oper" using Cons.prems(3) by auto
  obtain sm where sm: "fst (sample ?h (mt_source m)) = Inr sm"
    using Cons.prems(3) by (auto simp: rent_due_def split: sum.splits)
  let ?burn = "tick_burn ?h m sm"
  have burn: "1 \<le> ?burn" using rent_burns [OF _ sm] Cons.prems(3) by simp
  have alive: "te_alive e" "\<not> te_deadline e" using Cons.prems(3) by auto
  consider "te_io e \<noteq> Io_ok"
    | "te_io e = Io_ok" "?burn \<le> bal ?t0 \<and> \<not> floor_halt_reached (bal ?t0 - ?burn) (mt_halt_floor_sats m)"
    | "te_io e = Io_ok" "\<not> (?burn \<le> bal ?t0 \<and> \<not> floor_halt_reached (bal ?t0 - ?burn) (mt_halt_floor_sats m))"
    by blast
  then show ?case
  proof cases
    case 1
    then obtain err t' where "debit_metered (te_io e) ?burn ?t0 = (Inl err, t')"
      using debit_metered_fault by (metis prod.collapse)
    then show ?thesis using 1 by (simp add: tick_once_sample [OF sm] alive Let_def)
  next
    case 2
    let ?m1 = "(tick_meter ?h m sm)\<lparr>mt_burned_sats := saturating_add (mt_burned_sats m) ?burn\<rparr>"
    let ?t1 = "(write_balance (bal ?t0 - ?burn) ?t0)\<lparr>rent_sats := rent_sats ?t0 + ?burn\<rparr>"
    have ok1: "treasury_ok ?t1" by (rule metered_treasury(1) [OF ok])
    have b1: "bal ?t1 = bal ?t0 - ?burn" by (rule metered_treasury(2) [OF ok])
    have "unat (bal ?t0 - ?burn) < unat (bal ?t0)"
      using 2 burn by (simp add: unat_sub_exact word_le_nat_alt)
    moreover have "unat (bal (publish_hint e ?t1)) \<le> unat (bal ?t0 - ?burn)"
      using hint_balance [OF ok1 emits] unfolding b1 by (simp only: word_le_nat_alt)
    ultimately have "unat (bal (publish_hint e ?t1)) < length es"
      using Cons.prems(2) le by (simp add: word_le_nat_alt)
    moreover have "\<forall>e\<in>set es. te_alive e \<and> \<not> te_deadline e
        \<and> rent_due (mt_source ?m1) (mt_rates ?m1) (mt_tick_ms ?m1) (te_reading e)
        \<and> (\<forall>(io, oper)\<in>set (te_others e) \<union> set (te_emitting e). \<not> raises_balance oper)"
      using Cons.prems(3) rent_due_sampled by (simp add: tick_meter_def)
    ultimately have IH: "(\<exists>b n k m' t'. tick_until_exhausted es ?m1 (publish_hint e ?t1) =
          (Inr (Some (BudgetExhausted b n k)), m', t')
          \<and> bal t' \<le> n \<and> ((\<forall>e\<in>set es. te_emitting e = []) \<longrightarrow> bal t' = n))
      \<or> (\<exists>err m' t'. tick_until_exhausted es ?m1 (publish_hint e ?t1) = (Inl (Meter_treasury err), m', t')
          \<and> (\<exists>e\<in>set es. te_io e \<noteq> Io_ok))"
      using hint_rent [OF ok1] by (intro Cons.IH) auto
    have "tick_until_exhausted (e # es) m t = tick_until_exhausted es ?m1 (publish_hint e ?t1)"
      using 2 by (simp add: tick_once_sample [OF sm] debit_metered_Io_ok [OF ok] alive Let_def)
    with IH show ?thesis by auto
  next
    case 3
    show ?thesis
    proof (cases "?burn \<le> bal ?t0")
      case True
      let ?t1 = "(write_balance (bal ?t0 - ?burn) ?t0)\<lparr>rent_sats := rent_sats ?t0 + ?burn\<rparr>"
      have ok1: "treasury_ok ?t1" by (rule metered_treasury(1) [OF ok])
      have b1: "bal ?t1 = bal ?t0 - ?burn" by (rule metered_treasury(2) [OF ok])
      from True 3 hint_balance [OF ok1 emits] hint_quiet [of e ?t1] show ?thesis
        unfolding b1 by (simp add: tick_once_sample [OF sm] debit_metered_Io_ok [OF ok] alive Let_def)
    next
      case False
      with 3 hint_balance [OF ok emits] hint_quiet [of e ?t0] show ?thesis
        by (simp add: tick_once_sample [OF sm] debit_metered_Io_ok [OF ok] alive Let_def)
    qed
  qed
qed simp

text \<open>A process-tree source of 64 MiB and 3 sats: it dies within four ticks.\<close>

abbreviation tree_reading :: host_reading where
  "tree_reading \<equiv> \<lparr>hr_cpu_stat = [], hr_mem_current = Inl [], hr_elapsed_usec = 0,
     hr_tree_pids = (\<lambda>p. Inr [p]), hr_cpu_nsec = (\<lambda>p. Inr 0), hr_egress_bytes = None\<rparr>"

abbreviation tree_meter :: meter where
  "tree_meter \<equiv> new_meter (HostProcess \<lparr>hs_root_pid = 7, hs_service_pids = [8], hs_memory_cap_bytes = 67108864,
     hs_last_cpu_nsec = Map.empty\<rparr>) burn_rates_default 100 0 0"

theorem rent_kills_witness:
  "\<exists>b n k m' t'. tick_until_exhausted (replicate 4 \<lparr>te_others = [(Io_ok, Meter 1)], te_alive = True,
       te_reading = tree_reading, te_io = Io_ok, te_hint = None, te_emitting = [], te_deadline = False\<rparr>)
       tree_meter (open_temporary 3)
     = (Inr (Some (BudgetExhausted b n k)), m', t') \<and> bal t' = n"
proof -
  let ?es = "replicate 4 \<lparr>te_others = [(Io_ok, Meter 1)], te_alive = True,
       te_reading = tree_reading, te_io = Io_ok, te_hint = None, te_emitting = [], te_deadline = False\<rparr>"
  have "rent_due (mt_source tree_meter) (mt_rates tree_meter) (mt_tick_ms tree_meter) tree_reading"
    by (simp add: rent_due_def new_meter_def sample_def host_sample_def accumulate_pid_def burn_rates_default_def)
  then have "(\<exists>b n k m' t'. tick_until_exhausted ?es tree_meter (open_temporary 3) =
        (Inr (Some (BudgetExhausted b n k)), m', t')
        \<and> bal t' \<le> n \<and> ((\<forall>e\<in>set ?es. te_emitting e = []) \<longrightarrow> bal t' = n))
    \<or> (\<exists>err m' t'. tick_until_exhausted ?es tree_meter (open_temporary 3) = (Inl (Meter_treasury err), m', t')
        \<and> (\<exists>e\<in>set ?es. te_io e \<noteq> Io_ok))"
    by (intro rent_kills [OF open_temporary_ok(1)]) (auto simp: open_temporary_ok)
  then show ?thesis by fastforce
qed

text \<open>The run accounts for every sat it burned.\<close>

fun meters :: "treasury_op \<Rightarrow> bool" where
  "meters (Meter n) = True"
| "meters oper = False"

lemma op_rent: "treasury_ok t \<Longrightarrow> \<not> meters oper \<Longrightarrow> rent_sats (apply_op io oper t) = rent_sats t"
  by (cases oper) (auto simp: op_effects snd_run_txn debited_facts credited_facts write_balance_ok
      record_issued_charge_def reconcile_to_observed_def publish_runway_hint_def run_txn_def Let_def
      split: sled_io.split option.split if_split sum.split)

lemma ops_rent: "treasury_ok t \<Longrightarrow> \<forall>(io, oper)\<in>set ops. \<not> meters oper \<Longrightarrow> rent_sats (apply_ops ops t) = rent_sats t"
  by (induction ops t rule: apply_ops.induct) (auto simp: op_rent apply_op_ok)

lemma hint_meters:
  "treasury_ok t \<Longrightarrow> \<forall>(io, oper)\<in>set (te_emitting e). \<not> meters oper \<Longrightarrow>
     rent_sats (publish_hint e t) = rent_sats t"
  by (simp add: publish_hint_def ops_rent split: option.split)

lemma tick_books:
  assumes "treasury_ok t" and "no_flush_fault io" and "tick_once io h m t = (r, m', t')"
  shows "treasury_ok t' \<and> (\<exists>c. rent_sats t' = rent_sats t + c \<and> c \<le> bal t \<and> bal t' = bal t - c
    \<and> mt_burned_sats m' = saturating_add (mt_burned_sats m) c)"
proof -
  have zero: "saturating_add b 0 = b" for b :: u64
    using unat_lt_pow [of b] by (simp add: saturating_add_def checked_add_def)
  have None: "?thesis" if "t' = t" "mt_burned_sats m' = mt_burned_sats m"
    using that assms(1) by (intro conjI exI [of _ 0]) (simp_all add: zero)
  show ?thesis
  proof (cases "fst (sample h (mt_source m))")
    case (Inl e)
    then show ?thesis using assms(3) by (intro None) (auto simp: tick_once_error)
  next
    case (Inr sm)
    consider "io = Io_ok" "tick_burn h m sm \<le> bal t" | "io = Io_ok" "\<not> tick_burn h m sm \<le> bal t"
      | e where "io = Txn_fault e" using no_flush_cases [OF assms(2)] by blast
    then show ?thesis
    proof cases
      case 1
      then show ?thesis using assms
        by (intro conjI exI [of _ "tick_burn h m sm"])
          (auto simp: tick_once_sample [OF Inr] debit_metered_Io_ok [OF assms(1)] metered_treasury [OF assms(1)]
            bal_write_balance [OF assms(1)] write_balance_ok ok_atomics)
    next
      case 2
      then show ?thesis using assms(3)
        by (intro None) (auto simp: tick_once_sample [OF Inr] debit_metered_Io_ok [OF assms(1)] tick_meter_def)
    next
      case 3
      then show ?thesis using assms(3)
        by (intro None) (auto simp: tick_once_sample [OF Inr] debit_metered_def tick_meter_def)
    qed
  qed
qed

text \<open>The run's own count is the treasury's: over any run of the meter, whatever the other tasks did to
  the treasury in between (short of metering it themselves) and whatever transactions failed to apply, the
  rent the treasury has accumulated grew by exactly the sats the meter counts as burned, and when no other
  task touched the treasury that is what its balance lost.\<close>

theorem run_accounts:
  assumes "treasury_ok t" and "tick_until_exhausted es m t = (r, m', t')"
    and "\<forall>e\<in>set es. no_flush_fault (te_io e) \<and> (\<forall>(io, oper)\<in>set (te_others e) \<union> set (te_emitting e). \<not> meters oper)"
  shows "\<exists>total. rent_sats t' = rent_sats t + of_nat total
    \<and> unat (mt_burned_sats m') = min (unat (mt_burned_sats m) + total) (2 ^ 64 - 1)
    \<and> ((\<forall>e\<in>set es. te_others e = [] \<and> te_emitting e = []) \<longrightarrow> unat (bal t') + total = unat (bal t))"
  using assms
proof (induction es arbitrary: m t)
  case Nil
  have "unat (mt_burned_sats m) \<le> 2 ^ 64 - 1" using unat_lt_pow [of "mt_burned_sats m"] by simp
  with Nil show ?case by (intro exI [of _ 0]) simp
next
  case (Cons e es)
  let ?t0 = "apply_ops (te_others e) t"
  have ok: "treasury_ok ?t0" using Cons.prems(1) by (rule apply_ops_stable(1))
  have rent: "rent_sats ?t0 = rent_sats t" using Cons.prems(1,3) by (intro ops_rent) auto
  have max: "unat (mt_burned_sats m) \<le> 2 ^ 64 - 1" using unat_lt_pow [of "mt_burned_sats m"] by simp
  obtain r1 m1 t1 where tick: "tick_once (te_io e) (te_reading e) m ?t0 = (r1, m1, t1)" by (metis prod_cases3)
  obtain c where c: "treasury_ok t1" "rent_sats t1 = rent_sats t + c" "c \<le> bal ?t0" "bal t1 = bal ?t0 - c"
    "mt_burned_sats m1 = saturating_add (mt_burned_sats m) c"
    using tick_books [OF ok _ tick] Cons.prems(3) rent by auto
  have emits: "rent_sats (publish_hint e t1) = rent_sats t1"
    "te_emitting e = [] \<Longrightarrow> bal (publish_hint e t1) = bal t1"
    using hint_meters [OF c(1), of e] Cons.prems(3) hint_quiet by auto
  have last: ?case if "m' = m1" "rent_sats t' = rent_sats t1" "te_emitting e = [] \<longrightarrow> bal t' = bal t1"
    using that c(3) by (intro exI [of _ "unat c"]) (auto simp: c unat_saturating_add unat_sub_exact word_le_nat_alt)
  have step: ?case if run: "tick_until_exhausted es m1 (publish_hint e t1) = (r, m', t')"
  proof -
    obtain total where total: "rent_sats t' = rent_sats t1 + of_nat total"
      "unat (mt_burned_sats m') = min (unat (mt_burned_sats m1) + total) (2 ^ 64 - 1)"
      "(\<forall>e\<in>set es. te_others e = [] \<and> te_emitting e = []) \<longrightarrow> unat (bal t') + total = unat (bal (publish_hint e t1))"
      using Cons.IH [OF _ run] hint_rent [OF c(1)] Cons.prems(3) emits(1) by auto
    show ?thesis
      using total c(3) emits(2) by (intro exI [of _ "unat c + total"])
        (auto simp: c unat_saturating_add unat_sub_exact word_le_nat_alt)
  qed
  show ?case
  proof (cases "te_alive e")
    case False
    with Cons.prems(2) rent max show ?thesis by (intro exI [of _ 0]) (auto simp: Let_def)
  next
    case True
    with Cons.prems(2) have "m' = m1 \<and> t' = t1 \<or> m' = m1 \<and> t' = publish_hint e t1
        \<or> tick_until_exhausted es m1 (publish_hint e t1) = (r, m', t')"
      by (auto simp: tick Let_def split: sum.splits if_splits debit_outcome.splits)
    then consider "m' = m1" "t' = t1 \<or> t' = publish_hint e t1"
      | "tick_until_exhausted es m1 (publish_hint e t1) = (r, m', t')" by blast
    then show ?thesis
    proof cases
      case 1
      then show ?thesis using emits by (intro last) auto
    next
      case 2
      then show ?thesis by (rule step)
    qed
  qed
qed

theorem run_accounts_witness:
  "\<exists>r m' t' total. tick_until_exhausted (replicate 2 \<lparr>te_others = [], te_alive = True, te_reading = test_reading 0,
       te_io = Io_ok, te_hint = None, te_emitting = [], te_deadline = False\<rparr>) test_meter (open_temporary 300) = (r, m', t')
     \<and> unat (bal t') + total = 300 \<and> rent_sats t' = of_nat total"
proof -
  let ?es = "replicate 2 \<lparr>te_others = [], te_alive = True, te_reading = test_reading 0,
       te_io = Io_ok, te_hint = None, te_emitting = [], te_deadline = False\<rparr>"
  obtain r m' t' where run: "tick_until_exhausted ?es test_meter (open_temporary 300) = (r, m', t')"
    by (metis prod_cases3)
  from run_accounts [OF open_temporary_ok(1) run]
  obtain total where "rent_sats t' = rent_sats (open_temporary 300) + of_nat total"
    "(\<forall>e\<in>set ?es. te_others e = [] \<and> te_emitting e = []) \<longrightarrow> unat (bal t') + total = unat (bal (open_temporary 300))"
    by auto
  with run show ?thesis
    by (intro exI [of _ r] exI [of _ m'] exI [of _ t'] exI [of _ total]) (simp add: open_temporary_ok)
qed

section \<open>Rounding\<close>

lemma sum_div_le: "(\<Sum>x\<leftarrow>xs. f x div d) \<le> (\<Sum>x\<leftarrow>xs. f x) div (d :: nat)"
proof (induction xs)
  case (Cons x xs)
  then have "(\<Sum>y\<leftarrow>x # xs. f y div d) \<le> f x div d + (\<Sum>y\<leftarrow>xs. f y) div d" by simp
  then show ?case using div_add1_eq [of "f x" "\<Sum>y\<leftarrow>xs. f y" d] by simp
qed simp

lemma sum_div_ge: "0 < d \<Longrightarrow> (\<Sum>x\<leftarrow>xs. f x) div (d :: nat) \<le> (\<Sum>x\<leftarrow>xs. f x div d) + length xs"
proof (induction xs)
  case (Cons x xs)
  have "(f x mod d + (\<Sum>y\<leftarrow>xs. f y) mod d) div d \<le> 1"
    using Cons.prems mod_less_divisor [of d "f x"] mod_less_divisor [of d "\<Sum>y\<leftarrow>xs. f y"]
    by (intro less_Suc_eq_le [THEN iffD1]) (auto simp: div_less_iff_less_mult intro: add_strict_mono)
  then show ?case using Cons div_add1_eq [of "f x" "\<Sum>y\<leftarrow>xs. f y" d] by simp
qed simp

text \<open>A tick is its CPU, memory and egress parts, as long as none of the products saturates.\<close>

definition in_bounds :: "burn_rates \<Rightarrow> u64 \<Rightarrow> u64 \<times> u64 \<times> u64 \<Rightarrow> bool" where
  "in_bounds r tick_ms x \<longleftrightarrow> (case x of (cpu, mem, egress) \<Rightarrow>
     unat cpu * unat (br_cpu_num r) < 2 ^ 62 \<and> unat mem * unat tick_ms * unat (br_mem_sats_per_mib_sec r) < 2 ^ 62
     \<and> unat mem * unat tick_ms < 2 ^ 64 \<and> unat egress * unat (br_egress_num r) < 2 ^ 62)"

abbreviation cpu_owed :: "burn_rates \<Rightarrow> u64 \<times> u64 \<times> u64 \<Rightarrow> nat" where
  "cpu_owed r \<equiv> \<lambda>(cpu, mem, egress). unat cpu * unat (br_cpu_num r)"

abbreviation mem_owed :: "burn_rates \<Rightarrow> u64 \<Rightarrow> u64 \<times> u64 \<times> u64 \<Rightarrow> nat" where
  "mem_owed r tick_ms \<equiv> \<lambda>(cpu, mem, egress). unat mem * unat tick_ms * unat (br_mem_sats_per_mib_sec r)"

abbreviation egress_owed :: "burn_rates \<Rightarrow> u64 \<times> u64 \<times> u64 \<Rightarrow> nat" where
  "egress_owed r \<equiv> \<lambda>(cpu, mem, egress). unat egress * unat (br_egress_num r)"

abbreviation den :: "u64 \<Rightarrow> nat" where "den d \<equiv> max (unat d) 1"

lemma burn_parts:
  assumes "in_bounds r tick_ms (cpu, mem, egress)"
  shows "unat (burn_for_tick r cpu mem egress tick_ms) =
    cpu_owed r (cpu, mem, egress) div den (br_cpu_den r)
    + mem_owed r tick_ms (cpu, mem, egress) div 1048576000
    + egress_owed r (cpu, mem, egress) div den (br_egress_den r)"
proof -
  have d: "unat (max d 1) = den d" for d :: u64 by (simp add: unat_max)
  have m: "max (saturating_mul (1024 * 1024 :: u64) 1000) 1 = 1048576000"
    by (simp add: saturating_mul_def max_def word_le_nat_alt)
  have le: "n < 4611686018427387904 \<Longrightarrow> n div k < 4611686018427387904" for n k :: nat
    by (metis div_le_dividend le_less_trans)
  let ?c = "cpu_owed r (cpu, mem, egress)" and ?m = "mem_owed r tick_ms (cpu, mem, egress)"
    and ?e = "egress_owed r (cpu, mem, egress)"
  have "?c div den (br_cpu_den r) < 2 ^ 62" "?m div 1048576000 < 2 ^ 62" "?e div den (br_egress_den r) < 2 ^ 62"
    using assms by (auto intro: le simp: in_bounds_def)
  then show ?thesis
    using assms by (simp add: burn_for_tick_def Let_def unat_saturating_add unat_saturating_mul unat_div m d in_bounds_def)
qed

text \<open>Billing by the tick neither overcharges nor loses more than the rounding: over any ticks whose
  products stay below 2 to the 62, the sats burned are at most what the CPU time, the memory held and the
  bytes sent add up to at the configured rates, and fall short of it by at most three sats per tick.\<close>

theorem rounding_bounded:
  fixes ticks :: "(u64 \<times> u64 \<times> u64) list"
  assumes "\<forall>x\<in>set ticks. in_bounds r tick_ms x"
  shows "(let burned = (\<Sum>(cpu, mem, egress)\<leftarrow>ticks. unat (burn_for_tick r cpu mem egress tick_ms));
      owed = (\<Sum>x\<leftarrow>ticks. cpu_owed r x) div den (br_cpu_den r)
        + (\<Sum>x\<leftarrow>ticks. mem_owed r tick_ms x) div 1048576000
        + (\<Sum>x\<leftarrow>ticks. egress_owed r x) div den (br_egress_den r)
    in burned \<le> owed \<and> owed \<le> burned + 3 * length ticks)"
proof -
  have "(\<Sum>(cpu, mem, egress)\<leftarrow>ticks. unat (burn_for_tick r cpu mem egress tick_ms)) =
      (\<Sum>x\<leftarrow>ticks. cpu_owed r x div den (br_cpu_den r)) + (\<Sum>x\<leftarrow>ticks. mem_owed r tick_ms x div 1048576000)
      + (\<Sum>x\<leftarrow>ticks. egress_owed r x div den (br_egress_den r))"
    using assms by (induction ticks) (auto simp: burn_parts)
  moreover have "0 < den d" for d by simp
  ultimately show ?thesis
    using sum_div_le [of "cpu_owed r" "den (br_cpu_den r)" ticks] sum_div_ge [of "den (br_cpu_den r)" "cpu_owed r" ticks]
      sum_div_le [of "mem_owed r tick_ms" 1048576000 ticks] sum_div_ge [of 1048576000 "mem_owed r tick_ms" ticks]
      sum_div_le [of "egress_owed r" "den (br_egress_den r)" ticks]
      sum_div_ge [of "den (br_egress_den r)" "egress_owed r" ticks]
    unfolding Let_def by linarith
qed

theorem rounding_bounded_witness:
  "(let burned = (\<Sum>(cpu, mem, egress)\<leftarrow>[(1999, 1048576, 0), (999, 0, 3)]. unat (burn_for_tick burn_rates_default cpu mem egress 100))
    in burned \<le> 5 \<and> 5 \<le> burned + 6)"
  using rounding_bounded [of "[(1999, 1048576, 0), (999, 0, 3)]" burn_rates_default 100]
  by (simp add: in_bounds_def burn_rates_default_def Let_def)

section \<open>A child process that exits\<close>

text \<open>The frozen reading covers a process that exits between the listing and its own sample. One that is
  gone from the listing is not summed at all, so the total falls back, the delta is clamped to zero, and
  what the remaining processes burn is free until the total has caught up.\<close>

abbreviation host_tick :: "u32 list \<Rightarrow> (u32 \<Rightarrow> u64) \<Rightarrow> host_reading" where
  "host_tick pids nsec \<equiv> \<lparr>hr_cpu_stat = [], hr_mem_current = Inl [], hr_elapsed_usec = 0,
     hr_tree_pids = (\<lambda>p. if p = 1 then Inr pids else Inr [p]), hr_cpu_nsec = (\<lambda>p. Inr (nsec p)), hr_egress_bytes = None\<rparr>"

theorem exited_child_unbilled:
  "\<exists>src src' src'' s1 s2.
     host_sample (host_tick [1, 7] (\<lambda>p. if p = 7 then 900000 else 1000))
       \<lparr>hs_root_pid = 1, hs_service_pids = [2], hs_memory_cap_bytes = 0, hs_last_cpu_nsec = Map.empty\<rparr> = (Inr s1, src')
   \<and> host_sample (host_tick [1] (\<lambda>p. 400000)) src' = (Inr s2, src'')
   \<and> hs_last_cpu_nsec src' 7 = Some 900000
   \<and> ms_cpu_usec s1 = 902 \<and> ms_cpu_usec s2 = 800 \<and> saturating_sub (ms_cpu_usec s2) (ms_cpu_usec s1) = 0"
  by (simp add: host_sample_def accumulate_pid_def saturating_add_def checked_add_def saturating_sub_def
      checked_sub_def word_le_nat_alt)

end
