(* ===== verification/Egress.thy ===== *)
theory Egress
  imports Publish
begin

text \<open>
  The HTTP egress actuator (\<open>egress.rs\<close>): the address floor, the request screen, the token bucket, the
  bounded read and the metered fetch. URL parsing, DNS, the HTTP client and SHA-256 are arguments, and so
  is the arithmetic of \<open>f64\<close>. The texts a request carries are lists of Unicode scalar values.
\<close>

section \<open>Addresses\<close>

text \<open>\<open>Ipv4Addr\<close> is its four octets, \<open>Ipv6Addr\<close> its eight segments; the tests are the standard library's.\<close>

datatype ipv4 = Ipv4 u8 u8 u8 u8

datatype ipv6 = Ipv6 u16 u16 u16 u16 u16 u16 u16 u16

datatype ip_addr = V4 ipv4 | V6 ipv6

fun v4_is_loopback :: "ipv4 \<Rightarrow> bool" where "v4_is_loopback (Ipv4 a b c d) \<longleftrightarrow> a = 127"

fun v4_is_private :: "ipv4 \<Rightarrow> bool" where
  "v4_is_private (Ipv4 a b c d) \<longleftrightarrow> a = 10 \<or> a = 172 \<and> 16 \<le> b \<and> b \<le> 31 \<or> a = 192 \<and> b = 168"

fun v4_is_link_local :: "ipv4 \<Rightarrow> bool" where "v4_is_link_local (Ipv4 a b c d) \<longleftrightarrow> a = 169 \<and> b = 254"

fun v4_is_broadcast :: "ipv4 \<Rightarrow> bool" where
  "v4_is_broadcast (Ipv4 a b c d) \<longleftrightarrow> a = 255 \<and> b = 255 \<and> c = 255 \<and> d = 255"

fun v4_is_multicast :: "ipv4 \<Rightarrow> bool" where "v4_is_multicast (Ipv4 a b c d) \<longleftrightarrow> 224 \<le> a \<and> a \<le> 239"

fun v4_is_unspecified :: "ipv4 \<Rightarrow> bool" where
  "v4_is_unspecified (Ipv4 a b c d) \<longleftrightarrow> a = 0 \<and> b = 0 \<and> c = 0 \<and> d = 0"

fun v4_is_denied :: "ipv4 \<Rightarrow> bool" where
  "v4_is_denied (Ipv4 o0 o1 o2 o3) \<longleftrightarrow>
     (let v4 = Ipv4 o0 o1 o2 o3
      in v4_is_loopback v4 \<or> v4_is_private v4 \<or> v4_is_link_local v4 \<or> v4_is_broadcast v4
         \<or> v4_is_multicast v4 \<or> v4_is_unspecified v4
         \<or> o0 = 0
         \<or> o0 = 100 \<and> 64 \<le> o1 \<and> o1 \<le> 127
         \<or> o0 = 198 \<and> (o1 = 18 \<or> o1 = 19))"

definition high_octet :: "u16 \<Rightarrow> u8" where "high_octet s = ucast (drop_bit 8 s)"

definition low_octet :: "u16 \<Rightarrow> u8" where "low_octet s = ucast s"

text \<open>\<open>Ipv6Addr::to_ipv4\<close>: the v4-mapped and the v4-compatible addresses.\<close>

fun to_ipv4 :: "ipv6 \<Rightarrow> ipv4 option" where
  "to_ipv4 (Ipv6 s0 s1 s2 s3 s4 s5 s6 s7) =
     (if s0 = 0 \<and> s1 = 0 \<and> s2 = 0 \<and> s3 = 0 \<and> s4 = 0 \<and> (s5 = 0 \<or> s5 = 0xffff)
      then Some (Ipv4 (high_octet s6) (low_octet s6) (high_octet s7) (low_octet s7)) else None)"

fun v6_is_loopback :: "ipv6 \<Rightarrow> bool" where
  "v6_is_loopback (Ipv6 s0 s1 s2 s3 s4 s5 s6 s7) \<longleftrightarrow>
     s0 = 0 \<and> s1 = 0 \<and> s2 = 0 \<and> s3 = 0 \<and> s4 = 0 \<and> s5 = 0 \<and> s6 = 0 \<and> s7 = 1"

fun v6_is_unspecified :: "ipv6 \<Rightarrow> bool" where
  "v6_is_unspecified (Ipv6 s0 s1 s2 s3 s4 s5 s6 s7) \<longleftrightarrow>
     s0 = 0 \<and> s1 = 0 \<and> s2 = 0 \<and> s3 = 0 \<and> s4 = 0 \<and> s5 = 0 \<and> s6 = 0 \<and> s7 = 0"

fun v6_is_multicast :: "ipv6 \<Rightarrow> bool" where
  "v6_is_multicast (Ipv6 s0 s1 s2 s3 s4 s5 s6 s7) \<longleftrightarrow> high_octet s0 = 0xff"

fun is_unique_local_v6 :: "ipv6 \<Rightarrow> bool" where
  "is_unique_local_v6 (Ipv6 s0 s1 s2 s3 s4 s5 s6 s7) \<longleftrightarrow> and (high_octet s0) 0xfe = 0xfc"

fun is_link_local_v6 :: "ipv6 \<Rightarrow> bool" where
  "is_link_local_v6 (Ipv6 s0 s1 s2 s3 s4 s5 s6 s7) \<longleftrightarrow> high_octet s0 = 0xfe \<and> and (low_octet s0) 0xc0 = 0x80"

fun ip_is_denied :: "ip_addr \<Rightarrow> bool" where
  "ip_is_denied (V4 v4) = v4_is_denied v4"
| "ip_is_denied (V6 v6) =
     (case to_ipv4 v6 of
        Some v4 \<Rightarrow> v4_is_denied v4
      | None \<Rightarrow> v6_is_loopback v6 \<or> v6_is_multicast v6 \<or> v6_is_unspecified v6
          \<or> is_unique_local_v6 v6 \<or> is_link_local_v6 v6)"

definition screen_resolved_ips :: "ip_addr list \<Rightarrow> string + ip_addr" where
  "screen_resolved_ips ips =
     (case ips of
        [] \<Rightarrow> Inl ''host resolved to no addresses''
      | ip # _ \<Rightarrow> if list_ex ip_is_denied ips
                  then Inl ''host resolves to a denied address; the non-relaxable SSRF floor refuses it''
                  else Inr ip)"

section \<open>The policy and the request screen\<close>

definition trim :: "utext \<Rightarrow> utext" where
  "trim s = rev (dropWhile is_whitespace (rev (dropWhile is_whitespace s)))"

definition to_ascii_uppercase :: "utext \<Rightarrow> utext" where
  "to_ascii_uppercase s = map (\<lambda>c. if 97 \<le> c \<and> c \<le> 122 then c - 32 else c) s"

definition to_ascii_lowercase :: "utext \<Rightarrow> utext" where
  "to_ascii_lowercase s = map (\<lambda>c. if 65 \<le> c \<and> c \<le> 90 then c + 32 else c) s"

definition lit :: "string \<Rightarrow> utext" where "lit s = map of_char s"

record egress_policy =
  ep_host_allowlist :: "utext list"
  ep_methods :: "utext list"
  ep_max_response_bytes :: u32
  ep_timeout_ms :: u32
  ep_sats_per_request :: u64
  ep_sats_per_kib :: u64
  ep_rate_per_min :: u32
  ep_refused_hosts :: "utext list"

definition from_config :: "egress_policy \<Rightarrow> utext list \<Rightarrow> egress_policy" where
  "from_config cfg refused_hosts =
     cfg\<lparr>ep_host_allowlist := map to_ascii_lowercase (ep_host_allowlist cfg),
         ep_methods := map to_ascii_uppercase (ep_methods cfg),
         ep_refused_hosts := map to_ascii_lowercase (filter (\<lambda>h. h \<noteq> []) refused_hosts)\<rparr>"

record http_header =
  hh_name :: utext
  hh_value :: utext

record http_fetch =
  hf_method :: utext
  hf_url :: utext
  hf_headers :: "http_header list"
  hf_max_response_bytes :: u32
  hf_timeout_ms :: u32

record parsed_url =
  pu_scheme :: utext
  pu_username :: utext
  pu_password :: "utext option"
  pu_host :: "utext option"
  pu_port_or_known_default :: "u16 option"

record screened_request =
  sq_method :: utext
  sq_host :: utext
  sq_port :: u16
  sq_url :: utext

definition screen_request ::
  "(utext \<Rightarrow> string + parsed_url) \<Rightarrow> egress_policy \<Rightarrow> http_fetch \<Rightarrow> string + screened_request" where
  "screen_request parse_url policy fetch =
     (let meth = to_ascii_uppercase (trim (hf_method fetch)); url = trim (hf_url fetch)
      in if meth \<noteq> lit ''GET'' \<and> meth \<noteq> lit ''HEAD''
           then Inl ''method not permitted (Increment 1 is GET/HEAD only)''
         else if meth \<notin> set (ep_methods policy) then Inl ''method is not in the egress policy method set''
         else case parse_url url of
           Inl e \<Rightarrow> Inl (''unparseable url: '' @ e)
         | Inr p \<Rightarrow>
             if pu_scheme p \<noteq> lit ''https'' then Inl ''scheme not permitted (https only in Increment 1)''
             else if pu_username p \<noteq> [] \<or> pu_password p \<noteq> None
               then Inl ''url must not contain userinfo (user:pass@host)''
             else (case pu_host p of
               None \<Rightarrow> Inl ''url has no host''
             | Some h \<Rightarrow>
                 (let host = to_ascii_lowercase h;
                      port = (case pu_port_or_known_default p of Some n \<Rightarrow> n | None \<Rightarrow> 443)
                  in if host \<notin> set (ep_host_allowlist policy) then Inl ''host is not on the egress allowlist''
                     else if host \<in> set (ep_refused_hosts policy) then Inl ''host is a refused infra host''
                     else Inr \<lparr>sq_method = meth, sq_host = host, sq_port = port, sq_url = url\<rparr>)))"

section \<open>The token bucket\<close>

record ('f, 't) float_ops =
  fo_of_u32 :: "u32 \<Rightarrow> 'f"
  fo_elapsed_secs :: "'t \<Rightarrow> 't \<Rightarrow> 'f"
  fo_add :: "'f \<Rightarrow> 'f \<Rightarrow> 'f"
  fo_sub :: "'f \<Rightarrow> 'f \<Rightarrow> 'f"
  fo_mul :: "'f \<Rightarrow> 'f \<Rightarrow> 'f"
  fo_div :: "'f \<Rightarrow> 'f \<Rightarrow> 'f"
  fo_min :: "'f \<Rightarrow> 'f \<Rightarrow> 'f"
  fo_le :: "'f \<Rightarrow> 'f \<Rightarrow> bool"

record ('f, 't) token_bucket =
  tb_capacity :: 'f
  tb_tokens :: 'f
  tb_per_sec :: 'f
  tb_last :: 't

definition bucket_new :: "('f, 't) float_ops \<Rightarrow> u32 \<Rightarrow> 't \<Rightarrow> ('f, 't) token_bucket" where
  "bucket_new fo rate_per_min now =
     (let cap = fo_of_u32 fo (max rate_per_min 1)
      in \<lparr>tb_capacity = cap, tb_tokens = cap, tb_per_sec = fo_div fo cap (fo_of_u32 fo 60), tb_last = now\<rparr>)"

definition try_take :: "('f, 't) float_ops \<Rightarrow> 't \<Rightarrow> ('f, 't) token_bucket \<Rightarrow> bool \<times> ('f, 't) token_bucket" where
  "try_take fo now b =
     (let elapsed = fo_elapsed_secs fo now (tb_last b);
          tokens = fo_min fo (fo_add fo (tb_tokens b) (fo_mul fo elapsed (tb_per_sec b))) (tb_capacity b)
      in if fo_le fo (fo_of_u32 fo 1) tokens
         then (True, b\<lparr>tb_last := now, tb_tokens := fo_sub fo tokens (fo_of_u32 fo 1)\<rparr>)
         else (False, b\<lparr>tb_last := now, tb_tokens := tokens\<rparr>))"

section \<open>Cost\<close>

definition meter_kib :: "egress_policy \<Rightarrow> u64 \<Rightarrow> u64" where
  "meter_kib policy len =
     saturating_add (ep_sats_per_request policy) (saturating_mul (div_ceil len 1024) (ep_sats_per_kib policy))"

definition worst_case_cost :: "egress_policy \<Rightarrow> u64" where
  "worst_case_cost policy = meter_kib policy (ucast (ep_max_response_bytes policy))"

definition fetch_cost :: "egress_policy \<Rightarrow> nat \<Rightarrow> u64" where
  "fetch_cost policy body_len = meter_kib policy (of_nat body_len)"

definition effective_response_cap :: "egress_policy \<Rightarrow> u32 \<Rightarrow> u32" where
  "effective_response_cap policy caller =
     (if caller = 0 then ep_max_response_bytes policy else min caller (ep_max_response_bytes policy))"

definition effective_timeout :: "egress_policy \<Rightarrow> u32 \<Rightarrow> u32" where
  "effective_timeout policy caller =
     max (if caller = 0 then ep_timeout_ms policy else min caller (ep_timeout_ms policy)) 1"

text \<open>A response body as it arrives: chunks, ended by end of stream or by an error.\<close>

fun read_bounded :: "nat \<Rightarrow> bytes \<Rightarrow> (string + bytes) list \<Rightarrow> bytes \<times> bool" where
  "read_bounded cap body [] = (body, False)"
| "read_bounded cap body (Inl e # chunks) = (body, False)"
| "read_bounded cap body (Inr chunk # chunks) =
     (if length body + length chunk > cap then (body @ take (cap - length body) chunk, True)
      else read_bounded cap (body @ chunk) chunks)"

definition fetch_proof :: "(bytes \<Rightarrow> bytes) \<Rightarrow> u32 \<Rightarrow> bytes \<Rightarrow> bytes" where
  "fetch_proof sha256 status body = be_digits 4 (unat status) @ sha256 body"

definition RESP_HEADER_ALLOWLIST :: "string list" where
  "RESP_HEADER_ALLOWLIST = [''content-type'', ''content-length'', ''content-encoding'', ''content-language'', ''date'',
     ''last-modified'', ''etag'', ''cache-control'', ''expires'']"

definition REQ_HEADER_ALLOWLIST :: "string list" where
  "REQ_HEADER_ALLOWLIST = [''accept'', ''accept-language'', ''user-agent'', ''if-none-match'', ''if-modified-since'']"

text \<open>A response header's value may not be text.\<close>

definition allowlisted_response_headers :: "(string \<times> string option) list \<Rightarrow> (string \<times> string) list" where
  "allowlisted_response_headers hs =
     List.map_filter (\<lambda>(name, value). map_option (Pair name) value)
       (filter (\<lambda>(name, value). name \<in> set RESP_HEADER_ALLOWLIST) hs)"

section \<open>The fetch\<close>

text \<open>What the client is asked for; redirects are disabled in every request it gets.\<close>

record client_request =
  cq_method :: utext
  cq_url :: utext
  cq_pinned_host :: utext
  cq_pinned_ip :: ip_addr
  cq_port :: u16
  cq_timeout_ms :: u32
  cq_headers :: "http_header list"

record client_response =
  cs_status :: u32
  cs_final_url :: string
  cs_headers :: "(string \<times> string option) list"
  cs_chunks :: "(string + bytes) list"

record ('f, 't, 'n) egress_seams =
  es_floats :: "('f, 't) float_ops"
  es_now :: "'n \<Rightarrow> 't"
  es_decode :: "bytes \<Rightarrow> string + http_fetch"
  es_parse_url :: "utext \<Rightarrow> string + parsed_url"
  es_resolve :: "utext \<Rightarrow> u16 \<Rightarrow> 'n \<Rightarrow> (string + ip_addr list) \<times> 'n"
  es_build_client :: "client_request \<Rightarrow> bool"
  es_send :: "client_request \<Rightarrow> 'n \<Rightarrow> (string + client_response) \<times> 'n"
  es_sha256 :: "bytes \<Rightarrow> bytes"

definition egress_cost :: "egress_policy \<Rightarrow> string \<Rightarrow> u64" where
  "egress_cost policy kind = (if kind = ACTUATE_KIND_HTTP_FETCH then worst_case_cost policy else - 1)"

definition egress_validate :: "('f, 't, 'n) egress_seams \<Rightarrow> egress_policy \<Rightarrow> string \<Rightarrow> bytes \<Rightarrow> string + unit" where
  "egress_validate sm policy kind payload =
     (if kind \<noteq> ACTUATE_KIND_HTTP_FETCH then Inl (''unknown actuator kind '' @ kind)
      else case es_decode sm payload of
        Inl e \<Rightarrow> Inl (''undecodable HttpFetch payload: '' @ e)
      | Inr fetch \<Rightarrow> (case screen_request (es_parse_url sm) policy fetch of Inl e \<Rightarrow> Inl e | Inr _ \<Rightarrow> Inr ()))"

definition fetch_request :: "egress_policy \<Rightarrow> http_fetch \<Rightarrow> screened_request \<Rightarrow> ip_addr \<Rightarrow> client_request" where
  "fetch_request policy fetch sq vetted =
     \<lparr>cq_method = (if sq_method sq = lit ''HEAD'' then lit ''HEAD'' else lit ''GET''), cq_url = sq_url sq,
      cq_pinned_host = sq_host sq, cq_pinned_ip = vetted, cq_port = sq_port sq,
      cq_timeout_ms = effective_timeout policy (hf_timeout_ms fetch),
      cq_headers = filter (\<lambda>h. to_ascii_lowercase (hh_name h) \<in> lit ` set REQ_HEADER_ALLOWLIST) (hf_headers fetch)\<rparr>"

definition egress_actuate ::
  "('f, 't, 'n) egress_seams \<Rightarrow> egress_policy \<Rightarrow> string \<Rightarrow> bytes \<Rightarrow> u64 \<Rightarrow> ('f, 't) token_bucket \<times> 'n
     \<Rightarrow> rail_outcome \<times> ('f, 't) token_bucket \<times> 'n" where
  "egress_actuate sm policy kind payload cap_sats s =
     (let (bucket, net) = s
      in if kind \<noteq> ACTUATE_KIND_HTTP_FETCH then (Rail_UpstreamFailed, s)
         else case es_decode sm payload of
           Inl e \<Rightarrow> (Rail_UpstreamFailed, s)
         | Inr fetch \<Rightarrow>
             (case screen_request (es_parse_url sm) policy fetch of
                Inl reason \<Rightarrow> (Rail_UpstreamFailed, s)
              | Inr sq \<Rightarrow>
                  (let (allowed, bucket1) = try_take (es_floats sm) (es_now sm net) bucket
                   in if \<not> allowed then (Rail_UpstreamFailed, bucket1, net)
                      else case es_resolve sm (sq_host sq) (sq_port sq) net of
                        (Inl e, net1) \<Rightarrow> (Rail_UpstreamFailed, bucket1, net1)
                      | (Inr ips, net1) \<Rightarrow>
                          (case screen_resolved_ips ips of
                             Inl reason \<Rightarrow> (Rail_UpstreamFailed, bucket1, net1)
                           | Inr vetted \<Rightarrow>
                               (let cq = fetch_request policy fetch sq vetted
                                in if \<not> es_build_client sm cq then (Rail_UpstreamFailed, bucket1, net1)
                                   else case es_send sm cq net1 of
                                     (Inl e, net2) \<Rightarrow> (Rail_UpstreamFailed, bucket1, net2)
                                   | (Inr resp, net2) \<Rightarrow>
                                       (let cap = unat (effective_response_cap policy (hf_max_response_bytes fetch));
                                            (body, truncated) = read_bounded cap [] (cs_chunks resp);
                                            actual_cost = min (fetch_cost policy (length body)) cap_sats
                                        in (Performed actual_cost (fetch_proof (es_sha256 sm) (cs_status resp) body) []
                                              (Some \<lparr>hr_status = cs_status resp,
                                                 hr_headers = allowlisted_response_headers (cs_headers resp),
                                                 hr_body = body, hr_truncated = truncated,
                                                 hr_final_url = cs_final_url resp\<rparr>),
                                            bucket1, net2)))))))"

definition egress_actuator :: "('f, 't, 'n) egress_seams \<Rightarrow> egress_policy \<Rightarrow> (('f, 't) token_bucket \<times> 'n) actuator" where
  "egress_actuator sm policy = \<lparr>at_cost = egress_cost policy, at_cost_is_exact = (\<lambda>kind. False),
     at_validate = egress_validate sm policy, at_actuate = egress_actuate sm policy\<rparr>"

interpretation egress: capped_actuator "egress_actuator sm policy"
  for sm :: "('f, 't, 'n) egress_seams" and policy
  by unfold_locales
    (auto simp: egress_actuator_def egress_actuate_def Let_def split: if_splits sum.splits prod.splits)

end
