(* ===== verification/Egress_Props.thy ===== *)
theory Egress_Props
  imports Egress
begin

text \<open>
  What the egress actuator promises: the address floor is a fixed list of networks, no connection leaves
  for anything else than a vetted, allowlisted target, and a fetch never costs more than was authorised.
\<close>

section \<open>The floor as networks\<close>

text \<open>An IPv4 network in CIDR form: an address and a prefix length.\<close>

fun v4_value :: "ipv4 \<Rightarrow> nat" where
  "v4_value (Ipv4 a b c d) = ((unat a * 256 + unat b) * 256 + unat c) * 256 + unat d"

definition in_net :: "nat \<Rightarrow> ipv4 \<times> nat \<Rightarrow> bool" where
  "in_net v n = (v div 2 ^ (32 - snd n) = v4_value (fst n) div 2 ^ (32 - snd n))"

definition denied_nets :: "(ipv4 \<times> nat) list" where
  "denied_nets = [(Ipv4 0 0 0 0, 8), (Ipv4 10 0 0 0, 8), (Ipv4 100 64 0 0, 10), (Ipv4 127 0 0 0, 8),
     (Ipv4 169 254 0 0, 16), (Ipv4 172 16 0 0, 12), (Ipv4 192 168 0 0, 16), (Ipv4 198 18 0 0, 15),
     (Ipv4 224 0 0 0, 4), (Ipv4 255 255 255 255, 32)]"

text \<open>The IPv6 networks, as a first segment and a prefix length of at most 16, and the low 32 bits of an address.\<close>

definition in_net6 :: "u16 \<Rightarrow> nat \<times> nat \<Rightarrow> bool" where
  "in_net6 s n = (unat s div 2 ^ (16 - snd n) = fst n div 2 ^ (16 - snd n))"

definition denied_nets6 :: "(nat \<times> nat) list" where
  "denied_nets6 = [(0xff00, 8), (0xfc00, 7), (0xfe80, 10)]"

fun embeds_v4 :: "ipv6 \<Rightarrow> nat option" where
  "embeds_v4 (Ipv6 s0 s1 s2 s3 s4 s5 s6 s7) =
     (if s0 = 0 \<and> s1 = 0 \<and> s2 = 0 \<and> s3 = 0 \<and> s4 = 0 \<and> s5 \<in> {0, 0xffff}
      then Some (unat s6 * 65536 + unat s7) else None)"

lemma digits_eq: "r < k \<Longrightarrow> r' < k \<Longrightarrow> (a * k + r = a' * k + r') = (a = a' \<and> r = r')" for k :: nat
  by (metis add_left_imp_eq div_mult_self3 div_less add.commute add.right_neutral less_nat_zero_code mult.commute)

lemma div_eq_range: "0 < d \<Longrightarrow> (n div d = q) = (q * d \<le> n \<and> n < Suc q * d)" for d n q :: nat
  by (metis div_less_iff_less_mult le_antisym less_Suc_eq_le less_eq_div_iff_mult_less_eq order_refl)

lemma octet: "unat (o' :: u8) < 256"
  using unsigned_less [of o'] by simp

lemma prefix16: "c < 256 \<Longrightarrow> d < 256 \<Longrightarrow> k \<le> 16 \<Longrightarrow>
    ((m * 256 + c) * 256 + d) div 2 ^ (32 - k) = m div 2 ^ (16 - k)" for m c d :: nat
proof -
  assume le: "c < 256" "d < 256" "k \<le> 16"
  have "32 - k = 8 + (8 + (16 - k))" using le by simp
  then have pow: "(2 :: nat) ^ (32 - k) = 256 * (256 * 2 ^ (16 - k))" by (simp only: power_add) simp
  have shift: "(x * 256 + r) div 256 = x" if "r < 256" for x r :: nat using that by simp
  show ?thesis by (simp only: pow div_mult2_eq shift le)
qed

text \<open>A network of at most 16 bits is a range of the first two octets.\<close>

lemma in_net_short:
  assumes "k \<le> 16"
  shows "in_net (v4_value (Ipv4 a b c d)) (Ipv4 a' b' 0 0, k) =
    ((unat a * 256 + unat b) div 2 ^ (16 - k) = (unat a' * 256 + unat b') div 2 ^ (16 - k))"
  using prefix16 [OF octet octet assms, of "unat a * 256 + unat b" c d]
    prefix16 [of 0 0 k "unat a' * 256 + unat b'"] assms
  by (simp only: in_net_def v4_value.simps fst_conv snd_conv) simp

lemma two_octets: "a < 256 \<Longrightarrow> b < 256 \<Longrightarrow> l * 256 + p \<le> a * 256 + b \<and> a * 256 + b < l * 256 + p + w
    \<longleftrightarrow> a = l \<and> p \<le> b \<and> b < p + w" if "p + w \<le> 256" for a b l p w :: nat
  using that by (cases a l rule: linorder_cases) auto


lemma unat_ucast_octet: "unat (ucast w :: u8) = unat w mod 256" for w :: u16
  by (simp add: unsigned_ucast_eq take_bit_eq_mod)

lemma unat_high_octet: "unat (high_octet s) = unat s div 256"
proof -
  have "unat s div 256 < 256" using unsigned_less [of s] by (simp add: div_less_iff_less_mult)
  moreover have "unat (drop_bit 8 s) = unat s div 256" by (rule trans [OF unat_drop_bit_eq]) (simp add: drop_bit_eq_div)
  ultimately show ?thesis by (simp only: high_octet_def unat_ucast_octet) simp
qed

lemma unat_low_octet: "unat (low_octet s) = unat s mod 256"
  by (simp only: low_octet_def unat_ucast_octet)

lemma octet_ranges: fixes x y :: nat assumes "x < 256" "y < 256" shows
    "(25664 \<le> x * 256 + y \<and> x * 256 + y < 25728) = (x = 100 \<and> 64 \<le> y \<and> y \<le> 127)"
    "(x * 256 + y = 43518) = (x = 169 \<and> y = 254)"
    "(44048 \<le> x * 256 + y \<and> x * 256 + y < 44064) = (x = 172 \<and> 16 \<le> y \<and> y \<le> 31)"
    "(x * 256 + y = 49320) = (x = 192 \<and> y = 168)"
    "(50706 \<le> x * 256 + y \<and> x * 256 + y < 50708) = (x = 198 \<and> (y = 18 \<or> y = 19))"
    "(57344 \<le> x * 256 + y \<and> x * 256 + y < 61440) = (224 \<le> x \<and> x \<le> 239)"
  subgoal using two_octets [of 64 64 x y 100] assms by simp linarith
  subgoal using digits_eq [of y 256 254 x 169] assms by simp
  subgoal using two_octets [of 16 16 x y 172] assms by simp linarith
  subgoal using digits_eq [of y 256 168 x 192] assms by simp
  subgoal using two_octets [of 18 2 x y 198] assms by simp linarith
  subgoal using assms by linarith
  done

lemma in_net_broadcast:
  "in_net (v4_value (Ipv4 a b c d)) (Ipv4 255 255 255 255, 32) = (a = 255 \<and> b = 255 \<and> c = 255 \<and> d = 255)"
proof -
  have lt: "(255 :: nat) < 256" by simp
  have "in_net (v4_value (Ipv4 a b c d)) (Ipv4 255 255 255 255, 32) =
      (((unat a * 256 + unat b) * 256 + unat c) * 256 + unat d = ((255 * 256 + 255) * 256 + 255) * 256 + 255)"
    by (simp add: in_net_def)
  also have "\<dots> = (unat a = 255 \<and> unat b = 255 \<and> unat c = 255 \<and> unat d = 255)"
    by (simp only: digits_eq octet lt conj_assoc)
  finally show ?thesis by (simp add: word_unat_eq_iff)
qed

lemma v4_is_denied_nets: "v4_is_denied v = list_ex (in_net (v4_value v)) denied_nets"
proof (cases v)
  case (Ipv4 a b c d)
  have nets: "list_ex (in_net (v4_value (Ipv4 a b c d))) denied_nets =
      (unat a = 0 \<or> unat a = 10 \<or> unat a = 100 \<and> 64 \<le> unat b \<and> unat b \<le> 127 \<or> unat a = 127
       \<or> unat a = 169 \<and> unat b = 254 \<or> unat a = 172 \<and> 16 \<le> unat b \<and> unat b \<le> 31
       \<or> unat a = 192 \<and> unat b = 168 \<or> unat a = 198 \<and> (unat b = 18 \<or> unat b = 19)
       \<or> 224 \<le> unat a \<and> unat a \<le> 239 \<or> a = 255 \<and> b = 255 \<and> c = 255 \<and> d = 255)"
    by (simp add: denied_nets_def in_net_short div_eq_range octet octet_ranges in_net_broadcast del: v4_value.simps)
  show ?thesis
    unfolding Ipv4 nets by (simp add: word_unat_eq_iff word_le_nat_alt) argo
qed

lemma mask_table:
  "\<forall>k\<in>set [0..<256]. (and (of_nat k :: u8) 0xfe = 0xfc) = (k div 2 = 126) \<and> (and (of_nat k :: u8) 0xc0 = 0x80) = (k div 64 = 2)"
  by code_simp

lemma mask_octet: "(and x 0xfe = 0xfc) = (unat x div 2 = 126)" "(and x 0xc0 = 0x80) = (unat x div 64 = 2)" for x :: u8
  using mask_table [THEN bspec, of "unat x"] octet [of x] by auto

lemma embeds_v4_value: "embeds_v4 v6 = map_option v4_value (to_ipv4 v6)"
  by (cases v6) (auto simp: unat_high_octet unat_low_octet)

fun first_segment :: "ipv6 \<Rightarrow> u16" where
  "first_segment (Ipv6 s0 s1 s2 s3 s4 s5 s6 s7) = s0"

lemma segment_nets:
  "list_ex (in_net6 s) denied_nets6 =
     (high_octet s = 0xff \<or> and (high_octet s) 0xfe = 0xfc \<or> high_octet s = 0xfe \<and> and (low_octet s) 0xc0 = 0x80)"
proof -
  let ?x = "unat s"
  have "(q * 256 + r) div 64 = q * 4 + r div 64" for q r :: nat by presburger
  from this [of "?x div 256" "?x mod 256"] have "?x div 64 = ?x div 256 * 4 + ?x mod 256 div 64"
    by (simp only: div_mult_mod_eq)
  then have "(?x div 64 = 254 * 4 + 2) = (?x div 256 = 254 \<and> ?x mod 256 div 64 = 2)"
    using digits_eq [of "?x mod 256 div 64" 4 2 "?x div 256" 254] by (simp add: div_less_iff_less_mult)
  moreover have "?x div 512 = ?x div 256 div 2" by (simp flip: div_mult2_eq)
  ultimately show ?thesis
    unfolding mask_octet unfolding word_unat_eq_iff unat_high_octet unat_low_octet
    by (simp add: denied_nets6_def in_net6_def)
qed

lemma v6_is_denied_nets: "to_ipv4 v6 = None \<Longrightarrow>
    ip_is_denied (V6 v6) = list_ex (in_net6 (first_segment v6)) denied_nets6"
  unfolding segment_nets by (cases v6) (auto split: if_splits)

text \<open>Whatever address a host resolves to, the floor refuses it exactly when it lies in one of the networks
  of the two lists; for IPv6 addresses that carry an IPv4 address (mapped or
  compatible), when the embedded address lies in one of the IPv4 networks.\<close>

theorem floor_is_networks: "ip_is_denied ip =
    (case ip of
       V4 v4 \<Rightarrow> list_ex (in_net (v4_value v4)) denied_nets
     | V6 v6 \<Rightarrow> (case embeds_v4 v6 of
           Some v \<Rightarrow> list_ex (in_net v) denied_nets
         | None \<Rightarrow> list_ex (in_net6 (first_segment v6)) denied_nets6))"
proof (cases ip)
  case (V6 v6)
  then show ?thesis
    by (cases "to_ipv4 v6") (simp_all only: ip_addr.case option.case embeds_v4_value option.map v6_is_denied_nets,
      simp add: v4_is_denied_nets)
qed (simp add: v4_is_denied_nets)

section \<open>Connections\<close>

text \<open>An IPv6 address that carries an IPv4 address in the NAT64 form is not unwrapped: 64:ff9b::7f00:1, which a
  NAT64 gateway delivers to 127.0.0.1, passes the floor that denies 127.0.0.1.\<close>

theorem nat64_not_unwrapped:
  "ip_is_denied (V4 (Ipv4 127 0 0 1)) \<and> ip_is_denied (V6 (Ipv6 0 0 0 0 0 0xffff 0x7f00 1))
   \<and> \<not> ip_is_denied (V6 (Ipv6 0x64 0xff9b 0 0 0 0 0x7f00 1))"
  by code_simp

text \<open>What a request may be for the client to be allowed to send it, for a payload handled when the
  world outside is \<open>net\<close>: the requested URL itself, pinned to the host and the port that URL names
  and to the first address the host resolves to.\<close>

definition safe_target :: "('f, 't, 'n) egress_seams \<Rightarrow> egress_policy \<Rightarrow> bytes \<Rightarrow> 'n \<Rightarrow> client_request \<Rightarrow> bool" where
  "safe_target sm policy payload net cq \<longleftrightarrow>
     (\<exists>fetch url host. es_decode sm payload = Inr fetch \<and> cq_url cq = trim (hf_url fetch)
        \<and> es_parse_url sm (cq_url cq) = Inr url
        \<and> pu_scheme url = lit ''https'' \<and> pu_username url = [] \<and> pu_password url = None
        \<and> pu_host url = Some host \<and> cq_pinned_host cq = to_ascii_lowercase host
        \<and> cq_port cq = (case pu_port_or_known_default url of Some n \<Rightarrow> n | None \<Rightarrow> 443)
        \<and> cq_method cq = to_ascii_uppercase (trim (hf_method fetch))
        \<and> set (cq_headers cq) \<subseteq> set (hf_headers fetch))
     \<and> (\<exists>ips net'. es_resolve sm (cq_pinned_host cq) (cq_port cq) net = (Inr (cq_pinned_ip cq # ips), net')
          \<and> (\<forall>ip\<in>set (cq_pinned_ip cq # ips). \<not> ip_is_denied ip))
     \<and> cq_pinned_host cq \<in> set (ep_host_allowlist policy) - set (ep_refused_hosts policy)
     \<and> cq_method cq \<in> {lit ''GET'', lit ''HEAD''} \<inter> set (ep_methods policy)
     \<and> 1 \<le> cq_timeout_ms cq \<and> cq_timeout_ms cq \<le> max (ep_timeout_ms policy) 1
     \<and> (\<forall>h\<in>set (cq_headers cq). to_ascii_lowercase (hh_name h) \<in> lit ` set REQ_HEADER_ALLOWLIST)"

lemma screened: "screen_request parse policy fetch = Inr sq \<Longrightarrow>
    sq_host sq \<in> set (ep_host_allowlist policy) - set (ep_refused_hosts policy)
    \<and> sq_method sq \<in> {lit ''GET'', lit ''HEAD''} \<inter> set (ep_methods policy)
    \<and> sq_method sq = to_ascii_uppercase (trim (hf_method fetch)) \<and> sq_url sq = trim (hf_url fetch)
    \<and> (\<exists>url host. parse (sq_url sq) = Inr url \<and> pu_scheme url = lit ''https'' \<and> pu_username url = []
        \<and> pu_password url = None \<and> pu_host url = Some host \<and> sq_host sq = to_ascii_lowercase host
        \<and> sq_port sq = (case pu_port_or_known_default url of Some n \<Rightarrow> n | None \<Rightarrow> 443))"
  by (auto simp: screen_request_def Let_def split: if_splits sum.splits option.splits)

lemma vetted: "screen_resolved_ips ips = Inr ip \<Longrightarrow>
    \<exists>rest. ips = ip # rest \<and> (\<forall>x\<in>set (ip # rest). \<not> ip_is_denied x)"
  by (auto simp: screen_resolved_ips_def list_ex_iff split: list.splits if_splits)

lemma timeout_range: "1 \<le> effective_timeout policy t \<and> effective_timeout policy t \<le> max (ep_timeout_ms policy) 1"
  by (auto simp: effective_timeout_def min.coboundedI2 max.coboundedI1)

lemma fetch_request_safe:
  assumes "es_decode sm payload = Inr fetch" and "screen_request (es_parse_url sm) policy fetch = Inr sq"
    and "es_resolve sm (sq_host sq) (sq_port sq) net = (Inr ips, net')" and "screen_resolved_ips ips = Inr ip"
  shows "safe_target sm policy payload net (fetch_request policy fetch sq ip)"
proof -
  let ?cq = "fetch_request policy fetch sq ip"
  note s = screened [OF assms(2)]
  from s have m: "cq_method ?cq = sq_method sq" by (auto simp: fetch_request_def)
  obtain rest where rest: "ips = ip # rest" "\<forall>x\<in>set (ip # rest). \<not> ip_is_denied x"
    using vetted [OF assms(4)] by blast
  have "\<exists>fetch url host. es_decode sm payload = Inr fetch \<and> cq_url ?cq = trim (hf_url fetch)
        \<and> es_parse_url sm (cq_url ?cq) = Inr url
        \<and> pu_scheme url = lit ''https'' \<and> pu_username url = [] \<and> pu_password url = None
        \<and> pu_host url = Some host \<and> cq_pinned_host ?cq = to_ascii_lowercase host
        \<and> cq_port ?cq = (case pu_port_or_known_default url of Some n \<Rightarrow> n | None \<Rightarrow> 443)
        \<and> cq_method ?cq = to_ascii_uppercase (trim (hf_method fetch))
        \<and> set (cq_headers ?cq) \<subseteq> set (hf_headers fetch)"
    using s m assms(1) by (intro exI [of _ fetch]) (auto simp: fetch_request_def)
  moreover have "\<exists>ips net'. es_resolve sm (cq_pinned_host ?cq) (cq_port ?cq) net = (Inr (cq_pinned_ip ?cq # ips), net')
          \<and> (\<forall>x\<in>set (cq_pinned_ip ?cq # ips). \<not> ip_is_denied x)"
    using rest assms(3) by (intro exI [of _ rest] exI [of _ net']) (simp add: fetch_request_def)
  ultimately show ?thesis
    using s m timeout_range unfolding safe_target_def by (auto simp: fetch_request_def)
qed

text \<open>C30: Every request the actuator sends is for the requested URL itself, an https URL without
  credentials whose host is on the allowlist and not a refused one; it is pinned to that URL's host
  and port and to the first address the host resolved to, all of whose addresses the floor admits;
  its method is the requested one, GET or HEAD and allowed by the policy; its headers are requested,
  allowlisted ones and its timeout is bounded. For a network that fails every other request gives
  exactly the same result.\<close>

theorem fetch_connects_safely:
  "egress_actuate (sm\<lparr>es_send := \<lambda>cq net. if safe_target sm policy payload (snd s) cq then es_send sm cq net
      else refusal cq net\<rparr>) policy kind payload cap s
   = egress_actuate sm policy kind payload cap s"
  by (cases s) (simp add: egress_actuate_def Let_def fetch_request_safe split: sum.split prod.split)

text \<open>What the actuator's own check refuses never touches the network: no name is resolved, no request is
  sent, not even a token of the rate limit is taken.\<close>

theorem refused_fetch_untouched:
  "egress_validate sm policy kind payload = Inl reason \<Longrightarrow>
     egress_actuate sm policy kind payload cap s = (Rail_UpstreamFailed, s)"
  by (auto simp: egress_validate_def egress_actuate_def Let_def split: if_splits sum.splits prod.splits)

text \<open>A concrete policy and a network of one host that answers one body.\<close>

definition sample_policy :: egress_policy where
  "sample_policy = \<lparr>ep_host_allowlist = [lit ''a.io''], ep_methods = [lit ''GET''], ep_max_response_bytes = 4,
     ep_timeout_ms = 1000, ep_sats_per_request = 2, ep_sats_per_kib = 3, ep_rate_per_min = 60, ep_refused_hosts = []\<rparr>"

definition sample_floats :: "(nat, nat) float_ops" where
  "sample_floats = \<lparr>fo_of_u32 = unat, fo_elapsed_secs = (\<lambda>a b. a - b), fo_add = (+), fo_sub = (-), fo_mul = (*),
     fo_div = (div), fo_min = min, fo_le = (\<le>)\<rparr>"

definition sample_egress :: "(nat, nat, nat) egress_seams" where
  "sample_egress = \<lparr>es_floats = sample_floats, es_now = id,
     es_decode = (\<lambda>bs. if bs = ''fetch'' then Inr \<lparr>hf_method = lit ''get'', hf_url = lit ''https://a.io'', hf_headers = [],
         hf_max_response_bytes = 0, hf_timeout_ms = 0\<rparr> else Inl ''bad''),
     es_parse_url = (\<lambda>u. Inr \<lparr>pu_scheme = lit ''https'', pu_username = [], pu_password = None,
         pu_host = Some (lit ''a.io''), pu_port_or_known_default = Some 443\<rparr>),
     es_resolve = (\<lambda>h p n. (Inr [V4 (Ipv4 93 184 216 34)], n + 1)),
     es_build_client = (\<lambda>_. True),
     es_send = (\<lambda>cq n. (Inr \<lparr>cs_status = 200, cs_final_url = [], cs_headers = [],
         cs_chunks = [Inr ''abc'', Inr ''def'']\<rparr>, n + 1)),
     es_sha256 = id\<rparr>"

lemma sample_fetch: "egress_actuate sample_egress sample_policy ACTUATE_KIND_HTTP_FETCH ''fetch'' 9
      (bucket_new sample_floats 60 0, 0) =
    (Performed 5 (fetch_proof id 200 ''abcd'') [] (Some \<lparr>hr_status = 200, hr_headers = [], hr_body = ''abcd'',
       hr_truncated = True, hr_final_url = []\<rparr>),
     \<lparr>tb_capacity = 60, tb_tokens = 59, tb_per_sec = 1, tb_last = 0\<rparr>, 2)"
  by (simp add: egress_actuate_def sample_egress_def sample_policy_def sample_floats_def bucket_new_def try_take_def
    screen_request_def screen_resolved_ips_def fetch_cost_def meter_kib_def effective_response_cap_def lit_def
    trim_def to_ascii_uppercase_def to_ascii_lowercase_def is_whitespace_def allowlisted_response_headers_def
    saturating_add_def saturating_mul_def checked_add_def div_ceil_def Let_def max_def min_def word_le_nat_alt)

theorem refused_fetch_untouched_witness:
  "egress_actuate sample_egress sample_policy ACTUATE_KIND_HTTP_FETCH ''none'' 9 (bucket_new sample_floats 60 0, 0)
     = (Rail_UpstreamFailed, bucket_new sample_floats 60 0, 0)"
  by (rule refused_fetch_untouched [where reason = "''undecodable HttpFetch payload: bad''"]) code_simp

section \<open>Bounds\<close>

lemma read_bounded_length: "length b \<le> cap \<Longrightarrow> read_bounded cap b chunks = (body, t) \<Longrightarrow> length body \<le> cap"
  by (induction cap b chunks rule: read_bounded.induct) (auto split: if_splits)

lemma div_ceil_unat: "unat (div_ceil a b) = (if unat a mod unat b = 0 then unat a div unat b else unat a div unat b + 1)"
  if "1 < unat b" for a b :: u64
proof -
  have "unat a div unat b < 2 ^ 63" using that unat_lt_pow [of a] by (simp add: div_less_iff_less_mult)
  then show ?thesis
    by (simp add: div_ceil_def unat_div unat_mod word_unat_eq_iff unat_add_exact)
qed

lemma ceil_1024: "(if x mod 1024 = 0 then x div 1024 else x div 1024 + 1) = (x + 1023) div (1024 :: nat)"
proof -
  obtain q r where x: "x = q * 1024 + r" and r: "r < 1024"
    by (metis div_mult_mod_eq mod_less_divisor zero_less_numeral)
  have "(q * 1024 + r + 1023) div 1024 = (if r = 0 then q else q + 1)"
    using r by (auto simp: div_eq_range)
  then show ?thesis using r by (simp add: x)
qed

lemma div_ceil_1024: "unat (div_ceil a (1024 :: u64)) = (unat a + 1023) div 1024"
  by (rule trans [OF div_ceil_unat], simp, rule trans [OF _ ceil_1024]) simp

lemma div_ceil_mono: "a \<le> b \<Longrightarrow> div_ceil a (1024 :: u64) \<le> div_ceil b 1024"
  by (simp add: word_le_nat_alt div_ceil_1024 div_le_mono)

lemma meter_kib_mono: "a \<le> b \<Longrightarrow> meter_kib policy a \<le> meter_kib policy b"
  using div_ceil_mono [of a b] unfolding meter_kib_def word_le_nat_alt rust_arith
  by (meson add_le_mono le_refl min.mono mult_le_mono1)

text \<open>A fetch costs at most what was authorised, at most the worst case the gateway reserves for it, and at
  most the price of the bytes it returns; its body never exceeds the policy's cap.\<close>

theorem fetch_bounded:
  assumes "egress_actuate sm policy kind payload cap s = (Performed cost prf change (Some r), s')"
  shows "cost \<le> cap \<and> cost \<le> egress_cost policy kind \<and> cost \<le> fetch_cost policy (length (hr_body r))
    \<and> length (hr_body r) \<le> unat (ep_max_response_bytes policy)"
proof -
  obtain fetch :: http_fetch and chunks t where body: "read_bounded (unat (effective_response_cap policy (hf_max_response_bytes fetch))) [] chunks
        = (hr_body r, t)"
    and cost: "cost = min (fetch_cost policy (length (hr_body r))) cap" and kind: "kind = ACTUATE_KIND_HTTP_FETCH"
    using assms by (auto simp: egress_actuate_def Let_def split: if_splits sum.splits prod.splits)
  have cap_le: "unat (effective_response_cap policy c) \<le> unat (ep_max_response_bytes policy)" for c
    by (simp add: effective_response_cap_def flip: word_le_nat_alt)
  have len: "length (hr_body r) \<le> unat (ep_max_response_bytes policy)"
    using read_bounded_length [OF _ body] cap_le [of "hf_max_response_bytes fetch"] by simp
  have "unat (of_nat (length (hr_body r)) :: u64) = length (hr_body r)"
    and "unat (ucast (ep_max_response_bytes policy) :: u64) = unat (ep_max_response_bytes policy)"
    using len unat_lt_pow [of "ep_max_response_bytes policy"]
    by (simp_all add: unsigned_of_nat unsigned_ucast_eq take_bit_nat_eq_self)
  with len have "of_nat (length (hr_body r)) \<le> (ucast (ep_max_response_bytes policy) :: u64)"
    by (simp add: word_le_nat_alt)
  then have "fetch_cost policy (length (hr_body r)) \<le> worst_case_cost policy"
    by (simp add: fetch_cost_def worst_case_cost_def meter_kib_mono)
  then show ?thesis using len kind by (simp add: cost egress_cost_def min.coboundedI1)
qed

theorem fetch_bounded_witness:
  "(5 :: u64) \<le> 9 \<and> 5 \<le> egress_cost sample_policy ACTUATE_KIND_HTTP_FETCH
   \<and> 5 \<le> fetch_cost sample_policy (length ''abcd'')
   \<and> length ''abcd'' \<le> unat (ep_max_response_bytes sample_policy)"
  using fetch_bounded [OF sample_fetch] by simp

end
