(* ===== verification/Guardian.thy ===== *)
theory Guardian
  imports Publish Store
begin

text \<open>
  The guardian membrane of the custody crate (\<open>kirby-custody/src/guardian.rs\<close>), the NIP-01 event id it
  reconstructs (\<open>cosign_net.rs\<close>) and the taproot key it reconstructs it under (\<open>lib.rs\<close>). FROST, the
  curve, SHA-256, hex and JSON are crates outside the repository and are arguments; a FROST identifier is
  its serialized scalar, so that the maps keyed by it iterate in ascending order. Text is a list of Unicode
  scalar values.
\<close>

section \<open>Keys\<close>

type_synonym frost_id = bytes

datatype known_hrp = Hrp_Mainnet | Hrp_Testnets | Hrp_Regtest

record 'pk curve =
  cv_vk_serialize :: "'pk \<Rightarrow> string + bytes"
  cv_pubkey_from_slice :: "bytes \<Rightarrow> string + bytes"
  cv_x_only :: "bytes \<Rightarrow> bytes"
  cv_tap_tweak :: "bytes \<Rightarrow> bytes"
  cv_p2tr_tweaked :: "bytes \<Rightarrow> known_hrp \<Rightarrow> string"

definition taproot_address :: "'pk curve \<Rightarrow> 'pk \<Rightarrow> known_hrp \<Rightarrow> string + string \<times> bytes" where
  "taproot_address cv pubkeys hrp =
     (case cv_vk_serialize cv pubkeys of Inl e \<Rightarrow> Inl e
      | Inr vk_bytes \<Rightarrow>
          (case cv_pubkey_from_slice cv vk_bytes of Inl e \<Rightarrow> Inl e
           | Inr full \<Rightarrow>
               (let internal_key = cv_x_only cv full
                in Inr (cv_p2tr_tweaked cv (cv_tap_tweak cv internal_key) hrp, internal_key))))"

definition group_xonly_q :: "'pk curve \<Rightarrow> 'pk \<Rightarrow> string + bytes" where
  "group_xonly_q cv pubkeys =
     (case taproot_address cv pubkeys Hrp_Testnets of Inl e \<Rightarrow> Inl e
      | Inr (addr, internal_p) \<Rightarrow> Inr (cv_tap_tweak cv internal_p))"

section \<open>Event ids\<close>

datatype json_value = Json_Int nat | Json_Str utext | Json_Arr "json_value list"

record digest_env =
  de_json_text :: "json_value \<Rightarrow> bytes"
  de_sha256 :: "bytes \<Rightarrow> bytes"
  de_hex :: "bytes \<Rightarrow> utext"

definition nip01_array :: "utext \<Rightarrow> u64 \<Rightarrow> u32 \<Rightarrow> utext list list \<Rightarrow> utext \<Rightarrow> json_value" where
  "nip01_array pubkey_hex created_at kind tags content =
     Json_Arr [Json_Int 0, Json_Str pubkey_hex, Json_Int (unat created_at), Json_Int (unat kind),
       Json_Arr (map (\<lambda>tag. Json_Arr (map Json_Str tag)) tags), Json_Str content]"

definition nip01_event_id_with_tags ::
  "digest_env \<Rightarrow> utext \<Rightarrow> u64 \<Rightarrow> u32 \<Rightarrow> utext list list \<Rightarrow> utext \<Rightarrow> bytes" where
  "nip01_event_id_with_tags de pubkey_hex created_at kind tags content =
     de_sha256 de (de_json_text de (nip01_array pubkey_hex created_at kind tags content))"

definition nip01_event_id :: "digest_env \<Rightarrow> utext \<Rightarrow> u64 \<Rightarrow> u32 \<Rightarrow> utext \<Rightarrow> bytes" where
  "nip01_event_id de pubkey_hex created_at kind content =
     nip01_event_id_with_tags de pubkey_hex created_at kind [] content"

section \<open>What may be signed\<close>

definition NOSTR_TEXT_NOTE_KIND :: u32 where "NOSTR_TEXT_NOTE_KIND = 1"
definition KIND_KIRBY_PRESENCE :: u32 where "KIND_KIRBY_PRESENCE = 10100"
definition KIND_KIRBY_LIFECYCLE :: u32 where "KIND_KIRBY_LIFECYCLE = 9100"
definition KIND_KIRBY_AGENT_STATE :: u32 where "KIND_KIRBY_AGENT_STATE = 31000"
definition KIND_KIRBY_LEASE :: u32 where "KIND_KIRBY_LEASE = 31002"
definition KIND_NOSTR_SEAL :: u32 where "KIND_NOSTR_SEAL = 13"
definition KIND_NOSTR_INBOX_RELAYS :: u32 where "KIND_NOSTR_INBOX_RELAYS = 10050"

lemmas kind_defs = NOSTR_TEXT_NOTE_KIND_def KIND_KIRBY_PRESENCE_def KIND_KIRBY_LIFECYCLE_def
  KIND_KIRBY_AGENT_STATE_def KIND_KIRBY_LEASE_def KIND_NOSTR_SEAL_def KIND_NOSTR_INBOX_RELAYS_def

definition is_authorizable_kind :: "u32 \<Rightarrow> bool" where
  "is_authorizable_kind kind \<longleftrightarrow>
     kind = NOSTR_TEXT_NOTE_KIND \<or> kind = KIND_KIRBY_PRESENCE \<or> kind = KIND_KIRBY_LIFECYCLE
     \<or> kind = KIND_KIRBY_AGENT_STATE \<or> kind = KIND_KIRBY_LEASE \<or> kind = KIND_NOSTR_SEAL
     \<or> kind = KIND_NOSTR_INBOX_RELAYS"

definition MAX_INBOX_RELAY_TAGS :: nat where "MAX_INBOX_RELAY_TAGS = 32"

definition starts_with :: "utext \<Rightarrow> utext \<Rightarrow> bool" where
  "starts_with s p \<longleftrightarrow> take (length p) s = p"

definition utx :: "string \<Rightarrow> utext" where
  "utx s = map of_char s"

definition inbox_relay_tags_ok :: "utext list list \<Rightarrow> bool" where
  "inbox_relay_tags_ok tags \<longleftrightarrow>
     (if tags = [] \<or> length tags > MAX_INBOX_RELAY_TAGS then False
      else list_all (\<lambda>t. length t \<ge> 2 \<and> t ! 0 = utx ''relay''
             \<and> (starts_with (t ! 1) (utx ''ws://'') \<or> starts_with (t ! 1) (utx ''wss://''))
             \<and> byte_len (t ! 1) \<le> 512) tags)"

definition GUARDIAN_MAX_NOTE_BYTES :: nat where "GUARDIAN_MAX_NOTE_BYTES = 512"

text \<open>The guardian's own copy of the note policy; it answers with an option.\<close>

definition sanitize_note :: "utext \<Rightarrow> utext option" where
  "sanitize_note raw =
     (let spaced = map (\<lambda>c. if is_control c \<or> c = 8232 \<or> c = 8233 then 32 else c) raw;
          clean = join_space (split_whitespace [] spaced)
      in if clean = [] then None
         else if byte_len clean > GUARDIAN_MAX_NOTE_BYTES then None
         else Some clean)"

definition content_is_clean :: "utext \<Rightarrow> bool" where
  "content_is_clean content = (case sanitize_note content of Some c \<Rightarrow> c = content | None \<Rightarrow> False)"

section \<open>The membrane\<close>

record sign_intent =
  si_kind :: u32
  si_created_at :: u64
  si_tags :: "utext list list"
  si_content :: utext

record cosign_request =
  cr_session_id :: u64
  cr_intent :: sign_intent
  cr_signer_set :: "u16 set"

datatype refuse_reason = MessageMismatch | NotInSignerSet | SubThreshold | DuplicateSigner | BadKind
  | DirtyContent | BadKeyset | IdentifierAliasing | MalformedInboxRelays

record 'cm signing_package =
  sp_commitments :: "(frost_id, 'cm) tree"
  sp_message :: bytes

definition identifier_to_u16 :: "frost_id \<Rightarrow> u16" where
  "identifier_to_u16 i = of_nat (be_val (drop (length i - 2) i))"

text \<open>The part of the check that looks at the intent alone, and the id it stands for.\<close>

definition intent_refusal :: "sign_intent \<Rightarrow> refuse_reason option" where
  "intent_refusal i =
     (if \<not> is_authorizable_kind (si_kind i) then Some BadKind
      else if si_kind i = NOSTR_TEXT_NOTE_KIND \<and> \<not> content_is_clean (si_content i) then Some DirtyContent
      else if si_kind i = KIND_NOSTR_INBOX_RELAYS \<and> \<not> inbox_relay_tags_ok (si_tags i) then Some MalformedInboxRelays
      else None)"

definition intent_id :: "digest_env \<Rightarrow> bytes \<Rightarrow> sign_intent \<Rightarrow> bytes" where
  "intent_id de q i = nip01_event_id_with_tags de (de_hex de q) (si_created_at i) (si_kind i) (si_tags i) (si_content i)"

definition validate ::
  "'pk curve \<Rightarrow> digest_env \<Rightarrow> cosign_request \<Rightarrow> 'cm signing_package \<Rightarrow> 'pk \<Rightarrow> u16 \<Rightarrow> u16 \<Rightarrow> refuse_reason + unit" where
  "validate cv de req package pubkeys my_identifier min_signers =
     (case group_xonly_q cv pubkeys of
        Inl e \<Rightarrow> Inl BadKeyset
      | Inr q \<Rightarrow>
          (case intent_refusal (cr_intent req) of
             Some reason \<Rightarrow> Inl reason
           | None \<Rightarrow>
               (let pkg_id_count = length (tkeys (sp_commitments package));
                    pkg_ids = set (map identifier_to_u16 (tkeys (sp_commitments package)))
                in if sp_message package \<noteq> intent_id de q (cr_intent req) then Inl MessageMismatch
                   else if my_identifier \<notin> cr_signer_set req then Inl NotInSignerSet
                   else if card (cr_signer_set req) < unat min_signers then Inl SubThreshold
                   else if card pkg_ids < pkg_id_count then Inl IdentifierAliasing
                   else if card pkg_ids < unat min_signers then Inl SubThreshold
                   else if pkg_ids \<noteq> cr_signer_set req then Inl DuplicateSigner
                   else Inr ())))"

section \<open>What the membrane guarantees\<close>

text \<open>The guardian's copy of the note policy is the publish path's.\<close>

lemma sanitize_note_publish: "sanitize_note raw = (case sanitize_note_for_publish raw of Inl _ \<Rightarrow> None | Inr s \<Rightarrow> Some s)"
  by (simp add: sanitize_note_def sanitize_note_for_publish_def collapse_control_to_one_line_def Let_def
    GUARDIAN_MAX_NOTE_BYTES_def MAX_NOTE_BYTES_def blank_def [abs_def])

lemma card_aliasing: "card (f ` set xs) < length xs \<longleftrightarrow> \<not> (distinct xs \<and> inj_on f (set xs))"
proof -
  have "card (set (map f xs)) = length (map f xs) \<longleftrightarrow> distinct (map f xs)"
    by (metis card_distinct distinct_card)
  moreover have "card (set (map f xs)) \<le> length (map f xs)" by (rule card_length)
  ultimately show ?thesis by (auto simp: distinct_map)
qed

end
