(* ===== verification/Quorum.thy ===== *)
theory Quorum
  imports Guardian
begin

text \<open>
  The live per-agent quorum signer (\<open>quorum_signer.rs\<close>): the holder interface, the holder whose share is in
  this process, the subset search and the ceremony. The FROST crate is \<open>frost\<close>; the operating system's
  randomness is a stream of draws, counted in the state. A lock poisoned by a panicking thread is not
  modelled. An \<open>anyhow\<close> error is its chain of messages, the outermost first.
\<close>

record ('kp, 'pk, 'nc, 'cm, 'sh) frost =
  fr_identifier :: "'kp \<Rightarrow> frost_id"
  fr_try_from :: "u16 \<Rightarrow> string + frost_id"
  fr_commit :: "'kp \<Rightarrow> nat \<Rightarrow> 'nc \<times> 'cm"
  fr_sign_with_tweak :: "'cm signing_package \<Rightarrow> 'nc \<Rightarrow> 'kp \<Rightarrow> string + 'sh"
  fr_aggregate_with_tweak :: "'cm signing_package \<Rightarrow> (frost_id, 'sh) tree \<Rightarrow> 'pk \<Rightarrow> string + bytes"
  fr_signature_serialize :: "bytes \<Rightarrow> string + bytes"

type_synonym anyhow = "string list"

definition MIN_SIGNERS :: u16 where "MIN_SIGNERS = 2"

fun show_reason :: "refuse_reason \<Rightarrow> string" where
  "show_reason MessageMismatch = ''MessageMismatch''"
| "show_reason NotInSignerSet = ''NotInSignerSet''"
| "show_reason SubThreshold = ''SubThreshold''"
| "show_reason DuplicateSigner = ''DuplicateSigner''"
| "show_reason BadKind = ''BadKind''"
| "show_reason DirtyContent = ''DirtyContent''"
| "show_reason BadKeyset = ''BadKeyset''"
| "show_reason IdentifierAliasing = ''IdentifierAliasing''"
| "show_reason MalformedInboxRelays = ''MalformedInboxRelays''"

section \<open>Holders\<close>

text \<open>A holder acts on a world that holds every holder's own state.\<close>

record ('cm, 'sh, 's) holder =
  ho_id :: u16
  ho_commit :: "u64 \<Rightarrow> 's \<Rightarrow> (anyhow + 'cm) \<times> 's"
  ho_validate_and_sign :: "u64 \<Rightarrow> cosign_request \<Rightarrow> 'cm signing_package \<Rightarrow> 's \<Rightarrow> (refuse_reason + 'sh) \<times> 's"

record ('kp, 'pk, 'nc) local_holder =
  lh_key_package :: 'kp
  lh_own_pubkeys :: 'pk
  lh_id_u16 :: u16
  lh_nonces :: "u64 \<Rightarrow> 'nc option"

definition local_holder_new :: "('kp, 'pk, 'nc, 'cm, 'sh) frost \<Rightarrow> 'kp \<Rightarrow> 'pk \<Rightarrow> ('kp, 'pk, 'nc) local_holder" where
  "local_holder_new fr key_package own_pubkeys =
     \<lparr>lh_key_package = key_package, lh_own_pubkeys = own_pubkeys,
      lh_id_u16 = identifier_to_u16 (fr_identifier fr key_package), lh_nonces = Map.empty\<rparr>"

definition local_commit ::
  "('kp, 'pk, 'nc, 'cm, 'sh) frost \<Rightarrow> u64 \<Rightarrow> ('kp, 'pk, 'nc) local_holder \<Rightarrow> nat
     \<Rightarrow> (anyhow + 'cm) \<times> ('kp, 'pk, 'nc) local_holder \<times> nat" where
  "local_commit fr session_id h draws =
     (let (nonce, commitment) = fr_commit fr (lh_key_package h) draws
      in if lh_nonces h session_id \<noteq> None then
           (Inl [''holder '' @ show_word (lh_id_u16 h) @ '' already has a live nonce for session ''
              @ show_word session_id @ '' (nonce reuse guard)''], h, draws + 1)
         else (Inr commitment, h\<lparr>lh_nonces := (lh_nonces h)(session_id \<mapsto> nonce)\<rparr>, draws + 1))"

definition local_validate_and_sign ::
  "'pk curve \<Rightarrow> digest_env \<Rightarrow> ('kp, 'pk, 'nc, 'cm, 'sh) frost \<Rightarrow> u64 \<Rightarrow> cosign_request \<Rightarrow> 'cm signing_package
     \<Rightarrow> ('kp, 'pk, 'nc) local_holder \<Rightarrow> (refuse_reason + 'sh) \<times> ('kp, 'pk, 'nc) local_holder" where
  "local_validate_and_sign cv de fr session_id req package h =
     (case lh_nonces h session_id of
        None \<Rightarrow> (Inl BadKeyset, h)
      | Some nonce \<Rightarrow>
          (let h' = h\<lparr>lh_nonces := (lh_nonces h)(session_id := None)\<rparr>
           in case validate cv de req package (lh_own_pubkeys h) (lh_id_u16 h) MIN_SIGNERS of
                Inl reason \<Rightarrow> (Inl reason, h')
              | Inr _ \<Rightarrow>
                  (case fr_sign_with_tweak fr package nonce (lh_key_package h) of
                     Inl e \<Rightarrow> (Inl BadKeyset, h')
                   | Inr share \<Rightarrow> (Inr share, h'))))"

text \<open>The world of holders that share a process: the randomness drawn and each holder by position.\<close>

record ('kp, 'pk, 'nc) holder_world =
  hw_draws :: nat
  hw_holders :: "('kp, 'pk, 'nc) local_holder list"

definition local_holder_at ::
  "'pk curve \<Rightarrow> digest_env \<Rightarrow> ('kp, 'pk, 'nc, 'cm, 'sh) frost \<Rightarrow> u16 \<Rightarrow> nat
     \<Rightarrow> ('cm, 'sh, ('kp, 'pk, 'nc) holder_world) holder" where
  "local_holder_at cv de fr holder_id i =
     \<lparr>ho_id = holder_id,
      ho_commit = (\<lambda>sid w. case local_commit fr sid (hw_holders w ! i) (hw_draws w) of
         (r, h, draws) \<Rightarrow> (r, w\<lparr>hw_draws := draws, hw_holders := (hw_holders w)[i := h]\<rparr>)),
      ho_validate_and_sign = (\<lambda>sid req package w.
         case local_validate_and_sign cv de fr sid req package (hw_holders w ! i) of
           (r, h) \<Rightarrow> (r, w\<lparr>hw_holders := (hw_holders w)[i := h]\<rparr>))\<rparr>"

section \<open>The signer\<close>

record ('pk, 'cm, 'sh, 's) quorum_signer =
  qs_holders :: "('cm, 'sh, 's) holder list"
  qs_pubkeys :: 'pk
  qs_q_bytes :: bytes

record 's signer_state =
  ss_next_session :: u64
  ss_world :: 's

definition quorum_signer_new ::
  "'pk curve \<Rightarrow> ('cm, 'sh, 's) holder list \<Rightarrow> 'pk \<Rightarrow> anyhow + ('pk, 'cm, 'sh, 's) quorum_signer" where
  "quorum_signer_new cv holders pubkeys =
     (case group_xonly_q cv pubkeys of
        Inl e \<Rightarrow> Inl [''derive group Q: '' @ e]
      | Inr q \<Rightarrow> Inr \<lparr>qs_holders = holders, qs_pubkeys = pubkeys, qs_q_bytes = q\<rparr>)"

definition from_local_key_packages ::
  "'pk curve \<Rightarrow> digest_env \<Rightarrow> ('kp, 'pk, 'nc, 'cm, 'sh) frost \<Rightarrow> 'kp list \<Rightarrow> 'pk \<Rightarrow> nat
     \<Rightarrow> anyhow + ('pk, 'cm, 'sh, ('kp, 'pk, 'nc) holder_world) quorum_signer \<times> ('kp, 'pk, 'nc) holder_world signer_state" where
  "from_local_key_packages cv de fr key_packages pubkeys draws =
     (let locals = map (\<lambda>kp. local_holder_new fr kp pubkeys) key_packages;
          holders = map (\<lambda>i. local_holder_at cv de fr (lh_id_u16 (locals ! i)) i) [0..<length locals]
      in case quorum_signer_new cv holders pubkeys of
           Inl e \<Rightarrow> Inl e
         | Inr qs \<Rightarrow> Inr (qs, \<lparr>ss_next_session = 0, ss_world = \<lparr>hw_draws = draws, hw_holders = locals\<rparr>\<rparr>))"

definition is_signable_kind :: "u32 \<Rightarrow> bool" where
  "is_signable_kind kind \<longleftrightarrow>
     kind = ucast NOSTR_KIND_TEXT_NOTE
     \<or> kind = KIND_KIRBY_PRESENCE \<or> kind = KIND_KIRBY_LIFECYCLE \<or> kind = KIND_KIRBY_AGENT_STATE
     \<or> kind = KIND_KIRBY_LEASE \<or> kind = KIND_NOSTR_SEAL \<or> kind = KIND_NOSTR_INBOX_RELAYS"

text \<open>The index combinations in the order they are tried.\<close>

function subsets_from :: "nat \<Rightarrow> nat \<Rightarrow> nat \<Rightarrow> nat list \<Rightarrow> nat list list" where
  "subsets_from start n t combo =
     (if length combo = t then [combo]
      else concat (map (\<lambda>i. subsets_from (i + 1) n t (combo @ [i])) [start..<n - (t - length combo) + 1]))"
  by auto

termination by (relation "measure (\<lambda>(start, n, t, combo). n + 1 - start)") auto

definition quorum_subsets :: "nat \<Rightarrow> nat \<Rightarrow> nat list list" where
  "quorum_subsets n t = (if t = 0 \<or> t > n then [] else subsets_from 0 n t [])"

text \<open>Round 1 over the participants, and round 2.\<close>

fun commit_all ::
  "('kp, 'pk, 'nc, 'cm, 'sh) frost \<Rightarrow> u64 \<Rightarrow> ('cm, 'sh, 's) holder list \<Rightarrow> (frost_id, 'cm) tree \<Rightarrow> 's
     \<Rightarrow> (anyhow + (frost_id, 'cm) tree) \<times> 's" where
  "commit_all fr sid [] commitments w = (Inr commitments, w)"
| "commit_all fr sid (h # hs) commitments w =
     (case ho_commit h sid w of
        (Inl e, w') \<Rightarrow> (Inl ((''holder '' @ show_word (ho_id h) @ '' round-1 commit (session '' @ show_word sid @ '')'') # e), w')
      | (Inr commitment, w') \<Rightarrow>
          (case fr_try_from fr (ho_id h) of
             Inl e \<Rightarrow> (Inl [''holder id '' @ show_word (ho_id h) @ '' is not a valid FROST identifier: '' @ e], w')
           | Inr ident \<Rightarrow> commit_all fr sid hs (tinsert ident commitment commitments) w'))"

fun sign_all ::
  "('kp, 'pk, 'nc, 'cm, 'sh) frost \<Rightarrow> u64 \<Rightarrow> cosign_request \<Rightarrow> 'cm signing_package \<Rightarrow> ('cm, 'sh, 's) holder list
     \<Rightarrow> (frost_id, 'sh) tree \<Rightarrow> 's \<Rightarrow> (anyhow + (frost_id, 'sh) tree) \<times> 's" where
  "sign_all fr sid req package [] shares w = (Inr shares, w)"
| "sign_all fr sid req package (h # hs) shares w =
     (case ho_validate_and_sign h sid req package w of
        (Inl reason, w') \<Rightarrow>
           (Inl [''holder '' @ show_word (ho_id h) @ '' REFUSED to co-sign ('' @ show_reason reason
              @ ''); subset abandoned, NO signature emitted''], w')
      | (Inr share, w') \<Rightarrow>
          (case fr_try_from fr (ho_id h) of
             Inl e \<Rightarrow> (Inl [''holder id to identifier: '' @ e], w')
           | Inr ident \<Rightarrow> sign_all fr sid req package hs (tinsert ident share shares) w'))"

definition try_subset_ceremony ::
  "('kp, 'pk, 'nc, 'cm, 'sh) frost \<Rightarrow> 'pk \<Rightarrow> ('cm, 'sh, 's) holder list \<Rightarrow> bytes \<Rightarrow> sign_intent \<Rightarrow> 's signer_state
     \<Rightarrow> (anyhow + bytes) \<times> 's signer_state" where
  "try_subset_ceremony fr pubkeys participants event_id intent st =
     (let signer_set = set (map ho_id participants)
      in if card signer_set < unat MIN_SIGNERS then
           (Inl [''quorum holders collapsed to fewer than 2 distinct identifiers''], st)
         else
           let session_id = ss_next_session st;
               st1 = st\<lparr>ss_next_session := session_id + 1\<rparr>
           in case commit_all fr session_id participants [] (ss_world st1) of
                (Inl e, w) \<Rightarrow> (Inl e, st1\<lparr>ss_world := w\<rparr>)
              | (Inr commitments, w) \<Rightarrow>
                  (let package = \<lparr>sp_commitments = commitments, sp_message = event_id\<rparr>;
                       req = \<lparr>cr_session_id = session_id, cr_intent = intent, cr_signer_set = signer_set\<rparr>
                   in case sign_all fr session_id req package participants [] w of
                        (Inl e, w') \<Rightarrow> (Inl e, st1\<lparr>ss_world := w'\<rparr>)
                      | (Inr shares, w') \<Rightarrow>
                          (case fr_aggregate_with_tweak fr package shares pubkeys of
                             Inl e \<Rightarrow> (Inl [''aggregate FROST shares: '' @ e], st1\<lparr>ss_world := w'\<rparr>)
                           | Inr group_sig \<Rightarrow>
                               (case fr_signature_serialize fr group_sig of
                                  Inl e \<Rightarrow> (Inl [''serialize aggregate signature: '' @ e], st1\<lparr>ss_world := w'\<rparr>)
                                | Inr sig \<Rightarrow>
                                    if length sig = 64 then (Inr sig, st1\<lparr>ss_world := w'\<rparr>)
                                    else (Inl [''expected a 64-byte BIP-340 signature, got '' @ show_nat (length sig)],
                                          st1\<lparr>ss_world := w'\<rparr>)))))"

record nostr_event =
  ne_id :: utext
  ne_pubkey :: utext
  ne_created_at :: u64
  ne_kind :: u32
  ne_tags :: "utext list list"
  ne_content :: utext
  ne_sig :: utext

fun show_ids :: "u16 list \<Rightarrow> string" where
  "show_ids [] = ''''"
| "show_ids [i] = show_word i"
| "show_ids (i # j # is) = show_word i @ '', '' @ show_ids (j # is)"

fun try_subsets ::
  "('kp, 'pk, 'nc, 'cm, 'sh) frost \<Rightarrow> ('pk, 'cm, 'sh, 's) quorum_signer \<Rightarrow> bytes \<Rightarrow> sign_intent
     \<Rightarrow> anyhow option \<Rightarrow> nat list list \<Rightarrow> 's signer_state \<Rightarrow> (anyhow option + bytes) \<times> 's signer_state" where
  "try_subsets fr qs event_id intent last_err [] st = (Inl last_err, st)"
| "try_subsets fr qs event_id intent last_err (combo # combos) st =
     (let participants = map (\<lambda>i. qs_holders qs ! i) combo
      in case try_subset_ceremony fr (qs_pubkeys qs) participants event_id intent st of
           (Inr sig, st') \<Rightarrow> (Inr sig, st')
         | (Inl e, st') \<Rightarrow>
             try_subsets fr qs event_id intent
               (Some ((''quorum subset ['' @ show_ids (map ho_id participants)
                  @ ''] failed; trying the next reachable subset'') # e)) combos st')"

fun chain_text :: "anyhow \<Rightarrow> string" where
  "chain_text [] = ''''"
| "chain_text [m] = m"
| "chain_text (m # m' # ms) = m @ '': '' @ chain_text (m' # ms)"

definition sign_nostr_event_with_tags ::
  "digest_env \<Rightarrow> ('kp, 'pk, 'nc, 'cm, 'sh) frost \<Rightarrow> ('pk, 'cm, 'sh, 's) quorum_signer
     \<Rightarrow> u32 \<Rightarrow> u64 \<Rightarrow> utext list list \<Rightarrow> utext \<Rightarrow> 's signer_state \<Rightarrow> (anyhow + nostr_event) \<times> 's signer_state" where
  "sign_nostr_event_with_tags de fr qs kind created_at tags content st =
     (if \<not> is_signable_kind kind then
        (Inl [''QuorumSigner refuses kind '' @ show_word kind @ '': only kind 1 (voice), the Kirby beacons ''
           @ ''10100/9100/31000, the cross-machine lease 31002, the NIP-17 DM seal 13, and ''
           @ ''the DM inbox-relay list 10050 are signable''], st)
      else
        case (if kind = ucast NOSTR_KIND_TEXT_NOTE then
                (case sanitize_note_for_publish content of
                   Inl reason \<Rightarrow> Inl [''note content refused by the publish guard: '' @ reason]
                 | Inr clean \<Rightarrow> Inr clean)
              else Inr content) of
          Inl e \<Rightarrow> (Inl e, st)
        | Inr signed_content \<Rightarrow>
            (let q_hex = de_hex de (qs_q_bytes qs);
                 event_id = nip01_event_id_with_tags de q_hex created_at kind tags signed_content
             in if length (qs_holders qs) < unat MIN_SIGNERS then
                  (Inl [''QuorumSigner has '' @ show_nat (length (qs_holders qs))
                     @ '' holders, need at least 2 to form a quorum''], st)
                else
                  let subsets = quorum_subsets (length (qs_holders qs)) (unat MIN_SIGNERS);
                      intent = \<lparr>si_kind = kind, si_created_at = created_at, si_tags = tags, si_content = signed_content\<rparr>
                  in case try_subsets fr qs event_id intent None subsets st of
                       (Inr sig, st') \<Rightarrow>
                         (Inr \<lparr>ne_id = de_hex de event_id, ne_pubkey = q_hex, ne_created_at = created_at, ne_kind = kind,
                            ne_tags = tags, ne_content = signed_content, ne_sig = de_hex de sig\<rparr>, st')
                     | (Inl last_err, st') \<Rightarrow>
                         (let detail = (case last_err of Some e \<Rightarrow> chain_text e | None \<Rightarrow> ''no quorum subset was available'')
                          in (Inl [''no available 2-of-'' @ show_nat (length (qs_holders qs))
                                @ '' holder subset could complete the ceremony; NO signature emitted (last failure: ''
                                @ detail @ '')''], st'))))"

definition sign_nostr_event ::
  "digest_env \<Rightarrow> ('kp, 'pk, 'nc, 'cm, 'sh) frost \<Rightarrow> ('pk, 'cm, 'sh, 's) quorum_signer
     \<Rightarrow> u32 \<Rightarrow> u64 \<Rightarrow> utext \<Rightarrow> 's signer_state \<Rightarrow> (anyhow + nostr_event) \<times> 's signer_state" where
  "sign_nostr_event de fr qs kind created_at content st =
     sign_nostr_event_with_tags de fr qs kind created_at [] content st"

end
