(* ===== verification/Quorum_Props.thy ===== *)
theory Quorum_Props
  imports Quorum
begin

text \<open>
  What the quorum promises: the membrane accepts one event per message, a nonce signs at most once, every
  event under the group key was reconstructed and accepted by two distinct holders, and one lost holder
  does not stop the quorum.
\<close>

section \<open>The membrane\<close>

lemma validate_Inr: "validate cv de req package pubkeys me min_signers = Inr u \<longleftrightarrow>
    (\<exists>q. group_xonly_q cv pubkeys = Inr q \<and> sp_message package = intent_id de q (cr_intent req))
    \<and> intent_refusal (cr_intent req) = None
    \<and> me \<in> cr_signer_set req \<and> unat min_signers \<le> card (cr_signer_set req)
    \<and> distinct (tkeys (sp_commitments package)) \<and> inj_on identifier_to_u16 (set (tkeys (sp_commitments package)))
    \<and> identifier_to_u16 ` set (tkeys (sp_commitments package)) = cr_signer_set req"
  by (auto simp: validate_def Let_def card_aliasing split: sum.splits option.splits)

definition intent_text :: "digest_env \<Rightarrow> bytes \<Rightarrow> sign_intent \<Rightarrow> bytes" where
  "intent_text de q i = de_json_text de (nip01_array (de_hex de q) (si_created_at i) (si_kind i) (si_tags i) (si_content i))"

lemma intent_id_text: "intent_id de q i = de_sha256 de (intent_text de q i)"
  by (simp add: intent_id_def nip01_event_id_with_tags_def intent_text_def)

lemma nip01_inj: "nip01_array q t k tags c = nip01_array q t' k' tags' c' \<longleftrightarrow>
    t = t' \<and> k = k' \<and> tags = tags' \<and> c = c'"
proof -
  have str: "inj Json_Str" by (simp add: inj_def)
  have "inj (\<lambda>tag. Json_Arr (map Json_Str tag))"
    by (rule injI) (simp add: inj_map_eq_map [OF str])
  then show ?thesis by (auto simp: nip01_array_def inj_map_eq_map word_unat_eq_iff)
qed

lemma intent_text_inj: "inj (de_json_text de) \<Longrightarrow> intent_text de q i = intent_text de q i' \<Longrightarrow> i = i'"
  by (cases i; cases i') (simp add: intent_text_def inj_eq nip01_inj)

text \<open>C32: A guardian's yes is bound to one event. Two requests it accepts for the same message under the same
  group key ask for the same kind, time, tags and content, unless their two NIP-01 texts are a SHA-256
  collision: nothing a coordinator puts into a package makes a guardian sign another event than the one it
  reconstructed.\<close>

theorem membrane_binds_event:
  assumes "inj (de_json_text de)"
    and "validate cv de req package pubkeys me min_signers = Inr ()"
    and "validate cv de req' package' pubkeys me' min_signers' = Inr ()"
    and "sp_message package = sp_message package'"
  shows "\<exists>q. group_xonly_q cv pubkeys = Inr q \<and> sp_message package = de_sha256 de (intent_text de q (cr_intent req))
    \<and> (cr_intent req = cr_intent req'
       \<or> intent_text de q (cr_intent req) \<noteq> intent_text de q (cr_intent req')
         \<and> de_sha256 de (intent_text de q (cr_intent req)) = de_sha256 de (intent_text de q (cr_intent req')))"
proof -
  obtain q where q: "group_xonly_q cv pubkeys = Inr q" "sp_message package = intent_id de q (cr_intent req)"
    "sp_message package' = intent_id de q (cr_intent req')"
    using assms(2,3) unfolding validate_Inr by auto
  have "intent_text de q (cr_intent req) = intent_text de q (cr_intent req') \<Longrightarrow> cr_intent req = cr_intent req'"
    by (rule intent_text_inj [OF assms(1)])
  then show ?thesis using q assms(4) unfolding intent_id_text by auto
qed

text \<open>A concrete environment: an injective JSON text, a digest, a curve and a FROST of two tagged values.\<close>

fun unary :: "nat \<Rightarrow> bytes" where
  "unary 0 = ''0''" | "unary (Suc n) = CHR ''1'' # unary n"

fun flat_json :: "json_value \<Rightarrow> bytes" where
  "flat_json (Json_Int n) = CHR ''i'' # unary n"
| "flat_json (Json_Str s) = CHR ''s'' # concat (map (\<lambda>c. CHR ''c'' # unary c) s) @ ''z''"
| "flat_json (Json_Arr vs) = CHR ''a'' # concat (map flat_json vs) @ ''z''"

lemma unary_inj: "unary m @ r = unary n @ q \<Longrightarrow> m = n \<and> r = q"
  by (induction m arbitrary: n) (case_tac [!] n, auto)

lemma flat_text_inj: "concat (map (\<lambda>c. CHR ''c'' # unary c) s) @ CHR ''z'' # r =
    concat (map (\<lambda>c. CHR ''c'' # unary c) t) @ CHR ''z'' # q \<Longrightarrow> s = t \<and> r = q"
  by (induction s arbitrary: t) (case_tac [!] t, auto dest: unary_inj)

lemma flat_json_head: "\<exists>c cs. flat_json v = c # cs \<and> c \<noteq> CHR ''z''"
  by (cases v) auto

lemma flat_jsons_inj:
  assumes "\<And>v w r q. v \<in> set vs \<Longrightarrow> flat_json v @ r = flat_json w @ q \<Longrightarrow> v = w \<and> r = q"
    and "concat (map flat_json vs) @ CHR ''z'' # r = concat (map flat_json ws) @ CHR ''z'' # q"
  shows "vs = ws \<and> r = q"
  using assms
proof (induction vs arbitrary: ws)
  case Nil
  then show ?case
  proof (cases ws)
    case (Cons w ws')
    then show ?thesis using Nil flat_json_head [of w] by auto
  qed simp
next
  case (Cons v vs)
  obtain w ws' where ws: "ws = w # ws'"
    using Cons.prems(2) flat_json_head [of v] by (cases ws) auto
  have head: "v = w \<and> concat (map flat_json vs) @ CHR ''z'' # r = concat (map flat_json ws') @ CHR ''z'' # q"
    using Cons.prems(1) [of v _ w] Cons.prems(2) by (simp add: ws)
  have "vs = ws' \<and> r = q"
  proof (rule Cons.IH)
    show "v' = w' \<and> r' = q'" if "v' \<in> set vs" and "flat_json v' @ r' = flat_json w' @ q'" for v' w' r' q'
      by (rule Cons.prems(1) [OF _ that(2)]) (use that(1) in simp)
  qed (use head in simp)
  with head show ?case by (simp add: ws)
qed

lemma flat_json_inj: "flat_json v @ r = flat_json w @ q \<Longrightarrow> v = w \<and> r = q"
proof (induction v arbitrary: w r q)
  case (Json_Int n)
  then show ?case by (cases w) (auto dest: unary_inj)
next
  case (Json_Str s)
  then show ?case by (cases w) (auto dest: flat_text_inj)
next
  case (Json_Arr vs)
  show ?case
  proof (cases w)
    case (Json_Arr ws)
    then show ?thesis using flat_jsons_inj [of vs r ws q] Json_Arr.IH Json_Arr.prems by simp
  qed (use Json_Arr.prems in auto)
qed

lemma inj_flat_json: "inj flat_json"
  using flat_json_inj [of _ "[]" _ "[]"] by (auto intro: injI)

definition sample_digests :: digest_env where
  "sample_digests = \<lparr>de_json_text = flat_json, de_sha256 = id, de_hex = map of_char\<rparr>"

definition sample_curve :: "bytes curve" where
  "sample_curve = \<lparr>cv_vk_serialize = Inr, cv_pubkey_from_slice = Inr, cv_x_only = id,
     cv_tap_tweak = (\<lambda>x. ''Q'' @ x), cv_p2tr_tweaked = (\<lambda>x h. x)\<rparr>"

definition sample_intent :: sign_intent where
  "sample_intent = \<lparr>si_kind = 13, si_created_at = 5, si_tags = [], si_content = [104, 105]\<rparr>"

definition sample_id :: "nat \<Rightarrow> frost_id" where "sample_id n = be_digits 2 n"

definition sample_request :: cosign_request where
  "sample_request = \<lparr>cr_session_id = 0, cr_intent = sample_intent, cr_signer_set = {2, 3}\<rparr>"

definition sample_package :: "nat signing_package" where
  "sample_package = \<lparr>sp_commitments = [(sample_id 2, 7), (sample_id 3, 8)],
     sp_message = intent_text sample_digests ''Qk'' sample_intent\<rparr>"

definition sample_frost :: "(nat, bytes, nat, nat, nat) frost" where
  "sample_frost = \<lparr>fr_identifier = sample_id,
     fr_try_from = (\<lambda>k. if k = 0 then Inl ''zero'' else Inr (sample_id (unat k))),
     fr_commit = (\<lambda>kp k. (k, k)), fr_sign_with_tweak = (\<lambda>package n kp. Inr n),
     fr_aggregate_with_tweak = (\<lambda>package shares pubkeys. Inr (replicate 64 CHR ''s'')),
     fr_signature_serialize = Inr\<rparr>"

lemma sample_ids: "identifier_to_u16 (sample_id 2) = 2" "identifier_to_u16 (sample_id 3) = 3" "identifier_to_u16 (sample_id 4) = 4"
  by code_simp+

lemma sample_id_diff: "sample_id 2 \<noteq> sample_id 3"
  using sample_ids by auto

lemma sample_q: "group_xonly_q sample_curve k = Inr (''Q'' @ k)"
  by (simp add: group_xonly_q_def taproot_address_def sample_curve_def)

lemma sample_accepted: "validate sample_curve sample_digests sample_request sample_package ''k'' 2 2 = Inr ()"
  unfolding validate_Inr sample_q
  by (simp add: sample_package_def sample_request_def sample_ids sample_id_diff tkeys_def inj_on_def intent_id_text)
    (simp add: sample_intent_def intent_refusal_def is_authorizable_kind_def kind_defs sample_digests_def)

theorem membrane_binds_event_witness:
  "\<exists>q. group_xonly_q sample_curve ''k'' = Inr q
    \<and> sp_message sample_package = de_sha256 sample_digests (intent_text sample_digests q sample_intent)"
  using membrane_binds_event [OF _ sample_accepted sample_accepted] inj_flat_json
  by (auto simp: sample_digests_def sample_request_def)

text \<open>The signer and the membrane agree on what may be said. They allow the same kinds, and every note the
  publish guard lets through passes the guardian's copy of the note policy unchanged, while a note the
  publish guard would rewrite or refuse is refused by the guardian.\<close>

theorem membrane_agrees_with_publish:
  "is_signable_kind kind = is_authorizable_kind kind
   \<and> (content_is_clean content = (sanitize_note_for_publish content = Inr content))
   \<and> (\<forall>raw. sanitize_note_for_publish raw = Inr content \<longrightarrow> content_is_clean content)"
  using sanitized_note
  by (auto simp: is_signable_kind_def is_authorizable_kind_def kind_defs NOSTR_KIND_TEXT_NOTE_def
    content_is_clean_def sanitize_note_publish split: sum.splits)

theorem membrane_agrees_with_publish_witness:
  "sanitize_note_for_publish [104, 105] = Inr [104, 105] \<and> content_is_clean [104, 105]"
proof -
  have "sanitize_note_for_publish [104, 105] = Inr [104, 105]"
    by (simp add: sanitize_note_for_publish_def collapse_control_to_one_line_def blank_def is_control_def
        is_whitespace_def byte_len_def len_utf8_def MAX_NOTE_BYTES_def)
  then show ?thesis using membrane_agrees_with_publish [of 1 "[104, 105]"] by blast
qed

section \<open>Nonces\<close>

text \<open>Whatever a coordinator asks of a holder, in any order: the shares it gets.\<close>

datatype 'cm holder_call = Call_commit u64 | Call_sign u64 cosign_request "'cm signing_package"

fun holder_shares ::
  "'pk curve \<Rightarrow> digest_env \<Rightarrow> ('kp, 'pk, 'nc, 'cm, 'sh) frost \<Rightarrow> 'cm holder_call list
     \<Rightarrow> ('kp, 'pk, 'nc) local_holder \<Rightarrow> nat \<Rightarrow> (cosign_request \<times> 'cm signing_package \<times> 'sh) list" where
  "holder_shares cv de fr [] h draws = []"
| "holder_shares cv de fr (Call_commit sid # calls) h draws =
     (case local_commit fr sid h draws of (r, h', draws') \<Rightarrow> holder_shares cv de fr calls h' draws')"
| "holder_shares cv de fr (Call_sign sid req package # calls) h draws =
     (case local_validate_and_sign cv de fr sid req package h of
        (Inr share, h') \<Rightarrow> (req, package, share) # holder_shares cv de fr calls h' draws
      | (Inl e, h') \<Rightarrow> holder_shares cv de fr calls h' draws)"

definition drawn_nonce :: "('kp, 'pk, 'nc, 'cm, 'sh) frost \<Rightarrow> 'kp \<Rightarrow> nat \<Rightarrow> 'nc" where
  "drawn_nonce fr kp k = fst (fr_commit fr kp k)"

text \<open>Which draw each live nonce came from.\<close>

definition provenance ::
  "('kp, 'pk, 'nc, 'cm, 'sh) frost \<Rightarrow> ('kp, 'pk, 'nc) local_holder \<Rightarrow> nat \<Rightarrow> (u64 \<Rightarrow> nat option) \<Rightarrow> bool" where
  "provenance fr h draws P \<longleftrightarrow>
     lh_nonces h = map_option (drawn_nonce fr (lh_key_package h)) \<circ> P \<and> ran P \<subseteq> {..<draws} \<and> inj_on P (dom P)"

lemma provenance_new: "provenance fr (local_holder_new fr kp pubkeys) draws Map.empty"
  by (auto simp: provenance_def local_holder_new_def)

lemma provenance_drop: "provenance fr h draws P \<Longrightarrow>
    provenance fr (h\<lparr>lh_nonces := (lh_nonces h)(sid := None)\<rparr>) draws (P(sid := None))"
  by (auto simp: provenance_def fun_eq_iff inj_on_def dom_def ran_def)

lemma provenance_draw: "provenance fr h draws P \<Longrightarrow> provenance fr h (draws + 1) P"
  by (auto simp: provenance_def)

lemma provenance_add: "provenance fr h draws P \<Longrightarrow> lh_nonces h sid = None \<Longrightarrow>
    provenance fr (h\<lparr>lh_nonces := (lh_nonces h)(sid \<mapsto> drawn_nonce fr (lh_key_package h) draws)\<rparr>) (draws + 1)
      (P(sid \<mapsto> draws)) \<and> ran (P(sid \<mapsto> draws)) = insert draws (ran P)"
proof -
  assume P: "provenance fr h draws P" "lh_nonces h sid = None"
  then have none: "P sid = None" and ran: "ran P \<subseteq> {..<draws}" by (auto simp: provenance_def)
  have "inj_on (P(sid \<mapsto> draws)) (dom (P(sid \<mapsto> draws)))"
    using P ran by (auto simp: provenance_def inj_on_def dom_def ran_def)
  with P none ran show ?thesis by (auto simp: provenance_def fun_eq_iff ran_map_upd)
qed

lemma ran_sub: "ran (P(sid := None)) \<subseteq> ran P"
  by (auto simp: ran_def split: if_splits)

lemma ran_drop: "inj_on P (dom P) \<Longrightarrow> P sid = Some k \<Longrightarrow> ran (P(sid := None)) = ran P - {k}" for P :: "'a \<Rightarrow> nat option"
  by (auto simp: ran_def inj_on_def dom_def) (metis option.inject)

lemma signed_share: "local_validate_and_sign cv de fr sid req package h = (Inr share, h') \<Longrightarrow>
    \<exists>n. lh_nonces h sid = Some n \<and> h' = h\<lparr>lh_nonces := (lh_nonces h)(sid := None)\<rparr>
      \<and> validate cv de req package (lh_own_pubkeys h) (lh_id_u16 h) MIN_SIGNERS = Inr ()
      \<and> fr_sign_with_tweak fr package n (lh_key_package h) = Inr share"
  by (auto simp: local_validate_and_sign_def Let_def split: option.splits sum.splits)

lemma refused_share: "local_validate_and_sign cv de fr sid req package h = (Inl e, h') \<Longrightarrow>
    h' = h \<or> h' = h\<lparr>lh_nonces := (lh_nonces h)(sid := None)\<rparr>"
  by (auto simp: local_validate_and_sign_def Let_def split: option.splits sum.splits)

lemma local_commit_cases: "local_commit fr sid h draws = (r, h', draws') \<Longrightarrow> draws' = draws + 1
    \<and> (h' = h \<or> lh_nonces h sid = None
        \<and> h' = h\<lparr>lh_nonces := (lh_nonces h)(sid \<mapsto> drawn_nonce fr (lh_key_package h) draws)\<rparr>)"
  by (auto simp: local_commit_def drawn_nonce_def Let_def split: prod.splits if_splits)

lemma shares_by_draw:
  assumes "provenance fr h draws P"
  shows "\<exists>js. distinct js \<and> set js \<subseteq> ran P \<union> {draws..}
    \<and> list_all2 (\<lambda>(req, package, share) k.
          validate cv de req package (lh_own_pubkeys h) (lh_id_u16 h) MIN_SIGNERS = Inr ()
          \<and> fr_sign_with_tweak fr package (drawn_nonce fr (lh_key_package h) k) (lh_key_package h) = Inr share)
        (holder_shares cv de fr calls h draws) js"
  using assms
proof (induction calls arbitrary: h draws P)
  case Nil
  show ?case by (rule exI [of _ "[]"]) simp
next
  case (Cons call calls)
  show ?case
  proof (cases call)
    case (Call_commit sid)
    obtain r h' draws' where step: "local_commit fr sid h draws = (r, h', draws')" by (cases "local_commit fr sid h draws")
    from local_commit_cases [OF step] obtain P' where P': "provenance fr h' (draws + 1) P'"
      "ran P' \<subseteq> ran P \<union> {draws..}" "draws' = draws + 1" "lh_key_package h' = lh_key_package h"
      "lh_own_pubkeys h' = lh_own_pubkeys h" "lh_id_u16 h' = lh_id_u16 h"
      using provenance_draw [OF Cons.prems] provenance_add [OF Cons.prems, of sid] by auto
    obtain js where "distinct js" "set js \<subseteq> ran P' \<union> {draws + 1..}"
      "list_all2 (\<lambda>(req, package, share) k.
          validate cv de req package (lh_own_pubkeys h) (lh_id_u16 h) MIN_SIGNERS = Inr ()
          \<and> fr_sign_with_tweak fr package (drawn_nonce fr (lh_key_package h) k) (lh_key_package h) = Inr share)
        (holder_shares cv de fr calls h' (draws + 1)) js"
      using Cons.IH [OF P'(1)] unfolding P'(4-6) by blast
    then show ?thesis using P'(2) by (intro exI [of _ js]) (auto simp: Call_commit step P'(3))
  next
    case (Call_sign sid req package)
    obtain r h' where step: "local_validate_and_sign cv de fr sid req package h = (r, h')"
      by (cases "local_validate_and_sign cv de fr sid req package h")
    show ?thesis
    proof (cases r)
      case (Inl e)
      obtain P' where P': "provenance fr h' draws P'" "ran P' \<subseteq> ran P" "lh_key_package h' = lh_key_package h"
        "lh_own_pubkeys h' = lh_own_pubkeys h" "lh_id_u16 h' = lh_id_u16 h"
        using refused_share [OF step [unfolded Inl]] Cons.prems provenance_drop [OF Cons.prems, of sid]
          ran_sub [of P sid] by auto
      show ?thesis using Cons.IH [OF P'(1)] P'(2) unfolding P'(3-5) by (auto simp: Call_sign step Inl)
    next
      case (Inr share)
      from signed_share [OF step [unfolded Inr]] obtain n where n: "lh_nonces h sid = Some n"
        "h' = h\<lparr>lh_nonces := (lh_nonces h)(sid := None)\<rparr>"
        "validate cv de req package (lh_own_pubkeys h) (lh_id_u16 h) MIN_SIGNERS = Inr ()"
        "fr_sign_with_tweak fr package n (lh_key_package h) = Inr share" by blast
      obtain k where k: "P sid = Some k" "n = drawn_nonce fr (lh_key_package h) k" "k < draws"
        using Cons.prems n(1) by (auto simp: provenance_def ran_def)
      have ran: "ran (P(sid := None)) = ran P - {k}"
        using ran_drop [of P sid k] Cons.prems k(1) by (simp add: provenance_def)
      obtain js where js: "distinct js" "set js \<subseteq> (ran P - {k}) \<union> {draws..}"
        "list_all2 (\<lambda>(req, package, share) k.
          validate cv de req package (lh_own_pubkeys h) (lh_id_u16 h) MIN_SIGNERS = Inr ()
          \<and> fr_sign_with_tweak fr package (drawn_nonce fr (lh_key_package h) k) (lh_key_package h) = Inr share)
        (holder_shares cv de fr calls h' draws) js"
        using Cons.IH [OF provenance_drop [OF Cons.prems, of sid]] unfolding ran n(2) [symmetric] by (auto simp: n(2))
      then show ?thesis using k n(3,4) ranI [of P sid k]
        by (intro exI [of _ "k # js"]) (auto simp: Call_sign step Inr)
    qed
  qed
qed

text \<open>C14: A nonce signs at most once, whatever is asked of a holder. Over any sequence of commit and sign calls,
  in any order, for any sessions and packages, each share that leaves the holder was accepted by the membrane
  under the holder's own keys and was made with a draw of randomness of its own: no two shares use one nonce.\<close>

theorem nonce_signs_once:
  "\<exists>js. distinct js \<and> set js \<subseteq> {draws..}
    \<and> list_all2 (\<lambda>(req, package, share) k.
          validate cv de req package pubkeys (identifier_to_u16 (fr_identifier fr kp)) MIN_SIGNERS = Inr ()
          \<and> fr_sign_with_tweak fr package (drawn_nonce fr kp k) kp = Inr share)
        (holder_shares cv de fr calls (local_holder_new fr kp pubkeys) draws) js"
  using shares_by_draw [OF provenance_new [of fr kp pubkeys draws], of cv de calls]
  by (simp add: local_holder_new_def)

end
