(* ===== verification/Remote_Holder.thy ===== *)
theory Remote_Holder
  imports Quorum
begin

text \<open>
  The holder on another machine (\<open>remote_holder.rs\<close>): the coordinator's proxy, the server that owns the share,
  and the in-process link between them. Every event is opaque bytes under a session and a round; the JSON
  codec of the frames is an argument.
\<close>

section \<open>Frames\<close>

record cosign_event =
  ce_session_id :: u64
  ce_from :: frost_id
  ce_round :: u8
  ce_payload :: bytes

definition ROUND_COMMITMENT :: u8 where "ROUND_COMMITMENT = 1"
definition ROUND_SHARE :: u8 where "ROUND_SHARE = 2"
definition ROUND_PACKAGE :: u8 where "ROUND_PACKAGE = 3"
definition ROUND_COMMIT_REQUEST :: u8 where "ROUND_COMMIT_REQUEST = 10"
definition ROUND_REFUSAL :: u8 where "ROUND_REFUSAL = 11"

lemmas round_defs = ROUND_COMMITMENT_def ROUND_SHARE_def ROUND_PACKAGE_def ROUND_COMMIT_REQUEST_def ROUND_REFUSAL_def

record ('cm, 'sh) frame_codec =
  fc_enc_commitment :: "'cm \<Rightarrow> string + bytes"
  fc_dec_commitment :: "bytes \<Rightarrow> string + 'cm"
  fc_enc_request :: "'cm signing_package \<times> cosign_request \<Rightarrow> string + bytes"
  fc_dec_request :: "bytes \<Rightarrow> string + 'cm signing_package \<times> cosign_request"
  fc_enc_share :: "'sh \<Rightarrow> string + bytes"
  fc_dec_share :: "bytes \<Rightarrow> string + 'sh"
  fc_enc_reason :: "refuse_reason \<Rightarrow> string + bytes"
  fc_dec_reason :: "bytes \<Rightarrow> string + refuse_reason"

section \<open>The server\<close>

record ('kp, 'pk, 'nc) holder_server =
  hs_key_package :: 'kp
  hs_own_pubkeys :: 'pk
  hs_id_u16 :: u16
  hs_nonces :: "u64 \<Rightarrow> 'nc option"

definition holder_server_new :: "('kp, 'pk, 'nc, 'cm, 'sh) frost \<Rightarrow> 'kp \<Rightarrow> 'pk \<Rightarrow> ('kp, 'pk, 'nc) holder_server" where
  "holder_server_new fr key_package own_pubkeys =
     \<lparr>hs_key_package = key_package, hs_own_pubkeys = own_pubkeys,
      hs_id_u16 = identifier_to_u16 (fr_identifier fr key_package), hs_nonces = Map.empty\<rparr>"

text \<open>The identifier of a reply; the code panics where the conversion fails, which is None here and below.\<close>

definition frost_id_of :: "('kp, 'pk, 'nc, 'cm, 'sh) frost \<Rightarrow> u16 \<Rightarrow> frost_id option" where
  "frost_id_of fr hid = (case fr_try_from fr hid of Inl e \<Rightarrow> None | Inr i \<Rightarrow> Some i)"

definition reply_event ::
  "('kp, 'pk, 'nc, 'cm, 'sh) frost \<Rightarrow> u16 \<Rightarrow> u64 \<Rightarrow> u8 \<Rightarrow> bytes \<Rightarrow> cosign_event option" where
  "reply_event fr hid session_id rnd payload =
     map_option (\<lambda>i. \<lparr>ce_session_id = session_id, ce_from = i, ce_round = rnd, ce_payload = payload\<rparr>) (frost_id_of fr hid)"

definition refuse ::
  "('cm, 'sh) frame_codec \<Rightarrow> ('kp, 'pk, 'nc, 'cm, 'sh) frost \<Rightarrow> u16 \<Rightarrow> u64 \<Rightarrow> refuse_reason \<Rightarrow> cosign_event option" where
  "refuse fc fr hid session_id reason =
     reply_event fr hid session_id ROUND_REFUSAL (case fc_enc_reason fc reason of Inl e \<Rightarrow> [] | Inr payload \<Rightarrow> payload)"

definition handle_commit ::
  "('cm, 'sh) frame_codec \<Rightarrow> ('kp, 'pk, 'nc, 'cm, 'sh) frost \<Rightarrow> u64 \<Rightarrow> ('kp, 'pk, 'nc) holder_server \<Rightarrow> nat
     \<Rightarrow> cosign_event option \<times> ('kp, 'pk, 'nc) holder_server \<times> nat" where
  "handle_commit fc fr session_id sv draws =
     (let (nonce, commitment) = fr_commit fr (hs_key_package sv) draws
      in if hs_nonces sv session_id \<noteq> None then
           (refuse fc fr (hs_id_u16 sv) session_id BadKeyset, sv, draws + 1)
         else
           let sv1 = sv\<lparr>hs_nonces := (hs_nonces sv)(session_id \<mapsto> nonce)\<rparr>
           in case fc_enc_commitment fc commitment of
                Inl e \<Rightarrow> (refuse fc fr (hs_id_u16 sv) session_id BadKeyset,
                    sv1\<lparr>hs_nonces := (hs_nonces sv1)(session_id := None)\<rparr>, draws + 1)
              | Inr payload \<Rightarrow> (reply_event fr (hs_id_u16 sv) session_id ROUND_COMMITMENT payload, sv1, draws + 1))"

definition handle_sign ::
  "'pk curve \<Rightarrow> digest_env \<Rightarrow> ('cm, 'sh) frame_codec \<Rightarrow> ('kp, 'pk, 'nc, 'cm, 'sh) frost \<Rightarrow> cosign_event
     \<Rightarrow> ('kp, 'pk, 'nc) holder_server \<Rightarrow> cosign_event option \<times> ('kp, 'pk, 'nc) holder_server" where
  "handle_sign cv de fc fr event sv =
     (let session_id = ce_session_id event; no = refuse fc fr (hs_id_u16 sv) session_id
      in case fc_dec_request fc (ce_payload event) of
           Inl e \<Rightarrow> (no BadKeyset, sv)
         | Inr (package, request) \<Rightarrow>
             (case hs_nonces sv session_id of
                None \<Rightarrow> (no BadKeyset, sv)
              | Some nonce \<Rightarrow>
                  (let sv1 = sv\<lparr>hs_nonces := (hs_nonces sv)(session_id := None)\<rparr>
                   in case validate cv de request package (hs_own_pubkeys sv) (hs_id_u16 sv) MIN_SIGNERS of
                        Inl reason \<Rightarrow> (no reason, sv1)
                      | Inr _ \<Rightarrow>
                          (case fr_sign_with_tweak fr package nonce (hs_key_package sv) of
                             Inl e \<Rightarrow> (no BadKeyset, sv1)
                           | Inr share \<Rightarrow>
                               (case fc_enc_share fc share of
                                  Inl e \<Rightarrow> (no BadKeyset, sv1)
                                | Inr payload \<Rightarrow> (reply_event fr (hs_id_u16 sv) session_id ROUND_SHARE payload, sv1))))))"

definition handle ::
  "'pk curve \<Rightarrow> digest_env \<Rightarrow> ('cm, 'sh) frame_codec \<Rightarrow> ('kp, 'pk, 'nc, 'cm, 'sh) frost \<Rightarrow> cosign_event
     \<Rightarrow> ('kp, 'pk, 'nc) holder_server \<Rightarrow> nat \<Rightarrow> cosign_event option \<times> ('kp, 'pk, 'nc) holder_server \<times> nat" where
  "handle cv de fc fr event sv draws =
     (if ce_round event = ROUND_COMMIT_REQUEST then handle_commit fc fr (ce_session_id event) sv draws
      else if ce_round event = ROUND_PACKAGE then
        (case handle_sign cv de fc fr event sv of (r, sv') \<Rightarrow> (r, sv', draws))
      else (refuse fc fr (hs_id_u16 sv) (ce_session_id event) BadKeyset, sv, draws))"

section \<open>The proxy\<close>

text \<open>A transport acts on the world: it sends one event, and receives the next one.\<close>

record 's transport =
  tp_send :: "cosign_event \<Rightarrow> 's \<Rightarrow> (anyhow + unit) \<times> 's"
  tp_recv :: "'s \<Rightarrow> (anyhow + cosign_event) \<times> 's"

definition coordinator_event :: "frost_id \<Rightarrow> u64 \<Rightarrow> u8 \<Rightarrow> bytes \<Rightarrow> cosign_event" where
  "coordinator_event coordinator session_id rnd payload =
     \<lparr>ce_session_id = session_id, ce_from = coordinator, ce_round = rnd, ce_payload = payload\<rparr>"

definition remote_commit ::
  "('cm, 'sh) frame_codec \<Rightarrow> frost_id \<Rightarrow> 's transport \<Rightarrow> u16 \<Rightarrow> u64 \<Rightarrow> 's \<Rightarrow> (anyhow + 'cm) \<times> 's" where
  "remote_commit fc coordinator tp hid session_id w =
     (let me = ''remote holder '' @ show_word hid
      in case tp_send tp (coordinator_event coordinator session_id ROUND_COMMIT_REQUEST []) w of
           (Inl e, w1) \<Rightarrow> (Inl e, w1)
         | (Inr _, w1) \<Rightarrow>
             (case tp_recv tp w1 of
                (Inl e, w2) \<Rightarrow> (Inl e, w2)
              | (Inr reply, w2) \<Rightarrow>
                  if ce_session_id reply \<noteq> session_id then
                    (Inl [me @ '' round-1 reply session mismatch (asked '' @ show_word session_id @ '', got ''
                       @ show_word (ce_session_id reply) @ '')''], w2)
                  else if identifier_to_u16 (ce_from reply) \<noteq> hid then
                    (Inl [me @ '' round-1 reply came from '' @ show_word (identifier_to_u16 (ce_from reply))
                       @ '' (expected '' @ show_word hid @ '')''], w2)
                  else if ce_round reply = ROUND_COMMITMENT then
                    (case fc_dec_commitment fc (ce_payload reply) of
                       Inl e \<Rightarrow> (Inl [me @ '' commitment decode: '' @ e], w2)
                     | Inr commitments \<Rightarrow> (Inr commitments, w2))
                  else if ce_round reply = ROUND_REFUSAL then
                    (case fc_dec_reason fc (ce_payload reply) of
                       Inl e \<Rightarrow> (Inl [me @ '' refusal decode: '' @ e], w2)
                     | Inr reason \<Rightarrow> (Inl [me @ '' REFUSED at round 1 ('' @ show_reason reason @ '')''], w2))
                  else (Inl [me @ '' round-1 reply has unexpected round '' @ show_word (ce_round reply)], w2)))"

definition remote_validate_and_sign ::
  "('cm, 'sh) frame_codec \<Rightarrow> frost_id \<Rightarrow> 's transport \<Rightarrow> u16 \<Rightarrow> u64 \<Rightarrow> cosign_request \<Rightarrow> 'cm signing_package \<Rightarrow> 's
     \<Rightarrow> (refuse_reason + 'sh) \<times> 's" where
  "remote_validate_and_sign fc coordinator tp hid session_id req package w =
     (case fc_enc_request fc (package, req) of
        Inl e \<Rightarrow> (Inl BadKeyset, w)
      | Inr payload \<Rightarrow>
          (case tp_send tp (coordinator_event coordinator session_id ROUND_PACKAGE payload) w of
             (Inl e, w1) \<Rightarrow> (Inl BadKeyset, w1)
           | (Inr _, w1) \<Rightarrow>
               (case tp_recv tp w1 of
                  (Inl e, w2) \<Rightarrow> (Inl BadKeyset, w2)
                | (Inr reply, w2) \<Rightarrow>
                    if ce_session_id reply \<noteq> session_id then (Inl BadKeyset, w2)
                    else if identifier_to_u16 (ce_from reply) \<noteq> hid then (Inl BadKeyset, w2)
                    else if ce_round reply = ROUND_SHARE then
                      (case fc_dec_share fc (ce_payload reply) of Inl e \<Rightarrow> (Inl BadKeyset, w2) | Inr share \<Rightarrow> (Inr share, w2))
                    else if ce_round reply = ROUND_REFUSAL then
                      (case fc_dec_reason fc (ce_payload reply) of Inl e \<Rightarrow> (Inl BadKeyset, w2) | Inr reason \<Rightarrow> (Inl reason, w2))
                    else (Inl BadKeyset, w2))))"

definition remote_holder :: "('cm, 'sh) frame_codec \<Rightarrow> frost_id \<Rightarrow> 's transport \<Rightarrow> u16 \<Rightarrow> ('cm, 'sh, 's) holder" where
  "remote_holder fc coordinator tp hid =
     \<lparr>ho_id = hid, ho_commit = remote_commit fc coordinator tp hid,
      ho_validate_and_sign = remote_validate_and_sign fc coordinator tp hid\<rparr>"

section \<open>The in-process link\<close>

record ('kp, 'pk, 'nc) holder_link =
  hl_server :: "('kp, 'pk, 'nc) holder_server"
  hl_draws :: nat
  hl_inbox :: "cosign_event list"
  hl_wire_log :: "cosign_event list"

definition link_new :: "('kp, 'pk, 'nc) holder_server \<Rightarrow> nat \<Rightarrow> ('kp, 'pk, 'nc) holder_link" where
  "link_new sv draws = \<lparr>hl_server = sv, hl_draws = draws, hl_inbox = [], hl_wire_log = []\<rparr>"

definition link_send ::
  "'pk curve \<Rightarrow> digest_env \<Rightarrow> ('cm, 'sh) frame_codec \<Rightarrow> ('kp, 'pk, 'nc, 'cm, 'sh) frost \<Rightarrow> cosign_event
     \<Rightarrow> ('kp, 'pk, 'nc) holder_link \<Rightarrow> (anyhow + unit) \<times> ('kp, 'pk, 'nc) holder_link" where
  "link_send cv de fc fr event l =
     (let l1 = l\<lparr>hl_wire_log := hl_wire_log l @ [event]\<rparr>
      in case handle cv de fc fr event (hl_server l) (hl_draws l) of
           (None, sv, draws) \<Rightarrow> (Inl [''holder panicked''], l1\<lparr>hl_server := sv, hl_draws := draws\<rparr>)
         | (Some reply, sv, draws) \<Rightarrow>
             (Inr (), l1\<lparr>hl_server := sv, hl_draws := draws, hl_wire_log := hl_wire_log l1 @ [reply],
                hl_inbox := hl_inbox l1 @ [reply]\<rparr>))"

definition link_recv :: "('kp, 'pk, 'nc) holder_link \<Rightarrow> (anyhow + cosign_event) \<times> ('kp, 'pk, 'nc) holder_link" where
  "link_recv l =
     (case hl_inbox l of
        [] \<Rightarrow> (Inl [''no reply queued from the remote holder''], l)
      | e # es \<Rightarrow> (Inr e, l\<lparr>hl_inbox := es\<rparr>))"

definition link_transport ::
  "'pk curve \<Rightarrow> digest_env \<Rightarrow> ('cm, 'sh) frame_codec \<Rightarrow> ('kp, 'pk, 'nc, 'cm, 'sh) frost
     \<Rightarrow> ('kp, 'pk, 'nc) holder_link transport" where
  "link_transport cv de fc fr = \<lparr>tp_send = link_send cv de fc fr, tp_recv = link_recv\<rparr>"

end
