(* ===== verification/Remote_Holder_Props.thy ===== *)
theory Remote_Holder_Props
  imports Remote_Holder Quorum_Props
begin

text \<open>
  A holder on another machine is a local holder: through a faithful codec and the in-process link, the proxy
  answers every commit and every sign request as the holder would in this process, and the server is left
  in the same state.
\<close>

text \<open>The codec decodes what it encoded: every commitment, share and refusal, and the sign request at hand.\<close>

definition codec_ok :: "('cm, 'sh) frame_codec \<Rightarrow> 'cm signing_package \<times> cosign_request \<Rightarrow> bool" where
  "codec_ok fc p \<longleftrightarrow>
     (\<forall>c. \<exists>b. fc_enc_commitment fc c = Inr b \<and> fc_dec_commitment fc b = Inr c)
     \<and> (\<exists>b. fc_enc_request fc p = Inr b \<and> fc_dec_request fc b = Inr p)
     \<and> (\<forall>s. \<exists>b. fc_enc_share fc s = Inr b \<and> fc_dec_share fc b = Inr s)
     \<and> (\<forall>r. \<exists>b. fc_enc_reason fc r = Inr b \<and> fc_dec_reason fc b = Inr r)"

lemma codec_commitment: "codec_ok fc p \<Longrightarrow> \<exists>b. fc_enc_commitment fc c = Inr b \<and> fc_dec_commitment fc b = Inr c"
  unfolding codec_ok_def by blast

lemma codec_request: "codec_ok fc p \<Longrightarrow> \<exists>b. fc_enc_request fc p = Inr b \<and> fc_dec_request fc b = Inr p"
  unfolding codec_ok_def by blast

lemma codec_share: "codec_ok fc p \<Longrightarrow> \<exists>b. fc_enc_share fc s = Inr b \<and> fc_dec_share fc b = Inr s"
  unfolding codec_ok_def by blast

lemma codec_reason: "codec_ok fc p \<Longrightarrow> \<exists>b. fc_enc_reason fc r = Inr b \<and> fc_dec_reason fc b = Inr r"
  unfolding codec_ok_def by blast

text \<open>The server's state as a holder in this process.\<close>

definition server_holder :: "('kp, 'pk, 'nc) holder_server \<Rightarrow> ('kp, 'pk, 'nc) local_holder" where
  "server_holder sv = \<lparr>lh_key_package = hs_key_package sv, lh_own_pubkeys = hs_own_pubkeys sv,
     lh_id_u16 = hs_id_u16 sv, lh_nonces = hs_nonces sv\<rparr>"

lemma server_holder_simps [simp]:
  "lh_key_package (server_holder sv) = hs_key_package sv" "lh_own_pubkeys (server_holder sv) = hs_own_pubkeys sv"
  "lh_id_u16 (server_holder sv) = hs_id_u16 sv" "lh_nonces (server_holder sv) = hs_nonces sv"
  "server_holder (sv\<lparr>hs_nonces := m\<rparr>) = (server_holder sv)\<lparr>lh_nonces := m\<rparr>"
  by (simp_all add: server_holder_def)

lemma server_holder_new: "server_holder (holder_server_new fr kp pubkeys) = local_holder_new fr kp pubkeys"
  by (simp add: holder_server_new_def local_holder_new_def server_holder_def)

text \<open>One exchange over the link: the reply the server gives, and an empty inbox again.\<close>

lemma link_exchange:
  assumes "handle cv de fc fr event (hl_server l) (hl_draws l) = (Some reply, sv, draws)" and "hl_inbox l = []"
  shows "\<exists>l1 l2. link_send cv de fc fr event l = (Inr (), l1) \<and> link_recv l1 = (Inr reply, l2)
    \<and> hl_server l2 = sv \<and> hl_draws l2 = draws \<and> hl_inbox l2 = []
    \<and> hl_wire_log l2 = hl_wire_log l @ [event, reply]"
  using assms by (simp add: link_send_def link_recv_def Let_def)

lemma handle_commit_local:
  assumes "codec_ok fc p" and "fr_try_from fr (hs_id_u16 sv) = Inr i"
  shows "\<exists>reply sv'. handle_commit fc fr sid sv draws = (Some reply, sv', draws + 1)
    \<and> ce_session_id reply = sid \<and> ce_from reply = i
    \<and> (case local_commit fr sid (server_holder sv) draws of
         (Inr cm, h, d) \<Rightarrow> ce_round reply = ROUND_COMMITMENT \<and> fc_dec_commitment fc (ce_payload reply) = Inr cm
            \<and> server_holder sv' = h \<and> d = draws + 1
       | (Inl e, h, d) \<Rightarrow> ce_round reply = ROUND_REFUSAL \<and> server_holder sv' = h \<and> d = draws + 1)"
proof -
  obtain n cm where nc: "fr_commit fr (hs_key_package sv) draws = (n, cm)" by (cases "fr_commit fr (hs_key_package sv) draws")
  obtain b where b: "fc_enc_commitment fc cm = Inr b" "fc_dec_commitment fc b = Inr cm"
    using codec_commitment [OF assms(1)] by blast
  show ?thesis using assms(2) nc b
    by (cases "hs_nonces sv sid")
      (simp_all add: handle_commit_def local_commit_def refuse_def reply_event_def frost_id_of_def Let_def)
qed

lemma refuse_reply:
  assumes "codec_ok fc p" and "fr_try_from fr k = Inr i"
  shows "\<exists>b. refuse fc fr k sid reason =
      Some \<lparr>ce_session_id = sid, ce_from = i, ce_round = ROUND_REFUSAL, ce_payload = b\<rparr> \<and> fc_dec_reason fc b = Inr reason"
  using codec_reason [OF assms(1), of reason] assms(2)
  by (auto simp: refuse_def reply_event_def frost_id_of_def)

lemma handle_sign_local:
  assumes "codec_ok fc p" and "fr_try_from fr (hs_id_u16 sv) = Inr i"
    and "fc_dec_request fc (ce_payload event) = Inr (package, req)"
  shows "\<exists>reply sv'. handle_sign cv de fc fr event sv = (Some reply, sv')
    \<and> ce_session_id reply = ce_session_id event \<and> ce_from reply = i
    \<and> (case local_validate_and_sign cv de fr (ce_session_id event) req package (server_holder sv) of
         (Inr share, h) \<Rightarrow> ce_round reply = ROUND_SHARE \<and> fc_dec_share fc (ce_payload reply) = Inr share
            \<and> server_holder sv' = h
       | (Inl reason, h) \<Rightarrow> ce_round reply = ROUND_REFUSAL \<and> fc_dec_reason fc (ce_payload reply) = Inr reason
            \<and> server_holder sv' = h)"
proof -
  let ?sid = "ce_session_id event"
  note no = refuse_reply [OF assms(1,2), of ?sid]
  show ?thesis
  proof (cases "hs_nonces sv ?sid")
    case None
    then show ?thesis using no [of BadKeyset] assms(3)
      by (auto simp: handle_sign_def local_validate_and_sign_def Let_def)
  next
    case nonce: (Some n)
    let ?v = "validate cv de req package (hs_own_pubkeys sv) (hs_id_u16 sv) MIN_SIGNERS"
    show ?thesis
    proof (cases ?v)
      case (Inl reason)
      then show ?thesis using no [of reason] assms(3) nonce
        by (auto simp: handle_sign_def local_validate_and_sign_def Let_def)
    next
      case (Inr u)
      show ?thesis
      proof (cases "fr_sign_with_tweak fr package n (hs_key_package sv)")
        case sign: (Inl e)
        then show ?thesis using no [of BadKeyset] assms(3) nonce Inr
          by (auto simp: handle_sign_def local_validate_and_sign_def Let_def)
      next
        case sign: (Inr share)
        then show ?thesis using codec_share [OF assms(1), of share] assms(2,3) nonce Inr
          by (auto simp: handle_sign_def local_validate_and_sign_def Let_def reply_event_def frost_id_of_def)
      qed
    qed
  qed
qed

text \<open>C39: Moving a holder off the box changes nothing but its place. For a link with an empty inbox, a codec that
  decodes what it encoded and an identifier that converts back and forth, the proxy commits exactly when the
  holder itself would, with the same commitment; it answers a sign request with the same share or the same
  refusal; and the server ends in the state the holder would be in, with the inbox empty again.\<close>

theorem remote_is_local:
  assumes "codec_ok fc (package, req)" and "hl_inbox l = []"
    and "fr_try_from fr (hs_id_u16 (hl_server l)) = Inr i" and "identifier_to_u16 i = hs_id_u16 (hl_server l)"
  shows "(case remote_commit fc coordinator (link_transport cv de fc fr) (hs_id_u16 (hl_server l)) sid l of (r, l') \<Rightarrow>
       case local_commit fr sid (server_holder (hl_server l)) (hl_draws l) of (q, h, d) \<Rightarrow>
         {cm. r = Inr cm} = {cm. q = Inr cm}
         \<and> server_holder (hl_server l') = h \<and> hl_draws l' = d \<and> hl_inbox l' = [])
    \<and> (case remote_validate_and_sign fc coordinator (link_transport cv de fc fr) (hs_id_u16 (hl_server l)) sid req package l of (r, l') \<Rightarrow>
       case local_validate_and_sign cv de fr sid req package (server_holder (hl_server l)) of (q, h) \<Rightarrow>
         r = q \<and> server_holder (hl_server l') = h \<and> hl_draws l' = hl_draws l \<and> hl_inbox l' = [])"
proof (rule conjI)
  let ?ev = "coordinator_event coordinator sid ROUND_COMMIT_REQUEST []"
  obtain reply sv' where c: "handle_commit fc fr sid (hl_server l) (hl_draws l) = (Some reply, sv', hl_draws l + 1)"
    and reply: "ce_session_id reply = sid" "ce_from reply = i"
    and local: "case local_commit fr sid (server_holder (hl_server l)) (hl_draws l) of
         (Inr cm, h, d) \<Rightarrow> ce_round reply = ROUND_COMMITMENT \<and> fc_dec_commitment fc (ce_payload reply) = Inr cm
            \<and> server_holder sv' = h \<and> d = hl_draws l + 1
       | (Inl e, h, d) \<Rightarrow> ce_round reply = ROUND_REFUSAL \<and> server_holder sv' = h \<and> d = hl_draws l + 1"
    using handle_commit_local [OF assms(1,3), of sid "hl_draws l"] by (elim exE conjE) (rule that)
  have "handle cv de fc fr ?ev (hl_server l) (hl_draws l) = (Some reply, sv', hl_draws l + 1)"
    by (simp add: handle_def coordinator_event_def c)
  from link_exchange [OF this assms(2)] obtain l1 l2 where
    "link_send cv de fc fr ?ev l = (Inr (), l1)" "link_recv l1 = (Inr reply, l2)"
    "hl_server l2 = sv'" "hl_draws l2 = hl_draws l + 1" "hl_inbox l2 = []" by blast
  then show "case remote_commit fc coordinator (link_transport cv de fc fr) (hs_id_u16 (hl_server l)) sid l of (r, l') \<Rightarrow>
       case local_commit fr sid (server_holder (hl_server l)) (hl_draws l) of (q, h, d) \<Rightarrow>
         {cm. r = Inr cm} = {cm. q = Inr cm}
         \<and> server_holder (hl_server l') = h \<and> hl_draws l' = d \<and> hl_inbox l' = []"
    using local reply assms(4)
    by (auto simp: remote_commit_def link_transport_def Let_def round_defs split: prod.splits sum.splits)
next
  obtain b where b: "fc_enc_request fc (package, req) = Inr b" "fc_dec_request fc b = Inr (package, req)"
    using codec_request [OF assms(1)] by blast
  let ?ev = "coordinator_event coordinator sid ROUND_PACKAGE b"
  have dec: "fc_dec_request fc (ce_payload ?ev) = Inr (package, req)" and sid: "ce_session_id ?ev = sid"
    by (simp_all add: coordinator_event_def b)
  obtain reply sv' where c: "handle_sign cv de fc fr ?ev (hl_server l) = (Some reply, sv')"
    and reply: "ce_session_id reply = sid" "ce_from reply = i"
    and local: "case local_validate_and_sign cv de fr sid req package (server_holder (hl_server l)) of
         (Inr share, h) \<Rightarrow> ce_round reply = ROUND_SHARE \<and> fc_dec_share fc (ce_payload reply) = Inr share
            \<and> server_holder sv' = h
       | (Inl reason, h) \<Rightarrow> ce_round reply = ROUND_REFUSAL \<and> fc_dec_reason fc (ce_payload reply) = Inr reason
            \<and> server_holder sv' = h"
    using handle_sign_local [OF assms(1,3) dec, of cv de] unfolding sid by (elim exE conjE) (rule that)
  have "handle cv de fc fr ?ev (hl_server l) (hl_draws l) = (Some reply, sv', hl_draws l)"
    using c by (simp add: handle_def coordinator_event_def round_defs)
  from link_exchange [OF this assms(2)] obtain l1 l2 where
    "link_send cv de fc fr ?ev l = (Inr (), l1)" "link_recv l1 = (Inr reply, l2)"
    "hl_server l2 = sv'" "hl_draws l2 = hl_draws l" "hl_inbox l2 = []" by blast
  then show "case remote_validate_and_sign fc coordinator (link_transport cv de fc fr) (hs_id_u16 (hl_server l)) sid req package l of (r, l') \<Rightarrow>
       case local_validate_and_sign cv de fr sid req package (server_holder (hl_server l)) of (q, h) \<Rightarrow>
         r = q \<and> server_holder (hl_server l') = h \<and> hl_draws l' = hl_draws l \<and> hl_inbox l' = []"
    using local reply assms(4) b
    by (auto simp: remote_validate_and_sign_def link_transport_def round_defs split: prod.splits sum.splits)
qed

text \<open>A codec of two commitments and shares, and the request of the sample ceremony.\<close>

definition sample_codec :: "(nat, nat) frame_codec" where
  "sample_codec = \<lparr>fc_enc_commitment = (\<lambda>c. Inr (replicate c CHR ''c'')), fc_dec_commitment = (\<lambda>b. Inr (length b)),
     fc_enc_request = (\<lambda>p. Inr ''request''), fc_dec_request = (\<lambda>b. Inr (sample_package, sample_request)),
     fc_enc_share = (\<lambda>s. Inr (replicate s CHR ''s'')), fc_dec_share = (\<lambda>b. Inr (length b)),
     fc_enc_reason = (\<lambda>r. Inr (show_reason r)),
     fc_dec_reason = (\<lambda>b. case filter (\<lambda>r. show_reason r = b) [MessageMismatch, NotInSignerSet, SubThreshold,
        DuplicateSigner, BadKind, DirtyContent, BadKeyset, IdentifierAliasing, MalformedInboxRelays] of
          [] \<Rightarrow> Inl ''unknown'' | r # rs \<Rightarrow> Inr r)\<rparr>"

lemma sample_codec_ok: "codec_ok sample_codec (sample_package, sample_request)"
proof -
  have "\<exists>b. fc_enc_reason sample_codec r = Inr b \<and> fc_dec_reason sample_codec b = Inr r" for r
    by (cases r) (simp_all add: sample_codec_def)
  then show ?thesis by (auto simp: codec_ok_def) (auto simp: sample_codec_def)
qed

definition sample_link :: "(nat, bytes, nat) holder_link" where
  "sample_link = link_new \<lparr>hs_key_package = 2, hs_own_pubkeys = ''k'', hs_id_u16 = 2, hs_nonces = [0 \<mapsto> 5]\<rparr> 6"

theorem remote_is_local_witness:
  "case remote_validate_and_sign sample_codec [] (link_transport sample_curve sample_digests sample_codec sample_frost)
       (hs_id_u16 (hl_server sample_link)) 0 sample_request sample_package sample_link of (r, l') \<Rightarrow>
   case local_validate_and_sign sample_curve sample_digests sample_frost 0 sample_request sample_package
       (server_holder (hl_server sample_link)) of (q, h) \<Rightarrow>
     r = q \<and> server_holder (hl_server l') = h \<and> hl_draws l' = hl_draws sample_link \<and> hl_inbox l' = []"
  by (rule remote_is_local [where i = "sample_id 2", OF sample_codec_ok, THEN conjunct2])
    (simp_all add: sample_link_def link_new_def sample_frost_def sample_ids)

end
