(* ===== verification/Quorum_Ceremony.thy ===== *)
theory Quorum_Ceremony
  imports Quorum_Props Remote_Holder_Props
begin

text \<open>
  The ceremony as a whole: the subsets it tries, what every event it returns rests on, and that it finds a
  quorum when there is one.
\<close>

section \<open>The subsets\<close>

declare subsets_from.simps [simp del]

fun choose_from :: "nat \<Rightarrow> nat \<Rightarrow> nat \<Rightarrow> nat list list" where
  "choose_from m n 0 = [[]]"
| "choose_from m n (Suc k) = concat (map (\<lambda>i. map (Cons i) (choose_from (i + 1) n k)) [m..<n - k])"

lemma subsets_choose: "length combo + k = t \<Longrightarrow> k \<le> n \<Longrightarrow>
    subsets_from start n t combo = map (\<lambda>xs. combo @ xs) (choose_from start n k)"
proof (induction k arbitrary: start combo)
  case 0
  then show ?case by (simp add: subsets_from.simps [of start n t combo])
next
  case (Suc k)
  have range: "n - (t - length combo) + 1 = n - k" and ne: "length combo \<noteq> t" using Suc.prems by auto
  have "subsets_from start n t combo = concat (map (\<lambda>i. subsets_from (i + 1) n t (combo @ [i])) [start..<n - k])"
    by (subst subsets_from.simps) (simp only: range ne if_False)
  moreover have "subsets_from (i + 1) n t (combo @ [i]) = map (\<lambda>xs. (combo @ [i]) @ xs) (choose_from (i + 1) n k)" for i
    using Suc.prems by (intro Suc.IH) simp_all
  ultimately show ?case by (simp add: map_concat o_def)
qed

lemma set_choose: "set (choose_from m n k) = {xs. sorted_wrt (<) xs \<and> length xs = k \<and> set xs \<subseteq> {m..<n}}"
proof (induction k arbitrary: m)
  case (Suc k)
  have room: "i < n - k" if "sorted_wrt (<) xs" "length xs = k" "set xs \<subseteq> {Suc i..<n}" "i < n" for i xs
  proof -
    have "k \<le> card {Suc i..<n}"
      using that card_mono [of "{Suc i..<n}" "set xs"] distinct_card [of xs] by (simp add: strict_sorted_iff)
    then show ?thesis using that(4) by simp
  qed
  have "xs \<in> set (choose_from m n (Suc k)) \<longleftrightarrow> sorted_wrt (<) xs \<and> length xs = Suc k \<and> set xs \<subseteq> {m..<n}" for xs
  proof (cases xs)
    case (Cons i ys)
    have "xs \<in> set (choose_from m n (Suc k)) \<longleftrightarrow>
        m \<le> i \<and> i < n - k \<and> sorted_wrt (<) ys \<and> length ys = k \<and> set ys \<subseteq> {Suc i..<n}"
      by (auto simp: Cons Suc)
    also have "\<dots> \<longleftrightarrow> m \<le> i \<and> i < n \<and> sorted_wrt (<) ys \<and> length ys = k \<and> set ys \<subseteq> {Suc i..<n}"
      using room [of ys i] by auto
    also have "\<dots> \<longleftrightarrow> sorted_wrt (<) xs \<and> length xs = Suc k \<and> set xs \<subseteq> {m..<n}"
      by (auto simp: Cons subset_eq Suc_le_eq)
    finally show ?thesis .
  qed auto
  then show ?case by blast
qed auto

lemma card_choose: "card {xs. sorted_wrt (<) xs \<and> length xs = k \<and> set xs \<subseteq> {..<n}} = n choose k"
proof -
  have "bij_betw set {xs. sorted_wrt (<) xs \<and> length xs = k \<and> set xs \<subseteq> {..<n}} {B. B \<subseteq> {..<n} \<and> card B = k}"
  proof (rule bij_betw_imageI)
    show "inj_on set {xs. sorted_wrt (<) xs \<and> length xs = k \<and> set xs \<subseteq> {..<n}}"
      by (auto intro: inj_onI strict_sorted_equal)
    have "B \<in> set ` {xs. sorted_wrt (<) xs \<and> length xs = k \<and> set xs \<subseteq> {..<n}}"
      if "B \<subseteq> {..<n}" "card B = k" for B
      using that finite_subset [OF that(1)] by (intro image_eqI [of _ _ "sorted_list_of_set B"]) auto
    then show "set ` {xs. sorted_wrt (<) xs \<and> length xs = k \<and> set xs \<subseteq> {..<n}} = {B. B \<subseteq> {..<n} \<and> card B = k}"
      by (auto simp: strict_sorted_iff distinct_card)
  qed
  then have "card {xs. sorted_wrt (<) xs \<and> length xs = k \<and> set xs \<subseteq> {..<n}} = card {B. B \<subseteq> {..<n} \<and> card B = k}"
    by (rule bij_betw_same_card)
  then show ?thesis by (simp add: n_subsets)
qed

lemma sorted_choose: "sorted_wrt (<) (choose_from m n k)"
proof (induction k arbitrary: m)
  case (Suc k)
  have map: "sorted_wrt (<) (map (Cons i) xss)" if "sorted_wrt (<) xss" for i and xss :: "nat list list"
    using that by (induction xss) auto
  have "sorted_wrt (<) (concat (map (\<lambda>i. map (Cons i) (choose_from (i + 1) n k)) is))"
    if "sorted_wrt (<) is" for "is"
    using that by (induction "is") (auto simp: sorted_wrt_append map Suc)
  then show ?case by simp
qed simp

text \<open>The search tries exactly the combinations of the threshold's size among the holders, each once and in
  lexicographic order, starting with the first holders: with everyone healthy the first attempt is the only
  one.\<close>

theorem subsets_exact:
  "sorted_wrt (<) (quorum_subsets n t)
   \<and> set (quorum_subsets n t) = {xs. xs \<noteq> [] \<and> sorted_wrt (<) xs \<and> length xs = t \<and> set xs \<subseteq> {..<n}}
   \<and> length (quorum_subsets n t) = (if t = 0 then 0 else n choose t)"
proof -
  have eq: "quorum_subsets n t = (if t = 0 \<or> t > n then [] else choose_from 0 n t)"
    using subsets_choose [of "[]" t t n 0] by (simp add: quorum_subsets_def)
  have long: "length xs \<le> n" if "sorted_wrt (<) xs" "set xs \<subseteq> {..<n}" for xs
    using that card_mono [of "{..<n}" "set xs"] distinct_card [of xs] by (simp add: strict_sorted_iff)
  have "length (choose_from 0 n t) = n choose t"
    using distinct_card [of "choose_from 0 n t"] sorted_choose [of 0 n t] card_choose [of t n]
    by (simp add: strict_sorted_iff set_choose lessThan_atLeast0)
  then show ?thesis using long sorted_choose [of 0 n t]
    by (cases "t = 0 \<or> t > n") (auto simp: eq set_choose lessThan_atLeast0 binomial_eq_0 dest: long [unfolded lessThan_atLeast0])
qed

section \<open>What an event rests on\<close>

lemma ss_world_simps: "ss_world (st\<lparr>ss_world := w\<rparr>) = w" "ss_world (st\<lparr>ss_next_session := n\<rparr>) = ss_world st"
  "ss_next_session (st\<lparr>ss_world := w\<rparr>) = ss_next_session st" "ss_next_session (st\<lparr>ss_next_session := n\<rparr>) = n"
  by simp_all

text \<open>Two distinct holders at least accepted one package for the event.\<close>

definition vetted_by ::
  "'pk curve \<Rightarrow> digest_env \<Rightarrow> 'pk \<Rightarrow> ('cm, 'sh, 's) holder list \<Rightarrow> sign_intent \<Rightarrow> bytes \<Rightarrow> bool" where
  "vetted_by cv de pubkeys hs intent event_id \<longleftrightarrow> 2 \<le> card (ho_id ` set hs)
     \<and> (\<exists>req (package :: 'cm signing_package). cr_intent req = intent \<and> sp_message package = event_id
          \<and> (\<forall>h\<in>set hs. validate cv de req package pubkeys (ho_id h) MIN_SIGNERS = Inr ()))"

text \<open>Holders that hand out a share only for what the membrane accepts, in every world the predicate allows.\<close>

locale vetting_holders =
  fixes cv :: "'pk curve" and de :: digest_env and pubkeys :: 'pk
    and holders :: "('cm, 'sh, 's) holder list" and ok :: "'s \<Rightarrow> bool"
  assumes ok_commit: "h \<in> set holders \<Longrightarrow> ok w \<Longrightarrow> ho_commit h sid w = (r, w') \<Longrightarrow> ok w'"
    and ok_sign: "h \<in> set holders \<Longrightarrow> ok w \<Longrightarrow> ho_validate_and_sign h sid req package w = (q, w') \<Longrightarrow> ok w'"
    and vets: "h \<in> set holders \<Longrightarrow> ok w \<Longrightarrow> ho_validate_and_sign h sid req package w = (Inr share, w') \<Longrightarrow>
      validate cv de req package pubkeys (ho_id h) MIN_SIGNERS = Inr ()"
begin

lemma commit_all_ok: "set hs \<subseteq> set holders \<Longrightarrow> ok w \<Longrightarrow> commit_all fr sid hs cms w = (r, w') \<Longrightarrow> ok w'"
  by (induction fr sid hs cms w rule: commit_all.induct)
    (auto split: prod.splits sum.splits dest: ok_commit)

lemma sign_all_ok: "set hs \<subseteq> set holders \<Longrightarrow> ok w \<Longrightarrow> sign_all fr sid req package hs shares w = (r, w') \<Longrightarrow> ok w'"
  by (induction fr sid req package hs shares w rule: sign_all.induct)
    (auto split: prod.splits sum.splits dest: ok_sign)

lemma sign_all_vetted: "set hs \<subseteq> set holders \<Longrightarrow> ok w \<Longrightarrow> sign_all fr sid req package hs shares w = (Inr r, w') \<Longrightarrow>
    h \<in> set hs \<Longrightarrow> validate cv de req package pubkeys (ho_id h) MIN_SIGNERS = Inr ()"
  by (induction fr sid req package hs shares w rule: sign_all.induct)
    (auto split: prod.splits sum.splits dest: ok_sign vets)

lemma ceremony_ok:
  assumes "set hs \<subseteq> set holders" and "ok (ss_world st)"
    and "try_subset_ceremony fr pk hs event_id intent st = (r, st')"
  shows "ok (ss_world st')"
proof -
  let ?sid = "ss_next_session st"
  let ?req = "\<lparr>cr_session_id = ?sid, cr_intent = intent, cr_signer_set = set (map ho_id hs)\<rparr>"
  obtain c w1 where c: "commit_all fr ?sid hs [] (ss_world st) = (c, w1)" by fastforce
  have ok1: "ok w1" by (rule commit_all_ok [OF assms(1,2) c])
  show ?thesis
  proof (cases c)
    case (Inl e)
    then show ?thesis using assms(2,3) ok1
      by (auto simp only: try_subset_ceremony_def Let_def c ss_world_simps prod.case sum.case split: if_splits)
  next
    case (Inr cms)
    obtain q w2 where q: "sign_all fr ?sid ?req \<lparr>sp_commitments = cms, sp_message = event_id\<rparr> hs [] w1 = (q, w2)"
      by fastforce
    have ok2: "ok w2" by (rule sign_all_ok [OF assms(1) ok1 q])
    show ?thesis using assms(2,3) ok2
      by (cases q) (auto simp only: try_subset_ceremony_def Let_def c Inr q ss_world_simps prod.case sum.case
        split: if_splits sum.splits)
  qed
qed

lemma ceremony_vetted:
  assumes "set hs \<subseteq> set holders" and "ok (ss_world st)"
    and "try_subset_ceremony fr pk hs event_id intent st = (Inr sig, st')"
  shows "vetted_by cv de pubkeys hs intent event_id"
proof -
  have card: "2 \<le> card (ho_id ` set hs)"
    using assms(3) by (simp add: try_subset_ceremony_def MIN_SIGNERS_def Let_def split: if_splits)
  obtain sid cms w1 shares w2 where run: "commit_all fr sid hs [] (ss_world st) = (Inr cms, w1)"
    "sign_all fr sid \<lparr>cr_session_id = sid, cr_intent = intent, cr_signer_set = ho_id ` set hs\<rparr>
       \<lparr>sp_commitments = cms, sp_message = event_id\<rparr> hs [] w1 = (Inr shares, w2)"
    using assms(3) by (simp add: try_subset_ceremony_def Let_def split: if_splits prod.splits sum.splits)
  have "ok w1" by (rule commit_all_ok [OF assms(1,2) run(1)])
  from sign_all_vetted [OF assms(1) this run(2)] card show ?thesis
    by (auto simp: vetted_by_def intro!: exI)
qed

lemma subsets_vetted:
  "\<forall>c\<in>set combos. set c \<subseteq> {..<length (qs_holders qs)} \<Longrightarrow> qs_holders qs = holders \<Longrightarrow> ok (ss_world st) \<Longrightarrow>
   try_subsets fr qs event_id intent e combos st = (r, st') \<Longrightarrow>
   ok (ss_world st') \<and> (\<forall>sig. r = Inr sig \<longrightarrow> (\<exists>hs. set hs \<subseteq> set holders \<and> vetted_by cv de pubkeys hs intent event_id))"
proof (induction fr qs event_id intent e combos st rule: try_subsets.induct)
  case (2 fr qs event_id intent last_err combo combos st)
  let ?hs = "map (\<lambda>i. qs_holders qs ! i) combo"
  have sub: "set ?hs \<subseteq> set holders" using 2(2,3) by auto
  obtain q st1 where step: "try_subset_ceremony fr (qs_pubkeys qs) ?hs event_id intent st = (q, st1)"
    by (cases "try_subset_ceremony fr (qs_pubkeys qs) ?hs event_id intent st")
  note ok1 = ceremony_ok [OF sub 2(4) step]
  show ?case
  proof (cases q)
    case (Inl e)
    note rec = 2(5) [unfolded try_subsets.simps Let_def step prod.case Inl sum.case]
    show ?thesis by (rule 2(1) [OF refl step [symmetric] Inl _ 2(3) ok1 rec]) (use 2(2) in simp)
  next
    case (Inr sig)
    then have "r = Inr sig" "st' = st1" using 2(5) [unfolded try_subsets.simps Let_def step prod.case] by simp_all
    then show ?thesis using ceremony_vetted [OF sub 2(4) step [unfolded Inr]] sub ok1 by blast
  qed
qed auto

lemma event_vetted:
  assumes "qs_holders qs = holders" and "ok (ss_world st)"
    and "sign_nostr_event_with_tags de fr qs kind created_at tags content st = (r, st')"
  shows "ok (ss_world st') \<and> (\<forall>ev. r = Inr ev \<longrightarrow>
    (\<exists>hs. set hs \<subseteq> set holders \<and> vetted_by cv de pubkeys hs
       \<lparr>si_kind = kind, si_created_at = created_at, si_tags = tags, si_content = ne_content ev\<rparr>
       (nip01_event_id_with_tags de (de_hex de (qs_q_bytes qs)) created_at kind tags (ne_content ev))))"
proof -
  have combos: "\<forall>c\<in>set (quorum_subsets n t). set c \<subseteq> {..<n}" for n t
    using subsets_choose [of "[]" t t n 0] by (auto simp: quorum_subsets_def set_choose)
  show ?thesis using assms subsets_vetted [OF combos assms(1,2)]
    by (auto simp: sign_nostr_event_with_tags_def Let_def split: if_splits sum.splits prod.splits) blast+
qed

end

section \<open>The co-located quorum\<close>

definition unreachable_holder :: "u16 \<Rightarrow> ('cm, 'sh, 's) holder" where
  "unreachable_holder k = \<lparr>ho_id = k, ho_commit = (\<lambda>sid w. (Inl [''unreachable''], w)),
     ho_validate_and_sign = (\<lambda>sid req package w. (Inl BadKeyset, w))\<rparr>"

text \<open>The holders of the given key packages, of which some cannot be reached.\<close>

definition quorum_holders ::
  "'pk curve \<Rightarrow> digest_env \<Rightarrow> ('kp, 'pk, 'nc, 'cm, 'sh) frost \<Rightarrow> 'kp list \<Rightarrow> nat set
     \<Rightarrow> ('cm, 'sh, ('kp, 'pk, 'nc) holder_world) holder list" where
  "quorum_holders cv de fr kps down =
     map (\<lambda>i. if i \<in> down then unreachable_holder (identifier_to_u16 (fr_identifier fr (kps ! i)))
              else local_holder_at cv de fr (identifier_to_u16 (fr_identifier fr (kps ! i))) i) [0..<length kps]"

definition static_of :: "('kp, 'pk, 'nc) local_holder \<Rightarrow> 'kp \<times> 'pk \<times> u16" where
  "static_of h = (lh_key_package h, lh_own_pubkeys h, lh_id_u16 h)"

definition local_world_ok ::
  "('kp, 'pk, 'nc, 'cm, 'sh) frost \<Rightarrow> 'kp list \<Rightarrow> 'pk \<Rightarrow> ('kp, 'pk, 'nc) holder_world \<Rightarrow> bool" where
  "local_world_ok fr kps pubkeys w \<longleftrightarrow>
     map static_of (hw_holders w) = map (\<lambda>kp. (kp, pubkeys, identifier_to_u16 (fr_identifier fr kp))) kps"

lemma local_world_at: "local_world_ok fr kps pubkeys w \<Longrightarrow> i < length kps \<Longrightarrow>
    static_of (hw_holders w ! i) = (kps ! i, pubkeys, identifier_to_u16 (fr_identifier fr (kps ! i))) \<and> i < length (hw_holders w)"
proof -
  assume w: "local_world_ok fr kps pubkeys w" and i: "i < length kps"
  then have "length (hw_holders w) = length kps" unfolding local_world_ok_def by (metis length_map)
  moreover have "map static_of (hw_holders w) ! i = map (\<lambda>kp. (kp, pubkeys, identifier_to_u16 (fr_identifier fr kp))) kps ! i"
    using w by (simp add: local_world_ok_def)
  ultimately show ?thesis using i by simp
qed

lemma local_world_update: "local_world_ok fr kps pubkeys w \<Longrightarrow> static_of h = static_of (hw_holders w ! i) \<Longrightarrow>
    local_world_ok fr kps pubkeys (w\<lparr>hw_holders := (hw_holders w)[i := h]\<rparr>)"
proof -
  assume "local_world_ok fr kps pubkeys w" and h: "static_of h = static_of (hw_holders w ! i)"
  moreover have "map static_of ((hw_holders w)[i := h]) = map static_of (hw_holders w)"
    using h by (metis list_update_id map_update)
  ultimately show ?thesis by (simp add: local_world_ok_def)
qed

lemma local_world_draws [simp]: "local_world_ok fr kps pubkeys (w\<lparr>hw_draws := n, hw_holders := hs\<rparr>) =
    local_world_ok fr kps pubkeys (w\<lparr>hw_holders := hs\<rparr>)"
  by (simp add: local_world_ok_def)

lemma static_commit: "local_commit fr sid h d = (r, h', d') \<Longrightarrow> static_of h' = static_of h"
  by (auto simp: static_of_def dest!: local_commit_cases)

lemma static_sign: "local_validate_and_sign cv de fr sid req package h = (r, h') \<Longrightarrow> static_of h' = static_of h"
  by (cases r) (auto simp: static_of_def dest!: refused_share signed_share)

lemma in_quorum_holders: "h \<in> set (quorum_holders cv de fr kps down) \<Longrightarrow>
    \<exists>i < length kps. h = unreachable_holder (identifier_to_u16 (fr_identifier fr (kps ! i)))
      \<or> h = local_holder_at cv de fr (identifier_to_u16 (fr_identifier fr (kps ! i))) i"
  by (auto simp: quorum_holders_def split: if_splits)

interpretation local_quorum: vetting_holders cv de pubkeys "quorum_holders cv de fr kps down" "local_world_ok fr kps pubkeys"
  for cv :: "'pk curve" and de and pubkeys and fr :: "('kp, 'pk, 'nc, 'cm, 'sh) frost" and kps down
proof unfold_locales
  fix h :: "('cm, 'sh, ('kp, 'pk, 'nc) holder_world) holder" and w w' sid r
  assume "h \<in> set (quorum_holders cv de fr kps down)" "local_world_ok fr kps pubkeys w" "ho_commit h sid w = (r, w')"
  then show "local_world_ok fr kps pubkeys w'"
    by (auto simp: unreachable_holder_def local_holder_at_def split: prod.splits
      dest!: in_quorum_holders static_commit intro!: local_world_update)
next
  fix h :: "('cm, 'sh, ('kp, 'pk, 'nc) holder_world) holder" and w w' sid req package q
  assume "h \<in> set (quorum_holders cv de fr kps down)" "local_world_ok fr kps pubkeys w"
    "ho_validate_and_sign h sid req package w = (q, w')"
  then show "local_world_ok fr kps pubkeys w'"
    by (auto simp: unreachable_holder_def local_holder_at_def split: prod.splits
      dest!: in_quorum_holders static_sign intro!: local_world_update)
next
  fix h :: "('cm, 'sh, ('kp, 'pk, 'nc) holder_world) holder" and w w' sid req package share
  assume h: "h \<in> set (quorum_holders cv de fr kps down)" and w: "local_world_ok fr kps pubkeys w"
    and share: "ho_validate_and_sign h sid req package w = (Inr share, w')"
  from in_quorum_holders [OF h] obtain i where i: "i < length kps"
    and h': "h = local_holder_at cv de fr (identifier_to_u16 (fr_identifier fr (kps ! i))) i"
    using share by (auto simp: unreachable_holder_def)
  show "validate cv de req package pubkeys (ho_id h) MIN_SIGNERS = Inr ()"
    using share local_world_at [OF w i]
    by (auto simp: h' local_holder_at_def static_of_def split: prod.splits dest!: signed_share)
qed

text \<open>A signer's earlier requests.\<close>

fun sign_run ::
  "digest_env \<Rightarrow> ('kp, 'pk, 'nc, 'cm, 'sh) frost \<Rightarrow> ('pk, 'cm, 'sh, 's) quorum_signer
     \<Rightarrow> (u32 \<times> u64 \<times> utext list list \<times> utext) list \<Rightarrow> 's signer_state \<Rightarrow> 's signer_state" where
  "sign_run de fr qs [] st = st"
| "sign_run de fr qs ((kind, created_at, tags, content) # reqs) st =
     sign_run de fr qs reqs (snd (sign_nostr_event_with_tags de fr qs kind created_at tags content st))"

lemma local_signer:
  assumes "from_local_key_packages cv de fr kps pubkeys draws = Inr (qs, st0)"
  shows "qs_holders qs = quorum_holders cv de fr kps {} \<and> group_xonly_q cv pubkeys = Inr (qs_q_bytes qs)
    \<and> qs_pubkeys qs = pubkeys \<and> ss_next_session st0 = 0
    \<and> ss_world st0 = \<lparr>hw_draws = draws, hw_holders = map (\<lambda>kp. local_holder_new fr kp pubkeys) kps\<rparr>"
proof -
  have "map (\<lambda>i. local_holder_at cv de fr (lh_id_u16 (map (\<lambda>kp. local_holder_new fr kp pubkeys) kps ! i)) i)
      [0..<length kps] = quorum_holders cv de fr kps {}"
    by (simp add: quorum_holders_def local_holder_new_def)
  then show ?thesis using assms
    by (auto simp: from_local_key_packages_def quorum_signer_new_def Let_def split: sum.splits)
qed

lemma new_world_ok: "local_world_ok fr kps pubkeys \<lparr>hw_draws = draws, hw_holders = map (\<lambda>kp. local_holder_new fr kp pubkeys) kps\<rparr>"
  by (simp add: local_world_ok_def static_of_def local_holder_new_def)

lemma sign_run_ok: "qs_holders qs = quorum_holders cv de fr kps down \<Longrightarrow> local_world_ok fr kps pubkeys (ss_world st) \<Longrightarrow>
    local_world_ok fr kps pubkeys (ss_world (sign_run de fr qs reqs st))"
proof (induction de fr qs reqs st rule: sign_run.induct)
  case (2 de fr qs kind created_at tags content reqs st)
  obtain r st' where step: "sign_nostr_event_with_tags de fr qs kind created_at tags content st = (r, st')" by fastforce
  have "local_world_ok fr kps pubkeys (ss_world st')"
    using local_quorum.event_vetted [OF 2(2,3) step] by simp
  then show ?case using 2(1) [OF 2(2)] by (simp add: step)
qed simp

lemma holder_commits: "i < length (hw_holders w) \<Longrightarrow> ho_commit (local_holder_at cv de fr k i) sid w = (Inr c, w') \<Longrightarrow>
    c = snd (fr_commit fr (lh_key_package (hw_holders w ! i)) (hw_draws w)) \<and> hw_draws w' = hw_draws w + 1
    \<and> hw_holders w' = (hw_holders w)[i := (hw_holders w ! i)\<lparr>lh_nonces := (lh_nonces (hw_holders w ! i))
        (sid \<mapsto> fst (fr_commit fr (lh_key_package (hw_holders w ! i)) (hw_draws w)))\<rparr>]"
  by (auto simp: local_holder_at_def local_commit_def Let_def split: prod.splits if_splits)

lemma holder_shares_out: "ho_validate_and_sign (local_holder_at cv de fr k i) sid req package w = (Inr share, w') \<Longrightarrow>
    \<exists>n. lh_nonces (hw_holders w ! i) sid = Some n
      \<and> validate cv de req package (lh_own_pubkeys (hw_holders w ! i)) (lh_id_u16 (hw_holders w ! i)) MIN_SIGNERS = Inr ()
      \<and> fr_sign_with_tweak fr package n (lh_key_package (hw_holders w ! i)) = Inr share
      \<and> hw_holders w' = (hw_holders w)[i := (hw_holders w ! i)\<lparr>lh_nonces := (lh_nonces (hw_holders w ! i))(sid := None)\<rparr>]
      \<and> hw_draws w' = hw_draws w"
  by (auto simp: local_holder_at_def split: prod.splits dest!: signed_share)

text \<open>The share of one key package in a ceremony: made over the package with the nonce of one of the draws, whose commitment
  the package carries, and given out for a request the holder's membrane accepts.\<close>

definition share_given ::
  "'pk curve \<Rightarrow> digest_env \<Rightarrow> ('kp, 'pk, 'nc, 'cm, 'sh) frost \<Rightarrow> 'pk \<Rightarrow> 'kp \<Rightarrow> nat set \<Rightarrow> cosign_request
     \<Rightarrow> 'cm signing_package \<Rightarrow> (frost_id, 'sh) tree \<Rightarrow> bool" where
  "share_given cv de fr pubkeys kp draws req package shares \<longleftrightarrow>
     validate cv de req package pubkeys (identifier_to_u16 (fr_identifier fr kp)) MIN_SIGNERS = Inr ()
     \<and> (\<exists>d\<in>draws. \<exists>k share. fr_try_from fr (identifier_to_u16 (fr_identifier fr kp)) = Inr k
          \<and> tget (sp_commitments package) k = Some (snd (fr_commit fr kp d))
          \<and> fr_sign_with_tweak fr package (fst (fr_commit fr kp d)) kp = Inr share
          \<and> tget shares k = Some share)"

lemma share_given_wider: "share_given cv de fr pubkeys kp A req package shares \<Longrightarrow> A \<subseteq> B \<Longrightarrow>
    share_given cv de fr pubkeys kp B req package shares"
  unfolding share_given_def by blast

text \<open>The signature is the aggregate of exactly one share of each of the given holders.\<close>

definition quorum_signed ::
  "'pk curve \<Rightarrow> digest_env \<Rightarrow> ('kp, 'pk, 'nc, 'cm, 'sh) frost \<Rightarrow> 'kp list \<Rightarrow> 'pk \<Rightarrow> nat list \<Rightarrow> nat set
     \<Rightarrow> sign_intent \<Rightarrow> bytes \<Rightarrow> bytes \<Rightarrow> bool" where
  "quorum_signed cv de fr kps pubkeys signers draws intent event_id sig \<longleftrightarrow>
     (\<exists>sid package shares g.
        sp_message package = event_id \<and> length (sp_commitments package) = length signers \<and> length shares = length signers
        \<and> (\<forall>i\<in>set signers. share_given cv de fr pubkeys (kps ! i) draws
             \<lparr>cr_session_id = sid, cr_intent = intent,
                 cr_signer_set = (\<lambda>j. identifier_to_u16 (fr_identifier fr (kps ! j))) ` set signers\<rparr> package shares)
        \<and> fr_aggregate_with_tweak fr package shares pubkeys = Inr g
        \<and> fr_signature_serialize fr g = Inr sig \<and> length sig = 64)"

lemma two_gets: "ki \<noteq> kj \<Longrightarrow> tget (tinsert kj b [(ki, a)]) ki = Some a \<and> tget (tinsert kj b [(ki, a)]) kj = Some b
    \<and> length (tinsert kj b [(ki, a)]) = 2"
  for ki kj :: "'k::linorder"
  by auto

lemma pair_signed:
  fixes fr :: "('kp, 'pk, 'nc, 'cm, 'sh) frost"
  defines "idn \<equiv> \<lambda>i kps. identifier_to_u16 (fr_identifier fr (kps ! i))"
  assumes ok: "local_world_ok fr kps pubkeys (ss_world st)" and ij: "i < length kps" "j < length kps" "i \<noteq> j"
    and run: "try_subset_ceremony fr pubkeys [local_holder_at cv de fr (idn i kps) i, local_holder_at cv de fr (idn j kps) j]
      event_id intent st = (Inr sig, st')"
  shows "idn i kps \<noteq> idn j kps
    \<and> quorum_signed cv de fr kps pubkeys [i, j] {hw_draws (ss_world st)..<hw_draws (ss_world st')} intent event_id sig"
proof -
  let ?hi = "local_holder_at cv de fr (idn i kps) i" and ?hj = "local_holder_at cv de fr (idn j kps) j"
  let ?sid = "ss_next_session st" and ?w = "ss_world st"
  let ?req = "\<lparr>cr_session_id = ?sid, cr_intent = intent, cr_signer_set = {idn i kps, idn j kps}\<rparr>"
  have hid: "ho_id ?hi = idn i kps" "ho_id ?hj = idn j kps" by (simp_all add: local_holder_at_def)
  have ne: "idn i kps \<noteq> idn j kps"
    using run by (auto simp: try_subset_ceremony_def hid MIN_SIGNERS_def Let_def split: if_splits)
  obtain cms w1 shares w2 g where r: "commit_all fr ?sid [?hi, ?hj] [] ?w = (Inr cms, w1)"
    "sign_all fr ?sid ?req \<lparr>sp_commitments = cms, sp_message = event_id\<rparr> [?hi, ?hj] [] w1 = (Inr shares, w2)"
    "fr_aggregate_with_tweak fr \<lparr>sp_commitments = cms, sp_message = event_id\<rparr> shares pubkeys = Inr g"
    "fr_signature_serialize fr g = Inr sig" "length sig = 64" "ss_world st' = w2"
    using run unfolding try_subset_ceremony_def Let_def ss_world_simps
    by (auto simp: hid split: if_splits prod.splits sum.splits)
  let ?pk = "\<lparr>sp_commitments = cms, sp_message = event_id\<rparr>"
  obtain ci wa ki cj kj where c: "ho_commit ?hi ?sid ?w = (Inr ci, wa)" "ho_commit ?hj ?sid wa = (Inr cj, w1)"
    "fr_try_from fr (idn i kps) = Inr ki" "fr_try_from fr (idn j kps) = Inr kj" "cms = tinsert kj cj [(ki, ci)]"
    using r(1) by (auto simp: hid split: prod.splits sum.splits)
  obtain si wb sj where s: "ho_validate_and_sign ?hi ?sid ?req ?pk w1 = (Inr si, wb)"
    "ho_validate_and_sign ?hj ?sid ?req ?pk wb = (Inr sj, w2)" "shares = tinsert kj sj [(ki, si)]"
    using r(2) by (auto simp: hid c(3,4) split: prod.splits sum.splits)
  note at = local_world_at [OF ok, unfolded static_of_def]
  have len: "i < length (hw_holders ?w)" "j < length (hw_holders ?w)" and key: "lh_key_package (hw_holders ?w ! i) = kps ! i"
    "lh_key_package (hw_holders ?w ! j) = kps ! j" "lh_own_pubkeys (hw_holders ?w ! i) = pubkeys" "lh_own_pubkeys (hw_holders ?w ! j) = pubkeys"
    "lh_id_u16 (hw_holders ?w ! i) = idn i kps" "lh_id_u16 (hw_holders ?w ! j) = idn j kps"
    using at [OF ij(1)] at [OF ij(2)] by (simp_all add: idn_def)
  note ca = holder_commits [OF len(1) c(1)]
  have lena: "j < length (hw_holders wa)" using ca len by simp
  note cb = holder_commits [OF lena c(2)]
  have keya: "hw_holders wa ! j = hw_holders ?w ! j" using ca ij(3) by simp
  have nonce_i: "lh_nonces (hw_holders w1 ! i) ?sid = Some (fst (fr_commit fr (kps ! i) (hw_draws ?w)))"
    and stat_i: "lh_key_package (hw_holders w1 ! i) = kps ! i" "lh_own_pubkeys (hw_holders w1 ! i) = pubkeys"
      "lh_id_u16 (hw_holders w1 ! i) = idn i kps"
    using ca cb ij(3) len key by simp_all
  have nonce_j: "lh_nonces (hw_holders w1 ! j) ?sid = Some (fst (fr_commit fr (kps ! j) (hw_draws ?w + 1)))"
    and stat_j: "lh_key_package (hw_holders w1 ! j) = kps ! j" "lh_own_pubkeys (hw_holders w1 ! j) = pubkeys"
      "lh_id_u16 (hw_holders w1 ! j) = idn j kps"
    using ca cb ij(3) len key keya by simp_all
  from holder_shares_out [OF s(1)] nonce_i stat_i have sa: "fr_sign_with_tweak fr ?pk (fst (fr_commit fr (kps ! i) (hw_draws ?w))) (kps ! i) = Inr si"
    "validate cv de ?req ?pk pubkeys (idn i kps) MIN_SIGNERS = Inr ()" "hw_holders wb ! j = hw_holders w1 ! j" "hw_draws wb = hw_draws w1"
    using ij(3) by auto
  from holder_shares_out [OF s(2)] nonce_j stat_j sa(3) have sb: "fr_sign_with_tweak fr ?pk (fst (fr_commit fr (kps ! j) (hw_draws ?w + 1))) (kps ! j) = Inr sj"
    "validate cv de ?req ?pk pubkeys (idn j kps) MIN_SIGNERS = Inr ()" "hw_draws w2 = hw_draws wb"
    by auto
  have kne: "ki \<noteq> kj"
  proof
    assume "ki = kj"
    then have "set (tkeys cms) = {ki}" by (simp add: c(5) tkeys_def)
    moreover have "identifier_to_u16 ` set (tkeys cms) = {idn i kps, idn j kps}" using sa(2) unfolding validate_Inr by simp
    ultimately show False using ne by auto
  qed
  have draws: "hw_draws w2 = hw_draws ?w + 2" using ca cb sa(4) sb(3) by simp
  have com: "ci = snd (fr_commit fr (kps ! i) (hw_draws ?w))" "cj = snd (fr_commit fr (kps ! j) (hw_draws ?w + 1))"
    using ca cb key keya by simp_all
  note gc = two_gets [OF kne, of cj ci, folded c(5), unfolded com] and gs = two_gets [OF kne, of sj si, folded s(3)]
  have "share_given cv de fr pubkeys (kps ! i) {hw_draws ?w..<hw_draws w2} ?req ?pk shares"
    using gc gs sa(1,2) c(3) unfolding share_given_def idn_def by (auto simp: draws intro!: bexI [of _ "hw_draws ?w"])
  moreover have "share_given cv de fr pubkeys (kps ! j) {hw_draws ?w..<hw_draws w2} ?req ?pk shares"
    using gc gs sb(1,2) c(4) unfolding share_given_def idn_def by (auto simp: draws intro!: bexI [of _ "hw_draws ?w + 1"])
  ultimately have "sp_message ?pk = event_id \<and> length (sp_commitments ?pk) = length [i, j] \<and> length shares = length [i, j]
      \<and> (\<forall>k\<in>set [i, j]. share_given cv de fr pubkeys (kps ! k) {hw_draws ?w..<hw_draws w2}
          \<lparr>cr_session_id = ?sid, cr_intent = intent,
            cr_signer_set = (\<lambda>k. identifier_to_u16 (fr_identifier fr (kps ! k))) ` set [i, j]\<rparr> ?pk shares)"
    using gc gs by (simp add: idn_def)
  with r(3-5) have "quorum_signed cv de fr kps pubkeys [i, j] {hw_draws ?w..<hw_draws w2} intent event_id sig"
    unfolding quorum_signed_def by blast
  then show ?thesis using ne by (simp add: r(6))
qed

lemma quorum_signed_wider: "quorum_signed cv de fr kps pubkeys hs A intent eid sig \<Longrightarrow> A \<subseteq> B \<Longrightarrow>
    quorum_signed cv de fr kps pubkeys hs B intent eid sig"
  unfolding quorum_signed_def using share_given_wider [of cv de fr pubkeys _ A _ _ _ B] by blast

lemma commit_draws: "h \<in> set (quorum_holders cv de fr kps down) \<Longrightarrow> ho_commit h sid w = (r, w') \<Longrightarrow> hw_draws w \<le> hw_draws w'"
  by (auto simp: unreachable_holder_def local_holder_at_def split: prod.splits dest!: in_quorum_holders local_commit_cases)

lemma sign_draws: "h \<in> set (quorum_holders cv de fr kps down) \<Longrightarrow> ho_validate_and_sign h sid req package w = (r, w') \<Longrightarrow> hw_draws w \<le> hw_draws w'"
  by (auto simp: unreachable_holder_def local_holder_at_def split: prod.splits dest!: in_quorum_holders)

lemma commit_all_draws: "set hs \<subseteq> set (quorum_holders cv de fr kps down) \<Longrightarrow> commit_all fr sid hs cms w = (r, w') \<Longrightarrow> hw_draws w \<le> hw_draws w'"
  by (induction fr sid hs cms w rule: commit_all.induct) (fastforce split: prod.splits sum.splits dest: commit_draws)+

lemma sign_all_draws: "set hs \<subseteq> set (quorum_holders cv de fr kps down) \<Longrightarrow> sign_all fr sid req package hs shares w = (r, w') \<Longrightarrow> hw_draws w \<le> hw_draws w'"
  by (induction fr sid req package hs shares w rule: sign_all.induct) (fastforce split: prod.splits sum.splits dest: sign_draws)+

lemma ceremony_draws:
  assumes "set hs \<subseteq> set (quorum_holders cv de fr kps down)" and "try_subset_ceremony fr pk hs event_id intent st = (r, st')"
  shows "hw_draws (ss_world st) \<le> hw_draws (ss_world st')"
proof -
  let ?sid = "ss_next_session st"
  let ?req = "\<lparr>cr_session_id = ?sid, cr_intent = intent, cr_signer_set = set (map ho_id hs)\<rparr>"
  obtain c w1 where c: "commit_all fr ?sid hs [] (ss_world st) = (c, w1)" by fastforce
  note d1 = commit_all_draws [OF assms(1) c]
  show ?thesis
  proof (cases c)
    case (Inl e)
    then show ?thesis using assms(2) d1
      by (auto simp only: try_subset_ceremony_def Let_def c ss_world_simps prod.case sum.case split: if_splits)
  next
    case (Inr cms)
    obtain q w2 where q: "sign_all fr ?sid ?req \<lparr>sp_commitments = cms, sp_message = event_id\<rparr> hs [] w1 = (q, w2)" by fastforce
    have "hw_draws (ss_world st) \<le> hw_draws w2" using d1 sign_all_draws [OF assms(1) q] by simp
    then show ?thesis using assms(2)
      by (cases q) (auto simp only: try_subset_ceremony_def Let_def c Inr q ss_world_simps prod.case sum.case
        split: if_splits sum.splits)
  qed
qed

lemma search_signed:
  fixes fr :: "('kp, 'pk, 'nc, 'cm, 'sh) frost"
  assumes qs: "qs_holders qs = quorum_holders cv de fr kps {}" "qs_pubkeys qs = pubkeys"
    and combos: "\<forall>c\<in>set combos. \<exists>i j. c = [i, j] \<and> i < j \<and> j < length kps" and ok: "local_world_ok fr kps pubkeys (ss_world st)"
    and run: "try_subsets fr qs event_id intent e combos st = (Inr sig, st')"
  shows "\<exists>i j. i < j \<and> j < length kps \<and> identifier_to_u16 (fr_identifier fr (kps ! i)) \<noteq> identifier_to_u16 (fr_identifier fr (kps ! j))
    \<and> quorum_signed cv de fr kps pubkeys [i, j] {hw_draws (ss_world st)..<hw_draws (ss_world st')} intent event_id sig"
  using combos ok run
proof (induction combos arbitrary: st e)
  case (Cons c combos)
  let ?hs = "map (\<lambda>i. qs_holders qs ! i) c"
  obtain i j where c: "c = [i, j]" "i < j" "j < length kps" using Cons.prems(1) by auto
  have hs: "?hs = [local_holder_at cv de fr (identifier_to_u16 (fr_identifier fr (kps ! i))) i,
      local_holder_at cv de fr (identifier_to_u16 (fr_identifier fr (kps ! j))) j]"
    using c by (simp add: qs(1) quorum_holders_def)
  have sub: "set ?hs \<subseteq> set (quorum_holders cv de fr kps {})" using c by (auto simp: qs(1) quorum_holders_def)
  obtain r st1 where step: "try_subset_ceremony fr (qs_pubkeys qs) ?hs event_id intent st = (r, st1)" by fastforce
  show ?case
  proof (cases r)
    case (Inr s)
    then have "s = sig" "st1 = st'" using Cons.prems(3) unfolding try_subsets.simps Let_def step by simp_all
    then have "try_subset_ceremony fr pubkeys [local_holder_at cv de fr (identifier_to_u16 (fr_identifier fr (kps ! i))) i,
      local_holder_at cv de fr (identifier_to_u16 (fr_identifier fr (kps ! j))) j] event_id intent st = (Inr sig, st')"
      using step [unfolded hs Inr qs(2)] by simp
    from pair_signed [OF Cons.prems(2) _ c(3) _ this] c show ?thesis by auto
  next
    case (Inl err)
    have ok1: "local_world_ok fr kps pubkeys (ss_world st1)" by (rule local_quorum.ceremony_ok [OF sub Cons.prems(2) step])
    obtain e' where "try_subsets fr qs event_id intent e' combos st1 = (Inr sig, st')"
      using Cons.prems(3) unfolding try_subsets.simps Let_def step Inl by auto
    from Cons.IH [OF _ ok1 this] Cons.prems(1) obtain i j where ij: "i < j" "j < length kps"
      "identifier_to_u16 (fr_identifier fr (kps ! i)) \<noteq> identifier_to_u16 (fr_identifier fr (kps ! j))"
      "quorum_signed cv de fr kps pubkeys [i, j] {hw_draws (ss_world st1)..<hw_draws (ss_world st')} intent event_id sig" by auto
    have "hw_draws (ss_world st) \<le> hw_draws (ss_world st1)" by (rule ceremony_draws [OF sub step])
    then show ?thesis using ij(1-3) quorum_signed_wider [OF ij(4)] by (metis ivl_subset order_refl)
  qed
qed simp

lemma two_of: "sorted_wrt (<) c \<Longrightarrow> length c = 2 \<Longrightarrow> set c \<subseteq> {..<n} \<Longrightarrow> \<exists>i j. c = [i, j] \<and> i < j \<and> j < n" for c :: "nat list"
  by (auto simp: length_Suc_conv numeral_2_eq_2)

lemma pair_combos: "\<forall>c\<in>set (quorum_subsets n (unat MIN_SIGNERS)). \<exists>i j. c = [i, j] \<and> i < j \<and> j < n"
  using subsets_exact [of n 2] two_of [of _ n] by (auto simp: MIN_SIGNERS_def)

text \<open>C13: Every event under the group key rests on a quorum. Whatever a co-located signer was asked before, an
  event it returns has the asked kind (one of the seven), time and tags; its content is the request's, for a
  note as the publish guard rewrote it; it names the group's key and its id is the NIP-01 id of just these fields
  under that key. Its signature is the aggregate of exactly two shares of two holders with different identifiers: each
  was made with that holder's key package over the package for this id, with a nonce drawn in this very call, and for a
  request for just this event that the membrane accepts for that holder.\<close>

theorem event_rests_on_quorum:
  assumes "from_local_key_packages cv de fr kps pubkeys draws = Inr (qs, st0)"
    and "sign_nostr_event_with_tags de fr qs kind created_at tags content (sign_run de fr qs earlier st0) = (Inr ev, st')"
  shows "\<exists>q sig i j. group_xonly_q cv pubkeys = Inr q \<and> ne_pubkey ev = de_hex de q
    \<and> is_authorizable_kind kind \<and> ne_kind ev = kind \<and> ne_created_at ev = created_at \<and> ne_tags ev = tags
    \<and> (if kind = NOSTR_TEXT_NOTE_KIND then sanitize_note_for_publish content = Inr (ne_content ev) else ne_content ev = content)
    \<and> ne_id ev = de_hex de (nip01_event_id_with_tags de (de_hex de q) created_at kind tags (ne_content ev))
    \<and> ne_sig ev = de_hex de sig \<and> i < j \<and> j < length kps
    \<and> identifier_to_u16 (fr_identifier fr (kps ! i)) \<noteq> identifier_to_u16 (fr_identifier fr (kps ! j))
    \<and> quorum_signed cv de fr kps pubkeys [i, j]
        {hw_draws (ss_world (sign_run de fr qs earlier st0))..<hw_draws (ss_world st')}
        \<lparr>si_kind = kind, si_created_at = created_at, si_tags = tags, si_content = ne_content ev\<rparr>
        (nip01_event_id_with_tags de (de_hex de q) created_at kind tags (ne_content ev)) sig"
proof -
  let ?st = "sign_run de fr qs earlier st0"
  note qs = local_signer [OF assms(1)]
  have holders: "qs_holders qs = quorum_holders cv de fr kps {}" and pk: "qs_pubkeys qs = pubkeys" using qs by auto
  have ok: "local_world_ok fr kps pubkeys (ss_world ?st)"
    using sign_run_ok [of qs cv de fr kps "{}"] qs new_world_ok by metis
  have combos: "\<forall>c\<in>set (quorum_subsets (length (qs_holders qs)) (unat MIN_SIGNERS)). \<exists>i j. c = [i, j] \<and> i < j \<and> j < length kps"
    using pair_combos [of "length kps"] by (simp add: holders quorum_holders_def)
  have kinds: "is_signable_kind kind = is_authorizable_kind kind"
    by (simp add: is_signable_kind_def is_authorizable_kind_def kind_defs NOSTR_KIND_TEXT_NOTE_def)
  obtain sig where "is_authorizable_kind kind \<and> ne_pubkey ev = de_hex de (qs_q_bytes qs) \<and> ne_kind ev = kind
    \<and> ne_created_at ev = created_at \<and> ne_tags ev = tags
    \<and> (if kind = NOSTR_TEXT_NOTE_KIND then sanitize_note_for_publish content = Inr (ne_content ev) else ne_content ev = content)
    \<and> ne_id ev = de_hex de (nip01_event_id_with_tags de (de_hex de (qs_q_bytes qs)) created_at kind tags (ne_content ev))
    \<and> ne_sig ev = de_hex de sig
    \<and> try_subsets fr qs (nip01_event_id_with_tags de (de_hex de (qs_q_bytes qs)) created_at kind tags (ne_content ev))
        \<lparr>si_kind = kind, si_created_at = created_at, si_tags = tags, si_content = ne_content ev\<rparr> None
        (quorum_subsets (length (qs_holders qs)) (unat MIN_SIGNERS)) ?st = (Inr sig, st')"
    using assms(2) unfolding sign_nostr_event_with_tags_def kinds
    by (auto simp: Let_def NOSTR_KIND_TEXT_NOTE_def NOSTR_TEXT_NOTE_KIND_def split: if_splits sum.splits prod.splits)
  with search_signed [OF holders pk combos ok, of _ _ None sig st'] show ?thesis using qs by blast
qed

section \<open>Availability\<close>

text \<open>
  What the quorum relies on in FROST (RFC 9591, and the checks of the crate's \<open>round2\<close> and \<open>aggregate\<close>). A package is
  honest when it carries commitments of at least two of the dealer's key packages, each under its identifier. Then a
  key package whose own commitment is in it signs with the nonce of that commitment, and one such share of each of its
  signers aggregates to a signature of 64 bytes. The dealer's identifiers convert back from their numbers. Nothing is
  assumed of a short package, a foreign or mismatched commitment or another nonce.
\<close>

definition honest_package :: "('kp, 'pk, 'nc, 'cm, 'sh) frost \<Rightarrow> 'kp list \<Rightarrow> 'cm signing_package \<Rightarrow> bool" where
  "honest_package fr kps package \<longleftrightarrow>
     distinct (tkeys (sp_commitments package)) \<and> 2 \<le> length (sp_commitments package)
     \<and> (\<forall>(k, c)\<in>set (sp_commitments package). \<exists>kp\<in>set kps. \<exists>d. fr_identifier fr kp = k \<and> c = snd (fr_commit fr kp d))"

definition honest_share ::
  "('kp, 'pk, 'nc, 'cm, 'sh) frost \<Rightarrow> 'kp list \<Rightarrow> 'cm signing_package \<Rightarrow> frost_id \<times> 'sh \<Rightarrow> bool" where
  "honest_share fr kps package = (\<lambda>(k, share). \<exists>kp\<in>set kps. \<exists>d. fr_identifier fr kp = k
     \<and> (k, snd (fr_commit fr kp d)) \<in> set (sp_commitments package)
     \<and> fr_sign_with_tweak fr package (fst (fr_commit fr kp d)) kp = Inr share)"

definition frost_honest :: "('kp, 'pk, 'nc, 'cm, 'sh) frost \<Rightarrow> 'kp list \<Rightarrow> 'pk \<Rightarrow> bool" where
  "frost_honest fr kps pubkeys \<longleftrightarrow>
     (\<forall>kp\<in>set kps. fr_try_from fr (identifier_to_u16 (fr_identifier fr kp)) = Inr (fr_identifier fr kp))
     \<and> (\<forall>package. honest_package fr kps package \<longrightarrow>
          (\<forall>kp\<in>set kps. \<forall>d. (fr_identifier fr kp, snd (fr_commit fr kp d)) \<in> set (sp_commitments package) \<longrightarrow>
             (\<exists>share. fr_sign_with_tweak fr package (fst (fr_commit fr kp d)) kp = Inr share))
          \<and> (\<forall>shares. tkeys shares = tkeys (sp_commitments package) \<and> (\<forall>x\<in>set shares. honest_share fr kps package x) \<longrightarrow>
             (\<exists>g sig. fr_aggregate_with_tweak fr package shares pubkeys = Inr g
                \<and> fr_signature_serialize fr g = Inr sig \<and> length sig = 64)))"

text \<open>No holder has a live nonce of the next session or a later one.\<close>

definition below :: "nat \<Rightarrow> ('kp, 'pk, 'nc) holder_world \<Rightarrow> bool" where
  "below n w \<longleftrightarrow> (\<forall>h\<in>set (hw_holders w). \<forall>sid. lh_nonces h sid \<noteq> None \<longrightarrow> unat sid < n)"

lemma below_update: "below n w \<Longrightarrow> (\<And>sid. lh_nonces h sid \<noteq> None \<Longrightarrow> unat sid < n) \<Longrightarrow>
    below n (w\<lparr>hw_holders := (hw_holders w)[i := h]\<rparr>)"
  unfolding below_def using set_update_subset_insert by fastforce

lemma below_draws [simp]: "below n (w\<lparr>hw_draws := d, hw_holders := hs\<rparr>) = below n (w\<lparr>hw_holders := hs\<rparr>)"
  by (simp add: below_def)

lemma below_at: "below n w \<Longrightarrow> i < length (hw_holders w) \<Longrightarrow> lh_nonces (hw_holders w ! i) sid \<noteq> None \<Longrightarrow> unat sid < n"
  unfolding below_def by (meson nth_mem)

lemma sign_nonces: "local_validate_and_sign cv de fr sid req package h = (r, h') \<Longrightarrow> lh_nonces h' k \<noteq> None \<Longrightarrow> lh_nonces h k \<noteq> None"
  by (cases r) (auto dest!: refused_share signed_share split: if_splits)

lemma below_local_commit: "below n w \<Longrightarrow> i < length (hw_holders w) \<Longrightarrow> unat sid < n \<Longrightarrow>
    local_commit fr sid (hw_holders w ! i) d = (r, h, d') \<Longrightarrow> below n (w\<lparr>hw_holders := (hw_holders w)[i := h]\<rparr>)"
  by (rule below_update) (auto dest!: local_commit_cases below_at split: if_splits)

lemma below_local_sign: "below n w \<Longrightarrow> i < length (hw_holders w) \<Longrightarrow>
    local_validate_and_sign cv de fr sid req package (hw_holders w ! i) = (r, h) \<Longrightarrow>
    below n (w\<lparr>hw_holders := (hw_holders w)[i := h]\<rparr>)"
  by (rule below_update) (blast dest: sign_nonces below_at)+

lemma below_commit:
  assumes "h \<in> set (quorum_holders cv de fr kps down)" and "local_world_ok fr kps pubkeys w" and "below n w"
    and "unat sid < n" and "ho_commit h sid w = (r, w')"
  shows "local_world_ok fr kps pubkeys w' \<and> below n w'"
proof -
  from in_quorum_holders [OF assms(1)] obtain i where i: "i < length kps"
    and h: "h = unreachable_holder (identifier_to_u16 (fr_identifier fr (kps ! i)))
      \<or> h = local_holder_at cv de fr (identifier_to_u16 (fr_identifier fr (kps ! i))) i" by blast
  have "i < length (hw_holders w)" using local_world_at [OF assms(2) i] by blast
  then have "below n w'" using h assms(3-5) below_local_commit [of n w i sid fr "hw_draws w"]
    by (auto simp: unreachable_holder_def local_holder_at_def split: prod.splits)
  then show ?thesis using local_quorum.ok_commit [OF assms(1,2,5)] by blast
qed

lemma below_sign:
  assumes "h \<in> set (quorum_holders cv de fr kps down)" and "local_world_ok fr kps pubkeys w" and "below n w"
    and "ho_validate_and_sign h sid req package w = (r, w')"
  shows "local_world_ok fr kps pubkeys w' \<and> below n w'"
proof -
  from in_quorum_holders [OF assms(1)] obtain i where i: "i < length kps"
    and h: "h = unreachable_holder (identifier_to_u16 (fr_identifier fr (kps ! i)))
      \<or> h = local_holder_at cv de fr (identifier_to_u16 (fr_identifier fr (kps ! i))) i" by blast
  have "i < length (hw_holders w)" using local_world_at [OF assms(2) i] by blast
  then have "below n w'" using h assms(3,4) below_local_sign [of n w i cv de fr sid req package]
    by (auto simp: unreachable_holder_def local_holder_at_def split: prod.splits)
  then show ?thesis using local_quorum.ok_sign [OF assms(1,2,4)] by blast
qed

lemma below_commit_all: "set hs \<subseteq> set (quorum_holders cv de fr kps down) \<Longrightarrow> local_world_ok fr kps pubkeys w \<Longrightarrow>
    below n w \<Longrightarrow> unat sid < n \<Longrightarrow> commit_all fr sid hs cms w = (r, w') \<Longrightarrow> local_world_ok fr kps pubkeys w' \<and> below n w'"
  by (induction fr sid hs cms w rule: commit_all.induct)
    (auto split: prod.splits sum.splits dest: below_commit)

lemma below_sign_all: "set hs \<subseteq> set (quorum_holders cv de fr kps down) \<Longrightarrow> local_world_ok fr kps pubkeys w \<Longrightarrow>
    below n w \<Longrightarrow> sign_all fr sid req package hs shares w = (r, w') \<Longrightarrow> local_world_ok fr kps pubkeys w' \<and> below n w'"
  by (induction fr sid req package hs shares w rule: sign_all.induct)
    (auto split: prod.splits sum.splits dest: below_sign)

lemma commit_at:
  assumes "local_world_ok fr kps pubkeys w" and "i < length kps" and "lh_nonces (hw_holders w ! i) sid = None"
  shows "ho_commit (local_holder_at cv de fr k i) sid w =
    (Inr (snd (fr_commit fr (kps ! i) (hw_draws w))),
     w\<lparr>hw_draws := hw_draws w + 1, hw_holders := (hw_holders w)[i := (hw_holders w ! i)\<lparr>lh_nonces :=
        (lh_nonces (hw_holders w ! i))(sid \<mapsto> fst (fr_commit fr (kps ! i) (hw_draws w)))\<rparr>]\<rparr>)"
  using assms(3) local_world_at [OF assms(1,2)]
  by (simp add: local_holder_at_def local_commit_def static_of_def Let_def split: prod.splits)

lemma sign_at:
  assumes "local_world_ok fr kps pubkeys w" and "i < length kps" and "lh_nonces (hw_holders w ! i) sid = Some n"
    and "validate cv de req package pubkeys (identifier_to_u16 (fr_identifier fr (kps ! i))) MIN_SIGNERS = Inr ()"
    and "fr_sign_with_tweak fr package n (kps ! i) = Inr share"
  shows "ho_validate_and_sign (local_holder_at cv de fr k i) sid req package w =
    (Inr share, w\<lparr>hw_holders := (hw_holders w)[i := (hw_holders w ! i)\<lparr>lh_nonces :=
        (lh_nonces (hw_holders w ! i))(sid := None)\<rparr>]\<rparr>)"
  using assms(3-5) local_world_at [OF assms(1,2)]
  by (simp add: local_holder_at_def local_validate_and_sign_def static_of_def Let_def)

lemma two_commits:
  fixes fr :: "('kp, 'pk, 'nc, 'cm, 'sh) frost"
  defines "idn \<equiv> \<lambda>i kps. identifier_to_u16 (fr_identifier fr (kps ! i))"
  assumes honest: "frost_honest fr kps pubkeys" and ok: "local_world_ok fr kps pubkeys w"
    and ij: "i < length kps" "j < length kps" "i \<noteq> j"
    and fresh: "lh_nonces (hw_holders w ! i) sid = None" "lh_nonces (hw_holders w ! j) sid = None"
  shows "\<exists>di dj w'. commit_all fr sid [local_holder_at cv de fr (idn i kps) i, local_holder_at cv de fr (idn j kps) j] [] w
      = (Inr (tinsert (fr_identifier fr (kps ! j)) (snd (fr_commit fr (kps ! j) dj))
          [(fr_identifier fr (kps ! i), snd (fr_commit fr (kps ! i) di))]), w')
    \<and> local_world_ok fr kps pubkeys w'
    \<and> lh_nonces (hw_holders w' ! i) sid = Some (fst (fr_commit fr (kps ! i) di))
    \<and> lh_nonces (hw_holders w' ! j) sid = Some (fst (fr_commit fr (kps ! j) dj))"
proof -
  let ?hi = "local_holder_at cv de fr (idn i kps) i" and ?hj = "local_holder_at cv de fr (idn j kps) j"
  have ids: "fr_try_from fr (idn k kps) = Inr (fr_identifier fr (kps ! k))" if "k < length kps" for k
    using honest that by (simp add: frost_honest_def idn_def)
  have len: "i < length (hw_holders w)" "j < length (hw_holders w)" using local_world_at [OF ok] ij by blast+
  obtain r1 w1 where c1: "ho_commit ?hi sid w = (r1, w1)" by fastforce
  have s1: "r1 = Inr (snd (fr_commit fr (kps ! i) (hw_draws w)))"
    "hw_holders w1 = (hw_holders w)[i := (hw_holders w ! i)\<lparr>lh_nonces :=
        (lh_nonces (hw_holders w ! i))(sid \<mapsto> fst (fr_commit fr (kps ! i) (hw_draws w)))\<rparr>]"
    using c1 commit_at [OF ok ij(1) fresh(1), of cv de "idn i kps"] by auto
  have in1: "?hi \<in> set (quorum_holders cv de fr kps {})" "?hj \<in> set (quorum_holders cv de fr kps {})"
    using ij by (auto simp: quorum_holders_def idn_def)
  have ok1: "local_world_ok fr kps pubkeys w1" using local_quorum.ok_commit [OF in1(1) ok c1] .
  have fresh1: "lh_nonces (hw_holders w1 ! j) sid = None" using fresh(2) ij(3) by (simp add: s1(2))
  obtain r2 w2 where c2: "ho_commit ?hj sid w1 = (r2, w2)" by fastforce
  have s2: "r2 = Inr (snd (fr_commit fr (kps ! j) (hw_draws w1)))"
    "hw_holders w2 = (hw_holders w1)[j := (hw_holders w1 ! j)\<lparr>lh_nonces :=
        (lh_nonces (hw_holders w1 ! j))(sid \<mapsto> fst (fr_commit fr (kps ! j) (hw_draws w1)))\<rparr>]"
    using c2 commit_at [OF ok1 ij(2) fresh1, of cv de "idn j kps"] by auto
  have ok2: "local_world_ok fr kps pubkeys w2" using local_quorum.ok_commit [OF in1(2) ok1 c2] .
  have "lh_nonces (hw_holders w2 ! i) sid = Some (fst (fr_commit fr (kps ! i) (hw_draws w)))"
    "lh_nonces (hw_holders w2 ! j) sid = Some (fst (fr_commit fr (kps ! j) (hw_draws w1)))"
    using len ij(3) by (simp_all add: s2(2) s1(2))
  moreover have "commit_all fr sid [?hi, ?hj] [] w =
      (Inr (tinsert (fr_identifier fr (kps ! j)) (snd (fr_commit fr (kps ! j) (hw_draws w1)))
        [(fr_identifier fr (kps ! i), snd (fr_commit fr (kps ! i) (hw_draws w)))]), w2)"
    using ids [OF ij(1)] ids [OF ij(2)] c1 c2 s1(1) s2(1) by (simp add: local_holder_at_def)
  ultimately show ?thesis using ok2 by blast
qed

lemma two_keys: "j' \<noteq> i' \<Longrightarrow> set (tkeys (tinsert j' b [(i', a)])) = {i', j'} \<and> distinct (tkeys (tinsert j' b [(i', a)]))
    \<and> length (tinsert j' b [(i', a)]) = 2 \<and> set (tinsert j' b [(i', a)]) = {(i', a), (j', b)}"
  for i' j' :: "'k::linorder"
  by (auto simp: tkeys_def)

lemma two_tkeys: "tkeys (tinsert j' b [(i', a)]) = tkeys (tinsert j' b' [(i', a')])" for i' j' :: "'k::linorder"
  by (simp add: tkeys_def)

lemma two_accepted:
  assumes "group_xonly_q cv pubkeys = Inr q" and "intent_refusal intent = None"
    and "set (tkeys cms) = {i', j'}" and "distinct (tkeys cms)"
    and "identifier_to_u16 i' \<noteq> identifier_to_u16 j'" and "k \<in> {identifier_to_u16 i', identifier_to_u16 j'}"
  shows "validate cv de \<lparr>cr_session_id = sid, cr_intent = intent, cr_signer_set = {identifier_to_u16 i', identifier_to_u16 j'}\<rparr>
      \<lparr>sp_commitments = cms, sp_message = intent_id de q intent\<rparr> pubkeys k MIN_SIGNERS = Inr ()"
proof -
  have "inj_on identifier_to_u16 {i', j'}" using assms(5) by (auto simp: inj_on_def)
  then show ?thesis unfolding validate_Inr using assms by (simp add: MIN_SIGNERS_def)
qed

lemma two_signs:
  fixes fr :: "('kp, 'pk, 'nc, 'cm, 'sh) frost"
  defines "idn \<equiv> \<lambda>i kps. identifier_to_u16 (fr_identifier fr (kps ! i))"
  assumes honest: "frost_honest fr kps pubkeys" and ok: "local_world_ok fr kps pubkeys w"
    and ij: "i < length kps" "j < length kps" "i \<noteq> j"
    and nonces: "lh_nonces (hw_holders w ! i) sid = Some ni" "lh_nonces (hw_holders w ! j) sid = Some nj"
    and s: "fr_sign_with_tweak fr package ni (kps ! i) = Inr si" "fr_sign_with_tweak fr package nj (kps ! j) = Inr sj"
    and valid: "\<And>k. k \<in> {i, j} \<Longrightarrow> validate cv de req package pubkeys (idn k kps) MIN_SIGNERS = Inr ()"
  shows "\<exists>w'. sign_all fr sid req package
      [local_holder_at cv de fr (idn i kps) i, local_holder_at cv de fr (idn j kps) j] [] w
      = (Inr (tinsert (fr_identifier fr (kps ! j)) sj [(fr_identifier fr (kps ! i), si)]), w')"
proof -
  let ?hi = "local_holder_at cv de fr (idn i kps) i" and ?hj = "local_holder_at cv de fr (idn j kps) j"
  have ids: "fr_try_from fr (idn k kps) = Inr (fr_identifier fr (kps ! k))" if "k < length kps" for k
    using honest that by (simp add: frost_honest_def idn_def)
  obtain r1 w1 where c1: "ho_validate_and_sign ?hi sid req package w = (r1, w1)" by fastforce
  have s1: "r1 = Inr si" "hw_holders w1 ! j = hw_holders w ! j"
    using c1 sign_at [OF ok ij(1) nonces(1) valid [of i, unfolded idn_def] s(1), of "idn i kps"] ij(3) by (auto simp: idn_def)
  have in1: "?hi \<in> set (quorum_holders cv de fr kps {})"
    using ij by (auto simp: quorum_holders_def idn_def)
  have ok1: "local_world_ok fr kps pubkeys w1" using local_quorum.ok_sign [OF in1 ok c1] .
  have n1: "lh_nonces (hw_holders w1 ! j) sid = Some nj" using nonces(2) s1(2) by simp
  obtain r2 w2 where c2: "ho_validate_and_sign ?hj sid req package w1 = (r2, w2)" by fastforce
  have s2: "r2 = Inr sj"
    using c2 sign_at [OF ok1 ij(2) n1 valid [of j, unfolded idn_def] s(2), of "idn j kps"] by (auto simp: idn_def)
  have "sign_all fr sid req package [?hi, ?hj] [] w =
      (Inr (tinsert (fr_identifier fr (kps ! j)) sj [(fr_identifier fr (kps ! i), si)]), w2)"
    using ids [OF ij(1)] ids [OF ij(2)] c1 c2 s1(1) s2 by (simp add: local_holder_at_def)
  then show ?thesis by blast
qed

lemma pair_ceremony:
  fixes fr :: "('kp, 'pk, 'nc, 'cm, 'sh) frost"
  defines "idn \<equiv> \<lambda>i kps. identifier_to_u16 (fr_identifier fr (kps ! i))"
  assumes honest: "frost_honest fr kps pubkeys" and ok: "local_world_ok fr kps pubkeys (ss_world st)"
    and ij: "i < length kps" "j < length kps" "idn i kps \<noteq> idn j kps"
    and fresh: "below (unat (ss_next_session st)) (ss_world st)"
    and intent: "group_xonly_q cv pubkeys = Inr q" "intent_refusal intent = None"
  shows "\<exists>sig st'. try_subset_ceremony fr pubkeys
      [local_holder_at cv de fr (idn i kps) i, local_holder_at cv de fr (idn j kps) j] (intent_id de q intent) intent st = (Inr sig, st')"
proof -
  let ?i = "fr_identifier fr (kps ! i)" and ?j = "fr_identifier fr (kps ! j)" and ?sid = "ss_next_session st"
  let ?hs = "[local_holder_at cv de fr (idn i kps) i, local_holder_at cv de fr (idn j kps) j]"
  have ne: "i \<noteq> j" "?j \<noteq> ?i" using ij(3) by (auto simp: idn_def)
  have none: "lh_nonces (hw_holders (ss_world st) ! k) ?sid = None" if "k < length kps" for k
    using below_at [OF fresh, of k ?sid] local_world_at [OF ok that] by blast
  obtain di dj w1 where c: "commit_all fr ?sid ?hs [] (ss_world st)
      = (Inr (tinsert ?j (snd (fr_commit fr (kps ! j) dj)) [(?i, snd (fr_commit fr (kps ! i) di))]), w1)"
    "local_world_ok fr kps pubkeys w1" "lh_nonces (hw_holders w1 ! i) ?sid = Some (fst (fr_commit fr (kps ! i) di))"
    "lh_nonces (hw_holders w1 ! j) ?sid = Some (fst (fr_commit fr (kps ! j) dj))"
    using two_commits [OF honest ok ij(1,2) ne(1) none [OF ij(1)] none [OF ij(2)], of cv de] unfolding idn_def by blast
  let ?ci = "snd (fr_commit fr (kps ! i) di)" and ?cj = "snd (fr_commit fr (kps ! j) dj)"
  let ?package = "\<lparr>sp_commitments = tinsert ?j ?cj [(?i, ?ci)], sp_message = intent_id de q intent\<rparr>"
  let ?req = "\<lparr>cr_session_id = ?sid, cr_intent = intent, cr_signer_set = {idn i kps, idn j kps}\<rparr>"
  have valid: "validate cv de ?req ?package pubkeys (idn k kps) MIN_SIGNERS = Inr ()" if "k \<in> {i, j}" for k
    using two_accepted [OF intent _ _ ij(3) [unfolded idn_def], of "tinsert ?j ?cj [(?i, ?ci)]" "idn k kps"]
      two_keys [OF ne(2), of ?cj ?ci] that by (auto simp: idn_def simp del: tinsert.simps)
  have kp: "kps ! i \<in> set kps" "kps ! j \<in> set kps" using ij(1,2) by simp_all
  note keys = two_keys [OF ne(2), of ?cj ?ci]
  have hp: "honest_package fr kps ?package"
  proof -
    have "case x of (k, c) \<Rightarrow> \<exists>kp\<in>set kps. \<exists>d. fr_identifier fr kp = k \<and> c = snd (fr_commit fr kp d)"
      if "x \<in> set (tinsert ?j ?cj [(?i, ?ci)])" for x
    proof -
      have "x = (?i, ?ci) \<or> x = (?j, ?cj)" using that keys by blast
      then show ?thesis using kp by auto
    qed
    moreover have "2 \<le> length (tinsert ?j ?cj [(?i, ?ci)])" using keys [THEN conjunct2, THEN conjunct2, THEN conjunct1] by linarith
    ultimately show ?thesis unfolding honest_package_def signing_package.select_convs
      by (intro conjI ballI keys [THEN conjunct2, THEN conjunct1])
  qed
  obtain si sj where signs: "fr_sign_with_tweak fr ?package (fst (fr_commit fr (kps ! i) di)) (kps ! i) = Inr si"
    "fr_sign_with_tweak fr ?package (fst (fr_commit fr (kps ! j) dj)) (kps ! j) = Inr sj"
  proof -
    have mem: "(?i, ?ci) \<in> set (sp_commitments ?package)" "(?j, ?cj) \<in> set (sp_commitments ?package)"
      unfolding signing_package.select_convs using keys by blast+
    have "\<exists>share. fr_sign_with_tweak fr ?package (fst (fr_commit fr kp d)) kp = Inr share"
      if "kp \<in> set kps" "(fr_identifier fr kp, snd (fr_commit fr kp d)) \<in> set (sp_commitments ?package)" for kp d
      using honest hp that unfolding frost_honest_def by blast
    from this [OF kp(1) mem(1)] this [OF kp(2) mem(2)] that show ?thesis by blast
  qed
  obtain w2 where s: "sign_all fr ?sid ?req ?package ?hs [] w1 = (Inr (tinsert ?j sj [(?i, si)]), w2)"
    using two_signs [OF honest c(2) ij(1,2) ne(1) c(3,4) signs, of cv de ?req] valid unfolding idn_def by blast
  have "\<forall>x\<in>set (tinsert ?j sj [(?i, si)]). honest_share fr kps ?package x"
  proof
    fix x assume "x \<in> set (tinsert ?j sj [(?i, si)])"
    then have x: "x = (?i, si) \<or> x = (?j, sj)" using two_keys [OF ne(2), of sj si] by blast
    have "(?i, ?ci) \<in> set (sp_commitments ?package)" "(?j, ?cj) \<in> set (sp_commitments ?package)"
      unfolding signing_package.select_convs using keys by blast+
    then show "honest_share fr kps ?package x" using x signs kp unfolding honest_share_def by blast
  qed
  moreover have "tkeys (tinsert ?j sj [(?i, si)]) = tkeys (sp_commitments ?package)"
    using two_tkeys [of ?j sj ?i si ?cj ?ci] by simp
  ultimately obtain g sig where "fr_aggregate_with_tweak fr ?package (tinsert ?j sj [(?i, si)]) pubkeys = Inr g"
    "fr_signature_serialize fr g = Inr sig" "length sig = 64"
    using honest hp unfolding frost_honest_def by blast
  then show ?thesis using c(1) s ij(3)
    by (simp add: try_subset_ceremony_def MIN_SIGNERS_def Let_def local_holder_at_def)
qed

lemma ceremony_state:
  assumes "set hs \<subseteq> set (quorum_holders cv de fr kps down)" and "local_world_ok fr kps pubkeys (ss_world st)"
    and "below (unat (ss_next_session st)) (ss_world st)" and "unat (ss_next_session st) + 1 < 2 ^ 64"
    and "try_subset_ceremony fr pk hs event_id intent st = (r, st')"
  shows "local_world_ok fr kps pubkeys (ss_world st') \<and> below (unat (ss_next_session st')) (ss_world st')
    \<and> unat (ss_next_session st') \<le> unat (ss_next_session st) + 1"
proof (cases "st' = st")
  case False
  let ?sid = "ss_next_session st"
  let ?req = "\<lparr>cr_session_id = ?sid, cr_intent = intent, cr_signer_set = set (map ho_id hs)\<rparr>"
  have nxt: "unat (?sid + 1) = unat ?sid + 1" using assms(4) unat_add_exact [of ?sid 1] by simp
  have "below (unat ?sid + 1) (ss_world st)" using assms(3) unfolding below_def by (metis add.commute less_SucI plus_1_eq_Suc)
  obtain c w1 where c: "commit_all fr ?sid hs [] (ss_world st) = (c, w1)" by fastforce
  have ok1: "local_world_ok fr kps pubkeys w1 \<and> below (unat ?sid + 1) w1"
    by (rule below_commit_all [OF assms(1,2) \<open>below (unat ?sid + 1) (ss_world st)\<close> _ c]) simp
  have "ss_next_session st' = ?sid + 1 \<and> (ss_world st' = w1 \<or> (local_world_ok fr kps pubkeys (ss_world st') \<and> below (unat ?sid + 1) (ss_world st')))"
  proof (cases c)
    case (Inl e)
    then show ?thesis using assms(5) False
      by (auto simp only: try_subset_ceremony_def Let_def c ss_world_simps prod.case sum.case split: if_splits)
  next
    case (Inr cms)
    obtain q w2 where q: "sign_all fr ?sid ?req \<lparr>sp_commitments = cms, sp_message = event_id\<rparr> hs [] w1 = (q, w2)"
      by fastforce
    have ok2: "local_world_ok fr kps pubkeys w2 \<and> below (unat ?sid + 1) w2"
      using below_sign_all [OF assms(1) _ _ q] ok1 by blast
    show ?thesis using assms(5) ok2 False
      by (cases q) (auto simp only: try_subset_ceremony_def Let_def c Inr q ss_world_simps prod.case sum.case
        split: if_splits sum.splits)
  qed
  then show ?thesis using ok1 nxt by auto
qed (use assms in simp)

lemma length_quorum_holders: "length (quorum_holders cv de fr kps down) = length kps"
  by (simp add: quorum_holders_def)

lemma search_finds_pair:
  fixes fr :: "('kp, 'pk, 'nc, 'cm, 'sh) frost"
  assumes honest: "frost_honest fr kps pubkeys"
    and qs: "qs_holders qs = quorum_holders cv de fr kps down" "qs_pubkeys qs = pubkeys"
    and ij: "i < length kps" "j < length kps" "i \<notin> down" "j \<notin> down"
      "identifier_to_u16 (fr_identifier fr (kps ! i)) \<noteq> identifier_to_u16 (fr_identifier fr (kps ! j))"
    and intent: "group_xonly_q cv pubkeys = Inr q" "intent_refusal intent = None"
    and combos: "[i, j] \<in> set combos" "\<forall>c\<in>set combos. set c \<subseteq> {..<length kps}"
    and state: "local_world_ok fr kps pubkeys (ss_world st)" "below (unat (ss_next_session st)) (ss_world st)"
      "unat (ss_next_session st) + length combos < 2 ^ 64"
  shows "\<exists>sig st'. try_subsets fr qs (intent_id de q intent) intent e combos st = (Inr sig, st')"
  using combos state
proof (induction combos arbitrary: st e)
  case (Cons c combos)
  let ?hs = "map (\<lambda>i. qs_holders qs ! i) c"
  have sub: "set ?hs \<subseteq> set (quorum_holders cv de fr kps down)"
    using Cons.prems(2) by (auto simp: qs(1) intro!: nth_mem simp: length_quorum_holders)
  obtain r st1 where step: "try_subset_ceremony fr (qs_pubkeys qs) ?hs (intent_id de q intent) intent st = (r, st1)" by fastforce
  show ?case
  proof (cases r)
    case (Inr sig)
    then show ?thesis unfolding try_subsets.simps Let_def step by simp
  next
    case (Inl err)
    have "c \<noteq> [i, j]"
    proof
      assume "c = [i, j]"
      then have "?hs = [local_holder_at cv de fr (identifier_to_u16 (fr_identifier fr (kps ! i))) i,
          local_holder_at cv de fr (identifier_to_u16 (fr_identifier fr (kps ! j))) j]"
        using ij by (simp add: qs(1) quorum_holders_def)
      then show False
        using pair_ceremony [OF honest Cons.prems(3) ij(1,2,5) Cons.prems(4) intent, of de] step Inl qs(2) by auto
    qed
    then have in_rest: "[i, j] \<in> set combos" using Cons.prems(1) by auto
    have small: "unat (ss_next_session st) + 1 < 2 ^ 64" using Cons.prems(5) by simp
    note st1 = ceremony_state [OF sub Cons.prems(3,4) small step]
    have "unat (ss_next_session st1) + length combos < 2 ^ 64" using st1 Cons.prems(5) by simp
    then show ?thesis
      using Cons.IH [OF in_rest, of st1] Cons.prems(2) st1 unfolding try_subsets.simps Let_def step Inl by simp
  qed
qed simp

lemma signer_returns:
  fixes fr :: "('kp, 'pk, 'nc, 'cm, 'sh) frost"
  assumes "frost_honest fr kps pubkeys" and "group_xonly_q cv pubkeys = Inr (qs_q_bytes qs)"
    and "qs_holders qs = quorum_holders cv de fr kps down" and "qs_pubkeys qs = pubkeys"
    and "i < j" and "j < length kps" and "i \<notin> down" and "j \<notin> down"
    and "identifier_to_u16 (fr_identifier fr (kps ! i)) \<noteq> identifier_to_u16 (fr_identifier fr (kps ! j))"
    and "local_world_ok fr kps pubkeys (ss_world st)" and "below (unat (ss_next_session st)) (ss_world st)"
    and "unat (ss_next_session st) + (length kps choose 2) < 2 ^ 64"
    and "is_authorizable_kind kind"
    and "kind = NOSTR_TEXT_NOTE_KIND \<Longrightarrow> sanitize_note_for_publish content = Inr clean"
    and "kind = KIND_NOSTR_INBOX_RELAYS \<Longrightarrow> inbox_relay_tags_ok tags"
  shows "\<exists>ev st'. sign_nostr_event_with_tags de fr qs kind created_at tags content st = (Inr ev, st')"
proof -
  define signed where "signed = (if kind = NOSTR_TEXT_NOTE_KIND then clean else content)"
  let ?intent = "\<lparr>si_kind = kind, si_created_at = created_at, si_tags = tags, si_content = signed\<rparr>"
  let ?combos = "quorum_subsets (length kps) 2"
  have kinds: "is_signable_kind kind"
    using assms(13) by (simp add: is_signable_kind_def is_authorizable_kind_def kind_defs NOSTR_KIND_TEXT_NOTE_def)
  have clean_note: "(if kind = ucast NOSTR_KIND_TEXT_NOTE then
                (case sanitize_note_for_publish content of
                   Inl reason \<Rightarrow> Inl [''note content refused by the publish guard: '' @ reason]
                 | Inr clean \<Rightarrow> Inr clean)
              else Inr content) = (Inr signed :: anyhow + utext)"
    using assms(14) by (simp add: signed_def NOSTR_TEXT_NOTE_KIND_def NOSTR_KIND_TEXT_NOTE_def)
  have "content_is_clean signed" if "kind = NOSTR_TEXT_NOTE_KIND"
    using sanitized_note [OF assms(14) [OF that]] that by (simp add: signed_def content_is_clean_def sanitize_note_publish)
  then have intent: "intent_refusal ?intent = None"
    using assms(13,15) by (simp add: intent_refusal_def)
  have sub: "quorum_subsets (length kps) 2 = choose_from 0 (length kps) 2"
    using subsets_choose [of "[]" 2 2 "length kps" 0] assms(5,6) by (simp add: quorum_subsets_def)
  have combos: "[i, j] \<in> set ?combos" "\<forall>c\<in>set ?combos. set c \<subseteq> {..<length kps}"
    unfolding sub set_choose using assms(5,6) by auto
  have len: "length ?combos = length kps choose 2"
    unfolding sub using distinct_card [of "choose_from 0 (length kps) 2"] sorted_choose [of 0 "length kps" 2]
      card_choose [of 2 "length kps"] by (simp add: strict_sorted_iff set_choose lessThan_atLeast0)
  have ids: "i < length kps" using assms(5,6) by simp
  obtain sig st' where run: "try_subsets fr qs (intent_id de (qs_q_bytes qs) ?intent) ?intent None ?combos st = (Inr sig, st')"
    using search_finds_pair [OF assms(1,3,4) ids assms(6-9,2) intent combos assms(10,11), of None] assms(12)
    by (auto simp: len)
  have "\<not> length kps < 2" using assms(5,6) by simp
  then show ?thesis
    using run unfolding sign_nostr_event_with_tags_def clean_note
    by (simp add: kinds Let_def MIN_SIGNERS_def length_quorum_holders intent_id_def assms(3))
qed

text \<open>C38: One lost holder does not stop the quorum. If FROST keeps its promises, the group key is derivable, two
  reachable holders have different identifiers, no holder has a nonce of a session still to come and the
  session counter does not run over, then the signer returns an event for every request of an allowed kind
  whose note the publish guard lets through and whose relay list is well formed, however many of the other
  holders do not answer.\<close>

theorem quorum_available:
  fixes fr :: "('kp, 'pk, 'nc, 'cm, 'sh) frost"
  assumes "frost_honest fr kps pubkeys" and "group_xonly_q cv pubkeys = Inr q"
    and "i < j" and "j < length kps" and "i \<notin> down" and "j \<notin> down"
    and "identifier_to_u16 (fr_identifier fr (kps ! i)) \<noteq> identifier_to_u16 (fr_identifier fr (kps ! j))"
    and "local_world_ok fr kps pubkeys (ss_world st)" and "below (unat (ss_next_session st)) (ss_world st)"
    and "unat (ss_next_session st) + (length kps choose 2) < 2 ^ 64"
    and "is_authorizable_kind kind"
    and "kind = NOSTR_TEXT_NOTE_KIND \<Longrightarrow> sanitize_note_for_publish content = Inr clean"
    and "kind = KIND_NOSTR_INBOX_RELAYS \<Longrightarrow> inbox_relay_tags_ok tags"
  shows "\<exists>ev st'. sign_nostr_event_with_tags de fr
      \<lparr>qs_holders = quorum_holders cv de fr kps down, qs_pubkeys = pubkeys, qs_q_bytes = q\<rparr>
      kind created_at tags content st = (Inr ev, st')"
  by (rule signer_returns [where qs = "\<lparr>qs_holders = quorum_holders cv de fr kps down, qs_pubkeys = pubkeys, qs_q_bytes = q\<rparr>"])
    (use assms in simp_all)

text \<open>A sample that refuses a short package, a commitment that is not the nonce's and a missing share.\<close>

definition strict_frost :: "(nat, bytes, nat, nat, nat) frost" where
  "strict_frost = sample_frost
     \<lparr>fr_sign_with_tweak := (\<lambda>package n kp. if length (sp_commitments package) < 2 then Inl ''IncorrectNumberOfCommitments''
        else if tget (sp_commitments package) (sample_id kp) \<noteq> Some n then Inl ''IncorrectCommitment'' else Inr n),
      fr_aggregate_with_tweak := (\<lambda>package shares pubkeys. if tkeys shares \<noteq> tkeys (sp_commitments package) then Inl ''UnknownIdentifier''
        else Inr (replicate 64 CHR ''s''))\<rparr>"

definition sample_signer_state :: "(nat, bytes, nat) holder_world signer_state" where
  "sample_signer_state = \<lparr>ss_next_session = 0, ss_world = \<lparr>hw_draws = 0,
     hw_holders = map (\<lambda>kp. local_holder_new strict_frost kp ''k'') [2, 3, 4]\<rparr>\<rparr>"

lemma tget_member: "distinct (tkeys t) \<Longrightarrow> (k, v) \<in> set t \<Longrightarrow> tget t k = Some v"
  by (induction t k rule: tget.induct) (auto simp: tkeys_def rev_image_eqI)

lemma strict_ids: "fr_identifier strict_frost = sample_id" "fr_try_from strict_frost = fr_try_from sample_frost"
    "fr_commit strict_frost kp k = (k, k)"
  by (simp_all add: strict_frost_def sample_frost_def)

lemma sample_honest: "frost_honest strict_frost [2, 3, 4] ''k''"
proof -
  have "fr_sign_with_tweak strict_frost package d kp = Inr d"
    if "honest_package strict_frost [2, 3, 4] package" "(sample_id kp, d) \<in> set (sp_commitments package)" for package kp d
    using that tget_member [of "sp_commitments package" "sample_id kp" d] by (auto simp: honest_package_def strict_frost_def)
  moreover have "\<forall>kp\<in>set [2, 3, 4]. fr_try_from strict_frost (identifier_to_u16 (sample_id kp)) = Inr (sample_id kp)"
    by (simp add: strict_ids sample_ids sample_frost_def)
  ultimately show ?thesis unfolding frost_honest_def strict_ids by (auto simp: strict_frost_def sample_frost_def)
qed

theorem quorum_available_witness:
  "\<exists>ev st'. sign_nostr_event_with_tags sample_digests strict_frost
      \<lparr>qs_holders = quorum_holders sample_curve sample_digests strict_frost [2, 3, 4] {0}, qs_pubkeys = ''k'', qs_q_bytes = ''Qk''\<rparr>
      13 5 [] [104, 105] sample_signer_state = (Inr ev, st')"
proof (rule quorum_available [where i = 1 and j = 2 and clean = "[]"])
  show "frost_honest strict_frost [2, 3, 4] ''k''" by (rule sample_honest)
  show "group_xonly_q sample_curve ''k'' = Inr ''Qk''" by (simp add: sample_q)
  show "local_world_ok strict_frost [2, 3, 4] ''k'' (ss_world sample_signer_state)"
    unfolding sample_signer_state_def by (simp only: signer_state.select_convs new_world_ok)
  show "below (unat (ss_next_session sample_signer_state)) (ss_world sample_signer_state)"
    by (auto simp: below_def sample_signer_state_def local_holder_new_def)
  show "unat (ss_next_session sample_signer_state) + (length [2 :: nat, 3, 4] choose 2) < 2 ^ 64"
    by (simp add: sample_signer_state_def choose_two)
  show "is_authorizable_kind 13" by (simp add: is_authorizable_kind_def kind_defs)
qed (simp_all add: strict_frost_def sample_frost_def sample_ids kind_defs)


lemma sample_signer: "from_local_key_packages sample_curve sample_digests strict_frost [2, 3, 4] ''k'' 0 =
    Inr (\<lparr>qs_holders = quorum_holders sample_curve sample_digests strict_frost [2, 3, 4] {}, qs_pubkeys = ''k'', qs_q_bytes = ''Qk''\<rparr>,
      sample_signer_state)"
  by (simp add: from_local_key_packages_def quorum_signer_new_def sample_q Let_def quorum_holders_def sample_signer_state_def
    local_holder_new_def upt_rec)

lemma sample_signs: "\<exists>ev st'. sign_nostr_event_with_tags sample_digests strict_frost
      \<lparr>qs_holders = quorum_holders sample_curve sample_digests strict_frost [2, 3, 4] {}, qs_pubkeys = ''k'', qs_q_bytes = ''Qk''\<rparr>
      13 5 [] [104, 105] sample_signer_state = (Inr ev, st')"
proof (rule signer_returns [where i = 1 and j = 2 and clean = "[]" and down = "{}"])
  show "frost_honest strict_frost [2, 3, 4] ''k''" by (rule sample_honest)
  show "local_world_ok strict_frost [2, 3, 4] ''k'' (ss_world sample_signer_state)"
    unfolding sample_signer_state_def by (simp only: signer_state.select_convs new_world_ok)
  show "below (unat (ss_next_session sample_signer_state)) (ss_world sample_signer_state)"
    by (auto simp: below_def sample_signer_state_def local_holder_new_def)
  show "unat (ss_next_session sample_signer_state) + (length [2 :: nat, 3, 4] choose 2) < 2 ^ 64"
    by (simp add: sample_signer_state_def choose_two)
  show "is_authorizable_kind 13" by (simp add: is_authorizable_kind_def kind_defs)
qed (simp_all add: sample_q strict_frost_def sample_frost_def sample_ids kind_defs)

theorem event_rests_on_quorum_witness:
  "\<exists>(ev :: nostr_event) i j sig (st' :: (nat, bytes, nat) holder_world signer_state). ne_pubkey ev = de_hex sample_digests ''Qk'' \<and> ne_content ev = [104, 105] \<and> i < j \<and> j < length [2 :: nat, 3, 4]
    \<and> ne_sig ev = de_hex sample_digests sig
    \<and> quorum_signed sample_curve sample_digests strict_frost [2, 3, 4] ''k'' [i, j] {0..<hw_draws (ss_world st')}
        \<lparr>si_kind = 13, si_created_at = 5, si_tags = [], si_content = [104, 105]\<rparr>
        (nip01_event_id_with_tags sample_digests (de_hex sample_digests ''Qk'') 5 13 [] [104, 105]) sig"
proof -
  let ?qs = "\<lparr>qs_holders = quorum_holders sample_curve sample_digests strict_frost [2, 3, 4] {}, qs_pubkeys = ''k'', qs_q_bytes = ''Qk''\<rparr>"
  obtain ev st' where run: "sign_nostr_event_with_tags sample_digests strict_frost ?qs 13 5 [] [104, 105]
      (sign_run sample_digests strict_frost ?qs [] sample_signer_state) = (Inr ev, st')"
    using sample_signs by auto
  have "hw_draws (ss_world (sign_run sample_digests strict_frost ?qs [] sample_signer_state)) = 0" by (simp add: sample_signer_state_def)
  with event_rests_on_quorum [OF sample_signer run] show ?thesis
    by (intro exI [of _ ev]) (auto simp: sample_q kind_defs, blast)
qed

end
