(* ===== verification/Coordinator.thy ===== *)
theory Coordinator
  imports Remote_Holder
begin

text \<open>
  The custody crate's two drivers of a signing ceremony: the in-process coordinator with its state machine
  (\<open>coordinator.rs\<close>) and the one that exchanges opaque events over a relay adapter, with the in-memory relay
  (\<open>seam.rs\<close>). The texts of foreign errors and of printed identifiers are arguments.
\<close>

section \<open>The in-process coordinator\<close>

datatype session_state = Idle | Round1Collect | PackageReady | Round2Collect | Aggregate | Done | Aborted

datatype sign_error = QuorumUnavailable string | BadShare string | SignDuplicateSigner string
  | InvalidState string | SignInternal string

fun show_state :: "session_state \<Rightarrow> string" where
  "show_state Idle = ''Idle''"
| "show_state Round1Collect = ''Round1Collect''"
| "show_state PackageReady = ''PackageReady''"
| "show_state Round2Collect = ''Round2Collect''"
| "show_state Aggregate = ''Aggregate''"
| "show_state Done = ''Done''"
| "show_state Aborted = ''Aborted''"

text \<open>A dealer's shares as key packages.\<close>

record ('ss, 'pk) dealer_keyset =
  dk_shares :: "(frost_id, 'ss) tree"
  dk_pubkeys :: 'pk

fun key_packages_of :: "('ss \<Rightarrow> string + 'kp) \<Rightarrow> (frost_id, 'ss) tree \<Rightarrow> sign_error + (frost_id, 'kp) tree" where
  "key_packages_of try_from [] = Inr []"
| "key_packages_of try_from ((i, share) # shares) =
     (case try_from share of
        Inl e \<Rightarrow> Inl (SignInternal e)
      | Inr kp \<Rightarrow> (case key_packages_of try_from shares of Inl e \<Rightarrow> Inl e | Inr kps \<Rightarrow> Inr (tinsert i kp kps)))"

definition key_packages :: "('ss \<Rightarrow> string + 'kp) \<Rightarrow> ('ss, 'pk) dealer_keyset \<Rightarrow> sign_error + (frost_id, 'kp) tree" where
  "key_packages try_from keyset = key_packages_of try_from (dk_shares keyset)"

record 'pk coordinator =
  co_pubkeys :: 'pk
  co_min_signers :: u16
  co_state :: session_state

definition coordinator_new :: "'pk \<Rightarrow> u16 \<Rightarrow> 'pk coordinator" where
  "coordinator_new pubkeys min_signers = \<lparr>co_pubkeys = pubkeys, co_min_signers = min_signers, co_state = Idle\<rparr>"

text \<open>The first identifier that occurs again.\<close>

fun first_duplicate :: "frost_id set \<Rightarrow> frost_id list \<Rightarrow> frost_id option" where
  "first_duplicate seen [] = None"
| "first_duplicate seen (i # is) = (if i \<in> seen then Some i else first_duplicate (insert i seen) is)"

fun commit_signers ::
  "('kp, 'pk, 'nc, 'cm, 'sh) frost \<Rightarrow> 'kp list \<Rightarrow> (frost_id, 'nc) tree \<Rightarrow> (frost_id, 'cm) tree \<Rightarrow> nat
     \<Rightarrow> (frost_id, 'nc) tree \<times> (frost_id, 'cm) tree \<times> nat" where
  "commit_signers fr [] nonces commitments draws = (nonces, commitments, draws)"
| "commit_signers fr (kp # kps) nonces commitments draws =
     (let (nonce, commitment) = fr_commit fr kp draws; i = fr_identifier fr kp
      in commit_signers fr kps (tinsert i nonce nonces) (tinsert i commitment commitments) (draws + 1))"

fun round2 ::
  "('kp, 'pk, 'nc, 'cm, 'sh) frost \<Rightarrow> 'cm signing_package \<Rightarrow> 'kp list \<Rightarrow> (frost_id, 'nc) tree \<Rightarrow> (frost_id, 'sh) tree
     \<Rightarrow> sign_error + (frost_id, 'sh) tree" where
  "round2 fr package [] nonces shares = Inr shares"
| "round2 fr package (kp # kps) nonces shares =
     (case tget nonces (fr_identifier fr kp) of
        None \<Rightarrow> Inl (SignInternal ''missing round-1 nonce for a signer (duplicate or internal error)'')
      | Some nonce \<Rightarrow>
          (case fr_sign_with_tweak fr package nonce kp of
             Inl e \<Rightarrow> Inl (BadShare e)
           | Inr share \<Rightarrow> round2 fr package kps (tremove (fr_identifier fr kp) nonces)
               (tinsert (fr_identifier fr kp) share shares)))"

definition coordinator_run ::
  "(frost_id \<Rightarrow> string) \<Rightarrow> ('kp, 'pk, 'nc, 'cm, 'sh) frost \<Rightarrow> 'kp list \<Rightarrow> bytes \<Rightarrow> 'pk coordinator \<Rightarrow> nat
     \<Rightarrow> (sign_error + bytes) \<times> 'pk coordinator \<times> nat" where
  "coordinator_run show_id fr signers message c draws =
     (if co_state c \<noteq> Idle then
        (Inl (InvalidState (''run() already used (state = '' @ show_state (co_state c)
           @ ''); create a new Coordinator per ceremony'')), c, draws)
      else
        let aborted = c\<lparr>co_state := Aborted\<rparr>
        in case first_duplicate {} (map (fr_identifier fr) signers) of
             Some i \<Rightarrow> (Inl (SignDuplicateSigner (''identifier '' @ show_id i @ '' appears more than once'')), aborted, draws)
           | None \<Rightarrow>
               (let (nonces, commitments, draws1) = commit_signers fr signers [] [] draws
                in if length commitments < unat (co_min_signers c) then
                     (Inl (QuorumUnavailable (''sub-threshold: '' @ show_nat (length commitments) @ '' of ''
                        @ show_word (co_min_signers c) @ '' required signers participated'')), aborted, draws1)
                   else
                     let package = \<lparr>sp_commitments = commitments, sp_message = message\<rparr>
                     in case round2 fr package signers nonces [] of
                          Inl e \<Rightarrow> (Inl e, aborted, draws1)
                        | Inr shares \<Rightarrow>
                            (case fr_aggregate_with_tweak fr package shares (co_pubkeys c) of
                               Inl e \<Rightarrow> (Inl (QuorumUnavailable e), aborted, draws1)
                             | Inr group_sig \<Rightarrow>
                                 (case fr_signature_serialize fr group_sig of
                                    Inl e \<Rightarrow> (Inl (SignInternal e), aborted, draws1)
                                  | Inr sig \<Rightarrow>
                                      if length sig = 64 then (Inr sig, c\<lparr>co_state := Done\<rparr>, draws1)
                                      else (Inl (SignInternal (''expected a 64-byte BIP-340 signature, got ''
                                              @ show_nat (length sig) @ '' bytes'')), aborted, draws1)))))"

section \<open>The relay seam\<close>

datatype transport_error = Unreachable string | Closed

text \<open>An endpoint acts on the state of its carrier.\<close>

record 's adapter =
  ad_send :: "frost_id \<Rightarrow> cosign_event \<Rightarrow> 's \<Rightarrow> (transport_error + unit) \<times> 's"
  ad_recv :: "'s \<Rightarrow> (transport_error + frost_id \<times> cosign_event) \<times> 's"

type_synonym bus = "(frost_id, cosign_event list) tree"

definition relay_new :: bus where "relay_new = []"

definition relay_endpoint :: "frost_id \<Rightarrow> bus \<Rightarrow> bus" where
  "relay_endpoint me bus = (case tget bus me of None \<Rightarrow> tinsert me [] bus | Some q \<Rightarrow> bus)"

definition in_memory_adapter :: "(frost_id \<Rightarrow> string) \<Rightarrow> frost_id \<Rightarrow> bus adapter" where
  "in_memory_adapter show_id me =
     \<lparr>ad_send = (\<lambda>dest event bus.
        (case tget bus dest of
           Some inbox \<Rightarrow> (Inr (), tinsert dest (inbox @ [event]) bus)
         | None \<Rightarrow> (Inl (Unreachable (''no endpoint registered for '' @ show_id dest)), bus))),
      ad_recv = (\<lambda>bus.
        (case tget bus me of
           Some (e # es) \<Rightarrow> (Inr (ce_from e, e), tinsert me es bus)
         | _ \<Rightarrow> (Inl Closed, bus)))\<rparr>"

text \<open>The JSON of the three payloads, and how errors are printed.\<close>

record ('cm, 'sh) seam_codec =
  sc_enc_commitment :: "'cm \<Rightarrow> string + bytes"
  sc_dec_commitment :: "bytes \<Rightarrow> string + 'cm"
  sc_enc_package :: "'cm signing_package \<Rightarrow> string + bytes"
  sc_dec_package :: "bytes \<Rightarrow> string + 'cm signing_package"
  sc_enc_share :: "'sh \<Rightarrow> string + bytes"
  sc_dec_share :: "bytes \<Rightarrow> string + 'sh"
  sc_show_transport :: "transport_error \<Rightarrow> string"
  sc_show_id :: "frost_id \<Rightarrow> string"

definition transport_err :: "('cm, 'sh) seam_codec \<Rightarrow> transport_error \<Rightarrow> sign_error" where
  "transport_err sc e = QuorumUnavailable (''transport: '' @ sc_show_transport sc e)"

definition codec_err :: "string \<Rightarrow> string \<Rightarrow> sign_error" where
  "codec_err ctxt e = SignInternal (ctxt @ '': '' @ e)"

fun seam_commit ::
  "('cm, 'sh) seam_codec \<Rightarrow> ('kp, 'pk, 'nc, 'cm, 'sh) frost \<Rightarrow> frost_id \<Rightarrow> u64 \<Rightarrow> (frost_id \<times> 's adapter \<times> 'kp) list
     \<Rightarrow> (frost_id, 'nc) tree \<Rightarrow> nat \<Rightarrow> 's \<Rightarrow> (sign_error + (frost_id, 'nc) tree) \<times> nat \<times> 's" where
  "seam_commit sc fr coord sid [] nonces draws s = (Inr nonces, draws, s)"
| "seam_commit sc fr coord sid ((i, ep, kp) # signers) nonces draws s =
     (let (nonce, commitments) = fr_commit fr kp draws; nonces1 = tinsert i nonce nonces
      in case sc_enc_commitment sc commitments of
           Inl e \<Rightarrow> (Inl (codec_err ''commitment'' e), draws + 1, s)
         | Inr payload \<Rightarrow>
             (case ad_send ep coord \<lparr>ce_session_id = sid, ce_from = i, ce_round = ROUND_COMMITMENT, ce_payload = payload\<rparr> s of
                (Inl e, s1) \<Rightarrow> (Inl (transport_err sc e), draws + 1, s1)
              | (Inr _, s1) \<Rightarrow> seam_commit sc fr coord sid signers nonces1 (draws + 1) s1))"

text \<open>The coordinator collects so many events of a round and decodes each payload.\<close>

fun seam_collect ::
  "('cm, 'sh) seam_codec \<Rightarrow> (bytes \<Rightarrow> string + 'x) \<Rightarrow> string \<Rightarrow> string \<Rightarrow> 's adapter \<Rightarrow> u64 \<Rightarrow> u8 \<Rightarrow> nat
     \<Rightarrow> (frost_id, 'x) tree \<Rightarrow> 's \<Rightarrow> (sign_error + (frost_id, 'x) tree) \<times> 's" where
  "seam_collect sc dec name rnd_name co sid rnd 0 acc s = (Inr acc, s)"
| "seam_collect sc dec name rnd_name co sid rnd (Suc n) acc s =
     (case ad_recv co s of
        (Inl e, s1) \<Rightarrow> (Inl (transport_err sc e), s1)
      | (Inr (src, event), s1) \<Rightarrow>
          if ce_session_id event \<noteq> sid \<or> ce_round event \<noteq> rnd then
            (Inl (QuorumUnavailable (''unexpected '' @ rnd_name @ '' event (session '' @ show_word (ce_session_id event)
               @ '', round '' @ show_word (ce_round event) @ '')'')), s1)
          else
            (case dec (ce_payload event) of
               Inl e \<Rightarrow> (Inl (codec_err (name @ '' decode'') e), s1)
             | Inr x \<Rightarrow> seam_collect sc dec name rnd_name co sid rnd n (tinsert src x acc) s1))"

fun seam_fan_out ::
  "('cm, 'sh) seam_codec \<Rightarrow> 's adapter \<Rightarrow> frost_id \<Rightarrow> u64 \<Rightarrow> bytes \<Rightarrow> frost_id list \<Rightarrow> 's \<Rightarrow> (sign_error + unit) \<times> 's" where
  "seam_fan_out sc co coord sid payload [] s = (Inr (), s)"
| "seam_fan_out sc co coord sid payload (i # is) s =
     (case ad_send co i \<lparr>ce_session_id = sid, ce_from = coord, ce_round = ROUND_PACKAGE, ce_payload = payload\<rparr> s of
        (Inl e, s1) \<Rightarrow> (Inl (transport_err sc e), s1)
      | (Inr _, s1) \<Rightarrow> seam_fan_out sc co coord sid payload is s1)"

fun seam_sign ::
  "('cm, 'sh) seam_codec \<Rightarrow> ('kp, 'pk, 'nc, 'cm, 'sh) frost \<Rightarrow> frost_id \<Rightarrow> u64 \<Rightarrow> (frost_id \<times> 's adapter \<times> 'kp) list
     \<Rightarrow> (frost_id, 'nc) tree \<Rightarrow> 's \<Rightarrow> (sign_error + unit) \<times> 's" where
  "seam_sign sc fr coord sid [] nonces s = (Inr (), s)"
| "seam_sign sc fr coord sid ((i, ep, kp) # signers) nonces s =
     (case ad_recv ep s of
        (Inl e, s1) \<Rightarrow> (Inl (transport_err sc e), s1)
      | (Inr (src, event), s1) \<Rightarrow>
          if ce_session_id event \<noteq> sid \<or> ce_round event \<noteq> ROUND_PACKAGE then
            (Inl (QuorumUnavailable (''unexpected package event (session '' @ show_word (ce_session_id event)
               @ '', round '' @ show_word (ce_round event) @ '')'')), s1)
          else
            (case sc_dec_package sc (ce_payload event) of
               Inl e \<Rightarrow> (Inl (codec_err ''package decode'' e), s1)
             | Inr package \<Rightarrow>
                 (case tget nonces i of
                    None \<Rightarrow> (Inl (SignInternal ''missing local nonce for a signer (duplicate or internal error)''), s1)
                  | Some nonce \<Rightarrow>
                      (case fr_sign_with_tweak fr package nonce kp of
                         Inl e \<Rightarrow> (Inl (BadShare e), s1)
                       | Inr share \<Rightarrow>
                           (case sc_enc_share sc share of
                              Inl e \<Rightarrow> (Inl (codec_err ''share'' e), s1)
                            | Inr payload \<Rightarrow>
                                (case ad_send ep coord \<lparr>ce_session_id = sid, ce_from = i, ce_round = ROUND_SHARE, ce_payload = payload\<rparr> s1 of
                                   (Inl e, s2) \<Rightarrow> (Inl (transport_err sc e), s2)
                                 | (Inr _, s2) \<Rightarrow> seam_sign sc fr coord sid signers (tremove i nonces) s2))))))"

definition coordinate_over_seam ::
  "('cm, 'sh) seam_codec \<Rightarrow> ('kp, 'pk, 'nc, 'cm, 'sh) frost \<Rightarrow> frost_id \<Rightarrow> 's adapter \<Rightarrow> (frost_id \<times> 's adapter \<times> 'kp) list
     \<Rightarrow> 'pk \<Rightarrow> bytes \<Rightarrow> u64 \<Rightarrow> nat \<Rightarrow> 's \<Rightarrow> (sign_error + bytes) \<times> nat \<times> 's" where
  "coordinate_over_seam sc fr coord co signers pubkeys message sid draws s =
     (case first_duplicate {} (map fst signers) of
        Some i \<Rightarrow> (Inl (SignDuplicateSigner (''identifier '' @ sc_show_id sc i @ '' appears more than once in the quorum'')), draws, s)
      | None \<Rightarrow>
          (case seam_commit sc fr coord sid signers [] draws s of
             (Inl e, d, s1) \<Rightarrow> (Inl e, d, s1)
           | (Inr nonces, d, s1) \<Rightarrow>
               (case seam_collect sc (sc_dec_commitment sc) ''commitment'' ''round-1'' co sid ROUND_COMMITMENT (length signers) [] s1 of
                  (Inl e, s2) \<Rightarrow> (Inl e, d, s2)
                | (Inr commitments, s2) \<Rightarrow>
                    (let package = \<lparr>sp_commitments = commitments, sp_message = message\<rparr>
                     in case sc_enc_package sc package of
                          Inl e \<Rightarrow> (Inl (codec_err ''package'' e), d, s2)
                        | Inr payload \<Rightarrow>
                            (case seam_fan_out sc co coord sid payload (map fst signers) s2 of
                               (Inl e, s3) \<Rightarrow> (Inl e, d, s3)
                             | (Inr _, s3) \<Rightarrow>
                                 (case seam_sign sc fr coord sid signers nonces s3 of
                                    (Inl e, s4) \<Rightarrow> (Inl e, d, s4)
                                  | (Inr _, s4) \<Rightarrow>
                                      (case seam_collect sc (sc_dec_share sc) ''share'' ''round-2'' co sid ROUND_SHARE (length signers) [] s4 of
                                         (Inl e, s5) \<Rightarrow> (Inl e, d, s5)
                                       | (Inr shares, s5) \<Rightarrow>
                                           (case fr_aggregate_with_tweak fr package shares pubkeys of
                                              Inl e \<Rightarrow> (Inl (QuorumUnavailable e), d, s5)
                                            | Inr group_sig \<Rightarrow>
                                                (case fr_signature_serialize fr group_sig of
                                                   Inl e \<Rightarrow> (Inl (codec_err ''signature'' e), d, s5)
                                                 | Inr sig \<Rightarrow>
                                                     if length sig = 64 then (Inr sig, d, s5)
                                                     else (Inl (SignInternal (''expected 64-byte signature, got ''
                                                             @ show_nat (length sig))), d, s5))))))))))"

end
