(* ===== verification/Coordinator_Props.thy ===== *)
theory Coordinator_Props
  imports Coordinator Quorum_Props
begin

text \<open>
  One coordinator drives one ceremony and ends in a terminal state; a signature rests on distinct signers, one
  package and a fresh nonce each.
\<close>

lemma first_duplicate_None: "first_duplicate seen is = None \<longleftrightarrow> distinct is \<and> set is \<inter> seen = {}"
  by (induction seen "is" rule: first_duplicate.induct) auto

lemma commit_signers_ok: "tree_ok N \<Longrightarrow> tree_ok C \<Longrightarrow> commit_signers fr kps N C d = (N', C', d') \<Longrightarrow>
    tree_ok N' \<and> tree_ok C' \<and> d' = d + length kps
    \<and> fst ` set C' = fst ` set C \<union> fr_identifier fr ` set kps"
  by (induction fr kps N C d rule: commit_signers.induct)
    (auto simp: Let_def keys_tinsert split: prod.splits)

lemma commit_signers_other: "tree_ok N \<Longrightarrow> tree_ok C \<Longrightarrow> commit_signers fr kps N C d = (N', C', d') \<Longrightarrow>
    i \<notin> fr_identifier fr ` set kps \<Longrightarrow> tget N' i = tget N i \<and> tget C' i = tget C i"
  by (induction fr kps N C d rule: commit_signers.induct) (auto simp: Let_def split: prod.splits)

lemma commit_signers_drawn: "tree_ok N \<Longrightarrow> tree_ok C \<Longrightarrow> commit_signers fr kps N C d = (N', C', d') \<Longrightarrow>
    distinct (map (fr_identifier fr) kps) \<Longrightarrow> k < length kps \<Longrightarrow>
    tget N' (fr_identifier fr (kps ! k)) = Some (fst (fr_commit fr (kps ! k) (d + k)))
    \<and> tget C' (fr_identifier fr (kps ! k)) = Some (snd (fr_commit fr (kps ! k) (d + k)))"
proof (induction fr kps N C d arbitrary: k rule: commit_signers.induct)
  case (2 fr kp kps nonces commitments draws)
  obtain n c where nc: "fr_commit fr kp draws = (n, c)" by fastforce
  let ?N = "tinsert (fr_identifier fr kp) n nonces" and ?C = "tinsert (fr_identifier fr kp) c commitments"
  have run: "commit_signers fr kps ?N ?C (draws + 1) = (N', C', d')"
    using "2.prems"(3) by (simp add: nc Let_def)
  have ok: "tree_ok ?N" "tree_ok ?C" using "2.prems"(1,2) by simp_all
  show ?case
  proof (cases k)
    case 0
    then show ?thesis using commit_signers_other [OF ok run, of "fr_identifier fr kp"] "2.prems"(1,2,4) by (auto simp: nc)
  next
    case (Suc m)
    then show ?thesis using "2.IH" [OF refl nc [symmetric] refl ok run, of m] "2.prems"(4,5) by simp
  qed
qed simp

lemma round2_shares: "round2 fr package kps N S = Inr S' \<Longrightarrow> tree_ok N \<Longrightarrow> tree_ok S \<Longrightarrow>
    distinct (map (fr_identifier fr) kps) \<Longrightarrow>
    tree_ok S' \<and> (\<forall>i. i \<notin> fr_identifier fr ` set kps \<longrightarrow> tget S' i = tget S i)
    \<and> (\<forall>kp\<in>set kps. \<exists>n share. tget N (fr_identifier fr kp) = Some n
         \<and> fr_sign_with_tweak fr package n kp = Inr share \<and> tget S' (fr_identifier fr kp) = Some share)"
proof (induction fr package kps N S rule: round2.induct)
  case (2 fr package kp kps N S)
  let ?i = "fr_identifier fr kp"
  obtain n share where n: "tget N ?i = Some n" and share: "fr_sign_with_tweak fr package n kp = Inr share"
    and rec: "round2 fr package kps (tremove ?i N) (tinsert ?i share S) = Inr S'"
    using "2.prems"(1) by (auto split: option.splits sum.splits)
  have new: "?i \<notin> fr_identifier fr ` set kps" using "2.prems"(4) by simp
  have ok: "tree_ok (tremove ?i N)" "tree_ok (tinsert ?i share S)" using "2.prems"(2,3) by simp_all
  have "distinct (map (fr_identifier fr) kps)" using "2.prems"(4) by simp
  note IH = "2.IH" [OF n share rec ok this]
  have "\<exists>n share. tget N (fr_identifier fr k) = Some n \<and> fr_sign_with_tweak fr package n k = Inr share
      \<and> tget S' (fr_identifier fr k) = Some share" if "k \<in> set kps" for k
  proof -
    have "fr_identifier fr k \<noteq> ?i" using new that by (metis image_eqI)
    then show ?thesis using IH that "2.prems"(2) by force
  qed
  moreover have "tget S' ?i = Some share" using IH new "2.prems"(3) by simp
  ultimately show ?case using IH n share "2.prems"(3) by auto
qed simp

text \<open>A coordinator drives one ceremony. A coordinator that was used answers that it was and does not change;
  a fresh one ends Done with a signature or Aborted with an error. A signature of 64 bytes comes from distinct
  signers, at least the threshold, each of which signed the one package, whose message is the request's and
  whose signers are exactly these, with the nonce of its own draw of randomness.\<close>

theorem coordinator_exact:
  assumes "coordinator_run show_id fr signers message c draws = (r, c', draws')"
  shows "(co_state c \<noteq> Idle \<longrightarrow> c' = c \<and> draws' = draws \<and> (\<exists>e. r = Inl (InvalidState e)))
    \<and> (co_state c = Idle \<longrightarrow> co_state c' = (case r of Inr _ \<Rightarrow> Done | Inl _ \<Rightarrow> Aborted))
    \<and> (\<forall>sig. r = Inr sig \<longrightarrow> length sig = 64 \<and> distinct (map (fr_identifier fr) signers)
        \<and> unat (co_min_signers c) \<le> length signers \<and> draws' = draws + length signers
        \<and> (\<exists>package shares g. sp_message package = message
            \<and> set (tkeys (sp_commitments package)) = fr_identifier fr ` set signers
            \<and> (\<forall>k<length signers. \<exists>share. tget shares (fr_identifier fr (signers ! k)) = Some share
                 \<and> fr_sign_with_tweak fr package (fst (fr_commit fr (signers ! k) (draws + k))) (signers ! k) = Inr share)
            \<and> fr_aggregate_with_tweak fr package shares (co_pubkeys c) = Inr g \<and> fr_signature_serialize fr g = Inr sig))"
proof (cases "co_state c = Idle \<and> first_duplicate {} (map (fr_identifier fr) signers) = None")
  case False
  then show ?thesis using assms by (auto simp: coordinator_run_def Let_def split: if_splits option.splits)
next
  case True
  then have distinct: "distinct (map (fr_identifier fr) signers)" by (simp add: first_duplicate_None)
  obtain N C d where commits: "commit_signers fr signers [] [] draws = (N, C, d)" by (cases "commit_signers fr signers [] [] draws")
  note ok = commit_signers_ok [OF tree_ok_Nil tree_ok_Nil commits]
  note drawn = commit_signers_drawn [OF tree_ok_Nil tree_ok_Nil commits distinct]
  have keys: "set (tkeys C) = fr_identifier fr ` set signers" using ok by (simp add: tkeys_def)
  have "length C = card (set (map fst C))" using ok tree_ok_distinct [of C] distinct_card [of "map fst C"] by simp
  also have "\<dots> = length signers" using keys distinct distinct_card [OF distinct] by (simp add: tkeys_def)
  finally have len: "length C = length signers" .
  let ?package = "\<lparr>sp_commitments = C, sp_message = message\<rparr>"
  show ?thesis
  proof (cases r)
    case (Inl e)
    then show ?thesis using assms True
      by (auto simp: coordinator_run_def Let_def commits split: if_splits sum.splits)
  next
    case (Inr sig)
    then obtain shares g where run: "round2 fr ?package signers N [] = Inr shares" "d = draws'" "length sig = 64"
      "fr_aggregate_with_tweak fr ?package shares (co_pubkeys c) = Inr g" "fr_signature_serialize fr g = Inr sig"
      "unat (co_min_signers c) \<le> length C" "co_state c' = Done"
      using assms True by (auto simp: coordinator_run_def Let_def commits split: if_splits sum.splits)
    have tree: "tree_ok N" using ok by simp
    have "\<exists>share. tget shares (fr_identifier fr (signers ! k)) = Some share
        \<and> fr_sign_with_tweak fr ?package (fst (fr_commit fr (signers ! k) (draws + k))) (signers ! k) = Inr share"
      if "k < length signers" for k
      using round2_shares [OF run(1) tree tree_ok_Nil distinct] drawn [OF that] nth_mem [OF that] by fastforce
    then have "\<exists>package shares g. sp_message package = message
            \<and> set (tkeys (sp_commitments package)) = fr_identifier fr ` set signers
            \<and> (\<forall>k<length signers. \<exists>share. tget shares (fr_identifier fr (signers ! k)) = Some share
                 \<and> fr_sign_with_tweak fr package (fst (fr_commit fr (signers ! k) (draws + k))) (signers ! k) = Inr share)
            \<and> fr_aggregate_with_tweak fr package shares (co_pubkeys c) = Inr g \<and> fr_signature_serialize fr g = Inr sig"
      using run(4,5) keys by (intro exI [of _ ?package] exI [of _ shares] exI [of _ g]) simp
    then show ?thesis using True Inr run distinct ok len by auto
  qed
qed

lemma sample_run: "coordinator_run id sample_frost [2, 3] ''m'' (coordinator_new ''k'' 2) 0 =
    (Inr (replicate 64 CHR ''s''), (coordinator_new ''k'' 2)\<lparr>co_state := Done\<rparr>, 2)"
proof -
  have "sample_id 2 < sample_id 3" by code_simp
  then show ?thesis
    by (auto simp: coordinator_run_def coordinator_new_def sample_frost_def Let_def)
qed

theorem coordinator_exact_witness:
  "distinct (map (fr_identifier sample_frost) [2, 3])
   \<and> co_state ((coordinator_new ''k'' 2)\<lparr>co_state := Done\<rparr>) = Done"
  using coordinator_exact [OF sample_run, THEN conjunct2, THEN conjunct2, rule_format, OF refl]
    coordinator_exact [OF sample_run, THEN conjunct2, THEN conjunct1, rule_format]
  by (simp add: coordinator_new_def)

end
