(* ===== verification/Keyset_Store.thy ===== *)
theory Keyset_Store
  imports Coordinator
begin

text \<open>
  Keysets at rest and their renewal (\<open>persist.rs\<close> and \<open>reshare.rs\<close> of the custody crate). A file system maps
  paths to a mode and content; a write stops at any of its steps. The serializations of the FROST crate,
  hex, JSON and the refresh itself are arguments.
\<close>

section \<open>Owner-only, atomic writes\<close>

record fs_file =
  ff_mode :: nat
  ff_data :: bytes

type_synonym file_system = "string \<Rightarrow> fs_file option"

record fpath =
  fp_path :: string
  fp_parent :: "string option"
  fp_file_name :: "string option"

text \<open>Which step of a write fails, if any; a write may fail after some of its bytes.\<close>

datatype write_fault = No_fault | Fault_open | Fault_perm | Fault_write nat | Fault_sync | Fault_rename

definition set_owner_only :: "string \<Rightarrow> file_system \<Rightarrow> file_system" where
  "set_owner_only p fs = fs(p := map_option (\<lambda>f. f\<lparr>ff_mode := 384\<rparr>) (fs p))"

definition open_tmp :: "string \<Rightarrow> file_system \<Rightarrow> file_system" where
  "open_tmp p fs = fs(p \<mapsto> (case fs p of None \<Rightarrow> \<lparr>ff_mode = 384, ff_data = []\<rparr> | Some f \<Rightarrow> f\<lparr>ff_data := []\<rparr>))"

definition put_data :: "string \<Rightarrow> bytes \<Rightarrow> file_system \<Rightarrow> file_system" where
  "put_data p d fs = fs(p := map_option (\<lambda>f. f\<lparr>ff_data := d\<rparr>) (fs p))"

definition tmp_path :: "fpath \<Rightarrow> string \<Rightarrow> string" where
  "tmp_path path file_name =
     (let dir = (case fp_parent path of Some d \<Rightarrow> if d = [] then ''.'' else d | None \<Rightarrow> ''.'')
      in dir @ ''/.'' @ file_name @ ''.tmp'')"

definition write_owner_only_atomic ::
  "write_fault \<Rightarrow> fpath \<Rightarrow> bytes \<Rightarrow> file_system \<Rightarrow> (string + unit) \<times> file_system" where
  "write_owner_only_atomic fault path data fs =
     (case fp_file_name path of
        None \<Rightarrow> (Inl ''path has no file name'', fs)
      | Some file_name \<Rightarrow>
          (let tmp = tmp_path path file_name
           in if fault = Fault_open then (Inl ''open'', fs)
              else let fs1 = open_tmp tmp fs
              in if fault = Fault_perm then (Inl ''set_permissions'', fs1)
                 else let fs2 = set_owner_only tmp fs1
                 in case fault of
                      Fault_write n \<Rightarrow> (Inl ''write'', put_data tmp (take n data) fs2)
                    | Fault_sync \<Rightarrow> (Inl ''sync'', put_data tmp data fs2)
                    | Fault_rename \<Rightarrow> (Inl ''rename'', put_data tmp data fs2)
                    | _ \<Rightarrow> let fs3 = put_data tmp data fs2
                          in (Inr (), (fs3(fp_path path := fs3 tmp))(tmp := if tmp = fp_path path then fs3 tmp else None))))"

section \<open>The dealer's keyset\<close>

record ('ss, 'pk) keyset_codec =
  kc_enc_pubkeys :: "'pk \<Rightarrow> string + bytes"
  kc_dec_pubkeys :: "bytes \<Rightarrow> string + 'pk"
  kc_enc_share :: "'ss \<Rightarrow> string + bytes"
  kc_dec_share :: "bytes \<Rightarrow> string + 'ss"
  kc_share_identifier :: "'ss \<Rightarrow> frost_id"
  kc_hex_encode :: "bytes \<Rightarrow> string"
  kc_hex_decode :: "string \<Rightarrow> string + bytes"
  kc_to_json :: "string \<times> string list \<Rightarrow> string + bytes"
  kc_from_json :: "bytes \<Rightarrow> string + string \<times> string list"

fun hex_all :: "(bytes \<Rightarrow> string) \<Rightarrow> ('x \<Rightarrow> string + bytes) \<Rightarrow> 'x list \<Rightarrow> string + string list" where
  "hex_all hex enc [] = Inr []"
| "hex_all hex enc (x # xs) =
     (case enc x of Inl e \<Rightarrow> Inl e
      | Inr b \<Rightarrow> (case hex_all hex enc xs of Inl e \<Rightarrow> Inl e | Inr hs \<Rightarrow> Inr (hex b # hs)))"

fun unhex_all ::
  "(string \<Rightarrow> string + bytes) \<Rightarrow> (bytes \<Rightarrow> string + 'x) \<Rightarrow> ('x \<Rightarrow> frost_id) \<Rightarrow> string list \<Rightarrow> (frost_id, 'x) tree
     \<Rightarrow> string + (frost_id, 'x) tree" where
  "unhex_all unhex dec ident [] t = Inr t"
| "unhex_all unhex dec ident (h # hs) t =
     (case unhex h of Inl e \<Rightarrow> Inl e
      | Inr b \<Rightarrow> (case dec b of Inl e \<Rightarrow> Inl e | Inr x \<Rightarrow> unhex_all unhex dec ident hs (tinsert (ident x) x t)))"

definition save_keyset ::
  "('ss, 'pk) keyset_codec \<Rightarrow> write_fault \<Rightarrow> ('ss, 'pk) dealer_keyset \<Rightarrow> fpath \<Rightarrow> file_system \<Rightarrow> (string + unit) \<times> file_system" where
  "save_keyset kc fault keyset path fs =
     (case kc_enc_pubkeys kc (dk_pubkeys keyset) of
        Inl e \<Rightarrow> (Inl e, fs)
      | Inr pk \<Rightarrow>
          (case hex_all (kc_hex_encode kc) (kc_enc_share kc) (tvals (dk_shares keyset)) of
             Inl e \<Rightarrow> (Inl e, fs)
           | Inr shares \<Rightarrow>
               (case kc_to_json kc (kc_hex_encode kc pk, shares) of
                  Inl e \<Rightarrow> (Inl e, fs)
                | Inr data \<Rightarrow> write_owner_only_atomic fault path data fs)))"

definition decode_keyset ::
  "('ss, 'pk) keyset_codec \<Rightarrow> bytes \<Rightarrow> string + 'pk \<times> (frost_id, 'ss) tree" where
  "decode_keyset kc bytes =
     (case kc_from_json kc bytes of
        Inl e \<Rightarrow> Inl e
      | Inr (pubkeys, shares) \<Rightarrow>
          (case kc_hex_decode kc pubkeys of
             Inl e \<Rightarrow> Inl e
           | Inr b \<Rightarrow>
               (case kc_dec_pubkeys kc b of
                  Inl e \<Rightarrow> Inl e
                | Inr pk \<Rightarrow>
                    (case unhex_all (kc_hex_decode kc) (kc_dec_share kc) (kc_share_identifier kc) shares [] of
                       Inl e \<Rightarrow> Inl e
                     | Inr t \<Rightarrow> Inr (pk, t)))))"

definition load_keyset ::
  "('ss, 'pk) keyset_codec \<Rightarrow> fpath \<Rightarrow> file_system \<Rightarrow> (string + ('ss, 'pk) dealer_keyset) \<times> file_system" where
  "load_keyset kc path fs =
     (let fs1 = (if fs (fp_path path) \<noteq> None then set_owner_only (fp_path path) fs else fs)
      in case fs1 (fp_path path) of
           None \<Rightarrow> (Inl ''no such file'', fs1)
         | Some f \<Rightarrow>
             (case decode_keyset kc (ff_data f) of
                Inl e \<Rightarrow> (Inl e, fs1)
              | Inr (pk, t) \<Rightarrow> (Inr \<lparr>dk_shares = t, dk_pubkeys = pk\<rparr>, fs1)))"

section \<open>Resharing\<close>

text \<open>The FROST crate's refresh: zero shares and the renewed public keys, and the folding of one zero share.\<close>

record ('ss, 'kp, 'pk, 'sig, 'ver, 'vk) refresher =
  rf_members :: "'pk \<Rightarrow> (frost_id, 'ver) tree"
  rf_compute :: "'pk \<Rightarrow> frost_id list \<Rightarrow> nat \<Rightarrow> string + 'ss list \<times> 'pk"
  rf_min_signers :: "'pk \<Rightarrow> u16 option"
  rf_verifying_key :: "'pk \<Rightarrow> 'vk"
  rf_identifier :: "'ss \<Rightarrow> frost_id"
  rf_try_from :: "'ss \<Rightarrow> string + 'kp"
  rf_refresh_share :: "'ss \<Rightarrow> 'kp \<Rightarrow> string + 'kp"
  rf_signing_share :: "'kp \<Rightarrow> 'sig"
  rf_key_package :: "frost_id \<Rightarrow> 'sig \<Rightarrow> 'ver \<Rightarrow> 'vk \<Rightarrow> u16 \<Rightarrow> 'kp"

record ('kp, 'pk) refreshed_keyset =
  rk_key_packages :: "(frost_id, 'kp) tree"
  rk_pubkeys :: 'pk

fun refresh_all ::
  "('ss, 'kp, 'pk, 'sig, 'ver, 'vk) refresher \<Rightarrow> (frost_id, 'ss) tree \<Rightarrow> 'pk \<Rightarrow> u16 \<Rightarrow> 'ss list \<Rightarrow> (frost_id, 'kp) tree
     \<Rightarrow> string + (frost_id, 'kp) tree" where
  "refresh_all rf shares pubkeys min_signers [] kps = Inr kps"
| "refresh_all rf shares pubkeys min_signers (zero_share # rest) kps =
     (let i = rf_identifier rf zero_share
      in case tget shares i of
           None \<Rightarrow> Inl ''refreshing share for an unknown identifier''
         | Some old_share \<Rightarrow>
             (case rf_try_from rf old_share of
                Inl e \<Rightarrow> Inl e
              | Inr old_kp \<Rightarrow>
                  (case rf_refresh_share rf zero_share old_kp of
                     Inl e \<Rightarrow> Inl e
                   | Inr refreshed \<Rightarrow>
                       (case tget (rf_members rf pubkeys) i of
                          None \<Rightarrow> Inl ''refreshed pubkeys missing a verifying share''
                        | Some verifying_share \<Rightarrow>
                            refresh_all rf shares pubkeys min_signers rest
                              (tinsert i (rf_key_package rf i (rf_signing_share rf refreshed) verifying_share
                                 (rf_verifying_key rf pubkeys) min_signers) kps)))))"

definition reshare_same_membership ::
  "('ss, 'kp, 'pk, 'sig, 'ver, 'vk) refresher \<Rightarrow> ('ss, 'pk) dealer_keyset \<Rightarrow> nat \<Rightarrow> string + ('kp, 'pk) refreshed_keyset" where
  "reshare_same_membership rf keyset draws =
     (let group_ids = tkeys (rf_members rf (dk_pubkeys keyset)); share_ids = tkeys (dk_shares keyset)
      in if set share_ids \<noteq> set group_ids then
           Inl (''keyset is truncated or mismatched: '' @ show_nat (length share_ids) @ '' share(s) vs ''
             @ show_nat (length group_ids) @ '' group member(s); refusing to reshare a degraded group'')
         else case rf_compute rf (dk_pubkeys keyset) group_ids draws of
           Inl e \<Rightarrow> Inl e
         | Inr (refreshing_shares, pubkeys) \<Rightarrow>
             (case rf_min_signers rf pubkeys of
                None \<Rightarrow> Inl ''refreshed pubkeys missing min_signers''
              | Some min_signers \<Rightarrow>
                  (case refresh_all rf (dk_shares keyset) pubkeys min_signers refreshing_shares [] of
                     Inl e \<Rightarrow> Inl e
                   | Inr kps \<Rightarrow> Inr \<lparr>rk_key_packages = kps, rk_pubkeys = pubkeys\<rparr>)))"

section \<open>What is at rest\<close>

text \<open>Secret shares reach the disk whole or not at all, and for the owner only. Whatever step of a write fails,
  the file is what it was or holds exactly the new content under mode 0600; no other file but the temporary
  one is touched; whatever the temporary file holds of the new content is for the owner only; and an answer
  of success means the content is there.\<close>

theorem write_atomic:
  assumes "fp_file_name path = Some name" and "tmp_path path name \<noteq> fp_path path"
    and "write_owner_only_atomic fault path data fs = (r, fs')"
  shows "(fs' (fp_path path) = (if r = Inr () then Some \<lparr>ff_mode = 384, ff_data = data\<rparr> else fs (fp_path path)))
    \<and> (r = Inr ()) = (fault = No_fault)
    \<and> (\<forall>p. p \<notin> {fp_path path, tmp_path path name} \<longrightarrow> fs' p = fs p)
    \<and> (case fs' (tmp_path path name) of None \<Rightarrow> True
       | Some f \<Rightarrow> ff_data f = [] \<or> ff_mode f = 384 \<or> fs' (tmp_path path name) = fs (tmp_path path name))"
  using assms
  by (auto simp: write_owner_only_atomic_def Let_def open_tmp_def set_owner_only_def put_data_def
    split: write_fault.splits option.splits if_splits)

definition keyset_codec_ok :: "('ss, 'pk) keyset_codec \<Rightarrow> bool" where
  "keyset_codec_ok kc \<longleftrightarrow>
     (\<forall>pk b. kc_enc_pubkeys kc pk = Inr b \<longrightarrow> kc_dec_pubkeys kc b = Inr pk)
     \<and> (\<forall>s b. kc_enc_share kc s = Inr b \<longrightarrow> kc_dec_share kc b = Inr s)
     \<and> (\<forall>b. kc_hex_decode kc (kc_hex_encode kc b) = Inr b)
     \<and> (\<forall>p b. kc_to_json kc p = Inr b \<longrightarrow> kc_from_json kc b = Inr p)"

lemma tinsert_last: "\<forall>j\<in>fst ` set t. j < k \<Longrightarrow> tinsert k v t = t @ [(k, v)]" for k :: "'k::linorder"
  by (induction k v t rule: tinsert.induct) auto

lemma unhex_hex:
  assumes "keyset_codec_ok kc" and "hex_all (kc_hex_encode kc) (kc_enc_share kc) (map snd u) = Inr hs"
    and "\<forall>(i, s)\<in>set u. kc_share_identifier kc s = i" and "tree_ok (t @ u)"
  shows "unhex_all (kc_hex_decode kc) (kc_dec_share kc) (kc_share_identifier kc) hs t = Inr (t @ u)"
  using assms(2-4)
proof (induction u arbitrary: hs t)
  case (Cons p u)
  obtain i s where p: "p = (i, s)" by (cases p)
  obtain b hs' where b: "kc_enc_share kc s = Inr b" and hs': "hex_all (kc_hex_encode kc) (kc_enc_share kc) (map snd u) = Inr hs'"
    and hs: "hs = kc_hex_encode kc b # hs'"
    using Cons.prems(1) by (auto simp: p split: sum.splits)
  have dec: "kc_dec_share kc b = Inr s" "kc_hex_decode kc (kc_hex_encode kc b) = Inr b"
    using assms(1) b by (simp_all add: keyset_codec_ok_def)
  have last: "tinsert i s t = t @ [(i, s)]"
    using Cons.prems(3) by (intro tinsert_last) (auto simp: p tree_ok_def sorted_wrt_append)
  have "unhex_all (kc_hex_decode kc) (kc_dec_share kc) (kc_share_identifier kc) hs' (t @ [(i, s)]) = Inr ((t @ [(i, s)]) @ u)"
    using Cons.prems(2,3) hs' by (intro Cons.IH) (auto simp: p)
  then show ?case using Cons.prems(2) by (simp add: hs dec p last)
qed simp

text \<open>A keyset comes back as it was. If the serializations decode what they encode and each share names the
  identifier it is filed under, a keyset whose save succeeded loads as the same keyset: the same group key and
  the same share for every guardian; and loading leaves the file as it is.\<close>

theorem keyset_roundtrip:
  assumes "keyset_codec_ok kc" and "tree_ok (dk_shares keyset)"
    and "\<forall>(i, s)\<in>set (dk_shares keyset). kc_share_identifier kc s = i"
    and "fp_file_name path = Some name" and "tmp_path path name \<noteq> fp_path path"
    and "save_keyset kc fault keyset path fs = (Inr (), fs')"
  shows "load_keyset kc path fs' = (Inr keyset, fs')"
proof -
  obtain pk hs data where save: "kc_enc_pubkeys kc (dk_pubkeys keyset) = Inr pk"
    "hex_all (kc_hex_encode kc) (kc_enc_share kc) (tvals (dk_shares keyset)) = Inr hs"
    "kc_to_json kc (kc_hex_encode kc pk, hs) = Inr data"
    "write_owner_only_atomic fault path data fs = (Inr (), fs')"
    using assms(6) by (auto simp: save_keyset_def split: sum.splits)
  have stored: "fs' (fp_path path) = Some \<lparr>ff_mode = 384, ff_data = data\<rparr>"
    using save(4) assms(4,5)
    by (auto simp: write_owner_only_atomic_def Let_def open_tmp_def set_owner_only_def put_data_def
      split: write_fault.splits option.splits if_splits)
  have "decode_keyset kc data = Inr (dk_pubkeys keyset, dk_shares keyset)"
    using assms(1) save(1,3) unhex_hex [OF assms(1), of "dk_shares keyset" hs "[]"] save(2) assms(2,3)
    by (simp add: decode_keyset_def keyset_codec_ok_def tvals_def)
  moreover have "set_owner_only (fp_path path) fs' = fs'"
    by (rule ext) (simp add: set_owner_only_def stored)
  ultimately show ?thesis by (simp add: load_keyset_def stored)
qed

definition refresher_ok :: "('ss, 'kp, 'pk, 'sig, 'ver, 'vk) refresher \<Rightarrow> bool" where
  "refresher_ok rf \<longleftrightarrow> (\<forall>pk ids draws zs pk'. rf_compute rf pk ids draws = Inr (zs, pk') \<longrightarrow>
     map (rf_identifier rf) zs = ids \<and> rf_verifying_key rf pk' = rf_verifying_key rf pk)"

lemma refresh_all_keys: "refresh_all rf shares pk m zs kps = Inr kps' \<Longrightarrow>
    set (tkeys kps') = set (tkeys kps) \<union> rf_identifier rf ` set zs"
  by (induction rf shares pk m zs kps rule: refresh_all.induct)
    (auto simp: Let_def tkeys_def keys_tinsert split: option.splits sum.splits)

text \<open>Resharing never shrinks the group under its address. If the refresh gives one share to each identifier
  it is asked for and keeps the group key, then a renewed keyset has a key package for exactly the members the
  group's public keys name, under the same group key; and a keyset that lost a share, or has one too many, is
  refused.\<close>

theorem reshare_keeps_group:
  assumes "refresher_ok rf" and "reshare_same_membership rf keyset draws = Inr rk"
  shows "set (tkeys (dk_shares keyset)) = set (tkeys (rf_members rf (dk_pubkeys keyset)))
    \<and> set (tkeys (rk_key_packages rk)) = set (tkeys (rf_members rf (dk_pubkeys keyset)))
    \<and> rf_verifying_key rf (rk_pubkeys rk) = rf_verifying_key rf (dk_pubkeys keyset)"
proof -
  obtain zs pk m kps where run: "rf_compute rf (dk_pubkeys keyset) (tkeys (rf_members rf (dk_pubkeys keyset))) draws = Inr (zs, pk)"
    "refresh_all rf (dk_shares keyset) pk m zs [] = Inr kps" "rk = \<lparr>rk_key_packages = kps, rk_pubkeys = pk\<rparr>"
    "set (tkeys (dk_shares keyset)) = set (tkeys (rf_members rf (dk_pubkeys keyset)))"
    using assms(2) by (auto simp: reshare_same_membership_def Let_def split: if_splits sum.splits option.splits)
  have "map (rf_identifier rf) zs = tkeys (rf_members rf (dk_pubkeys keyset))"
    and vk: "rf_verifying_key rf pk = rf_verifying_key rf (dk_pubkeys keyset)"
    using assms(1) run(1) unfolding refresher_ok_def by blast+
  then have "rf_identifier rf ` set zs = set (tkeys (rf_members rf (dk_pubkeys keyset)))"
    by (metis set_map)
  then show ?thesis using run(3,4) vk refresh_all_keys [OF run(2)] by (simp add: tkeys_def)
qed

section \<open>A keyset and codec of the kind assumed\<close>

definition framed :: "string \<Rightarrow> bytes" where
  "framed s = concat (map (\<lambda>c. [CHR ''c'', c]) s) @ ''z''"

fun unframe :: "string \<Rightarrow> bytes \<Rightarrow> string list" where
  "unframe acc [] = []"
| "unframe acc [c] = (if c = CHR ''z'' then [acc] else [])"
| "unframe acc (c # d # r) = (if c = CHR ''z'' then acc # unframe [] (d # r) else unframe (acc @ [d]) r)"

lemma unframe_step: "unframe acc (CHR ''z'' # r) = acc # unframe [] r"
  by (cases r) auto

lemma unframe_framed: "unframe acc (framed s @ r) = (acc @ s) # unframe [] r"
  by (induction s arbitrary: acc) (auto simp: framed_def unframe_step)

lemma unframe_all: "unframe [] (concat (map framed ss)) = ss"
  by (induction ss) (auto simp: unframe_framed)

definition sample_keyset_codec :: "(string, string) keyset_codec" where
  "sample_keyset_codec = \<lparr>kc_enc_pubkeys = Inr, kc_dec_pubkeys = Inr, kc_enc_share = Inr, kc_dec_share = Inr,
     kc_share_identifier = id, kc_hex_encode = id, kc_hex_decode = Inr,
     kc_to_json = (\<lambda>(p, ss). Inr (concat (map framed (p # ss)))),
     kc_from_json = (\<lambda>b. case unframe [] b of [] \<Rightarrow> Inl ''eof'' | p # ss \<Rightarrow> Inr (p, ss))\<rparr>"

lemma sample_keyset_codec_ok: "keyset_codec_ok sample_keyset_codec"
  unfolding keyset_codec_ok_def
  by (auto simp: sample_keyset_codec_def unframe_framed unframe_all simp del: unframe.simps)

definition sample_keyset :: "(string, string) dealer_keyset" where
  "sample_keyset = \<lparr>dk_shares = [(''1'', ''1''), (''2'', ''2'')], dk_pubkeys = ''k''\<rparr>"

definition sample_path :: fpath where
  "sample_path = \<lparr>fp_path = ''d/ks'', fp_parent = Some ''d'', fp_file_name = Some ''ks''\<rparr>"

lemma sample_tmp: "tmp_path sample_path ''ks'' \<noteq> fp_path sample_path"
  by (simp add: tmp_path_def sample_path_def)

theorem write_atomic_witness:
  "snd (write_owner_only_atomic (Fault_write 1) sample_path ''ab'' Map.empty) ''d/ks'' = None
   \<and> snd (write_owner_only_atomic No_fault sample_path ''ab'' Map.empty) ''d/ks'' = Some \<lparr>ff_mode = 384, ff_data = ''ab''\<rparr>"
proof -
  have name: "fp_file_name sample_path = Some ''ks''" and path: "fp_path sample_path = ''d/ks''"
    by (simp_all add: sample_path_def)
  have at: "snd (write_owner_only_atomic fault sample_path ''ab'' Map.empty) ''d/ks'' =
      (if fault = No_fault then Some \<lparr>ff_mode = 384, ff_data = ''ab''\<rparr> else None)" for fault
    using write_atomic [OF name sample_tmp surjective_pairing, of fault "''ab''" Map.empty] by (auto simp: path)
  show ?thesis by (simp add: at)
qed

theorem keyset_roundtrip_witness:
  "\<exists>fs. save_keyset sample_keyset_codec No_fault sample_keyset sample_path Map.empty = (Inr (), fs)
    \<and> load_keyset sample_keyset_codec sample_path fs = (Inr sample_keyset, fs)"
proof -
  obtain fs where save: "save_keyset sample_keyset_codec No_fault sample_keyset sample_path Map.empty = (Inr (), fs)"
    by (simp add: save_keyset_def sample_keyset_codec_def sample_keyset_def tvals_def write_owner_only_atomic_def Let_def sample_path_def)
  have "tree_ok (dk_shares sample_keyset)"
    unfolding sample_keyset_def by code_simp
  then show ?thesis
    using save keyset_roundtrip [OF sample_keyset_codec_ok _ _ _ sample_tmp save]
    by (auto simp: sample_keyset_def sample_keyset_codec_def sample_path_def)
qed

definition sample_refresher :: "(string, string, string, string, unit, string) refresher" where
  "sample_refresher = \<lparr>rf_members = (\<lambda>pk. [(''1'', ()), (''2'', ())]),
     rf_compute = (\<lambda>pk ids draws. Inr (ids, pk)), rf_min_signers = (\<lambda>pk. Some 2), rf_verifying_key = id,
     rf_identifier = id, rf_try_from = Inr, rf_refresh_share = (\<lambda>z kp. Inr (kp @ ''r'')), rf_signing_share = id,
     rf_key_package = (\<lambda>i s v vk m. s)\<rparr>"

theorem reshare_keeps_group_witness:
  "\<exists>rk. reshare_same_membership sample_refresher sample_keyset 0 = Inr rk
    \<and> set (tkeys (rk_key_packages rk)) = {''1'', ''2''} \<and> rf_verifying_key sample_refresher (rk_pubkeys rk) = ''k''"
proof -
  have ok: "refresher_ok sample_refresher" by (auto simp: refresher_ok_def sample_refresher_def)
  obtain rk where run: "reshare_same_membership sample_refresher sample_keyset 0 = Inr rk"
    by (simp add: reshare_same_membership_def sample_refresher_def sample_keyset_def tkeys_def)
  show ?thesis using run reshare_keeps_group [OF ok run]
    by (simp add: sample_refresher_def sample_keyset_def tkeys_def)
qed

end
