(* ===== verification/Hibernate.thy ===== *)
theory Hibernate
  imports Store
begin

text \<open>
  Hibernation at rest: the shared types (\<open>hibernate.rs\<close>), the seed's shares and subkeys (\<open>hibernate/shamir.rs\<close>),
  the sealed bundle and its digest (\<open>hibernate/bundle.rs\<close>) and the share holder with its fencing lease
  (\<open>hibernate/holder.rs\<close>). SHA-256, HKDF, hex and JSON, and the Shamir crate are arguments; text is its UTF-8
  bytes; a path is a directory and a plain file name. A disk counts its operations, and an oracle says which
  of them fail, and where.
\<close>

section \<open>Types\<close>

definition SEAL_THRESHOLD :: u8 where "SEAL_THRESHOLD = 2"
definition SEAL_SHARES :: u8 where "SEAL_SHARES = 3"
definition MASTER_SEED_LEN :: nat where "MASTER_SEED_LEN = 32"
definition IDENTITY_KEY_LEN :: nat where "IDENTITY_KEY_LEN = 32"
definition STATE_KEY_LEN :: nat where "STATE_KEY_LEN = 32"
definition WALLET_SEED_LEN :: nat where "WALLET_SEED_LEN = 64"

record checkpoint_pos =
  cp_sha256 :: string
  cp_len :: u64

record wallet_state =
  ws_balance_sats :: u64
  ws_proofs :: bytes

record state_bundle =
  sb_memory_digest :: string
  sb_wallet_state :: wallet_state
  sb_checkpoint :: checkpoint_pos
  sb_resume_seq :: u64

record share =
  sh_index :: u8
  sh_bytes :: bytes
  sh_epoch :: u64
  sh_commitment :: string

record quorum_lease =
  ql_npub :: string
  ql_resume_seq :: u64
  ql_lease_id :: string
  ql_bundle_digest :: string
  ql_expires_at :: u64
  ql_spawner :: string
  ql_sigs :: "string list"

definition lease_key :: "quorum_lease \<Rightarrow> string \<times> u64" where
  "lease_key l = (ql_npub l, ql_resume_seq l)"

record live_lease =
  ll_lease_id :: string
  ll_expires_at :: u64
  ll_spawner :: string

record release_entry =
  re_lease_id :: string
  re_spawner :: string
  re_released_at :: u64

record watcher_record =
  wr_npub :: string
  wr_epoch :: u64
  wr_bundle_digest :: string
  wr_resume_seq :: u64
  wr_wake_at :: u64
  wr_share_commitment :: string
  wr_active_lease :: "live_lease option"
  wr_history :: "release_entry list"

record seal_block =
  se_holders :: "string list"
  se_threshold :: u8
  se_commitments :: "string list"
  se_epoch :: u64

record wake_request =
  wq_wake_at :: u64
  wq_bundle_digest :: string
  wq_image_ref :: string
  wq_seal :: seal_block
  wq_resume_seq :: u64
  wq_solvency_hint :: u64

record holder_state =
  hs_record :: watcher_record
  hs_share :: share

definition hibernate_dir :: "string \<Rightarrow> string \<Rightarrow> string" where
  "hibernate_dir treasury_dir agent_id = treasury_dir @ ''/hibernate-'' @ agent_id"

section \<open>The environment\<close>

datatype write_step = Ws_create_dir | Ws_create_temp | Ws_write_temp nat | Ws_fsync_temp | Ws_rename
  | Ws_open_dir | Ws_fsync_dir

record hib_env =
  he_sha256 :: "bytes \<Rightarrow> bytes"
  he_hex_encode :: "bytes \<Rightarrow> string"
  he_hkdf :: "bytes \<Rightarrow> bytes \<Rightarrow> nat \<Rightarrow> bytes"
  he_dealer :: "u8 \<Rightarrow> bytes \<Rightarrow> nat \<Rightarrow> nat \<Rightarrow> u8 \<times> bytes"
  he_share_try_from :: "bytes \<Rightarrow> (u8 \<times> bytes) option"
  he_recover :: "u8 \<Rightarrow> (u8 \<times> bytes) list \<Rightarrow> bytes option"
  he_holder_to_json :: "holder_state \<Rightarrow> string + bytes"
  he_holder_from_json :: "bytes \<Rightarrow> string + holder_state"
  he_bundle_to_json :: "state_bundle \<Rightarrow> string + bytes"
  he_bundle_from_json :: "bytes \<Rightarrow> string + state_bundle"
  he_write_fault :: "nat \<Rightarrow> write_step option"
  he_read_fails :: "nat \<Rightarrow> bool"
  he_random :: "nat \<Rightarrow> u64"

type_synonym hpath = "string \<times> string"

record disk =
  dk_files :: "hpath \<Rightarrow> bytes option"
  dk_tick :: nat

definition disk_tick :: "disk \<Rightarrow> disk" where "disk_tick d = d\<lparr>dk_tick := dk_tick d + 1\<rparr>"

definition hex_digit :: "nat \<Rightarrow> char" where "hex_digit n = ''0123456789abcdef'' ! n"

definition to_hex :: "bytes \<Rightarrow> string" where
  "to_hex bs = concat (map (\<lambda>c. [hex_digit (of_char c div 16), hex_digit (of_char c mod 16)]) bs)"

definition temp_path :: "hpath \<Rightarrow> u64 \<Rightarrow> hpath" where
  "temp_path path r = (fst path, ''.'' @ snd path @ ''.tmp.'' @ to_hex (to_be_bytes r))"

text \<open>A fresh owner-only temporary file, written, synced, renamed into place, the directory synced.\<close>

definition write_atomic :: "hib_env \<Rightarrow> hpath \<Rightarrow> bytes \<Rightarrow> disk \<Rightarrow> (string + unit) \<times> disk" where
  "write_atomic env path data d =
     (let tmp = temp_path path (he_random env (dk_tick d)); fault = he_write_fault env (dk_tick d);
          fs = dk_files d; left = (\<lambda>b. (disk_tick d)\<lparr>dk_files := fs(tmp \<mapsto> b)\<rparr>)
      in if fault = Some Ws_create_dir then (Inl ''create-dir'', disk_tick d)
         else if fs tmp \<noteq> None \<or> fault = Some Ws_create_temp then (Inl ''create-temp'', disk_tick d)
         else case fault of
           Some (Ws_write_temp n) \<Rightarrow> (Inl ''write-temp'', left (take n data))
         | Some Ws_fsync_temp \<Rightarrow> (Inl ''fsync-temp'', left data)
         | Some Ws_rename \<Rightarrow> (Inl ''rename'', left data)
         | Some Ws_open_dir \<Rightarrow> (Inl ''open-dir'', (disk_tick d)\<lparr>dk_files := fs(path \<mapsto> data)\<rparr>)
         | Some Ws_fsync_dir \<Rightarrow> (Inl ''fsync-dir'', (disk_tick d)\<lparr>dk_files := fs(path \<mapsto> data)\<rparr>)
         | _ \<Rightarrow> (Inr (), (disk_tick d)\<lparr>dk_files := fs(path \<mapsto> data)\<rparr>))"

definition read_file :: "hib_env \<Rightarrow> hpath \<Rightarrow> disk \<Rightarrow> bytes option \<times> disk" where
  "read_file env path d = (if he_read_fails env (dk_tick d) then None else dk_files d path, disk_tick d)"

section \<open>Shamir shares and subkeys\<close>

datatype shamir_error = NotEnoughShares nat | CorruptShare u8 | DuplicateShareIndex u8 | MalformedShare
  | EpochMismatch | ReconstructionFailed | WrongSeedLen nat

record subkeys =
  sk_identity_key :: bytes
  sk_state_key :: bytes
  sk_wallet_seed :: bytes

definition derive_subkeys :: "hib_env \<Rightarrow> bytes \<Rightarrow> subkeys" where
  "derive_subkeys env seed =
     \<lparr>sk_identity_key = he_hkdf env seed ''kirby-hibernate/v1/identity-key'' IDENTITY_KEY_LEN,
      sk_state_key = he_hkdf env seed ''kirby-hibernate/v1/state-encryption-key'' STATE_KEY_LEN,
      sk_wallet_seed = he_hkdf env seed ''kirby-hibernate/v1/wallet-seed'' WALLET_SEED_LEN\<rparr>"

definition byte_of :: "u8 \<Rightarrow> char" where "byte_of x = char_of (unat x)"

definition of_byte :: "char \<Rightarrow> u8" where "of_byte c = of_nat (of_char c)"

definition share_commitment :: "hib_env \<Rightarrow> u8 \<Rightarrow> u64 \<Rightarrow> bytes \<Rightarrow> string" where
  "share_commitment env share_index seal_epoch share_bytes =
     he_hex_encode env (he_sha256 env
       (''kirby-hibernate/v1/share-commitment'' @ [byte_of share_index] @ rev (to_be_bytes seal_epoch) @ share_bytes))"

definition verify_share :: "hib_env \<Rightarrow> share \<Rightarrow> shamir_error + unit" where
  "verify_share env s =
     (if share_commitment env (sh_index s) (sh_epoch s) (sh_bytes s) \<noteq> sh_commitment s
      then Inl (CorruptShare (sh_index s)) else Inr ())"

text \<open>The Shamir crate serializes a share as its evaluation point followed by its values.\<close>

definition split_seed :: "hib_env \<Rightarrow> bytes \<Rightarrow> u64 \<Rightarrow> nat \<Rightarrow> share list" where
  "split_seed env seed seal_epoch draw =
     map (\<lambda>n. let (x, ys) = he_dealer env SEAL_THRESHOLD seed draw n; raw = byte_of x # ys
               in \<lparr>sh_index = x, sh_bytes = raw, sh_epoch = seal_epoch,
                   sh_commitment = share_commitment env x seal_epoch raw\<rparr>)
       [0..<unat SEAL_SHARES]"

fun combine_check :: "hib_env \<Rightarrow> u64 \<Rightarrow> u8 set \<Rightarrow> share list \<Rightarrow> shamir_error + unit" where
  "combine_check env epoch seen [] = Inr ()"
| "combine_check env epoch seen (s # ss) =
     (if sh_epoch s \<noteq> epoch then Inl EpochMismatch
      else case verify_share env s of
        Inl e \<Rightarrow> Inl e
      | Inr _ \<Rightarrow>
          (case sh_bytes s of
             [] \<Rightarrow> Inl MalformedShare
           | c # _ \<Rightarrow>
               (let point = of_byte c
                in if point = 0 \<or> SEAL_SHARES < point then Inl MalformedShare
                   else if point \<noteq> sh_index s then Inl (CorruptShare (sh_index s))
                   else if point \<in> seen then Inl (DuplicateShareIndex point)
                   else combine_check env epoch (insert point seen) ss)))"

fun try_all :: "('a \<Rightarrow> 'b option) \<Rightarrow> 'a list \<Rightarrow> 'b list option" where
  "try_all f [] = Some []"
| "try_all f (x # xs) = (case f x of None \<Rightarrow> None | Some y \<Rightarrow> map_option ((#) y) (try_all f xs))"

definition combine_shares :: "hib_env \<Rightarrow> share list \<Rightarrow> shamir_error + bytes" where
  "combine_shares env shares =
     (if length shares < unat SEAL_THRESHOLD then Inl (NotEnoughShares (length shares))
      else case combine_check env (sh_epoch (shares ! 0)) {} shares of
        Inl e \<Rightarrow> Inl e
      | Inr _ \<Rightarrow>
          (case try_all (\<lambda>s. he_share_try_from env (sh_bytes s)) shares of
             None \<Rightarrow> Inl MalformedShare
           | Some sss \<Rightarrow>
               (case he_recover env SEAL_THRESHOLD sss of
                  None \<Rightarrow> Inl ReconstructionFailed
                | Some secret \<Rightarrow>
                    if length secret \<noteq> MASTER_SEED_LEN then Inl (WrongSeedLen (length secret)) else Inr secret)))"

section \<open>The sealed bundle\<close>

datatype bundle_error = BundleIo string hpath | BundleSerialize string | BundleDeserialize hpath string
  | DigestMismatch string string

definition push_u64 :: "u64 \<Rightarrow> bytes" where "push_u64 n = to_be_bytes n"

definition push_bytes :: "bytes \<Rightarrow> bytes" where "push_bytes b = push_u64 (of_nat (length b)) @ b"

definition DIGEST_DOMAIN :: bytes where "DIGEST_DOMAIN = ''kirby-hibernate/state-bundle/v1''"

definition canonical_bytes :: "state_bundle \<Rightarrow> bytes" where
  "canonical_bytes b =
     push_bytes DIGEST_DOMAIN @ push_bytes (sb_memory_digest b)
     @ push_u64 (ws_balance_sats (sb_wallet_state b)) @ push_bytes (ws_proofs (sb_wallet_state b))
     @ push_bytes (cp_sha256 (sb_checkpoint b)) @ push_u64 (cp_len (sb_checkpoint b)) @ push_u64 (sb_resume_seq b)"

definition compute_digest :: "hib_env \<Rightarrow> state_bundle \<Rightarrow> string" where
  "compute_digest env b = to_hex (he_sha256 env (canonical_bytes b))"

definition bundle_path :: "string \<Rightarrow> string \<Rightarrow> hpath" where
  "bundle_path treasury_dir agent_id = (hibernate_dir treasury_dir agent_id, ''state-bundle.json'')"

definition bundle_write_atomic :: "hib_env \<Rightarrow> hpath \<Rightarrow> bytes \<Rightarrow> disk \<Rightarrow> (bundle_error + unit) \<times> disk" where
  "bundle_write_atomic env path data d =
     (case write_atomic env path data d of (Inl op, d') \<Rightarrow> (Inl (BundleIo op path), d') | (Inr u, d') \<Rightarrow> (Inr u, d'))"

definition persist_bundle :: "hib_env \<Rightarrow> string \<Rightarrow> string \<Rightarrow> state_bundle \<Rightarrow> disk \<Rightarrow> (bundle_error + string) \<times> disk" where
  "persist_bundle env treasury_dir agent_id b d =
     (let path = bundle_path treasury_dir agent_id
      in case he_bundle_to_json env b of
           Inl e \<Rightarrow> (Inl (BundleSerialize e), d)
         | Inr data \<Rightarrow>
             (case bundle_write_atomic env path data d of
                (Inl e, d') \<Rightarrow> (Inl e, d')
              | (Inr _, d') \<Rightarrow> (Inr (compute_digest env b), d')))"

definition load_bundle :: "hib_env \<Rightarrow> string \<Rightarrow> string \<Rightarrow> string \<Rightarrow> disk \<Rightarrow> (bundle_error + state_bundle) \<times> disk" where
  "load_bundle env treasury_dir agent_id expected_digest d =
     (let path = bundle_path treasury_dir agent_id
      in case read_file env path d of
           (None, d') \<Rightarrow> (Inl (BundleIo ''read'' path), d')
         | (Some data, d') \<Rightarrow>
             (case he_bundle_from_json env data of
                Inl e \<Rightarrow> (Inl (BundleDeserialize path e), d')
              | Inr b \<Rightarrow>
                  (let actual = compute_digest env b
                   in if actual \<noteq> expected_digest then (Inl (DigestMismatch expected_digest actual), d')
                      else (Inr b, d'))))"

section \<open>A share holder\<close>

datatype holder_error = ShareRejected shamir_error | StaleEpoch u64 u64 | NotSealed | AgentMismatch
  | TooEarly u64 u64 | LeaseHeld string string u64 | NotLeaseHolder | HolderLeaseExpired u64 u64 | LeaseMismatch
  | HolderIo string hpath | HolderSerialize string | HolderDeserialize hpath string

record ack =
  ak_holder_id :: string
  ak_npub :: string
  ak_epoch :: u64
  ak_bundle_digest :: string
  ak_share_commitment :: string

record unseal_request =
  ur_npub :: string
  ur_lease_id :: string
  ur_spawner :: string
  ur_ttl_secs :: u64

record share_holder =
  ho_id :: string
  ho_path :: hpath
  ho_state :: "holder_state option"

definition holder_path :: "string \<Rightarrow> string \<Rightarrow> string \<Rightarrow> hpath" where
  "holder_path treasury_dir agent_id holder_id = (hibernate_dir treasury_dir agent_id, holder_id @ ''.holder.json'')"

definition ack_from :: "string \<Rightarrow> watcher_record \<Rightarrow> ack" where
  "ack_from holder_id rec =
     \<lparr>ak_holder_id = holder_id, ak_npub = wr_npub rec, ak_epoch = wr_epoch rec,
      ak_bundle_digest = wr_bundle_digest rec, ak_share_commitment = wr_share_commitment rec\<rparr>"

definition holder_open :: "hib_env \<Rightarrow> string \<Rightarrow> string \<Rightarrow> string \<Rightarrow> disk \<Rightarrow> (holder_error + share_holder) \<times> disk" where
  "holder_open env treasury_dir agent_id holder_id d =
     (let path = holder_path treasury_dir agent_id holder_id
      in if dk_files d path \<noteq> None then
           (case read_file env path d of
              (None, d') \<Rightarrow> (Inl (HolderIo ''read'' path), d')
            | (Some raw, d') \<Rightarrow>
                (case he_holder_from_json env raw of
                   Inl e \<Rightarrow> (Inl (HolderDeserialize path e), d')
                 | Inr st \<Rightarrow> (Inr \<lparr>ho_id = holder_id, ho_path = path, ho_state = Some st\<rparr>, d')))
         else (Inr \<lparr>ho_id = holder_id, ho_path = path, ho_state = None\<rparr>, d))"

definition holder_record :: "share_holder \<Rightarrow> watcher_record option" where
  "holder_record h = map_option hs_record (ho_state h)"

definition is_sealed :: "share_holder \<Rightarrow> bool" where "is_sealed h \<longleftrightarrow> ho_state h \<noteq> None"

definition assent_tag :: "share_holder \<Rightarrow> string" where "assent_tag h = ''holder:'' @ ho_id h"

definition write_state :: "hib_env \<Rightarrow> share_holder \<Rightarrow> holder_state \<Rightarrow> disk \<Rightarrow> (holder_error + unit) \<times> disk" where
  "write_state env h st d =
     (case he_holder_to_json env st of
        Inl e \<Rightarrow> (Inl (HolderSerialize e), d)
      | Inr data \<Rightarrow>
          (case write_atomic env (ho_path h) data d of
             (Inl op, d') \<Rightarrow> (Inl (HolderIo op (ho_path h)), d') | (Inr _, d') \<Rightarrow> (Inr (), d')))"

text \<open>Persist a candidate state, and only then advance to it and answer.\<close>

definition commit_state ::
  "hib_env \<Rightarrow> share_holder \<Rightarrow> holder_state \<Rightarrow> 'a \<Rightarrow> disk \<Rightarrow> (holder_error + 'a) \<times> share_holder \<times> disk" where
  "commit_state env h candidate answer d =
     (case write_state env h candidate d of
        (Inl e, d') \<Rightarrow> (Inl e, h, d')
      | (Inr _, d') \<Rightarrow> (Inr answer, h\<lparr>ho_state := Some candidate\<rparr>, d'))"

definition receive_share ::
  "hib_env \<Rightarrow> share \<Rightarrow> string \<Rightarrow> string \<Rightarrow> u64 \<Rightarrow> u64 \<Rightarrow> share_holder \<Rightarrow> disk \<Rightarrow> (holder_error + ack) \<times> share_holder \<times> disk" where
  "receive_share env s npub bundle_digest resume_seq wake_at h d =
     (case verify_share env s of
        Inl e \<Rightarrow> (Inl (ShareRejected e), h, d)
      | Inr _ \<Rightarrow>
          (let rec = \<lparr>wr_npub = npub, wr_epoch = sh_epoch s, wr_bundle_digest = bundle_digest,
                 wr_resume_seq = resume_seq, wr_wake_at = wake_at, wr_share_commitment = sh_commitment s,
                 wr_active_lease = None, wr_history = []\<rparr>;
               seal_new = commit_state env h \<lparr>hs_record = rec, hs_share = s\<rparr> (ack_from (ho_id h) rec) d
           in case ho_state h of
                Some st \<Rightarrow>
                  if sh_epoch s < wr_epoch (hs_record st)
                  then (Inl (StaleEpoch (sh_epoch s) (wr_epoch (hs_record st))), h, d)
                  else if sh_epoch s = wr_epoch (hs_record st)
                  then (Inr (ack_from (ho_id h) (hs_record st)), h, d)
                  else seal_new
              | None \<Rightarrow> seal_new))"

text \<open>The fence: the lease of another requester that is still live.\<close>

definition fenced_by :: "watcher_record \<Rightarrow> unseal_request \<Rightarrow> u64 \<Rightarrow> live_lease option" where
  "fenced_by rec req now =
     (case wr_active_lease rec of
        None \<Rightarrow> None
      | Some active \<Rightarrow>
          if now < ll_expires_at active
             \<and> \<not> (ll_lease_id active = ur_lease_id req \<and> ll_spawner active = ur_spawner req)
          then Some active else None)"

definition issue_lease ::
  "hib_env \<Rightarrow> unseal_request \<Rightarrow> u64 \<Rightarrow> share_holder \<Rightarrow> disk \<Rightarrow> (holder_error + quorum_lease) \<times> share_holder \<times> disk" where
  "issue_lease env req now h d =
     (case ho_state h of
        None \<Rightarrow> (Inl NotSealed, h, d)
      | Some current \<Rightarrow>
          (let rec = hs_record current
           in if ur_npub req \<noteq> wr_npub rec then (Inl AgentMismatch, h, d)
              else if now < wr_wake_at rec then (Inl (TooEarly now (wr_wake_at rec)), h, d)
              else case fenced_by rec req now of
                Some active \<Rightarrow> (Inl (LeaseHeld (ll_lease_id active) (wr_npub rec) (wr_resume_seq rec)), h, d)
              | None \<Rightarrow>
                  (let expires_at = saturating_add now (ur_ttl_secs req);
                       candidate = current\<lparr>hs_record := rec\<lparr>wr_active_lease :=
                         Some \<lparr>ll_lease_id = ur_lease_id req, ll_expires_at = expires_at, ll_spawner = ur_spawner req\<rparr>\<rparr>\<rparr>
                   in commit_state env h candidate
                        \<lparr>ql_npub = wr_npub rec, ql_resume_seq = wr_resume_seq rec, ql_lease_id = ur_lease_id req,
                         ql_bundle_digest = wr_bundle_digest rec, ql_expires_at = expires_at,
                         ql_spawner = ur_spawner req, ql_sigs = [assent_tag h]\<rparr> d)))"

definition release_share ::
  "hib_env \<Rightarrow> quorum_lease \<Rightarrow> u64 \<Rightarrow> share_holder \<Rightarrow> disk \<Rightarrow> (holder_error + share) \<times> share_holder \<times> disk" where
  "release_share env l now h d =
     (case ho_state h of
        None \<Rightarrow> (Inl NotSealed, h, d)
      | Some current \<Rightarrow>
          (let rec = hs_record current
           in if ql_npub l \<noteq> wr_npub rec \<or> ql_resume_seq l \<noteq> wr_resume_seq rec
                 \<or> ql_bundle_digest l \<noteq> wr_bundle_digest rec
              then (Inl LeaseMismatch, h, d)
              else case wr_active_lease rec of
                None \<Rightarrow> (Inl NotLeaseHolder, h, d)
              | Some active \<Rightarrow>
                  if ll_lease_id active \<noteq> ql_lease_id l \<or> ll_spawner active \<noteq> ql_spawner l
                     \<or> ll_expires_at active \<noteq> ql_expires_at l
                  then (Inl NotLeaseHolder, h, d)
                  else if ll_expires_at active \<le> now then (Inl (HolderLeaseExpired (ll_expires_at active) now), h, d)
                  else if list_ex (\<lambda>e. re_lease_id e = ql_lease_id l \<and> re_spawner e = ql_spawner l) (wr_history rec)
                  then (Inr (hs_share current), h, d)
                  else commit_state env h
                    (current\<lparr>hs_record := rec\<lparr>wr_history := wr_history rec
                       @ [\<lparr>re_lease_id = ql_lease_id l, re_spawner = ql_spawner l, re_released_at = now\<rparr>]\<rparr>\<rparr>)
                    (hs_share current) d))"

end
