(* ===== verification/Hibernate_Ceremony.thy ===== *)
theory Hibernate_Ceremony
  imports Hibernate
begin

text \<open>
  The two ceremonies over the holders: sealing with its commit point (\<open>hibernate/seal.rs\<close>), the wake-request
  event (\<open>hibernate/wake.rs\<close>), and unsealing into a lease-gated runtime (\<open>hibernate/unseal.rs\<close>). The relay, the
  quiesce hook and the Nostr event machinery are arguments over a foreign state.
\<close>

section \<open>Sealing\<close>

definition HOLDER_IDS :: "string list" where "HOLDER_IDS = [''holder-0'', ''holder-1'', ''holder-2'']"

definition U64_MAX :: u64 where "U64_MAX = - 1"

record fetched_wake =
  fw_request :: wake_request
  fw_event_id :: string

record 'w wake_transport =
  wt_npub :: string
  wt_publish :: "wake_request \<Rightarrow> 'w \<Rightarrow> (string + string) \<times> 'w"
  wt_fetch_by_digest :: "string \<Rightarrow> 'w \<Rightarrow> (string + fetched_wake option) \<times> 'w"

record seal_config =
  sc_agent_id :: string
  sc_treasury_dir :: string
  sc_seal_epoch :: u64
  sc_wake_at :: u64
  sc_image_ref :: string
  sc_solvency_hint :: u64
  sc_confirm_attempts :: u32

record sealed =
  sd_wake_request :: wake_request
  sd_bundle_digest :: string
  sd_acks :: "ack list"

datatype seal_abort = EpochExhausted | Quiesce string | Persist bundle_error | AbortHolder string holder_error
  | LocalVerifyBundle bundle_error | LocalVerifyAcks nat nat | WakeRequestUnconfirmedRevoked
  | RevokeFailed string holder_error

datatype seal_outcome = Sealed sealed | SealAborted u64 seal_abort

definition acks_match :: "ack list \<Rightarrow> string \<Rightarrow> u64 \<Rightarrow> string list \<Rightarrow> bool" where
  "acks_match acks digest epoch commitments \<longleftrightarrow>
     length acks = unat SEAL_SHARES
     \<and> list_all (\<lambda>i. ak_bundle_digest (acks ! i) = digest \<and> ak_epoch (acks ! i) = epoch
          \<and> i < length commitments \<and> commitments ! i = ak_share_commitment (acks ! i)) [0..<length acks]"

text \<open>Share after share to its holder, stopping at the first that fails.\<close>

fun distribute ::
  "hib_env \<Rightarrow> string \<Rightarrow> string \<Rightarrow> string \<Rightarrow> string \<Rightarrow> u64 \<Rightarrow> u64 \<Rightarrow> (share \<times> string) list \<Rightarrow> ack list \<Rightarrow> disk
     \<Rightarrow> (string \<times> holder_error + ack list) \<times> disk" where
  "distribute env treasury_dir agent_id npub digest resume_seq wake_at [] acks d = (Inr acks, d)"
| "distribute env treasury_dir agent_id npub digest resume_seq wake_at ((s, holder_id) # rest) acks d =
     (case holder_open env treasury_dir agent_id holder_id d of
        (Inl e, d1) \<Rightarrow> (Inl (holder_id, e), d1)
      | (Inr h, d1) \<Rightarrow>
          (case receive_share env s npub digest resume_seq wake_at h d1 of
             (Inl e, h', d2) \<Rightarrow> (Inl (holder_id, e), d2)
           | (Inr a, h', d2) \<Rightarrow>
               distribute env treasury_dir agent_id npub digest resume_seq wake_at rest (acks @ [a]) d2))"

fun confirm_polls ::
  "'w wake_transport \<Rightarrow> wake_request \<Rightarrow> string option \<Rightarrow> nat \<Rightarrow> 'w \<Rightarrow> bool \<times> 'w" where
  "confirm_polls tr request published_id 0 w = (False, w)"
| "confirm_polls tr request published_id (Suc attempts) w =
     (case wt_fetch_by_digest tr (wq_bundle_digest request) w of
        (Inr (Some fetched), w') \<Rightarrow>
          if (case published_id of Some i \<Rightarrow> fw_event_id fetched = i | None \<Rightarrow> True) \<and> fw_request fetched = request
          then (True, w') else confirm_polls tr request published_id attempts w'
      | (_, w') \<Rightarrow> confirm_polls tr request published_id attempts w')"

definition confirm_live ::
  "'w wake_transport \<Rightarrow> wake_request \<Rightarrow> string option \<Rightarrow> seal_config \<Rightarrow> 'w \<Rightarrow> bool \<times> 'w" where
  "confirm_live tr request published_id config w =
     confirm_polls tr request published_id (unat (max (sc_confirm_attempts config) 1)) w"

definition revoke ::
  "hib_env \<Rightarrow> seal_config \<Rightarrow> bytes \<Rightarrow> string \<Rightarrow> string \<Rightarrow> u64 \<Rightarrow> u64 \<Rightarrow> disk \<Rightarrow> (string \<times> holder_error + u64) \<times> disk" where
  "revoke env config master_seed npub digest resume_seq epoch d =
     (let frozen_epoch = epoch + 1; shares = split_seed env master_seed frozen_epoch (dk_tick d)
      in case distribute env (sc_treasury_dir config) (sc_agent_id config) npub digest resume_seq U64_MAX
               (zip shares HOLDER_IDS) [] (disk_tick d) of
           (Inl e, d') \<Rightarrow> (Inl e, d') | (Inr acks, d') \<Rightarrow> (Inr frozen_epoch, d'))"

definition best_effort_tombstone :: "'w wake_transport \<Rightarrow> wake_request \<Rightarrow> u64 \<Rightarrow> 'w \<Rightarrow> 'w" where
  "best_effort_tombstone tr request frozen_epoch w =
     snd (wt_publish tr (request\<lparr>wq_wake_at := U64_MAX,
       wq_seal := (wq_seal request)\<lparr>se_epoch := frozen_epoch\<rparr>\<rparr>) w)"

definition zeroize :: "bytes \<Rightarrow> bytes" where "zeroize b = replicate (length b) (char_of (0 :: nat))"

text \<open>Publish, confirm, and on a confirmation give the seed up; otherwise freeze the holders and stay awake.\<close>

definition commit_seal ::
  "hib_env \<Rightarrow> seal_config \<Rightarrow> bytes \<Rightarrow> 'w wake_transport \<Rightarrow> wake_request \<Rightarrow> ack list \<Rightarrow> disk \<Rightarrow> 'w
     \<Rightarrow> seal_outcome \<times> bytes \<times> disk \<times> 'w" where
  "commit_seal env config master_seed tr request acks d w =
     (let epoch = sc_seal_epoch config; (published, w1) = wt_publish tr request w;
          published_id = (case published of Inr i \<Rightarrow> Some i | Inl _ \<Rightarrow> None);
          (live, w2) = confirm_live tr request published_id config w1
      in if live then
           (Sealed \<lparr>sd_wake_request = request, sd_bundle_digest = wq_bundle_digest request, sd_acks = acks\<rparr>,
            zeroize master_seed, d, w2)
         else case revoke env config master_seed (wt_npub tr) (wq_bundle_digest request) (wq_resume_seq request) epoch d of
           (Inr frozen_epoch, d') \<Rightarrow>
             (SealAborted (frozen_epoch + 1) WakeRequestUnconfirmedRevoked, master_seed, d',
              best_effort_tombstone tr request frozen_epoch w2)
         | (Inl (holder_id, e), d') \<Rightarrow>
             (SealAborted (epoch + 2) (RevokeFailed holder_id e), master_seed, d',
              best_effort_tombstone tr request (epoch + 1) w2))"

definition seal ::
  "hib_env \<Rightarrow> seal_config \<Rightarrow> bytes \<Rightarrow> 'w wake_transport \<Rightarrow> ('w \<Rightarrow> (string + state_bundle) \<times> 'w) \<Rightarrow> disk \<Rightarrow> 'w
     \<Rightarrow> seal_outcome \<times> bytes \<times> disk \<times> 'w" where
  "seal env config master_seed tr quiesce d w =
     (let npub = wt_npub tr; epoch = sc_seal_epoch config; dir = sc_treasury_dir config; agent = sc_agent_id config
      in if checked_add epoch 2 = None then (SealAborted epoch EpochExhausted, master_seed, d, w)
         else case quiesce w of
           (Inl e, w1) \<Rightarrow> (SealAborted (epoch + 1) (Quiesce e), master_seed, d, w1)
         | (Inr bundle, w1) \<Rightarrow>
             (case persist_bundle env dir agent bundle d of
                (Inl e, d1) \<Rightarrow> (SealAborted (epoch + 1) (Persist e), master_seed, d1, w1)
              | (Inr digest, d1) \<Rightarrow>
                  (let shares = split_seed env master_seed epoch (dk_tick d1); commitments = map sh_commitment shares
                   in case distribute env dir agent npub digest (sb_resume_seq bundle) (sc_wake_at config)
                             (zip shares HOLDER_IDS) [] (disk_tick d1) of
                        (Inl (holder_id, e), d2) \<Rightarrow>
                          (SealAborted (epoch + 1) (AbortHolder holder_id e), master_seed, d2, w1)
                      | (Inr acks, d2) \<Rightarrow>
                          (case load_bundle env dir agent digest d2 of
                             (Inl e, d3) \<Rightarrow> (SealAborted (epoch + 1) (LocalVerifyBundle e), master_seed, d3, w1)
                           | (Inr _, d3) \<Rightarrow>
                               if \<not> acks_match acks digest epoch commitments
                               then (SealAborted (epoch + 1) (LocalVerifyAcks (length acks) (unat SEAL_SHARES)),
                                     master_seed, d3, w1)
                               else commit_seal env config master_seed tr
                                 \<lparr>wq_wake_at = sc_wake_at config, wq_bundle_digest = digest,
                                  wq_image_ref = sc_image_ref config,
                                  wq_seal = \<lparr>se_holders = HOLDER_IDS, se_threshold = SEAL_THRESHOLD,
                                    se_commitments = commitments, se_epoch = epoch\<rparr>,
                                  wq_resume_seq = sb_resume_seq bundle, wq_solvency_hint = sc_solvency_hint config\<rparr>
                                 acks d3 w1))))"

section \<open>The wake-request event\<close>

record 'k wake_event =
  we_kind :: u16
  we_tags :: "string list list"
  we_content :: string
  we_author :: 'k
  we_created_at :: u64
  we_id :: string

record wake_record =
  wk_npub :: string
  wk_request :: wake_request
  wk_published_at :: u64
  wk_event_id :: string

record 'k wake_codec =
  wc_to_json :: "wake_request \<Rightarrow> string + string"
  wc_from_json :: "string \<Rightarrow> wake_request option"
  wc_verify :: "'k wake_event \<Rightarrow> bool"
  wc_bech32 :: "'k \<Rightarrow> string option"
  wc_from_bech32 :: "string \<Rightarrow> 'k option"
  wc_from_hex :: "string \<Rightarrow> 'k option"
  wc_parse_tag :: "string list \<Rightarrow> bool"

definition KIND_KIRBY_WAKE_REQUEST :: u16 where "KIND_KIRBY_WAKE_REQUEST = 31001"

definition wake_tags :: "wake_request \<Rightarrow> string \<Rightarrow> string \<Rightarrow> string list list" where
  "wake_tags request agent_id node_id =
     [[''d'', agent_id], [''t'', ''kirby''], [''a'', agent_id], [''node'', node_id], [''x'', wq_bundle_digest request]]"

text \<open>The kind, content and tags the client signs.\<close>

definition build_wake_request ::
  "'k wake_codec \<Rightarrow> wake_request \<Rightarrow> string \<Rightarrow> string \<Rightarrow> string + u16 \<times> string \<times> string list list" where
  "build_wake_request wc request agent_id node_id =
     (case wc_to_json wc request of
        Inl e \<Rightarrow> Inl e
      | Inr json \<Rightarrow>
          if list_all (wc_parse_tag wc) (wake_tags request agent_id node_id)
          then Inr (KIND_KIRBY_WAKE_REQUEST, json, wake_tags request agent_id node_id)
          else Inl ''tag'')"

definition parse_pubkey :: "'k wake_codec \<Rightarrow> string \<Rightarrow> string + 'k" where
  "parse_pubkey wc npub =
     (case wc_from_bech32 wc npub of
        Some k \<Rightarrow> Inr k
      | None \<Rightarrow> (case wc_from_hex wc npub of Some k \<Rightarrow> Inr k | None \<Rightarrow> Inl (''parse npub/pubkey '' @ npub)))"

definition record_from_event :: "'k wake_codec \<Rightarrow> 'k wake_event \<Rightarrow> wake_record option" where
  "record_from_event wc event =
     (if \<not> wc_verify wc event then None
      else case wc_from_json wc (we_content event) of
        None \<Rightarrow> None
      | Some request \<Rightarrow>
          Some \<lparr>wk_npub = (case wc_bech32 wc (we_author event) of Some s \<Rightarrow> s | None \<Rightarrow> ''''), wk_request = request,
            wk_published_at = we_created_at event, wk_event_id = we_id event\<rparr>)"

fun newest_of :: "'k wake_codec \<Rightarrow> wake_record option \<Rightarrow> 'k wake_event list \<Rightarrow> wake_record option" where
  "newest_of wc newest [] = newest"
| "newest_of wc newest (event # events) =
     (if we_kind event \<noteq> KIND_KIRBY_WAKE_REQUEST then newest_of wc newest events
      else case record_from_event wc event of
        None \<Rightarrow> newest_of wc newest events
      | Some rec \<Rightarrow>
          newest_of wc (case newest of
              Some prev \<Rightarrow> if wk_published_at rec \<le> wk_published_at prev then newest else Some rec
            | None \<Rightarrow> Some rec) events)"

text \<open>A relay query: the kind, the author and one tag value; the relay answers with a stream of events.\<close>

record ('k, 'w) wake_relay =
  wy_stream :: "u16 \<Rightarrow> 'k \<Rightarrow> string \<times> string \<Rightarrow> 'w \<Rightarrow> (string + 'k wake_event list) \<times> 'w"
  wy_send :: "u16 \<times> string \<times> string list list \<Rightarrow> 'w \<Rightarrow> (string + string) \<times> 'w"

definition fetch_newest ::
  "'k wake_codec \<Rightarrow> ('k, 'w) wake_relay \<Rightarrow> 'k \<Rightarrow> string \<times> string \<Rightarrow> 'w \<Rightarrow> (string + wake_record option) \<times> 'w" where
  "fetch_newest wc relay author tag w =
     (case wy_stream relay KIND_KIRBY_WAKE_REQUEST author tag w of
        (Inl e, w') \<Rightarrow> (Inl e, w') | (Inr events, w') \<Rightarrow> (Inr (newest_of wc None events), w'))"

definition fetch_wake_request_by_agent ::
  "'k wake_codec \<Rightarrow> ('k, 'w) wake_relay \<Rightarrow> string \<Rightarrow> string \<Rightarrow> 'w \<Rightarrow> (string + wake_record option) \<times> 'w" where
  "fetch_wake_request_by_agent wc relay npub agent_id w =
     (case parse_pubkey wc npub of Inl e \<Rightarrow> (Inl e, w) | Inr k \<Rightarrow> fetch_newest wc relay k (''d'', agent_id) w)"

definition fetch_wake_request_by_digest ::
  "'k wake_codec \<Rightarrow> ('k, 'w) wake_relay \<Rightarrow> string \<Rightarrow> string \<Rightarrow> 'w \<Rightarrow> (string + wake_record option) \<times> 'w" where
  "fetch_wake_request_by_digest wc relay npub digest w =
     (case parse_pubkey wc npub of Inl e \<Rightarrow> (Inl e, w) | Inr k \<Rightarrow> fetch_newest wc relay k (''x'', digest) w)"

definition publish_wake_request ::
  "'k wake_codec \<Rightarrow> ('k, 'w) wake_relay \<Rightarrow> string \<Rightarrow> string \<Rightarrow> wake_request \<Rightarrow> 'w \<Rightarrow> (string + string) \<times> 'w" where
  "publish_wake_request wc relay agent_id node_id request w =
     (case build_wake_request wc request agent_id node_id of Inl e \<Rightarrow> (Inl e, w) | Inr b \<Rightarrow> wy_send relay b w)"

definition relay_wake_transport ::
  "'k wake_codec \<Rightarrow> ('k, 'w) wake_relay \<Rightarrow> string \<Rightarrow> string \<Rightarrow> string \<Rightarrow> 'w wake_transport" where
  "relay_wake_transport wc relay npub agent_id node_id =
     \<lparr>wt_npub = npub, wt_publish = publish_wake_request wc relay agent_id node_id,
      wt_fetch_by_digest = (\<lambda>digest w. case fetch_wake_request_by_digest wc relay npub digest w of
          (Inl e, w') \<Rightarrow> (Inl e, w')
        | (Inr r, w') \<Rightarrow> (Inr (map_option (\<lambda>r. \<lparr>fw_request = wk_request r, fw_event_id = wk_event_id r\<rparr>) r), w'))\<rparr>"

section \<open>Unsealing\<close>

record spawner_proposal =
  pr_lease_id :: string
  pr_ephemeral_pubkey :: string
  pr_ttl_secs :: u64

datatype unseal_error = NoWakeRequest | MalformedSeal string | ShareSealMismatch u8 | UnsealQuorum nat nat
  | LeaseExpired u64 u64 | UnsealHolder holder_error | UnsealShamir shamir_error | UnsealBundle bundle_error
  | UnsealFetch string

record leased_runtime =
  rt_npub :: string
  rt_lease :: quorum_lease
  rt_subkeys :: subkeys
  rt_bundle :: state_bundle
  rt_treasury_dir :: string
  rt_agent_id :: string
  rt_holder_ids :: "string list"

definition validate_seal :: "wake_request \<Rightarrow> unseal_error + unit" where
  "validate_seal wake =
     (let s = wq_seal wake
      in if se_threshold s \<noteq> SEAL_THRESHOLD then Inl (MalformedSeal ''threshold does not match the protocol'')
         else if length (se_holders s) \<noteq> length (se_commitments s)
         then Inl (MalformedSeal ''roster and commitment counts differ'')
         else if \<not> distinct (se_holders s) then Inl (MalformedSeal ''duplicate holder id in roster'')
         else Inr ())"

fun open_roster :: "hib_env \<Rightarrow> string \<Rightarrow> string \<Rightarrow> string list \<Rightarrow> disk \<Rightarrow> share_holder list \<times> disk" where
  "open_roster env treasury_dir agent_id [] d = ([], d)"
| "open_roster env treasury_dir agent_id (i # is) d =
     (case holder_open env treasury_dir agent_id i d of
        (Inr h, d') \<Rightarrow> (case open_roster env treasury_dir agent_id is d' of (hs, d'') \<Rightarrow> (h # hs, d''))
      | (Inl e, d') \<Rightarrow> open_roster env treasury_dir agent_id is d')"

text \<open>Every holder is asked; its lease counts when it is for the seal that is to be opened.\<close>

fun ask_leases ::
  "hib_env \<Rightarrow> unseal_request \<Rightarrow> string \<Rightarrow> u64 \<Rightarrow> u64 \<Rightarrow> nat \<Rightarrow> share_holder list \<Rightarrow> disk
     \<Rightarrow> (nat \<times> quorum_lease) list \<times> share_holder list \<times> disk" where
  "ask_leases env req bundle_digest resume_seq now idx [] d = ([], [], d)"
| "ask_leases env req bundle_digest resume_seq now idx (h # hs) d =
     (case issue_lease env req now h d of
        (r, h', d1) \<Rightarrow>
          (case ask_leases env req bundle_digest resume_seq now (Suc idx) hs d1 of
             (granted, hs', d2) \<Rightarrow>
               ((case r of
                   Inr l \<Rightarrow> if ql_bundle_digest l = bundle_digest \<and> ql_resume_seq l = resume_seq
                           then (idx, l) # granted else granted
                 | Inl e \<Rightarrow> granted), h' # hs', d2)))"

definition gather_leases ::
  "hib_env \<Rightarrow> unseal_request \<Rightarrow> string \<Rightarrow> u64 \<Rightarrow> nat \<Rightarrow> u64 \<Rightarrow> share_holder list \<Rightarrow> disk
     \<Rightarrow> (unseal_error + (nat \<times> quorum_lease) list) \<times> share_holder list \<times> disk" where
  "gather_leases env req bundle_digest resume_seq needed now hs d =
     (case ask_leases env req bundle_digest resume_seq now 0 hs d of
        (granted, hs', d') \<Rightarrow>
          (if length granted < needed then Inl (UnsealQuorum (length granted) needed) else Inr granted, hs', d'))"

definition aggregate_lease :: "(nat \<times> quorum_lease) list \<Rightarrow> quorum_lease" where
  "aggregate_lease leases =
     (let base = snd (leases ! 0)
      in base\<lparr>ql_expires_at := Min (set (map (ql_expires_at \<circ> snd) leases)),
           ql_sigs := concat (map (ql_sigs \<circ> snd) leases)\<rparr>)"

fun release_all ::
  "hib_env \<Rightarrow> wake_request \<Rightarrow> u64 \<Rightarrow> (nat \<times> quorum_lease) list \<Rightarrow> share_holder list \<Rightarrow> disk
     \<Rightarrow> (unseal_error + share list) \<times> share_holder list \<times> disk" where
  "release_all env wake now [] hs d = (Inr [], hs, d)"
| "release_all env wake now ((idx, l) # rest) hs d =
     (case release_share env l now (hs ! idx) d of
        (Inl e, h', d1) \<Rightarrow> (Inl (UnsealHolder e), hs[idx := h'], d1)
      | (Inr s, h', d1) \<Rightarrow>
          if sh_epoch s \<noteq> se_epoch (wq_seal wake) \<or> sh_commitment s \<notin> set (se_commitments (wq_seal wake))
          then (Inl (ShareSealMismatch (sh_index s)), hs[idx := h'], d1)
          else (case release_all env wake now rest (hs[idx := h']) d1 of
                  (Inl e, hs', d2) \<Rightarrow> (Inl e, hs', d2) | (Inr ss, hs', d2) \<Rightarrow> (Inr (s # ss), hs', d2)))"

definition reconstitute ::
  "hib_env \<Rightarrow> string \<Rightarrow> string \<Rightarrow> string \<Rightarrow> wake_request \<Rightarrow> spawner_proposal \<Rightarrow> u64 \<Rightarrow> disk
     \<Rightarrow> (unseal_error + leased_runtime) \<times> disk" where
  "reconstitute env treasury_dir agent_id npub wake spawner now d =
     (case validate_seal wake of
        Inl e \<Rightarrow> (Inl e, d)
      | Inr _ \<Rightarrow>
          (let needed = unat SEAL_THRESHOLD;
               req = \<lparr>ur_npub = npub, ur_lease_id = pr_lease_id spawner, ur_spawner = pr_ephemeral_pubkey spawner,
                 ur_ttl_secs = pr_ttl_secs spawner\<rparr>;
               (holders, d1) = open_roster env treasury_dir agent_id (se_holders (wq_seal wake)) d
           in case gather_leases env req (wq_bundle_digest wake) (wq_resume_seq wake) needed now holders d1 of
                (Inl e, hs, d2) \<Rightarrow> (Inl e, d2)
              | (Inr granted, hs, d2) \<Rightarrow>
                  (let lease = aggregate_lease granted
                   in case release_all env wake now (take needed granted) hs d2 of
                        (Inl e, hs', d3) \<Rightarrow> (Inl e, d3)
                      | (Inr shares, hs', d3) \<Rightarrow>
                          (case combine_shares env shares of
                             Inl e \<Rightarrow> (Inl (UnsealShamir e), d3)
                           | Inr seed \<Rightarrow>
                               (case load_bundle env treasury_dir agent_id (wq_bundle_digest wake) d3 of
                                  (Inl e, d4) \<Rightarrow> (Inl (UnsealBundle e), d4)
                                | (Inr bundle, d4) \<Rightarrow>
                                    (Inr \<lparr>rt_npub = npub, rt_lease = lease, rt_subkeys = derive_subkeys env seed,
                                       rt_bundle = bundle, rt_treasury_dir = treasury_dir, rt_agent_id = agent_id,
                                       rt_holder_ids = se_holders (wq_seal wake)\<rparr>, d4))))))"

definition unseal ::
  "hib_env \<Rightarrow> 'k wake_codec \<Rightarrow> ('k, 'w) wake_relay \<Rightarrow> string \<Rightarrow> string \<Rightarrow> string \<Rightarrow> spawner_proposal \<Rightarrow> u64 \<Rightarrow> disk \<Rightarrow> 'w
     \<Rightarrow> (unseal_error + leased_runtime) \<times> disk \<times> 'w" where
  "unseal env wc relay treasury_dir agent_id npub spawner now d w =
     (case fetch_wake_request_by_agent wc relay npub agent_id w of
        (Inl e, w') \<Rightarrow> (Inl (UnsealFetch e), d, w')
      | (Inr None, w') \<Rightarrow> (Inl NoWakeRequest, d, w')
      | (Inr (Some rec), w') \<Rightarrow>
          (case reconstitute env treasury_dir agent_id npub (wk_request rec) spawner now d of (r, d') \<Rightarrow> (r, d', w')))"

definition next_resume_seq :: "leased_runtime \<Rightarrow> u64" where
  "next_resume_seq rt = saturating_add (sb_resume_seq (rt_bundle rt)) 1"

definition runtime_is_live :: "leased_runtime \<Rightarrow> u64 \<Rightarrow> bool" where
  "runtime_is_live rt now \<longleftrightarrow> now < ql_expires_at (rt_lease rt)"

definition must_self_stop :: "leased_runtime \<Rightarrow> u64 \<Rightarrow> bool" where
  "must_self_stop rt now \<longleftrightarrow> \<not> runtime_is_live rt now"

definition with_authority :: "leased_runtime \<Rightarrow> u64 \<Rightarrow> (subkeys \<Rightarrow> 'r) \<Rightarrow> unseal_error + 'r" where
  "with_authority rt now f =
     (if \<not> runtime_is_live rt now then Inl (LeaseExpired (ql_expires_at (rt_lease rt)) now) else Inr (f (rt_subkeys rt)))"

definition renew :: "hib_env \<Rightarrow> u64 \<Rightarrow> u64 \<Rightarrow> leased_runtime \<Rightarrow> disk \<Rightarrow> (unseal_error + unit) \<times> leased_runtime \<times> disk" where
  "renew env lease_ttl_secs now rt d =
     (if \<not> runtime_is_live rt now then (Inl (LeaseExpired (ql_expires_at (rt_lease rt)) now), rt, d)
      else
        (let req = \<lparr>ur_npub = rt_npub rt, ur_lease_id = ql_lease_id (rt_lease rt), ur_spawner = ql_spawner (rt_lease rt),
               ur_ttl_secs = lease_ttl_secs\<rparr>;
             (holders, d1) = open_roster env (rt_treasury_dir rt) (rt_agent_id rt) (rt_holder_ids rt) d
         in case gather_leases env req (ql_bundle_digest (rt_lease rt)) (ql_resume_seq (rt_lease rt))
                   (unat SEAL_THRESHOLD) now holders d1 of
              (Inl e, hs, d2) \<Rightarrow> (Inl e, rt, d2)
            | (Inr granted, hs, d2) \<Rightarrow> (Inr (), rt\<lparr>rt_lease := aggregate_lease granted\<rparr>, d2)))"

end
