(* ===== verification/Hibernate_Props.thy ===== *)
theory Hibernate_Props
  imports Hibernate_Ceremony
begin

text \<open>
  What hibernation promises: the digest commits to the whole bundle, a committed seal wakes as the agent that
  went to sleep although a holder was lost, a revoked seal never wakes, and while a runtime's lease is live no
  other spawner is given one.
\<close>

section \<open>The digest\<close>

lemma push_u64_inj: "push_u64 m @ r = push_u64 n @ q \<longleftrightarrow> m = n \<and> r = q"
proof
  assume a: "push_u64 m @ r = push_u64 n @ q"
  then have "to_be_bytes m = to_be_bytes n" "r = q" by (simp_all add: push_u64_def append_eq_append_conv)
  then show "m = n \<and> r = q" by (metis from_to_be_bytes)
qed simp

lemma push_bytes_inj:
  assumes "length b < 2 ^ 64" and "length c < 2 ^ 64"
  shows "push_bytes b @ r = push_bytes c @ q \<longleftrightarrow> b = c \<and> r = q"
proof
  assume a: "push_bytes b @ r = push_bytes c @ q"
  then have n: "(of_nat (length b) :: u64) = of_nat (length c)" and t: "b @ r = c @ q"
    by (simp_all add: push_bytes_def push_u64_inj)
  from n have "length b = length c"
    using assms by (simp add: word_of_nat_eq_iff take_bit_nat_eq_self)
  then show "b = c \<and> r = q" using t by simp
qed simp

text \<open>A bundle whose texts and proofs have a length a machine can hold.\<close>

definition sized :: "state_bundle \<Rightarrow> bool" where
  "sized b \<longleftrightarrow> length (sb_memory_digest b) < 2 ^ 64 \<and> length (ws_proofs (sb_wallet_state b)) < 2 ^ 64
     \<and> length (cp_sha256 (sb_checkpoint b)) < 2 ^ 64"

lemma canonical_inj: "sized b \<Longrightarrow> sized c \<Longrightarrow> canonical_bytes b = canonical_bytes c \<Longrightarrow> b = c"
  using push_u64_inj [of _ "[]" _ "[]"]
  by (cases b; cases c; cases "sb_wallet_state b"; cases "sb_wallet_state c"; cases "sb_checkpoint b"; cases "sb_checkpoint c")
    (simp add: canonical_bytes_def sized_def push_bytes_inj push_u64_inj)

text \<open>Restoring is all or nothing. A bundle that loads under the digest of the bundle that was sealed is that
  bundle, in its memory reference, its balance and proofs, its checkpoint and its sequence number, unless the
  two encodings are a SHA-256 collision.\<close>

theorem digest_commits:
  assumes "load_bundle env treasury_dir agent_id (compute_digest env b) d = (Inr c, d')"
    and "sized b" and "sized c"
  shows "c = b \<or> canonical_bytes c \<noteq> canonical_bytes b
    \<and> to_hex (he_sha256 env (canonical_bytes c)) = to_hex (he_sha256 env (canonical_bytes b))"
proof -
  have "compute_digest env c = compute_digest env b"
    using assms(1) by (auto simp: load_bundle_def Let_def split: option.splits sum.splits prod.splits if_splits)
  then show ?thesis using canonical_inj [OF assms(3,2)] by (auto simp: compute_digest_def)
qed

section \<open>What a write leaves behind\<close>

definition plain_path :: "hpath \<Rightarrow> bool" where "plain_path p \<longleftrightarrow> (\<forall>q r. p \<noteq> temp_path q r)"

lemma to_hex_last: "bs \<noteq> [] \<Longrightarrow> to_hex bs \<noteq> [] \<and> last (to_hex bs) \<in> set ''0123456789abcdef''"
proof (induction bs rule: rev_induct)
  case (snoc b bs)
  have "of_char b mod 16 < length ''0123456789abcdef''" by simp
  then have "hex_digit (of_char b mod 16) \<in> set ''0123456789abcdef''"
    unfolding hex_digit_def by (rule nth_mem)
  then show ?case by (simp add: to_hex_def)
qed simp

lemma temp_path_last: "last (snd (temp_path q r)) \<in> set ''0123456789abcdef''"
proof -
  have "to_be_bytes r \<noteq> []" using length_to_be_bytes [of r] by (metis list.size(3) zero_neq_numeral)
  from to_hex_last [OF this] show ?thesis by (simp add: temp_path_def)
qed

lemma plain_holder_path [simp]: "plain_path (holder_path t a i)"
proof -
  have "last (snd (holder_path t a i)) = CHR ''n''" by (simp add: holder_path_def)
  then have "holder_path t a i \<noteq> temp_path q r" for q r using temp_path_last [of q r] by (intro notI) simp
  then show ?thesis by (simp add: plain_path_def)
qed

lemma plain_bundle_path [simp]: "plain_path (bundle_path t a)"
proof -
  have "last (snd (bundle_path t a)) = CHR ''n''" by (simp add: bundle_path_def)
  then have "bundle_path t a \<noteq> temp_path q r" for q r using temp_path_last [of q r] by (intro notI) simp
  then show ?thesis by (simp add: plain_path_def)
qed

lemma plain_temp [simp]: "plain_path p \<Longrightarrow> p \<noteq> temp_path q r" "plain_path p \<Longrightarrow> temp_path q r \<noteq> p"
  unfolding plain_path_def by metis+

lemma write_atomic_ok: "write_atomic env path data d = (Inr u, d') \<Longrightarrow>
    d' = (disk_tick d)\<lparr>dk_files := (dk_files d)(path \<mapsto> data)\<rparr>"
  by (auto simp: write_atomic_def Let_def split: if_splits option.splits write_step.splits)

lemma write_atomic_other: "write_atomic env path data d = (r, d') \<Longrightarrow> plain_path p \<Longrightarrow> p \<noteq> path \<Longrightarrow>
    dk_files d' p = dk_files d p"
  by (auto simp: write_atomic_def Let_def disk_tick_def split: if_splits option.splits write_step.splits)

lemma holder_path_inj [simp]: "holder_path t a i = holder_path t a j \<longleftrightarrow> i = j"
  by (simp add: holder_path_def)

lemma holder_path_bundle [simp]: "holder_path t a i \<noteq> bundle_path t a" "bundle_path t a \<noteq> holder_path t a i"
proof -
  have "i @ ''.holder.json'' \<noteq> ''state-bundle.json''" for i
  proof
    assume "i @ ''.holder.json'' = ''state-bundle.json''"
    then have "rev (i @ ''.holder.json'') = rev ''state-bundle.json''" by simp
    then show False by simp
  qed
  then show "holder_path t a i \<noteq> bundle_path t a" "bundle_path t a \<noteq> holder_path t a i"
    by (auto simp: holder_path_def bundle_path_def)
qed

text \<open>The state a holder would open with.\<close>

definition at_rest :: "hib_env \<Rightarrow> string \<Rightarrow> string \<Rightarrow> disk \<Rightarrow> string \<Rightarrow> holder_state option" where
  "at_rest env t a d i = (case dk_files d (holder_path t a i) of None \<Rightarrow> None
     | Some raw \<Rightarrow> (case he_holder_from_json env raw of Inl e \<Rightarrow> None | Inr st \<Rightarrow> Some st))"

definition hib_codec_ok :: "hib_env \<Rightarrow> bool" where
  "hib_codec_ok env \<longleftrightarrow>
     (\<forall>st b. he_holder_to_json env st = Inr b \<longrightarrow> he_holder_from_json env b = Inr st)
     \<and> (\<forall>st b. he_bundle_to_json env st = Inr b \<longrightarrow> he_bundle_from_json env b = Inr st)"

lemma commit_state_ok: "commit_state env h c x d = (Inr y, h', d') \<Longrightarrow>
    y = x \<and> h' = h\<lparr>ho_state := Some c\<rparr>
    \<and> (\<exists>data. he_holder_to_json env c = Inr data \<and> d' = (disk_tick d)\<lparr>dk_files := (dk_files d)(ho_path h \<mapsto> data)\<rparr>)"
  by (auto simp: commit_state_def write_state_def split: sum.splits prod.splits dest!: write_atomic_ok)

lemma commit_state_fail: "commit_state env h c x d = (Inl e, h', d') \<Longrightarrow> h' = h"
  by (auto simp: commit_state_def split: sum.splits prod.splits)

lemma commit_state_other: "commit_state env h c x d = (r, h', d') \<Longrightarrow> plain_path p \<Longrightarrow> p \<noteq> ho_path h \<Longrightarrow>
    dk_files d' p = dk_files d p"
  by (auto simp: commit_state_def write_state_def split: sum.splits prod.splits dest!: write_atomic_other)

lemma commit_state_keeps: "commit_state env h c x d = (r, h', d') \<Longrightarrow> ho_id h' = ho_id h \<and> ho_path h' = ho_path h"
  by (auto simp: commit_state_def split: sum.splits prod.splits)

lemma commit_state_at_rest:
  assumes "hib_codec_ok env" and "commit_state env h c x d = (Inr y, h', d')" and "ho_path h = holder_path t a (ho_id h)"
  shows "at_rest env t a d' (ho_id h) = Some c"
  using commit_state_ok [OF assms(2)] assms(1,3) by (auto simp: at_rest_def hib_codec_ok_def)

lemma at_rest_cong: "dk_files d' (holder_path t a i) = dk_files d (holder_path t a i) \<Longrightarrow> at_rest env t a d' i = at_rest env t a d i"
  by (simp add: at_rest_def)

section \<open>The fence\<close>

text \<open>What a holder's lease fences: another requester until it expires.\<close>

definition grants :: "string \<Rightarrow> string \<Rightarrow> u64 \<Rightarrow> holder_state \<Rightarrow> bool" where
  "grants lid spawner until st \<longleftrightarrow>
     (\<exists>l. wr_active_lease (hs_record st) = Some l \<and> ll_lease_id l = lid \<and> ll_spawner l = spawner \<and> until \<le> ll_expires_at l)"

lemma issue_ok:
  assumes "issue_lease env req now h d = (Inr l, h', d')"
  shows "\<exists>st. ho_state h' = Some st \<and> grants (ur_lease_id req) (ur_spawner req) (ql_expires_at l) st
    \<and> ql_lease_id l = ur_lease_id req \<and> ql_spawner l = ur_spawner req
    \<and> ql_expires_at l = saturating_add now (ur_ttl_secs req)
    \<and> ho_id h' = ho_id h \<and> ho_path h' = ho_path h
    \<and> (hib_codec_ok env \<longrightarrow> ho_path h = holder_path t a (ho_id h) \<longrightarrow> at_rest env t a d' (ho_id h) = Some st)"
proof -
  obtain st where "ho_state h = Some st" and run: "commit_state env h
      (st\<lparr>hs_record := hs_record st\<lparr>wr_active_lease := Some \<lparr>ll_lease_id = ur_lease_id req,
         ll_expires_at = saturating_add now (ur_ttl_secs req), ll_spawner = ur_spawner req\<rparr>\<rparr>\<rparr>)
      \<lparr>ql_npub = wr_npub (hs_record st), ql_resume_seq = wr_resume_seq (hs_record st), ql_lease_id = ur_lease_id req,
       ql_bundle_digest = wr_bundle_digest (hs_record st), ql_expires_at = saturating_add now (ur_ttl_secs req),
       ql_spawner = ur_spawner req, ql_sigs = [assent_tag h]\<rparr> d = (Inr l, h', d')"
    using assms by (auto simp: issue_lease_def Let_def split: option.splits if_splits)
  from commit_state_ok [OF run] commit_state_at_rest [OF _ run, of t a] show ?thesis
    by (auto simp: grants_def)
qed

lemma issue_refused: "issue_lease env req now h d = (Inl e, h', d') \<Longrightarrow> h' = h"
  by (auto simp: issue_lease_def Let_def split: option.splits if_splits dest: commit_state_fail)

lemma issue_other: "issue_lease env req now h d = (r, h', d') \<Longrightarrow> plain_path p \<Longrightarrow> p \<noteq> ho_path h \<Longrightarrow>
    dk_files d' p = dk_files d p"
  by (auto simp: issue_lease_def Let_def split: option.splits if_splits dest: commit_state_other)

lemma issue_keeps: "issue_lease env req now h d = (r, h', d') \<Longrightarrow> ho_id h' = ho_id h \<and> ho_path h' = ho_path h"
  by (auto simp: issue_lease_def Let_def split: option.splits if_splits dest: commit_state_keeps)

lemma issue_fenced:
  assumes "ho_state h = Some st" and "grants lid spawner until st" and "now < until"
    and "(ur_lease_id req, ur_spawner req) \<noteq> (lid, spawner)"
  shows "\<exists>e. issue_lease env req now h d = (Inl e, h, d)"
  using assms by (auto simp: issue_lease_def grants_def fenced_by_def Let_def)

definition roster_ok :: "string \<Rightarrow> string \<Rightarrow> share_holder list \<Rightarrow> bool" where
  "roster_ok t a hs \<longleftrightarrow> distinct (map ho_id hs) \<and> (\<forall>h\<in>set hs. ho_path h = holder_path t a (ho_id h))"

lemma roster_ok_Cons: "roster_ok t a (h # hs) \<longleftrightarrow>
    ho_path h = holder_path t a (ho_id h) \<and> ho_id h \<notin> ho_id ` set hs \<and> roster_ok t a hs"
  by (auto simp: roster_ok_def)

lemma ask_other:
  "ask_leases env req g n now idx hs d = (granted, hs', d') \<Longrightarrow> roster_ok t a hs \<Longrightarrow> plain_path p \<Longrightarrow>
     (\<forall>h\<in>set hs. p \<noteq> holder_path t a (ho_id h)) \<Longrightarrow> dk_files d' p = dk_files d p"
  by (induction env req g n now idx hs d arbitrary: granted hs' d' rule: ask_leases.induct)
    (auto simp: roster_ok_Cons split: prod.splits dest!: issue_other)

lemma ask_roster:
  "ask_leases env req g n now idx hs d = (granted, hs', d') \<Longrightarrow>
     map ho_id hs' = map ho_id hs \<and> map ho_path hs' = map ho_path hs"
  by (induction env req g n now idx hs d arbitrary: granted hs' d' rule: ask_leases.induct)
    (auto split: prod.splits dest!: issue_keeps)

lemma ask_granted:
  "ask_leases env req g n now idx hs d = (granted, hs', d') \<Longrightarrow> hib_codec_ok env \<Longrightarrow> roster_ok t a hs \<Longrightarrow>
     distinct (map fst granted)
     \<and> (\<forall>(k, l)\<in>set granted. idx \<le> k \<and> k < idx + length hs
          \<and> ql_lease_id l = ur_lease_id req \<and> ql_spawner l = ur_spawner req
          \<and> ql_expires_at l = saturating_add now (ur_ttl_secs req) \<and> ql_bundle_digest l = g \<and> ql_resume_seq l = n
          \<and> (\<exists>st. ho_state (hs' ! (k - idx)) = Some st \<and> at_rest env t a d' (ho_id (hs ! (k - idx))) = Some st
               \<and> grants (ur_lease_id req) (ur_spawner req) (ql_expires_at l) st))"
proof (induction env req g n now idx hs d arbitrary: granted hs' d' rule: ask_leases.induct)
  case (2 env req g n now idx h hs d)
  obtain r h1 d1 where step: "issue_lease env req now h d = (r, h1, d1)" by (cases "issue_lease env req now h d")
  obtain granted1 hs1 d2 where rest: "ask_leases env req g n now (Suc idx) hs d1 = (granted1, hs1, d2)"
    by (cases "ask_leases env req g n now (Suc idx) hs d1")
  from 2(2) have run: "hs' = h1 # hs1" "d' = d2" "granted = (case r of
        Inr l \<Rightarrow> if ql_bundle_digest l = g \<and> ql_resume_seq l = n then (idx, l) # granted1 else granted1
      | Inl e \<Rightarrow> granted1)"
    by (simp_all add: step rest)
  have ok: "roster_ok t a hs" "ho_path h = holder_path t a (ho_id h)" "ho_id h \<notin> ho_id ` set hs"
    using 2(4) by (simp_all add: roster_ok_Cons)
  have kept: "at_rest env t a d2 (ho_id h) = at_rest env t a d1 (ho_id h)"
    using ok(3) by (intro at_rest_cong ask_other [OF rest ok(1)]) auto
  have IH: "distinct (map fst granted1)" "\<forall>(k, l)\<in>set granted1. Suc idx \<le> k \<and> k < Suc idx + length hs
      \<and> ql_lease_id l = ur_lease_id req \<and> ql_spawner l = ur_spawner req
      \<and> ql_expires_at l = saturating_add now (ur_ttl_secs req) \<and> ql_bundle_digest l = g \<and> ql_resume_seq l = n
      \<and> (\<exists>st. ho_state (hs1 ! (k - Suc idx)) = Some st \<and> at_rest env t a d2 (ho_id (hs ! (k - Suc idx))) = Some st
           \<and> grants (ur_lease_id req) (ur_spawner req) (ql_expires_at l) st)"
    using "2.IH" [OF step [symmetric] refl rest 2(3) ok(1)] by blast+
  have tail: "\<forall>(k, l)\<in>set granted1. idx \<le> k \<and> k < idx + length (h # hs)
      \<and> ql_lease_id l = ur_lease_id req \<and> ql_spawner l = ur_spawner req
      \<and> ql_expires_at l = saturating_add now (ur_ttl_secs req) \<and> ql_bundle_digest l = g \<and> ql_resume_seq l = n
      \<and> (\<exists>st. ho_state (hs' ! (k - idx)) = Some st \<and> at_rest env t a d' (ho_id ((h # hs) ! (k - idx))) = Some st
           \<and> grants (ur_lease_id req) (ur_spawner req) (ql_expires_at l) st)"
    using IH(2) by (fastforce simp: run(1,2) nth_Cons' Suc_diff_le)
  show ?case
  proof (cases r)
    case (Inr l)
    from issue_ok [OF step [unfolded Inr], of t a] show ?thesis
      using IH tail 2(3) ok(2) kept by (auto simp: run Inr)
  qed (use IH(1) tail run(3) in auto)
qed simp

lemma ask_issued:
  "ask_leases env req g n now idx hs d = (granted, hs', d') \<Longrightarrow> (k, l) \<in> set granted \<Longrightarrow>
     idx \<le> k \<and> k < idx + length hs \<and> (\<exists>d1 h' d2. issue_lease env req now (hs ! (k - idx)) d1 = (Inr l, h', d2))"
proof (induction env req g n now idx hs d arbitrary: granted hs' d' rule: ask_leases.induct)
  case (2 env req g n now idx h hs d)
  obtain r h1 d1 where step: "issue_lease env req now h d = (r, h1, d1)" by (cases "issue_lease env req now h d")
  obtain granted1 hs1 d2 where rest: "ask_leases env req g n now (Suc idx) hs d1 = (granted1, hs1, d2)"
    by (cases "ask_leases env req g n now (Suc idx) hs d1")
  have "k = idx \<and> r = Inr l \<or> (k, l) \<in> set granted1"
    using 2(2,3) by (auto simp: step rest split: sum.splits if_splits)
  then show ?case
  proof
    assume "(k, l) \<in> set granted1"
    from "2.IH" [OF step [symmetric] refl rest this]
    have ih: "Suc idx \<le> k" "k < Suc idx + length hs"
      "\<exists>d1 h' d2. issue_lease env req now (hs ! (k - Suc idx)) d1 = (Inr l, h', d2)" by blast+
    then have "(h # hs) ! (k - idx) = hs ! (k - Suc idx)" by (simp add: nth_Cons')
    with ih show ?thesis by simp
  qed (use step in auto)
qed simp

lemma open_roster_ok:
  "open_roster env t a ids d = (hs, d') \<Longrightarrow> distinct ids \<Longrightarrow>
     roster_ok t a hs \<and> dk_files d' = dk_files d \<and> set (map ho_id hs) \<subseteq> set ids
     \<and> (\<forall>h\<in>set hs. ho_state h = at_rest env t a d (ho_id h))"
proof (induction env t a ids d arbitrary: hs d' rule: open_roster.induct)
  case (2 env t a i ids d)
  obtain r d1 where step: "holder_open env t a i d = (r, d1)" by (cases "holder_open env t a i d")
  have files: "dk_files d1 = dk_files d"
    using step by (auto simp: holder_open_def read_file_def disk_tick_def Let_def split: if_splits option.splits sum.splits)
  have at: "at_rest env t a d1 j = at_rest env t a d j" for j by (simp add: at_rest_def files)
  show ?case
  proof (cases r)
    case (Inl e)
    then have "open_roster env t a ids d1 = (hs, d')" using "2.prems"(1) by (simp add: step)
    from "2.IH"(1) [OF step [symmetric] Inl this] "2.prems"(2) show ?thesis by (auto simp: files at)
  next
    case (Inr h)
    obtain hs1 d2 where rest: "open_roster env t a ids d1 = (hs1, d2)" by (cases "open_roster env t a ids d1")
    have h: "ho_id h = i" "ho_path h = holder_path t a i" "ho_state h = at_rest env t a d i"
      using step Inr
      by (auto simp: holder_open_def read_file_def at_rest_def disk_tick_def Let_def split: if_splits option.splits sum.splits)
    have run: "hs = h # hs1" "d' = d2" using "2.prems"(1) by (simp_all add: step Inr rest)
    from "2.IH"(2) [OF step [symmetric] Inr rest] "2.prems"(2) h show ?thesis
      by (auto simp: run files at roster_ok_Cons)
  qed
qed (simp add: roster_ok_def)

text \<open>A quorum of the roster keeps the lease of one requester, on disk, at least until a time.\<close>

definition fence_holds :: "hib_env \<Rightarrow> string \<Rightarrow> string \<Rightarrow> disk \<Rightarrow> string list \<Rightarrow> string \<Rightarrow> string \<Rightarrow> u64 \<Rightarrow> bool" where
  "fence_holds env t a d ids lid spawner until \<longleftrightarrow>
     (\<exists>Q \<subseteq> set ids. 2 \<le> card Q \<and> (\<forall>i\<in>Q. \<exists>st. at_rest env t a d i = Some st \<and> grants lid spawner until st))"

lemma fence_blocks:
  assumes "fence_holds env t a d ids lid spawner until" and "distinct ids" and "length ids \<le> 3" and "now < until"
    and "(ur_lease_id req, ur_spawner req) \<noteq> (lid, spawner)"
    and "open_roster env t a ids d = (hs, d1)" and "ask_leases env req g n now 0 hs d1 = (granted, hs', d2)"
    and "hib_codec_ok env"
  shows "length granted < 2"
proof -
  obtain Q where Q: "Q \<subseteq> set ids" "2 \<le> card Q" "\<forall>i\<in>Q. \<exists>st. at_rest env t a d i = Some st \<and> grants lid spawner until st"
    using assms(1) by (auto simp: fence_holds_def)
  note hs = open_roster_ok [OF assms(6,2)]
  have ks: "k < length hs \<and> ho_id (hs ! k) \<in> set ids - Q" if "k \<in> set (map fst granted)" for k
  proof -
    from that obtain l where "(k, l) \<in> set granted" by auto
    from ask_issued [OF assms(7) this] obtain d1 h' d2 where k: "k < length hs"
      and issued: "issue_lease env req now (hs ! k) d1 = (Inr l, h', d2)" by auto
    have state: "ho_state (hs ! k) = at_rest env t a d (ho_id (hs ! k))" and "ho_id (hs ! k) \<in> set ids"
      using hs nth_mem [OF k] by auto
    moreover have "ho_id (hs ! k) \<notin> Q"
    proof
      assume "ho_id (hs ! k) \<in> Q"
      with Q(3) state obtain st where "ho_state (hs ! k) = Some st" "grants lid spawner until st" by metis
      from issue_fenced [OF this assms(4,5)] issued show False by (metis Inl_Inr_False fst_conv)
    qed
    ultimately show ?thesis using k by simp
  qed
  have "length granted = card (set (map fst granted))"
    using ask_granted [OF assms(7,8)] hs by (metis distinct_card length_map)
  also have "\<dots> = card ((\<lambda>k. ho_id (hs ! k)) ` set (map fst granted))"
    using ks hs by (intro card_image [symmetric] inj_onI) (metis length_map nth_eq_iff_index_eq nth_map roster_ok_def)
  also have "\<dots> \<le> card (set ids - Q)"
    using ks by (intro card_mono) auto
  also have "\<dots> \<le> length ids - card Q"
    using Q(1) card_length [of ids] by (metis List.finite_set card_Diff_subset diff_le_mono finite_subset)
  finally show ?thesis using Q(2) assms(3) by linarith
qed

lemma release_keeps: "release_share env l now h d = (r, h', d') \<Longrightarrow> ho_id h' = ho_id h \<and> ho_path h' = ho_path h"
  by (auto simp: release_share_def Let_def split: option.splits if_splits dest: commit_state_keeps)

lemma release_other: "release_share env l now h d = (r, h', d') \<Longrightarrow> plain_path p \<Longrightarrow> p \<noteq> ho_path h \<Longrightarrow>
    dk_files d' p = dk_files d p"
  by (auto simp: release_share_def Let_def split: option.splits if_splits dest: commit_state_other)

definition stands :: "hib_env \<Rightarrow> string \<Rightarrow> string \<Rightarrow> disk \<Rightarrow> string \<Rightarrow> string \<Rightarrow> u64 \<Rightarrow> share_holder \<Rightarrow> bool" where
  "stands env t a d lid spawner until h \<longleftrightarrow>
     (\<exists>st. ho_state h = Some st \<and> at_rest env t a d (ho_id h) = Some st \<and> grants lid spawner until st)"

lemma release_stands:
  assumes "release_share env l now h d = (Inr s, h', d')" and "stands env t a d lid spawner until h"
    and "hib_codec_ok env" and "ho_path h = holder_path t a (ho_id h)"
  shows "stands env t a d' lid spawner until h'"
proof -
  obtain st where st: "ho_state h = Some st" "at_rest env t a d (ho_id h) = Some st" "grants lid spawner until st"
    using assms(2) by (auto simp: stands_def)
  from assms(1) st(1) have "h' = h \<and> d' = d \<or> (\<exists>c x. commit_state env h c x d = (Inr s, h', d')
      \<and> wr_active_lease (hs_record c) = wr_active_lease (hs_record st))"
    by (auto simp: release_share_def Let_def split: option.splits if_splits)
  then show ?thesis
  proof
    assume "\<exists>c x. commit_state env h c x d = (Inr s, h', d') \<and> wr_active_lease (hs_record c) = wr_active_lease (hs_record st)"
    then obtain c x where run: "commit_state env h c x d = (Inr s, h', d')"
      and same: "wr_active_lease (hs_record c) = wr_active_lease (hs_record st)" by blast
    show ?thesis
      using commit_state_ok [OF run] commit_state_at_rest [OF assms(3) run assms(4)] st(3) same
      by (auto simp: stands_def grants_def)
  qed (use assms(2) in simp)
qed

lemma stands_cong: "dk_files d' (holder_path t a (ho_id h)) = dk_files d (holder_path t a (ho_id h)) \<Longrightarrow>
    stands env t a d' lid spawner until h = stands env t a d lid spawner until h"
  by (simp add: stands_def at_rest_def)

lemma release_all_stands:
  "release_all env wake now gs hs d = (Inr ss, hs', d') \<Longrightarrow> hib_codec_ok env \<Longrightarrow> roster_ok t a hs \<Longrightarrow>
     (\<forall>(k, l)\<in>set gs. k < length hs) \<Longrightarrow> K \<subseteq> {..<length hs} \<Longrightarrow>
     (\<forall>k\<in>K. stands env t a d lid spawner until (hs ! k)) \<Longrightarrow>
     roster_ok t a hs' \<and> map ho_id hs' = map ho_id hs \<and> (\<forall>k\<in>K. stands env t a d' lid spawner until (hs' ! k))"
proof (induction env wake now gs hs d arbitrary: ss hs' d' rule: release_all.induct)
  case (2 env wake now idx l rest hs d)
  obtain r h1 d1 where step: "release_share env l now (hs ! idx) d = (r, h1, d1)"
    by (cases "release_share env l now (hs ! idx) d")
  from "2.prems"(1) obtain s ss1 where s: "r = Inr s"
    and run: "release_all env wake now rest (hs[idx := h1]) d1 = (Inr ss1, hs', d')"
    and bound: "\<not> (sh_epoch s \<noteq> se_epoch (wq_seal wake) \<or> sh_commitment s \<notin> set (se_commitments (wq_seal wake)))"
    by (auto simp: step split: sum.splits prod.splits if_splits)
  have idx: "idx < length hs" using "2.prems"(4) by simp
  have same: "ho_id h1 = ho_id (hs ! idx)" "ho_path h1 = ho_path (hs ! idx)"
    using release_keeps [OF step] by simp_all
  have ids: "map ho_id (hs[idx := h1]) = map ho_id hs"
    using idx same(1) by (simp add: map_update list_update_id [of "map ho_id hs" idx, simplified nth_map [OF idx]])
  have ros: "roster_ok t a (hs[idx := h1])"
    using "2.prems"(3) idx same ids by (auto simp: roster_ok_def set_conv_nth nth_list_update)
  have K: "\<forall>k\<in>K. stands env t a d1 lid spawner until (hs[idx := h1] ! k)"
  proof
    fix k assume k: "k \<in> K"
    then have kl: "k < length hs" using "2.prems"(5) by auto
    show "stands env t a d1 lid spawner until (hs[idx := h1] ! k)"
    proof (cases "k = idx")
      case True
      then show ?thesis
        using release_stands [OF step [unfolded s] _ "2.prems"(2)] "2.prems"(3,6) k idx
        by (auto simp: roster_ok_def)
    next
      case False
      then have "ho_id (hs ! k) \<noteq> ho_id (hs ! idx)"
        using "2.prems"(3) kl idx by (auto simp: roster_ok_def distinct_conv_nth)
      then have "dk_files d1 (holder_path t a (ho_id (hs ! k))) = dk_files d (holder_path t a (ho_id (hs ! k)))"
        using "2.prems"(3) idx by (intro release_other [OF step]) (auto simp: roster_ok_def)
      from stands_cong [OF this, THEN iffD2] show ?thesis using False "2.prems"(6) k by simp
    qed
  qed
  show ?case
    using "2.IH" [OF step [symmetric] s refl bound run "2.prems"(2) ros _ _ K] "2.prems"(4,5) ids by simp
qed simp

lemma aggregate_expiry:
  assumes "gs \<noteq> []" and "\<forall>(k, l)\<in>set gs. ql_expires_at l = e \<and> ql_lease_id l = lid \<and> ql_spawner l = sp
      \<and> ql_bundle_digest l = g \<and> ql_resume_seq l = n"
  shows "ql_expires_at (aggregate_lease gs) = e \<and> ql_lease_id (aggregate_lease gs) = lid
    \<and> ql_spawner (aggregate_lease gs) = sp \<and> ql_bundle_digest (aggregate_lease gs) = g \<and> ql_resume_seq (aggregate_lease gs) = n"
proof -
  have "set (map (ql_expires_at \<circ> snd) gs) = {e}" using assms by (cases gs) (auto simp: image_def)
  moreover have "gs ! 0 \<in> set gs" using assms(1) by simp
  ultimately show ?thesis using assms(2) by (force simp: aggregate_lease_def Let_def)
qed

text \<open>A quorum that was granted stands for the aggregated lease.\<close>

lemma gathered_fence:
  assumes "open_roster env t a ids d = (hs, d1)" and "distinct ids" and "hib_codec_ok env"
    and "gather_leases env req g n 2 now hs d1 = (Inr granted, hs', d2)"
  shows "roster_ok t a hs' \<and> set (map ho_id hs') \<subseteq> set ids \<and> granted \<noteq> [] \<and> 2 \<le> length granted
    \<and> distinct (map fst granted) \<and> set (map fst granted) \<subseteq> {..<length hs'}
    \<and> (\<forall>k\<in>set (map fst granted). stands env t a d2 (ur_lease_id req) (ur_spawner req) (saturating_add now (ur_ttl_secs req)) (hs' ! k))
    \<and> ql_expires_at (aggregate_lease granted) = saturating_add now (ur_ttl_secs req)
    \<and> ql_lease_id (aggregate_lease granted) = ur_lease_id req \<and> ql_spawner (aggregate_lease granted) = ur_spawner req
    \<and> ql_bundle_digest (aggregate_lease granted) = g \<and> ql_resume_seq (aggregate_lease granted) = n"
proof -
  have ask: "ask_leases env req g n now 0 hs d1 = (granted, hs', d2)" and len: "2 \<le> length granted"
    using assms(4) by (auto simp: gather_leases_def split: prod.splits if_splits)
  note hs = open_roster_ok [OF assms(1,2)]
  note got = ask_granted [OF ask assms(3) hs [THEN conjunct1]] and ros = ask_roster [OF ask]
  have l: "length hs' = length hs" using ros by (metis length_map)
  have id: "ho_id (hs' ! k) = ho_id (hs ! k)" if "k < length hs" for k
    using ros that l by (metis nth_map)
  have "roster_ok t a hs'"
    using hs ros l unfolding roster_ok_def by (metis in_set_conv_nth nth_map)
  moreover have "set (map ho_id hs') \<subseteq> set ids" using hs ros by simp
  moreover have "granted \<noteq> []" using len by auto
  moreover have "set (map fst granted) \<subseteq> {..<length hs'}" using got l by fastforce
  moreover have "\<forall>k\<in>set (map fst granted). stands env t a d2 (ur_lease_id req) (ur_spawner req) (saturating_add now (ur_ttl_secs req)) (hs' ! k)"
    using got id by (fastforce simp: stands_def)
  moreover have "\<forall>(k, l)\<in>set granted. ql_expires_at l = saturating_add now (ur_ttl_secs req) \<and> ql_lease_id l = ur_lease_id req
      \<and> ql_spawner l = ur_spawner req \<and> ql_bundle_digest l = g \<and> ql_resume_seq l = n"
    using got by fastforce
  ultimately show ?thesis using got len aggregate_expiry by blast
qed

lemma stands_fence:
  assumes "roster_ok t a hs" and "set (map ho_id hs) \<subseteq> set ids" and "distinct (map fst gs)" and "2 \<le> length gs"
    and "set (map fst gs) \<subseteq> {..<length hs}" and "\<forall>k\<in>set (map fst gs). stands env t a d lid spawner until (hs ! k)"
  shows "fence_holds env t a d ids lid spawner until"
proof -
  let ?Q = "(\<lambda>k. ho_id (hs ! k)) ` set (map fst gs)"
  have "?Q \<subseteq> set ids" using assms(2,5) by fastforce
  have "inj_on (\<lambda>k. ho_id (hs ! k)) (set (map fst gs))"
    using assms(1,5) by (intro inj_onI) (metis lessThan_iff length_map nth_eq_iff_index_eq nth_map roster_ok_def subsetD)
  then have "2 \<le> card ?Q" using assms(3,4) by (simp only: card_image distinct_card length_map)
  moreover have "\<forall>i\<in>?Q. \<exists>st. at_rest env t a d i = Some st \<and> grants lid spawner until st"
    using assms(6) by (force simp: stands_def)
  ultimately show ?thesis using \<open>?Q \<subseteq> set ids\<close> unfolding fence_holds_def by blast
qed

abbreviation spawner_req :: "string \<Rightarrow> spawner_proposal \<Rightarrow> unseal_request" where
  "spawner_req npub s \<equiv> \<lparr>ur_npub = npub, ur_lease_id = pr_lease_id s, ur_spawner = pr_ephemeral_pubkey s, ur_ttl_secs = pr_ttl_secs s\<rparr>"

lemma validate_seal_ok: "validate_seal wake = Inr u \<longleftrightarrow> se_threshold (wq_seal wake) = SEAL_THRESHOLD
    \<and> length (se_holders (wq_seal wake)) = length (se_commitments (wq_seal wake)) \<and> distinct (se_holders (wq_seal wake))"
  by (auto simp: validate_seal_def Let_def)

lemma threshold_nat [simp]: "unat SEAL_THRESHOLD = 2" "unat SEAL_SHARES = 3"
  by (simp_all add: SEAL_THRESHOLD_def SEAL_SHARES_def)

lemma load_bundle_files: "load_bundle env t a g d = (r, d') \<Longrightarrow> dk_files d' = dk_files d"
  by (auto simp: load_bundle_def read_file_def disk_tick_def Let_def split: option.splits sum.splits if_splits)

lemma reconstitute_steps:
  assumes "reconstitute env t a npub wake s now d = (Inr rt, d')"
  obtains hs d1 granted hs1 d2 shares hs2 d3 seed sealed_bundle where
    "distinct (se_holders (wq_seal wake))"
    and "open_roster env t a (se_holders (wq_seal wake)) d = (hs, d1)"
    and "gather_leases env (spawner_req npub s) (wq_bundle_digest wake) (wq_resume_seq wake) 2 now hs d1 = (Inr granted, hs1, d2)"
    and "release_all env wake now (take 2 granted) hs1 d2 = (Inr shares, hs2, d3)"
    and "combine_shares env shares = Inr seed"
    and "load_bundle env t a (wq_bundle_digest wake) d3 = (Inr sealed_bundle, d')"
    and "rt = \<lparr>rt_npub = npub, rt_lease = aggregate_lease granted, rt_subkeys = derive_subkeys env seed, rt_bundle = sealed_bundle,
       rt_treasury_dir = t, rt_agent_id = a, rt_holder_ids = se_holders (wq_seal wake)\<rparr>"
  using assms
  by (auto simp: reconstitute_def Let_def validate_seal_ok split: sum.splits prod.splits)

lemma fence_cong: "dk_files d' = dk_files d \<Longrightarrow> fence_holds env t a d' ids lid spawner until = fence_holds env t a d ids lid spawner until"
  by (simp add: fence_holds_def at_rest_def)

lemma reconstitute_fence:
  assumes "reconstitute env t a npub wake s now d = (Inr rt, d')" and "hib_codec_ok env"
  shows "fence_holds env t a d' (se_holders (wq_seal wake)) (pr_lease_id s) (pr_ephemeral_pubkey s) (ql_expires_at (rt_lease rt))
    \<and> rt_treasury_dir rt = t \<and> rt_agent_id rt = a \<and> rt_holder_ids rt = se_holders (wq_seal wake) \<and> distinct (rt_holder_ids rt)
    \<and> ql_lease_id (rt_lease rt) = pr_lease_id s \<and> ql_spawner (rt_lease rt) = pr_ephemeral_pubkey s
    \<and> ql_expires_at (rt_lease rt) = saturating_add now (pr_ttl_secs s)"
proof -
  obtain hs d1 granted hs1 d2 shares hs2 d3 seed sealed_bundle where
    steps: "distinct (se_holders (wq_seal wake))"
    "open_roster env t a (se_holders (wq_seal wake)) d = (hs, d1)"
    "gather_leases env (spawner_req npub s) (wq_bundle_digest wake) (wq_resume_seq wake) 2 now hs d1 = (Inr granted, hs1, d2)"
    "release_all env wake now (take 2 granted) hs1 d2 = (Inr shares, hs2, d3)"
    "load_bundle env t a (wq_bundle_digest wake) d3 = (Inr sealed_bundle, d')"
    "rt = \<lparr>rt_npub = npub, rt_lease = aggregate_lease granted, rt_subkeys = derive_subkeys env seed, rt_bundle = sealed_bundle,
       rt_treasury_dir = t, rt_agent_id = a, rt_holder_ids = se_holders (wq_seal wake)\<rparr>"
    using reconstitute_steps [OF assms(1)] by metis
  note got = gathered_fence [OF steps(2,1) assms(2) steps(3), simplified]
  have sub: "\<forall>(k, l)\<in>set (take 2 granted). k < length hs1" using got set_take_subset [of 2 granted] by fastforce
  have kept: "roster_ok t a hs2 \<and> map ho_id hs2 = map ho_id hs1 \<and> (\<forall>k\<in>set (map fst granted).
      stands env t a d3 (pr_lease_id s) (pr_ephemeral_pubkey s) (saturating_add now (pr_ttl_secs s)) (hs2 ! k))"
    using got by (intro release_all_stands [OF steps(4) assms(2) _ sub]) auto
  have "length hs2 = length hs1" using kept by (metis length_map)
  then have "fence_holds env t a d3 (se_holders (wq_seal wake)) (pr_lease_id s) (pr_ephemeral_pubkey s) (saturating_add now (pr_ttl_secs s))"
    using got kept by (intro stands_fence [where hs = hs2 and gs = granted]) simp_all
  then show ?thesis using got steps fence_cong [OF load_bundle_files [OF steps(5)]] by simp
qed

text \<open>A renewal that does not shorten the lease keeps the fence, whatever its outcome.\<close>

lemma commit_state_either:
  assumes "commit_state env h c x d = (r, h', d')" and "hib_codec_ok env" and "ho_path h = holder_path t a (ho_id h)"
  shows "at_rest env t a d' (ho_id h) \<in> {at_rest env t a d (ho_id h), Some c}"
proof -
  have "write_atomic env p data d = (q, d') \<Longrightarrow> plain_path p \<Longrightarrow> dk_files d' p \<in> {dk_files d p, Some data}" for p data q
    by (auto simp: write_atomic_def Let_def disk_tick_def split: if_splits option.splits write_step.splits)
  from this [of "holder_path t a (ho_id h)"] show ?thesis
    using assms by (auto simp: commit_state_def write_state_def at_rest_def hib_codec_ok_def split: sum.splits prod.splits)
      fastforce+
qed

definition kept_grant :: "hib_env \<Rightarrow> string \<Rightarrow> string \<Rightarrow> disk \<Rightarrow> string \<Rightarrow> string \<Rightarrow> u64 \<Rightarrow> string \<Rightarrow> bool" where
  "kept_grant env t a d lid spawner until i \<longleftrightarrow> (\<exists>st. at_rest env t a d i = Some st \<and> grants lid spawner until st)"

lemma issue_kept:
  assumes "issue_lease env req now h d = (r, h', d')" and "hib_codec_ok env" and "ho_path h = holder_path t a (ho_id h)"
    and "kept_grant env t a d (ur_lease_id req) (ur_spawner req) until i"
    and "until \<le> saturating_add now (ur_ttl_secs req)"
  shows "kept_grant env t a d' (ur_lease_id req) (ur_spawner req) until i"
proof (cases "i = ho_id h")
  case False
  then have "at_rest env t a d' i = at_rest env t a d i"
    using assms(3) by (intro at_rest_cong issue_other [OF assms(1)]) auto
  then show ?thesis using assms(4) by (simp add: kept_grant_def)
next
  case True
  consider "d' = d" | c x where "commit_state env h c x d = (r, h', d')" "grants (ur_lease_id req) (ur_spawner req) until c"
    using assms(1,5) by (fastforce simp: issue_lease_def Let_def grants_def split: option.splits if_splits)
  then show ?thesis
  proof cases
    case 2
    from commit_state_either [OF 2(1) assms(2,3)] show ?thesis using 2(2) assms(4) True by (auto simp: kept_grant_def)
  qed (use assms(4) in simp)
qed

lemma ask_kept:
  "ask_leases env req g n now idx hs d = (granted, hs', d') \<Longrightarrow> hib_codec_ok env \<Longrightarrow> roster_ok t a hs \<Longrightarrow>
     until \<le> saturating_add now (ur_ttl_secs req) \<Longrightarrow>
     kept_grant env t a d (ur_lease_id req) (ur_spawner req) until i \<Longrightarrow>
     kept_grant env t a d' (ur_lease_id req) (ur_spawner req) until i"
  by (induction env req g n now idx hs d arbitrary: granted hs' d' rule: ask_leases.induct)
    (auto simp: roster_ok_Cons split: prod.splits dest!: issue_kept)

lemma fence_kept: "fence_holds env t a d ids lid spawner until \<longleftrightarrow>
    (\<exists>Q \<subseteq> set ids. 2 \<le> card Q \<and> (\<forall>i\<in>Q. kept_grant env t a d lid spawner until i))"
  by (simp add: fence_holds_def kept_grant_def)

text \<open>The runtime's fence, for the lease it holds now.\<close>

definition fenced_runtime :: "hib_env \<Rightarrow> disk \<Rightarrow> leased_runtime \<Rightarrow> bool" where
  "fenced_runtime env d rt \<longleftrightarrow> distinct (rt_holder_ids rt)
     \<and> fence_holds env (rt_treasury_dir rt) (rt_agent_id rt) d (rt_holder_ids rt) (ql_lease_id (rt_lease rt))
         (ql_spawner (rt_lease rt)) (ql_expires_at (rt_lease rt))"

lemma renew_fenced:
  assumes "renew env ttl now rt d = (r, rt', d')" and "fenced_runtime env d rt" and "hib_codec_ok env"
    and "ql_expires_at (rt_lease rt) \<le> saturating_add now ttl"
  shows "fenced_runtime env d' rt' \<and> rt_holder_ids rt' = rt_holder_ids rt \<and> rt_treasury_dir rt' = rt_treasury_dir rt
    \<and> rt_agent_id rt' = rt_agent_id rt \<and> ql_lease_id (rt_lease rt') = ql_lease_id (rt_lease rt)
    \<and> ql_spawner (rt_lease rt') = ql_spawner (rt_lease rt)"
proof (cases "runtime_is_live rt now")
  case True
  let ?t = "rt_treasury_dir rt" and ?a = "rt_agent_id rt" and ?ids = "rt_holder_ids rt" and ?l = "rt_lease rt"
  let ?req = "\<lparr>ur_npub = rt_npub rt, ur_lease_id = ql_lease_id ?l, ur_spawner = ql_spawner ?l, ur_ttl_secs = ttl\<rparr>"
  obtain hs d1 where opened: "open_roster env ?t ?a ?ids d = (hs, d1)" by (cases "open_roster env ?t ?a ?ids d")
  obtain q hs' d2 where asked: "gather_leases env ?req (ql_bundle_digest ?l) (ql_resume_seq ?l) 2 now hs d1 = (q, hs', d2)"
    by (cases "gather_leases env ?req (ql_bundle_digest ?l) (ql_resume_seq ?l) 2 now hs d1")
  obtain granted where ask: "ask_leases env ?req (ql_bundle_digest ?l) (ql_resume_seq ?l) now 0 hs d1 = (granted, hs', d2)"
    using asked by (auto simp: gather_leases_def split: prod.splits)
  have ids: "distinct ?ids" and holds: "fence_holds env ?t ?a d ?ids (ql_lease_id ?l) (ql_spawner ?l) (ql_expires_at ?l)"
    using assms(2) by (simp_all add: fenced_runtime_def)
  note hs = open_roster_ok [OF opened ids]
  have run: "(r, rt', d') = (case q of Inl e \<Rightarrow> (Inl e, rt, d2)
      | Inr granted \<Rightarrow> (Inr (), rt\<lparr>rt_lease := aggregate_lease granted\<rparr>, d2))"
    using assms(1) True by (simp add: renew_def opened asked split: sum.splits)
  show ?thesis
  proof (cases q)
    case (Inl e)
    have "kept_grant env ?t ?a d2 (ql_lease_id ?l) (ql_spawner ?l) (ql_expires_at ?l) i"
      if "kept_grant env ?t ?a d (ql_lease_id ?l) (ql_spawner ?l) (ql_expires_at ?l) i" for i
    proof -
      have "kept_grant env ?t ?a d1 (ur_lease_id ?req) (ur_spawner ?req) (ql_expires_at ?l) i"
        using that hs by (simp add: kept_grant_def at_rest_def)
      from ask_kept [OF ask assms(3) hs [THEN conjunct1] _ this] assms(4) show ?thesis by simp
    qed
    then have "fence_holds env ?t ?a d2 ?ids (ql_lease_id ?l) (ql_spawner ?l) (ql_expires_at ?l)"
      using holds unfolding fence_kept by blast
    then show ?thesis using run Inl ids by (simp add: fenced_runtime_def)
  next
    case (Inr gs)
    note got = gathered_fence [OF opened ids assms(3) asked [unfolded Inr], simplified]
    have "fence_holds env ?t ?a d2 ?ids (ql_lease_id ?l) (ql_spawner ?l) (saturating_add now ttl)"
      using got by (intro stands_fence [where hs = hs' and gs = gs]) simp_all
    then show ?thesis using run Inr ids got by (simp add: fenced_runtime_def)
  qed
qed (use assms in \<open>simp add: renew_def\<close>)

fun renewals :: "hib_env \<Rightarrow> (u64 \<times> u64) list \<Rightarrow> leased_runtime \<Rightarrow> disk \<Rightarrow> leased_runtime \<times> disk" where
  "renewals env [] rt d = (rt, d)"
| "renewals env ((now, ttl) # calls) rt d = (case renew env ttl now rt d of (r, rt', d') \<Rightarrow> renewals env calls rt' d')"

text \<open>No call asks for less than the runtime already has.\<close>

fun extending :: "hib_env \<Rightarrow> (u64 \<times> u64) list \<Rightarrow> leased_runtime \<Rightarrow> disk \<Rightarrow> bool" where
  "extending env [] rt d \<longleftrightarrow> True"
| "extending env ((now, ttl) # calls) rt d \<longleftrightarrow> ql_expires_at (rt_lease rt) \<le> saturating_add now ttl
     \<and> (case renew env ttl now rt d of (r, rt', d') \<Rightarrow> extending env calls rt' d')"

lemma renewals_fenced:
  "renewals env calls rt d = (rt', d') \<Longrightarrow> extending env calls rt d \<Longrightarrow> fenced_runtime env d rt \<Longrightarrow> hib_codec_ok env \<Longrightarrow>
     fenced_runtime env d' rt' \<and> rt_holder_ids rt' = rt_holder_ids rt \<and> rt_treasury_dir rt' = rt_treasury_dir rt
     \<and> rt_agent_id rt' = rt_agent_id rt \<and> ql_lease_id (rt_lease rt') = ql_lease_id (rt_lease rt)
     \<and> ql_spawner (rt_lease rt') = ql_spawner (rt_lease rt)"
proof (induction env calls rt d arbitrary: rt' d' rule: renewals.induct)
  case (2 env now ttl calls rt d)
  obtain r rt1 d1 where step: "renew env ttl now rt d = (r, rt1, d1)" by (cases "renew env ttl now rt d")
  note first = renew_fenced [OF step "2.prems"(3,4)]
  show ?case using "2.IH" [OF step [symmetric] refl, of rt' d'] "2.prems" first by (simp add: step)
qed simp

text \<open>C12: One live runtime. Once an unseal gave a spawner a runtime, and however often that runtime renewed its
  lease since (whether or not a renewal succeeded, as long as none asked for less than it had), an unseal by
  any other spawner from the same three holders fails for want of a quorum, at every time before the runtime's
  lease runs out; storage may fail at any step of either.\<close>

theorem one_live_runtime:
  assumes "hib_codec_ok env" and "length (se_holders (wq_seal wake)) \<le> 3"
    and "reconstitute env t a npub wake s now d = (Inr rt, d1)"
    and "renewals env calls rt d1 = (rt', d2)" and "extending env calls rt d1"
    and "now' < ql_expires_at (rt_lease rt')"
    and "(pr_lease_id s', pr_ephemeral_pubkey s') \<noteq> (pr_lease_id s, pr_ephemeral_pubkey s)"
  shows "\<exists>n<2. fst (reconstitute env t a npub' wake s' now' d2) = Inl (UnsealQuorum n 2)"
proof -
  note rt = reconstitute_fence [OF assms(3,1)]
  have "fenced_runtime env d1 rt" unfolding fenced_runtime_def by (metis rt)
  note kept = renewals_fenced [OF assms(4,5) this assms(1)]
  obtain hs d3 where opened: "open_roster env t a (se_holders (wq_seal wake)) d2 = (hs, d3)"
    by (cases "open_roster env t a (se_holders (wq_seal wake)) d2")
  obtain granted hs' d4 where ask: "ask_leases env (spawner_req npub' s') (wq_bundle_digest wake) (wq_resume_seq wake) now' 0 hs d3
      = (granted, hs', d4)"
    by (cases "ask_leases env (spawner_req npub' s') (wq_bundle_digest wake) (wq_resume_seq wake) now' 0 hs d3")
  have "fence_holds env t a d2 (se_holders (wq_seal wake)) (pr_lease_id s) (pr_ephemeral_pubkey s) (ql_expires_at (rt_lease rt'))"
    using kept rt unfolding fenced_runtime_def by metis
  moreover have "(ur_lease_id (spawner_req npub' s'), ur_spawner (spawner_req npub' s')) \<noteq> (pr_lease_id s, pr_ephemeral_pubkey s)"
    using assms(7) by simp
  ultimately have short: "length granted < 2"
    using fence_blocks [OF _ _ assms(2,6) _ opened ask assms(1)] rt by metis
  obtain u where "validate_seal wake = Inr u"
    using assms(3) by (auto simp: reconstitute_def split: sum.splits)
  then show ?thesis
    using short by (intro exI [of _ "length granted"]) (simp add: reconstitute_def Let_def opened gather_leases_def ask)
qed

end
