(* ===== verification/Hibernate_Seal.thy ===== *)
theory Hibernate_Seal
  imports Hibernate_Props
begin

text \<open>
  Sealing and waking: what the distribution of the shares leaves on disk, that a revoked seal never wakes, and
  that a committed one wakes as the agent that went to sleep.
\<close>

section \<open>Distribution\<close>

definition fresh_state :: "share \<Rightarrow> string \<Rightarrow> string \<Rightarrow> u64 \<Rightarrow> u64 \<Rightarrow> holder_state" where
  "fresh_state s npub g n wake_at = \<lparr>hs_record = \<lparr>wr_npub = npub, wr_epoch = sh_epoch s, wr_bundle_digest = g,
     wr_resume_seq = n, wr_wake_at = wake_at, wr_share_commitment = sh_commitment s, wr_active_lease = None,
     wr_history = []\<rparr>, hs_share = s\<rparr>"

lemma open_ok: "holder_open env t a i d = (Inr h, d') \<Longrightarrow>
    ho_id h = i \<and> ho_path h = holder_path t a i \<and> ho_state h = at_rest env t a d i \<and> dk_files d' = dk_files d"
  by (auto simp: holder_open_def read_file_def at_rest_def disk_tick_def Let_def split: if_splits option.splits sum.splits)

lemma receive_ok:
  assumes "receive_share env s npub g n wake_at h d = (Inr ack, h', d')" and "hib_codec_ok env"
    and "ho_path h = holder_path t a (ho_id h)" and "ho_state h = at_rest env t a d (ho_id h)"
  shows "\<exists>st. at_rest env t a d' (ho_id h) = Some st \<and> ack = ack_from (ho_id h) (hs_record st)
    \<and> wr_epoch (hs_record st) = sh_epoch s
    \<and> (st = fresh_state s npub g n wake_at
       \<or> at_rest env t a d (ho_id h) = Some st \<and> wr_epoch (hs_record st) = sh_epoch s)"
proof -
  consider st where "ho_state h = Some st" "wr_epoch (hs_record st) = sh_epoch s" "ack = ack_from (ho_id h) (hs_record st)" "d' = d"
    | "commit_state env h (fresh_state s npub g n wake_at) (ack_from (ho_id h) (hs_record (fresh_state s npub g n wake_at))) d = (Inr ack, h', d')"
    using assms(1) by (auto simp: receive_share_def fresh_state_def Let_def split: sum.splits option.splits if_splits)
  then show ?thesis
  proof cases
    case 2
    from commit_state_ok [OF 2] commit_state_at_rest [OF assms(2) 2 assms(3)] show ?thesis
      by (auto simp: fresh_state_def)
  qed (use assms(4) in auto)
qed

lemma receive_other: "receive_share env s npub g n wake_at h d = (r, h', d') \<Longrightarrow> plain_path p \<Longrightarrow> p \<noteq> ho_path h \<Longrightarrow>
    dk_files d' p = dk_files d p"
  by (auto simp: receive_share_def Let_def split: sum.splits option.splits if_splits dest: commit_state_other)

lemma distribute_other:
  "distribute env t a npub g n wake_at pairs acks d = (r, d') \<Longrightarrow> plain_path p \<Longrightarrow>
     (\<forall>i\<in>set (map snd pairs). p \<noteq> holder_path t a i) \<Longrightarrow> dk_files d' p = dk_files d p"
proof (induction env t a npub g n wake_at pairs acks d arbitrary: r d' rule: distribute.induct)
  case (2 env t a npub g n wake_at s i rest acks d)
  obtain q d1 where opened: "holder_open env t a i d = (q, d1)" by (cases "holder_open env t a i d")
  have files: "dk_files d1 = dk_files d"
    using opened by (auto simp: holder_open_def read_file_def disk_tick_def Let_def split: if_splits option.splits sum.splits)
  show ?case
  proof (cases q)
    case (Inl e)
    then show ?thesis using "2.prems"(1) files by (auto simp: opened)
  next
    case (Inr h)
    obtain q2 h1 d2 where received: "receive_share env s npub g n wake_at h d1 = (q2, h1, d2)"
      by (cases "receive_share env s npub g n wake_at h d1")
    have step: "dk_files d2 p = dk_files d p"
      using receive_other [OF received "2.prems"(2)] open_ok [OF opened [unfolded Inr]] files "2.prems"(3) by auto
    show ?thesis
    proof (cases q2)
      case (Inl e)
      then show ?thesis using "2.prems"(1) step \<open>q = Inr h\<close> by (auto simp: opened received)
    next
      case (Inr ack)
      then show ?thesis
        using "2.IH" [OF opened [symmetric] \<open>q = Inr h\<close> received [symmetric] Inr refl] "2.prems" step
        by (simp add: opened \<open>q = Inr h\<close> received)
    qed
  qed
qed simp

lemma distribute_ok:
  assumes "distribute env t a npub g n wake_at pairs acks d = (Inr acks', d')" and "hib_codec_ok env"
    and "distinct (map snd pairs)"
  shows "\<exists>new. acks' = acks @ new \<and> length new = length pairs
    \<and> (\<forall>k<length pairs. \<exists>st. at_rest env t a d' (snd (pairs ! k)) = Some st
         \<and> new ! k = ack_from (snd (pairs ! k)) (hs_record st) \<and> wr_epoch (hs_record st) = sh_epoch (fst (pairs ! k))
         \<and> (st = fresh_state (fst (pairs ! k)) npub g n wake_at
            \<or> at_rest env t a d (snd (pairs ! k)) = Some st \<and> wr_epoch (hs_record st) = sh_epoch (fst (pairs ! k))))"
  using assms
proof (induction env t a npub g n wake_at pairs acks d arbitrary: acks' d' rule: distribute.induct)
  case (2 env t a npub g n wake_at s i rest acks d)
  from "2.prems"(1) obtain h d1 ack h1 d2 where opened: "holder_open env t a i d = (Inr h, d1)"
    and received: "receive_share env s npub g n wake_at h d1 = (Inr ack, h1, d2)"
    and run: "distribute env t a npub g n wake_at rest (acks @ [ack]) d2 = (Inr acks', d')"
    by (auto split: sum.splits prod.splits)
  note o = open_ok [OF opened]
  have at: "at_rest env t a d1 j = at_rest env t a d j" for j using o by (simp add: at_rest_def)
  obtain st where st: "at_rest env t a d2 i = Some st" "ack = ack_from i (hs_record st)" "wr_epoch (hs_record st) = sh_epoch s"
    "st = fresh_state s npub g n wake_at \<or> at_rest env t a d i = Some st \<and> wr_epoch (hs_record st) = sh_epoch s"
    using receive_ok [OF received "2.prems"(2), of t a] o at by auto
  have kept: "at_rest env t a d' i = at_rest env t a d2 i"
    using "2.prems"(3) by (intro at_rest_cong distribute_other [OF run]) auto
  have before: "at_rest env t a d2 j = at_rest env t a d j" if "j \<noteq> i" for j
    using that o at by (metis at_rest_cong holder_path_inj plain_holder_path receive_other [OF received])
  obtain new where new: "acks' = (acks @ [ack]) @ new" "length new = length rest"
    "\<forall>k<length rest. \<exists>st. at_rest env t a d' (snd (rest ! k)) = Some st
         \<and> new ! k = ack_from (snd (rest ! k)) (hs_record st) \<and> wr_epoch (hs_record st) = sh_epoch (fst (rest ! k))
         \<and> (st = fresh_state (fst (rest ! k)) npub g n wake_at
            \<or> at_rest env t a d2 (snd (rest ! k)) = Some st \<and> wr_epoch (hs_record st) = sh_epoch (fst (rest ! k)))"
    using "2.IH" [OF opened [symmetric] refl received [symmetric] refl refl run "2.prems"(2)] "2.prems"(3) by auto
  have rest: "snd (rest ! k) \<noteq> i" if "k < length rest" for k
    using that "2.prems"(3) nth_mem [of k rest] by force
  show ?case
  proof (intro exI [of _ "ack # new"] conjI allI impI)
    fix k assume k: "k < length ((s, i) # rest)"
    show "\<exists>st. at_rest env t a d' (snd (((s, i) # rest) ! k)) = Some st
        \<and> (ack # new) ! k = ack_from (snd (((s, i) # rest) ! k)) (hs_record st)
        \<and> wr_epoch (hs_record st) = sh_epoch (fst (((s, i) # rest) ! k))
        \<and> (st = fresh_state (fst (((s, i) # rest) ! k)) npub g n wake_at
           \<or> at_rest env t a d (snd (((s, i) # rest) ! k)) = Some st
             \<and> wr_epoch (hs_record st) = sh_epoch (fst (((s, i) # rest) ! k)))"
    proof (cases k)
      case 0
      then show ?thesis using st kept by auto
    next
      case (Suc k')
      then have k': "k' < length rest" using k by simp
      show ?thesis using new(3) [rule_format, OF k'] before [OF rest [OF k']] by (simp add: Suc)
    qed
  qed (use new in simp_all)
qed simp

section \<open>What a ceremony went through\<close>

lemma split_seed_props: "length (split_seed env seed e draw) = 3"
  "s \<in> set (split_seed env seed e draw) \<Longrightarrow> sh_epoch s = e"
  by (auto simp: split_seed_def Let_def split: prod.splits)

lemma holder_ids [simp]: "length HOLDER_IDS = 3" "distinct HOLDER_IDS"
  by (simp_all add: HOLDER_IDS_def)

lemma shares_zip: "map snd (zip (split_seed env seed e draw) HOLDER_IDS) = HOLDER_IDS"
  "length (zip (split_seed env seed e draw) HOLDER_IDS) = 3"
  "k < 3 \<Longrightarrow> zip (split_seed env seed e draw) HOLDER_IDS ! k = (split_seed env seed e draw ! k, HOLDER_IDS ! k)"
  by (simp_all add: split_seed_props)

abbreviation wake_of :: "seal_config \<Rightarrow> string \<Rightarrow> state_bundle \<Rightarrow> string list \<Rightarrow> wake_request" where
  "wake_of config digest b commitments \<equiv> \<lparr>wq_wake_at = sc_wake_at config, wq_bundle_digest = digest,
     wq_image_ref = sc_image_ref config, wq_seal = \<lparr>se_holders = HOLDER_IDS, se_threshold = SEAL_THRESHOLD,
     se_commitments = commitments, se_epoch = sc_seal_epoch config\<rparr>,
     wq_resume_seq = sb_resume_seq b, wq_solvency_hint = sc_solvency_hint config\<rparr>"

text \<open>A ceremony that came as far as publishing.\<close>

definition published ::
  "hib_env \<Rightarrow> seal_config \<Rightarrow> bytes \<Rightarrow> 'w wake_transport \<Rightarrow> ('w \<Rightarrow> (string + state_bundle) \<times> 'w) \<Rightarrow> disk \<Rightarrow> 'w
     \<Rightarrow> state_bundle \<Rightarrow> disk \<Rightarrow> disk \<Rightarrow> disk \<Rightarrow> ack list \<Rightarrow> 'w \<Rightarrow> bool" where
  "published env config seed tr quiesce d w b d1 d2 d3 acks w1 \<longleftrightarrow>
     (let dir = sc_treasury_dir config; agent = sc_agent_id config; epoch = sc_seal_epoch config;
          shares = split_seed env seed epoch (dk_tick d1)
      in checked_add epoch 2 \<noteq> None \<and> quiesce w = (Inr b, w1)
        \<and> persist_bundle env dir agent b d = (Inr (compute_digest env b), d1)
        \<and> distribute env dir agent (wt_npub tr) (compute_digest env b) (sb_resume_seq b) (sc_wake_at config)
            (zip shares HOLDER_IDS) [] (disk_tick d1) = (Inr acks, d2)
        \<and> dk_files d3 = dk_files d2
        \<and> acks_match acks (compute_digest env b) epoch (map sh_commitment shares))"

lemma persist_ok: "persist_bundle env t a b d = (Inr g, d') \<Longrightarrow> g = compute_digest env b
    \<and> (\<exists>data. he_bundle_to_json env b = Inr data \<and> dk_files d' = (dk_files d)(bundle_path t a \<mapsto> data))"
  by (auto simp: persist_bundle_def bundle_write_atomic_def Let_def disk_tick_def split: sum.splits prod.splits
    dest!: write_atomic_ok)

lemma seal_cases:
  fixes tr :: "'w wake_transport"
  assumes "seal env config seed tr quiesce d w = (out, seed', d', w')"
  shows "(\<exists>n e. out = SealAborted n e \<and> seed' = seed \<and> e \<noteq> WakeRequestUnconfirmedRevoked \<and> (\<forall>i x. e \<noteq> RevokeFailed i x))
    \<or> (\<exists>b d1 d2 d3 acks w1. published env config seed tr quiesce d w b d1 d2 d3 acks w1
        \<and> commit_seal env config seed tr
            (wake_of config (compute_digest env b) b (map sh_commitment (split_seed env seed (sc_seal_epoch config) (dk_tick d1))))
            acks d3 w1 = (out, seed', d', w'))"
proof -
  show ?thesis
    using assms
    by (auto simp: seal_def published_def Let_def split: if_splits sum.splits prod.splits
      dest!: persist_ok dest: load_bundle_files)
qed

lemma distribute_roster:
  assumes "distribute env t a npub g n wake_at (zip (split_seed env seed e draw) HOLDER_IDS) [] d = (Inr acks, d')"
    and "hib_codec_ok env" and "k < 3"
  shows "\<exists>st. at_rest env t a d' (HOLDER_IDS ! k) = Some st \<and> wr_epoch (hs_record st) = e
    \<and> acks ! k = ack_from (HOLDER_IDS ! k) (hs_record st)
    \<and> (st = fresh_state (split_seed env seed e draw ! k) npub g n wake_at
       \<or> at_rest env t a d (HOLDER_IDS ! k) = Some st)"
proof -
  have e: "sh_epoch (split_seed env seed e draw ! k) = e"
    using split_seed_props(2) [OF nth_mem] assms(3) by (simp add: split_seed_props(1))
  obtain new where "acks = [] @ new" and "\<forall>k<3. \<exists>st. at_rest env t a d' (snd (zip (split_seed env seed e draw) HOLDER_IDS ! k)) = Some st
      \<and> new ! k = ack_from (snd (zip (split_seed env seed e draw) HOLDER_IDS ! k)) (hs_record st)
      \<and> wr_epoch (hs_record st) = sh_epoch (fst (zip (split_seed env seed e draw) HOLDER_IDS ! k))
      \<and> (st = fresh_state (fst (zip (split_seed env seed e draw) HOLDER_IDS ! k)) npub g n wake_at
         \<or> at_rest env t a d (snd (zip (split_seed env seed e draw) HOLDER_IDS ! k)) = Some st
           \<and> wr_epoch (hs_record st) = sh_epoch (fst (zip (split_seed env seed e draw) HOLDER_IDS ! k)))"
    using distribute_ok [OF assms(1,2), unfolded shares_zip] by auto
  from this(1) this(2) [rule_format, OF assms(3), unfolded shares_zip(3) [OF assms(3)] fst_conv snd_conv e] show ?thesis by auto
qed

lemma published_holders:
  assumes "published env config seed tr quiesce d w b d1 d2 d3 acks w1" and "hib_codec_ok env" and "k < 3"
  shows "\<exists>st. at_rest env (sc_treasury_dir config) (sc_agent_id config) d3 (HOLDER_IDS ! k) = Some st
    \<and> wr_epoch (hs_record st) = sc_seal_epoch config
    \<and> (st = fresh_state (split_seed env seed (sc_seal_epoch config) (dk_tick d1) ! k) (wt_npub tr) (compute_digest env b)
            (sb_resume_seq b) (sc_wake_at config)
       \<or> at_rest env (sc_treasury_dir config) (sc_agent_id config) d (HOLDER_IDS ! k) = Some st)"
proof -
  let ?t = "sc_treasury_dir config" and ?a = "sc_agent_id config" and ?e = "sc_seal_epoch config"
  let ?shares = "split_seed env seed ?e (dk_tick d1)"
  have run: "distribute env ?t ?a (wt_npub tr) (compute_digest env b) (sb_resume_seq b) (sc_wake_at config)
      (zip ?shares HOLDER_IDS) [] (disk_tick d1) = (Inr acks, d2)"
    and persist: "persist_bundle env ?t ?a b d = (Inr (compute_digest env b), d1)"
    and files: "dk_files d3 = dk_files d2"
    using assms(1) by (simp_all add: published_def Let_def)
  have before: "at_rest env ?t ?a (disk_tick d1) i = at_rest env ?t ?a d i" for i
    using persist_ok [OF persist] by (auto simp: at_rest_def disk_tick_def)
  have after: "at_rest env ?t ?a d3 i = at_rest env ?t ?a d2 i" for i by (simp add: at_rest_def files)
  from distribute_roster [OF run assms(2,3)] show ?thesis unfolding before after by blast
qed

lemma revoke_frozen:
  assumes "revoke env config seed npub g n e d = (Inr frozen, d')" and "hib_codec_ok env" and "k < 3"
    and "at_rest env (sc_treasury_dir config) (sc_agent_id config) d (HOLDER_IDS ! k) = Some st" and "wr_epoch (hs_record st) \<noteq> e + 1"
  shows "frozen = e + 1 \<and> (\<exists>s. at_rest env (sc_treasury_dir config) (sc_agent_id config) d' (HOLDER_IDS ! k)
    = Some (fresh_state s npub g n U64_MAX))"
proof -
  let ?t = "sc_treasury_dir config" and ?a = "sc_agent_id config"
  let ?shares = "split_seed env seed (e + 1) (dk_tick d)"
  obtain acks where run: "distribute env ?t ?a npub g n U64_MAX (zip ?shares HOLDER_IDS) [] (disk_tick d) = (Inr acks, d')"
    and frozen: "frozen = e + 1"
    using assms(1) by (auto simp: revoke_def Let_def split: sum.splits prod.splits)
  have "at_rest env ?t ?a (disk_tick d) (HOLDER_IDS ! k) = Some st"
    using assms(4) by (simp add: at_rest_def disk_tick_def)
  with distribute_roster [OF run assms(2,3)] assms(5) frozen show ?thesis by auto
qed

lemma ask_refused:
  "ask_leases env req g n now idx hs d = (granted, hs', d') \<Longrightarrow>
     (\<forall>h\<in>set hs. \<exists>st. ho_state h = Some st \<and> now < wr_wake_at (hs_record st)) \<Longrightarrow> granted = []"
proof (induction env req g n now idx hs d arbitrary: granted hs' d' rule: ask_leases.induct)
  case (2 env req g n now idx h hs d)
  have "\<exists>e. issue_lease env req now h d = (Inl e, h, d)"
    using "2.prems"(2) by (auto simp: issue_lease_def Let_def)
  then obtain e where e: "issue_lease env req now h d = (Inl e, h, d)" ..
  obtain granted1 hs1 d1 where rest: "ask_leases env req g n now (Suc idx) hs d = (granted1, hs1, d1)"
    by (cases "ask_leases env req g n now (Suc idx) hs d")
  show ?case using "2.IH" [OF e [symmetric] refl rest] "2.prems" by (simp add: e rest)
qed simp

text \<open>C33: A seal that could not be confirmed is undone. If the ceremony reports that it revoked an unconfirmed
  seal, the agent keeps its seed and is told the epoch after the frozen one, and no wake request, published or
  not, that names holders of this roster reconstitutes it from then on, whoever asks and whatever storage does,
  as long as the holders' files stay.\<close>

theorem revoked_never_wakes:
  assumes "seal env config seed tr quiesce d w = (SealAborted n WakeRequestUnconfirmedRevoked, seed', d', w')"
    and "hib_codec_ok env"
    and "\<forall>i\<in>set HOLDER_IDS. dk_files d2 (holder_path (sc_treasury_dir config) (sc_agent_id config) i)
      = dk_files d' (holder_path (sc_treasury_dir config) (sc_agent_id config) i)"
    and "set (se_holders (wq_seal wake)) \<subseteq> set HOLDER_IDS" and "now < U64_MAX"
  shows "seed' = seed \<and> n = sc_seal_epoch config + 2
    \<and> (\<exists>e. fst (reconstitute env (sc_treasury_dir config) (sc_agent_id config) npub wake s now d2) = Inl e)"
proof -
  let ?t = "sc_treasury_dir config" and ?a = "sc_agent_id config" and ?e = "sc_seal_epoch config"
  obtain b d1 d4 d3 acks w1 where pub: "published env config seed tr quiesce d w b d1 d4 d3 acks w1"
    and commit: "commit_seal env config seed tr
      (wake_of config (compute_digest env b) b (map sh_commitment (split_seed env seed ?e (dk_tick d1))))
      acks d3 w1 = (SealAborted n WakeRequestUnconfirmedRevoked, seed', d', w')"
    using seal_cases [OF assms(1)] by auto
  obtain frozen where revoke: "revoke env config seed (wt_npub tr) (compute_digest env b) (sb_resume_seq b) ?e d3 = (Inr frozen, d')"
    and out: "seed' = seed" "n = frozen + 1"
    using commit by (auto simp: commit_seal_def Let_def split: prod.splits if_splits sum.splits)
  have each: "frozen = ?e + 1 \<and> (\<exists>s. at_rest env ?t ?a d' (HOLDER_IDS ! k)
      = Some (fresh_state s (wt_npub tr) (compute_digest env b) (sb_resume_seq b) U64_MAX))" if k: "k < 3" for k
  proof -
    obtain st where "at_rest env ?t ?a d3 (HOLDER_IDS ! k) = Some st" "wr_epoch (hs_record st) = ?e"
      using published_holders [OF pub assms(2) k] by blast
    then show ?thesis using revoke_frozen [OF revoke assms(2) k] by simp
  qed
  have frozen: "\<exists>s. at_rest env ?t ?a d2 i = Some (fresh_state s (wt_npub tr) (compute_digest env b) (sb_resume_seq b) U64_MAX)"
    if "i \<in> set HOLDER_IDS" for i
  proof -
    obtain k where "k < 3" "i = HOLDER_IDS ! k" using \<open>i \<in> set HOLDER_IDS\<close> by (auto simp: in_set_conv_nth)
    then show ?thesis using each [of k] assms(3) that at_rest_cong by metis
  qed
  have "\<exists>e. fst (reconstitute env ?t ?a npub wake s now d2) = Inl e"
  proof (rule ccontr)
    assume "\<not> ?thesis"
    then obtain rt d5 where "reconstitute env ?t ?a npub wake s now d2 = (Inr rt, d5)"
      by (metis obj_sumE prod.collapse)
    from reconstitute_steps [OF this] obtain hs d6 granted hs1 d7 where
      ids: "distinct (se_holders (wq_seal wake))" and opened: "open_roster env ?t ?a (se_holders (wq_seal wake)) d2 = (hs, d6)"
      and gather: "gather_leases env (spawner_req npub s) (wq_bundle_digest wake) (wq_resume_seq wake) 2 now hs d6 = (Inr granted, hs1, d7)"
      by metis
    have ask: "ask_leases env (spawner_req npub s) (wq_bundle_digest wake) (wq_resume_seq wake) now 0 hs d6 = (granted, hs1, d7)"
      and two: "2 \<le> length granted"
      using gather by (auto simp: gather_leases_def split: prod.splits if_splits)
    have "\<forall>h\<in>set hs. \<exists>st. ho_state h = Some st \<and> now < wr_wake_at (hs_record st)"
    proof
      fix h assume h: "h \<in> set hs"
      then have "ho_id h \<in> set HOLDER_IDS" and "ho_state h = at_rest env ?t ?a d2 (ho_id h)"
        using open_roster_ok [OF opened ids] assms(4) by auto
      then show "\<exists>st. ho_state h = Some st \<and> now < wr_wake_at (hs_record st)"
        using frozen assms(5) by (fastforce simp: fresh_state_def)
    qed
    from ask_refused [OF ask this] two show False by simp
  qed
  then show ?thesis using out each [of 0] by simp
qed

end
