(* ===== verification/Hibernate_Wake.thy ===== *)
theory Hibernate_Wake
  imports Hibernate_Seal
begin

text \<open>
  Waking: over a disk that answers, any two intact holders give the seed back, and a committed seal wakes as
  the agent that went to sleep.
\<close>

section \<open>Shares\<close>

text \<open>What the Shamir crate documents: the n-th share has point n+1, is read back from its bytes, and any two of
  one dealing recover the secret.\<close>

definition sss_ok :: "hib_env \<Rightarrow> bool" where
  "sss_ok env \<longleftrightarrow> (\<forall>seed draw. length seed = MASTER_SEED_LEN \<longrightarrow>
     (\<forall>i<3. fst (he_dealer env SEAL_THRESHOLD seed draw i) = of_nat (i + 1)
        \<and> he_share_try_from env (byte_of (of_nat (i + 1)) # snd (he_dealer env SEAL_THRESHOLD seed draw i))
          = Some (he_dealer env SEAL_THRESHOLD seed draw i))
     \<and> (\<forall>i<3. \<forall>j<3. i \<noteq> j \<longrightarrow> he_recover env SEAL_THRESHOLD
          [he_dealer env SEAL_THRESHOLD seed draw i, he_dealer env SEAL_THRESHOLD seed draw j] = Some seed))"

lemma of_byte_of [simp]: "of_byte (byte_of x) = x"
proof -
  have "unat x < 256" using unat_lt_pow [of x] by simp
  then show ?thesis by (simp add: of_byte_def byte_of_def of_char_of)
qed

lemma split_nth:
  assumes "sss_ok env" and "length seed = MASTER_SEED_LEN" and "i < 3"
  shows "split_seed env seed e draw ! i = \<lparr>sh_index = of_nat (i + 1),
    sh_bytes = byte_of (of_nat (i + 1)) # snd (he_dealer env SEAL_THRESHOLD seed draw i), sh_epoch = e,
    sh_commitment = share_commitment env (of_nat (i + 1)) e (byte_of (of_nat (i + 1)) # snd (he_dealer env SEAL_THRESHOLD seed draw i))\<rparr>"
proof -
  have "fst (he_dealer env SEAL_THRESHOLD seed draw i) = of_nat (i + 1)" using assms unfolding sss_ok_def by blast
  then show ?thesis using assms(3) by (simp add: split_seed_def Let_def split_beta)
qed

text \<open>Any two of the three shares of one split give the seed back.\<close>

lemma combine_two:
  assumes "sss_ok env" and "length seed = MASTER_SEED_LEN" and "i < 3" and "j < 3" and "i \<noteq> j"
  shows "combine_shares env [split_seed env seed e draw ! i, split_seed env seed e draw ! j] = Inr seed"
proof -
  have point: "(of_nat (k + 1) :: u8) \<noteq> 0 \<and> \<not> SEAL_SHARES < of_nat (k + 1)" if "k < 3" for k
  proof -
    have "k = 0 \<or> k = 1 \<or> k = 2" using that by auto
    then show ?thesis by (auto simp: SEAL_SHARES_def word_less_nat_alt)
  qed
  have diff: "(of_nat (j + 1) :: u8) \<noteq> of_nat (i + 1)"
  proof -
    have "i = 0 \<or> i = 1 \<or> i = 2" and "j = 0 \<or> j = 1 \<or> j = 2" using assms(3,4) by auto
    then show ?thesis using assms(5) by auto
  qed
  have laws: "he_share_try_from env (byte_of (of_nat (k + 1)) # snd (he_dealer env SEAL_THRESHOLD seed draw k))
      = Some (he_dealer env SEAL_THRESHOLD seed draw k)" if "k < 3" for k
    using assms(1,2) that unfolding sss_ok_def by blast
  have "he_recover env SEAL_THRESHOLD [he_dealer env SEAL_THRESHOLD seed draw i, he_dealer env SEAL_THRESHOLD seed draw j] = Some seed"
    using assms unfolding sss_ok_def by blast
  then show ?thesis
    using point [OF assms(3)] point [OF assms(4)] diff laws [OF assms(3)] laws [OF assms(4)] assms(2)
    by (simp add: combine_shares_def split_nth [OF assms(1,2,3)] split_nth [OF assms(1,2,4)] verify_share_def Let_def
      del: of_nat_add of_nat_Suc)
qed

section \<open>A disk that answers\<close>

definition calm :: "hib_env \<Rightarrow> hib_env" where
  "calm env = env\<lparr>he_write_fault := \<lambda>k. None, he_read_fails := \<lambda>k. False\<rparr>"

lemma calm_simps [simp]: "he_write_fault (calm env) k = None" "he_read_fails (calm env) k = False"
  "he_holder_to_json (calm env) = he_holder_to_json env" "he_holder_from_json (calm env) = he_holder_from_json env"
  "he_bundle_from_json (calm env) = he_bundle_from_json env" "he_sha256 (calm env) = he_sha256 env"
  "he_hkdf (calm env) = he_hkdf env" "he_hex_encode (calm env) = he_hex_encode env"
  "he_share_try_from (calm env) = he_share_try_from env" "he_recover (calm env) = he_recover env"
  by (simp_all add: calm_def)

lemma calm_fns [simp]: "derive_subkeys (calm env) = derive_subkeys env" "compute_digest (calm env) = compute_digest env"
  "share_commitment (calm env) = share_commitment env"
  by (simp_all add: fun_eq_iff derive_subkeys_def compute_digest_def share_commitment_def)

lemma calm_at_rest [simp]: "at_rest (calm env) t a d i = at_rest env t a d i"
  unfolding at_rest_def calm_simps ..

lemma calm_combine [simp]: "combine_shares (calm env) = combine_shares env"
proof -
  have "verify_share (calm env) = verify_share env" by (simp add: fun_eq_iff verify_share_def)
  then have "combine_check (calm env) e seen ss = combine_check env e seen ss" for e seen ss
    by (induction env e seen ss rule: combine_check.induct) (auto simp: Let_def split: sum.splits list.splits)
  then show ?thesis unfolding fun_eq_iff combine_shares_def calm_simps by simp
qed

definition no_temps :: "disk \<Rightarrow> bool" where "no_temps d \<longleftrightarrow> (\<forall>q r. dk_files d (temp_path q r) = None)"

lemma no_tempsD: "no_temps d \<Longrightarrow> dk_files d (temp_path q r) = None"
  by (cases q) (simp add: no_temps_def)

lemma calm_write: "no_temps d \<Longrightarrow> write_atomic (calm env) p data d = (Inr (), (disk_tick d)\<lparr>dk_files := (dk_files d)(p \<mapsto> data)\<rparr>)"
  by (simp add: write_atomic_def Let_def no_tempsD)

lemma no_temps_upd: "no_temps d \<Longrightarrow> plain_path p \<Longrightarrow> no_temps (d'\<lparr>dk_files := (dk_files d)(p \<mapsto> data)\<rparr>)"
  by (auto simp: no_temps_def)

text \<open>A commit on a calm disk.\<close>

definition serializes :: "hib_env \<Rightarrow> bool" where "serializes env \<longleftrightarrow> (\<forall>st. \<exists>data. he_holder_to_json env st = Inr data)"

lemma calm_commit:
  assumes "no_temps d" and "serializes env" and "ho_path h = holder_path t a (ho_id h)"
  shows "\<exists>d'. commit_state (calm env) h c x d = (Inr x, h\<lparr>ho_state := Some c\<rparr>, d') \<and> no_temps d'
    \<and> dk_files d' (bundle_path t a) = dk_files d (bundle_path t a)"
proof -
  obtain data where "he_holder_to_json env c = Inr data" using assms(2) by (auto simp: serializes_def)
  then show ?thesis
    using assms(1,3) by (simp add: commit_state_def write_state_def calm_write no_temps_upd)
qed

section \<open>The holders\<close>

definition leased :: "unseal_request \<Rightarrow> u64 \<Rightarrow> holder_state \<Rightarrow> holder_state" where
  "leased req now st = st\<lparr>hs_record := hs_record st\<lparr>wr_active_lease := Some \<lparr>ll_lease_id = ur_lease_id req,
     ll_expires_at = saturating_add now (ur_ttl_secs req), ll_spawner = ur_spawner req\<rparr>\<rparr>\<rparr>"

definition lease_of :: "unseal_request \<Rightarrow> u64 \<Rightarrow> share_holder \<Rightarrow> holder_state \<Rightarrow> quorum_lease" where
  "lease_of req now h st = \<lparr>ql_npub = wr_npub (hs_record st), ql_resume_seq = wr_resume_seq (hs_record st),
     ql_lease_id = ur_lease_id req, ql_bundle_digest = wr_bundle_digest (hs_record st),
     ql_expires_at = saturating_add now (ur_ttl_secs req), ql_spawner = ur_spawner req, ql_sigs = [assent_tag h]\<rparr>"

lemma calm_issue:
  assumes "no_temps d" and "serializes env" and "ho_path h = holder_path t a (ho_id h)"
    and "ho_state h = Some (fresh_state s (ur_npub req) g n wake_at)" and "wake_at \<le> now"
  shows "\<exists>d'. issue_lease (calm env) req now h d
      = (Inr (lease_of req now h (fresh_state s (ur_npub req) g n wake_at)),
         h\<lparr>ho_state := Some (leased req now (fresh_state s (ur_npub req) g n wake_at))\<rparr>, d')
    \<and> no_temps d' \<and> dk_files d' (bundle_path t a) = dk_files d (bundle_path t a)"
  using calm_commit [OF assms(1-3)] assms(4,5)
  by (simp add: issue_lease_def fresh_state_def fenced_by_def leased_def lease_of_def Let_def not_less)

lemma calm_release:
  assumes "no_temps d" and "serializes env" and "ho_path h = holder_path t a (ho_id h)"
    and "ho_state h = Some (leased req now (fresh_state s npub g n wake_at))"
    and "now < saturating_add now (ur_ttl_secs req)" and "st = fresh_state s npub g n wake_at"
  shows "\<exists>h' d'. release_share (calm env) (lease_of req now h0 st) now h d = (Inr s, h', d')
    \<and> no_temps d' \<and> dk_files d' (bundle_path t a) = dk_files d (bundle_path t a)"
proof -
  let ?st = "leased req now (fresh_state s npub g n wake_at)"
  let ?c = "?st\<lparr>hs_record := (hs_record ?st)\<lparr>wr_history :=
      [\<lparr>re_lease_id = ur_lease_id req, re_spawner = ur_spawner req, re_released_at = now\<rparr>]\<rparr>\<rparr>"
  have "release_share (calm env) (lease_of req now h0 st) now h d = commit_state (calm env) h ?c s d"
    using assms(4,6) assms(5) [unfolded not_le [symmetric]]
    by (auto simp: release_share_def leased_def lease_of_def fresh_state_def Let_def)
  then show ?thesis using calm_commit [OF assms(1-3), of ?c s] by auto
qed

section \<open>The roster\<close>

lemma filter_shift: "filter (\<lambda>k. P ((x # xs) ! (k - i))) [i..<i + length (x # xs)]
    = (if P x then [i] else []) @ filter (\<lambda>k. P (xs ! (k - Suc i))) [Suc i..<Suc i + length xs]"
proof -
  have "[i..<i + length (x # xs)] = i # [Suc i..<Suc i + length xs]" by (subst upt_conv_Cons) simp_all
  moreover have "filter (\<lambda>k. P ((x # xs) ! (k - i))) [Suc i..<Suc i + length xs]
      = filter (\<lambda>k. P (xs ! (k - Suc i))) [Suc i..<Suc i + length xs]"
    by (rule filter_cong) (auto simp: nth_Cons')
  ultimately show ?thesis by simp
qed

lemma calm_ask:
  assumes "serializes env"
  shows "no_temps d \<Longrightarrow> roster_ok t a hs \<Longrightarrow>
     (\<forall>h\<in>set hs. ho_state h = None \<or> (\<exists>s. ho_state h = Some (fresh_state s (ur_npub req) g n wake_at))) \<Longrightarrow> wake_at \<le> now \<Longrightarrow>
     \<exists>granted hs' d'. ask_leases (calm env) req g n now idx hs d = (granted, hs', d') \<and> no_temps d'
       \<and> dk_files d' (bundle_path t a) = dk_files d (bundle_path t a)
       \<and> map fst granted = filter (\<lambda>k. ho_state (hs ! (k - idx)) \<noteq> None) [idx..<idx + length hs]
       \<and> (\<forall>(k, l)\<in>set granted. \<exists>s. ho_state (hs ! (k - idx)) = Some (fresh_state s (ur_npub req) g n wake_at)
            \<and> l = lease_of req now (hs ! (k - idx)) (fresh_state s (ur_npub req) g n wake_at)
            \<and> hs' ! (k - idx) = (hs ! (k - idx))\<lparr>ho_state := Some (leased req now (fresh_state s (ur_npub req) g n wake_at))\<rparr>)"
proof (induction hs arbitrary: d idx)
  case (Cons h hs)
  have path: "ho_path h = holder_path t a (ho_id h)" and ros: "roster_ok t a hs"
    using Cons.prems(2) by (simp_all add: roster_ok_Cons)
  have shift: "(h # hs) ! (k - idx) = hs ! (k - Suc idx)" if "Suc idx \<le> k" for k and h :: share_holder and hs
    using that by (simp add: nth_Cons')
  show ?case
  proof (cases "ho_state h")
    case None
    then have step: "issue_lease (calm env) req now h d = (Inl NotSealed, h, d)" by (simp add: issue_lease_def)
    obtain granted hs' d' where IH: "ask_leases (calm env) req g n now (Suc idx) hs d = (granted, hs', d')" "no_temps d'"
      "dk_files d' (bundle_path t a) = dk_files d (bundle_path t a)"
      "map fst granted = filter (\<lambda>k. ho_state (hs ! (k - Suc idx)) \<noteq> None) [Suc idx..<Suc idx + length hs]"
      "\<forall>(k, l)\<in>set granted. \<exists>s. ho_state (hs ! (k - Suc idx)) = Some (fresh_state s (ur_npub req) g n wake_at)
            \<and> l = lease_of req now (hs ! (k - Suc idx)) (fresh_state s (ur_npub req) g n wake_at)
            \<and> hs' ! (k - Suc idx) = (hs ! (k - Suc idx))\<lparr>ho_state := Some (leased req now (fresh_state s (ur_npub req) g n wake_at))\<rparr>"
      using Cons.IH [OF Cons.prems(1) ros _ Cons.prems(4), of "Suc idx"] Cons.prems(3) by auto
    have ge: "\<forall>k\<in>set (map fst granted). Suc idx \<le> k" unfolding IH(4) by auto
    show ?thesis
    proof (intro exI conjI)
      show "ask_leases (calm env) req g n now idx (h # hs) d = (granted, h # hs', d')" by (simp add: step IH(1))
      show "map fst granted = filter (\<lambda>k. ho_state ((h # hs) ! (k - idx)) \<noteq> None) [idx..<idx + length (h # hs)]"
        using filter_shift [of "\<lambda>h. ho_state h \<noteq> None" h hs idx] IH(4) None by simp
      show "\<forall>(k, l)\<in>set granted. \<exists>s. ho_state ((h # hs) ! (k - idx)) = Some (fresh_state s (ur_npub req) g n wake_at)
          \<and> l = lease_of req now ((h # hs) ! (k - idx)) (fresh_state s (ur_npub req) g n wake_at)
          \<and> (h # hs') ! (k - idx) = ((h # hs) ! (k - idx))\<lparr>ho_state := Some (leased req now (fresh_state s (ur_npub req) g n wake_at))\<rparr>"
        using IH(5) ge by (fastforce simp: shift)
    qed (use IH(2,3) in simp_all)
  next
    case (Some st)
    then obtain s where s: "ho_state h = Some (fresh_state s (ur_npub req) g n wake_at)" using Cons.prems(3) by auto
    obtain d1 where step: "issue_lease (calm env) req now h d
        = (Inr (lease_of req now h (fresh_state s (ur_npub req) g n wake_at)),
           h\<lparr>ho_state := Some (leased req now (fresh_state s (ur_npub req) g n wake_at))\<rparr>, d1)"
      and d1: "no_temps d1" "dk_files d1 (bundle_path t a) = dk_files d (bundle_path t a)"
      using calm_issue [OF Cons.prems(1) assms path s Cons.prems(4)] by blast
    obtain granted hs' d' where IH: "ask_leases (calm env) req g n now (Suc idx) hs d1 = (granted, hs', d')" "no_temps d'"
      "dk_files d' (bundle_path t a) = dk_files d1 (bundle_path t a)"
      "map fst granted = filter (\<lambda>k. ho_state (hs ! (k - Suc idx)) \<noteq> None) [Suc idx..<Suc idx + length hs]"
      "\<forall>(k, l)\<in>set granted. \<exists>s. ho_state (hs ! (k - Suc idx)) = Some (fresh_state s (ur_npub req) g n wake_at)
            \<and> l = lease_of req now (hs ! (k - Suc idx)) (fresh_state s (ur_npub req) g n wake_at)
            \<and> hs' ! (k - Suc idx) = (hs ! (k - Suc idx))\<lparr>ho_state := Some (leased req now (fresh_state s (ur_npub req) g n wake_at))\<rparr>"
      using Cons.IH [OF d1(1) ros _ Cons.prems(4), of "Suc idx"] Cons.prems(3) by auto
    have ge: "\<forall>k\<in>set (map fst granted). Suc idx \<le> k" unfolding IH(4) by auto
    let ?l = "lease_of req now h (fresh_state s (ur_npub req) g n wake_at)"
    show ?thesis
    proof (intro exI conjI)
      show "ask_leases (calm env) req g n now idx (h # hs) d
          = ((idx, ?l) # granted, h\<lparr>ho_state := Some (leased req now (fresh_state s (ur_npub req) g n wake_at))\<rparr> # hs', d')"
        by (simp add: step IH(1)) (simp add: lease_of_def fresh_state_def)
      show "map fst ((idx, ?l) # granted) = filter (\<lambda>k. ho_state ((h # hs) ! (k - idx)) \<noteq> None) [idx..<idx + length (h # hs)]"
        using filter_shift [of "\<lambda>h. ho_state h \<noteq> None" h hs idx] IH(4) s by simp
      show "\<forall>(k, l)\<in>set ((idx, ?l) # granted). \<exists>s'. ho_state ((h # hs) ! (k - idx)) = Some (fresh_state s' (ur_npub req) g n wake_at)
          \<and> l = lease_of req now ((h # hs) ! (k - idx)) (fresh_state s' (ur_npub req) g n wake_at)
          \<and> (h\<lparr>ho_state := Some (leased req now (fresh_state s (ur_npub req) g n wake_at))\<rparr> # hs') ! (k - idx)
            = ((h # hs) ! (k - idx))\<lparr>ho_state := Some (leased req now (fresh_state s' (ur_npub req) g n wake_at))\<rparr>"
        using IH(5) ge s by (fastforce simp: shift)
    qed (use IH(2,3) d1 in simp_all)
  qed
qed simp

lemma calm_open_roster:
  "(\<forall>i\<in>set ids. dk_files d (holder_path t a i) = None \<or> at_rest env t a d i \<noteq> None) \<Longrightarrow>
     \<exists>d'. open_roster (calm env) t a ids d
         = (map (\<lambda>i. \<lparr>ho_id = i, ho_path = holder_path t a i, ho_state = at_rest env t a d i\<rparr>) ids, d')
       \<and> dk_files d' = dk_files d"
proof (induction ids arbitrary: d)
  case (Cons i ids)
  have opened: "\<exists>d1. holder_open (calm env) t a i d
      = (Inr \<lparr>ho_id = i, ho_path = holder_path t a i, ho_state = at_rest env t a d i\<rparr>, d1) \<and> dk_files d1 = dk_files d"
    using Cons.prems
    by (auto simp: holder_open_def read_file_def at_rest_def disk_tick_def Let_def split: option.splits sum.splits)
  then obtain d1 where d1: "holder_open (calm env) t a i d
      = (Inr \<lparr>ho_id = i, ho_path = holder_path t a i, ho_state = at_rest env t a d i\<rparr>, d1)" "dk_files d1 = dk_files d" by blast
  have at: "at_rest env t a d1 j = at_rest env t a d j" for j by (simp add: at_rest_def d1(2))
  show ?case using Cons.IH [of d1] Cons.prems d1 by (auto simp: at)
qed simp

text \<open>Two granted holders of the seal release their shares.\<close>

lemma calm_release_two:
  assumes "serializes env" and "no_temps d" and "roster_ok t a hs" and "i < length hs" and "j < length hs" and "i \<noteq> j"
    and "ho_state (hs ! i) = Some (leased req now (fresh_state si npub g n wake_at))"
    and "ho_state (hs ! j) = Some (leased req now (fresh_state sj npub g n wake_at))"
    and "now < saturating_add now (ur_ttl_secs req)"
    and "\<forall>s\<in>{si, sj}. sh_epoch s = se_epoch (wq_seal wake) \<and> sh_commitment s \<in> set (se_commitments (wq_seal wake))"
  shows "\<exists>hs' d'. release_all (calm env) wake now [(i, lease_of req now hi (fresh_state si npub g n wake_at)),
      (j, lease_of req now hj (fresh_state sj npub g n wake_at))] hs d = (Inr [si, sj], hs', d')
    \<and> dk_files d' (bundle_path t a) = dk_files d (bundle_path t a)"
proof -
  have path: "ho_path (hs ! k) = holder_path t a (ho_id (hs ! k))" if "k < length hs" for k
    using assms(3) that by (simp add: roster_ok_def)
  obtain h1 d1 where first: "release_share (calm env) (lease_of req now hi (fresh_state si npub g n wake_at)) now (hs ! i) d = (Inr si, h1, d1)"
    "no_temps d1" "dk_files d1 (bundle_path t a) = dk_files d (bundle_path t a)"
    using calm_release [OF assms(2,1) path [OF assms(4)] assms(7,9) refl, of hi] by blast
  obtain h2 d2 where second: "release_share (calm env) (lease_of req now hj (fresh_state sj npub g n wake_at)) now (hs ! j) d1 = (Inr sj, h2, d2)"
    "dk_files d2 (bundle_path t a) = dk_files d1 (bundle_path t a)"
    using calm_release [OF first(2) assms(1) path [OF assms(5)] assms(8,9) refl, of hj] by blast
  show ?thesis using first second assms(6,10) by simp
qed

lemma fresh_share: "fresh_state s npub g n w = fresh_state s' npub g n w \<longleftrightarrow> s = s'"
  by (auto simp: fresh_state_def)

text \<open>What a committed seal left on disk.\<close>

lemma sealed_at_rest:
  assumes "seal env config seed tr quiesce d w = (Sealed sd, seed', d', w')" and "quiesce w = (Inr b, w1)"
    and "hib_codec_ok env"
    and "\<forall>i\<in>set HOLDER_IDS. \<forall>st. at_rest env (sc_treasury_dir config) (sc_agent_id config) d i = Some st \<longrightarrow>
      wr_epoch (hs_record st) < sc_seal_epoch config"
  obtains draw data where
    "sd_wake_request sd = wake_of config (compute_digest env b) b (map sh_commitment (split_seed env seed (sc_seal_epoch config) draw))"
    and "\<And>k. k < 3 \<Longrightarrow> at_rest env (sc_treasury_dir config) (sc_agent_id config) d' (HOLDER_IDS ! k)
      = Some (fresh_state (split_seed env seed (sc_seal_epoch config) draw ! k) (wt_npub tr) (compute_digest env b) (sb_resume_seq b) (sc_wake_at config))"
    and "he_bundle_to_json env b = Inr data"
    and "dk_files d' (bundle_path (sc_treasury_dir config) (sc_agent_id config)) = Some data"
proof -
  let ?t = "sc_treasury_dir config" and ?a = "sc_agent_id config" and ?e = "sc_seal_epoch config"
  obtain b' d1 d4 d5 acks w2 where pub: "published env config seed tr quiesce d w b' d1 d4 d5 acks w2"
    and commit: "commit_seal env config seed tr (wake_of config (compute_digest env b') b'
        (map sh_commitment (split_seed env seed ?e (dk_tick d1)))) acks d5 w2 = (Sealed sd, seed', d', w')"
    using seal_cases [OF assms(1)] by auto
  have b: "b' = b" using pub assms(2) by (simp add: published_def Let_def)
  let ?shares = "split_seed env seed ?e (dk_tick d1)"
  have wake: "sd_wake_request sd = wake_of config (compute_digest env b) b (map sh_commitment ?shares)" and d5: "d' = d5"
    using commit by (auto simp: commit_seal_def Let_def b split: prod.splits if_splits sum.splits)
  have stored: "at_rest env ?t ?a d' (HOLDER_IDS ! k)
      = Some (fresh_state (?shares ! k) (wt_npub tr) (compute_digest env b) (sb_resume_seq b) (sc_wake_at config))" if k: "k < 3" for k
  proof -
    obtain st where st: "at_rest env ?t ?a d5 (HOLDER_IDS ! k) = Some st" "wr_epoch (hs_record st) = ?e"
      "st = fresh_state (?shares ! k) (wt_npub tr) (compute_digest env b) (sb_resume_seq b) (sc_wake_at config)
        \<or> at_rest env ?t ?a d (HOLDER_IDS ! k) = Some st"
      using published_holders [OF pub assms(3) k] unfolding b by blast
    have "HOLDER_IDS ! k \<in> set HOLDER_IDS" using k by (intro nth_mem) simp
    then have "at_rest env ?t ?a d (HOLDER_IDS ! k) \<noteq> Some st" using assms(4) st(2) by force
    then show ?thesis using st(1,3) d5 by simp
  qed
  obtain data where data: "he_bundle_to_json env b = Inr data" "dk_files d1 (bundle_path ?t ?a) = Some data"
  proof -
    have "persist_bundle env ?t ?a b d = (Inr (compute_digest env b), d1)" using pub by (simp add: published_def Let_def b)
    from persist_ok [OF this] that show ?thesis by auto
  qed
  have "dk_files d5 = dk_files d4" and "distribute env ?t ?a (wt_npub tr) (compute_digest env b) (sb_resume_seq b)
      (sc_wake_at config) (zip ?shares HOLDER_IDS) [] (disk_tick d1) = (Inr acks, d4)"
    using pub by (simp_all add: published_def Let_def b)
  then have "dk_files d' (bundle_path ?t ?a) = Some data"
    using distribute_other [of env ?t ?a, OF _ plain_bundle_path] data(2) by (simp add: disk_tick_def d5)
  from that [OF wake stored data(1) this] show ?thesis .
qed

lemma roster_ok_same: "map ho_id hs' = map ho_id hs \<Longrightarrow> map ho_path hs' = map ho_path hs \<Longrightarrow> roster_ok t a hs \<Longrightarrow> roster_ok t a hs'"
proof -
  have "roster_ok t a xs \<longleftrightarrow> distinct (map ho_id xs) \<and> map ho_path xs = map (holder_path t a) (map ho_id xs)" for xs
    by (auto simp: roster_ok_def)
  then show "map ho_id hs' = map ho_id hs \<Longrightarrow> map ho_path hs' = map ho_path hs \<Longrightarrow> roster_ok t a hs \<Longrightarrow> roster_ok t a hs'"
    by metis
qed

text \<open>The leases two or more of three holders give, one of them perhaps lost, and what the first two release.\<close>

lemma calm_quorum:
  assumes "serializes env" and "no_temps d" and "wake_at \<le> now" and "now < saturating_add now (ur_ttl_secs req)"
    and "\<And>k. k < 3 \<Longrightarrow> at_rest env t a d (HOLDER_IDS ! k) = (if HOLDER_IDS ! k = lost then None
      else Some (fresh_state (shares ! k) (ur_npub req) g n wake_at))"
    and "\<And>k. k < 3 \<Longrightarrow> HOLDER_IDS ! k = lost \<Longrightarrow> dk_files d (holder_path t a (HOLDER_IDS ! k)) = None"
    and "\<And>k. k < 3 \<Longrightarrow> sh_epoch (shares ! k) = se_epoch (wq_seal wake) \<and> sh_commitment (shares ! k) \<in> set (se_commitments (wq_seal wake))"
  shows "\<exists>hs d1 granted hs1 d2 i j hs2 d3. open_roster (calm env) t a HOLDER_IDS d = (hs, d1)
    \<and> gather_leases (calm env) req g n 2 now hs d1 = (Inr granted, hs1, d2)
    \<and> release_all (calm env) wake now (take 2 granted) hs1 d2 = (Inr [shares ! i, shares ! j], hs2, d3)
    \<and> i < 3 \<and> j < 3 \<and> i \<noteq> j \<and> dk_files d3 (bundle_path t a) = dk_files d (bundle_path t a)
    \<and> ql_expires_at (aggregate_lease granted) = saturating_add now (ur_ttl_secs req)"
proof -
  let ?fresh = "\<lambda>k. fresh_state (shares ! k) (ur_npub req) g n wake_at"
  let ?hs = "map (\<lambda>i. \<lparr>ho_id = i, ho_path = holder_path t a i, ho_state = at_rest env t a d i\<rparr>) HOLDER_IDS"
  have "\<forall>i\<in>set HOLDER_IDS. dk_files d (holder_path t a i) = None \<or> at_rest env t a d i \<noteq> None"
    using assms(5,6) by (metis holder_ids(1) in_set_conv_nth option.simps(3))
  then obtain d1 where opened: "open_roster (calm env) t a HOLDER_IDS d = (?hs, d1)" and d1: "dk_files d1 = dk_files d"
    using calm_open_roster by blast
  have hs: "ho_state (?hs ! k) = (if HOLDER_IDS ! k = lost then None else Some (?fresh k))" if "k < 3" for k
    using assms(5) [OF that] that by simp
  have ros: "roster_ok t a ?hs" by (simp add: roster_ok_def comp_def)
  have "\<forall>h\<in>set ?hs. ho_state h = None \<or> (\<exists>s. ho_state h = Some (fresh_state s (ur_npub req) g n wake_at))"
    using hs by (metis (no_types, lifting) holder_ids(1) in_set_conv_nth length_map)
  moreover have "no_temps d1" using assms(2) d1 by (simp add: no_temps_def)
  ultimately obtain granted hs1 d2 where ask: "ask_leases (calm env) req g n now 0 ?hs d1 = (granted, hs1, d2)"
    and d2: "no_temps d2" "dk_files d2 (bundle_path t a) = dk_files d1 (bundle_path t a)"
    and which: "map fst granted = filter (\<lambda>k. ho_state (?hs ! (k - 0)) \<noteq> None) [0..<0 + length ?hs]"
    and each: "\<forall>(k, l)\<in>set granted. \<exists>s. ho_state (?hs ! (k - 0)) = Some (fresh_state s (ur_npub req) g n wake_at)
        \<and> l = lease_of req now (?hs ! (k - 0)) (fresh_state s (ur_npub req) g n wake_at)
        \<and> hs1 ! (k - 0) = (?hs ! (k - 0))\<lparr>ho_state := Some (leased req now (fresh_state s (ur_npub req) g n wake_at))\<rparr>"
    using calm_ask [OF assms(1) _ ros, of d1 req g n wake_at now 0] assms(3) by blast
  have got: "k < 3 \<and> l = lease_of req now (?hs ! k) (?fresh k) \<and> ho_state (hs1 ! k) = Some (leased req now (?fresh k))"
    if kl: "(k, l) \<in> set granted" for k l
  proof -
    have "k \<in> set (map fst granted)" using kl by force
    then have k: "k < 3" unfolding which by simp
    obtain s where s: "ho_state (?hs ! k) = Some (fresh_state s (ur_npub req) g n wake_at)"
      "l = lease_of req now (?hs ! k) (fresh_state s (ur_npub req) g n wake_at)"
      "hs1 ! k = (?hs ! k)\<lparr>ho_state := Some (leased req now (fresh_state s (ur_npub req) g n wake_at))\<rparr>"
      using each kl by auto
    have "fresh_state s (ur_npub req) g n wake_at = ?fresh k" using s(1) hs [OF k] by (simp split: if_splits)
    then show ?thesis using s(2,3) k by simp
  qed
  have "map fst granted = filter (\<lambda>k. HOLDER_IDS ! k \<noteq> lost) [0..<3]"
    unfolding which by (rule filter_cong) (simp, use hs in auto)
  then have "\<exists>i j r. map fst granted = i # j # r \<and> i \<noteq> j"
    by (auto simp: HOLDER_IDS_def numeral_3_eq_3)
  then obtain i j li lj rest where granted: "granted = (i, li) # (j, lj) # rest" and ij: "i \<noteq> j"
    by (auto simp: map_eq_Cons_conv)
  have i: "i < 3" "li = lease_of req now (?hs ! i) (?fresh i)" "ho_state (hs1 ! i) = Some (leased req now (?fresh i))"
    and j: "j < 3" "lj = lease_of req now (?hs ! j) (?fresh j)" "ho_state (hs1 ! j) = Some (leased req now (?fresh j))"
    using got by (auto simp: granted)
  have same: "map ho_id hs1 = map ho_id ?hs \<and> map ho_path hs1 = map ho_path ?hs" by (rule ask_roster [OF ask])
  then have len: "length hs1 = 3" by (metis holder_ids(1) length_map)
  have ros1: "roster_ok t a hs1"
    using roster_ok_same same ros by blast
  obtain hs2 d3 where release: "release_all (calm env) wake now (take 2 granted) hs1 d2 = (Inr [shares ! i, shares ! j], hs2, d3)"
    and d3: "dk_files d3 (bundle_path t a) = dk_files d2 (bundle_path t a)"
    using calm_release_two [OF assms(1) d2(1) ros1 _ _ ij i(3) j(3) assms(4), of wake "?hs ! i" "?hs ! j"]
      i(1,2) j(1,2) len assms(7) by (auto simp: granted)
  have agg: "ql_expires_at (aggregate_lease granted) = saturating_add now (ur_ttl_secs req)"
    using aggregate_expiry [of granted "saturating_add now (ur_ttl_secs req)" "ur_lease_id req" "ur_spawner req" g n] got
    by (force simp: granted lease_of_def fresh_state_def)
  have "gather_leases (calm env) req g n 2 now ?hs d1 = (Inr granted, hs1, d2)"
    by (simp add: gather_leases_def ask granted)
  moreover have "dk_files d3 (bundle_path t a) = dk_files d (bundle_path t a)" using d1 d2(2) d3 by simp
  ultimately show ?thesis using opened release ij i(1) j(1) agg by blast
qed

text \<open>Two intact holders of a seal, its bundle, and the wake time come: the agent is there again.\<close>

lemma calm_reconstitute:
  assumes "serializes env" and "hib_codec_ok env" and "sss_ok env" and "length seed = MASTER_SEED_LEN" and "no_temps d"
    and "\<And>k. k < 3 \<Longrightarrow> at_rest env t a d (HOLDER_IDS ! k) = (if HOLDER_IDS ! k = lost then None
      else Some (fresh_state (split_seed env seed (sc_seal_epoch config) draw ! k) npub (compute_digest env b) (sb_resume_seq b)
        (sc_wake_at config)))"
    and "\<And>k. k < 3 \<Longrightarrow> HOLDER_IDS ! k = lost \<Longrightarrow> dk_files d (holder_path t a (HOLDER_IDS ! k)) = None"
    and "he_bundle_to_json env b = Inr data" and "dk_files d (bundle_path t a) = Some data"
    and "sc_wake_at config \<le> now" and "now < saturating_add now (pr_ttl_secs s)"
  shows "\<exists>rt d'. reconstitute (calm env) t a npub (wake_of config (compute_digest env b) b
        (map sh_commitment (split_seed env seed (sc_seal_epoch config) draw))) s now d = (Inr rt, d')
    \<and> rt_npub rt = npub \<and> rt_bundle rt = b \<and> rt_subkeys rt = derive_subkeys env seed
    \<and> ql_expires_at (rt_lease rt) = saturating_add now (pr_ttl_secs s)"
proof -
  let ?shares = "split_seed env seed (sc_seal_epoch config) draw" and ?g = "compute_digest env b" and ?req = "spawner_req npub s"
  let ?wake = "wake_of config ?g b (map sh_commitment ?shares)"
  have shares: "sh_epoch (?shares ! k) = se_epoch (wq_seal ?wake)
      \<and> sh_commitment (?shares ! k) \<in> set (se_commitments (wq_seal ?wake))" if "k < 3" for k
    using that split_seed_props(2) [OF nth_mem] by (simp add: split_seed_props(1))
  obtain hs d3 granted hs1 d4 i j hs2 d5 where run:
    "open_roster (calm env) t a HOLDER_IDS d = (hs, d3)"
    "gather_leases (calm env) ?req ?g (sb_resume_seq b) 2 now hs d3 = (Inr granted, hs1, d4)"
    "release_all (calm env) ?wake now (take 2 granted) hs1 d4 = (Inr [?shares ! i, ?shares ! j], hs2, d5)"
    "i < 3" "j < 3" "i \<noteq> j" "dk_files d5 (bundle_path t a) = dk_files d (bundle_path t a)"
    "ql_expires_at (aggregate_lease granted) = saturating_add now (ur_ttl_secs ?req)"
  proof -
    have live: "now < saturating_add now (ur_ttl_secs ?req)" using assms(11) by simp
    have rest: "at_rest env t a d (HOLDER_IDS ! k) = (if HOLDER_IDS ! k = lost then None
        else Some (fresh_state (?shares ! k) (ur_npub ?req) ?g (sb_resume_seq b) (sc_wake_at config)))" if "k < 3" for k
      using assms(6) [OF that] by simp
    note quorum = calm_quorum [where t = t and a = a and lost = lost and shares = ?shares and req = ?req
      and wake = ?wake, OF assms(1,5,10) live]
    show ?thesis
      by (rule quorum [THEN exE], erule rest, erule (1) assms(7), erule shares) (elim exE conjE, rule that, assumption+)
  qed
  have seed: "combine_shares env [?shares ! i, ?shares ! j] = Inr seed"
    by (rule combine_two [OF assms(3,4) run(4-6)])
  obtain d6 where load: "load_bundle (calm env) t a ?g d5 = (Inr b, d6)"
    using assms(2,8,9) run(7) by (simp add: load_bundle_def read_file_def hib_codec_ok_def Let_def)
  have ok: "validate_seal ?wake = Inr ()" by (simp add: validate_seal_ok split_seed_props(1))
  show ?thesis using run(1-3,8) seed load ok by (simp add: reconstitute_def Let_def)
qed

text \<open>C11: It died and came back as itself. If a seal committed, at an epoch above any its holders had seen, and
  whatever storage did while it ran, then from the bundle and any two of the three holders, once the wake time
  has come and storage answers, a spawner reconstitutes the agent from the published wake request: the same
  npub, exactly the bundle that was quiesced, the subkeys of the seed that was given up, the next sequence
  number, and a live lease.\<close>

theorem sealed_wakes:
  assumes "seal env config seed tr quiesce d w = (Sealed sd, seed', d', w')" and "quiesce w = (Inr b, w1)"
    and "hib_codec_ok env" and "serializes env" and "sss_ok env" and "length seed = MASTER_SEED_LEN"
    and "\<forall>i\<in>set HOLDER_IDS. \<forall>st. at_rest env (sc_treasury_dir config) (sc_agent_id config) d i = Some st \<longrightarrow>
      wr_epoch (hs_record st) < sc_seal_epoch config"
    and "no_temps d2"
    and "dk_files d2 (bundle_path (sc_treasury_dir config) (sc_agent_id config))
      = dk_files d' (bundle_path (sc_treasury_dir config) (sc_agent_id config))"
    and "\<forall>i\<in>set HOLDER_IDS. dk_files d2 (holder_path (sc_treasury_dir config) (sc_agent_id config) i)
      = (if i = lost then None else dk_files d' (holder_path (sc_treasury_dir config) (sc_agent_id config) i))"
    and "sc_wake_at config \<le> now" and "now < saturating_add now (pr_ttl_secs s)"
  shows "\<exists>rt d3. reconstitute (calm env) (sc_treasury_dir config) (sc_agent_id config) (wt_npub tr) (sd_wake_request sd) s now d2
      = (Inr rt, d3)
    \<and> rt_npub rt = wt_npub tr \<and> rt_bundle rt = b \<and> rt_subkeys rt = derive_subkeys env seed
    \<and> next_resume_seq rt = saturating_add (sb_resume_seq b) 1 \<and> runtime_is_live rt now"
proof -
  let ?t = "sc_treasury_dir config" and ?a = "sc_agent_id config" and ?e = "sc_seal_epoch config"
    and ?g = "compute_digest env b"
  obtain draw data where wake: "sd_wake_request sd = wake_of config ?g b (map sh_commitment (split_seed env seed ?e draw))"
    and stored: "\<And>k. k < 3 \<Longrightarrow> at_rest env ?t ?a d' (HOLDER_IDS ! k)
      = Some (fresh_state (split_seed env seed ?e draw ! k) (wt_npub tr) ?g (sb_resume_seq b) (sc_wake_at config))"
    and data: "he_bundle_to_json env b = Inr data" "dk_files d' (bundle_path ?t ?a) = Some data"
    using sealed_at_rest [OF assms(1-3,7)] by metis
  let ?shares = "split_seed env seed ?e draw"
  have in_roster: "HOLDER_IDS ! k \<in> set HOLDER_IDS" if "k < 3" for k using that by (intro nth_mem) simp
  have rest: "at_rest env ?t ?a d2 (HOLDER_IDS ! k) = (if HOLDER_IDS ! k = lost then None
      else Some (fresh_state (?shares ! k) (wt_npub tr) ?g (sb_resume_seq b) (sc_wake_at config)))" if k: "k < 3" for k
    using stored [OF k] assms(10) in_roster [OF k] by (auto simp: at_rest_def)
  have gone: "dk_files d2 (holder_path ?t ?a (HOLDER_IDS ! k)) = None" if "k < 3" "HOLDER_IDS ! k = lost" for k
    using assms(10) in_roster [OF that(1)] that(2) by simp
  have saved: "dk_files d2 (bundle_path ?t ?a) = Some data" using assms(9) data(2) by simp
  obtain rt d3 where "reconstitute (calm env) ?t ?a (wt_npub tr) (sd_wake_request sd) s now d2 = (Inr rt, d3)"
    "rt_npub rt = wt_npub tr" "rt_bundle rt = b" "rt_subkeys rt = derive_subkeys env seed"
    "ql_expires_at (rt_lease rt) = saturating_add now (pr_ttl_secs s)"
  proof -
    note core = calm_reconstitute [where t = ?t and a = ?a and lost = lost and npub = "wt_npub tr" and s = s
      and draw = draw and config = config and b = b, OF assms(4,3,5,6,8)]
    show ?thesis unfolding wake
      by (rule core [THEN exE], erule rest, erule (1) gone, rule data(1), rule saved, rule assms(11), rule assms(12))
        (use that wake in auto)
  qed
  then show ?thesis using assms(12) by (auto simp: next_resume_seq_def runtime_is_live_def)
qed

end
