(* ===== verification/Hibernate_Live.thy ===== *)
theory Hibernate_Live
  imports Hibernate_Wake
begin

text \<open>
  Sealing over a disk that answers always settles: the seal commits and the seed is given up, or it is revoked
  and the agent stays awake.
\<close>

lemma calm_more [simp]: "he_dealer (calm env) = he_dealer env" "he_bundle_to_json (calm env) = he_bundle_to_json env"
  by (simp_all add: calm_def)

lemma calm_verify [simp]: "verify_share (calm env) = verify_share env"
  by (simp add: fun_eq_iff verify_share_def)

lemma calm_split [simp]: "split_seed (calm env) = split_seed env"
  by (simp add: fun_eq_iff split_seed_def)

lemma split_verifies: "s \<in> set (split_seed env seed e draw) \<Longrightarrow> verify_share env s = Inr ()"
  by (auto simp: split_seed_def verify_share_def Let_def split: prod.splits)

text \<open>A holder that would take a share of this epoch.\<close>

definition takes_epoch :: "hib_env \<Rightarrow> string \<Rightarrow> string \<Rightarrow> disk \<Rightarrow> u64 \<Rightarrow> string \<Rightarrow> bool" where
  "takes_epoch env t a d e i \<longleftrightarrow> dk_files d (holder_path t a i) = None
     \<or> (\<exists>st. at_rest env t a d i = Some st \<and> wr_epoch (hs_record st) < e)"

definition fresh_ack :: "share \<Rightarrow> string \<Rightarrow> string \<Rightarrow> string \<Rightarrow> ack" where
  "fresh_ack s i npub g = \<lparr>ak_holder_id = i, ak_npub = npub, ak_epoch = sh_epoch s, ak_bundle_digest = g,
     ak_share_commitment = sh_commitment s\<rparr>"

lemma calm_open:
  assumes "takes_epoch env t a d e i"
  shows "\<exists>h d'. holder_open (calm env) t a i d = (Inr h, d') \<and> ho_id h = i \<and> ho_path h = holder_path t a i
    \<and> dk_files d' = dk_files d \<and> (\<forall>st. ho_state h = Some st \<longrightarrow> wr_epoch (hs_record st) < e)"
  using assms
  by (auto simp: takes_epoch_def holder_open_def read_file_def at_rest_def disk_tick_def Let_def
    split: option.splits sum.splits)

lemma calm_receive:
  assumes "no_temps d" and "serializes env" and "ho_path h = holder_path t a (ho_id h)" and "verify_share env s = Inr ()"
    and "\<forall>st. ho_state h = Some st \<longrightarrow> wr_epoch (hs_record st) < sh_epoch s"
  shows "\<exists>h' d'. receive_share (calm env) s npub g n wake_at h d = (Inr (fresh_ack s (ho_id h) npub g), h', d')
    \<and> no_temps d' \<and> dk_files d' (bundle_path t a) = dk_files d (bundle_path t a)"
proof -
  have "receive_share (calm env) s npub g n wake_at h d
      = commit_state (calm env) h (fresh_state s npub g n wake_at) (fresh_ack s (ho_id h) npub g) d"
    using assms(4,5) by (auto simp: receive_share_def fresh_state_def fresh_ack_def ack_from_def Let_def split: option.split)
  then show ?thesis using calm_commit [OF assms(1-3), of "fresh_state s npub g n wake_at" "fresh_ack s (ho_id h) npub g"] by auto
qed

lemma calm_distribute:
  assumes "serializes env"
  shows "no_temps d \<Longrightarrow> distinct (map snd pairs) \<Longrightarrow>
     (\<forall>(s, i)\<in>set pairs. verify_share env s = Inr () \<and> takes_epoch env t a d (sh_epoch s) i) \<Longrightarrow>
     \<exists>d'. distribute (calm env) t a npub g n wake_at pairs acks d
         = (Inr (acks @ map (\<lambda>(s, i). fresh_ack s i npub g) pairs), d')
       \<and> no_temps d' \<and> dk_files d' (bundle_path t a) = dk_files d (bundle_path t a)"
proof (induction pairs arbitrary: acks d)
  case (Cons p pairs)
  obtain s i where p: "p = (s, i)" by (cases p)
  have ok: "verify_share env s = Inr ()" "takes_epoch env t a d (sh_epoch s) i" using Cons.prems(3) by (auto simp: p)
  obtain h d1 where h: "holder_open (calm env) t a i d = (Inr h, d1)" "ho_id h = i" "ho_path h = holder_path t a i"
    "dk_files d1 = dk_files d" "\<forall>st. ho_state h = Some st \<longrightarrow> wr_epoch (hs_record st) < sh_epoch s"
    using calm_open [OF ok(2)] by blast
  have temps: "no_temps d1" using Cons.prems(1) h(4) by (simp add: no_temps_def)
  obtain h' d2 where r: "receive_share (calm env) s npub g n wake_at h d1 = (Inr (fresh_ack s i npub g), h', d2)"
    "no_temps d2" "dk_files d2 (bundle_path t a) = dk_files d1 (bundle_path t a)"
    using calm_receive [OF temps assms _ ok(1) h(5), of t a npub g n wake_at] h(2,3) by auto
  have others: "dk_files d2 (holder_path t a j) = dk_files d (holder_path t a j)" if "j \<noteq> i" for j
    using receive_other [OF r(1), of "holder_path t a j"] that h(3,4) by (metis holder_path_inj plain_holder_path)
  have later: "\<forall>(s', j)\<in>set pairs. verify_share env s' = Inr () \<and> takes_epoch env t a d2 (sh_epoch s') j"
  proof (intro ballI, clarify)
    fix s' j assume m: "(s', j) \<in> set pairs"
    then have "j \<noteq> i" using Cons.prems(2) by (force simp: p)
    then show "verify_share env s' = Inr () \<and> takes_epoch env t a d2 (sh_epoch s') j"
      using Cons.prems(3) m others [of j] by (fastforce simp: takes_epoch_def at_rest_def p)
  qed
  have "distinct (map snd pairs)" using Cons.prems(2) by simp
  from Cons.IH [OF r(2) this later, of "acks @ [fresh_ack s i npub g]"]
  obtain d3 where "distribute (calm env) t a npub g n wake_at pairs (acks @ [fresh_ack s i npub g]) d2
      = (Inr ((acks @ [fresh_ack s i npub g]) @ map (\<lambda>(s, i). fresh_ack s i npub g) pairs), d3)"
    "no_temps d3" "dk_files d3 (bundle_path t a) = dk_files d2 (bundle_path t a)"
    by blast
  then show ?case using r h by (simp add: p)
qed simp

lemma calm_roster:
  assumes "serializes env" and "no_temps d" and "\<forall>i\<in>set HOLDER_IDS. takes_epoch env t a d e i"
  shows "\<exists>acks d'. distribute (calm env) t a npub g n wake_at (zip (split_seed env seed e draw) HOLDER_IDS) [] d = (Inr acks, d')
    \<and> no_temps d' \<and> dk_files d' (bundle_path t a) = dk_files d (bundle_path t a)
    \<and> acks_match acks g e (map sh_commitment (split_seed env seed e draw))"
proof -
  let ?shares = "split_seed env seed e draw" let ?pairs = "zip ?shares HOLDER_IDS"
  have "\<forall>(s, i)\<in>set ?pairs. verify_share env s = Inr () \<and> takes_epoch env t a d (sh_epoch s) i"
  proof (intro ballI, clarify)
    fix s i assume m: "(s, i) \<in> set ?pairs"
    show "verify_share env s = Inr () \<and> takes_epoch env t a d (sh_epoch s) i"
      using split_verifies [OF set_zip_leftD [OF m]] split_seed_props(2) [OF set_zip_leftD [OF m]] assms(3)
        set_zip_rightD [OF m] by simp
  qed
  moreover have "distinct (map snd ?pairs)" by (simp add: shares_zip(1))
  ultimately obtain d' where run: "distribute (calm env) t a npub g n wake_at ?pairs [] d
      = (Inr (map (\<lambda>(s, i). fresh_ack s i npub g) ?pairs), d')" "no_temps d'"
    "dk_files d' (bundle_path t a) = dk_files d (bundle_path t a)"
    using calm_distribute [OF assms(1,2), of ?pairs t a npub g n wake_at "[]"] by auto
  have "sh_epoch (?shares ! i) = e" if "i < 3" for i
    using split_seed_props(2) [OF nth_mem] that by (simp add: split_seed_props(1))
  then have "acks_match (map (\<lambda>(s, i). fresh_ack s i npub g) ?pairs) g e (map sh_commitment ?shares)"
    by (auto simp: acks_match_def shares_zip(2) SEAL_SHARES_def list_all_iff split_seed_props(1) fresh_ack_def)
  then show ?thesis using run by blast
qed

section \<open>A seal settles\<close>

lemma calm_persist:
  assumes "no_temps d" and "he_bundle_to_json env b = Inr data"
  shows "\<exists>d'. persist_bundle (calm env) t a b d = (Inr (compute_digest env b), d') \<and> no_temps d'
    \<and> dk_files d' = (dk_files d)(bundle_path t a \<mapsto> data)"
  using assms by (simp add: persist_bundle_def bundle_write_atomic_def calm_write no_temps_upd)

lemma takes_epoch_cong: "(\<And>i. dk_files d' (holder_path t a i) = dk_files d (holder_path t a i)) \<Longrightarrow>
    takes_epoch env t a d' e i = takes_epoch env t a d e i"
  by (simp add: takes_epoch_def at_rest_def)

lemma bundle_not_holder: "i \<in> set HOLDER_IDS \<Longrightarrow> bundle_path t a \<noteq> holder_path t a i"
  by (auto simp: bundle_path_def holder_path_def HOLDER_IDS_def)

lemma calm_publishes:
  assumes "hib_codec_ok env" and "serializes env" and "no_temps d" and "checked_add (sc_seal_epoch config) 2 \<noteq> None"
    and "quiesce w = (Inr b, w1)" and "he_bundle_to_json env b = Inr data"
    and "\<forall>i\<in>set HOLDER_IDS. takes_epoch env (sc_treasury_dir config) (sc_agent_id config) d (sc_seal_epoch config) i"
  shows "\<exists>draw acks d'. seal (calm env) config seed tr quiesce d w = commit_seal (calm env) config seed tr
      (wake_of config (compute_digest env b) b (map sh_commitment (split_seed env seed (sc_seal_epoch config) draw))) acks d' w1
    \<and> no_temps d' \<and> (\<forall>i\<in>set HOLDER_IDS. takes_epoch env (sc_treasury_dir config) (sc_agent_id config) d' (sc_seal_epoch config + 1) i)"
proof -
  let ?t = "sc_treasury_dir config" and ?a = "sc_agent_id config" and ?e = "sc_seal_epoch config" and ?g = "compute_digest env b"
  obtain d1 where persist: "persist_bundle (calm env) ?t ?a b d = (Inr ?g, d1)" "no_temps d1"
    "dk_files d1 = (dk_files d)(bundle_path ?t ?a \<mapsto> data)"
    using calm_persist [OF assms(3,6)] by blast
  let ?shares = "split_seed env seed ?e (dk_tick d1)"
  have "\<forall>i\<in>set HOLDER_IDS. takes_epoch env ?t ?a (disk_tick d1) ?e i"
    using assms(7) bundle_not_holder [of _ ?t ?a] by (auto simp: takes_epoch_def at_rest_def disk_tick_def persist(3))
  moreover have "no_temps (disk_tick d1)" using persist(2) by (simp add: no_temps_def disk_tick_def)
  ultimately obtain acks d2 where dist: "distribute (calm env) ?t ?a (wt_npub tr) ?g (sb_resume_seq b) (sc_wake_at config)
      (zip ?shares HOLDER_IDS) [] (disk_tick d1) = (Inr acks, d2)" "no_temps d2"
    "dk_files d2 (bundle_path ?t ?a) = Some data" "acks_match acks ?g ?e (map sh_commitment ?shares)"
    using calm_roster [OF assms(2), of "disk_tick d1" ?t ?a ?e] persist(3) by (fastforce simp: disk_tick_def)
  obtain d3 where load: "load_bundle (calm env) ?t ?a ?g d2 = (Inr b, d3)" "dk_files d3 = dk_files d2"
    using assms(1,6) dist(3) by (simp add: load_bundle_def read_file_def hib_codec_ok_def disk_tick_def Let_def)
  have "hib_codec_ok (calm env)" using assms(1) by (simp add: hib_codec_ok_def)
  then have "\<exists>st. at_rest env ?t ?a d2 (HOLDER_IDS ! k) = Some st \<and> wr_epoch (hs_record st) = ?e" if "k < 3" for k
    using distribute_roster [of "calm env" ?t ?a _ _ _ _ seed ?e "dk_tick d1"] dist(1) that by fastforce
  moreover have "?e < ?e + 1"
    using assms(4) by (auto simp: checked_add_def word_less_nat_alt unat_plus_if_size word_size split: if_splits)
  ultimately have "takes_epoch env ?t ?a d2 (?e + 1) i" if "i \<in> set HOLDER_IDS" for i
    using that unfolding in_set_conv_nth takes_epoch_def holder_ids by metis
  then have "\<forall>i\<in>set HOLDER_IDS. takes_epoch env ?t ?a d3 (?e + 1) i"
    using load(2) by (simp add: takes_epoch_def at_rest_def)
  moreover have "no_temps d3" using dist(2) load(2) by (simp add: no_temps_def)
  moreover obtain e2 where "checked_add ?e 2 = Some e2" using assms(4) by auto
  ultimately show ?thesis
    using assms(5) persist(1) dist(1,4) load(1) by (intro exI [of _ "dk_tick d1"] exI [of _ acks] exI [of _ d3]) (simp add: seal_def Let_def)
qed

lemma calm_revoke:
  assumes "serializes env" and "no_temps d"
    and "\<forall>i\<in>set HOLDER_IDS. takes_epoch env (sc_treasury_dir config) (sc_agent_id config) d (e + 1) i"
  shows "\<exists>d'. revoke (calm env) config seed npub g n e d = (Inr (e + 1), d')"
proof -
  have "no_temps (disk_tick d)" using assms(2) by (simp add: no_temps_def disk_tick_def)
  moreover have "\<forall>i\<in>set HOLDER_IDS. takes_epoch env (sc_treasury_dir config) (sc_agent_id config) (disk_tick d) (e + 1) i"
    using assms(3) by (simp add: takes_epoch_def at_rest_def disk_tick_def)
  ultimately obtain acks d' where "distribute (calm env) (sc_treasury_dir config) (sc_agent_id config) npub g n U64_MAX
      (zip (split_seed env seed (e + 1) (dk_tick d)) HOLDER_IDS) [] (disk_tick d) = (Inr acks, d')"
    using calm_roster [OF assms(1), of "disk_tick d" "sc_treasury_dir config" "sc_agent_id config" "e + 1"] by blast
  then show ?thesis by (simp add: revoke_def Let_def)
qed

text \<open>A seal settles. Over a disk that answers, with an epoch above what its holders have seen and a hook that
  quiesces, the ceremony never stops half way: if the relay shows the published wake request, the seal commits
  and the seed is overwritten; if it does not, the holders are frozen, the agent keeps its seed, and the next
  epoch it is told is the second after this one.\<close>

theorem seal_settles:
  assumes "hib_codec_ok env" and "serializes env" and "no_temps d" and "checked_add (sc_seal_epoch config) 2 = Some e2"
    and "quiesce w = (Inr b, w1)" and "he_bundle_to_json env b = Inr data"
    and "\<forall>i\<in>set HOLDER_IDS. takes_epoch env (sc_treasury_dir config) (sc_agent_id config) d (sc_seal_epoch config) i"
  shows "\<exists>req published w2 live w3 out seed' d'. seal (calm env) config seed tr quiesce d w = (out, seed', d', if live then w3
        else best_effort_tombstone tr req (sc_seal_epoch config + 1) w3)
    \<and> wt_publish tr req w1 = (published, w2)
    \<and> confirm_live tr req (case published of Inr i \<Rightarrow> Some i | Inl _ \<Rightarrow> None) config w2 = (live, w3)
    \<and> wq_bundle_digest req = compute_digest env b \<and> se_holders (wq_seal req) = HOLDER_IDS
    \<and> (if live then (\<exists>sd. out = Sealed sd \<and> sd_wake_request sd = req) \<and> seed' = replicate (length seed) (char_of (0 :: nat))
       else out = SealAborted e2 WakeRequestUnconfirmedRevoked \<and> seed' = seed)"
proof -
  have epoch: "checked_add (sc_seal_epoch config) 2 \<noteq> None" using assms(4) by simp
  obtain draw acks d3 where run: "seal (calm env) config seed tr quiesce d w = commit_seal (calm env) config seed tr
      (wake_of config (compute_digest env b) b (map sh_commitment (split_seed env seed (sc_seal_epoch config) draw))) acks d3 w1"
    "no_temps d3" "\<forall>i\<in>set HOLDER_IDS. takes_epoch env (sc_treasury_dir config) (sc_agent_id config) d3 (sc_seal_epoch config + 1) i"
    using calm_publishes [where quiesce = quiesce, OF assms(1-3) epoch assms(5-7)] by blast
  define req where "req = wake_of config (compute_digest env b) b (map sh_commitment (split_seed env seed (sc_seal_epoch config) draw))"
  obtain published w2 where pub: "wt_publish tr req w1 = (published, w2)" by (cases "wt_publish tr req w1")
  obtain live w3 where live: "confirm_live tr req (case published of Inr i \<Rightarrow> Some i | Inl _ \<Rightarrow> None) config w2 = (live, w3)"
    by fastforce
  obtain d4 where frozen: "revoke (calm env) config seed (wt_npub tr) (wq_bundle_digest req) (wq_resume_seq req) (sc_seal_epoch config) d3
      = (Inr (sc_seal_epoch config + 1), d4)"
    using calm_revoke [OF assms(2) run(2,3)] by blast
  have e2: "e2 = sc_seal_epoch config + 1 + 1" using assms(4) by (auto simp: checked_add_Some)
  have "\<exists>out seed' d'. seal (calm env) config seed tr quiesce d w = (out, seed', d', if live then w3
        else best_effort_tombstone tr req (sc_seal_epoch config + 1) w3)
    \<and> (if live then (\<exists>sd. out = Sealed sd \<and> sd_wake_request sd = req) \<and> seed' = replicate (length seed) (char_of (0 :: nat))
       else out = SealAborted e2 WakeRequestUnconfirmedRevoked \<and> seed' = seed)"
    unfolding run(1) req_def [symmetric] by (cases live) (simp_all add: commit_seal_def pub live frozen e2 zeroize_def Let_def)
  moreover have "wq_bundle_digest req = compute_digest env b \<and> se_holders (wq_seal req) = HOLDER_IDS" by (simp add: req_def)
  ultimately show ?thesis using pub live by blast
qed

end
