(* ===== verification/Hibernate_Samples.thy ===== *)
theory Hibernate_Samples
  imports Hibernate_Live Keyset_Store
begin

text \<open>
  A concrete agent that hibernates: a framed encoding of holders and bundles, a dealer that gives every holder
  the seed, a relay that shows what was published. The properties of hibernation are applied to it.
\<close>

section \<open>An encoding\<close>

definition enc_record :: "watcher_record \<Rightarrow> string list" where
  "enc_record r = [wr_npub r, to_be_bytes (wr_epoch r), wr_bundle_digest r, to_be_bytes (wr_resume_seq r),
     to_be_bytes (wr_wake_at r), wr_share_commitment r]"

definition enc_lease :: "live_lease option \<Rightarrow> string list" where
  "enc_lease l = (case l of None \<Rightarrow> ['''', '''', '''', '''']
     | Some l \<Rightarrow> [''live'', ll_lease_id l, to_be_bytes (ll_expires_at l), ll_spawner l])"

definition enc_share :: "share \<Rightarrow> string list" where
  "enc_share s = [[byte_of (sh_index s)], sh_bytes s, to_be_bytes (sh_epoch s), sh_commitment s]"

definition enc_history :: "release_entry list \<Rightarrow> string list" where
  "enc_history es = concat (map (\<lambda>e. [re_lease_id e, re_spawner e, to_be_bytes (re_released_at e)]) es)"

definition enc_holder :: "holder_state \<Rightarrow> bytes" where
  "enc_holder st = concat (map framed (enc_record (hs_record st) @ enc_lease (wr_active_lease (hs_record st))
     @ enc_share (hs_share st) @ enc_history (wr_history (hs_record st))))"

fun dec_history :: "string list \<Rightarrow> release_entry list" where
  "dec_history (i # s # t # r) = \<lparr>re_lease_id = i, re_spawner = s, re_released_at = from_be_bytes t\<rparr> # dec_history r"
| "dec_history _ = []"

fun dec_holder :: "string list \<Rightarrow> string + holder_state" where
  "dec_holder (npub # epoch # digest # seq # wake # com # live # lid # until # spawner # ix # bs # e # c # hist) =
     Inr \<lparr>hs_record = \<lparr>wr_npub = npub, wr_epoch = from_be_bytes epoch, wr_bundle_digest = digest,
        wr_resume_seq = from_be_bytes seq, wr_wake_at = from_be_bytes wake, wr_share_commitment = com,
        wr_active_lease = (if live = '''' then None
          else Some \<lparr>ll_lease_id = lid, ll_expires_at = from_be_bytes until, ll_spawner = spawner\<rparr>),
        wr_history = dec_history hist\<rparr>,
       hs_share = \<lparr>sh_index = (case ix of [] \<Rightarrow> 0 | x # _ \<Rightarrow> of_byte x), sh_bytes = bs, sh_epoch = from_be_bytes e,
         sh_commitment = c\<rparr>\<rparr>"
| "dec_holder _ = Inl ''eof''"

definition enc_bundle :: "state_bundle \<Rightarrow> bytes" where
  "enc_bundle b = concat (map framed [sb_memory_digest b, to_be_bytes (ws_balance_sats (sb_wallet_state b)),
     ws_proofs (sb_wallet_state b), cp_sha256 (sb_checkpoint b), to_be_bytes (cp_len (sb_checkpoint b)), to_be_bytes (sb_resume_seq b)])"

fun dec_bundle :: "string list \<Rightarrow> string + state_bundle" where
  "dec_bundle [m, bal, prf, sha, len, seq] = Inr \<lparr>sb_memory_digest = m,
     sb_wallet_state = \<lparr>ws_balance_sats = from_be_bytes bal, ws_proofs = prf\<rparr>,
     sb_checkpoint = \<lparr>cp_sha256 = sha, cp_len = from_be_bytes len\<rparr>, sb_resume_seq = from_be_bytes seq\<rparr>"
| "dec_bundle _ = Inl ''eof''"

definition sample_hib_env :: hib_env where
  "sample_hib_env = \<lparr>he_sha256 = rev, he_hex_encode = (\<lambda>b. take 1 b), he_hkdf = (\<lambda>s i n. take n (s @ i @ s)),
     he_dealer = (\<lambda>t s draw n. (of_nat (n + 1), s)),
     he_share_try_from = (\<lambda>b. case b of [] \<Rightarrow> None | x # ys \<Rightarrow> Some (of_byte x, ys)),
     he_recover = (\<lambda>t ss. case ss of [] \<Rightarrow> None | s # _ \<Rightarrow> Some (snd s)),
     he_holder_to_json = (\<lambda>st. Inr (enc_holder st)), he_holder_from_json = (\<lambda>b. dec_holder (unframe [] b)),
     he_bundle_to_json = (\<lambda>b. Inr (enc_bundle b)), he_bundle_from_json = (\<lambda>b. dec_bundle (unframe [] b)),
     he_write_fault = (\<lambda>k. None), he_read_fails = (\<lambda>k. False), he_random = of_nat\<rparr>"

lemma dec_enc_history: "dec_history (enc_history es) = es"
  by (induction es) (simp_all add: enc_history_def)

lemma sample_hib_codec_ok: "hib_codec_ok sample_hib_env"
  by (auto simp: hib_codec_ok_def sample_hib_env_def enc_holder_def enc_bundle_def unframe_all enc_record_def enc_lease_def
    enc_share_def dec_enc_history simp del: concat.simps list.map split: option.split)

lemma sample_sss_ok: "sss_ok sample_hib_env"
  by (simp add: sss_ok_def sample_hib_env_def)

section \<open>A run\<close>

definition sample_bundle :: state_bundle where
  "sample_bundle = \<lparr>sb_memory_digest = ''m'', sb_wallet_state = \<lparr>ws_balance_sats = 21, ws_proofs = ''p''\<rparr>,
     sb_checkpoint = \<lparr>cp_sha256 = ''c'', cp_len = 4\<rparr>, sb_resume_seq = 6\<rparr>"

definition sample_config :: seal_config where
  "sample_config = \<lparr>sc_agent_id = ''a'', sc_treasury_dir = ''/t'', sc_seal_epoch = 1, sc_wake_at = 50, sc_image_ref = ''i'',
     sc_solvency_hint = 0, sc_confirm_attempts = 1\<rparr>"

definition sample_seed :: bytes where "sample_seed = replicate 32 (CHR ''s'')"

text \<open>A relay that shows what was published to it, or nothing.\<close>

definition sample_relay :: "bool \<Rightarrow> wake_request option wake_transport" where
  "sample_relay shows = \<lparr>wt_npub = ''npub'', wt_publish = (\<lambda>r w. (Inr ''id'', Some r)),
     wt_fetch_by_digest = (\<lambda>g w. (Inr (if shows then map_option (\<lambda>r. \<lparr>fw_request = r, fw_event_id = ''id''\<rparr>) w else None), w))\<rparr>"

definition sample_seal :: "bool \<Rightarrow> seal_outcome \<times> bytes \<times> disk \<times> wake_request option" where
  "sample_seal shows = seal sample_hib_env sample_config sample_seed (sample_relay shows) (\<lambda>w. (Inr sample_bundle, w))
     \<lparr>dk_files = (\<lambda>p. None), dk_tick = 0\<rparr> None"

lemma sample_calm: "calm sample_hib_env = sample_hib_env"
  by (simp add: calm_def sample_hib_env_def)

lemma sample_serializes: "serializes sample_hib_env"
  by (simp add: serializes_def sample_hib_env_def)

lemma sample_bundle_json: "he_bundle_to_json sample_hib_env sample_bundle = Inr (enc_bundle sample_bundle)"
  by (simp add: sample_hib_env_def)

lemma sample_start: "no_temps \<lparr>dk_files = (\<lambda>p. None), dk_tick = 0\<rparr>"
  "takes_epoch env t a \<lparr>dk_files = (\<lambda>p. None), dk_tick = 0\<rparr> e i"
  "at_rest env t a \<lparr>dk_files = (\<lambda>p. None), dk_tick = 0\<rparr> i = None"
  by (simp_all add: no_temps_def takes_epoch_def at_rest_def)

lemma sample_publishes: "\<exists>draw acks d'. sample_seal shows = commit_seal sample_hib_env sample_config sample_seed (sample_relay shows)
      (wake_of sample_config (compute_digest sample_hib_env sample_bundle) sample_bundle
        (map sh_commitment (split_seed sample_hib_env sample_seed 1 draw))) acks d' None
    \<and> no_temps d' \<and> (\<forall>i\<in>set HOLDER_IDS. takes_epoch sample_hib_env ''/t'' ''a'' d' (1 + 1) i)"
proof -
  have "checked_add (sc_seal_epoch sample_config) 2 \<noteq> None" by (simp add: sample_config_def checked_add_def)
  from calm_publishes [where config = sample_config and quiesce = "\<lambda>w. (Inr sample_bundle, w)" and tr = "sample_relay shows"
      and seed = sample_seed, OF sample_hib_codec_ok sample_serializes sample_start(1) this refl sample_bundle_json,
      of None, unfolded sample_calm]
  show ?thesis by (simp add: sample_start(2) sample_seal_def) (simp add: sample_config_def)
qed

lemma sample_commits: "\<exists>sd s d w. sample_seal True = (Sealed sd, s, d, w)"
  using sample_publishes [of True]
  by (auto simp: commit_seal_def confirm_live_def sample_relay_def Let_def)
    (auto simp: sample_config_def)

lemma sample_revokes: "\<exists>s d w. sample_seal False = (SealAborted 3 WakeRequestUnconfirmedRevoked, s, d, w)"
proof -
  obtain draw acks d where run: "sample_seal False = commit_seal sample_hib_env sample_config sample_seed (sample_relay False)
      (wake_of sample_config (compute_digest sample_hib_env sample_bundle) sample_bundle
        (map sh_commitment (split_seed sample_hib_env sample_seed 1 draw))) acks d None"
    "no_temps d" "\<forall>i\<in>set HOLDER_IDS. takes_epoch sample_hib_env ''/t'' ''a'' d (1 + 1) i"
    using sample_publishes by blast
  have dirs: "sc_treasury_dir sample_config = ''/t''" "sc_agent_id sample_config = ''a''" "sc_seal_epoch sample_config = 1"
    "sc_confirm_attempts sample_config = 1"
    by (simp_all add: sample_config_def)
  have "\<exists>d'. revoke sample_hib_env sample_config sample_seed ''npub'' (compute_digest sample_hib_env sample_bundle)
      (sb_resume_seq sample_bundle) 1 d = (Inr (1 + 1), d')"
    using calm_revoke [OF sample_serializes run(2), of sample_config 1 sample_seed "''npub''"
      "compute_digest sample_hib_env sample_bundle" "sb_resume_seq sample_bundle"] run(3)
    unfolding sample_calm dirs by blast
  then obtain d' where "revoke sample_hib_env sample_config sample_seed ''npub'' (compute_digest sample_hib_env sample_bundle)
      (sb_resume_seq sample_bundle) 1 d = (Inr (1 + 1), d')" ..
  then show ?thesis by (simp add: run(1) commit_seal_def confirm_live_def sample_relay_def dirs)
qed

section \<open>The properties on it\<close>

text \<open>The disk a spawner finds: the bundle and the first two holders.\<close>

definition survivors :: "disk \<Rightarrow> disk" where
  "survivors d = \<lparr>dk_files = (\<lambda>p. if p \<in> {bundle_path ''/t'' ''a'', holder_path ''/t'' ''a'' ''holder-0'', holder_path ''/t'' ''a'' ''holder-1''}
     then dk_files d p else None), dk_tick = 0\<rparr>"

definition sample_spawner :: "string \<Rightarrow> spawner_proposal" where
  "sample_spawner i = \<lparr>pr_lease_id = i, pr_ephemeral_pubkey = ''eph'', pr_ttl_secs = 30\<rparr>"

lemma survivors_props: "no_temps (survivors d)"
  "dk_files (survivors d) (bundle_path ''/t'' ''a'') = dk_files d (bundle_path ''/t'' ''a'')"
  "i \<in> set HOLDER_IDS \<Longrightarrow> dk_files (survivors d) (holder_path ''/t'' ''a'' i)
     = (if i = ''holder-2'' then None else dk_files d (holder_path ''/t'' ''a'' i))"
proof -
  have "temp_path q r \<noteq> p" if "plain_path p" for p q r using that by (metis plain_path_def)
  then show "no_temps (survivors d)" by (simp add: no_temps_def survivors_def)
  show "dk_files (survivors d) (bundle_path ''/t'' ''a'') = dk_files d (bundle_path ''/t'' ''a'')"
    by (simp add: survivors_def)
  show "i \<in> set HOLDER_IDS \<Longrightarrow> dk_files (survivors d) (holder_path ''/t'' ''a'' i)
     = (if i = ''holder-2'' then None else dk_files d (holder_path ''/t'' ''a'' i))"
    by (auto simp: survivors_def HOLDER_IDS_def holder_path_def bundle_path_def)
qed

lemma to_hex_inj: "to_hex a = to_hex b \<Longrightarrow> a = b"
proof (induction a arbitrary: b)
  case (Cons c a)
  obtain c' b' where b: "b = c' # b'" using Cons.prems by (cases b) (simp_all add: to_hex_def)
  have low: "hex_digit m = hex_digit n \<longleftrightarrow> m = n" if "m < 16" "n < 16" for m n
  proof -
    have "distinct ''0123456789abcdef''" by simp
    then show ?thesis using that by (simp add: hex_digit_def nth_eq_iff_index_eq)
  qed
  have "(of_char c :: nat) div 16 < 16" "(of_char c' :: nat) div 16 < 16" using nat_of_char_less_256 [of c] nat_of_char_less_256 [of c'] by (simp_all add: div_less_iff_less_mult)
  then have "(of_char c :: nat) div 16 = of_char c' div 16" "(of_char c :: nat) mod 16 = of_char c' mod 16" and "to_hex a = to_hex b'"
    using Cons.prems low by (simp_all add: to_hex_def b)
  then show ?case using Cons.IH by (metis b div_mult_mod_eq of_char_eq_iff)
qed (auto simp: to_hex_def split: list.splits)

theorem sealed_wakes_witness: "\<exists>sd s d w rt d3. sample_seal True = (Sealed sd, s, d, w)
    \<and> reconstitute sample_hib_env ''/t'' ''a'' ''npub'' (sd_wake_request sd) (sample_spawner ''l1'') 60 (survivors d) = (Inr rt, d3)
    \<and> rt_bundle rt = sample_bundle \<and> runtime_is_live rt 60"
proof -
  obtain sd s d w where run: "sample_seal True = (Sealed sd, s, d, w)" using sample_commits by blast
  have dirs: "sc_treasury_dir sample_config = ''/t''" "sc_agent_id sample_config = ''a''"
    by (simp_all add: sample_config_def)
  have "(60 :: u64) < saturating_add 60 (pr_ttl_secs (sample_spawner ''l1''))"
    by (simp add: sample_spawner_def saturating_add_def checked_add_def)
  moreover have "sc_wake_at sample_config \<le> (60 :: u64)" and "length sample_seed = MASTER_SEED_LEN"
    by (simp_all add: sample_config_def sample_seed_def MASTER_SEED_LEN_def)
  ultimately show ?thesis
    using sealed_wakes [OF run [unfolded sample_seal_def] refl sample_hib_codec_ok sample_serializes sample_sss_ok,
        where ?d2.0 = "survivors d" and lost = "''holder-2''" and s = "sample_spawner ''l1''" and now = 60, unfolded dirs sample_calm]
      survivors_props sample_start(3) run
    by (auto simp: sample_relay_def)
qed

theorem revoked_never_wakes_witness: "\<exists>s d w e. sample_seal False = (SealAborted 3 WakeRequestUnconfirmedRevoked, s, d, w)
    \<and> s = sample_seed \<and> fst (reconstitute sample_hib_env ''/t'' ''a'' ''npub'' \<lparr>wq_wake_at = 0, wq_bundle_digest = ''x'', wq_image_ref = ''i'',
        wq_seal = \<lparr>se_holders = HOLDER_IDS, se_threshold = 2, se_commitments = [], se_epoch = 2\<rparr>,
        wq_resume_seq = 6, wq_solvency_hint = 0\<rparr> (sample_spawner ''l1'') 60 d) = Inl e"
proof -
  obtain s d w where run: "sample_seal False = (SealAborted 3 WakeRequestUnconfirmedRevoked, s, d, w)" using sample_revokes by blast
  have dirs: "sc_treasury_dir sample_config = ''/t''" "sc_agent_id sample_config = ''a''"
    by (simp_all add: sample_config_def)
  have "(60 :: u64) < U64_MAX" by (simp add: U64_MAX_def)
  then show ?thesis
    using revoked_never_wakes [OF run [unfolded sample_seal_def] sample_hib_codec_ok, unfolded dirs,
      of d "\<lparr>wq_wake_at = 0, wq_bundle_digest = ''x'', wq_image_ref = ''i'',
        wq_seal = \<lparr>se_holders = HOLDER_IDS, se_threshold = 2, se_commitments = [], se_epoch = 2\<rparr>,
        wq_resume_seq = 6, wq_solvency_hint = 0\<rparr>" 60] run
    by auto
qed

lemma sample_wakes: "\<exists>wake d rt d1. length (se_holders (wq_seal wake)) \<le> 3
    \<and> reconstitute sample_hib_env ''/t'' ''a'' ''npub'' wake (sample_spawner ''l1'') 60 d = (Inr rt, d1)
    \<and> ql_expires_at (rt_lease rt) = 90"
proof -
  obtain sd s d w where run: "sample_seal True = (Sealed sd, s, d, w)" using sample_commits by blast
  have dirs: "sc_treasury_dir sample_config = ''/t''" "sc_agent_id sample_config = ''a''" "wt_npub (sample_relay True) = ''npub''"
    by (simp_all add: sample_config_def sample_relay_def)
  obtain draw data where
    rest: "\<And>k. k < 3 \<Longrightarrow> at_rest sample_hib_env ''/t'' ''a'' d (HOLDER_IDS ! k)
      = Some (fresh_state (split_seed sample_hib_env sample_seed (sc_seal_epoch sample_config) draw ! k) ''npub''
          (compute_digest sample_hib_env sample_bundle) (sb_resume_seq sample_bundle) (sc_wake_at sample_config))"
    and data: "he_bundle_to_json sample_hib_env sample_bundle = Inr data" "dk_files d (bundle_path ''/t'' ''a'') = Some data"
    using sealed_at_rest [OF run [unfolded sample_seal_def] refl sample_hib_codec_ok, unfolded dirs] sample_start(3) by (metis option.distinct(1))
  let ?d = "survivors d"
  have in_roster: "HOLDER_IDS ! k \<in> set HOLDER_IDS" if "k < 3" for k using that by (intro nth_mem) simp
  have after: "at_rest sample_hib_env ''/t'' ''a'' ?d (HOLDER_IDS ! k) = (if HOLDER_IDS ! k = ''holder-2'' then None
      else Some (fresh_state (split_seed sample_hib_env sample_seed (sc_seal_epoch sample_config) draw ! k) ''npub''
          (compute_digest sample_hib_env sample_bundle) (sb_resume_seq sample_bundle) (sc_wake_at sample_config)))" if "k < 3" for k
    using rest [OF that] survivors_props(3) [OF in_roster [OF that], of d] by (auto simp: at_rest_def)
  have gone: "dk_files ?d (holder_path ''/t'' ''a'' (HOLDER_IDS ! k)) = None" if "k < 3" "HOLDER_IDS ! k = ''holder-2''" for k
    using survivors_props(3) [OF in_roster [OF that(1)], of d] that(2) by simp
  have seed: "length sample_seed = MASTER_SEED_LEN" and times: "sc_wake_at sample_config \<le> (60 :: u64)"
    and until: "saturating_add 60 (pr_ttl_secs (sample_spawner ''l1'')) = 90"
    by (simp_all add: sample_seed_def MASTER_SEED_LEN_def sample_config_def sample_spawner_def saturating_add_def checked_add_def)
  have live: "60 < saturating_add 60 (pr_ttl_secs (sample_spawner ''l1''))" by (simp add: until)
  have saved: "dk_files ?d (bundle_path ''/t'' ''a'') = Some data" using data(2) survivors_props(2) by simp
  note core = calm_reconstitute [where t = "''/t''" and a = "''a''" and lost = "''holder-2''" and npub = "''npub''"
      and s = "sample_spawner ''l1''" and draw = draw and config = sample_config and b = sample_bundle,
      OF sample_serializes sample_hib_codec_ok sample_sss_ok seed survivors_props(1), unfolded sample_calm]
  show ?thesis
    by (rule core [THEN exE], erule after, erule (1) gone, rule data(1), rule saved, rule times, rule live)
      (use until in \<open>force simp: \<close>)
qed

theorem one_live_runtime_witness: "\<exists>wake d rt d1 n. reconstitute sample_hib_env ''/t'' ''a'' ''npub'' wake (sample_spawner ''l1'') 60 d = (Inr rt, d1)
    \<and> fst (reconstitute sample_hib_env ''/t'' ''a'' ''npub'' wake (sample_spawner ''l2'') 89 d1) = Inl (UnsealQuorum n 2)"
proof -
  obtain wake d rt d1 where r: "length (se_holders (wq_seal wake)) \<le> 3"
    "reconstitute sample_hib_env ''/t'' ''a'' ''npub'' wake (sample_spawner ''l1'') 60 d = (Inr rt, d1)"
    "ql_expires_at (rt_lease rt) = 90"
    using sample_wakes by blast
  have other: "(pr_lease_id (sample_spawner ''l2''), pr_ephemeral_pubkey (sample_spawner ''l2''))
      \<noteq> (pr_lease_id (sample_spawner ''l1''), pr_ephemeral_pubkey (sample_spawner ''l1''))" by (simp add: sample_spawner_def)
  have live: "89 < ql_expires_at (rt_lease rt)" by (simp add: r(3))
  from one_live_runtime [OF sample_hib_codec_ok r(1,2), of "[]" rt d1, OF _ _ live other] r(2)
  show ?thesis unfolding renewals.simps extending.simps by blast
qed

lemma sample_loads: "\<exists>c d. load_bundle sample_hib_env ''/t'' ''a'' (compute_digest sample_hib_env sample_bundle)
    \<lparr>dk_files = [bundle_path ''/t'' ''a'' \<mapsto> enc_bundle sample_bundle], dk_tick = 0\<rparr> = (Inr c, d) \<and> sized c"
proof -
  have "dec_bundle (unframe [] (enc_bundle sample_bundle)) = Inr sample_bundle"
    by (simp add: enc_bundle_def unframe_all sample_bundle_def del: concat.simps list.map)
  moreover have "sized sample_bundle" by (simp add: sized_def sample_bundle_def)
  ultimately show ?thesis by (simp add: load_bundle_def read_file_def disk_tick_def Let_def) (simp add: sample_hib_env_def)
qed

theorem digest_commits_witness: "\<exists>c d. load_bundle sample_hib_env ''/t'' ''a'' (compute_digest sample_hib_env sample_bundle)
    \<lparr>dk_files = [bundle_path ''/t'' ''a'' \<mapsto> enc_bundle sample_bundle], dk_tick = 0\<rparr> = (Inr c, d)
    \<and> rev (canonical_bytes c) = rev (canonical_bytes sample_bundle) \<and> c = sample_bundle"
proof -
  obtain c d where run: "load_bundle sample_hib_env ''/t'' ''a'' (compute_digest sample_hib_env sample_bundle)
    \<lparr>dk_files = [bundle_path ''/t'' ''a'' \<mapsto> enc_bundle sample_bundle], dk_tick = 0\<rparr> = (Inr c, d)" and c: "sized c"
    using sample_loads by blast
  have "sized sample_bundle" by (simp add: sized_def sample_bundle_def)
  from digest_commits [OF run this c] have "c = sample_bundle"
    by (rule disjE) (use to_hex_inj in \<open>auto simp: sample_hib_env_def\<close>)
  then show ?thesis using run by blast
qed

theorem seal_settles_witness: "\<exists>seed d w. seal sample_hib_env sample_config sample_seed (sample_relay False) (\<lambda>w. (Inr sample_bundle, w))
    \<lparr>dk_files = (\<lambda>p. None), dk_tick = 0\<rparr> None = (SealAborted 3 WakeRequestUnconfirmedRevoked, seed, d, w) \<and> seed = sample_seed"
proof -
  have ok: "checked_add (sc_seal_epoch sample_config) 2 = Some 3" and one: "sc_confirm_attempts sample_config = 1"
    by (simp_all add: sample_config_def checked_add_def)
  have start: "\<forall>i\<in>set HOLDER_IDS. takes_epoch sample_hib_env (sc_treasury_dir sample_config) (sc_agent_id sample_config)
      \<lparr>dk_files = (\<lambda>p. None), dk_tick = 0\<rparr> (sc_seal_epoch sample_config) i"
    by (simp add: sample_start(2))
  have dark: "\<not> fst (confirm_live (sample_relay False) req i sample_config w)" for req i w
    by (simp add: confirm_live_def one sample_relay_def)
  from seal_settles [where quiesce = "\<lambda>w. (Inr sample_bundle, w)" and tr = "sample_relay False" and seed = sample_seed,
      OF sample_hib_codec_ok sample_serializes sample_start(1) ok refl sample_bundle_json start, of None, unfolded sample_calm]
  show ?thesis
  proof (elim exE conjE, goal_cases)
    case (1 req published w2 live w3 out seed' d')
    then have "\<not> live" using dark [of req _ w2] by (metis fst_conv)
    then show ?case using 1(1,6) by simp
  qed
qed

end
