(* ===== verification/Wallet_Counter.thy ===== *)
theory Wallet_Counter
  imports Prelude
begin

text \<open>
  The counter of the agent's Cashu wallet (\<open>nip60_counter.rs\<close>): NUT-13 derives every blinding secret from a
  counter per keyset, and a secret derived twice loses money. A decorator of the wallet store mirrors the
  counter for the relay backup and refuses every derivation until the counter was established. Also the
  opening of a persistent wallet (\<open>mint_rig.rs\<close>) and the relay quorums of the backup (\<open>config.rs\<close>).
  The wrapped store is an argument, as is the order in which a hash map is walked.
\<close>

section \<open>Relay quorums\<close>

record nip60_config =
  n60_relays :: "string list"
  n60_write_k :: "nat option"
  n60_read_k :: "nat option"
  n60_backup_flush_secs :: "u64 option"

datatype nip60_durability = Quorum | BelowQuorum | SingleRelayDevOnly

definition DEFAULT_NIP60_BACKUP_FLUSH_SECS :: u64 where "DEFAULT_NIP60_BACKUP_FLUSH_SECS = 10"

definition backup_flush_interval :: "nip60_config \<Rightarrow> u64" where
  "backup_flush_interval cfg =
     (let s = (case n60_backup_flush_secs cfg of Some s \<Rightarrow> s | None \<Rightarrow> DEFAULT_NIP60_BACKUP_FLUSH_SECS)
      in if s = 0 then DEFAULT_NIP60_BACKUP_FLUSH_SECS else s)"

definition clamp_quorum :: "nat option \<Rightarrow> nat \<Rightarrow> nat" where
  "clamp_quorum k n = min n (max 1 (case k of Some k \<Rightarrow> k | None \<Rightarrow> n div 2 + 1))"

definition nip60_resolve :: "nip60_config \<Rightarrow> string \<Rightarrow> string list \<times> nat \<times> nat \<times> nip60_durability" where
  "nip60_resolve cfg fleet_relay =
     (let relays = (if n60_relays cfg = [] then [fleet_relay] else n60_relays cfg); n = length relays
      in (relays, clamp_quorum (n60_write_k cfg) n, clamp_quorum (n60_read_k cfg) n,
          if n \<le> 1 then SingleRelayDevOnly else if n = 2 then BelowQuorum else Quorum))"

definition quorum_intersection_ok :: "nat \<Rightarrow> nat \<Rightarrow> nat \<Rightarrow> bool" where
  "quorum_intersection_ok read_k write_k n \<longleftrightarrow> n < read_k + write_k"

definition nip60_resolve_checked :: "nip60_config \<Rightarrow> string \<Rightarrow> string + string list \<times> nat \<times> nat \<times> nip60_durability" where
  "nip60_resolve_checked cfg fleet_relay =
     (case nip60_resolve cfg fleet_relay of
        (relays, write_k, read_k, durability) \<Rightarrow>
          if \<not> quorum_intersection_ok read_k write_k (length relays)
          then Inl ''NIP-60 relay config refuses to boot: read_k + write_k must be > n''
          else Inr (relays, write_k, read_k, durability))"

section \<open>The counter decorator\<close>

type_synonym 'i counters = "'i \<Rightarrow> u32 option"

text \<open>The wrapped store: its counter increment returns the counter after it. A hash map is walked in some order.\<close>

record ('i, 'w) wallet_store =
  wl_increment :: "'i \<Rightarrow> u32 \<Rightarrow> 'w \<Rightarrow> (string + u32) \<times> 'w"
  wl_iter :: "'i counters \<Rightarrow> ('i \<times> u32) list"

record ('i, 'w) counter_db =
  cd_inner :: 'w
  cd_shadow :: "'i counters"
  cd_counter_established :: bool
  cd_recovery_complete :: bool

definition with_counters :: "'w \<Rightarrow> 'i counters \<Rightarrow> ('i, 'w) counter_db" where
  "with_counters inner initial =
     \<lparr>cd_inner = inner, cd_shadow = initial, cd_counter_established = True, cd_recovery_complete = True\<rparr>"

definition counter_db_new :: "'w \<Rightarrow> ('i, 'w) counter_db" where
  "counter_db_new inner = with_counters inner (\<lambda>i. None)"

definition with_counters_established :: "'w \<Rightarrow> 'i counters \<Rightarrow> bool \<Rightarrow> ('i, 'w) counter_db" where
  "with_counters_established inner initial established =
     \<lparr>cd_inner = inner, cd_shadow = initial, cd_counter_established = established, cd_recovery_complete = False\<rparr>"

definition establish :: "('i, 'w) counter_db \<Rightarrow> ('i, 'w) counter_db" where
  "establish db = db\<lparr>cd_counter_established := True\<rparr>"

definition is_established :: "('i, 'w) counter_db \<Rightarrow> bool" where
  "is_established db \<longleftrightarrow> cd_counter_established db"

definition mark_recovery_complete :: "('i, 'w) counter_db \<Rightarrow> ('i, 'w) counter_db" where
  "mark_recovery_complete db = db\<lparr>cd_recovery_complete := True\<rparr>"

definition is_recovery_complete :: "('i, 'w) counter_db \<Rightarrow> bool" where
  "is_recovery_complete db \<longleftrightarrow> cd_recovery_complete db"

definition keyset_counters :: "('i, 'w) counter_db \<Rightarrow> 'i counters" where
  "keyset_counters db = cd_shadow db"

definition observe_counter :: "'i \<Rightarrow> u32 \<Rightarrow> ('i, 'w) counter_db \<Rightarrow> ('i, 'w) counter_db" where
  "observe_counter keyset_id counter db =
     db\<lparr>cd_shadow := (cd_shadow db)(keyset_id \<mapsto> max (case cd_shadow db keyset_id of Some c \<Rightarrow> c | None \<Rightarrow> 0) counter)\<rparr>"

definition seed_floor :: "('i, 'w) wallet_store \<Rightarrow> 'i counters \<Rightarrow> ('i, 'w) counter_db \<Rightarrow> ('i, 'w) counter_db" where
  "seed_floor ws floors db = fold (\<lambda>(i, c). observe_counter i c) (wl_iter ws floors) db"

text \<open>The wrapped store is lifted, never lowered; an increment by 0 reads it.\<close>

fun fast_forward_all :: "('i, 'w) wallet_store \<Rightarrow> ('i \<times> u32) list \<Rightarrow> 'w \<Rightarrow> (string + unit) \<times> 'w" where
  "fast_forward_all ws [] w = (Inr (), w)"
| "fast_forward_all ws ((i, level) # rest) w =
     (case wl_increment ws i 0 w of
        (Inl e, w1) \<Rightarrow> (Inl e, w1)
      | (Inr cur, w1) \<Rightarrow>
          if cur < level then
            (case wl_increment ws i (level - cur) w1 of
               (Inl e, w2) \<Rightarrow> (Inl e, w2) | (Inr _, w2) \<Rightarrow> fast_forward_all ws rest w2)
          else fast_forward_all ws rest w1)"

definition fast_forward_inner_to_floor ::
  "('i, 'w) wallet_store \<Rightarrow> ('i, 'w) counter_db \<Rightarrow> (string + unit) \<times> ('i, 'w) counter_db" where
  "fast_forward_inner_to_floor ws db =
     (case fast_forward_all ws (wl_iter ws (cd_shadow db)) (cd_inner db) of (r, w) \<Rightarrow> (r, db\<lparr>cd_inner := w\<rparr>))"

text \<open>The decision shared by the open and the retry.\<close>

definition should_establish_counter :: "bool \<Rightarrow> bool \<Rightarrow> bool \<Rightarrow> bool \<Rightarrow> bool \<Rightarrow> bool \<Rightarrow> bool" where
  "should_establish_counter resume config_authoritative floor_empty token_authoritative token_empty floor_complete \<longleftrightarrow>
     (if \<not> floor_complete then False
      else if resume then True
      else if \<not> config_authoritative then False
      else if floor_empty then token_authoritative \<and> token_empty
      else True)"

definition establish_if_sound ::
  "('i, 'w) wallet_store \<Rightarrow> 'i counters \<Rightarrow> bool \<Rightarrow> bool \<Rightarrow> bool \<Rightarrow> bool \<Rightarrow> bool \<Rightarrow> ('i, 'w) counter_db
     \<Rightarrow> (string + bool) \<times> ('i, 'w) counter_db" where
  "establish_if_sound ws level resume config_authoritative token_authoritative token_empty floor_complete db =
     (if should_establish_counter resume config_authoritative (wl_iter ws level = []) token_authoritative token_empty
           floor_complete
      then case fast_forward_inner_to_floor ws (seed_floor ws level db) of
             (Inl e, db1) \<Rightarrow> (Inl e, db1)
           | (Inr _, db1) \<Rightarrow> (Inr True, establish db1)
      else (Inr False, db))"

text \<open>The choke point: every derivation reserves its indices here.\<close>

definition increment_keyset_counter ::
  "('i, 'w) wallet_store \<Rightarrow> 'i \<Rightarrow> u32 \<Rightarrow> ('i, 'w) counter_db \<Rightarrow> (string + u32) \<times> ('i, 'w) counter_db" where
  "increment_keyset_counter ws keyset_id cnt db =
     (if \<not> cd_counter_established db then (Inl ''NIP-60 NUT-13 counter not established'', db)
      else case wl_increment ws keyset_id cnt (cd_inner db) of
             (Inl e, w) \<Rightarrow> (Inl e, db\<lparr>cd_inner := w\<rparr>)
           | (Inr new_counter, w) \<Rightarrow> (Inr new_counter, observe_counter keyset_id new_counter (db\<lparr>cd_inner := w\<rparr>)))"

section \<open>Opening the persistent wallet\<close>

definition union_max_counters :: "'i counters \<Rightarrow> 'i counters \<Rightarrow> 'i counters" where
  "union_max_counters level local = (\<lambda>i. case local i of
     None \<Rightarrow> level i
   | Some c \<Rightarrow> Some (max (case level i of Some f \<Rightarrow> f | None \<Rightarrow> 0) c))"

text \<open>The rows of the store's counter table; a row that does not parse is skipped and reported, a failed read is
  reported and empty.\<close>

fun read_counter_rows ::
  "(string \<Rightarrow> 'i option) \<Rightarrow> (string + string \<times> int) list \<Rightarrow> 'i counters \<Rightarrow> bool \<Rightarrow> 'i counters \<times> bool" where
  "read_counter_rows parse [] m dropped = (m, dropped)"
| "read_counter_rows parse (Inl e # rows) m dropped = (\<lambda>i. None, True)"
| "read_counter_rows parse (Inr (keyset_hex, counter) # rows) m dropped =
     (case parse keyset_hex of
        None \<Rightarrow> read_counter_rows parse rows m True
      | Some i \<Rightarrow>
          if counter < 0 \<or> 2 ^ 32 \<le> counter then read_counter_rows parse rows m True
          else read_counter_rows parse rows (m(i \<mapsto> of_int counter)) dropped)"

definition read_local_keyset_counters ::
  "(string \<Rightarrow> 'i option) \<Rightarrow> string + (string + string \<times> int) list \<Rightarrow> 'i counters \<times> bool" where
  "read_local_keyset_counters parse table =
     (case table of
        Inl e \<Rightarrow> (\<lambda>i. None, True)
      | Inr rows \<Rightarrow> read_counter_rows parse rows (\<lambda>i. None) False)"

text \<open>The decorated store; whether the wallet can be built over it (\<open>built\<close>) and the opening of the file are the
  foreign library's.\<close>

definition open_persistent_wallet ::
  "('i, 'w) wallet_store \<Rightarrow> (string \<Rightarrow> 'i option) \<Rightarrow> string + 'w \<times> (string + (string + string \<times> int) list)
     \<Rightarrow> string + unit \<Rightarrow> 'i counters \<Rightarrow> bool \<Rightarrow> bool \<Rightarrow> bool \<Rightarrow> bool \<Rightarrow> string + ('i, 'w) counter_db" where
  "open_persistent_wallet ws parse opened built initial_counters config_authoritative token_authoritative token_empty
     config_floor_dropped =
     (case opened of
        Inl e \<Rightarrow> Inl e
      | Inr (localstore, table) \<Rightarrow>
          (let (local_map, local_floor_dropped) = read_local_keyset_counters parse table;
               merged = union_max_counters initial_counters local_map;
               resume = (wl_iter ws local_map \<noteq> []);
               floor_complete = (\<not> (config_floor_dropped \<or> local_floor_dropped));
               counter_db = with_counters_established localstore merged False
           in case establish_if_sound ws merged resume config_authoritative token_authoritative token_empty
                     floor_complete counter_db of
                (Inl e, db) \<Rightarrow> Inl e
              | (Inr established, db) \<Rightarrow> (case built of Inl e \<Rightarrow> Inl e | Inr _ \<Rightarrow> Inr db)))"

end
