(* ===== verification/Wallet_Backup.thy ===== *)
theory Wallet_Backup
  imports Wallet_Counter
begin

text \<open>
  The wallet's backup on relays (\<open>nip60.rs\<close>): token events that aggregate, a replaceable configuration event
  with the counters, publishing to a write quorum, reading from a read quorum, and the rollover that supersedes
  earlier token events only once the new one is durable and served. Also the decorator and flusher that keep
  the backup fresh (\<open>rail.rs\<close>). Encryption, serialization and the relays are arguments; an event id is its
  hexadecimal text.
\<close>

section \<open>Events\<close>

definition KIND_NIP60_TOKEN :: u16 where "KIND_NIP60_TOKEN = 7375"
definition KIND_NIP60_WALLET_CONFIG :: u16 where "KIND_NIP60_WALLET_CONFIG = 17375"
definition KIND_NIP09_DELETE :: u16 where "KIND_NIP09_DELETE = 5"

record 'p token_event_content =
  te_mint :: string
  te_unit :: string
  te_proofs :: "'p list"
  te_del :: "string list"

text \<open>The counters of a configuration event, in the order its map is walked.\<close>

record wallet_config_content =
  wcc_mints :: "string list"
  wcc_counters :: "(string \<times> u32) list"

definition from_counters ::
  "('i, 'w) wallet_store \<Rightarrow> ('i \<Rightarrow> string) \<Rightarrow> 'i counters \<Rightarrow> string list \<Rightarrow> wallet_config_content" where
  "from_counters ws hex counters mints =
     \<lparr>wcc_mints = mints, wcc_counters = map (\<lambda>(i, c). (hex i, c)) (wl_iter ws counters)\<rparr>"

fun collect_counters ::
  "(string \<Rightarrow> 'i option) \<Rightarrow> (string \<times> u32) list \<Rightarrow> 'i counters \<Rightarrow> bool \<Rightarrow> 'i counters \<times> bool" where
  "collect_counters parse [] m dropped = (m, dropped)"
| "collect_counters parse ((hex, counter) # rest) m dropped =
     (case parse hex of
        Some i \<Rightarrow> collect_counters parse rest (m(i \<mapsto> counter)) dropped
      | None \<Rightarrow> collect_counters parse rest m True)"

definition counters_by_id_checked :: "(string \<Rightarrow> 'i option) \<Rightarrow> wallet_config_content \<Rightarrow> 'i counters \<times> bool" where
  "counters_by_id_checked parse config = collect_counters parse (wcc_counters config) (\<lambda>i. None) False"

definition counters_by_id :: "(string \<Rightarrow> 'i option) \<Rightarrow> wallet_config_content \<Rightarrow> 'i counters" where
  "counters_by_id parse config = fst (counters_by_id_checked parse config)"

record 'p nip60_crypto =
  nx_encrypt :: "'p token_event_content \<Rightarrow> string + string"
  nx_decrypt :: "string \<Rightarrow> string + 'p token_event_content"
  nx_encrypt_config :: "wallet_config_content \<Rightarrow> string + string"
  nx_decrypt_config :: "string \<Rightarrow> string + wallet_config_content"
  nx_proof_json :: "'p \<Rightarrow> string option"
  nx_event_id :: "string \<Rightarrow> bool"

section \<open>The live set\<close>

definition live_token_event_ids :: "(string \<times> 'p token_event_content) list \<Rightarrow> string list" where
  "live_token_event_ids events =
     (let superseded = set (concat (map (te_del \<circ> snd) events))
      in filter (\<lambda>i. i \<notin> superseded) (map fst events))"

fun collect_proofs :: "('p \<Rightarrow> string option) \<Rightarrow> 'p list \<Rightarrow> string set \<Rightarrow> 'p list \<Rightarrow> string set \<times> 'p list" where
  "collect_proofs json [] seen proofs = (seen, proofs)"
| "collect_proofs json (p # ps) seen proofs =
     (let k = (case json p of Some s \<Rightarrow> s | None \<Rightarrow> '''')
      in if k \<in> seen then collect_proofs json ps seen proofs
         else collect_proofs json ps (insert k seen) (proofs @ [p]))"

fun collect_events ::
  "('p \<Rightarrow> string option) \<Rightarrow> string list \<Rightarrow> string set \<Rightarrow> (string \<times> 'p token_event_content) list \<Rightarrow> string set
     \<Rightarrow> 'p list \<Rightarrow> 'p list" where
  "collect_events json allowlist live [] seen proofs = proofs"
| "collect_events json allowlist live ((i, content) # events) seen proofs =
     (if i \<notin> live \<or> te_mint content \<notin> set allowlist then collect_events json allowlist live events seen proofs
      else case collect_proofs json (te_proofs content) seen proofs of
             (seen', proofs') \<Rightarrow> collect_events json allowlist live events seen' proofs')"

definition reconcile_token_set ::
  "('p \<Rightarrow> string option) \<Rightarrow> (string \<times> 'p token_event_content) list \<Rightarrow> string list \<Rightarrow> 'p list" where
  "reconcile_token_set json events mint_allowlist =
     collect_events json mint_allowlist (set (live_token_event_ids events)) events {} []"

section \<open>The relays\<close>

record backup_event =
  be_id :: string
  be_created_at :: u64
  be_content :: string

record per_relay_read =
  pl_served :: nat
  pl_total :: nat
  pl_events :: "backup_event list"

record send_outcome =
  so_event_id :: string
  so_acks :: nat

text \<open>Raw relay I/O under the wallet's own event key: a send by kind, content and event tags, reads by kind.\<close>

record 'r nip60_transport =
  nt_send :: "u16 \<Rightarrow> string \<Rightarrow> string list \<Rightarrow> 'r \<Rightarrow> (string + send_outcome) \<times> 'r"
  nt_fetch :: "u16 \<Rightarrow> 'r \<Rightarrow> (string + backup_event list) \<times> 'r"
  nt_fetch_per_relay :: "u16 \<Rightarrow> 'r \<Rightarrow> (string + per_relay_read) \<times> 'r"

text \<open>The production read: what each relay of the pool answered, if it is connected and answered in time.\<close>

fun dedupe_events :: "string set \<Rightarrow> backup_event list \<Rightarrow> backup_event list" where
  "dedupe_events seen [] = []"
| "dedupe_events seen (e # es) =
     (if be_id e \<in> seen then dedupe_events seen es else e # dedupe_events (insert (be_id e) seen) es)"

definition tally_reads :: "backup_event list option list \<Rightarrow> per_relay_read" where
  "tally_reads results =
     (let served = List.map_filter id results
      in \<lparr>pl_served = length served, pl_total = length results, pl_events = dedupe_events {} (concat served)\<rparr>)"

definition single_relay_read :: "(string + backup_event list) \<Rightarrow> string + per_relay_read" where
  "single_relay_read r = (case r of Inl e \<Rightarrow> Inl e
     | Inr events \<Rightarrow> Inr \<lparr>pl_served = 1, pl_total = 1, pl_events = events\<rparr>)"

fun bytes_less :: "bytes \<Rightarrow> bytes \<Rightarrow> bool" where
  "bytes_less [] ys \<longleftrightarrow> ys \<noteq> []"
| "bytes_less (x # xs) [] \<longleftrightarrow> False"
| "bytes_less (x # xs) (y # ys) \<longleftrightarrow> (of_char x :: nat) < of_char y \<or> x = y \<and> bytes_less xs ys"

text \<open>The head of a replaceable event: the greatest time, on a tie the lowest id.\<close>

definition heads_below :: "backup_event \<Rightarrow> backup_event \<Rightarrow> bool" where
  "heads_below a b \<longleftrightarrow> be_created_at a < be_created_at b
     \<or> be_created_at a = be_created_at b \<and> \<not> bytes_less (be_id a) (be_id b)"

definition lww_head :: "backup_event list \<Rightarrow> backup_event option" where
  "lww_head events = fold (\<lambda>e best. case best of
       None \<Rightarrow> Some e
     | Some b \<Rightarrow> if heads_below b e then Some e else Some b) events None"

section \<open>The store\<close>

record reconcile_read_meta =
  rm_fetched_ids :: "string list"
  rm_served :: nat
  rm_total :: nat
  rm_read_k :: nat
  rm_authoritative :: bool
  rm_decode_ok :: bool
  rm_raw_events_empty :: bool

record 'p reconcile_read = reconcile_read_meta +
  rm_candidates :: "'p list"

record config_read =
  cr_config :: "wallet_config_content option"
  cr_served :: nat
  cr_total :: nat
  cr_read_k :: nat
  cr_config_authoritative :: bool

record nip60_store =
  ns_n :: nat
  ns_k :: nat
  ns_read_k :: nat
  ns_mint_allowlist :: "string list"
  ns_read_established :: bool

definition nip60_connect :: "string list \<Rightarrow> nat option \<Rightarrow> nat option \<Rightarrow> string list \<Rightarrow> string + nip60_store" where
  "nip60_connect relays write_k read_k_opt mint_allowlist =
     (if relays = [] then Inl ''Nip60Store requires at least one relay''
      else Inr \<lparr>ns_n = length relays, ns_k = clamp_quorum write_k (length relays),
        ns_read_k = clamp_quorum read_k_opt (length relays), ns_mint_allowlist = mint_allowlist,
        ns_read_established = False\<rparr>)"

definition publish_token ::
  "'p nip60_crypto \<Rightarrow> 'r nip60_transport \<Rightarrow> nip60_store \<Rightarrow> 'p token_event_content \<Rightarrow> 'r \<Rightarrow> (string + string) \<times> 'r" where
  "publish_token cry tr st content r =
     (case nx_encrypt cry content of
        Inl e \<Rightarrow> (Inl e, r)
      | Inr ciphertext \<Rightarrow>
          (case nt_send tr KIND_NIP60_TOKEN ciphertext [] r of
             (Inl e, r') \<Rightarrow> (Inl (''publish NIP-60 token event: '' @ e), r')
           | (Inr out, r') \<Rightarrow> if so_acks out < ns_k st then (Inl ''token publish NOT durable'', r')
                            else (Inr (so_event_id out), r')))"

text \<open>Every event that decrypts counts; one that does not is left alone and reported.\<close>

fun decode_events ::
  "'p nip60_crypto \<Rightarrow> backup_event list \<Rightarrow> (string \<times> 'p token_event_content) list \<times> bool" where
  "decode_events cry [] = ([], True)"
| "decode_events cry (ev # evs) =
     (case decode_events cry evs of
        (decoded, ok) \<Rightarrow>
          (case nx_decrypt cry (be_content ev) of
             Inr content \<Rightarrow> ((be_id ev, content) # decoded, ok) | Inl e \<Rightarrow> (decoded, False)))"

definition reconcile_on_load_with_ids ::
  "'p nip60_crypto \<Rightarrow> 'r nip60_transport \<Rightarrow> nip60_store \<Rightarrow> 'r \<Rightarrow> (string + 'p reconcile_read) \<times> nip60_store \<times> 'r" where
  "reconcile_on_load_with_ids cry tr st r =
     (case nt_fetch_per_relay tr KIND_NIP60_TOKEN r of
        (Inl e, r') \<Rightarrow> (Inl (''fetch NIP-60 token events for reconcile: '' @ e), st, r')
      | (Inr per, r') \<Rightarrow>
          (let authoritative = (ns_read_k st \<le> pl_served per); (decoded, decode_ok) = decode_events cry (pl_events per)
           in (Inr \<lparr>rm_fetched_ids = map fst decoded, rm_served = pl_served per, rm_total = pl_total per,
                 rm_read_k = ns_read_k st, rm_authoritative = authoritative, rm_decode_ok = decode_ok,
                 rm_raw_events_empty = (pl_events per = []),
                 rm_candidates = reconcile_token_set (nx_proof_json cry) decoded (ns_mint_allowlist st)\<rparr>,
               st\<lparr>ns_read_established := authoritative\<rparr>, r')))"

text \<open>The recovery-complete latch is shared with the counter decorator; it is read when the gate is passed.\<close>

definition publish_config ::
  "'p nip60_crypto \<Rightarrow> 'r nip60_transport \<Rightarrow> nip60_store \<Rightarrow> bool \<Rightarrow> wallet_config_content \<Rightarrow> 'r \<Rightarrow> (string + string) \<times> 'r" where
  "publish_config cry tr st recovery_complete config r =
     (if \<not> recovery_complete then (Inl ''wallet-config publish refused: wallet recovery not complete'', r)
      else case nx_encrypt_config cry config of
        Inl e \<Rightarrow> (Inl e, r)
      | Inr ciphertext \<Rightarrow>
          (case nt_send tr KIND_NIP60_WALLET_CONFIG ciphertext [] r of
             (Inl e, r') \<Rightarrow> (Inl (''publish NIP-60 wallet-config event: '' @ e), r')
           | (Inr out, r') \<Rightarrow> if so_acks out < ns_k st then (Inl ''wallet-config publish NOT durable'', r')
                            else (Inr (so_event_id out), r')))"

definition publish_wallet_config ::
  "'p nip60_crypto \<Rightarrow> 'r nip60_transport \<Rightarrow> ('i, 'w) wallet_store \<Rightarrow> ('i \<Rightarrow> string) \<Rightarrow> nip60_store \<Rightarrow> bool
     \<Rightarrow> 'i counters \<Rightarrow> string list \<Rightarrow> 'r \<Rightarrow> (string + string) \<times> 'r" where
  "publish_wallet_config cry tr ws hex st recovery_complete counters mints r =
     publish_config cry tr st recovery_complete (from_counters ws hex counters mints) r"

definition load_config_quorum ::
  "'p nip60_crypto \<Rightarrow> 'r nip60_transport \<Rightarrow> nip60_store \<Rightarrow> 'r \<Rightarrow> (string + config_read) \<times> 'r" where
  "load_config_quorum cry tr st r =
     (case nt_fetch_per_relay tr KIND_NIP60_WALLET_CONFIG r of
        (Inl e, r') \<Rightarrow> (Inl (''fetch NIP-60 wallet-config events: '' @ e), r')
      | (Inr per, r') \<Rightarrow>
          (let answer = (\<lambda>config. (Inr \<lparr>cr_config = config, cr_served = pl_served per, cr_total = pl_total per,
                 cr_read_k = ns_read_k st, cr_config_authoritative = (ns_read_k st \<le> pl_served per)\<rparr>, r'))
           in case lww_head (pl_events per) of
                None \<Rightarrow> answer None
              | Some head \<Rightarrow>
                  (case nx_decrypt_config cry (be_content head) of
                     Inl e \<Rightarrow> (Inl (''decrypt the NIP-60 wallet-config lww-head: '' @ e), r')
                   | Inr config \<Rightarrow>
                       answer (Some (config\<lparr>wcc_mints := filter (\<lambda>m. m \<in> set (ns_mint_allowlist st)) (wcc_mints config)\<rparr>)))))"

definition delete_events ::
  "'p nip60_crypto \<Rightarrow> 'r nip60_transport \<Rightarrow> string list \<Rightarrow> 'r \<Rightarrow> (string + unit) \<times> 'r" where
  "delete_events cry tr event_ids r =
     (let tags = filter (nx_event_id cry) event_ids
      in if tags = [] then (Inl ''NIP-09 delete: no valid token-event ids to delete'', r)
         else case nt_send tr KIND_NIP09_DELETE ''superseded by a NIP-60 rollover'' tags r of
           (Inl e, r') \<Rightarrow> (Inl e, r') | (Inr out, r') \<Rightarrow> (Inr (), r'))"

text \<open>Publish, confirm, and only then delete; each gate leaves the earlier backup as it is.\<close>

definition rollover ::
  "'p nip60_crypto \<Rightarrow> 'r nip60_transport \<Rightarrow> nip60_store \<Rightarrow> bool \<Rightarrow> string \<Rightarrow> string \<Rightarrow> 'p list \<Rightarrow> string list \<Rightarrow> 'r
     \<Rightarrow> (string + string) \<times> 'r" where
  "rollover cry tr st recovery_complete mint unit_name new_proofs superseded r =
     (if \<not> ns_read_established st then (Inl ''rollover skipped: read not established'', r)
      else if \<not> recovery_complete then (Inl ''rollover skipped: wallet recovery not complete'', r)
      else case publish_token cry tr st \<lparr>te_mint = mint, te_unit = unit_name, te_proofs = new_proofs, te_del = superseded\<rparr> r of
        (Inl e, r1) \<Rightarrow> (Inl e, r1)
      | (Inr new_id, r1) \<Rightarrow>
          (case nt_fetch tr KIND_NIP60_TOKEN r1 of
             (Inl e, r2) \<Rightarrow> (Inl ''rollover: read-after-write confirm failed'', r2)
           | (Inr events, r2) \<Rightarrow>
               if \<not> list_ex (\<lambda>e. be_id e = new_id) events
               then (Inl ''rollover: the new token event is not retrievable after publish'', r2)
               else (Inr new_id, if superseded = [] then r2 else snd (delete_events cry tr superseded r2))))"

section \<open>Keeping the backup fresh\<close>

record backup_state =
  bk_live_ids :: "string list"
  bk_dirty :: bool

definition with_flusher :: "string list \<Rightarrow> backup_state" where
  "with_flusher initial_live_ids = \<lparr>bk_live_ids = initial_live_ids, bk_dirty = True\<rparr>"

definition mark_dirty :: "backup_state \<Rightarrow> backup_state" where
  "mark_dirty b = b\<lparr>bk_dirty := True\<rparr>"

text \<open>A decorated wallet operation: the mutation first, the mark after it, and only on success.\<close>

definition nip60_backed :: "('w \<Rightarrow> (string + 'a) \<times> 'w) \<Rightarrow> 'w \<Rightarrow> backup_state \<Rightarrow> (string + 'a) \<times> 'w \<times> backup_state" where
  "nip60_backed op w b = (case op w of (Inl e, w') \<Rightarrow> (Inl e, w', b) | (Inr a, w') \<Rightarrow> (Inr a, w', mark_dirty b))"

text \<open>One flush. While it waits, a mutation may mark the state dirty again (\<open>mutated\<close>); the flush may also be
  dropped before it commits (\<open>dropped\<close>). Flushes do not overlap.\<close>

definition flush ::
  "'p nip60_crypto \<Rightarrow> 'r nip60_transport \<Rightarrow> ('w \<Rightarrow> (string + 'p list) \<times> 'w) \<Rightarrow> string \<Rightarrow> string \<Rightarrow> nip60_store \<Rightarrow> bool
     \<Rightarrow> bool \<Rightarrow> bool \<Rightarrow> backup_state \<Rightarrow> 'w \<Rightarrow> 'r \<Rightarrow> (string + unit) \<times> backup_state \<times> 'w \<times> 'r" where
  "flush cry tr unspent_proofs mint unit_name st recovery_complete mutated dropped b w r =
     (if \<not> bk_dirty b then (Inr (), b, w, r)
      else
        (let live_ids = bk_live_ids b; rearmed = b\<lparr>bk_dirty := True\<rparr>
         in case unspent_proofs w of
              (Inl e, w') \<Rightarrow> (Inl e, rearmed, w', r)
            | (Inr unspent, w') \<Rightarrow>
                (case rollover cry tr st recovery_complete mint unit_name unspent live_ids r of
                   (Inl e, r') \<Rightarrow> (Inl e, rearmed, w', r')
                 | (Inr new_id, r') \<Rightarrow>
                     if dropped then (Inl ''flush dropped'', rearmed, w', r')
                     else (Inr (), b\<lparr>bk_dirty := mutated, bk_live_ids := [new_id]\<rparr>, w', r'))))"

end
