(* ===== verification/Engram.thy ===== *)
theory Engram
  imports Memory_Store Wallet_Backup
begin

text \<open>
  The durable memory over relays: the sealed frame of an engram and its addressing (\<open>engram.rs\<close>) and the store
  that writes to a quorum and reads the last writer (\<open>EngramStore\<close> in \<open>rail.rs\<close>). HMAC, NIP-44, event signing
  and the relay client are arguments, as is the clock; the slug of a frame is a Rust string, so it is UTF-8.
\<close>

section \<open>Frames\<close>

definition KIND_ENGRAM :: u16 where "KIND_ENGRAM = 30174"
definition FRAME_LIVE :: char where "FRAME_LIVE = CHR 0x01"
definition FRAME_TOMBSTONE :: char where "FRAME_TOMBSTONE = CHR 0x00"

record engram_frame =
  ef_tombstone :: bool
  ef_slug :: string
  ef_value :: bytes

definition frame_live :: "string \<Rightarrow> bytes \<Rightarrow> engram_frame" where
  "frame_live slug v = \<lparr>ef_tombstone = False, ef_slug = slug, ef_value = v\<rparr>"

definition frame_tombstone :: "string \<Rightarrow> engram_frame" where
  "frame_tombstone slug = \<lparr>ef_tombstone = True, ef_slug = slug, ef_value = []\<rparr>"

definition frame_encode :: "engram_frame \<Rightarrow> bytes" where
  "frame_encode f =
     (let slug_len = min (length (ef_slug f)) 65535
      in (if ef_tombstone f then FRAME_TOMBSTONE else FRAME_LIVE) # be_digits 2 slug_len @ take slug_len (ef_slug f) @ ef_value f)"

definition frame_decode :: "bytes \<Rightarrow> string + engram_frame" where
  "frame_decode bs =
     (if length bs < 3 then Inl ''engram frame too short''
      else if bs ! 0 \<noteq> FRAME_LIVE \<and> bs ! 0 \<noteq> FRAME_TOMBSTONE then Inl ''unknown engram frame marker''
      else
        (let slug_len = be_val [bs ! 1, bs ! 2]; slug_end = 3 + slug_len
         in if length bs < slug_end then Inl ''engram frame slug truncated''
            else
              (let slug = take slug_len (drop 3 bs)
               in if \<not> valid_utf8 slug then Inl ''engram frame slug is not UTF-8''
                  else Inr \<lparr>ef_tombstone = (bs ! 0 = FRAME_TOMBSTONE), ef_slug = slug, ef_value = drop slug_end bs\<rparr>)))"

section \<open>Addressing and sealing\<close>

record engram_crypto =
  ey_author :: string
  ey_hmac :: "string \<Rightarrow> bytes"
  ey_hex :: "bytes \<Rightarrow> string"
  ey_nip44_encrypt :: "bytes \<Rightarrow> string + string"
  ey_nip44_decrypt :: "string \<Rightarrow> string + bytes"

definition engram_dtag :: "engram_crypto \<Rightarrow> string \<Rightarrow> string" where
  "engram_dtag cry slug = ey_hex cry (ey_hmac cry slug)"

definition engram_encrypt :: "engram_crypto \<Rightarrow> engram_frame \<Rightarrow> string + string" where
  "engram_encrypt cry f = ey_nip44_encrypt cry (frame_encode f)"

definition engram_decrypt :: "engram_crypto \<Rightarrow> string \<Rightarrow> string + engram_frame" where
  "engram_decrypt cry content =
     (case ey_nip44_decrypt cry content of Inl e \<Rightarrow> Inl e | Inr bs \<Rightarrow> frame_decode bs)"

text \<open>An unsigned event: its content, its tags and its time.\<close>

definition engram_event_builder ::
  "engram_crypto \<Rightarrow> engram_frame \<Rightarrow> u64 \<Rightarrow> string + string \<times> string list list \<times> u64" where
  "engram_event_builder cry f created_at =
     (case engram_encrypt cry f of
        Inl e \<Rightarrow> Inl e
      | Inr content \<Rightarrow> Inr (content, [[''d'', engram_dtag cry (ef_slug f)], [''p'', ey_author cry]], created_at))"

fun event_dtag :: "string list list \<Rightarrow> string option" where
  "event_dtag [] = None"
| "event_dtag (t # ts) =
     (case t of (a # b # _) \<Rightarrow> if a = ''d'' then Some b else event_dtag ts | _ \<Rightarrow> event_dtag ts)"

section \<open>The store\<close>

text \<open>The client: fetch by an optional \<open>d\<close> tag under the author's key, and send; a send reports how many relays took it.\<close>

record 'r engram_client =
  ec_fetch :: "string option \<Rightarrow> 'r \<Rightarrow> (string + (string list list \<times> backup_event) list) \<times> 'r"
  ec_send :: "u16 \<Rightarrow> string \<Rightarrow> string list list \<Rightarrow> u64 \<Rightarrow> 'r \<Rightarrow> (string + nat) \<times> 'r"

record engram_config =
  eg_n :: nat
  eg_k :: nat
  eg_bytes_per_sat :: u64

record 'r engram_state =
  es_clock :: u64
  es_committed :: "string \<Rightarrow> memory_result option"
  es_relays :: 'r

definition engram_connect :: "string list \<Rightarrow> nat option \<Rightarrow> u64 \<Rightarrow> 'r \<Rightarrow> string + engram_config \<times> 'r engram_state" where
  "engram_connect relays write_k bytes_per_sat r =
     (if relays = [] then Inl ''EngramStore requires at least one [memory].relays entry''
      else Inr (\<lparr>eg_n = length relays, eg_k = clamp_quorum write_k (length relays), eg_bytes_per_sat = max bytes_per_sat 1\<rparr>,
                \<lparr>es_clock = 0, es_committed = (\<lambda>t. None), es_relays = r\<rparr>))"

definition next_created_at :: "u64 \<Rightarrow> 'r engram_state \<Rightarrow> u64 \<times> 'r engram_state" where
  "next_created_at now s = (let nxt = max now (es_clock s + 1) in (nxt, s\<lparr>es_clock := nxt\<rparr>))"

definition read_head ::
  "engram_crypto \<Rightarrow> 'r engram_client \<Rightarrow> string \<Rightarrow> 'r engram_state \<Rightarrow> (memory_error + engram_frame option) \<times> 'r engram_state" where
  "read_head cry cl slug s =
     (case ec_fetch cl (Some (engram_dtag cry slug)) (es_relays s) of
        (Inl e, r) \<Rightarrow> (Inl Unreachable, s\<lparr>es_relays := r\<rparr>)
      | (Inr events, r) \<Rightarrow>
          (case lww_head (map snd events) of
             None \<Rightarrow> Inr None
           | Some head \<Rightarrow>
               (case engram_decrypt cry (be_content head) of
                  Inl e \<Rightarrow> Inl Unreachable
                | Inr f \<Rightarrow> Inr (if ef_tombstone f then None else Some f)), s\<lparr>es_relays := r\<rparr>))"

text \<open>The groups of a listing, one per \<open>d\<close> tag.\<close>

definition dtag_groups :: "(string list list \<times> backup_event) list \<Rightarrow> backup_event list list" where
  "dtag_groups events =
     map (\<lambda>d. map snd (filter (\<lambda>x. event_dtag (fst x) = Some d) events))
       (remdups (List.map_filter (\<lambda>x. event_dtag (fst x)) events))"

definition live_slug :: "engram_crypto \<Rightarrow> backup_event list \<Rightarrow> string option" where
  "live_slug cry events =
     (case lww_head events of
        None \<Rightarrow> None
      | Some head \<Rightarrow>
          (case engram_decrypt cry (be_content head) of
             Inl e \<Rightarrow> None | Inr f \<Rightarrow> if ef_tombstone f then None else Some (ef_slug f)))"

definition list_slugs ::
  "engram_crypto \<Rightarrow> 'r engram_client \<Rightarrow> 'r engram_state \<Rightarrow> (memory_error + string list) \<times> 'r engram_state" where
  "list_slugs cry cl s =
     (case ec_fetch cl None (es_relays s) of
        (Inl e, r) \<Rightarrow> (Inl Unreachable, s\<lparr>es_relays := r\<rparr>)
      | (Inr events, r) \<Rightarrow> (Inr (sort (List.map_filter (live_slug cry) (dtag_groups events))), s\<lparr>es_relays := r\<rparr>))"

definition engram_publish ::
  "engram_config \<Rightarrow> engram_crypto \<Rightarrow> 'r engram_client \<Rightarrow> u64 \<Rightarrow> engram_frame \<Rightarrow> 'r engram_state
     \<Rightarrow> (memory_error + unit) \<times> 'r engram_state" where
  "engram_publish cfg cry cl now f s =
     (case next_created_at now s of
        (created_at, s1) \<Rightarrow>
          (case engram_event_builder cry f created_at of
             Inl e \<Rightarrow> (Inl Unreachable, s1)
           | Inr (content, tags, at) \<Rightarrow>
               (case ec_send cl KIND_ENGRAM content tags at (es_relays s1) of
                  (Inl e, r) \<Rightarrow> (Inl Unreachable, s1\<lparr>es_relays := r\<rparr>)
                | (Inr acks, r) \<Rightarrow>
                    (if acks < eg_k cfg then Inl Unreachable else Inr (), s1\<lparr>es_relays := r\<rparr>))))"

definition engram_write_cost :: "engram_config \<Rightarrow> memory_req \<Rightarrow> u64" where
  "engram_write_cost cfg m =
     (let n = (of_nat (length (mr_slug m) + length (mr_value m)) :: u64)
      in max (div_ceil n (eg_bytes_per_sat cfg)) 1 * of_nat (eg_n cfg))"

definition engram_read ::
  "(bytes \<Rightarrow> bytes) \<Rightarrow> engram_crypto \<Rightarrow> 'r engram_client \<Rightarrow> memory_req \<Rightarrow> 'r engram_state
     \<Rightarrow> (memory_error + memory_result) \<times> 'r engram_state" where
  "engram_read sha256 cry cl m s =
     (case memory_op_of m of
        Op_Get \<Rightarrow>
          if \<not> is_valid_slug (mr_slug m) then (Inl (InvalidSlug (mr_slug m)), s)
          else (case read_head cry cl (mr_slug m) s of
             (Inl e, s') \<Rightarrow> (Inl e, s')
           | (Inr (Some f), s') \<Rightarrow> (Inr \<lparr>mm_found = True, mm_value = ef_value f, mm_slugs = [], mm_content_hash = sha256 (ef_value f),
                                       mm_write_status = Status_Unspecified\<rparr>, s')
           | (Inr None, s') \<Rightarrow> (Inr \<lparr>mm_found = False, mm_value = [], mm_slugs = [], mm_content_hash = [],
                                   mm_write_status = Status_Unspecified\<rparr>, s'))
      | Op_Ls \<Rightarrow>
          (case list_slugs cry cl s of
             (Inl e, s') \<Rightarrow> (Inl e, s')
           | (Inr slugs, s') \<Rightarrow> (Inr \<lparr>mm_found = slugs \<noteq> [], mm_value = [], mm_slugs = slugs, mm_content_hash = [],
                                    mm_write_status = Status_Unspecified\<rparr>, s'))
      | _ \<Rightarrow> (Inl MalformedOp, s))"

text \<open>What a write publishes and answers; a removal reads first.\<close>

definition engram_effect ::
  "(bytes \<Rightarrow> bytes) \<Rightarrow> engram_config \<Rightarrow> engram_crypto \<Rightarrow> 'r engram_client \<Rightarrow> u64 \<Rightarrow> memory_req \<Rightarrow> 'r engram_state
     \<Rightarrow> (memory_error + memory_result) \<times> 'r engram_state" where
  "engram_effect sha256 cfg cry cl now m s =
     (case memory_op_of m of
        Op_Set \<Rightarrow>
          if MAX_MEMORY_VALUE_BYTES < length (mr_value m)
          then (Inl (TooLarge (length (mr_value m)) MAX_MEMORY_VALUE_BYTES), s)
          else (case engram_publish cfg cry cl now (frame_live (mr_slug m) (mr_value m)) s of
             (Inl e, s') \<Rightarrow> (Inl e, s')
           | (Inr _, s') \<Rightarrow> (Inr \<lparr>mm_found = True, mm_value = [], mm_slugs = [], mm_content_hash = sha256 (mr_value m),
                                mm_write_status = Stored\<rparr>, s'))
      | Op_Rm \<Rightarrow>
          (case read_head cry cl (mr_slug m) s of
             (Inl e, s1) \<Rightarrow> (Inl e, s1)
           | (Inr head, s1) \<Rightarrow>
               (case engram_publish cfg cry cl now (frame_tombstone (mr_slug m)) s1 of
                  (Inl e, s2) \<Rightarrow> (Inl e, s2)
                | (Inr _, s2) \<Rightarrow> (Inr \<lparr>mm_found = (head \<noteq> None), mm_value = [], mm_slugs = [], mm_content_hash = [],
                                     mm_write_status = (if head \<noteq> None then Removed else AlreadyAbsent)\<rparr>, s2)))
      | _ \<Rightarrow> (Inl MalformedOp, s))"

definition engram_write ::
  "(bytes \<Rightarrow> bytes) \<Rightarrow> engram_config \<Rightarrow> engram_crypto \<Rightarrow> 'r engram_client \<Rightarrow> u64 \<Rightarrow> memory_req \<Rightarrow> string \<Rightarrow> 'r engram_state
     \<Rightarrow> (memory_error + memory_write) \<times> 'r engram_state" where
  "engram_write sha256 cfg cry cl now m write_token s =
     (if \<not> is_valid_slug (mr_slug m) then (Inl (InvalidSlug (mr_slug m)), s)
      else (case es_committed s write_token of
         Some prior \<Rightarrow> (Inr \<lparr>mw_result = prior, mw_committed = AlreadyCommittedSameWseq\<rparr>, s)
       | None \<Rightarrow>
           (case engram_effect sha256 cfg cry cl now m s of
              (Inl e, s') \<Rightarrow> (Inl e, s')
            | (Inr result, s') \<Rightarrow>
                (Inr \<lparr>mw_result = result, mw_committed = Commit_Stored\<rparr>,
                 s'\<lparr>es_committed := (es_committed s')(write_token \<mapsto> result)\<rparr>))))"

definition engram_store ::
  "(bytes \<Rightarrow> bytes) \<Rightarrow> engram_config \<Rightarrow> engram_crypto \<Rightarrow> 'r engram_client \<Rightarrow> u64 \<Rightarrow> 'r engram_state memory_backend" where
  "engram_store sha256 cfg cry cl now =
     \<lparr>mb_write_cost = engram_write_cost cfg, mb_read = engram_read sha256 cry cl, mb_write = engram_write sha256 cfg cry cl now\<rparr>"

interpretation engram: retryable_store "engram_store sha256 cfg cry cl now" for sha256 cfg cry cl now
  by unfold_locales (auto simp: engram_store_def engram_write_def split: if_splits option.splits sum.splits prod.splits)

end
