(* ===== verification/Wallet_Restore.thy ===== *)
theory Wallet_Restore
  imports Wallet_Backup
begin

text \<open>
  Recovering the wallet from its backup: importing what the mint still honours (\<open>nip60_reconcile.rs\<close>), and the
  recovery at boot with its bounded retry, its drain of unissued quotes and the final flush of a graceful death
  (\<open>boot.rs\<close>). The Cashu library is an argument: its operations run over the decorated counter store.
\<close>

section \<open>Importing\<close>

datatype proof_state_nut07 = Spent | Unspent | Pending | Reserved | PendingSpent

text \<open>The library's wallet; every operation may fail, derive through the counter decorator, and change its store.\<close>

record ('i, 'w, 'p, 'y, 'q) cdk_recovery =
  cw_y :: "'p \<Rightarrow> 'y option"
  cw_get_proofs :: "('i, 'w) counter_db \<Rightarrow> (string + 'p list) \<times> ('i, 'w) counter_db"
  cw_check_proofs_spent :: "'p list \<Rightarrow> ('i, 'w) counter_db \<Rightarrow> (string + ('y \<times> proof_state_nut07) list) \<times> ('i, 'w) counter_db"
  cw_receive_proofs :: "'p list \<Rightarrow> ('i, 'w) counter_db \<Rightarrow> (string + u64) \<times> ('i, 'w) counter_db"
  cw_mint_unissued_quotes :: "('i, 'w) counter_db \<Rightarrow> (string + u64) \<times> ('i, 'w) counter_db"
  cw_get_unissued :: "('i, 'w) counter_db \<Rightarrow> (string + 'q list) \<times> ('i, 'w) counter_db"
  cw_check_mintable :: "'q \<Rightarrow> ('i, 'w) counter_db \<Rightarrow> (string + u64) \<times> ('i, 'w) counter_db"
  cw_recover_sagas :: "('i, 'w) counter_db \<Rightarrow> (string + unit) \<times> ('i, 'w) counter_db"
  cw_total_balance :: "('i, 'w) counter_db \<Rightarrow> (string + u64) \<times> ('i, 'w) counter_db"

definition known_ys ::
  "('i, 'w, 'p, 'y, 'q) cdk_recovery \<Rightarrow> ('i, 'w) counter_db \<Rightarrow> (string + 'y list) \<times> ('i, 'w) counter_db" where
  "known_ys cw db =
     (case cw_get_proofs cw db of
        (Inl e, db') \<Rightarrow> (Inl (''read wallet proofs for the novel-only gate: '' @ e), db')
      | (Inr proofs, db') \<Rightarrow>
          (if list_ex (\<lambda>p. cw_y cw p = None) proofs then Inl ''compute a tracked proof's Y''
           else Inr (map (\<lambda>p. the (cw_y cw p)) proofs), db'))"

definition novel_only :: "('p \<Rightarrow> 'y option) \<Rightarrow> 'p list \<Rightarrow> 'y list \<Rightarrow> 'p list" where
  "novel_only y candidates known = filter (\<lambda>p. case y p of Some v \<Rightarrow> v \<notin> set known | None \<Rightarrow> False) candidates"

definition keep_unspent :: "('p \<Rightarrow> 'y option) \<Rightarrow> 'p list \<Rightarrow> ('y \<times> proof_state_nut07) list \<Rightarrow> 'p list" where
  "keep_unspent y proofs states =
     filter (\<lambda>p. case y p of Some v \<Rightarrow> list_ex (\<lambda>(sy, s). sy = v \<and> s = Unspent) states | None \<Rightarrow> False) proofs"

definition reconcile_import ::
  "('i, 'w, 'p, 'y, 'q) cdk_recovery \<Rightarrow> 'p list \<Rightarrow> ('i, 'w) counter_db \<Rightarrow> (string + u64) \<times> ('i, 'w) counter_db" where
  "reconcile_import cw candidates db =
     (if candidates = [] then (Inr 0, db)
      else case known_ys cw db of
        (Inl e, db1) \<Rightarrow> (Inl e, db1)
      | (Inr known, db1) \<Rightarrow>
          (let novel = novel_only (cw_y cw) candidates known
           in if novel = [] then (Inr 0, db1)
              else case cw_check_proofs_spent cw novel db1 of
                (Inl e, db2) \<Rightarrow> (Inl (''NUT-07 check-state: '' @ e), db2)
              | (Inr states, db2) \<Rightarrow>
                  (let importable = keep_unspent (cw_y cw) novel states
                   in if importable = [] then (Inr 0, db2)
                      else case cw_receive_proofs cw importable db2 of
                        (Inl e, db3) \<Rightarrow> (Inl (''receive_proofs (reconcile-import swap): '' @ e), db3)
                      | (Inr n, db3) \<Rightarrow> (Inr n, db3))))"

datatype restore_outcome = Restored u64 | Degraded

fun restore_is_ok :: "restore_outcome \<Rightarrow> bool" where
  "restore_is_ok (Restored n) = True"
| "restore_is_ok Degraded = False"

fun restore_imported :: "restore_outcome \<Rightarrow> u64" where
  "restore_imported (Restored n) = n"
| "restore_imported Degraded = 0"

definition restore_from_relay_backup ::
  "('i, 'w, 'p, 'y, 'q) cdk_recovery \<Rightarrow> string + 'p list \<Rightarrow> ('i, 'w) counter_db \<Rightarrow> restore_outcome \<times> ('i, 'w) counter_db" where
  "restore_from_relay_backup cw candidates db =
     (case candidates of
        Inl e \<Rightarrow> (Degraded, db)
      | Inr c \<Rightarrow> (case reconcile_import cw c db of
          (Inr imported, db') \<Rightarrow> (Restored imported, db') | (Inl e, db') \<Rightarrow> (Degraded, db')))"

section \<open>Draining\<close>

datatype quote_drain_state = MintableUnminted | ConfirmedUnpaid | CheckErrored

definition mintable_remaining :: "quote_drain_state list \<Rightarrow> nat option" where
  "mintable_remaining verdicts =
     (if CheckErrored \<in> set verdicts then None else Some (length (filter (\<lambda>v. v = MintableUnminted) verdicts)))"

definition drain_complete :: "nat option \<Rightarrow> bool" where
  "drain_complete mintable_after \<longleftrightarrow> mintable_after = Some 0"

fun recheck_quotes ::
  "('i, 'w, 'p, 'y, 'q) cdk_recovery \<Rightarrow> 'q list \<Rightarrow> ('i, 'w) counter_db \<Rightarrow> quote_drain_state list \<times> ('i, 'w) counter_db" where
  "recheck_quotes cw [] db = ([], db)"
| "recheck_quotes cw (q # qs) db =
     (case cw_check_mintable cw q db of
        (r, db1) \<Rightarrow>
          (case recheck_quotes cw qs db1 of
             (vs, db2) \<Rightarrow>
               ((case r of Inr n \<Rightarrow> if 0 < n then MintableUnminted else ConfirmedUnpaid | Inl e \<Rightarrow> CheckErrored) # vs, db2)))"

definition strict_drain_unissued_after ::
  "('i, 'w, 'p, 'y, 'q) cdk_recovery \<Rightarrow> ('i, 'w) counter_db \<Rightarrow> nat option \<times> ('i, 'w) counter_db" where
  "strict_drain_unissued_after cw db =
     (case cw_mint_unissued_quotes cw db of
        (minted, db1) \<Rightarrow>
          (case cw_get_unissued cw db1 of
             (Inl e, db2) \<Rightarrow> (None, db2)
           | (Inr remaining_quotes, db2) \<Rightarrow>
               (case recheck_quotes cw remaining_quotes db2 of (verdicts, db3) \<Rightarrow> (mintable_remaining verdicts, db3))))"

section \<open>The decisions\<close>

datatype solvency_posture = Assert | ProceedNonAuthoritative

definition solvency_gate :: "bool \<Rightarrow> solvency_posture" where
  "solvency_gate authoritative = (if authoritative then Assert else ProceedNonAuthoritative)"

definition boot_solvency_authoritative :: "bool \<Rightarrow> bool \<Rightarrow> bool" where
  "boot_solvency_authoritative nip60_read_authoritative counter_established \<longleftrightarrow>
     nip60_read_authoritative \<and> counter_established"

definition should_publish_config :: "bool \<Rightarrow> bool" where
  "should_publish_config config_authoritative \<longleftrightarrow> config_authoritative"

definition retry_established :: "bool \<Rightarrow> bool \<Rightarrow> bool \<Rightarrow> bool" where
  "retry_established counter_established read_established drain_ok \<longleftrightarrow>
     counter_established \<and> read_established \<and> drain_ok"

definition retry_should_proceed :: "bool \<Rightarrow> bool \<Rightarrow> bool" where
  "retry_should_proceed already_established fresh_establish \<longleftrightarrow> already_established \<or> fresh_establish"

definition token_plane_empty :: "'p reconcile_read \<Rightarrow> bool" where
  "token_plane_empty read \<longleftrightarrow> rm_raw_events_empty read"

definition should_spawn_config_retry :: "bool \<Rightarrow> bool \<Rightarrow> bool" where
  "should_spawn_config_retry read_established recovery_complete \<longleftrightarrow> \<not> read_established \<or> \<not> recovery_complete"

definition assert_wallet_backs_counter :: "u64 \<Rightarrow> u64 \<Rightarrow> string + unit" where
  "assert_wallet_backs_counter wallet_balance treasury_remaining =
     (if wallet_balance < treasury_remaining then Inl ''RoutstrBrain refuses to boot: wallet_balance < treasury_remaining''
      else Inr ())"

definition CONFIG_RETRY_BASE :: u64 where "CONFIG_RETRY_BASE = 2"
definition CONFIG_RETRY_MAX_INTERVAL :: u64 where "CONFIG_RETRY_MAX_INTERVAL = 60"
definition CONFIG_RETRY_MAX_ATTEMPTS :: nat where "CONFIG_RETRY_MAX_ATTEMPTS = 12"

definition config_retry_backoff :: "nat \<Rightarrow> u64 \<Rightarrow> u64 \<Rightarrow> u64" where
  "config_retry_backoff attempt base limit =
     (let factor = push_bit (min attempt 32) 1; secs = saturating_mul base factor
      in if secs < base then base else if limit < secs then limit else secs)"

section \<open>One attempt\<close>

text \<open>The parts every step of the recovery shares.\<close>

record ('i, 'w, 'p, 'y, 'q, 'r) recovery_env =
  rv_store :: "('i, 'w) wallet_store"
  rv_wallet :: "('i, 'w, 'p, 'y, 'q) cdk_recovery"
  rv_crypto :: "'p nip60_crypto"
  rv_transport :: "'r nip60_transport"
  rv_parse :: "string \<Rightarrow> 'i option"
  rv_hex :: "'i \<Rightarrow> string"

record ('i, 'w, 'r) recovery =
  ry_db :: "('i, 'w) counter_db"
  ry_nip60 :: nip60_store
  ry_relays :: 'r

definition config_floor :: "(string \<Rightarrow> 'i option) \<Rightarrow> wallet_config_content option \<Rightarrow> 'i counters \<times> bool" where
  "config_floor parse config =
     (case config of Some c \<Rightarrow> counters_by_id_checked parse c | None \<Rightarrow> (\<lambda>i. None, False))"

definition restore_and_drain ::
  "('i, 'w, 'p, 'y, 'q, 'r) recovery_env \<Rightarrow> 'p reconcile_read \<Rightarrow> ('i, 'w) counter_db \<Rightarrow> bool \<times> ('i, 'w) counter_db" where
  "restore_and_drain env read db =
     (case restore_from_relay_backup (rv_wallet env) (Inr (rm_candidates read)) db of
        (outcome, db1) \<Rightarrow>
          (case strict_drain_unissued_after (rv_wallet env) db1 of
             (after, db2) \<Rightarrow>
               (let restore_ok = (restore_is_ok outcome \<and> rm_decode_ok read); drain_ok = drain_complete after;
                    converged = (retry_established (is_established db2) (rm_authoritative read) drain_ok \<and> restore_ok)
                in (converged, if converged then mark_recovery_complete db2 else db2))))"

definition try_establish_counter ::
  "('i, 'w, 'p, 'y, 'q, 'r) recovery_env \<Rightarrow> ('i, 'w, 'r) recovery \<Rightarrow> (string + bool) \<times> ('i, 'w, 'r) recovery" where
  "try_establish_counter env s =
     (case load_config_quorum (rv_crypto env) (rv_transport env) (ry_nip60 s) (ry_relays s) of
        (Inl e, r1) \<Rightarrow> (Inl e, s\<lparr>ry_relays := r1\<rparr>)
      | (Inr cr, r1) \<Rightarrow>
          (case reconcile_on_load_with_ids (rv_crypto env) (rv_transport env) (ry_nip60 s) r1 of
             (Inl e, st, r2) \<Rightarrow> (Inl e, s\<lparr>ry_nip60 := st, ry_relays := r2\<rparr>)
           | (Inr read, st, r2) \<Rightarrow>
               (let (level, config_floor_dropped) = config_floor (rv_parse env) (cr_config cr);
                    s1 = s\<lparr>ry_nip60 := st, ry_relays := r2\<rparr>; already_established = is_established (ry_db s)
                in case (if already_established then (Inr False, ry_db s)
                         else establish_if_sound (rv_store env) level False (cr_config_authoritative cr)
                           (rm_authoritative read) (token_plane_empty read) (\<not> config_floor_dropped) (ry_db s)) of
                     (Inl e, db) \<Rightarrow> (Inl (''config-plane retry: establish decision: '' @ e), s1\<lparr>ry_db := db\<rparr>)
                   | (Inr fresh_establish, db) \<Rightarrow>
                       if \<not> retry_should_proceed already_established fresh_establish then (Inr False, s1\<lparr>ry_db := db\<rparr>)
                       else (case restore_and_drain env read db of
                               (converged, db') \<Rightarrow> (Inr converged, s1\<lparr>ry_db := db'\<rparr>)))))"

text \<open>The bounded retry: before each attempt the rest of the daemon moves the state while the task sleeps.\<close>

fun config_retry ::
  "('i, 'w, 'p, 'y, 'q, 'r) recovery_env \<Rightarrow> (('i, 'w, 'r) recovery \<Rightarrow> ('i, 'w, 'r) recovery) list \<Rightarrow> ('i, 'w, 'r) recovery
     \<Rightarrow> bool \<times> ('i, 'w, 'r) recovery" where
  "config_retry env [] s = (False, s)"
| "config_retry env (sleep # sleeps) s =
     (case try_establish_counter env (sleep s) of
        (Inr True, s') \<Rightarrow> (True, s')
      | (r, s') \<Rightarrow> config_retry env sleeps s')"

section \<open>Boot\<close>

record boot_inputs =
  bi_nip60 :: nip60_config
  bi_fleet_relay :: string
  bi_mint_allowlist :: "string list"
  bi_mint_url :: string
  bi_treasury_remaining :: u64
  bi_saga_timeout :: bool

record ('i, 'w, 'r) booted =
  bt_db :: "('i, 'w) counter_db"
  bt_nip60 :: "nip60_store option"
  bt_relays :: 'r
  bt_live_ids :: "string list"
  bt_retry :: bool

definition connect_store :: "boot_inputs \<Rightarrow> string + nip60_store option" where
  "connect_store bi =
     (if n60_relays (bi_nip60 bi) = [] then Inr None
      else case nip60_resolve_checked (bi_nip60 bi) (bi_fleet_relay bi) of
        Inl e \<Rightarrow> Inl e
      | Inr (relays, write_k, read_k, durability) \<Rightarrow>
          map_sum id Some (nip60_connect relays (Some write_k) (Some read_k) (bi_mint_allowlist bi)))"

text \<open>What the two planes said before the wallet opens; without a store the box is its own authority.\<close>

record ('i, 'p) plane_reads =
  pr_floor :: "'i counters"
  pr_floor_dropped :: bool
  pr_config_authoritative :: bool
  pr_token_authoritative :: bool
  pr_token_empty :: bool
  pr_token_read :: "(string + 'p reconcile_read) option"

definition read_planes ::
  "('i, 'w, 'p, 'y, 'q, 'r) recovery_env \<Rightarrow> nip60_store option \<Rightarrow> 'r
     \<Rightarrow> (string + ('i, 'p) plane_reads \<times> nip60_store option) \<times> 'r" where
  "read_planes env store r =
     (case store of
        None \<Rightarrow> (Inr (\<lparr>pr_floor = (\<lambda>i. None), pr_floor_dropped = False, pr_config_authoritative = True,
                  pr_token_authoritative = True, pr_token_empty = True, pr_token_read = None\<rparr>, None), r)
      | Some st \<Rightarrow>
          (case load_config_quorum (rv_crypto env) (rv_transport env) st r of
             (Inl e, r1) \<Rightarrow> (Inl e, r1)
           | (Inr cr, r1) \<Rightarrow>
               (let (level, dropped) = config_floor (rv_parse env) (cr_config cr);
                    (read, st', r2) = reconcile_on_load_with_ids (rv_crypto env) (rv_transport env) st r1
                in (Inr (\<lparr>pr_floor = level, pr_floor_dropped = dropped,
                      pr_config_authoritative = cr_config_authoritative cr,
                      pr_token_authoritative = (case read of Inr rd \<Rightarrow> rm_authoritative rd | Inl e \<Rightarrow> False),
                      pr_token_empty = (case read of Inr rd \<Rightarrow> token_plane_empty rd | Inl e \<Rightarrow> False),
                      pr_token_read = Some read\<rparr>, Some st'), r2))))"

text \<open>The early token read drives the import: its ids, whether the read was authoritative, whether the restore was
  genuine.\<close>

definition import_backup ::
  "('i, 'w, 'p, 'y, 'q, 'r) recovery_env \<Rightarrow> (string + 'p reconcile_read) option \<Rightarrow> ('i, 'w) counter_db
     \<Rightarrow> string list \<times> bool \<times> bool \<times> ('i, 'w) counter_db" where
  "import_backup env token_read db =
     (case token_read of
        Some (Inr read) \<Rightarrow>
          (case restore_from_relay_backup (rv_wallet env) (Inr (rm_candidates read)) db of
             (outcome, db') \<Rightarrow> (rm_fetched_ids read, rm_authoritative read, restore_is_ok outcome \<and> rm_decode_ok read, db'))
      | Some (Inl e) \<Rightarrow>
          (case restore_from_relay_backup (rv_wallet env) (Inl e) db of
             (outcome, db') \<Rightarrow> ([], False, restore_is_ok outcome, db'))
      | None \<Rightarrow> ([], True, True, db))"

definition finish_recovery ::
  "('i, 'w, 'p, 'y, 'q, 'r) recovery_env \<Rightarrow> bool \<Rightarrow> bool \<Rightarrow> ('i, 'w) counter_db \<Rightarrow> ('i, 'w) counter_db" where
  "finish_recovery env restore_ok read_authoritative db =
     (case strict_drain_unissued_after (rv_wallet env) db of
        (after, db') \<Rightarrow>
          if drain_complete after \<and> restore_ok \<and> read_authoritative then mark_recovery_complete db' else db')"

text \<open>The wallet half of \<open>build_routstr_brain\<close>, from the relay reads to the decision to retry.\<close>

definition boot_wallet ::
  "('i, 'w, 'p, 'y, 'q, 'r) recovery_env \<Rightarrow> boot_inputs \<Rightarrow> string + 'w \<times> (string + (string + string \<times> int) list)
     \<Rightarrow> string + unit \<Rightarrow> 'r \<Rightarrow> (string + ('i, 'w, 'r) booted) \<times> 'r" where
  "boot_wallet env bi opened built r0 =
     (case connect_store bi of
        Inl e \<Rightarrow> (Inl e, r0)
      | Inr store0 \<Rightarrow>
          (case read_planes env store0 r0 of
             (Inl e, r1) \<Rightarrow> (Inl e, r1)
           | (Inr (planes, store), r1) \<Rightarrow>
               (case open_persistent_wallet (rv_store env) (rv_parse env) opened built (pr_floor planes)
                       (pr_config_authoritative planes) (pr_token_authoritative planes) (pr_token_empty planes)
                       (pr_floor_dropped planes) of
                  Inl e \<Rightarrow> (Inl e, r1)
                | Inr db0 \<Rightarrow>
                    (case cw_recover_sagas (rv_wallet env) db0 of
                       (sagas, db1) \<Rightarrow>
                         if \<not> bi_saga_timeout bi \<and> sagas \<noteq> Inr () then (Inl ''recover incomplete sagas'', r1)
                         else
                           (let (live_ids, read_authoritative, restore_ok, db2) = import_backup env (pr_token_read planes) db1;
                                (balance, db3) = cw_total_balance (rv_wallet env) db2;
                                wallet_balance = (case balance of Inr n \<Rightarrow> n | Inl e \<Rightarrow> 0);
                                posture = solvency_gate (boot_solvency_authoritative read_authoritative (is_established db3))
                            in if posture = Assert \<and> assert_wallet_backs_counter wallet_balance (bi_treasury_remaining bi) \<noteq> Inr ()
                               then (Inl ''wallet does not back the counter'', r1)
                               else
                                 (case store of
                                    None \<Rightarrow> (Inr \<lparr>bt_db = db3, bt_nip60 = None, bt_relays = r1, bt_live_ids = live_ids, bt_retry = False\<rparr>, r1)
                                  | Some st \<Rightarrow>
                                      (let db4 = (if is_established db3 then finish_recovery env restore_ok read_authoritative db3 else db3);
                                           r2 = (if should_publish_config (pr_config_authoritative planes)
                                                 then snd (publish_wallet_config (rv_crypto env) (rv_transport env) (rv_store env)
                                                   (rv_hex env) st (is_recovery_complete db4) (keyset_counters db4) [bi_mint_url bi] r1)
                                                 else r1)
                                       in (Inr \<lparr>bt_db = db4, bt_nip60 = Some st, bt_relays = r2, bt_live_ids = live_ids,
                                             bt_retry = should_spawn_config_retry read_authoritative (is_recovery_complete db4)\<rparr>, r2))))))))"

section \<open>A graceful death\<close>

text \<open>The last flush, then the counters as they stand; neither failure stops the teardown.\<close>

definition flush_estate ::
  "('i, 'w, 'p, 'y, 'q, 'r) recovery_env \<Rightarrow> (('i, 'w) counter_db \<Rightarrow> (string + 'p list) \<times> ('i, 'w) counter_db) \<Rightarrow> string
     \<Rightarrow> string \<Rightarrow> nip60_store \<Rightarrow> bool \<Rightarrow> backup_state \<Rightarrow> ('i, 'w) counter_db \<Rightarrow> 'r \<Rightarrow> backup_state \<times> ('i, 'w) counter_db \<times> 'r" where
  "flush_estate env unspent_proofs mint_url unit_name st mutated b db r =
     (case flush (rv_crypto env) (rv_transport env) unspent_proofs mint_url unit_name st (is_recovery_complete db)
             mutated False b db r of
        (res, b', db', r') \<Rightarrow>
          (b', db', snd (publish_wallet_config (rv_crypto env) (rv_transport env) (rv_store env) (rv_hex env) st
             (is_recovery_complete db') (keyset_counters db') [mint_url] r')))"

end
