(* ===== verification/Wallet_Counter_Props.thy ===== *)
theory Wallet_Counter_Props
  imports Wallet_Counter
begin

text \<open>
  What the counter promises: no index is handed out twice over the life of an agent, on one box or several, a fresh box derives nothing
  before it read its level, and then only above it; and what is mirrored for the backup covers every index
  used.
\<close>

section \<open>Relay quorums\<close>

lemma clamp_quorum_range: "1 \<le> n \<Longrightarrow> 1 \<le> clamp_quorum k n \<and> clamp_quorum k n \<le> n"
  by (auto simp: clamp_quorum_def split: option.splits)

text \<open>A relay configuration that boots has quorums that meet: both thresholds are between one and the number of
  relays and together exceed it, so every set of relays that acknowledged a write shares a relay with every
  set that answered a read; and a configuration that sets no thresholds always boots.\<close>

theorem quorums_meet:
  assumes "n60_read_k cfg = None \<and> n60_write_k cfg = None \<or> (\<exists>r. nip60_resolve_checked cfg fleet = Inr r)"
  shows "\<exists>relays write_k read_k dur. nip60_resolve_checked cfg fleet = Inr (relays, write_k, read_k, dur)
    \<and> 1 \<le> write_k \<and> write_k \<le> length relays \<and> 1 \<le> read_k \<and> read_k \<le> length relays
    \<and> (\<forall>W R. W \<subseteq> {..<length relays} \<longrightarrow> R \<subseteq> {..<length relays} \<longrightarrow> write_k \<le> card W \<longrightarrow> read_k \<le> card R \<longrightarrow> W \<inter> R \<noteq> {})"
proof -
  obtain relays write_k read_k dur where r: "nip60_resolve cfg fleet = (relays, write_k, read_k, dur)"
    by (cases "nip60_resolve cfg fleet")
  let ?n = "length relays"
  have n: "1 \<le> ?n" and k: "write_k = clamp_quorum (n60_write_k cfg) ?n" "read_k = clamp_quorum (n60_read_k cfg) ?n"
    using r by (auto simp: nip60_resolve_def Let_def Suc_le_eq split: if_splits)
  have "n60_read_k cfg = None \<and> n60_write_k cfg = None \<Longrightarrow> ?n < read_k + write_k"
    using n by (simp add: k clamp_quorum_def)
  then have meet: "?n < read_k + write_k" and ok: "nip60_resolve_checked cfg fleet = Inr (relays, write_k, read_k, dur)"
    using assms r by (auto simp: nip60_resolve_checked_def quorum_intersection_ok_def split: if_splits)
  have "W \<inter> R \<noteq> {}" if "W \<subseteq> {..<?n}" "R \<subseteq> {..<?n}" "write_k \<le> card W" "read_k \<le> card R" for W R
  proof
    assume "W \<inter> R = {}"
    then have "card (W \<union> R) = card W + card R"
      using that(1,2) by (intro card_Un_disjoint) (auto intro: finite_subset)
    moreover have "card (W \<union> R) \<le> ?n" using card_mono [of "{..<?n}" "W \<union> R"] that(1,2) by auto
    ultimately show False using that(3,4) meet by simp
  qed
  then show ?thesis using ok clamp_quorum_range [OF n] by (auto simp: k)
qed

theorem quorums_meet_witness:
  "\<exists>dur. nip60_resolve_checked \<lparr>n60_relays = [''a'', ''b'', ''c''], n60_write_k = None, n60_read_k = None, n60_backup_flush_secs = None\<rparr> ''f''
     = Inr ([''a'', ''b'', ''c''], 2, 2, dur)"
  using quorums_meet [of "\<lparr>n60_relays = [''a'', ''b'', ''c''], n60_write_k = None, n60_read_k = None, n60_backup_flush_secs = None\<rparr>" "''f''"]
  by (simp add: nip60_resolve_checked_def nip60_resolve_def clamp_quorum_def quorum_intersection_ok_def)

section \<open>The life of a store\<close>

text \<open>What the wrapped store documents: an increment adds, and returns the sum; one that fails may have added; no
  counter ever falls. And a hash map is walked entry by entry.\<close>

definition counting :: "('i, 'w) wallet_store \<Rightarrow> ('w \<Rightarrow> 'i \<Rightarrow> nat) \<Rightarrow> bool" where
  "counting ws cnt \<longleftrightarrow>
     (\<forall>i c w r w'. wl_increment ws i c w = (r, w') \<longrightarrow> (\<forall>j. cnt w j \<le> cnt w' j)
        \<and> (\<forall>n. r = Inr n \<longrightarrow> cnt w' i = unat n \<and> unat n = cnt w i + unat c))
     \<and> (\<forall>m. finite (dom m) \<longrightarrow> map_of (wl_iter ws m) = m)"

lemma counting_inc:
  "counting ws cnt \<Longrightarrow> wl_increment ws i c w = (r, w') \<Longrightarrow> cnt w j \<le> cnt w' j"
  "counting ws cnt \<Longrightarrow> wl_increment ws i c w = (Inr n, w') \<Longrightarrow> cnt w' i = unat n \<and> unat n = cnt w i + unat c"
  by (auto simp: counting_def)

datatype 'i counter_event = Derived 'i nat nat | Established "'i counters" bool bool bool bool | Restarted

text \<open>Derivations, establishment attempts, the other traffic of the wallet library on its store, and restarts over
  the same store, in any order.\<close>

inductive counter_run ::
  "('i, 'w) wallet_store \<Rightarrow> ('w \<Rightarrow> 'i \<Rightarrow> nat) \<Rightarrow> ('i, 'w) counter_db \<Rightarrow> 'i counter_event list \<Rightarrow> ('i, 'w) counter_db \<Rightarrow> bool"
  for ws cnt db0 where
  run_start: "counter_run ws cnt db0 [] db0"
| run_derive: "counter_run ws cnt db0 es db \<Longrightarrow> increment_keyset_counter ws i c db = (Inr n, db') \<Longrightarrow>
    counter_run ws cnt db0 (es @ [Derived i (unat n - unat c) (unat n)]) db'"
| run_refused: "counter_run ws cnt db0 es db \<Longrightarrow> increment_keyset_counter ws i c db = (Inl e, db') \<Longrightarrow>
    counter_run ws cnt db0 es db'"
| run_establish: "counter_run ws cnt db0 es db \<Longrightarrow> finite (dom level) \<Longrightarrow>
    establish_if_sound ws level resume ca ta te fc db = (Inr True, db') \<Longrightarrow>
    counter_run ws cnt db0 (es @ [Established level resume ca ta te]) db'"
| run_defer: "counter_run ws cnt db0 es db \<Longrightarrow> finite (dom level) \<Longrightarrow>
    establish_if_sound ws level resume ca ta te fc db = (r, db') \<Longrightarrow> r \<noteq> Inr True \<Longrightarrow> counter_run ws cnt db0 es db'"
| run_recovered: "counter_run ws cnt db0 es db \<Longrightarrow> counter_run ws cnt db0 es (mark_recovery_complete db)"
| run_restart: "counter_run ws cnt db0 es db \<Longrightarrow> finite (dom m) \<Longrightarrow>
    counter_run ws cnt db0 (es @ [Restarted]) (with_counters_established (cd_inner db) m False)"
| run_store: "counter_run ws cnt db0 es db \<Longrightarrow> (\<forall>i. cnt (cd_inner db) i \<le> cnt w i) \<Longrightarrow>
    counter_run ws cnt db0 es (db\<lparr>cd_inner := w\<rparr>)"

lemma observe_simps [simp]: "cd_inner (observe_counter i c db) = cd_inner db"
  "cd_counter_established (observe_counter i c db) = cd_counter_established db"
  by (simp_all add: observe_counter_def)

lemma observe_shadow: "cd_shadow (observe_counter i c db) j
    = (if j = i then Some (max (case cd_shadow db i of Some c \<Rightarrow> c | None \<Rightarrow> 0) c) else cd_shadow db j)"
  by (simp add: observe_counter_def)

lemma fold_observe_simps [simp]: "cd_inner (fold (\<lambda>(i, c). observe_counter i c) xs db) = cd_inner db"
  "cd_counter_established (fold (\<lambda>(i, c). observe_counter i c) xs db) = cd_counter_established db"
  by (induction xs arbitrary: db) auto

text \<open>The mirror only rises, and above what it was given.\<close>

definition mirror_ge :: "('i, 'w) counter_db \<Rightarrow> 'i \<Rightarrow> nat \<Rightarrow> bool" where
  "mirror_ge db i n \<longleftrightarrow> (\<exists>c. cd_shadow db i = Some c \<and> n \<le> unat c)"

lemma mirror_observe: "mirror_ge db i n \<Longrightarrow> mirror_ge (observe_counter j c db) i n"
  by (auto simp: mirror_ge_def observe_shadow max_def word_le_nat_alt)

lemma mirror_observed: "mirror_ge (observe_counter i c db) i (unat c)"
  by (auto simp: mirror_ge_def observe_shadow max_def word_le_nat_alt)

lemma mirror_fold: "mirror_ge db i n \<Longrightarrow> mirror_ge (fold (\<lambda>(i, c). observe_counter i c) xs db) i n"
  by (induction xs arbitrary: db) (auto intro: mirror_observe)

lemma mirror_folded: "(i, c) \<in> set xs \<Longrightarrow> mirror_ge (fold (\<lambda>(i, c). observe_counter i c) xs db) i (unat c)"
  by (induction xs arbitrary: db) (auto intro: mirror_fold mirror_observed)

lemma dom_observe: "finite (dom (cd_shadow db)) \<Longrightarrow> finite (dom (cd_shadow (observe_counter i c db)))"
  by (simp add: observe_counter_def)

lemma dom_fold: "finite (dom (cd_shadow db)) \<Longrightarrow> finite (dom (cd_shadow (fold (\<lambda>(i, c). observe_counter i c) xs db)))"
  by (induction xs arbitrary: db) (auto intro: dom_observe)

lemma seeded: "counting ws cnt \<Longrightarrow> finite (dom level) \<Longrightarrow> level i = Some c \<Longrightarrow> mirror_ge (seed_floor ws level db) i (unat c)"
  unfolding seed_floor_def by (rule mirror_folded) (metis counting_def map_of_SomeD)

lemma fast_forward_lifts:
  "fast_forward_all ws xs w = (r, w') \<Longrightarrow> counting ws cnt \<Longrightarrow>
     (\<forall>j. cnt w j \<le> cnt w' j) \<and> (r = Inr () \<longrightarrow> (\<forall>(i, c)\<in>set xs. unat c \<le> cnt w' i))"
proof (induction ws xs w arbitrary: r w' rule: fast_forward_all.induct)
  case (2 ws i level rest w)
  obtain q w1 where read: "wl_increment ws i 0 w = (q, w1)" by (cases "wl_increment ws i 0 w")
  note up1 = counting_inc(1) [OF "2.prems"(2) read]
  show ?case
  proof (cases q)
    case (Inl e)
    then show ?thesis using "2.prems"(1) up1 by (auto simp: read)
  next
    case (Inr cur)
    have cur: "cnt w1 i = unat cur" using counting_inc(2) [OF "2.prems"(2) read [unfolded Inr]] by simp
    show ?thesis
    proof (cases "cur < level")
      case False
      have "fast_forward_all ws rest w1 = (r, w')" using "2.prems"(1) False by (simp add: read Inr)
      note IH = "2.IH"(2) [OF read [symmetric] Inr False this "2.prems"(2)]
      have "cnt w1 i \<le> cnt w' i" using IH by blast
      then have "unat level \<le> cnt w' i" using cur False by (simp add: not_less word_le_nat_alt)
      moreover have "cnt w j \<le> cnt w' j" for j using IH up1 [of j] le_trans by blast
      ultimately show ?thesis using IH by simp
    next
      case True
      obtain q2 w2 where lift: "wl_increment ws i (level - cur) w1 = (q2, w2)" by (cases "wl_increment ws i (level - cur) w1")
      note up2 = counting_inc(1) [OF "2.prems"(2) lift]
      show ?thesis
      proof (cases q2)
        case (Inl e)
        then show ?thesis using "2.prems"(1) True up1 up2 by (auto simp: read Inr lift intro: order_trans)
      next
        case (Inr n)
        have "cnt w2 i = unat cur + unat (level - cur)"
          using counting_inc(2) [OF "2.prems"(2) lift [unfolded Inr]] cur by simp
        then have reached: "unat level \<le> cnt w2 i" using True by (simp add: unat_sub word_less_nat_alt word_le_nat_alt)
        have "fast_forward_all ws rest w2 = (r, w')" using "2.prems"(1) True by (simp add: read \<open>q = Inr cur\<close> lift Inr)
        note IH = "2.IH"(1) [OF read [symmetric] \<open>q = Inr cur\<close> True lift [symmetric] Inr this "2.prems"(2)]
        have "unat level \<le> cnt w' i" using IH reached le_trans by blast
        moreover have "cnt w j \<le> cnt w' j" for j using IH up1 [of j] up2 [of j] le_trans by blast
        ultimately show ?thesis using IH by simp
      qed
    qed
  qed
qed simp

lemma established_lifts:
  assumes "establish_if_sound ws level resume ca ta te fc db = (r, db')" and "counting ws cnt"
    and "finite (dom level)" and "finite (dom (cd_shadow db))"
  shows "(\<forall>j. cnt (cd_inner db) j \<le> cnt (cd_inner db') j) \<and> finite (dom (cd_shadow db'))
    \<and> (\<forall>i n. mirror_ge db i n \<longrightarrow> mirror_ge db' i n)
    \<and> (if r = Inr True then should_establish_counter resume ca (wl_iter ws level = []) ta te fc \<and> cd_counter_established db'
         \<and> (\<forall>i c. level i = Some c \<longrightarrow> unat c \<le> cnt (cd_inner db') i \<and> mirror_ge db' i (unat c))
       else cd_counter_established db' = cd_counter_established db)"
proof (cases "should_establish_counter resume ca (wl_iter ws level = []) ta te fc")
  case True
  let ?db1 = "seed_floor ws level db"
  obtain q w' where ff: "fast_forward_all ws (wl_iter ws (cd_shadow ?db1)) (cd_inner ?db1) = (q, w')"
    by (cases "fast_forward_all ws (wl_iter ws (cd_shadow ?db1)) (cd_inner ?db1)")
  note lift = fast_forward_lifts [OF ff assms(2)]
  have inner: "cd_inner ?db1 = cd_inner db" "cd_counter_established ?db1 = cd_counter_established db"
    by (simp_all add: seed_floor_def)
  have fin: "finite (dom (cd_shadow ?db1))" unfolding seed_floor_def by (rule dom_fold [OF assms(4)])
  have run: "(r, db') = (case q of Inl e \<Rightarrow> (Inl e, ?db1\<lparr>cd_inner := w'\<rparr>) | Inr _ \<Rightarrow> (Inr True, establish (?db1\<lparr>cd_inner := w'\<rparr>)))"
    using assms(1) True by (simp add: establish_if_sound_def fast_forward_inner_to_floor_def ff split: sum.splits)
  have mirror: "mirror_ge (establish (?db1\<lparr>cd_inner := w'\<rparr>)) i n \<longleftrightarrow> mirror_ge ?db1 i n"
    "mirror_ge (?db1\<lparr>cd_inner := w'\<rparr>) i n \<longleftrightarrow> mirror_ge ?db1 i n" for i n
    by (simp_all add: mirror_ge_def establish_def)
  have kept: "mirror_ge db i n \<Longrightarrow> mirror_ge ?db1 i n" for i n unfolding seed_floor_def by (rule mirror_fold)
  have reached: "unat c \<le> cnt w' i" if q: "q = Inr ()" and at: "level i = Some c" for i c
  proof -
    obtain c' where c': "cd_shadow ?db1 i = Some c'" "unat c \<le> unat c'"
      using seeded [OF assms(2,3) at, of db] by (auto simp: mirror_ge_def)
    have "map_of (wl_iter ws (cd_shadow ?db1)) i = Some c'" using assms(2) fin c'(1) by (simp add: counting_def)
    then have "(i, c') \<in> set (wl_iter ws (cd_shadow ?db1))" by (rule map_of_SomeD)
    then have "unat c' \<le> cnt w' i" using lift q by blast
    then show ?thesis using c'(2) by simp
  qed
  show ?thesis
  proof (cases q)
    case (Inl e)
    then show ?thesis using run lift kept inner fin by (simp add: mirror)
  next
    case (Inr u)
    then show ?thesis
      using run lift kept inner fin True reached seeded [OF assms(2,3)] by (simp add: mirror) (simp add: establish_def)
  qed
qed (use assms in \<open>auto simp: establish_if_sound_def\<close>)

text \<open>What a later derivation owes to an earlier event.\<close>

fun follows :: "'i counter_event \<Rightarrow> 'i counter_event \<Rightarrow> bool" where
  "follows (Derived i s e) (Derived j s' e') \<longleftrightarrow> (i = j \<longrightarrow> e \<le> s')"
| "follows (Established level r ca ta te) (Derived j s' e') \<longleftrightarrow> (\<forall>c. level j = Some c \<longrightarrow> unat c \<le> s')"
| "follows _ _ \<longleftrightarrow> True"

text \<open>The events since the last restart.\<close>

definition this_life :: "'i counter_event list \<Rightarrow> 'i counter_event list" where
  "this_life es = takeWhile (\<lambda>x. x \<noteq> Restarted) (rev es)"

lemma this_life_simps [simp]: "this_life [] = []" "this_life (es @ [Restarted]) = []"
  "x \<noteq> Restarted \<Longrightarrow> this_life (es @ [x]) = x # this_life es"
  by (simp_all add: this_life_def)

definition armed :: "'i counter_event list \<Rightarrow> bool" where
  "armed es \<longleftrightarrow> (\<exists>level r ca ta te. Established level r ca ta te \<in> set (this_life es))"

lemma armed_simps [simp]: "\<not> armed []" "\<not> armed (es @ [Restarted])" "armed (es @ [Established level r ca ta te])"
  "armed (es @ [Derived i s e]) = armed es"
  unfolding armed_def by (simp, simp, simp, blast, simp)

lemma split_snoc: "(\<forall>xs x ys. es @ [z] = xs @ x # ys \<longrightarrow> P xs x) \<longleftrightarrow> (\<forall>xs x ys. es = xs @ x # ys \<longrightarrow> P xs x) \<and> P es z"
proof (intro iffI conjI allI impI, goal_cases)
  case (1 xs x ys)
  then show ?case by (metis append.assoc append_Cons)
next
  case (3 xs x ys)
  then show ?case by (cases ys rule: rev_cases) auto
qed auto

fun is_derived :: "'i counter_event \<Rightarrow> bool" where
  "is_derived (Derived i s e) \<longleftrightarrow> True"
| "is_derived _ \<longleftrightarrow> False"

fun sound_event :: "('i, 'w) wallet_store \<Rightarrow> 'i counter_event \<Rightarrow> bool" where
  "sound_event ws (Established level r ca ta te) \<longleftrightarrow> should_establish_counter r ca (wl_iter ws level = []) ta te True"
| "sound_event ws (Derived i s e) \<longleftrightarrow> s \<le> e"
| "sound_event ws Restarted \<longleftrightarrow> True"

fun below_counter :: "('w \<Rightarrow> 'i \<Rightarrow> nat) \<Rightarrow> 'w \<Rightarrow> 'i counter_event \<Rightarrow> bool" where
  "below_counter cnt w (Derived i s e) \<longleftrightarrow> e \<le> cnt w i"
| "below_counter cnt w (Established level r ca ta te) \<longleftrightarrow> (\<forall>i c. level i = Some c \<longrightarrow> unat c \<le> cnt w i)"
| "below_counter cnt w Restarted \<longleftrightarrow> True"

fun mirrored :: "('i, 'w) counter_db \<Rightarrow> 'i counter_event \<Rightarrow> bool" where
  "mirrored db (Derived i s e) \<longleftrightarrow> mirror_ge db i e"
| "mirrored db (Established level r ca ta te) \<longleftrightarrow> (\<forall>i c. level i = Some c \<longrightarrow> mirror_ge db i (unat c))"
| "mirrored db Restarted \<longleftrightarrow> True"

definition run_ok :: "('i, 'w) wallet_store \<Rightarrow> ('w \<Rightarrow> 'i \<Rightarrow> nat) \<Rightarrow> 'i counter_event list \<Rightarrow> ('i, 'w) counter_db \<Rightarrow> bool" where
  "run_ok ws cnt es db \<longleftrightarrow> finite (dom (cd_shadow db)) \<and> sorted_wrt follows es \<and> list_all (sound_event ws) es
     \<and> list_all (below_counter cnt (cd_inner db)) es \<and> cd_counter_established db = armed es
     \<and> (\<forall>xs x ys. es = xs @ x # ys \<longrightarrow> is_derived x \<longrightarrow> armed xs) \<and> (\<forall>x\<in>set (this_life es). mirrored db x)"

lemma below_mono: "below_counter cnt w x \<Longrightarrow> (\<forall>j. cnt w j \<le> cnt w' j) \<Longrightarrow> below_counter cnt w' x"
  by (cases x) (auto intro: order_trans)

lemma mirrored_mono: "mirrored db x \<Longrightarrow> (\<forall>i n. mirror_ge db i n \<longrightarrow> mirror_ge db' i n) \<Longrightarrow> mirrored db' x"
  by (cases x) auto

lemma run_ok_moves:
  assumes "run_ok ws cnt es db" and "\<forall>j. cnt (cd_inner db) j \<le> cnt (cd_inner db') j"
    and "\<forall>i n. mirror_ge db i n \<longrightarrow> mirror_ge db' i n" and "finite (dom (cd_shadow db'))"
    and "cd_counter_established db' = cd_counter_established db"
  shows "run_ok ws cnt es db'"
  using assms by (auto simp: run_ok_def list_all_iff intro: below_mono mirrored_mono)

lemma run_ok_snoc:
  assumes "run_ok ws cnt es db" and "\<forall>y\<in>set es. follows y x" and "sound_event ws x"
    and "below_counter cnt (cd_inner db') x" and "\<forall>j. cnt (cd_inner db) j \<le> cnt (cd_inner db') j"
    and "finite (dom (cd_shadow db'))" and "cd_counter_established db' = armed (es @ [x])" and "is_derived x \<longrightarrow> armed es"
    and "\<forall>y\<in>set (this_life (es @ [x])). mirrored db' y"
  shows "run_ok ws cnt (es @ [x]) db'"
proof -
  have "(\<forall>xs y ys. es @ [x] = xs @ y # ys \<longrightarrow> is_derived y \<longrightarrow> armed xs)"
    unfolding split_snoc using assms(1,8) by (simp add: run_ok_def)
  then show ?thesis
    using assms(1-7,9) by (auto simp: run_ok_def sorted_wrt_append list_all_iff intro: below_mono)
qed

lemma derive_steps:
  assumes "increment_keyset_counter ws i c db = (r, db')" and "counting ws cnt"
  shows "\<forall>j. cnt (cd_inner db) j \<le> cnt (cd_inner db') j" and "\<forall>j n. mirror_ge db j n \<longrightarrow> mirror_ge db' j n"
    and "finite (dom (cd_shadow db)) \<Longrightarrow> finite (dom (cd_shadow db'))"
    and "cd_counter_established db' = cd_counter_established db"
    and "r = Inr n \<Longrightarrow> cd_counter_established db \<and> unat n = cnt (cd_inner db) i + unat c \<and> cnt (cd_inner db') i = unat n
      \<and> mirror_ge db' i (unat n)"
proof -
  show "finite (dom (cd_shadow db)) \<Longrightarrow> finite (dom (cd_shadow db'))"
    using assms(1) by (auto simp: increment_keyset_counter_def split: if_splits sum.splits prod.splits intro: dom_observe)
qed (use assms counting_inc [OF assms(2)] in
  \<open>auto simp: increment_keyset_counter_def mirror_ge_def observe_shadow word_le_nat_alt max_def
    split: if_splits sum.splits prod.splits option.splits\<close>)

lemma counter_run_ok:
  "counter_run ws cnt (with_counters_established w m False) es db \<Longrightarrow> counting ws cnt \<Longrightarrow> finite (dom m) \<Longrightarrow> run_ok ws cnt es db"
proof (induction rule: counter_run.induct)
  case run_start
  then show ?case by (simp add: run_ok_def with_counters_established_def)
next
  case (run_derive es db i c n db')
  note ok = run_derive.IH [OF run_derive.prems] and step = derive_steps [OF run_derive.hyps(2) run_derive.prems(1)]
  note got = step(5) [OF refl]
  have "\<forall>y\<in>set es. follows y (Derived i (unat n - unat c) (unat n))"
  proof
    fix y assume "y \<in> set es"
    then have "below_counter cnt (cd_inner db) y" using ok by (simp add: run_ok_def list_all_iff)
    then show "follows y (Derived i (unat n - unat c) (unat n))" using got by (cases y) auto
  qed
  moreover have "armed es" using ok got by (simp add: run_ok_def)
  ultimately show ?case
    using ok got step by (intro run_ok_snoc [OF ok]) (auto simp: run_ok_def intro: mirrored_mono)
next
  case (run_refused es db i c e db')
  note step = derive_steps [OF run_refused.hyps(2) run_refused.prems(1)]
  note ok = run_refused.IH [OF run_refused.prems]
  then have "finite (dom (cd_shadow db))" by (simp add: run_ok_def)
  from run_ok_moves [OF ok step(1,2) step(3) [OF this] step(4)] show ?case .
next
  case (run_establish es db level resume ca ta te fc db')
  note ok = run_establish.IH [OF run_establish.prems]
  have "finite (dom (cd_shadow db))" using ok by (simp add: run_ok_def)
  note step = established_lifts [OF run_establish.hyps(3) run_establish.prems(1) run_establish.hyps(2) this]
  have "should_establish_counter resume ca (wl_iter ws level = []) ta te True"
    using step by (auto simp: should_establish_counter_def split: if_splits)
  moreover have "\<forall>y\<in>set es. follows y (Established level resume ca ta te)"
  proof
    fix y show "follows y (Established level resume ca ta te)" by (cases y) auto
  qed
  ultimately show ?case
    using ok step by (intro run_ok_snoc [OF ok]) (auto simp: run_ok_def intro: mirrored_mono)
next
  case (run_defer es db level resume ca ta te fc r db')
  note ok = run_defer.IH [OF run_defer.prems]
  have "finite (dom (cd_shadow db))" using ok by (simp add: run_ok_def)
  note step = established_lifts [OF run_defer.hyps(3) run_defer.prems(1) run_defer.hyps(2) this]
  show ?case using ok step run_defer.hyps(4) by (intro run_ok_moves [OF ok]) (auto split: if_splits)
next
  case (run_recovered es db)
  note ok = run_recovered.IH [OF run_recovered.prems]
  then have "finite (dom (cd_shadow db))" by (simp add: run_ok_def)
  then show ?case by (intro run_ok_moves [OF ok]) (simp_all add: mark_recovery_complete_def mirror_ge_def)
next
  case (run_restart es db m)
  note ok = run_restart.IH [OF run_restart.prems]
  have "\<forall>y\<in>set es. follows y Restarted"
  proof
    fix y show "follows y Restarted" by (cases y) auto
  qed
  then show ?case
    using ok run_restart.hyps(2) by (intro run_ok_snoc [OF ok]) (auto simp: with_counters_established_def)
next
  case (run_store es db w)
  note ok = run_store.IH [OF run_store.prems]
  then have "finite (dom (cd_shadow db))" by (simp add: run_ok_def)
  then show ?case using run_store.hyps(2) by (intro run_ok_moves [OF ok]) (simp_all add: mirror_ge_def)
qed

section \<open>The life of an agent over several boxes\<close>

text \<open>An agent's counters live in the store of its box and, once published, on the relays. \<open>Moved\<close> is the loss of the box, or
  the agent's move to another: the store is then any store, empty, or left behind by an earlier life. \<open>Reopened\<close> is a new process
  over the same store, with the rows it read of it, whole or not.\<close>

datatype 'i life_event = Drawn 'i nat nat | Published | Reopened bool | Moved

definition counter_at :: "'i counters \<Rightarrow> 'i \<Rightarrow> nat" where
  "counter_at m i = (case m i of Some c \<Rightarrow> unat c | None \<Rightarrow> 0)"

text \<open>What an establishment is told is true: an authoritative and complete read of the relays returns what was published last; a
  box that resumes from its own rows after the agent was elsewhere has read that too; and rows that were not read whole are
  reported.\<close>

definition told_truth :: "('i \<Rightarrow> nat) \<Rightarrow> bool \<Rightarrow> bool \<Rightarrow> 'i counters \<Rightarrow> bool \<Rightarrow> bool \<Rightarrow> bool \<Rightarrow> bool" where
  "told_truth pub moved partial level resume ca fc \<longleftrightarrow>
     (ca \<and> fc \<longrightarrow> (\<forall>i. pub i \<le> counter_at level i)) \<and> (resume \<and> moved \<and> fc \<longrightarrow> (\<forall>i. pub i \<le> counter_at level i))
     \<and> (resume \<and> partial \<longrightarrow> \<not> fc)"

text \<open>The state is the decorated store of the current box, the counters published last, and whether the agent was moved or the rows
  were read in part since the counter was last established.\<close>

inductive agent_life ::
  "('i, 'w) wallet_store \<Rightarrow> ('w \<Rightarrow> 'i \<Rightarrow> nat) \<Rightarrow> 'i life_event list \<Rightarrow> ('i, 'w) counter_db \<Rightarrow> ('i \<Rightarrow> nat) \<Rightarrow> bool \<Rightarrow> bool \<Rightarrow> bool"
  for ws cnt where
  life_start: "finite (dom m) \<Longrightarrow> agent_life ws cnt [] (with_counters_established w m False) (\<lambda>i. 0) False False"
| life_derive: "agent_life ws cnt es db pub moved partial \<Longrightarrow> increment_keyset_counter ws i c db = (Inr n, db') \<Longrightarrow>
    agent_life ws cnt (es @ [Drawn i (unat n - unat c) (unat n)]) db' pub moved partial"
| life_refused: "agent_life ws cnt es db pub moved partial \<Longrightarrow> increment_keyset_counter ws i c db = (Inl e, db') \<Longrightarrow>
    agent_life ws cnt es db' pub moved partial"
| life_establish: "agent_life ws cnt es db pub moved partial \<Longrightarrow> \<not> is_established db \<Longrightarrow> finite (dom level) \<Longrightarrow>
    told_truth pub moved partial level resume ca fc \<Longrightarrow> establish_if_sound ws level resume ca ta te fc db = (r, db') \<Longrightarrow>
    agent_life ws cnt es db' pub (r \<noteq> Inr True \<and> moved) (r \<noteq> Inr True \<and> partial)"
| life_recovered: "agent_life ws cnt es db pub moved partial \<Longrightarrow> is_established db \<Longrightarrow>
    agent_life ws cnt es (mark_recovery_complete db) pub moved partial"
| life_publish: "agent_life ws cnt es db pub moved partial \<Longrightarrow> is_recovery_complete db \<Longrightarrow>
    agent_life ws cnt (es @ [Published]) db (counter_at (keyset_counters db)) moved partial"
| life_reopen: "agent_life ws cnt es db pub moved partial \<Longrightarrow> finite (dom m) \<Longrightarrow>
    (whole \<longrightarrow> (\<forall>i. cnt (cd_inner db) i \<le> counter_at m i)) \<Longrightarrow>
    agent_life ws cnt (es @ [Reopened whole]) (with_counters_established (cd_inner db) m False) pub moved (\<not> whole)"
| life_move: "agent_life ws cnt es db pub moved partial \<Longrightarrow> finite (dom m) \<Longrightarrow>
    agent_life ws cnt (es @ [Moved]) (with_counters_established w m False) pub True partial"
| life_store: "agent_life ws cnt es db pub moved partial \<Longrightarrow> (\<forall>i. cnt (cd_inner db) i \<le> cnt w i) \<Longrightarrow>
    agent_life ws cnt es (db\<lparr>cd_inner := w\<rparr>) pub moved partial"

text \<open>A range is still in the mirror, is on the relays, or is in the store of the box, after the events \<open>zs\<close> that followed it.\<close>

definition in_mirror :: "'i life_event list \<Rightarrow> bool" where
  "in_mirror zs \<longleftrightarrow> Moved \<notin> set zs \<and> Reopened False \<notin> set zs"

definition on_relays :: "'i life_event list \<Rightarrow> bool" where
  "on_relays zs \<longleftrightarrow> (\<exists>us vs. zs = us @ Published # vs \<and> in_mirror us)"

definition range_kept :: "'i life_event list \<Rightarrow> bool" where
  "range_kept zs \<longleftrightarrow> Moved \<notin> set zs \<or> on_relays zs"

lemma in_mirror_simps [simp]: "in_mirror []" "in_mirror (zs @ [x]) \<longleftrightarrow> in_mirror zs \<and> x \<noteq> Moved \<and> x \<noteq> Reopened False"
  by (auto simp: in_mirror_def)

lemma on_relays_simps [simp]: "\<not> on_relays []" "on_relays (zs @ [x]) \<longleftrightarrow> on_relays zs \<or> x = Published \<and> in_mirror zs"
proof -
  show "\<not> on_relays []" by (simp add: on_relays_def)
  show "on_relays (zs @ [x]) \<longleftrightarrow> on_relays zs \<or> x = Published \<and> in_mirror zs" (is "?l \<longleftrightarrow> ?r")
  proof
    assume ?l
    then obtain us vs where s: "zs @ [x] = us @ Published # vs" "in_mirror us" by (auto simp: on_relays_def)
    then show ?r by (cases vs rule: rev_cases) (auto simp: on_relays_def)
  next
    assume ?r
    then show ?l
    proof
      assume "on_relays zs"
      then obtain us vs where "zs = us @ Published # vs" "in_mirror us" by (auto simp: on_relays_def)
      then have "zs @ [x] = us @ Published # (vs @ [x]) \<and> in_mirror us" by simp
      then show ?l unfolding on_relays_def by blast
    qed (auto simp: on_relays_def)
  qed
qed

lemma counter_at_mono: "(\<forall>n. mirror_ge db i n \<longrightarrow> mirror_ge db' i n) \<Longrightarrow> counter_at (cd_shadow db) i \<le> counter_at (cd_shadow db') i"
  by (auto simp: counter_at_def mirror_ge_def split: option.splits)

lemma mirror_seen: "mirror_ge db i n \<Longrightarrow> n \<le> counter_at (cd_shadow db) i"
  by (auto simp: mirror_ge_def counter_at_def)

text \<open>Where a range is after its suffix: in the store, in the mirror, on the relays.\<close>

definition ranges_held :: "('i \<Rightarrow> nat) \<Rightarrow> ('i \<Rightarrow> nat) \<Rightarrow> ('i \<Rightarrow> nat) \<Rightarrow> 'i life_event list \<Rightarrow> bool" where
  "ranges_held store mirror pub es \<longleftrightarrow> (\<forall>us i s e zs. es = us @ Drawn i s e # zs \<longrightarrow>
     s \<le> e \<and> (Moved \<notin> set zs \<longrightarrow> e \<le> store i) \<and> (in_mirror zs \<longrightarrow> e \<le> mirror i) \<and> (on_relays zs \<longrightarrow> e \<le> pub i))"

definition ranges_apart :: "'i life_event list \<Rightarrow> bool" where
  "ranges_apart es \<longleftrightarrow> (\<forall>us i s e zs s' e' vs. es = us @ Drawn i s e # zs @ Drawn i s' e' # vs \<longrightarrow> range_kept zs \<longrightarrow> e \<le> s' \<and> s' \<le> e')"

lemma ranges_held_moves:
  assumes "ranges_held store mirror pub es" and "\<And>i. store i \<le> store' i" and "\<And>i. mirror i \<le> mirror' i"
  shows "ranges_held store' mirror' pub es"
  unfolding ranges_held_def
proof (intro allI impI)
  fix us i s e zs assume "es = us @ Drawn i s e # zs"
  then have "s \<le> e \<and> (Moved \<notin> set zs \<longrightarrow> e \<le> store i) \<and> (in_mirror zs \<longrightarrow> e \<le> mirror i) \<and> (on_relays zs \<longrightarrow> e \<le> pub i)"
    using assms(1) unfolding ranges_held_def by blast
  then show "s \<le> e \<and> (Moved \<notin> set zs \<longrightarrow> e \<le> store' i) \<and> (in_mirror zs \<longrightarrow> e \<le> mirror' i) \<and> (on_relays zs \<longrightarrow> e \<le> pub i)"
    using order_trans [OF _ assms(2) [of i]] order_trans [OF _ assms(3) [of i]] by blast
qed

lemma snoc_split: "es @ [x] = us @ y # zs \<longleftrightarrow> (zs = [] \<and> us = es \<and> x = y) \<or> (\<exists>zs'. zs = zs' @ [x] \<and> es = us @ y # zs')"
  by (cases zs rule: rev_cases) auto

lemma ranges_held_snoc:
  assumes "ranges_held store mirror pub es" and "\<And>i. x \<noteq> Moved \<Longrightarrow> store i \<le> store' i"
    and "\<And>i. x \<noteq> Moved \<Longrightarrow> x \<noteq> Reopened False \<Longrightarrow> mirror i \<le> mirror' i" and "\<And>i. pub i \<le> pub' i"
    and "\<And>i. x = Published \<Longrightarrow> mirror i \<le> pub' i"
    and "\<And>i s e. x = Drawn i s e \<Longrightarrow> s \<le> e \<and> e \<le> store' i \<and> e \<le> mirror' i"
  shows "ranges_held store' mirror' pub' (es @ [x])"
  unfolding ranges_held_def
proof (intro allI impI)
  fix us i s e zs assume "es @ [x] = us @ Drawn i s e # zs"
  then consider "zs = []" "x = Drawn i s e" | zs' where "zs = zs' @ [x]" "es = us @ Drawn i s e # zs'"
    unfolding snoc_split by blast
  then show "s \<le> e \<and> (Moved \<notin> set zs \<longrightarrow> e \<le> store' i) \<and> (in_mirror zs \<longrightarrow> e \<le> mirror' i) \<and> (on_relays zs \<longrightarrow> e \<le> pub' i)"
  proof cases
    case 1
    then show ?thesis using assms(6) by simp
  next
    case 2
    then have old: "s \<le> e" "Moved \<notin> set zs' \<Longrightarrow> e \<le> store i" "in_mirror zs' \<Longrightarrow> e \<le> mirror i" "on_relays zs' \<Longrightarrow> e \<le> pub i"
      using assms(1) unfolding ranges_held_def by blast+
    have "e \<le> store' i" if "Moved \<notin> set zs"
      using that 2 old(2) assms(2) [of i] by (auto intro: order_trans)
    moreover have "e \<le> mirror' i" if "in_mirror zs"
      using that 2 old(3) assms(3) [of i] by (auto intro: order_trans)
    moreover have "e \<le> pub' i" if "on_relays zs"
    proof -
      from that 2 consider "on_relays zs'" | "x = Published" "in_mirror zs'" by auto
      then show ?thesis using old(3,4) assms(4,5) [of i] by cases (auto intro: order_trans)
    qed
    ultimately show ?thesis using old(1) by blast
  qed
qed

lemma ranges_apart_snoc:
  assumes "ranges_apart es" and "\<And>us i s e zs s' e'. x = Drawn i s' e' \<Longrightarrow> es = us @ Drawn i s e # zs \<Longrightarrow> range_kept zs \<Longrightarrow> e \<le> s' \<and> s' \<le> e'"
  shows "ranges_apart (es @ [x])"
  unfolding ranges_apart_def
proof (intro allI impI)
  fix us i s e zs s' e' vs
  assume "es @ [x] = us @ Drawn i s e # zs @ Drawn i s' e' # vs" and k: "range_kept zs"
  then have "es @ [x] = (us @ Drawn i s e # zs) @ Drawn i s' e' # vs" by simp
  then consider "x = Drawn i s' e'" "es = us @ Drawn i s e # zs" | vs' where "es = us @ Drawn i s e # zs @ Drawn i s' e' # vs'"
    unfolding snoc_split by auto
  then show "e \<le> s' \<and> s' \<le> e'"
  proof cases
    case 1
    from assms(2) [OF this k] show ?thesis .
  next
    case 2
    with assms(1) k show ?thesis unfolding ranges_apart_def by blast
  qed
qed

definition life_ok :: "('w \<Rightarrow> 'i \<Rightarrow> nat) \<Rightarrow> 'i life_event list \<Rightarrow> ('i, 'w) counter_db \<Rightarrow> ('i \<Rightarrow> nat) \<Rightarrow> bool \<Rightarrow> bool \<Rightarrow> bool" where
  "life_ok cnt es db pub moved partial \<longleftrightarrow> finite (dom (cd_shadow db))
     \<and> (cd_recovery_complete db \<longrightarrow> cd_counter_established db)
     \<and> (cd_counter_established db \<longrightarrow> \<not> moved \<and> \<not> partial \<and> (\<forall>i. counter_at (cd_shadow db) i \<le> cnt (cd_inner db) i))
     \<and> (\<not> moved \<longrightarrow> (\<forall>i. pub i \<le> cnt (cd_inner db) i))
     \<and> (\<not> moved \<longrightarrow> \<not> partial \<longrightarrow> (\<forall>i. pub i \<le> counter_at (cd_shadow db) i))
     \<and> ranges_held (cnt (cd_inner db)) (counter_at (cd_shadow db)) pub es \<and> ranges_apart es"

lemma life_okD:
  assumes "life_ok cnt es db pub moved partial"
  shows "finite (dom (cd_shadow db))" and "cd_recovery_complete db \<Longrightarrow> cd_counter_established db"
    and "cd_counter_established db \<Longrightarrow> \<not> moved" and "cd_counter_established db \<Longrightarrow> \<not> partial"
    and "cd_counter_established db \<Longrightarrow> counter_at (cd_shadow db) i \<le> cnt (cd_inner db) i"
    and "\<not> moved \<Longrightarrow> pub i \<le> cnt (cd_inner db) i" and "\<not> moved \<Longrightarrow> \<not> partial \<Longrightarrow> pub i \<le> counter_at (cd_shadow db) i"
    and "ranges_held (cnt (cd_inner db)) (counter_at (cd_shadow db)) pub es" and "ranges_apart es"
  using assms by (simp_all add: life_ok_def)

lemma life_okI:
  assumes "finite (dom (cd_shadow db))" and "cd_recovery_complete db \<Longrightarrow> cd_counter_established db"
    and "cd_counter_established db \<Longrightarrow> \<not> moved" and "cd_counter_established db \<Longrightarrow> \<not> partial"
    and "\<And>i. cd_counter_established db \<Longrightarrow> counter_at (cd_shadow db) i \<le> cnt (cd_inner db) i"
    and "\<And>i. \<not> moved \<Longrightarrow> pub i \<le> cnt (cd_inner db) i" and "\<And>i. \<not> moved \<Longrightarrow> \<not> partial \<Longrightarrow> pub i \<le> counter_at (cd_shadow db) i"
    and "ranges_held (cnt (cd_inner db)) (counter_at (cd_shadow db)) pub es" and "ranges_apart es"
  shows "life_ok cnt es db pub moved partial"
  using assms by (simp add: life_ok_def)

lemma observe_recovery [simp]: "cd_recovery_complete (observe_counter i c db) = cd_recovery_complete db"
  by (simp add: observe_counter_def)

lemma fold_observe_recovery [simp]: "cd_recovery_complete (fold (\<lambda>(i, c). observe_counter i c) xs db) = cd_recovery_complete db"
proof (induction xs arbitrary: db)
  case (Cons a xs)
  then show ?case by (cases a) simp
qed simp

lemma establish_recovery:
  "establish_if_sound ws level resume ca ta te fc db = (res, db') \<Longrightarrow> cd_recovery_complete db' = cd_recovery_complete db"
  by (auto simp: establish_if_sound_def fast_forward_inner_to_floor_def seed_floor_def establish_def split: if_splits sum.splits prod.splits)

lemma fast_forwarded_mirror:
  assumes "establish_if_sound ws level resume ca ta te fc db = (Inr True, db')" and "counting ws cnt"
    and "finite (dom (cd_shadow db))"
  shows "counter_at (cd_shadow db') i \<le> cnt (cd_inner db') i"
proof -
  let ?db1 = "seed_floor ws level db"
  obtain q w' where ff: "fast_forward_all ws (wl_iter ws (cd_shadow ?db1)) (cd_inner ?db1) = (q, w')"
    by (cases "fast_forward_all ws (wl_iter ws (cd_shadow ?db1)) (cd_inner ?db1)")
  have q: "q = Inr ()" and db': "db' = establish (?db1\<lparr>cd_inner := w'\<rparr>)"
    using assms(1) by (auto simp: establish_if_sound_def fast_forward_inner_to_floor_def ff split: if_splits sum.splits)
  have fin: "finite (dom (cd_shadow ?db1))" unfolding seed_floor_def by (rule dom_fold [OF assms(3)])
  show ?thesis
  proof (cases "cd_shadow ?db1 i")
    case (Some c)
    have "map_of (wl_iter ws (cd_shadow ?db1)) i = Some c" using assms(2) fin Some by (simp add: counting_def)
    then have "(i, c) \<in> set (wl_iter ws (cd_shadow ?db1))" by (rule map_of_SomeD)
    then have "unat c \<le> cnt w' i" using fast_forward_lifts [OF ff assms(2)] q by blast
    then show ?thesis using Some by (simp add: db' establish_def counter_at_def)
  qed (simp add: db' establish_def counter_at_def)
qed

lemma level_seen: "(\<forall>i c. level i = Some c \<longrightarrow> unat c \<le> f i) \<Longrightarrow> counter_at level i \<le> f i"
  by (simp add: counter_at_def split: option.split)

lemma derive_ok:
  assumes ok: "life_ok cnt es db pub moved partial" and inc: "increment_keyset_counter ws i c db = (Inr n, db')"
    and cg: "counting ws cnt"
  shows "life_ok cnt (es @ [Drawn i (unat n - unat c) (unat n)]) db' pub moved partial"
proof -
  note step = derive_steps [OF inc cg]
  note ok' = life_okD [OF ok]
  have up: "counter_at (cd_shadow db) j \<le> counter_at (cd_shadow db') j" for j by (rule counter_at_mono) (rule spec [OF step(2)])
  have est: "cd_counter_established db" and n: "unat n = cnt (cd_inner db) i + unat c" "cnt (cd_inner db') i = unat n"
    and mg: "mirror_ge db' i (unat n)" by (rule step(5) [OF refl, THEN conjunct1] step(5) [OF refl, THEN conjunct2, THEN conjunct1]
      step(5) [OF refl, THEN conjunct2, THEN conjunct2, THEN conjunct1]
      step(5) [OF refl, THEN conjunct2, THEN conjunct2, THEN conjunct2])+
  have m: "unat n \<le> counter_at (cd_shadow db') i" by (rule mirror_seen [OF mg])
  have st: "cnt (cd_inner db) j \<le> cnt (cd_inner db') j" for j by (rule spec [OF step(1)])
  obtain w where w: "db' = observe_counter i n (db\<lparr>cd_inner := w\<rparr>)"
    using inc by (auto simp: increment_keyset_counter_def split: if_splits prod.splits sum.splits)
  have below: "counter_at (cd_shadow db') j \<le> cnt (cd_inner db') j" for j
  proof (cases "j = i")
    case True
    have "counter_at (cd_shadow db) i \<le> unat n" using ok'(5) [OF est, of i] n by simp
    then have "counter_at (cd_shadow db') i = unat n"
      by (auto simp: w observe_shadow counter_at_def max_def word_le_nat_alt split: option.splits)
    then show ?thesis using n True by simp
  next
    case False
    then have "counter_at (cd_shadow db') j = counter_at (cd_shadow db) j" by (simp add: w observe_shadow counter_at_def)
    then show ?thesis using le_trans [OF ok'(5) [OF est, of j] st [of j]] by simp
  qed
  show ?thesis
  proof (rule life_okI)
    show "finite (dom (cd_shadow db'))" by (rule step(3) [OF ok'(1)])
    show "cd_counter_established db'" using est step(4) by simp
    show "\<not> moved" "\<not> partial" by (fact ok'(3,4) [OF est])+
    show "counter_at (cd_shadow db') j \<le> cnt (cd_inner db') j" for j by (fact below)
    show "pub j \<le> cnt (cd_inner db') j" for j by (rule le_trans [OF ok'(6) [OF ok'(3) [OF est]] st])
    show "pub j \<le> counter_at (cd_shadow db') j" for j by (rule le_trans [OF ok'(7) [OF ok'(3) [OF est] ok'(4) [OF est]] up])
    show "ranges_held (cnt (cd_inner db')) (counter_at (cd_shadow db')) pub (es @ [Drawn i (unat n - unat c) (unat n)])"
      by (rule ranges_held_snoc [OF ok'(8)]) (use st up n m in auto)
    show "ranges_apart (es @ [Drawn i (unat n - unat c) (unat n)])"
    proof (rule ranges_apart_snoc [OF ok'(9)])
      fix us j s e zs s' e'
      assume x: "Drawn i (unat n - unat c) (unat n) = Drawn j s' e'" and es: "es = us @ Drawn j s e # zs" and k: "range_kept zs"
      have r: "Moved \<notin> set zs \<Longrightarrow> e \<le> cnt (cd_inner db) j" "on_relays zs \<Longrightarrow> e \<le> pub j"
        using ok'(8) es unfolding ranges_held_def by blast+
      have "pub j \<le> cnt (cd_inner db) j" by (rule ok'(6) [OF ok'(3) [OF est]])
      then have "e \<le> cnt (cd_inner db) j" using k r unfolding range_kept_def by (auto intro: le_trans)
      then show "e \<le> s' \<and> s' \<le> e'" using x n by auto
    qed
  qed
qed

text \<open>A step without an event: the counters and the mirror only rise.\<close>

lemma quiet_ok:
  assumes ok: "life_ok cnt es db pub moved partial" and st: "\<And>j. cnt (cd_inner db) j \<le> cnt (cd_inner db') j"
    and up: "\<And>j. counter_at (cd_shadow db) j \<le> counter_at (cd_shadow db') j" and fin: "finite (dom (cd_shadow db'))"
    and rec: "cd_recovery_complete db' \<Longrightarrow> cd_counter_established db'"
    and est: "cd_counter_established db' \<Longrightarrow> \<not> moved'" "cd_counter_established db' \<Longrightarrow> \<not> partial'"
      "\<And>i. cd_counter_established db' \<Longrightarrow> counter_at (cd_shadow db') i \<le> cnt (cd_inner db') i"
    and pub: "\<And>i. \<not> moved' \<Longrightarrow> moved \<Longrightarrow> pub i \<le> cnt (cd_inner db') i"
      "\<And>i. \<not> moved' \<Longrightarrow> \<not> partial' \<Longrightarrow> moved \<or> partial \<Longrightarrow> pub i \<le> counter_at (cd_shadow db') i"
  shows "life_ok cnt es db' pub moved' partial'"
proof (rule life_okI)
  note ok' = life_okD [OF ok]
  show "pub i \<le> cnt (cd_inner db') i" if "\<not> moved'" for i
    by (cases moved) (use pub(1) [OF that] le_trans [OF ok'(6) st] in auto)
  show "pub i \<le> counter_at (cd_shadow db') i" if "\<not> moved'" "\<not> partial'" for i
    by (cases "moved \<or> partial") (use pub(2) [OF that] le_trans [OF ok'(7) up] in auto)
  show "ranges_held (cnt (cd_inner db')) (counter_at (cd_shadow db')) pub es" by (rule ranges_held_moves [OF ok'(8) st up])
  show "ranges_apart es" by (rule ok'(9))
qed (fact fin rec est)+

lemma establish_ok:
  assumes ok: "life_ok cnt es db pub moved partial" and new: "\<not> is_established db" and fin: "finite (dom level)"
    and told: "told_truth pub moved partial level resume ca fc"
    and e: "establish_if_sound ws level resume ca ta te fc db = (r, db')" and cg: "counting ws cnt"
  shows "life_ok cnt es db' pub (r \<noteq> Inr True \<and> moved) (r \<noteq> Inr True \<and> partial)"
proof -
  note ok' = life_okD [OF ok]
  note lifts = established_lifts [OF e cg fin ok'(1)]
  have "cd_recovery_complete db' = cd_recovery_complete db" by (rule establish_recovery [OF e])
  then have rec: "\<not> cd_recovery_complete db'" using ok'(2) new by (auto simp: is_established_def)
  have up: "counter_at (cd_shadow db) j \<le> counter_at (cd_shadow db') j" for j by (rule counter_at_mono) (simp add: lifts)
  have st: "cnt (cd_inner db) j \<le> cnt (cd_inner db') j" for j by (simp add: lifts)
  have fin': "finite (dom (cd_shadow db'))" by (simp add: lifts)
  show ?thesis
  proof (cases "r = Inr True")
    case False
    then have "\<not> cd_counter_established db'" using lifts new by (simp add: is_established_def)
    with False show ?thesis by (intro quiet_ok [OF ok st up fin']) (use rec in auto)
  next
    case True
    then have dec: "should_establish_counter resume ca (wl_iter ws level = []) ta te fc"
      and above: "\<forall>i c. level i = Some c \<longrightarrow> unat c \<le> cnt (cd_inner db') i \<and> mirror_ge db' i (unat c)"
      using lifts by simp_all
    have below: "counter_at (cd_shadow db') i \<le> cnt (cd_inner db') i" for i
      by (rule fast_forwarded_mirror [OF e [unfolded True] cg ok'(1)])
    have level: "counter_at level i \<le> counter_at (cd_shadow db') i" for i
      by (rule level_seen) (use above in \<open>auto intro: mirror_seen\<close>)
    have pm: "pub i \<le> counter_at (cd_shadow db') i" if "moved \<or> partial" for i
    proof -
      from dec have fc: fc and "resume \<or> ca" by (auto simp: should_establish_counter_def split: if_splits)
      then have "pub i \<le> counter_at level i" using told that unfolding told_truth_def by blast
      then show ?thesis using level [of i] by simp
    qed
    have pc: "pub i \<le> cnt (cd_inner db') i" if moved for i using le_trans [OF pm below] that by blast
    show ?thesis by (rule quiet_ok [OF ok st up fin']) (use True rec below pm pc in auto)
  qed
qed

lemma ranges_held_store: "ranges_held store mirror pub es \<Longrightarrow> ranges_held store store pub es"
  unfolding ranges_held_def in_mirror_def by blast

lemma agent_life_ok:
  "agent_life ws cnt es db pub moved partial \<Longrightarrow> counting ws cnt \<Longrightarrow> life_ok cnt es db pub moved partial"
proof (induction rule: agent_life.induct)
  case (life_start m w)
  then show ?case
    by (intro life_okI) (simp_all add: with_counters_established_def ranges_held_def ranges_apart_def)
next
  case (life_derive es db pub moved partial i c n db')
  show ?case by (rule derive_ok [OF life_derive.IH [OF life_derive.prems] life_derive.hyps(2) life_derive.prems])
next
  case (life_refused es db pub moved partial i c e db')
  note ok = life_refused.IH [OF life_refused.prems]
  note ok' = life_okD [OF ok]
  note step = derive_steps [OF life_refused.hyps(2) life_refused.prems]
  have st: "cnt (cd_inner db) j \<le> cnt (cd_inner db') j" for j by (rule spec [OF step(1)])
  have same: "cd_shadow db' = cd_shadow db" "cd_recovery_complete db' = cd_recovery_complete db"
    using life_refused.hyps(2) by (auto simp: increment_keyset_counter_def split: if_splits prod.splits sum.splits)
  show ?case
    by (rule quiet_ok [OF ok st]) (use ok' step(4) same le_trans [OF ok'(5) st] in auto)
next
  case (life_establish es db pub moved partial level resume ca fc ta te r db')
  show ?case
    by (rule establish_ok [OF life_establish.IH [OF life_establish.prems] life_establish.hyps(2-5) life_establish.prems])
next
  case (life_recovered es db pub moved partial)
  note ok = life_recovered.IH [OF life_recovered.prems]
  note ok' = life_okD [OF ok]
  show ?case
    by (rule quiet_ok [OF ok]) (use ok' life_recovered.hyps(2) in \<open>auto simp: mark_recovery_complete_def is_established_def\<close>)
next
  case (life_publish es db pub moved partial)
  note ok' = life_okD [OF life_publish.IH [OF life_publish.prems]]
  have est: "cd_counter_established db" using ok'(2) life_publish.hyps(2) by (simp add: is_recovery_complete_def)
  note here = ok'(3) [OF est] ok'(4) [OF est]
  show ?case
  proof (rule life_okI)
    show "ranges_held (cnt (cd_inner db)) (counter_at (cd_shadow db)) (counter_at (keyset_counters db)) (es @ [Published])"
      by (rule ranges_held_snoc [OF ok'(8)]) (use ok'(7) [OF here] in \<open>auto simp: keyset_counters_def\<close>)
    show "ranges_apart (es @ [Published])" by (rule ranges_apart_snoc [OF ok'(9)]) simp
  qed (use ok' est here in \<open>auto simp: keyset_counters_def\<close>)
next
  case (life_reopen es db pub moved partial m whole)
  note ok' = life_okD [OF life_reopen.IH [OF life_reopen.prems]]
  let ?db = "with_counters_established (cd_inner db) m False"
  have db: "cd_inner ?db = cd_inner db" "cd_shadow ?db = m" "\<not> cd_counter_established ?db" "\<not> cd_recovery_complete ?db"
    by (simp_all add: with_counters_established_def)
  show ?case
  proof (rule life_okI)
    show "pub i \<le> counter_at (cd_shadow ?db) i" if "\<not> moved" "\<not> \<not> whole" for i
      using le_trans [OF ok'(6) [OF that(1), of i], of "counter_at m i"] life_reopen.hyps(3) that(2) by (simp add: db)
    show "ranges_apart (es @ [Reopened whole])" by (rule ranges_apart_snoc [OF ok'(9)]) simp
    show "ranges_held (cnt (cd_inner ?db)) (counter_at (cd_shadow ?db)) pub (es @ [Reopened whole])"
      by (rule ranges_held_snoc [OF ranges_held_store [OF ok'(8)]]) (use life_reopen.hyps(3) in \<open>auto simp: db\<close>)
  qed (use ok' life_reopen.hyps in \<open>auto simp: db\<close>)
next
  case (life_move es db pub moved partial m w)
  note ok' = life_okD [OF life_move.IH [OF life_move.prems]]
  show ?case
  proof (rule life_okI)
    show "ranges_held (cnt (cd_inner (with_counters_established w m False))) (counter_at (cd_shadow (with_counters_established w m False)))
        pub (es @ [Moved])" by (rule ranges_held_snoc [OF ok'(8)]) auto
    show "ranges_apart (es @ [Moved])" by (rule ranges_apart_snoc [OF ok'(9)]) simp
  qed (use life_move.hyps in \<open>auto simp: with_counters_established_def\<close>)
next
  case (life_store es db pub moved partial w)
  note ok = life_store.IH [OF life_store.prems]
  note ok' = life_okD [OF ok]
  show ?case
    by (rule quiet_ok [OF ok]) (use ok' life_store.hyps(2) le_trans [OF ok'(5)] in auto)
qed


text \<open>A fresh start derives nothing unseen. Every derivation comes after an establishment of the same process
  run, which was made because this box had derived before or because enough relays answered about the
  counters, and, when those knew none, because enough relays also answered that there is no backup at all;
  and the derivation starts at or above every counter that establishment was given.\<close>

theorem established_first:
  assumes "counting ws cnt" and "finite (dom m)" and "counter_run ws cnt (with_counters_established w m False) es db"
    and "es = xs @ Derived i s e # ys"
  shows "\<exists>us level resume ca ta te vs. xs = us @ Established level resume ca ta te # vs \<and> Restarted \<notin> set vs
    \<and> (resume \<or> ca \<and> (wl_iter ws level = [] \<longrightarrow> ta \<and> te)) \<and> (\<forall>c. level i = Some c \<longrightarrow> unat c \<le> s)"
proof -
  have ok: "run_ok ws cnt es db" by (rule counter_run_ok [OF assms(3,1,2)])
  have "armed xs" using ok assms(4) by (auto simp: run_ok_def)
  then obtain level resume ca ta te where "Established level resume ca ta te \<in> set (takeWhile (\<lambda>x. x \<noteq> Restarted) (rev xs))"
    by (auto simp: armed_def this_life_def)
  then obtain ps qs where ps: "takeWhile (\<lambda>x. x \<noteq> Restarted) (rev xs) = ps @ Established level resume ca ta te # qs"
    by (auto simp: in_set_conv_decomp)
  have "Restarted \<notin> set (takeWhile (\<lambda>x. x \<noteq> Restarted) (rev xs))" by (auto dest: set_takeWhileD)
  then have "Restarted \<notin> set ps" by (simp add: ps)
  moreover have "rev xs = ps @ Established level resume ca ta te # qs @ dropWhile (\<lambda>x. x \<noteq> Restarted) (rev xs)"
    by (metis append.assoc append_Cons ps takeWhile_dropWhile_id)
  then have "xs = rev (qs @ dropWhile (\<lambda>x. x \<noteq> Restarted) (rev xs)) @ Established level resume ca ta te # rev ps"
    by (metis append.assoc append_Cons append_Nil rev_append rev_rev_ident rev.simps(2))
  moreover from this have mem: "Established level resume ca ta te \<in> set xs" by (metis in_set_conv_decomp)
  have "should_establish_counter resume ca (wl_iter ws level = []) ta te True"
    using ok mem unfolding run_ok_def list_all_iff assms(4) by (metis UnI1 set_append sound_event.simps(1))
  then have "resume \<or> ca \<and> (wl_iter ws level = [] \<longrightarrow> ta \<and> te)" by (auto simp: should_establish_counter_def split: if_splits)
  moreover have "follows (Established level resume ca ta te) (Derived i s e)"
    using ok mem by (auto simp: run_ok_def assms(4) sorted_wrt_append)
  ultimately show ?thesis by (metis follows.simps(2) set_rev)
qed

text \<open>The mirror covers what was used. At every moment, the counters a backup would publish are at or above
  the end of every range derived in this process run and every counter an establishment was given, for each
  keyset, so a wallet restored from them never derives one of these indices again.\<close>

theorem mirror_covers:
  assumes "counting ws cnt" and "finite (dom m)" and "counter_run ws cnt (with_counters_established w m False) es db"
  shows "\<forall>x\<in>set (this_life es). (\<forall>i s e. x = Derived i s e \<longrightarrow> (\<exists>c. keyset_counters db i = Some c \<and> e \<le> unat c))
    \<and> (\<forall>level r ca ta te i f. x = Established level r ca ta te \<longrightarrow> level i = Some f \<longrightarrow>
         (\<exists>c. keyset_counters db i = Some c \<and> f \<le> c))"
proof
  fix x assume "x \<in> set (this_life es)"
  then have "mirrored db x" using counter_run_ok [OF assms(3,1,2)] by (simp add: run_ok_def)
  then show "(\<forall>i s e. x = Derived i s e \<longrightarrow> (\<exists>c. keyset_counters db i = Some c \<and> e \<le> unat c))
    \<and> (\<forall>level r ca ta te i f. x = Established level r ca ta te \<longrightarrow> level i = Some f \<longrightarrow>
         (\<exists>c. keyset_counters db i = Some c \<and> f \<le> c))"
    by (cases x) (auto simp: mirror_ge_def keyset_counters_def word_le_nat_alt)
qed

section \<open>A small store\<close>

text \<open>Two keysets; the counter refuses to wrap.\<close>

definition sample_wallet :: "(bool, bool \<Rightarrow> u32) wallet_store" where
  "sample_wallet = \<lparr>wl_increment = (\<lambda>i c w. case checked_add (w i) c of
       None \<Rightarrow> (Inl ''overflow'', w) | Some n \<Rightarrow> (Inr n, w(i := n))),
     wl_iter = (\<lambda>m. [(i, the (m i)). i \<leftarrow> [False, True], m i \<noteq> None])\<rparr>"

lemma sample_counting: "counting sample_wallet (\<lambda>w i. unat (w i))"
proof -
  have "map_of (wl_iter sample_wallet m) b = m b" for m :: "bool \<Rightarrow> u32 option" and b
    by (cases b) (auto simp: sample_wallet_def)
  then have "map_of (wl_iter sample_wallet m) = m" for m :: "bool \<Rightarrow> u32 option" by blast
  then show ?thesis
    by (auto simp: counting_def sample_wallet_def checked_add_unat split: option.splits)
qed

definition sample_counter_db :: "u32 \<Rightarrow> (bool, bool \<Rightarrow> u32) counter_db" where
  "sample_counter_db n = \<lparr>cd_inner = (\<lambda>i. if i then n else 0), cd_shadow = [True \<mapsto> n], cd_counter_established = True,
     cd_recovery_complete = False\<rparr>"

definition sample_events :: "bool counter_event list" where
  "sample_events = [Established [True \<mapsto> 5] False True False False, Derived True 5 8, Derived True 8 10]"

lemma sample_counter_run:
  "counter_run sample_wallet (\<lambda>w i. unat (w i)) (with_counters_established (\<lambda>i. 0) (\<lambda>i. None) False) sample_events (sample_counter_db 10)"
proof -
  have e: "establish_if_sound sample_wallet [True \<mapsto> 5] False True False False True
      (with_counters_established (\<lambda>i. 0) (\<lambda>i. None) False) = (Inr True, sample_counter_db 5)"
    by (simp add: establish_if_sound_def should_establish_counter_def sample_wallet_def fast_forward_inner_to_floor_def
      seed_floor_def observe_counter_def with_counters_established_def establish_def checked_add_def sample_counter_db_def fun_eq_iff)
  have d: "increment_keyset_counter sample_wallet True 3 (sample_counter_db 5) = (Inr 8, sample_counter_db 8)"
    "increment_keyset_counter sample_wallet True 2 (sample_counter_db 8) = (Inr 10, sample_counter_db 10)"
    by (simp_all add: increment_keyset_counter_def sample_wallet_def observe_counter_def sample_counter_db_def checked_add_def fun_eq_iff)
  from run_derive [OF run_derive [OF run_establish [OF run_start _ e] d(1)] d(2)] show ?thesis
    by (simp add: sample_events_def)
qed

text \<open>An agent that derives three indices above the 5 it was restored at, publishes, loses its box, and derives again on an empty
  one.\<close>

abbreviation "sample_life \<equiv> [Drawn True 5 8, Published, Moved, Drawn True 8 10] :: bool life_event list"

lemma sample_established:
  "establish_if_sound sample_wallet [True \<mapsto> 5] False True False False True (with_counters_established (\<lambda>i. 0) (\<lambda>i. None) False)
    = (Inr True, sample_counter_db 5)"
  "establish_if_sound sample_wallet [True \<mapsto> 8] False True False False True (with_counters_established (\<lambda>i. 0) (\<lambda>i. None) False)
    = (Inr True, sample_counter_db 8)"
  by (simp_all add: establish_if_sound_def should_establish_counter_def sample_wallet_def fast_forward_inner_to_floor_def
      seed_floor_def observe_counter_def with_counters_established_def establish_def checked_add_def sample_counter_db_def fun_eq_iff)

lemma sample_agent_life:
  "agent_life sample_wallet (\<lambda>w i. unat (w i)) sample_life (sample_counter_db 10) (counter_at [True \<mapsto> 8]) False False"
proof -
  let ?c = "\<lambda>w i. unat (w i :: u32)"
  let ?new = "with_counters_established (\<lambda>i. 0) (\<lambda>i. None) False :: (bool, bool \<Rightarrow> u32) counter_db"
  have d: "increment_keyset_counter sample_wallet True 3 (sample_counter_db 5) = (Inr 8, sample_counter_db 8)"
    "increment_keyset_counter sample_wallet True 2 (sample_counter_db 8) = (Inr 10, sample_counter_db 10)"
    by (simp_all add: increment_keyset_counter_def sample_wallet_def observe_counter_def sample_counter_db_def checked_add_def fun_eq_iff)
  have "agent_life sample_wallet ?c [] ?new (\<lambda>i. 0) False False" by (rule life_start) simp
  from life_establish [OF this, of "[True \<mapsto> 5]" False True True False False "Inr True" "sample_counter_db 5"]
  have "agent_life sample_wallet ?c [] (sample_counter_db 5) (\<lambda>i. 0) False False"
    using sample_established by (simp add: told_truth_def is_established_def with_counters_established_def)
  from life_recovered [OF life_derive [OF this d(1)]]
  have "agent_life sample_wallet ?c [Drawn True 5 8] (mark_recovery_complete (sample_counter_db 8)) (\<lambda>i. 0) False False"
    by (simp add: is_established_def sample_counter_db_def)
  from life_move [OF life_publish [OF this], of "\<lambda>i. None" "\<lambda>i. 0"]
  have "agent_life sample_wallet ?c [Drawn True 5 8, Published, Moved] ?new (counter_at [True \<mapsto> 8]) True False"
    by (simp add: is_recovery_complete_def mark_recovery_complete_def keyset_counters_def sample_counter_db_def)
  from life_establish [OF this, of "[True \<mapsto> 8]" False True True False False "Inr True" "sample_counter_db 8"]
  have "agent_life sample_wallet ?c [Drawn True 5 8, Published, Moved] (sample_counter_db 8) (counter_at [True \<mapsto> 8]) False False"
    using sample_established by (simp add: told_truth_def is_established_def with_counters_established_def)
  from life_derive [OF this d(2)] show ?thesis by simp
qed


theorem established_first_witness: "\<exists>level. Established level False True False False \<in> set sample_events
    \<and> level True = Some 5 \<and> unat (5 :: u32) \<le> 5"
proof -
  from established_first [OF sample_counting _ sample_counter_run, of "[Established [True \<mapsto> 5] False True False False]" True 5 8 "[Derived True 8 10]"]
  obtain us level resume ca ta te vs where r: "[Established [True \<mapsto> 5] False True False False] = us @ Established level resume ca ta te # vs"
    "\<forall>c. level True = Some c \<longrightarrow> unat c \<le> 5"
    by (auto simp: sample_events_def)
  then have "level = [True \<mapsto> 5]" by (cases us) auto
  then show ?thesis using r(2) by (auto simp: sample_events_def)
qed

theorem mirror_covers_witness: "Derived True 8 10 \<in> set (this_life sample_events)
    \<and> (\<exists>c. keyset_counters (sample_counter_db 10) True = Some c \<and> 10 \<le> unat c)"
proof -
  have "Derived True 8 10 \<in> set (this_life sample_events)" by (simp add: sample_events_def this_life_def)
  then show ?thesis using mirror_covers [OF sample_counting _ sample_counter_run] by auto
qed

text \<open>A box that derived here before and is given the agent back resumes from its own rows on a read of the relays
  that missed the head: with a store that stopped at 3 it hands out 3 again, whatever the agent derived
  elsewhere since.\<close>

theorem stale_store_resumes:
  "\<exists>db db'. open_persistent_wallet sample_wallet (\<lambda>t. Some True) (Inr (\<lambda>i. if i then 3 else 0, Inr [Inr (''00'', 3)]))
      (Inr ()) (\<lambda>i. None) False False False False = Inr db
    \<and> increment_keyset_counter sample_wallet True 1 db = (Inr 4, db')"
  by (simp add: open_persistent_wallet_def read_local_keyset_counters_def union_max_counters_def with_counters_established_def
    establish_if_sound_def should_establish_counter_def sample_wallet_def fast_forward_inner_to_floor_def seed_floor_def
    observe_counter_def establish_def checked_add_def increment_keyset_counter_def)

end
