(* ===== verification/Wallet_Backup_Props.thy ===== *)
theory Wallet_Backup_Props
  imports Wallet_Restore Wallet_Counter_Props
begin

text \<open>
  What the backup promises: a rollover never deletes what it did not replace, a proof of the last committed
  backup that was not spent since is found by every read of enough relays even if some acknowledge what they do not keep, and a read quorum finds the
  counters a write quorum holds.
\<close>

section \<open>The live set\<close>

lemma collect_proofs_set:
  "collect_proofs json ps seen proofs = (seen', proofs') \<Longrightarrow> (\<forall>p\<in>set ps. json p \<noteq> None) \<Longrightarrow> (\<forall>p\<in>set proofs. json p \<noteq> None) \<Longrightarrow>
     seen = (the \<circ> json) ` set proofs \<Longrightarrow>
     seen' = (the \<circ> json) ` set proofs' \<and> (the \<circ> json) ` set proofs' = (the \<circ> json) ` (set proofs \<union> set ps)
     \<and> set proofs' \<subseteq> set proofs \<union> set ps \<and> set proofs \<subseteq> set proofs'
     \<and> (distinct (map (the \<circ> json) proofs) \<longrightarrow> distinct (map (the \<circ> json) proofs'))"
proof (induction json ps seen proofs arbitrary: seen' proofs' rule: collect_proofs.induct)
  case (2 json p ps seen proofs)
  obtain k where k: "json p = Some k" using "2.prems"(2) by auto
  show ?case
  proof (cases "k \<in> seen")
    case True
    then have "(the \<circ> json) ` (set proofs \<union> set (p # ps)) = (the \<circ> json) ` (set proofs \<union> set ps)"
      using "2.prems"(4) k by (auto simp: image_Un)
    then show ?thesis using "2.IH"(1) [of k seen' proofs'] "2.prems" True k by (auto simp: Let_def)
  next
    case False
    then show ?thesis using "2.IH"(2) [of k seen' proofs'] "2.prems" k by (auto simp: Let_def image_Un)
  qed
qed simp

definition live_proofs :: "string list \<Rightarrow> string set \<Rightarrow> (string \<times> 'p token_event_content) list \<Rightarrow> 'p set" where
  "live_proofs allow live events = {p. \<exists>i c. (i, c) \<in> set events \<and> i \<in> live \<and> te_mint c \<in> set allow \<and> p \<in> set (te_proofs c)}"

lemma collect_events_set:
  "(\<forall>(i, c)\<in>set events. \<forall>p\<in>set (te_proofs c). json p \<noteq> None) \<Longrightarrow> (\<forall>p\<in>set proofs. json p \<noteq> None) \<Longrightarrow>
     seen = (the \<circ> json) ` set proofs \<Longrightarrow> distinct (map (the \<circ> json) proofs) \<Longrightarrow>
     (the \<circ> json) ` set (collect_events json allow live events seen proofs)
       = (the \<circ> json) ` (set proofs \<union> live_proofs allow live events)
     \<and> set (collect_events json allow live events seen proofs) \<subseteq> set proofs \<union> live_proofs allow live events
     \<and> distinct (map (the \<circ> json) (collect_events json allow live events seen proofs))"
proof (induction json allow live events seen proofs rule: collect_events.induct)
  case (2 json allow live i content events seen proofs)
  show ?case
  proof (cases "i \<notin> live \<or> te_mint content \<notin> set allow")
    case True
    then have "live_proofs allow live ((i, content) # events) = live_proofs allow live events" by (auto simp: live_proofs_def)
    then show ?thesis using "2.IH"(1) [OF True] "2.prems" True by simp
  next
    case False
    obtain seen' proofs' where c: "collect_proofs json (te_proofs content) seen proofs = (seen', proofs')"
      by (cases "collect_proofs json (te_proofs content) seen proofs")
    have ok: "\<forall>p\<in>set (te_proofs content). json p \<noteq> None" using "2.prems"(1) by simp
    note got = collect_proofs_set [OF c ok "2.prems"(2,3)]
    have lp: "live_proofs allow live ((i, content) # events) = set (te_proofs content) \<union> live_proofs allow live events"
      using False by (auto simp: live_proofs_def)
    have ok': "\<forall>p\<in>set proofs'. json p \<noteq> None" using got ok "2.prems"(2) by blast
    have rest: "\<forall>(i, c)\<in>set events. \<forall>p\<in>set (te_proofs c). json p \<noteq> None" using "2.prems"(1) by simp
    have seen': "seen' = (the \<circ> json) ` set proofs'" and d: "distinct (map (the \<circ> json) proofs')"
      using got "2.prems"(4) by simp_all
    have run: "collect_events json allow live ((i, content) # events) seen proofs = collect_events json allow live events seen' proofs'"
      using False by (simp add: c)
    note IH = "2.IH"(2) [OF False c [symmetric] rest ok' seen' d]
    have img: "(the \<circ> json) ` set proofs' = (the \<circ> json) ` set proofs \<union> (the \<circ> json) ` set (te_proofs content)"
      unfolding image_Un [symmetric] by (rule got [THEN conjunct2, THEN conjunct1])
    have eq: "(the \<circ> json) ` (set proofs' \<union> live_proofs allow live events)
        = (the \<circ> json) ` (set proofs \<union> live_proofs allow live ((i, content) # events))"
      by (simp only: lp image_Un img Un_assoc)
    have sub: "set proofs' \<union> live_proofs allow live events \<subseteq> set proofs \<union> live_proofs allow live ((i, content) # events)"
      unfolding lp using got by blast
    show ?thesis unfolding run
      by (rule conjI [OF trans [OF IH [THEN conjunct1] eq] conjI [OF subset_trans [OF IH [THEN conjunct2, THEN conjunct1] sub]
        IH [THEN conjunct2, THEN conjunct2]]])
  qed
qed (simp add: live_proofs_def)

lemma live_id: "(i, c) \<in> set events \<Longrightarrow> i \<in> set (live_token_event_ids events) \<longleftrightarrow> (\<forall>(j, d)\<in>set events. i \<notin> set (te_del d))"
  by (force simp: live_token_event_ids_def)

lemma candidates_char:
  assumes "\<forall>p q. json p = json q \<longrightarrow> p = q" and "\<forall>p. json p \<noteq> None"
  shows "p \<in> set (reconcile_token_set json events allow) \<longleftrightarrow>
      (\<exists>i c. (i, c) \<in> set events \<and> te_mint c \<in> set allow \<and> p \<in> set (te_proofs c) \<and> (\<forall>(j, d)\<in>set events. i \<notin> set (te_del d)))"
    and "distinct (reconcile_token_set json events allow)"
proof -
  let ?live = "set (live_token_event_ids events)"
  note got = collect_events_set [of events json "[]" "{}" allow ?live]
  have inj: "inj (the \<circ> json)" using assms by (intro injI) (metis comp_apply option.expand)
  have "(the \<circ> json) ` set (reconcile_token_set json events allow) = (the \<circ> json) ` live_proofs allow ?live events"
    and d: "distinct (map (the \<circ> json) (reconcile_token_set json events allow))"
    using got assms(2) by (auto simp: reconcile_token_set_def)
  then have "set (reconcile_token_set json events allow) = live_proofs allow ?live events"
    using inj_image_eq_iff [OF inj] by simp
  moreover have "p \<in> live_proofs allow ?live events \<longleftrightarrow> (\<exists>i c. (i, c) \<in> set events \<and> te_mint c \<in> set allow \<and> p \<in> set (te_proofs c)
      \<and> (\<forall>(j, d)\<in>set events. i \<notin> set (te_del d)))"
    unfolding live_proofs_def mem_Collect_eq using live_id [of _ _ events] by blast
  ultimately show "p \<in> set (reconcile_token_set json events allow) \<longleftrightarrow>
      (\<exists>i c. (i, c) \<in> set events \<and> te_mint c \<in> set allow \<and> p \<in> set (te_proofs c) \<and> (\<forall>(j, d)\<in>set events. i \<notin> set (te_del d)))"
    by simp
  show "distinct (reconcile_token_set json events allow)" using d by (simp add: distinct_map)
qed

text \<open>The live set aggregates. If serializing a proof is injective, the candidates of a reconcile are exactly
  the proofs of the events that no event supersedes and that are drawn on an allowlisted mint, each once.\<close>

theorem candidates_exact:
  assumes "\<forall>p q. json p = json q \<longrightarrow> p = q" and "\<forall>p. json p \<noteq> None"
  shows "(p \<in> set (reconcile_token_set json events allow) \<longleftrightarrow>
      (\<exists>i c. (i, c) \<in> set events \<and> te_mint c \<in> set allow \<and> p \<in> set (te_proofs c) \<and> (\<forall>(j, d)\<in>set events. i \<notin> set (te_del d))))
    \<and> distinct (reconcile_token_set json events allow)"
  using candidates_char [OF assms] by blast

section \<open>Rollover\<close>

text \<open>Publish, confirm, and only then delete. A rollover that fails left no trace of a deletion: whatever relays
  do with a deletion, it ends the same. One that succeeds passed both gates, got the new event acknowledged by
  a write quorum and read it back before the superseded ones were deleted.\<close>

theorem rollover_deletes_last:
  "case rollover cry tr st rc mint u proofs older r of
     (Inl e, r') \<Rightarrow> (\<forall>del. rollover cry (tr\<lparr>nt_send := (\<lambda>k. if k = KIND_NIP09_DELETE then del else nt_send tr k)\<rparr>)
        st rc mint u proofs older r = (Inl e, r'))
   | (Inr i, r') \<Rightarrow> ns_read_established st \<and> rc
       \<and> (\<exists>ct out r1 events r2. nx_encrypt cry \<lparr>te_mint = mint, te_unit = u, te_proofs = proofs, te_del = older\<rparr> = Inr ct
           \<and> nt_send tr KIND_NIP60_TOKEN ct [] r = (Inr out, r1) \<and> ns_k st \<le> so_acks out \<and> so_event_id out = i
           \<and> nt_fetch tr KIND_NIP60_TOKEN r1 = (Inr events, r2) \<and> i \<in> be_id ` set events
           \<and> r' = (if older = [] then r2 else snd (delete_events cry tr older r2)))"
proof -
  have kinds: "KIND_NIP60_TOKEN \<noteq> KIND_NIP09_DELETE" by (simp add: KIND_NIP60_TOKEN_def KIND_NIP09_DELETE_def)
  have pub: "publish_token cry (tr\<lparr>nt_send := (\<lambda>k. if k = KIND_NIP09_DELETE then del else nt_send tr k)\<rparr>) = publish_token cry tr" for del
    by (intro ext) (simp add: publish_token_def kinds split: sum.split)
  show ?thesis
    using kinds
    by (auto simp: rollover_def pub list_ex_iff split: sum.splits prod.splits if_splits)
       (auto simp: publish_token_def split: sum.splits prod.splits if_splits)
qed

section \<open>The relays of the backup\<close>

text \<open>
  The relays, for the token events of one author: an event has the identity of its content and is new; up to \<open>f\<close>
  relays acknowledge what they do not keep, the others keep what they acknowledge; a send that fails may have reached
  some; what a relay holds it keeps until a deletion names it; a read changes nothing, serves only what some relay
  holds, and per relay returns what the relays that answered hold.
  \<open>sent\<close> is every token event ever sent, in order, \<open>held\<close> what each of the \<open>n\<close> relays holds.
\<close>

definition token_relays ::
  "'r nip60_transport \<Rightarrow> nat \<Rightarrow> nat \<Rightarrow> ('r \<Rightarrow> backup_event list) \<Rightarrow> ('r \<Rightarrow> nat \<Rightarrow> backup_event set) \<Rightarrow> bool" where
  "token_relays tr n f sent held \<longleftrightarrow>
     (\<forall>ct tags r res r'. nt_send tr KIND_NIP60_TOKEN ct tags r = (res, r') \<longrightarrow>
        (\<exists>e. res = Inl e) \<and> sent r' = sent r \<and> held r' = held r
        \<or> (\<exists>ev. be_content ev = ct \<and> be_id ev \<notin> be_id ` set (sent r) \<and> sent r' = sent r @ [ev]
            \<and> (\<forall>j. held r j \<subseteq> held r' j \<and> held r' j \<subseteq> insert ev (held r j))
            \<and> (\<forall>out. res = Inr out \<longrightarrow> so_event_id out = be_id ev \<and> so_acks out \<le> card {j. j < n \<and> ev \<in> held r' j} + f)))
     \<and> (\<forall>ct tags r res r'. nt_send tr KIND_NIP09_DELETE ct tags r = (res, r') \<longrightarrow> sent r' = sent r
        \<and> (\<forall>j. held r' j \<subseteq> held r j \<and> held r j \<subseteq> held r' j \<union> {ev. be_id ev \<in> set tags}))
     \<and> (\<forall>ct tags r res r'. nt_send tr KIND_NIP60_WALLET_CONFIG ct tags r = (res, r') \<longrightarrow> sent r' = sent r \<and> held r' = held r)
     \<and> (\<forall>k r res r'. nt_fetch tr k r = (res, r') \<longrightarrow> sent r' = sent r \<and> held r' = held r
          \<and> (\<forall>events. k = KIND_NIP60_TOKEN \<longrightarrow> res = Inr events \<longrightarrow> set events \<subseteq> (\<Union>j\<in>{..<n}. held r j)))
     \<and> (\<forall>k r res r'. nt_fetch_per_relay tr k r = (res, r') \<longrightarrow> sent r' = sent r \<and> held r' = held r)
     \<and> (\<forall>r per r'. nt_fetch_per_relay tr KIND_NIP60_TOKEN r = (Inr per, r') \<longrightarrow>
        (\<exists>R. R \<subseteq> {..<n} \<and> pl_served per \<le> card R \<and> set (pl_events per) = (\<Union>j\<in>R. held r j)))"

lemma relays_send:
  assumes "token_relays tr n f sent held" and "nt_send tr KIND_NIP60_TOKEN ct tags r = (res, r')"
  shows "(\<exists>e. res = Inl e) \<and> sent r' = sent r \<and> held r' = held r
    \<or> (\<exists>ev. be_content ev = ct \<and> be_id ev \<notin> be_id ` set (sent r) \<and> sent r' = sent r @ [ev]
        \<and> (\<forall>j. held r j \<subseteq> held r' j \<and> held r' j \<subseteq> insert ev (held r j))
        \<and> (\<forall>out. res = Inr out \<longrightarrow> so_event_id out = be_id ev \<and> so_acks out \<le> card {j. j < n \<and> ev \<in> held r' j} + f))"
  using assms(2) by (rule assms(1) [unfolded token_relays_def, THEN conjunct1, rule_format])

lemma relays_delete:
  assumes "token_relays tr n f sent held" and "nt_send tr KIND_NIP09_DELETE ct tags r = (res, r')"
  shows "sent r' = sent r \<and> (\<forall>j. held r' j \<subseteq> held r j \<and> held r j \<subseteq> held r' j \<union> {ev. be_id ev \<in> set tags})"
  using assms(2) by (rule assms(1) [unfolded token_relays_def, THEN conjunct2, THEN conjunct1, rule_format])

lemma relays_fetch:
  assumes "token_relays tr n f sent held" and "nt_fetch tr k r = (got, r')"
  shows "sent r' = sent r \<and> held r' = held r
    \<and> (\<forall>events. k = KIND_NIP60_TOKEN \<longrightarrow> got = Inr events \<longrightarrow> set events \<subseteq> (\<Union>j\<in>{..<n}. held r j))"
  using assms(2) by (rule assms(1) [unfolded token_relays_def, THEN conjunct2, THEN conjunct2, THEN conjunct2, THEN conjunct1, rule_format])

lemma relays_quiet:
  assumes "token_relays tr n f sent held"
  shows "nt_send tr KIND_NIP60_WALLET_CONFIG ct tags r = (res, r') \<Longrightarrow> sent r' = sent r \<and> held r' = held r"
    and "nt_fetch tr k r = (got, r') \<Longrightarrow> sent r' = sent r \<and> held r' = held r"
    and "nt_fetch_per_relay tr k r = (per, r') \<Longrightarrow> sent r' = sent r \<and> held r' = held r"
proof -
  show "nt_send tr KIND_NIP60_WALLET_CONFIG ct tags r = (res, r') \<Longrightarrow> sent r' = sent r \<and> held r' = held r"
    by (erule assms [unfolded token_relays_def, THEN conjunct2, THEN conjunct2, THEN conjunct1, rule_format])
  show "nt_fetch tr k r = (got, r') \<Longrightarrow> sent r' = sent r \<and> held r' = held r" using relays_fetch [OF assms] by blast
  show "nt_fetch_per_relay tr k r = (per, r') \<Longrightarrow> sent r' = sent r \<and> held r' = held r"
    by (erule assms [unfolded token_relays_def, THEN conjunct2, THEN conjunct2, THEN conjunct2, THEN conjunct2, THEN conjunct1, rule_format])
qed

lemma relays_answer:
  assumes "token_relays tr n f sent held" and "nt_fetch_per_relay tr KIND_NIP60_TOKEN r = (Inr per, r')"
  shows "\<exists>R. R \<subseteq> {..<n} \<and> pl_served per \<le> card R \<and> set (pl_events per) = (\<Union>j\<in>R. held r j)"
  using assms(2) by (rule assms(1) [unfolded token_relays_def, THEN conjunct2, THEN conjunct2, THEN conjunct2, THEN conjunct2, THEN conjunct2, rule_format])

section \<open>The life of a backup\<close>

definition sealing :: "'p nip60_crypto \<Rightarrow> bool" where
  "sealing cry \<longleftrightarrow> (\<forall>c ct. nx_encrypt cry c = Inr ct \<longrightarrow> nx_decrypt cry ct = Inr c)
     \<and> (\<forall>p q. nx_proof_json cry p = nx_proof_json cry q \<longrightarrow> p = q) \<and> (\<forall>p. nx_proof_json cry p \<noteq> None)"

text \<open>Flushes that commit, fail or are dropped, mutations, publications of the configuration, and restarts that read
  the relays again, in any order, with the snapshots the flushes took.\<close>

inductive backup_run ::
  "'p nip60_crypto \<Rightarrow> 'r nip60_transport \<Rightarrow> ('w \<Rightarrow> (string + 'p list) \<times> 'w) \<Rightarrow> string \<Rightarrow> string \<Rightarrow> nat \<Rightarrow> backup_state \<Rightarrow> 'r
     \<Rightarrow> 'p list list \<Rightarrow> backup_state \<Rightarrow> 'r \<Rightarrow> bool"
  for cry tr unspent mint u k b0 r0 where
  bu_start: "backup_run cry tr unspent mint u k b0 r0 [] b0 r0"
| bu_flush: "backup_run cry tr unspent mint u k b0 r0 es b r \<Longrightarrow> ns_k st = k \<Longrightarrow> bk_dirty b \<Longrightarrow> unspent w = (Inr ps, w') \<Longrightarrow>
    flush cry tr unspent mint u st rc mutated dropped b w r = (res, b', w'', r') \<Longrightarrow>
    backup_run cry tr unspent mint u k b0 r0 (es @ [ps]) b' r'"
| bu_idle: "backup_run cry tr unspent mint u k b0 r0 es b r \<Longrightarrow> ns_k st = k \<Longrightarrow> \<not> bk_dirty b \<or> unspent w = (Inl e, w') \<Longrightarrow>
    flush cry tr unspent mint u st rc mutated dropped b w r = (res, b', w'', r') \<Longrightarrow>
    backup_run cry tr unspent mint u k b0 r0 es b' r'"
| bu_mutate: "backup_run cry tr unspent mint u k b0 r0 es b r \<Longrightarrow> backup_run cry tr unspent mint u k b0 r0 es (mark_dirty b) r"
| bu_publish: "backup_run cry tr unspent mint u k b0 r0 es b r \<Longrightarrow> publish_config cry tr st rc config r = (got, r') \<Longrightarrow>
    backup_run cry tr unspent mint u k b0 r0 es b r'"
| bu_restart: "backup_run cry tr unspent mint u k b0 r0 es b r \<Longrightarrow> reconcile_on_load_with_ids cry tr st r = (rd, st', r') \<Longrightarrow>
    backup_run cry tr unspent mint u k b0 r0 es (with_flusher (case rd of Inr read \<Rightarrow> rm_fetched_ids read | Inl e \<Rightarrow> [])) r'"

definition names :: "'p nip60_crypto \<Rightarrow> backup_event \<Rightarrow> string \<Rightarrow> bool" where
  "names cry ev i \<longleftrightarrow> (\<exists>c. nx_decrypt cry (be_content ev) = Inr c \<and> i \<in> set (te_del c))"

text \<open>Every event sent names only earlier ones as superseded; relays hold what was sent; the tracked ids were sent.\<close>

definition backup_ok ::
  "'p nip60_crypto \<Rightarrow> ('r \<Rightarrow> backup_event list) \<Rightarrow> ('r \<Rightarrow> nat \<Rightarrow> backup_event set) \<Rightarrow> backup_state \<Rightarrow> 'r \<Rightarrow> bool" where
  "backup_ok cry sent held b r \<longleftrightarrow>
     (\<forall>ev\<in>set (sent r). \<forall>i. names cry ev i \<longrightarrow> i \<in> be_id ` set (sent r) \<and> i \<noteq> be_id ev)
     \<and> sorted_wrt (\<lambda>a b. \<not> names cry a (be_id b)) (sent r) \<and> distinct (map be_id (sent r))
     \<and> (\<forall>j. held r j \<subseteq> set (sent r)) \<and> set (bk_live_ids b) \<subseteq> be_id ` set (sent r)"

text \<open>Some durable event and every later one carry the proof.\<close>

definition carries :: "'p nip60_crypto \<Rightarrow> string \<Rightarrow> 'p \<Rightarrow> backup_event \<Rightarrow> bool" where
  "carries cry mint p ev \<longleftrightarrow> (\<exists>c. nx_decrypt cry (be_content ev) = Inr c \<and> te_mint c = mint \<and> p \<in> set (te_proofs c))"

definition backed_up ::
  "'p nip60_crypto \<Rightarrow> nat \<Rightarrow> nat \<Rightarrow> ('r \<Rightarrow> backup_event list) \<Rightarrow> ('r \<Rightarrow> nat \<Rightarrow> backup_event set) \<Rightarrow> string \<Rightarrow> 'p \<Rightarrow> 'r \<Rightarrow> bool" where
  "backed_up cry k n sent held mint p r \<longleftrightarrow>
     (\<exists>xs d ys. sent r = xs @ d # ys \<and> k \<le> card {j. j < n \<and> d \<in> held r j} \<and> (\<forall>ev\<in>set (d # ys). carries cry mint p ev))"

text \<open>What a rollover did to the relays.\<close>

definition rolled ::
  "'p nip60_crypto \<Rightarrow> nat \<Rightarrow> nat \<Rightarrow> ('r \<Rightarrow> backup_event list) \<Rightarrow> ('r \<Rightarrow> nat \<Rightarrow> backup_event set) \<Rightarrow> 'p token_event_content
     \<Rightarrow> (string + string) \<Rightarrow> 'r \<Rightarrow> 'r \<Rightarrow> bool" where
  "rolled cry k n sent held c res r r' \<longleftrightarrow>
     (\<exists>e. res = Inl e) \<and> sent r' = sent r \<and> held r' = held r
     \<or> (\<exists>ev. nx_decrypt cry (be_content ev) = Inr c \<and> be_id ev \<notin> be_id ` set (sent r) \<and> sent r' = sent r @ [ev]
         \<and> (\<forall>j. held r' j \<subseteq> insert ev (held r j))
         \<and> (case res of Inl e \<Rightarrow> \<forall>j. held r j \<subseteq> held r' j
            | Inr i \<Rightarrow> i = be_id ev \<and> k \<le> card {j. j < n \<and> ev \<in> held r' j}))"

lemma rollover_rolled:
  assumes relays: "token_relays tr n f sent held" and crypto: "sealing cry"
    and older: "set older \<subseteq> be_id ` set (sent r)" and stored: "\<forall>j. held r j \<subseteq> set (sent r)" and run: "rollover cry tr st rc mint u proofs older r = (res, r')"
  shows "rolled cry (max 1 (ns_k st - f)) n sent held \<lparr>te_mint = mint, te_unit = u, te_proofs = proofs, te_del = older\<rparr> res r r'"
proof (cases "ns_read_established st \<and> rc")
  case False
  then have "(\<exists>e. res = Inl e) \<and> r' = r" using run by (cases "ns_read_established st") (auto simp: rollover_def)
  then show ?thesis by (auto simp: rolled_def)
next
  case gates: True
  let ?c = "\<lparr>te_mint = mint, te_unit = u, te_proofs = proofs, te_del = older\<rparr>"
  show ?thesis
  proof (cases "nx_encrypt cry ?c")
    case (Inl e)
    then have "res = Inl e \<and> r' = r" using run gates by (simp add: rollover_def publish_token_def)
    then show ?thesis by (auto simp: rolled_def)
  next
    case (Inr ct)
    then have dec: "nx_decrypt cry ct = Inr ?c" using crypto by (simp add: sealing_def)
    obtain sres r1 where s: "nt_send tr KIND_NIP60_TOKEN ct [] r = (sres, r1)" by (cases "nt_send tr KIND_NIP60_TOKEN ct [] r")
    obtain fres r2 where fetch: "nt_fetch tr KIND_NIP60_TOKEN r1 = (fres, r2)" by (cases "nt_fetch tr KIND_NIP60_TOKEN r1")
    note quiet = relays_quiet(2) [OF relays fetch]
    from relays_send [OF relays s] show ?thesis
    proof (elim disjE conjE exE)
      fix e assume "sres = Inl e" "sent r1 = sent r" "held r1 = held r"
      moreover from this have "(\<exists>e. res = Inl e) \<and> r' = r1" using run gates Inr s by (auto simp: rollover_def publish_token_def)
      ultimately show ?thesis by (auto simp: rolled_def)
    next
      fix ev
      assume ev: "be_content ev = ct" "be_id ev \<notin> be_id ` set (sent r)" "sent r1 = sent r @ [ev]"
        "\<forall>j. held r j \<subseteq> held r1 j \<and> held r1 j \<subseteq> insert ev (held r j)"
        "\<forall>out. sres = Inr out \<longrightarrow> so_event_id out = be_id ev \<and> so_acks out \<le> card {j. j < n \<and> ev \<in> held r1 j} + f"
      have failed: ?thesis if "res = Inl e" "sent r' = sent r1 \<and> held r' = held r1" for e
        unfolding rolled_def using that ev dec by (intro disjI2 exI [of _ ev]) auto
      show ?thesis
      proof (cases "\<exists>out events. sres = Inr out \<and> ns_k st \<le> so_acks out \<and> fres = Inr events \<and> list_ex (\<lambda>e. be_id e = be_id ev) events")
        case False
        then have "\<exists>e. res = Inl e" and "r' = r1 \<or> r' = r2"
          using run gates Inr s fetch ev(5) by (auto simp: rollover_def publish_token_def split: sum.splits if_splits)
        then show ?thesis using failed quiet by auto
      next
        case True
        then obtain out events where ok: "sres = Inr out" "ns_k st \<le> so_acks out" "fres = Inr events" "list_ex (\<lambda>e. be_id e = be_id ev) events"
          by blast
        have sid: "so_event_id out = be_id ev" "ns_k st - f \<le> card {j. j < n \<and> ev \<in> held r1 j}" using ev(5) ok by auto
        obtain e where e: "e \<in> set events" "be_id e = be_id ev" using ok(4) by (auto simp: list_ex_iff)
        have "set events \<subseteq> (\<Union>j\<in>{..<n}. held r1 j)" using relays_fetch [OF relays fetch] ok(3) by simp
        then obtain j where j: "j < n" "e \<in> held r1 j" using e(1) by blast
        have "e \<notin> held r j" using ev(2) e(2) stored by (metis image_eqI subsetD)
        then have "e = ev" using j(2) ev(4) by (meson insertE subsetD)
        then have "0 < card {j. j < n \<and> ev \<in> held r1 j}" using j by (auto simp: card_gt_0_iff)
        then have id: "so_event_id out = be_id ev" "max 1 (ns_k st - f) \<le> card {j. j < n \<and> ev \<in> held r1 j}" using sid by simp_all
        have res: "res = Inr (be_id ev)" and r': "r' = (if older = [] then r2 else snd (delete_events cry tr older r2))"
          using run gates Inr s fetch ok id by (auto simp: rollover_def publish_token_def split: if_splits)
        have del: "sent r' = sent r1 \<and> (\<forall>j. held r' j \<subseteq> held r1 j \<and> held r1 j \<subseteq> held r' j \<union> {ev. be_id ev \<in> set older})"
        proof (cases "older = [] \<or> filter (nx_event_id cry) older = []")
          case True
          then show ?thesis using r' quiet by (auto simp: delete_events_def Let_def split: if_splits)
        next
          case False
          obtain dres r3 where d: "nt_send tr KIND_NIP09_DELETE ''superseded by a NIP-60 rollover'' (filter (nx_event_id cry) older) r2 = (dres, r3)"
            by (cases "nt_send tr KIND_NIP09_DELETE ''superseded by a NIP-60 rollover'' (filter (nx_event_id cry) older) r2")
          then have "r' = r3" using False r' by (auto simp: delete_events_def Let_def split: sum.splits)
          then show ?thesis using relays_delete [OF relays d] quiet by fastforce
        qed
        have "be_id ev \<notin> set older" using older ev(2) by blast
        then have "ev \<in> held r' j \<longleftrightarrow> ev \<in> held r1 j" for j using del by blast
        moreover have "held r' j \<subseteq> insert ev (held r j)" for j using del ev(4) by blast
        ultimately show ?thesis unfolding rolled_def using ev(1-3) dec res id del by (intro disjI2 exI [of _ ev]) simp
      qed
    qed
  qed
qed

lemma rolled_ok:
  assumes "rolled cry k n sent held c res r r'" and "backup_ok cry sent held b r" and "set (te_del c) \<subseteq> set (bk_live_ids b)"
  shows "backup_ok cry sent held b r'" and "res = Inr i \<Longrightarrow> i \<in> be_id ` set (sent r')"
proof -
  from assms(1) consider "sent r' = sent r" "held r' = held r" "\<exists>e. res = Inl e"
    | ev where "nx_decrypt cry (be_content ev) = Inr c" "be_id ev \<notin> be_id ` set (sent r)" "sent r' = sent r @ [ev]"
        "\<forall>j. held r' j \<subseteq> insert ev (held r j)"
        "case res of Inl e \<Rightarrow> \<forall>j. held r j \<subseteq> held r' j | Inr i \<Rightarrow> i = be_id ev \<and> k \<le> card {j. j < n \<and> ev \<in> held r' j}"
    unfolding rolled_def by blast
  note cs = this
  show "res = Inr i \<Longrightarrow> i \<in> be_id ` set (sent r')" using cs by cases auto
  show "backup_ok cry sent held b r'" using cs
  proof cases
    case 1
    then show ?thesis using assms(2) by (simp add: backup_ok_def)
  next
    case (2 ev)
    have ids: "names cry ev i \<Longrightarrow> i \<in> be_id ` set (sent r)" for i
      using assms(2,3) 2(1) by (auto simp: names_def backup_ok_def)
    have old: "names cry a i \<Longrightarrow> a \<in> set (sent r) \<Longrightarrow> i \<in> be_id ` set (sent r)" for a i
      using assms(2) by (auto simp: backup_ok_def)
    have "sorted_wrt (\<lambda>a b. \<not> names cry a (be_id b)) (sent r @ [ev])"
      using assms(2) old 2(2) by (auto simp: backup_ok_def sorted_wrt_append)
    moreover have "\<forall>x\<in>set (sent r @ [ev]). \<forall>i. names cry x i \<longrightarrow> i \<in> be_id ` set (sent r @ [ev]) \<and> i \<noteq> be_id x"
      using assms(2) ids 2(2) by (auto simp: backup_ok_def)
    moreover have "\<forall>j. held r' j \<subseteq> set (sent r @ [ev])" using assms(2) 2(4) by (fastforce simp: backup_ok_def)
    moreover have "distinct (map be_id (sent r @ [ev]))" "set (bk_live_ids b) \<subseteq> be_id ` set (sent r @ [ev])"
      using assms(2) 2(2) by (auto simp: backup_ok_def)
    ultimately show ?thesis unfolding backup_ok_def 2(3) by blast
  qed
qed

lemma rolled_keeps:
  assumes "rolled cry k n sent held c res r r'" and "te_mint c = mint" and "p \<in> set (te_proofs c)"
  shows "backed_up cry k n sent held mint p r \<Longrightarrow> backed_up cry k n sent held mint p r'"
    and "res = Inr i \<Longrightarrow> backed_up cry k n sent held mint p r'"
proof -
  from assms(1) consider "sent r' = sent r" "held r' = held r" "\<exists>e. res = Inl e"
    | ev where "nx_decrypt cry (be_content ev) = Inr c" "sent r' = sent r @ [ev]"
        "case res of Inl e \<Rightarrow> \<forall>j. held r j \<subseteq> held r' j | Inr i \<Rightarrow> i = be_id ev \<and> k \<le> card {j. j < n \<and> ev \<in> held r' j}"
    unfolding rolled_def by blast
  note cs = this
  have durable: "backed_up cry k n sent held mint p r'" if "res = Inr i" for i
    using cs
  proof cases
    case (2 ev)
    then have "sent r' = sent r @ ev # []" "k \<le> card {j. j < n \<and> ev \<in> held r' j}" "\<forall>x\<in>set [ev]. carries cry mint p x"
      using that assms(2,3) by (auto simp: carries_def)
    then show ?thesis unfolding backed_up_def by blast
  qed (use that in auto)
  then show "res = Inr i \<Longrightarrow> backed_up cry k n sent held mint p r'" .
  assume before: "backed_up cry k n sent held mint p r"
  show "backed_up cry k n sent held mint p r'"
    using cs
  proof cases
    case 1
    then show ?thesis using before by (simp add: backed_up_def)
  next
    case (2 ev)
    show ?thesis
    proof (cases res)
      case (Inr i)
      then show ?thesis by (rule durable)
    next
      case (Inl e)
      obtain xs d ys where w: "sent r = xs @ d # ys" "k \<le> card {j. j < n \<and> d \<in> held r j}" "\<forall>x\<in>set (d # ys). carries cry mint p x"
        using before unfolding backed_up_def by blast
      have "card {j. j < n \<and> d \<in> held r j} \<le> card {j. j < n \<and> d \<in> held r' j}"
        using 2(3) Inl by (intro card_mono) auto
      then have "sent r' = xs @ d # (ys @ [ev])" "k \<le> card {j. j < n \<and> d \<in> held r' j}"
          "\<forall>x\<in>set (d # ys @ [ev]). carries cry mint p x"
        using w 2(1,2) assms(2,3) by (auto simp: carries_def)
      then show ?thesis unfolding backed_up_def by blast
    qed
  qed
qed

lemma flush_rolls:
  assumes "flush cry tr unspent mint u st rc mutated dropped b w r = (res, b', w', r')" and "bk_dirty b" and "unspent w = (Inr ps, w0)"
  shows "\<exists>roll. rollover cry tr st rc mint u ps (bk_live_ids b) r = (roll, r')
    \<and> (bk_live_ids b' = bk_live_ids b \<and> res \<noteq> Inr () \<or> (\<exists>i. roll = Inr i \<and> bk_live_ids b' = [i]))"
  using assms by (auto simp: flush_def Let_def split: prod.splits sum.splits if_splits)

lemma flush_idles:
  assumes "flush cry tr unspent mint u st rc mutated dropped b w r = (res, b', w', r')" and "\<not> bk_dirty b \<or> unspent w = (Inl e, w0)"
  shows "r' = r \<and> bk_live_ids b' = bk_live_ids b"
  using assms by (auto simp: flush_def Let_def split: prod.splits sum.splits if_splits)

lemma decode_events_set:
  "decode_events cry evs = (dec, ok) \<Longrightarrow> (i, c) \<in> set dec \<longleftrightarrow> (\<exists>ev\<in>set evs. be_id ev = i \<and> nx_decrypt cry (be_content ev) = Inr c)"
proof (induction evs arbitrary: dec ok)
  case (Cons ev evs)
  obtain d o' where r: "decode_events cry evs = (d, o')" by (cases "decode_events cry evs")
  show ?case using Cons.prems Cons.IH [OF r] r by (cases "nx_decrypt cry (be_content ev)") auto
qed simp

lemma reconcile_answer:
  assumes "token_relays tr n f sent held" and "reconcile_on_load_with_ids cry tr st r = (rd, st', r')"
  shows "sent r' = sent r \<and> held r' = held r"
    and "rd = Inr read \<Longrightarrow> \<exists>(per :: per_relay_read) dec ok R. decode_events cry (pl_events per) = (dec, ok) \<and> rm_fetched_ids read = map fst dec
      \<and> rm_candidates read = reconcile_token_set (nx_proof_json cry) dec (ns_mint_allowlist st)
      \<and> (rm_authoritative read \<longleftrightarrow> ns_read_k st \<le> pl_served per) \<and> R \<subseteq> {..<n} \<and> pl_served per \<le> card R
      \<and> set (pl_events per) = (\<Union>j\<in>R. held r j)"
proof -
  obtain got r1 where f: "nt_fetch_per_relay tr KIND_NIP60_TOKEN r = (got, r1)" by (cases "nt_fetch_per_relay tr KIND_NIP60_TOKEN r")
  note quiet = relays_quiet(3) [OF assms(1) f]
  show "sent r' = sent r \<and> held r' = held r" using assms(2) quiet
    by (auto simp: reconcile_on_load_with_ids_def f Let_def split: sum.splits prod.splits)
  assume rd: "rd = Inr read"
  then obtain per where per: "got = Inr per"
    using assms(2) by (auto simp: reconcile_on_load_with_ids_def f split: sum.splits)
  obtain dec ok where d: "decode_events cry (pl_events per) = (dec, ok)" by (cases "decode_events cry (pl_events per)")
  obtain R where R: "R \<subseteq> {..<n}" "pl_served per \<le> card R" "set (pl_events per) = (\<Union>j\<in>R. held r j)"
    using relays_answer [OF assms(1) f [unfolded per]] by blast
  have "rm_fetched_ids read = map fst dec \<and> rm_candidates read = reconcile_token_set (nx_proof_json cry) dec (ns_mint_allowlist st)
      \<and> (rm_authoritative read \<longleftrightarrow> ns_read_k st \<le> pl_served per)"
    using assms(2) rd by (auto simp: reconcile_on_load_with_ids_def f per d Let_def)
  then show "\<exists>(per :: per_relay_read) dec ok R. decode_events cry (pl_events per) = (dec, ok) \<and> rm_fetched_ids read = map fst dec
      \<and> rm_candidates read = reconcile_token_set (nx_proof_json cry) dec (ns_mint_allowlist st)
      \<and> (rm_authoritative read \<longleftrightarrow> ns_read_k st \<le> pl_served per) \<and> R \<subseteq> {..<n} \<and> pl_served per \<le> card R
      \<and> set (pl_events per) = (\<Union>j\<in>R. held r j)"
    using d R by - (rule exI [of _ per], rule exI [of _ dec], rule exI [of _ ok], rule exI [of _ R], simp)
qed

lemma fetched_were_sent:
  assumes "token_relays tr n f sent held" and "reconcile_on_load_with_ids cry tr st r = (rd, st', r')" and "backup_ok cry sent held b r"
  shows "set (case rd of Inr read \<Rightarrow> rm_fetched_ids read | Inl e \<Rightarrow> []) \<subseteq> be_id ` set (sent r)"
proof (cases rd)
  case (Inr read)
  from reconcile_answer(2) [OF assms(1,2) Inr] obtain per :: per_relay_read and dec ok R where d: "decode_events cry (pl_events per) = (dec, ok)"
    "rm_fetched_ids read = map fst dec" "set (pl_events per) = (\<Union>j\<in>R. held r j)"
    by (elim exE conjE) (rule that, assumption+)
  have "fst x \<in> be_id ` set (sent r)" if "x \<in> set dec" for x
  proof -
    have "\<exists>ev\<in>set (pl_events per). be_id ev = fst x" using that decode_events_set [OF d(1), of "fst x" "snd x"] by auto
    then obtain ev where ev: "ev \<in> set (pl_events per)" "be_id ev = fst x" by blast
    then obtain j where "ev \<in> held r j" using d(3) by auto
    moreover have "held r j \<subseteq> set (sent r)" using assms(3) by (simp add: backup_ok_def)
    ultimately have "ev \<in> set (sent r)" by (rule subsetD [rotated])
    then show ?thesis using ev(2) by (metis imageI)
  qed
  then show ?thesis using Inr d(2) by auto
qed simp

lemma publish_quiet:
  assumes "token_relays tr n f sent held" and "publish_config cry tr st rc config r = (res, r')"
  shows "sent r' = sent r \<and> held r' = held r"
proof -
  have "r' = r \<or> (\<exists>ct x. nt_send tr KIND_NIP60_WALLET_CONFIG ct [] r = (x, r'))"
    using assms(2) by (auto simp: publish_config_def split: sum.splits prod.splits if_splits)
  then show ?thesis using relays_quiet(1) [OF assms(1)] by auto
qed

lemma same_relays: "sent r' = sent r \<Longrightarrow> held r' = held r \<Longrightarrow> backed_up cry k n sent held mint p r' = backed_up cry k n sent held mint p r"
  by (simp add: backed_up_def)

lemma backup_run_ok:
  assumes relays: "token_relays tr n f sent held" and crypto: "sealing cry"
  shows "backup_run cry tr unspent mint u k b0 r0 es b r \<Longrightarrow> backup_ok cry sent held b0 r0 \<Longrightarrow>
    backup_ok cry sent held b r
    \<and> ((\<forall>S\<in>set es. p \<in> set S) \<longrightarrow> backed_up cry (max 1 (k - f)) n sent held mint p r0 \<longrightarrow> backed_up cry (max 1 (k - f)) n sent held mint p r)"
proof (induction rule: backup_run.induct)
  case (bu_flush es b r st w ps w' rc mutated dropped res b' w'' r')
  note IH = bu_flush.IH [OF bu_flush.prems]
  obtain roll where roll: "rollover cry tr st rc mint u ps (bk_live_ids b) r = (roll, r')"
      "bk_live_ids b' = bk_live_ids b \<or> (\<exists>i. roll = Inr i \<and> bk_live_ids b' = [i])"
    using flush_rolls [OF bu_flush.hyps(5,3,4)] by blast
  have "set (bk_live_ids b) \<subseteq> be_id ` set (sent r)" "\<forall>j. held r j \<subseteq> set (sent r)" using IH by (simp_all add: backup_ok_def)
  note rolled = rollover_rolled [OF relays crypto this roll(1), unfolded bu_flush.hyps(2)]
  note ok = rolled_ok [OF rolled IH [THEN conjunct1]]
  have live: "set (bk_live_ids b') \<subseteq> be_id ` set (sent r')" using roll(2) ok by (auto simp: backup_ok_def)
  have "backup_ok cry sent held b r'" using ok(1) by simp
  then have "backup_ok cry sent held b' r'" using live by (simp add: backup_ok_def)
  then show ?case using IH rolled_keeps(1) [OF rolled] by auto
next
  case (bu_idle es b r st w e w' rc mutated dropped res b' w'' r')
  then show ?case using flush_idles [OF bu_idle.hyps(4,3)] by (simp add: backup_ok_def)
next
  case (bu_mutate es b r)
  then show ?case by (simp add: backup_ok_def mark_dirty_def)
next
  case (bu_publish es b r st rc config got r')
  then show ?case using publish_quiet [OF relays bu_publish.hyps(2)] same_relays [of sent r' r held cry "max 1 (k - f)" n mint p] by (simp add: backup_ok_def)
next
  case (bu_restart es b r st rd st' r')
  note IH = bu_restart.IH [OF bu_restart.prems]
  show ?case using IH reconcile_answer(1) [OF relays bu_restart.hyps(2)] fetched_were_sent [OF relays bu_restart.hyps(2), of b]
    same_relays [of sent r' r held cry "max 1 (k - f)" n mint p]
    by (simp add: backup_ok_def with_flusher_def)
qed simp

lemma thresholds_meet:
  assumes "R \<subseteq> {..<n}" and "a \<le> card R" and "b \<le> card {j. j < n \<and> P j}" and "n < a + b"
  shows "\<exists>j\<in>R. P j"
proof (rule ccontr)
  assume "\<not> ?thesis"
  then have "card (R \<union> {j. j < n \<and> P j}) = card R + card {j. j < n \<and> P j}"
    using assms(1) by (intro card_Un_disjoint) (auto intro: finite_subset)
  moreover have "card (R \<union> {j. j < n \<and> P j}) \<le> n" using card_mono [of "{..<n}" "R \<union> {j. j < n \<and> P j}"] assms(1) by auto
  ultimately show False using assms(2-4) by simp
qed

text \<open>The last event of a read that carries the proof is superseded by none of the read.\<close>

lemma latest_is_live:
  assumes "backup_ok cry sent held b r" and "sent r = xs @ d # ys" and "X \<subseteq> set (sent r)" and "d \<in> X"
  shows "\<exists>e\<in>X. e \<in> set (d # ys) \<and> (\<forall>x\<in>X. \<not> names cry x (be_id e))"
proof -
  have "\<exists>e\<in>set (d # ys). e \<in> X" using assms(4) by auto
  then obtain us e vs where split: "d # ys = us @ e # vs" "e \<in> X" "\<forall>v\<in>set vs. v \<notin> X"
    using split_list_last_prop [of "d # ys" "\<lambda>e. e \<in> X"] by blast
  have sent: "sent r = (xs @ us) @ e # vs" using assms(2) split(1) by simp
  have "\<not> names cry x (be_id e)" if "x \<in> X" for x
  proof -
    have "x \<in> set (xs @ us) \<or> x = e" using that assms(3) split(3) sent by auto
    then show ?thesis using assms(1) unfolding backup_ok_def sent sorted_wrt_append by fastforce
  qed
  then show ?thesis using split(1,2) by auto
qed

text \<open>C9: The backup survives relays that lie. Up to \<open>f\<close> relays may acknowledge events they do not keep, at any time. After any
  history of flushes (committed, failed at any point, or dropped before they committed), mutations, configuration
  publications and restarts, every proof of the last committed flush that no later snapshot dropped as spent is among the
  candidates of every read that was answered by more relays than those which may all lack the last committed event: of the
  write quorum the \<open>f\<close> liars do not count, but the relay that served it back before anything was deleted always does. So
  with no liars a read quorum that meets the write quorum finds it, and with any number of them a read of all relays does.
  Not only is the proof on the relays, no event that superseded its own was read without carrying it too. What a relay
  holds it is assumed to keep until a deletion names it.\<close>

theorem backup_survives:
  assumes relays: "token_relays tr n f sent held" and meet: "n < ns_read_k st + max 1 (k - f)" and crypto: "sealing cry"
    and fresh: "sent r0 = []" "\<forall>j. held r0 j = {}"
    and before: "backup_run cry tr unspent mint u k (with_flusher []) r0 es1 b1 r1"
    and committed: "flush cry tr unspent mint u st1 rc mutated dropped b1 w r1 = (Inr (), b2, w2, r2)" "ns_k st1 = k"
      "bk_dirty b1" "unspent w = (Inr snapshot, w1)"
    and after: "backup_run cry tr unspent mint u k b2 r2 es2 b3 r3"
    and p: "p \<in> set snapshot" "\<forall>S\<in>set es2. p \<in> set S" "mint \<in> set (ns_mint_allowlist st)"
    and read: "reconcile_on_load_with_ids cry tr st r3 = (Inr read, st', r4)" "rm_authoritative read"
  shows "p \<in> set (rm_candidates read)"
proof -
  have "backup_ok cry sent held (with_flusher []) r0" using fresh by (simp add: backup_ok_def with_flusher_def)
  note ok1 = backup_run_ok [OF relays crypto before this, THEN conjunct1]
  obtain roll where roll: "rollover cry tr st1 rc mint u snapshot (bk_live_ids b1) r1 = (roll, r2)"
      "\<exists>i. roll = Inr i \<and> bk_live_ids b2 = [i]"
    using flush_rolls [OF committed(1,3,4)] by blast
  then obtain i where i: "roll = Inr i" "bk_live_ids b2 = [i]" by blast
  have "set (bk_live_ids b1) \<subseteq> be_id ` set (sent r1)" "\<forall>j. held r1 j \<subseteq> set (sent r1)" using ok1 by (simp_all add: backup_ok_def)
  note rolled = rollover_rolled [OF relays crypto this roll(1), unfolded committed(2)]
  have "backup_ok cry sent held b2 r2"
    using rolled_ok [OF rolled ok1] i by (simp add: backup_ok_def)
  moreover have "backed_up cry (max 1 (k - f)) n sent held mint p r2" using rolled_keeps(2) [OF rolled _ _ i(1)] p(1) by simp
  ultimately have ok3: "backup_ok cry sent held b3 r3" and b3: "backed_up cry (max 1 (k - f)) n sent held mint p r3"
    using backup_run_ok [OF relays crypto after] p(2) by blast+
  from b3 obtain xs d ys where d: "sent r3 = xs @ d # ys" "max 1 (k - f) \<le> card {j. j < n \<and> d \<in> held r3 j}" "\<forall>ev\<in>set (d # ys). carries cry mint p ev"
    unfolding backed_up_def by blast
  from reconcile_answer(2) [OF relays read(1) refl] obtain per :: per_relay_read and dec ok R
    where got: "decode_events cry (pl_events per) = (dec, ok)"
      "rm_candidates read = reconcile_token_set (nx_proof_json cry) dec (ns_mint_allowlist st)"
      "rm_authoritative read \<longleftrightarrow> ns_read_k st \<le> pl_served per" "R \<subseteq> {..<n}" "pl_served per \<le> card R"
      "set (pl_events per) = (\<Union>j\<in>R. held r3 j)"
    by (elim exE conjE) (rule that, assumption+)
  have "ns_read_k st \<le> card R" using got(3,5) read(2) by simp
  from thresholds_meet [OF got(4) this d(2) meet] have "d \<in> set (pl_events per)" using got(6) by auto
  moreover have "set (pl_events per) \<subseteq> set (sent r3)" using ok3 got(6) by (auto simp: backup_ok_def)
  ultimately obtain e where e: "e \<in> set (pl_events per)" "e \<in> set (d # ys)" "\<forall>x\<in>set (pl_events per). \<not> names cry x (be_id e)"
    using latest_is_live [OF ok3 d(1)] by blast
  then obtain c where c: "nx_decrypt cry (be_content e) = Inr c" "te_mint c = mint" "p \<in> set (te_proofs c)"
    using d(3) unfolding carries_def by blast
  have mem: "(be_id e, c) \<in> set dec" using decode_events_set [OF got(1)] e(1) c(1) by blast
  have live: "be_id e \<notin> set (te_del x)" if "(j, x) \<in> set dec" for j x
    using that decode_events_set [OF got(1), of j x] e(3) unfolding names_def by blast
  have crypto': "\<forall>p q. nx_proof_json cry p = nx_proof_json cry q \<longrightarrow> p = q" "\<forall>p. nx_proof_json cry p \<noteq> None"
    using crypto by (auto simp: sealing_def)
  show ?thesis unfolding got(2) candidates_char(1) [OF crypto'] using mem live c(2,3) p(3) by blast
qed

section \<open>One relay\<close>

text \<open>A relay that keeps its token events and forgets deleted ones; ids are longer than all before.\<close>

definition sample_relay :: "(backup_event list \<times> backup_event list) nip60_transport" where
  "sample_relay = \<lparr>nt_send = (\<lambda>k ct tags (s, h).
       if k = KIND_NIP60_TOKEN then
         (let ev = \<lparr>be_id = replicate (Suc (sum_list (map (length \<circ> be_id) s))) (CHR ''i''), be_created_at = 0, be_content = ct\<rparr>
          in (Inr \<lparr>so_event_id = be_id ev, so_acks = 1\<rparr>, (s @ [ev], h @ [ev])))
       else (Inr \<lparr>so_event_id = '''', so_acks = 1\<rparr>, (s, if k = KIND_NIP09_DELETE then filter (\<lambda>e. be_id e \<notin> set tags) h else h))),
     nt_fetch = (\<lambda>k (s, h). (Inr h, (s, h))),
     nt_fetch_per_relay = (\<lambda>k (s, h). (Inr \<lparr>pl_served = 1, pl_total = 1, pl_events = h\<rparr>, (s, h)))\<rparr>"

definition sample_held :: "backup_event list \<times> backup_event list \<Rightarrow> nat \<Rightarrow> backup_event set" where
  "sample_held r j = (if j = 0 then set (snd r) else {})"

definition sample_crypto :: "string nip60_crypto" where
  "sample_crypto = \<lparr>nx_encrypt = (\<lambda>c. if c = \<lparr>te_mint = ''m'', te_unit = ''sat'', te_proofs = [''p''], te_del = []\<rparr> then Inr ''x'' else Inl ''e''),
     nx_decrypt = (\<lambda>s. Inr \<lparr>te_mint = ''m'', te_unit = ''sat'', te_proofs = [''p''], te_del = []\<rparr>),
     nx_encrypt_config = (\<lambda>c. Inl ''e''), nx_decrypt_config = (\<lambda>s. Inl ''e''), nx_proof_json = Some, nx_event_id = (\<lambda>s. True)\<rparr>"

definition sample_nip60 :: nip60_store where
  "sample_nip60 = \<lparr>ns_n = 1, ns_k = 1, ns_read_k = 1, ns_mint_allowlist = [''m''], ns_read_established = True\<rparr>"

lemma fresh_id: "e \<in> set s \<Longrightarrow> x # replicate (sum_list (map (length \<circ> be_id) s)) x \<noteq> be_id e"
proof
  assume e: "e \<in> set s" "x # replicate (sum_list (map (length \<circ> be_id) s)) x = be_id e"
  have "(length \<circ> be_id) e \<le> sum_list (map (length \<circ> be_id) s)" using e(1) by (intro member_le_sum_list) auto
  moreover have "length (be_id e) = Suc (sum_list (map (length \<circ> be_id) s))" by (simp add: e(2) [symmetric])
  ultimately show False by simp
qed

lemma sample_token_relays: "token_relays sample_relay 1 1 fst sample_held"
proof -
  have one: "{j. j < (1::nat) \<and> P j} = (if P 0 then {0} else {})" for P by auto
  show ?thesis unfolding token_relays_def
    by (intro conjI)
      (auto simp: sample_relay_def sample_held_def one KIND_NIP60_TOKEN_def KIND_NIP09_DELETE_def KIND_NIP60_WALLET_CONFIG_def Let_def
        intro!: exI [of _ "{0::nat}"] dest: fresh_id split: if_splits)
qed

definition sample_event :: backup_event where
  "sample_event = \<lparr>be_id = ''i'', be_created_at = 0, be_content = ''x''\<rparr>"

lemma sample_flush:
  "flush sample_crypto sample_relay (\<lambda>w. (Inr [''p''], w)) ''m'' ''sat'' sample_nip60 True False False (with_flusher []) () ([], [])
    = (Inr (), \<lparr>bk_live_ids = [''i''], bk_dirty = False\<rparr>, (), ([sample_event], [sample_event]))"
  by (simp add: flush_def with_flusher_def rollover_def publish_token_def sample_crypto_def sample_relay_def sample_nip60_def sample_event_def Let_def)

lemma sample_read:
  "\<exists>read. reconcile_on_load_with_ids sample_crypto sample_relay sample_nip60 ([sample_event], [sample_event])
    = (Inr read, sample_nip60, ([sample_event], [sample_event])) \<and> rm_authoritative read"
  by (simp add: reconcile_on_load_with_ids_def sample_crypto_def sample_relay_def sample_nip60_def sample_event_def Let_def)

theorem backup_survives_witness:
  "\<exists>read. reconcile_on_load_with_ids sample_crypto sample_relay sample_nip60 ([sample_event], [sample_event])
    = (Inr read, sample_nip60, ([sample_event], [sample_event])) \<and> ''p'' \<in> set (rm_candidates read)"
proof -
  obtain read where read: "reconcile_on_load_with_ids sample_crypto sample_relay sample_nip60 ([sample_event], [sample_event])
    = (Inr read, sample_nip60, ([sample_event], [sample_event]))" "rm_authoritative read"
    using sample_read by blast
  have "sealing sample_crypto" by (simp add: sealing_def sample_crypto_def)
  note got = backup_survives [OF sample_token_relays _ this _ _ bu_start sample_flush _ _ refl bu_start _ _ _ read]
  have "''p'' \<in> set (rm_candidates read)"
    by (rule got) (simp_all add: sample_nip60_def with_flusher_def sample_held_def)
  then show ?thesis using read by blast
qed

theorem candidates_exact_witness: "''p'' \<in> set (reconcile_token_set Some
    [(''a'', \<lparr>te_mint = ''m'', te_unit = ''sat'', te_proofs = [''p'', ''q''], te_del = []\<rparr>),
     (''b'', \<lparr>te_mint = ''m'', te_unit = ''sat'', te_proofs = [''p''], te_del = [''a'']\<rparr>)] [''m''])"
  by (subst candidates_exact [THEN conjunct1]) (auto intro!: exI [of _ "''b''"])

end
