(* ===== verification/Wallet_Recovery_Props.thy ===== *)
theory Wallet_Recovery_Props
  imports Wallet_Backup_Props
begin

text \<open>
  What the recovery promises: the configuration a write quorum took is what a read quorum sees, a box that boots
  derives above it from then on, an import takes exactly what the mint still honours, and nothing opens the gates of the
  backup before the recovery was complete.
\<close>

section \<open>The counters on the relays\<close>

lemma collect_counters_map:
  "(\<forall>(hex, c)\<in>set xs. \<exists>i. parse hex = Some i) \<Longrightarrow>
     collect_counters parse xs m dropped = (m ++ map_of (rev (map (\<lambda>(hex, c). (the (parse hex), c)) xs)), dropped)"
proof (induction parse xs m dropped rule: collect_counters.induct)
  case (2 parse hex counter rest m dropped)
  then obtain i where i: "parse hex = Some i" by auto
  have "collect_counters parse rest (m(i \<mapsto> counter)) dropped
      = (m(i \<mapsto> counter) ++ map_of (rev (map (\<lambda>(hex, c). (the (parse hex), c)) rest)), dropped)"
    by (rule "2.IH"(2) [OF i]) (use "2.prems" in auto)
  moreover have "m ++ map_of (rev (map (\<lambda>(hex, c). (the (parse hex), c)) ((hex, counter) # rest)))
      = m(i \<mapsto> counter) ++ map_of (rev (map (\<lambda>(hex, c). (the (parse hex), c)) rest))"
    by (simp add: i del: fun_upd_apply)
  ultimately show ?case by (simp only: collect_counters.simps i option.case)
qed simp

text \<open>The counters survive the wire. What a wallet publishes as its counters, read back, is the same map and
  nothing was dropped, if keyset ids survive their hexadecimal text.\<close>

theorem config_roundtrip:
  assumes "\<forall>i. parse (hex i) = Some i" and "distinct (map fst (wl_iter ws counters))" and "map_of (wl_iter ws counters) = counters"
  shows "counters_by_id_checked parse (from_counters ws hex counters mints) = (counters, False)
    \<and> wcc_mints (from_counters ws hex counters mints) = mints"
proof -
  let ?xs = "map (\<lambda>(i, c). (hex i, c)) (wl_iter ws counters)"
  have same: "map (\<lambda>(h, c). (the (parse h), c)) ?xs = wl_iter ws counters"
    using assms(1) by (simp add: comp_def case_prod_beta)
  have "collect_counters parse ?xs (\<lambda>i. None) False = ((\<lambda>i. None) ++ map_of (rev (wl_iter ws counters)), False)"
    by (rule collect_counters_map [of ?xs parse "\<lambda>i. None" False, unfolded same]) (auto simp: assms(1))
  also have "map_of (rev (wl_iter ws counters)) = counters"
    using map_of_inject_set [of "rev (wl_iter ws counters)" "wl_iter ws counters"] assms(2,3) by (simp add: rev_map [symmetric])
  finally show ?thesis by (simp add: counters_by_id_checked_def from_counters_def)
qed

section \<open>The head\<close>

lemma bytes_less_total: "bytes_less a b \<or> a = b \<or> bytes_less b a"
proof (induction a b rule: bytes_less.induct)
  case (1 ys)
  then show ?case by (cases ys) auto
next
  case (3 x xs y ys)
  consider "(of_char x :: nat) < of_char y" | "(of_char y :: nat) < of_char x" | "x = y"
    by (metis linorder_neqE_nat of_char_eq_iff)
  then show ?case using 3 by cases auto
qed simp

lemma bytes_less_trans: "bytes_less a b \<Longrightarrow> bytes_less b c \<Longrightarrow> bytes_less a c"
proof (induction a b arbitrary: c rule: bytes_less.induct)
  case (3 x xs y ys)
  then show ?case by (cases c) auto
qed (auto elim: bytes_less.elims)

lemma bytes_less_irrefl [simp]: "\<not> bytes_less a a"
  by (induction a) auto

lemma heads_below_refl [simp]: "heads_below a a" by (simp add: heads_below_def)

lemma not_bytes_less_trans: "\<not> bytes_less a b \<Longrightarrow> \<not> bytes_less b c \<Longrightarrow> \<not> bytes_less a c"
  using bytes_less_total [of a b] bytes_less_total [of b c] bytes_less_trans [of c b a] bytes_less_trans [of a c a] by auto

lemma heads_below_trans: "heads_below a b \<Longrightarrow> heads_below b c \<Longrightarrow> heads_below a c"
  unfolding heads_below_def using not_bytes_less_trans [of "be_id a" "be_id b" "be_id c"] by auto

lemma heads_below_total: "heads_below a b \<or> heads_below b a"
  unfolding heads_below_def using bytes_less_trans [of "be_id a" "be_id b" "be_id a"] by (auto simp: neq_iff)

lemma lww_fold:
  "fold (\<lambda>e best. case best of None \<Rightarrow> Some e | Some b \<Rightarrow> if heads_below b e then Some e else Some b) events (Some b) = Some h
    \<Longrightarrow> (h = b \<or> h \<in> set events) \<and> heads_below b h \<and> (\<forall>e\<in>set events. heads_below e h)"
proof (induction events arbitrary: b)
  case (Cons e events)
  show ?case
  proof (cases "heads_below b e")
    case True
    then show ?thesis using Cons.IH [of e] Cons.prems heads_below_trans [of b e h] by auto
  next
    case False
    then have "heads_below e b" using heads_below_total by blast
    then show ?thesis using Cons.IH [of b] Cons.prems False heads_below_trans [of e b h] by auto
  qed
qed simp

lemma lww_some: "fold (\<lambda>e best. case best of None \<Rightarrow> Some e | Some b \<Rightarrow> if heads_below b e then Some e else Some b) events (Some b) \<noteq> None"
  by (induction events arbitrary: b) auto

lemma lww_head_greatest:
  assumes "e \<in> set events"
  shows "\<exists>h\<in>set events. lww_head events = Some h \<and> heads_below e h"
proof -
  obtain x xs where events: "events = x # xs" using assms by (cases events) auto
  obtain h where h: "fold (\<lambda>e best. case best of None \<Rightarrow> Some e | Some b \<Rightarrow> if heads_below b e then Some e else Some b) xs (Some x) = Some h"
    using lww_some [of xs x] by auto
  have "lww_head events = Some h" using h by (simp add: lww_head_def events)
  then show ?thesis using lww_fold [OF h] assms by (auto simp: events)
qed

text \<open>What relays document for a replaceable event: a relay that acknowledged one holds it or a later one from then
  on, whatever is sent or read, and a read returns what the relays that answered hold.\<close>

definition covered :: "nat \<Rightarrow> nat \<Rightarrow> ('r \<Rightarrow> nat \<Rightarrow> backup_event set) \<Rightarrow> backup_event \<Rightarrow> 'r \<Rightarrow> bool" where
  "covered k n held ev r \<longleftrightarrow> k \<le> card {j. j < n \<and> (\<exists>h\<in>held r j. heads_below ev h)}"

definition config_relays :: "'r nip60_transport \<Rightarrow> nat \<Rightarrow> ('r \<Rightarrow> nat \<Rightarrow> backup_event set) \<Rightarrow> bool" where
  "config_relays tr n held \<longleftrightarrow>
     (\<forall>ct tags r out r'. nt_send tr KIND_NIP60_WALLET_CONFIG ct tags r = (Inr out, r') \<longrightarrow>
        (\<exists>ev. be_content ev = ct \<and> be_id ev = so_event_id out \<and> covered (so_acks out) n held ev r'))
     \<and> (\<forall>kd ct tags r res r'. nt_send tr kd ct tags r = (res, r') \<longrightarrow> (\<forall>k ev. covered k n held ev r \<longrightarrow> covered k n held ev r'))
     \<and> (\<forall>kd r res r'. nt_fetch tr kd r = (res, r') \<longrightarrow> (\<forall>k ev. covered k n held ev r \<longrightarrow> covered k n held ev r'))
     \<and> (\<forall>kd r res r'. nt_fetch_per_relay tr kd r = (res, r') \<longrightarrow> (\<forall>k ev. covered k n held ev r \<longrightarrow> covered k n held ev r'))
     \<and> (\<forall>r per r'. nt_fetch_per_relay tr KIND_NIP60_WALLET_CONFIG r = (Inr per, r') \<longrightarrow>
        (\<exists>R. R \<subseteq> {..<n} \<and> pl_served per \<le> card R \<and> set (pl_events per) = (\<Union>j\<in>R. held r j)))"

text \<open>Anything the agent does to its relays.\<close>

inductive relay_traffic :: "'r nip60_transport \<Rightarrow> 'r \<Rightarrow> 'r \<Rightarrow> bool" for tr r0 where
  traffic_none: "relay_traffic tr r0 r0"
| traffic_send: "relay_traffic tr r0 r \<Longrightarrow> nt_send tr kd ct tags r = (sent, r') \<Longrightarrow> relay_traffic tr r0 r'"
| traffic_fetch: "relay_traffic tr r0 r \<Longrightarrow> nt_fetch tr kd r = (got, r') \<Longrightarrow> relay_traffic tr r0 r'"
| traffic_read: "relay_traffic tr r0 r \<Longrightarrow> nt_fetch_per_relay tr kd r = (per, r') \<Longrightarrow> relay_traffic tr r0 r'"

lemma config_sent:
  "config_relays tr n held \<Longrightarrow> nt_send tr KIND_NIP60_WALLET_CONFIG ct tags r = (Inr out, r') \<Longrightarrow>
     \<exists>ev. be_content ev = ct \<and> be_id ev = so_event_id out \<and> covered (so_acks out) n held ev r'"
  by (drule config_relays_def [THEN iffD1, THEN conjunct1, rule_format], assumption) 

lemma config_answer:
  "config_relays tr n held \<Longrightarrow> nt_fetch_per_relay tr KIND_NIP60_WALLET_CONFIG r = (Inr per, r') \<Longrightarrow>
     \<exists>R. R \<subseteq> {..<n} \<and> pl_served per \<le> card R \<and> set (pl_events per) = (\<Union>j\<in>R. held r j)"
  by (drule config_relays_def [THEN iffD1, THEN conjunct2, THEN conjunct2, THEN conjunct2, THEN conjunct2, rule_format], assumption)

lemma traffic_covers:
  "relay_traffic tr r0 r \<Longrightarrow> config_relays tr n held \<Longrightarrow> covered k n held ev r0 \<Longrightarrow> covered k n held ev r"
proof (induction rule: relay_traffic.induct)
  case (traffic_send r kd ct tags sent r')
  then show ?case using traffic_send.prems(1) [unfolded config_relays_def, THEN conjunct2, THEN conjunct1] by blast
next
  case (traffic_fetch r kd got r')
  then show ?case using traffic_fetch.prems(1) [unfolded config_relays_def, THEN conjunct2, THEN conjunct2, THEN conjunct1] by blast
next
  case (traffic_read r kd per r')
  then show ?case
    using traffic_read.prems(1) [unfolded config_relays_def, THEN conjunct2, THEN conjunct2, THEN conjunct2, THEN conjunct1] by blast
qed

text \<open>The head is seen. Once a configuration was published durably, every later configuration read that a read
  quorum answered returns it or one that replaced it, with its counters untouched, whatever the agent sent and
  read in between.\<close>

theorem head_is_seen:
  assumes relays: "config_relays tr n held" and meet: "n < ns_read_k st' + ns_k st"
    and published: "publish_config cry tr st rc config r0 = (Inr i, r1)" and traffic: "relay_traffic tr r1 r2"
    and read: "load_config_quorum cry tr st' r2 = (Inr cr, r3)" "cr_config_authoritative cr"
  shows "\<exists>ev h c. nx_encrypt_config cry config = Inr (be_content ev) \<and> be_id ev = i \<and> heads_below ev h
    \<and> nx_decrypt_config cry (be_content h) = Inr c
    \<and> cr_config cr = Some (c\<lparr>wcc_mints := filter (\<lambda>m. m \<in> set (ns_mint_allowlist st')) (wcc_mints c)\<rparr>)"
proof -
  obtain ct out where sent: "nx_encrypt_config cry config = Inr ct" "nt_send tr KIND_NIP60_WALLET_CONFIG ct [] r0 = (Inr out, r1)"
      "ns_k st \<le> so_acks out" "so_event_id out = i"
    using published by (auto simp: publish_config_def split: if_splits sum.splits prod.splits)
  obtain ev where ev: "be_content ev = ct" "be_id ev = i" "covered (so_acks out) n held ev r1"
    using config_sent [OF relays sent(2)] sent(4) by blast
  have cov: "ns_k st \<le> card {j. j < n \<and> (\<exists>h\<in>held r2 j. heads_below ev h)}"
    using traffic_covers [OF traffic relays ev(3)] sent(3) by (simp add: covered_def)
  obtain per where per: "nt_fetch_per_relay tr KIND_NIP60_WALLET_CONFIG r2 = (Inr per, r3)" "ns_read_k st' \<le> pl_served per"
      "\<And>h. lww_head (pl_events per) = Some h \<Longrightarrow> \<exists>c. nx_decrypt_config cry (be_content h) = Inr c
         \<and> cr_config cr = Some (c\<lparr>wcc_mints := filter (\<lambda>m. m \<in> set (ns_mint_allowlist st')) (wcc_mints c)\<rparr>)"
    using read by (auto simp: load_config_quorum_def Let_def split: sum.splits prod.splits option.splits)
  obtain R where R: "R \<subseteq> {..<n}" "pl_served per \<le> card R" "set (pl_events per) = (\<Union>j\<in>R. held r2 j)"
    using config_answer [OF relays per(1)] by blast
  have "ns_read_k st' \<le> card R" using per(2) R(2) by simp
  from thresholds_meet [OF R(1) this cov meet] obtain h where h: "h \<in> set (pl_events per)" "heads_below ev h"
    using R(3) by auto
  then obtain h' where h': "lww_head (pl_events per) = Some h'" "heads_below h h'" using lww_head_greatest by blast
  have "heads_below ev h'" using heads_below_trans [OF h(2) h'(2)] .
  then show ?thesis using per(3) [OF h'(1)] sent(1) ev(1,2) by blast
qed

section \<open>Importing\<close>

lemma novel_iff: "p \<in> set (novel_only y candidates known) \<longleftrightarrow> p \<in> set candidates \<and> (\<exists>v. y p = Some v \<and> v \<notin> set known)"
  by (auto simp: novel_only_def split: option.splits)

lemma unspent_iff:
  "p \<in> set (keep_unspent y (novel_only y candidates known) states)
     \<longleftrightarrow> p \<in> set candidates \<and> (\<exists>v. y p = Some v \<and> v \<notin> set known \<and> (v, Unspent) \<in> set states)"
  unfolding keep_unspent_def set_filter mem_Collect_eq novel_iff by (auto simp: list_ex_iff split: option.splits)

lemma reconcile_import_run:
  assumes "reconcile_import cw candidates db = (Inr imported, db')"
  shows "imported = 0 \<and> candidates = [] \<and> db' = db
    \<or> (\<exists>known db1. known_ys cw db = (Inr known, db1)
        \<and> (imported = 0 \<and> novel_only (cw_y cw) candidates known = [] \<and> db' = db1
          \<or> (\<exists>states db2. cw_check_proofs_spent cw (novel_only (cw_y cw) candidates known) db1 = (Inr states, db2)
              \<and> (imported = 0 \<and> keep_unspent (cw_y cw) (novel_only (cw_y cw) candidates known) states = [] \<and> db' = db2
                \<or> cw_receive_proofs cw (keep_unspent (cw_y cw) (novel_only (cw_y cw) candidates known) states) db2 = (Inr imported, db')))))"
  using assms by (auto simp: reconcile_import_def Let_def split: if_splits sum.splits prod.splits)

text \<open>An import takes exactly what is new and honoured. If it says it imported a sum, then either nothing was
  presented to the mint as payment and the sum is 0, or the proofs swapped in are exactly the candidates that
  the wallet did not track and whose state at the mint is unspent; a failure of any step is an error and never a
  count, and when the swap was not reached, nothing was paid in.\<close>

theorem import_exact:
  "case reconcile_import cw candidates db of
     (Inl e, db') \<Rightarrow> candidates \<noteq> []
   | (Inr imported, db') \<Rightarrow>
       imported = 0 \<and> (candidates = [] \<and> db' = db
         \<or> (\<exists>known db1. known_ys cw db = (Inr known, db1) \<and> (\<forall>p\<in>set candidates. \<forall>y. cw_y cw p = Some y \<longrightarrow> y \<in> set known) \<and> db' = db1)
         \<or> (\<exists>known db1 novel states. known_ys cw db = (Inr known, db1) \<and> cw_check_proofs_spent cw novel db1 = (Inr states, db')
              \<and> (\<forall>p\<in>set candidates. \<forall>y. cw_y cw p = Some y \<longrightarrow> y \<in> set known \<or> (y, Unspent) \<notin> set states)))
       \<or> (\<exists>known db1 novel states db2 swapped. known_ys cw db = (Inr known, db1)
            \<and> (\<forall>p. p \<in> set novel \<longleftrightarrow> p \<in> set candidates \<and> (\<exists>y. cw_y cw p = Some y \<and> y \<notin> set known))
            \<and> cw_check_proofs_spent cw novel db1 = (Inr states, db2) \<and> cw_receive_proofs cw swapped db2 = (Inr imported, db')
            \<and> (\<forall>p. p \<in> set swapped \<longleftrightarrow> p \<in> set candidates
                 \<and> (\<exists>y. cw_y cw p = Some y \<and> y \<notin> set known \<and> (y, Unspent) \<in> set states)))"
proof (cases "reconcile_import cw candidates db")
  case (Pair res db')
  show ?thesis
  proof (cases res)
    case (Inl e)
    then show ?thesis using Pair by (auto simp: reconcile_import_def)
  next
    case (Inr imported)
    from reconcile_import_run [OF Pair [unfolded Inr]] show ?thesis
    proof (elim disjE exE conjE)
      fix known db1 assume k: "known_ys cw db = (Inr known, db1)" "imported = 0" "novel_only (cw_y cw) candidates known = []" "db' = db1"
      then have "\<forall>p\<in>set candidates. \<forall>y. cw_y cw p = Some y \<longrightarrow> y \<in> set known"
        using novel_iff [of _ "cw_y cw" candidates known] by auto
      then show ?thesis using Pair Inr k by auto
    next
      fix known db1 states db2
      assume k: "known_ys cw db = (Inr known, db1)" "cw_check_proofs_spent cw (novel_only (cw_y cw) candidates known) db1 = (Inr states, db2)"
        "imported = 0" "keep_unspent (cw_y cw) (novel_only (cw_y cw) candidates known) states = []" "db' = db2"
      have "\<forall>p\<in>set candidates. \<forall>y. cw_y cw p = Some y \<longrightarrow> y \<in> set known \<or> (y, Unspent) \<notin> set states"
        using unspent_iff [of _ "cw_y cw" candidates known states] k(4) by auto
      then show ?thesis using Pair Inr k by simp blast
    next
      fix known db1 states db2
      assume k: "known_ys cw db = (Inr known, db1)" "cw_check_proofs_spent cw (novel_only (cw_y cw) candidates known) db1 = (Inr states, db2)"
        "cw_receive_proofs cw (keep_unspent (cw_y cw) (novel_only (cw_y cw) candidates known) states) db2 = (Inr imported, db')"
      show ?thesis unfolding Pair Inr prod.case sum.case
        by (rule disjI2, intro exI conjI allI, rule k(1), rule novel_iff, rule k(2), rule k(3), rule unspent_iff)
    qed (use Pair Inr in auto)
  qed
qed

section \<open>The retry\<close>

text \<open>The backoff is bounded. For every attempt it is the base doubled once per attempt (32 times at most),
  capped at the limit, exactly and without wrapping; so it starts at the base, is never below it nor above the
  limit, and never falls from one attempt to the next.\<close>

theorem backoff_bounded:
  assumes "base \<le> limit"
  shows "unat (config_retry_backoff attempt base limit) = min (unat limit) (unat base * 2 ^ min attempt 32)
    \<and> base \<le> config_retry_backoff attempt base limit \<and> config_retry_backoff attempt base limit \<le> limit
    \<and> config_retry_backoff attempt base limit \<le> config_retry_backoff (Suc attempt) base limit"
proof -
  have level: "unat (config_retry_backoff a base limit) = min (unat limit) (unat base * 2 ^ min a 32)" for a
  proof -
    have "(2 :: nat) ^ min a 32 \<le> 2 ^ 32" by (intro power_increasing) auto
    then have "unat (of_nat (2 ^ min a 32) :: u64) = 2 ^ min a 32" by (simp only: unat_of_nat) (simp add: take_bit_nat_eq_self)
    then have "unat (push_bit (min a 32) 1 :: u64) = 2 ^ min a 32" by (simp add: push_bit_eq_mult)
    moreover define x where "x = unat base * 2 ^ min a 32"
    ultimately have "unat (saturating_mul base (push_bit (min a 32) 1)) = min x (2 ^ 64 - 1)"
      by (simp only: unat_saturating_mul) simp
    moreover have "unat limit \<le> 2 ^ 64 - 1" using unat_lt_pow [of limit] by simp
    moreover have "unat base \<le> x" by (simp add: x_def)
    ultimately show ?thesis using assms unfolding x_def [symmetric] config_retry_backoff_def Let_def word_less_nat_alt word_le_nat_alt
      by (auto simp: min_def max_def)
  qed
  have mono: "unat base * 2 ^ min attempt 32 \<le> unat base * 2 ^ min (Suc attempt) 32"
    by (intro mult_left_mono power_increasing) auto
  then have "min (unat limit) (unat base * 2 ^ min attempt 32) \<le> min (unat limit) (unat base * 2 ^ min (Suc attempt) 32)"
    by (rule min.mono [OF order_refl])
  moreover have "unat base \<le> unat base * 2 ^ min attempt 32" by simp
  ultimately show ?thesis using assms unfolding word_le_nat_alt level by simp
qed

theorem backoff_bounded_witness:
  "map (\<lambda>a. unat (config_retry_backoff a CONFIG_RETRY_BASE CONFIG_RETRY_MAX_INTERVAL)) [0, 1, 4, 5, CONFIG_RETRY_MAX_ATTEMPTS] = [2, 4, 32, 60, 60]"
  using backoff_bounded [of CONFIG_RETRY_BASE CONFIG_RETRY_MAX_INTERVAL]
  by (simp add: CONFIG_RETRY_BASE_def CONFIG_RETRY_MAX_INTERVAL_def CONFIG_RETRY_MAX_ATTEMPTS_def)

section \<open>What the wallet library may do\<close>

text \<open>A call into the library leaves the latches to the daemon, and lowers no counter of its store and none of the mirror, which
  it only reaches through the decorator.\<close>

definition keeps :: "('w \<Rightarrow> 'i \<Rightarrow> nat) \<Rightarrow> ('i, 'w) counter_db \<Rightarrow> ('i, 'w) counter_db \<Rightarrow> bool" where
  "keeps cnt db db' \<longleftrightarrow> cd_counter_established db' = cd_counter_established db
     \<and> cd_recovery_complete db' = cd_recovery_complete db \<and> (\<forall>i. cnt (cd_inner db) i \<le> cnt (cd_inner db') i)
     \<and> (\<forall>i n. mirror_ge db i n \<longrightarrow> mirror_ge db' i n) \<and> (finite (dom (cd_shadow db)) \<longrightarrow> finite (dom (cd_shadow db')))"

definition tame :: "('i, 'w, 'p, 'y, 'q) cdk_recovery \<Rightarrow> ('w \<Rightarrow> 'i \<Rightarrow> nat) \<Rightarrow> bool" where
  "tame cw cnt \<longleftrightarrow> (\<forall>db. keeps cnt db (snd (cw_get_proofs cw db))) \<and> (\<forall>ps db. keeps cnt db (snd (cw_check_proofs_spent cw ps db)))
     \<and> (\<forall>ps db. keeps cnt db (snd (cw_receive_proofs cw ps db))) \<and> (\<forall>db. keeps cnt db (snd (cw_mint_unissued_quotes cw db)))
     \<and> (\<forall>db. keeps cnt db (snd (cw_get_unissued cw db))) \<and> (\<forall>q db. keeps cnt db (snd (cw_check_mintable cw q db)))
     \<and> (\<forall>db. keeps cnt db (snd (cw_recover_sagas cw db))) \<and> (\<forall>db. keeps cnt db (snd (cw_total_balance cw db)))"

lemma keeps_refl [simp]: "keeps cnt db db" by (simp add: keeps_def)

lemma keeps_trans [trans]:
  assumes "keeps cnt a b" and "keeps cnt b c" shows "keeps cnt a c"
proof -
  have "cnt (cd_inner a) i \<le> cnt (cd_inner c) i" for i
    using assms le_trans [of "cnt (cd_inner a) i" "cnt (cd_inner b) i"] by (simp add: keeps_def)
  then show ?thesis using assms by (simp add: keeps_def)
qed

lemma tame_calls:
  assumes "tame cw cnt"
  shows "cw_get_proofs cw db = (a, db') \<Longrightarrow> keeps cnt db db'" and "cw_check_proofs_spent cw ps db = (b, db') \<Longrightarrow> keeps cnt db db'"
    and "cw_receive_proofs cw ps db = (c, db') \<Longrightarrow> keeps cnt db db'" and "cw_mint_unissued_quotes cw db = (d, db') \<Longrightarrow> keeps cnt db db'"
    and "cw_get_unissued cw db = (e, db') \<Longrightarrow> keeps cnt db db'" and "cw_check_mintable cw q db = (f, db') \<Longrightarrow> keeps cnt db db'"
    and "cw_recover_sagas cw db = (g, db') \<Longrightarrow> keeps cnt db db'" and "cw_total_balance cw db = (h, db') \<Longrightarrow> keeps cnt db db'"
  using assms unfolding tame_def by (metis snd_conv)+

lemma import_keeps:
  assumes "tame cw cnt" and "reconcile_import cw candidates db = (res, db')"
  shows "keeps cnt db db'"
proof -
  have k: "known_ys cw db = (kr, db1) \<Longrightarrow> keeps cnt db db1" for kr db1
    by (auto simp: known_ys_def split: prod.splits sum.splits dest: tame_calls(1) [OF assms(1)])
  show ?thesis using assms(2)
    by (auto simp: reconcile_import_def Let_def split: if_splits prod.splits sum.splits
        dest!: k tame_calls(2,3) [OF assms(1)] intro: keeps_trans)
qed

lemma restore_keeps: "tame cw cnt \<Longrightarrow> restore_from_relay_backup cw c db = (out, db') \<Longrightarrow> keeps cnt db db'"
  by (auto simp: restore_from_relay_backup_def split: sum.splits prod.splits dest: import_keeps)

lemma recheck_keeps: "tame cw cnt \<Longrightarrow> recheck_quotes cw qs db = (vs, db') \<Longrightarrow> keeps cnt db db'"
proof (induction qs arbitrary: db vs db')
  case (Cons q qs)
  obtain r db1 where c: "cw_check_mintable cw q db = (r, db1)" by (cases "cw_check_mintable cw q db")
  obtain ws db2 where rest: "recheck_quotes cw qs db1 = (ws, db2)" by (cases "recheck_quotes cw qs db1")
  have "keeps cnt db1 db2" by (rule Cons.IH [OF Cons.prems(1) rest])
  then show ?case using Cons.prems(2) tame_calls(6) [OF Cons.prems(1) c] c rest by (auto intro: keeps_trans)
qed simp

lemma drain_keeps:
  assumes "tame cw cnt" and "strict_drain_unissued_after cw db = (after, db')"
  shows "keeps cnt db db'"
proof -
  obtain m db1 where m: "cw_mint_unissued_quotes cw db = (m, db1)" by (cases "cw_mint_unissued_quotes cw db")
  obtain g db2 where g: "cw_get_unissued cw db1 = (g, db2)" by (cases "cw_get_unissued cw db1")
  have "keeps cnt db db2" using tame_calls(4) [OF assms(1) m] tame_calls(5) [OF assms(1) g] by (rule keeps_trans)
  then show ?thesis using assms(2) m g
    by (auto simp: strict_drain_unissued_after_def split: sum.splits prod.splits dest!: recheck_keeps [OF assms(1)] intro: keeps_trans)
qed

text \<open>A drain that is complete: after minting, the unissued quotes were listed and the mint owed none of them anything.\<close>

lemma drain_clean:
  assumes "strict_drain_unissued_after cw db = (after, db')" and "drain_complete after"
  shows "\<exists>db1 qs db2. db1 = snd (cw_mint_unissued_quotes cw db) \<and> cw_get_unissued cw db1 = (Inr qs, db2)
    \<and> (\<exists>vs. recheck_quotes cw qs db2 = (vs, db') \<and> set vs \<subseteq> {ConfirmedUnpaid})"
proof -
  have "v = ConfirmedUnpaid" if "mintable_remaining vs = Some 0" "v \<in> set vs" for v vs
    using that by (cases v) (auto simp: mintable_remaining_def filter_empty_conv split: if_splits)
  then show ?thesis using assms
    by (auto simp: strict_drain_unissued_after_def drain_complete_def split: sum.splits prod.splits)
qed

section \<open>The recovery gate\<close>

lemma establish_result:
  "establish_if_sound ws level resume ca ta te fc db = (Inr b, db') \<Longrightarrow> b \<Longrightarrow> is_established db'"
  by (auto simp: establish_if_sound_def establish_def is_established_def split: if_splits sum.splits prod.splits)

definition recovered_by :: "('i, 'w, 'p, 'y, 'q) cdk_recovery \<Rightarrow> 'p reconcile_read \<Rightarrow> ('i, 'w) counter_db \<Rightarrow> bool" where
  "recovered_by cw read db \<longleftrightarrow> rm_authoritative read \<and> rm_decode_ok read
     \<and> (\<exists>n db1 db2 db3. reconcile_import cw (rm_candidates read) db = (Inr n, db1)
          \<and> strict_drain_unissued_after cw db2 = (Some 0, db3))"

lemma restore_ok_imported:
  "restore_from_relay_backup cw (Inr c) db = (out, db') \<Longrightarrow> restore_is_ok out \<longleftrightarrow> (\<exists>n. reconcile_import cw c db = (Inr n, db'))"
  by (auto simp: restore_from_relay_backup_def split: prod.splits sum.splits)

lemma restore_and_drain_gate:
  assumes "tame (rv_wallet env) cnt" and "restore_and_drain env read db = (converged, db')"
  shows "cd_counter_established db' = cd_counter_established db \<and> cd_recovery_complete db' = (converged \<or> cd_recovery_complete db)
    \<and> (converged \<longrightarrow> cd_counter_established db \<and> recovered_by (rv_wallet env) read db)"
proof -
  obtain out db1 where r: "restore_from_relay_backup (rv_wallet env) (Inr (rm_candidates read)) db = (out, db1)"
    by (cases "restore_from_relay_backup (rv_wallet env) (Inr (rm_candidates read)) db")
  obtain after db2 where d: "strict_drain_unissued_after (rv_wallet env) db1 = (after, db2)"
    by (cases "strict_drain_unissued_after (rv_wallet env) db1")
  have k: "keeps cnt db db2" using restore_keeps [OF assms(1) r] drain_keeps [OF assms(1) d] by (rule keeps_trans)
  have conv: "converged \<longleftrightarrow> cd_counter_established db2 \<and> rm_authoritative read \<and> after = Some 0 \<and> restore_is_ok out \<and> rm_decode_ok read"
    and db': "db' = (if converged then mark_recovery_complete db2 else db2)"
    using assms(2) by (auto simp: restore_and_drain_def r d Let_def retry_established_def drain_complete_def is_established_def)
  have "recovered_by (rv_wallet env) read db" if converged
    using that conv restore_ok_imported [OF r] d unfolding recovered_by_def by blast
  then show ?thesis using k conv db' by (auto simp: keeps_def mark_recovery_complete_def)
qed

lemma attempt_gate:
  assumes tame: "tame (rv_wallet env) cnt" and run: "try_establish_counter env s = (res, s')" and before: "\<not> is_recovery_complete (ry_db s)"
  shows "(res = Inr True \<longleftrightarrow> is_recovery_complete (ry_db s'))
    \<and> (res = Inr True \<longrightarrow> is_established (ry_db s')
        \<and> (\<exists>r read st r' db. reconcile_on_load_with_ids (rv_crypto env) (rv_transport env) (ry_nip60 s) r = (Inr read, st, r')
            \<and> recovered_by (rv_wallet env) read db))"
proof -
  obtain c r1 where c: "load_config_quorum (rv_crypto env) (rv_transport env) (ry_nip60 s) (ry_relays s) = (c, r1)"
    by (cases "load_config_quorum (rv_crypto env) (rv_transport env) (ry_nip60 s) (ry_relays s)")
  obtain t st r2 where t: "reconcile_on_load_with_ids (rv_crypto env) (rv_transport env) (ry_nip60 s) r1 = (t, st, r2)"
    by (cases "reconcile_on_load_with_ids (rv_crypto env) (rv_transport env) (ry_nip60 s) r1")
  show ?thesis
  proof (cases "\<exists>cr read. c = Inr cr \<and> t = Inr read")
    case False
    then show ?thesis using run before c t by (cases c; cases t) (auto simp: try_establish_counter_def)
  next
    case True
    then obtain cr read where ok: "c = Inr cr" "t = Inr read" by blast
    obtain level dropped where f: "config_floor (rv_parse env) (cr_config cr) = (level, dropped)"
      by (cases "config_floor (rv_parse env) (cr_config cr)")
    let ?est = "if is_established (ry_db s) then (Inr False, ry_db s)
        else establish_if_sound (rv_store env) level False (cr_config_authoritative cr) (rm_authoritative read) (token_plane_empty read) (\<not> dropped) (ry_db s)"
    obtain e db where e: "?est = (e, db)" by (cases ?est)
    have rec: "\<not> cd_recovery_complete db"
    proof (cases "is_established (ry_db s)")
      case False
      then have "establish_if_sound (rv_store env) level False (cr_config_authoritative cr) (rm_authoritative read)
          (token_plane_empty read) (\<not> dropped) (ry_db s) = (e, db)" using e by simp
      from establish_recovery [OF this] show ?thesis using before by (simp add: is_recovery_complete_def)
    qed (use e before in \<open>simp add: is_recovery_complete_def\<close>)
    have run': "(res, s') = (case e of Inl x \<Rightarrow> (Inl (''config-plane retry: establish decision: '' @ x), s\<lparr>ry_nip60 := st, ry_relays := r2, ry_db := db\<rparr>)
        | Inr fresh \<Rightarrow> if \<not> (is_established (ry_db s) \<or> fresh) then (Inr False, s\<lparr>ry_nip60 := st, ry_relays := r2, ry_db := db\<rparr>)
            else (case restore_and_drain env read db of (converged, db') \<Rightarrow> (Inr converged, s\<lparr>ry_nip60 := st, ry_relays := r2, ry_db := db'\<rparr>)))"
      by (cases "is_established (ry_db s)"; cases e)
        (use run e in \<open>auto simp: try_establish_counter_def c [unfolded ok] t [unfolded ok] f retry_should_proceed_def Let_def\<close>)
    show ?thesis
    proof (cases "\<exists>fresh. e = Inr fresh \<and> (is_established (ry_db s) \<or> fresh)")
      case False
      then show ?thesis using run' rec by (auto simp: is_recovery_complete_def split: sum.splits if_splits)
    next
      case True
      obtain conv db' where d: "restore_and_drain env read db = (conv, db')" by (cases "restore_and_drain env read db")
      have "res = Inr conv" "ry_db s' = db'" using run' True d by auto
      then show ?thesis using restore_and_drain_gate [OF tame d] rec t ok
        by (auto simp: is_recovery_complete_def is_established_def)
    qed
  qed
qed

text \<open>Nothing opens the gates before the recovery is complete. An attempt of the retry reports convergence
  exactly when it closed the recovery; then the counter was established, enough relays answered about the
  tokens, every event they returned decrypted, every new unspent candidate was imported without an error, and
  after the drain the mint owed no unissued quote anything. Until then no rollover and no configuration reaches
  the relays.\<close>

theorem recovery_gated:
  assumes "tame (rv_wallet env) cnt" and "try_establish_counter env s = (res, s')" and "\<not> is_recovery_complete (ry_db s)"
  shows "(res = Inr True \<longleftrightarrow> is_recovery_complete (ry_db s'))
    \<and> (res = Inr True \<longrightarrow> is_established (ry_db s')
        \<and> (\<exists>r read st r' db. reconcile_on_load_with_ids (rv_crypto env) (rv_transport env) (ry_nip60 s) r = (Inr read, st, r')
            \<and> recovered_by (rv_wallet env) read db))
    \<and> (res \<noteq> Inr True \<longrightarrow> (\<forall>mint u proofs older config r.
          snd (rollover (rv_crypto env) (rv_transport env) (ry_nip60 s') (is_recovery_complete (ry_db s')) mint u proofs older r) = r
          \<and> snd (publish_config (rv_crypto env) (rv_transport env) (ry_nip60 s') (is_recovery_complete (ry_db s')) config r) = r))"
proof -
  note gate = attempt_gate [OF assms]
  have "snd (rollover cry tr st False mint u proofs older r) = r" "snd (publish_config cry tr st False config r) = r"
    for cry :: "'c nip60_crypto" and tr :: "'f nip60_transport" and st mint u proofs older r config
    by (simp_all add: rollover_def publish_config_def)
  then show ?thesis using gate by auto
qed

section \<open>Boot\<close>

lemma collect_counters_finite: "finite (dom m) \<Longrightarrow> collect_counters parse xs m dropped = (m', d') \<Longrightarrow> finite (dom m')"
  by (induction parse xs m dropped rule: collect_counters.induct) (auto split: option.splits)

lemma read_rows_finite: "finite (dom m) \<Longrightarrow> read_counter_rows parse rows m dropped = (m', d') \<Longrightarrow> finite (dom m')"
  by (induction parse rows m dropped rule: read_counter_rows.induct) (auto split: option.splits if_splits)

lemma local_counters_finite: "read_local_keyset_counters parse table = (m, d) \<Longrightarrow> finite (dom m)"
  using read_rows_finite [of "\<lambda>i. None" parse _ False m d] by (auto simp: read_local_keyset_counters_def split: sum.splits)

lemma opened_above:
  assumes "open_persistent_wallet ws parse opened built level ca ta te fd = Inr db" and "counting ws cnt" and "finite (dom level)"
  shows "\<not> cd_recovery_complete db
    \<and> (cd_counter_established db \<longrightarrow> level i = Some f \<longrightarrow> unat f \<le> cnt (cd_inner db) i \<and> mirror_ge db i (unat f))"
proof -
  obtain w table where o: "opened = Inr (w, table)" using assms(1) by (auto simp: open_persistent_wallet_def split: sum.splits)
  obtain m d where m: "read_local_keyset_counters parse table = (m, d)" by (cases "read_local_keyset_counters parse table")
  let ?merged = "union_max_counters level m"
  let ?db0 = "with_counters_established w ?merged False"
  obtain e db1 where e: "establish_if_sound ws ?merged (wl_iter ws m \<noteq> []) ca ta te (\<not> fd \<and> \<not> d) ?db0 = (e, db1)"
    by (cases "establish_if_sound ws ?merged (wl_iter ws m \<noteq> []) ca ta te (\<not> fd \<and> \<not> d) ?db0")
  have run: "(\<exists>b. e = Inr b) \<and> db = db1"
    using assms(1) by (auto simp: open_persistent_wallet_def o m e Let_def split: sum.splits)
  have "dom ?merged \<subseteq> dom level \<union> dom m" by (auto simp: union_max_counters_def dom_def split: option.splits)
  then have fin: "finite (dom ?merged)" using assms(3) local_counters_finite [OF m] by (meson finite_UnI finite_subset)
  have fin0: "finite (dom (cd_shadow ?db0))" using fin by (simp add: with_counters_established_def)
  note lifts = established_lifts [OF e assms(2) fin fin0]
  have rec: "\<not> cd_recovery_complete db" using establish_recovery [OF e] run by (simp add: with_counters_established_def)
  have "unat f \<le> cnt (cd_inner db) i \<and> mirror_ge db i (unat f)" if est: "cd_counter_established db" and f: "level i = Some f"
  proof -
    have "e = Inr True" using lifts est run by (auto simp: with_counters_established_def split: if_splits)
    moreover have "\<exists>c. ?merged i = Some c \<and> f \<le> c" using f by (cases "m i") (auto simp: union_max_counters_def)
    then obtain c where c: "?merged i = Some c" "f \<le> c" by blast
    ultimately have "unat c \<le> cnt (cd_inner db1) i \<and> mirror_ge db1 i (unat c)" using lifts by auto
    then show ?thesis using c(2) run by (auto simp: mirror_ge_def word_le_nat_alt)
  qed
  then show ?thesis using rec by blast
qed

text \<open>From the open wallet to the booted one: the counters only rise, the latch of establishment stays, and the other
  closes only on a genuine recovery.\<close>

definition booted_from :: "('i, 'w, 'p, 'y, 'q, 'r) recovery_env \<Rightarrow> ('w \<Rightarrow> 'i \<Rightarrow> nat) \<Rightarrow> ('i, 'p) plane_reads \<Rightarrow> ('i, 'w) counter_db \<Rightarrow> ('i, 'w) counter_db \<Rightarrow> bool" where
  "booted_from env cnt planes db db' \<longleftrightarrow> cd_counter_established db' = cd_counter_established db
     \<and> (\<forall>i. cnt (cd_inner db) i \<le> cnt (cd_inner db') i)
     \<and> (\<forall>i n. mirror_ge db i n \<longrightarrow> mirror_ge db' i n) \<and> (finite (dom (cd_shadow db)) \<longrightarrow> finite (dom (cd_shadow db')))
     \<and> (cd_recovery_complete db' \<longrightarrow> cd_recovery_complete db
         \<or> cd_counter_established db \<and> (case pr_token_read planes of Some (Inr read) \<Rightarrow> (\<exists>db1. recovered_by (rv_wallet env) read db1)
             | Some (Inl e) \<Rightarrow> False | None \<Rightarrow> True))"

lemma finish_recovery_steps:
  assumes "tame (rv_wallet env) cnt" and "finish_recovery env restore_ok ra db = db'"
  shows "cd_counter_established db' = cd_counter_established db \<and> (\<forall>i. cnt (cd_inner db) i \<le> cnt (cd_inner db') i)
    \<and> (\<forall>i n. mirror_ge db i n \<longrightarrow> mirror_ge db' i n) \<and> (finite (dom (cd_shadow db)) \<longrightarrow> finite (dom (cd_shadow db')))
    \<and> (cd_recovery_complete db' \<longrightarrow> cd_recovery_complete db
        \<or> restore_ok \<and> ra \<and> (\<exists>db2. strict_drain_unissued_after (rv_wallet env) db = (Some 0, db2)))"
proof -
  obtain after db1 where d: "strict_drain_unissued_after (rv_wallet env) db = (after, db1)"
    by (cases "strict_drain_unissued_after (rv_wallet env) db")
  have "keeps cnt db db1" by (rule drain_keeps [OF assms(1) d])
  then show ?thesis using assms(2) d
    by (auto simp: finish_recovery_def keeps_def mark_recovery_complete_def mirror_ge_def drain_complete_def split: if_splits)
qed

lemma import_backup_steps:
  assumes "tame (rv_wallet env) cnt" and "import_backup env tr db = (ids, ra, ok, db')"
  shows "keeps cnt db db' \<and> (case tr of Some (Inr read) \<Rightarrow> ra = rm_authoritative read
      \<and> (ok \<longrightarrow> rm_decode_ok read \<and> (\<exists>n. reconcile_import (rv_wallet env) (rm_candidates read) db = (Inr n, db')))
    | Some (Inl e) \<Rightarrow> \<not> ra | None \<Rightarrow> True)"
proof (cases tr)
  case (Some r)
  show ?thesis
  proof (cases r)
    case (Inl e)
    obtain out db1 where "restore_from_relay_backup (rv_wallet env) (Inl e) db = (out, db1)"
      by (cases "restore_from_relay_backup (rv_wallet env) (Inl e) db")
    then show ?thesis using assms(2) Some Inl restore_keeps [OF assms(1)] by (auto simp: import_backup_def)
  next
    case (Inr read)
    obtain out db1 where r: "restore_from_relay_backup (rv_wallet env) (Inr (rm_candidates read)) db = (out, db1)"
      by (cases "restore_from_relay_backup (rv_wallet env) (Inr (rm_candidates read)) db")
    then show ?thesis using assms(2) Some Inr restore_keeps [OF assms(1) r] restore_ok_imported [OF r] by (auto simp: import_backup_def)
  qed
qed (use assms in \<open>auto simp: import_backup_def\<close>)

lemma boot_steps:
  assumes tame: "tame (rv_wallet env) cnt" and run: "boot_wallet env bi opened built r0 = (Inr bt, r')"
  shows "\<exists>store0 planes store r1 db0. connect_store bi = Inr store0 \<and> read_planes env store0 r0 = (Inr (planes, store), r1)
    \<and> open_persistent_wallet (rv_store env) (rv_parse env) opened built (pr_floor planes) (pr_config_authoritative planes)
        (pr_token_authoritative planes) (pr_token_empty planes) (pr_floor_dropped planes) = Inr db0
    \<and> booted_from env cnt planes db0 (bt_db bt) \<and> (store \<noteq> None \<longrightarrow> \<not> is_recovery_complete (bt_db bt) \<longrightarrow> bt_retry bt)"
proof -
  obtain store0 where c: "connect_store bi = Inr store0" using run by (auto simp: boot_wallet_def split: sum.splits)
  obtain pl r1 where "read_planes env store0 r0 = (pl, r1)" by (cases "read_planes env store0 r0")
  then obtain planes store where p: "read_planes env store0 r0 = (Inr (planes, store), r1)"
    using run c by (cases pl) (auto simp: boot_wallet_def)
  obtain db0 where o: "open_persistent_wallet (rv_store env) (rv_parse env) opened built (pr_floor planes) (pr_config_authoritative planes)
      (pr_token_authoritative planes) (pr_token_empty planes) (pr_floor_dropped planes) = Inr db0"
    using run c p by (auto simp: boot_wallet_def split: sum.splits)
  obtain sagas db1 where g: "cw_recover_sagas (rv_wallet env) db0 = (sagas, db1)" by (cases "cw_recover_sagas (rv_wallet env) db0")
  obtain ids ra ok db2 where i: "import_backup env (pr_token_read planes) db1 = (ids, ra, ok, db2)"
    by (cases "import_backup env (pr_token_read planes) db1")
  obtain bal db3 where b: "cw_total_balance (rv_wallet env) db2 = (bal, db3)" by (cases "cw_total_balance (rv_wallet env) db2")
  note imp = import_backup_steps [OF tame i]
  have keeps: "keeps cnt db0 db3"
    using tame_calls(7) [OF tame g] imp tame_calls(8) [OF tame b] by (blast intro: keeps_trans)
  define db4 where "db4 = (if store \<noteq> None \<and> is_established db3 then finish_recovery env ok ra db3 else db3)"
  have bt: "bt_db bt = db4" "store \<noteq> None \<longrightarrow> \<not> is_recovery_complete (bt_db bt) \<longrightarrow> bt_retry bt"
    using run c p o g i b by (auto simp: boot_wallet_def db4_def Let_def should_spawn_config_retry_def split: if_splits option.splits)
  have "booted_from env cnt planes db0 db4"
  proof (cases "store \<noteq> None \<and> is_established db3")
    case False
    then have "db4 = db3" by (auto simp: db4_def)
    then show ?thesis using keeps by (auto simp: booted_from_def keeps_def)
  next
    case True
    then have "finish_recovery env ok ra db3 = db4" by (simp add: db4_def)
    note fin = finish_recovery_steps [OF tame this]
    have upward: "cnt (cd_inner db0) j \<le> cnt (cd_inner db4) j" for j
      using keeps fin le_trans [of "cnt (cd_inner db0) j" "cnt (cd_inner db3) j"] by (simp add: keeps_def)
    have "case pr_token_read planes of Some (Inr read) \<Rightarrow> (\<exists>db1. recovered_by (rv_wallet env) read db1)
        | Some (Inl e) \<Rightarrow> False | None \<Rightarrow> True" if "ok" "ra" "\<exists>db2. strict_drain_unissued_after (rv_wallet env) db3 = (Some 0, db2)"
      using that imp unfolding recovered_by_def by (auto split: option.splits sum.splits)
    then show ?thesis using keeps fin upward True by (auto simp: booted_from_def keeps_def is_established_def)
  qed
  then show ?thesis using c p o bt by auto
qed

text \<open>What is above a counter stays so: its mirror, and, once established, its store.\<close>

definition above :: "('w \<Rightarrow> 'i \<Rightarrow> nat) \<Rightarrow> 'i \<Rightarrow> u32 \<Rightarrow> ('i, 'w) counter_db \<Rightarrow> bool" where
  "above cnt i f db \<longleftrightarrow> finite (dom (cd_shadow db)) \<and> mirror_ge db i (unat f)
     \<and> (cd_counter_established db \<longrightarrow> unat f \<le> cnt (cd_inner db) i)"

lemma above_keeps: "above cnt i f db \<Longrightarrow> keeps cnt db db' \<Longrightarrow> above cnt i f db'"
  using le_trans [of "unat f" "cnt (cd_inner db) i" "cnt (cd_inner db') i"] by (simp add: above_def keeps_def)

lemma above_marked [simp]: "above cnt i f (mark_recovery_complete db) = above cnt i f db"
  by (simp add: above_def mark_recovery_complete_def mirror_ge_def)

lemma above_establish:
  assumes "establish_if_sound ws level resume ca ta te fc db = (r, db')" and "counting ws cnt" and "finite (dom level)"
    and "above cnt i f db" and "\<not> cd_counter_established db"
  shows "above cnt i f db'"
proof -
  have fin: "finite (dom (cd_shadow db))" using assms(4) by (simp add: above_def)
  note lifts = established_lifts [OF assms(1-3) fin]
  have m: "mirror_ge db' i (unat f)" using lifts assms(4) by (simp add: above_def)
  have fin': "finite (dom (cd_shadow db'))" using lifts by simp
  have "unat f \<le> cnt (cd_inner db') i" if "cd_counter_established db'"
  proof -
    have r: "r = Inr True" using lifts that assms(5) by (auto split: if_splits)
    show ?thesis using mirror_seen [OF m] fast_forwarded_mirror [OF assms(1) [unfolded r] assms(2) fin, of i] by simp
  qed
  with m fin' show ?thesis by (simp add: above_def)
qed

lemma above_opened:
  assumes "open_persistent_wallet ws parse opened built level ca ta te fd = Inr db" and "counting ws cnt" and "finite (dom level)"
    and "level i = Some f"
  shows "above cnt i f db"
proof -
  obtain w table where o: "opened = Inr (w, table)" using assms(1) by (auto simp: open_persistent_wallet_def split: sum.splits)
  obtain m d where m: "read_local_keyset_counters parse table = (m, d)" by (cases "read_local_keyset_counters parse table")
  let ?merged = "union_max_counters level m"
  let ?db0 = "with_counters_established w ?merged False"
  obtain e db1 where e: "establish_if_sound ws ?merged (wl_iter ws m \<noteq> []) ca ta te (\<not> fd \<and> \<not> d) ?db0 = (e, db1)"
    by (cases "establish_if_sound ws ?merged (wl_iter ws m \<noteq> []) ca ta te (\<not> fd \<and> \<not> d) ?db0")
  have run: "db = db1" using assms(1) by (auto simp: open_persistent_wallet_def o m e Let_def split: sum.splits)
  have "dom ?merged \<subseteq> dom level \<union> dom m" by (auto simp: union_max_counters_def dom_def split: option.splits)
  then have fin: "finite (dom ?merged)" using assms(3) local_counters_finite [OF m] by (meson finite_UnI finite_subset)
  obtain c where "?merged i = Some c" "f \<le> c" using assms(4) by (cases "m i") (auto simp: union_max_counters_def)
  then have "above cnt i f ?db0" using fin
    by (simp add: above_def mirror_ge_def with_counters_established_def word_le_nat_alt)
  from above_establish [OF e assms(2) fin this] show ?thesis by (simp add: run with_counters_established_def)
qed

lemma above_drained:
  assumes "tame (rv_wallet env) cnt" and "restore_and_drain env read db = (converged, db')" and "above cnt i f db"
  shows "above cnt i f db'"
proof -
  obtain out db1 where r: "restore_from_relay_backup (rv_wallet env) (Inr (rm_candidates read)) db = (out, db1)"
    by (cases "restore_from_relay_backup (rv_wallet env) (Inr (rm_candidates read)) db")
  obtain after db2 where d: "strict_drain_unissued_after (rv_wallet env) db1 = (after, db2)"
    by (cases "strict_drain_unissued_after (rv_wallet env) db1")
  have "above cnt i f db2"
    by (rule above_keeps [OF above_keeps [OF assms(3) restore_keeps [OF assms(1) r]] drain_keeps [OF assms(1) d]])
  then show ?thesis using assms(2) by (auto simp: restore_and_drain_def r d Let_def split: if_splits)
qed

lemma above_attempt:
  assumes "tame (rv_wallet env) cnt" and "counting (rv_store env) cnt" and "try_establish_counter env s = (res, s')"
    and "above cnt i f (ry_db s)"
  shows "above cnt i f (ry_db s')"
proof -
  obtain c r1 where c: "load_config_quorum (rv_crypto env) (rv_transport env) (ry_nip60 s) (ry_relays s) = (c, r1)"
    by (cases "load_config_quorum (rv_crypto env) (rv_transport env) (ry_nip60 s) (ry_relays s)")
  obtain t st r2 where t: "reconcile_on_load_with_ids (rv_crypto env) (rv_transport env) (ry_nip60 s) r1 = (t, st, r2)"
    by (cases "reconcile_on_load_with_ids (rv_crypto env) (rv_transport env) (ry_nip60 s) r1")
  show ?thesis
  proof (cases "\<exists>cr read. c = Inr cr \<and> t = Inr read")
    case False
    then show ?thesis using assms(3,4) c t by (cases c; cases t) (auto simp: try_establish_counter_def)
  next
    case True
    then obtain cr read where ok: "c = Inr cr" "t = Inr read" by blast
    obtain level dropped where l: "config_floor (rv_parse env) (cr_config cr) = (level, dropped)"
      by (cases "config_floor (rv_parse env) (cr_config cr)")
    have fin: "finite (dom level)" using l collect_counters_finite [of "\<lambda>i. None"]
      by (auto simp: config_floor_def counters_by_id_checked_def split: option.splits)
    let ?est = "if is_established (ry_db s) then (Inr False, ry_db s)
        else establish_if_sound (rv_store env) level False (cr_config_authoritative cr) (rm_authoritative read) (token_plane_empty read) (\<not> dropped) (ry_db s)"
    obtain e db where e: "?est = (e, db)" by (cases ?est)
    have up: "above cnt i f db"
    proof (cases "is_established (ry_db s)")
      case False
      then have "establish_if_sound (rv_store env) level False (cr_config_authoritative cr) (rm_authoritative read)
          (token_plane_empty read) (\<not> dropped) (ry_db s) = (e, db)" using e by simp
      from above_establish [OF this assms(2) fin assms(4)] False show ?thesis by (simp add: is_established_def)
    qed (use e assms(4) in simp)
    have "ry_db s' = db \<or> (\<exists>conv. restore_and_drain env read db = (conv, ry_db s'))"
      using assms(3) e by (cases "is_established (ry_db s)"; cases e)
        (auto simp: try_establish_counter_def c [unfolded ok] t [unfolded ok] l retry_should_proceed_def Let_def
          split: if_splits prod.splits)
    then show ?thesis using up above_drained [OF assms(1) _ up] by auto
  qed
qed

text \<open>The process after boot: derivations, with the index each starts at, attempts of the bounded retry, and whatever the wallet
  library and the rest of the daemon do otherwise, in any order.\<close>

inductive after_boot ::
  "('i, 'w, 'p, 'y, 'q, 'r) recovery_env \<Rightarrow> ('w \<Rightarrow> 'i \<Rightarrow> nat) \<Rightarrow> ('i, 'w, 'r) recovery \<Rightarrow> ('i \<times> nat) list \<Rightarrow> ('i, 'w, 'r) recovery \<Rightarrow> bool"
  for env cnt s0 where
  ab_start: "after_boot env cnt s0 [] s0"
| ab_derive: "after_boot env cnt s0 ds s \<Longrightarrow> increment_keyset_counter (rv_store env) i c (ry_db s) = (Inr n, db) \<Longrightarrow>
    after_boot env cnt s0 (ds @ [(i, unat n - unat c)]) (s\<lparr>ry_db := db\<rparr>)"
| ab_refused: "after_boot env cnt s0 ds s \<Longrightarrow> increment_keyset_counter (rv_store env) i c (ry_db s) = (Inl e, db) \<Longrightarrow>
    after_boot env cnt s0 ds (s\<lparr>ry_db := db\<rparr>)"
| ab_retry: "after_boot env cnt s0 ds s \<Longrightarrow> try_establish_counter env s = (res, s') \<Longrightarrow> after_boot env cnt s0 ds s'"
| ab_library: "after_boot env cnt s0 ds s \<Longrightarrow> keeps cnt (ry_db s) db \<Longrightarrow>
    after_boot env cnt s0 ds (s\<lparr>ry_db := db, ry_nip60 := st, ry_relays := r\<rparr>)"

lemma after_boot_above:
  "after_boot env cnt s0 ds s \<Longrightarrow> tame (rv_wallet env) cnt \<Longrightarrow> counting (rv_store env) cnt \<Longrightarrow> above cnt i f (ry_db s0) \<Longrightarrow>
     above cnt i f (ry_db s) \<and> (\<forall>start. (i, start) \<in> set ds \<longrightarrow> unat f \<le> start)"
proof (induction rule: after_boot.induct)
  case ab_start
  then show ?case by simp
next
  case (ab_derive ds s j c n db)
  from ab_derive.IH [OF ab_derive.prems] have up: "above cnt i f (ry_db s)"
    and ds: "\<forall>start. (i, start) \<in> set ds \<longrightarrow> unat f \<le> start" by simp_all
  note step = derive_steps [OF ab_derive.hyps(2) ab_derive.prems(2)]
  have est: "cd_counter_established (ry_db s)" and n: "unat n = cnt (cd_inner (ry_db s)) j + unat c"
    by (rule step(5) [OF refl, THEN conjunct1] step(5) [OF refl, THEN conjunct2, THEN conjunct1])+
  have le: "unat f \<le> cnt (cd_inner (ry_db s)) i" using up est by (simp add: above_def)
  have "unat f \<le> cnt (cd_inner db) i" using le step(1) le_trans by blast
  then have "above cnt i f db" using up step(2-4) by (simp add: above_def)
  moreover have "unat f \<le> unat n - unat c" if "j = i" using le n that by simp
  ultimately show ?case using ds by auto
next
  case (ab_refused ds s j c e db)
  from ab_refused.IH [OF ab_refused.prems] have up: "above cnt i f (ry_db s)"
    and ds: "\<forall>start. (i, start) \<in> set ds \<longrightarrow> unat f \<le> start" by simp_all
  note step = derive_steps [OF ab_refused.hyps(2) ab_refused.prems(2)]
  have "cnt (cd_inner (ry_db s)) i \<le> cnt (cd_inner db) i" using step(1) by blast
  then have "above cnt i f db"
    using up step(2-4) le_trans [of "unat f" "cnt (cd_inner (ry_db s)) i" "cnt (cd_inner db) i"] by (auto simp: above_def)
  with ds show ?case by simp
next
  case (ab_retry ds s res s')
  then show ?case using above_attempt [OF ab_retry.prems(1,2) ab_retry.hyps(2)] by simp
next
  case (ab_library ds s db st r)
  then show ?case using above_keeps [OF _ ab_library.hyps(2)] by simp
qed

text \<open>C31: A restored box derives above its backup. If a boot with relays succeeds and the configuration it read
  carried a counter for a keyset, then every derivation made for this keyset after the boot, in this process, starts at or above
  that counter, whatever the local store held: the first and all later ones, whether the boot established the counter or deferred it
  to an attempt of the bounded retry, and whatever that attempt read. It rests on a store that counts and on a wallet library that
  lowers no counter of the store or the mirror.\<close>

theorem boot_above_backup:
  assumes "counting (rv_store env) cnt" and "tame (rv_wallet env) cnt"
    and "boot_wallet env bi opened built r0 = (Inr bt, r')" and "connect_store bi = Inr (Some st)"
    and "load_config_quorum (rv_crypto env) (rv_transport env) st r0 = (Inr cr, r1)" and "cr_config cr = Some config"
    and "counters_by_id (rv_parse env) config i = Some f"
    and "after_boot env cnt \<lparr>ry_db = bt_db bt, ry_nip60 = st', ry_relays = r2\<rparr> ds s" and "(i, start) \<in> set ds"
  shows "unat f \<le> start"
proof -
  obtain planes store rr db0 where b: "read_planes env (Some st) r0 = (Inr (planes, store), rr)"
    "open_persistent_wallet (rv_store env) (rv_parse env) opened built (pr_floor planes) (pr_config_authoritative planes)
        (pr_token_authoritative planes) (pr_token_empty planes) (pr_floor_dropped planes) = Inr db0"
    "booted_from env cnt planes db0 (bt_db bt)"
    using boot_steps [OF assms(2,3)] assms(4) by auto
  obtain level dropped where lv: "counters_by_id_checked (rv_parse env) config = (level, dropped)"
    by (cases "counters_by_id_checked (rv_parse env) config")
  have pf: "pr_floor planes = level"
    using b(1) by (auto simp: read_planes_def assms(5,6) config_floor_def lv split: prod.splits)
  have fin: "finite (dom (pr_floor planes))"
    using collect_counters_finite [of "\<lambda>i. None"] lv pf by (auto simp: counters_by_id_checked_def)
  have f: "pr_floor planes i = Some f" using assms(7) pf lv by (simp add: counters_by_id_def)
  have "above cnt i f db0" by (rule above_opened [OF b(2) assms(1) fin f])
  moreover have "cnt (cd_inner db0) i \<le> cnt (cd_inner (bt_db bt)) i" using b(3) by (simp add: booted_from_def)
  moreover have "mirror_ge (bt_db bt) i (unat f)" "finite (dom (cd_shadow (bt_db bt)))"
      "cd_counter_established (bt_db bt) \<longrightarrow> cd_counter_established db0"
    using b(3) calculation(1) by (auto simp: above_def booted_from_def is_established_def)
  ultimately have "above cnt i f (bt_db bt)"
    using le_trans [of "unat f" "cnt (cd_inner db0) i" "cnt (cd_inner (bt_db bt)) i"] unfolding above_def by blast
  then have "above cnt i f (ry_db \<lparr>ry_db = bt_db bt, ry_nip60 = st', ry_relays = r2\<rparr>)" by simp
  from after_boot_above [OF assms(8,2,1) this] assms(9) show ?thesis by blast
qed

text \<open>Boot closes the recovery only for good. After a boot with relays, the recovery counts as complete only
  if the counter was established and the token read was answered by enough relays, every event of it
  decrypted, its import succeeded and the drain was clean; otherwise the bounded retry is started.\<close>

theorem boot_gated:
  assumes "counting (rv_store env) cnt" and "tame (rv_wallet env) cnt"
    and "boot_wallet env bi opened built r0 = (Inr bt, r')" and "connect_store bi = Inr (Some st)"
  shows "if is_recovery_complete (bt_db bt)
    then is_established (bt_db bt) \<and> (\<exists>r read st' r1 db. reconcile_on_load_with_ids (rv_crypto env) (rv_transport env) st r = (Inr read, st', r1)
      \<and> recovered_by (rv_wallet env) read db)
    else bt_retry bt"
proof -
  obtain planes store rr db0 where b: "read_planes env (Some st) r0 = (Inr (planes, store), rr)"
    "open_persistent_wallet (rv_store env) (rv_parse env) opened built (pr_floor planes) (pr_config_authoritative planes)
        (pr_token_authoritative planes) (pr_token_empty planes) (pr_floor_dropped planes) = Inr db0"
    "booted_from env cnt planes db0 (bt_db bt)" "store \<noteq> None \<longrightarrow> \<not> is_recovery_complete (bt_db bt) \<longrightarrow> bt_retry bt"
    using boot_steps [OF assms(2,3)] assms(4) by auto
  obtain cr r1 where c: "load_config_quorum (rv_crypto env) (rv_transport env) st r0 = (Inr cr, r1)"
    using b(1) by (auto simp: read_planes_def split: sum.splits prod.splits)
  obtain level dropped where lv: "config_floor (rv_parse env) (cr_config cr) = (level, dropped)"
    by (cases "config_floor (rv_parse env) (cr_config cr)")
  obtain read st' r2 where t: "reconcile_on_load_with_ids (rv_crypto env) (rv_transport env) st r1 = (read, st', r2)"
    by (cases "reconcile_on_load_with_ids (rv_crypto env) (rv_transport env) st r1")
  have pl: "pr_floor planes = level" "pr_token_read planes = Some read" "store = Some st'"
    using b(1) by (auto simp: read_planes_def c lv t)
  have "finite (dom level)"
    using lv collect_counters_finite [of "\<lambda>i. None"] by (auto simp: config_floor_def counters_by_id_checked_def split: option.splits)
  then have "\<not> cd_recovery_complete db0" using opened_above [OF b(2) assms(1)] pl(1) by blast
  then have gate: "is_recovery_complete (bt_db bt) \<Longrightarrow> is_established (bt_db bt) \<and> (\<exists>rd db. read = Inr rd \<and> recovered_by (rv_wallet env) rd db)"
    using b(3) pl(2) by (cases read) (auto simp: booted_from_def is_recovery_complete_def is_established_def)
  show ?thesis
  proof (cases "is_recovery_complete (bt_db bt)")
    case True
    then obtain rd db where "read = Inr rd" "recovered_by (rv_wallet env) rd db" using gate by blast
    moreover from this have "reconcile_on_load_with_ids (rv_crypto env) (rv_transport env) st r1 = (Inr rd, st', r2)" using t by simp
    ultimately have "\<exists>r read st' r1 db. reconcile_on_load_with_ids (rv_crypto env) (rv_transport env) st r = (Inr read, st', r1)
      \<and> recovered_by (rv_wallet env) read db" by (intro exI conjI)
    then show ?thesis using gate True by simp
  next
    case False
    then show ?thesis using b(4) pl(3) by simp
  qed
qed

section \<open>A small mint and relay\<close>

definition sample_cdk :: "(bool, bool \<Rightarrow> u32, string, string, string) cdk_recovery" where
  "sample_cdk = \<lparr>cw_y = Some, cw_get_proofs = (\<lambda>db. (Inr [], db)), cw_check_proofs_spent = (\<lambda>ps db. (Inr (map (\<lambda>p. (p, Unspent)) ps), db)),
     cw_receive_proofs = (\<lambda>ps db. (Inr (of_nat (length ps)), db)), cw_mint_unissued_quotes = (\<lambda>db. (Inr 0, db)),
     cw_get_unissued = (\<lambda>db. (Inr [], db)), cw_check_mintable = (\<lambda>q db. (Inr 0, db)), cw_recover_sagas = (\<lambda>db. (Inr (), db)),
     cw_total_balance = (\<lambda>db. (Inr 0, db))\<rparr>"

definition sample_config :: wallet_config_content where
  "sample_config = \<lparr>wcc_mints = [''m''], wcc_counters = [(''k'', 5)]\<rparr>"

definition sample_config_crypto :: "string nip60_crypto" where
  "sample_config_crypto = sample_crypto\<lparr>nx_encrypt_config := (\<lambda>c. if c = sample_config then Inr ''x'' else Inl ''e''),
     nx_decrypt_config := (\<lambda>s. Inr sample_config)\<rparr>"

text \<open>A relay that keeps the newest configuration and no token event.\<close>

definition sample_config_relay :: "backup_event option nip60_transport" where
  "sample_config_relay = \<lparr>nt_send = (\<lambda>k ct tags r. (Inr \<lparr>so_event_id = ''i'', so_acks = 1\<rparr>,
       if k = KIND_NIP60_WALLET_CONFIG
       then (let ev = \<lparr>be_id = ''i'', be_created_at = 0, be_content = ct\<rparr>
             in case r of None \<Rightarrow> Some ev | Some old \<Rightarrow> if heads_below old ev then Some ev else r) else r)),
     nt_fetch = (\<lambda>k r. (Inr [], r)),
     nt_fetch_per_relay = (\<lambda>k r. (Inr \<lparr>pl_served = 1, pl_total = 1,
       pl_events = (if k = KIND_NIP60_WALLET_CONFIG then (case r of None \<Rightarrow> [] | Some e \<Rightarrow> [e]) else [])\<rparr>, r))\<rparr>"

definition sample_config_held :: "backup_event option \<Rightarrow> nat \<Rightarrow> backup_event set" where
  "sample_config_held r j = (if j = 0 then set_option r else {})"

definition sample_recovery_env :: "(bool, bool \<Rightarrow> u32, string, string, string, backup_event option) recovery_env" where
  "sample_recovery_env = \<lparr>rv_store = sample_wallet, rv_wallet = sample_cdk, rv_crypto = sample_config_crypto,
     rv_transport = sample_config_relay, rv_parse = (\<lambda>s. Some True), rv_hex = (\<lambda>i. ''k'')\<rparr>"

lemma sample_tame: "tame sample_cdk cnt"
  by (simp add: tame_def sample_cdk_def)

lemma sample_config_relays: "config_relays sample_config_relay 1 sample_config_held"
proof -
  have one: "{j. j < (1::nat) \<and> (\<exists>h\<in>sample_config_held r j. heads_below ev h)} = (if \<exists>h\<in>set_option r. heads_below ev h then {0} else {})" for ev r
    by (auto simp: sample_config_held_def)
  have cov: "covered k 1 sample_config_held ev r \<longleftrightarrow> k = 0 \<or> k = 1 \<and> (\<exists>h\<in>set_option r. heads_below ev h)" for k ev r
    unfolding covered_def one by auto
  have other: "\<exists>ev. be_content ev = ct \<and> be_id ev = ''i'' \<and> heads_below ev x"
    if "\<not> heads_below x \<lparr>be_id = ''i'', be_created_at = 0, be_content = ct\<rparr>" for x ct
    using that heads_below_total by (intro exI [of _ "\<lparr>be_id = ''i'', be_created_at = 0, be_content = ct\<rparr>"]) auto
  show ?thesis unfolding config_relays_def cov
    by (intro conjI)
      (auto simp: sample_config_relay_def sample_config_held_def Let_def KIND_NIP60_WALLET_CONFIG_def
        intro!: exI [of _ "{0::nat}"] intro: heads_below_trans other exI [of _ "\<lparr>be_id = ''i'', be_created_at = 0, be_content = _\<rparr>"]
        split: option.splits if_splits)
qed

theorem import_exact_witness:
  "\<exists>swapped db2 db'. cw_receive_proofs sample_cdk swapped db2 = (Inr 1, db') \<and> ''p'' \<in> set swapped
    \<and> reconcile_import sample_cdk [''p''] (counter_db_new (\<lambda>i. 0)) = (Inr 1, db')"
proof -
  have run: "reconcile_import sample_cdk [''p''] (counter_db_new (\<lambda>i. 0)) = (Inr 1, counter_db_new (\<lambda>i. 0))"
    by (simp add: reconcile_import_def known_ys_def novel_only_def keep_unspent_def sample_cdk_def)
  have known: "known_ys sample_cdk (counter_db_new (\<lambda>i. 0)) = (Inr [], counter_db_new (\<lambda>i. 0))"
    by (simp add: known_ys_def sample_cdk_def)
  from import_exact [where cw = sample_cdk and candidates = "[''p'']" and db = "counter_db_new (\<lambda>i. 0)"] obtain novel states db2 swapped
    where r: "\<forall>p. p \<in> set novel \<longleftrightarrow> p \<in> set [''p''] \<and> (\<exists>y. cw_y sample_cdk p = Some y \<and> y \<notin> set [])"
      "cw_check_proofs_spent sample_cdk novel (counter_db_new (\<lambda>i. 0)) = (Inr states, db2)"
      "cw_receive_proofs sample_cdk swapped db2 = (Inr 1, counter_db_new (\<lambda>i. 0))"
      "\<forall>p. p \<in> set swapped \<longleftrightarrow> p \<in> set [''p''] \<and> (\<exists>y. cw_y sample_cdk p = Some y \<and> y \<notin> set [] \<and> (y, Unspent) \<in> set states)"
    unfolding run known by auto
  have "''p'' \<in> set novel" using r(1) by (simp add: sample_cdk_def)
  then have "(''p'', Unspent) \<in> set states" using r(2) by (auto simp: sample_cdk_def)
  then have "''p'' \<in> set swapped" using r(4) by (simp add: sample_cdk_def)
  then show ?thesis using r(3) run by blast
qed

theorem config_roundtrip_witness:
  "counters_by_id_checked (\<lambda>s. Some (s = ''t'')) (from_counters sample_wallet (\<lambda>i. if i then ''t'' else ''f'') [True \<mapsto> 5] [''m'']) = ([True \<mapsto> 5], False)"
  using config_roundtrip [of "\<lambda>s. Some (s = ''t'')" "\<lambda>i. if i then ''t'' else ''f''" sample_wallet "[True \<mapsto> 5]" "[''m'']"]
  by (simp add: sample_wallet_def fun_eq_iff)

definition sample_head :: backup_event where
  "sample_head = \<lparr>be_id = ''i'', be_created_at = 0, be_content = ''x''\<rparr>"

definition sample_restore_store :: nip60_store where
  "sample_restore_store = \<lparr>ns_n = 1, ns_k = 1, ns_read_k = 1, ns_mint_allowlist = [''m''], ns_read_established = False\<rparr>"

lemma sample_publish:
  "publish_config sample_config_crypto sample_config_relay sample_restore_store True sample_config None = (Inr ''i'', Some sample_head)"
  by (simp add: publish_config_def sample_config_crypto_def sample_config_relay_def sample_restore_store_def sample_head_def)

lemma sample_load:
  "load_config_quorum sample_config_crypto sample_config_relay sample_restore_store (Some sample_head)
    = (Inr \<lparr>cr_config = Some sample_config, cr_served = 1, cr_total = 1, cr_read_k = 1, cr_config_authoritative = True\<rparr>, Some sample_head)"
  by (simp add: load_config_quorum_def sample_config_crypto_def sample_config_relay_def sample_restore_store_def lww_head_def
      sample_config_def)

lemma sample_tokens:
  "reconcile_on_load_with_ids sample_config_crypto sample_config_relay sample_restore_store r
    = (Inr \<lparr>rm_fetched_ids = [], rm_served = 1, rm_total = 1, rm_read_k = 1, rm_authoritative = True, rm_decode_ok = True,
        rm_raw_events_empty = True, rm_candidates = []\<rparr>, sample_restore_store\<lparr>ns_read_established := True\<rparr>, r)"
  by (simp add: reconcile_on_load_with_ids_def sample_config_relay_def sample_restore_store_def KIND_NIP60_TOKEN_def
      KIND_NIP60_WALLET_CONFIG_def reconcile_token_set_def)

theorem head_is_seen_witness:
  "\<exists>h c. heads_below sample_head h \<and> nx_decrypt_config sample_config_crypto (be_content h) = Inr c
    \<and> Some sample_config = Some (c\<lparr>wcc_mints := filter (\<lambda>m. m \<in> set (ns_mint_allowlist sample_restore_store)) (wcc_mints c)\<rparr>)"
proof -
  from head_is_seen [OF sample_config_relays _ sample_publish traffic_none sample_load] obtain ev h c where
    "nx_encrypt_config sample_config_crypto sample_config = Inr (be_content ev)" "be_id ev = ''i''" "heads_below ev h"
    "nx_decrypt_config sample_config_crypto (be_content h) = Inr c"
    "Some sample_config = Some (c\<lparr>wcc_mints := filter (\<lambda>m. m \<in> set (ns_mint_allowlist sample_restore_store)) (wcc_mints c)\<rparr>)"
    by (auto simp: sample_restore_store_def)
  then show ?thesis by (intro exI [of _ sample_head] exI [of _ c]) (simp add: sample_config_crypto_def)
qed

definition sample_recovery :: "(bool, bool \<Rightarrow> u32, backup_event option) recovery" where
  "sample_recovery = \<lparr>ry_db = with_counters_established (\<lambda>i. 0) (\<lambda>i. None) False, ry_nip60 = sample_restore_store, ry_relays = Some sample_head\<rparr>"

lemma sample_establish:
  "establish_if_sound sample_wallet [True \<mapsto> 5] False True True True True (with_counters_established (\<lambda>i. 0) m False)
    = (Inr True, \<lparr>cd_inner = (\<lambda>i. if i then 5 else 0), cd_shadow = [True \<mapsto> 5], cd_counter_established = True, cd_recovery_complete = False\<rparr>)"
  if "m = (\<lambda>i. None) \<or> m = [True \<mapsto> 5]"
  using that by (auto simp: establish_if_sound_def should_establish_counter_def sample_wallet_def fast_forward_inner_to_floor_def
    seed_floor_def observe_counter_def with_counters_established_def establish_def checked_add_def fun_eq_iff)

lemma sample_drain: "strict_drain_unissued_after sample_cdk db = (Some 0, db)"
  by (simp add: strict_drain_unissued_after_def sample_cdk_def mintable_remaining_def)

lemma sample_attempt:
  "\<exists>s'. try_establish_counter sample_recovery_env sample_recovery = (Inr True, s')"
  using sample_establish [of "\<lambda>i. None"]
  by (simp add: try_establish_counter_def sample_recovery_env_def sample_recovery_def sample_load sample_tokens config_floor_def
      counters_by_id_checked_def sample_config_def with_counters_established_def is_established_def token_plane_empty_def
      retry_should_proceed_def restore_and_drain_def restore_from_relay_backup_def reconcile_import_def sample_drain
      drain_complete_def retry_established_def)

theorem recovery_gated_witness:
  "\<exists>s'. try_establish_counter sample_recovery_env sample_recovery = (Inr True, s') \<and> is_recovery_complete (ry_db s') \<and> is_established (ry_db s')"
proof -
  obtain s' where s': "try_establish_counter sample_recovery_env sample_recovery = (Inr True, s')" using sample_attempt by blast
  have "tame (rv_wallet sample_recovery_env) (\<lambda>w i. unat (w i))" by (simp add: sample_recovery_env_def sample_tame)
  moreover have "\<not> is_recovery_complete (ry_db sample_recovery)"
    by (simp add: sample_recovery_def with_counters_established_def is_recovery_complete_def)
  ultimately show ?thesis using recovery_gated [OF _ s'] s' by blast
qed

definition sample_boot :: boot_inputs where
  "sample_boot = \<lparr>bi_nip60 = \<lparr>n60_relays = [''r''], n60_write_k = None, n60_read_k = None, n60_backup_flush_secs = None\<rparr>,
     bi_fleet_relay = ''f'', bi_mint_allowlist = [''m''], bi_mint_url = ''m'', bi_treasury_remaining = 0, bi_saga_timeout = False\<rparr>"

lemma sample_connect: "connect_store sample_boot = Inr (Some sample_restore_store)"
  by (simp add: connect_store_def sample_boot_def nip60_resolve_checked_def nip60_resolve_def clamp_quorum_def
      quorum_intersection_ok_def nip60_connect_def sample_restore_store_def)

lemma sample_opened:
  "open_persistent_wallet sample_wallet parse (Inr (\<lambda>i. 0, Inr [])) (Inr ()) [True \<mapsto> 5] True True True False
    = Inr \<lparr>cd_inner = (\<lambda>i. if i then 5 else 0), cd_shadow = [True \<mapsto> 5], cd_counter_established = True, cd_recovery_complete = False\<rparr>"
proof -
  have m: "union_max_counters [True \<mapsto> 5] (\<lambda>i. None) = [True \<mapsto> 5 :: u32]" by (simp add: union_max_counters_def fun_eq_iff)
  have i: "wl_iter sample_wallet (\<lambda>i. None) = []" by (simp add: sample_wallet_def)
  show ?thesis using sample_establish [of "[True \<mapsto> 5]"]
    by (simp add: open_persistent_wallet_def read_local_keyset_counters_def m i)
qed

lemma sample_booted:
  "\<exists>bt r'. boot_wallet sample_recovery_env sample_boot (Inr (\<lambda>i. 0, Inr [])) (Inr ()) (Some sample_head) = (Inr bt, r')
    \<and> bt_db bt = \<lparr>cd_inner = (\<lambda>i. if i then 5 else 0), cd_shadow = [True \<mapsto> 5], cd_counter_established = True, cd_recovery_complete = True\<rparr>"
proof -
  have planes: "read_planes sample_recovery_env (Some sample_restore_store) (Some sample_head)
      = (Inr (\<lparr>pr_floor = [True \<mapsto> 5], pr_floor_dropped = False, pr_config_authoritative = True, pr_token_authoritative = True,
          pr_token_empty = True, pr_token_read = Some (Inr \<lparr>rm_fetched_ids = [], rm_served = 1, rm_total = 1, rm_read_k = 1,
            rm_authoritative = True, rm_decode_ok = True, rm_raw_events_empty = True, rm_candidates = []\<rparr>)\<rparr>,
          Some (sample_restore_store\<lparr>ns_read_established := True\<rparr>)), Some sample_head)"
    by (simp add: read_planes_def sample_recovery_env_def sample_load sample_tokens config_floor_def counters_by_id_checked_def
        sample_config_def token_plane_empty_def)
  have sagas: "cw_recover_sagas sample_cdk db = (Inr (), db)" "cw_total_balance sample_cdk db = (Inr 0, db)" for db
    by (simp_all add: sample_cdk_def)
  have env: "rv_store sample_recovery_env = sample_wallet" "rv_wallet sample_recovery_env = sample_cdk"
    by (simp_all add: sample_recovery_env_def)
  have bi: "\<not> bi_saga_timeout sample_boot" "bi_treasury_remaining sample_boot = 0" by (simp_all add: sample_boot_def)
  show ?thesis unfolding boot_wallet_def sample_connect sum.case planes prod.case env
    by (simp add: sample_opened sagas env bi import_backup_def restore_from_relay_backup_def reconcile_import_def
        assert_wallet_backs_counter_def finish_recovery_def sample_drain drain_complete_def is_established_def
        mark_recovery_complete_def Let_def)
qed

text \<open>A boot that could not read the rows of its store defers; an attempt of the retry establishes the counter; the wallet derives
  at 5 and then at 6.\<close>

lemma sample_deferred:
  "\<exists>bt r'. boot_wallet sample_recovery_env sample_boot (Inr (\<lambda>i. 0, Inr [Inl ''io''])) (Inr ()) (Some sample_head) = (Inr bt, r')
    \<and> bt_db bt = with_counters_established (\<lambda>i. 0) [True \<mapsto> 5] False"
proof -
  have planes: "read_planes sample_recovery_env (Some sample_restore_store) (Some sample_head)
      = (Inr (\<lparr>pr_floor = [True \<mapsto> 5], pr_floor_dropped = False, pr_config_authoritative = True, pr_token_authoritative = True,
          pr_token_empty = True, pr_token_read = Some (Inr \<lparr>rm_fetched_ids = [], rm_served = 1, rm_total = 1, rm_read_k = 1,
            rm_authoritative = True, rm_decode_ok = True, rm_raw_events_empty = True, rm_candidates = []\<rparr>)\<rparr>,
          Some (sample_restore_store\<lparr>ns_read_established := True\<rparr>)), Some sample_head)"
    by (simp add: read_planes_def sample_recovery_env_def sample_load sample_tokens config_floor_def counters_by_id_checked_def
        sample_config_def token_plane_empty_def)
  have m: "union_max_counters [True \<mapsto> 5] (\<lambda>i. None) = [True \<mapsto> 5 :: u32]" by (simp add: union_max_counters_def fun_eq_iff)
  have opened: "open_persistent_wallet sample_wallet parse (Inr (\<lambda>i. 0, Inr [Inl ''io''])) (Inr ()) [True \<mapsto> 5] True True True False
      = Inr (with_counters_established (\<lambda>i. 0) [True \<mapsto> 5] False)" for parse
    by (simp add: open_persistent_wallet_def read_local_keyset_counters_def m establish_if_sound_def should_establish_counter_def)
  have sagas: "cw_recover_sagas sample_cdk db = (Inr (), db)" "cw_total_balance sample_cdk db = (Inr 0, db)" for db
    by (simp_all add: sample_cdk_def)
  have env: "rv_store sample_recovery_env = sample_wallet" "rv_wallet sample_recovery_env = sample_cdk"
    by (simp_all add: sample_recovery_env_def)
  have bi: "\<not> bi_saga_timeout sample_boot" "bi_treasury_remaining sample_boot = 0" by (simp_all add: sample_boot_def)
  have est: "\<not> is_established (with_counters_established w m False)" for w :: "bool \<Rightarrow> u32" and m :: "bool counters"
    by (simp add: is_established_def with_counters_established_def)
  show ?thesis unfolding boot_wallet_def sample_connect sum.case planes prod.case env
    by (simp add: opened sagas env bi est import_backup_def restore_from_relay_backup_def reconcile_import_def
        assert_wallet_backs_counter_def Let_def)
qed

theorem boot_above_backup_witness:
  "\<exists>bt r' s. boot_wallet sample_recovery_env sample_boot (Inr (\<lambda>i. 0, Inr [Inl ''io''])) (Inr ()) (Some sample_head) = (Inr bt, r')
    \<and> \<not> is_established (bt_db bt)
    \<and> after_boot sample_recovery_env (\<lambda>w i. unat (w i))
        \<lparr>ry_db = bt_db bt, ry_nip60 = sample_restore_store, ry_relays = Some sample_head\<rparr> [(True, 5), (True, 6)] s
    \<and> unat (5 :: u32) \<le> 6"
proof -
  obtain bt r' where b: "boot_wallet sample_recovery_env sample_boot (Inr (\<lambda>i. 0, Inr [Inl ''io''])) (Inr ()) (Some sample_head) = (Inr bt, r')"
      "bt_db bt = with_counters_established (\<lambda>i. 0) [True \<mapsto> 5] False"
    using sample_deferred by blast
  let ?s0 = "\<lparr>ry_db = bt_db bt, ry_nip60 = sample_restore_store, ry_relays = Some sample_head\<rparr>"
  have est: "is_established (with_counters_established (\<lambda>i. 0) [True \<mapsto> 5] False :: (bool, bool \<Rightarrow> u32) counter_db) = False"
    by (simp add: is_established_def with_counters_established_def)
  have e: "establish_if_sound sample_wallet [True \<mapsto> 5] False True True True True (with_counters_established (\<lambda>i. 0) [True \<mapsto> 5] False)
    = (Inr True, \<lparr>cd_inner = (\<lambda>i. if i then 5 else 0), cd_shadow = [True \<mapsto> 5], cd_counter_established = True, cd_recovery_complete = False\<rparr>)"
    by (rule sample_establish) simp
  have empty: "token_plane_empty \<lparr>rm_fetched_ids = [], rm_served = 1, rm_total = 1, rm_read_k = 1, rm_authoritative = True,
      rm_decode_ok = True, rm_raw_events_empty = True, rm_candidates = [] :: string list\<rparr>"
    by (simp add: token_plane_empty_def)
  have "\<exists>s1. try_establish_counter sample_recovery_env ?s0 = (Inr True, s1)
      \<and> ry_db s1 = \<lparr>cd_inner = (\<lambda>i. if i then 5 else 0), cd_shadow = [True \<mapsto> 5], cd_counter_established = True, cd_recovery_complete = True\<rparr>"
    using e empty
    by (simp add: b(2) est try_establish_counter_def sample_recovery_env_def sample_load sample_tokens config_floor_def
      counters_by_id_checked_def sample_config_def retry_should_proceed_def restore_and_drain_def restore_from_relay_backup_def
      reconcile_import_def sample_drain drain_complete_def retry_established_def)
       (simp add: Let_def is_established_def mark_recovery_complete_def)
  then obtain s1 where s1: "try_establish_counter sample_recovery_env ?s0 = (Inr True, s1)"
    "ry_db s1 = \<lparr>cd_inner = (\<lambda>i. if i then 5 else 0), cd_shadow = [True \<mapsto> 5], cd_counter_established = True, cd_recovery_complete = True\<rparr>"
    by blast
  obtain d1 where d1: "increment_keyset_counter (rv_store sample_recovery_env) True 1 (ry_db s1) = (Inr 6, d1)"
    "cd_counter_established d1" "cd_inner d1 = (\<lambda>i. if i then 6 else 0)"
    by (simp add: s1(2) increment_keyset_counter_def sample_recovery_env_def sample_wallet_def checked_add_def fun_eq_iff)
  obtain d2 where d2: "increment_keyset_counter (rv_store sample_recovery_env) True 1 d1 = (Inr 7, d2)"
    by (simp add: d1(2,3) increment_keyset_counter_def sample_recovery_env_def sample_wallet_def checked_add_def)
  have env: "counting (rv_store sample_recovery_env) (\<lambda>w i. unat (w i))" "tame (rv_wallet sample_recovery_env) (\<lambda>w i. unat (w i))"
    by (simp_all add: sample_recovery_env_def sample_tame sample_counting)
  have "after_boot sample_recovery_env (\<lambda>w i. unat (w i)) ?s0 [(True, 5)] (s1\<lparr>ry_db := d1\<rparr>)"
    using ab_derive [OF ab_retry [OF ab_start s1(1)] d1(1)] by simp
  from ab_derive [OF this, of True 1 7 d2] d2
  have run: "after_boot sample_recovery_env (\<lambda>w i. unat (w i)) ?s0 [(True, 5), (True, 6)] (s1\<lparr>ry_db := d2\<rparr>)" by simp
  have load: "load_config_quorum (rv_crypto sample_recovery_env) (rv_transport sample_recovery_env) sample_restore_store (Some sample_head)
    = (Inr \<lparr>cr_config = Some sample_config, cr_served = 1, cr_total = 1, cr_read_k = 1, cr_config_authoritative = True\<rparr>, Some sample_head)"
    by (simp add: sample_recovery_env_def sample_load)
  have "counters_by_id (rv_parse sample_recovery_env) sample_config True = Some 5"
    by (simp add: counters_by_id_def counters_by_id_checked_def sample_config_def sample_recovery_env_def)
  from boot_above_backup [OF env b(1) sample_connect load _ this run, of 6] run b
  show ?thesis by (auto simp: is_established_def with_counters_established_def)
qed

theorem boot_gated_witness:
  "\<exists>bt r'. boot_wallet sample_recovery_env sample_boot (Inr (\<lambda>i. 0, Inr [])) (Inr ()) (Some sample_head) = (Inr bt, r')
    \<and> is_recovery_complete (bt_db bt) \<and> is_established (bt_db bt)"
proof -
  obtain bt r' where b: "boot_wallet sample_recovery_env sample_boot (Inr (\<lambda>i. 0, Inr [])) (Inr ()) (Some sample_head) = (Inr bt, r')"
      "bt_db bt = \<lparr>cd_inner = (\<lambda>i. if i then 5 else 0), cd_shadow = [True \<mapsto> 5], cd_counter_established = True, cd_recovery_complete = True\<rparr>"
    using sample_booted by blast
  have env: "counting (rv_store sample_recovery_env) (\<lambda>w i. unat (w i))" "tame (rv_wallet sample_recovery_env) (\<lambda>w i. unat (w i))"
    by (simp_all add: sample_recovery_env_def sample_tame sample_counting)
  have "is_recovery_complete (bt_db bt)" by (simp add: b(2) is_recovery_complete_def)
  then show ?thesis using boot_gated [OF env b(1) sample_connect] b(1) by auto
qed

end
