(* ===== verification/Engram_Props.thy ===== *)
theory Engram_Props
  imports Engram Wallet_Recovery_Props
begin

text \<open>
  What the durable memory promises: frames come back as they were, each from one byte string only, and what was
  written last is what is read, however many writes failed half way.
\<close>

section \<open>Frames\<close>

lemma be_digits2: "be_digits 2 n = [char_of (n div 256 mod 256), char_of (n mod 256)]"
  by (simp add: numeral_2_eq_2)

lemma be_val2: "be_val [a, b] = of_char a * 256 + of_char b"
  by (simp add: be_val_def)

lemma digits_of_val2: "be_digits 2 (be_val [a, b]) = [a, b]"
proof -
  have "(of_char a * 256 + of_char b :: nat) div 256 = of_char a" "(of_char a * 256 + of_char b :: nat) mod 256 = of_char b"
    "(of_char a :: nat) mod 256 = of_char a"
    using nat_of_char_less_256 [of a] nat_of_char_less_256 [of b] by auto
  then show ?thesis unfolding be_digits2 be_val2 by simp
qed

lemma drop_header [simp]: "drop (3 + n) (a # b # c # xs) = drop n xs"
  by (simp add: numeral_3_eq_3)

lemma frame_roundtrip':
  assumes "length (ef_slug f) \<le> 65535" and "valid_utf8 (ef_slug f)"
  shows "frame_decode (frame_encode f) = Inr f"
proof -
  let ?n = "length (ef_slug f)"
  obtain x y where xy: "be_digits 2 ?n = [x, y]" by (simp add: be_digits2)
  have "be_val [x, y] = ?n" using be_val_digits [of 2 ?n] assms unfolding xy by simp
  then show ?thesis
    using assms by (auto simp: frame_encode_def frame_decode_def xy Let_def min_def FRAME_LIVE_def FRAME_TOMBSTONE_def
        intro!: engram_frame.equality)
qed

text \<open>A frame is its bytes. A frame whose slug fits decodes from its encoding as it was; and whatever decodes
  is the encoding of the result, so no two byte strings stand for one frame and nothing of a foreign one is
  ignored.\<close>

theorem frame_roundtrip:
  "(length (ef_slug f) \<le> 65535 \<and> valid_utf8 (ef_slug f) \<longrightarrow> frame_decode (frame_encode f) = Inr f)
    \<and> (frame_decode bs = Inr f \<longrightarrow> frame_encode f = bs)"
proof (intro conjI impI)
  show "length (ef_slug f) \<le> 65535 \<and> valid_utf8 (ef_slug f) \<Longrightarrow> frame_decode (frame_encode f) = Inr f"
    using frame_roundtrip' by blast
next
  assume d: "frame_decode bs = Inr f"
  then have "3 \<le> length bs" by (auto simp: frame_decode_def split: if_splits)
  then obtain m a b rest where bs: "bs = m # a # b # rest" by (metis One_nat_def Suc_le_length_iff numeral_3_eq_3)
  let ?n = "be_val [a, b]"
  have n: "?n \<le> 65535" unfolding be_val2 using nat_of_char_less_256 [of a] nat_of_char_less_256 [of b] by linarith
  have m: "m = FRAME_LIVE \<or> m = FRAME_TOMBSTONE" and len: "?n \<le> length rest"
    and f: "f = \<lparr>ef_tombstone = (m = FRAME_TOMBSTONE), ef_slug = take ?n rest, ef_value = drop ?n rest\<rparr>"
    using d by (auto simp: frame_decode_def bs Let_def split: if_splits)
  have "(if ef_tombstone f then FRAME_TOMBSTONE else FRAME_LIVE) = m" using m f by auto
  moreover have "length (ef_slug f) = ?n" using len f by simp
  ultimately show "frame_encode f = bs"
    using n len by (simp add: frame_encode_def Let_def min_absorb1 digits_of_val2 bs) (simp add: f)
qed

theorem frame_roundtrip_witness:
  "frame_decode (frame_encode (frame_live ''core'' ''v'')) = Inr (frame_live ''core'' ''v'')"
  using frame_roundtrip [of "frame_live ''core'' ''v''"] ascii_valid_utf8 [of "''core''"]
  by (simp add: frame_live_def is_ascii_def in_range_def)

section \<open>The relays of the memory\<close>

text \<open>
  What NIP-01 documents of relays for addressable events of one author: a relay that acknowledged one holds it, or one of
  the same address that supersedes it, from then on; a send adds nothing but the event sent, which may arrive although the
  send failed; a read changes nothing.
\<close>

type_synonym 'r engram_held = "'r \<Rightarrow> nat \<Rightarrow> (string \<times> backup_event) set"

definition held_at :: "nat \<Rightarrow> nat \<Rightarrow> 'r engram_held \<Rightarrow> string \<Rightarrow> backup_event \<Rightarrow> 'r \<Rightarrow> bool" where
  "held_at k n held d ev r \<longleftrightarrow> k \<le> card {j. j < n \<and> (\<exists>h. (d, h) \<in> held r j \<and> heads_below ev h)}"

definition engram_relays :: "'r engram_client \<Rightarrow> nat \<Rightarrow> 'r engram_held \<Rightarrow> bool" where
  "engram_relays cl n held \<longleftrightarrow>
     (\<forall>kd content tags at r res r' d. ec_send cl kd content tags at r = (res, r') \<longrightarrow> event_dtag tags = Some d \<longrightarrow>
        (\<exists>e. res = Inl e) \<and> held r' = held r
        \<or> (\<exists>ev. be_content ev = content \<and> be_created_at ev = at
            \<and> (\<forall>j. held r' j \<subseteq> insert (d, ev) (held r j))
            \<and> (\<forall>k d e. held_at k n held d e r \<longrightarrow> held_at k n held d e r')
            \<and> (\<forall>acks. res = Inr acks \<longrightarrow> held_at acks n held d ev r')))
     \<and> (\<forall>d r res r'. ec_fetch cl d r = (res, r') \<longrightarrow> held r' = held r)"

text \<open>A fetch answered by the relays \<open>R\<close>.\<close>

definition answered :: "'r engram_held \<Rightarrow> nat set \<Rightarrow> string \<Rightarrow> 'r \<Rightarrow> (string list list \<times> backup_event) list \<Rightarrow> bool" where
  "answered held R d r events \<longleftrightarrow> snd ` set events = {h. \<exists>j\<in>R. (d, h) \<in> held r j}"

lemma engram_fetch: "engram_relays cl n held \<Longrightarrow> ec_fetch cl d r = (res, r') \<Longrightarrow> held r' = held r"
  by (drule engram_relays_def [THEN iffD1, THEN conjunct2, rule_format], assumption)

lemma engram_send:
  "engram_relays cl n held \<Longrightarrow> ec_send cl kd content tags at r = (res, r') \<Longrightarrow> event_dtag tags = Some d \<Longrightarrow>
    (\<exists>e. res = Inl e) \<and> held r' = held r
    \<or> (\<exists>ev. be_content ev = content \<and> be_created_at ev = at
        \<and> (\<forall>j. held r' j \<subseteq> insert (d, ev) (held r j))
        \<and> (\<forall>k d e. held_at k n held d e r \<longrightarrow> held_at k n held d e r')
        \<and> (\<forall>acks. res = Inr acks \<longrightarrow> held_at acks n held d ev r'))"
  by (drule engram_relays_def [THEN iffD1, THEN conjunct1, rule_format], assumption+)

section \<open>Recall\<close>

text \<open>What the store relies on in its encryption: a sealed frame opens as it was.\<close>

definition engram_sealing :: "engram_crypto \<Rightarrow> bool" where
  "engram_sealing cry \<longleftrightarrow> (\<forall>bs ct. ey_nip44_encrypt cry bs = Inr ct \<longrightarrow> ey_nip44_decrypt cry ct = Inr bs)"

text \<open>
  Writes, reads and restarts in any order, with the frames the store tried to publish, whatever became of them. A
  restarted store begins with an empty clock and replay cache over the relays as they are. \<open>floor\<close> bounds the times of
  what former lives of the store, and whoever else wrote under this key, left there: within one life the wall clock may
  stand still or go back, but it is past the floor. The clock of the store does not run out.
\<close>

inductive engram_run ::
  "engram_config \<Rightarrow> engram_crypto \<Rightarrow> 'r engram_client \<Rightarrow> u64 \<times> 'r engram_state \<Rightarrow> engram_frame list
     \<Rightarrow> u64 \<times> 'r engram_state \<Rightarrow> bool" for cfg cry cl x0 where
  er_start: "engram_run cfg cry cl x0 [] x0"
| er_publish: "engram_run cfg cry cl x0 fs (floor, s) \<Longrightarrow> floor < now \<Longrightarrow> es_clock s < - 1 \<Longrightarrow> valid_utf8 (ef_slug f) \<Longrightarrow>
    length (ef_slug f) \<le> 65535 \<Longrightarrow> engram_publish cfg cry cl now f s = (res, s') \<Longrightarrow> engram_run cfg cry cl x0 (fs @ [f]) (floor, s')"
| er_head: "engram_run cfg cry cl x0 fs (floor, s) \<Longrightarrow> read_head cry cl slug s = (got, s') \<Longrightarrow> engram_run cfg cry cl x0 fs (floor, s')"
| er_list: "engram_run cfg cry cl x0 fs (floor, s) \<Longrightarrow> list_slugs cry cl s = (slugs, s') \<Longrightarrow> engram_run cfg cry cl x0 fs (floor, s')"
| er_commit: "engram_run cfg cry cl x0 fs (floor, s) \<Longrightarrow> engram_run cfg cry cl x0 fs (floor, s\<lparr>es_committed := c\<rparr>)"
| er_restart: "engram_run cfg cry cl x0 fs (floor, s) \<Longrightarrow> engram_connect relays write_k bps (es_relays s) = Inr (cfg', s') \<Longrightarrow>
    engram_run cfg cry cl x0 fs (max floor (es_clock s), s')"

definition seals :: "engram_crypto \<Rightarrow> string \<times> backup_event \<Rightarrow> engram_frame \<Rightarrow> bool" where
  "seals cry e f \<longleftrightarrow> engram_decrypt cry (be_content (snd e)) = Inr f \<and> fst e = engram_dtag cry (ef_slug f)"

text \<open>Everything held is dated at or below the floor or the clock.\<close>

definition memory_ok :: "'r engram_held \<Rightarrow> u64 \<times> 'r engram_state \<Rightarrow> bool" where
  "memory_ok held = (\<lambda>(floor, s). \<forall>j. \<forall>(d, h)\<in>held (es_relays s) j. be_created_at h \<le> max floor (es_clock s))"

text \<open>What relays hold now and did not before seals frames tried since.\<close>

definition added_since :: "engram_crypto \<Rightarrow> 'r engram_held \<Rightarrow> 'r \<Rightarrow> engram_frame list \<Rightarrow> 'r \<Rightarrow> bool" where
  "added_since cry held r fs r' \<longleftrightarrow> (\<forall>j. \<forall>e\<in>held r' j. e \<in> (\<Union>i. held r i) \<or> (\<exists>f\<in>set fs. seals cry e f))"

lemma engram_dtag_found [simp]: "event_dtag [[''d'', d], [''p'', p]] = Some d" by simp

text \<open>One publish: the clock rises; either nothing reached a relay or one event did, and if enough acknowledged, it is held.\<close>

lemma publish_cases:
  assumes relays: "engram_relays cl n held" and crypto: "engram_sealing cry"
    and f: "valid_utf8 (ef_slug f)" "length (ef_slug f) \<le> 65535"
    and run: "engram_publish cfg cry cl now f s = (res, s')"
  shows "es_clock s' = max now (es_clock s + 1)
    \<and> ((\<exists>e. res = Inl e) \<and> held (es_relays s') = held (es_relays s)
      \<or> (\<exists>ev. seals cry (engram_dtag cry (ef_slug f), ev) f \<and> be_created_at ev = es_clock s'
          \<and> (\<forall>j. held (es_relays s') j \<subseteq> insert (engram_dtag cry (ef_slug f), ev) (held (es_relays s) j))
          \<and> (\<forall>k d e. held_at k n held d e (es_relays s) \<longrightarrow> held_at k n held d e (es_relays s'))
          \<and> (res = Inr () \<longrightarrow> (\<exists>acks. eg_k cfg \<le> acks \<and> held_at acks n held (engram_dtag cry (ef_slug f)) ev (es_relays s')))))"
proof -
  let ?d = "engram_dtag cry (ef_slug f)"
  let ?at = "max now (es_clock s + 1)"
  show ?thesis
  proof (cases "ey_nip44_encrypt cry (frame_encode f)")
    case (Inl e)
    then show ?thesis using run by (auto simp: engram_publish_def next_created_at_def engram_event_builder_def engram_encrypt_def Let_def)
  next
    case (Inr ct)
    have "engram_decrypt cry ct = Inr f"
      using crypto Inr frame_roundtrip' [OF f(2,1)] by (simp add: engram_sealing_def engram_decrypt_def)
    then have seals: "seals cry (?d, ev) f" if "be_content ev = ct" for ev using that by (simp add: seals_def)
    let ?tags = "[[''d'', ?d], [''p'', ey_author cry]]"
    obtain sres r where send: "ec_send cl KIND_ENGRAM ct ?tags ?at (es_relays s) = (sres, r)"
      by (cases "ec_send cl KIND_ENGRAM ct ?tags ?at (es_relays s)")
    have s': "es_clock s' = ?at \<and> es_relays s' = r" and res: "res = Inr () \<longleftrightarrow> (\<exists>acks. sres = Inr acks \<and> eg_k cfg \<le> acks)"
      and err: "(\<exists>e. sres = Inl e) \<longrightarrow> (\<exists>e. res = Inl e)"
      using run Inr send
      by (auto simp: engram_publish_def next_created_at_def engram_event_builder_def engram_encrypt_def Let_def split: sum.splits if_splits)
    from engram_send [OF relays send engram_dtag_found] show ?thesis
    proof (elim disjE exE conjE)
      fix e assume "sres = Inl e" "held r = held (es_relays s)"
      then show ?thesis using s' err by simp
    next
      fix ev assume ev: "be_content ev = ct" "be_created_at ev = ?at" "\<forall>j. held r j \<subseteq> insert (?d, ev) (held (es_relays s) j)"
        "\<forall>k d e. held_at k n held d e (es_relays s) \<longrightarrow> held_at k n held d e r" "\<forall>acks. sres = Inr acks \<longrightarrow> held_at acks n held ?d ev r"
      have "res = Inr () \<longrightarrow> (\<exists>acks. eg_k cfg \<le> acks \<and> held_at acks n held ?d ev r)" using res ev(5) by blast
      then show ?thesis using s' seals [OF ev(1)] ev(2-4) by (intro conjI disjI2 exI [of _ ev]) simp_all
    qed
  qed
qed

lemma clock_rises: "c < - 1 \<Longrightarrow> c < max now (c + 1)" for c now :: u64
proof -
  assume "c < - 1"
  then have "unat c < 2 ^ 64 - 1" by (simp add: word_less_nat_alt unat_max_word)
  then have "unat c + unat (1 :: u64) < 2 ^ LENGTH(64)" by simp
  from unat_add_exact [OF this] have "unat (c + 1) = unat c + 1" by simp
  then have "c < c + 1" by (simp add: word_less_nat_alt)
  then show ?thesis by (simp add: less_max_iff_disj)
qed

lemma publish_later: "floor < now \<Longrightarrow> c < - 1 \<Longrightarrow> max floor c < max now (c + 1)" for c now floor :: u64
  using clock_rises [of c now] by (metis less_max_iff_disj max_less_iff_conj)

lemma quiet_reads:
  assumes "engram_relays cl n held"
  shows "read_head cry cl slug s = (got, s') \<Longrightarrow> es_clock s' = es_clock s \<and> held (es_relays s') = held (es_relays s)"
    and "list_slugs cry cl s = (slugs, s') \<Longrightarrow> es_clock s' = es_clock s \<and> held (es_relays s') = held (es_relays s)"
  by (auto simp: read_head_def list_slugs_def split: prod.splits sum.splits dest: engram_fetch [OF assms])

lemma engram_run_ok:
  assumes relays: "engram_relays cl n held" and crypto: "engram_sealing cry"
  shows "engram_run cfg cry cl x0 fs x \<Longrightarrow> memory_ok held x0 \<Longrightarrow> memory_ok held x
    \<and> added_since cry held (es_relays (snd x0)) fs (es_relays (snd x))
    \<and> (\<forall>k d e. held_at k n held d e (es_relays (snd x0)) \<longrightarrow> held_at k n held d e (es_relays (snd x)))"
proof (induction rule: engram_run.induct)
  case er_start
  then show ?case by (auto simp: added_since_def)
next
  case (er_publish fs floor s now f res s')
  have IH: "memory_ok held (floor, s)" "added_since cry held (es_relays (snd x0)) fs (es_relays s)"
      "\<forall>k d e. held_at k n held d e (es_relays (snd x0)) \<longrightarrow> held_at k n held d e (es_relays s)"
    using er_publish.IH [OF er_publish.prems] by simp_all
  note step = publish_cases [OF relays crypto er_publish.hyps(4,5,6)]
  have clock: "max floor (es_clock s) < es_clock s'" using step publish_later [OF er_publish.hyps(2,3)] by simp
  then have below: "be_created_at h \<le> max floor (es_clock s')" if "(d, h) \<in> held (es_relays s) j" for d h j
    using IH(1) that unfolding memory_ok_def by (fastforce simp: le_max_iff_disj)
  from step [THEN conjunct2] show ?case
  proof (elim disjE exE conjE)
    fix e assume same: "held (es_relays s') = held (es_relays s)"
    show ?case using IH below by (auto simp: memory_ok_def added_since_def held_at_def same)
  next
    fix ev :: backup_event
    let ?e = "(engram_dtag cry (ef_slug f), ev)"
    assume ev: "seals cry ?e f" "be_created_at ev = es_clock s'"
      "\<forall>j. held (es_relays s') j \<subseteq> insert ?e (held (es_relays s) j)"
      "\<forall>k d e. held_at k n held d e (es_relays s) \<longrightarrow> held_at k n held d e (es_relays s')"
    have "memory_ok held (floor, s')" using below ev(2,3) unfolding memory_ok_def by (fastforce simp: le_max_iff_disj)
    moreover have "added_since cry held (es_relays (snd x0)) (fs @ [f]) (es_relays s')"
      using IH(2) ev(1,3) unfolding added_since_def by fastforce
    ultimately show ?case using IH(3) ev(4) by simp
  qed
next
  case (er_head fs floor s slug got s')
  then show ?case using quiet_reads(1) [OF relays er_head.hyps(2)] by (simp add: memory_ok_def held_at_def added_since_def)
next
  case (er_list fs floor s slugs s')
  then show ?case using quiet_reads(2) [OF relays er_list.hyps(2)] by (simp add: memory_ok_def held_at_def added_since_def)
next
  case (er_commit fs floor s c)
  then show ?case by (simp add: memory_ok_def)
next
  case (er_restart fs floor s relays write_k bps cfg' s')
  then have "es_relays s' = es_relays s" by (auto simp: engram_connect_def split: if_splits)
  then show ?case using er_restart.IH [OF er_restart.prems] by (auto simp: memory_ok_def le_max_iff_disj split_beta)
qed

text \<open>A fetch that enough relays answered finds the last durable frame of its slug, or one tried since.\<close>

lemma head_of_slug:
  assumes new: "seals cry (d, ev) g0" "\<forall>j h. (d, h) \<in> held r1 j \<longrightarrow> be_created_at h < be_created_at ev"
      "\<forall>j. held r2 j \<subseteq> insert (d, ev) (held r1 j)" "added_since cry held r2 fs r3"
    and held: "held_at k n held d ev r3" and R: "R \<subseteq> {..<n}" "n < card R + k"
    and events: "answered held R d r3 events"
  shows "\<exists>h g. lww_head (map snd events) = Some h \<and> engram_decrypt cry (be_content h) = Inr g \<and> g \<in> set (g0 # fs)
    \<and> engram_dtag cry (ef_slug g) = d"
proof -
  obtain j h0 where h0: "j \<in> R" "(d, h0) \<in> held r3 j" "heads_below ev h0"
    using thresholds_meet [OF R(1) order_refl held [unfolded held_at_def] R(2)] by blast
  have h0_in: "h0 \<in> set (map snd events)" using events h0(1,2) unfolding answered_def by auto
  obtain h where h: "h \<in> set (map snd events)" "lww_head (map snd events) = Some h" "heads_below h0 h"
    using lww_head_greatest [OF h0_in] by blast
  have up: "heads_below ev h" using heads_below_trans [OF h0(3) h(3)] .
  have "h \<in> snd ` set events" using h(1) by simp
  then obtain i where i: "i \<in> R" "(d, h) \<in> held r3 i" unfolding events [unfolded answered_def] by blast
  have old: "(d, h) \<notin> held r1 l" for l using new(2) up by (fastforce simp: heads_below_def)
  have "(d, h) \<in> (\<Union>l. held r2 l) \<or> (\<exists>f\<in>set fs. seals cry (d, h) f)" using new(4) i(2) unfolding added_since_def by blast
  then have "h = ev \<or> (\<exists>f\<in>set fs. seals cry (d, h) f)" using new(3) old by blast
  then obtain g where "g \<in> set (g0 # fs)" "seals cry (d, h) g" using new(1) by auto
  then show ?thesis using h(2) by (auto simp: seals_def)
qed

definition frame_of :: "memory_req \<Rightarrow> engram_frame" where
  "frame_of m = (if memory_op_of m = Op_Set then frame_live (mr_slug m) (mr_value m) else frame_tombstone (mr_slug m))"

lemma write_publishes:
  assumes relays: "engram_relays cl n held" and run: "engram_write sha cfg cry cl now m token s = (Inr w, s')" "mw_committed w = Commit_Stored"
  shows "\<exists>s1 s2 c. es_clock s1 = es_clock s \<and> held (es_relays s1) = held (es_relays s)
    \<and> engram_publish cfg cry cl now (frame_of m) s1 = (Inr (), s2) \<and> s' = s2\<lparr>es_committed := c\<rparr>"
proof -
  obtain res s2 where e: "engram_effect sha cfg cry cl now m s = (Inr res, s2)" "s' = s2\<lparr>es_committed := (es_committed s2)(token \<mapsto> res)\<rparr>"
    using run by (auto simp: engram_write_def split: if_splits option.splits prod.splits sum.splits)
  show ?thesis
  proof (cases "memory_op_of m")
    case Op_Set
    then have "engram_publish cfg cry cl now (frame_of m) s = (Inr (), s2)"
      using e(1) by (auto simp: engram_effect_def frame_of_def split: if_splits prod.splits sum.splits)
    then show ?thesis using e(2) by blast
  next
    case Op_Rm
    obtain got s1 where r: "read_head cry cl (mr_slug m) s = (got, s1)" by (cases "read_head cry cl (mr_slug m) s")
    have "engram_publish cfg cry cl now (frame_of m) s1 = (Inr (), s2)"
      using e(1) Op_Rm r by (auto simp: engram_effect_def frame_of_def split: prod.splits sum.splits)
    then show ?thesis using e(2) quiet_reads(1) [OF relays r] by blast
  qed (use e in \<open>simp_all add: engram_effect_def\<close>)
qed

text \<open>C10: What was written last is recalled. Over relays that may already hold anything, and after any history of writes and
  reads by this store and earlier lives of it, once a write was acknowledged by its quorum, and whatever was written, failed
  half way, read or restarted since, a GET of its slug that enough relays answered returns that write or a later attempt on the
  same slug: its value, or nothing if it was a removal; without a later attempt, exactly what was written. This needs relays
  that keep what they acknowledged until it is superseded, a wall clock that is past what former lives wrote (within a life it may
  stand still or go back), a slug of at most 65535 bytes, and that no other slug written since has this slug's address.\<close>

theorem memory_recalled:
  assumes relays: "engram_relays cl n held" and crypto: "engram_sealing cry"
    and start: "\<forall>j. \<forall>(d, h)\<in>held (es_relays s0) j. be_created_at h \<le> floor0"
    and before: "engram_run cfg cry cl (floor0, s0) fs (floor1, s1)"
    and stored: "engram_write sha cfg cry cl now m token s1 = (Inr w, s2)" "mw_committed w = Commit_Stored"
      "floor1 < now" "es_clock s1 < - 1" "valid_utf8 (mr_slug m)" "length (mr_slug m) \<le> 65535"
    and after: "engram_run cfg cry cl (floor1, s2) later (floor3, s3)"
    and apart: "\<forall>f\<in>set later. engram_dtag cry (ef_slug f) = engram_dtag cry (mr_slug m) \<longrightarrow> ef_slug f = mr_slug m"
    and get: "memory_op_of g = Op_Get" "mr_slug g = mr_slug m"
    and answer: "ec_fetch cl (Some (engram_dtag cry (mr_slug m))) (es_relays s3) = (Inr events, r)"
      "answered held R (engram_dtag cry (mr_slug m)) (es_relays s3) events" "R \<subseteq> {..<n}" "n < card R + eg_k cfg"
  shows "\<exists>f\<in>set (frame_of m # filter (\<lambda>f. ef_slug f = mr_slug m) later).
    fst (engram_read sha cry cl g s3) = Inr (if ef_tombstone f
      then \<lparr>mm_found = False, mm_value = [], mm_slugs = [], mm_content_hash = [], mm_write_status = Status_Unspecified\<rparr>
      else \<lparr>mm_found = True, mm_value = ef_value f, mm_slugs = [], mm_content_hash = sha (ef_value f), mm_write_status = Status_Unspecified\<rparr>)"
proof -
  let ?slug = "mr_slug m"
  let ?d = "engram_dtag cry ?slug"
  have slug: "ef_slug (frame_of m) = ?slug" by (simp add: frame_of_def frame_live_def frame_tombstone_def)
  have "memory_ok held (floor0, s0)" using start by (fastforce simp: memory_ok_def le_max_iff_disj)
  note ok1 = engram_run_ok [OF relays crypto before this, THEN conjunct1]
  obtain s1' s1'' c where p: "es_clock s1' = es_clock s1" "held (es_relays s1') = held (es_relays s1)"
      "engram_publish cfg cry cl now (frame_of m) s1' = (Inr (), s1'')" "s2 = s1''\<lparr>es_committed := c\<rparr>"
    using write_publishes [OF relays stored(1,2)] by blast
  have u: "valid_utf8 (ef_slug (frame_of m))" "length (ef_slug (frame_of m)) \<le> 65535" using stored(5,6) slug by simp_all
  obtain ev acks where ev: "seals cry (?d, ev) (frame_of m)" "be_created_at ev = max now (es_clock s1 + 1)"
      "\<forall>j. held (es_relays s2) j \<subseteq> insert (?d, ev) (held (es_relays s1) j)" "eg_k cfg \<le> acks" "held_at acks n held ?d ev (es_relays s2)"
    using publish_cases [OF relays crypto u p(3)] slug p(1,2,4) by auto
  have newest: "\<forall>j h. (?d, h) \<in> held (es_relays s1) j \<longrightarrow> be_created_at h < be_created_at ev"
    using ok1 publish_later [OF stored(3,4)] unfolding memory_ok_def ev(2) by (fastforce intro: le_less_trans)
  have ok1': "memory_ok held (floor1, s1')" using ok1 p(1,2) by (simp add: memory_ok_def)
  have "es_clock s1' < - 1" using stored(4) p(1) by simp
  from engram_run_ok [OF relays crypto er_publish [OF er_start stored(3) this u p(3)] ok1', THEN conjunct1]
  have ok2: "memory_ok held (floor1, s2)" using p(4) by (simp add: memory_ok_def)
  have since: "added_since cry held (es_relays s2) later (es_relays s3)"
    and keep: "\<forall>k d e. held_at k n held d e (es_relays s2) \<longrightarrow> held_at k n held d e (es_relays s3)"
    using engram_run_ok [OF relays crypto after ok2] by simp_all
  have "held_at (eg_k cfg) n held ?d ev (es_relays s3)" using keep ev(4,5) by (auto simp: held_at_def)
  from head_of_slug [OF ev(1) newest ev(3) since this answer(3,4,2)] obtain h f where
    h: "lww_head (map snd events) = Some h" "engram_decrypt cry (be_content h) = Inr f"
      "f \<in> set (frame_of m # later)" "engram_dtag cry (ef_slug f) = ?d" by blast
  have "ef_slug f = ?slug" using h(3,4) apart slug by auto
  have valid: "is_valid_slug ?slug" using stored(1) by (auto simp: engram_write_def split: if_splits)
  have head: "read_head cry cl ?slug s3 = (Inr (if ef_tombstone f then None else Some f), s3\<lparr>es_relays := r\<rparr>)"
    using answer(1) h(1,2) by (simp add: read_head_def)
  have "f \<in> set (frame_of m # filter (\<lambda>f. ef_slug f = ?slug) later)" using h(3) \<open>ef_slug f = ?slug\<close> by auto
  then show ?thesis using get valid head by (intro bexI [of _ f]) (simp_all add: engram_read_def)
qed

section \<open>One relay\<close>

text \<open>A relay that keeps, per address, the newest event it took.\<close>

definition sample_engram_relay :: "(string \<Rightarrow> backup_event option) engram_client" where
  "sample_engram_relay = \<lparr>ec_fetch = (\<lambda>d h. (Inr (case d of Some d \<Rightarrow> (case h d of Some e \<Rightarrow> [([[''d'', d]], e)] | None \<Rightarrow> []) | None \<Rightarrow> []), h)),
     ec_send = (\<lambda>kd content tags at h. case event_dtag tags of
        None \<Rightarrow> (Inl ''no d'', h)
      | Some d \<Rightarrow> (let ev = \<lparr>be_id = ''i'', be_created_at = at, be_content = content\<rparr>
                 in (Inr 1, case h d of
                      Some old \<Rightarrow> if heads_below old ev then h(d \<mapsto> ev) else h | None \<Rightarrow> h(d \<mapsto> ev))))\<rparr>"

definition sample_engram_held :: "(string \<Rightarrow> backup_event option) engram_held" where
  "sample_engram_held r j = (if j = 0 then {(d, e). r d = Some e} else {})"

lemma sample_held_mem: "(d, h) \<in> sample_engram_held r 0 \<longleftrightarrow> r d = Some h"
  by (simp add: sample_engram_held_def)

lemma below_one: "{j. j < (1::nat) \<and> X j} = (if X 0 then {0} else {})"
  by auto

lemma sample_held_at: "held_at k 1 sample_engram_held d ev r \<longleftrightarrow> k = 0 \<or> k = 1 \<and> (\<exists>h. r d = Some h \<and> heads_below ev h)"
  unfolding held_at_def below_one sample_held_mem by (cases "\<exists>h. r d = Some h \<and> heads_below ev h") (simp_all only: if_True if_False card_1_singleton_iff card.empty simp_thms, auto)

lemma sample_engram_relays: "engram_relays sample_engram_relay 1 sample_engram_held"
  unfolding engram_relays_def
proof (intro conjI allI impI)
  fix kd content tags at h res r' d
  assume a: "ec_send sample_engram_relay kd content tags at h = (res, r')" "event_dtag tags = Some d"
  let ?ev = "\<lparr>be_id = ''i'', be_created_at = at, be_content = content\<rparr>"
  let ?h' = "case h d of Some old \<Rightarrow> if heads_below old ?ev then h(d \<mapsto> ?ev) else h | None \<Rightarrow> h(d \<mapsto> ?ev)"
  have r': "res = Inr 1" "r' = ?h'" using a by (simp_all add: sample_engram_relay_def Let_def)
  have up: "\<exists>x. ?h' d' = Some x \<and> heads_below e x" if "h d' = Some y" "heads_below e y" for d' e y
    using that by (cases "h d") (auto intro: heads_below_trans)
  have new: "\<exists>x. ?h' d = Some x \<and> heads_below ?ev x"
    using heads_below_total by (cases "h d") auto
  have "sample_engram_held r' j \<subseteq> insert (d, ?ev) (sample_engram_held h j)" for j
    by (cases "h d") (auto simp: sample_engram_held_def r' split: if_splits)
  moreover have "held_at k 1 sample_engram_held d' e r'" if "held_at k 1 sample_engram_held d' e h" for k d' e
    using that up unfolding sample_held_at r' by auto
  moreover have "held_at acks 1 sample_engram_held d ?ev r'" if "res = Inr acks" for acks
    using that new r'(1) unfolding sample_held_at r'(2) by auto
  ultimately show "(\<exists>e. res = Inl e) \<and> sample_engram_held r' = sample_engram_held h
    \<or> (\<exists>ev. be_content ev = content \<and> be_created_at ev = at
        \<and> (\<forall>j. sample_engram_held r' j \<subseteq> insert (d, ev) (sample_engram_held h j))
        \<and> (\<forall>k d e. held_at k 1 sample_engram_held d e h \<longrightarrow> held_at k 1 sample_engram_held d e r')
        \<and> (\<forall>acks. res = Inr acks \<longrightarrow> held_at acks 1 sample_engram_held d ev r'))"
    by (intro disjI2 exI [of _ ?ev]) simp
next
  fix d r res r' assume "ec_fetch sample_engram_relay d r = (res, r')"
  then have "r' = r" by (auto simp: sample_engram_relay_def)
  then show "sample_engram_held r' = sample_engram_held r" by simp
qed

definition sample_engram_crypto :: engram_crypto where
  "sample_engram_crypto = \<lparr>ey_author = ''a'', ey_hmac = id, ey_hex = id, ey_nip44_encrypt = Inr, ey_nip44_decrypt = Inr\<rparr>"

definition sample_set :: memory_req where "sample_set = \<lparr>mr_op = 2, mr_slug = ''core'', mr_value = ''v'', mr_max_cost_sats = 9\<rparr>"
definition sample_get :: memory_req where "sample_get = \<lparr>mr_op = 1, mr_slug = ''core'', mr_value = [], mr_max_cost_sats = 0\<rparr>"

text \<open>What an earlier life of the store left under the slug.\<close>

definition sample_old :: backup_event where
  "sample_old = \<lparr>be_id = ''o'', be_created_at = 4, be_content = frame_encode (frame_live ''core'' ''u'')\<rparr>"

definition sample_new :: backup_event where
  "sample_new = \<lparr>be_id = ''i'', be_created_at = 5, be_content = frame_encode (frame_live ''core'' ''v'')\<rparr>"

definition sample_memory :: "(string \<Rightarrow> backup_event option) engram_state" where
  "sample_memory = \<lparr>es_clock = 0, es_committed = (\<lambda>t. None), es_relays = [''core'' \<mapsto> sample_old]\<rparr>"

lemma sample_memory_write:
  "\<exists>w c. engram_write rev \<lparr>eg_n = 1, eg_k = 1, eg_bytes_per_sat = 1\<rparr> sample_engram_crypto sample_engram_relay 5 sample_set ''t'' sample_memory
     = (Inr w, \<lparr>es_clock = 5, es_committed = c, es_relays = [''core'' \<mapsto> sample_new]\<rparr>) \<and> mw_committed w = Commit_Stored"
  by (simp add: engram_write_def engram_effect_def engram_publish_def next_created_at_def engram_event_builder_def engram_encrypt_def
      engram_dtag_def sample_engram_crypto_def sample_engram_relay_def sample_set_def memory_op_of_def memory_op_try_from_def sample_memory_def
      sample_old_def sample_new_def heads_below_def is_valid_slug_def MAX_MEMORY_VALUE_BYTES_def Let_def frame_live_def)

theorem memory_recalled_witness:
  "\<exists>s. fst (engram_read rev sample_engram_crypto sample_engram_relay sample_get s) =
      Inr \<lparr>mm_found = True, mm_value = ''v'', mm_slugs = [], mm_content_hash = ''v'', mm_write_status = Status_Unspecified\<rparr>"
proof -
  let ?cfg = "\<lparr>eg_n = 1, eg_k = 1, eg_bytes_per_sat = 1\<rparr>"
  obtain w c where w: "engram_write rev ?cfg sample_engram_crypto sample_engram_relay 5 sample_set ''t'' sample_memory
      = (Inr w, \<lparr>es_clock = 5, es_committed = c, es_relays = [''core'' \<mapsto> sample_new]\<rparr>)" "mw_committed w = Commit_Stored"
    using sample_memory_write by blast
  let ?s2 = "\<lparr>es_clock = 5, es_committed = c, es_relays = [''core'' \<mapsto> sample_new]\<rparr>"
  have crypto: "engram_sealing sample_engram_crypto" by (simp add: engram_sealing_def sample_engram_crypto_def)
  have tag: "engram_dtag sample_engram_crypto (mr_slug sample_set) = ''core''"
    by (simp add: engram_dtag_def sample_engram_crypto_def sample_set_def)
  have fetch: "ec_fetch sample_engram_relay (Some (engram_dtag sample_engram_crypto (mr_slug sample_set))) (es_relays ?s2)
      = (Inr [([[''d'', ''core'']], sample_new)], [''core'' \<mapsto> sample_new])"
    unfolding tag by (simp add: sample_engram_relay_def)
  have ans: "answered sample_engram_held {0} (engram_dtag sample_engram_crypto (mr_slug sample_set)) (es_relays ?s2) [([[''d'', ''core'']], sample_new)]"
    unfolding tag answered_def by (simp add: sample_held_mem)
  have facts: "memory_op_of sample_get = Op_Get" "mr_slug sample_get = mr_slug sample_set" "length (mr_slug sample_set) \<le> 65535"
    by (simp_all add: sample_set_def sample_get_def memory_op_of_def memory_op_try_from_def)
  have clock: "es_clock sample_memory < - 1" by (simp add: sample_memory_def word_less_nat_alt unat_max_word)
  have utf: "valid_utf8 (mr_slug sample_set)" by (simp add: sample_set_def in_range_def)
  have start: "\<forall>j. \<forall>(d, h)\<in>sample_engram_held (es_relays sample_memory) j. be_created_at h \<le> 4"
    by (auto simp: sample_engram_held_def sample_memory_def sample_old_def split: if_splits)
  have R: "{0} \<subseteq> {..<1::nat}" "1 < card {0::nat} + eg_k ?cfg" by simp_all
  have apart: "\<forall>f\<in>set []. engram_dtag sample_engram_crypto (ef_slug f) = engram_dtag sample_engram_crypto (mr_slug sample_set) \<longrightarrow> ef_slug f = mr_slug sample_set"
    and now: "(4 :: u64) < 5" by simp_all
  from memory_recalled [OF sample_engram_relays crypto start er_start w(1,2) now clock utf facts(3) er_start apart facts(1,2) fetch ans R]
  show ?thesis
    by (intro exI [of _ ?s2]) (simp add: frame_of_def sample_set_def memory_op_of_def memory_op_try_from_def frame_live_def)
qed

end
