(* ===== verification/Spawn_Ledger.thy ===== *)
theory Spawn_Ledger
  imports Store
begin

text \<open>
  The durable record of the agents a node has spawned (\<open>SpawnLedger\<close> and \<open>SledSpawnLedger\<close> of \<open>spawn.rs\<close>): an
  agent is reserved before its launch and finalized after it. A call may find its storage failing before or after
  the change.
\<close>

datatype reserve_outcome = Fresh | ResumePending | AlreadyLaunched

definition SPAWN_STATE_PENDING :: bytes where "SPAWN_STATE_PENDING = ''P''"
definition SPAWN_STATE_LAUNCHED :: bytes where "SPAWN_STATE_LAUNCHED = ''L''"

type_synonym spawn_ledger = "(string, bytes) tree"

text \<open>What storage does with one call: the operation itself fails, the flush after it fails, or neither.\<close>

datatype ledger_io = Ledger_Ok | Op_Fault string | Flush_Fault string

definition ledger_reserve :: "ledger_io \<Rightarrow> string \<Rightarrow> spawn_ledger \<Rightarrow> (string + reserve_outcome) \<times> spawn_ledger" where
  "ledger_reserve io a l =
     (case io of
        Op_Fault e \<Rightarrow> (Inl e, l)
      | _ \<Rightarrow>
          (let l' = (if tget l a = None then tinsert a SPAWN_STATE_PENDING l else l)
           in case io of
                Flush_Fault e \<Rightarrow> (Inl e, l')
              | _ \<Rightarrow> (case tget l a of
                    None \<Rightarrow> (Inr Fresh, l')
                  | Some v \<Rightarrow> (Inr (if v = SPAWN_STATE_LAUNCHED then AlreadyLaunched else ResumePending), l'))))"

definition ledger_finalize :: "ledger_io \<Rightarrow> string \<Rightarrow> spawn_ledger \<Rightarrow> (string + unit) \<times> spawn_ledger" where
  "ledger_finalize io a l =
     (case io of
        Op_Fault e \<Rightarrow> (Inl e, l)
      | Flush_Fault e \<Rightarrow> (Inl e, tinsert a SPAWN_STATE_LAUNCHED l)
      | Ledger_Ok \<Rightarrow> (Inr (), tinsert a SPAWN_STATE_LAUNCHED l))"

definition ledger_release :: "ledger_io \<Rightarrow> string \<Rightarrow> spawn_ledger \<Rightarrow> (string + unit) \<times> spawn_ledger" where
  "ledger_release io a l =
     (case io of
        Op_Fault e \<Rightarrow> (Inl e, l)
      | Flush_Fault e \<Rightarrow> (Inl e, tremove a l)
      | Ledger_Ok \<Rightarrow> (Inr (), tremove a l))"

section \<open>The contract of a ledger\<close>

text \<open>
  What the spawn consumer relies on. A ledger knows of every agent whether a launch of it was recorded; an answered
  reservation tells, and recording and forgetting one agent leaves the others alone.
\<close>

locale launch_ledger =
  fixes ok :: "'l \<Rightarrow> bool"
    and launched :: "'l \<Rightarrow> string \<Rightarrow> bool"
    and reserve :: "ledger_io \<Rightarrow> string \<Rightarrow> 'l \<Rightarrow> (string + reserve_outcome) \<times> 'l"
    and finalize :: "ledger_io \<Rightarrow> string \<Rightarrow> 'l \<Rightarrow> (string + unit) \<times> 'l"
    and release :: "ledger_io \<Rightarrow> string \<Rightarrow> 'l \<Rightarrow> (string + unit) \<times> 'l"
  assumes reserve_ok: "ok l \<Longrightarrow> ok (snd (reserve io a l))"
    and finalize_ok: "ok l \<Longrightarrow> ok (snd (finalize io a l))"
    and release_ok: "ok l \<Longrightarrow> ok (snd (release io a l))"
    and reserve_answer: "ok l \<Longrightarrow> fst (reserve io a l) = Inr out \<Longrightarrow> out = AlreadyLaunched \<longleftrightarrow> launched l a"
    and reserve_keeps: "ok l \<Longrightarrow> launched (snd (reserve io a l)) b \<longleftrightarrow> launched l b"
    and finalize_records: "ok l \<Longrightarrow> fst (finalize io a l) = Inr () \<Longrightarrow> launched (snd (finalize io a l)) a"
    and finalize_keeps: "ok l \<Longrightarrow> launched l b \<Longrightarrow> launched (snd (finalize io a l)) b"
    and release_keeps: "ok l \<Longrightarrow> b \<noteq> a \<Longrightarrow> launched (snd (release io a l)) b \<longleftrightarrow> launched l b"
begin

text \<open>A recorded launch is answered with at every later reservation, whatever storage does, until it is released.\<close>

lemma recorded_is_final:
  "ok l \<Longrightarrow> launched l a \<Longrightarrow> fst (reserve io a l) = Inr out \<Longrightarrow> out = AlreadyLaunched"
  using reserve_answer by blast

lemma unrecorded_may_launch: "ok l \<Longrightarrow> \<not> launched l a \<Longrightarrow> fst (reserve io a l) = Inr out \<Longrightarrow> out \<noteq> AlreadyLaunched"
  using reserve_answer by blast

end

definition ledger_launched :: "spawn_ledger \<Rightarrow> string \<Rightarrow> bool" where
  "ledger_launched l a \<longleftrightarrow> tget l a = Some SPAWN_STATE_LAUNCHED"

interpretation sled_ledger: launch_ledger tree_ok ledger_launched ledger_reserve ledger_finalize ledger_release
  by unfold_locales
    (auto simp: ledger_reserve_def ledger_finalize_def ledger_release_def ledger_launched_def Let_def
      SPAWN_STATE_PENDING_def SPAWN_STATE_LAUNCHED_def sled.get_put sled.get_del sled.ok_put sled.ok_del
      split: ledger_io.splits option.splits if_splits)

end
