(* ===== verification/Fleet_Supervisor.thy ===== *)
theory Fleet_Supervisor
  imports Fleet_Reconcile Spawn_Ledger
begin

text \<open>
  The fleet supervisor of \<open>fleet_supervisor.rs\<close>: one node's tenants, each a child process with its own slot, keyset
  and lease. The state is \<open>fleet_supervisor\<close>; everything outside it (processes, relay, storage, the clock) is a
  world \<open>'w\<close> that the operations of \<open>host\<close> read and change. Log lines are left out.
\<close>

section \<open>Configuration\<close>

record tenant_config =
  tc_agent_id :: agent_id
  tc_initial_sats :: u64

record spawn_config =
  sc_operators :: "string list"
  sc_image_allowlist :: "string list"
  sc_max_per_window :: u32
  sc_rate_window_secs :: u64
  sc_max_seed_sats :: u64
  sc_failover_scan_secs :: u64
  sc_takeover_grace_secs :: u64
  sc_failover_max_lease_age_secs :: u64
  sc_request_max_age_secs :: "u64 option"

record fleet_block = fleet_config +
  fb_tenants :: "tenant_config list"
  fb_spawn :: spawn_config

definition default_tenant_initial_sats :: u64 where "default_tenant_initial_sats = 1000000"

definition spawn_config_default :: spawn_config where
  "spawn_config_default = \<lparr>sc_operators = [], sc_image_allowlist = [], sc_max_per_window = 10, sc_rate_window_secs = 60,
     sc_max_seed_sats = 1000000, sc_failover_scan_secs = 5, sc_takeover_grace_secs = 30,
     sc_failover_max_lease_age_secs = 300, sc_request_max_age_secs = None\<rparr>"

definition fleet_block_default :: fleet_block where
  "fleet_block_default = \<lparr>fc_base_cid = 100, fc_max_tenants = 16, fc_gateway_port_base = 9000, fb_tenants = [],
     fb_spawn = spawn_config_default\<rparr>"

text \<open>The fields of the configuration that a tenant's differs in; \<open>'c\<close> is all the others.\<close>

record kirby_config =
  kc_agent_id :: agent_id
  kc_node_id :: string
  kc_initial_sats :: u64
  kc_key_path :: "string option"
  kc_frost_keystore_dir :: "string option"
  kc_treasury_dir :: "string option"
  kc_wallet_db_path :: string
  kc_fleet :: fleet_block

section \<open>Tenants\<close>

record tenant_record =
  tr_agent_id :: agent_id
  tr_allocation :: tenant_allocation
  tr_treasury_path :: string
  tr_lease_term :: u64
  tr_keystore_dir :: string
  tr_frost_npub :: string

record tenant_launch_spec =
  ts_agent_id :: agent_id
  ts_allocation :: tenant_allocation
  ts_treasury_path :: string
  ts_initial_sats :: u64
  ts_frost_keystore_dir :: string

text \<open>The two processes a supervisor holds: a child it spawned (by its handle) and an orphan it re-adopted.\<close>

datatype tenant_process = ChildTenant (child: nat) (child_pid: u32) | PidTenant pid_tenant

record live_tenant =
  lt_process :: tenant_process
  lt_record :: tenant_record

datatype tenant_status = Running | Exited

record 'c fleet_supervisor =
  fs_node_id :: lease_node_id
  fs_base_config :: "'c kirby_config_scheme"
  fs_allocator :: allocator
  fs_tenants :: "(agent_id, live_tenant) tree"
  fs_launch_registry :: launch_registry
  fs_lease_confirmer :: bool
  fs_confirm_settle :: nat

text \<open>Errors carry what their messages name.\<close>

datatype fleet_error =
    TenantAllocated agent_id
  | AllocFailed alloc_error
  | ProvisionFailed agent_id string
  | ClaimFailed agent_id u64 string
  | ConfirmUnread agent_id u64 string
  | ConfirmDenied agent_id u64 "observed_lease_record option"
  | LaunchFailed agent_id string
  | ReapUnknown agent_id
  | ReapRunning agent_id

section \<open>The world\<close>

text \<open>
  Children, the liveness probe and signals; whether a write of a state file succeeds; keyset provisioning, the lease
  grantor, the lease reader, the launcher; the spawn ledger's storage.
\<close>

record 'w host =
  ho_child_running :: "nat \<Rightarrow> 'w \<Rightarrow> bool"
  ho_child_kill :: "nat \<Rightarrow> 'w \<Rightarrow> 'w"
  ho_probe :: "'w \<Rightarrow> liveness_probe"
  ho_signal :: "u32 \<times> signal \<Rightarrow> 'w \<Rightarrow> 'w"
  ho_io :: "'w \<Rightarrow> bool \<times> 'w"
  ho_ledger_io :: "'w \<Rightarrow> ledger_io \<times> 'w"
  ho_state_root :: string
  ho_provision :: "string \<Rightarrow> 'w \<Rightarrow> (string + string) \<times> 'w"
  ho_load_npub :: "string \<Rightarrow> 'w \<Rightarrow> string + string"
  ho_claim_at :: "agent_id \<Rightarrow> lease_node_id \<Rightarrow> u64 \<Rightarrow> string \<Rightarrow> 'w \<Rightarrow> (string + lease_response) \<times> 'w"
  ho_latest_lease :: "agent_id \<Rightarrow> 'w \<Rightarrow> (string + observed_lease_record option) \<times> 'w"
  ho_sleep :: "nat \<Rightarrow> 'w \<Rightarrow> 'w"
  ho_launch :: "tenant_launch_spec \<Rightarrow> 'w \<Rightarrow> (string + tenant_process) \<times> 'w"
  ho_remove_dir :: "string \<Rightarrow> 'w \<Rightarrow> 'w"

definition process_is_running :: "'w host \<Rightarrow> tenant_process \<Rightarrow> 'w \<Rightarrow> bool" where
  "process_is_running h p w =
     (case p of ChildTenant c pid \<Rightarrow> ho_child_running h c w | PidTenant t \<Rightarrow> pid_tenant_is_running (ho_probe h w) t)"

definition process_kill :: "'w host \<Rightarrow> tenant_process \<Rightarrow> 'w \<Rightarrow> 'w" where
  "process_kill h p w =
     (case p of ChildTenant c pid \<Rightarrow> ho_child_kill h c w | PidTenant t \<Rightarrow> fold (ho_signal h) (pid_tenant_kill (ho_probe h w) t) w)"

definition process_pid :: "tenant_process \<Rightarrow> u32 option" where
  "process_pid p = (case p of ChildTenant c pid \<Rightarrow> Some pid | PidTenant t \<Rightarrow> Some (pt_pid t))"

definition path_join :: "string \<Rightarrow> string \<Rightarrow> string" where
  "path_join dir name = dir @ ''/'' @ name"

definition treasury_path_for :: "'w host \<Rightarrow> string \<Rightarrow> string" where
  "treasury_path_for h i = path_join (ho_state_root h) (''treasury-'' @ i)"

definition keystore_dir_for :: "'w host \<Rightarrow> string \<Rightarrow> string" where
  "keystore_dir_for h i = path_join (ho_state_root h) (''keystore-'' @ i)"

definition agent_state_dir_for :: "'w host \<Rightarrow> string \<Rightarrow> string" where
  "agent_state_dir_for h i = path_join (ho_state_root h) (''agent-'' @ i)"

section \<open>Construction\<close>

definition DEFAULT_LAUNCH_CONFIRM_SETTLE :: nat where "DEFAULT_LAUNCH_CONFIRM_SETTLE = 2"

definition supervisor_new :: "lease_node_id \<Rightarrow> 'c kirby_config_scheme \<Rightarrow> allocator \<Rightarrow> 'c fleet_supervisor" where
  "supervisor_new node cfg al = \<lparr>fs_node_id = node, fs_base_config = cfg, fs_allocator = al, fs_tenants = [],
     fs_launch_registry = registry_in_memory, fs_lease_confirmer = False, fs_confirm_settle = DEFAULT_LAUNCH_CONFIRM_SETTLE\<rparr>"

definition with_launch_registry :: "launch_registry \<Rightarrow> 'c fleet_supervisor \<Rightarrow> 'c fleet_supervisor" where
  "with_launch_registry reg sv = sv\<lparr>fs_launch_registry := reg\<rparr>"

definition with_lease_confirmer :: "nat \<Rightarrow> 'c fleet_supervisor \<Rightarrow> 'c fleet_supervisor" where
  "with_lease_confirmer settle sv = sv\<lparr>fs_lease_confirmer := True, fs_confirm_settle := settle\<rparr>"

section \<open>Slots and launch records\<close>

definition release_slot :: "'w host \<Rightarrow> agent_id \<Rightarrow> 'c fleet_supervisor \<Rightarrow> 'w \<Rightarrow> 'c fleet_supervisor \<times> 'w" where
  "release_slot h a sv w = (case ho_io h w of (ok, w') \<Rightarrow> (sv\<lparr>fs_allocator := snd (release ok a (fs_allocator sv))\<rparr>, w'))"

definition forget_launch_record :: "'w host \<Rightarrow> string \<Rightarrow> 'c fleet_supervisor \<Rightarrow> 'w \<Rightarrow> 'c fleet_supervisor \<times> 'w" where
  "forget_launch_record h i sv w =
     (case ho_io h w of (ok, w') \<Rightarrow> (sv\<lparr>fs_launch_registry := snd (registry_forget ok i (fs_launch_registry sv))\<rparr>, w'))"

text \<open>The record of a launched process; a failing write is only logged.\<close>

definition record_launch :: "'w host \<Rightarrow> tenant_process \<Rightarrow> agent_id \<Rightarrow> string \<Rightarrow> 'c fleet_supervisor \<Rightarrow> 'w \<Rightarrow> 'c fleet_supervisor \<times> 'w" where
  "record_launch h p a i sv w =
     (case process_pid p of
        None \<Rightarrow> (sv, w)
      | Some pid \<Rightarrow>
          (case ho_io h w of (ok, w') \<Rightarrow>
             (sv\<lparr>fs_launch_registry := snd (registry_record ok \<lparr>la_agent_id = a, la_instance_id = i, la_pid = pid\<rparr> (fs_launch_registry sv))\<rparr>, w')))"

section \<open>Launching\<close>

text \<open>The read-after-write fence: with a confirmer, only the holder of the surviving lease goes on.\<close>

definition confirm_launch :: "'w host \<Rightarrow> agent_id \<Rightarrow> u64 \<Rightarrow> 'c fleet_supervisor \<Rightarrow> 'w \<Rightarrow> (fleet_error + unit) \<times> 'w" where
  "confirm_launch h a term sv w =
     (if \<not> fs_lease_confirmer sv then (Inr (), w)
      else (case ho_latest_lease h a (ho_sleep h (fs_confirm_settle sv) w) of
         (Inl e, w') \<Rightarrow> (Inl (ConfirmUnread a term e), w')
       | (Inr surviving, w') \<Rightarrow>
           (if \<not> confirm_takeover_win surviving term (fs_node_id sv) then Inl (ConfirmDenied a term surviving) else Inr (), w')))"

definition provision_and_launch ::
  "'w host \<Rightarrow> tenant_config \<Rightarrow> tenant_allocation \<Rightarrow> u64 \<Rightarrow> 'c fleet_supervisor \<Rightarrow> 'w
     \<Rightarrow> (fleet_error + tenant_record) \<times> 'c fleet_supervisor \<times> 'w" where
  "provision_and_launch h tenant allocation term sv w =
     (let a = tc_agent_id tenant;
          treasury_path = treasury_path_for h (ta_instance_id allocation);
          keystore_dir = keystore_dir_for h (ta_instance_id allocation)
      in case ho_provision h keystore_dir w of
           (Inl e, w1) \<Rightarrow> (Inl (ProvisionFailed a e), sv, w1)
         | (Inr frost_npub, w1) \<Rightarrow>
      (case ho_claim_at h a (fs_node_id sv) term keystore_dir w1 of
           (Inl e, w2) \<Rightarrow> (Inl (ClaimFailed a term e), sv, w2)
         | (Inr granted, w2) \<Rightarrow>
      (case confirm_launch h a term sv w2 of
           (Inl e, w3) \<Rightarrow> (Inl e, sv, w3)
         | (Inr _, w3) \<Rightarrow>
      (case ho_launch h \<lparr>ts_agent_id = a, ts_allocation = allocation, ts_treasury_path = treasury_path,
                         ts_initial_sats = tc_initial_sats tenant, ts_frost_keystore_dir = keystore_dir\<rparr> w3 of
           (Inl e, w4) \<Rightarrow> (Inl (LaunchFailed a e), sv, w4)
         | (Inr p, w4) \<Rightarrow>
      (case record_launch h p a (ta_instance_id allocation) sv w4 of
         (sv5, w5) \<Rightarrow>
           (let rec = \<lparr>tr_agent_id = a, tr_allocation = allocation, tr_treasury_path = treasury_path,
                       tr_lease_term = lr_term granted, tr_keystore_dir = keystore_dir, tr_frost_npub = frost_npub\<rparr>
            in (Inr rec, sv5\<lparr>fs_tenants := tinsert a \<lparr>lt_process = p, lt_record = rec\<rparr> (fs_tenants sv5)\<rparr>, w5)))))))"

definition launch_one_at_term ::
  "'w host \<Rightarrow> tenant_config \<Rightarrow> u64 \<Rightarrow> 'c fleet_supervisor \<Rightarrow> 'w
     \<Rightarrow> (fleet_error + tenant_record) \<times> 'c fleet_supervisor \<times> 'w" where
  "launch_one_at_term h tenant term sv w =
     (case ho_io h w of (ok, w0) \<Rightarrow>
      (case allocate ok (tc_agent_id tenant) (fs_allocator sv) of
         (Inl e, al) \<Rightarrow>
           (Inl (case e of AlreadyAllocated a \<Rightarrow> TenantAllocated a | _ \<Rightarrow> AllocFailed e), sv\<lparr>fs_allocator := al\<rparr>, w0)
       | (Inr allocation, al) \<Rightarrow>
           (case provision_and_launch h tenant allocation term (sv\<lparr>fs_allocator := al\<rparr>) w0 of
              (Inr rec, sv', w') \<Rightarrow> (Inr rec, sv', w')
            | (Inl e, sv', w') \<Rightarrow> (case release_slot h (tc_agent_id tenant) sv' w' of (sv'', w'') \<Rightarrow> (Inl e, sv'', w'')))))"

definition launch_one ::
  "'w host \<Rightarrow> tenant_config \<Rightarrow> 'c fleet_supervisor \<Rightarrow> 'w \<Rightarrow> (fleet_error + tenant_record) \<times> 'c fleet_supervisor \<times> 'w" where
  "launch_one h tenant sv w = launch_one_at_term h tenant 1 sv w"

section \<open>Taking tenants down\<close>

definition drop_tenant :: "'w host \<Rightarrow> agent_id \<Rightarrow> live_tenant \<Rightarrow> 'c fleet_supervisor \<Rightarrow> 'w \<Rightarrow> 'c fleet_supervisor \<times> 'w" where
  "drop_tenant h a live sv w =
     (case release_slot h a sv w of (sv1, w1) \<Rightarrow>
        forget_launch_record h (ta_instance_id (tr_allocation (lt_record live))) sv1 w1)"

fun kill_and_reap_ids :: "'w host \<Rightarrow> agent_id list \<Rightarrow> 'c fleet_supervisor \<Rightarrow> 'w \<Rightarrow> 'c fleet_supervisor \<times> 'w" where
  "kill_and_reap_ids h [] sv w = (sv, w)"
| "kill_and_reap_ids h (a # ids) sv w =
     (case tget (fs_tenants sv) a of
        None \<Rightarrow> kill_and_reap_ids h ids sv w
      | Some live \<Rightarrow>
          (case drop_tenant h a live (sv\<lparr>fs_tenants := tremove a (fs_tenants sv)\<rparr>) (process_kill h (lt_process live) w) of
             (sv', w') \<Rightarrow> kill_and_reap_ids h ids sv' w'))"

definition kill_and_reap_all :: "'w host \<Rightarrow> 'c fleet_supervisor \<Rightarrow> 'w \<Rightarrow> 'c fleet_supervisor \<times> 'w" where
  "kill_and_reap_all h sv w = kill_and_reap_ids h (tkeys (fs_tenants sv)) sv w"

fun launch_each ::
  "'w host \<Rightarrow> tenant_record list \<Rightarrow> tenant_config list \<Rightarrow> 'c fleet_supervisor \<Rightarrow> 'w
     \<Rightarrow> (fleet_error + tenant_record list) \<times> 'c fleet_supervisor \<times> 'w" where
  "launch_each h records [] sv w = (Inr records, sv, w)"
| "launch_each h records (t # ts) sv w =
     (case launch_one h t sv w of
        (Inr rec, sv', w') \<Rightarrow> launch_each h (records @ [rec]) ts sv' w'
      | (Inl e, sv', w') \<Rightarrow> (case kill_and_reap_all h sv' w' of (sv'', w'') \<Rightarrow> (Inl e, sv'', w'')))"

definition launch_all ::
  "'w host \<Rightarrow> 'c fleet_supervisor \<Rightarrow> 'w \<Rightarrow> (fleet_error + tenant_record list) \<times> 'c fleet_supervisor \<times> 'w" where
  "launch_all h sv w = launch_each h [] (fb_tenants (kc_fleet (fs_base_config sv))) sv w"

definition reap ::
  "'w host \<Rightarrow> agent_id \<Rightarrow> 'c fleet_supervisor \<Rightarrow> 'w \<Rightarrow> (fleet_error + tenant_record) \<times> 'c fleet_supervisor \<times> 'w" where
  "reap h a sv w =
     (case tget (fs_tenants sv) a of
        None \<Rightarrow> (Inl (ReapUnknown a), sv, w)
      | Some live \<Rightarrow>
          if process_is_running h (lt_process live) w then (Inl (ReapRunning a), sv, w)
          else (case drop_tenant h a live (sv\<lparr>fs_tenants := tremove a (fs_tenants sv)\<rparr>) w of
             (sv', w') \<Rightarrow> (Inr (lt_record live), sv', w')))"

definition dead_tenants :: "'w host \<Rightarrow> 'c fleet_supervisor \<Rightarrow> 'w \<Rightarrow> agent_id list" where
  "dead_tenants h sv w = map fst (filter (\<lambda>(a, live). \<not> process_is_running h (lt_process live) w) (fs_tenants sv))"

fun reap_ids ::
  "'w host \<Rightarrow> agent_id list \<Rightarrow> 'c fleet_supervisor \<Rightarrow> 'w \<Rightarrow> tenant_record list \<times> 'c fleet_supervisor \<times> 'w" where
  "reap_ids h [] sv w = ([], sv, w)"
| "reap_ids h (a # ids) sv w =
     (case tget (fs_tenants sv) a of
        None \<Rightarrow> reap_ids h ids sv w
      | Some live \<Rightarrow>
          (case drop_tenant h a live (sv\<lparr>fs_tenants := tremove a (fs_tenants sv)\<rparr>) w of
             (sv', w') \<Rightarrow> (case reap_ids h ids sv' w' of (records, sv'', w'') \<Rightarrow> (lt_record live # records, sv'', w''))))"

definition reap_dead :: "'w host \<Rightarrow> 'c fleet_supervisor \<Rightarrow> 'w \<Rightarrow> tenant_record list \<times> 'c fleet_supervisor \<times> 'w" where
  "reap_dead h sv w = reap_ids h (dead_tenants h sv w) sv w"

definition supervisor_kill :: "'w host \<Rightarrow> agent_id \<Rightarrow> 'c fleet_supervisor \<Rightarrow> 'w \<Rightarrow> 'w" where
  "supervisor_kill h a sv w =
     (case tget (fs_tenants sv) a of Some live \<Rightarrow> process_kill h (lt_process live) w | None \<Rightarrow> w)"

section \<open>Watching\<close>

definition tenant_count :: "'c fleet_supervisor \<Rightarrow> nat" where
  "tenant_count sv = length (fs_tenants sv)"

definition live_agent_ids :: "'c fleet_supervisor \<Rightarrow> agent_id list" where
  "live_agent_ids sv = tkeys (fs_tenants sv)"

definition tenant_status :: "'w host \<Rightarrow> agent_id \<Rightarrow> 'c fleet_supervisor \<Rightarrow> 'w \<Rightarrow> tenant_status option" where
  "tenant_status h a sv w =
     map_option (\<lambda>t. if process_is_running h (lt_process t) w then Running else Exited) (tget (fs_tenants sv) a)"

definition tenant_record_of :: "agent_id \<Rightarrow> 'c fleet_supervisor \<Rightarrow> tenant_record option" where
  "tenant_record_of a sv = map_option lt_record (tget (fs_tenants sv) a)"

text \<open>One heartbeat re-claims the lease of every running tenant at its recorded term; the answers are only logged.\<close>

fun heartbeat_each :: "'w host \<Rightarrow> lease_node_id \<Rightarrow> (agent_id, live_tenant) tree \<Rightarrow> 'w \<Rightarrow> 'w" where
  "heartbeat_each h node [] w = w"
| "heartbeat_each h node ((a, live) # ts) w =
     (if \<not> process_is_running h (lt_process live) w then heartbeat_each h node ts w
      else heartbeat_each h node ts
        (snd (ho_claim_at h a node (tr_lease_term (lt_record live)) (tr_keystore_dir (lt_record live)) w)))"

definition heartbeat_leases :: "'w host \<Rightarrow> 'c fleet_supervisor \<Rightarrow> 'w \<Rightarrow> 'w" where
  "heartbeat_leases h sv w = heartbeat_each h (fs_node_id sv) (fs_tenants sv) w"

section \<open>Reconciling after a restart\<close>

record reconcile_summary =
  rs_readopted :: "agent_id list"
  rs_reaped :: "(agent_id \<times> string) list"
  rs_skipped_unconfirmed :: bool

definition summary_is_empty :: "reconcile_summary \<Rightarrow> bool" where
  "summary_is_empty s \<longleftrightarrow> rs_readopted s = [] \<and> rs_reaped s = []"

definition reap_reason_text :: "reap_reason \<Rightarrow> string" where
  "reap_reason_text r =
     (case r of
        NotAlive \<Rightarrow> ''the process is gone or a recycled PID no longer names this tenant''
      | LeaseStale \<Rightarrow> ''the lease went stale (TTL elapsed; dead-enough to respawn)''
      | LeaseLostToNode n \<Rightarrow> ''a fresh lease now names another node ('' @ show_word n @ ''); we lost the claim'')"

definition re_adopt :: "tenant_record \<Rightarrow> tenant_process \<Rightarrow> 'c fleet_supervisor \<Rightarrow> 'c fleet_supervisor" where
  "re_adopt rec p sv = sv\<lparr>fs_tenants := tinsert (tr_agent_id rec) \<lparr>lt_process = p, lt_record = rec\<rparr> (fs_tenants sv)\<rparr>"

definition reap_orphan ::
  "'w host \<Rightarrow> tenant_process \<Rightarrow> agent_id \<Rightarrow> string \<Rightarrow> string \<Rightarrow> 'c fleet_supervisor \<Rightarrow> 'w \<Rightarrow> 'c fleet_supervisor \<times> 'w" where
  "reap_orphan h p a instance_id keystore_dir sv w =
     (case release_slot h a sv (process_kill h p w) of
        (sv1, w1) \<Rightarrow> forget_launch_record h instance_id sv1 (ho_remove_dir h keystore_dir w1))"

definition clear_ledger :: "'w host \<Rightarrow> agent_id \<Rightarrow> spawn_ledger option \<Rightarrow> 'w \<Rightarrow> spawn_ledger option \<times> 'w" where
  "clear_ledger h a ledger w =
     (case ledger of
        None \<Rightarrow> (None, w)
      | Some l \<Rightarrow> (case ho_ledger_io h w of (io, w') \<Rightarrow> (Some (snd (ledger_release io a l)), w')))"

type_synonym ('c, 'w) reconcile_state = "'c fleet_supervisor \<times> spawn_ledger option \<times> reconcile_summary \<times> 'w"

definition reap_item :: "'w host \<Rightarrow> launch_record \<Rightarrow> string \<Rightarrow> ('c, 'w) reconcile_state \<Rightarrow> ('c, 'w) reconcile_state" where
  "reap_item h r why st =
     (case st of (sv, ledger, summary, w) \<Rightarrow>
      (case reap_orphan h (PidTenant \<lparr>pt_pid = la_pid r, pt_agent_id = la_agent_id r\<rparr>) (la_agent_id r) (la_instance_id r)
              (keystore_dir_for h (la_instance_id r)) sv w of
         (sv1, w1) \<Rightarrow>
      (case clear_ledger h (la_agent_id r) ledger w1 of
         (ledger1, w2) \<Rightarrow> (sv1, ledger1, summary\<lparr>rs_reaped := rs_reaped summary @ [(la_agent_id r, why)]\<rparr>, w2))))"

definition readopted_record ::
  "'w host \<Rightarrow> launch_record \<Rightarrow> tenant_allocation \<Rightarrow> (agent_id \<Rightarrow> active_lease option) \<Rightarrow> 'w \<Rightarrow> tenant_record" where
  "readopted_record h r allocation lease_view w =
     (let keystore_dir = keystore_dir_for h (la_instance_id r)
      in \<lparr>tr_agent_id = la_agent_id r, tr_allocation = allocation,
          tr_treasury_path = treasury_path_for h (ta_instance_id allocation),
          tr_lease_term = (case lease_view (la_agent_id r) of Some l \<Rightarrow> al_term l | None \<Rightarrow> 1),
          tr_keystore_dir = keystore_dir,
          tr_frost_npub = (case ho_load_npub h (path_join keystore_dir ''group_pubkeys.json'') w of Inr n \<Rightarrow> n | Inl e \<Rightarrow> '''')\<rparr>)"

definition apply_item ::
  "'w host \<Rightarrow> (agent_id \<Rightarrow> active_lease option) \<Rightarrow> reconcile_item \<Rightarrow> ('c, 'w) reconcile_state \<Rightarrow> ('c, 'w) reconcile_state" where
  "apply_item h lease_view item st =
     (let r = ri_record item in
      case ri_verdict item of
        ReAdopt \<Rightarrow>
          (case st of (sv, ledger, summary, w) \<Rightarrow>
           (case allocation_for (fs_allocator sv) (la_agent_id r) of
              None \<Rightarrow> reap_item h r ''no allocation survived'' st
            | Some allocation \<Rightarrow>
                (re_adopt (readopted_record h r allocation lease_view w)
                   (PidTenant \<lparr>pt_pid = la_pid r, pt_agent_id = la_agent_id r\<rparr>) sv,
                 ledger, summary\<lparr>rs_readopted := rs_readopted summary @ [la_agent_id r]\<rparr>, w)))
      | Reap reason \<Rightarrow> reap_item h r (reap_reason_text reason) st)"

definition apply_reconcile ::
  "'w host \<Rightarrow> (agent_id \<Rightarrow> active_lease option) \<Rightarrow> lease_observation \<Rightarrow> spawn_ledger option \<Rightarrow> 'c fleet_supervisor \<Rightarrow> 'w
     \<Rightarrow> ('c, 'w) reconcile_state" where
  "apply_reconcile h lease_view obs ledger sv w =
     (case reconcile_plan obs (registry_all (fs_launch_registry sv)) (ho_probe h w) lease_view (fs_node_id sv) of
        Apply items \<Rightarrow>
          fold (apply_item h lease_view) items (sv, ledger, \<lparr>rs_readopted = [], rs_reaped = [], rs_skipped_unconfirmed = False\<rparr>, w)
      | SkipUnconfirmedObservation \<Rightarrow>
          (sv, ledger, \<lparr>rs_readopted = [], rs_reaped = [], rs_skipped_unconfirmed = True\<rparr>, w))"

section \<open>The process launcher\<close>

record process_launcher =
  pl_binary :: string
  pl_config_dir :: string

text \<open>Serializing, directories, files and spawning are arguments; a spawn is a command line and an environment.\<close>

record ('c, 'w) launcher_io =
  li_to_toml :: "'c kirby_config_scheme \<Rightarrow> string + string"
  li_create_dir :: "string \<Rightarrow> 'w \<Rightarrow> (string + unit) \<times> 'w"
  li_write_file :: "string \<Rightarrow> string \<Rightarrow> 'w \<Rightarrow> (string + unit) \<times> 'w"
  li_spawn :: "string list \<Rightarrow> (string \<times> string) list \<Rightarrow> 'w \<Rightarrow> (string + nat \<times> u32) \<times> 'w"

definition derive_tenant_config ::
  "'w host \<Rightarrow> process_launcher \<Rightarrow> 'c kirby_config_scheme \<Rightarrow> tenant_launch_spec \<Rightarrow> 'c kirby_config_scheme" where
  "derive_tenant_config h pl base spec =
     (let instance_id = ta_instance_id (ts_allocation spec); agent_dir = agent_state_dir_for h instance_id
      in base\<lparr>kc_agent_id := ts_agent_id spec, kc_node_id := instance_id, kc_initial_sats := ts_initial_sats spec,
              kc_key_path := Some (path_join (pl_config_dir pl) (''keys-'' @ instance_id)),
              kc_frost_keystore_dir := Some (ts_frost_keystore_dir spec),
              kc_treasury_dir := Some agent_dir,
              kc_wallet_db_path := path_join agent_dir ''wallet.sqlite'',
              kc_fleet := fleet_block_default\<rparr>)"

definition tenant_config_path :: "process_launcher \<Rightarrow> agent_id \<Rightarrow> string" where
  "tenant_config_path pl a = path_join (pl_config_dir pl) (''tenant-'' @ a @ ''.toml'')"

definition process_launch ::
  "'w host \<Rightarrow> ('c, 'w) launcher_io \<Rightarrow> process_launcher \<Rightarrow> 'c kirby_config_scheme \<Rightarrow> tenant_launch_spec \<Rightarrow> 'w
     \<Rightarrow> (string + tenant_process) \<times> 'w" where
  "process_launch h io pl base spec w =
     (case li_to_toml io (derive_tenant_config h pl base spec) of
        Inl e \<Rightarrow> (Inl e, w)
      | Inr toml \<Rightarrow>
     (case li_create_dir io (pl_config_dir pl) w of
        (Inl e, w1) \<Rightarrow> (Inl e, w1)
      | (Inr _, w1) \<Rightarrow>
     (let config_path = tenant_config_path pl (ts_agent_id spec) in
      case li_write_file io config_path toml w1 of
        (Inl e, w2) \<Rightarrow> (Inl e, w2)
      | (Inr _, w2) \<Rightarrow>
     (case li_spawn io [pl_binary pl, ''agent'', ''--config'', config_path]
             [(''KIRBY_GUEST_CID'', show_word (ta_guest_cid (ts_allocation spec))),
              (''KIRBY_GATEWAY_PORT'', show_word (ta_gateway_port (ts_allocation spec)))] w2 of
        (Inl e, w3) \<Rightarrow> (Inl e, w3)
      | (Inr (handle, pid), w3) \<Rightarrow> (Inr (ChildTenant handle pid), w3)))))"

end
