(* ===== verification/Fleet_Supervisor_Props.thy ===== *)
theory Fleet_Supervisor_Props
  imports Fleet_Supervisor
begin

text \<open>
  What the supervisor promises: every tenant it tracks holds its slot and can be found again after a restart, a launch
  that fails leaves nothing behind, a launch under the fence was confirmed, and what a reconcile does to each orphan.
\<close>

section \<open>The invariant\<close>

text \<open>The launch registry files the child of an agent under the agent's instance.\<close>

definition registry_ok :: "launch_registry \<Rightarrow> bool" where
  "registry_ok reg \<longleftrightarrow> tree_ok (lg_records reg)
     \<and> (\<forall>i r. registry_get reg i = Some r \<longrightarrow> la_instance_id r = i \<and> i = instance_id_for (la_agent_id r))"

text \<open>A tracked tenant holds the slot of its record, lives in the directories of its instance, and its child is on
  record.\<close>

definition tracked_ok :: "'w host \<Rightarrow> 'c fleet_supervisor \<Rightarrow> agent_id \<Rightarrow> live_tenant \<Rightarrow> bool" where
  "tracked_ok h sv a t \<longleftrightarrow>
     tr_agent_id (lt_record t) = a
     \<and> allocation_for (fs_allocator sv) a = Some (tr_allocation (lt_record t))
     \<and> tr_treasury_path (lt_record t) = treasury_path_for h (instance_id_for a)
     \<and> tr_keystore_dir (lt_record t) = keystore_dir_for h (instance_id_for a)
     \<and> (\<exists>pid. process_pid (lt_process t) = Some pid
          \<and> registry_get (fs_launch_registry sv) (instance_id_for a)
              = Some \<lparr>la_agent_id = a, la_instance_id = instance_id_for a, la_pid = pid\<rparr>)"

definition fleet_ok :: "'w host \<Rightarrow> 'c fleet_supervisor \<Rightarrow> bool" where
  "fleet_ok h sv \<longleftrightarrow> allocator_ok (fs_allocator sv) \<and> tree_ok (fs_tenants sv) \<and> registry_ok (fs_launch_registry sv)
     \<and> (\<forall>a t. tget (fs_tenants sv) a = Some t \<longrightarrow> tracked_ok h sv a t)"

text \<open>The agents whose slots a supervisor holds.\<close>

definition slots :: "'c fleet_supervisor \<Rightarrow> agent_id set" where
  "slots sv = {a. allocation_for (fs_allocator sv) a \<noteq> None}"

definition tracked :: "'c fleet_supervisor \<Rightarrow> agent_id set" where
  "tracked sv = {a. tget (fs_tenants sv) a \<noteq> None}"

lemma instance_id_inj [simp]: "instance_id_for a = instance_id_for b \<longleftrightarrow> a = b"
  by (simp add: instance_id_for_def)

lemma fleet_okD:
  assumes "fleet_ok h sv"
  shows "allocator_ok (fs_allocator sv)" "tree_ok (fs_tenants sv)" "registry_ok (fs_launch_registry sv)"
    "tree_ok (al_live (fs_allocator sv))" "tree_ok (lg_records (fs_launch_registry sv))"
    "tget (fs_tenants sv) a = Some t \<Longrightarrow> tracked_ok h sv a t"
  using assms by (auto simp: fleet_ok_def allocator_ok_def live_ok_def registry_ok_def)

lemma slot_instance: "allocator_ok al \<Longrightarrow> allocation_for al a = Some x \<Longrightarrow> ta_instance_id x = instance_id_for a"
  by (simp add: allocator_ok_def live_ok_def allocation_for_def slot_ok_def)

lemma tracked_is_slot: "fleet_ok h sv \<Longrightarrow> tracked sv \<subseteq> slots sv"
  by (auto simp: tracked_def slots_def dest!: fleet_okD(6) simp: tracked_ok_def)

section \<open>What each step does\<close>

lemma release_slot_does:
  assumes "release_slot h a sv w = (sv', w')" "fleet_ok h0 sv"
  obtains al where "sv' = sv\<lparr>fs_allocator := al\<rparr>" "allocator_ok al" "w' = snd (ho_io h w)"
    "\<And>b. allocation_for al b = (if b = a then None else allocation_for (fs_allocator sv) b)"
proof -
  let ?al = "snd (release (fst (ho_io h w)) a (fs_allocator sv))"
  have "sv' = sv\<lparr>fs_allocator := ?al\<rparr>" "w' = snd (ho_io h w)"
    using assms(1) by (auto simp: release_slot_def split: prod.splits)
  moreover have "allocator_ok ?al" by (rule release_ok [OF fleet_okD(1) [OF assms(2)]])
  moreover have "allocation_for ?al b = (if b = a then None else allocation_for (fs_allocator sv) b)" for b
    using fleet_okD(4) [OF assms(2)]
    by (auto simp: release_def persist_def allocation_for_def sled.get_del split: option.splits)
  ultimately show ?thesis using that by blast
qed

lemma forget_does:
  assumes "forget_launch_record h i sv w = (sv', w')" "registry_ok (fs_launch_registry sv)"
  obtains reg where "sv' = sv\<lparr>fs_launch_registry := reg\<rparr>" "registry_ok reg" "w' = snd (ho_io h w)"
    "\<And>j. registry_get reg j = (if j = i then None else registry_get (fs_launch_registry sv) j)"
proof -
  let ?reg = "snd (registry_forget (fst (ho_io h w)) i (fs_launch_registry sv))"
  have t: "tree_ok (lg_records (fs_launch_registry sv))" using assms(2) by (simp add: registry_ok_def)
  have r: "lg_records ?reg = tremove i (lg_records (fs_launch_registry sv))"
    by (simp add: registry_forget_def registry_persist_def)
  have g: "registry_get ?reg j = (if j = i then None else registry_get (fs_launch_registry sv) j)" for j
    using t by (simp add: registry_get_def r sled.get_del)
  have "registry_ok ?reg" unfolding registry_ok_def using assms(2) g t r
    by (auto simp: registry_ok_def sled.ok_del split: if_splits)
  moreover have "sv' = sv\<lparr>fs_launch_registry := ?reg\<rparr>" "w' = snd (ho_io h w)"
    using assms(1) by (auto simp: forget_launch_record_def split: prod.splits)
  ultimately show ?thesis using that g by blast
qed

lemma record_does:
  assumes "record_launch h p a (instance_id_for a) sv w = (sv', w')" "registry_ok (fs_launch_registry sv)"
  obtains reg pid where "sv' = sv\<lparr>fs_launch_registry := reg\<rparr>" "registry_ok reg" "w' = snd (ho_io h w)" "process_pid p = Some pid"
    "\<And>j. registry_get reg j = (if j = instance_id_for a
        then Some \<lparr>la_agent_id = a, la_instance_id = instance_id_for a, la_pid = pid\<rparr> else registry_get (fs_launch_registry sv) j)"
proof -
  obtain pid where pid: "process_pid p = Some pid" by (cases p) (auto simp: process_pid_def)
  let ?r = "\<lparr>la_agent_id = a, la_instance_id = instance_id_for a, la_pid = pid\<rparr>"
  let ?reg = "snd (registry_record (fst (ho_io h w)) ?r (fs_launch_registry sv))"
  have t: "tree_ok (lg_records (fs_launch_registry sv))" using assms(2) by (simp add: registry_ok_def)
  have r: "lg_records ?reg = tinsert (instance_id_for a) ?r (lg_records (fs_launch_registry sv))"
    by (simp add: registry_record_def registry_persist_def)
  have g: "registry_get ?reg j = (if j = instance_id_for a then Some ?r else registry_get (fs_launch_registry sv) j)" for j
    using t by (simp add: registry_get_def r sled.get_put)
  have "registry_ok ?reg" unfolding registry_ok_def using assms(2) g t r
    by (auto simp: registry_ok_def sled.ok_put split: if_splits)
  moreover have "sv' = sv\<lparr>fs_launch_registry := ?reg\<rparr>" "w' = snd (ho_io h w)"
    using assms(1) pid by (auto simp: record_launch_def split: prod.splits)
  ultimately show ?thesis using that g pid by blast
qed

text \<open>A tenant taken out leaves with its slot and its record; the others keep theirs.\<close>

definition without :: "agent_id \<Rightarrow> 'c fleet_supervisor \<Rightarrow> 'c fleet_supervisor \<Rightarrow> bool" where
  "without a sv sv' \<longleftrightarrow>
     (\<exists>al reg. sv' = sv\<lparr>fs_allocator := al, fs_tenants := tremove a (fs_tenants sv), fs_launch_registry := reg\<rparr>
        \<and> (\<forall>b. allocation_for al b = (if b = a then None else allocation_for (fs_allocator sv) b))
        \<and> (\<forall>j. registry_get reg j = (if j = instance_id_for a then None else registry_get (fs_launch_registry sv) j)))"

lemma drop_tenant_does:
  assumes d: "drop_tenant h a t (sv\<lparr>fs_tenants := tremove a (fs_tenants sv)\<rparr>) w = (sv', w')"
    and ok: "fleet_ok h sv" and t: "tget (fs_tenants sv) a = Some t"
  shows "without a sv sv'" "fleet_ok h sv'" "w' = snd (ho_io h (snd (ho_io h w)))"
proof -
  note okD = fleet_okD [OF ok]
  let ?sv = "sv\<lparr>fs_tenants := tremove a (fs_tenants sv)\<rparr>"
  have "fleet_ok h ?sv"
    using ok okD(2) by (auto simp: fleet_ok_def tracked_ok_def sled.ok_del sled.get_del split: if_splits)
  have i: "ta_instance_id (tr_allocation (lt_record t)) = instance_id_for a"
    using okD(6) [OF t] slot_instance [OF okD(1)] by (simp add: tracked_ok_def)
  obtain sv1 w1 where s1: "release_slot h a ?sv w = (sv1, w1)" by fastforce
  with d i have s2: "forget_launch_record h (instance_id_for a) sv1 w1 = (sv', w')" by (simp add: drop_tenant_def)
  from s1 \<open>fleet_ok h ?sv\<close> obtain al where al: "sv1 = ?sv\<lparr>fs_allocator := al\<rparr>" "allocator_ok al" "w1 = snd (ho_io h w)"
    "\<And>b. allocation_for al b = (if b = a then None else allocation_for (fs_allocator sv) b)"
    by (rule release_slot_does) simp
  have "registry_ok (fs_launch_registry sv1)" using okD(3) al(1) by simp
  with s2 obtain reg where reg: "sv' = sv1\<lparr>fs_launch_registry := reg\<rparr>" "registry_ok reg" "w' = snd (ho_io h w1)"
    "\<And>j. registry_get reg j = (if j = instance_id_for a then None else registry_get (fs_launch_registry sv1) j)"
    by (rule forget_does) blast
  show "without a sv sv'" unfolding without_def using al reg by (intro exI [of _ al] exI [of _ reg]) simp
  show "w' = snd (ho_io h (snd (ho_io h w)))" using al reg by simp
  show "fleet_ok h sv'" unfolding fleet_ok_def
    using al reg okD(2,6) by (auto simp: sled.ok_del sled.get_del tracked_ok_def split: if_splits)
qed

text \<open>Several taken out, whatever the order.\<close>

definition without_all :: "agent_id set \<Rightarrow> 'c fleet_supervisor \<Rightarrow> 'c fleet_supervisor \<Rightarrow> bool" where
  "without_all S sv sv' \<longleftrightarrow>
     fs_node_id sv' = fs_node_id sv \<and> fs_base_config sv' = fs_base_config sv \<and> fs_lease_confirmer sv' = fs_lease_confirmer sv
     \<and> fs_confirm_settle sv' = fs_confirm_settle sv
     \<and> (\<forall>a. allocation_for (fs_allocator sv') a = (if a \<in> S then None else allocation_for (fs_allocator sv) a))
     \<and> (\<forall>a. tget (fs_tenants sv') a = (if a \<in> S then None else tget (fs_tenants sv) a))
     \<and> (\<forall>j. registry_get (fs_launch_registry sv') j = (if j \<in> instance_id_for ` S then None else registry_get (fs_launch_registry sv) j))"

lemma without_all_none [simp]: "without_all {} sv sv"
  by (simp add: without_all_def)

lemma without_all_step:
  assumes "fleet_ok h sv" "without a sv sv1" "without_all S sv1 sv'"
  shows "without_all (insert a S) sv sv'"
  using assms fleet_okD(2) [OF assms(1)] by (auto simp: without_all_def without_def sled.get_del)

lemma drop_tenant_state:
  assumes "drop_tenant h a t (sv\<lparr>fs_tenants := tremove a (fs_tenants sv)\<rparr>) w = (sv', w')"
    and "fleet_ok h sv" "tget (fs_tenants sv) a = Some t"
  shows "without_all {a} sv sv'" "fleet_ok h sv'"
  using drop_tenant_does [OF assms] without_all_step [OF assms(2), of a sv' "{}" sv'] by simp_all

section \<open>Taking down\<close>

lemma kill_and_reap_does:
  assumes "kill_and_reap_ids h ids sv w = (sv', w')" "fleet_ok h sv"
  shows "without_all (set ids \<inter> tracked sv) sv sv' \<and> fleet_ok h sv'"
  using assms
proof (induction ids arbitrary: sv w)
  case (Cons a ids)
  show ?case
  proof (cases "tget (fs_tenants sv) a")
    case None
    with Cons show ?thesis by (auto simp: tracked_def Int_insert_left)
  next
    case (Some t)
    let ?w = "process_kill h (lt_process t) w"
    obtain sv1 w1 where d: "drop_tenant h a t (sv\<lparr>fs_tenants := tremove a (fs_tenants sv)\<rparr>) ?w = (sv1, w1)" by fastforce
    note one = drop_tenant_does(1,2) [OF d Cons.prems(2) Some]
    have "tracked sv1 = tracked sv - {a}"
      using drop_tenant_state(1) [OF d Cons.prems(2) Some] by (auto simp: tracked_def without_all_def)
    moreover have "kill_and_reap_ids h ids sv1 w1 = (sv', w')" using Cons.prems(1) Some d by simp
    ultimately have "without_all (set ids \<inter> (tracked sv - {a})) sv1 sv'" "fleet_ok h sv'"
      using Cons.IH [OF _ one(2)] by auto
    moreover from this(1) have "without_all (insert a (set ids \<inter> (tracked sv - {a}))) sv sv'"
      by (rule without_all_step [OF Cons.prems(2) one(1)])
    moreover have "insert a (set ids \<inter> (tracked sv - {a})) = set (a # ids) \<inter> tracked sv"
      using Some by (auto simp: tracked_def)
    ultimately show ?thesis by metis
  qed
qed simp

lemma tracked_keys: "set (tkeys (fs_tenants sv)) = tracked sv"
  by (auto simp: tkeys_def tracked_def tget_notin)

lemma kill_and_reap_all_does:
  assumes "kill_and_reap_all h sv w = (sv', w')" "fleet_ok h sv"
  shows "without_all (tracked sv) sv sv'" "fleet_ok h sv'"
  using kill_and_reap_does [OF assms(1) [unfolded kill_and_reap_all_def] assms(2)] by (simp_all add: tracked_keys)

lemma reap_ids_does:
  assumes "reap_ids h ids sv w = (records, sv', w')" "fleet_ok h sv" "distinct ids" "set ids \<subseteq> tracked sv"
  shows "without_all (set ids) sv sv' \<and> fleet_ok h sv'
    \<and> records = map (\<lambda>a. lt_record (the (tget (fs_tenants sv) a))) ids"
  using assms
proof (induction ids arbitrary: sv w records)
  case (Cons a ids)
  then obtain t where t: "tget (fs_tenants sv) a = Some t" by (auto simp: tracked_def)
  obtain sv1 w1 where d: "drop_tenant h a t (sv\<lparr>fs_tenants := tremove a (fs_tenants sv)\<rparr>) w = (sv1, w1)" by fastforce
  note one = drop_tenant_does(1,2) [OF d Cons.prems(2) t]
  obtain rest where r: "reap_ids h ids sv1 w1 = (rest, sv', w')" "records = lt_record t # rest"
    using Cons.prems(1) t d by (auto split: prod.splits)
  have g: "tget (fs_tenants sv1) b = (if b = a then None else tget (fs_tenants sv) b)" for b
    using drop_tenant_state(1) [OF d Cons.prems(2) t] by (simp add: without_all_def)
  then have "set ids \<subseteq> tracked sv1" using Cons.prems(3,4) by (auto simp: tracked_def)
  with Cons.IH [OF r(1) one(2)] Cons.prems(3) have ih: "without_all (set ids) sv1 sv'" "fleet_ok h sv'"
    "rest = map (\<lambda>a. lt_record (the (tget (fs_tenants sv1) a))) ids" by auto
  have "rest = map (\<lambda>a. lt_record (the (tget (fs_tenants sv) a))) ids"
    unfolding ih(3) using g Cons.prems(3) by (intro map_cong refl) auto
  with without_all_step [OF Cons.prems(2) one(1) ih(1)] ih(2) r(2) t show ?case by simp
qed simp

lemma dead_tenants_set:
  "tree_ok (fs_tenants sv) \<Longrightarrow> set (dead_tenants h sv w) =
     {a. \<exists>t. tget (fs_tenants sv) a = Some t \<and> \<not> process_is_running h (lt_process t) w}"
  by (force simp: dead_tenants_def tget_in_set [symmetric])

lemma dead_tenants_distinct: "tree_ok (fs_tenants sv) \<Longrightarrow> distinct (dead_tenants h sv w)"
  unfolding dead_tenants_def by (drule tree_ok_distinct) (simp add: distinct_map_filter)

lemma reap_dead_does:
  assumes "reap_dead h sv w = (records, sv', w')" "fleet_ok h sv"
  shows "without_all (set (dead_tenants h sv w)) sv sv'" "fleet_ok h sv'"
    "records = map (\<lambda>a. lt_record (the (tget (fs_tenants sv) a))) (dead_tenants h sv w)"
proof -
  have "set (dead_tenants h sv w) \<subseteq> tracked sv"
    unfolding dead_tenants_set [OF fleet_okD(2) [OF assms(2)]] by (auto simp: tracked_def)
  from reap_ids_does [OF assms(1) [unfolded reap_dead_def] assms(2) dead_tenants_distinct [OF fleet_okD(2) [OF assms(2)]] this]
  show "without_all (set (dead_tenants h sv w)) sv sv'" "fleet_ok h sv'"
    "records = map (\<lambda>a. lt_record (the (tget (fs_tenants sv) a))) (dead_tenants h sv w)" by simp_all
qed

lemma reap_does:
  assumes "reap h a sv w = (res, sv', w')" "fleet_ok h sv"
  shows "fleet_ok h sv'"
    and "(\<exists>e. res = Inl e) \<and> sv' = sv \<and> w' = w
      \<or> (\<exists>t. tget (fs_tenants sv) a = Some t \<and> \<not> process_is_running h (lt_process t) w \<and> res = Inr (lt_record t) \<and> without_all {a} sv sv')"
  using assms drop_tenant_state [of h a _ sv w sv' w']
  by (auto simp: reap_def split: option.splits if_splits prod.splits)

section \<open>Launching\<close>

text \<open>The lease that survived was read back after the settle time and names this node at the claimed term.\<close>

definition confirmed :: "'w host \<Rightarrow> agent_id \<Rightarrow> u64 \<Rightarrow> 'c fleet_supervisor \<Rightarrow> 'w \<Rightarrow> 'w \<Rightarrow> bool" where
  "confirmed h a term sv w w' \<longleftrightarrow>
     (if fs_lease_confirmer sv
      then \<exists>l. ho_latest_lease h a (ho_sleep h (fs_confirm_settle sv) w) = (Inr (Some l), w')
             \<and> olr_term l = term \<and> olr_holder_node_id l = fs_node_id sv
      else w' = w)"

lemma confirm_launch_iff: "confirm_launch h a term sv w = (Inr u, w') \<longleftrightarrow> confirmed h a term sv w w'"
  by (auto simp: confirm_launch_def confirmed_def confirm_takeover_win_def split: prod.splits sum.splits option.splits)

text \<open>Every step of a launch that came off: provisioned, claimed, confirmed, then started.\<close>

definition launch_steps ::
  "'w host \<Rightarrow> tenant_config \<Rightarrow> tenant_allocation \<Rightarrow> u64 \<Rightarrow> 'c fleet_supervisor \<Rightarrow> 'w \<Rightarrow> tenant_record \<Rightarrow> tenant_process \<Rightarrow> 'w \<Rightarrow> bool" where
  "launch_steps h t x term sv w rec p w4 \<longleftrightarrow>
     (\<exists>npub w1 granted w2 w3.
        ho_provision h (keystore_dir_for h (ta_instance_id x)) w = (Inr npub, w1)
        \<and> ho_claim_at h (tc_agent_id t) (fs_node_id sv) term (keystore_dir_for h (ta_instance_id x)) w1 = (Inr granted, w2)
        \<and> confirmed h (tc_agent_id t) term sv w2 w3
        \<and> ho_launch h \<lparr>ts_agent_id = tc_agent_id t, ts_allocation = x, ts_treasury_path = treasury_path_for h (ta_instance_id x),
             ts_initial_sats = tc_initial_sats t, ts_frost_keystore_dir = keystore_dir_for h (ta_instance_id x)\<rparr> w3 = (Inr p, w4)
        \<and> rec = \<lparr>tr_agent_id = tc_agent_id t, tr_allocation = x, tr_treasury_path = treasury_path_for h (ta_instance_id x),
             tr_lease_term = lr_term granted, tr_keystore_dir = keystore_dir_for h (ta_instance_id x), tr_frost_npub = npub\<rparr>)"

lemma provision_cases:
  assumes "provision_and_launch h t x term sv w = (res, sv', w')"
  obtains e where "res = Inl e" "sv' = sv"
  | rec p w4 sv5 w5 where "res = Inr rec" "launch_steps h t x term sv w rec p w4"
      "record_launch h p (tc_agent_id t) (ta_instance_id x) sv w4 = (sv5, w')"
      "sv' = sv5\<lparr>fs_tenants := tinsert (tc_agent_id t) \<lparr>lt_process = p, lt_record = rec\<rparr> (fs_tenants sv5)\<rparr>"
proof -
  let ?a = "tc_agent_id t" and ?k = "keystore_dir_for h (ta_instance_id x)"
  note d = assms [unfolded provision_and_launch_def Let_def]
  obtain r1 w1 where 1: "ho_provision h ?k w = (r1, w1)" by fastforce
  show ?thesis
  proof (cases r1)
    case (Inl e) with 1 d that(1) show ?thesis by auto
  next
    case (Inr npub)
    obtain r2 w2 where 2: "ho_claim_at h ?a (fs_node_id sv) term ?k w1 = (r2, w2)" by fastforce
    show ?thesis
    proof (cases r2)
      case (Inl e) with 1 2 Inr d that(1) show ?thesis by auto
    next
      case r2: (Inr granted)
      obtain r3 w3 where 3: "confirm_launch h ?a term sv w2 = (r3, w3)" by fastforce
      show ?thesis
      proof (cases r3)
        case (Inl e) with 1 2 3 Inr r2 d that(1) show ?thesis by auto
      next
        case r3: (Inr u)
        obtain r4 w4 where 4: "ho_launch h \<lparr>ts_agent_id = ?a, ts_allocation = x, ts_treasury_path = treasury_path_for h (ta_instance_id x),
             ts_initial_sats = tc_initial_sats t, ts_frost_keystore_dir = ?k\<rparr> w3 = (r4, w4)" by fastforce
        show ?thesis
        proof (cases r4)
          case (Inl e) with 1 2 3 4 Inr r2 r3 d that(1) show ?thesis by auto
        next
          case r4: (Inr p)
          obtain sv5 w5 where 5: "record_launch h p ?a (ta_instance_id x) sv w4 = (sv5, w5)" by fastforce
          have "confirmed h ?a term sv w2 w3" using 3 r3 confirm_launch_iff by metis
          then show ?thesis using 1 2 4 5 Inr r2 r3 r4 d 3 by (intro that(2)) (auto simp: launch_steps_def)
        qed
      qed
    qed
  qed
qed

lemma tremove_absent: "tree_ok t \<Longrightarrow> tget t a = None \<Longrightarrow> tremove a t = t"
  by (induction t) (auto simp: tree_ok_def split: if_splits)

lemma launch_steps_allocator [simp]:
  "launch_steps h t x term (sv\<lparr>fs_allocator := al\<rparr>) w rec p w4 = launch_steps h t x term sv w rec p w4"
  by (simp add: launch_steps_def confirmed_def)

text \<open>What a launch does: a failure leaves the tracked tenants, the slots and the launch records as they were; a
  success adds one tenant, with a slot that was free.\<close>

definition added ::
  "'w host \<Rightarrow> tenant_config \<Rightarrow> u64 \<Rightarrow> tenant_record \<Rightarrow> 'c fleet_supervisor \<Rightarrow> 'w \<Rightarrow> 'c fleet_supervisor \<Rightarrow> bool" where
  "added h t term rec sv w sv' \<longleftrightarrow>
     (\<exists>x p w4. allocation_for (fs_allocator sv) (tc_agent_id t) = None \<and> ta_instance_id x = instance_id_for (tc_agent_id t)
        \<and> launch_steps h t x term sv (snd (ho_io h w)) rec p w4
        \<and> fs_node_id sv' = fs_node_id sv \<and> fs_base_config sv' = fs_base_config sv
        \<and> fs_lease_confirmer sv' = fs_lease_confirmer sv \<and> fs_confirm_settle sv' = fs_confirm_settle sv
        \<and> (\<forall>b. allocation_for (fs_allocator sv') b = (if b = tc_agent_id t then Some x else allocation_for (fs_allocator sv) b))
        \<and> (\<forall>b. tget (fs_tenants sv') b = (if b = tc_agent_id t then Some \<lparr>lt_process = p, lt_record = rec\<rparr> else tget (fs_tenants sv) b))
        \<and> (\<exists>pid. process_pid p = Some pid
             \<and> (\<forall>j. registry_get (fs_launch_registry sv') j = (if j = instance_id_for (tc_agent_id t)
                  then Some \<lparr>la_agent_id = tc_agent_id t, la_instance_id = j, la_pid = pid\<rparr>
                  else registry_get (fs_launch_registry sv) j))))"

lemma allocate_does:
  assumes "allocate ok a al = (res, al')" "allocator_ok al"
  obtains e where "res = Inl e" "al' = al" | x where "res = Inr x" "allocator_ok al'" "allocation_for al a = None"
    "ta_instance_id x = instance_id_for a" "\<And>b. allocation_for al' b = (if b = a then Some x else allocation_for al b)"
proof (rule allocate_cases [OF assms(2,1)])
  fix x off assume x: "res = Inr x" "tget (al_live al) a = None" "slot_ok al a x"
    "al' = al\<lparr>al_live := tinsert a x (al_live al),
              al_disk := (if al_persistent al then Some (tinsert a x (al_live al)) else al_disk al)\<rparr>"
  have "tree_ok (al_live al)" using assms(2) by (simp add: allocator_ok_def live_ok_def)
  then have "\<And>b. allocation_for al' b = (if b = a then Some x else allocation_for al b)"
    by (simp add: allocation_for_def x sled.get_put)
  moreover have "allocator_ok al'" using allocate_ok [OF assms(2), of ok a] assms(1) by simp
  ultimately show thesis using that(2) [of x] x by (simp add: allocation_for_def slot_ok_def)
qed (use that in blast)

lemma already_allocated:
  assumes "allocation_for (fs_allocator sv) (tc_agent_id t) \<noteq> None"
  shows "launch_one_at_term h t term sv w = (Inl (TenantAllocated (tc_agent_id t)), sv, snd (ho_io h w))"
  using assms by (auto simp: launch_one_at_term_def allocate_def allocation_for_def split: prod.splits)

lemma launch_does:
  assumes l: "launch_one_at_term h t term sv w = (res, sv', w')" and ok: "fleet_ok h sv"
  shows "fleet_ok h sv'"
    and "(\<exists>e. res = Inl e) \<and> without_all {} sv sv' \<or> (\<exists>rec. res = Inr rec \<and> added h t term rec sv w sv')"
proof -
  let ?a = "tc_agent_id t"
  note okD = fleet_okD [OF ok]
  obtain okio w0 where io: "ho_io h w = (okio, w0)" by fastforce
  obtain r al where al: "allocate okio ?a (fs_allocator sv) = (r, al)" by fastforce
  have "fleet_ok h sv' \<and> ((\<exists>e. res = Inl e) \<and> without_all {} sv sv' \<or> (\<exists>rec. res = Inr rec \<and> added h t term rec sv w sv'))"
  proof (rule allocate_does [OF al okD(1)])
    fix e assume "r = Inl e" "al = fs_allocator sv"
    then have "sv' = sv" "\<exists>e. res = Inl e" using l io al by (auto simp: launch_one_at_term_def)
    then show ?thesis using ok by simp
  next
    fix x assume x: "r = Inr x" "allocator_ok al" "allocation_for (fs_allocator sv) ?a = None" "ta_instance_id x = instance_id_for ?a"
      "\<And>b. allocation_for al b = (if b = ?a then Some x else allocation_for (fs_allocator sv) b)"
    let ?sv = "sv\<lparr>fs_allocator := al\<rparr>"
    have untracked: "tget (fs_tenants sv) ?a = None" using tracked_is_slot [OF ok] x(3) by (auto simp: tracked_def slots_def)
    have ok1: "fleet_ok h ?sv" using ok x(2,3,5) untracked by (auto simp: fleet_ok_def tracked_ok_def)
    obtain r2 sv2 w2 where p: "provision_and_launch h t x term ?sv w0 = (r2, sv2, w2)" by (metis prod.exhaust)
    show ?thesis
    proof (rule provision_cases [OF p])
      fix e assume e: "r2 = Inl e" "sv2 = ?sv"
      obtain sv3 w3 where r: "release_slot h ?a sv2 w2 = (sv3, w3)" by fastforce
      have res: "res = Inl e" "sv' = sv3" using l io al x(1) p e r by (auto simp: launch_one_at_term_def)
      from r [unfolded e(2)] ok1 obtain al3 where a3: "sv3 = ?sv\<lparr>fs_allocator := al3\<rparr>" "allocator_ok al3"
        "\<And>b. allocation_for al3 b = (if b = ?a then None else allocation_for al b)" by (rule release_slot_does) auto
      have same: "allocation_for al3 b = allocation_for (fs_allocator sv) b" for b using a3(3) x(3,5) by simp
      then have "without_all {} sv sv3" "fleet_ok h sv3" using a3 ok by (auto simp: without_all_def fleet_ok_def tracked_ok_def)
      then show ?thesis using res by simp
    next
      fix rec p' w4 sv5 w5
      assume s: "r2 = Inr rec" "launch_steps h t x term ?sv w0 rec p' w4" "record_launch h p' ?a (ta_instance_id x) ?sv w4 = (sv5, w2)"
        "sv2 = sv5\<lparr>fs_tenants := tinsert ?a \<lparr>lt_process = p', lt_record = rec\<rparr> (fs_tenants sv5)\<rparr>"
      have res: "res = Inr rec" "sv' = sv2" using l io al x(1) p s(1) by (auto simp: launch_one_at_term_def)
      have "registry_ok (fs_launch_registry ?sv)" using okD(3) by simp
      from s(3) [unfolded x(4)] this obtain reg pid where g: "sv5 = ?sv\<lparr>fs_launch_registry := reg\<rparr>" "registry_ok reg" "process_pid p' = Some pid"
        "\<And>j. registry_get reg j = (if j = instance_id_for ?a
            then Some \<lparr>la_agent_id = ?a, la_instance_id = instance_id_for ?a, la_pid = pid\<rparr> else registry_get (fs_launch_registry sv) j)"
        by (rule record_does) auto
      have a: "added h t term rec sv w sv2" unfolding added_def
        using s(2) x g okD(2) s(4) io by (intro exI [of _ x] exI [of _ p'] exI [of _ w4]) (simp add: sled.get_put)
      have "tr_agent_id rec = ?a" "tr_allocation rec = x" "tr_treasury_path rec = treasury_path_for h (instance_id_for ?a)"
        "tr_keystore_dir rec = keystore_dir_for h (instance_id_for ?a)" using s(2) x(4) by (auto simp: launch_steps_def)
      then have "fleet_ok h sv2" unfolding fleet_ok_def s(4) g(1) using okD(2,6) x g
        by (auto simp: sled.ok_put sled.get_put tracked_ok_def)
      then show ?thesis using a res by simp
    qed
  qed
  then show "fleet_ok h sv'"
    and "(\<exists>e. res = Inl e) \<and> without_all {} sv sv' \<or> (\<exists>rec. res = Inr rec \<and> added h t term rec sv w sv')" by simp_all
qed

section \<open>Launching a batch\<close>

text \<open>What the supervisor relies on in the operating system: a kill ends its process, and an ended process stays ended
  while others are killed and files are written.\<close>

definition kills_hold :: "'w host \<Rightarrow> bool" where
  "kills_hold h \<longleftrightarrow> (\<forall>p w. \<not> process_is_running h p (process_kill h p w))
     \<and> (\<forall>p q w. \<not> process_is_running h p w \<longrightarrow> \<not> process_is_running h p (process_kill h q w))
     \<and> (\<forall>p w. \<not> process_is_running h p w \<longrightarrow> \<not> process_is_running h p (snd (ho_io h w)))"

lemma kills_holdD:
  assumes "kills_hold h"
  shows "\<not> process_is_running h p (process_kill h p w)"
    and "\<not> process_is_running h p w \<Longrightarrow> \<not> process_is_running h p (process_kill h q w)"
    and "\<not> process_is_running h p w \<Longrightarrow> \<not> process_is_running h p (snd (ho_io h w))"
  using assms unfolding kills_hold_def by blast+

lemma ended_stays:
  assumes "kills_hold h" "\<not> process_is_running h p w" "kill_and_reap_ids h ids sv w = (sv', w')" "fleet_ok h sv"
  shows "\<not> process_is_running h p w'"
  using assms(2-4)
proof (induction ids arbitrary: sv w)
  case (Cons a ids)
  show ?case
  proof (cases "tget (fs_tenants sv) a")
    case None with Cons show ?thesis by simp
  next
    case (Some t)
    obtain sv1 w1 where d: "drop_tenant h a t (sv\<lparr>fs_tenants := tremove a (fs_tenants sv)\<rparr>) (process_kill h (lt_process t) w) = (sv1, w1)" by fastforce
    have "\<not> process_is_running h p w1"
      using kills_holdD(2,3) [OF assms(1)] Cons.prems(1) drop_tenant_does(3) [OF d Cons.prems(3) Some] by simp
    moreover have "kill_and_reap_ids h ids sv1 w1 = (sv', w')" using Cons.prems(2) Some d by simp
    ultimately show ?thesis by (rule Cons.IH [OF _ _ drop_tenant_does(2) [OF d Cons.prems(3) Some]])
  qed
qed simp

lemma kill_and_reap_kills:
  assumes "kills_hold h" "kill_and_reap_ids h ids sv w = (sv', w')" "fleet_ok h sv" "b \<in> set ids" "tget (fs_tenants sv) b = Some u"
  shows "\<not> process_is_running h (lt_process u) w'"
  using assms(2-5)
proof (induction ids arbitrary: sv w)
  case (Cons a ids)
  show ?case
  proof (cases "tget (fs_tenants sv) a")
    case None with Cons show ?thesis by auto
  next
    case (Some t)
    obtain sv1 w1 where d: "drop_tenant h a t (sv\<lparr>fs_tenants := tremove a (fs_tenants sv)\<rparr>) (process_kill h (lt_process t) w) = (sv1, w1)" by fastforce
    have k: "kill_and_reap_ids h ids sv1 w1 = (sv', w')" using Cons.prems(1) Some d by simp
    note ok1 = drop_tenant_does(2) [OF d Cons.prems(2) Some]
    show ?thesis
    proof (cases "b = a")
      case True
      then have "\<not> process_is_running h (lt_process u) w1"
        using kills_holdD [OF assms(1)] drop_tenant_does(3) [OF d Cons.prems(2) Some] Some Cons.prems(4) by simp
      then show ?thesis by (rule ended_stays [OF assms(1) _ k ok1])
    next
      case False
      then have "tget (fs_tenants sv1) b = Some u"
        using drop_tenant_state(1) [OF d Cons.prems(2) Some] Cons.prems(4) by (simp add: without_all_def)
      with False Cons.prems(3) show ?thesis by (intro Cons.IH [OF k ok1]) auto
    qed
  qed
qed simp

lemma added_facts:
  assumes "added h t term rec sv w sv'"
  shows "tc_agent_id t \<notin> slots sv" "slots sv' = insert (tc_agent_id t) (slots sv)" "tracked sv' = insert (tc_agent_id t) (tracked sv)"
    "tenant_record_of (tc_agent_id t) sv' = Some rec" "tr_agent_id rec = tc_agent_id t" "fs_base_config sv' = fs_base_config sv"
    "\<And>b. b \<noteq> tc_agent_id t \<Longrightarrow> tget (fs_tenants sv') b = tget (fs_tenants sv) b"
proof -
  obtain x p w4 where a: "allocation_for (fs_allocator sv) (tc_agent_id t) = None" "launch_steps h t x term sv (snd (ho_io h w)) rec p w4"
    "\<And>b. allocation_for (fs_allocator sv') b = (if b = tc_agent_id t then Some x else allocation_for (fs_allocator sv) b)"
    "\<And>b. tget (fs_tenants sv') b = (if b = tc_agent_id t then Some \<lparr>lt_process = p, lt_record = rec\<rparr> else tget (fs_tenants sv) b)"
    "fs_base_config sv' = fs_base_config sv"
    using assms unfolding added_def by blast
  show "tc_agent_id t \<notin> slots sv" "slots sv' = insert (tc_agent_id t) (slots sv)" "tracked sv' = insert (tc_agent_id t) (tracked sv)"
    "tenant_record_of (tc_agent_id t) sv' = Some rec" "fs_base_config sv' = fs_base_config sv"
    "\<And>b. b \<noteq> tc_agent_id t \<Longrightarrow> tget (fs_tenants sv') b = tget (fs_tenants sv) b"
    using a(1,3-5) by (auto simp: slots_def tracked_def tenant_record_of_def)
  show "tr_agent_id rec = tc_agent_id t" using a(2) by (auto simp: launch_steps_def)
qed

lemma without_all_facts:
  assumes "without_all S sv sv'"
  shows "slots sv' = slots sv - S" "tracked sv' = tracked sv - S"
  using assms by (auto simp: without_all_def slots_def tracked_def)

lemma without_all_owned: "without_all S sv sv' \<Longrightarrow> slots sv' - tracked sv' \<subseteq> slots sv - tracked sv"
  using without_all_facts [of S sv sv'] by auto

lemma untracked_empty: "tracked sv = {} \<Longrightarrow> fs_tenants sv = []"
  using tracked_keys [of sv] by (simp add: tkeys_def)

text \<open>A batch that came off: one record per tenant in order, each on a slot of its own that was free.\<close>

definition batch_launched :: "tenant_config list \<Rightarrow> 'c fleet_supervisor \<Rightarrow> tenant_record list \<Rightarrow> 'c fleet_supervisor \<Rightarrow> bool" where
  "batch_launched ts sv recs sv' \<longleftrightarrow>
     map tr_agent_id recs = map tc_agent_id ts \<and> tc_agent_id ` set ts \<inter> slots sv = {}
     \<and> tracked sv' = tracked sv \<union> tc_agent_id ` set ts \<and> slots sv' = slots sv \<union> tc_agent_id ` set ts
     \<and> (\<forall>b. b \<notin> tc_agent_id ` set ts \<longrightarrow> tget (fs_tenants sv') b = tget (fs_tenants sv) b)
     \<and> (\<forall>rec\<in>set recs. tenant_record_of (tr_agent_id rec) sv' = Some rec)"

text \<open>A batch that was rolled back, from the supervisor \<open>m\<close> that the failing launch left.\<close>

definition rolled_back :: "'w host \<Rightarrow> 'c fleet_supervisor \<Rightarrow> 'c fleet_supervisor \<Rightarrow> 'c fleet_supervisor \<Rightarrow> 'w \<Rightarrow> bool" where
  "rolled_back h sv m sv' w' \<longleftrightarrow>
     fleet_ok h m \<and> (\<exists>wm. kill_and_reap_all h m wm = (sv', w')) \<and> slots m - tracked m = slots sv - tracked sv
     \<and> (\<forall>a t. tget (fs_tenants sv) a = Some t \<longrightarrow> tget (fs_tenants m) a = Some t)"

lemma batch_step:
  assumes a: "added h t term rec sv w sv1" and b: "batch_launched ts sv1 new sv'"
  shows "batch_launched (t # ts) sv (rec # new) sv'"
proof -
  note f = added_facts [OF a]
  note b' = b [unfolded batch_launched_def]
  have t: "tc_agent_id t \<notin> tc_agent_id ` set ts" using b' f(2) by auto
  then have "tenant_record_of (tr_agent_id rec) sv' = Some rec" using b' f(4,5) by (simp add: tenant_record_of_def)
  then show ?thesis using b' f t unfolding batch_launched_def by auto
qed

lemma rolled_step:
  assumes a: "added h t term rec sv w sv1" and ok: "fleet_ok h sv" and r: "rolled_back h sv1 m sv' w'"
  shows "rolled_back h sv m sv' w'"
proof -
  note f = added_facts [OF a]
  have none: "tget (fs_tenants sv) (tc_agent_id t) = None" using tracked_is_slot [OF ok] f(1) by (auto simp: tracked_def)
  have "tget (fs_tenants sv) b = Some u \<Longrightarrow> tget (fs_tenants sv1) b = Some u" for b u
    using f(7) [of b] none by (cases "b = tc_agent_id t") auto
  moreover have "slots sv1 - tracked sv1 = slots sv - tracked sv" using f(1-3) tracked_is_slot [OF ok] by auto
  ultimately show ?thesis using r unfolding rolled_back_def by auto
qed

lemma launch_each_does:
  assumes "launch_each h records ts sv w = (res, sv', w')" "fleet_ok h sv"
  shows "fleet_ok h sv' \<and> (case res of
      Inr recs \<Rightarrow> \<exists>new. recs = records @ new \<and> batch_launched ts sv new sv' | Inl e \<Rightarrow> \<exists>m. rolled_back h sv m sv' w')"
  using assms
proof (induction ts arbitrary: records sv w)
  case Nil
  then show ?case by (auto simp: batch_launched_def)
next
  case (Cons t ts)
  obtain r sv1 w1 where l: "launch_one h t sv w = (r, sv1, w1)" by (metis prod.exhaust)
  note does = launch_does [OF l [unfolded launch_one_def] Cons.prems(2)]
  show ?case
  proof (cases r)
    case (Inl e)
    then have u: "without_all {} sv sv1" using does(2) by auto
    obtain sv2 w2 where k: "kill_and_reap_all h sv1 w1 = (sv2, w2)" by fastforce
    have res: "res = Inl e" "sv' = sv2" "w' = w2" using Cons.prems(1) l Inl k by auto
    have "rolled_back h sv sv1 sv' w'" unfolding rolled_back_def
      using does(1) k res without_all_facts [OF u] u by (auto simp: without_all_def)
    then show ?thesis using res kill_and_reap_all_does(2) [OF k does(1)] by auto
  next
    case (Inr rec)
    then have a: "added h t 1 rec sv w sv1" using does(2) by auto
    have n: "launch_each h (records @ [rec]) ts sv1 w1 = (res, sv', w')" using Cons.prems(1) l Inr by simp
    from Cons.IH [OF n does(1)] show ?thesis
      using batch_step [OF a] rolled_step [OF a Cons.prems(2)] by (fastforce split: sum.splits)
  qed
qed

text \<open>The same host with a log: the world also keeps the list of the processes the launcher started.\<close>

definition recording :: "'w host \<Rightarrow> ('w \<times> tenant_process list) host" where
  "recording h = \<lparr>
     ho_child_running = (\<lambda>c w. ho_child_running h c (fst w)),
     ho_child_kill = (\<lambda>c w. (ho_child_kill h c (fst w), snd w)),
     ho_probe = (\<lambda>w. ho_probe h (fst w)),
     ho_signal = (\<lambda>s w. (ho_signal h s (fst w), snd w)),
     ho_io = (\<lambda>w. case ho_io h (fst w) of (r, w') \<Rightarrow> (r, w', snd w)),
     ho_ledger_io = (\<lambda>w. case ho_ledger_io h (fst w) of (r, w') \<Rightarrow> (r, w', snd w)),
     ho_state_root = ho_state_root h,
     ho_provision = (\<lambda>d w. case ho_provision h d (fst w) of (r, w') \<Rightarrow> (r, w', snd w)),
     ho_load_npub = (\<lambda>d w. ho_load_npub h d (fst w)),
     ho_claim_at = (\<lambda>a n t d w. case ho_claim_at h a n t d (fst w) of (r, w') \<Rightarrow> (r, w', snd w)),
     ho_latest_lease = (\<lambda>a w. case ho_latest_lease h a (fst w) of (r, w') \<Rightarrow> (r, w', snd w)),
     ho_sleep = (\<lambda>n w. (ho_sleep h n (fst w), snd w)),
     ho_launch = (\<lambda>spec w. case ho_launch h spec (fst w) of
         (Inl e, w') \<Rightarrow> (Inl e, w', snd w) | (Inr p, w') \<Rightarrow> (Inr p, w', snd w @ [p])),
     ho_remove_dir = (\<lambda>d w. (ho_remove_dir h d (fst w), snd w))\<rparr>"

text \<open>Nothing but a launch writes the log, and a launch that succeeds logs the process it tracks.\<close>

lemma signals_recorded: "fold (ho_signal (recording h)) ss (w, l) = (fold (ho_signal h) ss w, l)"
  by (induction ss arbitrary: w) (simp_all add: recording_def)

lemma kill_recorded: "process_kill (recording h) p (w, l) = (process_kill h p w, l)"
proof (cases p)
  case (PidTenant t)
  have "ho_probe (recording h) (w, l) = ho_probe h w" by (simp add: recording_def)
  then show ?thesis using signals_recorded by (simp add: process_kill_def PidTenant)
qed (simp add: process_kill_def recording_def)

lemma slot_recorded:
  "release_slot (recording h) a sv (w, l) = (case release_slot h a sv w of (sv', w') \<Rightarrow> (sv', w', l))"
  "forget_launch_record (recording h) i sv (w, l) = (case forget_launch_record h i sv w of (sv', w') \<Rightarrow> (sv', w', l))"
  "record_launch (recording h) p a i sv (w, l) = (case record_launch h p a i sv w of (sv', w') \<Rightarrow> (sv', w', l))"
  "confirm_launch (recording h) a term sv (w, l) = (case confirm_launch h a term sv w of (r, w') \<Rightarrow> (r, w', l))"
  by (simp_all add: release_slot_def forget_launch_record_def record_launch_def confirm_launch_def recording_def
      split: prod.split option.split sum.split)

lemma drop_recorded:
  "drop_tenant (recording h) a live sv (w, l) = (case drop_tenant h a live sv w of (sv', w') \<Rightarrow> (sv', w', l))"
  by (simp add: drop_tenant_def slot_recorded split: prod.split)

lemma reap_recorded:
  "kill_and_reap_ids (recording h) ids sv (w, l) = (case kill_and_reap_ids h ids sv w of (sv', w') \<Rightarrow> (sv', w', l))"
proof (induction ids arbitrary: sv w)
  case (Cons a ids)
  show ?case
  proof (cases "tget (fs_tenants sv) a")
    case (Some live)
    obtain sv1 w1 where d: "drop_tenant h a live (sv\<lparr>fs_tenants := tremove a (fs_tenants sv)\<rparr>) (process_kill h (lt_process live) w) = (sv1, w1)"
      by fastforce
    show ?thesis using Cons.IH by (simp add: Some kill_recorded drop_recorded d)
  qed (simp add: Cons.IH)
qed simp

lemma host_recorded:
  "ho_provision (recording h) d (w, l) = (case ho_provision h d w of (r, w') \<Rightarrow> (r, w', l))"
  "ho_claim_at (recording h) a n term d (w, l) = (case ho_claim_at h a n term d w of (r, w') \<Rightarrow> (r, w', l))"
  "ho_launch h spec w = (Inl e, w') \<Longrightarrow> ho_launch (recording h) spec (w, l) = (Inl e, w', l)"
  "ho_launch h spec w = (Inr p, w') \<Longrightarrow> ho_launch (recording h) spec (w, l) = (Inr p, w', l @ [p])"
  by (simp_all add: recording_def)

lemma provision_recorded:
  assumes "provision_and_launch h t x term sv w = (res, sv', w')" and "tree_ok (fs_tenants sv)"
  shows "\<exists>new. provision_and_launch (recording h) t x term sv (w, l) = (res, sv', w', l @ new)
    \<and> (case res of Inl e \<Rightarrow> new = []
       | Inr rec \<Rightarrow> \<exists>live. tget (fs_tenants sv') (tc_agent_id t) = Some live \<and> new = [lt_process live])"
proof -
  let ?spec = "\<lparr>ts_agent_id = tc_agent_id t, ts_allocation = x, ts_treasury_path = treasury_path_for h (ta_instance_id x),
     ts_initial_sats = tc_initial_sats t, ts_frost_keystore_dir = keystore_dir_for h (ta_instance_id x)\<rparr>"
  have dirs: "treasury_path_for (recording h) i = treasury_path_for h i" "keystore_dir_for (recording h) i = keystore_dir_for h i"
    for i by (simp_all add: treasury_path_for_def keystore_dir_for_def recording_def)
  obtain r1 w1 where 1: "ho_provision h (keystore_dir_for h (ta_instance_id x)) w = (r1, w1)" by fastforce
  show ?thesis
  proof (cases r1)
    case (Inl e)
    with 1 assms(1) show ?thesis
      by (intro exI [of _ "[]"]) (auto simp: provision_and_launch_def dirs host_recorded Let_def)
  next
    case r1: (Inr npub)
    obtain r2 w2 where 2: "ho_claim_at h (tc_agent_id t) (fs_node_id sv) term (keystore_dir_for h (ta_instance_id x)) w1 = (r2, w2)"
      by fastforce
    show ?thesis
    proof (cases r2)
      case (Inl e)
      with 1 2 r1 assms(1) show ?thesis
        by (intro exI [of _ "[]"]) (auto simp: provision_and_launch_def dirs host_recorded Let_def)
    next
      case r2: (Inr granted)
      obtain r3 w3 where 3: "confirm_launch h (tc_agent_id t) term sv w2 = (r3, w3)" by fastforce
      show ?thesis
      proof (cases r3)
        case (Inl e)
        with 1 2 3 r1 r2 assms(1) show ?thesis
          by (intro exI [of _ "[]"]) (auto simp: provision_and_launch_def dirs host_recorded slot_recorded Let_def)
      next
        case r3: (Inr u)
        obtain r4 w4 where 4: "ho_launch h ?spec w3 = (r4, w4)" by fastforce
        show ?thesis
        proof (cases r4)
          case (Inl e)
          with 1 2 3 4 r1 r2 r3 assms(1) show ?thesis
            by (intro exI [of _ "[]"]) (auto simp: provision_and_launch_def dirs host_recorded slot_recorded Let_def)
        next
          case r4: (Inr p)
          obtain sv5 w5 where 5: "record_launch h p (tc_agent_id t) (ta_instance_id x) sv w4 = (sv5, w5)" by fastforce
          then have "fs_tenants sv5 = fs_tenants sv"
            by (auto simp: record_launch_def split: option.splits prod.splits)
          with assms 1 2 3 4 5 r1 r2 r3 r4 show ?thesis
            by (intro exI [of _ "[p]"])
              (auto simp: provision_and_launch_def dirs host_recorded slot_recorded Let_def sled.get_put)
        qed
      qed
    qed
  qed
qed

lemma launch_recorded:
  assumes "launch_one_at_term h t term sv w = (res, sv', w')" and "tree_ok (fs_tenants sv)"
  shows "\<exists>new. launch_one_at_term (recording h) t term sv (w, l) = (res, sv', w', l @ new)
    \<and> (case res of Inl e \<Rightarrow> new = []
       | Inr rec \<Rightarrow> \<exists>live. tget (fs_tenants sv') (tc_agent_id t) = Some live \<and> new = [lt_process live])"
proof -
  obtain okio w0 where io: "ho_io h w = (okio, w0)" by fastforce
  then have io': "ho_io (recording h) (w, l) = (okio, w0, l)" by (simp add: recording_def)
  obtain r al where al: "allocate okio (tc_agent_id t) (fs_allocator sv) = (r, al)" by fastforce
  show ?thesis
  proof (cases r)
    case (Inl e)
    with assms(1) io io' al show ?thesis
      by (intro exI [of _ "[]"]) (auto simp: launch_one_at_term_def)
  next
    case (Inr x)
    let ?sv = "sv\<lparr>fs_allocator := al\<rparr>"
    obtain r2 sv2 w2 where p: "provision_and_launch h t x term ?sv w0 = (r2, sv2, w2)" by (metis prod.exhaust)
    have "tree_ok (fs_tenants ?sv)" using assms(2) by simp
    from provision_recorded [OF p this, of l] obtain new where
      new: "provision_and_launch (recording h) t x term ?sv (w0, l) = (r2, sv2, w2, l @ new)"
        "case r2 of Inl e \<Rightarrow> new = []
         | Inr rec \<Rightarrow> \<exists>live. tget (fs_tenants sv2) (tc_agent_id t) = Some live \<and> new = [lt_process live]" by blast
    from assms(1) io io' al Inr p new show ?thesis
      by (intro exI [of _ new]) (auto simp: launch_one_at_term_def slot_recorded split: sum.splits prod.splits)
  qed
qed

lemma launch_each_recorded:
  assumes "launch_each h records ts sv w = (res, sv', w')" "fleet_ok h sv"
  shows "\<exists>new. launch_each (recording h) records ts sv (w, l) = (res, sv', w', l @ new)
    \<and> (case res of
         Inr recs \<Rightarrow> map (\<lambda>t. map_option lt_process (tget (fs_tenants sv') (tc_agent_id t))) ts = map Some new
       | Inl e \<Rightarrow> \<exists>m. rolled_back h sv m sv' w'
           \<and> (\<forall>p\<in>set new. \<exists>a t. tget (fs_tenants m) a = Some t \<and> lt_process t = p))"
  using assms
proof (induction ts arbitrary: records sv w l)
  case Nil
  then show ?case by (intro exI [of _ "[]"]) auto
next
  case (Cons t ts)
  obtain r sv1 w1 where one: "launch_one h t sv w = (r, sv1, w1)" by (metis prod.exhaust)
  note does = launch_does [OF one [unfolded launch_one_def] Cons.prems(2)]
  have "tree_ok (fs_tenants sv)" using fleet_okD(2) [OF Cons.prems(2)] .
  from launch_recorded [OF one [unfolded launch_one_def] this, of l] obtain new where
    new: "launch_one (recording h) t sv (w, l) = (r, sv1, w1, l @ new)"
      "case r of Inl e \<Rightarrow> new = []
       | Inr rec \<Rightarrow> \<exists>live. tget (fs_tenants sv1) (tc_agent_id t) = Some live \<and> new = [lt_process live]"
    unfolding launch_one_def by blast
  show ?case
  proof (cases r)
    case (Inl e)
    then have u: "without_all {} sv sv1" using does(2) by auto
    obtain sv2 w2 where k: "kill_and_reap_all h sv1 w1 = (sv2, w2)" by fastforce
    have res: "res = Inl e" "sv' = sv2" "w' = w2" using Cons.prems(1) one Inl k by auto
    have "rolled_back h sv sv1 sv' w'" unfolding rolled_back_def
      using does(1) k res without_all_facts [OF u] u by (auto simp: without_all_def)
    moreover have "launch_each (recording h) records (t # ts) sv (w, l) = (res, sv', w', l)"
      using new Inl k res by (simp add: kill_and_reap_all_def reap_recorded)
    ultimately show ?thesis using res(1) by (intro exI [of _ "[]"]) auto
  next
    case (Inr rec)
    then have a: "added h t 1 rec sv w sv1" using does(2) by auto
    have n: "launch_each h (records @ [rec]) ts sv1 w1 = (res, sv', w')" using Cons.prems(1) one Inr by simp
    from new(2) Inr obtain live where live: "tget (fs_tenants sv1) (tc_agent_id t) = Some live" "new = [lt_process live]"
      by auto
    from Cons.IH [OF n does(1), of "l @ new"] obtain more where
      more: "launch_each (recording h) (records @ [rec]) ts sv1 (w1, l @ new) = (res, sv', w', (l @ new) @ more)"
        "case res of
           Inr recs \<Rightarrow> map (\<lambda>t. map_option lt_process (tget (fs_tenants sv') (tc_agent_id t))) ts = map Some more
         | Inl e \<Rightarrow> \<exists>m. rolled_back h sv1 m sv' w'
             \<and> (\<forall>p\<in>set more. \<exists>a t. tget (fs_tenants m) a = Some t \<and> lt_process t = p)" by blast
    have run: "launch_each (recording h) records (t # ts) sv (w, l) = (res, sv', w', l @ (new @ more))"
      using new(1) Inr more(1) by simp
    show ?thesis
    proof (cases res)
      case (Inr recs)
      with launch_each_does [OF n does(1)] obtain rest where b: "batch_launched ts sv1 rest sv'" by auto
      have "tc_agent_id t \<in> slots sv1" using added_facts(2) [OF a] by simp
      with b have "tc_agent_id t \<notin> tc_agent_id ` set ts" unfolding batch_launched_def by auto
      with b live have "tget (fs_tenants sv') (tc_agent_id t) = Some live" unfolding batch_launched_def by auto
      with run more(2) Inr live(2) show ?thesis by (intro exI [of _ "new @ more"]) simp
    next
      case (Inl e)
      with more(2) obtain m where m: "rolled_back h sv1 m sv' w'"
        "\<forall>p\<in>set more. \<exists>a t. tget (fs_tenants m) a = Some t \<and> lt_process t = p" by auto
      have "tget (fs_tenants m) (tc_agent_id t) = Some live" using m(1) live(1) unfolding rolled_back_def by blast
      with m(2) live(2) have "\<forall>p\<in>set (new @ more). \<exists>a t. tget (fs_tenants m) a = Some t \<and> lt_process t = p" by auto
      with rolled_step [OF a Cons.prems(2) m(1)] run Inl show ?thesis by (intro exI [of _ "new @ more"]) auto
    qed
  qed
qed

text \<open>C23: A batch is launched as a whole or not at all. \<open>launch_all\<close> answers either with one record per declared tenant, in
  order, each now tracked under its own record on a slot that was free, with exactly the processes the launcher started in
  this batch, in order, every earlier tenant as it was; or with an error, and then no tenant at all is tracked, every process
  the launcher started in this batch is dead, so is every process the supervisor held before it, and exactly the slots that no
  tenant had are left. What the launcher started is read off the log of the recording host, on which the batch runs exactly
  as on the host itself. It rests on what a kill does: it ends its process, and an ended process stays ended.\<close>

theorem launch_all_or_nothing:
  fixes sv :: "'c fleet_supervisor"
  assumes "fleet_ok h sv" and "kills_hold h" and "launch_all h sv w = (res, sv', w')"
  shows "\<exists>started. launch_all (recording h) sv (w, []) = (res, sv', w', started)
    \<and> (case res of
      Inr recs \<Rightarrow> batch_launched (fb_tenants (kc_fleet (fs_base_config sv))) sv recs sv'
        \<and> map (\<lambda>rec. map_option lt_process (tget (fs_tenants sv') (tr_agent_id rec))) recs = map Some started
    | Inl e \<Rightarrow> fs_tenants sv' = [] \<and> slots sv' = slots sv - tracked sv
        \<and> (\<forall>p\<in>set started. \<not> process_is_running h p w')
        \<and> (\<forall>a t. tget (fs_tenants sv) a = Some t \<longrightarrow> \<not> process_is_running h (lt_process t) w'))"
proof -
  let ?ts = "fb_tenants (kc_fleet (fs_base_config sv))"
  note run = assms(3) [unfolded launch_all_def]
  from launch_each_recorded [OF run assms(1), of "[]"] obtain started where
    log: "launch_all (recording h) sv (w, []) = (res, sv', w', started)"
      "case res of
         Inr recs \<Rightarrow> map (\<lambda>t. map_option lt_process (tget (fs_tenants sv') (tc_agent_id t))) ?ts = map Some started
       | Inl e \<Rightarrow> \<exists>m. rolled_back h sv m sv' w'
           \<and> (\<forall>p\<in>set started. \<exists>a t. tget (fs_tenants m) a = Some t \<and> lt_process t = p)"
    unfolding launch_all_def by auto
  show ?thesis
  proof (cases res)
    case (Inr recs)
    then have b: "batch_launched ?ts sv recs sv'" using launch_each_does [OF run assms(1)] by simp
    then have "map tr_agent_id recs = map tc_agent_id ?ts" by (simp add: batch_launched_def)
    then have "map (\<lambda>rec. map_option lt_process (tget (fs_tenants sv') (tr_agent_id rec))) recs =
        map (\<lambda>t. map_option lt_process (tget (fs_tenants sv') (tc_agent_id t))) ?ts"
      using arg_cong [of "map tr_agent_id recs" "map tc_agent_id ?ts" "map (\<lambda>a. map_option lt_process (tget (fs_tenants sv') a))"]
      unfolding map_map comp_def by blast
    with log b Inr show ?thesis by (intro exI [of _ started]) simp
  next
    case (Inl e)
    with log(2) obtain m where r: "rolled_back h sv m sv' w'"
      and held: "\<forall>p\<in>set started. \<exists>a t. tget (fs_tenants m) a = Some t \<and> lt_process t = p" by auto
    then obtain wm where m: "fleet_ok h m" "kill_and_reap_all h m wm = (sv', w')" "slots m - tracked m = slots sv - tracked sv"
      "\<forall>a t. tget (fs_tenants sv) a = Some t \<longrightarrow> tget (fs_tenants m) a = Some t" unfolding rolled_back_def by blast
    note wa = kill_and_reap_all_does(1) [OF m(2,1)]
    have dead: "tget (fs_tenants m) a = Some t \<Longrightarrow> \<not> process_is_running h (lt_process t) w'" for a t
      using kill_and_reap_kills [OF assms(2) m(2) [unfolded kill_and_reap_all_def] m(1)] by (auto simp: tracked_keys tracked_def)
    have "fs_tenants sv' = []" using without_all_facts(2) [OF wa] by (intro untracked_empty) simp
    moreover have "slots sv' = slots sv - tracked sv" using without_all_facts(1) [OF wa] m(3) by simp
    moreover have "\<forall>p\<in>set started. \<not> process_is_running h p w'" using held dead by fast
    moreover have "\<forall>a t. tget (fs_tenants sv) a = Some t \<longrightarrow> \<not> process_is_running h (lt_process t) w'"
      using m(4) dead by blast
    ultimately show ?thesis using log(1) Inl by (intro exI [of _ started]) simp
  qed
qed

section \<open>Reconciling\<close>

text \<open>A record is supervised again if the decision says so and its slot survived; all others are reaped.\<close>

definition readopts ::
  "liveness_probe \<Rightarrow> (agent_id \<Rightarrow> active_lease option) \<Rightarrow> 'c fleet_supervisor \<Rightarrow> launch_record \<Rightarrow> bool" where
  "readopts probe view sv r \<longleftrightarrow> decide_one r probe view (fs_node_id sv) = ReAdopt \<and> la_agent_id r \<in> slots sv"

text \<open>One record of an untracked agent was dealt with: supervised by its PID, or gone with its slot, its launch record and
  its entry in the spawn ledger (if the ledger's storage answered).\<close>

definition settled ::
  "'w host \<Rightarrow> bool \<Rightarrow> launch_record \<Rightarrow> 'c fleet_supervisor \<Rightarrow> 'c fleet_supervisor \<Rightarrow> bool" where
  "settled h again r sv sv' \<longleftrightarrow>
     fs_node_id sv' = fs_node_id sv \<and> fs_base_config sv' = fs_base_config sv
     \<and> (\<forall>b. allocation_for (fs_allocator sv') b = (if b = la_agent_id r \<and> \<not> again then None else allocation_for (fs_allocator sv) b))
     \<and> (\<forall>j. registry_get (fs_launch_registry sv') j = (if j = la_instance_id r \<and> \<not> again then None else registry_get (fs_launch_registry sv) j))
     \<and> (\<forall>b. b \<noteq> la_agent_id r \<longrightarrow> tget (fs_tenants sv') b = tget (fs_tenants sv) b)
     \<and> (if again then \<exists>t. tget (fs_tenants sv') (la_agent_id r) = Some t
                        \<and> lt_process t = PidTenant \<lparr>pt_pid = la_pid r, pt_agent_id = la_agent_id r\<rparr>
        else tget (fs_tenants sv') (la_agent_id r) = None)"

definition on_record :: "'c fleet_supervisor \<Rightarrow> launch_record \<Rightarrow> bool" where
  "on_record sv r \<longleftrightarrow> registry_get (fs_launch_registry sv) (la_instance_id r) = Some r \<and> la_agent_id r \<notin> tracked sv"

definition ledger_after :: "bool \<Rightarrow> agent_id \<Rightarrow> spawn_ledger option \<Rightarrow> spawn_ledger option \<Rightarrow> bool" where
  "ledger_after again a l l' \<longleftrightarrow> (if again then l' = l
     else l' = l \<or> l' = map_option (tremove a) l)"

lemma on_record_instance: "fleet_ok h sv \<Longrightarrow> on_record sv r \<Longrightarrow> la_instance_id r = instance_id_for (la_agent_id r)"
  using fleet_okD(3) [of h sv] unfolding on_record_def registry_ok_def by blast

lemma reap_item_does:
  assumes i: "reap_item h r why (sv, l, s, w) = (sv', l', s', w')" and ok: "fleet_ok h sv" and r: "on_record sv r"
  shows "fleet_ok h sv'" "settled h False r sv sv'" "ledger_after False (la_agent_id r) l l'"
    "s' = s\<lparr>rs_reaped := rs_reaped s @ [(la_agent_id r, why)]\<rparr>"
proof -
  let ?a = "la_agent_id r" and ?p = "PidTenant \<lparr>pt_pid = la_pid r, pt_agent_id = la_agent_id r\<rparr>"
  obtain sv1 w1 where s1: "release_slot h ?a sv (process_kill h ?p w) = (sv1, w1)" by fastforce
  obtain sv2 w2 where s2: "forget_launch_record h (la_instance_id r) sv1 (ho_remove_dir h (keystore_dir_for h (la_instance_id r)) w1) = (sv2, w2)" by fastforce
  obtain l2 w3 where s3: "clear_ledger h ?a l w2 = (l2, w3)" by fastforce
  have e: "sv' = sv2" "l' = l2" "s' = s\<lparr>rs_reaped := rs_reaped s @ [(la_agent_id r, why)]\<rparr>"
    using i s1 s2 s3 by (auto simp: reap_item_def reap_orphan_def)
  from s1 ok obtain al where al: "sv1 = sv\<lparr>fs_allocator := al\<rparr>" "allocator_ok al"
    "\<And>b. allocation_for al b = (if b = ?a then None else allocation_for (fs_allocator sv) b)" by (rule release_slot_does) blast
  have "registry_ok (fs_launch_registry sv1)" using fleet_okD(3) [OF ok] al(1) by simp
  with s2 obtain reg where reg: "sv2 = sv1\<lparr>fs_launch_registry := reg\<rparr>" "registry_ok reg"
    "\<And>j. registry_get reg j = (if j = la_instance_id r then None else registry_get (fs_launch_registry sv1) j)"
    by (rule forget_does) blast
  note inst = on_record_instance [OF ok r]
  have none: "tget (fs_tenants sv) ?a = None" using r by (simp add: on_record_def tracked_def)
  show "fleet_ok h sv'" using ok none inst unfolding fleet_ok_def e al reg by (auto simp: tracked_ok_def al reg)
  show "settled h False r sv sv'" using none unfolding settled_def e by (simp add: al reg)
  show "ledger_after False ?a l l'"
    using s3 unfolding e by (auto simp: clear_ledger_def ledger_after_def ledger_release_def split: option.splits prod.splits ledger_io.splits)
  show "s' = s\<lparr>rs_reaped := rs_reaped s @ [(la_agent_id r, why)]\<rparr>" by (rule e(3))
qed

text \<open>What the summary says of one record.\<close>

definition noted :: "bool \<Rightarrow> launch_record \<Rightarrow> reconcile_summary \<Rightarrow> reconcile_summary \<Rightarrow> bool" where
  "noted again r s s' \<longleftrightarrow> rs_skipped_unconfirmed s' = rs_skipped_unconfirmed s
     \<and> rs_readopted s' = rs_readopted s @ (if again then [la_agent_id r] else [])
     \<and> map fst (rs_reaped s') = map fst (rs_reaped s) @ (if again then [] else [la_agent_id r])"

lemma apply_item_does:
  assumes i: "apply_item h view \<lparr>ri_record = r, ri_verdict = v\<rparr> (sv, l, s, w) = (sv', l', s', w')"
    and ok: "fleet_ok h sv" and r: "on_record sv r"
  defines "again \<equiv> v = ReAdopt \<and> la_agent_id r \<in> slots sv"
  shows "fleet_ok h sv'" "settled h again r sv sv'" "ledger_after again (la_agent_id r) l l'" "noted again r s s'"
proof -
  have "fleet_ok h sv' \<and> settled h again r sv sv' \<and> ledger_after again (la_agent_id r) l l' \<and> noted again r s s'"
  proof (cases again)
    case True
    then obtain x where x: "v = ReAdopt" "allocation_for (fs_allocator sv) (la_agent_id r) = Some x" by (auto simp: again_def slots_def)
    let ?rec = "readopted_record h r x view w" and ?p = "PidTenant \<lparr>pt_pid = la_pid r, pt_agent_id = la_agent_id r\<rparr>"
    have e: "sv' = re_adopt ?rec ?p sv" "l' = l" "s' = s\<lparr>rs_readopted := rs_readopted s @ [la_agent_id r]\<rparr>"
      using i x by (auto simp: apply_item_def)
    note inst = on_record_instance [OF ok r]
    have rec: "tr_agent_id ?rec = la_agent_id r" "tr_allocation ?rec = x"
      "tr_treasury_path ?rec = treasury_path_for h (instance_id_for (la_agent_id r))"
      "tr_keystore_dir ?rec = keystore_dir_for h (instance_id_for (la_agent_id r))"
      using slot_instance [OF fleet_okD(1) [OF ok] x(2)] inst by (simp_all add: readopted_record_def Let_def)
    have reg: "registry_get (fs_launch_registry sv) (instance_id_for (la_agent_id r))
        = Some \<lparr>la_agent_id = la_agent_id r, la_instance_id = instance_id_for (la_agent_id r), la_pid = la_pid r\<rparr>"
      using r inst by (cases r) (simp add: on_record_def)
    have g: "tget (fs_tenants sv') b = (if b = la_agent_id r then Some \<lparr>lt_process = ?p, lt_record = ?rec\<rparr> else tget (fs_tenants sv) b)" for b
      using fleet_okD(2) [OF ok] by (simp add: e re_adopt_def rec sled.get_put)
    have "fleet_ok h sv'" using ok x(2) rec reg g fleet_okD(2) [OF ok] unfolding fleet_ok_def
      by (auto simp: e(1) re_adopt_def sled.ok_put tracked_ok_def process_pid_def split: if_splits)
    moreover have "settled h True r sv sv'" using g by (simp add: settled_def) (simp add: e re_adopt_def)
    ultimately show ?thesis using True e by (simp add: ledger_after_def noted_def)
  next
    case False
    then have "\<exists>why. reap_item h r why (sv, l, s, w) = (sv', l', s', w')"
      using i by (auto simp: apply_item_def again_def slots_def split: reconcile_verdict.splits option.splits)
    then show ?thesis using reap_item_does [OF _ ok r] False by (fastforce simp: noted_def)
  qed
  then show "fleet_ok h sv'" "settled h again r sv sv'" "ledger_after again (la_agent_id r) l l'" "noted again r s s'" by simp_all
qed

lemma settled_sets:
  assumes "settled h again r sv sv'" "la_agent_id r \<notin> tracked sv"
  shows "tracked sv' = (if again then insert (la_agent_id r) (tracked sv) else tracked sv)"
    and "slots sv' = (if again then slots sv else slots sv - {la_agent_id r})"
    and "fs_node_id sv' = fs_node_id sv"
    and "b \<noteq> la_agent_id r \<Longrightarrow> tget (fs_tenants sv') b = tget (fs_tenants sv) b"
proof -
  note s = assms(1) [unfolded settled_def]
  show "fs_node_id sv' = fs_node_id sv" using s by simp
  show other: "b \<noteq> la_agent_id r \<Longrightarrow> tget (fs_tenants sv') b = tget (fs_tenants sv) b" for b using s by simp
  show "slots sv' = (if again then slots sv else slots sv - {la_agent_id r})" unfolding slots_def using s by auto
  have "b \<in> tracked sv' \<longleftrightarrow> b \<in> tracked sv \<or> b = la_agent_id r \<and> again" for b
    using other [of b] s assms(2) by (cases "b = la_agent_id r") (auto simp: tracked_def split: if_splits)
  then show "tracked sv' = (if again then insert (la_agent_id r) (tracked sv) else tracked sv)" by auto
qed

text \<open>All records dealt with, those in \<open>A\<close> supervised again.\<close>

definition all_settled ::
  "launch_record list \<Rightarrow> (launch_record \<Rightarrow> bool) \<Rightarrow> 'c fleet_supervisor \<Rightarrow> reconcile_summary \<Rightarrow> 'c fleet_supervisor \<Rightarrow> reconcile_summary \<Rightarrow> bool" where
  "all_settled rs A sv s sv' s' \<longleftrightarrow>
     tracked sv' = tracked sv \<union> la_agent_id ` {r\<in>set rs. A r}
     \<and> slots sv' = slots sv - la_agent_id ` {r\<in>set rs. \<not> A r}
     \<and> (\<forall>j. registry_get (fs_launch_registry sv') j =
          (if j \<in> la_instance_id ` {r\<in>set rs. \<not> A r} then None else registry_get (fs_launch_registry sv) j))
     \<and> (\<forall>r\<in>set rs. A r \<longrightarrow> (\<exists>t. tget (fs_tenants sv') (la_agent_id r) = Some t
          \<and> lt_process t = PidTenant \<lparr>pt_pid = la_pid r, pt_agent_id = la_agent_id r\<rparr>))
     \<and> rs_readopted s' = rs_readopted s @ map la_agent_id (filter A rs)
     \<and> map fst (rs_reaped s') = map fst (rs_reaped s) @ map la_agent_id (filter (\<lambda>r. \<not> A r) rs)
     \<and> rs_skipped_unconfirmed s' = rs_skipped_unconfirmed s \<and> fs_base_config sv' = fs_base_config sv"

lemma settled_step:
  assumes one: "settled h (A r) r sv sv1" "noted (A r) r s s1" and free: "la_agent_id r \<notin> tracked sv"
    and rest: "all_settled rs A sv1 s1 sv' s'" and fresh: "la_agent_id r \<notin> la_agent_id ` set rs"
    and keep: "\<And>b. b \<notin> la_agent_id ` set rs \<Longrightarrow> tget (fs_tenants sv') b = tget (fs_tenants sv1) b"
  shows "all_settled (r # rs) A sv s sv' s'"
proof -
  note set1 = settled_sets [OF one(1) free]
  note r' = rest [unfolded all_settled_def]
  note o' = one(1) [unfolded settled_def]
  have "A r \<Longrightarrow> \<exists>t. tget (fs_tenants sv') (la_agent_id r) = Some t
          \<and> lt_process t = PidTenant \<lparr>pt_pid = la_pid r, pt_agent_id = la_agent_id r\<rparr>"
    using keep [OF fresh] o' by simp
  moreover have "tracked sv' = tracked sv \<union> la_agent_id ` {x\<in>set (r # rs). A x}" using r' set1(1) by auto
  moreover have "slots sv' = slots sv - la_agent_id ` {x\<in>set (r # rs). \<not> A x}" using r' set1(2) by auto
  moreover have "registry_get (fs_launch_registry sv') j =
     (if j \<in> la_instance_id ` {x\<in>set (r # rs). \<not> A x} then None else registry_get (fs_launch_registry sv) j)" for j
    using r' o' by auto
  ultimately show ?thesis using r' one(2) o' unfolding all_settled_def noted_def by simp
qed

lemma apply_items_does:
  assumes "fold (apply_item h view) (map (\<lambda>r. \<lparr>ri_record = r, ri_verdict = v r\<rparr>) rs) (sv, l, s, w) = (sv', l', s', w')"
    and "fleet_ok h sv" "\<forall>r\<in>set rs. on_record sv r" "distinct (map la_agent_id rs)"
    and "\<forall>r\<in>set rs. A r \<longleftrightarrow> v r = ReAdopt \<and> la_agent_id r \<in> slots sv"
  shows "fleet_ok h sv' \<and> all_settled rs A sv s sv' s'
    \<and> (\<forall>b. b \<notin> la_agent_id ` set rs \<longrightarrow> tget (fs_tenants sv') b = tget (fs_tenants sv) b)"
  using assms
proof (induction rs arbitrary: sv l s w)
  case Nil
  then show ?case by (auto simp: all_settled_def)
next
  case (Cons r rs)
  obtain sv1 l1 s1 w1 where i: "apply_item h view \<lparr>ri_record = r, ri_verdict = v r\<rparr> (sv, l, s, w) = (sv1, l1, s1, w1)"
    by (metis prod.exhaust)
  have r: "on_record sv r" and Ar: "A r \<longleftrightarrow> v r = ReAdopt \<and> la_agent_id r \<in> slots sv" using Cons.prems(3,5) by auto
  have free: "la_agent_id r \<notin> tracked sv" using r by (simp add: on_record_def)
  have fresh: "la_agent_id r \<notin> la_agent_id ` set rs" "distinct (map la_agent_id rs)" using Cons.prems(4) by auto
  note one = apply_item_does [OF i Cons.prems(2) r, folded Ar]
  note sets = settled_sets [OF one(2) free]
  have on: "\<forall>x\<in>set rs. on_record sv1 x"
  proof
    fix x assume x: "x \<in> set rs"
    then have ox: "on_record sv x" using Cons.prems(3) by simp
    have ne: "la_agent_id x \<noteq> la_agent_id r" using x fresh(1) by (metis image_eqI)
    then have "la_instance_id x \<noteq> la_instance_id r"
      using on_record_instance [OF Cons.prems(2) ox] on_record_instance [OF Cons.prems(2) r] by simp
    then show "on_record sv1 x" using ox ne one(2) sets(1) by (auto simp: on_record_def settled_def split: if_splits)
  qed
  have A1: "\<forall>x\<in>set rs. A x \<longleftrightarrow> v x = ReAdopt \<and> la_agent_id x \<in> slots sv1"
  proof
    fix x assume x: "x \<in> set rs"
    then have "la_agent_id x \<noteq> la_agent_id r" using fresh(1) by (metis image_eqI)
    then show "A x \<longleftrightarrow> v x = ReAdopt \<and> la_agent_id x \<in> slots sv1" using Cons.prems(5) x sets(2) by auto
  qed
  have "fold (apply_item h view) (map (\<lambda>r. \<lparr>ri_record = r, ri_verdict = v r\<rparr>) rs) (sv1, l1, s1, w1) = (sv', l', s', w')"
    using Cons.prems(1) i by simp
  note ih = Cons.IH [OF this one(1) on fresh(2) A1]
  have "all_settled (r # rs) A sv s sv' s'"
    by (rule settled_step [where A = A and r = r and h = h and ?sv1.0 = sv1 and ?s1.0 = s1]) (use one(2,4) free fresh(1) ih in auto)
  moreover have "b \<notin> la_agent_id ` set (r # rs) \<Longrightarrow> tget (fs_tenants sv') b = tget (fs_tenants sv) b" for b
    using ih sets(4) [of b] by auto
  ultimately show ?case using ih by blast
qed

lemma registry_records:
  assumes "registry_ok reg"
  shows "r \<in> set (registry_all reg) \<longleftrightarrow> registry_get reg (la_instance_id r) = Some r" "distinct (map la_agent_id (registry_all reg))"
proof -
  have t: "tree_ok (lg_records reg)" using assms by (simp add: registry_ok_def)
  have key: "(i, x) \<in> set (lg_records reg) \<Longrightarrow> la_instance_id x = i \<and> i = instance_id_for (la_agent_id x)" for i x
    using assms t by (auto simp: registry_ok_def registry_get_def tget_in_set)
  show "r \<in> set (registry_all reg) \<longleftrightarrow> registry_get reg (la_instance_id r) = Some r"
    using key by (auto simp: registry_all_def tvals_def registry_get_def tget_in_set [OF t, symmetric]) force
  have "distinct (map (instance_id_for \<circ> la_agent_id \<circ> snd) (lg_records reg))"
  proof -
    have "map (instance_id_for \<circ> la_agent_id \<circ> snd) (lg_records reg) = map fst (lg_records reg)"
      using key by (intro map_cong refl) auto
    then show ?thesis using tree_ok_distinct [OF t] by (simp only:)
  qed
  then show "distinct (map la_agent_id (registry_all reg))" by (auto simp: registry_all_def tvals_def distinct_map inj_on_def comp_def)
qed

lemma apply_reconcile_does:
  assumes "apply_reconcile h view Complete l sv w = (sv', l', s', w')" and ok: "fleet_ok h sv" and none: "fs_tenants sv = []"
  shows "fleet_ok h sv'" "all_settled (registry_all (fs_launch_registry sv)) (readopts (ho_probe h w) view sv) sv
      \<lparr>rs_readopted = [], rs_reaped = [], rs_skipped_unconfirmed = False\<rparr> sv' s'"
proof -
  let ?rs = "registry_all (fs_launch_registry sv)" and ?v = "\<lambda>r. decide_one r (ho_probe h w) view (fs_node_id sv)"
  note reg = registry_records [OF fleet_okD(3) [OF ok]]
  have "tracked sv = {}" using none by (simp add: tracked_def)
  then have on: "\<forall>r\<in>set ?rs. on_record sv r" using reg(1) by (simp add: on_record_def)
  have "fold (apply_item h view) (map (\<lambda>r. \<lparr>ri_record = r, ri_verdict = ?v r\<rparr>) ?rs)
      (sv, l, \<lparr>rs_readopted = [], rs_reaped = [], rs_skipped_unconfirmed = False\<rparr>, w) = (sv', l', s', w')"
    using assms(1) by (simp add: apply_reconcile_def reconcile_plan_def reconcile_def)
  from apply_items_does [OF this ok on reg(2), of "readopts (ho_probe h w) view sv"]
  show "fleet_ok h sv'" "all_settled ?rs (readopts (ho_probe h w) view sv) sv
      \<lparr>rs_readopted = [], rs_reaped = [], rs_skipped_unconfirmed = False\<rparr> sv' s'" by (simp_all add: readopts_def)
qed

section \<open>Lives of a supervisor\<close>

text \<open>
  Everything a supervisor does, in any order and in any state of the world; a reconcile comes before any tenant is
  tracked, as the start-up does it. What only touches the world (kill, heartbeat) leaves the supervisor as it is.
\<close>

inductive fleet_run :: "'w host \<Rightarrow> 'c fleet_supervisor \<Rightarrow> 'c fleet_supervisor \<Rightarrow> bool" for h sv0 where
  fr_start: "fleet_run h sv0 sv0"
| fr_launch: "fleet_run h sv0 sv \<Longrightarrow> launch_one_at_term h t term sv w = (res, sv', w') \<Longrightarrow> fleet_run h sv0 sv'"
| fr_batch: "fleet_run h sv0 sv \<Longrightarrow> launch_all h sv w = (recs, sv', w') \<Longrightarrow> fleet_run h sv0 sv'"
| fr_reap: "fleet_run h sv0 sv \<Longrightarrow> reap h a sv w = (res, sv', w') \<Longrightarrow> fleet_run h sv0 sv'"
| fr_reap_dead: "fleet_run h sv0 sv \<Longrightarrow> reap_dead h sv w = (records, sv', w') \<Longrightarrow> fleet_run h sv0 sv'"
| fr_reconcile: "fleet_run h sv0 sv \<Longrightarrow> fs_tenants sv = [] \<Longrightarrow> apply_reconcile h view obs l sv w = (sv', l', s', w') \<Longrightarrow> fleet_run h sv0 sv'"
| fr_confirmer: "fleet_run h sv0 sv \<Longrightarrow> fleet_run h sv0 (with_lease_confirmer settle sv)"

lemma apply_reconcile_ok:
  assumes "apply_reconcile h view obs l sv w = (sv', l', s', w')" "fleet_ok h sv" "fs_tenants sv = []"
  shows "fleet_ok h sv' \<and> slots sv' \<subseteq> slots sv"
proof (cases obs)
  case Complete
  from apply_reconcile_does [OF assms(1) [unfolded Complete] assms(2,3)] show ?thesis by (auto simp: all_settled_def)
next
  case Incomplete
  with assms show ?thesis by (simp add: apply_reconcile_def reconcile_plan_def)
qed

lemma batch_ok:
  assumes "launch_all h sv w = (res, sv', w')" "fleet_ok h sv"
  shows "fleet_ok h sv' \<and> slots sv' - tracked sv' \<subseteq> slots sv - tracked sv"
proof -
  note does = launch_each_does [OF assms(1) [unfolded launch_all_def] assms(2)]
  show ?thesis
  proof (cases res)
    case (Inr recs) with does show ?thesis by (auto simp: batch_launched_def)
  next
    case (Inl e)
    then obtain m wm where m: "fleet_ok h m" "kill_and_reap_all h m wm = (sv', w')" "slots m - tracked m = slots sv - tracked sv"
      using does unfolding rolled_back_def by auto
    from without_all_facts [OF kill_and_reap_all_does(1) [OF m(2,1)]] m(3) does show ?thesis by auto
  qed
qed

text \<open>The slots no tenant has are slots the first supervisor already held.\<close>

lemma fleet_run_ok:
  assumes "fleet_run h sv0 sv" "fleet_ok h sv0"
  shows "fleet_ok h sv \<and> slots sv - tracked sv \<subseteq> slots sv0"
  using assms(1)
proof induction
  case fr_start
  then show ?case using assms(2) by auto
next
  case (fr_launch sv t tm w res sv' w')
  then have ok: "fleet_ok h sv" by simp
  from launch_does(2) [OF fr_launch(2) ok] have "slots sv' - tracked sv' \<subseteq> slots sv - tracked sv"
    using added_facts(2,3) without_all_owned by fastforce
  then show ?case using launch_does(1) [OF fr_launch(2) ok] fr_launch(3) by auto
next
  case (fr_batch sv w recs sv' w')
  then show ?case using batch_ok [OF fr_batch(2)] by auto
next
  case (fr_reap sv a w res sv' w')
  then have ok: "fleet_ok h sv" by simp
  from reap_does(2) [OF fr_reap(2) ok] have "slots sv' - tracked sv' \<subseteq> slots sv - tracked sv"
    using without_all_owned by auto
  then show ?case using reap_does(1) [OF fr_reap(2) ok] fr_reap(3) by auto
next
  case (fr_reap_dead sv w records sv' w')
  then have ok: "fleet_ok h sv" by simp
  show ?case using reap_dead_does(2) [OF fr_reap_dead(2) ok] without_all_facts [OF reap_dead_does(1) [OF fr_reap_dead(2) ok]] fr_reap_dead(3) by auto
next
  case (fr_reconcile sv view obs l w sv' l' s' w')
  then have "slots sv \<subseteq> slots sv0" by (auto simp: tracked_def)
  then show ?case using apply_reconcile_ok [OF fr_reconcile(3)] fr_reconcile by auto
next
  case (fr_confirmer sv settle)
  then show ?case by (simp add: with_lease_confirmer_def fleet_ok_def tracked_ok_def slots_def tracked_def)
qed

lemma fleet_ok_new:
  "allocator_ok al \<Longrightarrow> registry_ok reg \<Longrightarrow> fleet_ok h (with_launch_registry reg (supervisor_new node cfg al))"
  by (simp add: fleet_ok_def with_launch_registry_def supervisor_new_def)

lemma path_join_inj [simp]: "path_join d a = path_join d b \<longleftrightarrow> a = b"
  by (simp add: path_join_def)

text \<open>C24: Every tenant has its own. However a supervisor got where it is (launches, batches rolled back, reaps, a
  reconcile, with writes failing at any point), every tenant it tracks holds the slot of its record, its keyset and its
  treasury lie under its instance and the launch record has its process, so a restarted supervisor finds it; two tenants
  share no guest CID, no gateway port, no treasury and no keyset; and every slot that no tenant has was already taken when the supervisor
  started.\<close>

theorem tenants_hold_slots:
  fixes h :: "'w host" and cfg :: "'c kirby_config_scheme"
  assumes start: "allocator_ok al" "registry_ok reg"
    and run: "fleet_run h (with_launch_registry reg (supervisor_new node cfg al)) sv"
  shows "(\<forall>a t. tget (fs_tenants sv) a = Some t \<longrightarrow> tracked_ok h sv a t)
    \<and> (\<forall>a b t u. tget (fs_tenants sv) a = Some t \<longrightarrow> tget (fs_tenants sv) b = Some u \<longrightarrow> a \<noteq> b \<longrightarrow>
         ta_guest_cid (tr_allocation (lt_record t)) \<noteq> ta_guest_cid (tr_allocation (lt_record u))
         \<and> ta_gateway_port (tr_allocation (lt_record t)) \<noteq> ta_gateway_port (tr_allocation (lt_record u))
         \<and> tr_treasury_path (lt_record t) \<noteq> tr_treasury_path (lt_record u) \<and> tr_keystore_dir (lt_record t) \<noteq> tr_keystore_dir (lt_record u))
    \<and> (\<forall>a. allocation_for (fs_allocator sv) a \<noteq> None \<longrightarrow> tget (fs_tenants sv) a \<noteq> None \<or> allocation_for al a \<noteq> None)"
proof (rule conjI3; intro allI impI)
  note inv = fleet_run_ok [OF run fleet_ok_new [OF start]]
  show tr: "tget (fs_tenants sv) a = Some t \<Longrightarrow> tracked_ok h sv a t" for a t using inv fleet_okD(6) by blast
  fix a b t u assume ab: "tget (fs_tenants sv) a = Some t" "tget (fs_tenants sv) b = Some u" "a \<noteq> b"
  let ?x = "tr_allocation (lt_record t)" and ?y = "tr_allocation (lt_record u)"
  have slot: "allocation_for (fs_allocator sv) a = Some ?x" "allocation_for (fs_allocator sv) b = Some ?y"
    using tr [OF ab(1)] tr [OF ab(2)] by (simp_all add: tracked_ok_def)
  have live: "live_ok (fs_allocator sv) (al_live (fs_allocator sv))" using inv fleet_okD(1) allocator_ok_live by blast
  then have xy: "slot_ok (fs_allocator sv) a ?x" "slot_ok (fs_allocator sv) b ?y" "ta_guest_cid ?x \<noteq> ta_guest_cid ?y"
    using slot ab(3) by (auto simp: live_ok_def allocation_for_def)
  then have "ta_gateway_port ?x \<noteq> ta_gateway_port ?y" by (auto simp: slot_ok_def) (metis add_left_cancel unsigned_word_eqI)
  then show "ta_guest_cid ?x \<noteq> ta_guest_cid ?y \<and> ta_gateway_port ?x \<noteq> ta_gateway_port ?y
         \<and> tr_treasury_path (lt_record t) \<noteq> tr_treasury_path (lt_record u) \<and> tr_keystore_dir (lt_record t) \<noteq> tr_keystore_dir (lt_record u)"
    using xy tr [OF ab(1)] tr [OF ab(2)] ab(3) by (simp add: tracked_ok_def treasury_path_for_def keystore_dir_for_def)
next
  fix a assume "allocation_for (fs_allocator sv) a \<noteq> None"
  then show "tget (fs_tenants sv) a \<noteq> None \<or> allocation_for al a \<noteq> None"
    using fleet_run_ok [OF run fleet_ok_new [OF start]]
    by (auto simp: slots_def tracked_def with_launch_registry_def supervisor_new_def)
qed

text \<open>C22: A launch is confirmed or it leaves nothing behind. If a launch under the read-after-write fence gives a record,
  the lease was claimed at the asked term, then, after the settle time, read back, and it named this node at that term;
  only then, in that very state of the world, the child was started, and the tenant is tracked under the claimed term on a slot that was free. If
  a launch fails, the tenants, the slots and the launch records are as before.\<close>

theorem launched_only_confirmed:
  assumes "fleet_ok h sv" and "fs_lease_confirmer sv" and "launch_one_at_term h t term sv w = (res, sv', w')"
  shows "case res of
      Inr rec \<Rightarrow> allocation_for (fs_allocator sv) (tc_agent_id t) = None \<and> tenant_record_of (tc_agent_id t) sv' = Some rec
        \<and> (\<exists>granted w1 w2 l w3 spec p w4.
             ho_claim_at h (tc_agent_id t) (fs_node_id sv) term (keystore_dir_for h (instance_id_for (tc_agent_id t))) w1 = (Inr granted, w2)
             \<and> ho_latest_lease h (tc_agent_id t) (ho_sleep h (fs_confirm_settle sv) w2) = (Inr (Some l), w3)
             \<and> olr_holder_node_id l = fs_node_id sv \<and> olr_term l = term
             \<and> ts_agent_id spec = tc_agent_id t \<and> ho_launch h spec w3 = (Inr p, w4) \<and> tr_lease_term rec = lr_term granted)
    | Inl e \<Rightarrow> without_all {} sv sv'"
proof (cases res)
  case (Inl e)
  then show ?thesis using launch_does(2) [OF assms(3,1)] by auto
next
  case (Inr rec)
  then have a: "added h t term rec sv w sv'" using launch_does(2) [OF assms(3,1)] by auto
  then obtain x p w4 where x: "allocation_for (fs_allocator sv) (tc_agent_id t) = None" "ta_instance_id x = instance_id_for (tc_agent_id t)"
    "launch_steps h t x term sv (snd (ho_io h w)) rec p w4" unfolding added_def by blast
  obtain npub w1 granted w2 w3 where s:
    "ho_claim_at h (tc_agent_id t) (fs_node_id sv) term (keystore_dir_for h (ta_instance_id x)) w1 = (Inr granted, w2)"
    "confirmed h (tc_agent_id t) term sv w2 w3"
    "ho_launch h \<lparr>ts_agent_id = tc_agent_id t, ts_allocation = x, ts_treasury_path = treasury_path_for h (ta_instance_id x),
        ts_initial_sats = tc_initial_sats t, ts_frost_keystore_dir = keystore_dir_for h (ta_instance_id x)\<rparr> w3 = (Inr p, w4)"
    "tr_lease_term rec = lr_term granted"
    using x(3) unfolding launch_steps_def by fastforce
  obtain l where l: "ho_latest_lease h (tc_agent_id t) (ho_sleep h (fs_confirm_settle sv) w2) = (Inr (Some l), w3)"
    "olr_term l = term" "olr_holder_node_id l = fs_node_id sv" using s(2) assms(2) by (auto simp: confirmed_def)
  show ?thesis unfolding Inr sum.case
    using x(1) added_facts(4) [OF a] s(1) [unfolded x(2)] l s(3,4)
    by (intro conjI exI [of _ granted] exI [of _ w1] exI [of _ w2] exI [of _ l] exI [of _ w3]
        exI [of _ "\<lparr>ts_agent_id = tc_agent_id t, ts_allocation = x, ts_treasury_path = treasury_path_for h (ta_instance_id x),
          ts_initial_sats = tc_initial_sats t, ts_frost_keystore_dir = keystore_dir_for h (ta_instance_id x)\<rparr>"]
        exI [of _ p] exI [of _ w4]) simp_all
qed

text \<open>C25: What a restart does to each orphan. Without a complete observation of the leases nothing happens at all. With one, exactly the
  recorded tenants whose process still names them, whose fresh lease names this node and whose slot survived are
  supervised again, by their PID and on the slot they had; every other recorded tenant loses its slot and its launch record; all
  other slots and records stay; and the summary names each recorded tenant exactly once, on its side.\<close>

theorem reconcile_exact:
  assumes "fleet_ok h sv" and "fs_tenants sv = []" and "apply_reconcile h view obs l sv w = (sv', l', s', w')"
  defines "records \<equiv> registry_all (fs_launch_registry sv)"
    and "again \<equiv> \<lambda>r. ho_probe h w (la_pid r) (la_agent_id r) \<and> (\<exists>lease. view (la_agent_id r) = Some lease \<and> al_node_id lease = fs_node_id sv)
           \<and> allocation_for (fs_allocator sv) (la_agent_id r) \<noteq> None"
  shows "if obs = Incomplete then sv' = sv \<and> l' = l \<and> w' = w \<and> rs_skipped_unconfirmed s' \<and> summary_is_empty s'
    else fleet_ok h sv' \<and> rs_readopted s' = map la_agent_id (filter again records)
      \<and> map fst (rs_reaped s') = map la_agent_id (filter (\<lambda>r. \<not> again r) records)
      \<and> tracked sv' = la_agent_id ` set (filter again records)
      \<and> (\<forall>r\<in>set (filter again records). \<exists>t. tget (fs_tenants sv') (la_agent_id r) = Some t
           \<and> lt_process t = PidTenant \<lparr>pt_pid = la_pid r, pt_agent_id = la_agent_id r\<rparr>)
      \<and> slots sv' = slots sv - la_agent_id ` set (filter (\<lambda>r. \<not> again r) records)
      \<and> (\<forall>j. registry_get (fs_launch_registry sv') j = (if j \<in> la_instance_id ` set (filter (\<lambda>r. \<not> again r) records) then None
           else registry_get (fs_launch_registry sv) j))"
proof (cases obs)
  case Incomplete
  with assms(3) show ?thesis by (auto simp: apply_reconcile_def reconcile_plan_def summary_is_empty_def)
next
  case Complete
  note does = apply_reconcile_does [OF assms(3) [unfolded Complete] assms(1,2)]
  have again: "readopts (ho_probe h w) view sv = again"
    by (intro ext) (auto simp: again_def readopts_def decide_one_def slots_def split: option.splits)
  have "tracked sv = {}" using assms(2) by (simp add: tracked_def)
  then show ?thesis using does(1) does(2) [unfolded again all_settled_def, folded records_def] Complete by simp
qed

text \<open>A restart kills the tenants it has just re-adopted. If a tenant declared in the configuration is among those that the
  start-up reconcile took up again, the batch launch that follows fails on its slot and rolls back: no tenant is tracked
  any more, and every re-adopted one has lost its slot and is dead.\<close>

theorem readopted_static_killed:
  assumes ok: "fleet_ok h sv" and none: "fs_tenants sv = []" and os: "kills_hold h"
    and rec: "apply_reconcile h view obs l sv w = (sv1, l', s', w1)"
    and static: "t \<in> set (fb_tenants (kc_fleet (fs_base_config sv)))" "tc_agent_id t \<in> set (rs_readopted s')"
    and batch: "launch_all h sv1 w2 = (res, sv2, w3)"
  shows "(\<exists>e. res = Inl e) \<and> fs_tenants sv2 = []
    \<and> (\<forall>a\<in>set (rs_readopted s'). allocation_for (fs_allocator sv2) a = None
         \<and> (\<exists>p. tget (fs_tenants sv1) a = Some p \<and> \<not> process_is_running h (lt_process p) w3))"
proof -
  have Complete: "obs = Complete"
    using rec static(2) by (cases obs) (auto simp: apply_reconcile_def reconcile_plan_def)
  note does = apply_reconcile_does [OF rec [unfolded Complete] ok none]
  note all = does(2) [unfolded all_settled_def]
  have re: "set (rs_readopted s') = tracked sv1" using all none by (auto simp: tracked_def)
  have base: "fs_base_config sv1 = fs_base_config sv" using all by simp
  have tr: "tracked sv1 \<subseteq> slots sv1" by (rule tracked_is_slot [OF does(1)])
  note each = launch_each_does [OF batch [unfolded launch_all_def] does(1)]
  show ?thesis
  proof (cases res)
    case (Inr recs)
    then have "tc_agent_id ` set (fb_tenants (kc_fleet (fs_base_config sv))) \<inter> slots sv1 = {}"
      using each base by (auto simp: batch_launched_def)
    then show ?thesis using static re tr by auto
  next
    case (Inl e)
    then obtain m wm where m: "fleet_ok h m" "kill_and_reap_all h m wm = (sv2, w3)"
      "\<forall>a t. tget (fs_tenants sv1) a = Some t \<longrightarrow> tget (fs_tenants m) a = Some t" using each unfolding rolled_back_def by auto
    note wa = kill_and_reap_all_does(1) [OF m(2,1)]
    have empty: "fs_tenants sv2 = []" using without_all_facts(2) [OF wa] by (intro untracked_empty) simp
    have "allocation_for (fs_allocator sv2) a = None
        \<and> (\<exists>p. tget (fs_tenants sv1) a = Some p \<and> \<not> process_is_running h (lt_process p) w3)" if "a \<in> set (rs_readopted s')" for a
    proof -
      have "a \<in> tracked sv1" using that re by simp
      then obtain p where p: "tget (fs_tenants sv1) a = Some p" by (auto simp: tracked_def)
      then have "a \<in> tracked m" using m(3) by (auto simp: tracked_def)
      then show ?thesis using wa p kill_and_reap_kills [OF os m(2) [unfolded kill_and_reap_all_def] m(1)] m(3)
        by (auto simp: without_all_def tracked_keys)
    qed
    with Inl empty show ?thesis by simp
  qed
qed

section \<open>A small host\<close>

text \<open>The world is the list of live PIDs; a child's PID is its guest CID; the relay shows whatever lease is asked about as node
  1's, at term 1.\<close>

definition sample_host :: "u32 list host" where
  "sample_host = \<lparr>ho_child_running = (\<lambda>c w. of_nat c \<in> set w), ho_child_kill = (\<lambda>c. removeAll (of_nat c)),
     ho_probe = (\<lambda>w p a. p \<in> set w), ho_signal = (\<lambda>(p, s). removeAll p), ho_io = (\<lambda>w. (True, w)),
     ho_ledger_io = (\<lambda>w. (Ledger_Ok, w)), ho_state_root = ''/s'', ho_provision = (\<lambda>d w. (Inr ''q'', w)),
     ho_load_npub = (\<lambda>d w. Inr ''q''), ho_claim_at = (\<lambda>a n t d w. (Inr \<lparr>lr_node_id = n, lr_term = t\<rparr>, w)),
     ho_latest_lease = (\<lambda>a w. (Inr (Some \<lparr>olr_holder_node_id = 1, olr_term = 1, olr_issued_at = 0\<rparr>), w)),
     ho_sleep = (\<lambda>n w. w),
     ho_launch = (\<lambda>spec w. (Inr (ChildTenant (unat (ta_guest_cid (ts_allocation spec))) (ta_guest_cid (ts_allocation spec))),
                            ta_guest_cid (ts_allocation spec) # w)),
     ho_remove_dir = (\<lambda>d w. w)\<rparr>"

definition sample_fleet_config :: kirby_config where
  "sample_fleet_config = \<lparr>kc_agent_id = '''', kc_node_id = ''n'', kc_initial_sats = 0, kc_key_path = None,
     kc_frost_keystore_dir = None, kc_treasury_dir = None, kc_wallet_db_path = '''',
     kc_fleet = fleet_block_default\<lparr>fb_tenants := [\<lparr>tc_agent_id = ''a'', tc_initial_sats = 9\<rparr>, \<lparr>tc_agent_id = ''c'', tc_initial_sats = 9\<rparr>]\<rparr>\<rparr>"

definition sample_supervisor :: "allocator \<Rightarrow> launch_registry \<Rightarrow> unit fleet_supervisor" where
  "sample_supervisor al reg = with_launch_registry reg (supervisor_new 1 sample_fleet_config al)"

definition fresh_alloc :: allocator where
  "fresh_alloc = \<lparr>al_base_cid = 100, al_gateway_port_base = 9000, al_max_tenants = 8, al_persistent = True, al_live = [], al_disk = None\<rparr>"

lemma sample_kills: "kills_hold sample_host"
  by (auto simp: kills_hold_def sample_host_def process_is_running_def process_kill_def pid_tenant_is_running_def pid_tenant_kill_def
      split: tenant_process.splits)

lemma fresh_ok: "allocator_ok fresh_alloc" "registry_ok registry_in_memory"
  by (simp_all add: fresh_alloc_def allocator_ok_def live_ok_def registry_ok_def registry_in_memory_def registry_get_def)

lemmas sample_launch_defs = launch_one_def launch_one_at_term_def allocate_def live_count_def find_free.simps checked_add_def persist_def
  provision_and_launch_def confirm_launch_def record_launch_def registry_record_def registry_persist_def sample_host_def sample_supervisor_def
  with_launch_registry_def supervisor_new_def fresh_alloc_def registry_in_memory_def process_pid_def instance_id_for_def word_le_nat_alt Let_def
  sample_fleet_config_def

lemma sample_batch:
  "\<exists>r1 r2 sv w. launch_all sample_host (sample_supervisor fresh_alloc registry_in_memory) [] = (Inr [r1, r2], sv, w)
     \<and> map fst (fs_tenants sv) = [''a'', ''c'']"
  by (simp add: launch_all_def sample_launch_defs)

text \<open>A supervisor whose allocator has room for one tenant: the second of the batch fails, and the child of the first is
  dead.\<close>

definition small_alloc :: allocator where
  "small_alloc = fresh_alloc\<lparr>al_max_tenants := 1\<rparr>"

lemma small_ok: "fleet_ok sample_host (sample_supervisor small_alloc registry_in_memory)"
proof -
  have "allocator_ok small_alloc"
    using fresh_ok(1) by (simp add: small_alloc_def fresh_alloc_def allocator_ok_def live_ok_def)
  then show ?thesis unfolding sample_supervisor_def by (rule fleet_ok_new [OF _ fresh_ok(2)])
qed

lemma small_batch:
  "\<exists>e sv w. launch_all sample_host (sample_supervisor small_alloc registry_in_memory) [] = (Inl e, sv, w)
     \<and> snd (snd (snd (launch_all (recording sample_host) (sample_supervisor small_alloc registry_in_memory) ([], []))))
       = [ChildTenant 100 100]"
  by (simp add: launch_all_def sample_launch_defs small_alloc_def recording_def kill_and_reap_all_def tkeys_def
      process_kill_def drop_tenant_def release_slot_def forget_launch_record_def)

theorem launch_all_or_nothing_witness:
  "(\<exists>r1 r2 sv w. launch_all sample_host (sample_supervisor fresh_alloc registry_in_memory) [] = (Inr [r1, r2], sv, w)
     \<and> tr_agent_id r1 = ''a'' \<and> tr_agent_id r2 = ''c'' \<and> tracked sv = {''a'', ''c''})
   \<and> (\<exists>e sv w. launch_all sample_host (sample_supervisor small_alloc registry_in_memory) [] = (Inl e, sv, w)
     \<and> \<not> process_is_running sample_host (ChildTenant 100 100) w)"
proof
  have ok: "fleet_ok sample_host (sample_supervisor fresh_alloc registry_in_memory)"
    unfolding sample_supervisor_def by (rule fleet_ok_new [OF fresh_ok])
  have "tracked (sample_supervisor fresh_alloc registry_in_memory) = {}"
    by (simp add: tracked_def sample_supervisor_def with_launch_registry_def supervisor_new_def)
  moreover have "fb_tenants (kc_fleet (fs_base_config (sample_supervisor fresh_alloc registry_in_memory)))
      = [\<lparr>tc_agent_id = ''a'', tc_initial_sats = 9\<rparr>, \<lparr>tc_agent_id = ''c'', tc_initial_sats = 9\<rparr>]"
    by (simp add: sample_supervisor_def with_launch_registry_def supervisor_new_def sample_fleet_config_def)
  moreover obtain r1 r2 sv w where b: "launch_all sample_host (sample_supervisor fresh_alloc registry_in_memory) [] = (Inr [r1, r2], sv, w)"
    using sample_batch by blast
  ultimately show "\<exists>r1 r2 sv w. launch_all sample_host (sample_supervisor fresh_alloc registry_in_memory) [] = (Inr [r1, r2], sv, w)
     \<and> tr_agent_id r1 = ''a'' \<and> tr_agent_id r2 = ''c'' \<and> tracked sv = {''a'', ''c''}"
    using launch_all_or_nothing [OF ok sample_kills b] b by (auto simp: batch_launched_def)
next
  obtain e sv w where b: "launch_all sample_host (sample_supervisor small_alloc registry_in_memory) [] = (Inl e, sv, w)"
    "snd (snd (snd (launch_all (recording sample_host) (sample_supervisor small_alloc registry_in_memory) ([], []))))
       = [ChildTenant 100 100]" using small_batch by blast
  from launch_all_or_nothing [OF small_ok sample_kills b(1)] b
  show "\<exists>e sv w. launch_all sample_host (sample_supervisor small_alloc registry_in_memory) [] = (Inl e, sv, w)
     \<and> \<not> process_is_running sample_host (ChildTenant 100 100) w" by auto
qed

theorem tenants_hold_slots_witness:
  "\<exists>sv t u. fleet_run sample_host (sample_supervisor fresh_alloc registry_in_memory) sv
     \<and> tget (fs_tenants sv) ''a'' = Some t \<and> tget (fs_tenants sv) ''c'' = Some u
     \<and> tr_keystore_dir (lt_record t) \<noteq> tr_keystore_dir (lt_record u)"
proof -
  obtain r1 r2 sv w where b: "launch_all sample_host (sample_supervisor fresh_alloc registry_in_memory) [] = (Inr [r1, r2], sv, w)
      \<and> map fst (fs_tenants sv) = [''a'', ''c'']" using sample_batch by (elim exE) (rule that)
  note run = fr_batch [OF fr_start b [THEN conjunct1]]
  obtain t u where tu: "tget (fs_tenants sv) ''a'' = Some t" "tget (fs_tenants sv) ''c'' = Some u"
    using b by (auto simp: map_eq_Cons_conv)
  with tenants_hold_slots [OF fresh_ok run [unfolded sample_supervisor_def]] run show ?thesis by auto
qed

theorem launched_only_confirmed_witness:
  "\<exists>rec sv w. launch_one_at_term sample_host \<lparr>tc_agent_id = ''a'', tc_initial_sats = 9\<rparr> 1
       (with_lease_confirmer 2 (sample_supervisor fresh_alloc registry_in_memory)) [] = (Inr rec, sv, w)
     \<and> tenant_record_of ''a'' sv = Some rec"
proof -
  let ?t = "\<lparr>tc_agent_id = ''a'', tc_initial_sats = 9\<rparr> :: tenant_config"
  let ?sv = "with_lease_confirmer 2 (sample_supervisor fresh_alloc registry_in_memory)"
  have ok: "fleet_ok sample_host ?sv"
    using fleet_ok_new [OF fresh_ok, of sample_host 1 sample_fleet_config]
    by (simp add: with_lease_confirmer_def sample_supervisor_def fleet_ok_def tracked_ok_def)
  have c: "fs_lease_confirmer ?sv" by (simp add: with_lease_confirmer_def)
  obtain rec sv w where l: "launch_one_at_term sample_host ?t 1 ?sv [] = (Inr rec, sv, w)"
    by (simp add: sample_launch_defs with_lease_confirmer_def confirm_takeover_win_def)
  from launched_only_confirmed [OF ok c l] l show ?thesis by auto
qed

text \<open>Two orphans, of which one is alive and ours.\<close>

definition orphan_registry :: launch_registry where
  "orphan_registry = \<lparr>lg_persistent = True,
     lg_records = [(''kirby-a'', \<lparr>la_agent_id = ''a'', la_instance_id = ''kirby-a'', la_pid = 7\<rparr>),
                   (''kirby-b'', \<lparr>la_agent_id = ''b'', la_instance_id = ''kirby-b'', la_pid = 8\<rparr>)], lg_disk = None\<rparr>"

lemma orphans_ok: "fleet_ok sample_host (sample_supervisor test_alloc orphan_registry)"
proof -
  have "allocator_ok test_alloc" using supervised_ok [OF test_alloc_supervised] by simp
  moreover have "registry_ok orphan_registry"
    by (auto simp: registry_ok_def orphan_registry_def registry_get_def instance_id_for_def tree_ok_def split: if_splits)
  ultimately show ?thesis unfolding sample_supervisor_def by (rule fleet_ok_new)
qed

lemma orphans_none: "fs_tenants (sample_supervisor test_alloc orphan_registry) = []"
  by (simp add: sample_supervisor_def with_launch_registry_def supervisor_new_def)

abbreviation "orphan_view \<equiv> [''a'' \<mapsto> \<lparr>al_node_id = 1, al_term = 1\<rparr>] :: agent_id \<Rightarrow> active_lease option"

theorem reconcile_exact_witness:
  "\<exists>sv l s w. apply_reconcile sample_host orphan_view Complete None (sample_supervisor test_alloc orphan_registry) [7] = (sv, l, s, w)
     \<and> rs_readopted s = [''a''] \<and> map fst (rs_reaped s) = [''b''] \<and> tracked sv = {''a''}"
proof -
  obtain sv l s w where r: "apply_reconcile sample_host orphan_view Complete None (sample_supervisor test_alloc orphan_registry) [7] = (sv, l, s, w)"
    by (metis prod.exhaust)
  have "allocation_for test_alloc ''a'' \<noteq> None" by (simp add: allocation_for_def test_alloc_live)
  with reconcile_exact [OF orphans_ok orphans_none r] r show ?thesis
    by (simp add: registry_all_def tvals_def orphan_registry_def sample_supervisor_def with_launch_registry_def supervisor_new_def
        sample_host_def summary_is_empty_def)
qed

lemma orphans_readopted:
  assumes "apply_reconcile sample_host orphan_view Complete None (sample_supervisor test_alloc orphan_registry) [7] = (sv, l, s, w)"
  shows "''a'' \<in> set (rs_readopted s)"
proof -
  have "readopts (ho_probe sample_host [7]) orphan_view (sample_supervisor test_alloc orphan_registry) \<lparr>la_agent_id = ''a'', la_instance_id = ''kirby-a'', la_pid = 7\<rparr>"
    by (simp add: readopts_def decide_one_def sample_host_def sample_supervisor_def with_launch_registry_def supervisor_new_def slots_def
        allocation_for_def test_alloc_live)
  moreover have "\<lparr>la_agent_id = ''a'', la_instance_id = ''kirby-a'', la_pid = 7\<rparr>
      \<in> set (registry_all (fs_launch_registry (sample_supervisor test_alloc orphan_registry)))"
    by (simp add: registry_all_def tvals_def sample_supervisor_def with_launch_registry_def supervisor_new_def orphan_registry_def)
  moreover have "rs_readopted s = map la_agent_id (filter (readopts (ho_probe sample_host [7]) orphan_view (sample_supervisor test_alloc orphan_registry))
      (registry_all (fs_launch_registry (sample_supervisor test_alloc orphan_registry))))"
    using apply_reconcile_does(2) [OF assms orphans_ok orphans_none, unfolded all_settled_def] by simp
  ultimately show ?thesis by (simp only: set_map set_filter) (rule image_eqI, rule launch_record.select_convs(1) [symmetric], blast)
qed

theorem readopted_static_killed_witness:
  "\<exists>sv1 l s w1 res sv2 w2. apply_reconcile sample_host orphan_view Complete None (sample_supervisor test_alloc orphan_registry) [7] = (sv1, l, s, w1)
     \<and> launch_all sample_host sv1 w1 = (Inl res, sv2, w2) \<and> ''a'' \<in> set (rs_readopted s) \<and> fs_tenants sv2 = []"
proof -
  let ?sv = "sample_supervisor test_alloc orphan_registry"
  obtain sv1 l s w1 where r: "apply_reconcile sample_host orphan_view Complete None ?sv [7] = (sv1, l, s, w1)" by (metis prod.exhaust)
  obtain res sv2 w2 where b: "launch_all sample_host sv1 w1 = (res, sv2, w2)" by (metis prod.exhaust)
  have t: "\<lparr>tc_agent_id = ''a'', tc_initial_sats = 9\<rparr> \<in> set (fb_tenants (kc_fleet (fs_base_config ?sv)))"
    by (simp add: sample_supervisor_def with_launch_registry_def supervisor_new_def sample_fleet_config_def)
  have a: "tc_agent_id \<lparr>tc_agent_id = ''a'', tc_initial_sats = 9\<rparr> \<in> set (rs_readopted s)" using orphans_readopted [OF r] by simp
  from readopted_static_killed [OF orphans_ok orphans_none sample_kills r t a b] r b a show ?thesis by auto
qed

section \<open>The child and its configuration\<close>

text \<open>A child the launcher started is found by its own probe: its command line names its configuration file.\<close>

lemma launched_child_found:
  assumes "process_launch h io pl base spec w = (Inr p, w')"
  shows "\<exists>c pid argv env w2. p = ChildTenant c pid \<and> li_spawn io argv env w2 = (Inr (c, pid), w')
    \<and> (exists pid \<and> proc_cmdline pid = Some (concat (map (\<lambda>s. s @ [CHR 0x00]) argv)) \<and> (\<forall>x\<in>set (ts_agent_id spec). of_char x \<noteq> (0::nat))
        \<longrightarrow> alive_and_ours exists proc_cmdline pid (ts_agent_id spec))"
proof -
  let ?path = "tenant_config_path pl (ts_agent_id spec)"
  obtain c pid w2 env where s: "p = ChildTenant c pid"
    "li_spawn io [pl_binary pl, ''agent'', ''--config'', ?path] env w2 = (Inr (c, pid), w')"
    using assms by (auto simp: process_launch_def Let_def split: sum.splits prod.splits)
  have "concat (map (\<lambda>s. s @ [CHR 0x00]) [pl_binary pl, ''agent'', ''--config'', ?path])
      = (pl_binary pl @ [CHR 0x00] @ ''agent'' @ [CHR 0x00] @ ''--config'' @ [CHR 0x00] @ pl_config_dir pl @ ''/'')
        @ ''tenant-'' @ ts_agent_id spec @ ''.toml'' @ [CHR 0x00]"
    by (simp add: tenant_config_path_def path_join_def)
  then have "exists pid \<Longrightarrow> proc_cmdline pid = Some (concat (map (\<lambda>s. s @ [CHR 0x00]) [pl_binary pl, ''agent'', ''--config'', ?path]))
      \<Longrightarrow> \<forall>x\<in>set (ts_agent_id spec). of_char x \<noteq> (0::nat) \<Longrightarrow> alive_and_ours exists proc_cmdline pid (ts_agent_id spec)"
    by (metis own_child_recognised)
  with s show ?thesis by blast
qed

text \<open>Tenants on different slots share no key directory, keyset, state directory or wallet, and host no fleet of their own.\<close>

lemma tenant_configs_apart:
  fixes h :: "'w host" and pl :: process_launcher and base :: "'c kirby_config_scheme"
  assumes "ta_instance_id (ts_allocation s) \<noteq> ta_instance_id (ts_allocation t)"
  defines "c \<equiv> derive_tenant_config h pl base s" and "d \<equiv> derive_tenant_config h pl base t"
  shows "kc_node_id c \<noteq> kc_node_id d" "kc_key_path c \<noteq> kc_key_path d" "kc_treasury_dir c \<noteq> kc_treasury_dir d"
    "kc_wallet_db_path c \<noteq> kc_wallet_db_path d" "fb_tenants (kc_fleet c) = []" "kirby_config.more c = kirby_config.more base"
  using assms(1) by (simp_all add: c_def d_def derive_tenant_config_def Let_def agent_state_dir_for_def path_join_def fleet_block_default_def)

end
