(* ===== verification/Spawn.thy ===== *)
theory Spawn
  imports Fleet_Supervisor_Props
begin

text \<open>
  The spawn control plane of \<open>spawn.rs\<close>: the battery of checks a signed request from the relay passes before an agent is
  launched, the authorizer with its rate limit, the funder, and the admission of a takeover. Signature and JSON are
  arguments; the launch target is a \<open>spawn_sink\<close>, whose contract is a locale interpreted on the supervisor.
\<close>

definition MAX_SPAWN_CONTENT_BYTES :: nat where "MAX_SPAWN_CONTENT_BYTES = 8 * 1024"
definition KIND_KIRBY_SPAWN_REQUEST :: u16 where "KIND_KIRBY_SPAWN_REQUEST = 31003"

text \<open>An event as the relay client hands it over.\<close>

record relay_event =
  rv_id :: string
  rv_pubkey :: string
  rv_created_at :: u64
  rv_kind :: u16
  rv_tags :: "string list list"
  rv_content :: string
  rv_sig :: string

record spawn_request =
  sq_agent_id :: agent_id
  sq_genome_config :: string
  sq_image_ref :: string
  sq_seed_sats :: u64
  sq_requester_pubkey :: string

datatype spawn_reject =
    WrongKind u16
  | BadSignature
  | OversizedContent nat
  | MalformedContent
  | InvalidAgentId string
  | RequesterMismatch
  | UnknownImage string
  | Unauthorized string
  | Funding string
  | Stale u64 u64

datatype spawn_skip = OverCapacity | AlreadySpawned | AlreadyClaimedElsewhere lease_node_id u64

datatype takeover_skip =
    KeystoreNotLoadable
  | TakeoverOverCapacity
  | TakeoverUnknownImage string
  | TakeoverClaimedElsewhere lease_node_id u64

datatype takeover_admission = Admit | Skip takeover_skip

datatype 'e launch_failure = ReserveFailed string | SinkFailed 'e

datatype 'e spawn_outcome =
    Launched agent_id string u64
  | Skipped spawn_skip
  | Rejected spawn_reject
  | LaunchFailure "'e launch_failure"

section \<open>Labels\<close>

definition label_char :: "char \<Rightarrow> bool" where
  "label_char c \<longleftrightarrow> in_range 48 57 c \<or> in_range 65 90 c \<or> in_range 97 122 c \<or> c \<in> {CHR ''-'', CHR ''_'', CHR ''.''}"

definition validate_agent_label :: "string \<Rightarrow> string \<Rightarrow> string + unit" where
  "validate_agent_label label v =
     (if v = [] then Inl (label @ '' must be non-empty'')
      else if 64 < length v then Inl (label @ '' must be <= 64 chars (got '' @ show_nat (length v) @ '')'')
      else if v = ''.'' \<or> v = ''..'' then Inl (label @ '' must not be a path component'')
      else if \<not> list_all label_char v then Inl (label @ '' must contain only ASCII alphanumerics'')
      else Inr ())"

section \<open>Authorization and funding\<close>

datatype spawn_decision = Allow | Deny string

record allowlist_authorizer =
  aa_allowed :: "string list"
  aa_max_per_window :: u32
  aa_window_secs :: u64

text \<open>Per requester the start of the current window and what it has used of it.\<close>

type_synonym rate_map = "string \<Rightarrow> (u64 \<times> u32) option"

definition authorize :: "allowlist_authorizer \<Rightarrow> string \<Rightarrow> u64 \<Rightarrow> rate_map \<Rightarrow> spawn_decision \<times> rate_map" where
  "authorize az requester now recent =
     (if aa_allowed az \<noteq> [] \<and> requester \<notin> set (aa_allowed az)
      then (Deny (''requester '' @ requester @ '' is not in the operator allowlist''), recent)
      else
        (let entry = (case recent requester of None \<Rightarrow> (now, 0) | Some e \<Rightarrow> e);
             entry = (if aa_window_secs az \<le> saturating_sub now (fst entry) then (now, 0) else entry)
         in if aa_max_per_window az \<le> snd entry
            then (Deny (''rate limit: '' @ show_word (snd entry) @ '' spawns within '' @ show_word (aa_window_secs az) @ ''s for '' @ requester),
                  recent(requester \<mapsto> entry))
            else (Allow, recent(requester \<mapsto> (fst entry, snd entry + 1)))))"

definition seed_fund :: "u64 \<Rightarrow> spawn_request \<Rightarrow> string + u64" where
  "seed_fund max_seed_sats req =
     (if sq_seed_sats req = 0 then Inl ''seed amount is zero (the real-money path refuses an unfunded agent)''
      else if max_seed_sats < sq_seed_sats req
      then Inl (''seed '' @ show_word (sq_seed_sats req) @ '' exceeds the per-spawn ceiling '' @ show_word max_seed_sats)
      else Inr (sq_seed_sats req))"

section \<open>The consumer\<close>

record spawn_env =
  se_verify :: "relay_event \<Rightarrow> bool"
  se_parse :: "string \<Rightarrow> spawn_request option"

text \<open>What the launch target offers.\<close>

record ('s, 'e) spawn_sink =
  sk_tenant_count :: "'s \<Rightarrow> nat"
  sk_launch :: "tenant_config \<Rightarrow> 's \<Rightarrow> ('e + tenant_record) \<times> 's"

record spawn_consumer =
  sn_max_tenants :: nat
  sn_image_allowlist :: "string list"
  sn_authorizer :: allowlist_authorizer
  sn_max_seed_sats :: u64
  sn_request_max_age_secs :: "u64 option"

record consumer_state =
  cs_recent :: rate_map
  cs_ledger :: spawn_ledger

text \<open>The fence as it reads now: this node and the fresh lease of an agent.\<close>

type_synonym fence_view = "(lease_node_id \<times> (agent_id \<Rightarrow> active_lease option)) option"

definition fence_conflict :: "fence_view \<Rightarrow> agent_id \<Rightarrow> (lease_node_id \<times> u64) option" where
  "fence_conflict fence a =
     (case fence of
        None \<Rightarrow> None
      | Some (node, fresh) \<Rightarrow>
          (case fresh a of
             None \<Rightarrow> None
           | Some lease \<Rightarrow> if al_node_id lease \<noteq> node then Some (al_node_id lease, al_term lease) else None))"

definition parse_and_validate :: "spawn_env \<Rightarrow> relay_event \<Rightarrow> spawn_reject + spawn_request" where
  "parse_and_validate env event =
     (if rv_kind event \<noteq> KIND_KIRBY_SPAWN_REQUEST then Inl (WrongKind (rv_kind event))
      else if \<not> se_verify env event then Inl BadSignature
      else if MAX_SPAWN_CONTENT_BYTES < length (rv_content event) then Inl (OversizedContent (length (rv_content event)))
      else (case se_parse env (rv_content event) of
         None \<Rightarrow> Inl MalformedContent
       | Some req \<Rightarrow>
           (case validate_agent_label ''spawn.agent_id'' (sq_agent_id req) of
              Inl e \<Rightarrow> Inl (InvalidAgentId e)
            | Inr _ \<Rightarrow>
                if sq_requester_pubkey req \<noteq> [] \<and> sq_requester_pubkey req \<noteq> rv_pubkey event then Inl RequesterMismatch
                else Inr req)))"

text \<open>The age bound, if the node sets one.\<close>

definition stale_reject :: "u64 option \<Rightarrow> u64 \<Rightarrow> u64 \<Rightarrow> spawn_reject option" where
  "stale_reject max_age created now =
     (case max_age of
        None \<Rightarrow> None
      | Some max_age_secs \<Rightarrow>
          if saturating_add created max_age_secs < now then Some (Stale (saturating_sub now created) max_age_secs) else None)"

text \<open>Reserve, launch, and finalize or release; \<open>rio\<close> and \<open>cio\<close> are what storage does at the two ledger calls.\<close>

definition reserve_and_launch ::
  "('s, 'e) spawn_sink \<Rightarrow> ledger_io \<Rightarrow> ledger_io \<Rightarrow> agent_id \<Rightarrow> u64 \<Rightarrow> consumer_state \<Rightarrow> 's
     \<Rightarrow> 'e spawn_outcome \<times> consumer_state \<times> 's" where
  "reserve_and_launch sk rio cio a sats st s =
     (case ledger_reserve rio a (cs_ledger st) of
        (Inl e, l) \<Rightarrow> (LaunchFailure (ReserveFailed e), st\<lparr>cs_ledger := l\<rparr>, s)
      | (Inr out, l) \<Rightarrow>
          if out = AlreadyLaunched then (Skipped AlreadySpawned, st\<lparr>cs_ledger := l\<rparr>, s)
          else (case sk_launch sk \<lparr>tc_agent_id = a, tc_initial_sats = sats\<rparr> s of
             (Inr rec, s') \<Rightarrow>
               (Launched (tr_agent_id rec) (tr_frost_npub rec) (tr_lease_term rec), st\<lparr>cs_ledger := snd (ledger_finalize cio a l)\<rparr>, s')
           | (Inl e, s') \<Rightarrow> (LaunchFailure (SinkFailed e), st\<lparr>cs_ledger := snd (ledger_release cio a l)\<rparr>, s')))"

definition handle_event ::
  "spawn_env \<Rightarrow> spawn_consumer \<Rightarrow> ('s, 'e) spawn_sink \<Rightarrow> fence_view \<Rightarrow> ledger_io \<Rightarrow> ledger_io \<Rightarrow> relay_event \<Rightarrow> u64
     \<Rightarrow> consumer_state \<Rightarrow> 's \<Rightarrow> 'e spawn_outcome \<times> consumer_state \<times> 's" where
  "handle_event env cn sk fence rio cio event now st s =
     (case parse_and_validate env event of
        Inl reject \<Rightarrow> (Rejected reject, st, s)
      | Inr req \<Rightarrow>
     (case stale_reject (sn_request_max_age_secs cn) (rv_created_at event) now of
        Some reject \<Rightarrow> (Rejected reject, st, s)
      | None \<Rightarrow>
     (if sq_image_ref req \<notin> set (sn_image_allowlist cn) then (Rejected (UnknownImage (sq_image_ref req)), st, s)
      else
     (case authorize (sn_authorizer cn) (rv_pubkey event) now (cs_recent st) of
        (Deny why, recent) \<Rightarrow> (Rejected (Unauthorized why), st\<lparr>cs_recent := recent\<rparr>, s)
      | (Allow, recent) \<Rightarrow>
     (case seed_fund (sn_max_seed_sats cn) req of
        Inl why \<Rightarrow> (Rejected (Funding why), st\<lparr>cs_recent := recent\<rparr>, s)
      | Inr sats \<Rightarrow>
     (if sn_max_tenants cn \<le> sk_tenant_count sk s then (Skipped OverCapacity, st\<lparr>cs_recent := recent\<rparr>, s)
      else
     (case fence_conflict fence (sq_agent_id req) of
        Some (holder, term) \<Rightarrow> (Skipped (AlreadyClaimedElsewhere holder term), st\<lparr>cs_recent := recent\<rparr>, s)
      | None \<Rightarrow> reserve_and_launch sk rio cio (sq_agent_id req) sats (st\<lparr>cs_recent := recent\<rparr>) s)))))))"

section \<open>Takeovers\<close>

definition admit_takeover ::
  "spawn_consumer \<Rightarrow> fence_view \<Rightarrow> agent_id \<Rightarrow> bool \<Rightarrow> string \<Rightarrow> nat \<Rightarrow> takeover_admission" where
  "admit_takeover cn fence a keystore_loadable node_image tenants =
     (if \<not> keystore_loadable then Skip KeystoreNotLoadable
      else if sn_max_tenants cn \<le> tenants then Skip TakeoverOverCapacity
      else if node_image \<notin> set (sn_image_allowlist cn) then Skip (TakeoverUnknownImage node_image)
      else (case fence_conflict fence a of
         Some (holder, term) \<Rightarrow> Skip (TakeoverClaimedElsewhere holder term)
       | None \<Rightarrow> Admit))"

section \<open>What passing the battery means\<close>

text \<open>Every gate of a request, in the order the code has them.\<close>

definition gates_passed ::
  "spawn_env \<Rightarrow> spawn_consumer \<Rightarrow> fence_view \<Rightarrow> relay_event \<Rightarrow> u64 \<Rightarrow> rate_map \<Rightarrow> nat \<Rightarrow> spawn_request \<Rightarrow> bool" where
  "gates_passed env cn fence event now recent tenants req \<longleftrightarrow>
     rv_kind event = KIND_KIRBY_SPAWN_REQUEST \<and> se_verify env event \<and> length (rv_content event) \<le> MAX_SPAWN_CONTENT_BYTES
     \<and> se_parse env (rv_content event) = Some req \<and> validate_agent_label ''spawn.agent_id'' (sq_agent_id req) = Inr ()
     \<and> (sq_requester_pubkey req = [] \<or> sq_requester_pubkey req = rv_pubkey event)
     \<and> stale_reject (sn_request_max_age_secs cn) (rv_created_at event) now = None
     \<and> sq_image_ref req \<in> set (sn_image_allowlist cn)
     \<and> fst (authorize (sn_authorizer cn) (rv_pubkey event) now recent) = Allow
     \<and> 0 < sq_seed_sats req \<and> sq_seed_sats req \<le> sn_max_seed_sats cn
     \<and> tenants < sn_max_tenants cn \<and> fence_conflict fence (sq_agent_id req) = None"

lemma parse_and_validate_iff:
  "parse_and_validate env event = Inr req \<longleftrightarrow>
     rv_kind event = KIND_KIRBY_SPAWN_REQUEST \<and> se_verify env event \<and> length (rv_content event) \<le> MAX_SPAWN_CONTENT_BYTES
     \<and> se_parse env (rv_content event) = Some req \<and> validate_agent_label ''spawn.agent_id'' (sq_agent_id req) = Inr ()
     \<and> (sq_requester_pubkey req = [] \<or> sq_requester_pubkey req = rv_pubkey event)"
  by (auto simp: parse_and_validate_def split: option.splits sum.splits if_splits)

lemma seed_fund_iff: "seed_fund m req = Inr sats \<longleftrightarrow> sats = sq_seed_sats req \<and> 0 < sats \<and> sats \<le> m"
  by (auto simp: seed_fund_def word_neq_0_conv)

text \<open>An event either leaves the launch target and the ledger alone, or passed every gate and goes on to the ledger.\<close>

lemma handle_event_cases:
  assumes "handle_event env cn sk fence rio cio event now st s = (out, st', s')"
  obtains "s' = s" "cs_ledger st' = cs_ledger st" "\<And>a n t. out \<noteq> Launched a n t" "\<And>e. out \<noteq> LaunchFailure e"
  | req where "gates_passed env cn fence event now (cs_recent st) (sk_tenant_count sk s) req"
      "reserve_and_launch sk rio cio (sq_agent_id req) (sq_seed_sats req)
         (st\<lparr>cs_recent := snd (authorize (sn_authorizer cn) (rv_pubkey event) now (cs_recent st))\<rparr>) s = (out, st', s')"
proof -
  note d = assms [unfolded handle_event_def]
  show ?thesis
  proof (cases "parse_and_validate env event")
    case (Inl r) with d that(1) show ?thesis by auto
  next
    case p: (Inr req)
    obtain dec recent where az: "authorize (sn_authorizer cn) (rv_pubkey event) now (cs_recent st) = (dec, recent)" by fastforce
    let ?pass = "stale_reject (sn_request_max_age_secs cn) (rv_created_at event) now = None \<and> sq_image_ref req \<in> set (sn_image_allowlist cn)
      \<and> dec = Allow \<and> seed_fund (sn_max_seed_sats cn) req = Inr (sq_seed_sats req) \<and> sk_tenant_count sk s < sn_max_tenants cn
      \<and> fence_conflict fence (sq_agent_id req) = None"
    show ?thesis
    proof (cases ?pass)
      case True
      then have "reserve_and_launch sk rio cio (sq_agent_id req) (sq_seed_sats req) (st\<lparr>cs_recent := recent\<rparr>) s = (out, st', s')"
        using d p az by simp
      then show ?thesis using True p az
        by (intro that(2) [of req]) (simp_all add: gates_passed_def parse_and_validate_iff seed_fund_iff)
    next
      case False
      then show ?thesis using d p az that(1)
        by (auto simp: seed_fund_iff split: option.splits sum.splits spawn_decision.splits if_splits)
    qed
  qed
qed

text \<open>What reserving and launching does.\<close>

lemma reserve_and_launch_cases:
  assumes "reserve_and_launch sk rio cio a sats st s = (out, st', s')"
  obtains "s' = s" "cs_ledger st' = snd (ledger_reserve rio a (cs_ledger st))" "\<And>x n t. out \<noteq> Launched x n t"
  | rec resv where "sk_launch sk \<lparr>tc_agent_id = a, tc_initial_sats = sats\<rparr> s = (Inr rec, s')"
      "fst (ledger_reserve rio a (cs_ledger st)) = Inr resv" "resv \<noteq> AlreadyLaunched"
      "out = Launched (tr_agent_id rec) (tr_frost_npub rec) (tr_lease_term rec)"
      "cs_ledger st' = snd (ledger_finalize cio a (snd (ledger_reserve rio a (cs_ledger st))))"
  | e resv where "sk_launch sk \<lparr>tc_agent_id = a, tc_initial_sats = sats\<rparr> s = (Inl e, s')"
      "fst (ledger_reserve rio a (cs_ledger st)) = Inr resv" "resv \<noteq> AlreadyLaunched" "out = LaunchFailure (SinkFailed e)"
      "cs_ledger st' = snd (ledger_release cio a (snd (ledger_reserve rio a (cs_ledger st))))"
proof -
  obtain r l where r: "ledger_reserve rio a (cs_ledger st) = (r, l)" by fastforce
  obtain x s2 where k: "sk_launch sk \<lparr>tc_agent_id = a, tc_initial_sats = sats\<rparr> s = (x, s2)" by fastforce
  show ?thesis
  proof (cases "\<exists>resv. r = Inr resv \<and> resv \<noteq> AlreadyLaunched")
    case True
    with assms r k that(2,3) show ?thesis by (cases x) (auto simp: reserve_and_launch_def)
  next
    case False
    with assms r that(1) show ?thesis by (cases r) (auto simp: reserve_and_launch_def)
  qed
qed

section \<open>The launch target's contract\<close>

text \<open>
  A launch that reports success hosts exactly one tenant more, one that fails none; \<open>ok\<close> is the target's own
  invariant.
\<close>

locale counting_sink =
  fixes ok :: "'s \<Rightarrow> bool" and sk :: "('s, 'e) spawn_sink"
  assumes launch_ok: "ok s \<Longrightarrow> sk_launch sk t s = (res, s') \<Longrightarrow> ok s'"
    and launch_hosts: "ok s \<Longrightarrow> sk_launch sk t s = (Inr rec, s') \<Longrightarrow> sk_tenant_count sk s' = Suc (sk_tenant_count sk s)"
    and failure_hosts: "ok s \<Longrightarrow> sk_launch sk t s = (Inl e, s') \<Longrightarrow> sk_tenant_count sk s' = sk_tenant_count sk s"
begin

lemma handle_event_ok:
  assumes "handle_event env cn sk fence rio cio event now st s = (out, st', s')" "ok s"
  shows "ok s'"
  using handle_event_cases [OF assms(1)]
proof cases
  case (2 req)
  show ?thesis using reserve_and_launch_cases [OF 2(2)] by cases (use assms(2) launch_ok in auto)
qed (use assms(2) in simp)

lemma capacity_kept:
  assumes "handle_event env cn sk fence rio cio event now st s = (out, st', s')" "ok s"
  shows "sk_tenant_count sk s' \<le> max (sn_max_tenants cn) (sk_tenant_count sk s)"
  using handle_event_cases [OF assms(1)]
proof cases
  case (2 req)
  then have below: "sk_tenant_count sk s < sn_max_tenants cn" by (simp add: gates_passed_def)
  show ?thesis using reserve_and_launch_cases [OF 2(2)]
  proof cases
    case (2 rec resv)
    then show ?thesis using launch_hosts [OF assms(2) 2(1)] below by simp
  next
    case (3 e resv)
    then show ?thesis using failure_hosts [OF assms(2) 3(1)] by simp
  qed simp
qed simp

end

text \<open>The supervisor as a launch target; its state is itself and the world.\<close>

definition supervisor_sink :: "'w host \<Rightarrow> ('c fleet_supervisor \<times> 'w, fleet_error) spawn_sink" where
  "supervisor_sink h = \<lparr>sk_tenant_count = (\<lambda>s. tenant_count (fst s)),
     sk_launch = (\<lambda>t s. case launch_one h t (fst s) (snd s) of (res, sv', w') \<Rightarrow> (res, (sv', w')))\<rparr>"

lemma tenant_count_card: "fleet_ok h sv \<Longrightarrow> tenant_count sv = card (tracked sv)"
  using tree_ok_distinct [OF fleet_okD(2), of h sv] distinct_card [of "tkeys (fs_tenants sv)"]
  by (simp add: tenant_count_def tracked_keys [symmetric] tkeys_def)

lemma supervisor_sink_launch:
  "sk_launch (supervisor_sink h) t s = (res, s') \<longleftrightarrow> launch_one_at_term h t 1 (fst s) (snd s) = (res, fst s', snd s')"
  by (auto simp: supervisor_sink_def launch_one_def split: prod.splits)

interpretation supervisor: counting_sink "\<lambda>s. fleet_ok h (fst s)" "supervisor_sink h" for h :: "'w host"
proof
  fix s :: "'c fleet_supervisor \<times> 'w" and t res s'
  assume ok: "fleet_ok h (fst s)" and l: "sk_launch (supervisor_sink h) t s = (res, s')"
  show "fleet_ok h (fst s')" by (rule launch_does(1) [OF supervisor_sink_launch [THEN iffD1, OF l] ok])
next
  fix s :: "'c fleet_supervisor \<times> 'w" and t rec s'
  assume ok: "fleet_ok h (fst s)" and l: "sk_launch (supervisor_sink h) t s = (Inr rec, s')"
  then have l': "launch_one_at_term h t 1 (fst s) (snd s) = (Inr rec, fst s', snd s')" using supervisor_sink_launch by blast
  have a: "added h t 1 rec (fst s) (snd s) (fst s')" using launch_does(2) [OF l' ok] by auto
  have "tc_agent_id t \<notin> tracked (fst s)" using added_facts(1) [OF a] tracked_is_slot [OF ok] by auto
  then show "sk_tenant_count (supervisor_sink h) s' = Suc (sk_tenant_count (supervisor_sink h) s)"
    using tenant_count_card [OF ok] tenant_count_card [OF launch_does(1) [OF l' ok]] added_facts(3) [OF a]
    by (simp add: supervisor_sink_def tracked_keys [symmetric])
next
  fix s :: "'c fleet_supervisor \<times> 'w" and t e s'
  assume ok: "fleet_ok h (fst s)" and l: "sk_launch (supervisor_sink h) t s = (Inl e, s')"
  then have l': "launch_one_at_term h t 1 (fst s) (snd s) = (Inl e, fst s', snd s')" using supervisor_sink_launch by blast
  have "without_all {} (fst s) (fst s')" using launch_does(2) [OF l' ok] by auto
  then show "sk_tenant_count (supervisor_sink h) s' = sk_tenant_count (supervisor_sink h) s"
    using tenant_count_card [OF ok] tenant_count_card [OF launch_does(1) [OF l' ok]] without_all_facts(2)
    by (fastforce simp: supervisor_sink_def)
qed

end
