(* ===== verification/Control_Plane.thy ===== *)
theory Control_Plane
  imports Spawn Failover
begin

text \<open>
  The control-plane loop of \<open>kirby fleet\<close> (\<open>run_spawn_control_plane\<close> in \<open>main.rs\<close>): its arms as functions of the state the
  loop owns and of the world, and the loop as a step relation. The relay subscription delivers events; timers and
  the wall clock are arguments.
\<close>

record 'c control_plane =
  cp_supervisor :: "'c fleet_supervisor"
  cp_consumer :: consumer_state
  cp_observer :: fleet_lease_observer
  cp_grace_state :: grace_map
  cp_takeover_backoff :: "(agent_id, u64) tree"

definition spawn_consumer_of :: "spawn_config \<Rightarrow> nat \<Rightarrow> spawn_consumer" where
  "spawn_consumer_of cfg max_tenants =
     \<lparr>sn_max_tenants = max_tenants, sn_image_allowlist = sc_image_allowlist cfg,
      sn_authorizer = \<lparr>aa_allowed = sc_operators cfg, aa_max_per_window = sc_max_per_window cfg, aa_window_secs = sc_rate_window_secs cfg\<rparr>,
      sn_max_seed_sats = sc_max_seed_sats cfg, sn_request_max_age_secs = sc_request_max_age_secs cfg\<rparr>"

definition node_image :: "spawn_config \<Rightarrow> string" where
  "node_image cfg = (case sc_image_allowlist cfg of [] \<Rightarrow> '''' | img # _ \<Rightarrow> img)"

definition fence_of :: "fleet_lease_observer \<Rightarrow> u64 \<Rightarrow> fence_view" where
  "fence_of obs now = Some (flo_node_id obs, flo_active_lease_for obs now)"

section \<open>The arms\<close>

definition reap_tick :: "'w host \<Rightarrow> 'c control_plane \<Rightarrow> 'w \<Rightarrow> 'c control_plane \<times> 'w" where
  "reap_tick h cp w = (case reap_dead h (cp_supervisor cp) w of (reaped, sv, w') \<Rightarrow> (cp\<lparr>cp_supervisor := sv\<rparr>, w'))"

definition heartbeat_tick :: "'w host \<Rightarrow> 'c control_plane \<Rightarrow> 'w \<Rightarrow> 'c control_plane \<times> 'w" where
  "heartbeat_tick h cp w = (cp, heartbeat_leases h (cp_supervisor cp) w)"

text \<open>The first verdict that every admission gate lets through.\<close>

fun first_admitted :: "(takeover_verdict \<Rightarrow> takeover_admission) \<Rightarrow> takeover_verdict list \<Rightarrow> (agent_id \<times> u64) option" where
  "first_admitted admit [] = None"
| "first_admitted admit (v # vs) =
     (case admit v of Admit \<Rightarrow> Some (tv_agent_id v, tv_beat_term v) | Skip reason \<Rightarrow> first_admitted admit vs)"

text \<open>One failover scan; \<open>loadable\<close> says whether a keyset directory holds a loadable keyset, and the fence reads its own
  clock \<open>fnow\<close>.\<close>

definition admit_verdict ::
  "'w host \<Rightarrow> (string \<Rightarrow> 'w \<Rightarrow> bool) \<Rightarrow> spawn_config \<Rightarrow> nat \<Rightarrow> u64 \<Rightarrow> 'c control_plane \<Rightarrow> 'w \<Rightarrow> takeover_verdict \<Rightarrow> takeover_admission" where
  "admit_verdict h loadable cfg max_tenants fnow cp w v =
     admit_takeover (spawn_consumer_of cfg max_tenants) (fence_of (cp_observer cp) fnow) (tv_agent_id v)
       (loadable (keystore_dir_for h (instance_id_for (tv_agent_id v))) w) (node_image cfg) (tenant_count (cp_supervisor cp))"

definition failover_scan_tick ::
  "'w host \<Rightarrow> (string \<Rightarrow> 'w \<Rightarrow> bool) \<Rightarrow> spawn_config \<Rightarrow> nat \<Rightarrow> u64 \<Rightarrow> u64 \<Rightarrow> 'c control_plane \<Rightarrow> 'w \<Rightarrow> 'c control_plane \<times> 'w" where
  "failover_scan_tick h loadable cfg max_tenants now fnow cp w =
     (let node = flo_node_id (cp_observer cp);
          hosted = set (live_agent_ids (cp_supervisor cp));
          (verdicts, grace_state) = detect_takeovers (observed_snapshot (cp_observer cp)) node hosted now LEASE_TTL_SECS
             (sc_takeover_grace_secs cfg) (sc_failover_max_lease_age_secs cfg) (cp_grace_state cp);
          backoff = filter (\<lambda>(a, last_fail). saturating_sub now last_fail < DEFAULT_TAKEOVER_FAIL_BACKOFF_SECS) (cp_takeover_backoff cp);
          verdicts = drop_backed_off_verdicts verdicts backoff now DEFAULT_TAKEOVER_FAIL_BACKOFF_SECS;
          cp1 = cp\<lparr>cp_grace_state := grace_state, cp_takeover_backoff := backoff\<rparr>
      in case first_admitted (admit_verdict h loadable cfg max_tenants fnow cp w) verdicts of
           None \<Rightarrow> (cp1, w)
         | Some (a, beat_term) \<Rightarrow>
             (case launch_one_at_term h \<lparr>tc_agent_id = a, tc_initial_sats = default_tenant_initial_sats\<rparr> beat_term (cp_supervisor cp) w of
                (Inr rec, sv, w') \<Rightarrow> (cp1\<lparr>cp_supervisor := sv, cp_takeover_backoff := tremove a backoff\<rparr>, w')
              | (Inl e, sv, w') \<Rightarrow> (cp1\<lparr>cp_supervisor := sv, cp_takeover_backoff := tinsert a now backoff\<rparr>, w')))"

text \<open>An event of the subscription: a lease is folded into the occupancy view, a spawn request handled.\<close>

definition on_event ::
  "lease_env \<Rightarrow> spawn_env \<Rightarrow> 'w host \<Rightarrow> spawn_config \<Rightarrow> nat \<Rightarrow> relay_event \<Rightarrow> u64 \<Rightarrow> u64 \<Rightarrow> 'c control_plane \<Rightarrow> 'w
     \<Rightarrow> fleet_error spawn_outcome option \<times> 'c control_plane \<times> 'w" where
  "on_event le se h cfg max_tenants event now fnow cp w =
     (if rv_kind event = KIND_KIRBY_LEASE
      then (None, cp\<lparr>cp_observer := snd (observe_occupancy le (rv_kind event) (rv_tags event) (rv_content event) (cp_observer cp))\<rparr>, w)
      else if rv_kind event = KIND_KIRBY_SPAWN_REQUEST then
        (case ho_ledger_io h w of (rio, w1) \<Rightarrow>
         (case ho_ledger_io h w1 of (cio, w2) \<Rightarrow>
          (case handle_event se (spawn_consumer_of cfg max_tenants) (supervisor_sink h) (fence_of (cp_observer cp) fnow) rio cio event now
                  (cp_consumer cp) (cp_supervisor cp, w2) of
             (out, st, (sv, w3)) \<Rightarrow> (Some out, cp\<lparr>cp_consumer := st, cp_supervisor := sv\<rparr>, w3))))
      else (None, cp, w))"

section \<open>The loop\<close>

text \<open>A run of the loop, with what it answered to spawn requests; between the arms the world does what it likes.\<close>

inductive plane_run ::
  "lease_env \<Rightarrow> spawn_env \<Rightarrow> 'w host \<Rightarrow> (string \<Rightarrow> 'w \<Rightarrow> bool) \<Rightarrow> spawn_config \<Rightarrow> nat \<Rightarrow> 'c control_plane
     \<Rightarrow> fleet_error spawn_outcome list \<Rightarrow> 'c control_plane \<Rightarrow> bool"
  for le se h loadable cfg max_tenants cp0 where
  pr_start: "plane_run le se h loadable cfg max_tenants cp0 [] cp0"
| pr_reap: "plane_run le se h loadable cfg max_tenants cp0 outs cp \<Longrightarrow> reap_tick h cp w = (cp', w')
    \<Longrightarrow> plane_run le se h loadable cfg max_tenants cp0 outs cp'"
| pr_scan: "plane_run le se h loadable cfg max_tenants cp0 outs cp
    \<Longrightarrow> failover_scan_tick h loadable cfg max_tenants now fnow cp w = (cp', w')
    \<Longrightarrow> plane_run le se h loadable cfg max_tenants cp0 outs cp'"
| pr_event: "plane_run le se h loadable cfg max_tenants cp0 outs cp
    \<Longrightarrow> on_event le se h cfg max_tenants event now fnow cp w = (out, cp', w')
    \<Longrightarrow> plane_run le se h loadable cfg max_tenants cp0 (outs @ (case out of None \<Rightarrow> [] | Some x \<Rightarrow> [x])) cp'"

end
