(* ===== verification/Control_Plane_Props.thy ===== *)
theory Control_Plane_Props
  imports Control_Plane
begin

text \<open>
  What the control plane promises: who may spawn and how often, that an agent is spawned once, that a node stays within
  its capacity, and what a takeover rests on.
\<close>

section \<open>Spawning\<close>

lemma supervisor_launched:
  assumes "sk_launch (supervisor_sink h) t s = (Inr rec, s')" "fleet_ok h (fst s)"
  shows "added h t 1 rec (fst s) (snd s) (fst s')" "tr_agent_id rec = tc_agent_id t"
proof -
  note l = supervisor_sink_launch [THEN iffD1, OF assms(1)]
  show "added h t 1 rec (fst s) (snd s) (fst s')" using launch_does(2) [OF l assms(2)] by auto
  then show "tr_agent_id rec = tc_agent_id t" by (rule added_facts(5))
qed

lemma supervisor_failed:
  "sk_launch (supervisor_sink h) t s = (Inl e, s') \<Longrightarrow> fleet_ok h (fst s) \<Longrightarrow> without_all {} (fst s) (fst s')"
  using launch_does(2) [of h t 1 "fst s" "snd s" "Inl e" "fst s'" "snd s'"] supervisor_sink_launch [of h t s "Inl e" s'] by auto

text \<open>C19: Nothing spawns but what passed every gate. If an event makes the node launch, the event is an authentic
  spawn request of bounded size with a well-formed agent label, not contradicting its signer and not too old; its image is
  staged, its signer may spawn and is within the rate; it asks for a positive seed within the ceiling, and the agent gets
  exactly that seed, its own name, and the first lease term; the node had room, no other node holds a fresh lease on
  the agent, and the ledger knew of no launch of it. If the event does not launch, the tenants, their slots and their launch records are as before.\<close>

theorem spawn_gated:
  assumes "handle_event env cn (supervisor_sink h) fence rio cio event now st s = (out, st', s')" and "fleet_ok h (fst s)"
    and "tree_ok (cs_ledger st)"
  shows "case out of
      Launched a npub term \<Rightarrow>
        (\<exists>req rec. gates_passed env cn fence event now (cs_recent st) (tenant_count (fst s)) req \<and> a = sq_agent_id req
           \<and> \<not> ledger_launched (cs_ledger st) a
           \<and> added h \<lparr>tc_agent_id = a, tc_initial_sats = sq_seed_sats req\<rparr> 1 rec (fst s) (snd s) (fst s')
           \<and> tenant_record_of a (fst s') = Some rec \<and> npub = tr_frost_npub rec \<and> term = tr_lease_term rec)
    | _ \<Rightarrow> without_all {} (fst s) (fst s')"
  using handle_event_cases [OF assms(1)]
proof cases
  case 1
  then show ?thesis by (cases out) auto
next
  case g: (2 req)
  show ?thesis using reserve_and_launch_cases [OF g(2)]
  proof cases
    case 1
    then show ?thesis by (cases out) auto
  next
    case (2 rec resv)
    have new: "\<not> ledger_launched (cs_ledger st) (sq_agent_id req)"
      using 2(2,3) sled_ledger.reserve_answer [OF assms(3), of rio "sq_agent_id req" resv] by simp
    note l = supervisor_launched [OF 2(1) assms(2)]
    have "sk_tenant_count (supervisor_sink h) s = tenant_count (fst s)" by (simp add: supervisor_sink_def)
    then show ?thesis using g(1) 2(4) new l added_facts(4) [OF l(1)]
      by (simp, intro exI [of _ req] exI [of _ rec] conjI, simp_all)
  next
    case (3 e resv)
    then show ?thesis using supervisor_failed [OF 3(1) assms(2)] by simp
  qed
qed

section \<open>The rate\<close>

text \<open>A sequence of requests at the authorizer, with the answers.\<close>

fun authorize_all :: "allowlist_authorizer \<Rightarrow> rate_map \<Rightarrow> (string \<times> u64) list \<Rightarrow> (string \<times> u64 \<times> spawn_decision) list" where
  "authorize_all az recent [] = []"
| "authorize_all az recent ((r, now) # calls) =
     (case authorize az r now recent of (d, recent') \<Rightarrow> (r, now, d) # authorize_all az recent' calls)"

text \<open>The spawns a requester was granted between two moments.\<close>

definition granted :: "string \<Rightarrow> nat \<Rightarrow> nat \<Rightarrow> (string \<times> u64 \<times> spawn_decision) list \<Rightarrow> nat" where
  "granted r t1 t2 answers = length (filter (\<lambda>(q, t, d). q = r \<and> d = Allow \<and> t1 \<le> unat t \<and> unat t < t2) answers)"

lemma granted_Cons: "granted r t1 t2 ((q, t, d) # as) =
    (if q = r \<and> d = Allow \<and> t1 \<le> unat t \<and> unat t < t2 then 1 else 0) + granted r t1 t2 as"
  by (simp add: granted_def)

lemma granted_late:
  assumes "\<forall>(q, t)\<in>set calls. t2 \<le> unat t" shows "granted r t1 t2 (authorize_all az recent calls) = 0"
  using assms by (induction calls arbitrary: recent) (auto simp: granted_Cons granted_def [of r t1 t2 "[]"] split: prod.splits)

text \<open>The bookkeeping of one requester: \<open>n\<close> grants so far in \<open>[t1, t1 + w)\<close>, the last call at \<open>lo\<close>.\<close>

definition rate_inv :: "allowlist_authorizer \<Rightarrow> string \<Rightarrow> nat \<Rightarrow> nat \<Rightarrow> nat \<Rightarrow> rate_map \<Rightarrow> bool" where
  "rate_inv az r t1 lo n recent \<longleftrightarrow> (lo < t1 \<longrightarrow> n = 0) \<and>
     (case recent r of
        None \<Rightarrow> n = 0
      | Some (start, used) \<Rightarrow> unat used \<le> unat (aa_max_per_window az) \<and> unat start \<le> lo
          \<and> n \<le> (if unat start < t1 then unat used else unat (aa_max_per_window az) + unat used))"

lemma rate_step:
  assumes inv: "rate_inv az r t1 lo n recent" and lo: "lo \<le> unat now" "unat now < t1 + unat (aa_window_secs az)"
    and a: "authorize az q now recent = (d, recent')"
  shows "rate_inv az r t1 (unat now) (n + (if q = r \<and> d = Allow \<and> t1 \<le> unat now then 1 else 0)) recent'"
proof (cases "q = r \<and> (aa_allowed az = [] \<or> r \<in> set (aa_allowed az))")
  case False
  then have "(q = r \<longrightarrow> d \<noteq> Allow) \<and> recent' r = recent r"
    using a by (auto simp: authorize_def Let_def split: if_splits option.splits)
  then show ?thesis using inv lo(1) by (auto simp: rate_inv_def split: option.splits)
next
  case True
  let ?m = "unat (aa_max_per_window az)" and ?w = "aa_window_secs az"
  define e where "e = (case recent r of None \<Rightarrow> (now, 0) | Some e \<Rightarrow> e)"
  define f where "f = (if ?w \<le> saturating_sub now (fst e) then (now, 0) else e)"
  have e: "unat (snd e) \<le> ?m" "unat (fst e) \<le> unat now" "n \<le> (if unat (fst e) < t1 then unat (snd e) else ?m + unat (snd e))"
    using inv lo(1) by (auto simp: rate_inv_def e_def split: option.splits)
  have early: "unat now < t1 \<Longrightarrow> n = 0" using inv lo(1) by (auto simp: rate_inv_def)
  have f: "unat (snd f) \<le> ?m" "unat (fst f) \<le> unat now" "n \<le> (if unat (fst f) < t1 then unat (snd f) else ?m + unat (snd f))"
  proof -
    show "unat (snd f) \<le> ?m" "unat (fst f) \<le> unat now" using e by (auto simp: f_def)
    show "n \<le> (if unat (fst f) < t1 then unat (snd f) else ?m + unat (snd f))"
    proof (cases "?w \<le> saturating_sub now (fst e)")
      case True
      then have "unat ?w \<le> unat now - unat (fst e)" by (simp add: word_le_nat_alt unat_saturating_sub)
      then have "unat (fst e) < t1 \<or> unat now < t1 \<or> unat ?w = 0" using lo(2) by linarith
      then show ?thesis using e(1,3) early lo(2) True by (auto simp: f_def split: if_splits)
    next
      case False
      then have "f = e" by (simp add: f_def)
      then show ?thesis using e(3) by (simp only:)
    qed
  qed
  have d: "(d, recent') = (if aa_max_per_window az \<le> snd f
      then (Deny (''rate limit: '' @ show_word (snd f) @ '' spawns within '' @ show_word ?w @ ''s for '' @ r), recent(r \<mapsto> f))
      else (Allow, recent(r \<mapsto> (fst f, snd f + 1))))"
    using a True by (auto simp: authorize_def Let_def e_def f_def)
  show ?thesis
  proof (cases "aa_max_per_window az \<le> snd f")
    case full: True
    with d f early show ?thesis by (simp add: rate_inv_def) (cases f, auto)
  next
    case nf: False
    then have lt: "unat (snd f) < ?m" by (simp add: word_le_nat_alt)
    then have "unat (snd f) + unat (1 :: u32) < 2 ^ LENGTH(32)" using unat_lt_pow [of "aa_max_per_window az"] by simp
    then have "unat (snd f + 1) = unat (snd f) + 1" using unat_add_exact [of "snd f" 1] by simp
    moreover have "d = Allow" "recent' r = Some (fst f, snd f + 1)" using d nf by simp_all
    ultimately show ?thesis using f lt early True by (auto simp: rate_inv_def)
  qed
qed

lemma rate_steps:
  assumes "sorted_wrt (\<lambda>a b. snd a \<le> snd b) calls" "\<forall>(q, t)\<in>set calls. lo \<le> unat t" "rate_inv az r t1 lo n recent"
  shows "n + granted r t1 (t1 + unat (aa_window_secs az)) (authorize_all az recent calls) \<le> 2 * unat (aa_max_per_window az)"
  using assms
proof (induction calls arbitrary: lo n recent)
  case Nil
  then show ?case by (auto simp: rate_inv_def granted_def split: option.splits if_splits)
next
  case (Cons c calls)
  obtain q now where c: "c = (q, now)" by fastforce
  obtain d recent' where a: "authorize az q now recent = (d, recent')" by fastforce
  let ?t2 = "t1 + unat (aa_window_secs az)"
  show ?case
  proof (cases "unat now < ?t2")
    case True
    have lo: "lo \<le> unat now" and later: "\<forall>(q, t)\<in>set calls. unat now \<le> unat t"
      using Cons.prems(1,2) c by (auto simp: word_le_nat_alt)
    from Cons.IH [OF _ later rate_step [OF Cons.prems(3) lo True a]] Cons.prems(1) show ?thesis
      using True by (simp add: c a granted_Cons add.assoc conj_commute conj_left_commute)
  next
    case False
    then have "\<forall>(q, t)\<in>set (c # calls). ?t2 \<le> unat t" using Cons.prems(1) c by (auto simp: word_le_nat_alt)
    then have "granted r t1 ?t2 (authorize_all az recent (c # calls)) = 0" by (rule granted_late)
    then show ?thesis using Cons.prems(3) by (auto simp: rate_inv_def split: option.splits if_splits)
  qed
qed

text \<open>C27: The rate is bounded. While the clock does not run backwards, no requester is granted more than twice the
  configured number of spawns within any stretch of time as long as the window, however many requesters there are and whatever they ask; a
  requester that a non-empty allowlist does not name is granted none.\<close>

theorem rate_bounded:
  assumes "sorted_wrt (\<lambda>a b. snd a \<le> snd b) calls"
  shows "granted r t1 (t1 + unat (aa_window_secs az)) (authorize_all az (\<lambda>_. None) calls)
      \<le> (if aa_allowed az \<noteq> [] \<and> r \<notin> set (aa_allowed az) then 0 else 2 * unat (aa_max_per_window az))"
proof (cases "aa_allowed az \<noteq> [] \<and> r \<notin> set (aa_allowed az)")
  case True
  have "granted r t1 t2 (authorize_all az recent calls) = 0" for t2 recent
    using True by (induction calls arbitrary: recent) (auto simp: granted_Cons granted_def [of r t1 t2 "[]"] authorize_def split: prod.splits)
  with True show ?thesis by simp
next
  case False
  with rate_steps [OF assms, of 0 az r t1 0 "\<lambda>_. None"] show ?thesis by (auto simp: rate_inv_def)
qed

theorem rate_bounded_witness:
  "granted ''r'' 0 (0 + unat (60 :: u64)) (authorize_all \<lparr>aa_allowed = [], aa_max_per_window = 1, aa_window_secs = 60\<rparr> (\<lambda>_. None)
     [(''r'', 0), (''r'', 1), (''r'', 2)]) \<le> 2"
proof -
  let ?az = "\<lparr>aa_allowed = [], aa_max_per_window = 1, aa_window_secs = 60\<rparr>"
  have "sorted_wrt (\<lambda>a b. snd a \<le> snd b) [(''r'', 0), (''r'', 1), (''r'', 2 :: u64)]" by simp
  from rate_bounded [OF this, of "''r''" 0 ?az] show ?thesis by simp
qed

section \<open>Lives of the control plane\<close>

definition plane_ok :: "'w host \<Rightarrow> 'c control_plane \<Rightarrow> bool" where
  "plane_ok h cp \<longleftrightarrow> fleet_ok h (cp_supervisor cp) \<and> tree_ok (cs_ledger (cp_consumer cp))"

lemma first_admitted_Some:
  "first_admitted admit vs = Some (a, t) \<Longrightarrow> \<exists>v\<in>set vs. admit v = Admit \<and> a = tv_agent_id v \<and> t = tv_beat_term v"
  by (induction vs) (auto split: takeover_admission.splits)

lemma admit_takeover_iff:
  "admit_takeover cn fence a keystore_loadable img tenants = Admit \<longleftrightarrow>
     keystore_loadable \<and> tenants < sn_max_tenants cn \<and> img \<in> set (sn_image_allowlist cn) \<and> fence_conflict fence a = None"
  by (auto simp: admit_takeover_def split: option.splits)

lemma handle_event_ledger:
  assumes "handle_event env cn (supervisor_sink h) fence rio cio event now st s = (out, st', s')" "tree_ok (cs_ledger st)" "fleet_ok h (fst s)"
  shows "tree_ok (cs_ledger st')"
    and "ledger_launched (cs_ledger st) a \<Longrightarrow> ledger_launched (cs_ledger st') a \<and> out \<noteq> Launched a n t"
proof -
  note ok = sled_ledger.reserve_ok [OF assms(2)]
  have "tree_ok (cs_ledger st') \<and> (ledger_launched (cs_ledger st) a \<longrightarrow> ledger_launched (cs_ledger st') a \<and> out \<noteq> Launched a n t)"
    using handle_event_cases [OF assms(1)]
  proof cases
    case 1
    then show ?thesis using assms(2) by simp
  next
    case g: (2 req)
    let ?l = "snd (ledger_reserve rio (sq_agent_id req) (cs_ledger st))"
    have keeps: "ledger_launched ?l b \<longleftrightarrow> ledger_launched (cs_ledger st) b" for b by (rule sled_ledger.reserve_keeps [OF assms(2)])
    show ?thesis using reserve_and_launch_cases [OF g(2)]
    proof cases
      case 1
      then show ?thesis using ok keeps by simp
    next
      case (2 rec resv)
      have "\<not> ledger_launched (cs_ledger st) (sq_agent_id req)"
        using 2(2,3) sled_ledger.reserve_answer [OF assms(2), of rio "sq_agent_id req" resv] by simp
      then show ?thesis using 2(4,5) sled_ledger.finalize_ok [OF ok] sled_ledger.finalize_keeps [OF ok] keeps
          supervisor_launched(2) [OF 2(1) assms(3)] by auto
    next
      case (3 e resv)
      have "\<not> ledger_launched (cs_ledger st) (sq_agent_id req)"
        using 3(2,3) sled_ledger.reserve_answer [OF assms(2), of rio "sq_agent_id req" resv] by simp
      then show ?thesis using 3(4,5) sled_ledger.release_ok [OF ok] keeps [of a]
          sled_ledger.release_keeps [OF ok, of a "sq_agent_id req" cio] by (cases "a = sq_agent_id req") auto
    qed
  qed
  then show "tree_ok (cs_ledger st')"
    and "ledger_launched (cs_ledger st) a \<Longrightarrow> ledger_launched (cs_ledger st') a \<and> out \<noteq> Launched a n t" by simp_all
qed

text \<open>What one scan does: nothing to the tenants, or a launch of an admitted verdict.\<close>

lemma scan_cases:
  assumes s: "failover_scan_tick h loadable cfg max_tenants now fnow cp w = (cp', w')" and ok: "fleet_ok h (cp_supervisor cp)"
  obtains "without_all {} (cp_supervisor cp) (cp_supervisor cp')" "fleet_ok h (cp_supervisor cp')"
      "cp_consumer cp' = cp_consumer cp" "cp_observer cp' = cp_observer cp"
  | v rec where "v \<in> set (fst (detect_takeovers (observed_snapshot (cp_observer cp)) (flo_node_id (cp_observer cp))
         (set (live_agent_ids (cp_supervisor cp))) now LEASE_TTL_SECS (sc_takeover_grace_secs cfg) (sc_failover_max_lease_age_secs cfg) (cp_grace_state cp)))"
      "admit_verdict h loadable cfg max_tenants fnow cp w v = Admit"
      "added h \<lparr>tc_agent_id = tv_agent_id v, tc_initial_sats = default_tenant_initial_sats\<rparr> (tv_beat_term v) rec (cp_supervisor cp) w (cp_supervisor cp')"
      "\<And>t. (tv_agent_id v, t) \<in> set (cp_takeover_backoff cp) \<Longrightarrow> DEFAULT_TAKEOVER_FAIL_BACKOFF_SECS \<le> saturating_sub now t"
      "fleet_ok h (cp_supervisor cp')" "cp_consumer cp' = cp_consumer cp" "cp_observer cp' = cp_observer cp"
proof -
  obtain verdicts grace where d: "detect_takeovers (observed_snapshot (cp_observer cp)) (flo_node_id (cp_observer cp))
         (set (live_agent_ids (cp_supervisor cp))) now LEASE_TTL_SECS (sc_takeover_grace_secs cfg) (sc_failover_max_lease_age_secs cfg) (cp_grace_state cp) = (verdicts, grace)"
    by fastforce
  define backoff where "backoff = filter (\<lambda>(a, last_fail). saturating_sub now last_fail < DEFAULT_TAKEOVER_FAIL_BACKOFF_SECS) (cp_takeover_backoff cp)"
  define vs where "vs = drop_backed_off_verdicts verdicts backoff now DEFAULT_TAKEOVER_FAIL_BACKOFF_SECS"
  note s' = s [unfolded failover_scan_tick_def Let_def d, simplified, folded backoff_def, folded vs_def]
  show ?thesis
  proof (cases "first_admitted (admit_verdict h loadable cfg max_tenants fnow cp w) vs")
    case None
    with s' that(1) ok show ?thesis by auto
  next
    case (Some at)
    then obtain v where v: "v \<in> set vs" "admit_verdict h loadable cfg max_tenants fnow cp w v = Admit" "at = (tv_agent_id v, tv_beat_term v)"
      using first_admitted_Some by (metis prod.exhaust)
    obtain r sv w2 where l: "launch_one_at_term h \<lparr>tc_agent_id = tv_agent_id v, tc_initial_sats = default_tenant_initial_sats\<rparr> (tv_beat_term v) (cp_supervisor cp) w = (r, sv, w2)"
      by (metis prod.exhaust)
    note does = launch_does [OF l ok]
    have in_v: "v \<in> set verdicts" using v(1) by (auto simp: vs_def drop_backed_off_verdicts_def)
    have off: "DEFAULT_TAKEOVER_FAIL_BACKOFF_SECS \<le> saturating_sub now t" if "(tv_agent_id v, t) \<in> set (cp_takeover_backoff cp)" for t
    proof (rule ccontr)
      assume "\<not> ?thesis"
      then have "(tv_agent_id v, t) \<in> set backoff" using that by (auto simp: backoff_def)
      then obtain t' where "tget backoff (tv_agent_id v) = Some t'" by (metis not_Some_eq tget_notin fst_conv image_eqI)
      moreover from this have "(tv_agent_id v, t') \<in> set backoff" by (induction backoff) (auto split: if_splits)
      then have "saturating_sub now t' < DEFAULT_TAKEOVER_FAIL_BACKOFF_SECS" by (simp add: backoff_def)
      ultimately show False using v(1) by (auto simp: vs_def drop_backed_off_verdicts_def dest: leD)
    qed
    show ?thesis
    proof (cases r)
      case (Inl e)
      with s' Some v(3) l have "cp_supervisor cp' = sv" "cp_consumer cp' = cp_consumer cp" "cp_observer cp' = cp_observer cp" by auto
      then show ?thesis using that(1) does Inl by auto
    next
      case (Inr rec)
      with s' Some v(3) l have "cp_supervisor cp' = sv" "cp_consumer cp' = cp_consumer cp" "cp_observer cp' = cp_observer cp" by auto
      then show ?thesis using that(2) [of v rec] does Inr in_v d v(2) off by auto
    qed
  qed
qed

lemma on_event_ok:
  assumes "on_event le se h cfg max_tenants event now fnow cp w = (out, cp', w')" "plane_ok h cp"
  shows "plane_ok h cp'"
    and "ledger_launched (cs_ledger (cp_consumer cp)) a \<Longrightarrow> ledger_launched (cs_ledger (cp_consumer cp')) a \<and> out \<noteq> Some (Launched a n t)"
    and "tenant_count (cp_supervisor cp') \<le> max max_tenants (tenant_count (cp_supervisor cp))"
proof -
  have ok: "fleet_ok h (cp_supervisor cp)" "tree_ok (cs_ledger (cp_consumer cp))" using assms(2) by (simp_all add: plane_ok_def)
  have "plane_ok h cp' \<and> (ledger_launched (cs_ledger (cp_consumer cp)) a \<longrightarrow> ledger_launched (cs_ledger (cp_consumer cp')) a \<and> out \<noteq> Some (Launched a n t))
      \<and> tenant_count (cp_supervisor cp') \<le> max max_tenants (tenant_count (cp_supervisor cp))"
  proof (cases "rv_kind event = KIND_KIRBY_SPAWN_REQUEST \<and> rv_kind event \<noteq> KIND_KIRBY_LEASE")
    case False
    then show ?thesis using assms by (auto simp: on_event_def plane_ok_def split: if_splits)
  next
    case True
    obtain rio w1 where r: "ho_ledger_io h w = (rio, w1)" by fastforce
    obtain cio w2 where c: "ho_ledger_io h w1 = (cio, w2)" by fastforce
    obtain x st s where e: "handle_event se (spawn_consumer_of cfg max_tenants) (supervisor_sink h) (fence_of (cp_observer cp) fnow) rio cio event now
        (cp_consumer cp) (cp_supervisor cp, w2) = (x, st, s)" by (metis prod.exhaust)
    have res: "out = Some x" "cp' = cp\<lparr>cp_consumer := st, cp_supervisor := fst s\<rparr>"
      using assms(1) True r c e by (auto simp: on_event_def split: prod.splits)
    have ok2: "fleet_ok h (fst (cp_supervisor cp, w2))" using ok(1) by simp
    note l = handle_event_ledger [OF e ok(2) ok2]
    have "fleet_ok h (fst s)" by (rule supervisor.handle_event_ok [OF e ok2])
    moreover have "tenant_count (fst s) \<le> max max_tenants (tenant_count (cp_supervisor cp))"
      using supervisor.capacity_kept [OF e ok2] by (simp add: supervisor_sink_def spawn_consumer_of_def)
    ultimately show ?thesis using l res by (auto simp: plane_ok_def)
  qed
  then show "plane_ok h cp'"
    and "ledger_launched (cs_ledger (cp_consumer cp)) a \<Longrightarrow> ledger_launched (cs_ledger (cp_consumer cp')) a \<and> out \<noteq> Some (Launched a n t)"
    and "tenant_count (cp_supervisor cp') \<le> max max_tenants (tenant_count (cp_supervisor cp))" by simp_all
qed

lemma count_of_tracked:
  assumes "fleet_ok h sv" "fleet_ok h sv'" "tracked sv' \<subseteq> tracked sv"
  shows "tenant_count sv' \<le> tenant_count sv"
  using assms(3) by (simp add: tenant_count_card [OF assms(1)] tenant_count_card [OF assms(2)] card_mono tracked_keys [symmetric])

lemma scan_ok:
  assumes s: "failover_scan_tick h loadable cfg max_tenants now fnow cp w = (cp', w')" and ok: "plane_ok h cp"
  shows "plane_ok h cp'" "cp_consumer cp' = cp_consumer cp"
    "tenant_count (cp_supervisor cp') \<le> max max_tenants (tenant_count (cp_supervisor cp))"
proof -
  have f: "fleet_ok h (cp_supervisor cp)" using ok by (simp add: plane_ok_def)
  have "plane_ok h cp' \<and> cp_consumer cp' = cp_consumer cp
      \<and> tenant_count (cp_supervisor cp') \<le> max max_tenants (tenant_count (cp_supervisor cp))"
    using scan_cases [OF s f]
  proof cases
    case 1
    have "tracked (cp_supervisor cp') \<subseteq> tracked (cp_supervisor cp)" using without_all_facts(2) [OF 1(1)] by simp
    from count_of_tracked [OF f 1(2) this] 1 ok show ?thesis by (simp add: plane_ok_def)
  next
    case (2 v rec)
    note a = added_facts(3) [OF 2(3)]
    have "tenant_count (cp_supervisor cp) < max_tenants"
      using 2(2) by (simp add: admit_verdict_def admit_takeover_iff spawn_consumer_of_def)
    moreover have "tenant_count (cp_supervisor cp') \<le> Suc (tenant_count (cp_supervisor cp))"
    proof -
      have "finite (tracked (cp_supervisor cp))" by (simp add: tracked_keys [symmetric])
      then show ?thesis unfolding tenant_count_card [OF f] tenant_count_card [OF 2(5)] a by (simp add: card_insert_if)
    qed
    ultimately show ?thesis using 2 ok by (simp add: plane_ok_def)
  qed
  then show "plane_ok h cp'" "cp_consumer cp' = cp_consumer cp"
    "tenant_count (cp_supervisor cp') \<le> max max_tenants (tenant_count (cp_supervisor cp))" by simp_all
qed

lemma reap_ok:
  assumes r: "reap_tick h cp w = (cp', w')" and ok: "plane_ok h cp"
  shows "plane_ok h cp'" "cp_consumer cp' = cp_consumer cp" "tenant_count (cp_supervisor cp') \<le> tenant_count (cp_supervisor cp)"
proof -
  have f: "fleet_ok h (cp_supervisor cp)" using ok by (simp add: plane_ok_def)
  obtain recs sv where d: "reap_dead h (cp_supervisor cp) w = (recs, sv, w')" and cp': "cp' = cp\<lparr>cp_supervisor := sv\<rparr>"
    using r by (auto simp: reap_tick_def split: prod.splits)
  note does = reap_dead_does [OF d f]
  have "tracked sv \<subseteq> tracked (cp_supervisor cp)" using without_all_facts(2) [OF does(1)] by auto
  from count_of_tracked [OF f does(2) this]
  show "plane_ok h cp'" "cp_consumer cp' = cp_consumer cp" "tenant_count (cp_supervisor cp') \<le> tenant_count (cp_supervisor cp)"
    using ok does(2) by (simp_all add: cp' plane_ok_def)
qed

lemma plane_run_ok:
  assumes "plane_run le se h loadable cfg max_tenants cp0 outs cp" "plane_ok h cp0"
  shows "plane_ok h cp \<and> tenant_count (cp_supervisor cp) \<le> max max_tenants (tenant_count (cp_supervisor cp0))
    \<and> (ledger_launched (cs_ledger (cp_consumer cp0)) a \<longrightarrow> ledger_launched (cs_ledger (cp_consumer cp)) a \<and> (\<forall>n t. Launched a n t \<notin> set outs))"
  using assms(1)
proof induction
  case pr_start
  then show ?case using assms(2) by simp
next
  case (pr_reap outs cp w cp' w')
  then have ok: "plane_ok h cp" by simp
  note e = reap_ok [OF pr_reap(2) ok]
  then show ?case using pr_reap(3) by simp
next
  case (pr_scan outs cp now fnow w cp' w')
  then have ok: "plane_ok h cp" by simp
  note e = scan_ok [OF pr_scan(2) ok]
  have "tenant_count (cp_supervisor cp') \<le> max max_tenants (tenant_count (cp_supervisor cp0))" using e(3) pr_scan(3) by linarith
  then show ?case using e(1,2) pr_scan(3) by simp
next
  case (pr_event outs cp event now fnow w out cp' w')
  then have ok: "plane_ok h cp" by simp
  note e = on_event_ok [OF pr_event(2) ok]
  have "tenant_count (cp_supervisor cp') \<le> max max_tenants (tenant_count (cp_supervisor cp0))"
    using e(3) pr_event(3) by linarith
  then show ?case using e(1) e(2) [of a] pr_event(3) by (cases out) auto
qed

text \<open>C20: An agent is spawned once. After a spawn request made this node launch an agent and the ledger recorded it, no later spawn
  request launches it again, however long the loop runs, whoever asks, however often the agent died and was reaped or
  taken over, and whatever storage does: a retained request never resurrects an agent.\<close>

theorem spawned_once:
  assumes "plane_ok h cp" and "on_event le se h cfg max_tenants event now fnow cp w = (Some (Launched a npub term), cp1, w1)"
    and "fst (ho_ledger_io h (snd (ho_ledger_io h w))) = Ledger_Ok"
    and "plane_run le se h loadable cfg max_tenants cp1 outs cp2"
  shows "Launched a npub' term' \<notin> set outs \<and> tget (cs_ledger (cp_consumer cp2)) a = Some SPAWN_STATE_LAUNCHED"
proof -
  have ok: "fleet_ok h (cp_supervisor cp)" "tree_ok (cs_ledger (cp_consumer cp))" using assms(1) by (simp_all add: plane_ok_def)
  obtain rio w1' where r: "ho_ledger_io h w = (rio, w1')" by fastforce
  obtain cio w2 where c: "ho_ledger_io h w1' = (cio, w2)" by fastforce
  obtain x st s where e: "handle_event se (spawn_consumer_of cfg max_tenants) (supervisor_sink h) (fence_of (cp_observer cp) fnow) rio cio event now
        (cp_consumer cp) (cp_supervisor cp, w2) = (x, st, s)" by (metis prod.exhaust)
  have x: "x = Launched a npub term" "cp1 = cp\<lparr>cp_consumer := st, cp_supervisor := fst s\<rparr>"
    using assms(2) r c e by (auto simp: on_event_def split: if_splits prod.splits)
  have cio: "cio = Ledger_Ok" using assms(3) r c by simp
  have ok2: "fleet_ok h (fst (cp_supervisor cp, w2))" using ok(1) by simp
  have "ledger_launched (cs_ledger st) a" using handle_event_cases [OF e]
  proof cases
    case 1
    then show ?thesis using x(1) 1(3) [of a npub "term"] by simp
  next
    case g: (2 req)
    show ?thesis using reserve_and_launch_cases [OF g(2)]
    proof cases
      case 1
      then show ?thesis using x(1) 1(3) [of a npub "term"] by simp
    next
      case (2 rec resv)
      have "a = sq_agent_id req" using 2(4) x(1) supervisor_launched(2) [OF 2(1) ok2] by simp
      then show ?thesis using 2(5) cio sled_ledger.finalize_records [OF sled_ledger.reserve_ok [OF ok(2)], of Ledger_Ok]
        by (simp add: ledger_finalize_def)
    qed (use x(1) in simp_all)
  qed
  moreover have "plane_ok h cp1" by (rule on_event_ok(1) [OF assms(2,1)])
  ultimately show ?thesis using plane_run_ok [OF assms(4), of a] x(2) by (simp add: ledger_launched_def)
qed

text \<open>C26: A node stays within its capacity. Over every run of the loop, with spawn requests, takeovers and reaps in any order,
  the node never tracks more tenants than the configured ceiling, or than it started with if those were more; and every
  tracked tenant keeps holding its own slot.\<close>

theorem node_within_capacity:
  assumes "plane_run le se h loadable cfg max_tenants cp0 outs cp" and "plane_ok h cp0"
  shows "tenant_count (cp_supervisor cp) \<le> max max_tenants (tenant_count (cp_supervisor cp0)) \<and> fleet_ok h (cp_supervisor cp)"
  using plane_run_ok [OF assms] by (simp add: plane_ok_def)

lemma tget_map: "tget (map (\<lambda>(k, v). (k, f v)) t) j = map_option f (tget t j)"
  by (induction t) auto

lemma tget_snapshot: "tget (observed_snapshot obs) a = map_option record_of (tget (flo_observed obs) a)"
  by (simp add: observed_snapshot_def tget_map)

text \<open>C21: A takeover is justified. If a failover scan makes the node track a new agent, it is that one agent only, and: this
  node's view of the fleet is live; the agent's last lease ran out and is not a ghost, and was seen stale for the whole grace window; no
  other node's fresh lease is on it; no takeover of it failed within the back-off; this node holds its keyset, has
  room, and its own image is staged; the agent was launched under exactly the next term, and, with the read-after-write fence, after
  the relay confirmed this node at that term.\<close>

theorem takeover_justified:
  assumes s: "failover_scan_tick h loadable cfg max_tenants now fnow cp w = (cp', w')" and ok: "plane_ok h cp"
    and obs: "tree_ok (flo_observed (cp_observer cp))" and self: "flo_node_id (cp_observer cp) = fs_node_id (cp_supervisor cp)"
    and new: "a \<in> tracked (cp_supervisor cp')" "a \<notin> tracked (cp_supervisor cp)"
  shows "tracked (cp_supervisor cp') = insert a (tracked (cp_supervisor cp))
    \<and> (\<exists>b c. tget (flo_observed (cp_observer cp)) b = Some c \<and> unat now \<le> unat (lc_issued_at c) + 30)
    \<and> (\<exists>c rec. tget (flo_observed (cp_observer cp)) a = Some c \<and> unat (lc_issued_at c) + 30 < unat now
         \<and> unat now - unat (lc_issued_at c) \<le> unat (sc_failover_max_lease_age_secs cfg)
         \<and> dwelt (cp_grace_state cp) now (sc_takeover_grace_secs cfg) a
         \<and> tenant_record_of a (cp_supervisor cp') = Some rec
         \<and> added h \<lparr>tc_agent_id = a, tc_initial_sats = default_tenant_initial_sats\<rparr> (lc_term c + 1) rec (cp_supervisor cp) w (cp_supervisor cp')
         \<and> (fs_lease_confirmer (cp_supervisor cp) \<longrightarrow>
              (\<exists>w1 l w2. ho_latest_lease h a w1 = (Inr (Some l), w2) \<and> olr_term l = lc_term c + 1 \<and> olr_holder_node_id l = fs_node_id (cp_supervisor cp))))
    \<and> (\<forall>l. flo_active_lease_for (cp_observer cp) fnow a = Some l \<longrightarrow> al_node_id l = fs_node_id (cp_supervisor cp))
    \<and> (\<forall>t. (a, t) \<in> set (cp_takeover_backoff cp) \<longrightarrow> 60 \<le> unat now - unat t)
    \<and> loadable (keystore_dir_for h (instance_id_for a)) w \<and> tenant_count (cp_supervisor cp) < max_tenants \<and> node_image cfg \<in> set (sc_image_allowlist cfg)"
proof -
  have f: "fleet_ok h (cp_supervisor cp)" using ok by (simp add: plane_ok_def)
  let ?snap = "observed_snapshot (cp_observer cp)"
  have snap: "tree_ok ?snap" using obs by (simp add: tree_ok_def observed_snapshot_def comp_def case_prod_beta)
  from scan_cases [OF s f] show ?thesis
  proof cases
    case 1
    then show ?thesis using new without_all_facts(2) [OF 1(1)] by auto
  next
    case (2 v rec)
    have a: "a = tv_agent_id v" using new added_facts(3) [OF 2(3)] by auto
    obtain vs g where d: "detect_takeovers ?snap (flo_node_id (cp_observer cp)) (set (live_agent_ids (cp_supervisor cp))) now LEASE_TTL_SECS
        (sc_takeover_grace_secs cfg) (sc_failover_max_lease_age_secs cfg) (cp_grace_state cp) = (vs, g)" by fastforce
    have v: "v \<in> set vs" using 2(1) d by simp
    have seeing: "\<not> blind ?snap now LEASE_TTL_SECS" using v d detect_takeovers_blind by fastforce
    have c: "candidate ?snap (set (live_agent_ids (cp_supervisor cp))) now LEASE_TTL_SECS (sc_failover_max_lease_age_secs cfg) a"
      "dwelt (cp_grace_state cp) now (sc_takeover_grace_secs cfg) a" "\<exists>l. tget ?snap a = Some l \<and> tv_beat_term v = olr_term l + 1"
      using takeover_verdict_iff [OF snap seeing d, of v] v a by auto
    then obtain c' where c': "tget (flo_observed (cp_observer cp)) a = Some c'" "tv_beat_term v = lc_term c' + 1"
      "unat (lc_issued_at c') + 30 < unat now" "unat now - unat (lc_issued_at c') \<le> unat (sc_failover_max_lease_age_secs cfg)"
      by (auto simp: candidate_def tget_snapshot record_of_def LEASE_TTL_SECS_def)
    obtain b c2 where live: "tget (flo_observed (cp_observer cp)) b = Some c2" "unat now \<le> unat (lc_issued_at c2) + 30"
      using seeing obs by (auto simp: blind_def observed_snapshot_def record_of_def lease_is_stale_unat LEASE_TTL_SECS_def tget_in_set [symmetric])
    have gates: "loadable (keystore_dir_for h (instance_id_for a)) w" "tenant_count (cp_supervisor cp) < max_tenants"
      "node_image cfg \<in> set (sc_image_allowlist cfg)" "fence_conflict (fence_of (cp_observer cp) fnow) a = None"
      using 2(2) a by (simp_all add: admit_verdict_def admit_takeover_iff spawn_consumer_of_def)
    have fence: "\<forall>l. flo_active_lease_for (cp_observer cp) fnow a = Some l \<longrightarrow> al_node_id l = fs_node_id (cp_supervisor cp)"
      using gates(4) self by (auto simp: fence_conflict_def fence_of_def split: if_splits)
    have off: "\<forall>t. (a, t) \<in> set (cp_takeover_backoff cp) \<longrightarrow> 60 \<le> unat now - unat t"
      using 2(4) a by (auto simp: DEFAULT_TAKEOVER_FAIL_BACKOFF_SECS_def word_le_nat_alt unat_saturating_sub)
    have add: "added h \<lparr>tc_agent_id = a, tc_initial_sats = default_tenant_initial_sats\<rparr> (lc_term c' + 1) rec (cp_supervisor cp) w (cp_supervisor cp')"
      using 2(3) a c'(2) by simp
    have conf: "\<exists>w1 l w2. ho_latest_lease h a w1 = (Inr (Some l), w2) \<and> olr_term l = lc_term c' + 1 \<and> olr_holder_node_id l = fs_node_id (cp_supervisor cp)"
      if "fs_lease_confirmer (cp_supervisor cp)"
    proof -
      obtain x p w4 where "launch_steps h \<lparr>tc_agent_id = a, tc_initial_sats = default_tenant_initial_sats\<rparr> x (lc_term c' + 1) (cp_supervisor cp)
          (snd (ho_io h w)) rec p w4" using add unfolding added_def by blast
      then show ?thesis using that by (auto simp: launch_steps_def confirmed_def)
    qed
    show ?thesis using live c' c(2) gates fence off add conf added_facts(3,4) [OF add] by auto
  qed
qed

section \<open>A small node\<close>

definition sample_request :: spawn_request where
  "sample_request = \<lparr>sq_agent_id = ''x'', sq_genome_config = '''', sq_image_ref = ''i'', sq_seed_sats = 5, sq_requester_pubkey = ''''\<rparr>"

definition sample_spawn_env :: spawn_env where
  "sample_spawn_env = \<lparr>se_verify = (\<lambda>e. True), se_parse = (\<lambda>c. Some sample_request)\<rparr>"

definition sample_event :: relay_event where
  "sample_event = \<lparr>rv_id = '''', rv_pubkey = ''p'', rv_created_at = 0, rv_kind = 31003, rv_tags = [], rv_content = ''{}'', rv_sig = ''''\<rparr>"

definition sample_spawn_config :: spawn_config where
  "sample_spawn_config = spawn_config_default\<lparr>sc_image_allowlist := [''i'']\<rparr>"

definition sample_plane :: "(agent_id, lease_content) tree \<Rightarrow> unit control_plane" where
  "sample_plane leases = \<lparr>cp_supervisor = with_lease_confirmer 2 (sample_supervisor fresh_alloc registry_in_memory),
     cp_consumer = \<lparr>cs_recent = (\<lambda>_. None), cs_ledger = []\<rparr>, cp_observer = \<lparr>flo_node_id = 1, flo_observed = leases\<rparr>,
     cp_grace_state = [(''x'', 60)], cp_takeover_backoff = []\<rparr>"

lemma sample_plane_ok: "plane_ok sample_host (sample_plane leases)"
  using fleet_ok_new [OF fresh_ok, of sample_host 1 sample_fleet_config]
  by (simp add: plane_ok_def sample_plane_def with_lease_confirmer_def sample_supervisor_def fleet_ok_def tracked_ok_def)

lemma sample_gates:
  "gates_passed sample_spawn_env (spawn_consumer_of sample_spawn_config 4) (fence_of \<lparr>flo_node_id = 1, flo_observed = []\<rparr> 7) sample_event 7 (\<lambda>_. None) 0 sample_request"
  by (simp add: gates_passed_def sample_event_def KIND_KIRBY_SPAWN_REQUEST_def sample_spawn_env_def MAX_SPAWN_CONTENT_BYTES_def
      sample_request_def validate_agent_label_def label_char_def in_range_def stale_reject_def spawn_consumer_of_def sample_spawn_config_def
      spawn_config_default_def authorize_def fence_conflict_def fence_of_def flo_active_lease_for_def flo_fresh_active_lease_at_def
      saturating_sub_def checked_sub_def)

text \<open>The request comes off at the small node.\<close>

lemma sample_handled:
  "\<exists>npub st s. handle_event sample_spawn_env (spawn_consumer_of sample_spawn_config 4) (supervisor_sink sample_host)
      (fence_of \<lparr>flo_node_id = 1, flo_observed = []\<rparr> 7) Ledger_Ok Ledger_Ok sample_event 7
      \<lparr>cs_recent = (\<lambda>_. None), cs_ledger = []\<rparr> (cp_supervisor (sample_plane []), []) = (Launched ''x'' npub 1, st, s)"
  by (simp add: handle_event_def parse_and_validate_def sample_event_def KIND_KIRBY_SPAWN_REQUEST_def sample_spawn_env_def
      MAX_SPAWN_CONTENT_BYTES_def sample_request_def validate_agent_label_def label_char_def in_range_def stale_reject_def spawn_consumer_of_def
      sample_spawn_config_def spawn_config_default_def authorize_def fence_conflict_def fence_of_def flo_active_lease_for_def
      flo_fresh_active_lease_at_def saturating_sub_def checked_sub_def seed_fund_def supervisor_sink_def tenant_count_def reserve_and_launch_def
      ledger_reserve_def sample_plane_def with_lease_confirmer_def sample_launch_defs confirm_takeover_win_def)

theorem spawn_gated_witness:
  "\<exists>st s rec. handle_event sample_spawn_env (spawn_consumer_of sample_spawn_config 4) (supervisor_sink sample_host)
      (fence_of \<lparr>flo_node_id = 1, flo_observed = []\<rparr> 7) Ledger_Ok Ledger_Ok sample_event 7
      \<lparr>cs_recent = (\<lambda>_. None), cs_ledger = []\<rparr> (cp_supervisor (sample_plane []), []) = (Launched ''x'' (tr_frost_npub rec) 1, st, s)
     \<and> tenant_record_of ''x'' (fst s) = Some rec"
proof -
  obtain npub st s where e: "handle_event sample_spawn_env (spawn_consumer_of sample_spawn_config 4) (supervisor_sink sample_host)
      (fence_of \<lparr>flo_node_id = 1, flo_observed = []\<rparr> 7) Ledger_Ok Ledger_Ok sample_event 7
      \<lparr>cs_recent = (\<lambda>_. None), cs_ledger = []\<rparr> (cp_supervisor (sample_plane []), []) = (Launched ''x'' npub 1, st, s)"
    using sample_handled by (elim exE) (rule that)
  have ok: "fleet_ok sample_host (fst (cp_supervisor (sample_plane []), []))" using sample_plane_ok by (simp add: plane_ok_def)
  have "tree_ok (cs_ledger \<lparr>cs_recent = (\<lambda>_. None), cs_ledger = []\<rparr>)" by simp
  from spawn_gated [OF e ok this] obtain rec where r: "tenant_record_of ''x'' (fst s) = Some rec" "npub = tr_frost_npub rec" by auto
  show ?thesis by (rule exI [of _ st], rule exI [of _ s], rule exI [of _ rec]) (rule conjI [OF e [unfolded r(2)] r(1)])
qed

definition sample_lease_env :: lease_env where
  "sample_lease_env = \<lparr>hex_encode = id, hex_decode = Some, nip01_event_id_with_tags = (\<lambda>p c k t s. s), xonly_from_slice = Some,
     sig_from_slice = Some, verify_schnorr = (\<lambda>s m p. s = m), lease_to_json = lc_agent_id, lease_from_json = (\<lambda>s. None)\<rparr>"

lemma sample_spawned:
  "\<exists>npub cp w. on_event sample_lease_env sample_spawn_env sample_host sample_spawn_config 4 sample_event 7 7 (sample_plane []) [] = (Some (Launched ''x'' npub 1), cp, w)"
proof -
  obtain npub st s where e: "handle_event sample_spawn_env (spawn_consumer_of sample_spawn_config 4) (supervisor_sink sample_host)
      (fence_of \<lparr>flo_node_id = 1, flo_observed = []\<rparr> 7) Ledger_Ok Ledger_Ok sample_event 7
      \<lparr>cs_recent = (\<lambda>_. None), cs_ledger = []\<rparr> (cp_supervisor (sample_plane []), []) = (Launched ''x'' npub 1, st, s)"
    using sample_handled by (elim exE) (rule that)
  have io: "ho_ledger_io sample_host w = (Ledger_Ok, w)" for w by (simp add: sample_host_def)
  have "cp_consumer (sample_plane []) = \<lparr>cs_recent = (\<lambda>_. None), cs_ledger = []\<rparr>" "cp_observer (sample_plane []) = \<lparr>flo_node_id = 1, flo_observed = []\<rparr>"
    by (simp_all add: sample_plane_def)
  with e show ?thesis
    by (cases s) (simp add: on_event_def io sample_event_def KIND_KIRBY_SPAWN_REQUEST_def KIND_KIRBY_LEASE_def)
qed

theorem spawned_once_witness:
  "\<exists>npub cp w. on_event sample_lease_env sample_spawn_env sample_host sample_spawn_config 4 sample_event 7 7 (sample_plane []) [] = (Some (Launched ''x'' npub 1), cp, w)
     \<and> tget (cs_ledger (cp_consumer cp)) ''x'' = Some SPAWN_STATE_LAUNCHED"
proof -
  obtain npub cp w where e: "on_event sample_lease_env sample_spawn_env sample_host sample_spawn_config 4 sample_event 7 7 (sample_plane []) []
      = (Some (Launched ''x'' npub 1), cp, w)" using sample_spawned by (elim exE) (rule that)
  have "fst (ho_ledger_io sample_host (snd (ho_ledger_io sample_host []))) = Ledger_Ok" by (simp add: sample_host_def)
  from spawned_once [OF sample_plane_ok e this pr_start [where loadable = "\<lambda>d w. True"]] e show ?thesis by blast
qed

theorem node_within_capacity_witness:
  "\<exists>npub cp. plane_run sample_lease_env sample_spawn_env sample_host (\<lambda>d w. True) sample_spawn_config 4 (sample_plane []) [Launched ''x'' npub 1] cp
     \<and> tenant_count (cp_supervisor cp) \<le> 4"
proof -
  obtain npub cp w where e: "on_event sample_lease_env sample_spawn_env sample_host sample_spawn_config 4 sample_event 7 7 (sample_plane []) []
      = (Some (Launched ''x'' npub 1), cp, w)" using sample_spawned by (elim exE) (rule that)
  have r: "plane_run sample_lease_env sample_spawn_env sample_host (\<lambda>d w. True) sample_spawn_config 4 (sample_plane []) [Launched ''x'' npub 1] cp"
    using pr_event [OF pr_start e] by simp
  have "tenant_count (cp_supervisor (sample_plane [])) = 0"
    by (simp add: sample_plane_def with_lease_confirmer_def sample_supervisor_def with_launch_registry_def supervisor_new_def tenant_count_def)
  with node_within_capacity [OF r sample_plane_ok] r show ?thesis by auto
qed

definition sample_leases :: "(agent_id, lease_content) tree" where
  "sample_leases = [(''x'', \<lparr>lc_agent_id = ''x'', lc_holder_node_id = 2, lc_term = 0, lc_issued_at = 5\<rparr>),
     (''y'', \<lparr>lc_agent_id = ''y'', lc_holder_node_id = 2, lc_term = 0, lc_issued_at = 90\<rparr>)]"

lemma sample_verdicts:
  "detect_takeovers (observed_snapshot \<lparr>flo_node_id = 1, flo_observed = sample_leases\<rparr>) 1 {} 100 30 30 300 [(''x'', 60)]
     = ([\<lparr>tv_agent_id = ''x'', tv_beat_term = 1\<rparr>], [(''x'', 60)])"
  by (simp add: detect_takeovers_def observed_snapshot_def sample_leases_def record_of_def lease_is_stale_def saturating_sub_def checked_sub_def)

lemma sample_unheld: "flo_active_lease_for \<lparr>flo_node_id = 1, flo_observed = sample_leases\<rparr> 100 ''x'' = None"
  by (simp add: flo_active_lease_for_def flo_fresh_active_lease_at_def sample_leases_def saturating_sub_def checked_sub_def LEASE_TTL_SECS_def is_stale_def)

lemma sample_takeover:
  "\<exists>cp w. failover_scan_tick sample_host (\<lambda>d w. True) sample_spawn_config 4 100 100 (sample_plane sample_leases) [] = (cp, w)
     \<and> ''x'' \<in> tracked (cp_supervisor cp)"
  by (simp add: failover_scan_tick_def sample_plane_def sample_spawn_config_def spawn_config_default_def LEASE_TTL_SECS_def live_agent_ids_def
      tkeys_def sample_verdicts sample_unheld drop_backed_off_verdicts_def admit_verdict_def admit_takeover_def node_image_def
      spawn_consumer_of_def tenant_count_def fence_of_def fence_conflict_def
      with_lease_confirmer_def sample_launch_defs confirm_takeover_win_def tracked_def)

theorem takeover_justified_witness:
  "\<exists>cp w. failover_scan_tick sample_host (\<lambda>d w. True) sample_spawn_config 4 100 100 (sample_plane sample_leases) [] = (cp, w)
     \<and> tracked (cp_supervisor cp) = {''x''}"
proof -
  obtain cp w where s: "failover_scan_tick sample_host (\<lambda>d w. True) sample_spawn_config 4 100 100 (sample_plane sample_leases) [] = (cp, w)"
    and x: "''x'' \<in> tracked (cp_supervisor cp)" using sample_takeover by blast
  have o: "tree_ok (flo_observed (cp_observer (sample_plane sample_leases)))" by (simp add: sample_plane_def sample_leases_def tree_ok_def)
  have n: "flo_node_id (cp_observer (sample_plane sample_leases)) = fs_node_id (cp_supervisor (sample_plane sample_leases))"
    and e: "tracked (cp_supervisor (sample_plane sample_leases)) = {}"
    by (simp_all add: sample_plane_def with_lease_confirmer_def sample_supervisor_def with_launch_registry_def supervisor_new_def tracked_def)
  from e have "''x'' \<notin> tracked (cp_supervisor (sample_plane sample_leases))" by simp
  from takeover_justified [OF s sample_plane_ok o n x this] s e show ?thesis by auto
qed

end
