(* ===== verification/Keystore.thy ===== *)
theory Keystore
  imports Coordinator
begin

text \<open>
  The keystore an agent is born with (\<open>keyset_provisioning.rs\<close>, the persisted half of \<open>frost_identity.rs\<close> and
  \<open>share_seal.rs\<close>): its files, the two ways its shares are placed, and the loaders. The file system maps paths to
  nodes; every system call takes the next fault of the world, so a call may fail at any point and a write part way
  through. Directories are only told from files. Key generation, the codecs, HKDF and the AEAD are arguments.
\<close>

section \<open>The file system\<close>

datatype ks_node = Regular (node_mode: nat) (node_data: bytes) | Symlink string | Other

datatype io_fault = Io_ok | Io_fail nat

record ks_world =
  kw_fs :: "string \<Rightarrow> ks_node option"
  kw_faults :: "io_fault list"
  kw_draws :: nat

datatype keystore_error =
    Io_error string string
  | Is_symlink string
  | Not_regular string
  | Too_large string nat
  | Bad_data string
  | Not_provisioned string
  | Share_missing u16
  | Established string keystore_error
  | Split_mismatch nat
  | Sink_count nat
  | Sinks_share_label nat nat
  | Sink_failed string keystore_error
  | Identifier_range u16
  | Bad_manifest string
  | Misaligned nat
  | Placement_differs
  | No_anchor string
  | No_factory
  | Signer_error anyhow

text \<open>One step after another, the first error ending it.\<close>

definition ks_then :: "('e + 'a) \<times> 'w \<Rightarrow> ('a \<Rightarrow> 'w \<Rightarrow> ('e + 'b) \<times> 'w) \<Rightarrow> ('e + 'b) \<times> 'w" where
  "ks_then r f = (case r of (Inl e, w) \<Rightarrow> (Inl e, w) | (Inr x, w) \<Rightarrow> f x w)"

definition in_context :: "('e \<Rightarrow> 'f) \<Rightarrow> ('e + 'a) \<times> 'w \<Rightarrow> ('f + 'a) \<times> 'w" where
  "in_context c r = (case r of (Inl e, w) \<Rightarrow> (Inl (c e), w) | (Inr x, w) \<Rightarrow> (Inr x, w))"

definition next_io :: "'z ks_world_scheme \<Rightarrow> io_fault \<times> 'z ks_world_scheme" where
  "next_io w = (case kw_faults w of [] \<Rightarrow> (Io_ok, w) | f # fs \<Rightarrow> (f, w\<lparr>kw_faults := fs\<rparr>))"

text \<open>A call that fails with the next fault or does its work.\<close>

definition sys :: "string \<Rightarrow> string \<Rightarrow> ('z ks_world_scheme \<Rightarrow> (keystore_error + 'a) \<times> 'z ks_world_scheme)
    \<Rightarrow> 'z ks_world_scheme \<Rightarrow> (keystore_error + 'a) \<times> 'z ks_world_scheme" where
  "sys what path f w = (case next_io w of (Io_fail n, w') \<Rightarrow> (Inl (Io_error what path), w') | (Io_ok, w') \<Rightarrow> f w')"

definition set_node :: "string \<Rightarrow> ks_node \<Rightarrow> 'z ks_world_scheme \<Rightarrow> 'z ks_world_scheme" where
  "set_node p n w = w\<lparr>kw_fs := (kw_fs w)(p \<mapsto> n)\<rparr>"

text \<open>Symbolic links of the last component are followed, 40 at most.\<close>

fun resolve :: "nat \<Rightarrow> (string \<Rightarrow> ks_node option) \<Rightarrow> string \<Rightarrow> string option" where
  "resolve 0 fs p = None"
| "resolve (Suc n) fs p = (case fs p of Some (Symlink q) \<Rightarrow> resolve n fs q | _ \<Rightarrow> Some p)"

definition MAXSYMLINKS :: nat where "MAXSYMLINKS = 40"

definition follow :: "string \<Rightarrow> 'z ks_world_scheme \<Rightarrow> string option" where
  "follow p w = resolve (MAXSYMLINKS + 1) (kw_fs w) p"

definition stat_node :: "string \<Rightarrow> 'z ks_world_scheme \<Rightarrow> ks_node option" where
  "stat_node p w = (case follow p w of None \<Rightarrow> None | Some q \<Rightarrow> kw_fs w q)"

text \<open>\<open>Path::is_file\<close>: a failing call answers like a missing file.\<close>

definition path_is_file :: "string \<Rightarrow> 'z ks_world_scheme \<Rightarrow> bool \<times> 'z ks_world_scheme" where
  "path_is_file p w = (case next_io w of
      (Io_fail n, w') \<Rightarrow> (False, w')
    | (Io_ok, w') \<Rightarrow> (case stat_node p w' of Some (Regular m d) \<Rightarrow> True | _ \<Rightarrow> False, w'))"

definition lstat :: "string \<Rightarrow> 'z ks_world_scheme \<Rightarrow> (keystore_error + ks_node option) \<times> 'z ks_world_scheme" where
  "lstat p = sys ''lstat'' p (\<lambda>w. (Inr (kw_fs w p), w))"

definition create_dir_all :: "string \<Rightarrow> 'z ks_world_scheme \<Rightarrow> (keystore_error + unit) \<times> 'z ks_world_scheme" where
  "create_dir_all p = sys ''create_dir_all'' p (\<lambda>w. (Inr (), w))"

definition set_permissions :: "string \<Rightarrow> nat \<Rightarrow> 'z ks_world_scheme \<Rightarrow> (keystore_error + unit) \<times> 'z ks_world_scheme" where
  "set_permissions p m = sys ''chmod'' p (\<lambda>w. case follow p w of
      None \<Rightarrow> (Inl (Io_error ''chmod'' p), w)
    | Some q \<Rightarrow> (case kw_fs w q of
        None \<Rightarrow> (Inl (Io_error ''chmod'' p), w)
      | Some (Regular m' d) \<Rightarrow> (Inr (), set_node q (Regular m d) w)
      | Some n \<Rightarrow> (Inr (), w)))"

definition read_path :: "string \<Rightarrow> 'z ks_world_scheme \<Rightarrow> (keystore_error + bytes) \<times> 'z ks_world_scheme" where
  "read_path p = sys ''read'' p (\<lambda>w. case stat_node p w of
      Some (Regular m d) \<Rightarrow> (Inr d, w)
    | _ \<Rightarrow> (Inl (Io_error ''read'' p), w))"

text \<open>Creating or truncating; an open with \<open>O_NOFOLLOW\<close> refuses a symbolic link.\<close>

definition open_at :: "nat \<Rightarrow> string \<Rightarrow> 'z ks_world_scheme \<Rightarrow> (keystore_error + unit) \<times> 'z ks_world_scheme" where
  "open_at m p w = (case kw_fs w p of
      None \<Rightarrow> (Inr (), set_node p (Regular m []) w)
    | Some (Regular m' d) \<Rightarrow> (Inr (), set_node p (Regular m' []) w)
    | _ \<Rightarrow> (Inl (Io_error ''open'' p), w))"

definition open_nofollow :: "nat \<Rightarrow> string \<Rightarrow> 'z ks_world_scheme \<Rightarrow> (keystore_error + unit) \<times> 'z ks_world_scheme" where
  "open_nofollow m p = sys ''open'' p (open_at m p)"

definition open_follow :: "nat \<Rightarrow> string \<Rightarrow> 'z ks_world_scheme \<Rightarrow> (keystore_error + string) \<times> 'z ks_world_scheme" where
  "open_follow m p = sys ''open'' p (\<lambda>w. case follow p w of
      None \<Rightarrow> (Inl (Io_error ''open'' p), w)
    | Some q \<Rightarrow> ks_then (open_at m q w) (\<lambda>_ w. (Inr q, w)))"

definition put_bytes :: "string \<Rightarrow> bytes \<Rightarrow> 'z ks_world_scheme \<Rightarrow> 'z ks_world_scheme" where
  "put_bytes q d w = (case kw_fs w q of Some (Regular m _) \<Rightarrow> set_node q (Regular m d) w | _ \<Rightarrow> w)"

text \<open>A write to an open file that may stop after some of its bytes.\<close>

definition write_all :: "string \<Rightarrow> bytes \<Rightarrow> 'z ks_world_scheme \<Rightarrow> (keystore_error + unit) \<times> 'z ks_world_scheme" where
  "write_all q d w = (case next_io w of
      (Io_fail n, w') \<Rightarrow> (Inl (Io_error ''write'' q), put_bytes q (take n d) w')
    | (Io_ok, w') \<Rightarrow> (Inr (), put_bytes q d w'))"

definition fs_write :: "string \<Rightarrow> bytes \<Rightarrow> 'z ks_world_scheme \<Rightarrow> (keystore_error + unit) \<times> 'z ks_world_scheme" where
  "fs_write p d w = ks_then (open_follow 420 p w) (\<lambda>q w. write_all q d w)"

definition flush_file :: "string \<Rightarrow> 'z ks_world_scheme \<Rightarrow> (keystore_error + unit) \<times> 'z ks_world_scheme" where
  "flush_file p = sys ''flush'' p (\<lambda>w. (Inr (), w))"

text \<open>Permissions of the open file.\<close>

definition fchmod :: "string \<Rightarrow> nat \<Rightarrow> 'z ks_world_scheme \<Rightarrow> (keystore_error + unit) \<times> 'z ks_world_scheme" where
  "fchmod p m = sys ''fchmod'' p (\<lambda>w. (Inr (), case kw_fs w p of Some (Regular m' d) \<Rightarrow> set_node p (Regular m d) w | _ \<Rightarrow> w))"

section \<open>Files of a keystore\<close>

definition SHARE_COUNT :: u16 where "SHARE_COUNT = 3"
definition MAX_SIGNERS :: u16 where "MAX_SIGNERS = 3"

definition MAX_KEYSTORE_BYTES :: nat where "MAX_KEYSTORE_BYTES = 256 * 1024"
definition MAX_SHARE_BYTES :: nat where "MAX_SHARE_BYTES = 256 * 1024"

definition pubkeys_path :: "string \<Rightarrow> string" where "pubkeys_path dir = dir @ ''/group_pubkeys.json''"

definition share_path :: "string \<Rightarrow> u16 \<Rightarrow> string" where
  "share_path dir idx = dir @ ''/share_'' @ show_word idx @ ''.json''"

definition share_indices :: "u16 list" where "share_indices = [1, 2, 3]"

definition write_file_0600 :: "string \<Rightarrow> bytes \<Rightarrow> 'z ks_world_scheme \<Rightarrow> (keystore_error + unit) \<times> 'z ks_world_scheme" where
  "write_file_0600 path data w =
     ks_then (lstat path w) (\<lambda>node w.
       (case node of
          Some (Symlink q) \<Rightarrow> (Inl (Is_symlink path), w)
        | Some Other \<Rightarrow> (Inl (Not_regular path), w)
        | _ \<Rightarrow>
            ks_then (open_nofollow 384 path w) (\<lambda>_ w.
            ks_then (fchmod path 384 w) (\<lambda>_ w.
            ks_then (write_all path data w) (\<lambda>_ w. flush_file path w)))))"

definition read_share_file :: "string \<Rightarrow> 'z ks_world_scheme \<Rightarrow> (keystore_error + bytes) \<times> 'z ks_world_scheme" where
  "read_share_file path w =
     ks_then (lstat path w) (\<lambda>node w.
       (case node of
          None \<Rightarrow> (Inl (Io_error ''lstat'' path), w)
        | Some (Symlink q) \<Rightarrow> (Inl (Is_symlink path), w)
        | Some Other \<Rightarrow> (Inl (Not_regular path), w)
        | Some (Regular m d) \<Rightarrow>
            if MAX_SHARE_BYTES < length d then (Inl (Too_large path (length d)), w)
            else ks_then (set_permissions path 384 w) (\<lambda>_ w. read_path path w)))"

fun all_files :: "string list \<Rightarrow> 'z ks_world_scheme \<Rightarrow> bool \<times> 'z ks_world_scheme" where
  "all_files [] w = (True, w)"
| "all_files (p # ps) w = (case path_is_file p w of (False, w') \<Rightarrow> (False, w') | (True, w') \<Rightarrow> all_files ps w')"

definition is_provisioned :: "string \<Rightarrow> 'z ks_world_scheme \<Rightarrow> bool \<times> 'z ks_world_scheme" where
  "is_provisioned dir = all_files (pubkeys_path dir # map (share_path dir) share_indices)"

definition has_identity_anchor :: "string \<Rightarrow> 'z ks_world_scheme \<Rightarrow> bool \<times> 'z ks_world_scheme" where
  "has_identity_anchor dir = path_is_file (pubkeys_path dir)"

section \<open>The public identity\<close>

text \<open>The serializations of the FROST crate and of JSON, hex, and the NIP-19 encoding.\<close>

record ('ss, 'kp, 'pk) keystore_codec =
  kn_pk_serialize :: "'pk \<Rightarrow> string + bytes"
  kn_pk_deserialize :: "bytes \<Rightarrow> string + 'pk"
  kn_hex_encode :: "bytes \<Rightarrow> string"
  kn_hex_decode :: "string \<Rightarrow> string + bytes"
  kn_pubkeys_json :: "string \<Rightarrow> string + bytes"
  kn_pubkeys_parse :: "bytes \<Rightarrow> string + string"
  kn_npub_encode :: "bytes \<Rightarrow> string + string"
  kn_try_from :: "'ss \<Rightarrow> string + 'kp"
  kn_kp_json :: "'kp \<Rightarrow> string + bytes"
  kn_kp_parse :: "bytes \<Rightarrow> string + 'kp"

record 'pk frost_identity =
  fi_pubkeys :: 'pk
  fi_q_bytes :: bytes
  fi_npub :: string
  fi_keystore_path :: string

definition from_pubkeys ::
  "('ss, 'kp, 'pk) keystore_codec \<Rightarrow> 'pk curve \<Rightarrow> 'pk \<Rightarrow> string \<Rightarrow> keystore_error + 'pk frost_identity" where
  "from_pubkeys kn cv pubkeys path =
     (case group_xonly_q cv pubkeys of
        Inl e \<Rightarrow> Inl (Bad_data e)
      | Inr q \<Rightarrow> (case kn_npub_encode kn q of
          Inl e \<Rightarrow> Inl (Bad_data e)
        | Inr npub \<Rightarrow> Inr \<lparr>fi_pubkeys = pubkeys, fi_q_bytes = q, fi_npub = npub, fi_keystore_path = path\<rparr>))"

definition decode_pubkeys :: "('ss, 'kp, 'pk) keystore_codec \<Rightarrow> bytes \<Rightarrow> keystore_error + 'pk" where
  "decode_pubkeys kn d =
     (case kn_pubkeys_parse kn d of
        Inl e \<Rightarrow> Inl (Bad_data e)
      | Inr h \<Rightarrow> (case kn_hex_decode kn h of
          Inl e \<Rightarrow> Inl (Bad_data e)
        | Inr b \<Rightarrow> (case kn_pk_deserialize kn b of Inl e \<Rightarrow> Inl (Bad_data e) | Inr pk \<Rightarrow> Inr pk)))"

definition encode_pubkeys :: "('ss, 'kp, 'pk) keystore_codec \<Rightarrow> 'pk \<Rightarrow> keystore_error + bytes" where
  "encode_pubkeys kn pk =
     (case kn_pk_serialize kn pk of
        Inl e \<Rightarrow> Inl (Bad_data e)
      | Inr b \<Rightarrow> (case kn_pubkeys_json kn (kn_hex_encode kn b) of Inl e \<Rightarrow> Inl (Bad_data e) | Inr d \<Rightarrow> Inr d))"

definition frost_identity_load ::
  "('ss, 'kp, 'pk) keystore_codec \<Rightarrow> 'pk curve \<Rightarrow> string \<Rightarrow> 'z ks_world_scheme
     \<Rightarrow> (keystore_error + 'pk frost_identity) \<times> 'z ks_world_scheme" where
  "frost_identity_load kn cv path w =
     ks_then (sys ''stat'' path (\<lambda>w. (Inr (stat_node path w), w)) w) (\<lambda>node w.
       (case node of
          None \<Rightarrow> (Inl (Io_error ''stat'' path), w)
        | Some (Regular m d) \<Rightarrow>
            if MAX_KEYSTORE_BYTES < length d then (Inl (Too_large path (length d)), w)
            else ks_then (read_path path w) (\<lambda>bytes w.
              (case decode_pubkeys kn bytes of
                 Inl e \<Rightarrow> (Inl e, w)
               | Inr pk \<Rightarrow> (from_pubkeys kn cv pk path, w)))
        | Some _ \<Rightarrow> (Inl (Not_regular path), w)))"

definition save_pubkeys ::
  "('ss, 'kp, 'pk) keystore_codec \<Rightarrow> 'pk \<Rightarrow> string \<Rightarrow> 'z ks_world_scheme \<Rightarrow> (keystore_error + unit) \<times> 'z ks_world_scheme" where
  "save_pubkeys kn pk path w =
     ks_then (create_dir_all path w) (\<lambda>_ w.
       (case encode_pubkeys kn pk of Inl e \<Rightarrow> (Inl e, w) | Inr d \<Rightarrow> fs_write path d w))"

section \<open>Provisioning on one host\<close>

definition kp_parse :: "('ss, 'kp, 'pk) keystore_codec \<Rightarrow> bytes \<Rightarrow> keystore_error + 'kp" where
  "kp_parse kn d = (case kn_kp_parse kn d of Inl e \<Rightarrow> Inl (Bad_data e) | Inr kp \<Rightarrow> Inr kp)"

definition kp_bytes :: "('ss, 'kp, 'pk) keystore_codec \<Rightarrow> 'kp \<Rightarrow> keystore_error + bytes" where
  "kp_bytes kn kp = (case kn_kp_json kn kp of Inl e \<Rightarrow> Inl (Bad_data e) | Inr d \<Rightarrow> Inr d)"

text \<open>Each share must be a file that reads and parses; what it holds is dropped.\<close>

fun check_shares ::
  "('ss, 'kp, 'pk) keystore_codec \<Rightarrow> string \<Rightarrow> u16 list \<Rightarrow> 'z ks_world_scheme \<Rightarrow> (keystore_error + unit) \<times> 'z ks_world_scheme" where
  "check_shares kn dir [] w = (Inr (), w)"
| "check_shares kn dir (i # is) w =
     (case path_is_file (share_path dir i) w of
        (False, w') \<Rightarrow> (Inl (Share_missing i), w')
      | (True, w') \<Rightarrow>
          ks_then (read_share_file (share_path dir i) w') (\<lambda>d w.
            (case kp_parse kn d of Inl e \<Rightarrow> (Inl e, w) | Inr kp \<Rightarrow> check_shares kn dir is w)))"

definition assert_shares_loadable ::
  "('ss, 'kp, 'pk) keystore_codec \<Rightarrow> string \<Rightarrow> 'z ks_world_scheme \<Rightarrow> (keystore_error + unit) \<times> 'z ks_world_scheme" where
  "assert_shares_loadable kn dir = check_shares kn dir share_indices"

fun write_shares ::
  "('ss, 'kp, 'pk) keystore_codec \<Rightarrow> string \<Rightarrow> (frost_id, 'kp) tree \<Rightarrow> nat \<Rightarrow> 'z ks_world_scheme
     \<Rightarrow> (keystore_error + nat) \<times> 'z ks_world_scheme" where
  "write_shares kn dir [] written w = (Inr written, w)"
| "write_shares kn dir ((i, kp) # kps) written w =
     (case kp_bytes kn kp of
        Inl e \<Rightarrow> (Inl e, w)
      | Inr d \<Rightarrow> ks_then (write_file_0600 (share_path dir (identifier_to_u16 i)) d w) (\<lambda>_ w. write_shares kn dir kps (written + 1) w))"

text \<open>The dealer's keyset of this spawn as holder packages.\<close>

definition split_keyset ::
  "('ss, 'kp, 'pk) keystore_codec \<Rightarrow> string + ('ss, 'pk) dealer_keyset \<Rightarrow> keystore_error + 'pk \<times> (frost_id, 'kp) tree" where
  "split_keyset kn dealt =
     (case dealt of
        Inl e \<Rightarrow> Inl (Bad_data e)
      | Inr keyset \<Rightarrow> (case key_packages (kn_try_from kn) keyset of
          Inl e \<Rightarrow> Inl (Bad_data ''key packages'')
        | Inr kps \<Rightarrow> Inr (dk_pubkeys keyset, kps)))"

definition anchor_and_identity ::
  "('ss, 'kp, 'pk) keystore_codec \<Rightarrow> 'pk curve \<Rightarrow> string \<Rightarrow> 'pk \<Rightarrow> 'z ks_world_scheme
     \<Rightarrow> (keystore_error + 'pk frost_identity) \<times> 'z ks_world_scheme" where
  "anchor_and_identity kn cv dir pk w =
     ks_then (save_pubkeys kn pk (pubkeys_path dir) w) (\<lambda>_ w.
     ks_then (set_permissions (pubkeys_path dir) 384 w) (\<lambda>_ w. (from_pubkeys kn cv pk (pubkeys_path dir), w)))"

definition first_spawn ::
  "('ss, 'kp, 'pk) keystore_codec \<Rightarrow> 'pk curve \<Rightarrow> string + ('ss, 'pk) dealer_keyset \<Rightarrow> string \<Rightarrow> 'z ks_world_scheme
     \<Rightarrow> (keystore_error + 'pk frost_identity) \<times> 'z ks_world_scheme" where
  "first_spawn kn cv dealt dir w =
     ks_then (create_dir_all dir w) (\<lambda>_ w.
       (case split_keyset kn dealt of
          Inl e \<Rightarrow> (Inl e, w)
        | Inr (pk, kps) \<Rightarrow>
            ks_then (write_shares kn dir kps 0 w) (\<lambda>written w.
              if written \<noteq> unat SHARE_COUNT then (Inl (Split_mismatch written), w)
              else anchor_and_identity kn cv dir pk w)))"

definition provision_keyset_at ::
  "('ss, 'kp, 'pk) keystore_codec \<Rightarrow> 'pk curve \<Rightarrow> string + ('ss, 'pk) dealer_keyset \<Rightarrow> string \<Rightarrow> 'z ks_world_scheme
     \<Rightarrow> (keystore_error + 'pk frost_identity) \<times> 'z ks_world_scheme" where
  "provision_keyset_at kn cv dealt dir w =
     (case has_identity_anchor dir w of
        (True, w) \<Rightarrow>
          ks_then (in_context (Established ''anchor'') (frost_identity_load kn cv (pubkeys_path dir) w)) (\<lambda>id w.
          ks_then (in_context (Established ''shares'') (assert_shares_loadable kn dir w)) (\<lambda>_ w. (Inr id, w)))
      | (False, w) \<Rightarrow> first_spawn kn cv dealt dir w)"

section \<open>Loading on one host\<close>

fun read_key_packages ::
  "('ss, 'kp, 'pk) keystore_codec \<Rightarrow> string \<Rightarrow> u16 list \<Rightarrow> 'z ks_world_scheme \<Rightarrow> (keystore_error + 'kp list) \<times> 'z ks_world_scheme" where
  "read_key_packages kn dir [] w = (Inr [], w)"
| "read_key_packages kn dir (i # is) w =
     ks_then (read_share_file (share_path dir i) w) (\<lambda>d w.
       (case kp_parse kn d of
          Inl e \<Rightarrow> (Inl e, w)
        | Inr kp \<Rightarrow> ks_then (read_key_packages kn dir is w) (\<lambda>kps w. (Inr (kp # kps), w))))"

definition load_keyset_material_at ::
  "('ss, 'kp, 'pk) keystore_codec \<Rightarrow> 'pk curve \<Rightarrow> string \<Rightarrow> 'z ks_world_scheme \<Rightarrow> (keystore_error + 'kp list \<times> 'pk) \<times> 'z ks_world_scheme" where
  "load_keyset_material_at kn cv dir w =
     (case is_provisioned dir w of
        (False, w) \<Rightarrow> (Inl (Not_provisioned dir), w)
      | (True, w) \<Rightarrow>
          ks_then (frost_identity_load kn cv (pubkeys_path dir) w) (\<lambda>id w.
          ks_then (read_key_packages kn dir share_indices w) (\<lambda>kps w. (Inr (kps, fi_pubkeys id), w))))"

definition load_quorum_signer_at where
  "load_quorum_signer_at kn cv de fr draws dir w =
     ks_then (load_keyset_material_at kn cv dir w) (\<lambda>(kps, pk) w.
       (case from_local_key_packages cv de fr kps pk draws of Inl e \<Rightarrow> (Inl (Signer_error e), w) | Inr qs \<Rightarrow> (Inr qs, w)))"

definition load_group_q_at ::
  "('ss, 'kp, 'pk) keystore_codec \<Rightarrow> 'pk curve \<Rightarrow> string \<Rightarrow> 'z ks_world_scheme \<Rightarrow> (keystore_error + bytes) \<times> 'z ks_world_scheme" where
  "load_group_q_at kn cv dir w =
     ks_then (frost_identity_load kn cv (pubkeys_path dir) w) (\<lambda>id w. (Inr (fi_q_bytes id), w))"

definition keystore_loadable_at :: "('ss, 'kp, 'pk) keystore_codec \<Rightarrow> string \<Rightarrow> 'z ks_world_scheme \<Rightarrow> bool \<times> 'z ks_world_scheme" where
  "keystore_loadable_at kn dir w =
     (case is_provisioned dir w of
        (False, w) \<Rightarrow> (False, w)
      | (True, w) \<Rightarrow> (case assert_shares_loadable kn dir w of (Inl e, w) \<Rightarrow> (False, w) | (Inr _, w) \<Rightarrow> (True, w)))"

section \<open>Sealing a share at rest\<close>

definition SEAL_INFO_PREFIX :: bytes where "SEAL_INFO_PREFIX = ''kirby-frost-share-seal-v1:''"
definition SEAL_AAD_PREFIX :: bytes where "SEAL_AAD_PREFIX = ''kirby-frost-share-seal-v1-aad:''"
definition NONCE_LEN :: nat where "NONCE_LEN = 24"
definition SALT_LEN :: nat where "SALT_LEN = 32"

definition host_key_path :: "string \<Rightarrow> string" where "host_key_path dir = dir @ ''/host.key''"
definition salt_path :: "string \<Rightarrow> string" where "salt_path dir = dir @ ''/seal.salt''"

text \<open>HKDF (salt, key material, info) to 32 bytes, the AEAD, and the system's random bytes by draw.\<close>

record seal_crypto =
  sx_hkdf :: "bytes \<Rightarrow> bytes \<Rightarrow> bytes \<Rightarrow> bytes"
  sx_encrypt :: "bytes \<Rightarrow> bytes \<Rightarrow> bytes \<Rightarrow> bytes \<Rightarrow> bytes option"
  sx_decrypt :: "bytes \<Rightarrow> bytes \<Rightarrow> bytes \<Rightarrow> bytes \<Rightarrow> bytes option"
  sx_random :: "nat \<Rightarrow> nat \<Rightarrow> bytes"

type_synonym 'w machine_binding = "string \<Rightarrow> 'w \<Rightarrow> (keystore_error + bytes) \<times> 'w"

definition rand_fill :: "seal_crypto \<Rightarrow> nat \<Rightarrow> 'z ks_world_scheme \<Rightarrow> bytes \<times> 'z ks_world_scheme" where
  "rand_fill sx n w = (sx_random sx (kw_draws w) n, w\<lparr>kw_draws := kw_draws w + 1\<rparr>)"

definition read_secret_file :: "string \<Rightarrow> 'z ks_world_scheme \<Rightarrow> (keystore_error + bytes) \<times> 'z ks_world_scheme" where
  "read_secret_file path w =
     ks_then (lstat path w) (\<lambda>node w.
       (case node of
          None \<Rightarrow> (Inl (Io_error ''lstat'' path), w)
        | Some (Symlink q) \<Rightarrow> (Inl (Is_symlink path), w)
        | Some Other \<Rightarrow> (Inl (Not_regular path), w)
        | Some (Regular m d) \<Rightarrow> ks_then (set_permissions path 384 w) (\<lambda>_ w. read_path path w)))"

definition write_secret_file_0600 :: "string \<Rightarrow> bytes \<Rightarrow> 'z ks_world_scheme \<Rightarrow> (keystore_error + unit) \<times> 'z ks_world_scheme" where
  "write_secret_file_0600 path data w =
     ks_then (open_follow 384 path w) (\<lambda>q w.
     ks_then (fchmod q 384 w) (\<lambda>_ w.
     ks_then (write_all q data w) (\<lambda>_ w. flush_file path w)))"

definition is_ascii_whitespace :: "char \<Rightarrow> bool" where
  "is_ascii_whitespace c \<longleftrightarrow> of_char c \<in> {9, 10, 12, 13, 32 :: nat}"

definition read_machine_id :: "'z ks_world_scheme \<Rightarrow> bytes option \<times> 'z ks_world_scheme" where
  "read_machine_id w =
     (case read_path ''/etc/machine-id'' w of
        (Inl e, w) \<Rightarrow> (None, w)
      | (Inr raw, w) \<Rightarrow>
          (let trimmed = takeWhile (\<lambda>b. \<not> is_ascii_whitespace b) raw in (if trimmed = [] then None else Some trimmed, w)))"

definition read_host_key :: "string \<Rightarrow> 'z ks_world_scheme \<Rightarrow> bytes option \<times> 'z ks_world_scheme" where
  "read_host_key dir w =
     (case read_secret_file (host_key_path dir) w of
        (Inl e, w) \<Rightarrow> (None, w)
      | (Inr d, w) \<Rightarrow> (if length d = SALT_LEN then Some d else None, w))"

definition host_machine_binding :: "seal_crypto \<Rightarrow> 'z ks_world_scheme machine_binding" where
  "host_machine_binding sx dir w =
     (case read_machine_id w of
        (Some ikm, w) \<Rightarrow> (Inr ikm, w)
      | (None, w) \<Rightarrow>
          (case read_host_key dir w of
             (Some key, w) \<Rightarrow> (Inr key, w)
           | (None, w) \<Rightarrow>
               (case rand_fill sx SALT_LEN w of
                  (key, w) \<Rightarrow> ks_then (write_secret_file_0600 (host_key_path dir) key w) (\<lambda>_ w. (Inr key, w)))))"

definition seal_derive_key :: "seal_crypto \<Rightarrow> bytes \<Rightarrow> bytes \<Rightarrow> string \<Rightarrow> bytes" where
  "seal_derive_key sx ikm salt label = sx_hkdf sx salt ikm (SEAL_INFO_PREFIX @ label)"

definition aad_for :: "string \<Rightarrow> bytes" where "aad_for label = SEAL_AAD_PREFIX @ label"

definition share_seal ::
  "seal_crypto \<Rightarrow> 'z ks_world_scheme machine_binding \<Rightarrow> string \<Rightarrow> string \<Rightarrow> bytes \<Rightarrow> bytes \<Rightarrow> 'z ks_world_scheme
     \<Rightarrow> (keystore_error + bytes) \<times> 'z ks_world_scheme" where
  "share_seal sx binding dir label salt plaintext w =
     ks_then (binding dir w) (\<lambda>ikm w.
       (case rand_fill sx NONCE_LEN w of
          (nonce, w) \<Rightarrow>
            (case sx_encrypt sx (seal_derive_key sx ikm salt label) nonce (aad_for label) plaintext of
               None \<Rightarrow> (Inl (Bad_data ''AEAD seal''), w)
             | Some c \<Rightarrow> (Inr (nonce @ c), w))))"

definition share_unseal ::
  "seal_crypto \<Rightarrow> 'z ks_world_scheme machine_binding \<Rightarrow> string \<Rightarrow> string \<Rightarrow> bytes \<Rightarrow> bytes \<Rightarrow> 'z ks_world_scheme
     \<Rightarrow> (keystore_error + bytes) \<times> 'z ks_world_scheme" where
  "share_unseal sx binding dir label salt sealed w =
     (if length sealed < NONCE_LEN then (Inl (Bad_data ''sealed share is too short''), w)
      else ks_then (binding dir w) (\<lambda>ikm w.
        (case sx_decrypt sx (seal_derive_key sx ikm salt label) (take NONCE_LEN sealed) (aad_for label) (drop NONCE_LEN sealed) of
           None \<Rightarrow> (Inl (Bad_data ''AEAD unseal''), w)
         | Some m \<Rightarrow> (Inr m, w))))"

definition load_or_create_salt ::
  "seal_crypto \<Rightarrow> string \<Rightarrow> 'z ks_world_scheme \<Rightarrow> (keystore_error + bytes) \<times> 'z ks_world_scheme" where
  "load_or_create_salt sx dir w =
     (case read_secret_file (salt_path dir) w of
        (Inr d, w) \<Rightarrow> (if length d = SALT_LEN then Inr d else Inl (Bad_data ''sink salt''), w)
      | (Inl e, w) \<Rightarrow>
          (case rand_fill sx SALT_LEN w of
             (salt, w) \<Rightarrow> ks_then (write_secret_file_0600 (salt_path dir) salt w) (\<lambda>_ w. (Inr salt, w))))"

definition load_salt :: "string \<Rightarrow> 'z ks_world_scheme \<Rightarrow> (keystore_error + bytes) \<times> 'z ks_world_scheme" where
  "load_salt dir w =
     ks_then (read_secret_file (salt_path dir) w) (\<lambda>d w. (if length d = SALT_LEN then Inr d else Inl (Bad_data ''sink salt''), w))"

section \<open>Share sinks\<close>

record 'w share_sink =
  sn_label :: string
  sn_put_share :: "u16 \<Rightarrow> bytes \<Rightarrow> 'w \<Rightarrow> (keystore_error + unit) \<times> 'w"
  sn_has_share :: "u16 \<Rightarrow> 'w \<Rightarrow> bool \<times> 'w"
  sn_get_share :: "u16 \<Rightarrow> 'w \<Rightarrow> (keystore_error + bytes) \<times> 'w"

definition sealed_share_path :: "string \<Rightarrow> u16 \<Rightarrow> string" where
  "sealed_share_path dir idx = dir @ ''/share_'' @ show_word idx @ ''.sealed''"

definition open_with_binding :: "string \<Rightarrow> 'z ks_world_scheme \<Rightarrow> (keystore_error + unit) \<times> 'z ks_world_scheme" where
  "open_with_binding dir w =
     ks_then (create_dir_all dir w) (\<lambda>_ w. sys ''chmod'' dir (\<lambda>w. (Inr (), w)) w)"

definition sealed_put_share where
  "sealed_put_share sx binding dir label idx plaintext w =
     ks_then (in_context (Sink_failed label) (load_or_create_salt sx dir w)) (\<lambda>salt w.
     ks_then (in_context (Sink_failed label) (share_seal sx binding dir label salt plaintext w)) (\<lambda>sealed w.
       write_file_0600 (sealed_share_path dir idx) sealed w))"

definition sealed_get_share where
  "sealed_get_share sx binding dir label idx w =
     ks_then (read_share_file (sealed_share_path dir idx) w) (\<lambda>sealed w.
     ks_then (in_context (Sink_failed label) (load_salt dir w)) (\<lambda>salt w.
       in_context (Sink_failed label) (share_unseal sx binding dir label salt sealed w)))"

definition local_sealed_sink ::
  "seal_crypto \<Rightarrow> 'z ks_world_scheme machine_binding \<Rightarrow> string \<Rightarrow> string \<Rightarrow> 'z ks_world_scheme share_sink" where
  "local_sealed_sink sx binding dir label =
     \<lparr>sn_label = label, sn_put_share = sealed_put_share sx binding dir label,
      sn_has_share = (\<lambda>idx. path_is_file (sealed_share_path dir idx)),
      sn_get_share = sealed_get_share sx binding dir label\<rparr>"

section \<open>Provisioning across sinks\<close>

text \<open>The first two positions, in the order of the nested loops, that share a value.\<close>

definition first_clash :: "string list \<Rightarrow> (nat \<times> nat) option" where
  "first_clash ls = find (\<lambda>(i, j). ls ! i = ls ! j) (concat (map (\<lambda>i. map (Pair i) [i + 1..<length ls]) [0..<length ls]))"

fun check_sinks ::
  "('ss, 'kp, 'pk) keystore_codec \<Rightarrow> u16 \<Rightarrow> 'z ks_world_scheme share_sink list \<Rightarrow> 'z ks_world_scheme
     \<Rightarrow> (keystore_error + unit) \<times> 'z ks_world_scheme" where
  "check_sinks kn idx [] w = (Inr (), w)"
| "check_sinks kn idx (s # ss) w =
     (case sn_has_share s idx w of
        (False, w') \<Rightarrow> (Inl (Share_missing idx), w')
      | (True, w') \<Rightarrow>
          ks_then (in_context (Sink_failed (sn_label s)) (sn_get_share s idx w')) (\<lambda>d w.
            (case kp_parse kn d of Inl e \<Rightarrow> (Inl e, w) | Inr kp \<Rightarrow> check_sinks kn (idx + 1) ss w)))"

definition assert_shares_loadable_from_sinks where
  "assert_shares_loadable_from_sinks kn = check_sinks kn 1"

fun distribute_shares ::
  "('ss, 'kp, 'pk) keystore_codec \<Rightarrow> 'z ks_world_scheme share_sink list \<Rightarrow> (frost_id, 'kp) tree \<Rightarrow> 'z ks_world_scheme
     \<Rightarrow> (keystore_error + unit) \<times> 'z ks_world_scheme" where
  "distribute_shares kn sinks [] w = (Inr (), w)"
| "distribute_shares kn sinks ((i, kp) # kps) w =
     (let idx = identifier_to_u16 i
      in if idx < 1 \<or> length sinks < unat idx then (Inl (Identifier_range idx), w)
         else (case kp_bytes kn kp of
                 Inl e \<Rightarrow> (Inl e, w)
               | Inr d \<Rightarrow>
                   (let sink = sinks ! (unat idx - 1)
                    in ks_then (in_context (Sink_failed (sn_label sink)) (sn_put_share sink idx d w)) (\<lambda>_ w.
                         distribute_shares kn sinks kps w))))"

definition first_spawn_with_sinks ::
  "('ss, 'kp, 'pk) keystore_codec \<Rightarrow> 'pk curve \<Rightarrow> string + ('ss, 'pk) dealer_keyset \<Rightarrow> string
     \<Rightarrow> 'z ks_world_scheme share_sink list \<Rightarrow> 'z ks_world_scheme \<Rightarrow> (keystore_error + 'pk frost_identity) \<times> 'z ks_world_scheme" where
  "first_spawn_with_sinks kn cv dealt dir sinks w =
     ks_then (create_dir_all dir w) (\<lambda>_ w.
       (case split_keyset kn dealt of
          Inl e \<Rightarrow> (Inl e, w)
        | Inr (pk, kps) \<Rightarrow>
            if length kps \<noteq> unat SHARE_COUNT then (Inl (Split_mismatch (length kps)), w)
            else ks_then (distribute_shares kn sinks kps w) (\<lambda>_ w. anchor_and_identity kn cv dir pk w)))"

definition provision_keyset_with_sinks ::
  "('ss, 'kp, 'pk) keystore_codec \<Rightarrow> 'pk curve \<Rightarrow> string + ('ss, 'pk) dealer_keyset \<Rightarrow> string
     \<Rightarrow> 'z ks_world_scheme share_sink list \<Rightarrow> 'z ks_world_scheme \<Rightarrow> (keystore_error + 'pk frost_identity) \<times> 'z ks_world_scheme" where
  "provision_keyset_with_sinks kn cv dealt dir sinks w =
     (if length sinks \<noteq> unat SHARE_COUNT then (Inl (Sink_count (length sinks)), w)
      else case first_clash (map sn_label sinks) of
        Some (i, j) \<Rightarrow> (Inl (Sinks_share_label i j), w)
      | None \<Rightarrow>
          (case has_identity_anchor dir w of
             (True, w) \<Rightarrow>
               ks_then (in_context (Established ''anchor'') (frost_identity_load kn cv (pubkeys_path dir) w)) (\<lambda>id w.
               ks_then (in_context (Established ''shares'') (assert_shares_loadable_from_sinks kn sinks w)) (\<lambda>_ w. (Inr id, w)))
           | (False, w) \<Rightarrow> first_spawn_with_sinks kn cv dealt dir sinks w))"

fun read_sinks ::
  "('ss, 'kp, 'pk) keystore_codec \<Rightarrow> u16 \<Rightarrow> 'z ks_world_scheme share_sink list \<Rightarrow> 'z ks_world_scheme
     \<Rightarrow> (keystore_error + 'kp list) \<times> 'z ks_world_scheme" where
  "read_sinks kn idx [] w = (Inr [], w)"
| "read_sinks kn idx (s # ss) w =
     ks_then (in_context (Sink_failed (sn_label s)) (sn_get_share s idx w)) (\<lambda>d w.
       (case kp_parse kn d of
          Inl e \<Rightarrow> (Inl e, w)
        | Inr kp \<Rightarrow> ks_then (read_sinks kn (idx + 1) ss w) (\<lambda>kps w. (Inr (kp # kps), w))))"

definition load_quorum_signer_from_sinks where
  "load_quorum_signer_from_sinks kn cv de fr draws dir sinks w =
     (if length sinks \<noteq> unat SHARE_COUNT then (Inl (Sink_count (length sinks)), w)
      else case has_identity_anchor dir w of
        (False, w) \<Rightarrow> (Inl (No_anchor dir), w)
      | (True, w) \<Rightarrow>
          ks_then (frost_identity_load kn cv (pubkeys_path dir) w) (\<lambda>id w.
          ks_then (read_sinks kn 1 sinks w) (\<lambda>kps w.
            (case from_local_key_packages cv de fr kps (fi_pubkeys id) draws of
               Inl e \<Rightarrow> (Inl (Signer_error e), w)
             | Inr qs \<Rightarrow> (Inr qs, w)))))"

section \<open>Placement on other machines\<close>

record holder_placement =
  hp_identifier :: u16
  hp_label :: string
  hp_address :: string

record placement_manifest =
  pm_holders :: "holder_placement list"

text \<open>A UTF-8 text that \<open>trim\<close> leaves nothing of (White_Space).\<close>

fun blank_text :: "string \<Rightarrow> bool" where
  "blank_text [] = True"
| "blank_text (a # s) =
     (let c = of_char a :: nat
      in if 9 \<le> c \<and> c \<le> 13 \<or> c = 32 then blank_text s
         else (case s of
             [] \<Rightarrow> False
           | b # s' \<Rightarrow>
               (let d = of_char b :: nat
                in if c = 194 \<and> (d = 133 \<or> d = 160) then blank_text s'
                   else (case s' of
                       [] \<Rightarrow> False
                     | b' # s'' \<Rightarrow>
                         (let e = of_char b' :: nat
                          in (c = 225 \<and> d = 154 \<and> e = 128
                              \<or> c = 226 \<and> d = 128 \<and> (128 \<le> e \<and> e \<le> 138 \<or> e = 168 \<or> e = 169 \<or> e = 175)
                              \<or> c = 226 \<and> d = 129 \<and> e = 159
                              \<or> c = 227 \<and> d = 128 \<and> e = 128) \<and> blank_text s'')))))"

definition PLACEMENT_FILE :: string where "PLACEMENT_FILE = ''placement.json''"

definition holder_fault :: "nat \<Rightarrow> holder_placement \<Rightarrow> string option" where
  "holder_fault i h =
     (if hp_identifier h \<noteq> of_nat (i + 1) then Some ''order''
      else if blank_text (hp_label h) then Some ''empty label''
      else if blank_text (hp_address h) then Some ''empty address''
      else None)"

definition pair_fault :: "holder_placement list \<Rightarrow> nat \<times> nat \<Rightarrow> string option" where
  "pair_fault hs = (\<lambda>(i, j).
     if hp_label (hs ! i) = hp_label (hs ! j) then Some ''shared label''
     else if hp_address (hs ! i) = hp_address (hs ! j) then Some ''shared address''
     else None)"

fun first_some :: "'a option list \<Rightarrow> 'a option" where
  "first_some [] = None"
| "first_some (x # xs) = (case x of Some y \<Rightarrow> Some y | None \<Rightarrow> first_some xs)"

definition validate_shape :: "placement_manifest \<Rightarrow> keystore_error + unit" where
  "validate_shape pm =
     (let hs = pm_holders pm
      in if length hs \<noteq> unat SHARE_COUNT then Inl (Bad_manifest ''count'')
         else case first_some (map (\<lambda>i. holder_fault i (hs ! i)) [0..<length hs]) of
           Some e \<Rightarrow> Inl (Bad_manifest e)
         | None \<Rightarrow>
             (case first_some (map (pair_fault hs) (concat (map (\<lambda>i. map (Pair i) [i + 1..<length hs]) [0..<length hs]))) of
                Some e \<Rightarrow> Inl (Bad_manifest e)
              | None \<Rightarrow> Inr ()))"

definition placement_path :: "string \<Rightarrow> string" where "placement_path dir = dir @ ''/'' @ PLACEMENT_FILE"

definition is_distributed_keystore :: "string \<Rightarrow> 'z ks_world_scheme \<Rightarrow> bool \<times> 'z ks_world_scheme" where
  "is_distributed_keystore dir = path_is_file (placement_path dir)"

text \<open>JSON of a manifest: its serialization and its parse.\<close>

type_synonym manifest_json = "(placement_manifest \<Rightarrow> string + bytes) \<times> (bytes \<Rightarrow> string + placement_manifest)"

definition save_placement ::
  "manifest_json \<Rightarrow> string \<Rightarrow> placement_manifest \<Rightarrow> 'z ks_world_scheme \<Rightarrow> (keystore_error + unit) \<times> 'z ks_world_scheme" where
  "save_placement mj dir pm w =
     (case validate_shape pm of
        Inl e \<Rightarrow> (Inl e, w)
      | Inr _ \<Rightarrow> (case fst mj pm of
          Inl e \<Rightarrow> (Inl (Bad_data e), w)
        | Inr json \<Rightarrow> write_file_0600 (placement_path dir) json w))"

definition load_placement ::
  "manifest_json \<Rightarrow> string \<Rightarrow> 'z ks_world_scheme \<Rightarrow> (keystore_error + placement_manifest) \<times> 'z ks_world_scheme" where
  "load_placement mj dir w =
     ks_then (read_share_file (placement_path dir) w) (\<lambda>d w.
       (case snd mj d of
          Inl e \<Rightarrow> (Inl (Bad_data e), w)
        | Inr pm \<Rightarrow> (case validate_shape pm of Inl e \<Rightarrow> (Inl e, w) | Inr _ \<Rightarrow> (Inr pm, w))))"

definition try_load_placement ::
  "manifest_json \<Rightarrow> string \<Rightarrow> 'z ks_world_scheme \<Rightarrow> (keystore_error + placement_manifest option) \<times> 'z ks_world_scheme" where
  "try_load_placement mj dir w =
     (case is_distributed_keystore dir w of
        (False, w) \<Rightarrow> (Inr None, w)
      | (True, w) \<Rightarrow> ks_then (load_placement mj dir w) (\<lambda>pm w. (Inr (Some pm), w)))"

fun attest_sinks :: "u16 \<Rightarrow> 'z ks_world_scheme share_sink list \<Rightarrow> 'z ks_world_scheme \<Rightarrow> (keystore_error + unit) \<times> 'z ks_world_scheme" where
  "attest_sinks idx [] w = (Inr (), w)"
| "attest_sinks idx (s # ss) w =
     (case sn_has_share s idx w of (False, w') \<Rightarrow> (Inl (Share_missing idx), w') | (True, w') \<Rightarrow> attest_sinks (idx + 1) ss w')"

definition assert_shares_present_across_sinks where
  "assert_shares_present_across_sinks = attest_sinks 1"

definition settle_placement ::
  "manifest_json \<Rightarrow> string \<Rightarrow> placement_manifest \<Rightarrow> 'z ks_world_scheme \<Rightarrow> (keystore_error + unit) \<times> 'z ks_world_scheme" where
  "settle_placement mj dir pm w =
     ks_then (try_load_placement mj dir w) (\<lambda>found w.
       (case found of
          Some existing \<Rightarrow> (if existing \<noteq> pm then Inl Placement_differs else Inr (), w)
        | None \<Rightarrow> save_placement mj dir pm w))"

definition provision_keyset_distributed ::
  "manifest_json \<Rightarrow> ('ss, 'kp, 'pk) keystore_codec \<Rightarrow> 'pk curve \<Rightarrow> string + ('ss, 'pk) dealer_keyset \<Rightarrow> string \<Rightarrow> placement_manifest
     \<Rightarrow> 'z ks_world_scheme share_sink list \<Rightarrow> 'z ks_world_scheme \<Rightarrow> (keystore_error + 'pk frost_identity) \<times> 'z ks_world_scheme" where
  "provision_keyset_distributed mj kn cv dealt dir pm sinks w =
     (case validate_shape pm of
        Inl e \<Rightarrow> (Inl e, w)
      | Inr _ \<Rightarrow>
          if length sinks \<noteq> length (pm_holders pm) then (Inl (Sink_count (length sinks)), w)
          else (case find (\<lambda>i. sn_label (sinks ! i) \<noteq> hp_label (pm_holders pm ! i)) [0..<length sinks] of
             Some i \<Rightarrow> (Inl (Misaligned i), w)
           | None \<Rightarrow>
               ks_then (create_dir_all dir w) (\<lambda>_ w.
               ks_then (settle_placement mj dir pm w) (\<lambda>_ w.
                 (case has_identity_anchor dir w of
                    (True, w) \<Rightarrow>
                      ks_then (in_context (Established ''anchor'') (frost_identity_load kn cv (pubkeys_path dir) w)) (\<lambda>id w.
                      ks_then (in_context (Established ''shares'') (assert_shares_present_across_sinks sinks w)) (\<lambda>_ w. (Inr id, w)))
                  | (False, w) \<Rightarrow> provision_keyset_with_sinks kn cv dealt dir sinks w)))))"

section \<open>The signer of an agent\<close>

text \<open>\<open>connect\<close> is the transport factory; \<open>fc\<close> and \<open>coord\<close> are what a remote holder's proxy is made of.\<close>

fun connect_holders where
  "connect_holders fc coord connect [] = Inr []"
| "connect_holders fc coord connect (h # hs) =
     (case connect (hp_address h) of
        Inl e \<Rightarrow> Inl (Sink_failed (hp_label h) e)
      | Inr tp \<Rightarrow> (case connect_holders fc coord connect hs of
          Inl e \<Rightarrow> Inl e
        | Inr rs \<Rightarrow> Inr (remote_holder fc coord tp (hp_identifier h) # rs)))"

definition load_quorum_signer_distributed where
  "load_quorum_signer_distributed mj kn cv fc coord connect dir w =
     (case has_identity_anchor dir w of
        (False, w) \<Rightarrow> (Inl (No_anchor dir), w)
      | (True, w) \<Rightarrow>
          ks_then (frost_identity_load kn cv (pubkeys_path dir) w) (\<lambda>id w.
          ks_then (load_placement mj dir w) (\<lambda>pm w.
            (case connect_holders fc coord connect (pm_holders pm) of
               Inl e \<Rightarrow> (Inl e, w)
             | Inr holders \<Rightarrow>
                 (case quorum_signer_new cv holders (fi_pubkeys id) of Inl e \<Rightarrow> (Inl (Signer_error e), w) | Inr qs \<Rightarrow> (Inr qs, w))))))"

datatype ('c, 'd) agent_signer = Co_located 'c | Distributed 'd

definition load_agent_quorum_signer where
  "load_agent_quorum_signer mj kn cv de fr draws fc coord factory enabled dir w =
     (case (if enabled then is_distributed_keystore dir w else (False, w)) of
        (True, w) \<Rightarrow>
          (case factory of
             None \<Rightarrow> (Inl No_factory, w)
           | Some connect \<Rightarrow> ks_then (load_quorum_signer_distributed mj kn cv fc coord connect dir w) (\<lambda>qs w. (Inr (Distributed qs), w)))
      | (False, w) \<Rightarrow> ks_then (load_quorum_signer_at kn cv de fr draws dir w) (\<lambda>qs w. (Inr (Co_located qs), w)))"

end
