(* ===== verification/Keystore_Props.thy ===== *)
theory Keystore_Props
  imports Keystore
begin

text \<open>
  What a keystore promises: an agent is born once, whatever crashes on the way; what was born loads; where its shares go;
  and what reads them.
\<close>

section \<open>What calls leave alone\<close>

definition node_shape :: "ks_node \<Rightarrow> ks_node" where
  "node_shape n = (case n of Regular m d \<Rightarrow> Regular 0 d | _ \<Rightarrow> n)"

definition shape :: "'z ks_world_scheme \<Rightarrow> string \<Rightarrow> ks_node option" where
  "shape w p = map_option node_shape (kw_fs w p)"

text \<open>Nothing but permissions changed.\<close>

abbreviation same_data :: "'z ks_world_scheme \<Rightarrow> 'z ks_world_scheme \<Rightarrow> bool" where
  "same_data w w' \<equiv> shape w' = shape w"

definition held :: "'z ks_world_scheme \<Rightarrow> string \<Rightarrow> bytes option" where
  "held w p = (case kw_fs w p of Some (Regular m d) \<Rightarrow> Some d | _ \<Rightarrow> None)"

lemma held_shape: "held w p = (case shape w p of Some (Regular m d) \<Rightarrow> Some d | _ \<Rightarrow> None)"
  by (auto simp: held_def shape_def node_shape_def split: option.splits ks_node.splits)

lemma shape_simps [simp]: "shape (w\<lparr>kw_faults := f\<rparr>) = shape w" "shape (w\<lparr>kw_draws := n\<rparr>) = shape w"
  by (simp_all add: shape_def fun_eq_iff)

lemma next_io_same [simp]: "shape (snd (next_io w)) = shape w" "kw_fs (snd (next_io w)) = kw_fs w"
  by (auto simp: next_io_def split: list.splits)

lemma next_io_same': "next_io w = (f, w') \<Longrightarrow> shape w' = shape w \<and> kw_fs w' = kw_fs w"
  using next_io_same [of w] by simp

text \<open>Taking a chain of steps apart.\<close>

lemma ks_thenE:
  assumes "ks_then r f = (x, w')"
  obtains (stop) e where "r = (Inl e, w')" "x = Inl e" | (goes_on) y w1 where "r = (Inr y, w1)" "f y w1 = (x, w')"
  using assms by (auto simp: ks_then_def split: prod.splits sum.splits)

lemma ks_then_Inr [simp]: "ks_then (Inr y, w) f = f y w" by (simp add: ks_then_def)

lemma ks_then_Inl [simp]: "ks_then (Inl e, w) f = (Inl e, w)" by (simp add: ks_then_def)

lemma in_context_snd [simp]: "snd (in_context c r) = snd r"
  by (auto simp: in_context_def split: prod.splits sum.splits)

lemma in_context_Inr [simp]: "in_context c r = (Inr x, w) \<longleftrightarrow> r = (Inr x, w)"
  by (auto simp: in_context_def split: prod.splits sum.splits)

text \<open>An outcome that left all data as it was.\<close>

definition keeps :: "'z ks_world_scheme \<Rightarrow> 'a \<times> 'z ks_world_scheme \<Rightarrow> bool" where
  "keeps w r \<longleftrightarrow> same_data w (snd r)"

named_theorems reads \<open>calls that only read\<close>

lemma keepsD: "keeps w r \<Longrightarrow> r = (x, w') \<Longrightarrow> same_data w w'"
  by (auto simp: keeps_def)

lemma keeps_pair [reads]: "same_data w w' \<Longrightarrow> keeps w (x, w')"
  by (simp add: keeps_def)

lemma keeps_then [reads]: "keeps w r \<Longrightarrow> (\<And>y w'. same_data w w' \<Longrightarrow> keeps w (f y w')) \<Longrightarrow> keeps w (ks_then r f)"
  by (auto simp: keeps_def ks_then_def split: prod.splits sum.splits)

lemma keeps_prod [reads]: "keeps w r \<Longrightarrow> (\<And>b w'. same_data w w' \<Longrightarrow> keeps w (f b w')) \<Longrightarrow> keeps w (case r of (b, w') \<Rightarrow> f b w')"
  by (auto simp: keeps_def split: prod.splits)

lemma keeps_context [reads]: "keeps w r \<Longrightarrow> keeps w (in_context c r)"
  by (simp add: keeps_def)

lemma keeps_sys [reads]:
  "(\<And>w'. same_data w w' \<Longrightarrow> keeps w (f w')) \<Longrightarrow> same_data w w0 \<Longrightarrow> keeps w (sys what p f w0)"
proof -
  assume f: "\<And>w'. same_data w w' \<Longrightarrow> keeps w (f w')" and s: "same_data w w0"
  obtain x w1 where x: "next_io w0 = (x, w1)" by fastforce
  then have "same_data w w1" using next_io_same' [OF x] s by simp
  with f [OF this] x show ?thesis by (cases x) (simp_all add: sys_def keeps_def)
qed

lemma keeps_is_file [reads]: "same_data w w0 \<Longrightarrow> keeps w (path_is_file p w0)"
  by (auto simp: keeps_def path_is_file_def split: prod.splits io_fault.splits dest!: next_io_same')

lemma shape_chmod: "kw_fs w q = Some (Regular m' d) \<Longrightarrow> shape (set_node q (Regular m d) w) = shape w"
  by (auto simp: set_node_def shape_def node_shape_def fun_eq_iff)

lemma keeps_chmod [reads]: "same_data w w0 \<Longrightarrow> keeps w (set_permissions p m w0)"
  unfolding set_permissions_def
  by (rule keeps_sys) (auto simp: shape_chmod intro!: reads split: option.split ks_node.split)

lemma keeps_calls [reads]:
  "same_data w w0 \<Longrightarrow> keeps w (lstat p w0)" "same_data w w0 \<Longrightarrow> keeps w (read_path p w0)"
  "same_data w w0 \<Longrightarrow> keeps w (create_dir_all p w0)"
  by (auto simp: lstat_def read_path_def create_dir_all_def intro!: reads split: option.split ks_node.split)

lemma keeps_share [reads]: "same_data w w0 \<Longrightarrow> keeps w (read_share_file p w0)"
  unfolding read_share_file_def by (auto intro!: reads split: option.split ks_node.split)

lemma keeps_files [reads]: "same_data w w0 \<Longrightarrow> keeps w (all_files ps w0)"
  by (induction ps arbitrary: w0) (auto intro!: reads split: bool.split)

lemma keeps_provisioned [reads]:
  "same_data w w0 \<Longrightarrow> keeps w (is_provisioned dir w0)" "same_data w w0 \<Longrightarrow> keeps w (has_identity_anchor dir w0)"
  by (simp_all only: is_provisioned_def has_identity_anchor_def reads)

lemma keeps_load [reads]: "same_data w w0 \<Longrightarrow> keeps w (frost_identity_load kn cv p w0)"
  unfolding frost_identity_load_def by (auto intro!: reads split: option.split ks_node.split sum.split)

lemma keeps_check [reads]: "same_data w w0 \<Longrightarrow> keeps w (check_shares kn dir idxs w0)"
  by (induction idxs arbitrary: w0) (auto intro!: reads split: bool.split sum.split)

lemma keeps_packages [reads]: "same_data w w0 \<Longrightarrow> keeps w (read_key_packages kn dir idxs w0)"
  by (induction idxs arbitrary: w0) (auto intro!: reads split: sum.split)

lemma keeps_material [reads]: "same_data w w0 \<Longrightarrow> keeps w (load_keyset_material_at kn cv dir w0)"
  unfolding load_keyset_material_at_def by (auto intro!: reads split: bool.split)

lemma keeps_loadable [reads]: "same_data w w0 \<Longrightarrow> keeps w (keystore_loadable_at kn dir w0)"
  unfolding keystore_loadable_at_def assert_shares_loadable_def by (auto intro!: reads split: bool.split sum.split)

section \<open>What writes do\<close>

definition plain :: "'z ks_world_scheme \<Rightarrow> string \<Rightarrow> bool" where
  "plain w p \<longleftrightarrow> (case shape w p of None \<Rightarrow> True | Some (Regular m d) \<Rightarrow> True | _ \<Rightarrow> False)"

lemma plain_cases:
  assumes "plain w p" obtains "kw_fs w p = None" | m d where "kw_fs w p = Some (Regular m d)"
  using assms by (auto simp: plain_def shape_def node_shape_def split: option.splits ks_node.splits)

lemma plain_iff: "plain w p \<longleftrightarrow> kw_fs w p = None \<or> (\<exists>m d. kw_fs w p = Some (Regular m d))"
  by (auto simp: plain_def shape_def node_shape_def split: option.splits ks_node.splits)

lemma follow_plain: "plain w p \<Longrightarrow> follow p w = Some p"
  by (auto simp: plain_iff follow_def)

lemma stat_plain: "plain w p \<Longrightarrow> stat_node p w = kw_fs w p"
  by (simp add: stat_node_def follow_plain)

lemma stat_fs: assumes e: "kw_fs w' = kw_fs w" shows "stat_node p w' = stat_node p w"
  unfolding stat_node_def follow_def e by (rule refl)

lemma same_held: "same_data w w' \<Longrightarrow> held w' p = held w p" by (simp add: held_shape)

lemma same_plain: "same_data w w' \<Longrightarrow> plain w' p = plain w p" by (simp add: plain_def)

text \<open>A change of one plain path only.\<close>

definition touches :: "string \<Rightarrow> 'z ks_world_scheme \<Rightarrow> 'z ks_world_scheme \<Rightarrow> bool" where
  "touches p w w' \<longleftrightarrow> (\<forall>q. q \<noteq> p \<longrightarrow> shape w' q = shape w q) \<and> plain w' p"

lemma touches_same: "plain w p \<Longrightarrow> same_data w w' \<Longrightarrow> touches p w w'"
  by (simp add: touches_def plain_def)

lemma touches_trans: "touches p w w' \<Longrightarrow> touches p w' w'' \<Longrightarrow> touches p w w''"
  by (simp add: touches_def)

lemma touches_set: "touches p w (set_node p (Regular m d) w)"
  by (simp add: touches_def set_node_def shape_def plain_def node_shape_def)

lemma held_set [simp]: "held (set_node p (Regular m d) w) p = Some d" by (simp add: held_def set_node_def)

lemma sys_cases:
  assumes "sys what p f w = (x, w')"
  obtains "x = Inl (Io_error what p)" "same_data w w'" | w1 where "same_data w w1" "kw_fs w1 = kw_fs w" "f w1 = (x, w')"
proof -
  obtain y w1 where y: "next_io w = (y, w1)" by fastforce
  note same = next_io_same' [OF y]
  show thesis
  proof (cases y)
    case Io_ok
    then have "f w1 = (x, w')" using assms y by (simp add: sys_def)
    with same that(2) show thesis by blast
  next
    case (Io_fail n)
    then have "x = Inl (Io_error what p)" "w' = w1" using assms y by (simp_all add: sys_def)
    with same that(1) show thesis by blast
  qed
qed

lemma open_at_does:
  assumes "open_at m p w = (x, w')" "plain w p"
  shows "x = Inr ()" "touches p w w'" "held w' p = Some []" "\<exists>m'. kw_fs w' p = Some (Regular m' [])"
proof -
  have "x = Inr () \<and> (\<exists>m'. w' = set_node p (Regular m' []) w)" using assms(2)
    by (cases rule: plain_cases) (use assms(1) in \<open>auto simp: open_at_def\<close>)
  then show "x = Inr ()" "touches p w w'" "held w' p = Some []" "\<exists>m'. kw_fs w' p = Some (Regular m' [])"
    by (auto simp: touches_set) (auto simp: set_node_def)
qed

lemma fchmod_same: "fchmod p m w = (x, w') \<Longrightarrow> same_data w w'"
  unfolding fchmod_def by (erule sys_cases) (auto simp: shape_chmod split: option.splits ks_node.splits)

lemma flush_same: "flush_file p w = (x, w') \<Longrightarrow> same_data w w'"
  unfolding flush_file_def by (erule sys_cases) auto

lemma write_all_does:
  assumes "write_all p d w = (x, w')" "kw_fs w p = Some (Regular m c)"
  shows "touches p w w'" "x = Inr () \<and> held w' p = Some d \<or> (\<exists>e n. x = Inl e \<and> held w' p = Some (take n d))"
  using assms by (auto simp: write_all_def put_bytes_def touches_def shape_def plain_def node_shape_def held_def set_node_def
      split: prod.splits io_fault.splits dest!: next_io_same')

lemma held_file: "held w p = Some d \<Longrightarrow> \<exists>m. kw_fs w p = Some (Regular m d)"
  by (auto simp: held_def split: option.splits ks_node.splits)

lemma write_file_does:
  assumes w: "write_file_0600 p d w = (x, w')" and p: "plain w p"
  shows "touches p w w'" "x = Inr () \<Longrightarrow> held w' p = Some d"
proof -
  have "touches p w w' \<and> (x = Inr () \<longrightarrow> held w' p = Some d)"
    using w unfolding write_file_0600_def
  proof (cases rule: ks_thenE)
    case (stop e)
    have "same_data w w'" using keepsD [OF keeps_calls(1) stop(1), of w] by simp
    from touches_same [OF p this] stop(2) show ?thesis by simp
  next
    case (goes_on node w1)
    have s1: "same_data w w1" using keepsD [OF keeps_calls(1) goes_on(1), of w] by simp
    then have p1: "plain w1 p" using p by (simp add: plain_def)
    have "node = kw_fs w p" using goes_on(1) unfolding lstat_def by (elim sys_cases) auto
    then have "ks_then (open_nofollow 384 p w1) (\<lambda>_ w. ks_then (fchmod p 384 w) (\<lambda>_ w. ks_then (write_all p d w) (\<lambda>_ w. flush_file p w))) = (x, w')"
      using goes_on(2) p by (auto simp: plain_iff)
    then show ?thesis
    proof (cases rule: ks_thenE)
      case (stop e)
      then show ?thesis unfolding open_nofollow_def
      proof (elim sys_cases)
        fix w2 assume "same_data w1 w2" and oa: "open_at 384 p w2 = (Inl e, w')"
        then have "plain w2 p" using p1 by (simp add: plain_def)
        from open_at_does(1) [OF oa this] show ?thesis by simp
      next
        assume "same_data w1 w'"
        then have "same_data w w'" using s1 by simp
        from touches_same [OF p this] stop(2) show ?thesis by simp
      qed
    next
      case o: (goes_on u w2)
      have t2: "touches p w1 w2 \<and> (\<exists>m'. kw_fs w2 p = Some (Regular m' []))" using o(1) unfolding open_nofollow_def
      proof (elim sys_cases)
        fix w0 assume "same_data w1 w0" and oa: "open_at 384 p w0 = (Inr u, w2)"
        then have "plain w0 p" "touches p w1 w0" using p1 by (simp_all add: plain_def touches_def)
        then show ?thesis using open_at_does(2,4) [OF oa] touches_trans by blast
      qed simp
      then have t: "touches p w w2" using s1 by (simp add: touches_def)
      from o(2) show ?thesis
      proof (cases rule: ks_thenE)
        case (stop e)
        then show ?thesis using fchmod_same [OF stop(1)] t by (simp add: touches_def plain_def)
      next
        case c: (goes_on u w3)
        note s3 = fchmod_same [OF c(1)]
        have "held w3 p = Some []" using t2 same_held [OF s3] by (auto simp: held_def)
        then obtain m3 where f3: "kw_fs w3 p = Some (Regular m3 [])" by (blast dest: held_file)
        have t3: "touches p w w3" using t s3 by (simp add: touches_def plain_def)
        from c(2) show ?thesis
        proof (cases rule: ks_thenE)
          case (stop e)
          then show ?thesis using write_all_does(1) [OF stop(1) f3] t3 touches_trans by blast
        next
          case a: (goes_on u w4)
          note wa = write_all_does [OF a(1) f3] and s4 = flush_same [OF a(2)]
          have "touches p w w4" using wa(1) t3 touches_trans by blast
          then show ?thesis using wa(2) s4 same_held [OF s4] by (auto simp: touches_def plain_def)
        qed
      qed
    qed
  qed
  then show "touches p w w'" "x = Inr () \<Longrightarrow> held w' p = Some d" by simp_all
qed

lemma fs_write_does:
  assumes w: "fs_write p d w = (x, w')" and p: "plain w p"
  shows "touches p w w'" "held w' p = held w p \<or> (\<exists>n. held w' p = Some (take n d))" "x = Inr () \<Longrightarrow> held w' p = Some d"
proof -
  have "touches p w w' \<and> (held w' p = held w p \<or> (\<exists>n. held w' p = Some (take n d))) \<and> (x = Inr () \<longrightarrow> held w' p = Some d)"
    using w unfolding fs_write_def
  proof (cases rule: ks_thenE)
    case (stop e)
    then show ?thesis unfolding open_follow_def
    proof (elim sys_cases)
      fix w1 assume s: "same_data w w1" and f: "(case follow p w1 of None \<Rightarrow> (Inl (Io_error ''open'' p), w1)
          | Some q \<Rightarrow> ks_then (open_at 420 q w1) (\<lambda>_ w. (Inr q, w))) = (Inl e, w')"
      have p1: "plain w1 p" using p s by (simp add: plain_def)
      have "ks_then (open_at 420 p w1) (\<lambda>_ w. (Inr p, w)) = (Inl e, w')" using f follow_plain [OF p1] by simp
      then show ?thesis using open_at_does(1) [OF _ p1, of 420] by (fastforce simp: ks_then_def split: prod.splits sum.splits)
    next
      assume s: "same_data w w'"
      from touches_same [OF p this] same_held [OF s] stop(2) show ?thesis by simp
    qed
  next
    case (goes_on q w1)
    have "touches p w w1 \<and> q = p \<and> (\<exists>m'. kw_fs w1 p = Some (Regular m' []))" using goes_on(1) unfolding open_follow_def
    proof (elim sys_cases)
      fix w0 assume s: "same_data w w0" and f: "(case follow p w0 of None \<Rightarrow> (Inl (Io_error ''open'' p), w0)
          | Some q \<Rightarrow> ks_then (open_at 420 q w0) (\<lambda>_ w. (Inr q, w))) = (Inr q, w1)"
      have p1: "plain w0 p" using p s by (simp add: plain_def)
      obtain u where u: "open_at 420 p w0 = (Inr u, w1)" "q = p"
        using f follow_plain [OF p1] by (auto simp: ks_then_def split: prod.splits sum.splits)
      show ?thesis using open_at_does(2,4) [OF u(1) p1] u(2) touches_same [OF p s] touches_trans by blast
    qed simp
    then obtain m1 where q: "q = p" "touches p w w1" "kw_fs w1 p = Some (Regular m1 [])" by blast
    note wa = write_all_does [OF goes_on(2) [unfolded q(1)] q(3)]
    have "\<exists>n. d = take n d" by (rule exI [of _ "length d"]) simp
    with touches_trans [OF q(2) wa(1)] wa(2) show ?thesis by auto
  qed
  then show "touches p w w'" "held w' p = held w p \<or> (\<exists>n. held w' p = Some (take n d))" "x = Inr () \<Longrightarrow> held w' p = Some d"
    by simp_all
qed

section \<open>A first spawn\<close>

definition keystore_paths :: "string \<Rightarrow> string set" where
  "keystore_paths dir = insert (pubkeys_path dir) (share_path dir ` set share_indices)"

lemma digit_chars: "digit_char 1 = CHR ''1''" "digit_char 2 = CHR ''2''" "digit_char 3 = CHR ''3''"
  by (simp_all add: digit_char_def char_of_def bit_0)

lemma share_paths: "share_path dir 1 = dir @ ''/share_1.json''" "share_path dir 2 = dir @ ''/share_2.json''"
  "share_path dir 3 = dir @ ''/share_3.json''"
  using digit_chars by (simp_all add: share_path_def show_word_def show_nat.simps)

lemma share_path_inj: "i \<in> set share_indices \<Longrightarrow> j \<in> set share_indices \<Longrightarrow> share_path dir i = share_path dir j \<longleftrightarrow> i = j"
  by (auto simp: share_indices_def share_paths)

lemma share_not_anchor: "i \<in> set share_indices \<Longrightarrow> share_path dir i \<noteq> pubkeys_path dir"
  by (auto simp: share_indices_def share_paths pubkeys_path_def)

definition clean :: "string \<Rightarrow> 'z ks_world_scheme \<Rightarrow> bool" where
  "clean dir w \<longleftrightarrow> (\<forall>p\<in>keystore_paths dir. plain w p)"

lemma clean_paths: "clean dir w \<Longrightarrow> plain w (pubkeys_path dir)" "clean dir w \<Longrightarrow> i \<in> set share_indices \<Longrightarrow> plain w (share_path dir i)"
  by (auto simp: clean_def keystore_paths_def)

lemma clean_same: "same_data w w' \<Longrightarrow> clean dir w \<Longrightarrow> clean dir w'"
  by (simp add: clean_def plain_def)

lemma clean_touches: "clean dir w \<Longrightarrow> touches p w w' \<Longrightarrow> clean dir w'"
  by (auto simp: clean_def touches_def plain_def)

text \<open>The packages of a dealer whose identifiers are 1, 2 and 3, and the files that hold them.\<close>

definition dealt_ids :: "(frost_id, 'kp) tree \<Rightarrow> bool" where
  "dealt_ids kps \<longleftrightarrow> map (\<lambda>(i, kp). identifier_to_u16 i) kps = share_indices"

definition shares_held :: "('ss, 'kp, 'pk) keystore_codec \<Rightarrow> string \<Rightarrow> (frost_id, 'kp) tree \<Rightarrow> 'z ks_world_scheme \<Rightarrow> bool" where
  "shares_held kn dir kps w \<longleftrightarrow>
     (\<forall>(i, kp)\<in>set kps. \<exists>d. kp_bytes kn kp = Inr d \<and> held w (share_path dir (identifier_to_u16 i)) = Some d)"

lemma touches_held: "touches p w w' \<Longrightarrow> q \<noteq> p \<Longrightarrow> held w' q = held w q"
  by (simp add: touches_def held_shape)

lemma write_shares_does:
  assumes "write_shares kn dir kps n w = (x, w')" "clean dir w"
    and "distinct (map (\<lambda>(i, kp). identifier_to_u16 i) kps)" "set (map (\<lambda>(i, kp). identifier_to_u16 i) kps) \<subseteq> set share_indices"
  shows "clean dir w' \<and> (\<forall>p. p \<notin> share_path dir ` set (map (\<lambda>(i, kp). identifier_to_u16 i) kps) \<longrightarrow> shape w' p = shape w p)
    \<and> (\<forall>m. x = Inr m \<longrightarrow> m = n + length kps \<and> shares_held kn dir kps w')"
  using assms
proof (induction kps arbitrary: n w)
  case Nil
  then show ?case by (auto simp: shares_held_def)
next
  case (Cons k kps)
  obtain i kp where k: "k = (i, kp)" by fastforce
  let ?p = "share_path dir (identifier_to_u16 i)"
  have i: "identifier_to_u16 i \<in> set share_indices" using Cons.prems(4) k by simp
  show ?case
  proof (cases "kp_bytes kn kp")
    case (Inl e)
    then show ?thesis using Cons.prems(1,2) k by auto
  next
    case (Inr d)
    then have "ks_then (write_file_0600 ?p d w) (\<lambda>_ w. write_shares kn dir kps (n + 1) w) = (x, w')" using Cons.prems(1) k by simp
    then show ?thesis
    proof (cases rule: ks_thenE)
      case (stop e)
      note t = write_file_does(1) [OF stop(1) clean_paths(2) [OF Cons.prems(2) i]]
      show ?thesis using clean_touches [OF Cons.prems(2) t] t stop(2) k by (auto simp: touches_def)
    next
      case (goes_on u w1)
      note t = write_file_does [OF goes_on(1) clean_paths(2) [OF Cons.prems(2) i]]
      have ih: "clean dir w' \<and> (\<forall>p. p \<notin> share_path dir ` set (map (\<lambda>(i, kp). identifier_to_u16 i) kps) \<longrightarrow> shape w' p = shape w1 p)
          \<and> (\<forall>m. x = Inr m \<longrightarrow> m = n + 1 + length kps \<and> shares_held kn dir kps w')"
        by (rule Cons.IH [OF goes_on(2) clean_touches [OF Cons.prems(2) t(1)]]) (use Cons.prems(3,4) k in auto)
      have new: "identifier_to_u16 i \<notin> set (map (\<lambda>(i, kp). identifier_to_u16 i) kps)" using Cons.prems(3) k by simp
      have "?p \<notin> share_path dir ` set (map (\<lambda>(i, kp). identifier_to_u16 i) kps)"
      proof
        assume "?p \<in> share_path dir ` set (map (\<lambda>(i, kp). identifier_to_u16 i) kps)"
        then obtain j where j: "j \<in> set (map (\<lambda>(i, kp). identifier_to_u16 i) kps)" "?p = share_path dir j" by blast
        then have "j \<in> set share_indices" using Cons.prems(4) k by auto
        from share_path_inj [OF i this] j new show False by simp
      qed
      then have "held w' ?p = Some d" using ih t(2) by (simp add: held_shape)
      then have "x = Inr m \<Longrightarrow> shares_held kn dir (k # kps) w'" for m using ih Inr k by (simp add: shares_held_def)
      moreover have "p \<notin> share_path dir ` set (map (\<lambda>(i, kp). identifier_to_u16 i) (k # kps)) \<Longrightarrow> shape w' p = shape w p" for p
        using ih t(1) k by (simp add: touches_def)
      ultimately show ?thesis using ih by auto
    qed
  qed
qed

lemma anchor_does:
  assumes a: "anchor_and_identity kn cv dir pk w = (x, w')" and p: "plain w (pubkeys_path dir)"
  shows "touches (pubkeys_path dir) w w'"
    and "held w' (pubkeys_path dir) = held w (pubkeys_path dir)
      \<or> (\<exists>d n. encode_pubkeys kn pk = Inr d \<and> held w' (pubkeys_path dir) = Some (take n d))"
    and "x = Inr fid \<Longrightarrow> \<exists>d. encode_pubkeys kn pk = Inr d \<and> held w' (pubkeys_path dir) = Some d
      \<and> from_pubkeys kn cv pk (pubkeys_path dir) = Inr fid"
proof -
  let ?p = "pubkeys_path dir"
  have save: "touches ?p w w1 \<and> (held w1 ?p = held w ?p \<or> (\<exists>d n. encode_pubkeys kn pk = Inr d \<and> held w1 ?p = Some (take n d)))
      \<and> (y = Inr () \<longrightarrow> (\<exists>d. encode_pubkeys kn pk = Inr d \<and> held w1 ?p = Some d))"
    if s: "save_pubkeys kn pk ?p w = (y, w1)" for y w1
    using s unfolding save_pubkeys_def
  proof (cases rule: ks_thenE)
    case (stop e)
    have "same_data w w1" using keepsD [OF keeps_calls(3) stop(1), of w] by simp
    from touches_same [OF p this] same_held [OF this] stop(2) show ?thesis by simp
  next
    case (goes_on u w0)
    have s0: "same_data w w0" using keepsD [OF keeps_calls(3) goes_on(1), of w] by simp
    have p0: "plain w0 ?p" using p s0 by (simp add: plain_def)
    show ?thesis
    proof (cases "encode_pubkeys kn pk")
      case (Inl e)
      then have "y = Inl e" "same_data w w1" using goes_on(2) s0 by auto
      from touches_same [OF p this(2)] same_held [OF this(2)] this(1) show ?thesis by simp
    next
      case (Inr d)
      then have "fs_write ?p d w0 = (y, w1)" using goes_on(2) by simp
      note f = fs_write_does [OF this p0]
      from touches_trans [OF touches_same [OF p s0] f(1)] f(2,3) same_held [OF s0] Inr show ?thesis by auto
    qed
  qed
  have "touches ?p w w' \<and> (held w' ?p = held w ?p \<or> (\<exists>d n. encode_pubkeys kn pk = Inr d \<and> held w' ?p = Some (take n d)))
      \<and> (x = Inr fid \<longrightarrow> (\<exists>d. encode_pubkeys kn pk = Inr d \<and> held w' ?p = Some d \<and> from_pubkeys kn cv pk ?p = Inr fid))"
    using a unfolding anchor_and_identity_def
  proof (cases rule: ks_thenE)
    case (stop e)
    then show ?thesis using save by blast
  next
    case (goes_on u w1)
    note sv = save [OF goes_on(1)]
    from goes_on(2) show ?thesis
    proof (cases rule: ks_thenE)
      case (stop e)
      have s: "same_data w1 w'" using keepsD [OF keeps_chmod stop(1), of w1] by simp
      then have "touches ?p w w'" using sv by (simp add: touches_def plain_def)
      then show ?thesis using sv same_held [OF s] stop(2) by simp
    next
      case c: (goes_on v w2)
      have s: "same_data w1 w2" using keepsD [OF keeps_chmod c(1), of w1] by simp
      have "w2 = w'" "x = from_pubkeys kn cv pk ?p" using c(2) by simp_all
      moreover have "touches ?p w w2" using sv s by (simp add: touches_def plain_def)
      ultimately show ?thesis using sv same_held [OF s] by auto
    qed
  qed
  then show "touches ?p w w'" "held w' ?p = held w ?p \<or> (\<exists>d n. encode_pubkeys kn pk = Inr d \<and> held w' ?p = Some (take n d))"
    "x = Inr fid \<Longrightarrow> \<exists>d. encode_pubkeys kn pk = Inr d \<and> held w' ?p = Some d \<and> from_pubkeys kn cv pk ?p = Inr fid" by simp_all
qed

text \<open>What a spawn attempt leaves: no anchor, or its own anchor, whole or torn, over its own shares.\<close>

definition born_of :: "('ss, 'kp, 'pk) keystore_codec \<Rightarrow> string \<Rightarrow> 'pk \<Rightarrow> (frost_id, 'kp) tree \<Rightarrow> 'z ks_world_scheme \<Rightarrow> bool" where
  "born_of kn dir pk kps w \<longleftrightarrow>
     (\<exists>d n. encode_pubkeys kn pk = Inr d \<and> held w (pubkeys_path dir) = Some (take n d)) \<and> shares_held kn dir kps w"

definition deals_well :: "('ss, 'kp, 'pk) keystore_codec \<Rightarrow> string + ('ss, 'pk) dealer_keyset \<Rightarrow> bool" where
  "deals_well kn dealt \<longleftrightarrow> (\<forall>pk kps. split_keyset kn dealt = Inr (pk, kps) \<longrightarrow> dealt_ids kps)"

lemma shares_held_same:
  assumes "\<And>i. i \<in> set share_indices \<Longrightarrow> held w' (share_path dir i) = held w (share_path dir i)" "dealt_ids kps"
  shows "shares_held kn dir kps w' = shares_held kn dir kps w"
proof -
  have "held w' (share_path dir (identifier_to_u16 i)) = held w (share_path dir (identifier_to_u16 i))" if "(i, kp) \<in> set kps" for i kp
  proof -
    have "identifier_to_u16 i \<in> set (map (\<lambda>(i, kp). identifier_to_u16 i) kps)" using that by force
    then have "identifier_to_u16 i \<in> set share_indices" using assms(2) by (simp only: dealt_ids_def)
    then show ?thesis by (rule assms(1))
  qed
  then show ?thesis by (auto simp: shares_held_def split: prod.splits)
qed

lemma first_spawn_does:
  assumes f: "first_spawn kn cv dealt dir w = (x, w')" and c: "clean dir w" and d: "deals_well kn dealt"
    and none: "held w (pubkeys_path dir) = None"
  shows "clean dir w'" and "\<forall>p. p \<notin> keystore_paths dir \<longrightarrow> shape w' p = shape w p"
    and "held w' (pubkeys_path dir) = None \<or> (\<exists>pk kps. split_keyset kn dealt = Inr (pk, kps) \<and> born_of kn dir pk kps w')"
    and "x = Inr fid \<Longrightarrow> \<exists>pk kps d. split_keyset kn dealt = Inr (pk, kps) \<and> shares_held kn dir kps w' \<and> encode_pubkeys kn pk = Inr d
      \<and> held w' (pubkeys_path dir) = Some d \<and> from_pubkeys kn cv pk (pubkeys_path dir) = Inr fid"
proof -
  let ?p = "pubkeys_path dir"
  have "clean dir w' \<and> (\<forall>p. p \<notin> keystore_paths dir \<longrightarrow> shape w' p = shape w p)
    \<and> (held w' ?p = None \<or> (\<exists>pk kps. split_keyset kn dealt = Inr (pk, kps) \<and> born_of kn dir pk kps w'))
    \<and> (x = Inr fid \<longrightarrow> (\<exists>pk kps d. split_keyset kn dealt = Inr (pk, kps) \<and> shares_held kn dir kps w' \<and> encode_pubkeys kn pk = Inr d
      \<and> held w' ?p = Some d \<and> from_pubkeys kn cv pk ?p = Inr fid))"
    using f unfolding first_spawn_def
  proof (cases rule: ks_thenE)
    case (stop e)
    have s: "same_data w w'" using keepsD [OF keeps_calls(3) stop(1), of w] by simp
    show ?thesis using clean_same [OF s c] s same_held [OF s] none stop(2) by simp
  next
    case (goes_on u w1)
    have s1: "same_data w w1" using keepsD [OF keeps_calls(3) goes_on(1), of w] by simp
    have c1: "clean dir w1" by (rule clean_same [OF s1 c])
    have n1: "held w1 ?p = None" using same_held [OF s1] none by simp
    show ?thesis
    proof (cases "split_keyset kn dealt")
      case (Inl e)
      then have "w' = w1" "x = Inl e" using goes_on(2) by simp_all
      then show ?thesis using c1 s1 n1 by simp
    next
      case (Inr r)
      obtain pk kps where sp: "split_keyset kn dealt = Inr (pk, kps)" using Inr by (cases r) simp
      have ids: "map (\<lambda>(i, kp). identifier_to_u16 i) kps = share_indices" and ok: "dealt_ids kps"
        using d sp by (auto simp: deals_well_def dealt_ids_def)
      have dist: "distinct (map (\<lambda>(i, kp). identifier_to_u16 i) kps)" by (simp add: ids share_indices_def)
      from goes_on(2) have "ks_then (write_shares kn dir kps 0 w1) (\<lambda>written w. if written \<noteq> unat SHARE_COUNT then (Inl (Split_mismatch written), w)
          else anchor_and_identity kn cv dir pk w) = (x, w')" by (simp add: sp)
      then show ?thesis
      proof (cases rule: ks_thenE)
        case (stop e)
        note ws = write_shares_does [OF stop(1) c1 dist equalityD1 [OF arg_cong [where f = set, OF ids]]]
        have "?p \<notin> share_path dir ` set share_indices" using share_not_anchor [of _ dir] by (metis imageE)
        then have "held w' ?p = None" using ws n1 by (simp add: held_shape ids)
        then show ?thesis using ws s1 stop(2) by (auto simp: keystore_paths_def ids)
      next
        case wr: (goes_on written w2)
        note ws = write_shares_does [OF wr(1) c1 dist equalityD1 [OF arg_cong [where f = set, OF ids]]]
        have "?p \<notin> share_path dir ` set share_indices" using share_not_anchor [of _ dir] by (metis imageE)
        then have n2: "held w2 ?p = None" using ws n1 by (simp add: held_shape ids)
        have c2: "clean dir w2" and sh: "shares_held kn dir kps w2" and o2: "\<forall>p. p \<notin> keystore_paths dir \<longrightarrow> shape w2 p = shape w p"
          using ws s1 by (auto simp: keystore_paths_def ids)
        have "written = length (map (\<lambda>(i, kp). identifier_to_u16 i) kps)" using ws by simp
        then have "written = unat SHARE_COUNT" by (simp add: ids share_indices_def SHARE_COUNT_def)
        then have a: "anchor_and_identity kn cv dir pk w2 = (x, w')" using wr(2) by simp
        note an = anchor_does [OF a clean_paths(1) [OF c2]]
        have "shares_held kn dir kps w' = shares_held kn dir kps w2"
          by (rule shares_held_same [OF _ ok]) (rule touches_held [OF an(1) share_not_anchor])
        then have "shares_held kn dir kps w'" using sh by simp
        moreover have "\<forall>p. p \<notin> keystore_paths dir \<longrightarrow> shape w' p = shape w p"
          using an(1) o2 by (auto simp: touches_def keystore_paths_def)
        ultimately show ?thesis using clean_touches [OF c2 an(1)] an(2,3) n2 sp by (auto simp: born_of_def)
      qed
    qed
  qed
  then show "clean dir w'" "\<forall>p. p \<notin> keystore_paths dir \<longrightarrow> shape w' p = shape w p"
    "held w' ?p = None \<or> (\<exists>pk kps. split_keyset kn dealt = Inr (pk, kps) \<and> born_of kn dir pk kps w')"
    "x = Inr fid \<Longrightarrow> \<exists>pk kps d. split_keyset kn dealt = Inr (pk, kps) \<and> shares_held kn dir kps w' \<and> encode_pubkeys kn pk = Inr d
      \<and> held w' ?p = Some d \<and> from_pubkeys kn cv pk ?p = Inr fid" by simp_all
qed

text \<open>The first call of an attempt asks whether there is an anchor; when it answers, it answers the truth.\<close>

definition stat_answers :: "io_fault list \<Rightarrow> bool" where
  "stat_answers faults \<longleftrightarrow> faults = [] \<or> hd faults = Io_ok"

lemma anchor_seen:
  assumes "has_identity_anchor dir w = (b, w')" "stat_answers (kw_faults w)" "plain w (pubkeys_path dir)"
  shows "b \<longleftrightarrow> held w (pubkeys_path dir) \<noteq> None" "same_data w w'" "kw_fs w' = kw_fs w"
proof -
  obtain y w1 where y: "next_io w = (y, w1)" by fastforce
  then have "y = Io_ok" using assms(2) by (auto simp: next_io_def stat_answers_def split: list.splits)
  moreover have fs: "kw_fs w1 = kw_fs w" using next_io_same' [OF y] by simp
  have "stat_node (pubkeys_path dir) w1 = kw_fs w (pubkeys_path dir)"
    using stat_plain [of w1 "pubkeys_path dir"] assms(3) fs by (simp add: plain_iff)
  ultimately show "b \<longleftrightarrow> held w (pubkeys_path dir) \<noteq> None" "same_data w w'" "kw_fs w' = kw_fs w"
    using assms(1) y fs next_io_same' [OF y]
    by (auto simp: has_identity_anchor_def path_is_file_def held_def split: option.splits ks_node.splits)
qed

lemma provision_established:
  assumes p: "provision_keyset_at kn cv dealt dir w = (x, w')" and s: "stat_answers (kw_faults w)" and c: "plain w (pubkeys_path dir)"
    and some: "held w (pubkeys_path dir) \<noteq> None"
  shows "same_data w w'"
proof -
  obtain b w1 where b: "has_identity_anchor dir w = (b, w1)" by fastforce
  note seen = anchor_seen [OF b s c]
  have "ks_then (in_context (Established ''anchor'') (frost_identity_load kn cv (pubkeys_path dir) w1)) (\<lambda>fid w.
      ks_then (in_context (Established ''shares'') (assert_shares_loadable kn dir w)) (\<lambda>_ w. (Inr fid, w))) = (x, w')"
    using p b seen(1) some by (simp add: provision_keyset_at_def)
  moreover have "keeps w (ks_then (in_context (Established ''anchor'') (frost_identity_load kn cv (pubkeys_path dir) w1)) (\<lambda>fid w.
      ks_then (in_context (Established ''shares'') (assert_shares_loadable kn dir w)) (\<lambda>_ w. (Inr fid, w))))"
    unfolding assert_shares_loadable_def using seen(2) by (auto intro!: reads)
  ultimately show ?thesis by (auto dest: keepsD)
qed

section \<open>A life of a keystore\<close>

text \<open>Spawn attempts, each with the keyset its dealer generated, and loads; each meets its own faults.\<close>

datatype ('ss, 'pk) ks_op =
    Provision "string + ('ss, 'pk) dealer_keyset" "io_fault list"
  | Load_material "io_fault list"
  | Ask_loadable "io_fault list"

fun run_op ::
  "('ss, 'kp, 'pk) keystore_codec \<Rightarrow> 'pk curve \<Rightarrow> string \<Rightarrow> ('ss, 'pk) ks_op \<Rightarrow> 'z ks_world_scheme \<Rightarrow> 'z ks_world_scheme" where
  "run_op kn cv dir (Provision dealt faults) w = snd (provision_keyset_at kn cv dealt dir (w\<lparr>kw_faults := faults\<rparr>))"
| "run_op kn cv dir (Load_material faults) w = snd (load_keyset_material_at kn cv dir (w\<lparr>kw_faults := faults\<rparr>))"
| "run_op kn cv dir (Ask_loadable faults) w = snd (keystore_loadable_at kn dir (w\<lparr>kw_faults := faults\<rparr>))"

definition run_ops where "run_ops kn cv dir = fold (run_op kn cv dir)"

fun op_ok :: "('ss, 'kp, 'pk) keystore_codec \<Rightarrow> ('ss, 'pk) ks_op \<Rightarrow> bool" where
  "op_ok kn (Provision dealt faults) \<longleftrightarrow> stat_answers faults \<and> deals_well kn dealt"
| "op_ok kn (Load_material faults) \<longleftrightarrow> True"
| "op_ok kn (Ask_loadable faults) \<longleftrightarrow> True"

definition dealt_in :: "('ss, 'pk) ks_op list \<Rightarrow> (string + ('ss, 'pk) dealer_keyset) set" where
  "dealt_in ops = {dealt. \<exists>faults. Provision dealt faults \<in> set ops}"

lemma plain_faults [simp]: "plain (w\<lparr>kw_faults := f\<rparr>) p = plain w p" by (simp add: plain_def)

lemma clean_faults [simp]: "clean dir (w\<lparr>kw_faults := f\<rparr>) = clean dir w" by (simp add: clean_def)

lemma held_faults [simp]: "held (w\<lparr>kw_faults := f\<rparr>) p = held w p" by (simp add: held_shape)

lemma load_op_same: "same_data w (snd (load_keyset_material_at kn cv dir (w\<lparr>kw_faults := f\<rparr>)))"
  "same_data w (snd (keystore_loadable_at kn dir (w\<lparr>kw_faults := f\<rparr>)))"
proof -
  have "keeps w (load_keyset_material_at kn cv dir (w\<lparr>kw_faults := f\<rparr>))" "keeps w (keystore_loadable_at kn dir (w\<lparr>kw_faults := f\<rparr>))"
    by (rule keeps_material keeps_loadable, simp)+
  then show "same_data w (snd (load_keyset_material_at kn cv dir (w\<lparr>kw_faults := f\<rparr>)))"
    "same_data w (snd (keystore_loadable_at kn dir (w\<lparr>kw_faults := f\<rparr>)))" by (simp_all only: keeps_def)
qed

lemma op_established:
  assumes "op_ok kn op" "clean dir w" "held w (pubkeys_path dir) \<noteq> None"
  shows "same_data w (run_op kn cv dir op w)"
proof (cases op)
  case (Provision dealt faults)
  let ?w = "w\<lparr>kw_faults := faults\<rparr>"
  obtain x w' where p: "provision_keyset_at kn cv dealt dir ?w = (x, w')" by fastforce
  have "same_data ?w w'"
    by (rule provision_established [OF p]) (use assms Provision clean_paths(1) [OF assms(2)] in simp_all)
  then show ?thesis using Provision p by simp
qed (simp_all only: run_op.simps load_op_same)

lemma op_unborn:
  assumes o: "op_ok kn op" and c: "clean dir w" and none: "held w (pubkeys_path dir) = None"
  shows "clean dir (run_op kn cv dir op w)"
    "held (run_op kn cv dir op w) (pubkeys_path dir) = None
      \<or> (\<exists>dealt\<in>dealt_in [op]. \<exists>pk kps. split_keyset kn dealt = Inr (pk, kps) \<and> born_of kn dir pk kps (run_op kn cv dir op w))"
proof -
  have "clean dir (run_op kn cv dir op w) \<and> (held (run_op kn cv dir op w) (pubkeys_path dir) = None
      \<or> (\<exists>dealt\<in>dealt_in [op]. \<exists>pk kps. split_keyset kn dealt = Inr (pk, kps) \<and> born_of kn dir pk kps (run_op kn cv dir op w)))"
  proof (cases op)
    case (Provision dealt faults)
    let ?w = "w\<lparr>kw_faults := faults\<rparr>"
    obtain x w' where p: "provision_keyset_at kn cv dealt dir ?w = (x, w')" by fastforce
    obtain b w1 where b: "has_identity_anchor dir ?w = (b, w1)" by fastforce
    note seen = anchor_seen [OF b]
    have s: "\<not> b" "same_data w w1" using seen o Provision clean_paths(1) [OF c] none by simp_all
    have n1: "held w1 (pubkeys_path dir) = None" using same_held [OF s(2)] none by simp
    have "first_spawn kn cv dealt dir w1 = (x, w')" using p b s(1) by (simp add: provision_keyset_at_def)
    note f = first_spawn_does [OF this clean_same [OF s(2) c] _ n1]
    show ?thesis using f(1,3) o Provision p by (simp add: dealt_in_def)
  next
    case (Load_material faults)
    note s = load_op_same(1) [where w = w and kn = kn and cv = cv and dir = dir and f = faults]
    show ?thesis using clean_same [OF s c] same_held [OF s] none Load_material by simp
  next
    case (Ask_loadable faults)
    note s = load_op_same(2) [where w = w and kn = kn and dir = dir and f = faults]
    show ?thesis using clean_same [OF s c] same_held [OF s] none Ask_loadable by simp
  qed
  then show "clean dir (run_op kn cv dir op w)"
    "held (run_op kn cv dir op w) (pubkeys_path dir) = None
      \<or> (\<exists>dealt\<in>dealt_in [op]. \<exists>pk kps. split_keyset kn dealt = Inr (pk, kps) \<and> born_of kn dir pk kps (run_op kn cv dir op w))"
    by simp_all
qed

lemma ops_established:
  assumes "\<forall>op\<in>set ops. op_ok kn op" "clean dir w" "held w (pubkeys_path dir) \<noteq> None"
  shows "same_data w (run_ops kn cv dir ops w)"
  using assms
proof (induction ops arbitrary: w)
  case (Cons op ops)
  have s: "same_data w (run_op kn cv dir op w)" by (rule op_established) (use Cons.prems in simp_all)
  have "same_data (run_op kn cv dir op w) (run_ops kn cv dir ops (run_op kn cv dir op w))"
    by (rule Cons.IH) (use Cons.prems clean_same [OF s] same_held [OF s] in simp_all)
  then show ?case using s by (simp add: run_ops_def)
qed (simp add: run_ops_def)

lemma born_same: "same_data w w' \<Longrightarrow> born_of kn dir pk kps w' = born_of kn dir pk kps w"
  by (simp add: born_of_def shares_held_def held_shape)

lemma ops_born:
  assumes "\<forall>op\<in>set ops. op_ok kn op" "clean dir w" "held w (pubkeys_path dir) = None"
  shows "clean dir (run_ops kn cv dir ops w)"
    "held (run_ops kn cv dir ops w) (pubkeys_path dir) = None
      \<or> (\<exists>dealt\<in>dealt_in ops. \<exists>pk kps. split_keyset kn dealt = Inr (pk, kps) \<and> born_of kn dir pk kps (run_ops kn cv dir ops w))"
proof -
  have "clean dir (run_ops kn cv dir ops w) \<and> (held (run_ops kn cv dir ops w) (pubkeys_path dir) = None
      \<or> (\<exists>dealt\<in>dealt_in ops. \<exists>pk kps. split_keyset kn dealt = Inr (pk, kps) \<and> born_of kn dir pk kps (run_ops kn cv dir ops w)))"
    using assms
  proof (induction ops arbitrary: w)
    case (Cons op ops)
    let ?w = "run_op kn cv dir op w"
    have u: "clean dir ?w" "held ?w (pubkeys_path dir) = None
      \<or> (\<exists>dealt\<in>dealt_in [op]. \<exists>pk kps. split_keyset kn dealt = Inr (pk, kps) \<and> born_of kn dir pk kps ?w)"
      by (rule op_unborn; use Cons.prems in simp)+
    have sub: "dealt_in [op] \<subseteq> dealt_in (op # ops)" "dealt_in ops \<subseteq> dealt_in (op # ops)" by (auto simp: dealt_in_def)
    show ?case
    proof (cases "held ?w (pubkeys_path dir) = None")
      case True
      have "clean dir (run_ops kn cv dir ops ?w) \<and> (held (run_ops kn cv dir ops ?w) (pubkeys_path dir) = None
          \<or> (\<exists>dealt\<in>dealt_in ops. \<exists>pk kps. split_keyset kn dealt = Inr (pk, kps) \<and> born_of kn dir pk kps (run_ops kn cv dir ops ?w)))"
        by (rule Cons.IH) (use Cons.prems u(1) True in simp_all)
      then show ?thesis using sub(2) by (auto simp: run_ops_def)
    next
      case False
      have s: "same_data ?w (run_ops kn cv dir ops ?w)" by (rule ops_established) (use Cons.prems u(1) False in simp_all)
      obtain dealt pk kps where b: "dealt \<in> dealt_in (op # ops)" "split_keyset kn dealt = Inr (pk, kps)" "born_of kn dir pk kps ?w"
        using u(2) False sub(1) by blast
      have "born_of kn dir pk kps (run_ops kn cv dir ops ?w)" using b(3) by (simp only: born_same [OF s])
      with b(1,2) clean_same [OF s u(1)] show ?thesis by (auto simp: run_ops_def)
    qed
  qed (simp add: run_ops_def)
  then show "clean dir (run_ops kn cv dir ops w)"
    "held (run_ops kn cv dir ops w) (pubkeys_path dir) = None
      \<or> (\<exists>dealt\<in>dealt_in ops. \<exists>pk kps. split_keyset kn dealt = Inr (pk, kps) \<and> born_of kn dir pk kps (run_ops kn cv dir ops w))"
    by simp_all
qed

lemma load_answer:
  assumes l: "frost_identity_load kn cv p w = (Inr fid, w')" and p: "plain w p"
  shows "\<exists>d pk. held w p = Some d \<and> decode_pubkeys kn d = Inr pk \<and> from_pubkeys kn cv pk p = Inr fid \<and> fi_pubkeys fid = pk"
  using l unfolding frost_identity_load_def
proof (cases rule: ks_thenE)
  case (goes_on node w1)
  have "same_data w w1 \<and> node = kw_fs w p" using goes_on(1)
  proof (elim sys_cases)
    fix w0 assume s: "same_data w w0" "kw_fs w0 = kw_fs w" "(Inr (stat_node p w0), w0) = (Inr node, w1)"
    note stat_fs [OF s(2), of p]
    then show ?thesis using s stat_plain [OF p] by simp
  qed simp
  then have s1: "same_data w w1" and n: "node = kw_fs w p" by simp_all
  have p1: "plain w1 p" using p s1 by (simp add: plain_def)
  obtain m d where r: "kw_fs w p = Some (Regular m d)" using goes_on(2) p n by (auto simp: plain_iff)
  have "ks_then (read_path p w1) (\<lambda>bytes w. case decode_pubkeys kn bytes of Inl e \<Rightarrow> (Inl e, w)
      | Inr pk \<Rightarrow> (from_pubkeys kn cv pk p, w)) = (Inr fid, w')" using goes_on(2) n r by (auto split: if_splits)
  then show ?thesis
  proof (cases rule: ks_thenE)
    case g: (goes_on b w2)
    have "held w p = Some b" using g(1) unfolding read_path_def
    proof (elim sys_cases)
      fix w3 assume s: "same_data w1 w3" and c: "(case stat_node p w3 of Some (Regular m d) \<Rightarrow> (Inr d, w3) | _ \<Rightarrow> (Inl (Io_error ''read'' p), w3)) = (Inr b, w2)"
      have "plain w3 p" using p1 s by (simp add: plain_def)
      then have "held w3 p = Some b" using c stat_plain [of w3 p] by (auto simp: held_def split: option.splits ks_node.splits)
      then show ?thesis using s s1 by (simp add: held_shape)
    qed simp
    then show ?thesis using g(2) by (auto simp: from_pubkeys_def split: sum.splits)
  qed simp
qed simp

lemma provision_answer:
  assumes p: "provision_keyset_at kn cv dealt dir w = (Inr fid, w')" and s: "stat_answers (kw_faults w)" and c: "plain w (pubkeys_path dir)"
    and some: "held w (pubkeys_path dir) = Some d"
  shows "decode_pubkeys kn d = Inr (fi_pubkeys fid)"
proof -
  obtain b w1 where b: "has_identity_anchor dir w = (b, w1)" by fastforce
  note seen = anchor_seen [OF b s c]
  have "plain w1 (pubkeys_path dir)" using c seen(2) by (simp add: plain_def)
  moreover have "ks_then (in_context (Established ''anchor'') (frost_identity_load kn cv (pubkeys_path dir) w1)) (\<lambda>fid w.
      ks_then (in_context (Established ''shares'') (assert_shares_loadable kn dir w)) (\<lambda>_ w. (Inr fid, w))) = (Inr fid, w')"
    using p b seen(1) some by (simp add: provision_keyset_at_def)
  then obtain w2 where "frost_identity_load kn cv (pubkeys_path dir) w1 = (Inr fid, w2)"
    by (elim ks_thenE) auto
  ultimately show ?thesis using load_answer [of kn cv "pubkeys_path dir" w1 fid w2] same_held [OF seen(2)] some by auto
qed

text \<open>C15: An agent is born once. From a directory without an identity, through any sequence of spawn attempts and loads, each
  of which may stop at any system call and in the middle of any write: once the anchor exists at all, it is what one of the
  attempts wrote of the group it dealt, and the three share files hold exactly that attempt's shares, whole; from then on no
  attempt changes a byte of the keystore, whatever it deals; and whenever one reports an identity, it is the one
  the anchor encodes. This needs that the question whether the anchor exists is answered.\<close>

theorem identity_born_once:
  assumes start: "clean dir w0" "held w0 (pubkeys_path dir) = None" and ok: "\<forall>op\<in>set (ops1 @ ops2). op_ok kn op"
    and born: "held (run_ops kn cv dir ops1 w0) (pubkeys_path dir) = Some anchor"
  shows "(\<exists>dealt\<in>dealt_in ops1. \<exists>pk kps. split_keyset kn dealt = Inr (pk, kps) \<and> born_of kn dir pk kps (run_ops kn cv dir ops1 w0))
    \<and> (\<forall>p. held (run_ops kn cv dir (ops1 @ ops2) w0) p = held (run_ops kn cv dir ops1 w0) p)
    \<and> (\<forall>dealt faults fid w'. stat_answers faults
         \<longrightarrow> provision_keyset_at kn cv dealt dir (run_ops kn cv dir (ops1 @ ops2) w0\<lparr>kw_faults := faults\<rparr>) = (Inr fid, w')
         \<longrightarrow> decode_pubkeys kn anchor = Inr (fi_pubkeys fid))"
proof -
  let ?w1 = "run_ops kn cv dir ops1 w0" and ?w2 = "run_ops kn cv dir (ops1 @ ops2) w0"
  have split: "?w2 = run_ops kn cv dir ops2 ?w1" by (simp add: run_ops_def)
  have u: "clean dir ?w1" "held ?w1 (pubkeys_path dir) = None
      \<or> (\<exists>dealt\<in>dealt_in ops1. \<exists>pk kps. split_keyset kn dealt = Inr (pk, kps) \<and> born_of kn dir pk kps ?w1)"
    by (rule ops_born; use start ok in simp)+
  have s: "same_data ?w1 ?w2" unfolding split by (rule ops_established) (use ok u(1) born in simp_all)
  have "decode_pubkeys kn anchor = Inr (fi_pubkeys fid)"
    if f: "stat_answers faults" "provision_keyset_at kn cv dealt dir (?w2\<lparr>kw_faults := faults\<rparr>) = (Inr fid, w')" for dealt faults fid w'
    by (rule provision_answer [OF f(2)])
      (use f(1) clean_paths(1) [OF clean_same [OF s u(1)]] born same_held [OF s] in simp_all)
  then show ?thesis using u(2) born same_held [OF s] by auto
qed

section \<open>When nothing fails\<close>

abbreviation calm :: "'z ks_world_scheme \<Rightarrow> bool" where "calm w \<equiv> kw_faults w = []"

lemma calm_sys: "calm w \<Longrightarrow> sys what p f w = f w" by (simp add: sys_def next_io_def)

lemma calm_set [simp]: "kw_faults (set_node p n w) = kw_faults w" by (simp add: set_node_def)

lemma calm_write_file:
  assumes "calm w" "plain w p" shows "\<exists>w'. write_file_0600 p d w = (Inr (), w') \<and> calm w'"
  using assms(2) by (cases rule: plain_cases)
    (use assms(1) in \<open>auto simp: write_file_0600_def lstat_def calm_sys open_nofollow_def open_at_def fchmod_def write_all_def
      put_bytes_def flush_file_def set_node_def next_io_def\<close>)

lemma calm_fs_write:
  assumes "calm w" "plain w p" shows "\<exists>w'. fs_write p d w = (Inr (), w') \<and> calm w'"
  using assms(2) by (cases rule: plain_cases)
    (use assms(1) follow_plain [OF assms(2)] in \<open>auto simp: fs_write_def open_follow_def calm_sys open_at_def write_all_def
      put_bytes_def set_node_def next_io_def\<close>)

lemma calm_chmod:
  assumes "calm w" "held w p = Some d" "plain w p" shows "\<exists>w'. set_permissions p m w = (Inr (), w') \<and> calm w' \<and> same_data w w'"
proof -
  obtain m' where f: "kw_fs w p = Some (Regular m' d)" using held_file [OF assms(2)] by blast
  then show ?thesis using assms(1) follow_plain [OF assms(3)] shape_chmod [OF f] by (simp add: set_permissions_def calm_sys)
qed

lemma calm_is_file:
  assumes "calm w" "held w p = Some d" "plain w p" shows "path_is_file p w = (True, w)"
  using assms(1) held_file [OF assms(2)] stat_plain [OF assms(3)] by (auto simp: path_is_file_def next_io_def)

lemma calm_share:
  assumes "calm w" "held w p = Some d" "plain w p" "length d \<le> MAX_SHARE_BYTES"
  shows "\<exists>w'. read_share_file p w = (Inr d, w') \<and> calm w' \<and> same_data w w'"
proof -
  obtain m' where f: "kw_fs w p = Some (Regular m' d)" using held_file [OF assms(2)] by blast
  obtain w' where c: "set_permissions p 384 w = (Inr (), w')" "calm w'" "same_data w w'" using calm_chmod [OF assms(1-3)] by blast
  have "held w' p = Some d" "plain w' p" using assms(2,3) c(3) by (simp_all add: held_shape plain_def)
  then have "read_path p w' = (Inr d, w')" using c(2) stat_plain [of w' p] held_file [of w' p d]
    by (auto simp: read_path_def calm_sys)
  then show ?thesis using assms(1,4) f c by (simp add: read_share_file_def lstat_def calm_sys)
qed

lemma calm_load:
  assumes "calm w" "held w p = Some d" "plain w p" "length d \<le> MAX_KEYSTORE_BYTES" "decode_pubkeys kn d = Inr pk"
  shows "frost_identity_load kn cv p w = (from_pubkeys kn cv pk p, w)"
proof -
  obtain m' where f: "kw_fs w p = Some (Regular m' d)" using held_file [OF assms(2)] by blast
  then show ?thesis using assms stat_plain [OF assms(3)] by (simp add: frost_identity_load_def calm_sys read_path_def)
qed

text \<open>Shares that are there, of a size that is read, in a form that parses.\<close>

fun readable :: "('ss, 'kp, 'pk) keystore_codec \<Rightarrow> string \<Rightarrow> u16 list \<Rightarrow> 'kp list \<Rightarrow> 'z ks_world_scheme \<Rightarrow> bool" where
  "readable kn dir (i # idxs) (kp # kps) w \<longleftrightarrow> plain w (share_path dir i)
     \<and> (\<exists>d. held w (share_path dir i) = Some d \<and> length d \<le> MAX_SHARE_BYTES \<and> kp_parse kn d = Inr kp) \<and> readable kn dir idxs kps w"
| "readable kn dir [] [] w \<longleftrightarrow> True"
| "readable kn dir _ _ w \<longleftrightarrow> False"

lemma readable_same: "same_data w w' \<Longrightarrow> readable kn dir idxs kps w' = readable kn dir idxs kps w"
  by (induction kn dir idxs kps w rule: readable.induct) (auto simp: plain_def held_shape)

lemma calm_check:
  assumes "calm w" "readable kn dir idxs kps w"
  shows "\<exists>w'. check_shares kn dir idxs w = (Inr (), w') \<and> calm w' \<and> same_data w w'"
  using assms
proof (induction idxs arbitrary: kps w)
  case Nil
  then show ?case by (cases kps) simp_all
next
  case (Cons i idxs)
  obtain kp kps' where k: "kps = kp # kps'" using Cons.prems(2) by (cases kps) simp_all
  obtain d where d: "held w (share_path dir i) = Some d" "length d \<le> MAX_SHARE_BYTES" "kp_parse kn d = Inr kp" "plain w (share_path dir i)"
    using Cons.prems(2) k by auto
  obtain w1 where w1: "read_share_file (share_path dir i) w = (Inr d, w1)" "calm w1" "same_data w w1"
    using calm_share [OF Cons.prems(1) d(1,4,2)] by blast
  have "readable kn dir idxs kps' w1" using Cons.prems(2) k by (simp add: readable_same [OF w1(3)])
  then obtain w' where "check_shares kn dir idxs w1 = (Inr (), w')" "calm w'" "same_data w1 w'"
    using Cons.IH [OF w1(2)] by blast
  then show ?case using w1 d k calm_is_file [OF Cons.prems(1) d(1,4)] by simp
qed

lemma calm_packages:
  assumes "calm w" "readable kn dir idxs kps w"
  shows "\<exists>w'. read_key_packages kn dir idxs w = (Inr kps, w') \<and> calm w' \<and> same_data w w'"
  using assms
proof (induction idxs arbitrary: kps w)
  case Nil
  then show ?case by (cases kps) simp_all
next
  case (Cons i idxs)
  obtain kp kps' where k: "kps = kp # kps'" using Cons.prems(2) by (cases kps) simp_all
  obtain d where d: "held w (share_path dir i) = Some d" "length d \<le> MAX_SHARE_BYTES" "kp_parse kn d = Inr kp" "plain w (share_path dir i)"
    using Cons.prems(2) k by auto
  obtain w1 where w1: "read_share_file (share_path dir i) w = (Inr d, w1)" "calm w1" "same_data w w1"
    using calm_share [OF Cons.prems(1) d(1,4,2)] by blast
  have "readable kn dir idxs kps' w1" using Cons.prems(2) k by (simp add: readable_same [OF w1(3)])
  then obtain w' where "read_key_packages kn dir idxs w1 = (Inr kps', w')" "calm w'" "same_data w1 w'"
    using Cons.IH [OF w1(2)] by blast
  then show ?case using w1 d k by simp
qed

lemma calm_files:
  assumes "calm w" "\<And>p. p \<in> set ps \<Longrightarrow> plain w p \<and> held w p \<noteq> None" shows "all_files ps w = (True, w)"
  using assms
proof (induction ps)
  case (Cons p ps)
  obtain d where "held w p = Some d" using Cons.prems(2) [of p] by auto
  then have "path_is_file p w = (True, w)" using calm_is_file [OF Cons.prems(1)] Cons.prems(2) [of p] by simp
  then show ?case using Cons by simp
qed simp

lemma readable_files: "readable kn dir idxs kps w \<Longrightarrow> i \<in> set idxs \<Longrightarrow> plain w (share_path dir i) \<and> held w (share_path dir i) \<noteq> None"
  by (induction kn dir idxs kps w rule: readable.induct) auto

lemma calm_provisioned:
  assumes "calm w" "plain w (pubkeys_path dir)" "held w (pubkeys_path dir) \<noteq> None" "readable kn dir share_indices kps w"
  shows "is_provisioned dir w = (True, w)"
  unfolding is_provisioned_def by (rule calm_files [OF assms(1)]) (use assms(2,3) readable_files [OF assms(4)] in auto)

text \<open>A keyset whose parts encode, in sizes that are read, and decode to themselves.\<close>

definition storable :: "('ss, 'kp, 'pk) keystore_codec \<Rightarrow> 'pk \<Rightarrow> (frost_id, 'kp) tree \<Rightarrow> bool" where
  "storable kn pk kps \<longleftrightarrow> dealt_ids kps
     \<and> (\<exists>d. encode_pubkeys kn pk = Inr d \<and> length d \<le> MAX_KEYSTORE_BYTES \<and> decode_pubkeys kn d = Inr pk)
     \<and> (\<forall>(i, kp)\<in>set kps. \<exists>d. kp_bytes kn kp = Inr d \<and> length d \<le> MAX_SHARE_BYTES \<and> kp_parse kn d = Inr kp)"

lemma calm_write_shares:
  assumes "calm w" "clean dir w" "set (map (\<lambda>(i, kp). identifier_to_u16 i) kps) \<subseteq> set share_indices"
    "\<forall>(i, kp)\<in>set kps. \<exists>d. kp_bytes kn kp = Inr d"
  shows "\<exists>w'. write_shares kn dir kps n w = (Inr (n + length kps), w') \<and> calm w'"
  using assms
proof (induction kps arbitrary: n w)
  case (Cons k kps)
  obtain i kp where k: "k = (i, kp)" by fastforce
  obtain d where d: "kp_bytes kn kp = Inr d" using Cons.prems(4) k by auto
  have i: "identifier_to_u16 i \<in> set share_indices" using Cons.prems(3) k by simp
  note p = clean_paths(2) [OF Cons.prems(2) i]
  obtain w1 where w1: "write_file_0600 (share_path dir (identifier_to_u16 i)) d w = (Inr (), w1)" "calm w1"
    using calm_write_file [OF Cons.prems(1) p] by blast
  have c1: "clean dir w1" by (rule clean_touches [OF Cons.prems(2) write_file_does(1) [OF w1(1) p]])
  have "\<exists>w'. write_shares kn dir kps (n + 1) w1 = (Inr (n + 1 + length kps), w') \<and> calm w'"
    by (rule Cons.IH [OF w1(2) c1]) (use Cons.prems(3,4) in auto)
  then show ?case using k d w1(1) by simp
qed simp

lemma readable_held:
  assumes "shares_held kn dir kps w" "clean dir w" "dealt_ids kps"
    "\<forall>(i, kp)\<in>set kps. \<exists>d. kp_bytes kn kp = Inr d \<and> length d \<le> MAX_SHARE_BYTES \<and> kp_parse kn d = Inr kp"
  shows "readable kn dir share_indices (map snd kps) w"
proof -
  have "readable kn dir (map (\<lambda>(i, kp). identifier_to_u16 i) ks) (map snd ks) w" if "set ks \<subseteq> set kps" for ks
    using that
  proof (induction ks)
    case (Cons k ks)
    obtain i kp where k: "k = (i, kp)" by fastforce
    then have in_kps: "(i, kp) \<in> set kps" using Cons.prems by simp
    obtain d where d: "kp_bytes kn kp = Inr d" "length d \<le> MAX_SHARE_BYTES" "kp_parse kn d = Inr kp" using assms(4) in_kps by blast
    have "held w (share_path dir (identifier_to_u16 i)) = Some d" using assms(1) in_kps d(1) by (auto simp: shares_held_def)
    moreover have "identifier_to_u16 i \<in> set (map (\<lambda>(i, kp). identifier_to_u16 i) kps)" using in_kps by force
    then have "plain w (share_path dir (identifier_to_u16 i))" using assms(2,3) clean_paths(2) by (simp only: dealt_ids_def)
    ultimately show ?case using Cons d k by auto
  qed simp
  from this [of kps] assms(3) show ?thesis by (simp add: dealt_ids_def)
qed

lemma calm_first_spawn:
  assumes c: "calm w" "clean dir w" and sp: "split_keyset kn dealt = Inr (pk, kps)" and st: "storable kn pk kps"
  shows "\<exists>w' d. first_spawn kn cv dealt dir w = (from_pubkeys kn cv pk (pubkeys_path dir), w') \<and> calm w' \<and> clean dir w'
    \<and> encode_pubkeys kn pk = Inr d \<and> held w' (pubkeys_path dir) = Some d \<and> shares_held kn dir kps w'"
proof -
  let ?p = "pubkeys_path dir"
  have ids: "map (\<lambda>(i, kp). identifier_to_u16 i) kps = share_indices" using st by (simp add: storable_def dealt_ids_def)
  have dist: "distinct (map (\<lambda>(i, kp). identifier_to_u16 i) kps)" by (simp add: ids share_indices_def)
  note sub = equalityD1 [OF arg_cong [where f = set, OF ids]]
  have bytes: "\<forall>(i, kp)\<in>set kps. \<exists>d. kp_bytes kn kp = Inr d" using st by (fastforce simp: storable_def)
  obtain w1 where w1: "write_shares kn dir kps 0 w = (Inr (0 + length kps), w1)" "calm w1"
    using calm_write_shares [OF c sub bytes] by blast
  note ws = write_shares_does [OF w1(1) c(2) dist sub]
  have n: "length kps = unat SHARE_COUNT" using arg_cong [where f = length, OF ids] by (simp add: share_indices_def SHARE_COUNT_def)
  obtain d where d: "encode_pubkeys kn pk = Inr d" using st by (auto simp: storable_def)
  have c1: "clean dir w1" using ws by blast
  obtain w2 where w2: "fs_write ?p d w1 = (Inr (), w2)" "calm w2" using calm_fs_write [OF w1(2) clean_paths(1) [OF c1]] by blast
  note fw = fs_write_does [OF w2(1) clean_paths(1) [OF c1]]
  have h2: "held w2 ?p = Some d" using fw(3) by simp
  have c2: "clean dir w2" by (rule clean_touches [OF c1 fw(1)])
  obtain w3 where w3: "set_permissions ?p 384 w2 = (Inr (), w3)" "calm w3" "same_data w2 w3"
    using calm_chmod [OF w2(2) h2 clean_paths(1) [OF c2]] by blast
  have "first_spawn kn cv dealt dir w = (from_pubkeys kn cv pk ?p, w3)"
    using c(1) sp w1 n d w2(1,2) w3(1) by (simp add: first_spawn_def create_dir_all_def calm_sys anchor_and_identity_def save_pubkeys_def)
  moreover have "shares_held kn dir kps w2 = shares_held kn dir kps w1"
    by (rule shares_held_same) (use touches_held [OF fw(1) share_not_anchor] st in \<open>simp_all add: storable_def\<close>)
  then have "shares_held kn dir kps w3" using ws w3(3) by (simp add: shares_held_def held_shape)
  ultimately show ?thesis using w3 d h2 same_held [OF w3(3)] clean_same [OF w3(3) c2] by auto
qed

text \<open>A keystore that is whole, and what it gives.\<close>

definition whole :: "('ss, 'kp, 'pk) keystore_codec \<Rightarrow> string \<Rightarrow> 'pk \<Rightarrow> (frost_id, 'kp) tree \<Rightarrow> 'z ks_world_scheme \<Rightarrow> bool" where
  "whole kn dir pk kps w \<longleftrightarrow> clean dir w \<and> storable kn pk kps \<and> shares_held kn dir kps w
     \<and> (\<exists>d. encode_pubkeys kn pk = Inr d \<and> held w (pubkeys_path dir) = Some d)"

lemma whole_gives:
  assumes c: "calm w" and wh: "whole kn dir pk kps w"
  shows "\<exists>w'. load_keyset_material_at kn cv dir w = (case from_pubkeys kn cv pk (pubkeys_path dir) of Inl e \<Rightarrow> Inl e | Inr fid \<Rightarrow> Inr (map snd kps, pk), w')"
    and "from_pubkeys kn cv pk (pubkeys_path dir) = Inr fid \<Longrightarrow> \<exists>w'. provision_keyset_at kn cv dealt dir w = (Inr fid, w')"
    and "fst (keystore_loadable_at kn dir w)"
proof -
  let ?p = "pubkeys_path dir"
  have cl: "clean dir w" and st: "storable kn pk kps" and sh: "shares_held kn dir kps w" using wh by (simp_all add: whole_def)
  obtain d where d: "encode_pubkeys kn pk = Inr d" "length d \<le> MAX_KEYSTORE_BYTES" "decode_pubkeys kn d = Inr pk" "held w ?p = Some d"
    using wh by (auto simp: whole_def storable_def)
  note p = clean_paths(1) [OF cl]
  have r: "readable kn dir share_indices (map snd kps) w"
    by (rule readable_held [OF sh cl]) (use st in \<open>auto simp: storable_def\<close>)
  have pr: "is_provisioned dir w = (True, w)" by (rule calm_provisioned [OF c p _ r]) (simp add: d)
  have an: "has_identity_anchor dir w = (True, w)" using calm_is_file [OF c d(4) p] by (simp add: has_identity_anchor_def)
  note ld = calm_load [OF c d(4) p d(2,3)]
  obtain w1 where w1: "read_key_packages kn dir share_indices w = (Inr (map snd kps), w1)" using calm_packages [OF c r] by blast
  obtain w2 where w2: "check_shares kn dir share_indices w = (Inr (), w2)" using calm_check [OF c r] by blast
  show "\<exists>w'. load_keyset_material_at kn cv dir w = (case from_pubkeys kn cv pk ?p of Inl e \<Rightarrow> Inl e | Inr fid \<Rightarrow> Inr (map snd kps, pk), w')"
    using pr ld w1 by (cases "from_pubkeys kn cv pk ?p") (auto simp: load_keyset_material_at_def from_pubkeys_def split: sum.splits)
  show "from_pubkeys kn cv pk ?p = Inr fid \<Longrightarrow> \<exists>w'. provision_keyset_at kn cv dealt dir w = (Inr fid, w')"
    using an ld w2 by (simp add: provision_keyset_at_def assert_shares_loadable_def in_context_def)
  show "fst (keystore_loadable_at kn dir w)" using pr w2 by (simp add: keystore_loadable_at_def assert_shares_loadable_def)
qed

lemma calm_born:
  assumes c: "calm w" "clean dir w" "held w (pubkeys_path dir) = None" and sp: "split_keyset kn dealt = Inr (pk, kps)" and st: "storable kn pk kps"
    and f: "from_pubkeys kn cv pk (pubkeys_path dir) = Inr fid"
  shows "\<exists>w'. provision_keyset_at kn cv dealt dir w = (Inr fid, w') \<and> calm w' \<and> whole kn dir pk kps w'"
proof -
  obtain b w1 where b: "has_identity_anchor dir w = (b, w1)" by fastforce
  note seen = anchor_seen [OF b _ clean_paths(1) [OF c(2)]]
  have b1: "\<not> b" "w1 = w" using seen c(1,3) b by (auto simp: stat_answers_def has_identity_anchor_def path_is_file_def next_io_def)
  show ?thesis using calm_first_spawn [OF c(1,2) sp st, of cv] b b1 f st by (auto simp: provision_keyset_at_def whole_def)
qed

text \<open>C16: What is born loads. After any sequence of spawn attempts and loads that broke off before the anchor, an attempt whose
  calls succeed gives the agent the identity of the group it dealt; and then, as long as calls succeed, the loader gives exactly the
  three packages of that group in order, every further attempt reports the same identity whatever it deals, and the node counts the
  keystore as loadable.\<close>

theorem born_then_loads:
  assumes start: "clean dir w0" "held w0 (pubkeys_path dir) = None" and ok: "\<forall>op\<in>set ops. op_ok kn op"
    and unborn: "held (run_ops kn cv dir ops w0) (pubkeys_path dir) = None"
    and dealt: "split_keyset kn dealt = Inr (pk, kps)" "storable kn pk kps" "from_pubkeys kn cv pk (pubkeys_path dir) = Inr fid"
  shows "\<exists>w1. provision_keyset_at kn cv dealt dir (run_ops kn cv dir ops w0\<lparr>kw_faults := []\<rparr>) = (Inr fid, w1)
    \<and> (\<exists>w2. load_keyset_material_at kn cv dir w1 = (Inr (map snd kps, pk), w2))
    \<and> (\<forall>dealt'. \<exists>w2. provision_keyset_at kn cv dealt' dir w1 = (Inr fid, w2))
    \<and> fst (keystore_loadable_at kn dir w1)"
proof -
  let ?w = "run_ops kn cv dir ops w0\<lparr>kw_faults := []\<rparr>"
  have cl: "clean dir ?w" using ops_born(1) [OF ok start] by simp
  obtain w1 where w1: "provision_keyset_at kn cv dealt dir ?w = (Inr fid, w1)" "calm w1" "whole kn dir pk kps w1"
    using calm_born [OF _ cl _ dealt] unborn by auto
  show ?thesis using w1(1) whole_gives(1) [OF w1(2,3), of cv] whole_gives(2) [OF w1(2,3) dealt(3)] whole_gives(3) [OF w1(2,3)] dealt(3)
    by auto
qed

text \<open>C40: A failing question loses the identity. Over a whole keystore, if the one call that asks whether the anchor exists fails, and
  nothing else does, the attempt generates a new group over the established one: the anchor and the shares are replaced and the new
  identity is reported. The answer of a failed call is taken for a missing file.\<close>

theorem failed_stat_replaces_identity:
  assumes w: "whole kn dir pk kps w" and one: "kw_faults w = [Io_fail 0]"
    and dealt: "split_keyset kn dealt = Inr (pk', kps')" "storable kn pk' kps'" "from_pubkeys kn cv pk' (pubkeys_path dir) = Inr fid"
  shows "\<exists>w'. provision_keyset_at kn cv dealt dir w = (Inr fid, w') \<and> whole kn dir pk' kps' w'"
proof -
  let ?w = "w\<lparr>kw_faults := []\<rparr>"
  have cl: "clean dir ?w" using w by (simp add: whole_def)
  obtain w' d where f: "first_spawn kn cv dealt dir ?w = (Inr fid, w')" "clean dir w'" "encode_pubkeys kn pk' = Inr d"
    "held w' (pubkeys_path dir) = Some d" "shares_held kn dir kps' w'"
    using calm_first_spawn [OF _ cl dealt(1,2), of cv] dealt(3) by auto
  have "has_identity_anchor dir w = (False, ?w)" using one by (simp add: has_identity_anchor_def path_is_file_def next_io_def)
  then show ?thesis using f dealt(2) by (simp add: provision_keyset_at_def whole_def)
qed

section \<open>Where the shares go\<close>

lemma calm_next: "calm w \<Longrightarrow> next_io w = (Io_ok, w)" by (simp add: next_io_def)

text \<open>Calls leave a calm world calm.\<close>

definition stays_calm :: "'a \<times> 'z ks_world_scheme \<Rightarrow> bool" where "stays_calm r \<longleftrightarrow> calm (snd r)"

named_theorems calms \<open>calls in a calm world\<close>

lemma stays_calmD: "stays_calm r \<Longrightarrow> r = (x, w') \<Longrightarrow> calm w'" by (auto simp: stays_calm_def)

lemma stays_calm_pair [calms]: "calm w \<Longrightarrow> stays_calm (x, w)" by (simp add: stays_calm_def)

lemma stays_calm_then [calms]: "stays_calm r \<Longrightarrow> (\<And>y w. calm w \<Longrightarrow> stays_calm (f y w)) \<Longrightarrow> stays_calm (ks_then r f)"
  by (auto simp: stays_calm_def ks_then_def split: prod.splits sum.splits)

lemma stays_calm_prod [calms]: "stays_calm r \<Longrightarrow> (\<And>b w. calm w \<Longrightarrow> stays_calm (g b w)) \<Longrightarrow> stays_calm (case r of (b, w) \<Rightarrow> g b w)"
  by (auto simp: stays_calm_def split: prod.splits)

lemma stays_calm_context [calms]: "stays_calm r \<Longrightarrow> stays_calm (in_context c r)" by (simp add: stays_calm_def)

lemma stays_calm_sys [calms]: "calm w \<Longrightarrow> (\<And>w. calm w \<Longrightarrow> stays_calm (h w)) \<Longrightarrow> stays_calm (sys what p h w)"
  by (simp add: calm_sys)

lemma stays_calm_file [calms]: "calm w \<Longrightarrow> stays_calm (path_is_file p w)"
  by (simp add: stays_calm_def path_is_file_def calm_next)

lemma put_bytes_calm [simp]: "kw_faults (put_bytes p d w) = kw_faults w"
  by (simp add: put_bytes_def split: option.split ks_node.split)

lemma open_at_calm [calms]: "calm w \<Longrightarrow> stays_calm (open_at m p w)"
  by (auto simp: open_at_def intro!: calms split: option.split ks_node.split)

lemma write_all_calm [calms]: "calm w \<Longrightarrow> stays_calm (write_all p d w)"
  by (auto simp: write_all_def calm_next intro!: calms)

lemma calls_calm [calms]:
  "calm w \<Longrightarrow> stays_calm (lstat p w)" "calm w \<Longrightarrow> stays_calm (create_dir_all p w)" "calm w \<Longrightarrow> stays_calm (set_permissions p m w)"
  "calm w \<Longrightarrow> stays_calm (read_path p w)" "calm w \<Longrightarrow> stays_calm (open_nofollow m p w)" "calm w \<Longrightarrow> stays_calm (open_follow m p w)"
  "calm w \<Longrightarrow> stays_calm (flush_file p w)" "calm w \<Longrightarrow> stays_calm (fchmod p m w)"
  unfolding lstat_def create_dir_all_def set_permissions_def read_path_def open_nofollow_def open_follow_def flush_file_def fchmod_def
  by (auto intro!: calms split: option.split ks_node.split)

lemma files_calm [calms]:
  "calm w \<Longrightarrow> stays_calm (write_file_0600 p d w)" "calm w \<Longrightarrow> stays_calm (read_share_file p w)" "calm w \<Longrightarrow> stays_calm (fs_write p d w)"
  "calm w \<Longrightarrow> stays_calm (is_distributed_keystore dir w)"
  unfolding write_file_0600_def read_share_file_def fs_write_def is_distributed_keystore_def
  by (auto intro!: calms split: option.split ks_node.split)

lemma placement_calm [calms]:
  "calm w \<Longrightarrow> stays_calm (load_placement mj dir w)" "calm w \<Longrightarrow> stays_calm (save_placement mj dir pm w)"
  unfolding load_placement_def save_placement_def by (auto intro!: calms split: sum.split)

lemma try_load_calm [calms]: "calm w \<Longrightarrow> stays_calm (try_load_placement mj dir w)"
  unfolding try_load_placement_def by (auto intro!: calms split: bool.split)

lemma settle_calm [calms]: "calm w \<Longrightarrow> stays_calm (settle_placement mj dir pm w)"
  unfolding settle_placement_def by (auto intro!: calms split: option.split)

text \<open>A sink that a share other than its own cannot reach, and that gives none back.\<close>

definition own_share :: "('ss, 'kp, 'pk) keystore_codec \<Rightarrow> string + ('ss, 'pk) dealer_keyset \<Rightarrow> u16 \<Rightarrow> bytes \<Rightarrow> bool" where
  "own_share kn dealt idx d \<longleftrightarrow>
     (\<exists>pk kps i kp. split_keyset kn dealt = Inr (pk, kps) \<and> (i, kp) \<in> set kps \<and> identifier_to_u16 i = idx \<and> kp_bytes kn kp = Inr d)"

definition fenced_sink ::
  "(u16 \<Rightarrow> bytes \<Rightarrow> bool) \<Rightarrow> nat \<Rightarrow> 'z ks_world_scheme share_sink \<Rightarrow> 'z ks_world_scheme share_sink" where
  "fenced_sink own i s = s\<lparr>sn_put_share := (\<lambda>idx d w. if idx = of_nat (i + 1) \<and> own idx d then sn_put_share s idx d w else (Inl (Identifier_range idx), w)),
     sn_get_share := (\<lambda>idx w. (Inl (Share_missing idx), w))\<rparr>"

definition fenced_sinks where
  "fenced_sinks own sinks = map (\<lambda>i. fenced_sink own i (sinks ! i)) [0..<length sinks]"

lemma fenced_nth: "i < length sinks \<Longrightarrow> fenced_sinks own sinks ! i = fenced_sink own i (sinks ! i)"
  by (simp add: fenced_sinks_def)

lemma fenced_length [simp]: "length (fenced_sinks own sinks) = length sinks"
  by (simp add: fenced_sinks_def)

lemma fenced_label [simp]: "i < length sinks \<Longrightarrow> sn_label (fenced_sinks own sinks ! i) = sn_label (sinks ! i)"
  by (simp add: fenced_nth fenced_sink_def)

lemma fenced_labels [simp]: "map sn_label (fenced_sinks own sinks) = map sn_label sinks"
  by (rule nth_equalityI) simp_all

lemma distribute_fenced:
  assumes "\<And>i kp d. (i, kp) \<in> set kps \<Longrightarrow> kp_bytes kn kp = Inr d \<Longrightarrow> own (identifier_to_u16 i) d"
  shows "distribute_shares kn (fenced_sinks own sinks) kps w = distribute_shares kn sinks kps w"
  using assms
proof (induction kps arbitrary: w)
  case (Cons k kps)
  obtain i kp where k: "k = (i, kp)" by fastforce
  let ?idx = "identifier_to_u16 i"
  show ?case
  proof (cases "?idx < 1 \<or> length sinks < unat ?idx")
    case False
    then have n: "unat ?idx \<noteq> 0" "unat ?idx - 1 < length sinks" by (auto simp: word_less_nat_alt)
    have "of_nat (unat ?idx - 1 + 1) = ?idx" using n(1) by simp
    moreover have "\<And>d. kp_bytes kn kp = Inr d \<Longrightarrow> own ?idx d" using Cons.prems [of i kp] k by simp
    moreover have "\<And>w. distribute_shares kn (fenced_sinks own sinks) kps w = distribute_shares kn sinks kps w"
      by (rule Cons.IH) (use Cons.prems in auto)
    moreover have "fenced_sinks own sinks ! (unat ?idx - 1) = fenced_sink own (unat ?idx - 1) (sinks ! (unat ?idx - 1))"
      using n(2) by (simp add: fenced_sinks_def)
    ultimately have "kp_bytes kn kp = Inr d \<Longrightarrow> sn_put_share (fenced_sinks own sinks ! (unat ?idx - 1)) ?idx d w = sn_put_share (sinks ! (unat ?idx - 1)) ?idx d w"
      and "distribute_shares kn (fenced_sinks own sinks) kps = distribute_shares kn sinks kps" for d
      by (simp_all add: fenced_sink_def fun_eq_iff)
    then show ?thesis using n(2) False k by (cases "kp_bytes kn kp") (simp_all add: Let_def)
  qed (simp add: k Let_def)
qed simp

lemma attest_fenced: "attest_sinks idx (map (\<lambda>i. fenced_sink own i (sinks ! i)) idxs) w = attest_sinks idx (map ((!) sinks) idxs) w"
  by (induction idxs arbitrary: idx w) (auto simp: fenced_sink_def split: prod.split bool.split)

text \<open>A path at which there is nothing stays so: the calls before the anchor write only the placement, and no call that
  changes permissions creates a file.\<close>

definition lacks :: "string \<Rightarrow> 'a \<times> 'z ks_world_scheme \<Rightarrow> bool" where "lacks q r \<longleftrightarrow> kw_fs (snd r) q = None"

named_theorems lacking \<open>calls that create nothing at a path\<close>

lemma lacksD: "lacks q r \<Longrightarrow> r = (x, w') \<Longrightarrow> kw_fs w' q = None" by (auto simp: lacks_def)

lemma lacks_pair [lacking]: "kw_fs w q = None \<Longrightarrow> lacks q (x, w)" by (simp add: lacks_def)

lemma lacks_then [lacking]: "lacks q r \<Longrightarrow> (\<And>y w. kw_fs w q = None \<Longrightarrow> lacks q (f y w)) \<Longrightarrow> lacks q (ks_then r f)"
  by (auto simp: lacks_def ks_then_def split: prod.splits sum.splits)

lemma lacks_prod [lacking]: "lacks q r \<Longrightarrow> (\<And>b w. kw_fs w q = None \<Longrightarrow> lacks q (g b w)) \<Longrightarrow> lacks q (case r of (b, w) \<Rightarrow> g b w)"
  by (auto simp: lacks_def split: prod.splits)

lemma lacks_sys [lacking]:
  assumes "kw_fs w q = None" "\<And>w. kw_fs w q = None \<Longrightarrow> lacks q (h w)" shows "lacks q (sys what p h w)"
proof -
  obtain f w1 where n: "next_io w = (f, w1)" by fastforce
  then have "kw_fs w1 q = None" using next_io_same' [OF n] assms(1) by simp
  then show ?thesis using assms(2) n by (cases f) (auto simp: sys_def intro: lacking)
qed

lemma lacks_file [lacking]: "kw_fs w q = None \<Longrightarrow> lacks q (path_is_file p w)"
  by (auto simp: lacks_def path_is_file_def split: prod.split io_fault.split dest!: next_io_same')

lemma lacks_open [lacking]: "kw_fs w q = None \<Longrightarrow> p \<noteq> q \<Longrightarrow> lacks q (open_at m p w)"
  by (auto simp: lacks_def open_at_def set_node_def split: option.split ks_node.split)

lemma lacks_write [lacking]: "kw_fs w q = None \<Longrightarrow> p \<noteq> q \<Longrightarrow> lacks q (write_all p d w)"
  by (auto simp: lacks_def write_all_def put_bytes_def set_node_def split: prod.split io_fault.split option.split ks_node.split
      dest!: next_io_same')

lemma lacks_calls [lacking]:
  "kw_fs w q = None \<Longrightarrow> lacks q (lstat p w)" "kw_fs w q = None \<Longrightarrow> lacks q (create_dir_all p w)"
  "kw_fs w q = None \<Longrightarrow> lacks q (read_path p w)" "kw_fs w q = None \<Longrightarrow> lacks q (flush_file p w)"
  "kw_fs w q = None \<Longrightarrow> p \<noteq> q \<Longrightarrow> lacks q (open_nofollow m p w)"
  unfolding lstat_def create_dir_all_def read_path_def flush_file_def open_nofollow_def
  by (auto intro!: lacking split: option.split ks_node.split)

lemma lacks_chmod [lacking]: "kw_fs w q = None \<Longrightarrow> lacks q (set_permissions p m w)"
  unfolding set_permissions_def
  by (rule lacks_sys, assumption) (auto simp: lacks_def set_node_def split: option.split ks_node.split)

lemma lacks_fchmod [lacking]: "kw_fs w q = None \<Longrightarrow> lacks q (fchmod p m w)"
  unfolding fchmod_def
  by (rule lacks_sys, assumption) (auto simp: lacks_def set_node_def split: option.split ks_node.split)

lemma lacks_files [lacking]:
  "kw_fs w q = None \<Longrightarrow> p \<noteq> q \<Longrightarrow> lacks q (write_file_0600 p d w)" "kw_fs w q = None \<Longrightarrow> lacks q (read_share_file p w)"
  "kw_fs w q = None \<Longrightarrow> lacks q (is_distributed_keystore dir w)"
  unfolding write_file_0600_def read_share_file_def is_distributed_keystore_def
  by (auto intro!: lacking split: option.split ks_node.split)

lemma lacks_settle:
  assumes "kw_fs w q = None" "placement_path dir \<noteq> q" shows "lacks q (settle_placement mj dir pm w)"
  unfolding settle_placement_def try_load_placement_def load_placement_def save_placement_def
  using assms by (auto intro!: lacking split: option.split bool.split sum.split)

lemma anchor_absent:
  assumes "kw_fs w (pubkeys_path dir) = None"
  obtains w' where "has_identity_anchor dir w = (False, w')" "kw_fs w' (pubkeys_path dir) = None"
proof -
  obtain f w1 where n: "next_io w = (f, w1)" by fastforce
  then have w1: "kw_fs w1 (pubkeys_path dir) = None" using next_io_same' [OF n] assms by simp
  then have "stat_node (pubkeys_path dir) w1 = None" using stat_plain [of w1 "pubkeys_path dir"] by (simp add: plain_iff)
  then have "has_identity_anchor dir w = (False, w1)"
    using n by (cases f) (simp_all add: has_identity_anchor_def path_is_file_def)
  with w1 that show thesis by blast
qed

text \<open>C17: The shares stay apart. A distributed spawn gives the holder at position \<open>i\<close> the share with identifier \<open>i + 1\<close> of the group it
  dealt and nothing else; and neither a first spawn, whichever calls fail in it, nor a restart whose calls succeed reads a share back:
  replacing every holder by one that refuses any other share and never returns one changes neither the answer nor the world. (A
  restart whose first look for the anchor fails is left out: it goes on as a first spawn, finds the anchor there on the second look, and
  asks every holder for its share.)\<close>

theorem shares_stay_apart:
  assumes "kw_faults w = [] \<or> kw_fs w (pubkeys_path dir) = None"
  shows "provision_keyset_distributed mj kn cv dealt dir pm (fenced_sinks (own_share kn dealt) sinks) w
    = provision_keyset_distributed mj kn cv dealt dir pm sinks w"
proof -
  let ?own = "own_share kn dealt" and ?f = "fenced_sinks (own_share kn dealt) sinks"
  have spawn: "first_spawn_with_sinks kn cv dealt dir ?f w = first_spawn_with_sinks kn cv dealt dir sinks w" for w
  proof -
    have "distribute_shares kn ?f kps w = distribute_shares kn sinks kps w" if "split_keyset kn dealt = Inr (pk, kps)" for pk kps w
      by (rule distribute_fenced) (use that in \<open>auto simp: own_share_def\<close>)
    then show ?thesis by (auto simp: first_spawn_with_sinks_def ks_then_def split: prod.splits sum.splits)
  qed
  have at: "attest_sinks 1 ?f w = attest_sinks 1 sinks w" for w
    using attest_fenced [of 1 ?own sinks "[0..<length sinks]" w] by (simp add: fenced_sinks_def map_nth)
  have tail: "(case has_identity_anchor dir w of
          (True, w) \<Rightarrow> ks_then (in_context (Established ''anchor'') (frost_identity_load kn cv (pubkeys_path dir) w)) (\<lambda>fid w.
              ks_then (in_context (Established ''shares'') (assert_shares_present_across_sinks ?f w)) (\<lambda>_ w. (Inr fid, w)))
        | (False, w) \<Rightarrow> provision_keyset_with_sinks kn cv dealt dir ?f w)
      = (case has_identity_anchor dir w of
          (True, w) \<Rightarrow> ks_then (in_context (Established ''anchor'') (frost_identity_load kn cv (pubkeys_path dir) w)) (\<lambda>fid w.
              ks_then (in_context (Established ''shares'') (assert_shares_present_across_sinks sinks w)) (\<lambda>_ w. (Inr fid, w)))
        | (False, w) \<Rightarrow> provision_keyset_with_sinks kn cv dealt dir sinks w)" if c: "calm w \<or> kw_fs w (pubkeys_path dir) = None" for w
  proof (cases "kw_fs w (pubkeys_path dir) = None")
    case True
    obtain w1 where w1: "has_identity_anchor dir w = (False, w1)" "kw_fs w1 (pubkeys_path dir) = None" using anchor_absent [OF True] .
    obtain w2 where "has_identity_anchor dir w1 = (False, w2)" using anchor_absent [OF w1(2)] .
    with w1 show ?thesis by (simp add: provision_keyset_with_sinks_def spawn split: option.split)
  next
    case born: False
    with c have c: "calm w" by blast
    have an: "has_identity_anchor dir w = (fst (has_identity_anchor dir w), w)"
      using c by (simp add: has_identity_anchor_def path_is_file_def calm_next)
    show ?thesis
    proof (cases "fst (has_identity_anchor dir w)")
      case True
      then have t: "has_identity_anchor dir w = (True, w)" using an by simp
      have "assert_shares_present_across_sinks ?f = assert_shares_present_across_sinks sinks"
        unfolding assert_shares_present_across_sinks_def by (rule ext) (rule at)
      then show ?thesis using t by simp
    next
      case False
      then have "has_identity_anchor dir w = (False, w)" using an by simp
      then show ?thesis by (simp add: provision_keyset_with_sinks_def spawn split: option.split)
    qed
  qed
  have find: "find (\<lambda>i. sn_label (?f ! i) \<noteq> hp_label (pm_holders pm ! i)) [0..<length sinks]
      = find (\<lambda>i. sn_label (sinks ! i) \<noteq> hp_label (pm_holders pm ! i)) [0..<length sinks]"
    by (rule find_cong) auto
  have rest: "ks_then (create_dir_all dir w) (\<lambda>_ w. ks_then (settle_placement mj dir pm w) (\<lambda>_ w. F w))
      = ks_then (create_dir_all dir w) (\<lambda>_ w. ks_then (settle_placement mj dir pm w) (\<lambda>_ w. G w))"
    if "\<And>w. calm w \<or> kw_fs w (pubkeys_path dir) = None \<Longrightarrow> F w = G w" for F G
  proof -
    obtain x w1 where w1: "create_dir_all dir w = (x, w1)" by fastforce
    have c1: "calm w1 \<or> kw_fs w1 (pubkeys_path dir) = None"
      using assms by (rule disj_forward) (rule stays_calmD [OF calls_calm(2) w1] lacksD [OF lacks_calls(2) w1], assumption)+
    obtain y w2 where w2: "settle_placement mj dir pm w1 = (y, w2)" by fastforce
    have "placement_path dir \<noteq> pubkeys_path dir" by (simp add: placement_path_def pubkeys_path_def PLACEMENT_FILE_def)
    then have c2: "calm w2 \<or> kw_fs w2 (pubkeys_path dir) = None"
      using stays_calmD [OF settle_calm w2] lacksD [OF lacks_settle w2] c1 by metis
    show ?thesis using w1 w2 that [OF c2] by (cases x; cases y) simp_all
  qed
  show ?thesis unfolding provision_keyset_distributed_def fenced_length find
    by (intro sum.case_cong if_cong option.case_cong refl rest tail)
qed

lemma placement_elsewhere: "placement_path dir \<noteq> pubkeys_path dir" "i \<in> set share_indices \<Longrightarrow> share_path dir i \<noteq> placement_path dir"
  by (auto simp: share_indices_def share_paths pubkeys_path_def placement_path_def PLACEMENT_FILE_def)

lemma whole_elsewhere:
  assumes w: "whole kn dir pk kps w" and t: "touches (placement_path dir) w w'"
  shows "whole kn dir pk kps w'"
proof -
  have ok: "dealt_ids kps" using w by (simp add: whole_def storable_def)
  have "shares_held kn dir kps w' = shares_held kn dir kps w"
    by (rule shares_held_same [OF _ ok]) (rule touches_held [OF t placement_elsewhere(2)])
  moreover have "held w' (pubkeys_path dir) = held w (pubkeys_path dir)" by (rule touches_held [OF t placement_elsewhere(1) [symmetric]])
  ultimately show ?thesis using w clean_touches [OF _ t] by (auto simp: whole_def)
qed

text \<open>A failed distribution redirects the signer. Over a whole keystore on one host, a distributed spawn to holders that have no share
  fails, as it should, but leaves its placement manifest beside the anchor: the keystore, whole as before, then counts as distributed,
  and where distributed signing is enabled the agent, which could sign with its local shares, is given a signer no more.\<close>

theorem failed_distribution_redirects:
  assumes w: "whole kn dir pk kps w" "kw_faults w = []" "kw_fs w (placement_path dir) = None" "from_pubkeys kn cv pk (pubkeys_path dir) = Inr fid"
    and pm: "validate_shape pm = Inr ()" "fst mj pm = Inr json" "map sn_label sinks = map hp_label (pm_holders pm)"
    and sinks: "sinks = s # ss" "\<And>w. sn_has_share s 1 w = (False, w)"
  shows "load_agent_quorum_signer mj kn cv de fr draws fc coord None True dir w
      = ks_then (load_quorum_signer_at kn cv de fr draws dir w) (\<lambda>qs w. (Inr (Co_located qs), w))
    \<and> (\<exists>w'. provision_keyset_distributed mj kn cv dealt dir pm sinks w = (Inl (Established ''shares'' (Share_missing 1)), w')
        \<and> whole kn dir pk kps w' \<and> load_agent_quorum_signer mj kn cv de fr draws fc coord None True dir w' = (Inl No_factory, w'))"
proof -
  let ?p = "placement_path dir"
  have p: "plain w ?p" using w(3) by (simp add: plain_iff)
  have off: "is_distributed_keystore dir w = (False, w)"
    using w(2,3) stat_plain [OF p] by (simp add: is_distributed_keystore_def path_is_file_def calm_next)
  have "\<exists>w'. write_file_0600 ?p json w = (Inr (), w') \<and> calm w'" by (rule calm_write_file [OF w(2) p])
  then obtain w1 where w1: "write_file_0600 ?p json w = (Inr (), w1)" "calm w1" by blast
  note wf = write_file_does [OF w1(1) p]
  have h1: "held w1 ?p = Some json" using wf(2) by simp
  have wh: "whole kn dir pk kps w1" by (rule whole_elsewhere [OF w(1) wf(1)])
  have p1: "plain w1 ?p" using wf(1) by (simp add: touches_def)
  have on: "is_distributed_keystore dir w1 = (True, w1)" using calm_is_file [OF w1(2) h1 p1] by (simp add: is_distributed_keystore_def)
  have settle: "settle_placement mj dir pm w = (Inr (), w1)"
    using off pm(1,2) w1(1) by (simp add: settle_placement_def try_load_placement_def save_placement_def)
  have cl: "clean dir w1" using wh by (simp add: whole_def)
  obtain d where d: "length d \<le> MAX_KEYSTORE_BYTES" "decode_pubkeys kn d = Inr pk" "held w1 (pubkeys_path dir) = Some d"
    using wh by (auto simp: whole_def storable_def)
  note pa = clean_paths(1) [OF cl]
  have an: "has_identity_anchor dir w1 = (True, w1)" using calm_is_file [OF w1(2) d(3) pa] by (simp add: has_identity_anchor_def)
  note ld = calm_load [OF w1(2) d(3) pa d(1,2)]
  have len: "length sinks = length (pm_holders pm)" using arg_cong [OF pm(3), of length] by simp
  have "\<And>i. i < length sinks \<Longrightarrow> sn_label (sinks ! i) = hp_label (pm_holders pm ! i)"
    using pm(3) len by (metis nth_map)
  then have find: "find (\<lambda>i. sn_label (sinks ! i) \<noteq> hp_label (pm_holders pm ! i)) [0..<length sinks] = None"
    by (auto simp: find_None_iff)
  have "provision_keyset_distributed mj kn cv dealt dir pm sinks w = (Inl (Established ''shares'' (Share_missing 1)), w1)"
    using pm(1) len find w(2,4) settle an ld sinks
    by (simp add: provision_keyset_distributed_def create_dir_all_def calm_sys assert_shares_present_across_sinks_def in_context_def)
  moreover have "load_agent_quorum_signer mj kn cv de fr draws fc coord None True dir w1 = (Inl No_factory, w1)"
    using on by (simp add: load_agent_quorum_signer_def)
  moreover have "load_agent_quorum_signer mj kn cv de fr draws fc coord None True dir w
      = ks_then (load_quorum_signer_at kn cv de fr draws dir w) (\<lambda>qs w. (Inr (Co_located qs), w))"
    using off by (simp add: load_agent_quorum_signer_def)
  ultimately show ?thesis using wh by blast
qed

section \<open>A share at rest\<close>

lemma calm_secret_write:
  assumes "calm w" "plain w p"
  shows "\<exists>w'. write_secret_file_0600 p d w = (Inr (), w') \<and> calm w' \<and> held w' p = Some d \<and> touches p w w'"
  using assms(2) by (cases rule: plain_cases)
    (use assms(1) follow_plain [OF assms(2)] in \<open>auto simp: write_secret_file_0600_def open_follow_def calm_sys open_at_def fchmod_def
      write_all_def put_bytes_def flush_file_def set_node_def calm_next held_def touches_def shape_def plain_def node_shape_def\<close>)

lemma calm_secret_read:
  assumes "calm w" "held w p = Some d" "plain w p"
  shows "\<exists>w'. read_secret_file p w = (Inr d, w') \<and> calm w' \<and> same_data w w'"
proof -
  obtain m' where f: "kw_fs w p = Some (Regular m' d)" using held_file [OF assms(2)] by blast
  obtain w' where c: "set_permissions p 384 w = (Inr (), w')" "calm w'" "same_data w w'" using calm_chmod [OF assms(1-3)] by blast
  have "held w' p = Some d" "plain w' p" using assms(2,3) c(3) by (simp_all add: held_shape plain_def)
  then have "read_path p w' = (Inr d, w')" using c(2) stat_plain [of w' p] held_file [of w' p d]
    by (auto simp: read_path_def calm_sys)
  then show ?thesis using assms(1) f c by (simp add: read_secret_file_def lstat_def calm_sys)
qed

lemma calm_salt:
  assumes c: "calm w" "plain w (salt_path dir)" and l: "\<And>s. held w (salt_path dir) = Some s \<Longrightarrow> length s = SALT_LEN"
    and r: "length (sx_random sx (kw_draws w) SALT_LEN) = SALT_LEN"
  shows "\<exists>salt w'. load_or_create_salt sx dir w = (Inr salt, w') \<and> calm w' \<and> held w' (salt_path dir) = Some salt \<and> length salt = SALT_LEN
    \<and> touches (salt_path dir) w w'"
proof (cases "held w (salt_path dir)")
  case None
  let ?w = "w\<lparr>kw_draws := kw_draws w + 1\<rparr>" and ?salt = "sx_random sx (kw_draws w) SALT_LEN"
  have none: "kw_fs w (salt_path dir) = None" using None c(2) by (auto simp: plain_iff held_def)
  have "plain ?w (salt_path dir)" using c(2) by (simp add: plain_def)
  then obtain w' where w': "write_secret_file_0600 (salt_path dir) ?salt ?w = (Inr (), w')" "calm w'" "held w' (salt_path dir) = Some ?salt"
      "touches (salt_path dir) ?w w'" using calm_secret_write [of ?w "salt_path dir" ?salt] c(1) by auto
  have "touches (salt_path dir) w w'" using w'(4) by (simp add: touches_def)
  moreover have "read_secret_file (salt_path dir) w = (Inl (Io_error ''lstat'' (salt_path dir)), w)"
    using none c(1) by (simp add: read_secret_file_def lstat_def calm_sys)
  ultimately show ?thesis using w' r by (simp add: load_or_create_salt_def rand_fill_def)
next
  case (Some s)
  obtain w' where w': "read_secret_file (salt_path dir) w = (Inr s, w')" "calm w'" "same_data w w'" using calm_secret_read [OF c(1) Some c(2)] by blast
  then show ?thesis using l [OF Some] Some touches_same [OF c(2) w'(3)] by (simp add: load_or_create_salt_def held_shape)
qed

text \<open>The machine binding of a host: its machine id if it has one, or else the key file beside the share, which is made when there
  is none of the right length. Once made, it is the same as long as these two files are.\<close>

abbreviation "machine_id_path \<equiv> ''/etc/machine-id''"

definition machine_id_of :: "'z ks_world_scheme \<Rightarrow> bytes option" where
  "machine_id_of w = (case held w machine_id_path of
      None \<Rightarrow> None
    | Some raw \<Rightarrow> (let t = takeWhile (\<lambda>b. \<not> is_ascii_whitespace b) raw in if t = [] then None else Some t))"

definition host_key_of :: "string \<Rightarrow> 'z ks_world_scheme \<Rightarrow> bytes option" where
  "host_key_of dir w = (case held w (host_key_path dir) of
      None \<Rightarrow> None | Some d \<Rightarrow> if length d = SALT_LEN then Some d else None)"

definition binding_of :: "string \<Rightarrow> 'z ks_world_scheme \<Rightarrow> bytes option" where
  "binding_of dir w = (case machine_id_of w of Some t \<Rightarrow> Some t | None \<Rightarrow> host_key_of dir w)"

lemma binding_cong:
  assumes "held v machine_id_path = held w machine_id_path" "held v (host_key_path dir) = held w (host_key_path dir)"
  shows "binding_of dir v = binding_of dir w"
  unfolding binding_of_def machine_id_of_def host_key_of_def assms ..

lemma touches_plain: "touches p w w' \<Longrightarrow> plain w q \<Longrightarrow> plain w' q"
  by (cases "q = p") (simp_all add: touches_def plain_def)

lemma calm_machine_id:
  assumes "calm w" "plain w machine_id_path" shows "read_machine_id w = (machine_id_of w, w)"
  using assms(2) by (cases rule: plain_cases)
    (use assms(1) stat_plain [OF assms(2)] in \<open>simp_all add: read_machine_id_def read_path_def calm_sys machine_id_of_def held_def Let_def\<close>)

lemma calm_host_key:
  assumes "calm w" "plain w (host_key_path dir)"
  shows "\<exists>w'. read_host_key dir w = (host_key_of dir w, w') \<and> calm w' \<and> same_data w w'"
proof (cases "held w (host_key_path dir)")
  case None
  then have "kw_fs w (host_key_path dir) = None" using assms(2) by (auto simp: plain_iff held_def)
  then show ?thesis using None assms(1)
    by (simp add: read_host_key_def read_secret_file_def lstat_def calm_sys host_key_of_def)
next
  case (Some d)
  obtain w' where "read_secret_file (host_key_path dir) w = (Inr d, w')" "calm w'" "same_data w w'"
    using calm_secret_read [OF assms(1) Some assms(2)] by blast
  then show ?thesis using Some by (simp add: read_host_key_def host_key_of_def)
qed

lemma binding_kept:
  assumes "calm v" "plain v machine_id_path" "plain v (host_key_path dir)" "binding_of dir v = Some ikm"
  shows "\<exists>v'. host_machine_binding sx dir v = (Inr ikm, v') \<and> calm v' \<and> same_data v v'"
proof (cases "machine_id_of v")
  case (Some t)
  then show ?thesis using assms by (simp add: host_machine_binding_def calm_machine_id binding_of_def)
next
  case None
  obtain v' where v': "read_host_key dir v = (host_key_of dir v, v')" "calm v'" "same_data v v'"
    using calm_host_key [OF assms(1,3)] by blast
  then show ?thesis using None assms by (simp add: host_machine_binding_def calm_machine_id binding_of_def)
qed

lemma suffix_paths: "host_key_path dir \<noteq> machine_id_path" "salt_path dir \<noteq> machine_id_path" "sealed_share_path dir i \<noteq> machine_id_path"
  "salt_path dir \<noteq> host_key_path dir" "sealed_share_path dir i \<noteq> host_key_path dir"
  using arg_cong [of "host_key_path dir" machine_id_path rev] arg_cong [of "salt_path dir" machine_id_path rev]
    arg_cong [of "sealed_share_path dir i" machine_id_path rev]
  by (auto simp: host_key_path_def salt_path_def sealed_share_path_def)

lemma binding_made:
  assumes c: "calm w" and p: "plain w machine_id_path" "plain w (host_key_path dir)"
    and r: "length (sx_random sx (kw_draws w) SALT_LEN) = SALT_LEN"
  shows "\<exists>ikm w'. host_machine_binding sx dir w = (Inr ikm, w') \<and> calm w' \<and> touches (host_key_path dir) w w'
    \<and> binding_of dir w' = Some ikm"
proof (cases "binding_of dir w")
  case (Some ikm)
  then obtain w' where "host_machine_binding sx dir w = (Inr ikm, w')" "calm w'" "same_data w w'"
    using binding_kept [OF c p] by blast
  moreover from this(3) have "binding_of dir w' = Some ikm"
    using Some binding_cong [of w' w dir] same_held [of w w'] by simp
  ultimately show ?thesis using touches_same [OF p(2)] by blast
next
  case None
  then have none: "machine_id_of w = None" "host_key_of dir w = None" by (auto simp: binding_of_def split: option.splits)
  let ?hk = "host_key_path dir"
  obtain w0 where w0: "read_host_key dir w = (None, w0)" "calm w0" "same_data w w0"
    using calm_host_key [OF c p(2)] none(2) by auto
  have dr: "kw_draws w0 = kw_draws w"
    using w0(1) c unfolding read_host_key_def read_secret_file_def
    by (auto simp: lstat_def calm_sys set_permissions_def read_path_def set_node_def ks_then_def
        split: option.splits ks_node.splits prod.splits sum.splits if_splits)
  let ?key = "sx_random sx (kw_draws w) SALT_LEN" and ?w = "w0\<lparr>kw_draws := kw_draws w0 + 1\<rparr>"
  have "plain ?w ?hk" "calm ?w" using same_plain [OF w0(3), of ?hk] p(2) w0(2) by (simp_all add: plain_def)
  then obtain w' where w': "write_secret_file_0600 ?hk ?key ?w = (Inr (), w')" "calm w'" "held w' ?hk = Some ?key" "touches ?hk ?w w'"
    using calm_secret_write [of ?w ?hk ?key] by blast
  have t: "touches ?hk w w'" using w'(4) w0(3) by (simp add: touches_def)
  have "held w' machine_id_path = held w machine_id_path" using touches_held [OF t] suffix_paths(1) [of dir] by metis
  then have "binding_of dir w' = Some ?key" using none(1) w'(3) r by (simp add: binding_of_def machine_id_of_def host_key_of_def)
  moreover have "host_machine_binding sx dir w = (Inr ?key, w')"
    using none(1) w0(1) w'(1) c p(1) dr by (simp add: host_machine_binding_def calm_machine_id rand_fill_def)
  ultimately show ?thesis using w'(2) t by blast
qed

text \<open>What the AEAD promises for a share \<open>d\<close> under the key of a binding: it seals it, within the size limit of a share file, and
  opens what it sealed; and the system's random source fills what it is asked to.\<close>

definition seal_laws :: "seal_crypto \<Rightarrow> bytes \<Rightarrow> string \<Rightarrow> bytes \<Rightarrow> bool" where
  "seal_laws sx ikm label d \<longleftrightarrow>
     (\<forall>n. length (sx_random sx n SALT_LEN) = SALT_LEN \<and> length (sx_random sx n NONCE_LEN) = NONCE_LEN)
     \<and> (\<forall>salt nonce. \<exists>c. sx_encrypt sx (seal_derive_key sx ikm salt label) nonce (aad_for label) d = Some c
          \<and> NONCE_LEN + length c \<le> MAX_SHARE_BYTES
          \<and> sx_decrypt sx (seal_derive_key sx ikm salt label) nonce (aad_for label) c = Some d)"

lemma seal_paths: "salt_path dir \<noteq> sealed_share_path dir i"
  by (simp add: salt_path_def sealed_share_path_def)

text \<open>The files a sealed share rests on.\<close>

definition seal_files :: "string \<Rightarrow> u16 \<Rightarrow> string set" where
  "seal_files dir idx = {machine_id_path, host_key_path dir, salt_path dir, sealed_share_path dir idx}"

text \<open>A world in which a share is sealed for good.\<close>

definition sealed_in where
  "sealed_in sx dir label idx d v \<longleftrightarrow> (\<exists>ikm salt nonce c. binding_of dir v = Some ikm \<and> held v (salt_path dir) = Some salt
     \<and> length salt = SALT_LEN \<and> length nonce = NONCE_LEN \<and> NONCE_LEN + length c \<le> MAX_SHARE_BYTES
     \<and> held v (sealed_share_path dir idx) = Some (nonce @ c)
     \<and> sx_decrypt sx (seal_derive_key sx ikm salt label) nonce (aad_for label) c = Some d)"

lemma sealed_put_seals:
  assumes w: "calm w" "\<forall>p\<in>seal_files dir idx. plain w p" "\<And>s. held w (salt_path dir) = Some s \<Longrightarrow> length s = SALT_LEN"
    and laws: "\<And>ikm. seal_laws sx ikm label d"
  shows "\<exists>w1. sealed_put_share sx (host_machine_binding sx) dir label idx d w = (Inr (), w1) \<and> calm w1
    \<and> (\<forall>p\<in>seal_files dir idx. plain w1 p) \<and> sealed_in sx dir label idx d w1"
proof -
  let ?s = "salt_path dir" and ?p = "sealed_share_path dir idx" and ?h = "host_key_path dir" and ?m = machine_id_path
  note ne = seal_paths [of dir idx] suffix_paths [of dir] suffix_paths(3,5) [of dir idx]
  have r: "length (sx_random sx n SALT_LEN) = SALT_LEN" for n using laws by (simp add: seal_laws_def)
  have pl: "plain w ?m" "plain w ?h" "plain w ?s" "plain w ?p" using w(2) by (simp_all add: seal_files_def)
  obtain salt wa where a: "load_or_create_salt sx dir w = (Inr salt, wa)" "calm wa" "held wa ?s = Some salt" "length salt = SALT_LEN"
    "touches ?s w wa" using calm_salt [of w dir sx] w(1,3) pl(3) r by blast
  have pa: "plain wa ?m" "plain wa ?h" "plain wa ?s" "plain wa ?p" using touches_plain [OF a(5)] pl by blast+
  obtain ikm wb where b: "host_machine_binding sx dir wa = (Inr ikm, wb)" "calm wb" "touches ?h wa wb" "binding_of dir wb = Some ikm"
    using binding_made [OF a(2) pa(1,2) r] by blast
  have pb: "plain wb ?m" "plain wb ?h" "plain wb ?s" "plain wb ?p" using touches_plain [OF b(3)] pa by blast+
  have sb: "held wb ?s = Some salt" using touches_held [OF b(3)] a(3) ne by metis
  let ?k = "seal_derive_key sx ikm salt label" and ?n = "sx_random sx (kw_draws wb) NONCE_LEN"
  obtain c where c: "sx_encrypt sx ?k ?n (aad_for label) d = Some c" "NONCE_LEN + length c \<le> MAX_SHARE_BYTES"
    "sx_decrypt sx ?k ?n (aad_for label) c = Some d" using laws [of ikm] unfolding seal_laws_def by blast
  have n: "length ?n = NONCE_LEN" using laws by (simp add: seal_laws_def)
  let ?wc = "wb\<lparr>kw_draws := kw_draws wb + 1\<rparr>"
  have seal: "share_seal sx (host_machine_binding sx) dir label salt d wa = (Inr (?n @ c), ?wc)"
    using b(1) c(1) by (simp add: share_seal_def rand_fill_def)
  have pc: "plain ?wc ?p" "calm ?wc" using pb(4) b(2) by (simp_all add: plain_def)
  obtain w1 where w1: "write_file_0600 ?p (?n @ c) ?wc = (Inr (), w1)" "calm w1" using calm_write_file [OF pc(2,1)] by blast
  note wf = write_file_does [OF w1(1) pc(1)]
  have t1: "touches ?p wb w1" using wf(1) by (simp add: touches_def)
  have h1: "held w1 ?p = Some (?n @ c)" using wf(2) by simp
  have keep: "held w1 q = held wb q" if "q \<noteq> ?p" for q using touches_held [OF t1 that] .
  have p1: "\<forall>q\<in>seal_files dir idx. plain w1 q" using touches_plain [OF t1] pb by (simp add: seal_files_def)
  have "held w1 ?m = held wb ?m" "held w1 ?h = held wb ?h" using keep [of ?m] keep [of ?h] ne by metis+
  then have b1: "binding_of dir w1 = Some ikm" using b(4) binding_cong by metis
  have "held w1 ?s = Some salt" using keep [of ?s] sb ne by simp
  with b1 a(4) n c(2,3) h1 have "sealed_in sx dir label idx d w1" unfolding sealed_in_def by blast
  moreover have "sealed_put_share sx (host_machine_binding sx) dir label idx d w = (Inr (), w1)"
    using a(1) seal w1(1) by (simp add: sealed_put_share_def in_context_def)
  ultimately show ?thesis using w1(2) p1 by blast
qed

lemma sealed_get_opens:
  assumes v: "calm v" "\<forall>p\<in>seal_files dir idx. plain v p" and sealed: "sealed_in sx dir label idx d v"
  shows "path_is_file (sealed_share_path dir idx) v = (True, v)"
    and "\<exists>v'. sealed_get_share sx (host_machine_binding sx) dir label idx v = (Inr d, v')"
proof -
  let ?s = "salt_path dir" and ?p = "sealed_share_path dir idx"
  have pl: "plain v machine_id_path" "plain v (host_key_path dir)" "plain v ?s" "plain v ?p" using v(2) by (simp_all add: seal_files_def)
  from sealed obtain ikm salt nonce c where c: "binding_of dir v = Some ikm" "held v ?s = Some salt" "length salt = SALT_LEN"
    "length nonce = NONCE_LEN" "NONCE_LEN + length c \<le> MAX_SHARE_BYTES" "held v ?p = Some (nonce @ c)"
    "sx_decrypt sx (seal_derive_key sx ikm salt label) nonce (aad_for label) c = Some d" unfolding sealed_in_def by blast
  show "path_is_file ?p v = (True, v)" by (rule calm_is_file [OF v(1) c(6) pl(4)])
  have "length (nonce @ c) \<le> MAX_SHARE_BYTES" using c(4,5) by simp
  then obtain v1 where v1: "read_share_file ?p v = (Inr (nonce @ c), v1)" "calm v1" "same_data v v1"
    using calm_share [OF v(1) c(6) pl(4)] by blast
  have "held v1 ?s = Some salt" "plain v1 ?s" using c(2) pl(3) v1(3) by (simp_all add: held_shape plain_def)
  then obtain v2 where v2: "read_secret_file ?s v1 = (Inr salt, v2)" "calm v2" "same_data v1 v2"
    using calm_secret_read [OF v1(2)] by blast
  have s2: "same_data v v2" using v1(3) v2(3) by simp
  have "binding_of dir v2 = Some ikm" using c(1) binding_cong [of v2 v dir] same_held [OF s2] by simp
  moreover have "plain v2 machine_id_path" "plain v2 (host_key_path dir)" using pl(1,2) same_plain [OF s2] by simp_all
  ultimately obtain v3 where v3: "host_machine_binding sx dir v2 = (Inr ikm, v3)" using binding_kept [OF v2(2)] by blast
  have "share_unseal sx (host_machine_binding sx) dir label salt (nonce @ c) v2 = (Inr d, v3)"
    using v3 c(4,7) by (simp add: share_unseal_def)
  then show "\<exists>v'. sealed_get_share sx (host_machine_binding sx) dir label idx v = (Inr d, v')"
    using v1(1) v2(1) c(3) by (simp add: sealed_get_share_def load_salt_def in_context_def)
qed

text \<open>C18: A sealed share comes back on its machine. When calls succeed and the files it rests on (the machine id, the host key, the
  salt, the sealed share) are regular ones or not there yet, a share put into the sink of this host is there afterwards and is read back
  as it was, from the world the put left and from any later one in which the contents of these four files are the same, whether the
  binding is the machine id or a key file found or made by the put, and whatever salt the sink had or drew. It rests on an AEAD that
  opens what it sealed, and a salt that exists must have its length.\<close>

theorem sealed_share_returns:
  assumes "kw_faults w = []" and "\<forall>p\<in>seal_files dir idx. plain w p"
    and "\<And>s. held w (salt_path dir) = Some s \<Longrightarrow> length s = SALT_LEN"
    and "\<And>ikm. seal_laws sx ikm label d"
  shows "\<exists>w1. sealed_put_share sx (host_machine_binding sx) dir label idx d w = (Inr (), w1) \<and> kw_faults w1 = []
    \<and> (\<forall>p\<in>seal_files dir idx. plain w1 p)
    \<and> (\<forall>v. kw_faults v = [] \<and> (\<forall>p\<in>seal_files dir idx. plain v p \<and> held v p = held w1 p)
         \<longrightarrow> sn_has_share (local_sealed_sink sx (host_machine_binding sx) dir label) idx v = (True, v)
           \<and> (\<exists>v'. sn_get_share (local_sealed_sink sx (host_machine_binding sx) dir label) idx v = (Inr d, v')))"
proof -
  obtain w1 where w1: "sealed_put_share sx (host_machine_binding sx) dir label idx d w = (Inr (), w1)" "calm w1"
    "\<forall>p\<in>seal_files dir idx. plain w1 p" "sealed_in sx dir label idx d w1"
    using sealed_put_seals [OF assms] by blast
  have "path_is_file (sealed_share_path dir idx) v = (True, v)
      \<and> (\<exists>v'. sealed_get_share sx (host_machine_binding sx) dir label idx v = (Inr d, v'))"
    if v: "calm v" "\<forall>p\<in>seal_files dir idx. plain v p \<and> held v p = held w1 p" for v
  proof -
    have same: "held v machine_id_path = held w1 machine_id_path" "held v (host_key_path dir) = held w1 (host_key_path dir)"
      "held v (salt_path dir) = held w1 (salt_path dir)"
      "held v (sealed_share_path dir idx) = held w1 (sealed_share_path dir idx)"
      using v(2) by (simp_all add: seal_files_def)
    have "sealed_in sx dir label idx d v" using w1(4) unfolding sealed_in_def binding_cong [OF same(1,2)] same(3,4) .
    then show ?thesis using sealed_get_opens [of v dir idx] v by blast
  qed
  then show ?thesis using w1(1-3) by (auto simp: local_sealed_sink_def)
qed

text \<open>Without a machine id the binding is a key file beside the share. A read of it that fails, whatever the reason, replaces it by a
  fresh key, also when the share is only to be read, and what was sealed under the old key is lost.\<close>

lemma failed_read_replaces_host_key:
  assumes "kw_fs w ''/etc/machine-id'' = None" "plain w (host_key_path dir)" "kw_faults w = [Io_ok, Io_fail n]"
  shows "\<exists>w'. host_machine_binding sx dir w = (Inr (sx_random sx (kw_draws w) SALT_LEN), w')
    \<and> held w' (host_key_path dir) = Some (sx_random sx (kw_draws w) SALT_LEN)"
proof -
  let ?key = "sx_random sx (kw_draws w) SALT_LEN" and ?w = "w\<lparr>kw_faults := [], kw_draws := kw_draws w + 1\<rparr>"
  have "plain w ''/etc/machine-id''" using assms(1) by (simp add: plain_iff)
  then have "stat_node ''/etc/machine-id'' (w\<lparr>kw_faults := [Io_fail n]\<rparr>) = None"
    using stat_fs [of "w\<lparr>kw_faults := [Io_fail n]\<rparr>" w] stat_plain assms(1) by fastforce
  then have "read_machine_id w = (None, w\<lparr>kw_faults := [Io_fail n]\<rparr>)"
    using assms(3) by (simp add: read_machine_id_def read_path_def sys_def next_io_def)
  moreover have "read_host_key dir (w\<lparr>kw_faults := [Io_fail n]\<rparr>) = (None, w\<lparr>kw_faults := []\<rparr>)"
    by (simp add: read_host_key_def read_secret_file_def lstat_def sys_def next_io_def)
  moreover obtain w' where "write_secret_file_0600 (host_key_path dir) ?key ?w = (Inr (), w')" "held w' (host_key_path dir) = Some ?key"
    using calm_secret_write [of ?w "host_key_path dir" ?key] assms(2) by (auto simp: plain_def)
  ultimately show ?thesis by (simp add: host_machine_binding_def rand_fill_def)
qed

section \<open>A small keystore\<close>

definition plain_codec :: "(bytes, bytes, bytes) keystore_codec" where
  "plain_codec = \<lparr>kn_pk_serialize = Inr, kn_pk_deserialize = Inr, kn_hex_encode = id, kn_hex_decode = Inr, kn_pubkeys_json = Inr,
     kn_pubkeys_parse = Inr, kn_npub_encode = Inr, kn_try_from = Inr, kn_kp_json = Inr, kn_kp_parse = Inr\<rparr>"

definition plain_curve :: "bytes curve" where
  "plain_curve = \<lparr>cv_vk_serialize = Inr, cv_pubkey_from_slice = Inr, cv_x_only = id, cv_tap_tweak = id, cv_p2tr_tweaked = (\<lambda>b h. b)\<rparr>"

text \<open>The group of a name: its public keys are the name, its shares the name under the holder's number.\<close>

definition group_of :: "bytes \<Rightarrow> string + (bytes, bytes) dealer_keyset" where
  "group_of b = Inr \<lparr>dk_shares = map (\<lambda>i. ([i], i # b)) [CHR 0x01, CHR 0x02, CHR 0x03], dk_pubkeys = b\<rparr>"

definition shares_of_name :: "bytes \<Rightarrow> (frost_id, bytes) tree" where
  "shares_of_name b = map (\<lambda>i. ([i], i # b)) [CHR 0x01, CHR 0x02, CHR 0x03]"

definition identity_of :: "bytes \<Rightarrow> bytes frost_identity" where
  "identity_of b = \<lparr>fi_pubkeys = b, fi_q_bytes = b, fi_npub = b, fi_keystore_path = pubkeys_path ''k''\<rparr>"

definition empty_world :: ks_world where "empty_world = \<lparr>kw_fs = Map.empty, kw_faults = [], kw_draws = 0\<rparr>"

lemma group_split: "split_keyset plain_codec (group_of b) = Inr (b, shares_of_name b)"
  by (simp add: split_keyset_def group_of_def key_packages_def plain_codec_def shares_of_name_def)

lemma group_ids: "dealt_ids (shares_of_name b)"
  by (simp add: dealt_ids_def shares_of_name_def share_indices_def identifier_to_u16_def be_val_def)

lemma group_deals [simp]: "deals_well plain_codec (group_of b)"
  by (simp add: deals_well_def group_split group_ids)

lemma group_storable: "length b \<le> 1 \<Longrightarrow> storable plain_codec b (shares_of_name b)"
  by (simp add: storable_def group_ids) (simp add: shares_of_name_def encode_pubkeys_def decode_pubkeys_def kp_bytes_def kp_parse_def
      plain_codec_def MAX_KEYSTORE_BYTES_def MAX_SHARE_BYTES_def)

lemma plain_bytes: "kp_bytes plain_codec b = Inr b"
  by (simp add: kp_bytes_def plain_codec_def)

lemma group_identity: "from_pubkeys plain_codec plain_curve b (pubkeys_path ''k'') = Inr (identity_of b)"
  by (simp add: from_pubkeys_def group_xonly_q_def taproot_address_def plain_curve_def plain_codec_def identity_of_def)

lemma empty_clean: "clean dir empty_world" "held empty_world p = None" "kw_faults empty_world = []"
  by (simp_all add: clean_def plain_iff empty_world_def held_def)

text \<open>A first attempt that dies in the middle of writing its first share.\<close>

definition crash :: "io_fault list" where "crash = [Io_ok, Io_ok, Io_ok, Io_ok, Io_ok, Io_fail 1]"

definition crashed :: ks_world where
  "crashed = run_ops plain_codec plain_curve ''k'' [Provision (group_of ''a'') crash] empty_world"

lemma crash_op: "op_ok plain_codec (Provision (group_of b) crash)" "op_ok plain_codec (Provision (group_of b) [])"
  by (simp_all add: stat_answers_def crash_def)

lemma crashed_unborn: "clean ''k'' crashed" "held crashed (pubkeys_path ''k'') = None"
proof -
  have i: "identifier_to_u16 [CHR 0x01] = 1" by (simp add: identifier_to_u16_def be_val_def)
  show "clean ''k'' crashed" unfolding crashed_def by (rule ops_born(1)) (use crash_op [of "''a''"] empty_clean in \<open>simp_all\<close>)
  show "held crashed (pubkeys_path ''k'') = None"
    by (simp add: crashed_def run_ops_def crash_def empty_world_def provision_keyset_at_def has_identity_anchor_def path_is_file_def next_io_def
        stat_node_def follow_def first_spawn_def create_dir_all_def sys_def group_split shares_of_name_def plain_bytes i
        write_file_0600_def lstat_def open_nofollow_def open_at_def set_node_def fchmod_def write_all_def put_bytes_def held_def
        share_paths pubkeys_path_def)
qed

lemma crashed_elsewhere: "kw_fs crashed (placement_path ''k'') = None"
proof -
  have i: "identifier_to_u16 [CHR 0x01] = 1" by (simp add: identifier_to_u16_def be_val_def)
  show ?thesis
    by (simp add: crashed_def run_ops_def crash_def empty_world_def provision_keyset_at_def has_identity_anchor_def path_is_file_def next_io_def
        stat_node_def follow_def first_spawn_def create_dir_all_def sys_def group_split shares_of_name_def plain_bytes i
        write_file_0600_def lstat_def open_nofollow_def open_at_def set_node_def fchmod_def write_all_def put_bytes_def
        share_paths placement_path_def PLACEMENT_FILE_def)
qed

lemma crashed_then_born:
  "\<exists>w :: ks_world. provision_keyset_at plain_codec plain_curve (group_of ''b'') ''k'' (crashed\<lparr>kw_faults := []\<rparr>) = (Inr (identity_of ''b''), w)
     \<and> calm w \<and> whole plain_codec ''k'' ''b'' (shares_of_name ''b'') w"
  by (rule calm_born [OF _ _ _ group_split group_storable group_identity]) (use crashed_unborn in simp_all)

lemma whole_anchor: "whole plain_codec dir b kps w \<Longrightarrow> held w (pubkeys_path dir) = Some b"
  by (auto simp: whole_def encode_pubkeys_def plain_codec_def)

theorem identity_born_once_witness:
  "held (run_ops plain_codec plain_curve ''k'' [Provision (group_of ''a'') crash, Provision (group_of ''b'') [], Provision (group_of ''c'') []] empty_world)
     (pubkeys_path ''k'') = Some ''b''"
proof -
  let ?ops1 = "[Provision (group_of ''a'') crash, Provision (group_of ''b'') []]"
  obtain w :: ks_world where w: "provision_keyset_at plain_codec plain_curve (group_of ''b'') ''k'' (crashed\<lparr>kw_faults := []\<rparr>) = (Inr (identity_of ''b''), w)"
    "whole plain_codec ''k'' ''b'' (shares_of_name ''b'') w" using crashed_then_born by blast
  have "run_ops plain_codec plain_curve ''k'' ?ops1 empty_world = w" using w(1) by (simp add: crashed_def run_ops_def)
  then have b: "held (run_ops plain_codec plain_curve ''k'' ?ops1 empty_world) (pubkeys_path ''k'') = Some ''b''"
    using whole_anchor [OF w(2)] by simp
  have "\<forall>op\<in>set (?ops1 @ [Provision (group_of ''c'') []]). op_ok plain_codec op"
    by (simp only: append.simps list.set ball_simps crash_op)
  from identity_born_once [OF empty_clean(1,2) this b] b show ?thesis by simp
qed

theorem born_then_loads_witness:
  "\<exists>w1 w2. provision_keyset_at plain_codec plain_curve (group_of ''b'') ''k''
       (run_ops plain_codec plain_curve ''k'' [Provision (group_of ''a'') crash] empty_world\<lparr>kw_faults := []\<rparr>) = (Inr (identity_of ''b''), w1)
     \<and> load_keyset_material_at plain_codec plain_curve ''k'' w1 = (Inr ([CHR 0x01 # ''b'', CHR 0x02 # ''b'', CHR 0x03 # ''b''], ''b''), w2)"
proof -
  have "\<forall>op\<in>set [Provision (group_of ''a'') crash]. op_ok plain_codec op" by (simp only: list.set ball_simps crash_op)
  from born_then_loads [OF empty_clean(1,2) this crashed_unborn(2) [unfolded crashed_def] group_split group_storable [of "''b''"] group_identity]
  show ?thesis by (auto simp: shares_of_name_def)
qed

theorem failed_stat_replaces_identity_witness:
  "\<exists>(w :: ks_world) w'. whole plain_codec ''k'' ''b'' (shares_of_name ''b'') w
     \<and> provision_keyset_at plain_codec plain_curve (group_of ''c'') ''k'' w = (Inr (identity_of ''c''), w')
     \<and> whole plain_codec ''k'' ''c'' (shares_of_name ''c'') w'"
proof -
  obtain w :: ks_world where "whole plain_codec ''k'' ''b'' (shares_of_name ''b'') w" using crashed_then_born by blast
  then have w: "whole plain_codec ''k'' ''b'' (shares_of_name ''b'') (w\<lparr>kw_faults := [Io_fail 0]\<rparr>)"
    by (simp add: whole_def shares_held_def)
  have f: "kw_faults (w\<lparr>kw_faults := [Io_fail 0]\<rparr>) = [Io_fail 0]" by simp
  from failed_stat_replaces_identity [OF w f group_split group_storable group_identity, of "''c''"] w show ?thesis by auto
qed

definition sample_manifest :: placement_manifest where
  "sample_manifest = \<lparr>pm_holders = [\<lparr>hp_identifier = 1, hp_label = ''x'', hp_address = ''p''\<rparr>,
     \<lparr>hp_identifier = 2, hp_label = ''y'', hp_address = ''q''\<rparr>, \<lparr>hp_identifier = 3, hp_label = ''z'', hp_address = ''r''\<rparr>]\<rparr>"

lemma sample_shape: "validate_shape sample_manifest = Inr ()"
  by (simp add: validate_shape_def sample_manifest_def SHARE_COUNT_def holder_fault_def pair_fault_def upt_rec)

definition far_sink :: "string \<Rightarrow> ks_world share_sink" where
  "far_sink l = \<lparr>sn_label = l, sn_put_share = (\<lambda>i d w. (Inr (), w)), sn_has_share = (\<lambda>i w. (False, w)),
     sn_get_share = (\<lambda>i w. (Inl (Share_missing i), w))\<rparr>"

theorem shares_stay_apart_witness:
  "provision_keyset_distributed (\<lambda>pm. Inr ''{}'', \<lambda>d. Inr sample_manifest) plain_codec plain_curve (group_of ''b'') ''k'' sample_manifest
       (fenced_sinks (own_share plain_codec (group_of ''b'')) [far_sink ''x'', far_sink ''y'', far_sink ''z'']) crashed
     = provision_keyset_distributed (\<lambda>pm. Inr ''{}'', \<lambda>d. Inr sample_manifest) plain_codec plain_curve (group_of ''b'') ''k'' sample_manifest
         [far_sink ''x'', far_sink ''y'', far_sink ''z''] crashed"
proof (rule shares_stay_apart)
  show "kw_faults crashed = [] \<or> kw_fs crashed (pubkeys_path ''k'') = None"
    using crashed_unborn clean_paths(1) [of "''k''" crashed] by (auto simp: plain_iff held_def)
qed

lemma born_elsewhere:
  assumes p: "provision_keyset_at kn cv dealt dir w = (x, w')" and c: "calm w" "clean dir w" "held w (pubkeys_path dir) = None"
    and d: "deals_well kn dealt" "q \<notin> keystore_paths dir"
  shows "shape w' q = shape w q"
proof -
  obtain b w1 where b: "has_identity_anchor dir w = (b, w1)" by fastforce
  note seen = anchor_seen [OF b _ clean_paths(1) [OF c(2)]]
  have "\<not> b" "w1 = w" using seen c(1,3) b by (auto simp: stat_answers_def has_identity_anchor_def path_is_file_def next_io_def)
  then have f: "first_spawn kn cv dealt dir w = (x, w')" using p b by (simp add: provision_keyset_at_def)
  show ?thesis using first_spawn_does(2) [OF f c(2) d(1) c(3)] d(2) by blast
qed

theorem failed_distribution_redirects_witness:
  "\<exists>(w :: ks_world) w'. whole plain_codec ''k'' ''b'' (shares_of_name ''b'') w
     \<and> provision_keyset_distributed (\<lambda>pm. Inr ''{}'', \<lambda>d. Inr sample_manifest) plain_codec plain_curve (group_of ''c'') ''k'' sample_manifest
         [far_sink ''x'', far_sink ''y'', far_sink ''z''] w = (Inl (Established ''shares'' (Share_missing 1)), w')
     \<and> whole plain_codec ''k'' ''b'' (shares_of_name ''b'') w'"
proof -
  obtain w :: ks_world where w: "provision_keyset_at plain_codec plain_curve (group_of ''b'') ''k'' (crashed\<lparr>kw_faults := []\<rparr>) = (Inr (identity_of ''b''), w)"
    "calm w" "whole plain_codec ''k'' ''b'' (shares_of_name ''b'') w" using crashed_then_born by blast
  have "placement_path ''k'' \<notin> keystore_paths ''k''"
    by (auto simp: keystore_paths_def placement_path_def pubkeys_path_def share_path_def PLACEMENT_FILE_def)
  then have "shape w (placement_path ''k'') = shape (crashed\<lparr>kw_faults := []\<rparr>) (placement_path ''k'')"
    using born_elsewhere [OF w(1) _ _ _ group_deals] crashed_unborn by simp
  then have "kw_fs w (placement_path ''k'') = None" by (simp add: shape_def crashed_elsewhere)
  note none = this
  have labels: "map sn_label [far_sink ''x'', far_sink ''y'', far_sink ''z''] = map hp_label (pm_holders sample_manifest)"
    by (simp add: far_sink_def sample_manifest_def)
  have json: "fst (\<lambda>pm. Inr ''{}'', \<lambda>d. Inr sample_manifest) sample_manifest = Inr ''{}''" by simp
  have has: "sn_has_share (far_sink ''x'') 1 v = (False, v)" for v by (simp add: far_sink_def)
  from conjunct2 [OF failed_distribution_redirects [OF w(3,2) none group_identity sample_shape json labels refl has,
        where dealt = "group_of ''c''"]] w(3) show ?thesis by blast
qed

definition clear_crypto :: seal_crypto where
  "clear_crypto = \<lparr>sx_hkdf = (\<lambda>ikm salt info. ikm), sx_encrypt = (\<lambda>k n a m. Some m), sx_decrypt = (\<lambda>k n a c. Some c),
     sx_random = (\<lambda>draw len. replicate len CHR 0x07)\<rparr>"

lemma clear_laws: "length d \<le> 1 \<Longrightarrow> seal_laws clear_crypto ikm label d"
  by (simp add: seal_laws_def clear_crypto_def NONCE_LEN_def MAX_SHARE_BYTES_def)

text \<open>A host without a machine id: the put makes the key file that the get reads.\<close>

theorem sealed_share_returns_witness:
  "\<exists>w1. sealed_put_share clear_crypto (host_machine_binding clear_crypto) ''k'' ''h'' 2 ''s'' empty_world = (Inr (), w1)
     \<and> (\<exists>w2. sn_get_share (local_sealed_sink clear_crypto (host_machine_binding clear_crypto) ''k'' ''h'') 2 w1 = (Inr ''s'', w2))"
proof -
  let ?b = "host_machine_binding clear_crypto :: ks_world machine_binding"
  have pre: "kw_faults empty_world = []" "\<forall>p\<in>seal_files ''k'' 2. plain empty_world p"
    "\<And>s. held empty_world (salt_path ''k'') = Some s \<Longrightarrow> length s = SALT_LEN"
    by (simp_all add: empty_world_def plain_iff held_def)
  from sealed_share_returns [OF pre clear_laws, of "''s''" "''h''"]
  obtain w1 :: ks_world where w1: "sealed_put_share clear_crypto ?b ''k'' ''h'' 2 ''s'' empty_world = (Inr (), w1)"
    "kw_faults w1 = []" "\<forall>p\<in>seal_files ''k'' 2. plain w1 p"
    "\<forall>v. kw_faults v = [] \<and> (\<forall>p\<in>seal_files ''k'' 2. plain v p \<and> held v p = held w1 p)
         \<longrightarrow> sn_has_share (local_sealed_sink clear_crypto ?b ''k'' ''h'') 2 v = (True, v)
           \<and> (\<exists>v'. sn_get_share (local_sealed_sink clear_crypto ?b ''k'' ''h'') 2 v = (Inr ''s'', v'))" by auto
  from w1(2,3) spec [OF w1(4), of w1]
  have "\<exists>w2. sn_get_share (local_sealed_sink clear_crypto ?b ''k'' ''h'') 2 w1 = (Inr ''s'', w2)" by blast
  with w1(1) show ?thesis by blast
qed

end
