(* ===== verification/Spec2Isabelle.thy ===== *)
theory Spec2Isabelle
  imports Treasury_Props Relay_Lease_Props Failover Fleet Fleet_Reconcile Gateway_Props Publish
    Meter_Props Egress_Props Quorum_Props Quorum_Ceremony Remote_Holder_Props Coordinator_Props Keyset_Store
    Hibernate_Samples Engram_Props Control_Plane_Props Keystore_Props
begin

text \<open>
  A verification library of kirby-node, the daemon that keeps an autonomous agent alive: it owns the
  agent's money, performs its acts, feeds it work, and moves it to another host when its host dies.

  \<^bold>\<open>The parts and how they meet.\<close> A genome (the agent, in a locked-down VM) reaches the world only
  through the gateway. The gateway runs a fixed order on each request: lease fence, dedupe, allowlist,
  budget, perform, debit. It debits the treasury, performs through a rail, a memory store or a
  settlement provider, and delivers verified events through an inbox. The lease fence reads a
  quorum-signed lease observed on Nostr relays. A fleet host watches the same leases to take over agents
  whose holder died, hands each agent its VM identity, and re-adopts or reaps the processes an earlier
  run left. A meter debits rent on every tick and stops the VM when the money is gone. What the agent
  signs, its outward notes among it, is signed by a FROST quorum of guardians, each behind a membrane of its own, in the
  process or across the network. An agent that cannot pay seals itself: its state becomes a bundle, its
  seed three Shamir shares with three holders, and whoever pays for it later wakes it through the
  holders' lease. Its wallet is mirrored to relays and comes back from them on another host, and so does what it
  remembers. The fleet host spawns agents on signed requests, launches and reaps them, and takes over those of dead
  peers.

  \<^bold>\<open>Which theory models what\<close> (all paths under \<open>crates/kirby-node/src\<close> unless named):
  \<^item> \<open>Prelude\<close>: \<open>u64\<close> arithmetic of the standard library (checked, saturating), decimal and UTF-8 text,
    big-endian bytes; the hint collections.
  \<^item> \<open>Store\<close>: a sled tree or \<open>BTreeMap\<close> as its ordered entry list. Interface \<open>kv_store\<close>, interpreted as
    \<open>sled\<close>; counting and summing facts are proved in the interface.
  \<^item> \<open>Treasury\<close>: \<open>treasury.rs\<close>, the four trees and two atomics (record \<open>treasury\<close>) and every operation.
    \<open>Treasury_Account\<close>: its representation invariant \<open>treasury_ok\<close>, one rule per operation, and histories
    (\<open>treasury_op\<close>, \<open>apply_ops\<close>, \<open>life\<close>). \<open>Treasury_Props\<close>: never-overspend, exactly-once, derived books.
  \<^item> \<open>Lease\<close>: \<open>lease.rs\<close>; interfaces \<open>spawn_fence_view\<close> and \<open>lease_authority\<close>. \<open>Relay_Lease\<close>:
    \<open>relay_lease.rs\<close>, the verified authority, the fleet observer, the grantor and the reader.
    \<open>Relay_Lease_Props\<close>: the interpretations \<open>relay\<close> and \<open>fleet\<close>, and the fencing properties.
  \<^item> \<open>Failover\<close>: \<open>failover_detect.rs\<close>. \<open>Fleet\<close>: the slot allocator of \<open>fleet.rs\<close>. \<open>Fleet_Reconcile\<close>:
    \<open>fleet_reconcile.rs\<close>.
  \<^item> \<open>Proto\<close>: the wire types of \<open>crates/kirby-proto\<close>. \<open>Inbox\<close>: the inbound queue of \<open>nerve.rs\<close>.
  \<^item> \<open>Rail\<close>: \<open>rail.rs\<close>, destinations, ceilings, the mock, ecash and composite rails, the stub brain.
    Interfaces \<open>capped_rail\<close> (a rail never reports more than its cap) and \<open>capped_actuator\<close>, from which a
    \<open>sublocale\<close> gives the composite rail. \<open>Publish\<close>: the outward Nostr actuator and its sanitizers, on
    which \<open>capped_actuator\<close> is interpreted. \<open>Memory_Store\<close>: the memory act's validation and the stub store;
    interface \<open>memory_store\<close>. \<open>Settlement\<close>: the Cashu and Lightning providers and the stranded-quote sink;
    interface \<open>settlement\<close>.
  \<^item> \<open>Gateway\<close>: \<open>gateway.rs\<close>, one definition per handler (\<open>authorize_capability\<close> and its forks,
    \<open>settle_charge\<close>, the settlement sweep, \<open>poll_inbox\<close>). \<open>Gateway_Account\<close>: every handler's effect on the
    treasury as a history of treasury operations, the refinement all accounting rests on.
    \<open>Gateway_Props\<close>: the gateway's promises.
  \<^item> \<open>Meter\<close>: \<open>meter.rs\<close> and the tick loop of \<open>metered_run.rs\<close>: the resource sources, the burn, the tick, the
    run. \<open>Meter_Props\<close>: the tick on every branch, that an agent that pays rent stops, the books, the rounding.
  \<^item> \<open>Egress\<close>: \<open>egress.rs\<close>, the address floor, the request screen, the metered fetch. \<open>Egress_Props\<close>: the floor
    as a list of networks, what is sent and what it costs.
  \<^item> \<open>Guardian\<close>: the membrane of \<open>crates/kirby-custody/src\<close> (\<open>guardian.rs\<close>, \<open>cosign_net.rs\<close>, \<open>lib.rs\<close>).
    \<open>Quorum\<close>: \<open>frost_identity.rs\<close>, \<open>qsigner.rs\<close> and \<open>quorum_signer.rs\<close>, the co-located holders, the subset search and
    the signer. \<open>Quorum_Props\<close>: what a membrane's yes binds, and that a nonce signs once.
    \<open>Quorum_Ceremony\<close>: interface \<open>vetting_holders\<close> (a holder that shares only after its membrane) and its
    extension \<open>local_quorum\<close>, interpreted on the co-located holders; the two shares of this very call an event rests on
    (\<open>quorum_signed\<close>), and liveness.
    \<open>Remote_Holder\<close> and \<open>Remote_Holder_Props\<close>: \<open>remote_holder.rs\<close>, and that it refines the local holder.
    \<open>Coordinator\<close> and \<open>Coordinator_Props\<close>: both ceremony drivers of custody (\<open>coordinator.rs\<close>, \<open>seam.rs\<close>).
    \<open>Keyset_Store\<close>: \<open>persist.rs\<close> and \<open>reshare.rs\<close>, over a file system whose writes may stop at any step.
  \<^item> \<open>Hibernate\<close>: \<open>hibernate.rs\<close> with \<open>shamir.rs\<close>, \<open>bundle.rs\<close> and \<open>holder.rs\<close> of \<open>hibernate/\<close>: records, seed shares,
    digest, the holder and its lease fence, over a disk whose operations may fail. \<open>Hibernate_Ceremony\<close>:
    \<open>seal.rs\<close>, \<open>wake.rs\<close> and \<open>unseal.rs\<close>. \<open>Hibernate_Props\<close>: what a write leaves, the fence, one live runtime.
    \<open>Hibernate_Seal\<close>: what a seal leaves, and that a revoked one never wakes. \<open>Hibernate_Wake\<close>: that two holders
    bring a committed one back. \<open>Hibernate_Live\<close>: that a seal settles. \<open>Hibernate_Samples\<close>: a concrete run.
  \<^item> \<open>Wallet_Counter\<close>: \<open>nip60_counter.rs\<close> and the counters of \<open>mint_rig.rs\<close>, the choke point every derivation index goes
    through. \<open>Wallet_Backup\<close>: \<open>nip60.rs\<close> and the flusher of \<open>rail.rs\<close>, the token and configuration planes on the relays.
    \<open>Wallet_Restore\<close>: \<open>nip60_reconcile.rs\<close> and the wallet's boot in \<open>boot.rs\<close>. \<open>Wallet_Counter_Props\<close>,
    \<open>Wallet_Backup_Props\<close> and \<open>Wallet_Recovery_Props\<close>: no index twice, over a life on several boxes (\<open>agent_life\<close>); no proof lost to
    up to \<open>f\<close> relays that acknowledge what they do not keep; every derivation after a boot (\<open>after_boot\<close>) above the backup;
    nothing published early.
  \<^item> \<open>Engram\<close>: \<open>engram.rs\<close> and the relay-backed store of \<open>rail.rs\<close>. \<open>Engram_Props\<close>: what was written last is read; interface
    \<open>retryable_store\<close>, which \<open>memory_store\<close> extends, is interpreted on it.
  \<^item> \<open>Spawn_Ledger\<close>: the durable ledger of \<open>spawn.rs\<close>; interface \<open>launch_ledger\<close>, interpreted as \<open>sled_ledger\<close>.
    \<open>Fleet_Supervisor\<close>: \<open>fleet_supervisor.rs\<close>, over a record \<open>host\<close> of what the supervisor asks of the world.
    \<open>Fleet_Supervisor_Props\<close>: its invariant \<open>fleet_ok\<close>, one rule per operation, and its lives (\<open>fleet_run\<close>); what a batch
    launched is read off a host that logs it (\<open>recording\<close>).
    \<open>Spawn\<close>: the rest of \<open>spawn.rs\<close>; interface \<open>counting_sink\<close>, interpreted on the supervisor.
    \<open>Control_Plane\<close>: the loop of \<open>kirby fleet\<close> in \<open>main.rs\<close>, its arms and its runs (\<open>plane_run\<close>).
    \<open>Control_Plane_Props\<close>: who may spawn, how often, once only, within what capacity, and when a takeover may happen.
  \<^item> \<open>Keystore\<close>: \<open>keyset_provisioning.rs\<close>, \<open>share_seal.rs\<close> and what \<open>frost_identity.rs\<close> persists: the files of an identity,
    its shares on one host or sealed across sinks, placement, the loaders. \<open>Keystore_Props\<close>: what each operation leaves
    when it stops anywhere, over the attempts of \<open>run_ops\<close>: one identity, whole shares, one share per holder.
  \<^item> this theory: what needs the gateway and the lease together.

  \<^bold>\<open>How state and effects are modelled.\<close> A Rust struct is a record, an enum a datatype, a \<open>u64\<close> a \<open>64 word\<close>
  that wraps where the release build wraps, a string its UTF-8 bytes. A method with \<open>&mut self\<close> or interior
  mutability takes the state and returns it. \<open>Result\<close> is a sum with the error on the left. Storage faults
  are an argument (\<open>sled_io\<close>): a transaction may fail and apply nothing, or be applied and its flush fail.
  A file system is a map from paths to nodes whose system calls take the next of a list of faults (\<open>ks_world\<close>), so that a
  call may fail at any point and a write part way through; a crash is a fault after which nothing else is done.
  Concurrency is explicit: each \<open>await\<close> of a gateway handler is a point at which the environment
  (\<open>call_env\<close>) commits any list of treasury operations; the inbox's two-step push and its long poll
  interleave with changes of the queue; other tasks use the treasury between two ticks of the meter and while its emitter
  publishes. Wall-clock time is an argument.

  \<^bold>\<open>What is a parameter\<close>: code outside this repository, that is SHA-256, Schnorr verification, HKDF, FROST and the
  curve, Shamir's scheme, prost and serde codecs, the CDK wallet and its mint, the relay transport, DNS, TLS and
  URL parsing, \<open>f64\<close> arithmetic, randomness. What a theorem needs of one of them is a hypothesis over the
  values it meets (\<open>frost_honest\<close>, \<open>hib_codec_ok\<close>, \<open>sss_ok\<close>, ...), and its witness instantiates it. \<open>frost_honest\<close> speaks only of
  shares made with nonces and commitments of one ceremony; \<open>token_relays\<close> lets up to \<open>f\<close> relays acknowledge what they do not keep
  and \<open>engram_relays\<close> starts from relays that may hold anything; that two slugs in use have different addresses is a hypothesis on
  the run itself.

  \<^bold>\<open>Bounds and termination\<close>: no definition uses fuel, except that a metered run is given the list of host
  readings it meets, and ends with it. Loops are structural recursions, except the allocator's slot search,
  whose measure is the number of slots left. \<open>rent_kills\<close> shows that a run ends before its readings do when
  there is one per sat and one more.

  \<^bold>\<open>Not modelled\<close>: the Routstr brains, checkpoints, threshold ECDH, the operator's funding flow, configuration parsing, VM back ends and the start-up wiring of the command line, the
  relay transport, the genome itself. Most of these are I/O around the parts above.
\<close>

section \<open>One node spends\<close>

text \<open>C4: No double burn: two nodes' gateways for one agent, fenced by relay leases that have observed the
  same events in any two orders, cannot both act. If a request changed anything at one and a request
  changed anything at the other, at whatever times and whatever terms their VMs were started under,
  they are the same node, provided no term of the agent was claimed under its quorum key by two holders.\<close>

theorem no_double_burn:
  assumes "set es1 = set es2"
    and "\<forall>c\<in>leases_for env ex a (set es1). \<forall>d\<in>leases_for env ex a (set es1).
      lc_term c = lc_term d \<longrightarrow> lc_holder_node_id c = lc_holder_node_id d"
    and "gw_lease_fence g1 = Some \<lparr>lf_agent_id = a, lf_vm_term = b1\<rparr>"
    and "gw_lease_fence g2 = Some \<lparr>lf_agent_id = a, lf_vm_term = b2\<rparr>"
    and "ce_fence_for env1 = fence_for (observe_all env es1 (rla_new n1 signer1 ex)) now1"
    and "ce_fence_for env2 = fence_for (observe_all env es2 (rla_new n2 signer2 ex)) now2"
    and "snd (authorize_capability g1 env1 req1 s1) \<noteq> s1"
    and "snd (authorize_capability g2 env2 req2 s2) \<noteq> s2"
  shows "n1 = n2"
proof -
  have "\<not> fenced_out g1 env1" and "\<not> fenced_out g2 env2"
    using assms(7,8) by (auto simp: authorize_capability_def)
  then have "may_act (fence_for (observe_all env es1 (rla_new n1 signer1 ex)) now1 a b1)"
    and "may_act (fence_for (observe_all env es2 (rla_new n2 signer2 ex)) now2 a b2)"
    by (simp_all add: fenced_out_def assms(3-6))
  from no_split_brain [OF assms(1,2) this] show ?thesis .
qed

text \<open>Node 2 took the agent over at term 3; both nodes have seen both leases.\<close>

abbreviation fenced_g :: "u64 \<Rightarrow> test_gateway" where
  "fenced_g b \<equiv> with_lease_fence_for ''a'' b test_g"

abbreviation fenced_env :: "lease_node_id \<Rightarrow> string list \<Rightarrow> call_env" where
  "fenced_env n es \<equiv> calm_env\<lparr>ce_fence_for := fence_for (test_node n es) 120\<rparr>"

lemma fence_open: "\<not> fenced_out (fenced_g 3) (fenced_env 2 [''x'', ''w''])"
  by (simp add: fenced_out_def with_lease_fence_for_def may_act_fresh observe_at_valid)

lemma fenced_spends: "snd (authorize_capability (fenced_g 3) (fenced_env 2 [''x'', ''w'']) (request ''k'' ecash_act) test_s) \<noteq> test_s"
proof -
  let ?s = "snd (authorize_capability (fenced_g 3) (fenced_env 2 [''x'', ''w'']) (request ''k'' ecash_act) test_s)"
  have "gs_rail ?s = \<lparr>mk_perform_calls = 1\<rparr>"
    unfolding authorize_capability_def if_not_P [OF fence_open]
    by (simp add: test_run ecash_act_def authorize_uniform_def mock_rail_def mock_perform_def Let_def
        with_lease_fence_for_def await_point_def saturating_add_def checked_add_def debit_and_record_ok
        word_le_nat_alt word_less_nat_alt)
  then show ?thesis by (auto dest: arg_cong [where f = gs_rail])
qed

theorem no_double_burn_witness:
  "snd (authorize_capability (fenced_g 2) (fenced_env 1 [''w'', ''x'']) (request ''k'' ecash_act) test_s) = test_s"
proof (rule ccontr)
  assume c: "snd (authorize_capability (fenced_g 2) (fenced_env 1 [''w'', ''x'']) (request ''k'' ecash_act) test_s) \<noteq> test_s"
  let ?es1 = "map (test_event ''a'') [''x'', ''w'']" and ?es2 = "map (test_event ''a'') [''w'', ''x'']"
  have e: "ce_fence_for (fenced_env 2 [''x'', ''w'']) =
      fence_for (observe_all (test_env test_decode) ?es1 (rla_new 2 None [''a'' \<mapsto> ''Q''])) 120"
    "ce_fence_for (fenced_env 1 [''w'', ''x'']) =
      fence_for (observe_all (test_env test_decode) ?es2 (rla_new 1 None [''a'' \<mapsto> ''Q''])) 120"
    by simp_all
  have f: "gw_lease_fence (fenced_g b) = Some \<lparr>lf_agent_id = ''a'', lf_vm_term = b\<rparr>" for b
    by (simp add: with_lease_fence_for_def)
  have "set ?es1 = set ?es2" and "\<forall>c\<in>leases_for (test_env test_decode) [''a'' \<mapsto> ''Q''] ''a'' (set ?es1).
      \<forall>d\<in>leases_for (test_env test_decode) [''a'' \<mapsto> ''Q''] ''a'' (set ?es1).
      lc_term c = lc_term d \<longrightarrow> lc_holder_node_id c = lc_holder_node_id d"
    by (auto simp: leases_for_def)
  from no_double_burn [OF this f f e fenced_spends c] show False by simp
qed

end
